(* ===== verification/C_Prelude.thy ===== *)
theory C_Prelude
  imports Main "HOL-Library.Word" "HOL-Library.Monad_Syntax"
begin

text \<open>
  What every component of the development shares: the C integer types of
  \<^verbatim>\<open>type.h\<close> as words, memory accesses with their bounds, the counted loop
  \<^verbatim>\<open>for(i = lo; i < hi; i++)\<close>, and the lemmas about them.

  An access outside an object is undefined behaviour in C. The model makes it a value:
  a load, a store or a remainder that C leaves undefined is \<open>None\<close>, and \<open>None\<close>
  is passed on by the option monad. A theorem that says an operation returns \<open>Some\<close>
  is therefore also a memory safety theorem.
\<close>

unbundle bit_operations_syntax

section \<open>Integer types\<close>

type_synonym u8 = "8 word"
type_synonym u16 = "16 word"
type_synonym u32 = "32 word"

named_theorems mem_simps
  \<open>rules that evaluate loads and stores whose index is in range\<close>

text \<open>The bytes of a string literal, without the zero byte behind it.\<close>

definition ascii :: "string \<Rightarrow> u8 list" where
  "ascii s = map of_char s"

section \<open>Loads and stores with their bounds\<close>

definition ld :: "'a list \<Rightarrow> nat \<Rightarrow> 'a option" where
  "ld xs i = (if i < length xs then Some (xs ! i) else None)"

definition st :: "'a list \<Rightarrow> nat \<Rightarrow> 'a \<Rightarrow> 'a list option" where
  "st xs i v = (if i < length xs then Some (xs[i := v]) else None)"

definition umod :: "'w::len word \<Rightarrow> 'w word \<Rightarrow> 'w word option" where
  "umod a b = (if b = 0 then None else Some (a mod b))"

lemma ld_in [mem_simps]: "i < length xs \<Longrightarrow> ld xs i = Some (xs ! i)"
  by (simp add: ld_def)

lemma ld_out [mem_simps]: "length xs \<le> i \<Longrightarrow> ld xs i = None"
  by (simp add: ld_def)

lemma st_in [mem_simps]: "i < length xs \<Longrightarrow> st xs i v = Some (xs[i := v])"
  by (simp add: st_def)

lemma st_out [mem_simps]: "length xs \<le> i \<Longrightarrow> st xs i v = None"
  by (simp add: st_def)

lemma st_SomeD: "st xs i v = Some ys \<Longrightarrow> i < length xs \<and> ys = xs[i := v]"
  by (simp add: st_def split: if_splits)

lemma ld_drop: "ld (drop i data) j = ld data (i + j)"
  by (auto simp: ld_def)

lemma ld_SomeD: "ld xs i = Some v \<Longrightarrow> i < length xs \<and> v = xs ! i"
  by (simp add: ld_def split: if_splits)

lemma umod_nz [mem_simps]: "b \<noteq> 0 \<Longrightarrow> umod a b = Some (a mod b)"
  by (simp add: umod_def)

section \<open>Counted loops\<close>

text \<open>
  \<open>for_range lo hi body s\<close> is \<^verbatim>\<open>for(i = lo; i < hi; i++) body\<close> over the state \<open>s\<close>;
  the body may fail, and then the loop fails.
\<close>

function for_range :: "nat \<Rightarrow> nat \<Rightarrow> (nat \<Rightarrow> 's \<Rightarrow> 's option) \<Rightarrow> 's \<Rightarrow> 's option" where
  "for_range lo hi body s =
     (if lo < hi then body lo s \<bind> for_range (Suc lo) hi body else Some s)"
  by pat_completeness auto
termination
  by (relation "measure (\<lambda>(lo, hi, body, s). hi - lo)") auto

declare for_range.simps [simp del]

lemma for_range_done [simp]: "hi \<le> lo \<Longrightarrow> for_range lo hi body s = Some s"
  by (subst for_range.simps) simp

lemma for_range_step: "lo < hi \<Longrightarrow>
    for_range lo hi body s = body lo s \<bind> for_range (Suc lo) hi body"
  by (subst for_range.simps) simp

lemma for_range_one [simp]: "for_range lo (Suc lo) body s = body lo s"
  by (cases "body lo s") (simp_all add: for_range_step)

lemma for_range_snoc:
  assumes "lo \<le> hi"
  shows "for_range lo (Suc hi) body s = for_range lo hi body s \<bind> body hi"
  using assms
proof (induction "hi - lo" arbitrary: lo s)
  case 0
  then show ?case by (simp add: for_range_step)
next
  case (Suc d)
  then have lt: "lo < hi" by simp
  then have lt': "lo < Suc hi" by simp
  from Suc.hyps(2) have d: "d = hi - Suc lo" by simp
  show ?case
  proof (cases "body lo s")
    case None
    then show ?thesis by (simp add: for_range_step[OF lt] for_range_step[OF lt'])
  next
    case (Some t)
    then show ?thesis
      using Suc.hyps(1)[OF d, of t] lt
      by (simp add: for_range_step[OF lt] for_range_step[OF lt'])
  qed
qed

text \<open>Total correctness of a counted loop from an invariant indexed by the counter.\<close>

lemma for_range_rule:
  assumes "lo \<le> hi" and "P lo s"
    and "\<And>i s. lo \<le> i \<Longrightarrow> i < hi \<Longrightarrow> P i s \<Longrightarrow> \<exists>t. body i s = Some t \<and> P (Suc i) t"
  shows "\<exists>t. for_range lo hi body s = Some t \<and> P hi t"
  using assms
proof (induction "hi - lo" arbitrary: lo s)
  case 0
  then show ?case by simp
next
  case (Suc d)
  then have lt: "lo < hi" by simp
  from Suc.prems(2,3) lt obtain t where t: "body lo s = Some t" "P (Suc lo) t"
    by blast
  from Suc.hyps(2) have "d = hi - Suc lo" by simp
  then have "\<exists>u. for_range (Suc lo) hi body t = Some u \<and> P hi u"
  proof (rule Suc.hyps(1))
    show "Suc lo \<le> hi" using lt by simp
    show "P (Suc lo) t" by (rule t)
    show "\<exists>t. body i s = Some t \<and> P (Suc i) t"
      if "Suc lo \<le> i" "i < hi" "P i s" for i s
      using Suc.prems(3) that by simp
  qed
  with t(1) lt show ?case by (simp add: for_range_step)
qed

lemma for_range_cong:
  assumes "\<And>i s. lo \<le> i \<Longrightarrow> i < hi \<Longrightarrow> f i s = g i s"
  shows "for_range lo hi f s = for_range lo hi g s"
  using assms
proof (induction "hi - lo" arbitrary: lo s)
  case 0
  then show ?case by simp
next
  case (Suc d)
  then have lt: "lo < hi" by simp
  have "for_range (Suc lo) hi f t = for_range (Suc lo) hi g t" for t
    using Suc.hyps(1)[of "Suc lo"] Suc.hyps(2) Suc.prems lt by simp
  with Suc.prems lt show ?case
    by (cases "f lo s") (simp_all add: for_range_step[OF lt] flip: Suc.prems)
qed

text \<open>A loop that reads the elements of an array one by one is a fold over its prefix.\<close>

lemma for_range_fold:
  assumes "n \<le> length xs" and "\<And>s x. body s x = Some (f s x)"
  shows "for_range 0 n (\<lambda>i s. ld xs i \<bind> body s) s = Some (foldl f s (take n xs))"
  using assms(1)
proof (induction n)
  case 0
  then show ?case by simp
next
  case (Suc n)
  then show ?case by (simp add: for_range_snoc ld_in assms(2) take_Suc_conv_app_nth)
qed

text \<open>Cutting a loop in two, and renumbering its turns.\<close>

lemma for_range_append:
  assumes "lo \<le> mid" and "mid \<le> hi"
  shows "for_range lo hi body s = for_range lo mid body s \<bind> for_range mid hi body"
  using assms(2,1)
proof (induction hi rule: dec_induct)
  case base
  then show ?case by (cases "for_range lo mid body s") simp_all
next
  case (step n)
  then show ?case
    by (cases "for_range lo mid body s") (simp_all add: for_range_snoc)
qed

lemma for_range_shift: "for_range a (a + n) f s = for_range b (b + n) (\<lambda>k. f (a + (k - b))) s"
  by (induction n) (simp_all add: for_range_snoc)

lemma for_range_skip:
  assumes "\<And>i s. lo \<le> i \<Longrightarrow> i < hi \<Longrightarrow> body i s = Some s"
  shows "for_range lo hi body s = Some s"
proof (cases "lo \<le> hi")
  case True
  have "\<exists>t. for_range lo hi body s = Some t \<and> t = s"
    by (rule for_range_rule[OF True]) (use assms in auto)
  then show ?thesis by simp
qed simp

text \<open>A counter in the state that every turn advances by the same amount.\<close>

lemma for_range_count:
  fixes c :: "'w::len word"
  assumes "\<And>k s t. body k s = Some t \<Longrightarrow> snd t = snd s + c"
  shows "for_range lo hi body s = Some t \<Longrightarrow> snd t = snd s + of_nat (hi - lo) * c"
proof (induction "hi - lo" arbitrary: lo s)
  case 0
  then show ?case by simp
next
  case (Suc d)
  then have lt: "lo < hi" by simp
  with Suc.prems obtain u where u: "body lo s = Some u" "for_range (Suc lo) hi body u = Some t"
    by (auto simp: for_range_step split: bind_splits)
  from Suc.hyps have d: "d = hi - Suc lo" by simp
  have "snd t = snd u + of_nat d * c" using Suc.hyps(1)[OF d u(2)] d by simp
  then show ?case using assms[OF u(1)] by (simp add: algebra_simps flip: Suc.hyps(2))
qed

text \<open>The last step of an operation stores the result of its loop in the state.\<close>

lemma bind_SomeE: "m \<bind> f = Some y \<Longrightarrow> (\<And>x. m = Some x \<Longrightarrow> f x = Some y \<Longrightarrow> P) \<Longrightarrow> P"
  by (auto simp: bind_eq_Some_conv)

lemma bind_SomeI:
  "\<exists>x. m = Some x \<and> P x \<Longrightarrow> r = m \<bind> (\<lambda>x. Some (g x)) \<Longrightarrow> \<exists>x. r = Some (g x) \<and> P x"
  by auto

section \<open>Words read as natural numbers\<close>

lemma unat_inc:
  fixes x :: "'w::len word"
  assumes "x < y"
  shows "unat (x + 1) = Suc (unat x)"
proof -
  have "x + 1 \<noteq> 0"
  proof
    assume "x + 1 = 0"
    then have "x = - 1" by (simp add: eq_neg_iff_add_eq_0)
    with assms show False using word_order.extremum_strict[of y] by simp
  qed
  then show ?thesis using unatSuc[of x] by (simp add: add.commute)
qed

lemma unat_inc_mod:
  fixes x :: "'w::len word"
  assumes "x < y"
  shows "unat ((x + 1) mod y) = Suc (unat x) mod unat y"
  using unat_inc[OF assms] by (simp add: unat_mod_distrib)

lemma sint_of_nat: "n < 2 ^ 31 \<Longrightarrow> sint (of_nat n :: u32) = int n"
  by (simp add: signed_of_nat signed_take_bit_int_eq_self)

lemma unat_of_nat_u32 [simp]: "n < 2 ^ 32 \<Longrightarrow> unat (of_nat n :: u32) = n"
  by (simp add: unat_of_nat take_bit_nat_eq_self_iff)

lemma unat_ucast_of_nat_8 [simp]: "k < 256 \<Longrightarrow> unat (ucast (of_nat k :: u32) :: u8) = k"
  by (simp add: unsigned_ucast_eq unsigned_of_nat take_bit_nat_eq_self)

lemma unat_ucast_of_nat_16 [simp]: "k < 65536 \<Longrightarrow> unat (ucast (of_nat k :: u32) :: u16) = k"
  by (simp add: unsigned_ucast_eq unsigned_of_nat take_bit_nat_eq_self)

lemma xor_cancel [simp]:
  fixes a :: "'w::len word"
  shows "(a XOR b = a XOR c) = (b = c)" "(b XOR a = c XOR a) = (b = c)"
  by (metis xor.assoc xor.commute xor_self_eq xor.left_neutral)+

lemma xor_eq_zero: "(a XOR b = 0) = (a = (b :: 'w::len word))"
  by (metis xor_cancel(1) xor_self_eq)

lemma unat_u8_less: "unat (x :: u8) < 256"
  using unsigned_less[of x, where 'a = nat] by simp

lemma word_less_high_bits:
  assumes "w < 2 ^ n" and "n \<le> m"
  shows "\<not> bit (w :: 'w::len word) m"
proof -
  have "0 < (2 :: 'w word) ^ n" using assms(1) by (metis word_coorder.not_eq_extremum word_not_simps(1))
  then have "uint w < 2 ^ n" using assms(1) by (simp add: word_less_def uint_2p)
  then have "take_bit n (uint w) = uint w" by (simp add: take_bit_int_eq_self)
  then have "take_bit n w = w" by (metis unsigned_take_bit_eq unsigned_word_eqI)
  then show ?thesis using assms(2) by (metis bit_take_bit_iff not_le)
qed

lemma unat_take_bit_less: "unat (take_bit n (w :: 'w::len word)) < 2 ^ n"
  using unsigned_take_bit_eq[of n w, where 'a = nat] take_bit_nat_less_exp[of n "unat w"] by simp

lemma and_mask_8: "x AND 0xFF = take_bit 8 (x :: 'w::len word)"
proof -
  have "(0xFF :: 'w word) = mask 8" by (simp add: mask_eq_decr_exp)
  then show ?thesis by (simp add: take_bit_eq_mask)
qed

lemma unat_take_bit_8: "unat (take_bit 8 (x :: 'w::len word)) < 256"
proof -
  have "take_bit 8 (unat x) < 2 ^ 8" by (rule take_bit_nat_less_exp)
  then show ?thesis by (simp add: unsigned_take_bit_eq)
qed

section \<open>Indices round a ring\<close>

lemma mod_ring:
  fixes t n s :: nat
  assumes "t < s" and "n \<le> s"
  shows "(t + n) mod s = (if t + n < s then t + n else t + n - s)"
  using assms by (auto simp: le_mod_geq)

lemma mod_window_neq:
  fixes t n s j :: nat
  assumes "j < n" and "n - j < s"
  shows "(t + j) mod s \<noteq> (t + n) mod s"
proof
  assume "(t + j) mod s = (t + n) mod s"
  then have "s dvd (t + n) - (t + j)"
    using mod_eq_dvd_iff_nat[of "t + j" "t + n" s] assms(1) by simp
  then have "s dvd n - j" by simp
  then show False using assms by (simp add: nat_dvd_not_less)
qed

lemma mod_window_shift:
  fixes size n k t :: nat
  assumes "size \<le> n"
  shows "(t + n + k) mod size = (t + (n - size + k)) mod size"
proof -
  have "t + n + k = (t + (n - size + k)) + size" using assms by simp
  then show ?thesis by (metis mod_add_self2)
qed

section \<open>Lists\<close>

text \<open>The last \<open>n\<close> elements of a list: what a queue of capacity \<open>n\<close> keeps.\<close>

definition lastn :: "nat \<Rightarrow> 'a list \<Rightarrow> 'a list" where
  "lastn n xs = drop (length xs - n) xs"

lemma lastn_all [simp]: "length xs \<le> n \<Longrightarrow> lastn n xs = xs"
  by (simp add: lastn_def)

lemma length_lastn [simp]: "length (lastn n xs) = min n (length xs)"
  by (simp add: lastn_def)

lemma lastn_append: "lastn n (lastn n xs @ ys) = lastn n (xs @ ys)"
  by (cases "length xs \<le> n") (auto simp: lastn_def add.commute)

lemma drop_take_Cons:
  "i < n \<Longrightarrow> n \<le> length xs \<Longrightarrow> drop i (take n xs) = xs ! i # drop (Suc i) (take n xs)"
  by (simp add: Cons_nth_drop_Suc[symmetric])

end
