(* ===== verification/Cycle_Queue.thy ===== *)
theory Cycle_Queue
  imports C_Prelude
begin

text \<open>
  The ring buffer of \<^verbatim>\<open>platform/coolsand/src/cycle_queue.c\<close>, which carries every
  received UART byte from the interrupt to the Lua shell, and the interface
  \<open>byte_fifo\<close> its clients rely on: a bounded queue that drops its oldest bytes
  when it overflows.
\<close>

section \<open>The code\<close>

record cqueue =
  cq_buf :: "u8 list"
  cq_size :: u32
  cq_head :: u32
  cq_tail :: u32
  cq_empty :: bool
  cq_full :: bool
  cq_overflow :: bool

definition QueueClean :: "cqueue \<Rightarrow> cqueue" where
  "QueueClean q = q\<lparr>cq_head := 0, cq_tail := 0, cq_empty := True, cq_full := False,
                    cq_overflow := False\<rparr>"

text \<open>One turn of the loop of \<^verbatim>\<open>QueueInsert\<close>, for the byte it stores.\<close>

definition QueueInsert_body :: "u8 \<Rightarrow> cqueue \<Rightarrow> cqueue option" where
  "QueueInsert_body x q = do {
     buf \<leftarrow> st (cq_buf q) (unat (cq_head q)) x;
     let ovf = (if cq_full q \<and> cq_head q = cq_tail q then True else cq_overflow q);
     head \<leftarrow> umod (cq_head q + 1) (cq_size q);
     Some (q\<lparr>cq_buf := buf, cq_head := head, cq_overflow := ovf,
             cq_full := (if head = cq_tail q then True else cq_full q),
             cq_empty := (if cq_empty q then False else cq_empty q)\<rparr>)
   }"

definition QueueInsert :: "cqueue \<Rightarrow> u8 list \<Rightarrow> u32 \<Rightarrow> (cqueue \<times> u32) option" where
  "QueueInsert q data len = do {
     q' \<leftarrow> for_range 0 (unat len) (\<lambda>ret q. do { x \<leftarrow> ld data ret; QueueInsert_body x q }) q;
     Some (if cq_overflow q' then q'\<lparr>cq_tail := cq_head q'\<rparr> else q', len)
   }"

text \<open>
  The loop of \<^verbatim>\<open>QueueDelete\<close>, left by \<^verbatim>\<open>break\<close> when the tail meets the head; the
  first argument is \<open>len - ret\<close>.
\<close>

fun QueueDelete_loop ::
    "nat \<Rightarrow> nat \<Rightarrow> cqueue \<Rightarrow> u8 list \<Rightarrow> (cqueue \<times> u8 list \<times> nat) option" where
  "QueueDelete_loop 0 ret q data = Some (q, data, ret)"
| "QueueDelete_loop (Suc left) ret q data = do {
     x \<leftarrow> ld (cq_buf q) (unat (cq_tail q));
     data' \<leftarrow> st data ret x;
     tail \<leftarrow> umod (cq_tail q + 1) (cq_size q);
     (if tail = cq_head q
      then Some (q\<lparr>cq_tail := tail, cq_empty := True\<rparr>, data', Suc ret)
      else QueueDelete_loop left (Suc ret) (q\<lparr>cq_tail := tail\<rparr>) data')
   }"

definition QueueDelete :: "cqueue \<Rightarrow> u8 list \<Rightarrow> u32 \<Rightarrow> (cqueue \<times> u8 list \<times> u32) option" where
  "QueueDelete q data len = do {
     (q', data', ret) \<leftarrow> (if \<not> cq_empty q then QueueDelete_loop (unat len) 0 q data
                          else Some (q, data, 0));
     Some (if 0 < ret \<and> cq_full q' then q'\<lparr>cq_full := False, cq_overflow := False\<rparr> else q',
           data', of_nat ret)
   }"

section \<open>What the queue holds\<close>

text \<open>
  The queue's contents, oldest byte first: \<open>cq_count\<close> bytes read round the buffer from
  the tail. The invariant ties the two flags to the two indices.
\<close>

definition cq_count :: "cqueue \<Rightarrow> nat" where
  "cq_count q = (if cq_empty q then 0
                 else if cq_tail q < cq_head q then unat (cq_head q) - unat (cq_tail q)
                 else unat (cq_size q) - unat (cq_tail q) + unat (cq_head q))"

definition cq_list :: "cqueue \<Rightarrow> u8 list" where
  "cq_list q = map (\<lambda>k. cq_buf q ! ((unat (cq_tail q) + k) mod unat (cq_size q))) [0..<cq_count q]"

definition cq_inv :: "cqueue \<Rightarrow> bool" where
  "cq_inv q \<longleftrightarrow> 0 < cq_size q \<and> length (cq_buf q) = unat (cq_size q) \<and>
     cq_head q < cq_size q \<and> cq_tail q < cq_size q \<and>
     (cq_empty q \<longrightarrow> cq_head q = cq_tail q \<and> \<not> cq_full q) \<and>
     (cq_full q \<longrightarrow> cq_head q = cq_tail q) \<and>
     (cq_head q = cq_tail q \<longrightarrow> cq_empty q \<or> cq_full q) \<and>
     (cq_overflow q \<longrightarrow> cq_full q)"

definition cq_cap :: "cqueue \<Rightarrow> nat" where
  "cq_cap q = unat (cq_size q)"

section \<open>Ring representation\<close>

text \<open>
  Between two stores the buffer is a window on everything inserted since the tail was
  fixed: \<open>ys\<close> is that history, and the last \<open>size\<close> elements of it are in the buffer.
\<close>

definition cq_ring :: "cqueue \<Rightarrow> u8 list \<Rightarrow> bool" where
  "cq_ring q ys \<longleftrightarrow>
     (let s = unat (cq_size q); t = unat (cq_tail q); n = length ys in
      cq_tail q < cq_size q \<and> length (cq_buf q) = s \<and>
      unat (cq_head q) = (t + n) mod s \<and>
      (\<forall>j < n. n \<le> j + s \<longrightarrow> cq_buf q ! ((t + j) mod s) = ys ! j) \<and>
      (cq_empty q \<longleftrightarrow> ys = []) \<and> (cq_full q \<longleftrightarrow> s \<le> n) \<and>
      (cq_overflow q \<longrightarrow> s \<le> n) \<and> (s < n \<longrightarrow> cq_overflow q))"

lemma cq_inv_buf: "cq_inv q \<Longrightarrow> cq_buf q \<noteq> []"
  by (auto simp: cq_inv_def word_less_nat_alt)

lemma length_cq_list [simp]: "length (cq_list q) = cq_count q"
  by (simp add: cq_list_def)

lemma nth_cq_list:
  "j < cq_count q \<Longrightarrow>
     cq_list q ! j = cq_buf q ! ((unat (cq_tail q) + j) mod unat (cq_size q))"
  by (simp add: cq_list_def)

lemma cq_count_facts:
  assumes "cq_inv q"
  shows "unat (cq_head q) = (unat (cq_tail q) + cq_count q) mod unat (cq_size q)"
    and "cq_count q \<le> unat (cq_size q)"
    and "cq_empty q \<longleftrightarrow> cq_count q = 0"
    and "cq_full q \<longleftrightarrow> cq_count q = unat (cq_size q)"
  using assms by (auto simp: cq_inv_def cq_count_def word_less_nat_alt mod_ring word_unat_eq_iff)

lemma cq_inv_ring:
  assumes inv: "cq_inv q"
  shows "cq_ring q (cq_list q)"
proof -
  note f = cq_count_facts[OF inv]
  have g: "cq_tail q < cq_size q" "length (cq_buf q) = unat (cq_size q)"
      "cq_overflow q \<Longrightarrow> cq_full q"
    using inv by (auto simp: cq_inv_def)
  have e: "cq_list q = [] \<longleftrightarrow> cq_count q = 0"
    by (metis length_cq_list length_0_conv)
  show ?thesis
    unfolding cq_ring_def Let_def length_cq_list e
    using f(2) g(3) by (auto simp add: f(1,3,4) g(1,2) nth_cq_list)
qed

lemma cq_ring_inv:
  assumes r: "cq_ring q ys"
  defines "q' \<equiv> if cq_overflow q then q\<lparr>cq_tail := cq_head q\<rparr> else q"
  shows "cq_inv q' \<and> cq_list q' = lastn (unat (cq_size q)) ys"
proof -
  let ?s = "unat (cq_size q)" and ?t = "unat (cq_tail q)" and ?n = "length ys"
  have s0: "0 < ?s" and t: "?t < ?s" and h: "unat (cq_head q) = (?t + ?n) mod ?s"
    and buf: "\<And>j. j < ?n \<Longrightarrow> ?n \<le> j + ?s \<Longrightarrow> cq_buf q ! ((?t + j) mod ?s) = ys ! j"
    and len: "length (cq_buf q) = ?s"
    and fl: "cq_empty q \<longleftrightarrow> ys = []" "cq_full q \<longleftrightarrow> ?s \<le> ?n"
      "cq_overflow q \<Longrightarrow> ?s \<le> ?n" "?s < ?n \<Longrightarrow> cq_overflow q"
    using r by (auto simp: cq_ring_def Let_def word_less_nat_alt)
  show ?thesis
  proof (cases "cq_overflow q")
    case True
    with fl have n: "?s \<le> ?n" by simp
    have ne: "ys \<noteq> []" using n s0 by auto
    have inv: "cq_inv q'"
      using True fl n ne s0 h len by (auto simp: q'_def cq_inv_def word_less_nat_alt)
    have cnt: "cq_count q' = ?s"
      using True fl ne h s0 by (simp add: q'_def cq_count_def)
    have "cq_buf q ! (((?t + ?n) mod ?s + k) mod ?s) = ys ! (?n - ?s + k)" if "k < ?s" for k
      using buf[of "?n - ?s + k"] that n mod_window_shift[OF n, of ?t k]
      by (simp add: mod_add_left_eq)
    then have "cq_list q' = lastn ?s ys"
      using True h cnt n by (intro nth_equalityI) (auto simp: cq_list_def q'_def lastn_def)
    with inv show ?thesis by simp
  next
    case False
    with fl have n: "?n \<le> ?s" by (meson leI)
    have inv: "cq_inv q"
      using False fl n h s0 t len mod_ring[OF t n]
      by (auto simp: cq_inv_def word_less_nat_alt word_unat_eq_iff split: if_splits)
    have cnt: "cq_count q = ?n"
      using fl h n s0 t mod_ring[OF t n] by (auto simp: cq_count_def word_less_nat_alt)
    have "cq_list q = ys"
      using cnt buf n by (intro nth_equalityI) (auto simp: cq_list_def)
    with inv False n show ?thesis by (simp add: q'_def)
  qed
qed

section \<open>Insertion\<close>

lemma QueueInsert_body_ring:
  assumes r: "cq_ring q ys"
  shows "\<exists>q'. QueueInsert_body x q = Some q' \<and> cq_ring q' (ys @ [x]) \<and>
           cq_size q' = cq_size q \<and> cq_tail q' = cq_tail q"
proof -
  let ?s = "unat (cq_size q)" and ?t = "unat (cq_tail q)" and ?n = "length ys"
  have s0: "0 < ?s" and t: "?t < ?s" and h: "unat (cq_head q) = (?t + ?n) mod ?s"
    and buf: "\<And>j. j < ?n \<Longrightarrow> ?n \<le> j + ?s \<Longrightarrow> cq_buf q ! ((?t + j) mod ?s) = ys ! j"
    and len: "length (cq_buf q) = ?s"
    and fl: "cq_empty q \<longleftrightarrow> ys = []" "cq_full q \<longleftrightarrow> ?s \<le> ?n"
      "cq_overflow q \<Longrightarrow> ?s \<le> ?n" "?s < ?n \<Longrightarrow> cq_overflow q"
    using r by (auto simp: cq_ring_def Let_def word_less_nat_alt)
  have hs: "cq_head q < cq_size q" using h s0 by (simp add: word_less_nat_alt)
  have nz: "cq_size q \<noteq> 0" using s0 by (auto simp: unat_gt_0)
  have h': "unat ((cq_head q + 1) mod cq_size q) = (?t + Suc ?n) mod ?s"
    using unat_inc_mod[OF hs] h by (simp add: mod_Suc_eq)
  have tail: "(cq_head q + 1) mod cq_size q = cq_tail q \<longleftrightarrow> (?t + Suc ?n) mod ?s = ?t"
    using h' by (simp add: word_unat_eq_iff)
  have full: "(?t + Suc ?n) mod ?s = ?t \<or> ?s \<le> ?n \<longleftrightarrow> ?s \<le> Suc ?n"
  proof (cases "?s = Suc ?n")
    case True
    with t show ?thesis by (simp only: mod_add_self2) simp
  next
    case False
    moreover have "(?t + Suc ?n) mod ?s \<noteq> ?t" if "Suc ?n < ?s"
      using mod_window_neq[of 0 "Suc ?n" ?s ?t] t that by simp
    ultimately show ?thesis by linarith
  qed
  have same: "cq_head q = cq_tail q \<longleftrightarrow> (?t + ?n) mod ?s = ?t"
    using h by (simp add: word_unat_eq_iff)
  have upd: "(cq_buf q)[(?t + ?n) mod ?s := x] ! ((?t + j) mod ?s) = (ys @ [x]) ! j"
    if "j < Suc ?n" "Suc ?n \<le> j + ?s" for j
  proof (cases "j = ?n")
    case True
    then show ?thesis using s0 len by simp
  next
    case False
    with that have "j < ?n" "?n - j < ?s" by linarith+
    then show ?thesis
      using that buf[of j] mod_window_neq[of j ?n ?s ?t] by (simp add: nth_append)
  qed
  let ?q = "q\<lparr>cq_buf := (cq_buf q)[(?t + ?n) mod ?s := x],
              cq_head := (cq_head q + 1) mod cq_size q,
              cq_overflow := (if cq_full q \<and> cq_head q = cq_tail q then True else cq_overflow q),
              cq_full := (if (cq_head q + 1) mod cq_size q = cq_tail q then True else cq_full q),
              cq_empty := (if cq_empty q then False else cq_empty q)\<rparr>"
  have i: "(?t + ?n) mod ?s < length (cq_buf q)" using s0 len by simp
  have run: "QueueInsert_body x q = Some ?q"
    by (simp add: QueueInsert_body_def h st_in[OF i] umod_nz[OF nz])
  have over: "?s = ?n \<Longrightarrow> (?t + ?n) mod ?s = ?t" using t mod_add_self2[of ?t ?s] by simp
  have "cq_full ?q \<longleftrightarrow> (?t + Suc ?n) mod ?s = ?t \<or> ?s \<le> ?n"
    by (simp add: tail fl(2))
  then have flags: "cq_full ?q \<longleftrightarrow> ?s \<le> Suc ?n"
    unfolding full .
  have ovf': "?s \<le> Suc ?n" if "cq_overflow ?q"
  proof -
    from that have "cq_full q \<or> cq_overflow q" by (simp split: if_splits)
    with fl(2,3) show ?thesis by (meson le_SucI)
  qed
  have ovf: "cq_overflow ?q" if "?s < Suc ?n"
    using that fl(2,4) over by (cases "?s = ?n") (simp_all add: same)
  obtain q' where q': "q' = ?q" by blast
  have fields: "cq_size q' = cq_size q" "cq_tail q' = cq_tail q"
      "cq_buf q' = (cq_buf q)[(?t + ?n) mod ?s := x]"
      "unat (cq_head q') = (?t + Suc ?n) mod ?s"
      "cq_full q' \<longleftrightarrow> ?s \<le> Suc ?n" "cq_empty q' \<longleftrightarrow> False"
      "cq_overflow q' \<longrightarrow> ?s \<le> Suc ?n" "?s < Suc ?n \<longrightarrow> cq_overflow q'"
    unfolding q' using flags ovf ovf' h' by simp_all
  have "cq_ring q' (ys @ [x])"
    unfolding cq_ring_def Let_def fields(1-6)
    using upd fields(7,8) t len by (auto simp: word_less_nat_alt)
  with run q' fields(1,2) show ?thesis by simp
qed

lemma QueueInsert_loop_ring:
  assumes "cq_ring q ys" and "k \<le> length data"
  shows "\<exists>q'. for_range 0 k (\<lambda>ret q. do { x \<leftarrow> ld data ret; QueueInsert_body x q }) q = Some q' \<and>
           cq_ring q' (ys @ take k data) \<and> cq_size q' = cq_size q"
proof (rule for_range_rule)
  show "(0::nat) \<le> k" by simp
  show "cq_ring q (ys @ take 0 data) \<and> cq_size q = cq_size q" using assms(1) by simp
  fix i q'
  assume "i < k" and P: "cq_ring q' (ys @ take i data) \<and> cq_size q' = cq_size q"
  then have i: "i < length data" using assms(2) by simp
  from P QueueInsert_body_ring[of q' "ys @ take i data" "data ! i"] i
  show "\<exists>t. (do { x \<leftarrow> ld data i; QueueInsert_body x q' }) = Some t \<and>
           cq_ring t (ys @ take (Suc i) data) \<and> cq_size t = cq_size q"
    by (auto simp: ld_in take_Suc_conv_app_nth)
qed

lemma QueueInsert_correct:
  assumes "cq_inv q" and "unat len \<le> length data"
  shows "\<exists>q'. QueueInsert q data len = Some (q', len) \<and> cq_inv q' \<and> cq_size q' = cq_size q \<and>
           cq_list q' = lastn (unat (cq_size q)) (cq_list q @ take (unat len) data)"
proof -
  from QueueInsert_loop_ring[OF cq_inv_ring[OF assms(1)] assms(2)]
  obtain r where r: "for_range 0 (unat len)
        (\<lambda>ret q. do { x \<leftarrow> ld data ret; QueueInsert_body x q }) q = Some r"
      "cq_ring r (cq_list q @ take (unat len) data)" "cq_size r = cq_size q"
    by blast
  from cq_ring_inv[OF r(2)] r(1,3) show ?thesis
    by (auto simp: QueueInsert_def)
qed

section \<open>Deletion\<close>

text \<open>
  While the loop runs the flags lag behind the indices; what it keeps is that the bytes
  from the tail on are \<open>xs\<close>.
\<close>

definition cq_window :: "cqueue \<Rightarrow> u8 list \<Rightarrow> bool" where
  "cq_window q xs \<longleftrightarrow>
     (let s = unat (cq_size q); t = unat (cq_tail q) in
      t < s \<and> length (cq_buf q) = s \<and> length xs \<le> s \<and>
      unat (cq_head q) = (t + length xs) mod s \<and>
      (\<forall>j < length xs. cq_buf q ! ((t + j) mod s) = xs ! j))"

lemma cq_window_ring:
  assumes "cq_window q xs" and "cq_empty q \<longleftrightarrow> xs = []"
    and "cq_full q \<longleftrightarrow> length xs = unat (cq_size q)" and "\<not> cq_overflow q"
  shows "cq_inv q \<and> cq_list q = xs"
proof -
  have "cq_ring q xs"
    using assms by (auto simp: cq_window_def cq_ring_def Let_def word_less_nat_alt)
  moreover have "length xs \<le> unat (cq_size q)"
    using assms(1) by (simp add: cq_window_def Let_def)
  ultimately show ?thesis
    using cq_ring_inv[of q xs] assms(4) by simp
qed

lemma cq_inv_window: "cq_inv q \<Longrightarrow> cq_window q (cq_list q)"
  using cq_count_facts[of q] cq_inv_ring[of q]
  by (simp add: cq_window_def cq_ring_def Let_def word_less_nat_alt)

lemma QueueDelete_advance:
  assumes w: "cq_window q (x # xs)"
  defines "t' \<equiv> (cq_tail q + 1) mod cq_size q"
  shows "ld (cq_buf q) (unat (cq_tail q)) = Some x"
    and "umod (cq_tail q + 1) (cq_size q) = Some t'"
    and "t' = cq_head q \<longleftrightarrow> xs = []"
    and "cq_window (q\<lparr>cq_tail := t'\<rparr>) xs"
proof -
  let ?s = "unat (cq_size q)" and ?t = "unat (cq_tail q)"
  have t: "?t < ?s" and len: "length (cq_buf q) = ?s" and n: "Suc (length xs) \<le> ?s"
    and h: "unat (cq_head q) = (?t + Suc (length xs)) mod ?s"
    and buf: "\<And>j. j < Suc (length xs) \<Longrightarrow> cq_buf q ! ((?t + j) mod ?s) = (x # xs) ! j"
    using w by (auto simp: cq_window_def Let_def)
  show "ld (cq_buf q) ?t = Some x"
    using t len buf[of 0] by (simp add: ld_in)
  have nz: "cq_size q \<noteq> 0" using t by auto
  then show "umod (cq_tail q + 1) (cq_size q) = Some t'"
    by (simp add: t'_def umod_nz)
  have t': "unat t' = Suc ?t mod ?s"
    unfolding t'_def by (rule unat_inc_mod) (use t in \<open>simp add: word_less_nat_alt\<close>)
  have "Suc ?t mod ?s = (?t + Suc (length xs)) mod ?s \<longleftrightarrow> xs = []"
    using mod_window_neq[of 1 "Suc (length xs)" ?s ?t] n by (cases xs) auto
  then show "t' = cq_head q \<longleftrightarrow> xs = []"
    using t' h by (simp add: word_unat_eq_iff)
  have "cq_buf q ! ((Suc ?t mod ?s + j) mod ?s) = xs ! j" if "j < length xs" for j
    using buf[of "Suc j"] that by (simp add: mod_add_left_eq)
  then show "cq_window (q\<lparr>cq_tail := t'\<rparr>) xs"
    using t len n h t' by (simp add: cq_window_def Let_def mod_add_left_eq)
qed

lemma QueueDelete_loop_window:
  assumes "cq_window q xs" and "xs \<noteq> []" and "ret + left \<le> length out"
  shows "\<exists>q'. QueueDelete_loop left ret q out =
           Some (q', take ret out @ take left xs @ drop (ret + min left (length xs)) out,
                 ret + min left (length xs)) \<and>
         cq_window q' (drop left xs) \<and> cq_size q' = cq_size q \<and>
         cq_full q' = cq_full q \<and> cq_overflow q' = cq_overflow q \<and>
         (cq_empty q' \<longleftrightarrow> cq_empty q \<or> length xs \<le> left)"
  using assms
proof (induction left arbitrary: ret q out xs)
  case 0
  then show ?case by auto
next
  case (Suc left)
  then obtain x xs' where xs: "xs = x # xs'" by (cases xs) auto
  note adv = QueueDelete_advance[OF Suc.prems(1)[unfolded xs]]
  have ret: "ret < length out" using Suc.prems(3) by simp
  let ?t = "(cq_tail q + 1) mod cq_size q"
  show ?case
  proof (cases "xs' = []")
    case True
    then show ?thesis
      using adv ret xs Suc.prems
      by (auto simp: st_in cq_window_def Let_def upd_conv_take_nth_drop)
  next
    case False
    have out': "length (out[ret := x]) = length out"
        "take (Suc ret) (out[ret := x]) = take ret out @ [x]"
      using ret by (simp_all add: take_Suc_conv_app_nth)
    have "Suc ret + left \<le> length (out[ret := x])" using Suc.prems(3) by simp
    from Suc.IH[OF adv(4) False this] obtain q' where
      "QueueDelete_loop left (Suc ret) (q\<lparr>cq_tail := ?t\<rparr>) (out[ret := x]) =
         Some (q', take ret out @ x # take left xs' @ drop (Suc ret + min left (length xs')) out,
               Suc ret + min left (length xs'))"
      "cq_window q' (drop left xs')" "cq_size q' = cq_size q" "cq_full q' = cq_full q"
      "cq_overflow q' = cq_overflow q" "cq_empty q' \<longleftrightarrow> cq_empty q \<or> length xs' \<le> left"
      unfolding out' by auto
    then show ?thesis
      using adv ret False by (simp add: xs st_in)
  qed
qed

lemma QueueDelete_correct:
  assumes inv: "cq_inv q" and len: "unat len \<le> length out"
  defines "k \<equiv> min (unat len) (cq_count q)"
  shows "\<exists>q'. QueueDelete q out len = Some (q', take k (cq_list q) @ drop k out, of_nat k) \<and>
           cq_inv q' \<and> cq_size q' = cq_size q \<and> cq_list q' = drop k (cq_list q)"
proof (cases "k = 0")
  case True
  note f = cq_count_facts[OF inv]
  from True have "cq_empty q \<or> unat len = 0" using f(3) by (auto simp: k_def min_def split: if_splits)
  then show ?thesis using inv True by (auto simp: QueueDelete_def)
next
  case False
  note f = cq_count_facts[OF inv]
  have ne: "\<not> cq_empty q" "cq_list q \<noteq> []"
    using False f(3) by (auto simp: k_def simp flip: length_0_conv)
  from QueueDelete_loop_window[OF cq_inv_window[OF inv] ne(2), of 0 "unat len" out] len
  obtain r where r: "QueueDelete_loop (unat len) 0 q out =
         Some (r, take (unat len) (cq_list q) @ drop k out, k)"
      "cq_window r (drop (unat len) (cq_list q))" "cq_size r = cq_size q"
      "cq_full r = cq_full q" "cq_overflow r = cq_overflow q"
      "cq_empty r \<longleftrightarrow> cq_empty q \<or> cq_count q \<le> unat len"
    by (auto simp: k_def)
  define q' where "q' = (if cq_full r then r\<lparr>cq_full := False, cq_overflow := False\<rparr> else r)"
  have tk: "take (unat len) (cq_list q) = take k (cq_list q)"
      "drop (unat len) (cq_list q) = drop k (cq_list q)"
    by (auto simp: k_def min_def)
  have "QueueDelete q out len = Some (q', take k (cq_list q) @ drop k out, of_nat k)"
    using r(1) False ne(1) by (simp add: QueueDelete_def q'_def tk)
  moreover have "cq_inv q' \<and> cq_list q' = drop k (cq_list q)"
  proof (rule cq_window_ring)
    show "cq_window q' (drop k (cq_list q))"
      using r(2) by (simp add: q'_def tk cq_window_def Let_def)
    show "cq_empty q' \<longleftrightarrow> drop k (cq_list q) = []"
      using r(6) ne(1) by (auto simp: q'_def k_def)
    show "cq_full q' \<longleftrightarrow> length (drop k (cq_list q)) = unat (cq_size q')"
    proof -
      have "0 < unat (cq_size q)" using inv by (simp add: cq_inv_def word_less_nat_alt)
      then have "length (drop k (cq_list q)) \<noteq> unat (cq_size q)" using False f(2) by simp
      then show ?thesis using r(3) by (simp add: q'_def)
    qed
    show "\<not> cq_overflow q'"
      using r(4,5) inv by (auto simp: q'_def cq_inv_def)
  qed
  ultimately show ?thesis using r(3) by (auto simp: q'_def)
qed

section \<open>The interface of a byte queue\<close>

text \<open>
  What the UART layer relies on: a queue of bounded capacity. Insertion always succeeds
  and keeps the newest bytes; deletion copies out the oldest bytes.
\<close>

locale byte_fifo =
  fixes insert :: "'q \<Rightarrow> u8 list \<Rightarrow> u32 \<Rightarrow> ('q \<times> u32) option"
    and delete :: "'q \<Rightarrow> u8 list \<Rightarrow> u32 \<Rightarrow> ('q \<times> u8 list \<times> u32) option"
    and contents :: "'q \<Rightarrow> u8 list"
    and capacity :: "'q \<Rightarrow> nat"
    and invar :: "'q \<Rightarrow> bool"
  assumes insert_law: "invar q \<Longrightarrow> unat n \<le> length data \<Longrightarrow>
      \<exists>q'. insert q data n = Some (q', n) \<and> invar q' \<and> capacity q' = capacity q \<and>
           contents q' = lastn (capacity q) (contents q @ take (unat n) data)"
    and delete_law: "invar q \<Longrightarrow> unat n \<le> length out \<Longrightarrow>
      k = min (unat n) (length (contents q)) \<Longrightarrow>
      \<exists>q'. delete q out n = Some (q', take k (contents q) @ drop k out, of_nat k) \<and>
           invar q' \<and> capacity q' = capacity q \<and> contents q' = drop k (contents q)"
    and bounded: "invar q \<Longrightarrow> length (contents q) \<le> capacity q"
begin

lemma insert_no_loss:
  assumes "invar q" and "unat n \<le> length data"
    and "length (contents q) + unat n \<le> capacity q"
  shows "\<exists>q'. insert q data n = Some (q', n) \<and> invar q' \<and> capacity q' = capacity q \<and>
           contents q' = contents q @ take (unat n) data"
  using insert_law[OF assms(1,2)] assms by auto

lemma insert_then_delete:
  assumes "invar q" and "unat n \<le> length data" and "contents q = []" and "unat n \<le> capacity q"
    and "unat n \<le> length out"
  shows "\<exists>q1 q2. insert q data n = Some (q1, n) \<and>
           delete q1 out n = Some (q2, take (unat n) data @ drop (unat n) out, n) \<and>
           invar q2 \<and> contents q2 = []"
proof -
  from insert_no_loss[OF assms(1,2)] assms(3,4) obtain q1 where q1:
      "insert q data n = Some (q1, n)" "invar q1" "contents q1 = take (unat n) data"
    by auto
  from delete_law[OF q1(2) assms(5) refl] q1(3) assms(2) obtain q2 where
      "delete q1 out n = Some (q2, take (unat n) data @ drop (unat n) out, n)"
      "invar q2" "contents q2 = []"
    by auto
  with q1(1) show ?thesis by blast
qed

end

interpretation cq: byte_fifo QueueInsert QueueDelete cq_list cq_cap cq_inv
proof unfold_locales
  fix q :: cqueue and n :: u32 and data :: "u8 list"
  assume "cq_inv q" "unat n \<le> length data"
  then show "\<exists>q'. QueueInsert q data n = Some (q', n) \<and> cq_inv q' \<and> cq_cap q' = cq_cap q \<and>
      cq_list q' = lastn (cq_cap q) (cq_list q @ take (unat n) data)"
    using QueueInsert_correct by (fastforce simp: cq_cap_def)
next
  fix q :: cqueue and n :: u32 and out :: "u8 list" and k
  assume "cq_inv q" "unat n \<le> length out" "k = min (unat n) (length (cq_list q))"
  then show "\<exists>q'. QueueDelete q out n = Some (q', take k (cq_list q) @ drop k out, of_nat k) \<and>
      cq_inv q' \<and> cq_cap q' = cq_cap q \<and> cq_list q' = drop k (cq_list q)"
    using QueueDelete_correct[of q n out] by (auto simp: cq_cap_def)
next
  fix q :: cqueue
  assume "cq_inv q"
  then show "length (cq_list q) \<le> cq_cap q"
    using cq_count_facts(2) by (simp add: cq_cap_def)
qed

lemma QueueClean_correct:
  assumes "0 < cq_size q" and "length (cq_buf q) = unat (cq_size q)"
  shows "cq_inv (QueueClean q) \<and> cq_list (QueueClean q) = [] \<and> cq_cap (QueueClean q) = cq_cap q"
  using assms by (simp add: QueueClean_def cq_inv_def cq_list_def cq_count_def cq_cap_def)

section \<open>Properties\<close>

text \<open>
  C1. Inserting \<open>n\<close> bytes appends them to the queue's contents; when they do not fit, the
  oldest bytes are lost and the newest \<open>cq_cap\<close> remain. The queue stays well formed and
  no access leaves its buffer.
\<close>

theorem QueueInsert_keeps_newest:
  assumes "cq_inv q" and "unat n \<le> length data"
  shows "\<exists>q'. QueueInsert q data n = Some (q', n) \<and> cq_inv q' \<and> cq_cap q' = cq_cap q \<and>
    cq_list q' = lastn (cq_cap q) (cq_list q @ take (unat n) data)"
  using assms by (rule cq.insert_law)

definition sample_queue :: cqueue where
  "sample_queue = \<lparr>cq_buf = [7, 0, 9], cq_size = 3, cq_head = 1, cq_tail = 2,
     cq_empty = False, cq_full = False, cq_overflow = False\<rparr>"

lemma sample_queue_inv: "cq_inv sample_queue \<and> cq_list sample_queue = [9, 7] \<and> cq_cap sample_queue = 3"
  by (simp add: cq_inv_def sample_queue_def cq_list_def cq_count_def cq_cap_def cq_ring_def cq_window_def)

theorem QueueInsert_keeps_newest_witness:
  "\<exists>q'. QueueInsert sample_queue [1, 2] 2 = Some (q', 2) \<and> cq_list q' = [7, 1, 2]"
  using QueueInsert_keeps_newest[of sample_queue 2 "[1, 2]"] sample_queue_inv
  by (auto simp: lastn_def)

text \<open>
  C2. Deleting takes the oldest bytes, as many as were asked for and are there, in the
  order they were inserted, and leaves the rest of the destination alone.
\<close>

theorem QueueDelete_takes_oldest:
  assumes "cq_inv q" and "unat n \<le> length out" and "k = min (unat n) (length (cq_list q))"
  shows "\<exists>q'. QueueDelete q out n = Some (q', take k (cq_list q) @ drop k out, of_nat k) \<and>
    cq_inv q' \<and> cq_cap q' = cq_cap q \<and> cq_list q' = drop k (cq_list q)"
  using assms by (rule cq.delete_law)

theorem QueueDelete_takes_oldest_witness:
  "\<exists>q'. QueueDelete sample_queue [0, 0, 0] 1 = Some (q', [9, 0, 0], 1) \<and> cq_list q' = [7]"
  using QueueDelete_takes_oldest[of sample_queue 1 "[0, 0, 0]" 1] sample_queue_inv by auto

end
