(* ===== verification/Openat.thy ===== *)
theory Openat
  imports C_Prelude
begin

text \<open>
  The boundary to the operating system. The firmware reaches the AirM2M kernel through
  the function table \<^verbatim>\<open>IVTBL\<close> of \<^verbatim>\<open>am_openat.h\<close>, which is not part of the
  program. A call that only has an effect is recorded as an \<open>os_call\<close>, in the order
  the code makes it; what a call answers is an argument of the operation that makes it.
\<close>

section \<open>Results of the platform layer (platform.h)\<close>

text \<open>The enumerators, in whatever integer type a function returns them.\<close>

definition PLATFORM_ERR :: "'a :: zero_neq_one" where "PLATFORM_ERR = 0"
definition PLATFORM_OK :: "'a :: zero_neq_one" where "PLATFORM_OK = 1"

section \<open>Messages to the Lua shell (platform_rtos.h)\<close>

datatype elua_int_id = INT_GPIO_POSEDGE | INT_GPIO_NEGEDGE

datatype rtos_msg =
    RTOS_MSG_WAIT_MSG_TIMEOUT
  | RTOS_MSG_TIMER int
  | RTOS_MSG_UART_RX_DATA nat
  | RTOS_MSG_UART_TX_DONE nat
  | RTOS_MSG_KEYPAD bool u8 u8
  | RTOS_MSG_ALARM
  | RTOS_MSG_INT elua_int_id u32
  | RTOS_MSG_PMD bool u16 u8 bool u8
  | RTOS_MSG_AUDIO bool bool
  | RTOS_MSG_TP u8 u16 u16

section \<open>UART parameters (am_openat_drv.h)\<close>

datatype uart_parity = OPENAT_UART_NO_PARITY | OPENAT_UART_ODD_PARITY | OPENAT_UART_EVEN_PARITY

datatype uart_flow = OPENAT_UART_FLOWCONTROL_NONE | OPENAT_UART_FLOWCONTROL_HW

text \<open>
  \<open>up_handler\<close> is the message callback the driver is given: \<open>None\<close> for
  \<^verbatim>\<open>NULL\<close> (polling), \<open>Some id\<close> for the handler of UART \<open>id\<close>.
\<close>

record uart_param =
  up_baud :: nat
  up_dataBits :: int
  up_stopBits :: nat
  up_parity :: uart_parity
  up_flowControl :: uart_flow
  up_handler :: "nat option"
  up_txDoneReport :: u32

section \<open>Calls\<close>

datatype os_call =
    Os_send_message rtos_msg
  | Os_send_high_priority_message rtos_msg
  | Os_wait_tx_done nat
  | Os_config_uart nat uart_param
  | Os_host_init
  | Os_close_uart nat
  | Os_clear_uart nat u32
  | Os_uart_enable_rx_int nat bool
  | Os_write_uart nat "u8 list"
  | Os_host_send_data "u8 list"
  | Os_send_at_command "u8 list"
  | Os_print "u8 list"
  | Os_create_semaphore nat
  | Os_wait_semaphore
  | Os_release_semaphore
  | Os_block_forever

section \<open>Results of Lua functions\<close>

text \<open>
  \<^verbatim>\<open>luaL_error\<close> does not return: the call ends with the error, in the state reached. Lua
  integers are 32-bit words.
\<close>

datatype 'a lua = Lua_error string | Lua_return 'a

section \<open>Driver writes into a buffer of the caller\<close>

text \<open>The driver copies \<open>bs\<close> to the start of \<open>buf\<close>.\<close>

definition fill :: "u8 list \<Rightarrow> u8 list \<Rightarrow> u8 list option" where
  "fill buf bs = (if length bs \<le> length buf then Some (bs @ drop (length bs) buf) else None)"

lemma fill_in [mem_simps]: "length bs \<le> length buf \<Longrightarrow> fill buf bs = Some (bs @ drop (length bs) buf)"
  by (simp add: fill_def)

lemma fill_SomeD: "fill buf bs = Some buf' \<Longrightarrow> length bs \<le> length buf \<and> length buf' = length buf"
  by (auto simp: fill_def split: if_splits)

end
