(* ===== verification/Uart.thy ===== *)
theory Uart
  imports Cycle_Queue Openat
begin

text \<open>
  The UART layer of \<^verbatim>\<open>platform/coolsand/src/platform_uart.c\<close>: three physical ports
  behind four UART ids, the virtual AT channel and the debug port. Received bytes go
  from the driver through a temporary buffer into a ring buffer (\<^theory_text>\<open>Cycle_Queue\<close>), and
  from there through a staging buffer to the Lua shell.
\<close>

section \<open>State\<close>

record uart_phy =
  rxqueue :: cqueue
  temprxbuff :: "u8 list"
  readbuf :: "u8 list"
  readindex :: u8
  readsize :: u8

record uart_ctx =
  uc_opened :: bool
  uc_workmode :: u8

record vat_chan =
  vatcRx_Q :: cqueue
  vatc_read_buffer :: "u8 list"
  vatc_read_buf_size :: u16
  vatc_read_buf_index :: u16

record dbg_port =
  debugStdoutBuffer :: "u8 list"
  debugStdoutCachedCount :: u16

record uart_st =
  uartPhyContext :: "uart_phy list"
  uartContext :: "uart_ctx list"
  vatc :: vat_chan
  dbg :: dbg_port
  calls :: "os_call list"

text \<open>What the operating system answers to the calls of one operation.\<close>

record uart_env =
  ue_calloc :: "u8 list"
  ue_host_init :: bool
  ue_config_uart :: bool
  ue_close_uart :: bool
  ue_clear_uart :: bool
  ue_write_uart :: u32
  ue_console_port :: nat

definition NUM_UART :: nat where "NUM_UART = 4"
definition UART_RX_BUF_SIZE :: u32 where "UART_RX_BUF_SIZE = 1460"
definition RX_BUFFER_SIZE :: nat where "RX_BUFFER_SIZE = 256"
definition READ_BUFFER_SIZE :: u32 where "READ_BUFFER_SIZE = 126"
definition VATC_READ_BUF_SIZE :: u32 where "VATC_READ_BUF_SIZE = 512"
definition PLATFORM_UART_ID_ATC :: nat where "PLATFORM_UART_ID_ATC = 127"
definition PLATFORM_PORT_ID_DEBUG :: nat where "PLATFORM_PORT_ID_DEBUG = 128"

text \<open>The ports of \<^verbatim>\<open>uartmap\<close>: ids 0 and 2 share \<^verbatim>\<open>OPENAT_UART_2\<close>.\<close>

definition uartmap :: "nat list" where
  "uartmap = [1, 0, 1, 2]"

definition OPENAT_UART_3 :: nat where "OPENAT_UART_3 = 2"

definition emit :: "os_call \<Rightarrow> uart_st \<Rightarrow> uart_st" where
  "emit c s = s\<lparr>calls := calls s @ [c]\<rparr>"

section \<open>Baud rates\<close>

definition baud2OpenatUartBaud :: "u32 list" where
  "baud2OpenatUartBaud = [1200, 2400, 4800, 9600, 14400, 19200, 28800, 38400, 57600, 76800,
     115200, 230400, 460800, 576000, 921600, 1152000, 4000000]"

text \<open>
  The entry's second column is its enumerator, which is its index; 17 is
  \<^verbatim>\<open>OPENAT_UART_NUM_OF_BAUD_RATES\<close>, "not found".
\<close>

fun findOpenatUartBaud_loop :: "u32 list \<Rightarrow> nat \<Rightarrow> u32 \<Rightarrow> nat \<Rightarrow> nat" where
  "findOpenatUartBaud_loop [] index baud r = r"
| "findOpenatUartBaud_loop (b # bs) index baud r =
     (if baud = b then findOpenatUartBaud_loop bs (Suc index) baud index
      else if baud < b then r
      else findOpenatUartBaud_loop bs (Suc index) baud r)"

definition findOpenatUartBaud :: "u32 \<Rightarrow> nat" where
  "findOpenatUartBaud baud = findOpenatUartBaud_loop baud2OpenatUartBaud 0 baud 17"

section \<open>Reception\<close>

datatype drv_evt = OPENAT_DRV_EVT_UART_RX_DATA_IND | OPENAT_DRV_EVT_UART_TX_DONE_IND | OPENAT_DRV_EVT_OTHER

text \<open>
  For any other event the message id is never written: the receiver would read an
  uninitialised field, so there is no result.
\<close>

definition sendUartMessage :: "nat \<Rightarrow> drv_evt \<Rightarrow> uart_st \<Rightarrow> uart_st option" where
  "sendUartMessage uart_id event_id s =
     (case event_id of
        OPENAT_DRV_EVT_UART_RX_DATA_IND \<Rightarrow>
          Some (emit (Os_send_message (RTOS_MSG_UART_RX_DATA uart_id)) s)
      | OPENAT_DRV_EVT_UART_TX_DONE_IND \<Rightarrow> do {
          port \<leftarrow> ld uartmap uart_id;
          Some (emit (Os_send_message (RTOS_MSG_UART_TX_DONE uart_id)) (emit (Os_wait_tx_done port) s))
        }
      | OPENAT_DRV_EVT_OTHER \<Rightarrow> None)"

text \<open>
  The length the event announces, \<^verbatim>\<open>evt->param.dataLen\<close>, is handed to the driver's \<^verbatim>\<open>read_uart\<close> as it
  is; \<open>read_uart n\<close> is what the driver writes into \<^verbatim>\<open>temprxbuff\<close> when it is asked for \<open>n\<close> bytes. If
  that is more than the buffer holds, there is no result. The count is stored in a \<^verbatim>\<open>uint8\<close>.
\<close>

definition uart_message_handle :: "nat \<Rightarrow> drv_evt \<Rightarrow> u32 \<Rightarrow> (u32 \<Rightarrow> u8 list) \<Rightarrow> uart_st \<Rightarrow> uart_st option" where
  "uart_message_handle uid evt dataLen read_uart s = do {
     phyid \<leftarrow> ld uartmap uid;
     (case evt of
        OPENAT_DRV_EVT_UART_RX_DATA_IND \<Rightarrow> do {
          c \<leftarrow> ld (uartPhyContext s) phyid;
          let rx = read_uart dataLen;
          tmp \<leftarrow> fill (temprxbuff c) rx;
          let n = (of_nat (length rx) :: u8);
          c \<leftarrow> Some (c\<lparr>temprxbuff := tmp\<rparr>);
          (if n \<noteq> 0 then do {
             let needMsg = cq_empty (rxqueue c);
             (q, _) \<leftarrow> QueueInsert (rxqueue c) (temprxbuff c) (ucast n);
             s \<leftarrow> Some (s\<lparr>uartPhyContext := (uartPhyContext s)[phyid := c\<lparr>rxqueue := q\<rparr>]\<rparr>);
             (if needMsg then sendUartMessage uid evt s else Some s)
           } else Some (s\<lparr>uartPhyContext := (uartPhyContext s)[phyid := c]\<rparr>))
        }
      | OPENAT_DRV_EVT_UART_TX_DONE_IND \<Rightarrow> sendUartMessage uid evt s
      | OPENAT_DRV_EVT_OTHER \<Rightarrow> Some s)
   }"

definition host_uart_recv :: "u8 list \<Rightarrow> u32 \<Rightarrow> uart_st \<Rightarrow> uart_st option" where
  "host_uart_recv data n s = do {
     c \<leftarrow> ld (uartPhyContext s) OPENAT_UART_3;
     (if n \<noteq> 0 then do {
        let needMsg = cq_empty (rxqueue c);
        (q, _) \<leftarrow> QueueInsert (rxqueue c) data n;
        s \<leftarrow> Some (s\<lparr>uartPhyContext := (uartPhyContext s)[OPENAT_UART_3 := c\<lparr>rxqueue := q\<rparr>]\<rparr>);
        (if needMsg then sendUartMessage 3 OPENAT_DRV_EVT_UART_RX_DATA_IND s else Some s)
      } else Some s)
   }"

section \<open>Opening, closing, clearing and writing a physical port\<close>

definition PLATFORM_UART_STOPBITS_1 :: int where "PLATFORM_UART_STOPBITS_1 = 0"
definition PLATFORM_UART_STOPBITS_2 :: int where "PLATFORM_UART_STOPBITS_2 = 2"

definition uart_stopbits :: "int \<Rightarrow> nat option" where
  "uart_stopbits stopbits =
     (if stopbits = PLATFORM_UART_STOPBITS_1 then Some 1
      else if stopbits = PLATFORM_UART_STOPBITS_2 then Some 2 else None)"

definition uart_parity_of :: "int \<Rightarrow> uart_parity option" where
  "uart_parity_of parity =
     (if parity = 0 then Some OPENAT_UART_EVEN_PARITY
      else if parity = 1 then Some OPENAT_UART_ODD_PARITY
      else if parity = 2 then Some OPENAT_UART_NO_PARITY else None)"

text \<open>
  The pointer \<^verbatim>\<open>rxqueue.buf\<close> is \<^verbatim>\<open>NULL\<close> where the buffer is the empty list; the
  block \<^verbatim>\<open>calloc\<close> returns is \<open>ue_calloc\<close>. The sum of the outcomes of
  \<^verbatim>\<open>uart_open_error\<close> is the returned baud rate, 0 for an error.
\<close>

definition uart_phy_open ::
    "uart_env \<Rightarrow> nat \<Rightarrow> u32 \<Rightarrow> int \<Rightarrow> int \<Rightarrow> int \<Rightarrow> u32 \<Rightarrow> u32 \<Rightarrow> uart_st \<Rightarrow> (uart_st \<times> u32) option" where
  "uart_phy_open env uid baud databits parity stopbits mode txDoneReport s = do {
     x \<leftarrow> ld (uartContext s) uid;
     (if uc_opened x then Some (s, baud) else do {
        port \<leftarrow> ld uartmap uid;
        c \<leftarrow> ld (uartPhyContext s) port;
        let c = (if cq_buf (rxqueue c) = []
                 then c\<lparr>rxqueue := QueueClean ((rxqueue c)\<lparr>cq_buf := ue_calloc env, cq_size := UART_RX_BUF_SIZE\<rparr>)\<rparr>
                 else c);
        let s = s\<lparr>uartPhyContext := (uartPhyContext s)[port := c]\<rparr>;
        let opened = (\<lambda>s. s\<lparr>uartContext := (uartContext s)[uid := \<lparr>uc_opened = True, uc_workmode = ucast mode\<rparr>]\<rparr>);
        (if port = OPENAT_UART_3 \<and> mode = 2
         then (let s = emit Os_host_init s
               in Some (if ue_host_init env then (opened s, baud) else (s, 0)))
         else
           (case (uart_stopbits stopbits, uart_parity_of parity) of
              (Some sb, Some par) \<Rightarrow>
                if findOpenatUartBaud baud = 17 then Some (s, 0)
                else
                  (let cfg = \<lparr>up_baud = findOpenatUartBaud baud, up_dataBits = databits,
                        up_stopBits = sb, up_parity = par,
                        up_flowControl = (if port = OPENAT_UART_3 then OPENAT_UART_FLOWCONTROL_HW
                                          else OPENAT_UART_FLOWCONTROL_NONE),
                        up_handler = (if ue_console_port env = uid \<or> mode = 1 then None else Some uid),
                        up_txDoneReport = txDoneReport\<rparr>;
                       s = emit (Os_config_uart port cfg) s
                   in Some (if ue_config_uart env then (opened s, baud) else (s, 0)))
            | _ \<Rightarrow> Some (s, 0)))
      })
   }"

definition uart_phy_close :: "uart_env \<Rightarrow> nat \<Rightarrow> uart_st \<Rightarrow> (uart_st \<times> u32) option" where
  "uart_phy_close env uid s = do {
     x \<leftarrow> ld (uartContext s) uid;
     (if \<not> uc_opened x then Some (s, PLATFORM_OK) else do {
        port \<leftarrow> ld uartmap uid;
        (if port = OPENAT_UART_3 \<and> uc_workmode x = 2 then Some (s, PLATFORM_OK) else do {
           let ret = (if ue_close_uart env then PLATFORM_OK else PLATFORM_ERR);
           let s = emit (Os_close_uart port) s;
           let s = s\<lparr>uartContext := (uartContext s)[uid := x\<lparr>uc_opened := False\<rparr>]\<rparr>;
           c \<leftarrow> ld (uartPhyContext s) port;
           let c = c\<lparr>rxqueue := QueueClean (rxqueue c), readindex := 0, readsize := 0\<rparr>;
           Some (s\<lparr>uartPhyContext := (uartPhyContext s)[port := c]\<rparr>, ret)
         })
      })
   }"

definition PLATFORM_UART_RECV_BUF :: u32 where "PLATFORM_UART_RECV_BUF = 1"
definition PLATFORM_UART_BUF_NONE :: u32 where "PLATFORM_UART_BUF_NONE = 2"

definition uart_phy_clear :: "uart_env \<Rightarrow> nat \<Rightarrow> u32 \<Rightarrow> uart_st \<Rightarrow> (uart_st \<times> u32) option" where
  "uart_phy_clear env uid bufType s = do {
     x \<leftarrow> ld (uartContext s) uid;
     (if \<not> uc_opened x then Some (s, PLATFORM_OK) else do {
        port \<leftarrow> ld uartmap uid;
        (if port = OPENAT_UART_3 \<and> uc_workmode x = 2 then Some (s, PLATFORM_OK) else do {
           let ret = (if ue_clear_uart env then PLATFORM_OK else PLATFORM_ERR);
           let s = emit (Os_clear_uart port bufType) s;
           (if bufType = PLATFORM_UART_RECV_BUF then do {
              c \<leftarrow> ld (uartPhyContext s) port;
              let c = c\<lparr>rxqueue := QueueClean (rxqueue c), readindex := 0, readsize := 0\<rparr>;
              Some (s\<lparr>uartPhyContext := (uartPhyContext s)[port := c]\<rparr>, ret)
            } else Some (s, ret))
         })
      })
   }"

text \<open>\<open>data\<close> is the block \<^verbatim>\<open>data_p\<close> points to, of \<^verbatim>\<open>length\<close> bytes.\<close>

definition uart_phy_write :: "uart_env \<Rightarrow> u8 \<Rightarrow> u8 list \<Rightarrow> uart_st \<Rightarrow> (uart_st \<times> u32) option" where
  "uart_phy_write env id8 data s =
     (if NUM_UART \<le> unat id8 then Some (s, 0)
      else do {
        x \<leftarrow> ld (uartContext s) (unat id8);
        (if \<not> uc_opened x then Some (s, 0) else do {
           port \<leftarrow> ld uartmap (unat id8);
           (if port = OPENAT_UART_3 \<and> uc_workmode x = 2
            then Some (emit (Os_host_send_data data) s, of_nat (length data))
            else Some (emit (Os_write_uart port data) s, ue_write_uart env))
         })
      })"

section \<open>Reading through the staging buffer\<close>

text \<open>
  Both read functions are the same loop \<^verbatim>\<open>while(rcvdlen < length)\<close>: refill the staging
  buffer from the ring buffer when it is used up, leave the loop when the ring buffer is
  empty, copy one byte. \<open>read_loop\<close> is that loop over the step that gives the next byte;
  \<open>left\<close> is \<^verbatim>\<open>length - rcvdlen\<close>.
\<close>

fun read_loop ::
    "('s \<Rightarrow> ('s \<times> u8 option) option) \<Rightarrow> nat \<Rightarrow> nat \<Rightarrow> 's \<Rightarrow> u8 list \<Rightarrow> ('s \<times> u8 list \<times> nat) option" where
  "read_loop next 0 rcvdlen s data_p = Some (s, data_p, rcvdlen)"
| "read_loop next (Suc left) rcvdlen s data_p = do {
     (s', b) \<leftarrow> next s;
     (case b of
        None \<Rightarrow> Some (s', data_p, rcvdlen)
      | Some x \<Rightarrow> do {
          data_p' \<leftarrow> st data_p rcvdlen x;
          read_loop next left (Suc rcvdlen) s' data_p'
        })
   }"

definition uart_take :: "uart_phy \<times> os_call list \<Rightarrow> ((uart_phy \<times> os_call list) \<times> u8 option) option" where
  "uart_take cs = (case cs of (c, tr) \<Rightarrow> do {
     x \<leftarrow> ld (readbuf c) (unat (readindex c));
     Some ((c\<lparr>readindex := readindex c + 1\<rparr>, tr), Some x)
   })"

definition uart_next ::
    "nat \<Rightarrow> uart_phy \<times> os_call list \<Rightarrow> ((uart_phy \<times> os_call list) \<times> u8 option) option" where
  "uart_next port cs = (case cs of (c, tr) \<Rightarrow>
     if readsize c \<le> readindex c then do {
       (q, rb, n) \<leftarrow> QueueDelete (rxqueue c) (readbuf c) READ_BUFFER_SIZE;
       let tr' = tr @ [Os_uart_enable_rx_int port False, Os_uart_enable_rx_int port True];
       let c' = c\<lparr>rxqueue := q, readbuf := rb, readsize := ucast n, readindex := 0\<rparr>;
       (if readsize c' = 0 then Some ((c', tr'), None) else uart_take (c', tr'))
     } else uart_take cs)"

text \<open>\<open>rx\<close> is what the driver writes when the port is polled (work mode 1).\<close>

definition uart_phy_read ::
    "u8 \<Rightarrow> u8 list \<Rightarrow> u16 \<Rightarrow> u8 list \<Rightarrow> uart_st \<Rightarrow> (uart_st \<times> u8 list \<times> nat) option" where
  "uart_phy_read id8 data_p len rx s = do {
     x \<leftarrow> ld (uartContext s) (unat id8);
     (if \<not> uc_opened x then Some (s, data_p, 0)
      else if uc_workmode x = 1 then do {
        data_p' \<leftarrow> fill data_p rx;
        Some (s, data_p', length rx)
      } else do {
        port \<leftarrow> ld uartmap (unat id8);
        c \<leftarrow> ld (uartPhyContext s) port;
        ((c', tr), data_p', n) \<leftarrow> read_loop (uart_next port) (unat len) 0 (c, calls s) data_p;
        Some (s\<lparr>uartPhyContext := (uartPhyContext s)[port := c'], calls := tr\<rparr>, data_p', n)
      })
   }"

definition vatc_take :: "vat_chan \<times> os_call list \<Rightarrow> ((vat_chan \<times> os_call list) \<times> u8 option) option" where
  "vatc_take cs = (case cs of (c, tr) \<Rightarrow> do {
     x \<leftarrow> ld (vatc_read_buffer c) (unat (vatc_read_buf_index c));
     Some ((c\<lparr>vatc_read_buf_index := vatc_read_buf_index c + 1\<rparr>, tr), Some x)
   })"

definition vatc_next :: "vat_chan \<times> os_call list \<Rightarrow> ((vat_chan \<times> os_call list) \<times> u8 option) option" where
  "vatc_next cs = (case cs of (c, tr) \<Rightarrow>
     if vatc_read_buf_size c \<le> vatc_read_buf_index c then do {
       (q, rb, n) \<leftarrow> QueueDelete (vatcRx_Q c) (vatc_read_buffer c) VATC_READ_BUF_SIZE;
       let tr' = tr @ [Os_wait_semaphore, Os_release_semaphore];
       let c' = c\<lparr>vatcRx_Q := q, vatc_read_buffer := rb, vatc_read_buf_size := ucast n,
                  vatc_read_buf_index := 0\<rparr>;
       (if vatc_read_buf_size c' = 0 then Some ((c', tr'), None) else vatc_take (c', tr'))
     } else vatc_take cs)"

definition vatc_read :: "u8 list \<Rightarrow> u16 \<Rightarrow> uart_st \<Rightarrow> (uart_st \<times> u8 list \<times> nat) option" where
  "vatc_read data_p len s = do {
     ((c', tr), data_p', n) \<leftarrow> read_loop vatc_next (unat len) 0 (vatc s, calls s) data_p;
     Some (s\<lparr>vatc := c', calls := tr\<rparr>, data_p', n)
   }"

section \<open>The debug port\<close>

text \<open>
  Debug output is collected in a buffer of 128 bytes and printed a line at a time. The
  string handed to \<^verbatim>\<open>print\<close> ends at the first NUL byte of the buffer.
\<close>

definition debugPortFlush :: "dbg_port \<times> os_call list \<Rightarrow> (dbg_port \<times> os_call list) option" where
  "debugPortFlush dt = (case dt of (d, tr) \<Rightarrow>
     if debugStdoutCachedCount d \<noteq> 0 then do {
       b \<leftarrow> st (debugStdoutBuffer d) (unat (debugStdoutCachedCount d)) 0;
       Some (d\<lparr>debugStdoutBuffer := replicate (length b) 0, debugStdoutCachedCount := 0\<rparr>,
             tr @ [Os_print (takeWhile (\<lambda>x. x \<noteq> 0) b)])
     } else Some (d, tr))"

text \<open>\<^verbatim>\<open>debugStdoutBuffer[debugStdoutCachedCount++] = data\<close>\<close>

definition debugPut :: "u8 \<Rightarrow> dbg_port \<times> os_call list \<Rightarrow> (dbg_port \<times> os_call list) option" where
  "debugPut x dt = (case dt of (d, tr) \<Rightarrow> do {
     b \<leftarrow> st (debugStdoutBuffer d) (unat (debugStdoutCachedCount d)) x;
     Some (d\<lparr>debugStdoutBuffer := b, debugStdoutCachedCount := debugStdoutCachedCount d + 1\<rparr>, tr)
   })"

definition debugPortWrite_byte :: "u8 \<Rightarrow> dbg_port \<times> os_call list \<Rightarrow> (dbg_port \<times> os_call list) option" where
  "debugPortWrite_byte data dt =
     (if data = 13 \<or> data = 10 then debugPortFlush dt
      else if data = 37 then
        (if unat (debugStdoutCachedCount (fst dt)) < 128 - 2
         then debugPut data dt \<bind> debugPut data
         else debugPortFlush dt \<bind> debugPut data \<bind> debugPut data)
      else
        (if unat (debugStdoutCachedCount (fst dt)) < 128 - 1
         then debugPut data dt
         else debugPortFlush dt \<bind> debugPut data))"

fun debugPortWrite :: "u8 list \<Rightarrow> dbg_port \<times> os_call list \<Rightarrow> (dbg_port \<times> os_call list) option" where
  "debugPortWrite [] dt = Some dt"
| "debugPortWrite (x # xs) dt = debugPortWrite_byte x dt \<bind> debugPortWrite xs"

definition debug_write :: "u8 list \<Rightarrow> uart_st \<Rightarrow> uart_st option" where
  "debug_write data s = do {
     (d, tr) \<leftarrow> debugPortWrite data (dbg s, calls s);
     Some (s\<lparr>dbg := d, calls := tr\<rparr>)
   }"

section \<open>The virtual AT channel\<close>

definition RILAPI_ReceiveData :: "u8 list \<Rightarrow> u32 \<Rightarrow> uart_st \<Rightarrow> uart_st option" where
  "RILAPI_ReceiveData data len s = do {
     let needMsg = cq_empty (vatcRx_Q (vatc s));
     (q, _) \<leftarrow> QueueInsert (vatcRx_Q (vatc s)) data len;
     let s = emit Os_release_semaphore ((emit Os_wait_semaphore s)\<lparr>vatc := (vatc s)\<lparr>vatcRx_Q := q\<rparr>\<rparr>);
     (if needMsg then sendUartMessage PLATFORM_UART_ID_ATC OPENAT_DRV_EVT_UART_RX_DATA_IND s
      else Some s)
   }"

definition platform_setup_vat_queue :: "uart_st \<Rightarrow> uart_st" where
  "platform_setup_vat_queue s =
     emit (Os_create_semaphore 1) (s\<lparr>vatc := (vatc s)\<lparr>vatcRx_Q := QueueClean (vatcRx_Q (vatc s))\<rparr>\<rparr>)"

section \<open>The platform interface\<close>

definition platform_uart_setup ::
    "uart_env \<Rightarrow> nat \<Rightarrow> u32 \<Rightarrow> int \<Rightarrow> int \<Rightarrow> int \<Rightarrow> u32 \<Rightarrow> u32 \<Rightarrow> uart_st \<Rightarrow> (uart_st \<times> u32) option" where
  "platform_uart_setup env uid baud databits parity stopbits mode txDoneReport s =
     (if uid = PLATFORM_UART_ID_ATC then Some (s, baud)
      else if uid = PLATFORM_PORT_ID_DEBUG then
        Some (s\<lparr>dbg := (dbg s)\<lparr>debugStdoutBuffer := replicate (length (debugStdoutBuffer (dbg s))) 0,
                             debugStdoutCachedCount := 0\<rparr>\<rparr>, baud)
      else uart_phy_open env uid baud databits parity stopbits mode txDoneReport s)"

definition platform_uart_close :: "uart_env \<Rightarrow> nat \<Rightarrow> uart_st \<Rightarrow> (uart_st \<times> u32) option" where
  "platform_uart_close env uid s =
     (if uid < NUM_UART then uart_phy_close env uid s else Some (s, PLATFORM_ERR))"

definition platform_uart_clear :: "uart_env \<Rightarrow> nat \<Rightarrow> u32 \<Rightarrow> uart_st \<Rightarrow> (uart_st \<times> u32) option" where
  "platform_uart_clear env uid bufType s =
     (if uid < NUM_UART \<and> bufType < PLATFORM_UART_BUF_NONE then uart_phy_clear env uid bufType s
      else Some (s, PLATFORM_ERR))"

text \<open>The id is an \<^verbatim>\<open>unsigned\<close>, but \<^verbatim>\<open>uart_phy_write\<close> takes a \<^verbatim>\<open>u8\<close>.\<close>

definition platform_s_uart_send_buff ::
    "uart_env \<Rightarrow> nat \<Rightarrow> u8 list \<Rightarrow> uart_st \<Rightarrow> (uart_st \<times> u32) option" where
  "platform_s_uart_send_buff env uid buff s =
     (if uid = PLATFORM_UART_ID_ATC then
        Some (emit (Os_send_at_command buff) s, of_nat (length buff))
      else if uid = PLATFORM_PORT_ID_DEBUG then
        debug_write buff s \<bind> (\<lambda>s. Some (s, of_nat (length buff)))
      else uart_phy_write env (of_nat uid) buff s)"

definition platform_s_uart_send ::
    "uart_env \<Rightarrow> nat \<Rightarrow> u8 \<Rightarrow> uart_st \<Rightarrow> (uart_st \<times> u32) option" where
  "platform_s_uart_send env uid data s =
     (if uid = PLATFORM_UART_ID_ATC then Some (emit (Os_send_at_command [data]) s, 1)
      else if uid = PLATFORM_PORT_ID_DEBUG then
        debug_write [data] s \<bind> (\<lambda>s. Some (s, 1))
      else uart_phy_write env (of_nat uid) [data] s)"

text \<open>
  The result is the byte read, or \<open>-1\<close>. A read from the debug port hangs on a
  semaphore nobody releases.
\<close>

definition platform_s_uart_recv :: "nat \<Rightarrow> u8 list \<Rightarrow> uart_st \<Rightarrow> (uart_st \<times> int) option" where
  "platform_s_uart_recv uid rx s =
     (if uid = PLATFORM_PORT_ID_DEBUG then
        Some (emit Os_block_forever (emit (Os_create_semaphore 0) s), -1)
      else do {
        (s', buf, n) \<leftarrow> (if uid = PLATFORM_UART_ID_ATC then vatc_read [0] 1 s
                        else uart_phy_read (of_nat uid) [0] 1 rx s);
        Some (s', if n \<noteq> 0 then uint (buf ! 0) else -1)
      })"

section \<open>The interface of a byte source\<close>

text \<open>
  What the read loop relies on: a step that gives the first pending byte, or reports
  that nothing is pending. Reading is then taking a prefix.
\<close>

locale byte_source =
  fixes next_byte :: "'s \<Rightarrow> ('s \<times> u8 option) option"
    and pending :: "'s \<Rightarrow> u8 list"
    and source_ok :: "'s \<Rightarrow> bool"
  assumes next_some: "source_ok s \<Longrightarrow> pending s = x # xs \<Longrightarrow>
      \<exists>s'. next_byte s = Some (s', Some x) \<and> source_ok s' \<and> pending s' = xs"
    and next_none: "source_ok s \<Longrightarrow> pending s = [] \<Longrightarrow>
      \<exists>s'. next_byte s = Some (s', None) \<and> source_ok s' \<and> pending s' = []"
begin

lemma read_loop_prefix:
  assumes "source_ok s" and "r + n \<le> length out"
  shows "\<exists>s'. read_loop next_byte n r s out =
      Some (s', take r out @ take n (pending s) @ drop (r + min n (length (pending s))) out,
            r + min n (length (pending s))) \<and>
      source_ok s' \<and> pending s' = drop n (pending s)"
  using assms
proof (induction n arbitrary: r s out)
  case 0
  then show ?case by simp
next
  case (Suc n)
  show ?case
  proof (cases "pending s")
    case Nil
    with next_none[OF Suc.prems(1)] show ?thesis by auto
  next
    case (Cons x xs)
    from next_some[OF Suc.prems(1) Cons] obtain t where
      t: "next_byte s = Some (t, Some x)" "source_ok t" "pending t = xs" by blast
    have r: "r < length out" "Suc r + n \<le> length (out[r := x])" using Suc.prems(2) by simp_all
    have out': "take (Suc r) (out[r := x]) = take r out @ [x]"
      using r(1) by (simp add: take_Suc_conv_app_nth)
    from Suc.IH[OF t(2) r(2)] show ?thesis
      using t(1,3) r(1) by (auto simp: Cons st_in out')
  qed
qed

lemma read_loop_correct:
  assumes "source_ok s" and "n \<le> length out" and "k = min n (length (pending s))"
  shows "\<exists>s'. read_loop next_byte n 0 s out = Some (s', take k (pending s) @ drop k out, k) \<and>
      source_ok s' \<and> pending s' = drop k (pending s)"
proof -
  have "take k (pending s) = take n (pending s)" "drop k (pending s) = drop n (pending s)"
    by (auto simp: assms(3) min_def)
  with read_loop_prefix[OF assms(1), of 0 n out] assms(2,3) show ?thesis by simp
qed

end

definition phy_ok :: "uart_phy \<Rightarrow> bool" where
  "phy_ok c \<longleftrightarrow> cq_inv (rxqueue c) \<and> length (temprxbuff c) = RX_BUFFER_SIZE \<and>
     length (readbuf c) = 126 \<and> readsize c \<le> 126"

text \<open>The bytes of a port that have been received and not yet read, oldest first.\<close>

definition phy_pending :: "uart_phy \<Rightarrow> u8 list" where
  "phy_pending c = drop (unat (readindex c)) (take (unat (readsize c)) (readbuf c)) @ cq_list (rxqueue c)"

definition vat_ok :: "vat_chan \<Rightarrow> bool" where
  "vat_ok c \<longleftrightarrow> cq_inv (vatcRx_Q c) \<and> length (vatc_read_buffer c) = 512 \<and>
     vatc_read_buf_size c \<le> 512"

definition vat_pending :: "vat_chan \<Rightarrow> u8 list" where
  "vat_pending c = drop (unat (vatc_read_buf_index c))
     (take (unat (vatc_read_buf_size c)) (vatc_read_buffer c)) @ cq_list (vatcRx_Q c)"

lemma uart_take_pending:
  assumes "phy_ok c" and "readindex c < readsize c"
  shows "\<exists>c'. uart_take (c, tr) = Some ((c', tr), Some (hd (phy_pending c))) \<and> phy_ok c' \<and>
           phy_pending c' = tl (phy_pending c)"
proof -
  have i: "unat (readindex c) < unat (readsize c)" "unat (readsize c) \<le> 126"
    using assms by (simp_all add: phy_ok_def word_less_nat_alt word_le_nat_alt)
  have l: "unat (readindex c) < length (readbuf c)" "unat (readsize c) \<le> length (readbuf c)"
    using i assms(1) by (simp_all add: phy_ok_def)
  note drop_take_Cons[OF i(1) l(2)]
  moreover have "unat (readindex c + 1) = Suc (unat (readindex c))"
    by (rule unat_inc[OF assms(2)])
  ultimately show ?thesis
    using assms(1) l by (auto simp: uart_take_def ld_in phy_pending_def phy_ok_def)
qed

lemma vatc_take_pending:
  assumes "vat_ok c" and "vatc_read_buf_index c < vatc_read_buf_size c"
  shows "\<exists>c'. vatc_take (c, tr) = Some ((c', tr), Some (hd (vat_pending c))) \<and> vat_ok c' \<and>
           vat_pending c' = tl (vat_pending c)"
proof -
  have i: "unat (vatc_read_buf_index c) < unat (vatc_read_buf_size c)"
      "unat (vatc_read_buf_size c) \<le> 512"
    using assms by (simp_all add: vat_ok_def word_less_nat_alt word_le_nat_alt)
  have l: "unat (vatc_read_buf_index c) < length (vatc_read_buffer c)"
      "unat (vatc_read_buf_size c) \<le> length (vatc_read_buffer c)"
    using i assms(1) by (simp_all add: vat_ok_def)
  note drop_take_Cons[OF i(1) l(2)]
  moreover have "unat (vatc_read_buf_index c + 1) = Suc (unat (vatc_read_buf_index c))"
    by (rule unat_inc[OF assms(2)])
  ultimately show ?thesis
    using assms(1) l by (auto simp: vatc_take_def ld_in vat_pending_def vat_ok_def)
qed

text \<open>Refilling the empty staging buffer moves bytes, and loses none.\<close>

lemma uart_next_law:
  assumes ok: "phy_ok c"
  shows "\<exists>c' tr'. phy_ok c' \<and> phy_pending c' = tl (phy_pending c) \<and>
    uart_next port (c, tr) =
      Some ((c', tr'), if phy_pending c = [] then None else Some (hd (phy_pending c)))"
proof (cases "readsize c \<le> readindex c")
  case False
  then have lt: "readindex c < readsize c" by simp
  have "phy_pending c \<noteq> []"
    using ok lt by (simp add: phy_pending_def phy_ok_def word_less_nat_alt word_le_nat_alt)
  with uart_take_pending[OF ok lt, of tr] False show ?thesis
    by (auto simp: uart_next_def)
next
  case True
  let ?xs = "cq_list (rxqueue c)"
  define k where "k = min 126 (length ?xs)"
  have p: "phy_pending c = ?xs"
    using True by (simp add: phy_pending_def word_le_nat_alt)
  have q: "cq_inv (rxqueue c)" "length (readbuf c) = 126" using ok by (simp_all add: phy_ok_def)
  then have "unat READ_BUFFER_SIZE \<le> length (readbuf c)" by (simp add: READ_BUFFER_SIZE_def)
  from cq.delete_law[OF q(1) this] obtain q' where
    q': "QueueDelete (rxqueue c) (readbuf c) READ_BUFFER_SIZE =
           Some (q', take k ?xs @ drop k (readbuf c), of_nat k)"
      "cq_inv q'" "cq_list q' = drop k ?xs"
    by (auto simp: READ_BUFFER_SIZE_def k_def)
  define c' where "c' = c\<lparr>rxqueue := q', readbuf := take k ?xs @ drop k (readbuf c),
      readsize := ucast (of_nat k :: u32), readindex := 0\<rparr>"
  have k: "k \<le> 126" by (simp add: k_def)
  then have rs: "unat (readsize c') = k" by (simp add: c'_def)
  have ok': "phy_ok c'"
    using ok q'(2) k q(2) rs by (simp add: c'_def phy_ok_def word_le_nat_alt k_def)
  have p': "phy_pending c' = ?xs"
    using rs k by (simp add: phy_pending_def c'_def q'(3) k_def)
  have ri: "readindex c' = 0" by (simp add: c'_def)
  have run: "uart_next port (c, tr) =
      (if readsize c' = 0
       then Some ((c', tr @ [Os_uart_enable_rx_int port False, Os_uart_enable_rx_int port True]), None)
       else uart_take (c', tr @ [Os_uart_enable_rx_int port False, Os_uart_enable_rx_int port True]))"
    using True q'(1) by (simp add: uart_next_def c'_def Let_def)
  show ?thesis
  proof (cases "?xs = []")
    case xs: True
    then have "readsize c' = 0" using rs by (simp add: k_def unat_eq_0)
    then show ?thesis using run ok' p' p xs by auto
  next
    case False
    then have "0 < length ?xs" by blast
    then have "k \<noteq> 0" unfolding k_def by linarith
    with rs have nz: "readsize c' \<noteq> 0" by auto
    then have "readindex c' < readsize c'" by (simp add: ri word_gt_0)
    from uart_take_pending[OF ok' this,
        of "tr @ [Os_uart_enable_rx_int port False, Os_uart_enable_rx_int port True]"] run nz p p' False show ?thesis by auto
  qed
qed

lemma vatc_next_law:
  assumes ok: "vat_ok c"
  shows "\<exists>c' tr'. vat_ok c' \<and> vat_pending c' = tl (vat_pending c) \<and>
    vatc_next (c, tr) =
      Some ((c', tr'), if vat_pending c = [] then None else Some (hd (vat_pending c)))"
proof (cases "vatc_read_buf_size c \<le> vatc_read_buf_index c")
  case False
  then have lt: "vatc_read_buf_index c < vatc_read_buf_size c" by simp
  have "vat_pending c \<noteq> []"
    using ok lt by (simp add: vat_pending_def vat_ok_def word_less_nat_alt word_le_nat_alt)
  with vatc_take_pending[OF ok lt, of tr] False show ?thesis
    by (auto simp: vatc_next_def)
next
  case True
  let ?xs = "cq_list (vatcRx_Q c)"
  define k where "k = min 512 (length ?xs)"
  have p: "vat_pending c = ?xs"
    using True by (simp add: vat_pending_def word_le_nat_alt)
  have q: "cq_inv (vatcRx_Q c)" "length (vatc_read_buffer c) = 512"
    using ok by (simp_all add: vat_ok_def)
  then have "unat VATC_READ_BUF_SIZE \<le> length (vatc_read_buffer c)"
    by (simp add: VATC_READ_BUF_SIZE_def)
  from cq.delete_law[OF q(1) this] obtain q' where
    q': "QueueDelete (vatcRx_Q c) (vatc_read_buffer c) VATC_READ_BUF_SIZE =
           Some (q', take k ?xs @ drop k (vatc_read_buffer c), of_nat k)"
      "cq_inv q'" "cq_list q' = drop k ?xs"
    by (auto simp: VATC_READ_BUF_SIZE_def k_def)
  define c' where "c' = c\<lparr>vatcRx_Q := q', vatc_read_buffer := take k ?xs @ drop k (vatc_read_buffer c),
      vatc_read_buf_size := ucast (of_nat k :: u32), vatc_read_buf_index := 0\<rparr>"
  have k: "k \<le> 512" by (simp add: k_def)
  then have rs: "unat (vatc_read_buf_size c') = k" by (simp add: c'_def)
  have ok': "vat_ok c'"
    using ok q'(2) k q(2) rs by (simp add: c'_def vat_ok_def word_le_nat_alt k_def)
  have p': "vat_pending c' = ?xs"
    using rs k by (simp add: vat_pending_def c'_def q'(3) k_def)
  have ri: "vatc_read_buf_index c' = 0" by (simp add: c'_def)
  have run: "vatc_next (c, tr) =
      (if vatc_read_buf_size c' = 0
       then Some ((c', tr @ [Os_wait_semaphore, Os_release_semaphore]), None)
       else vatc_take (c', tr @ [Os_wait_semaphore, Os_release_semaphore]))"
    using True q'(1) by (simp add: vatc_next_def c'_def Let_def)
  show ?thesis
  proof (cases "?xs = []")
    case xs: True
    then have "vatc_read_buf_size c' = 0" using rs by (simp add: k_def unat_eq_0)
    then show ?thesis using run ok' p' p xs by auto
  next
    case False
    then have "0 < length ?xs" by blast
    then have "k \<noteq> 0" unfolding k_def by linarith
    with rs have nz: "vatc_read_buf_size c' \<noteq> 0" by auto
    then have "vatc_read_buf_index c' < vatc_read_buf_size c'" by (simp add: ri word_gt_0)
    from vatc_take_pending[OF ok' this, of "tr @ [Os_wait_semaphore, Os_release_semaphore]"] run nz p p' False show ?thesis by auto
  qed
qed

interpretation uart: byte_source "uart_next port" "\<lambda>cs. phy_pending (fst cs)" "\<lambda>cs. phy_ok (fst cs)"
  for port
proof unfold_locales
  fix s :: "uart_phy \<times> os_call list" and x xs
  assume "phy_ok (fst s)" "phy_pending (fst s) = x # xs"
  with uart_next_law[of "fst s" port "snd s"]
  show "\<exists>s'. uart_next port s = Some (s', Some x) \<and> phy_ok (fst s') \<and> phy_pending (fst s') = xs"
    by auto
next
  fix s :: "uart_phy \<times> os_call list"
  assume "phy_ok (fst s)" "phy_pending (fst s) = []"
  with uart_next_law[of "fst s" port "snd s"]
  show "\<exists>s'. uart_next port s = Some (s', None) \<and> phy_ok (fst s') \<and> phy_pending (fst s') = []"
    by auto
qed

interpretation vat: byte_source vatc_next "\<lambda>cs. vat_pending (fst cs)" "\<lambda>cs. vat_ok (fst cs)"
proof unfold_locales
  fix s :: "vat_chan \<times> os_call list" and x xs
  assume "vat_ok (fst s)" "vat_pending (fst s) = x # xs"
  with vatc_next_law[of "fst s" "snd s"]
  show "\<exists>s'. vatc_next s = Some (s', Some x) \<and> vat_ok (fst s') \<and> vat_pending (fst s') = xs"
    by auto
next
  fix s :: "vat_chan \<times> os_call list"
  assume "vat_ok (fst s)" "vat_pending (fst s) = []"
  with vatc_next_law[of "fst s" "snd s"]
  show "\<exists>s'. vatc_next s = Some (s', None) \<and> vat_ok (fst s') \<and> vat_pending (fst s') = []"
    by auto
qed

section \<open>The debug port\<close>

definition dbg_ok :: "dbg_port \<Rightarrow> bool" where
  "dbg_ok d \<longleftrightarrow> length (debugStdoutBuffer d) = 128 \<and> debugStdoutCachedCount d < 128"

text \<open>
  What has been printed, and what waits in the buffer. The text is the input without its
  line ends, with each percent sign doubled.
\<close>

definition dbg_pending :: "dbg_port \<Rightarrow> u8 list" where
  "dbg_pending d = take (unat (debugStdoutCachedCount d)) (debugStdoutBuffer d)"

fun printed :: "os_call list \<Rightarrow> u8 list" where
  "printed [] = []"
| "printed (Os_print xs # cs) = xs @ printed cs"
| "printed (_ # cs) = printed cs"

definition dbg_text :: "u8 list \<Rightarrow> u8 list" where
  "dbg_text xs = concat (map (\<lambda>x. if x = 13 \<or> x = 10 then [] else if x = 37 then [37, 37] else [x]) xs)"

definition dbg_stream :: "dbg_port \<times> os_call list \<Rightarrow> u8 list" where
  "dbg_stream dt = printed (snd dt) @ dbg_pending (fst dt)"

lemma printed_append [simp]: "printed (xs @ ys) = printed xs @ printed ys"
  by (induction xs rule: printed.induct) simp_all

lemma debugPut_ok:
  assumes "length (debugStdoutBuffer d) = 128" and "unat (debugStdoutCachedCount d) < 127"
  shows "\<exists>d'. debugPut x (d, tr) = Some (d', tr) \<and> dbg_ok d' \<and>
           dbg_pending d' = dbg_pending d @ [x] \<and>
           unat (debugStdoutCachedCount d') = Suc (unat (debugStdoutCachedCount d))"
proof -
  have "unat (debugStdoutCachedCount d + 1) = Suc (unat (debugStdoutCachedCount d))"
    by (rule unat_inc[of _ 127]) (use assms(2) in \<open>simp add: word_less_nat_alt\<close>)
  then show ?thesis
    using assms
    by (auto simp: debugPut_def st_in dbg_ok_def dbg_pending_def word_less_nat_alt
        take_Suc_conv_app_nth)
qed

lemma debugPortFlush_ok:
  assumes "dbg_ok d" and "0 \<notin> set (dbg_pending d)"
  shows "\<exists>d' tr'. debugPortFlush (d, tr) = Some (d', tr') \<and> dbg_ok d' \<and>
           debugStdoutCachedCount d' = 0 \<and> dbg_pending d' = [] \<and>
           printed tr' = printed tr @ dbg_pending d"
proof (cases "debugStdoutCachedCount d = 0")
  case True
  then show ?thesis using assms by (auto simp: debugPortFlush_def dbg_pending_def)
next
  case False
  let ?n = "unat (debugStdoutCachedCount d)"
  have n: "?n < length (debugStdoutBuffer d)"
    using assms(1) by (simp add: dbg_ok_def word_less_nat_alt)
  have "(debugStdoutBuffer d)[?n := 0] = dbg_pending d @ 0 # drop (Suc ?n) (debugStdoutBuffer d)"
    using n by (simp add: upd_conv_take_nth_drop dbg_pending_def)
  moreover have "takeWhile (\<lambda>x. x \<noteq> 0) (dbg_pending d @ 0 # ys) = dbg_pending d" for ys
    using assms(2) by (subst takeWhile_append2) auto
  ultimately show ?thesis
    using False n assms(1) by (auto simp: debugPortFlush_def st_in dbg_ok_def dbg_pending_def)
qed

lemma debugPut_stream:
  assumes "dbg_ok (fst dt)" and "unat (debugStdoutCachedCount (fst dt)) < 127"
  shows "\<exists>dt'. debugPut x dt = Some dt' \<and> dbg_ok (fst dt') \<and> dbg_stream dt' = dbg_stream dt @ [x] \<and>
           dbg_pending (fst dt') = dbg_pending (fst dt) @ [x] \<and>
           unat (debugStdoutCachedCount (fst dt')) = Suc (unat (debugStdoutCachedCount (fst dt)))"
  using debugPut_ok[of "fst dt" x "snd dt"] assms by (auto simp: dbg_ok_def dbg_stream_def)

lemma debugPortFlush_stream:
  assumes "dbg_ok (fst dt)" and "0 \<notin> set (dbg_pending (fst dt))"
  shows "\<exists>dt'. debugPortFlush dt = Some dt' \<and> dbg_ok (fst dt') \<and> dbg_stream dt' = dbg_stream dt \<and>
           dbg_pending (fst dt') = [] \<and> unat (debugStdoutCachedCount (fst dt')) = 0"
  using debugPortFlush_ok[of "fst dt" "snd dt"] assms by (auto simp: dbg_stream_def)

lemma debugPut2_stream:
  assumes "dbg_ok (fst dt)" and "unat (debugStdoutCachedCount (fst dt)) < 126"
  shows "\<exists>dt'. debugPut x dt \<bind> debugPut y = Some dt' \<and> dbg_ok (fst dt') \<and>
           dbg_stream dt' = dbg_stream dt @ [x, y] \<and>
           dbg_pending (fst dt') = dbg_pending (fst dt) @ [x, y]"
proof -
  from debugPut_stream[OF assms(1), of x] assms(2) obtain t where
    t: "debugPut x dt = Some t" "dbg_ok (fst t)" "dbg_stream t = dbg_stream dt @ [x]"
      "dbg_pending (fst t) = dbg_pending (fst dt) @ [x]"
      "unat (debugStdoutCachedCount (fst t)) < 127"
    by force
  from debugPut_stream[OF t(2,5), of y] t(1,3,4) show ?thesis by auto
qed

lemma debugPortWrite_byte_stream:
  assumes "dbg_ok (fst dt)" and "0 \<notin> set (dbg_pending (fst dt))" and "x \<noteq> 0"
  shows "\<exists>dt'. debugPortWrite_byte x dt = Some dt' \<and> dbg_ok (fst dt') \<and>
           dbg_stream dt' = dbg_stream dt @ dbg_text [x] \<and> 0 \<notin> set (dbg_pending (fst dt'))"
proof -
  from debugPortFlush_stream[OF assms(1,2)] obtain f where
    f: "debugPortFlush dt = Some f" "dbg_ok (fst f)" "dbg_stream f = dbg_stream dt"
      "dbg_pending (fst f) = []" "unat (debugStdoutCachedCount (fst f)) = 0"
    by blast
  consider "x = 13 \<or> x = 10" | "x = 37" | "x \<noteq> 13" "x \<noteq> 10" "x \<noteq> 37" by blast
  then show ?thesis
  proof cases
    case 1
    with f show ?thesis by (auto simp: debugPortWrite_byte_def dbg_text_def)
  next
    case 2
    with assms f debugPut2_stream[OF assms(1), of x x] debugPut2_stream[OF f(2), of x x]
    show ?thesis by (auto simp: debugPortWrite_byte_def dbg_text_def)
  next
    case 3
    with assms f debugPut_stream[OF assms(1), of x] debugPut_stream[OF f(2), of x]
    show ?thesis by (auto simp: debugPortWrite_byte_def dbg_text_def)
  qed
qed

lemma debugPortWrite_stream:
  assumes "dbg_ok (fst dt)" and "0 \<notin> set (dbg_pending (fst dt))" and "0 \<notin> set xs"
  shows "\<exists>dt'. debugPortWrite xs dt = Some dt' \<and> dbg_ok (fst dt') \<and>
           dbg_stream dt' = dbg_stream dt @ dbg_text xs \<and> 0 \<notin> set (dbg_pending (fst dt'))"
  using assms
proof (induction xs arbitrary: dt)
  case Nil
  then show ?case by (simp add: dbg_text_def)
next
  case (Cons x xs)
  then have "x \<noteq> 0" by auto
  from debugPortWrite_byte_stream[OF Cons.prems(1,2) this] obtain t where
    t: "debugPortWrite_byte x dt = Some t" "dbg_ok (fst t)"
      "dbg_stream t = dbg_stream dt @ dbg_text [x]" "0 \<notin> set (dbg_pending (fst t))"
    by blast
  from Cons.IH[OF t(2,4)] Cons.prems(3) t(1,3) show ?case
    by (auto simp: dbg_text_def)
qed

section \<open>The invariant of the layer\<close>

definition uart_inv :: "uart_st \<Rightarrow> bool" where
  "uart_inv s \<longleftrightarrow> length (uartPhyContext s) = 3 \<and> length (uartContext s) = 4 \<and>
     (\<forall>c \<in> set (uartPhyContext s). phy_ok c) \<and> vat_ok (vatc s) \<and>
     length (debugStdoutBuffer (dbg s)) = 128 \<and> debugStdoutCachedCount (dbg s) < 128"

text \<open>The static initialisers of the file.\<close>

definition init_queue :: "u32 \<Rightarrow> cqueue" where
  "init_queue n = \<lparr>cq_buf = replicate (unat n) 0, cq_size = n, cq_head = 0, cq_tail = 0,
     cq_empty = True, cq_full = False, cq_overflow = False\<rparr>"

definition init_uart :: uart_st where
  "init_uart = \<lparr>uartPhyContext = replicate 3
       \<lparr>rxqueue = init_queue UART_RX_BUF_SIZE, temprxbuff = replicate RX_BUFFER_SIZE 0,
        readbuf = replicate 126 0, readindex = 0, readsize = 0\<rparr>,
     uartContext = replicate 4 \<lparr>uc_opened = False, uc_workmode = 0\<rparr>,
     vatc = \<lparr>vatcRx_Q = init_queue 8192, vatc_read_buffer = replicate 512 0,
        vatc_read_buf_size = 0, vatc_read_buf_index = 0\<rparr>,
     dbg = \<lparr>debugStdoutBuffer = replicate 128 0, debugStdoutCachedCount = 0\<rparr>,
     calls = []\<rparr>"

lemma init_queue_inv: "0 < n \<Longrightarrow> cq_inv (init_queue n) \<and> cq_list (init_queue n) = []"
  by (simp add: init_queue_def cq_inv_def cq_list_def cq_count_def)

lemma init_uart_inv: "uart_inv init_uart"
  by (simp add: uart_inv_def init_uart_def phy_ok_def vat_ok_def init_queue_inv
      UART_RX_BUF_SIZE_def)

lemma uartmap_ld: "uid < 4 \<Longrightarrow> \<exists>p. ld uartmap uid = Some p \<and> p < 3"
  by (auto simp: ld_def uartmap_def less_Suc_eq numeral_eq_Suc)

lemma uart_inv_emit [simp]: "uart_inv (emit c s) = uart_inv s"
  by (simp add: uart_inv_def emit_def)

lemma emit_fields [simp]:
  "uartPhyContext (emit c s) = uartPhyContext s" "uartContext (emit c s) = uartContext s"
  "vatc (emit c s) = vatc s" "dbg (emit c s) = dbg s" "calls (emit c s) = calls s @ [c]"
  by (simp_all add: emit_def)

lemma uart_inv_phy:
  assumes "uart_inv s" and "p < 3"
  shows "\<exists>c. ld (uartPhyContext s) p = Some c \<and> c = uartPhyContext s ! p \<and> phy_ok c"
  using assms by (auto simp: uart_inv_def ld_def)

lemma uart_inv_upd_phy:
  assumes "uart_inv s" and "phy_ok c"
  shows "uart_inv (s\<lparr>uartPhyContext := (uartPhyContext s)[p := c]\<rparr>)"
  using assms set_update_subset_insert[of "uartPhyContext s" p c] by (auto simp: uart_inv_def)

lemma uart_inv_ctxs:
  "uart_inv s \<Longrightarrow> length xs = 4 \<Longrightarrow> uart_inv (s\<lparr>uartContext := xs\<rparr>)"
  by (simp add: uart_inv_def)

lemma uart_inv_upd_ctx: "uart_inv s \<Longrightarrow> uart_inv (s\<lparr>uartContext := (uartContext s)[i := x]\<rparr>)"
  by (simp add: uart_inv_def)

lemma uart_inv_ctx: "uart_inv s \<Longrightarrow> uid < 4 \<Longrightarrow> \<exists>x. ld (uartContext s) uid = Some x"
  by (simp add: uart_inv_def ld_def)

lemma phy_ok_insert:
  assumes "phy_ok c" and "unat n \<le> length data"
  shows "\<exists>q. QueueInsert (rxqueue c) data n = Some (q, n) \<and> phy_ok (c\<lparr>rxqueue := q\<rparr>) \<and>
      cq_cap q = cq_cap (rxqueue c) \<and>
      cq_list q = lastn (cq_cap (rxqueue c)) (cq_list (rxqueue c) @ take (unat n) data)"
  using cq.insert_law[of "rxqueue c" n data] assms by (auto simp: phy_ok_def)

lemma phy_ok_clean:
  assumes "phy_ok c"
  shows "phy_ok (c\<lparr>rxqueue := QueueClean (rxqueue c), readindex := 0, readsize := 0\<rparr>) \<and>
      phy_pending (c\<lparr>rxqueue := QueueClean (rxqueue c), readindex := 0, readsize := 0\<rparr>) = []"
  using assms QueueClean_correct[of "rxqueue c"]
  by (auto simp: phy_ok_def phy_pending_def cq_inv_def)

lemma sendUartMessage_rx [simp]:
  "sendUartMessage uid OPENAT_DRV_EVT_UART_RX_DATA_IND s =
     Some (emit (Os_send_message (RTOS_MSG_UART_RX_DATA uid)) s)"
  by (simp add: sendUartMessage_def)

text \<open>
  Reception: \<open>m\<close> is the number of received bytes as the \<^verbatim>\<open>uint8\<close> holds it. When it is
  not 0, the first \<open>m\<close> bytes enter the queue, with a message if the queue was empty.
\<close>

lemma uart_rx_correct:
  assumes inv: "uart_inv s" and p: "ld uartmap uid = Some p" "p < 3" and rx: "length (read_uart n) \<le> 256"
  defines "m \<equiv> length (read_uart n) mod 256"
  defines "c \<equiv> uartPhyContext s ! p"
  shows "\<exists>t c'. uart_message_handle uid OPENAT_DRV_EVT_UART_RX_DATA_IND n read_uart s = Some t \<and>
     uart_inv t \<and> uartPhyContext t = (uartPhyContext s)[p := c'] \<and> phy_ok c' \<and>
     readbuf c' = readbuf c \<and> readindex c' = readindex c \<and> readsize c' = readsize c \<and>
     cq_cap (rxqueue c') = cq_cap (rxqueue c) \<and>
     cq_list (rxqueue c') = lastn (cq_cap (rxqueue c)) (cq_list (rxqueue c) @ take m (read_uart n)) \<and>
     calls t = calls s @ (if m \<noteq> 0 \<and> cq_empty (rxqueue c)
                          then [Os_send_message (RTOS_MSG_UART_RX_DATA uid)] else [])"
proof -
  from uart_inv_phy[OF inv p(2)] have c: "ld (uartPhyContext s) p = Some c" "phy_ok c"
    by (auto simp: c_def)
  have tl: "length (temprxbuff c) = 256" using c(2) by (simp add: phy_ok_def RX_BUFFER_SIZE_def)
  let ?tmp = "read_uart n @ drop (length (read_uart n)) (temprxbuff c)"
  let ?n = "of_nat (length (read_uart n)) :: u8"
  have cnt: "unat ?n = m" by (simp add: m_def unsigned_of_nat take_bit_eq_mod)
  have un: "unat (ucast ?n :: u32) = m" using cnt by (simp add: unsigned_ucast_eq m_def take_bit_eq_mod)
  have m: "m \<le> length (read_uart n)" by (simp add: m_def)
  have ok: "phy_ok (c\<lparr>temprxbuff := ?tmp\<rparr>)"
    using c(2) tl rx by (simp add: phy_ok_def RX_BUFFER_SIZE_def)
  show ?thesis
  proof (cases "m = 0")
    case True
    then have "?n = 0" using cnt by (simp add: unat_eq_0)
    then show ?thesis
      using True c p(1) ok rx tl inv uart_inv_upd_phy[OF inv ok]
        cq_count_facts(2)[of "rxqueue c"]
      by (auto simp: uart_message_handle_def fill_in Let_def phy_ok_def cq_cap_def intro!: exI)
  next
    case False
    then have nz: "?n \<noteq> 0" using cnt by auto
    have "unat (ucast ?n :: u32) \<le> length ?tmp" using un m by simp
    from phy_ok_insert[OF ok this] obtain q where
      q: "QueueInsert (rxqueue c) ?tmp (ucast ?n) = Some (q, ucast ?n)"
        "phy_ok (c\<lparr>temprxbuff := ?tmp, rxqueue := q\<rparr>)" "cq_cap q = cq_cap (rxqueue c)"
        "cq_list q = lastn (cq_cap (rxqueue c)) (cq_list (rxqueue c) @ take m (read_uart n))"
      using un m by auto
    then show ?thesis
      using False nz c p(1) rx tl uart_inv_upd_phy[OF inv q(2)]
      by (auto simp: uart_message_handle_def fill_in Let_def intro!: exI)
  qed
qed

lemma uart_message_handle_inv:
  assumes inv: "uart_inv s" and "uid < 4" and rx: "evt = OPENAT_DRV_EVT_UART_RX_DATA_IND \<Longrightarrow> length (read_uart n) \<le> 256"
  shows "\<exists>t. uart_message_handle uid evt n read_uart s = Some t \<and> uart_inv t"
proof -
  from uartmap_ld[OF \<open>uid < 4\<close>] obtain p where p: "ld uartmap uid = Some p" "p < 3" by blast
  show ?thesis
  proof (cases evt)
    case OPENAT_DRV_EVT_UART_RX_DATA_IND
    with uart_rx_correct[OF inv p, of read_uart n] rx show ?thesis by blast
  qed (use p inv in \<open>simp_all add: uart_message_handle_def sendUartMessage_def\<close>)
qed

lemma uart_message_handle_overflow:
  assumes inv: "uart_inv s" and "uid < 4" and rx: "256 < length (read_uart n)"
  shows "uart_message_handle uid OPENAT_DRV_EVT_UART_RX_DATA_IND n read_uart s = None"
proof -
  from uartmap_ld[OF \<open>uid < 4\<close>] obtain p where p: "ld uartmap uid = Some p" "p < 3" by blast
  from uart_inv_phy[OF inv p(2)] obtain c where c: "ld (uartPhyContext s) p = Some c" "length (temprxbuff c) = 256"
    by (auto simp: phy_ok_def RX_BUFFER_SIZE_def)
  then show ?thesis using p(1) rx by (simp add: uart_message_handle_def fill_def Let_def)
qed

lemma host_uart_recv_inv:
  assumes inv: "uart_inv s" and n: "unat n \<le> length data"
  shows "\<exists>t. host_uart_recv data n s = Some t \<and> uart_inv t"
proof -
  from uart_inv_phy[OF inv, of OPENAT_UART_3] obtain c where
    c: "ld (uartPhyContext s) OPENAT_UART_3 = Some c" "phy_ok c"
    by (auto simp: OPENAT_UART_3_def)
  from phy_ok_insert[OF c(2) n] obtain q where
    "QueueInsert (rxqueue c) data n = Some (q, n)" "phy_ok (c\<lparr>rxqueue := q\<rparr>)" by blast
  with c inv uart_inv_upd_phy[OF inv] show ?thesis
    by (auto simp: host_uart_recv_def Let_def)
qed

lemma uart_phy_open_inv:
  assumes inv: "uart_inv s" and u: "uid < 4"
  shows "\<exists>t r. uart_phy_open env uid baud db par sb mode tx s = Some (t, r) \<and> uart_inv t"
proof -
  from uartmap_ld[OF u] obtain p where p: "ld uartmap uid = Some p" "p < 3" by blast
  from uart_inv_ctx[OF inv u] obtain x where x: "ld (uartContext s) uid = Some x" by blast
  from uart_inv_phy[OF inv p(2)] obtain c where
    c: "ld (uartPhyContext s) p = Some c" "phy_ok c" by blast
  have buf: "cq_buf (rxqueue c) \<noteq> []"
    using c(2) cq_inv_buf by (simp add: phy_ok_def)
  have len: "length (uartContext s) = 4" using inv by (simp add: uart_inv_def)
  let ?s = "s\<lparr>uartPhyContext := (uartPhyContext s)[p := c]\<rparr>"
  have s': "uart_inv ?s" by (rule uart_inv_upd_phy[OF inv c(2)])
  have opened: "uart_inv ((emit k ?s)\<lparr>uartContext := (uartContext s)[uid := y]\<rparr>)" for k y
    using s' len by (intro uart_inv_ctxs) simp_all
  show ?thesis
  proof (cases "uc_opened x")
    case True
    then show ?thesis using x inv by (simp add: uart_phy_open_def)
  next
    case closed: False
    show ?thesis
    proof (cases "p = OPENAT_UART_3 \<and> mode = 2")
      case True
      then show ?thesis using closed x p c buf s' opened[where k = Os_host_init]
        by (simp add: uart_phy_open_def Let_def)
    next
      case False
      then show ?thesis using closed x p(1) c(1) buf s' opened
        by (cases "p = OPENAT_UART_3") (simp_all add: uart_phy_open_def Let_def split: option.split)
    qed
  qed
qed

lemma uart_phy_close_inv:
  assumes inv: "uart_inv s" and u: "uid < 4"
  shows "\<exists>t r. uart_phy_close env uid s = Some (t, r) \<and> uart_inv t"
proof -
  from uartmap_ld[OF u] obtain p where p: "ld uartmap uid = Some p" "p < 3" by blast
  from uart_inv_ctx[OF inv u] obtain x where x: "ld (uartContext s) uid = Some x" by blast
  from uart_inv_phy[OF inv p(2)] obtain c where
    c: "ld (uartPhyContext s) p = Some c" "phy_ok c" by blast
  let ?s = "(emit (Os_close_uart p) s)\<lparr>uartContext := (uartContext s)[uid := x\<lparr>uc_opened := False\<rparr>]\<rparr>"
  have s': "uart_inv ?s" using uart_inv_upd_ctx[of "emit (Os_close_uart p) s"] inv by simp
  from uart_inv_upd_phy[OF this conjunct1[OF phy_ok_clean[OF c(2)]], of p] x p(1) c(1) inv
  show ?thesis by (auto simp: uart_phy_close_def Let_def)
qed

lemma uart_phy_clear_inv:
  assumes inv: "uart_inv s" and u: "uid < 4"
  shows "\<exists>t r. uart_phy_clear env uid bt s = Some (t, r) \<and> uart_inv t"
proof -
  from uartmap_ld[OF u] obtain p where p: "ld uartmap uid = Some p" "p < 3" by blast
  from uart_inv_ctx[OF inv u] obtain x where x: "ld (uartContext s) uid = Some x" by blast
  from uart_inv_phy[OF inv p(2)] obtain c where
    c: "ld (uartPhyContext s) p = Some c" "phy_ok c" by blast
  have "uart_inv (emit (Os_clear_uart p bt) s)" using inv by simp
  from uart_inv_upd_phy[OF this conjunct1[OF phy_ok_clean[OF c(2)]], of p] x p(1) c(1) inv
  show ?thesis by (auto simp: uart_phy_clear_def Let_def)
qed

lemma uart_phy_write_inv:
  assumes inv: "uart_inv s"
  shows "\<exists>t r. uart_phy_write env id8 data s = Some (t, r) \<and> uart_inv t"
proof (cases "unat id8 < 4")
  case False
  with inv show ?thesis by (simp add: uart_phy_write_def NUM_UART_def)
next
  case True
  from uartmap_ld[OF True] uart_inv_ctx[OF inv True] inv show ?thesis
    by (auto simp: uart_phy_write_def)
qed

lemma uart_phy_read_correct:
  assumes inv: "uart_inv s" and p: "ld uartmap (unat id8) = Some p" "p < 3"
    and x: "ld (uartContext s) (unat id8) = Some x" "uc_opened x" "uc_workmode x \<noteq> 1"
    and len: "unat len \<le> length data_p"
  defines "c \<equiv> uartPhyContext s ! p"
  defines "k \<equiv> min (unat len) (length (phy_pending c))"
  shows "\<exists>t c'. uart_phy_read id8 data_p len rx s =
      Some (t, take k (phy_pending c) @ drop k data_p, k) \<and> uart_inv t \<and>
      uartPhyContext t = (uartPhyContext s)[p := c'] \<and> phy_pending c' = drop k (phy_pending c)"
proof -
  from uart_inv_phy[OF inv p(2)] have c: "ld (uartPhyContext s) p = Some c" "phy_ok c"
    by (auto simp: c_def)
  from uart.read_loop_correct[of "(c, calls s)" "unat len" data_p k p] c(2) len obtain c' tr where
    r: "read_loop (uart_next p) (unat len) 0 (c, calls s) data_p =
          Some ((c', tr), take k (phy_pending c) @ drop k data_p, k)"
      "phy_ok c'" "phy_pending c' = drop k (phy_pending c)"
    by (auto simp: k_def)
  from uart_inv_upd_phy[OF inv r(2), of p] have "uart_inv
      (s\<lparr>uartPhyContext := (uartPhyContext s)[p := c'], calls := tr\<rparr>)"
    by (simp add: uart_inv_def)
  with r x p(1) c(1) show ?thesis by (auto simp: uart_phy_read_def intro!: exI)
qed

lemma vatc_read_correct:
  assumes inv: "uart_inv s" and len: "unat len \<le> length data_p"
  defines "k \<equiv> min (unat len) (length (vat_pending (vatc s)))"
  shows "\<exists>t. vatc_read data_p len s =
      Some (t, take k (vat_pending (vatc s)) @ drop k data_p, k) \<and> uart_inv t \<and>
      vat_pending (vatc t) = drop k (vat_pending (vatc s))"
proof -
  from vat.read_loop_correct[of "(vatc s, calls s)" "unat len" data_p k] inv len obtain c' tr where
    "read_loop vatc_next (unat len) 0 (vatc s, calls s) data_p =
       Some ((c', tr), take k (vat_pending (vatc s)) @ drop k data_p, k)"
    "vat_ok c'" "vat_pending c' = drop k (vat_pending (vatc s))"
    by (auto simp: k_def uart_inv_def)
  with inv show ?thesis by (auto simp: vatc_read_def uart_inv_def)
qed

lemma RILAPI_ReceiveData_correct:
  assumes inv: "uart_inv s" and n: "unat n \<le> length data"
    and room: "length (cq_list (vatcRx_Q (vatc s))) + unat n \<le> cq_cap (vatcRx_Q (vatc s))"
  shows "\<exists>t. RILAPI_ReceiveData data n s = Some t \<and> uart_inv t \<and>
      vat_pending (vatc t) = vat_pending (vatc s) @ take (unat n) data"
proof -
  from inv have "cq_inv (vatcRx_Q (vatc s))" by (simp add: uart_inv_def vat_ok_def)
  from cq.insert_no_loss[OF this n room] obtain q where
    "QueueInsert (vatcRx_Q (vatc s)) data n = Some (q, n)" "cq_inv q"
    "cq_list q = cq_list (vatcRx_Q (vatc s)) @ take (unat n) data" by blast
  with inv show ?thesis
    by (auto simp: RILAPI_ReceiveData_def Let_def uart_inv_def vat_ok_def vat_pending_def)
qed

lemma debug_write_inv:
  assumes "uart_inv s" and "0 \<notin> set (dbg_pending (dbg s))" and "0 \<notin> set xs"
  shows "\<exists>t. debug_write xs s = Some t \<and> uart_inv t \<and> 0 \<notin> set (dbg_pending (dbg t)) \<and>
      dbg_stream (dbg t, calls t) = dbg_stream (dbg s, calls s) @ dbg_text xs"
  using debugPortWrite_stream[of "(dbg s, calls s)" xs] assms
  by (auto simp: debug_write_def uart_inv_def dbg_ok_def)

text \<open>The debug port is memory safe whatever bytes it is given.\<close>

lemma debugPut_safe:
  assumes "dbg_ok (fst dt)" and "unat (debugStdoutCachedCount (fst dt)) < 127"
  shows "\<exists>dt'. debugPut x dt = Some dt' \<and> dbg_ok (fst dt') \<and>
           unat (debugStdoutCachedCount (fst dt')) = Suc (unat (debugStdoutCachedCount (fst dt)))"
  using debugPut_stream[OF assms] by blast

lemma debugPortFlush_safe:
  assumes "dbg_ok (fst dt)"
  shows "\<exists>dt'. debugPortFlush dt = Some dt' \<and> dbg_ok (fst dt') \<and>
           unat (debugStdoutCachedCount (fst dt')) = 0"
  using assms
  by (cases dt) (auto simp: debugPortFlush_def dbg_ok_def st_in word_less_nat_alt)

lemma debugPut2_safe:
  assumes "dbg_ok (fst dt)" and "unat (debugStdoutCachedCount (fst dt)) < 126"
  shows "\<exists>dt'. debugPut x dt \<bind> debugPut y = Some dt' \<and> dbg_ok (fst dt')"
  using debugPut2_stream[OF assms] by blast

lemma debugPortWrite_byte_safe:
  assumes "dbg_ok (fst dt)"
  shows "\<exists>dt'. debugPortWrite_byte x dt = Some dt' \<and> dbg_ok (fst dt')"
proof -
  from debugPortFlush_safe[OF assms] obtain d tr where
    f: "debugPortFlush dt = Some (d, tr)" "dbg_ok d" "unat (debugStdoutCachedCount d) = 0"
    by (metis prod.collapse)
  have two: "\<exists>dt'. debugPut x (d, tr) \<bind> debugPut x = Some dt' \<and> dbg_ok (fst dt')"
    by (rule debugPut2_safe) (simp_all add: f)
  have one: "\<exists>dt'. debugPut x (d, tr) = Some dt' \<and> dbg_ok (fst dt')"
    using debugPut_safe[of "(d, tr)" x] f(2,3) by auto
  have now: "unat (debugStdoutCachedCount (fst dt)) < 127 \<Longrightarrow>
      \<exists>dt'. debugPut x dt = Some dt' \<and> dbg_ok (fst dt')"
    using debugPut_safe[OF assms, of x] by auto
  show ?thesis
    using two one now debugPut2_safe[OF assms, of x x]
    by (auto simp: debugPortWrite_byte_def f(1,2))
qed

lemma debugPortWrite_safe:
  "dbg_ok (fst dt) \<Longrightarrow> \<exists>dt'. debugPortWrite xs dt = Some dt' \<and> dbg_ok (fst dt')"
proof (induction xs arbitrary: dt)
  case (Cons x xs)
  from debugPortWrite_byte_safe[OF Cons.prems, of x] Cons.IH show ?case by auto
qed simp

lemma debug_write_safe: "uart_inv s \<Longrightarrow> \<exists>t. debug_write xs s = Some t \<and> uart_inv t"
  using debugPortWrite_safe[of "(dbg s, calls s)" xs]
  by (auto simp: debug_write_def uart_inv_def dbg_ok_def)

section \<open>Runs of the layer\<close>

text \<open>
  One step is one call into the layer: an interrupt, data from the AT stack, or an
  operation of the Lua side. The guards are what the callers keep: the id is one of the
  four UARTs (\<^verbatim>\<open>platform_uart_exists\<close>), the data handed over have the length that is said, and a read of one
  byte that is polled gives at most one. An interrupt whose data do not fit the temporary buffer has no step.
\<close>

inductive uart_step :: "uart_st \<Rightarrow> uart_st \<Rightarrow> bool" where
  irq: "uid < NUM_UART \<Longrightarrow> uart_message_handle uid evt n read_uart s = Some t \<Longrightarrow> uart_step s t"
| host_rx: "unat n \<le> length data \<Longrightarrow> host_uart_recv data n s = Some t \<Longrightarrow> uart_step s t"
| at_rx: "unat n \<le> length data \<Longrightarrow> RILAPI_ReceiveData data n s = Some t \<Longrightarrow> uart_step s t"
| setup_vat: "t = platform_setup_vat_queue s \<Longrightarrow> uart_step s t"
| setup_port: "uid < NUM_UART \<or> uid = PLATFORM_UART_ID_ATC \<or> uid = PLATFORM_PORT_ID_DEBUG \<Longrightarrow>
    platform_uart_setup env uid baud db par sb mode tx s = Some (t, r) \<Longrightarrow> uart_step s t"
| close: "platform_uart_close env uid s = Some (t, r) \<Longrightarrow> uart_step s t"
| clear: "platform_uart_clear env uid bt s = Some (t, r) \<Longrightarrow> uart_step s t"
| send: "platform_s_uart_send env uid x s = Some (t, r) \<Longrightarrow> uart_step s t"
| send_buff: "platform_s_uart_send_buff env uid xs s = Some (t, r) \<Longrightarrow> uart_step s t"
| recv: "uid < NUM_UART \<or> uid = PLATFORM_UART_ID_ATC \<or> uid = PLATFORM_PORT_ID_DEBUG \<Longrightarrow>
    length rx \<le> 1 \<Longrightarrow> platform_s_uart_recv uid rx s = Some (t, b) \<Longrightarrow> uart_step s t"

inductive uart_reach :: "uart_st \<Rightarrow> bool" where
  start: "uart_reach init_uart"
| step: "uart_reach s \<Longrightarrow> uart_step s t \<Longrightarrow> uart_reach t"

lemma RILAPI_ReceiveData_inv:
  assumes inv: "uart_inv s" and n: "unat n \<le> length data"
  shows "\<exists>t. RILAPI_ReceiveData data n s = Some t \<and> uart_inv t"
proof -
  from inv have "cq_inv (vatcRx_Q (vatc s))" by (simp add: uart_inv_def vat_ok_def)
  from cq.insert_law[OF this n] obtain q where
    "QueueInsert (vatcRx_Q (vatc s)) data n = Some (q, n)" "cq_inv q" by blast
  with inv show ?thesis
    by (auto simp: RILAPI_ReceiveData_def Let_def uart_inv_def vat_ok_def)
qed

lemma platform_uart_setup_inv:
  assumes "uart_inv s"
    and "uid < NUM_UART \<or> uid = PLATFORM_UART_ID_ATC \<or> uid = PLATFORM_PORT_ID_DEBUG"
  shows "\<exists>t r. platform_uart_setup env uid baud db par sb mode tx s = Some (t, r) \<and> uart_inv t"
  using assms uart_phy_open_inv[of s uid]
  by (auto simp: platform_uart_setup_def NUM_UART_def uart_inv_def)

lemma platform_uart_close_inv:
  "uart_inv s \<Longrightarrow> \<exists>t r. platform_uart_close env uid s = Some (t, r) \<and> uart_inv t"
  using uart_phy_close_inv[of s uid env] by (auto simp: platform_uart_close_def NUM_UART_def)

lemma platform_uart_clear_inv:
  "uart_inv s \<Longrightarrow> \<exists>t r. platform_uart_clear env uid bt s = Some (t, r) \<and> uart_inv t"
  using uart_phy_clear_inv[of s uid env bt] by (auto simp: platform_uart_clear_def NUM_UART_def)

lemma platform_s_uart_send_buff_inv:
  "uart_inv s \<Longrightarrow> \<exists>t r. platform_s_uart_send_buff env uid xs s = Some (t, r) \<and> uart_inv t"
  using uart_phy_write_inv[of s env] debug_write_safe[of s xs]
  by (fastforce simp: platform_s_uart_send_buff_def)

lemma platform_s_uart_send_inv:
  "uart_inv s \<Longrightarrow> \<exists>t r. platform_s_uart_send env uid x s = Some (t, r) \<and> uart_inv t"
  using uart_phy_write_inv[of s env] debug_write_safe[of s "[x]"]
  by (fastforce simp: platform_s_uart_send_def)

lemma uart_phy_read_inv:
  assumes inv: "uart_inv s" and u: "unat id8 < 4" and len: "unat len \<le> length data_p"
    and rx: "length rx \<le> length data_p"
  shows "\<exists>t out k. uart_phy_read id8 data_p len rx s = Some (t, out, k) \<and> uart_inv t"
proof -
  from uartmap_ld[OF u] obtain p where p: "ld uartmap (unat id8) = Some p" "p < 3" by blast
  from uart_inv_ctx[OF inv u] obtain x where x: "ld (uartContext s) (unat id8) = Some x" by blast
  from uart_phy_read_correct[OF inv p x _ _ len, of rx] inv x rx show ?thesis
    by (cases "uc_opened x"; cases "uc_workmode x = 1") (auto simp: uart_phy_read_def fill_in)
qed

lemma platform_s_uart_recv_inv:
  assumes inv: "uart_inv s" and rx: "length rx \<le> 1"
    and u: "uid < NUM_UART \<or> uid = PLATFORM_UART_ID_ATC \<or> uid = PLATFORM_PORT_ID_DEBUG"
  shows "\<exists>t b. platform_s_uart_recv uid rx s = Some (t, b) \<and> uart_inv t"
proof -
  have "unat (of_nat uid :: u8) < 4" if "uid < NUM_UART"
    using that by (simp add: NUM_UART_def unsigned_of_nat take_bit_nat_eq_self)
  then show ?thesis
    using uart_phy_read_inv[OF inv, of "of_nat uid" 1 "[0]" rx] vatc_read_correct[OF inv, of 1 "[0]"]
      inv rx u
    by (fastforce simp: platform_s_uart_recv_def)
qed

lemma uart_step_inv: "uart_step s t \<Longrightarrow> uart_inv s \<Longrightarrow> uart_inv t"
proof (induction rule: uart_step.induct)
  case (irq uid evt n read_uart s t)
  then have "length (read_uart n) \<le> 256" if "evt = OPENAT_DRV_EVT_UART_RX_DATA_IND"
    using uart_message_handle_overflow[of s uid read_uart n] that by (auto simp: NUM_UART_def not_le[symmetric])
  then show ?case using irq uart_message_handle_inv[of s uid evt read_uart n] by (auto simp: NUM_UART_def)
next
  case (setup_vat t s)
  then show ?case
    using QueueClean_correct[of "vatcRx_Q (vatc s)"]
    by (auto simp: platform_setup_vat_queue_def uart_inv_def vat_ok_def cq_inv_def)
next
  case (setup_port uid env baud db par sb mode tx s t r)
  with platform_uart_setup_inv[of s uid env baud db par sb mode tx] show ?case by auto
next
  case (recv uid rx s t b)
  with platform_s_uart_recv_inv[of s rx uid] show ?case by auto
next
  case (host_rx n data s t)
  with host_uart_recv_inv[of s n data] show ?case by auto
next
  case (at_rx n data s t)
  with RILAPI_ReceiveData_inv[of s n data] show ?case by auto
next
  case (close env uid s t r)
  with platform_uart_close_inv[of s env uid] show ?case by auto
next
  case (clear env uid bt s t r)
  with platform_uart_clear_inv[of s env uid bt] show ?case by auto
next
  case (send env uid x s t r)
  with platform_s_uart_send_inv[of s env uid x] show ?case by auto
next
  case (send_buff env uid xs s t r)
  with platform_s_uart_send_buff_inv[of s env uid xs] show ?case by auto
qed

lemma uart_reach_inv: "uart_reach s \<Longrightarrow> uart_inv s"
  by (induction rule: uart_reach.induct) (auto intro: init_uart_inv uart_step_inv)

lemma findOpenatUartBaud_loop_absent:
  "sorted bs \<Longrightarrow> baud \<notin> set bs \<Longrightarrow> findOpenatUartBaud_loop bs i baud r = r"
  by (induction bs arbitrary: i) auto

lemma findOpenatUartBaud_loop_sorted:
  "sorted bs \<Longrightarrow> distinct bs \<Longrightarrow> baud \<in> set bs \<Longrightarrow>
     findOpenatUartBaud_loop bs i baud r = i + length (takeWhile (\<lambda>b. b \<noteq> baud) bs)"
  by (induction bs arbitrary: i r) (auto simp: findOpenatUartBaud_loop_absent)

lemma findOpenatUartBaud_takeWhile:
  "findOpenatUartBaud baud = length (takeWhile (\<lambda>b. b \<noteq> baud) baud2OpenatUartBaud)"
proof -
  have s: "sorted baud2OpenatUartBaud" "distinct baud2OpenatUartBaud" "length baud2OpenatUartBaud = 17"
    by (simp_all add: baud2OpenatUartBaud_def)
  show ?thesis
  proof (cases "baud \<in> set baud2OpenatUartBaud")
    case True
    with s show ?thesis by (simp add: findOpenatUartBaud_def findOpenatUartBaud_loop_sorted)
  next
    case False
    then have "takeWhile (\<lambda>b. b \<noteq> baud) baud2OpenatUartBaud = baud2OpenatUartBaud"
      by (auto simp: takeWhile_eq_all_conv)
    then have "length (takeWhile (\<lambda>b. b \<noteq> baud) baud2OpenatUartBaud) = 17"
      using s(3) by metis
    with s False show ?thesis by (simp add: findOpenatUartBaud_def findOpenatUartBaud_loop_absent)
  qed
qed

lemma sendUartMessage_ctx: "sendUartMessage i e s = Some t \<Longrightarrow> uartContext t = uartContext s"
  by (auto simp: sendUartMessage_def split: drv_evt.splits bind_splits)

lemma uart_message_handle_ctx:
  "uart_message_handle uid evt n read_uart s = Some t \<Longrightarrow> uartContext t = uartContext s"
  by (auto simp: uart_message_handle_def Let_def split: drv_evt.splits bind_splits if_splits
      dest!: sendUartMessage_ctx)

section \<open>Properties\<close>

text \<open>
  C4. Every sequence of interrupts, AT data and platform calls leaves the layer well formed:
  the three ring buffers and the AT queue keep their invariant, and the staging indices and
  the debug cache stay inside their buffers.
\<close>

theorem uart_reachable_wellformed:
  assumes "uart_reach s"
  shows "uart_inv s"
  using assms by (rule uart_reach_inv)

theorem uart_reachable_wellformed_witness:
  "uart_inv (platform_setup_vat_queue init_uart)"
  by (rule uart_reachable_wellformed) (rule uart_reach.step[OF uart_reach.start], rule uart_step.setup_vat, rule refl)

text \<open>
  C5. The interrupt and platform entry points in a reachable state: setting up, polling, sending, closing and
  clearing return without leaving a buffer. The interrupt handler returns exactly if the driver, asked for the length that
  the event announces, delivers at most the 256 bytes of \<^verbatim>\<open>temprxbuff\<close>: that length is not checked, and with a longer
  delivery the handler writes behind the buffer.
\<close>

theorem uart_entry_points_safe:
  assumes "uart_reach s" and "uid < NUM_UART" and "length pc \<le> 1"
  shows "((\<exists>t1. uart_message_handle uid evt n read_uart s = Some t1) \<longleftrightarrow>
      \<not> (evt = OPENAT_DRV_EVT_UART_RX_DATA_IND \<and> RX_BUFFER_SIZE < length (read_uart n))) \<and>
    (\<exists>t2 r2 t3 b3 t4 r4 t5 r5 t6 r6.
    platform_uart_setup env uid baud db par sb mode tx s = Some (t2, r2) \<and>
    platform_s_uart_recv uid pc s = Some (t3, b3) \<and>
    platform_s_uart_send_buff env port xs s = Some (t4, r4) \<and>
    platform_uart_close env port s = Some (t5, r5) \<and>
    platform_uart_clear env port bt s = Some (t6, r6))"
proof
  from assms(1) have inv: "uart_inv s" by (rule uart_reach_inv)
  have uid: "uid < 4" using assms(2) by (simp add: NUM_UART_def)
  show "(\<exists>t1. uart_message_handle uid evt n read_uart s = Some t1) \<longleftrightarrow>
      \<not> (evt = OPENAT_DRV_EVT_UART_RX_DATA_IND \<and> RX_BUFFER_SIZE < length (read_uart n))"
  proof (cases "evt = OPENAT_DRV_EVT_UART_RX_DATA_IND \<and> RX_BUFFER_SIZE < length (read_uart n)")
    case True
    then show ?thesis using uart_message_handle_overflow[OF inv uid, of read_uart n] by (simp add: RX_BUFFER_SIZE_def)
  next
    case False
    then have "length (read_uart n) \<le> 256" if "evt = OPENAT_DRV_EVT_UART_RX_DATA_IND"
      using that by (simp add: RX_BUFFER_SIZE_def)
    then have "\<exists>t1. uart_message_handle uid evt n read_uart s = Some t1" using uart_message_handle_inv[OF inv uid] by blast
    then show ?thesis using False by blast
  qed
  show "\<exists>t2 r2 t3 b3 t4 r4 t5 r5 t6 r6.
    platform_uart_setup env uid baud db par sb mode tx s = Some (t2, r2) \<and>
    platform_s_uart_recv uid pc s = Some (t3, b3) \<and>
    platform_s_uart_send_buff env port xs s = Some (t4, r4) \<and>
    platform_uart_close env port s = Some (t5, r5) \<and>
    platform_uart_clear env port bt s = Some (t6, r6)"
    using platform_uart_setup_inv[OF inv, of uid env baud db par sb mode tx]
      platform_s_uart_recv_inv[OF inv assms(3), of uid]
      platform_s_uart_send_buff_inv[OF inv, of env port xs]
      platform_uart_close_inv[OF inv, of env port] platform_uart_clear_inv[OF inv, of env port bt]
      assms(2)
    by (simp add: NUM_UART_def) blast
qed

definition sample_env :: uart_env where
  "sample_env = \<lparr>ue_calloc = [], ue_host_init = True, ue_config_uart = True, ue_close_uart = True,
     ue_clear_uart = True, ue_write_uart = 1, ue_console_port = 9\<rparr>"

text \<open>A driver that delivers as many bytes as it is asked for.\<close>

definition plenty :: "u32 \<Rightarrow> u8 list" where
  "plenty n = replicate (unat n) 65"

theorem uart_entry_points_safe_witness:
  "(\<exists>t. uart_message_handle 3 OPENAT_DRV_EVT_UART_RX_DATA_IND 256 plenty init_uart = Some t) \<and>
   uart_message_handle 3 OPENAT_DRV_EVT_UART_RX_DATA_IND 257 plenty init_uart = None \<and>
   (\<exists>t b. platform_s_uart_recv 3 [65] init_uart = Some (t, b))"
proof -
  have "uart_reach init_uart" "3 < NUM_UART" "length [65 :: u8] \<le> 1" by (simp_all add: uart_reach.start NUM_UART_def)
  note safe = uart_entry_points_safe[OF this, where evt = OPENAT_DRV_EVT_UART_RX_DATA_IND and read_uart = plenty]
  show ?thesis using safe[where n = 256] safe[where n = 257] by (auto simp: RX_BUFFER_SIZE_def plenty_def)
qed

lemma plenty_2: "plenty 2 = [65, 65]"
  by code_simp

text \<open>
  C3. Received bytes are read in order. When an interrupt delivers at most 255 bytes and the
  ring buffer has room for them, a later read of the port, opened and not polled, for as many bytes as are then there
  returns the bytes that were pending followed by the new ones, and the shell gets a message exactly if the ring
  buffer was empty and something arrived.
\<close>

theorem uart_receive_then_read:
  assumes inv: "uart_inv s" and p: "ld uartmap (unat id8) = Some p" "p < 3"
    and x: "ld (uartContext s) (unat id8) = Some x" "uc_opened x" "uc_workmode x \<noteq> 1"
    and rx: "read_uart n = rx" "length rx < 256"
    and room: "length (cq_list (rxqueue (uartPhyContext s ! p))) + length rx
                 \<le> cq_cap (rxqueue (uartPhyContext s ! p))"
    and out: "unat len \<le> length out" "length (phy_pending (uartPhyContext s ! p)) + length rx = unat len"
  shows "\<exists>t u. uart_message_handle (unat id8) OPENAT_DRV_EVT_UART_RX_DATA_IND n read_uart s = Some t \<and>
    calls t = calls s @ (if rx \<noteq> [] \<and> cq_empty (rxqueue (uartPhyContext s ! p))
                         then [Os_send_message (RTOS_MSG_UART_RX_DATA (unat id8))] else []) \<and>
    uart_phy_read id8 out len [] t =
      Some (u, phy_pending (uartPhyContext s ! p) @ rx @ drop (unat len) out, unat len)"
proof -
  let ?c = "uartPhyContext s ! p"
  from uart_rx_correct[OF inv p, of read_uart n] rx room obtain t c' where
    t: "uart_message_handle (unat id8) OPENAT_DRV_EVT_UART_RX_DATA_IND n read_uart s = Some t"
      "uart_inv t" "uartPhyContext t = (uartPhyContext s)[p := c']"
      "readbuf c' = readbuf ?c" "readindex c' = readindex ?c" "readsize c' = readsize ?c"
      "cq_list (rxqueue c') = cq_list (rxqueue ?c) @ rx"
      "calls t = calls s @ (if rx \<noteq> [] \<and> cq_empty (rxqueue ?c)
                            then [Os_send_message (RTOS_MSG_UART_RX_DATA (unat id8))] else [])"
    by auto
  have c': "uartPhyContext t ! p = c'" using t(3) inv p(2) by (simp add: uart_inv_def)
  have pend: "phy_pending c' = phy_pending ?c @ rx" by (simp add: phy_pending_def t(4-7))
  have "uartContext t = uartContext s" by (rule uart_message_handle_ctx[OF t(1)])
  with x have "ld (uartContext t) (unat id8) = Some x" by simp
  from uart_phy_read_correct[OF t(2) p this x(2,3) out(1), of "[]"] t(1,8) out(2)
  show ?thesis by (auto simp: c' pend)
qed

definition sample_uart :: uart_st where
  "sample_uart = init_uart\<lparr>uartContext := (uartContext init_uart)[1 := \<lparr>uc_opened = True, uc_workmode = 0\<rparr>]\<rparr>"

lemma sample_uart_inv: "uart_inv sample_uart"
  by (simp add: sample_uart_def uart_inv_upd_ctx init_uart_inv)

lemma sample_uart_fields:
  "rxqueue (uartPhyContext sample_uart ! 0) = init_queue 1460"
  "phy_pending (uartPhyContext sample_uart ! 0) = []"
  "uartContext sample_uart = (uartContext init_uart)[1 := \<lparr>uc_opened = True, uc_workmode = 0\<rparr>]"
  "length (uartContext init_uart) = 4" "calls sample_uart = []"
  by (simp_all add: sample_uart_def init_uart_def phy_pending_def UART_RX_BUF_SIZE_def init_queue_inv)

theorem uart_receive_then_read_witness:
  "\<exists>t u. uart_message_handle 1 OPENAT_DRV_EVT_UART_RX_DATA_IND 2 plenty sample_uart = Some t \<and>
     calls t = [Os_send_message (RTOS_MSG_UART_RX_DATA 1)] \<and>
     uart_phy_read 1 [0, 0, 0] 2 [] t = Some (u, [65, 65, 0], 2)"
  using uart_receive_then_read[of sample_uart 1 0 "\<lparr>uc_opened = True, uc_workmode = 0\<rparr>"
      plenty 2 "[65, 65]" 2 "[0, 0, 0]"] sample_uart_inv
  by (simp add: sample_uart_fields uartmap_def ld_def init_queue_inv plenty_2)
    (simp add: init_queue_def cq_cap_def)

text \<open>
  An interrupt that delivers exactly 256 bytes, a full \<^verbatim>\<open>temprxbuff\<close>, is lost: the
  count is kept in a \<^verbatim>\<open>uint8\<close>, so nothing enters the queue and no message is sent.
\<close>

theorem uart_256_bytes_lost:
  assumes inv: "uart_inv s" and p: "ld uartmap uid = Some p" "p < 3" and rx: "length (read_uart n) = 256"
  shows "\<exists>t. uart_message_handle uid OPENAT_DRV_EVT_UART_RX_DATA_IND n read_uart s = Some t \<and>
    calls t = calls s \<and> phy_pending (uartPhyContext t ! p) = phy_pending (uartPhyContext s ! p)"
proof -
  from inv p(2) have "phy_ok (uartPhyContext s ! p)" by (simp add: uart_inv_def)
  then have "cq_inv (rxqueue (uartPhyContext s ! p))" by (simp add: phy_ok_def)
  note cq.bounded[OF this]
  with uart_rx_correct[OF inv p, of read_uart n] rx inv p(2) show ?thesis
    by (auto simp: phy_pending_def uart_inv_def)
qed

theorem uart_256_bytes_lost_witness:
  "\<exists>t. uart_message_handle 3 OPENAT_DRV_EVT_UART_RX_DATA_IND 256 plenty init_uart = Some t \<and>
     calls t = []"
  using uart_256_bytes_lost[of init_uart 3 2 plenty 256] init_uart_inv
  by (auto simp: plenty_def uartmap_def ld_def init_uart_def)

text \<open>
  The virtual AT channel: what the AT stack hands over is what \<^verbatim>\<open>vatc_read\<close> returns,
  after the data already pending, when the queue of 8192 bytes has room.
\<close>

theorem vat_receive_then_read:
  assumes inv: "uart_inv s" and n: "unat n = length data"
    and room: "length (cq_list (vatcRx_Q (vatc s))) + length data \<le> cq_cap (vatcRx_Q (vatc s))"
    and out: "unat len \<le> length out" "length (vat_pending (vatc s)) + length data = unat len"
  shows "\<exists>t u. RILAPI_ReceiveData data n s = Some t \<and>
    vatc_read out len t = Some (u, vat_pending (vatc s) @ data @ drop (unat len) out, unat len) \<and>
    vat_pending (vatc u) = []"
proof -
  from RILAPI_ReceiveData_correct[OF inv, of n data] n room obtain t where
    t: "RILAPI_ReceiveData data n s = Some t" "uart_inv t"
      "vat_pending (vatc t) = vat_pending (vatc s) @ data" by auto
  from vatc_read_correct[OF t(2) out(1)] t(1,3) out(2) show ?thesis by auto
qed

theorem vat_receive_then_read_witness:
  "\<exists>t u. RILAPI_ReceiveData [79, 75] 2 init_uart = Some t \<and>
     vatc_read [0, 0] 2 t = Some (u, [79, 75], 2)"
proof -
  have "vatcRx_Q (vatc init_uart) = init_queue 8192" "vat_pending (vatc init_uart) = []"
    by (simp_all add: init_uart_def vat_pending_def init_queue_inv)
  then show ?thesis
    using vat_receive_then_read[of init_uart 2 "[79, 75]" 2 "[0, 0]"] init_uart_inv
    by (auto simp: init_queue_inv) (simp add: init_queue_def cq_cap_def, blast)
qed

text \<open>
  The debug port prints what is written to it: as long as no NUL byte is written, what
  has been printed and what still waits in the cache is the text written, without its line
  ends and with each percent sign doubled.
\<close>

theorem debug_write_prints_text:
  assumes "uart_inv s" and "0 \<notin> set (dbg_pending (dbg s))" and "0 \<notin> set xs"
  shows "\<exists>t. debug_write xs s = Some t \<and> uart_inv t \<and> 0 \<notin> set (dbg_pending (dbg t)) \<and>
    dbg_stream (dbg t, calls t) = dbg_stream (dbg s, calls s) @ dbg_text xs"
  using assms by (rule debug_write_inv)

theorem debug_write_prints_text_witness:
  "\<exists>t. debug_write [72, 37, 10] init_uart = Some t \<and> dbg_stream (dbg t, calls t) = [72, 37, 37]"
proof -
  have "dbg_pending (dbg init_uart) = []" "calls init_uart = []"
    by (simp_all add: init_uart_def dbg_pending_def)
  then show ?thesis
    using debug_write_prints_text[of init_uart "[72, 37, 10]"] init_uart_inv
    by (auto simp: dbg_stream_def dbg_text_def)
qed

text \<open>
  The baud rate search finds the enumerator of every supported rate, and answers the
  number of rates (17) for every other word.
\<close>

theorem findOpenatUartBaud_index:
  "findOpenatUartBaud baud =
     length (takeWhile (\<lambda>b. b \<noteq> baud) baud2OpenatUartBaud)"
  by (rule findOpenatUartBaud_takeWhile)

end
