(* ===== verification/Crc.thy ===== *)
theory Crc
  imports C_Prelude
begin

text \<open>
  The checksums of \<^verbatim>\<open>platform/src/crc.c\<close>: the Modbus CRC-16, the IEEE CRC-32 and
  a CRC-8, each a table-driven loop over bytes. The reference is the polynomial division, one
  bit at a time; the tables are proved to be eight steps of it.
\<close>

section \<open>The code\<close>

definition CRCHiTable :: "u8 list" where
  "CRCHiTable = [
    0x00, 0xC1, 0x81, 0x40, 0x01, 0xC0, 0x80, 0x41, 0x01, 0xC0, 0x80, 0x41,
    0x00, 0xC1, 0x81, 0x40, 0x01, 0xC0, 0x80, 0x41, 0x00, 0xC1, 0x81, 0x40,
    0x00, 0xC1, 0x81, 0x40, 0x01, 0xC0, 0x80, 0x41, 0x01, 0xC0, 0x80, 0x41,
    0x00, 0xC1, 0x81, 0x40, 0x00, 0xC1, 0x81, 0x40, 0x01, 0xC0, 0x80, 0x41,
    0x00, 0xC1, 0x81, 0x40, 0x01, 0xC0, 0x80, 0x41, 0x01, 0xC0, 0x80, 0x41,
    0x00, 0xC1, 0x81, 0x40, 0x01, 0xC0, 0x80, 0x41, 0x00, 0xC1, 0x81, 0x40,
    0x00, 0xC1, 0x81, 0x40, 0x01, 0xC0, 0x80, 0x41, 0x00, 0xC1, 0x81, 0x40,
    0x01, 0xC0, 0x80, 0x41, 0x01, 0xC0, 0x80, 0x41, 0x00, 0xC1, 0x81, 0x40,
    0x00, 0xC1, 0x81, 0x40, 0x01, 0xC0, 0x80, 0x41, 0x01, 0xC0, 0x80, 0x41,
    0x00, 0xC1, 0x81, 0x40, 0x01, 0xC0, 0x80, 0x41, 0x00, 0xC1, 0x81, 0x40,
    0x00, 0xC1, 0x81, 0x40, 0x01, 0xC0, 0x80, 0x41, 0x01, 0xC0, 0x80, 0x41,
    0x00, 0xC1, 0x81, 0x40, 0x00, 0xC1, 0x81, 0x40, 0x01, 0xC0, 0x80, 0x41,
    0x00, 0xC1, 0x81, 0x40, 0x01, 0xC0, 0x80, 0x41, 0x01, 0xC0, 0x80, 0x41,
    0x00, 0xC1, 0x81, 0x40, 0x00, 0xC1, 0x81, 0x40, 0x01, 0xC0, 0x80, 0x41,
    0x01, 0xC0, 0x80, 0x41, 0x00, 0xC1, 0x81, 0x40, 0x01, 0xC0, 0x80, 0x41,
    0x00, 0xC1, 0x81, 0x40, 0x00, 0xC1, 0x81, 0x40, 0x01, 0xC0, 0x80, 0x41,
    0x00, 0xC1, 0x81, 0x40, 0x01, 0xC0, 0x80, 0x41, 0x01, 0xC0, 0x80, 0x41,
    0x00, 0xC1, 0x81, 0x40, 0x01, 0xC0, 0x80, 0x41, 0x00, 0xC1, 0x81, 0x40,
    0x00, 0xC1, 0x81, 0x40, 0x01, 0xC0, 0x80, 0x41, 0x01, 0xC0, 0x80, 0x41,
    0x00, 0xC1, 0x81, 0x40, 0x00, 0xC1, 0x81, 0x40, 0x01, 0xC0, 0x80, 0x41,
    0x00, 0xC1, 0x81, 0x40, 0x01, 0xC0, 0x80, 0x41, 0x01, 0xC0, 0x80, 0x41,
    0x00, 0xC1, 0x81, 0x40]"

definition CRCLoTable :: "u8 list" where
  "CRCLoTable = [
    0x00, 0xC0, 0xC1, 0x01, 0xC3, 0x03, 0x02, 0xC2, 0xC6, 0x06, 0x07, 0xC7,
    0x05, 0xC5, 0xC4, 0x04, 0xCC, 0x0C, 0x0D, 0xCD, 0x0F, 0xCF, 0xCE, 0x0E,
    0x0A, 0xCA, 0xCB, 0x0B, 0xC9, 0x09, 0x08, 0xC8, 0xD8, 0x18, 0x19, 0xD9,
    0x1B, 0xDB, 0xDA, 0x1A, 0x1E, 0xDE, 0xDF, 0x1F, 0xDD, 0x1D, 0x1C, 0xDC,
    0x14, 0xD4, 0xD5, 0x15, 0xD7, 0x17, 0x16, 0xD6, 0xD2, 0x12, 0x13, 0xD3,
    0x11, 0xD1, 0xD0, 0x10, 0xF0, 0x30, 0x31, 0xF1, 0x33, 0xF3, 0xF2, 0x32,
    0x36, 0xF6, 0xF7, 0x37, 0xF5, 0x35, 0x34, 0xF4, 0x3C, 0xFC, 0xFD, 0x3D,
    0xFF, 0x3F, 0x3E, 0xFE, 0xFA, 0x3A, 0x3B, 0xFB, 0x39, 0xF9, 0xF8, 0x38,
    0x28, 0xE8, 0xE9, 0x29, 0xEB, 0x2B, 0x2A, 0xEA, 0xEE, 0x2E, 0x2F, 0xEF,
    0x2D, 0xED, 0xEC, 0x2C, 0xE4, 0x24, 0x25, 0xE5, 0x27, 0xE7, 0xE6, 0x26,
    0x22, 0xE2, 0xE3, 0x23, 0xE1, 0x21, 0x20, 0xE0, 0xA0, 0x60, 0x61, 0xA1,
    0x63, 0xA3, 0xA2, 0x62, 0x66, 0xA6, 0xA7, 0x67, 0xA5, 0x65, 0x64, 0xA4,
    0x6C, 0xAC, 0xAD, 0x6D, 0xAF, 0x6F, 0x6E, 0xAE, 0xAA, 0x6A, 0x6B, 0xAB,
    0x69, 0xA9, 0xA8, 0x68, 0x78, 0xB8, 0xB9, 0x79, 0xBB, 0x7B, 0x7A, 0xBA,
    0xBE, 0x7E, 0x7F, 0xBF, 0x7D, 0xBD, 0xBC, 0x7C, 0xB4, 0x74, 0x75, 0xB5,
    0x77, 0xB7, 0xB6, 0x76, 0x72, 0xB2, 0xB3, 0x73, 0xB1, 0x71, 0x70, 0xB0,
    0x50, 0x90, 0x91, 0x51, 0x93, 0x53, 0x52, 0x92, 0x96, 0x56, 0x57, 0x97,
    0x55, 0x95, 0x94, 0x54, 0x9C, 0x5C, 0x5D, 0x9D, 0x5F, 0x9F, 0x9E, 0x5E,
    0x5A, 0x9A, 0x9B, 0x5B, 0x99, 0x59, 0x58, 0x98, 0x88, 0x48, 0x49, 0x89,
    0x4B, 0x8B, 0x8A, 0x4A, 0x4E, 0x8E, 0x8F, 0x4F, 0x8D, 0x4D, 0x4C, 0x8C,
    0x44, 0x84, 0x85, 0x45, 0x87, 0x47, 0x46, 0x86, 0x82, 0x42, 0x43, 0x83,
    0x41, 0x81, 0x80, 0x40]"

text \<open>The state of the loop is \<open>(crcHi, crcLo)\<close>.\<close>

definition calcCRC16_body :: "u8 \<times> u8 \<Rightarrow> u8 \<Rightarrow> (u8 \<times> u8) option" where
  "calcCRC16_body c b = (case c of (crcHi, crcLo) \<Rightarrow> do {
     let index = crcLo XOR b;
     h \<leftarrow> ld CRCHiTable (unat index);
     l \<leftarrow> ld CRCLoTable (unat index);
     Some (l, crcHi XOR h)
   })"

definition crc16_join :: "u8 \<times> u8 \<Rightarrow> u16" where
  "crc16_join c = push_bit 8 (ucast (fst c)) OR ucast (snd c)"

definition calcCRC16 :: "u8 list \<Rightarrow> u32 \<Rightarrow> u16 option" where
  "calcCRC16 data len = do {
     c \<leftarrow> for_range 0 (unat len) (\<lambda>i c. ld data i \<bind> calcCRC16_body c) (0xFF, 0xFF);
     Some (crc16_join c)
   }"

definition CRC32_table :: "u32 list" where
  "CRC32_table = [
    0x00000000, 0x77073096, 0xEE0E612C, 0x990951BA,
    0x076DC419, 0x706AF48F, 0xE963A535, 0x9E6495A3,
    0x0EDB8832, 0x79DCB8A4, 0xE0D5E91E, 0x97D2D988,
    0x09B64C2B, 0x7EB17CBD, 0xE7B82D07, 0x90BF1D91,
    0x1DB71064, 0x6AB020F2, 0xF3B97148, 0x84BE41DE,
    0x1ADAD47D, 0x6DDDE4EB, 0xF4D4B551, 0x83D385C7,
    0x136C9856, 0x646BA8C0, 0xFD62F97A, 0x8A65C9EC,
    0x14015C4F, 0x63066CD9, 0xFA0F3D63, 0x8D080DF5,
    0x3B6E20C8, 0x4C69105E, 0xD56041E4, 0xA2677172,
    0x3C03E4D1, 0x4B04D447, 0xD20D85FD, 0xA50AB56B,
    0x35B5A8FA, 0x42B2986C, 0xDBBBC9D6, 0xACBCF940,
    0x32D86CE3, 0x45DF5C75, 0xDCD60DCF, 0xABD13D59,
    0x26D930AC, 0x51DE003A, 0xC8D75180, 0xBFD06116,
    0x21B4F4B5, 0x56B3C423, 0xCFBA9599, 0xB8BDA50F,
    0x2802B89E, 0x5F058808, 0xC60CD9B2, 0xB10BE924,
    0x2F6F7C87, 0x58684C11, 0xC1611DAB, 0xB6662D3D,
    0x76DC4190, 0x01DB7106, 0x98D220BC, 0xEFD5102A,
    0x71B18589, 0x06B6B51F, 0x9FBFE4A5, 0xE8B8D433,
    0x7807C9A2, 0x0F00F934, 0x9609A88E, 0xE10E9818,
    0x7F6A0DBB, 0x086D3D2D, 0x91646C97, 0xE6635C01,
    0x6B6B51F4, 0x1C6C6162, 0x856530D8, 0xF262004E,
    0x6C0695ED, 0x1B01A57B, 0x8208F4C1, 0xF50FC457,
    0x65B0D9C6, 0x12B7E950, 0x8BBEB8EA, 0xFCB9887C,
    0x62DD1DDF, 0x15DA2D49, 0x8CD37CF3, 0xFBD44C65,
    0x4DB26158, 0x3AB551CE, 0xA3BC0074, 0xD4BB30E2,
    0x4ADFA541, 0x3DD895D7, 0xA4D1C46D, 0xD3D6F4FB,
    0x4369E96A, 0x346ED9FC, 0xAD678846, 0xDA60B8D0,
    0x44042D73, 0x33031DE5, 0xAA0A4C5F, 0xDD0D7CC9,
    0x5005713C, 0x270241AA, 0xBE0B1010, 0xC90C2086,
    0x5768B525, 0x206F85B3, 0xB966D409, 0xCE61E49F,
    0x5EDEF90E, 0x29D9C998, 0xB0D09822, 0xC7D7A8B4,
    0x59B33D17, 0x2EB40D81, 0xB7BD5C3B, 0xC0BA6CAD,
    0xEDB88320, 0x9ABFB3B6, 0x03B6E20C, 0x74B1D29A,
    0xEAD54739, 0x9DD277AF, 0x04DB2615, 0x73DC1683,
    0xE3630B12, 0x94643B84, 0x0D6D6A3E, 0x7A6A5AA8,
    0xE40ECF0B, 0x9309FF9D, 0x0A00AE27, 0x7D079EB1,
    0xF00F9344, 0x8708A3D2, 0x1E01F268, 0x6906C2FE,
    0xF762575D, 0x806567CB, 0x196C3671, 0x6E6B06E7,
    0xFED41B76, 0x89D32BE0, 0x10DA7A5A, 0x67DD4ACC,
    0xF9B9DF6F, 0x8EBEEFF9, 0x17B7BE43, 0x60B08ED5,
    0xD6D6A3E8, 0xA1D1937E, 0x38D8C2C4, 0x4FDFF252,
    0xD1BB67F1, 0xA6BC5767, 0x3FB506DD, 0x48B2364B,
    0xD80D2BDA, 0xAF0A1B4C, 0x36034AF6, 0x41047A60,
    0xDF60EFC3, 0xA867DF55, 0x316E8EEF, 0x4669BE79,
    0xCB61B38C, 0xBC66831A, 0x256FD2A0, 0x5268E236,
    0xCC0C7795, 0xBB0B4703, 0x220216B9, 0x5505262F,
    0xC5BA3BBE, 0xB2BD0B28, 0x2BB45A92, 0x5CB36A04,
    0xC2D7FFA7, 0xB5D0CF31, 0x2CD99E8B, 0x5BDEAE1D,
    0x9B64C2B0, 0xEC63F226, 0x756AA39C, 0x026D930A,
    0x9C0906A9, 0xEB0E363F, 0x72076785, 0x05005713,
    0x95BF4A82, 0xE2B87A14, 0x7BB12BAE, 0x0CB61B38,
    0x92D28E9B, 0xE5D5BE0D, 0x7CDCEFB7, 0x0BDBDF21,
    0x86D3D2D4, 0xF1D4E242, 0x68DDB3F8, 0x1FDA836E,
    0x81BE16CD, 0xF6B9265B, 0x6FB077E1, 0x18B74777,
    0x88085AE6, 0xFF0F6A70, 0x66063BCA, 0x11010B5C,
    0x8F659EFF, 0xF862AE69, 0x616BFFD3, 0x166CCF45,
    0xA00AE278, 0xD70DD2EE, 0x4E048354, 0x3903B3C2,
    0xA7672661, 0xD06016F7, 0x4969474D, 0x3E6E77DB,
    0xAED16A4A, 0xD9D65ADC, 0x40DF0B66, 0x37D83BF0,
    0xA9BCAE53, 0xDEBB9EC5, 0x47B2CF7F, 0x30B5FFE9,
    0xBDBDF21C, 0xCABAC28A, 0x53B39330, 0x24B4A3A6,
    0xBAD03605, 0xCDD70693, 0x54DE5729, 0x23D967BF,
    0xB3667A2E, 0xC4614AB8, 0x5D681B02, 0x2A6F2B94,
    0xB40BBE37, 0xC30C8EA1, 0x5A05DF1B, 0x2D02EF8D]"

definition calcCRC32_body :: "u32 \<Rightarrow> u8 \<Rightarrow> u32 option" where
  "calcCRC32_body c b = do {
     let t = (c XOR ucast b) AND 0xFF;
     e \<leftarrow> ld CRC32_table (unat t);
     Some ((drop_bit 8 c AND 0xFFFFFF) XOR e)
   }"

definition calcCRC32 :: "u8 list \<Rightarrow> u32 \<Rightarrow> u32 option" where
  "calcCRC32 buf len = do {
     c \<leftarrow> for_range 0 (unat len) (\<lambda>i c. ld buf i \<bind> calcCRC32_body c) 0xFFFFFFFF;
     Some (NOT c)
   }"

definition crc8_table :: "u8 list" where
  "crc8_table = [
    0x00, 0x07, 0x0e, 0x09, 0x1c, 0x1b, 0x12, 0x15,
    0x38, 0x3f, 0x36, 0x31, 0x24, 0x23, 0x2a, 0x2d,
    0x70, 0x77, 0x7e, 0x79, 0x6c, 0x6b, 0x62, 0x65,
    0x48, 0x4f, 0x46, 0x41, 0x54, 0x53, 0x5a, 0x5d,
    0xe0, 0xe7, 0xee, 0xe9, 0xfc, 0xfb, 0xf2, 0xf5,
    0xd8, 0xdf, 0xd6, 0xd1, 0xc4, 0xc3, 0xca, 0xcd,
    0x90, 0x97, 0x9e, 0x99, 0x8c, 0x8b, 0x82, 0x85,
    0xa8, 0xaf, 0xa6, 0xa1, 0xb4, 0xb3, 0xba, 0xbd,
    0xc7, 0xc0, 0xc9, 0xce, 0xdb, 0xdc, 0xd5, 0xd2,
    0xff, 0xf8, 0xf1, 0xf6, 0xe3, 0xe4, 0xed, 0xea,
    0xb7, 0xb0, 0xb9, 0xbe, 0xab, 0xac, 0xa5, 0xa2,
    0x8f, 0x88, 0x81, 0x86, 0x93, 0x94, 0x9d, 0x9a,
    0x27, 0x20, 0x29, 0x2e, 0x3b, 0x3c, 0x35, 0x32,
    0x1f, 0x18, 0x11, 0x16, 0x03, 0x04, 0x0d, 0x0a,
    0x57, 0x50, 0x59, 0x5e, 0x4b, 0x4c, 0x45, 0x42,
    0x6f, 0x68, 0x61, 0x66, 0x73, 0x74, 0x7d, 0x7a,
    0x89, 0x8e, 0x87, 0x80, 0x95, 0x92, 0x9b, 0x9c,
    0xb1, 0xb6, 0xbf, 0xb8, 0xad, 0xaa, 0xa3, 0xa4,
    0xf9, 0xfe, 0xf7, 0xf0, 0xe5, 0xe2, 0xeb, 0xec,
    0xc1, 0xc6, 0xcf, 0xc8, 0xdd, 0xda, 0xd3, 0xd4,
    0x69, 0x6e, 0x67, 0x60, 0x75, 0x72, 0x7b, 0x7c,
    0x51, 0x56, 0x5f, 0x58, 0x4d, 0x4a, 0x43, 0x44,
    0x19, 0x1e, 0x17, 0x10, 0x05, 0x02, 0x0b, 0x0c,
    0x21, 0x26, 0x2f, 0x28, 0x3d, 0x3a, 0x33, 0x34,
    0x4e, 0x49, 0x40, 0x47, 0x52, 0x55, 0x5c, 0x5b,
    0x76, 0x71, 0x78, 0x7f, 0x6a, 0x6d, 0x64, 0x63,
    0x3e, 0x39, 0x30, 0x37, 0x22, 0x25, 0x2c, 0x2b,
    0x06, 0x01, 0x08, 0x0f, 0x1a, 0x1d, 0x14, 0x13,
    0xae, 0xa9, 0xa0, 0xa7, 0xb2, 0xb5, 0xbc, 0xbb,
    0x96, 0x91, 0x98, 0x9f, 0x8a, 0x8d, 0x84, 0x83,
    0xde, 0xd9, 0xd0, 0xd7, 0xc2, 0xc5, 0xcc, 0xcb,
    0xe6, 0xe1, 0xe8, 0xef, 0xfa, 0xfd, 0xf4, 0xf3]"

definition calcCRC8_body :: "u8 \<Rightarrow> u8 \<Rightarrow> u8 option" where
  "calcCRC8_body c b = ld crc8_table (unat (c XOR b))"

definition calcCRC8 :: "u8 list \<Rightarrow> u32 \<Rightarrow> u8 option" where
  "calcCRC8 p len = for_range 0 (unat len) (\<lambda>i c. ld p i \<bind> calcCRC8_body c) 0"

section \<open>Polynomial division\<close>

text \<open>
  One bit of the division, for a reflected polynomial (least significant bit first) and for
  one with the most significant bit first, and a byte of the message.
\<close>

definition crc_lsb :: "'w::len word \<Rightarrow> 'w word \<Rightarrow> 'w word" where
  "crc_lsb p x = drop_bit 1 x XOR (if bit x 0 then p else 0)"

definition crc_msb :: "'w::len word \<Rightarrow> 'w word \<Rightarrow> 'w word" where
  "crc_msb p x = push_bit 1 x XOR (if bit x (LENGTH('w) - 1) then p else 0)"

definition crc_lsb_byte :: "'w::len word \<Rightarrow> 'w word \<Rightarrow> u8 \<Rightarrow> 'w word" where
  "crc_lsb_byte p c b = (crc_lsb p ^^ 8) (c XOR ucast b)"

definition crc_msb_byte :: "u8 \<Rightarrow> u8 \<Rightarrow> u8 \<Rightarrow> u8" where
  "crc_msb_byte p c b = (crc_msb p ^^ 8) (c XOR b)"

definition crc16_spec :: "u8 list \<Rightarrow> u16" where
  "crc16_spec bs = foldl (crc_lsb_byte 0xA001) 0xFFFF bs"

definition crc32_spec :: "u8 list \<Rightarrow> u32" where
  "crc32_spec bs = NOT (foldl (crc_lsb_byte 0xEDB88320) 0xFFFFFFFF bs)"

definition crc8_spec :: "u8 list \<Rightarrow> u8" where
  "crc8_spec bs = foldl (crc_msb_byte 0x07) 0 bs"

section \<open>The division is linear\<close>

lemma funpow_8: "(f ^^ 8) x = f (f (f (f (f (f (f (f x)))))))"
  by (simp add: numeral_eq_Suc)

lemma crc_lsb_xor: "crc_lsb p (x XOR y) = crc_lsb p x XOR crc_lsb p y"
  by (rule bit_eqI) (auto simp: crc_lsb_def bit_simps)

lemma crc_msb_xor: "crc_msb p (x XOR y) = crc_msb p x XOR crc_msb p y"
  by (rule bit_eqI) (auto simp: crc_msb_def bit_simps)

lemma crc_lsb_pow_xor: "(crc_lsb p ^^ n) (x XOR y) = (crc_lsb p ^^ n) x XOR (crc_lsb p ^^ n) y"
  by (induction n) (simp_all add: crc_lsb_xor)

lemma crc_msb_pow_xor: "(crc_msb p ^^ n) (x XOR y) = (crc_msb p ^^ n) x XOR (crc_msb p ^^ n) y"
  by (induction n) (simp_all add: crc_msb_xor)

text \<open>Bits that are clear only shift; so a register splits into a shift and a table entry.\<close>

lemma crc_lsb_pow_shift: "take_bit n x = 0 \<Longrightarrow> (crc_lsb p ^^ n) x = drop_bit n x"
proof (induction n arbitrary: x)
  case 0
  then show ?case by simp
next
  case (Suc n)
  have "\<not> bit (take_bit (Suc n) x) 0" using Suc.prems by simp
  then have "\<not> bit x 0" by (simp add: bit_take_bit_iff)
  then have "crc_lsb p x = drop_bit 1 x" by (simp add: crc_lsb_def)
  moreover have "take_bit n (drop_bit 1 x) = 0"
    using Suc.prems by (simp add: take_bit_drop_bit)
  ultimately show ?case
    using Suc.IH[of "drop_bit 1 x"] by (simp add: funpow_Suc_right drop_bit_drop_bit del: funpow.simps)
qed

lemma crc_lsb_split:
  "(crc_lsb p ^^ n) x = drop_bit n x XOR (crc_lsb p ^^ n) (take_bit n x)"
proof -
  let ?hi = "push_bit n (drop_bit n x)"
  have x: "x = ?hi XOR take_bit n x"
    by (rule bit_eqI) (auto simp: bit_simps)
  have "take_bit n ?hi = 0" by (rule bit_eqI) (auto simp: bit_simps)
  then have "(crc_lsb p ^^ n) ?hi = drop_bit n ?hi" by (rule crc_lsb_pow_shift)
  also have "drop_bit n ?hi = drop_bit n x" by (rule bit_eqI) (auto simp: bit_simps dest: bit_imp_le_length)
  finally show ?thesis using crc_lsb_pow_xor[of n p ?hi "take_bit n x"] x by simp
qed

text \<open>
  The values of a linear map on \<open>0..<2 ^ n\<close> from its values on the powers of two.
\<close>

fun xor_table :: "'w::len word list \<Rightarrow> 'w word list \<Rightarrow> 'w word list" where
  "xor_table t [] = t"
| "xor_table t (s # ss) = xor_table (t @ map ((XOR) s) t) ss"

lemma xor_table_step:
  assumes lin: "\<And>x y. f (x XOR y) = f x XOR f y" and n: "n < LENGTH('w::len)"
  shows "map (\<lambda>i. f (of_nat i)) [0..<2 ^ Suc n] =
    map (\<lambda>i. f (of_nat i)) [0..<2 ^ n] @
    map ((XOR) (f (2 ^ n))) (map (\<lambda>i. f (of_nat i :: 'w word)) [0..<2 ^ n])"
proof -
  have of_nat: "2 ^ n + of_nat i = (2 ^ n XOR of_nat i :: 'w word)" if i: "i < 2 ^ n" for i
  proof -
    have "take_bit n i = i" using i by (simp add: take_bit_nat_eq_self)
    then have "\<not> bit i n" by (metis bit_take_bit_iff less_irrefl)
    then have "(2 ^ n AND of_nat i :: 'w word) = 0"
      by (intro bit_eqI) (auto simp: bit_simps)
    then show ?thesis by (simp add: disjunctive_add_eq_xor)
  qed
  have "[0..<2 ^ Suc n] = [0..<2 ^ n] @ map (\<lambda>i. 2 ^ n + i) [0..<2 ^ n]"
    using upt_add_eq_append[of 0 "2 ^ n" "2 ^ n"] map_add_upt[of "2 ^ n" "2 ^ n"]
    by (simp add: add.commute mult_2)
  then show ?thesis by (simp add: of_nat lin cong: map_cong)
qed

lemma xor_table_append:
  "xor_table t (ss @ [s]) = xor_table t ss @ map ((XOR) s) (xor_table t ss)"
  by (induction ss arbitrary: t) simp_all

lemma xor_table_correct:
  assumes lin: "\<And>x y. f (x XOR y) = f x XOR f y"
  shows "n \<le> LENGTH('w::len) \<Longrightarrow>
    xor_table [f 0] (map (\<lambda>k. f (2 ^ k)) [0..<n]) = map (\<lambda>i. f (of_nat i :: 'w word)) [0..<2 ^ n]"
proof (induction n)
  case 0
  then show ?case by simp
next
  case (Suc n)
  then show ?case
    using xor_table_step[OF lin, of n] by (simp add: xor_table_append)
qed

section \<open>The tables\<close>

lemmas crc_eval = crc_lsb_def crc_msb_def funpow_8

lemma CRC32_table_eq: "CRC32_table = map (\<lambda>i. (crc_lsb 0xEDB88320 ^^ 8) (of_nat i)) [0..<256]"
proof -
  have "CRC32_table = xor_table [0] [0x77073096, 0xEE0E612C, 0x76DC419, 0xEDB8832, 0x1DB71064, 0x3B6E20C8, 0x76DC4190, 0xEDB88320]"
    by (simp add: CRC32_table_def)
  also have "\<dots> = xor_table [(crc_lsb 0xEDB88320 ^^ 8) 0] (map (\<lambda>k. (crc_lsb 0xEDB88320 ^^ 8) (2 ^ k)) [0..<8])"
    by (simp add: crc_eval upt_rec)
  also have "\<dots> = map (\<lambda>i. (crc_lsb 0xEDB88320 ^^ 8) (of_nat i)) [0..<2 ^ 8]"
    by (rule xor_table_correct) (simp_all add: crc_lsb_pow_xor)
  finally show ?thesis by simp
qed

lemma crc8_table_eq: "crc8_table = map (\<lambda>i. (crc_msb 0x07 ^^ 8) (of_nat i)) [0..<256]"
proof -
  have "crc8_table = xor_table [0] [0x7, 0xE, 0x1C, 0x38, 0x70, 0xE0, 0xC7, 0x89]"
    by (simp add: crc8_table_def)
  also have "\<dots> = xor_table [(crc_msb 0x07 ^^ 8) 0] (map (\<lambda>k. (crc_msb 0x07 ^^ 8) (2 ^ k)) [0..<8])"
    by (simp add: crc_eval upt_rec)
  also have "\<dots> = map (\<lambda>i. (crc_msb 0x07 ^^ 8) (of_nat i)) [0..<2 ^ 8]"
    by (rule xor_table_correct) (simp_all add: crc_msb_pow_xor)
  finally show ?thesis by simp
qed

lemma CRC16_table_eq:
  "map (\<lambda>(l, h). crc16_join (l, h)) (zip CRCLoTable CRCHiTable) =
     map (\<lambda>i. (crc_lsb 0xA001 ^^ 8) (of_nat i)) [0..<256]"
proof -
  have "map (\<lambda>(l, h). crc16_join (l, h)) (zip CRCLoTable CRCHiTable) = xor_table [0] [0xC0C1, 0xC181, 0xC301, 0xC601, 0xCC01, 0xD801, 0xF001, 0xA001]"
    by (simp add: CRCLoTable_def CRCHiTable_def crc16_join_def)
  also have "\<dots> = xor_table [(crc_lsb 0xA001 ^^ 8) 0] (map (\<lambda>k. (crc_lsb 0xA001 ^^ 8) (2 ^ k)) [0..<8])"
    by (simp add: crc_eval upt_rec)
  also have "\<dots> = map (\<lambda>i. (crc_lsb 0xA001 ^^ 8) (of_nat i)) [0..<2 ^ 8]"
    by (rule xor_table_correct) (simp_all add: crc_lsb_pow_xor)
  finally show ?thesis by simp
qed

section \<open>Checksums as folds\<close>

text \<open>
  What a checksum routine owes its reference: its loop body carries the register, read
  through \<open>view\<close>, one reference step further. A reference step is injective in the
  register and in the byte; then no change of a single byte goes undetected.
\<close>

locale checksum =
  fixes body :: "'s \<Rightarrow> u8 \<Rightarrow> 's option"
    and view :: "'s \<Rightarrow> 'w"
    and ref :: "'w \<Rightarrow> u8 \<Rightarrow> 'w"
  assumes body_law: "\<exists>s'. body s b = Some s' \<and> view s' = ref (view s) b"
    and ref_inj_reg: "ref c b = ref c' b \<Longrightarrow> c = c'"
    and ref_inj_byte: "ref c b = ref c b' \<Longrightarrow> b = b'"
begin

lemma loop_is_fold:
  assumes "n \<le> length data"
  shows "\<exists>s'. for_range 0 n (\<lambda>i s. ld data i \<bind> body s) s = Some s' \<and>
    view s' = foldl ref (view s) (take n data)"
proof -
  from body_law obtain f where f: "body s b = Some (f s b)" "view (f s b) = ref (view s) b" for s b
    by metis
  have "view (foldl f s xs) = foldl ref (view s) xs" for xs
    by (induction xs arbitrary: s) (simp_all add: f(2))
  with for_range_fold[OF assms, of body f s] show ?thesis by (simp add: f(1))
qed

lemma fold_inj: "foldl ref c xs = foldl ref c' xs \<Longrightarrow> c = c'"
  by (induction xs arbitrary: c c') (auto dest: ref_inj_reg)

lemma detects_byte:
  "foldl ref c (xs @ b # ys) = foldl ref c (xs @ b' # ys) \<Longrightarrow> b = b'"
  by (auto dest!: fold_inj ref_inj_byte)

end

text \<open>A division step can be undone when the polynomial has its outermost bit.\<close>

lemma crc_lsb_inj:
  fixes p :: "'w::len word"
  assumes p: "bit p (LENGTH('w) - 1)" and eq: "crc_lsb p x = crc_lsb p y"
  shows "x = y"
proof -
  have top: "bit (crc_lsb p z) (LENGTH('w) - 1) = bit z 0" for z
    using p by (auto simp: crc_lsb_def bit_simps dest: bit_imp_le_length)
  with eq have b0: "bit x 0 = bit y 0" by metis
  with eq have "drop_bit 1 x = drop_bit 1 y" by (auto simp: crc_lsb_def split: if_splits)
  then have bs: "bit x (Suc n) = bit y (Suc n)" for n by (metis bit_drop_bit_eq comp_apply plus_1_eq_Suc)
  show ?thesis
  proof (rule bit_eqI)
    show "bit x n = bit y n" for n using b0 bs by (cases n) simp_all
  qed
qed

lemma crc_msb_inj:
  fixes p :: "'w::len word"
  assumes p: "bit p 0" and eq: "crc_msb p x = crc_msb p y"
  shows "x = y"
proof -
  have low: "bit (crc_msb p z) 0 = bit z (LENGTH('w) - 1)" for z
    using p by (auto simp: crc_msb_def bit_simps bit_0 even_xor_iff)
  with eq have top: "bit x (LENGTH('w) - 1) = bit y (LENGTH('w) - 1)" by metis
  with eq have sh: "push_bit 1 x = push_bit 1 y" by (auto simp: crc_msb_def split: if_splits)
  have bs: "bit x n = bit y n" if "Suc n < LENGTH('w)" for n
    using that arg_cong[OF sh, of "\<lambda>z. bit z (Suc n)"]
    by (simp only: bit_push_bit_iff) simp
  show ?thesis
  proof (rule bit_word_eqI)
    fix n assume "n < LENGTH('w)"
    then consider "Suc n < LENGTH('w)" | "n = LENGTH('w) - 1" by linarith
    then show "bit x n = bit y n"
    proof cases
      case 1
      then show ?thesis by (rule bs)
    next
      case 2
      then show ?thesis using top by simp
    qed
  qed
qed

lemma crc_lsb_pow_inj:
  fixes p :: "'w::len word"
  assumes "bit p (LENGTH('w) - 1)"
  shows "(crc_lsb p ^^ n) x = (crc_lsb p ^^ n) y \<Longrightarrow> x = y"
  by (induction n) (auto dest: crc_lsb_inj[OF assms])

lemma crc_msb_pow_inj:
  fixes p :: "'w::len word"
  assumes "bit p 0"
  shows "(crc_msb p ^^ n) x = (crc_msb p ^^ n) y \<Longrightarrow> x = y"
  by (induction n) (auto dest: crc_msb_inj[OF assms])

lemma ucast_u8_inj:
  "8 \<le> LENGTH('w::len) \<Longrightarrow> (ucast (b :: u8) :: 'w word) = ucast c \<Longrightarrow> b = c"
proof -
  assume len: "8 \<le> LENGTH('w)" and eq: "(ucast b :: 'w word) = ucast c"
  have "bit b n = bit c n" if "n < 8" for n
    using that len arg_cong[OF eq, of "\<lambda>z. bit z n"] by (simp add: bit_ucast_iff)
  then show "b = c" by (intro bit_eqI) simp
qed

lemma crc_lsb_byte_inj:
  fixes p :: "'w::len word"
  assumes "bit p (LENGTH('w) - 1)" and "8 \<le> LENGTH('w)"
  shows "crc_lsb_byte p c b = crc_lsb_byte p c' b \<Longrightarrow> c = c'"
    and "crc_lsb_byte p c b = crc_lsb_byte p c b' \<Longrightarrow> b = b'"
  unfolding crc_lsb_byte_def
  by (auto dest!: crc_lsb_pow_inj[OF assms(1)] ucast_u8_inj[OF assms(2)])

lemma crc_lsb_byte_split:
  "crc_lsb_byte p c b = drop_bit 8 (c XOR ucast b) XOR (crc_lsb p ^^ 8) (take_bit 8 (c XOR ucast b))"
  unfolding crc_lsb_byte_def by (rule crc_lsb_split)

lemma nth_256_map: "i < 256 \<Longrightarrow> map f [0..<256] ! i = f i"
  by simp

lemma CRC32_table_ld:
  "unat t < 256 \<Longrightarrow> ld CRC32_table (unat t) = Some ((crc_lsb 0xEDB88320 ^^ 8) t)"
  by (simp add: CRC32_table_eq ld_in)

lemma crc8_table_ld: "ld crc8_table (unat t) = Some ((crc_msb 0x07 ^^ 8) t)"
  using unat_u8_less[of t] by (simp add: crc8_table_eq ld_in)

lemma CRC16_tables_ld:
  "\<exists>l h. ld CRCLoTable (unat (t :: u8)) = Some l \<and> ld CRCHiTable (unat t) = Some h \<and>
     crc16_join (l, h) = (crc_lsb 0xA001 ^^ 8) (ucast t)"
proof -
  have t: "unat t < 256" using unsigned_less[of t] by simp
  have len: "length CRCLoTable = 256" "length CRCHiTable = 256"
    by (simp_all add: CRCLoTable_def CRCHiTable_def)
  have "(crc_lsb 0xA001 ^^ 8) (of_nat (unat t)) =
      map (\<lambda>(l, h). crc16_join (l, h)) (zip CRCLoTable CRCHiTable) ! unat t"
    unfolding CRC16_table_eq using t by simp
  also have "\<dots> = crc16_join (CRCLoTable ! unat t, CRCHiTable ! unat t)"
    using t by (simp add: len)
  finally show ?thesis using t by (simp add: ld_in len)
qed

interpretation crc32: checksum calcCRC32_body "\<lambda>c. c" "crc_lsb_byte 0xEDB88320"
proof unfold_locales
  fix c :: u32 and b :: u8
  let ?t = "take_bit 8 (c XOR ucast b)"
  have t: "(c XOR ucast b) AND 0xFF = ?t" by (simp only: and_mask_8)
  have "drop_bit 8 (c XOR ucast b) = drop_bit 8 c"
    by (rule bit_eqI) (auto simp: bit_simps dest: bit_imp_le_length)
  moreover have "drop_bit 8 c AND 0xFFFFFF = drop_bit 8 c"
  proof -
    have "(0xFFFFFF :: u32) = mask 24" by (simp add: mask_eq_decr_exp)
    moreover have "drop_bit 8 c AND mask 24 = drop_bit 8 c"
      by (rule bit_eqI) (auto simp: bit_simps dest: bit_imp_le_length)
    ultimately show ?thesis by metis
  qed
  ultimately show "\<exists>s'. calcCRC32_body c b = Some s' \<and> s' = crc_lsb_byte 0xEDB88320 c b"
    by (simp add: calcCRC32_body_def t CRC32_table_ld unat_take_bit_8 crc_lsb_byte_split
        del: take_bit_xor drop_bit_xor)
qed (erule crc_lsb_byte_inj(1)[rotated 2] crc_lsb_byte_inj(2)[rotated 2]; simp)+

interpretation crc16: checksum calcCRC16_body crc16_join "crc_lsb_byte 0xA001"
proof unfold_locales
  fix c :: "u8 \<times> u8" and b :: u8
  obtain hi lo where c: "c = (hi, lo)" by (cases c)
  from CRC16_tables_ld[of "lo XOR b"] obtain l h where
    lh: "ld CRCLoTable (unat (lo XOR b)) = Some l" "ld CRCHiTable (unat (lo XOR b)) = Some h"
      "crc16_join (l, h) = (crc_lsb 0xA001 ^^ 8) (ucast (lo XOR b))" by blast
  have t: "take_bit 8 (crc16_join c XOR ucast b) = ucast (lo XOR b)"
    by (rule bit_eqI) (auto simp: c crc16_join_def bit_simps dest: bit_imp_le_length)
  have d: "drop_bit 8 (crc16_join c XOR ucast b) = ucast hi"
    by (rule bit_eqI) (auto simp: c crc16_join_def bit_simps dest: bit_imp_le_length)
  have "crc16_join (l, hi XOR h) = ucast hi XOR crc16_join (l, h)"
    by (rule bit_eqI) (auto simp: crc16_join_def bit_simps dest: bit_imp_le_length)
  then show "\<exists>s'. calcCRC16_body c b = Some s' \<and> crc16_join s' = crc_lsb_byte 0xA001 (crc16_join c) b"
    by (simp add: c calcCRC16_body_def lh crc_lsb_byte_split t[unfolded c] d[unfolded c]
        del: take_bit_xor drop_bit_xor)
qed (erule crc_lsb_byte_inj(1)[rotated 2] crc_lsb_byte_inj(2)[rotated 2]; simp)+

interpretation crc8: checksum calcCRC8_body "\<lambda>c. c" "crc_msb_byte 0x07"
proof unfold_locales
  show "\<exists>s'. calcCRC8_body c b = Some s' \<and> s' = crc_msb_byte 0x07 c b" for c b
    by (simp add: calcCRC8_body_def crc8_table_ld crc_msb_byte_def)
qed (auto simp: crc_msb_byte_def dest!: crc_msb_pow_inj[rotated])

lemma calcCRC16_correct:
  "unat len \<le> length data \<Longrightarrow> calcCRC16 data len = Some (crc16_spec (take (unat len) data))"
  using crc16.loop_is_fold[of "unat len" data "(0xFF, 0xFF)"]
  by (auto simp: calcCRC16_def crc16_spec_def) (simp add: crc16_join_def)

lemma calcCRC32_correct:
  "unat len \<le> length data \<Longrightarrow> calcCRC32 data len = Some (crc32_spec (take (unat len) data))"
  using crc32.loop_is_fold[of "unat len" data "0xFFFFFFFF"]
  by (auto simp: calcCRC32_def crc32_spec_def)

lemma calcCRC8_correct:
  "unat len \<le> length data \<Longrightarrow> calcCRC8 data len = Some (crc8_spec (take (unat len) data))"
  using crc8.loop_is_fold[of "unat len" data 0]
  by (auto simp: calcCRC8_def crc8_spec_def)

section \<open>Properties\<close>

text \<open>
  C14. The three table-driven checksums are the polynomial divisions they stand for: CRC-16
  with the reflected polynomial A001, CRC-32 with EDB88320 and CRC-8 with 07, over the bytes
  the caller named, without leaving the data or the tables.
\<close>

theorem crc_tables_are_polynomial_division:
  assumes "unat len \<le> length data"
  shows "calcCRC16 data len = Some (crc16_spec (take (unat len) data)) \<and>
    calcCRC32 data len = Some (crc32_spec (take (unat len) data)) \<and>
    calcCRC8 data len = Some (crc8_spec (take (unat len) data))"
  using assms by (simp add: calcCRC16_correct calcCRC32_correct calcCRC8_correct)

theorem crc_tables_are_polynomial_division_witness:
  "calcCRC32 [49, 50, 51] 3 = Some (crc32_spec [49, 50, 51])"
  using crc_tables_are_polynomial_division[of 3 "[49, 50, 51]"] by simp

text \<open>
  None of the three checksums misses a change confined to one byte of the message.
\<close>

theorem crc_detects_byte_error:
  assumes "b \<noteq> b'" and "unat len = length xs + 1 + length ys"
  shows "calcCRC16 (xs @ b # ys) len \<noteq> calcCRC16 (xs @ b' # ys) len \<and>
    calcCRC32 (xs @ b # ys) len \<noteq> calcCRC32 (xs @ b' # ys) len \<and>
    calcCRC8 (xs @ b # ys) len \<noteq> calcCRC8 (xs @ b' # ys) len"
  using assms crc16.detects_byte[of _ xs b ys b'] crc32.detects_byte[of _ xs b ys b']
    crc8.detects_byte[of _ xs b ys b']
  by (auto simp: calcCRC16_correct calcCRC32_correct calcCRC8_correct
      crc16_spec_def crc32_spec_def crc8_spec_def simp del: foldl_append)

theorem crc_detects_byte_error_witness:
  "calcCRC16 [1, 2, 3] 3 \<noteq> calcCRC16 [1, 7, 3] 3"
  using crc_detects_byte_error[of 2 7 3 "[1]" "[3]"] by simp

end
