(* ===== verification/Fonts.thy ===== *)
theory Fonts
  imports C_Prelude
begin

text \<open>
  The fonts of \<^verbatim>\<open>platform/src/common_disp.c\<close>: the table of ASCII fonts, the GB2312
  font, the lookup of a character's bitmap, and loading and choosing a font. A pointer into a
  glyph array is the rest of the array from there, so that reading past its end is seen.
\<close>

section \<open>State\<close>

record disp_bitmap =
  bm_width :: u16
  bm_height :: u16
  bm_bpp :: u8
  bm_data :: "u8 list"

record font_info =
  fi_width :: u8
  fi_height :: u8
  fi_size :: u8
  fi_start :: u16
  fi_end :: u16
  fi_data :: "u8 list option"

text \<open>
  The three glyph arrays are data files that the compiler includes: 95 ASCII glyphs of 16
  bytes, 3755 Chinese glyphs and 30 punctuation glyphs of 32 bytes.
\<close>

record font_rom =
  sansFont16Data :: "u8 list"
  sansHzFont16Data :: "u8 list"
  sansHzFont16ExtData :: "u8 list"

record font_st =
  rom :: font_rom
  dispFonts :: "font_info list"
  curr_font_id :: u8
  dispHzFont :: "font_info option"
  font_inited :: bool

definition MAX_FONTS :: nat where "MAX_FONTS = 10"

definition blankChar :: "u8 list" where "blankChar = replicate 32 0"

definition sansHzFont16ExtOffset :: "u16 list" where
  "sansHzFont16ExtOffset = [
    0xA1A2, 0xA1A3, 0xA1AA, 0xA1AD, 0xA1AE, 0xA1AF, 0xA1B0, 0xA1B1,
    0xA1B2, 0xA1B3, 0xA1B4, 0xA1B5, 0xA1B6, 0xA1B7, 0xA1B8, 0xA1B9,
    0xA1BA, 0xA1BB, 0xA1BE, 0xA1BF, 0xA3A1, 0xA3A8, 0xA3A9, 0xA3AC,
    0xA3AD, 0xA3AE, 0xA3BA, 0xA3BB, 0xA3BF, 0xE0C5]"

definition sansFont16 :: "font_rom \<Rightarrow> font_info" where
  "sansFont16 r = \<lparr>fi_width = 8, fi_height = 16, fi_size = 8 * 16 div 8, fi_start = 0x20, fi_end = 0x7E,
     fi_data = Some (sansFont16Data r)\<rparr>"

definition sansHzFont16 :: "font_rom \<Rightarrow> font_info" where
  "sansHzFont16 r = \<lparr>fi_width = 16, fi_height = 16, fi_size = (16 + 7) div 8 * 16, fi_start = 0, fi_end = 0,
     fi_data = Some (sansHzFont16Data r)\<rparr>"

definition no_font :: font_info where
  "no_font = \<lparr>fi_width = 0, fi_height = 0, fi_size = 0, fi_start = 0, fi_end = 0, fi_data = None\<rparr>"

definition fontInit :: "font_st \<Rightarrow> font_st" where
  "fontInit s = (if font_inited s then s else
     s\<lparr>font_inited := True,
       dispFonts := (replicate MAX_FONTS no_font)[0 := sansFont16 (rom s)],
       dispHzFont := Some (sansHzFont16 (rom s))\<rparr>)"

section \<open>The bitmap of a character\<close>

definition getFontBitmap :: "font_st \<Rightarrow> u16 \<Rightarrow> disp_bitmap option" where
  "getFontBitmap s charcode = do {
     p \<leftarrow> ld (dispFonts s) (unat (curr_font_id s));
     Some \<lparr>bm_width = ucast (fi_width p), bm_height = ucast (fi_height p), bm_bpp = 1,
       bm_data = (case fi_data p of
           None \<Rightarrow> blankChar
         | Some d \<Rightarrow>
             if fi_start p \<le> charcode \<and> charcode \<le> fi_end p
             then drop (unat (charcode - fi_start p) * unat (fi_size p)) d
             else blankChar)\<rparr>
   }"

text \<open>The search of the punctuation table; the result is the index of the entry found.\<close>

fun hz_ext_search :: "u16 list \<Rightarrow> nat \<Rightarrow> u16 \<Rightarrow> nat option" where
  "hz_ext_search [] index charcode = None"
| "hz_ext_search (c # cs) index charcode =
     (if charcode < c then None
      else if charcode = c then Some index
      else hz_ext_search cs (Suc index) charcode)"

definition getHzBitmap :: "font_st \<Rightarrow> u16 \<Rightarrow> disp_bitmap option" where
  "getHzBitmap s charcode = do {
     p \<leftarrow> dispHzFont s;
     let byte1 = (ucast (drop_bit 8 charcode) :: u8);
     let byte2 = (ucast (charcode AND 0x00FF) :: u8);
     Some \<lparr>bm_width = ucast (fi_width p), bm_height = ucast (fi_height p), bm_bpp = 1,
       bm_data = (case fi_data p of
           None \<Rightarrow> blankChar
         | Some d \<Rightarrow>
             if 0xB0 \<le> byte1 \<and> byte1 \<le> 0xF7 \<and> 0xA1 \<le> byte2 \<and> byte2 \<le> 0xFE
             then drop (((unat byte1 - 0xB0) * (0xFE - 0xA1 + 1) + unat byte2 - 0xA1) * unat (fi_size p)) d
             else (case hz_ext_search sansHzFont16ExtOffset 0 charcode of
                 Some index \<Rightarrow> drop (index * unat (fi_size p)) (sansHzFont16ExtData (rom s))
               | None \<Rightarrow> blankChar))\<rparr>
   }"

definition getCharBitmap :: "font_st \<Rightarrow> u16 \<Rightarrow> disp_bitmap option" where
  "getCharBitmap s charcode =
     (if 0xA0A0 \<le> charcode then getHzBitmap s charcode else getFontBitmap s charcode)"

section \<open>Loading and choosing a font\<close>

text \<open>
  \<open>file\<close> is the contents of the file, \<open>None\<close> if it cannot be opened or there is no
  memory for it: then \<^verbatim>\<open>load_file_data\<close> returns size 0.
\<close>

definition load_file_data :: "u8 list option \<Rightarrow> nat \<times> u8 list" where
  "load_file_data file = (case file of None \<Rightarrow> (0, []) | Some bs \<Rightarrow> (length bs, bs))"

definition le16 :: "u8 \<Rightarrow> u8 \<Rightarrow> u16" where
  "le16 lo hi = push_bit 8 (ucast hi) OR ucast lo"

fun find_free_font :: "font_info list \<Rightarrow> nat \<Rightarrow> nat option" where
  "find_free_font [] i = None"
| "find_free_font (p # ps) i = (if fi_data p = None then Some i else find_free_font ps (Suc i))"

text \<open>
  The header of a font file: width, height, type, first and last character, in 7 packed
  bytes; sizes are \<^verbatim>\<open>u32\<close>, the table entry's size a \<^verbatim>\<open>u8\<close>.
\<close>

definition platform_disp_loadfont :: "u8 list option \<Rightarrow> font_st \<Rightarrow> font_st \<times> int" where
  "platform_disp_loadfont file s = (case load_file_data file of (n, buf) \<Rightarrow>
     if n \<le> 7 then (s, -1)
     else
       (let width = buf ! 0; height = buf ! 1; type = buf ! 2;
            start = le16 (buf ! 3) (buf ! 4); last = le16 (buf ! 5) (buf ! 6);
            charsize = (unat width + 7) div 8 * unat height
        in
        if type \<noteq> 0 then (s, -1)
        else if last < start then (s, -1)
        else if charsize * (unat last - unat start + 1) \<noteq> n - 7 then (s, -1)
        else (case find_free_font (dispFonts s) 0 of
            None \<Rightarrow> (s, -1)
          | Some i \<Rightarrow>
              (s\<lparr>dispFonts := (dispFonts s)[i :=
                 \<lparr>fi_width = width, fi_height = height, fi_size = of_nat charsize,
                  fi_start = start, fi_end = last, fi_data = Some (drop 7 buf)\<rparr>]\<rparr>, int i))))"

definition platform_disp_setfont :: "int \<Rightarrow> font_st \<Rightarrow> font_st \<times> int" where
  "platform_disp_setfont k s =
     (if k < 0 \<or> int MAX_FONTS \<le> k then (s, -1)
      else if fi_data (dispFonts s ! nat k) = None then (s, -1)
      else (s\<lparr>curr_font_id := of_int k\<rparr>, uint (curr_font_id s)))"

section \<open>Well-formed font tables\<close>

definition glyph_bytes :: "font_info \<Rightarrow> nat" where
  "glyph_bytes p = (unat (fi_width p) + 7) div 8 * unat (fi_height p)"

text \<open>
  A font holds a glyph for each of its characters, and the size in the table is what a glyph
  takes, modulo 256.
\<close>

definition font_ok :: "font_info \<Rightarrow> bool" where
  "font_ok p \<longleftrightarrow> (case fi_data p of None \<Rightarrow> True | Some d \<Rightarrow>
     fi_start p \<le> fi_end p \<and> unat (fi_size p) = glyph_bytes p mod 256 \<and>
     (unat (fi_end p) - unat (fi_start p) + 1) * glyph_bytes p \<le> length d)"

definition rom_ok :: "font_rom \<Rightarrow> bool" where
  "rom_ok r \<longleftrightarrow> length (sansFont16Data r) = 95 * 16 \<and> length (sansHzFont16Data r) = 3755 * 32 \<and>
     length (sansHzFont16ExtData r) = 30 * 32"

definition fonts_ok :: "font_st \<Rightarrow> bool" where
  "fonts_ok s \<longleftrightarrow> rom_ok (rom s) \<and> length (dispFonts s) = MAX_FONTS \<and>
     (\<forall>p \<in> set (dispFonts s). font_ok p) \<and>
     unat (curr_font_id s) < MAX_FONTS \<and> fi_data (dispFonts s ! unat (curr_font_id s)) \<noteq> None \<and>
     dispHzFont s = Some (sansHzFont16 (rom s))"

definition init_fonts :: "font_rom \<Rightarrow> font_st" where
  "init_fonts r = \<lparr>rom = r, dispFonts = [], curr_font_id = 0, dispHzFont = None, font_inited = False\<rparr>"

lemma fontInit_ok:
  assumes "rom_ok r"
  shows "fonts_ok (fontInit (init_fonts r))"
proof -
  have "font_ok no_font" by (simp add: font_ok_def no_font_def)
  moreover have "font_ok (sansFont16 r)"
    using assms by (simp add: font_ok_def sansFont16_def glyph_bytes_def rom_ok_def)
  moreover have "set ((replicate MAX_FONTS no_font)[0 := sansFont16 r]) \<subseteq> {sansFont16 r, no_font}"
    by (rule subset_trans[OF set_update_subset_insert]) (auto simp: MAX_FONTS_def)
  ultimately show ?thesis
    using assms
    by (auto simp: fonts_ok_def fontInit_def init_fonts_def MAX_FONTS_def sansFont16_def nth_list_update)
qed

section \<open>Lookups stay inside the glyph arrays\<close>

lemma fonts_ok_current:
  assumes "fonts_ok s"
  shows "\<exists>p d. ld (dispFonts s) (unat (curr_font_id s)) = Some p \<and> font_ok p \<and> fi_data p = Some d"
  using assms by (auto simp: fonts_ok_def ld_in)

text \<open>The bytes a bitmap of \<open>w\<close> by \<open>h\<close> pixels takes, and a bitmap that has them.\<close>

definition bitmap_complete :: "disp_bitmap \<Rightarrow> bool" where
  "bitmap_complete bm \<longleftrightarrow> (unat (bm_width bm) + 7) div 8 * unat (bm_height bm) \<le> length (bm_data bm)"

lemma unat_ucast_8_16 [simp]: "unat (ucast (x :: u8) :: u16) = unat x"
  using unat_u8_less[of x] by (simp add: unsigned_ucast_eq take_bit_nat_eq_self)

lemma getFontBitmap_in_range:
  assumes s: "fonts_ok s" and p: "p = dispFonts s ! unat (curr_font_id s)" "fi_data p = Some d"
    and c: "fi_start p \<le> c" "c \<le> fi_end p"
  shows "\<exists>bm. getFontBitmap s c = Some bm \<and> bitmap_complete bm \<and>
    bm_width bm = ucast (fi_width p) \<and> bm_height bm = ucast (fi_height p) \<and> bm_bpp bm = 1 \<and>
    bm_data bm = drop ((unat c - unat (fi_start p)) * (glyph_bytes p mod 256)) d"
proof -
  have ok: "font_ok p" "ld (dispFonts s) (unat (curr_font_id s)) = Some p"
    using s p(1) by (auto simp: fonts_ok_def ld_in)
  let ?k = "unat c - unat (fi_start p)"
  have k: "unat (c - fi_start p) = ?k" using c(1) by (simp add: unat_sub)
  have sz: "unat (fi_size p) = glyph_bytes p mod 256"
    and len: "(unat (fi_end p) - unat (fi_start p) + 1) * glyph_bytes p \<le> length d"
    using ok(1) p(2) by (simp_all add: font_ok_def)
  have "?k * unat (fi_size p) + glyph_bytes p \<le> ?k * glyph_bytes p + glyph_bytes p"
    by (simp add: sz)
  also have "\<dots> = (?k + 1) * glyph_bytes p" by simp
  also have "\<dots> \<le> (unat (fi_end p) - unat (fi_start p) + 1) * glyph_bytes p"
    using c by (intro mult_le_mono1) (simp add: word_le_nat_alt)
  also note len
  finally have room: "?k * unat (fi_size p) + glyph_bytes p \<le> length d" .
  then show ?thesis
    using ok(2) p(2) c
    by (simp add: getFontBitmap_def bitmap_complete_def glyph_bytes_def[symmetric] k sz)
qed

lemma blankChar_complete:
  "bm_data bm = blankChar \<Longrightarrow> (unat (bm_width bm) + 7) div 8 * unat (bm_height bm) \<le> 32 \<Longrightarrow>
     bitmap_complete bm"
  by (simp add: bitmap_complete_def blankChar_def)

lemma hz_ext_search_bound: "hz_ext_search cs i c = Some k \<Longrightarrow> i \<le> k \<and> k < i + length cs \<and> cs ! (k - i) = c"
proof (induction cs arbitrary: i)
  case (Cons a cs)
  then show ?case
    by (fastforce split: if_splits simp: nth_Cons' Suc_diff_le)
qed simp

lemma hz_ext_search_complete:
  "sorted cs \<Longrightarrow> c \<in> set cs \<Longrightarrow> hz_ext_search cs i c \<noteq> None"
  by (induction cs arbitrary: i) auto

text \<open>The index of a Chinese character of row \<open>r\<close> and column \<open>c\<close>; the first 3755 are level 1.\<close>

definition hz_index :: "u16 \<Rightarrow> nat" where
  "hz_index c = (unat c div 256 - 0xB0) * 94 + unat c mod 256 - 0xA1"

definition is_hanzi :: "u16 \<Rightarrow> bool" where
  "is_hanzi c \<longleftrightarrow> 0xB0 \<le> unat c div 256 \<and> unat c div 256 \<le> 0xF7 \<and> 0xA1 \<le> unat c mod 256 \<and> unat c mod 256 \<le> 0xFE"

lemma hz_bytes:
  "unat (ucast (drop_bit 8 c) :: u8) = unat (c :: u16) div 256"
  "unat (ucast (c AND 0x00FF) :: u8) = unat (c :: u16) mod 256"
proof -
  have "unat c < 65536" using unsigned_less[of c, where 'a = nat] by simp
  then show "unat (ucast (drop_bit 8 c) :: u8) = unat c div 256"
    by (simp add: unsigned_ucast_eq unsigned_drop_bit_eq drop_bit_eq_div take_bit_eq_mod unat_div_distrib)
  show "unat (ucast (c AND 0x00FF) :: u8) = unat c mod 256"
    by (simp add: and_mask_8 unsigned_ucast_eq unsigned_take_bit_eq take_bit_eq_mod unat_mod_distrib)
qed

lemma getHzBitmap_hanzi:
  assumes s: "fonts_ok s" and c: "is_hanzi c"
  shows "getHzBitmap s c = Some \<lparr>bm_width = 16, bm_height = 16, bm_bpp = 1,
    bm_data = drop (hz_index c * 32) (sansHzFont16Data (rom s))\<rparr>"
  using s c
  by (simp add: getHzBitmap_def fonts_ok_def sansHzFont16_def hz_bytes is_hanzi_def hz_index_def word_le_nat_alt)

lemma hz_ext_search_nth:
  "k < length cs \<Longrightarrow> sorted cs \<Longrightarrow> distinct cs \<Longrightarrow> hz_ext_search cs i (cs ! k) = Some (i + k)"
proof (induction cs arbitrary: i k)
  case (Cons a cs)
  show ?case
  proof (cases k)
    case (Suc j)
    then have "cs ! j \<in> set cs" using Cons.prems(1) by simp
    then have "a \<le> cs ! j" "a \<noteq> cs ! j" using Cons.prems(2,3) by auto
    then show ?thesis using Cons Suc by (simp add: not_less)
  qed simp
qed simp

lemma hz_ext_search_absent: "c \<notin> set cs \<Longrightarrow> hz_ext_search cs i c = None"
  by (induction cs arbitrary: i) auto

lemma getHzBitmap_punctuation:
  assumes s: "fonts_ok s" and k: "k < 30" and c: "c = sansHzFont16ExtOffset ! k" "\<not> is_hanzi c"
  shows "getHzBitmap s c = Some \<lparr>bm_width = 16, bm_height = 16, bm_bpp = 1,
    bm_data = drop (k * 32) (sansHzFont16ExtData (rom s))\<rparr>"
proof -
  have "hz_ext_search sansHzFont16ExtOffset 0 (sansHzFont16ExtOffset ! k) = Some (0 + k)"
    by (rule hz_ext_search_nth) (use k in \<open>simp_all add: sansHzFont16ExtOffset_def\<close>)
  then show ?thesis
    using s c
    by (auto simp: getHzBitmap_def fonts_ok_def sansHzFont16_def hz_bytes is_hanzi_def word_le_nat_alt)
qed

lemma getHzBitmap_blank:
  assumes s: "fonts_ok s" and c: "c \<notin> set sansHzFont16ExtOffset" "\<not> is_hanzi c"
  shows "getHzBitmap s c = Some \<lparr>bm_width = 16, bm_height = 16, bm_bpp = 1, bm_data = blankChar\<rparr>"
  using s c hz_ext_search_absent[OF c(1), of 0]
  by (auto simp: getHzBitmap_def fonts_ok_def sansHzFont16_def hz_bytes is_hanzi_def word_le_nat_alt)

text \<open>
  When the bitmap of a character is complete: every character but the Chinese ones beyond the
  3755 glyphs, and characters outside a font whose cells are bigger than the blank glyph.
\<close>

definition drawable :: "font_st \<Rightarrow> u16 \<Rightarrow> bool" where
  "drawable s c \<longleftrightarrow> (if 0xA0A0 \<le> c then is_hanzi c \<longrightarrow> hz_index c < 3755
     else (let p = dispFonts s ! unat (curr_font_id s) in
       glyph_bytes p \<le> 32 \<or> fi_start p \<le> c \<and> c \<le> fi_end p))"

lemma getHzBitmap_complete:
  assumes s: "fonts_ok s" and c: "is_hanzi c \<Longrightarrow> hz_index c < 3755"
  shows "\<exists>bm. getHzBitmap s c = Some bm \<and> bitmap_complete bm \<and> bm_bpp bm = 1"
proof (cases "is_hanzi c")
  case True
  with s c show ?thesis
    by (simp add: getHzBitmap_hanzi bitmap_complete_def fonts_ok_def rom_ok_def)
next
  case other: False
  show ?thesis
  proof (cases "c \<in> set sansHzFont16ExtOffset")
    case True
    moreover have "length sansHzFont16ExtOffset = 30" by (simp add: sansHzFont16ExtOffset_def)
    ultimately obtain k where "k < 30" "c = sansHzFont16ExtOffset ! k"
      by (metis in_set_conv_nth)
    with getHzBitmap_punctuation[OF s] other s show ?thesis
      by (simp add: bitmap_complete_def fonts_ok_def rom_ok_def)
  next
    case False
    with other s show ?thesis by (simp add: getHzBitmap_blank bitmap_complete_def blankChar_def)
  qed
qed

lemma getFontBitmap_complete:
  assumes s: "fonts_ok s" and p: "p = dispFonts s ! unat (curr_font_id s)"
    and c: "glyph_bytes p \<le> 32 \<or> fi_start p \<le> c \<and> c \<le> fi_end p"
  shows "\<exists>bm. getFontBitmap s c = Some bm \<and> bitmap_complete bm \<and> bm_bpp bm = 1"
proof (cases "fi_start p \<le> c \<and> c \<le> fi_end p")
  case True
  from s p obtain d where "fi_data p = Some d" by (auto simp: fonts_ok_def)
  from getFontBitmap_in_range[OF s p this] True show ?thesis by blast
next
  case False
  with c have g: "glyph_bytes p \<le> 32" by blast
  have "ld (dispFonts s) (unat (curr_font_id s)) = Some p" using s p by (simp add: fonts_ok_def ld_in)
  with False g show ?thesis
    by (auto simp: getFontBitmap_def bitmap_complete_def blankChar_def glyph_bytes_def split: option.split)
qed

lemma getCharBitmap_complete:
  assumes s: "fonts_ok s" and c: "drawable s c"
  shows "\<exists>bm. getCharBitmap s c = Some bm \<and> bitmap_complete bm \<and> bm_bpp bm = 1"
proof (cases "0xA0A0 \<le> c")
  case True
  with getHzBitmap_complete[OF s, of c] c show ?thesis by (simp add: getCharBitmap_def drawable_def)
next
  case False
  with getFontBitmap_complete[OF s refl, of c] c show ?thesis
    by (simp add: getCharBitmap_def drawable_def Let_def)
qed

section \<open>Loading keeps the table well formed\<close>

lemma find_free_font_Some:
  "find_free_font ps i = Some k \<Longrightarrow> i \<le> k \<and> k < i + length ps \<and> fi_data (ps ! (k - i)) = None"
proof (induction ps arbitrary: i)
  case (Cons a ps)
  then show ?case by (fastforce split: if_splits simp: nth_Cons' Suc_diff_le)
qed simp

lemma loaded_font_ok:
  assumes "charsize = (unat width + 7) div 8 * unat height" and "\<not> fin < start"
    and "charsize * (unat fin - unat start + 1) = length d"
  shows "font_ok \<lparr>fi_width = width, fi_height = height, fi_size = of_nat charsize,
     fi_start = start, fi_end = fin, fi_data = Some d\<rparr>"
proof -
  have "unat (of_nat charsize :: u8) = charsize mod 256" by (simp add: unsigned_of_nat take_bit_eq_mod)
  moreover have "(unat fin - unat start + 1) * charsize \<le> length d"
    using assms(3) by (metis mult.commute order_refl)
  ultimately show ?thesis
    unfolding font_ok_def glyph_bytes_def using assms(2)
    by (simp only: font_info.simps option.case assms(1)[symmetric] not_less)
qed

lemma platform_disp_loadfont_ok:
  assumes s: "fonts_ok s"
  shows "fonts_ok (fst (platform_disp_loadfont file s))"
proof (cases "snd (platform_disp_loadfont file s) = -1")
  case True
  then show ?thesis
    using s by (auto simp: platform_disp_loadfont_def Let_def split: prod.splits option.splits if_splits)
next
  case False
  obtain n buf where nb: "load_file_data file = (n, buf)" by fastforce
  then have n: "n = length buf" by (auto simp: load_file_data_def split: option.splits)
  define cs where "cs = (unat (buf ! 0) + 7) div 8 * unat (buf ! 1)"
  define p where "p = \<lparr>fi_width = buf ! 0, fi_height = buf ! 1, fi_size = of_nat cs,
      fi_start = le16 (buf ! 3) (buf ! 4), fi_end = le16 (buf ! 5) (buf ! 6), fi_data = Some (drop 7 buf)\<rparr>"
  from False nb obtain i where i: "find_free_font (dispFonts s) 0 = Some i"
    and chk: "\<not> le16 (buf ! 5) (buf ! 6) < le16 (buf ! 3) (buf ! 4)"
      "cs * (unat (le16 (buf ! 5) (buf ! 6)) - unat (le16 (buf ! 3) (buf ! 4)) + 1) = n - 7"
    and r: "fst (platform_disp_loadfont file s) = s\<lparr>dispFonts := (dispFonts s)[i := p]\<rparr>"
    by (auto simp: platform_disp_loadfont_def Let_def cs_def p_def split: option.splits if_splits)
  have "font_ok p" unfolding p_def by (rule loaded_font_ok) (use chk n in \<open>simp_all add: cs_def\<close>)
  moreover have "fi_data p \<noteq> None" by (simp add: p_def)
  moreover have "set ((dispFonts s)[i := p]) \<subseteq> insert p (set (dispFonts s))" by (rule set_update_subset_insert)
  ultimately show ?thesis
    using s unfolding r fonts_ok_def
    by (cases "i = unat (curr_font_id s)") auto
qed

lemma platform_disp_setfont_ok:
  assumes "fonts_ok s"
  shows "fonts_ok (fst (platform_disp_setfont k s))"
proof (cases "k < 0 \<or> int MAX_FONTS \<le> k \<or> fi_data (dispFonts s ! nat k) = None")
  case True
  then show ?thesis using assms by (auto simp: platform_disp_setfont_def)
next
  case False
  then have "unat (of_int k :: u8) = nat k"
    by (simp add: MAX_FONTS_def unat_eq_nat_uint uint_word_of_int_eq take_bit_int_eq_self)
  then show ?thesis using assms False by (auto simp: platform_disp_setfont_def fonts_ok_def)
qed

section \<open>A loaded font is the font of the file\<close>

lemma find_free_font_none: "find_free_font ps i = None \<longleftrightarrow> (\<forall>p \<in> set ps. fi_data p \<noteq> None)"
  by (induction ps arbitrary: i) auto

lemma loadfont_result:
  assumes "snd (platform_disp_loadfont (Some (a # b # t # s0 # s1 # e0 # e1 # glyphs)) s) = int i"
  shows "i < length (dispFonts s) \<and> t = 0 \<and> le16 s0 s1 \<le> le16 e0 e1 \<and>
    length glyphs = (unat a + 7) div 8 * unat b * (unat (le16 e0 e1) - unat (le16 s0 s1) + 1) \<and>
    fst (platform_disp_loadfont (Some (a # b # t # s0 # s1 # e0 # e1 # glyphs)) s) =
      s\<lparr>dispFonts := (dispFonts s)[i := \<lparr>fi_width = a, fi_height = b,
        fi_size = of_nat ((unat a + 7) div 8 * unat b), fi_start = le16 s0 s1, fi_end = le16 e0 e1,
        fi_data = Some glyphs\<rparr>]\<rparr>"
  using assms
  by (auto simp: platform_disp_loadfont_def load_file_data_def Let_def not_less
      split: option.splits if_splits dest: find_free_font_Some)

section \<open>Properties\<close>

text \<open>
  Loading and choosing a font, then looking up a character of its range: the place of the glyph in the
  file is computed with the number of bytes of a glyph modulo 256.
\<close>

lemma loaded_font_glyph:
  assumes s: "fonts_ok s"
    and load: "platform_disp_loadfont (Some (a # b # 0 # s0 # s1 # e0 # e1 # glyphs)) s = (s1', int i)"
    and set: "platform_disp_setfont (int i) s1' = (s2, r)"
    and c: "le16 s0 s1 \<le> c" "c \<le> le16 e0 e1"
  shows "0 \<le> r \<and> (\<exists>bm. getFontBitmap s2 c = Some bm \<and> bitmap_complete bm \<and>
    bm_width bm = ucast a \<and> bm_height bm = ucast b \<and>
    bm_data bm = drop ((unat c - unat (le16 s0 s1)) * (((unat a + 7) div 8 * unat b) mod 256)) glyphs)"
proof -
  define p where "p = \<lparr>fi_width = a, fi_height = b, fi_size = of_nat ((unat a + 7) div 8 * unat b),
      fi_start = le16 s0 s1, fi_end = le16 e0 e1, fi_data = Some glyphs\<rparr>"
  from loadfont_result[of a b 0 s0 s1 e0 e1 glyphs s i] load have
    i: "i < length (dispFonts s)" and s1': "s1' = s\<lparr>dispFonts := (dispFonts s)[i := p]\<rparr>"
    by (auto simp: p_def)
  have i10: "i < 10" using i s by (simp add: fonts_ok_def MAX_FONTS_def)
  have nth: "dispFonts s1' ! i = p" using i by (simp add: s1')
  have s2: "s2 = s1'\<lparr>curr_font_id := of_int (int i)\<rparr>" "r = uint (curr_font_id s1')"
    using set i10 nth by (auto simp: platform_disp_setfont_def MAX_FONTS_def p_def)
  have cur: "unat (curr_font_id s2) = i"
    using i10 by (simp add: s2 unsigned_of_nat take_bit_nat_eq_self)
  have "fonts_ok s1'" using platform_disp_loadfont_ok[OF s] load by (metis fst_conv)
  then have ok: "fonts_ok s2" using platform_disp_setfont_ok set by (metis fst_conv)
  have p2: "p = dispFonts s2 ! unat (curr_font_id s2)" using nth by (simp add: cur) (simp add: s2)
  have "fi_data p = Some glyphs" "fi_start p \<le> c" "c \<le> fi_end p"
    using c by (simp_all add: p_def glyph_bytes_def)
  from getFontBitmap_in_range[OF ok p2 this] show ?thesis
    by (auto simp: s2 p_def glyph_bytes_def)
qed

text \<open>The glyphs of a font of 256 bytes each, such as 128 by 16 pixels, are all looked up at the place of the first.\<close>

lemma large_glyph_misplaced:
  assumes s: "fonts_ok s"
    and load: "platform_disp_loadfont (Some (a # b # 0 # s0 # s1 # e0 # e1 # glyphs)) s = (s1', int i)"
    and set: "platform_disp_setfont (int i) s1' = (s2, r)"
    and c: "le16 s0 s1 \<le> c" "c \<le> le16 e0 e1"
    and large: "(unat a + 7) div 8 * unat b = 256"
  shows "\<exists>bm. getFontBitmap s2 c = Some bm \<and> bm_data bm = glyphs"
  using loaded_font_glyph[OF s load set c] by (auto simp: large)

text \<open>
  C24. Loading, choosing and looking up agree with the file: after a font file is accepted
  as font \<open>i\<close> and chosen, every character of its range whose glyph takes fewer than 256
  bytes gets the bitmap at its place in the file, whole and of the file's size.
\<close>

theorem loaded_font_lookup:
  assumes s: "fonts_ok s"
    and load: "platform_disp_loadfont (Some (a # b # 0 # s0 # s1 # e0 # e1 # glyphs)) s = (s1', int i)"
    and set: "platform_disp_setfont (int i) s1' = (s2, r)"
    and c: "le16 s0 s1 \<le> c" "c \<le> le16 e0 e1"
    and small: "(unat a + 7) div 8 * unat b < 256"
  shows "0 \<le> r \<and> (\<exists>bm. getFontBitmap s2 c = Some bm \<and> bitmap_complete bm \<and>
    bm_width bm = ucast a \<and> bm_height bm = ucast b \<and>
    bm_data bm = drop ((unat c - unat (le16 s0 s1)) * ((unat a + 7) div 8 * unat b)) glyphs)"
  using loaded_font_glyph[OF s load set c] small by simp

definition sample_rom :: font_rom where
  "sample_rom = \<lparr>sansFont16Data = replicate 1520 0xF0, sansHzFont16Data = replicate 120160 0xFF,
     sansHzFont16ExtData = replicate 960 0x0F\<rparr>"

lemma sample_fonts_ok: "fonts_ok (fontInit (init_fonts sample_rom))"
  by (rule fontInit_ok) (simp add: rom_ok_def sample_rom_def)

theorem loaded_font_lookup_witness:
  "\<exists>s1 s2 bm. platform_disp_loadfont (Some [8, 1, 0, 65, 0, 66, 0, 0x11, 0x22]) (fontInit (init_fonts sample_rom)) = (s1, 1) \<and>
     platform_disp_setfont 1 s1 = (s2, 0) \<and> getFontBitmap s2 66 = Some bm \<and> bm_data bm = [0x22]"
proof -
  let ?s = "fontInit (init_fonts sample_rom)"
  let ?f = "Some [8, 1, 0, 65, 0, 66, 0, 0x11, 0x22]"
  have le: "le16 65 0 = 65" "le16 66 0 = 66" by (simp_all add: le16_def)
  have free: "find_free_font (dispFonts ?s) 0 = Some 1"
    by (simp add: fontInit_def init_fonts_def MAX_FONTS_def sansFont16_def no_font_def numeral_eq_Suc)
  have load: "snd (platform_disp_loadfont ?f ?s) = int 1"
    by (simp add: platform_disp_loadfont_def load_file_data_def Let_def le free)
  define s1 where "s1 = fst (platform_disp_loadfont ?f ?s)"
  have l: "platform_disp_loadfont ?f ?s = (s1, int 1)" using load by (simp add: s1_def prod_eq_iff)
  define s2 where "s2 = fst (platform_disp_setfont (int 1) s1)"
  define r where "r = snd (platform_disp_setfont (int 1) s1)"
  have st: "platform_disp_setfont (int 1) s1 = (s2, r)" by (simp add: s2_def r_def)
  from loadfont_result[OF load] have s1: "s1 = ?s\<lparr>dispFonts := (dispFonts ?s)[1 := \<lparr>fi_width = 8, fi_height = 1,
        fi_size = of_nat 1, fi_start = 65, fi_end = 66, fi_data = Some [0x11, 0x22]\<rparr>]\<rparr>"
    by (simp add: s1_def le)
  have "r = 0"
    using loadfont_result[OF load] by (simp add: r_def platform_disp_setfont_def MAX_FONTS_def s1)
      (simp add: fontInit_def init_fonts_def)
  with loaded_font_lookup[OF sample_fonts_ok l st, of 66] l st show ?thesis by (simp add: le) blast
qed

text \<open>
  Every character that is not a Chinese character of the second level gets a bitmap that
  is complete: the lookup never points past the glyph array it reads from. (A character
  outside a font with cells bigger than 32 bytes is excluded too.)
\<close>

theorem char_bitmap_complete:
  assumes "fonts_ok s" and "drawable s c"
  shows "\<exists>bm. getCharBitmap s c = Some bm \<and> bitmap_complete bm \<and> bm_bpp bm = 1"
  using assms by (rule getCharBitmap_complete)

theorem char_bitmap_complete_witness:
  "\<exists>bm. getCharBitmap (fontInit (init_fonts sample_rom)) 0xB0A1 = Some bm \<and> bitmap_complete bm"
proof -
  have "drawable (fontInit (init_fonts sample_rom)) 0xB0A1"
    by (simp add: drawable_def is_hanzi_def hz_index_def)
  with char_bitmap_complete[OF sample_fonts_ok] show ?thesis by blast
qed

text \<open>
  The Chinese characters from D7FA to F7FE pass the range check of \<^verbatim>\<open>getHzBitmap\<close>
  but lie beyond the 3755 glyphs of the font: the bitmap has no data, and reading its first
  byte is outside the array.
\<close>

theorem level2_hanzi_outside_font:
  assumes "fonts_ok s" and "is_hanzi c" and "3755 \<le> hz_index c"
  shows "getCharBitmap s c = Some \<lparr>bm_width = 16, bm_height = 16, bm_bpp = 1, bm_data = []\<rparr>"
proof -
  have "0xB0 * 256 \<le> unat c" using assms(2) unfolding is_hanzi_def by linarith
  then have "0xA0A0 \<le> c" by (simp add: word_le_nat_alt)
  then show ?thesis
    using assms getHzBitmap_hanzi[OF assms(1,2)]
    by (simp add: getCharBitmap_def fonts_ok_def rom_ok_def)
qed

theorem level2_hanzi_outside_font_witness:
  "getCharBitmap (fontInit (init_fonts sample_rom)) 0xD8A1 =
     Some \<lparr>bm_width = 16, bm_height = 16, bm_bpp = 1, bm_data = []\<rparr>"
  by (rule level2_hanzi_outside_font[OF sample_fonts_ok]) (simp_all add: is_hanzi_def hz_index_def)

end
