(* ===== verification/Raster.thy ===== *)
theory Raster
  imports C_Prelude
begin

text \<open>
  Frame buffers. The display code sees one block of bytes in two ways: on a monochrome panel
  as pages of eight rows, one byte per column of a page; on a colour panel as an array of
  16-bit pixels in row order, low byte first. The locale \<open>raster\<close> is what a drawing loop
  relies on; it is interpreted for both.
\<close>

section \<open>Access to the buffer\<close>

text \<open>\<^verbatim>\<open>framebuffer[page*lcd_width+x] |= 1<<(y%8)\<close> and \<^verbatim>\<open>&= ~(1<<(y%8))\<close>\<close>

definition fb_set :: "nat \<Rightarrow> nat \<Rightarrow> nat \<Rightarrow> u8 list \<Rightarrow> u8 list option" where
  "fb_set w x y b = do {
     v \<leftarrow> ld b (y div 8 * w + x);
     st b (y div 8 * w + x) (v OR push_bit (y mod 8) 1)
   }"

definition fb_clr :: "nat \<Rightarrow> nat \<Rightarrow> nat \<Rightarrow> u8 list \<Rightarrow> u8 list option" where
  "fb_clr w x y b = do {
     v \<leftarrow> ld b (y div 8 * w + x);
     st b (y div 8 * w + x) (v AND NOT (push_bit (y mod 8) 1))
   }"

definition fb_put :: "nat \<Rightarrow> nat \<Rightarrow> nat \<Rightarrow> bool \<Rightarrow> u8 list \<Rightarrow> u8 list option" where
  "fb_put w x y v = (if v then fb_set w x y else fb_clr w x y)"

text \<open>\<^verbatim>\<open>((u16*)framebuffer)[i]\<close>\<close>

definition ld16 :: "u8 list \<Rightarrow> nat \<Rightarrow> u16 option" where
  "ld16 b i = do {
     lo \<leftarrow> ld b (2 * i);
     hi \<leftarrow> ld b (2 * i + 1);
     Some (push_bit 8 (ucast hi) OR ucast lo)
   }"

definition st16 :: "u8 list \<Rightarrow> nat \<Rightarrow> u16 \<Rightarrow> u8 list option" where
  "st16 b i v = do {
     b \<leftarrow> st b (2 * i) (ucast v);
     st b (2 * i + 1) (ucast (drop_bit 8 v))
   }"

section \<open>Pixels\<close>

definition mono_px :: "nat \<Rightarrow> u8 list \<Rightarrow> nat \<Rightarrow> nat \<Rightarrow> bool" where
  "mono_px w b x y = bit (b ! (y div 8 * w + x)) (y mod 8)"

definition colour_px :: "nat \<Rightarrow> u8 list \<Rightarrow> nat \<Rightarrow> nat \<Rightarrow> u16" where
  "colour_px w b x y = push_bit 8 (ucast (b ! (2 * (y * w + x) + 1))) OR ucast (b ! (2 * (y * w + x)))"

definition mono_ok :: "nat \<Rightarrow> nat \<Rightarrow> u8 list \<Rightarrow> bool" where
  "mono_ok w h b \<longleftrightarrow> 8 dvd h \<and> length b = w * h div 8"

definition colour_ok :: "nat \<Rightarrow> nat \<Rightarrow> u8 list \<Rightarrow> bool" where
  "colour_ok w h b \<longleftrightarrow> 2 * (w * h) \<le> length b"

text \<open>
  What a drawing operation does to the picture: pixel \<open>(x, y)\<close> becomes \<open>f x y\<close> of the
  pixel it was.
\<close>

definition painted ::
    "nat \<Rightarrow> nat \<Rightarrow> ('b \<Rightarrow> nat \<Rightarrow> nat \<Rightarrow> 'v) \<Rightarrow> (nat \<Rightarrow> nat \<Rightarrow> 'v \<Rightarrow> 'v) \<Rightarrow> 'b \<Rightarrow> 'b \<Rightarrow> bool" where
  "painted w h get f b b' \<longleftrightarrow> (\<forall>x < w. \<forall>y < h. get b' x y = f x y (get b x y))"

lemma painted_trans:
  "painted w h get f a b \<Longrightarrow> painted w h get g b c \<Longrightarrow> painted w h get (\<lambda>x y v. g x y (f x y v)) a c"
  by (simp add: painted_def)

lemma painted_refl: "painted w h get (\<lambda>x y v. v) b b"
  by (simp add: painted_def)

lemma painted_cong:
  assumes "painted w h get f b b'" and "\<And>x y v. x < w \<Longrightarrow> y < h \<Longrightarrow> f x y v = g x y v"
  shows "painted w h get g b b'"
  using assms by (simp add: painted_def)

locale raster =
  fixes w h :: nat
    and ok :: "'b \<Rightarrow> bool"
    and get :: "'b \<Rightarrow> nat \<Rightarrow> nat \<Rightarrow> 'v"
    and put :: "nat \<Rightarrow> nat \<Rightarrow> 'v \<Rightarrow> 'b \<Rightarrow> 'b option"
  assumes put_law: "ok b \<Longrightarrow> x < w \<Longrightarrow> y < h \<Longrightarrow>
      \<exists>b'. put x y v b = Some b' \<and> ok b' \<and>
           painted w h get (\<lambda>i j u. if i = x \<and> j = y then v else u) b b'"
begin

text \<open>
  A loop body that recolours its own pixel only; \<open>ink\<close> gives the new colour from the old.
\<close>

lemma column_law:
  assumes "ok b" and "x < w" and "y1 \<le> h"
    and body: "\<And>y c. y0 \<le> y \<Longrightarrow> y < y1 \<Longrightarrow> ok c \<Longrightarrow>
      \<exists>c'. body y c = Some c' \<and> ok c' \<and>
           painted w h get (\<lambda>i j u. if i = x \<and> j = y then ink y u else u) c c'"
  shows "\<exists>b'. for_range y0 y1 body b = Some b' \<and> ok b' \<and>
    painted w h get (\<lambda>i j u. if i = x \<and> y0 \<le> j \<and> j < y1 then ink j u else u) b b'"
proof (cases "y0 \<le> y1")
  case False
  then show ?thesis using assms(1) by (auto simp: painted_def)
next
  case True
  let ?P = "\<lambda>y c. ok c \<and> painted w h get (\<lambda>i j u. if i = x \<and> y0 \<le> j \<and> j < y then ink j u else u) b c"
  have "\<exists>b'. for_range y0 y1 body b = Some b' \<and> ?P y1 b'"
  proof (rule for_range_rule)
    show "?P y0 b" using assms(1) by (auto simp: painted_def)
    fix y c assume y: "y0 \<le> y" "y < y1" and c: "?P y c"
    from body[OF y] c obtain c' where
      c': "body y c = Some c'" "ok c'"
        "painted w h get (\<lambda>i j u. if i = x \<and> j = y then ink y u else u) c c'" by blast
    have "painted w h get (\<lambda>i j u. if i = x \<and> y0 \<le> j \<and> j < Suc y then ink j u else u) b c'"
      by (rule painted_cong[OF painted_trans[OF conjunct2[OF c] c'(3)]])
        (use y in \<open>auto simp: less_Suc_eq\<close>)
    with c' show "\<exists>d. body y c = Some d \<and> ?P (Suc y) d" by blast
  qed (rule True)
  then show ?thesis by blast
qed

lemma paint_law:
  assumes "ok b" and "x1 \<le> w" and "y1 \<le> h"
    and body: "\<And>x y c. x0 \<le> x \<Longrightarrow> x < x1 \<Longrightarrow> y0 \<le> y \<Longrightarrow> y < y1 \<Longrightarrow> ok c \<Longrightarrow>
      \<exists>c'. body x y c = Some c' \<and> ok c' \<and>
           painted w h get (\<lambda>i j u. if i = x \<and> j = y then ink x y u else u) c c'"
  shows "\<exists>b'. for_range x0 x1 (\<lambda>x. for_range y0 y1 (body x)) b = Some b' \<and> ok b' \<and>
    painted w h get (\<lambda>i j u. if x0 \<le> i \<and> i < x1 \<and> y0 \<le> j \<and> j < y1 then ink i j u else u) b b'"
proof (cases "x0 \<le> x1")
  case False
  then show ?thesis using assms(1) by (auto simp: painted_def)
next
  case True
  let ?P = "\<lambda>x c. ok c \<and> painted w h get
      (\<lambda>i j u. if x0 \<le> i \<and> i < x \<and> y0 \<le> j \<and> j < y1 then ink i j u else u) b c"
  have "\<exists>b'. for_range x0 x1 (\<lambda>x. for_range y0 y1 (body x)) b = Some b' \<and> ?P x1 b'"
  proof (rule for_range_rule)
    show "?P x0 b" using assms(1) by (auto simp: painted_def)
    fix x c assume x: "x0 \<le> x" "x < x1" and c: "?P x c"
    have xw: "x < w" using x(2) assms(2) by simp
    from column_law[where body = "body x" and ink = "ink x" and ?y0.0 = y0,
        OF conjunct1[OF c] xw assms(3)] body[OF x] obtain c' where
      c': "for_range y0 y1 (body x) c = Some c'" "ok c'"
        "painted w h get (\<lambda>i j u. if i = x \<and> y0 \<le> j \<and> j < y1 then ink x j u else u) c c'" by blast
    have "painted w h get
        (\<lambda>i j u. if x0 \<le> i \<and> i < Suc x \<and> y0 \<le> j \<and> j < y1 then ink i j u else u) b c'"
      by (rule painted_cong[OF painted_trans[OF conjunct2[OF c] c'(3)]])
        (use x in \<open>auto simp: less_Suc_eq\<close>)
    with c' show "\<exists>d. for_range y0 y1 (body x) c = Some d \<and> ?P (Suc x) d" by blast
  qed (rule True)
  then show ?thesis by blast
qed

text \<open>The two bodies the code uses: draw the pixel, or leave it.\<close>

lemma put_or_skip:
  assumes "ok c" and "x < w" and "y < h"
  shows "\<exists>c'. (if d then put x y v c else Some c) = Some c' \<and> ok c' \<and>
    painted w h get (\<lambda>i j u. if i = x \<and> j = y then (if d then v else u) else u) c c'"
  using put_law[OF assms, of v] assms(1) by (cases d) (auto simp: painted_def)

lemma two_rows_law:
  assumes "ok b" and "x1 \<le> w" and "ya < h" and "yb < h"
  shows "\<exists>b'. for_range x0 x1 (\<lambda>x b. put x ya v b \<bind> put x yb v) b = Some b' \<and> ok b' \<and>
    painted w h get (\<lambda>i j u. if x0 \<le> i \<and> i < x1 \<and> (j = ya \<or> j = yb) then v else u) b b'"
proof (cases "x0 \<le> x1")
  case False
  then show ?thesis using assms(1) by (auto simp: painted_def)
next
  case True
  let ?P = "\<lambda>x c. ok c \<and> painted w h get (\<lambda>i j u. if x0 \<le> i \<and> i < x \<and> (j = ya \<or> j = yb) then v else u) b c"
  have "\<exists>b'. for_range x0 x1 (\<lambda>x b. put x ya v b \<bind> put x yb v) b = Some b' \<and> ?P x1 b'"
  proof (rule for_range_rule)
    show "?P x0 b" using assms(1) by (auto simp: painted_def)
    fix x c assume x: "x0 \<le> x" "x < x1" and c: "?P x c"
    have xw: "x < w" using x(2) assms(2) by simp
    from put_law[OF conjunct1[OF c] xw assms(3), of v] obtain d where
      d: "put x ya v c = Some d" "ok d" "painted w h get (\<lambda>i j u. if i = x \<and> j = ya then v else u) c d" by blast
    from put_law[OF d(2) xw assms(4), of v] obtain e where
      e: "put x yb v d = Some e" "ok e" "painted w h get (\<lambda>i j u. if i = x \<and> j = yb then v else u) d e" by blast
    have "painted w h get (\<lambda>i j u. if x0 \<le> i \<and> i < Suc x \<and> (j = ya \<or> j = yb) then v else u) b e"
      by (rule painted_cong[OF painted_trans[OF painted_trans[OF conjunct2[OF c] d(3)] e(3)]])
        (use x in \<open>auto simp: less_Suc_eq\<close>)
    with d e show "\<exists>e. (put x ya v c \<bind> put x yb v) = Some e \<and> ?P (Suc x) e" by simp
  qed (rule True)
  then show ?thesis by blast
qed

end

text \<open>Reading the picture transposed is a raster too; so a loop over rows is one over columns.\<close>

lemma painted_transpose:
  "painted h w (\<lambda>b i j. get b j i) f b b' = painted w h get (\<lambda>i j. f j i) b b'"
  by (auto simp: painted_def)

sublocale raster \<subseteq> transposed: raster h w ok "\<lambda>b i j. get b j i" "\<lambda>i j. put j i"
proof unfold_locales
  fix b x y v assume "ok b" "x < h" "y < w"
  then obtain b' where "put y x v b = Some b'" "ok b'"
      "painted w h get (\<lambda>i j u. if i = y \<and> j = x then v else u) b b'"
    using put_law[of b y x v] by blast
  then show "\<exists>b'. put y x v b = Some b' \<and> ok b' \<and>
      painted h w (\<lambda>b i j. get b j i) (\<lambda>i j u. if i = x \<and> j = y then v else u) b b'"
    by (auto simp: painted_def)
qed

context raster
begin

lemma two_columns_law:
  assumes "ok b" and "y1 \<le> h" and "xa < w" and "xb < w"
  shows "\<exists>b'. for_range y0 y1 (\<lambda>y b. put xa y v b \<bind> put xb y v) b = Some b' \<and> ok b' \<and>
    painted w h get (\<lambda>i j u. if y0 \<le> j \<and> j < y1 \<and> (i = xa \<or> i = xb) then v else u) b b'"
  using transposed.two_rows_law[OF assms, of y0 v] unfolding painted_transpose[of h w get] .

lemma paint_rows_law:
  assumes "ok b" and "x1 \<le> w" and "y1 \<le> h"
    and body: "\<And>x y c. x0 \<le> x \<Longrightarrow> x < x1 \<Longrightarrow> y0 \<le> y \<Longrightarrow> y < y1 \<Longrightarrow> ok c \<Longrightarrow>
      \<exists>c'. body y x c = Some c' \<and> ok c' \<and>
           painted w h get (\<lambda>i j u. if i = x \<and> j = y then ink x y u else u) c c'"
  shows "\<exists>b'. for_range y0 y1 (\<lambda>y. for_range x0 x1 (body y)) b = Some b' \<and> ok b' \<and>
    painted w h get (\<lambda>i j u. if x0 \<le> i \<and> i < x1 \<and> y0 \<le> j \<and> j < y1 then ink i j u else u) b b'"
proof -
  have "\<exists>b'. for_range y0 y1 (\<lambda>y. for_range x0 x1 (body y)) b = Some b' \<and> ok b' \<and>
    painted h w (\<lambda>b i j. get b j i)
      (\<lambda>i j u. if y0 \<le> i \<and> i < y1 \<and> x0 \<le> j \<and> j < x1 then ink j i u else u) b b'"
  proof (rule transposed.paint_law)
    show "\<exists>c'. body y x c = Some c' \<and> ok c' \<and>
        painted h w (\<lambda>b i j. get b j i) (\<lambda>i j u. if i = y \<and> j = x then ink x y u else u) c c'"
      if "y0 \<le> y" "y < y1" "x0 \<le> x" "x < x1" "ok c" for y x c
      using body[OF that(3,4,1,2,5)] unfolding painted_transpose[of h w get] by (simp add: conj_commute)
  qed (use assms in auto)
  then show ?thesis unfolding painted_transpose[of h w get] by (simp add: conj_ac)
qed

end

section \<open>Monochrome panels\<close>

lemma page_index_less:
  assumes "x < (w :: nat)" and "y < h" and "8 dvd h"
  shows "y div 8 * w + x < w * h div 8"
proof -
  from assms(3) obtain p where h: "h = 8 * p" by (rule dvdE)
  with assms(2) have "y div 8 < p" by (simp add: less_mult_imp_div_less mult.commute)
  then have "(y div 8 + 1) * w \<le> p * w" by (intro mult_le_mono1) simp
  with assms(1) show ?thesis by (simp add: h algebra_simps)
qed

lemma page_index_inj:
  assumes "x < (w :: nat)" and "x' < w" and "y div 8 * w + x = y' div 8 * w + x'" and "y mod 8 = y' mod 8"
  shows "x = x' \<and> y = y'"
proof -
  have "(y div 8 * w + x) mod w = (y' div 8 * w + x') mod w" using assms(3) by simp
  then have x: "x = x'" using assms(1,2) by simp
  then have "y div 8 = y' div 8" using assms(1,3) by simp
  with assms(4) have "y = y'" by (metis div_mult_mod_eq)
  with x show ?thesis ..
qed

interpretation mono: raster w h "mono_ok w h" "mono_px w" "fb_put w"
proof unfold_locales
  fix b x y v assume ok: "mono_ok w h b" and x: "x < w" and y: "y < h"
  let ?i = "y div 8 * w + x"
  have i: "?i < length b" using ok page_index_less[OF x y] by (simp add: mono_ok_def)
  let ?v = "if v then b ! ?i OR push_bit (y mod 8) 1 else b ! ?i AND NOT (push_bit (y mod 8) 1)"
  have run: "fb_put w x y v b = Some (b[?i := ?v])"
    using i by (auto simp: fb_put_def fb_set_def fb_clr_def ld_in st_in)
  have m: "y mod 8 < 8" by simp
  have byte: "bit ?v k = (if k = y mod 8 then v else bit (b ! ?i) k)" if "k < 8" for k
    using that by (auto simp: bit_simps)
  have "painted w h (mono_px w) (\<lambda>i j u. if i = x \<and> j = y then v else u) b (b[?i := ?v])"
    unfolding painted_def mono_px_def
  proof (intro allI impI)
    fix i' j' assume ij: "i' < w" "j' < h"
    show "bit (b[?i := ?v] ! (j' div 8 * w + i')) (j' mod 8) =
        (if i' = x \<and> j' = y then v else bit (b ! (j' div 8 * w + i')) (j' mod 8))"
    proof (cases "j' div 8 * w + i' = ?i")
      case True
      then have "bit (b[?i := ?v] ! (j' div 8 * w + i')) (j' mod 8) = bit ?v (j' mod 8)" using i by simp
      also have "\<dots> = (if j' mod 8 = y mod 8 then v else bit (b ! ?i) (j' mod 8))"
        by (rule byte) simp
      finally show ?thesis using True page_index_inj[OF ij(1) x True] by auto
    next
      case False
      then show ?thesis by auto
    qed
  qed
  with run ok show "\<exists>b'. fb_put w x y v b = Some b' \<and> mono_ok w h b' \<and>
      painted w h (mono_px w) (\<lambda>i j u. if i = x \<and> j = y then v else u) b b'"
    by (auto simp: mono_ok_def)
qed

section \<open>Colour panels\<close>

lemma pixel_index_less:
  assumes "x < (w :: nat)" and "y < h"
  shows "y * w + x < w * h"
proof -
  have "(y + 1) * w \<le> h * w" using assms(2) by (intro mult_le_mono1) simp
  with assms(1) show ?thesis by (simp add: algebra_simps)
qed

lemma pixel_index_inj:
  assumes "x < (w :: nat)" and "x' < w" and "y * w + x = y' * w + x'"
  shows "x = x' \<and> y = y'"
proof -
  have "(y * w + x) mod w = (y' * w + x') mod w" using assms(3) by simp
  then have "x = x'" using assms(1,2) by simp
  with assms show ?thesis by simp
qed

lemma u16_split: "push_bit 8 (ucast (ucast (drop_bit 8 v) :: u8)) OR ucast (ucast v :: u8) = (v :: u16)"
  by (rule bit_word_eqI) (auto simp: bit_simps)

lemma st16_in:
  assumes "2 * i + 1 < length b"
  shows "st16 b i v = Some (b[2 * i := ucast v, 2 * i + 1 := ucast (drop_bit 8 v)])"
  using assms by (simp add: st16_def st_in)

lemma ld16_in:
  assumes "2 * i + 1 < length b"
  shows "ld16 b i = Some (push_bit 8 (ucast (b ! (2 * i + 1))) OR ucast (b ! (2 * i)))"
  using assms by (simp add: ld16_def ld_in)

interpretation colour: raster w h "colour_ok w h" "colour_px w" "\<lambda>x y v b. st16 b (y * w + x) v"
proof unfold_locales
  fix b x y and v :: u16 assume ok: "colour_ok w h b" and x: "x < w" and y: "y < h"
  let ?i = "y * w + x"
  let ?b = "b[2 * ?i := ucast v, 2 * ?i + 1 := ucast (drop_bit 8 v)]"
  have i: "2 * ?i + 1 < length b" using ok pixel_index_less[OF x y] by (simp add: colour_ok_def)
  have "painted w h (colour_px w) (\<lambda>i j u. if i = x \<and> j = y then v else u) b ?b"
    unfolding painted_def
  proof (intro allI impI)
    fix i' j' assume ij: "i' < w" "j' < h"
    let ?k = "j' * w + i'"
    show "colour_px w ?b i' j' = (if i' = x \<and> j' = y then v else colour_px w b i' j')"
    proof (cases "?k = ?i")
      case True
      then have "?b ! (2 * ?k + 1) = ucast (drop_bit 8 v)" "?b ! (2 * ?k) = ucast v" using i by simp_all
      then show ?thesis
        using True pixel_index_inj[OF ij(1) x True] by (simp add: colour_px_def u16_split)
    next
      case False
      then have "2 * ?k \<noteq> 2 * ?i" "2 * ?k \<noteq> 2 * ?i + 1" "2 * ?k + 1 \<noteq> 2 * ?i" "2 * ?k + 1 \<noteq> 2 * ?i + 1"
        by presburger+
      then have "?b ! (2 * ?k + 1) = b ! (2 * ?k + 1)" "?b ! (2 * ?k) = b ! (2 * ?k)" by simp_all
      then show ?thesis using False by (auto simp: colour_px_def)
    qed
  qed
  with i ok show "\<exists>b'. st16 b (y * w + x) v = Some b' \<and> colour_ok w h b' \<and>
      painted w h (colour_px w) (\<lambda>i j u. if i = x \<and> j = y then v else u) b b'"
    by (simp add: st16_in colour_ok_def)
qed

end
