(* ===== verification/Display.thy ===== *)
theory Display
  imports Raster Fonts
begin

text \<open>
  Drawing on the frame buffer, \<^verbatim>\<open>platform/src/common_disp.c\<close>, in the build without
  display layers: text, rectangles, clearing, QR codes, on a monochrome panel (1 bit per
  pixel) and on a colour panel (16 bits per pixel).
\<close>

section \<open>State\<close>

datatype lcd_bus_kind =
    PLATFORM_LCD_BUS_SPI4LINE
  | PLATFORM_LCD_BUS_PARALLEL
  | PLATFORM_LCD_BUS_I2C
  | PLATFORM_LCD_BUS_SPI

record disp_st =
  lcd_bus :: lcd_bus_kind
  lcd_width :: u16
  lcd_height :: u16
  lcd_bpp :: u8
  disp_bkcolor :: u32
  disp_color :: u32
  lcd_hwfillcolor :: u32
  framebuffer :: "u8 list"
  fonts :: font_st

definition COLOR_WHITE :: u32 where "COLOR_WHITE = 0xffff"
definition COLOR_BLACK :: u32 where "COLOR_BLACK = 0x0000"

abbreviation W :: "disp_st \<Rightarrow> nat" where "W s \<equiv> unat (lcd_width s)"
abbreviation H :: "disp_st \<Rightarrow> nat" where "H s \<equiv> unat (lcd_height s)"

text \<open>An \<^verbatim>\<open>int\<close> colour stored in a 16-bit pixel, bytes swapped on the SPI bus.\<close>

definition bus16 :: "disp_st \<Rightarrow> u32 \<Rightarrow> u16" where
  "bus16 s c = (if lcd_bus s \<noteq> PLATFORM_LCD_BUS_SPI then ucast c
                else ucast (drop_bit 8 c OR push_bit 8 (c AND 0xff)))"

definition platform_disp_setcolor :: "u32 \<Rightarrow> disp_st \<Rightarrow> disp_st \<times> u32" where
  "platform_disp_setcolor c s = (s\<lparr>disp_color := c\<rparr>, disp_color s)"

definition platform_disp_setbkcolor :: "u32 \<Rightarrow> disp_st \<Rightarrow> disp_st \<times> u32" where
  "platform_disp_setbkcolor c s = (s\<lparr>disp_bkcolor := c\<rparr>, disp_bkcolor s)"

section \<open>Initialising and clearing\<close>

text \<open>
  \<open>block\<close> is the memory \<^verbatim>\<open>malloc\<close> gives for the frame buffer. The assertion on the
  colour depth stops the program.
\<close>

definition platform_disp_init ::
    "lcd_bus_kind \<Rightarrow> u16 \<Rightarrow> u16 \<Rightarrow> u8 \<Rightarrow> u32 \<Rightarrow> u8 list \<Rightarrow> disp_st \<Rightarrow> disp_st option" where
  "platform_disp_init bus width height bpp hwfillcolor block s =
     (if bpp = 16 \<or> bpp = 24 \<or> bpp = 1 then
        (let s = s\<lparr>lcd_bus := bus, lcd_width := width, lcd_height := height, lcd_bpp := bpp,
                   framebuffer := take (unat width * unat height * unat bpp div 8) block\<rparr>;
             s = (if bpp = 1
                  then (let s = s\<lparr>disp_bkcolor := COLOR_WHITE, disp_color := COLOR_BLACK\<rparr>
                        in if hwfillcolor \<noteq> -1 then s\<lparr>lcd_hwfillcolor := hwfillcolor\<rparr> else s)
                  else s)
         in Some (s\<lparr>fonts := fontInit (fonts s)\<rparr>))
      else None)"

text \<open>\<^verbatim>\<open>memset\<close> of the first \<open>n\<close> bytes.\<close>

definition memset_fb :: "u8 \<Rightarrow> nat \<Rightarrow> u8 list \<Rightarrow> u8 list option" where
  "memset_fb v n b = (if n \<le> length b then Some (replicate n v @ drop n b) else None)"

definition platform_disp_clear :: "disp_st \<Rightarrow> disp_st option" where
  "platform_disp_clear s = do {
     fb \<leftarrow> (if lcd_bpp s = 1
            then (if disp_bkcolor s XOR lcd_hwfillcolor s \<noteq> 0
                  then memset_fb 0x00 (W s * H s * unat (lcd_bpp s) div 8) (framebuffer s)
                  else memset_fb 0xFF (W s * H s * unat (lcd_bpp s) div 8) (framebuffer s))
            else for_range 0 (W s) (\<lambda>col. for_range 0 (H s) (\<lambda>row b.
                   st16 b (row * W s + col) (ucast (disp_bkcolor s)))) (framebuffer s));
     Some (s\<lparr>framebuffer := fb\<rparr>)
   }"

section \<open>Bitmaps\<close>

text \<open>\<^verbatim>\<open>pBitmap->data[bwbytes*by+bx/8]&(0x80>>(bx%8))\<close>\<close>

definition bitmap_bit :: "disp_bitmap \<Rightarrow> nat \<Rightarrow> nat \<Rightarrow> bool option" where
  "bitmap_bit bm bx by = do {
     let bwbytes = (unat (bm_width bm) + 7) div 8;
     v \<leftarrow> ld (bm_data bm) (bwbytes * by + bx div 8);
     Some (v AND drop_bit (bx mod 8) 0x80 \<noteq> 0)
   }"

definition disp_bitmap_bpp1 :: "disp_bitmap \<Rightarrow> u16 \<Rightarrow> u16 \<Rightarrow> disp_st \<Rightarrow> disp_st option" where
  "disp_bitmap_bpp1 bm startX startY s =
     (if bm_bpp bm \<noteq> 1 then Some s
      else do {
        let endX = min (W s) (unat startX + unat (bm_width bm));
        let endY = min (H s) (unat startY + unat (bm_height bm));
        fb \<leftarrow> for_range (unat startX) endX (\<lambda>x. for_range (unat startY) endY (\<lambda>y b. do {
          d \<leftarrow> bitmap_bit bm (x - unat startX) (y - unat startY);
          (if disp_color s XOR lcd_hwfillcolor s = 0
           then (if d then fb_set (W s) x y b else Some b)
           else (if d then fb_clr (W s) x y b else Some b))
        })) (framebuffer s);
        Some (s\<lparr>framebuffer := fb\<rparr>)
      })"

definition disp_1bitbmp_bpp16 :: "disp_bitmap \<Rightarrow> u16 \<Rightarrow> u16 \<Rightarrow> disp_st \<Rightarrow> disp_st option" where
  "disp_1bitbmp_bpp16 bm startX startY s =
     (if bm_bpp bm \<noteq> 1 then None
      else do {
        let temp = bus16 s (disp_color s);
        let endX = min (W s) (unat startX + unat (bm_width bm));
        let endY = min (H s) (unat startY + unat (bm_height bm));
        fb \<leftarrow> for_range (unat startX) endX (\<lambda>x. for_range (unat startY) endY (\<lambda>y b. do {
          d \<leftarrow> bitmap_bit bm (x - unat startX) (y - unat startY);
          (if d then st16 b (y * W s + x) temp else Some b)
        })) (framebuffer s);
        Some (s\<lparr>framebuffer := fb\<rparr>)
      })"

section \<open>Text\<close>

text \<open>Draw one character; the result is the bitmap as it is left for the line layout.\<close>

definition put_char :: "u16 \<Rightarrow> u16 \<Rightarrow> u16 \<Rightarrow> disp_st \<Rightarrow> (disp_st \<times> disp_bitmap) option" where
  "put_char charcode x y s = do {
     bm \<leftarrow> getCharBitmap (fonts s) charcode;
     (if lcd_bpp s = 1
      then (if bm_width bm = 14 \<and> bm_height bm = 14
            then do {
              s \<leftarrow> disp_bitmap_bpp1 bm (x + 1) (y + 1) s;
              Some (s, bm\<lparr>bm_width := 16, bm_height := 16\<rparr>)
            }
            else do { s \<leftarrow> disp_bitmap_bpp1 bm x y s; Some (s, bm) })
      else do { s \<leftarrow> disp_1bitbmp_bpp16 bm x y s; Some (s, bm) })
   }"

text \<open>The code at \<^verbatim>\<open>next_line\<close>: the place of the next character.\<close>

definition next_line :: "disp_st \<Rightarrow> disp_bitmap \<Rightarrow> u16 \<Rightarrow> u16 \<Rightarrow> u16 \<times> u16" where
  "next_line s bm x y =
     (let xy = (if unat (lcd_width s) \<le> unat x + unat (bm_width bm)
                then (0, y + bm_height bm) else (x + bm_width bm, y))
      in (fst xy, if lcd_height s \<le> snd xy then 0 else snd xy))"

text \<open>
  The character at the front of the text, and the rest: a GB2312 pair, \<^verbatim>\<open>?\<close> for a lone
  lead byte, or an ASCII byte. The byte after the last is the NUL of the string.
\<close>

definition next_char :: "u8 \<Rightarrow> u8 list \<Rightarrow> u16 \<times> u8 list" where
  "next_char c cs =
     (if c AND 0x80 \<noteq> 0
      then (case cs of
          [] \<Rightarrow> (63, [])
        | d # ds \<Rightarrow> if d AND 0x80 \<noteq> 0 then (push_bit 8 (ucast c) OR ucast d, ds) else (63, cs))
      else (ucast c, cs))"

lemma next_char_length: "length (snd (next_char c cs)) \<le> length cs"
  by (auto simp: next_char_def split: list.split)

text \<open>
  The loop over the text. \<open>bitmap\<close> is the local variable, not initialised before the first
  character: a text that begins with a line end reads its width, and has no result.
\<close>

function puttext_loop ::
    "u8 list \<Rightarrow> u16 \<Rightarrow> u16 \<Rightarrow> disp_bitmap option \<Rightarrow> disp_st \<Rightarrow> disp_st option" where
  "puttext_loop [] x y bitmap s = Some s"
| "puttext_loop (c # cs) x y bitmap s =
     (if c = 13 \<or> c = 10 then do {
        bm \<leftarrow> bitmap;
        let xy = next_line s bm x y;
        puttext_loop cs (fst xy) (snd xy) bitmap s
      }
      else do {
        (s', bm) \<leftarrow> put_char (fst (next_char c cs)) x y s;
        let xy = next_line s' bm x y;
        puttext_loop (snd (next_char c cs)) (fst xy) (snd xy) (Some bm) s'
      })"
  by pat_completeness auto
termination
  by (relation "measure (\<lambda>(t, x, y, b, s). length t)") (auto simp: le_imp_less_Suc next_char_length)

definition platform_disp_puttext :: "u8 list \<Rightarrow> u16 \<Rightarrow> u16 \<Rightarrow> disp_st \<Rightarrow> disp_st option" where
  "platform_disp_puttext string x y s =
     puttext_loop string (if lcd_width s \<le> x then 0 else x) (if lcd_height s \<le> y then 0 else y) None s"

section \<open>Rectangles\<close>

text \<open>
  The corners are signed; \<^verbatim>\<open>MIN\<close> clips them on the right and below only. An index left of
  the buffer is negative and has no result.
\<close>

definition st16_int :: "u8 list \<Rightarrow> int \<Rightarrow> u16 \<Rightarrow> u8 list option" where
  "st16_int b i v = (if i < 0 then None else st16 b (nat i) v)"

text \<open>The loops \<^verbatim>\<open>for(i = lo; i <= hi; i++)\<close> over signed counters.\<close>

definition for_int :: "int \<Rightarrow> int \<Rightarrow> (int \<Rightarrow> 's \<Rightarrow> 's option) \<Rightarrow> 's \<Rightarrow> 's option" where
  "for_int lo hi body = for_range 0 (nat (hi + 1 - lo)) (\<lambda>k. body (lo + int k))"

definition platform_disp_drawrect ::
    "int \<Rightarrow> int \<Rightarrow> int \<Rightarrow> int \<Rightarrow> u32 \<Rightarrow> disp_st \<Rightarrow> (disp_st \<times> bool) option" where
  "platform_disp_drawrect x1 y1 x2 y2 color s =
     (let w = int (W s); h = int (H s);
          x1 = min x1 (w - 1); x2 = min x2 (w - 1); y1 = min y1 (h - 1); y2 = min y2 (h - 1)
      in
      if x1 \<ge> x2 \<or> y1 \<ge> y2 then Some (s, False)
      else if lcd_bpp s = 16 then
        (if color = -1 then do {
           let temp = bus16 s (disp_color s);
           let pixels = (y2 - y1) * w;
           fb \<leftarrow> for_int x1 x2 (\<lambda>i b. do {
             b \<leftarrow> st16_int b (y1 * w + i) temp;
             st16_int b (y1 * w + pixels + i) temp
           }) (framebuffer s);
           fb \<leftarrow> for_int y1 y2 (\<lambda>j b. do {
             b \<leftarrow> st16_int b (j * w + x1) temp;
             st16_int b (j * w + x2) temp
           }) fb;
           Some (s\<lparr>framebuffer := fb\<rparr>, True)
         }
         else do {
           fb \<leftarrow> for_int y1 y2 (\<lambda>j. for_int x1 x2 (\<lambda>i b.
             st16_int b (j * w + i) (ucast color))) (framebuffer s);
           Some (s\<lparr>framebuffer := fb\<rparr>, True)
         })
      else if lcd_bpp s = 1 then
        (if color = COLOR_BLACK \<or> color = COLOR_WHITE then do {
           let put = (if color XOR lcd_hwfillcolor s = 0 then fb_set (W s) else fb_clr (W s));
           fb \<leftarrow> for_range (unat (word_of_int x1 :: u16)) (nat x2) (\<lambda>x.
             for_range (unat (word_of_int y1 :: u16)) (nat y2) (put x)) (framebuffer s);
           Some (s\<lparr>framebuffer := fb\<rparr>, True)
         }
         else Some (s, True))
      else Some (s, False))"

section \<open>Drawing a bitmap\<close>

definition glyph_ink :: "disp_bitmap \<Rightarrow> nat \<Rightarrow> nat \<Rightarrow> bool" where
  "glyph_ink bm bx by = bit (bm_data bm ! ((unat (bm_width bm) + 7) div 8 * by + bx div 8)) (7 - bx mod 8)"

lemma and_msb_shift: "k < 8 \<Longrightarrow> (v AND drop_bit k 0x80 \<noteq> (0 :: u8)) = bit v (7 - k)"
proof -
  assume k: "k < 8"
  have e: "(0x80 :: u8) = 2 ^ 7" by simp
  have b0: "bit (0x80 :: u8) m = (m = 7)" for m unfolding e bit_exp_iff by auto
  have b: "bit (drop_bit k 0x80 :: u8) n = (n = 7 - k)" for n
    unfolding bit_drop_bit_eq comp_apply b0 using k by arith
  show ?thesis
  proof (cases "bit v (7 - k)")
    case True
    then have "bit (v AND drop_bit k 0x80) (7 - k)" by (simp add: bit_and_iff b)
    then show ?thesis using True by auto
  next
    case False
    then have "v AND drop_bit k 0x80 = 0" by (intro bit_word_eqI) (auto simp: bit_and_iff b)
    then show ?thesis using False by simp
  qed
qed

lemma bitmap_bit_in:
  assumes "bitmap_complete bm" and "bx < unat (bm_width bm)" and "by < unat (bm_height bm)"
  shows "bitmap_bit bm bx by = Some (glyph_ink bm bx by)"
proof -
  let ?bw = "(unat (bm_width bm) + 7) div 8"
  have "bx div 8 < ?bw" using assms(2) by linarith
  moreover have "?bw * (by + 1) \<le> ?bw * unat (bm_height bm)" using assms(3) by (intro mult_le_mono2) simp
  ultimately have "?bw * by + bx div 8 < ?bw * unat (bm_height bm)" by (simp add: algebra_simps)
  also have "\<dots> \<le> length (bm_data bm)" using assms(1) by (simp add: bitmap_complete_def)
  finally show ?thesis by (simp add: bitmap_bit_def ld_in glyph_ink_def and_msb_shift)
qed

text \<open>Pixel \<open>(i, j)\<close> is ink of the bitmap placed at \<open>(x, y)\<close>.\<close>

definition inked :: "disp_bitmap \<Rightarrow> u16 \<Rightarrow> u16 \<Rightarrow> nat \<Rightarrow> nat \<Rightarrow> bool" where
  "inked bm x y i j \<longleftrightarrow> unat x \<le> i \<and> i < unat x + unat (bm_width bm) \<and>
     unat y \<le> j \<and> j < unat y + unat (bm_height bm) \<and> glyph_ink bm (i - unat x) (j - unat y)"

lemma disp_bitmap_bpp1_correct:
  assumes ok: "mono_ok (W s) (H s) (framebuffer s)" and bm: "bitmap_complete bm" "bm_bpp bm = 1"
  shows "\<exists>fb. disp_bitmap_bpp1 bm x y s = Some (s\<lparr>framebuffer := fb\<rparr>) \<and> mono_ok (W s) (H s) fb \<and>
    painted (W s) (H s) (mono_px (W s))
      (\<lambda>i j v. if inked bm x y i j then disp_color s = lcd_hwfillcolor s else v) (framebuffer s) fb"
proof -
  let ?v = "disp_color s = lcd_hwfillcolor s"
  let ?ex = "min (W s) (unat x + unat (bm_width bm))" and ?ey = "min (H s) (unat y + unat (bm_height bm))"
  let ?body = "\<lambda>i j b. do {
      d \<leftarrow> bitmap_bit bm (i - unat x) (j - unat y);
      (if disp_color s XOR lcd_hwfillcolor s = 0
       then (if d then fb_set (W s) i j b else Some b)
       else (if d then fb_clr (W s) i j b else Some b)) }"
  have "\<exists>fb. for_range (unat x) ?ex (\<lambda>i. for_range (unat y) ?ey (?body i)) (framebuffer s) = Some fb \<and>
      mono_ok (W s) (H s) fb \<and>
      painted (W s) (H s) (mono_px (W s)) (\<lambda>i j v. if unat x \<le> i \<and> i < ?ex \<and> unat y \<le> j \<and> j < ?ey
        then (if glyph_ink bm (i - unat x) (j - unat y) then ?v else v) else v) (framebuffer s) fb"
  proof (rule mono.paint_law[OF ok])
    fix i j c assume ij: "unat x \<le> i" "i < ?ex" "unat y \<le> j" "j < ?ey" and c: "mono_ok (W s) (H s) c"
    let ?d = "glyph_ink bm (i - unat x) (j - unat y)"
    have "bitmap_bit bm (i - unat x) (j - unat y) = Some ?d"
      using ij by (intro bitmap_bit_in bm(1)) auto
    then have "?body i j c = (if ?d then fb_put (W s) i j ?v c else Some c)"
      by (auto simp: fb_put_def xor_eq_zero)
    with mono.put_or_skip[OF c, of i j ?d ?v] ij show "\<exists>c'. ?body i j c = Some c' \<and> mono_ok (W s) (H s) c' \<and>
        painted (W s) (H s) (mono_px (W s)) (\<lambda>k l u. if k = i \<and> l = j then (if ?d then ?v else u) else u) c c'"
      by simp
  qed simp_all
  then obtain fb where fb: "for_range (unat x) ?ex (\<lambda>i. for_range (unat y) ?ey (?body i)) (framebuffer s) = Some fb"
    "mono_ok (W s) (H s) fb" and
    p: "painted (W s) (H s) (mono_px (W s)) (\<lambda>i j v. if unat x \<le> i \<and> i < ?ex \<and> unat y \<le> j \<and> j < ?ey
        then (if glyph_ink bm (i - unat x) (j - unat y) then ?v else v) else v) (framebuffer s) fb" by blast
  have "painted (W s) (H s) (mono_px (W s)) (\<lambda>i j v. if inked bm x y i j then ?v else v) (framebuffer s) fb"
    by (rule painted_cong[OF p]) (auto simp: inked_def)
  moreover have "disp_bitmap_bpp1 bm x y s = Some (s\<lparr>framebuffer := fb\<rparr>)"
    using fb(1) bm(2) by (simp add: disp_bitmap_bpp1_def Let_def)
  ultimately show ?thesis using fb(2) by blast
qed

lemma disp_1bitbmp_bpp16_correct:
  assumes ok: "colour_ok (W s) (H s) (framebuffer s)" and bm: "bitmap_complete bm" "bm_bpp bm = 1"
  shows "\<exists>fb. disp_1bitbmp_bpp16 bm x y s = Some (s\<lparr>framebuffer := fb\<rparr>) \<and> colour_ok (W s) (H s) fb \<and>
    painted (W s) (H s) (colour_px (W s))
      (\<lambda>i j v. if inked bm x y i j then bus16 s (disp_color s) else v) (framebuffer s) fb"
proof -
  let ?v = "bus16 s (disp_color s)"
  let ?ex = "min (W s) (unat x + unat (bm_width bm))" and ?ey = "min (H s) (unat y + unat (bm_height bm))"
  let ?body = "\<lambda>i j b. do {
      d \<leftarrow> bitmap_bit bm (i - unat x) (j - unat y);
      (if d then st16 b (j * W s + i) ?v else Some b) }"
  have "\<exists>fb. for_range (unat x) ?ex (\<lambda>i. for_range (unat y) ?ey (?body i)) (framebuffer s) = Some fb \<and>
      colour_ok (W s) (H s) fb \<and>
      painted (W s) (H s) (colour_px (W s)) (\<lambda>i j v. if unat x \<le> i \<and> i < ?ex \<and> unat y \<le> j \<and> j < ?ey
        then (if glyph_ink bm (i - unat x) (j - unat y) then ?v else v) else v) (framebuffer s) fb"
  proof (rule colour.paint_law[OF ok])
    fix i j c assume ij: "unat x \<le> i" "i < ?ex" "unat y \<le> j" "j < ?ey" and c: "colour_ok (W s) (H s) c"
    let ?d = "glyph_ink bm (i - unat x) (j - unat y)"
    have "bitmap_bit bm (i - unat x) (j - unat y) = Some ?d"
      using ij by (intro bitmap_bit_in bm(1)) auto
    with colour.put_or_skip[OF c, of i j ?d ?v] ij show "\<exists>c'. ?body i j c = Some c' \<and> colour_ok (W s) (H s) c' \<and>
        painted (W s) (H s) (colour_px (W s)) (\<lambda>k l u. if k = i \<and> l = j then (if ?d then ?v else u) else u) c c'"
      by simp
  qed simp_all
  then obtain fb where fb: "for_range (unat x) ?ex (\<lambda>i. for_range (unat y) ?ey (?body i)) (framebuffer s) = Some fb"
    "colour_ok (W s) (H s) fb" and
    p: "painted (W s) (H s) (colour_px (W s)) (\<lambda>i j v. if unat x \<le> i \<and> i < ?ex \<and> unat y \<le> j \<and> j < ?ey
        then (if glyph_ink bm (i - unat x) (j - unat y) then ?v else v) else v) (framebuffer s) fb" by blast
  have "painted (W s) (H s) (colour_px (W s)) (\<lambda>i j v. if inked bm x y i j then ?v else v) (framebuffer s) fb"
    by (rule painted_cong[OF p]) (auto simp: inked_def)
  moreover have "disp_1bitbmp_bpp16 bm x y s = Some (s\<lparr>framebuffer := fb\<rparr>)"
    using fb(1) bm(2) by (simp add: disp_1bitbmp_bpp16_def Let_def)
  ultimately show ?thesis using fb(2) by blast
qed

section \<open>Text is safe\<close>

text \<open>The state after initialisation, on a panel of either kind.\<close>

definition disp_ok :: "disp_st \<Rightarrow> bool" where
  "disp_ok s \<longleftrightarrow> fonts_ok (fonts s) \<and>
     (if lcd_bpp s = 1 then mono_ok (W s) (H s) (framebuffer s)
      else colour_ok (W s) (H s) (framebuffer s))"

text \<open>What an operation that only draws leaves alone.\<close>

definition same_panel :: "disp_st \<Rightarrow> disp_st \<Rightarrow> bool" where
  "same_panel s t \<longleftrightarrow> (\<exists>fb. t = s\<lparr>framebuffer := fb\<rparr>)"

lemma same_panel_upd [simp]: "same_panel s (s\<lparr>framebuffer := fb\<rparr>)"
  by (auto simp: same_panel_def)

lemma same_panel_refl [simp]: "same_panel s s"
  using same_panel_upd[of s "framebuffer s"] by simp

lemma same_panel_fonts: "same_panel s t \<Longrightarrow> fonts t = fonts s"
  by (auto simp: same_panel_def)

lemma same_panel_trans: "same_panel s t \<Longrightarrow> same_panel t u \<Longrightarrow> same_panel s u"
  by (auto simp: same_panel_def)

lemma put_char_ok:
  assumes s: "disp_ok s" and c: "drawable (fonts s) ch"
  shows "\<exists>t bm. put_char ch x y s = Some (t, bm) \<and> disp_ok t \<and> same_panel s t"
proof -
  from s have "fonts_ok (fonts s)" by (simp add: disp_ok_def)
  from getCharBitmap_complete[OF this c] obtain bm where
    bm: "getCharBitmap (fonts s) ch = Some bm" "bitmap_complete bm" "bm_bpp bm = 1" by blast
  show ?thesis
  proof (cases "lcd_bpp s = 1")
    case True
    with s have ok: "mono_ok (W s) (H s) (framebuffer s)" by (simp add: disp_ok_def)
    from disp_bitmap_bpp1_correct[OF ok bm(2,3), of x y] disp_bitmap_bpp1_correct[OF ok bm(2,3), of "x + 1" "y + 1"]
    show ?thesis using s True bm(1) by (auto simp: put_char_def disp_ok_def)
  next
    case False
    with s have ok: "colour_ok (W s) (H s) (framebuffer s)" by (simp add: disp_ok_def)
    from disp_1bitbmp_bpp16_correct[OF ok bm(2,3), of x y]
    show ?thesis using s False bm(1) by (auto simp: put_char_def disp_ok_def)
  qed
qed

text \<open>The characters of a text, as the loop decodes them.\<close>

function text_chars :: "u8 list \<Rightarrow> u16 list" where
  "text_chars [] = []"
| "text_chars (c # cs) = (if c = 13 \<or> c = 10 then text_chars cs
     else fst (next_char c cs) # text_chars (snd (next_char c cs)))"
  by pat_completeness auto
termination
  by (relation "measure length") (auto simp: le_imp_less_Suc next_char_length)

lemma puttext_loop_ok:
  assumes "disp_ok s" and "\<forall>ch \<in> set (text_chars t). drawable (fonts s) ch"
    and "bitmap \<noteq> None \<or> t = [] \<or> hd t \<noteq> 13 \<and> hd t \<noteq> 10"
  shows "\<exists>u. puttext_loop t x y bitmap s = Some u \<and> disp_ok u \<and> same_panel s u"
  using assms
proof (induction t x y bitmap s rule: puttext_loop.induct)
  case (1 x y bitmap s)
  then show ?case by simp
next
  case (2 c cs x y bitmap s)
  show ?case
  proof (cases "c = 13 \<or> c = 10")
    case True
    with 2(5) obtain bm where bm: "bitmap = Some bm" by auto
    from True "2.prems"(2) have "\<forall>ch \<in> set (text_chars cs). drawable (fonts s) ch" by simp
    then obtain u where u: "puttext_loop cs (fst (next_line s bm x y)) (snd (next_line s bm x y)) bitmap s
        = Some u" "disp_ok u" "same_panel s u"
      using 2(1)[OF True bm refl 2(3)] bm by blast
    have "puttext_loop (c # cs) x y bitmap s = Some u"
      using True u(1) bm by (simp add: Let_def)
    with u(2,3) show ?thesis by blast
  next
    case False
    then have ch: "drawable (fonts s) (fst (next_char c cs))"
      and rest: "\<forall>ch \<in> set (text_chars (snd (next_char c cs))). drawable (fonts s) ch"
      using "2.prems"(2) by simp_all
    from put_char_ok[OF 2(3) ch, of x y] obtain t bm where
      t: "put_char (fst (next_char c cs)) x y s = Some (t, bm)" "disp_ok t" "same_panel s t" by blast
    have "\<forall>ch \<in> set (text_chars (snd (next_char c cs))). drawable (fonts t) ch"
      using rest same_panel_fonts[OF t(3)] by simp
    then obtain u where u: "puttext_loop (snd (next_char c cs)) (fst (next_line t bm x y))
        (snd (next_line t bm x y)) (Some bm) t = Some u" "disp_ok u" "same_panel t u"
      using 2(2)[OF False t(1) refl refl t(2)] by blast
    have "puttext_loop (c # cs) x y bitmap s = Some u"
      using False t(1) u(1) by (simp add: Let_def)
    with u(2) same_panel_trans[OF t(3) u(3)] show ?thesis by blast
  qed
qed

lemma platform_disp_puttext_ok:
  assumes "disp_ok s" and "\<forall>ch \<in> set (text_chars t). drawable (fonts s) ch"
    and "t = [] \<or> hd t \<noteq> 13 \<and> hd t \<noteq> 10"
  shows "\<exists>u. platform_disp_puttext t x y s = Some u \<and> disp_ok u \<and> same_panel s u"
  using puttext_loop_ok[OF assms(1,2), of None] assms(3) by (simp add: platform_disp_puttext_def)

section \<open>Clearing\<close>

lemma memset_mono:
  assumes "mono_ok w h b" and "v = 0 \<or> v = 0xFF"
  shows "\<exists>b'. memset_fb v (w * h div 8) b = Some b' \<and> mono_ok w h b' \<and>
    painted w h (mono_px w) (\<lambda>i j u. v = 0xFF) b b'"
proof -
  have len: "length b = w * h div 8" "8 dvd h" using assms(1) by (simp_all add: mono_ok_def)
  have "mono_px w (replicate (w * h div 8) v) i j = (v = 0xFF)" if "i < w" "j < h" for i j
  proof -
    have "bit (0xFF :: u8) k" if "k < 8" for k
    proof -
      have e: "(0xFF :: u8) = mask 8" by (simp add: mask_eq_decr_exp)
      show ?thesis unfolding e bit_mask_iff using that by simp
    qed
    then show ?thesis
      using assms(2) page_index_less[OF that len(2)] by (auto simp: mono_px_def)
  qed
  then show ?thesis using len by (auto simp: memset_fb_def painted_def mono_ok_def)
qed

lemma platform_disp_clear_mono:
  assumes "lcd_bpp s = 1" and "mono_ok (W s) (H s) (framebuffer s)"
  shows "\<exists>fb. platform_disp_clear s = Some (s\<lparr>framebuffer := fb\<rparr>) \<and> mono_ok (W s) (H s) fb \<and>
    painted (W s) (H s) (mono_px (W s)) (\<lambda>i j v. disp_bkcolor s = lcd_hwfillcolor s) (framebuffer s) fb"
  using memset_mono[OF assms(2), of 0] memset_mono[OF assms(2), of "0xFF"] assms(1)
  by (cases "disp_bkcolor s = lcd_hwfillcolor s") (auto simp: platform_disp_clear_def xor_eq_zero)

lemma platform_disp_clear_colour:
  assumes "lcd_bpp s \<noteq> 1" and ok: "colour_ok (W s) (H s) (framebuffer s)"
  shows "\<exists>fb. platform_disp_clear s = Some (s\<lparr>framebuffer := fb\<rparr>) \<and> colour_ok (W s) (H s) fb \<and>
    painted (W s) (H s) (colour_px (W s)) (\<lambda>i j v. ucast (disp_bkcolor s)) (framebuffer s) fb"
proof -
  have "\<exists>fb. for_range 0 (W s) (\<lambda>col. for_range 0 (H s) (\<lambda>row b.
        st16 b (row * W s + col) (ucast (disp_bkcolor s)))) (framebuffer s) = Some fb \<and>
      colour_ok (W s) (H s) fb \<and> painted (W s) (H s) (colour_px (W s))
        (\<lambda>i j v. if 0 \<le> i \<and> i < W s \<and> 0 \<le> j \<and> j < H s then ucast (disp_bkcolor s) else v) (framebuffer s) fb"
    by (rule colour.paint_law[OF ok]) (use colour.put_law in auto)
  then show ?thesis using assms(1) by (auto simp: platform_disp_clear_def painted_def)
qed

section \<open>Filled rectangles\<close>

lemma st16_int_index: "st16_int b (int j * uint w + int i) v = st16 b (j * unat w + i) v"
proof -
  have "int j * uint w + int i = int (j * unat w + i)" by simp
  then have "nat (int j * uint w + int i) = j * unat w + i" by (simp only: nat_int)
  moreover have "\<not> int j * uint w + int i < 0" by (simp add: not_less)
  ultimately show ?thesis by (simp add: st16_int_def)
qed

lemma clip_int: "x < unat w \<Longrightarrow> min (int x) (uint w - 1) = int x"
proof -
  assume "x < unat w"
  then have "int x < uint w" by (simp only: uint_nat of_nat_less_iff)
  then show ?thesis by simp
qed

lemma for_int_nat: "for_int (int a) (int b) body = for_range a (Suc b) (\<lambda>k. body (int k))"
proof -
  have shift: "for_range 0 n (\<lambda>k. f (a + k)) s = for_range a (a + n) f s" for n s and f :: "nat \<Rightarrow> 's \<Rightarrow> 's option"
    by (induction n) (simp_all add: for_range_snoc)
  have "nat (int b + 1 - int a) = Suc b - a" by simp
  then have "for_int (int a) (int b) body s = for_range 0 (Suc b - a) (\<lambda>k. body (int (a + k))) s" for s
    by (simp add: for_int_def)
  then show ?thesis
    using shift[of "Suc b - a" "\<lambda>k. body (int k)"] by (cases "a \<le> Suc b") (simp_all add: fun_eq_iff)
qed

lemma drawrect_fill_colour:
  assumes bpp: "lcd_bpp s = 16" and ok: "colour_ok (W s) (H s) (framebuffer s)" and c: "c \<noteq> -1"
    and r: "x1 < x2" "y1 < y2" "x2 < W s" "y2 < H s"
  shows "\<exists>fb. platform_disp_drawrect (int x1) (int y1) (int x2) (int y2) c s
      = Some (s\<lparr>framebuffer := fb\<rparr>, True) \<and> colour_ok (W s) (H s) fb \<and>
    painted (W s) (H s) (colour_px (W s))
      (\<lambda>i j v. if x1 \<le> i \<and> i \<le> x2 \<and> y1 \<le> j \<and> j \<le> y2 then ucast c else v) (framebuffer s) fb"
proof -
  have "\<exists>fb. for_range y1 (Suc y2) (\<lambda>j. for_range x1 (Suc x2) (\<lambda>i b. st16 b (j * W s + i) (ucast c)))
        (framebuffer s) = Some fb \<and> colour_ok (W s) (H s) fb \<and> painted (W s) (H s) (colour_px (W s))
        (\<lambda>i j v. if x1 \<le> i \<and> i < Suc x2 \<and> y1 \<le> j \<and> j < Suc y2 then ucast c else v) (framebuffer s) fb"
    by (rule colour.paint_rows_law[OF ok]) (use colour.put_law r in auto)
  moreover have "platform_disp_drawrect (int x1) (int y1) (int x2) (int y2) c s =
      for_range y1 (Suc y2) (\<lambda>j. for_range x1 (Suc x2) (\<lambda>i b. st16 b (j * W s + i) (ucast c)))
        (framebuffer s) \<bind> (\<lambda>fb. Some (s\<lparr>framebuffer := fb\<rparr>, True))"
    using r bpp c by (simp add: platform_disp_drawrect_def Let_def clip_int for_int_nat st16_int_index)
  ultimately show ?thesis by (auto simp: less_Suc_eq_le)
qed

lemma drawrect_fill_mono:
  assumes bpp: "lcd_bpp s = 1" and ok: "mono_ok (W s) (H s) (framebuffer s)"
    and c: "c = COLOR_BLACK \<or> c = COLOR_WHITE"
    and r: "x1 < x2" "y1 < y2" "x2 < W s" "y2 < H s"
  shows "\<exists>fb. platform_disp_drawrect (int x1) (int y1) (int x2) (int y2) c s
      = Some (s\<lparr>framebuffer := fb\<rparr>, True) \<and> mono_ok (W s) (H s) fb \<and>
    painted (W s) (H s) (mono_px (W s))
      (\<lambda>i j v. if x1 \<le> i \<and> i < x2 \<and> y1 \<le> j \<and> j < y2 then c = lcd_hwfillcolor s else v) (framebuffer s) fb"
proof -
  let ?put = "if c XOR lcd_hwfillcolor s = 0 then fb_set (W s) else fb_clr (W s)"
  have put: "?put x y b = fb_put (W s) x y (c = lcd_hwfillcolor s) b" for x y b
    by (simp add: fb_put_def xor_eq_zero)
  have u: "unat (word_of_int (int k) :: u16) = k" if "k < W s \<or> k < H s" for k
  proof -
    have "k < 65536" using that unsigned_less[of "lcd_width s", where 'a = nat]
        unsigned_less[of "lcd_height s", where 'a = nat] by auto
    then show ?thesis by (simp add: unsigned_of_nat take_bit_nat_eq_self)
  qed
  have "\<exists>fb. for_range x1 x2 (\<lambda>x. for_range y1 y2 (?put x)) (framebuffer s) = Some fb \<and>
      mono_ok (W s) (H s) fb \<and> painted (W s) (H s) (mono_px (W s))
        (\<lambda>i j v. if x1 \<le> i \<and> i < x2 \<and> y1 \<le> j \<and> j < y2 then c = lcd_hwfillcolor s else v) (framebuffer s) fb"
  proof (rule mono.paint_law[OF ok])
    fix x y b assume "x1 \<le> x" "x < x2" "y1 \<le> y" "y < y2" and b: "mono_ok (W s) (H s) b"
    then have "x < W s" "y < H s" using r by simp_all
    from mono.put_law[OF b this] show "\<exists>c'. ?put x y b = Some c' \<and> mono_ok (W s) (H s) c' \<and>
        painted (W s) (H s) (mono_px (W s)) (\<lambda>i j u. if i = x \<and> j = y then c = lcd_hwfillcolor s else u) b c'"
      unfolding put .
  qed (use r in simp_all)
  moreover have "platform_disp_drawrect (int x1) (int y1) (int x2) (int y2) c s =
      for_range x1 x2 (\<lambda>x. for_range y1 y2 (?put x)) (framebuffer s) \<bind>
        (\<lambda>fb. Some (s\<lparr>framebuffer := fb\<rparr>, True))"
    using r bpp c u[of x1] u[of y1]
    by (simp add: platform_disp_drawrect_def Let_def clip_int)
  ultimately show ?thesis by (rule bind_SomeI)
qed

text \<open>The frame of a rectangle, drawn in the foreground colour.\<close>

lemma drawrect_frame_colour:
  assumes bpp: "lcd_bpp s = 16" and ok: "colour_ok (W s) (H s) (framebuffer s)"
    and r: "x1 < x2" "y1 < y2" "x2 < W s" "y2 < H s"
  shows "\<exists>fb. platform_disp_drawrect (int x1) (int y1) (int x2) (int y2) (-1) s
      = Some (s\<lparr>framebuffer := fb\<rparr>, True) \<and> colour_ok (W s) (H s) fb \<and>
    painted (W s) (H s) (colour_px (W s))
      (\<lambda>i j v. if x1 \<le> i \<and> i \<le> x2 \<and> (j = y1 \<or> j = y2) \<or> y1 \<le> j \<and> j \<le> y2 \<and> (i = x1 \<or> i = x2)
               then bus16 s (disp_color s) else v) (framebuffer s) fb"
proof -
  let ?v = "bus16 s (disp_color s)"
  let ?rows = "for_range x1 (Suc x2) (\<lambda>i b. st16 b (y1 * W s + i) ?v \<bind> (\<lambda>b. st16 b (y2 * W s + i) ?v))"
  let ?cols = "for_range y1 (Suc y2) (\<lambda>j b. st16 b (j * W s + x1) ?v \<bind> (\<lambda>b. st16 b (j * W s + x2) ?v))"
  from colour.two_rows_law[OF ok, of "Suc x2" y1 y2 x1 ?v] r obtain b1 where
    b1: "?rows (framebuffer s) = Some b1" "colour_ok (W s) (H s) b1"
      "painted (W s) (H s) (colour_px (W s))
         (\<lambda>i j u. if x1 \<le> i \<and> i < Suc x2 \<and> (j = y1 \<or> j = y2) then ?v else u) (framebuffer s) b1"
    by auto
  from colour.two_columns_law[OF b1(2), of "Suc y2" x1 x2 y1 ?v] r obtain b2 where
    b2: "?cols b1 = Some b2" "colour_ok (W s) (H s) b2"
      "painted (W s) (H s) (colour_px (W s))
         (\<lambda>i j u. if y1 \<le> j \<and> j < Suc y2 \<and> (i = x1 \<or> i = x2) then ?v else u) b1 b2"
    by auto
  have low: "int y1 * uint (lcd_width s) + (int y2 - int y1) * uint (lcd_width s) + int i
      = int y2 * uint (lcd_width s) + int i" for i by (simp add: algebra_simps)
  have "platform_disp_drawrect (int x1) (int y1) (int x2) (int y2) (-1) s =
      ?rows (framebuffer s) \<bind> ?cols \<bind> (\<lambda>fb. Some (s\<lparr>framebuffer := fb\<rparr>, True))"
    using r bpp by (simp add: platform_disp_drawrect_def Let_def clip_int for_int_nat st16_int_index low)
  then have run: "platform_disp_drawrect (int x1) (int y1) (int x2) (int y2) (-1) s =
      Some (s\<lparr>framebuffer := b2\<rparr>, True)"
    by (simp add: b1(1) b2(1))
  have "painted (W s) (H s) (colour_px (W s))
      (\<lambda>i j v. if x1 \<le> i \<and> i \<le> x2 \<and> (j = y1 \<or> j = y2) \<or> y1 \<le> j \<and> j \<le> y2 \<and> (i = x1 \<or> i = x2)
               then ?v else v) (framebuffer s) b2"
    by (rule painted_cong[OF painted_trans[OF b1(3) b2(3)]]) auto
  with run b2(2) show ?thesis by blast
qed

section \<open>QR codes\<close>

text \<open>
  \<open>data\<close> holds one byte per module. \<^verbatim>\<open>MIN(x_width, y_width)\<close> is an \<^verbatim>\<open>int\<close> and
  may be negative; \<^verbatim>\<open>disp_w\<close>, \<^verbatim>\<open>end_x\<close> and \<^verbatim>\<open>end_y\<close> are \<^verbatim>\<open>u16\<close>. Each
  turn of the inner loop adds 1 to \<^verbatim>\<open>write_len\<close>, the second part of the loop's state.
\<close>

definition qr_module :: "u8 list \<Rightarrow> u16 \<Rightarrow> nat \<Rightarrow> nat \<Rightarrow> nat \<Rightarrow> u32 option" where
  "qr_module data w scale bx by = do {
     d \<leftarrow> ld data (bx div scale + by div scale * unat w);
     Some (if d AND 1 \<noteq> 0 then COLOR_BLACK else COLOR_WHITE)
   }"

definition platform_disp_qrcode ::
    "u8 list \<Rightarrow> u16 \<Rightarrow> u16 \<Rightarrow> u16 \<Rightarrow> u16 \<Rightarrow> disp_st \<Rightarrow> (disp_st \<times> u32) option" where
  "platform_disp_qrcode data w disp_w start_x start_y s =
     (if disp_w < w \<or> lcd_width s \<le> start_x \<or> lcd_width s \<le> start_y then Some (s, 0)
      else
        (let x_width = min (int (W s) - int (unat start_x)) (int (H s) - int (unat start_y));
             disp_w = (word_of_int (min (int (unat disp_w)) x_width) :: u16)
         in
         if disp_w < w then Some (s, 0)
         else if w = 0 then None
         else
           (let scale = unat disp_w div unat w;
                disp_w = (of_nat (unat w * scale) :: u16);
                end_x = disp_w + start_x; end_y = disp_w + start_y
            in
            if lcd_bpp s = 1 then do {
              (fb, n) \<leftarrow> for_range (unat start_x) (unat end_x) (\<lambda>i.
                 for_range (unat start_y) (unat end_y) (\<lambda>j (b, n). do {
                   color \<leftarrow> qr_module data w scale (i - unat start_x) (j - unat start_y);
                   b \<leftarrow> (if color XOR lcd_hwfillcolor s = 0 then fb_set (W s) i j b else fb_clr (W s) i j b);
                   Some (b, n + 1)
                 })) (framebuffer s, 0);
              Some (s\<lparr>framebuffer := fb\<rparr>, n)
            }
            else if lcd_bpp s = 16 then do {
              (fb, n) \<leftarrow> for_range (unat start_x) (unat end_x) (\<lambda>i.
                 for_range (unat start_y) (unat end_y) (\<lambda>j (b, n). do {
                   color \<leftarrow> qr_module data w scale (i - unat start_x) (j - unat start_y);
                   b \<leftarrow> st16 b (i + j * W s) (ucast color);
                   Some (b, n + 1)
                 })) (framebuffer s, 0);
              Some (s\<lparr>framebuffer := fb\<rparr>, n)
            }
            else Some (s, 0))))"

text \<open>The loops count their turns beside the buffer; the picture is the buffer's.\<close>

interpretation mono_n: raster w h "\<lambda>p :: u8 list \<times> u32. mono_ok w h (fst p)" "\<lambda>p. mono_px w (fst p)"
  "\<lambda>x y v p. fb_put w x y v (fst p) \<bind> (\<lambda>b. Some (b, snd p + 1))"
proof unfold_locales
  fix p :: "u8 list \<times> u32" and x y v assume "mono_ok w h (fst p)" "x < w" "y < h"
  from mono.put_law[OF this, of v] obtain b where
    "fb_put w x y v (fst p) = Some b" "mono_ok w h b"
    "painted w h (mono_px w) (\<lambda>i j u. if i = x \<and> j = y then v else u) (fst p) b" by blast
  then show "\<exists>q. fb_put w x y v (fst p) \<bind> (\<lambda>b. Some (b, snd p + 1)) = Some q \<and> mono_ok w h (fst q) \<and>
      painted w h (\<lambda>p. mono_px w (fst p)) (\<lambda>i j u. if i = x \<and> j = y then v else u) p q"
    by (auto simp: painted_def)
qed

interpretation colour_n: raster w h "\<lambda>p :: u8 list \<times> u32. colour_ok w h (fst p)" "\<lambda>p. colour_px w (fst p)"
  "\<lambda>x y v p. st16 (fst p) (y * w + x) v \<bind> (\<lambda>b. Some (b, snd p + 1))"
proof unfold_locales
  fix p :: "u8 list \<times> u32" and x y v assume "colour_ok w h (fst p)" "x < w" "y < h"
  from colour.put_law[OF this, of v] obtain b where
    "st16 (fst p) (y * w + x) v = Some b" "colour_ok w h b"
    "painted w h (colour_px w) (\<lambda>i j u. if i = x \<and> j = y then v else u) (fst p) b" by blast
  then show "\<exists>q. st16 (fst p) (y * w + x) v \<bind> (\<lambda>b. Some (b, snd p + 1)) = Some q \<and> colour_ok w h (fst q) \<and>
      painted w h (\<lambda>p. colour_px w (fst p)) (\<lambda>i j u. if i = x \<and> j = y then v else u) p q"
    by (auto simp: painted_def)
qed

definition qr_black :: "u8 list \<Rightarrow> u16 \<Rightarrow> nat \<Rightarrow> nat \<Rightarrow> nat \<Rightarrow> bool" where
  "qr_black data w scale bx by \<longleftrightarrow> data ! (bx div scale + by div scale * unat w) AND 1 \<noteq> 0"

lemma qr_module_in:
  assumes "unat w * unat w \<le> length data" and "bx < unat w * k" and "by < unat w * k"
  shows "qr_module data w k bx by = Some (if qr_black data w k bx by then COLOR_BLACK else COLOR_WHITE)"
proof -
  have "bx div k < unat w" "by div k < unat w" using assms(2,3) by (simp_all add: less_mult_imp_div_less)
  from pixel_index_less[OF this] assms(1) have "bx div k + by div k * unat w < length data" by simp
  then show ?thesis by (simp add: qr_module_def ld_in qr_black_def)
qed

text \<open>The clipped width, and the end of the code, without wrap-around.\<close>

definition qr_scale :: "disp_st \<Rightarrow> u16 \<Rightarrow> u16 \<Rightarrow> u16 \<Rightarrow> u16 \<Rightarrow> nat" where
  "qr_scale s w disp_w sx sy = min (unat disp_w) (min (W s - unat sx) (H s - unat sy)) div unat w"

lemma unat_word_of_int_16: "0 \<le> n \<Longrightarrow> n < 65536 \<Longrightarrow> unat (word_of_int n :: u16) = nat n"
  by (simp add: unat_eq_nat_uint uint_word_of_int_eq take_bit_int_eq_self)

lemma unat_less_16: "unat (x :: u16) < 65536"
  using unsigned_less[of x, where 'a = nat] by simp

lemma qr_clip:
  fixes disp_w :: u16
  assumes "unat sx < W s" and "unat sy < H s"
  shows "unat (word_of_int (min (int (unat disp_w)) (min (int (W s) - int (unat sx)) (int (H s) - int (unat sy)))) :: u16)
    = min (unat disp_w) (min (W s - unat sx) (H s - unat sy))"
  using assms unat_less_16[of "disp_w"]
  by (subst unat_word_of_int_16) (auto simp: min_def simp del: of_nat_unat)

lemma unat_add_of_nat_16: "unat z + n < 65536 \<Longrightarrow> unat (of_nat n + z :: u16) = unat z + n"
proof -
  assume lt: "unat z + n < 65536"
  have "of_nat n + z = (of_nat (unat z + n) :: u16)" by simp
  moreover have "unat (of_nat (unat z + n) :: u16) = take_bit 16 (unat z + n)"
    by (simp only: unsigned_of_nat) simp
  moreover have "take_bit 16 (unat z + n) = unat z + n" by (rule take_bit_nat_eq_self) (use lt in simp)
  ultimately show ?thesis by metis
qed

lemma qr_ends:
  assumes "unat sx < W s" and "unat sy < H s" and "k = qr_scale s w disp_w sx sy"
  shows "unat (of_nat (unat w * k) + sx :: u16) = unat sx + unat w * k"
    and "unat (of_nat (unat w * k) + sy :: u16) = unat sy + unat w * k"
    and "unat sx + unat w * k \<le> W s" and "unat sy + unat w * k \<le> H s"
proof -
  let ?m = "min (unat disp_w) (min (W s - unat sx) (H s - unat sy))"
  have "unat w * k \<le> ?m" unfolding assms(3) qr_scale_def by (rule times_div_less_eq_dividend)
  then have "unat w * k \<le> W s - unat sx" "unat w * k \<le> H s - unat sy" by simp_all
  with assms(1,2) show *: "unat sx + unat w * k \<le> W s" "unat sy + unat w * k \<le> H s"
    by simp_all
  note add = unat_add_of_nat_16
  show "unat (of_nat (unat w * k) + sx :: u16) = unat sx + unat w * k"
    by (rule add) (rule le_less_trans[OF *(1) unat_less_16])
  show "unat (of_nat (unat w * k) + sy :: u16) = unat sy + unat w * k"
    by (rule add) (rule le_less_trans[OF *(2) unat_less_16])
qed

definition qr_fits :: "u8 list \<Rightarrow> u16 \<Rightarrow> u16 \<Rightarrow> u16 \<Rightarrow> u16 \<Rightarrow> disp_st \<Rightarrow> bool" where
  "qr_fits data w disp_w sx sy s \<longleftrightarrow> 0 < unat w \<and> unat w * unat w \<le> length data \<and> w \<le> disp_w \<and>
     unat sx < W s \<and> unat sy < H s \<and> unat sy < W s \<and> 0 < qr_scale s w disp_w sx sy"

lemma qr_unfold:
  assumes f: "qr_fits data w disp_w sx sy s" and k: "k = qr_scale s w disp_w sx sy"
  shows "platform_disp_qrcode data w disp_w sx sy s =
    (if lcd_bpp s = 1 then do {
       (fb, n) \<leftarrow> for_range (unat sx) (unat sx + unat w * k) (\<lambda>i.
          for_range (unat sy) (unat sy + unat w * k) (\<lambda>j (b, n). do {
            color \<leftarrow> qr_module data w k (i - unat sx) (j - unat sy);
            b \<leftarrow> (if color XOR lcd_hwfillcolor s = 0 then fb_set (W s) i j b else fb_clr (W s) i j b);
            Some (b, n + 1)
          })) (framebuffer s, 0);
       Some (s\<lparr>framebuffer := fb\<rparr>, n)
     }
     else if lcd_bpp s = 16 then do {
       (fb, n) \<leftarrow> for_range (unat sx) (unat sx + unat w * k) (\<lambda>i.
          for_range (unat sy) (unat sy + unat w * k) (\<lambda>j (b, n). do {
            color \<leftarrow> qr_module data w k (i - unat sx) (j - unat sy);
            b \<leftarrow> st16 b (i + j * W s) (ucast color);
            Some (b, n + 1)
          })) (framebuffer s, 0);
       Some (s\<lparr>framebuffer := fb\<rparr>, n)
     }
     else Some (s, 0))"
proof -
  have f': "0 < unat w" "unat sx < W s" "unat sy < H s" "0 < k"
    using f k by (simp_all add: qr_fits_def)
  define dw where
    "dw = (word_of_int (min (int (unat disp_w)) (min (int (W s) - int (unat sx)) (int (H s) - int (unat sy)))) :: u16)"
  have dw: "unat dw = min (unat disp_w) (min (W s - unat sx) (H s - unat sy))"
    unfolding dw_def by (rule qr_clip[OF f'(2,3)])
  then have sc: "unat dw div unat w = k" by (simp only: k qr_scale_def)
  with f'(4) have "\<not> unat dw < unat w" by (metis div_less less_irrefl)
  then have c2: "\<not> dw < w" by (simp add: word_less_nat_alt)
  have c1: "\<not> (disp_w < w \<or> lcd_width s \<le> sx \<or> lcd_width s \<le> sy)"
    using f by (auto simp: qr_fits_def word_le_nat_alt word_less_nat_alt)
  have c3: "w \<noteq> 0" using f'(1) by auto
  show ?thesis
    unfolding platform_disp_qrcode_def Let_def dw_def[symmetric] sc qr_ends(1,2)[OF f'(2,3) k]
    using c1 c2 c3 by (simp only: if_False)
qed

lemma qr_count:
  fixes body :: "nat \<Rightarrow> nat \<Rightarrow> 'b \<times> u32 \<Rightarrow> ('b \<times> u32) option"
  assumes "\<And>i j p q. body i j p = Some q \<Longrightarrow> snd q = snd p + 1"
    and "for_range a (a + m) (\<lambda>i. for_range b (b + m) (body i)) p = Some q"
  shows "snd q = snd p + of_nat (m * m)"
proof -
  have "snd q = snd p + of_nat m" if "for_range b (b + m) (body i) p = Some q" for i p q
    using for_range_count[OF assms(1) that] by simp
  from for_range_count[OF this assms(2)] show ?thesis by simp
qed

text \<open>The picture of the code: module \<open>(bx, by)\<close> is a square of \<open>k\<close> by \<open>k\<close> pixels.\<close>

definition in_square :: "u16 \<Rightarrow> u16 \<Rightarrow> nat \<Rightarrow> nat \<Rightarrow> nat \<Rightarrow> bool" where
  "in_square sx sy m i j \<longleftrightarrow> unat sx \<le> i \<and> i < unat sx + m \<and> unat sy \<le> j \<and> j < unat sy + m"

lemma qrcode_mono:
  assumes bpp: "lcd_bpp s = 1" and ok: "mono_ok (W s) (H s) (framebuffer s)"
    and f: "qr_fits data w disp_w sx sy s" and k: "k = qr_scale s w disp_w sx sy"
  shows "\<exists>fb. platform_disp_qrcode data w disp_w sx sy s =
      Some (s\<lparr>framebuffer := fb\<rparr>, of_nat (unat w * k * (unat w * k))) \<and> mono_ok (W s) (H s) fb \<and>
    painted (W s) (H s) (mono_px (W s))
      (\<lambda>i j v. if in_square sx sy (unat w * k) i j
               then (lcd_hwfillcolor s = (if qr_black data w k (i - unat sx) (j - unat sy)
                                          then COLOR_BLACK else COLOR_WHITE))
               else v) (framebuffer s) fb"
proof -
  let ?m = "unat w * k"
  let ?body = "\<lambda>i j (b, n). do {
      color \<leftarrow> qr_module data w k (i - unat sx) (j - unat sy);
      b \<leftarrow> (if color XOR lcd_hwfillcolor s = 0 then fb_set (W s) i j b else fb_clr (W s) i j b);
      Some (b, n + (1 :: u32)) }"
  let ?v = "\<lambda>i j. lcd_hwfillcolor s = (if qr_black data w k (i - unat sx) (j - unat sy)
      then COLOR_BLACK else COLOR_WHITE)"
  have f': "unat w * unat w \<le> length data" "unat sx < W s" "unat sy < H s"
    using f by (simp_all add: qr_fits_def)
  note ends = qr_ends(3,4)[OF f'(2,3) k]
  have "\<exists>q. for_range (unat sx) (unat sx + ?m) (\<lambda>i. for_range (unat sy) (unat sy + ?m) (?body i))
        (framebuffer s, 0) = Some q \<and> mono_ok (W s) (H s) (fst q) \<and>
      painted (W s) (H s) (\<lambda>p. mono_px (W s) (fst p))
        (\<lambda>i j v. if unat sx \<le> i \<and> i < unat sx + ?m \<and> unat sy \<le> j \<and> j < unat sy + ?m then ?v i j else v)
        (framebuffer s, 0) q"
  proof (rule mono_n.paint_law)
    fix i j and p :: "u8 list \<times> u32"
    assume ij: "unat sx \<le> i" "i < unat sx + ?m" "unat sy \<le> j" "j < unat sy + ?m"
      and p: "mono_ok (W s) (H s) (fst p)"
    have "qr_module data w k (i - unat sx) (j - unat sy) =
        Some (if qr_black data w k (i - unat sx) (j - unat sy) then COLOR_BLACK else COLOR_WHITE)"
      by (rule qr_module_in[OF f'(1)]) (use ij in simp_all)
    then have "?body i j p = fb_put (W s) i j (?v i j) (fst p) \<bind> (\<lambda>b. Some (b, snd p + 1))"
      by (cases p) (auto simp: fb_put_def xor_eq_zero)
    then show "\<exists>q. ?body i j p = Some q \<and> mono_ok (W s) (H s) (fst q) \<and>
        painted (W s) (H s) (\<lambda>p. mono_px (W s) (fst p))
          (\<lambda>k l u. if k = i \<and> l = j then ?v i j else u) p q"
      using mono_n.put_law[OF p, of i j "?v i j"] ij ends by simp
  qed (use ok ends in simp_all)
  then obtain fb n where q: "for_range (unat sx) (unat sx + ?m) (\<lambda>i. for_range (unat sy) (unat sy + ?m) (?body i))
      (framebuffer s, 0) = Some (fb, n)" "mono_ok (W s) (H s) fb"
    "painted (W s) (H s) (mono_px (W s))
        (\<lambda>i j v. if in_square sx sy ?m i j then ?v i j else v) (framebuffer s) fb"
    by (auto simp: painted_def in_square_def)
  have step: "snd q = snd p + 1" if "?body i j p = Some q" for i j p q
    using that by (cases p) (auto split: bind_splits)
  have n: "n = of_nat (?m * ?m)" using qr_count[where body = ?body, OF step q(1)] by simp
  have "platform_disp_qrcode data w disp_w sx sy s = Some (s\<lparr>framebuffer := fb\<rparr>, n)"
    unfolding qr_unfold[OF f k] q(1) by (simp add: bpp)
  with q(2,3) show ?thesis unfolding n by blast
qed

lemma qrcode_colour:
  assumes bpp: "lcd_bpp s = 16" and ok: "colour_ok (W s) (H s) (framebuffer s)"
    and f: "qr_fits data w disp_w sx sy s" and k: "k = qr_scale s w disp_w sx sy"
  shows "\<exists>fb. platform_disp_qrcode data w disp_w sx sy s =
      Some (s\<lparr>framebuffer := fb\<rparr>, of_nat (unat w * k * (unat w * k))) \<and> colour_ok (W s) (H s) fb \<and>
    painted (W s) (H s) (colour_px (W s))
      (\<lambda>i j v. if in_square sx sy (unat w * k) i j
               then ucast (if qr_black data w k (i - unat sx) (j - unat sy) then COLOR_BLACK else COLOR_WHITE)
               else v) (framebuffer s) fb"
proof -
  let ?m = "unat w * k"
  let ?body = "\<lambda>i j (b, n). do {
      color \<leftarrow> qr_module data w k (i - unat sx) (j - unat sy);
      b \<leftarrow> st16 b (i + j * W s) (ucast color);
      Some (b, n + (1 :: u32)) }"
  let ?v = "\<lambda>i j. (ucast (if qr_black data w k (i - unat sx) (j - unat sy) then COLOR_BLACK else COLOR_WHITE) :: u16)"
  have f': "unat w * unat w \<le> length data" "unat sx < W s" "unat sy < H s"
    using f by (simp_all add: qr_fits_def)
  note ends = qr_ends(3,4)[OF f'(2,3) k]
  have "\<exists>q. for_range (unat sx) (unat sx + ?m) (\<lambda>i. for_range (unat sy) (unat sy + ?m) (?body i))
        (framebuffer s, 0) = Some q \<and> colour_ok (W s) (H s) (fst q) \<and>
      painted (W s) (H s) (\<lambda>p. colour_px (W s) (fst p))
        (\<lambda>i j v. if unat sx \<le> i \<and> i < unat sx + ?m \<and> unat sy \<le> j \<and> j < unat sy + ?m then ?v i j else v)
        (framebuffer s, 0) q"
  proof (rule colour_n.paint_law)
    fix i j and p :: "u8 list \<times> u32"
    assume ij: "unat sx \<le> i" "i < unat sx + ?m" "unat sy \<le> j" "j < unat sy + ?m"
      and p: "colour_ok (W s) (H s) (fst p)"
    have "qr_module data w k (i - unat sx) (j - unat sy) =
        Some (if qr_black data w k (i - unat sx) (j - unat sy) then COLOR_BLACK else COLOR_WHITE)"
      by (rule qr_module_in[OF f'(1)]) (use ij in simp_all)
    then have "?body i j p = st16 (fst p) (j * W s + i) (?v i j) \<bind> (\<lambda>b. Some (b, snd p + 1))"
      by (cases p) (simp add: add.commute)
    then show "\<exists>q. ?body i j p = Some q \<and> colour_ok (W s) (H s) (fst q) \<and>
        painted (W s) (H s) (\<lambda>p. colour_px (W s) (fst p))
          (\<lambda>k l u. if k = i \<and> l = j then ?v i j else u) p q"
      using colour_n.put_law[OF p, of i j "?v i j"] ij ends by simp
  qed (use ok ends in simp_all)
  then obtain fb n where q: "for_range (unat sx) (unat sx + ?m) (\<lambda>i. for_range (unat sy) (unat sy + ?m) (?body i))
      (framebuffer s, 0) = Some (fb, n)" "colour_ok (W s) (H s) fb"
    "painted (W s) (H s) (colour_px (W s))
        (\<lambda>i j v. if in_square sx sy ?m i j then ?v i j else v) (framebuffer s) fb"
    by (auto simp: painted_def in_square_def)
  have step: "snd q = snd p + 1" if "?body i j p = Some q" for i j p q
    using that by (cases p) (auto split: bind_splits)
  have n: "n = of_nat (?m * ?m)" using qr_count[where body = ?body, OF step q(1)] by simp
  have "platform_disp_qrcode data w disp_w sx sy s = Some (s\<lparr>framebuffer := fb\<rparr>, n)"
    unfolding qr_unfold[OF f k] q(1) by (simp add: bpp)
  with q(2,3) show ?thesis unfolding n by blast
qed

section \<open>Initialisation\<close>

lemma platform_disp_init_ok:
  assumes bpp: "bpp = 16 \<or> bpp = 24 \<or> bpp = (1 :: u8)" and h: "bpp = 1 \<longrightarrow> 8 dvd unat height"
    and block: "unat width * unat height * unat bpp div 8 \<le> length block" and r: "rom_ok (rom (fonts s))"
    and f: "\<not> font_inited (fonts s)" "curr_font_id (fonts s) = 0"
  shows "\<exists>t. platform_disp_init bus width height bpp hw block s = Some t \<and> disp_ok t \<and>
    lcd_width t = width \<and> lcd_height t = height \<and> lcd_bpp t = bpp \<and> lcd_bus t = bus"
proof -
  have "fontInit (fonts s) = fontInit (init_fonts (rom (fonts s)))"
    using f by (simp add: fontInit_def init_fonts_def)
  then have fo: "fonts_ok (fontInit (fonts s))" using fontInit_ok[OF r] by simp
  have len: "length (take (unat width * unat height * unat bpp div 8) block) = unat width * unat height * unat bpp div 8"
    using block by simp
  have col: "2 * (a * b) \<le> a * b * 16 div 8" "2 * (a * b) \<le> a * b * 24 div 8" for a b :: nat
    by simp_all
  show ?thesis
    using bpp h fo len
    by (elim disjE) (auto simp: platform_disp_init_def Let_def disp_ok_def mono_ok_def colour_ok_def)
qed

section \<open>Properties\<close>

text \<open>
  After initialisation with a colour depth the driver supports, the frame buffer has the
  size the drawing operations rely on and the font table is well formed. On a monochrome
  panel this needs a height that is a multiple of 8.
\<close>

theorem disp_init_establishes_invariant:
  assumes "bpp = 16 \<or> bpp = 24 \<or> bpp = (1 :: u8)" and "bpp = 1 \<longrightarrow> 8 dvd unat height"
    and "unat width * unat height * unat bpp div 8 \<le> length block" and "rom_ok (rom (fonts s))"
    and "\<not> font_inited (fonts s)" and "curr_font_id (fonts s) = 0"
  shows "\<exists>t. platform_disp_init bus width height bpp hw block s = Some t \<and> disp_ok t \<and>
    lcd_width t = width \<and> lcd_height t = height \<and> lcd_bpp t = bpp \<and> lcd_bus t = bus"
  using assms by (rule platform_disp_init_ok)

definition blank_disp :: disp_st where
  "blank_disp = \<lparr>lcd_bus = PLATFORM_LCD_BUS_SPI4LINE, lcd_width = 0, lcd_height = 0, lcd_bpp = 0,
     disp_bkcolor = COLOR_WHITE, disp_color = COLOR_BLACK, lcd_hwfillcolor = COLOR_BLACK,
     framebuffer = [], fonts = init_fonts sample_rom\<rparr>"

definition mono_disp :: disp_st where
  "mono_disp = blank_disp\<lparr>lcd_width := 16, lcd_height := 16, lcd_bpp := 1, framebuffer := replicate 32 0,
     fonts := fontInit (init_fonts sample_rom)\<rparr>"

definition colour_disp :: disp_st where
  "colour_disp = blank_disp\<lparr>lcd_width := 4, lcd_height := 4, lcd_bpp := 16, framebuffer := replicate 32 0,
     fonts := fontInit (init_fonts sample_rom)\<rparr>"

lemma sample_disp_ok: "disp_ok mono_disp" "disp_ok colour_disp"
  by (simp_all add: disp_ok_def mono_disp_def colour_disp_def sample_fonts_ok mono_ok_def colour_ok_def)

theorem disp_init_establishes_invariant_witness:
  "\<exists>t. platform_disp_init PLATFORM_LCD_BUS_SPI 16 16 1 (-1) (replicate 32 7) blank_disp = Some t \<and> disp_ok t"
  using disp_init_establishes_invariant[of 1 16 16 "replicate 32 7" blank_disp PLATFORM_LCD_BUS_SPI "-1"]
  by (auto simp: blank_disp_def init_fonts_def rom_ok_def sample_rom_def)

text \<open>
  C16. A bitmap is drawn exactly: on a monochrome panel its ink becomes the foreground colour
  (a set bit if that is the panel's fill colour, a clear bit otherwise), on a colour panel the
  foreground colour in the byte order of the bus; pixels without ink, outside the bitmap or
  outside the screen keep their colour.
\<close>

theorem bitmap_drawn_exactly:
  assumes "disp_ok s" and "bitmap_complete bm" and "bm_bpp bm = 1"
  shows "(lcd_bpp s = 1 \<longrightarrow> (\<exists>fb. disp_bitmap_bpp1 bm x y s = Some (s\<lparr>framebuffer := fb\<rparr>) \<and>
      painted (W s) (H s) (mono_px (W s))
        (\<lambda>i j v. if inked bm x y i j then disp_color s = lcd_hwfillcolor s else v) (framebuffer s) fb)) \<and>
    (lcd_bpp s \<noteq> 1 \<longrightarrow> (\<exists>fb. disp_1bitbmp_bpp16 bm x y s = Some (s\<lparr>framebuffer := fb\<rparr>) \<and>
      painted (W s) (H s) (colour_px (W s))
        (\<lambda>i j v. if inked bm x y i j then bus16 s (disp_color s) else v) (framebuffer s) fb))"
proof (intro conjI impI)
  assume "lcd_bpp s = 1"
  with assms(1) have "mono_ok (W s) (H s) (framebuffer s)" by (simp add: disp_ok_def)
  from disp_bitmap_bpp1_correct[OF this assms(2,3)] show "\<exists>fb. disp_bitmap_bpp1 bm x y s = Some (s\<lparr>framebuffer := fb\<rparr>) \<and>
      painted (W s) (H s) (mono_px (W s))
        (\<lambda>i j v. if inked bm x y i j then disp_color s = lcd_hwfillcolor s else v) (framebuffer s) fb"
    by blast
next
  assume "lcd_bpp s \<noteq> 1"
  with assms(1) have "colour_ok (W s) (H s) (framebuffer s)" by (simp add: disp_ok_def)
  from disp_1bitbmp_bpp16_correct[OF this assms(2,3)] show "\<exists>fb. disp_1bitbmp_bpp16 bm x y s = Some (s\<lparr>framebuffer := fb\<rparr>) \<and>
      painted (W s) (H s) (colour_px (W s))
        (\<lambda>i j v. if inked bm x y i j then bus16 s (disp_color s) else v) (framebuffer s) fb"
    by blast
qed

definition dot_bitmap :: disp_bitmap where
  "dot_bitmap = \<lparr>bm_width = 1, bm_height = 1, bm_bpp = 1, bm_data = [0x80]\<rparr>"

lemma dot_ink: "inked dot_bitmap 2 2 i j \<longleftrightarrow> i = 2 \<and> j = 2"
proof -
  have e: "(0x80 :: u8) = 2 ^ 7" by simp
  have "bit (0x80 :: u8) 7" unfolding e bit_exp_iff by simp
  then have "glyph_ink dot_bitmap 0 0" by (simp add: glyph_ink_def dot_bitmap_def)
  moreover have "unat (bm_width dot_bitmap) = 1" "unat (bm_height dot_bitmap) = 1"
    by (simp_all add: dot_bitmap_def)
  ultimately show ?thesis by (auto simp: inked_def le_less_Suc_eq)
qed

theorem bitmap_drawn_exactly_witness:
  "\<exists>fb. disp_bitmap_bpp1 dot_bitmap 2 2 mono_disp = Some (mono_disp\<lparr>framebuffer := fb\<rparr>) \<and> mono_px 16 fb 2 2"
proof -
  have "bitmap_complete dot_bitmap" "bm_bpp dot_bitmap = 1"
    by (simp_all add: bitmap_complete_def dot_bitmap_def)
  from bitmap_drawn_exactly[OF sample_disp_ok(1) this, of 2 2] show ?thesis
    by (auto simp: dot_ink painted_def mono_disp_def blank_disp_def)
qed

text \<open>
  C15. Printing text is memory safe: for every text that does not begin with a line end and
  whose characters are drawable, at any position, every byte read and written lies inside
  the glyphs and the frame buffer, and only the frame buffer changes.
\<close>

theorem puttext_memory_safe:
  assumes "disp_ok s" and "\<forall>ch \<in> set (text_chars t). drawable (fonts s) ch"
    and "t = [] \<or> hd t \<noteq> 13 \<and> hd t \<noteq> 10"
  shows "\<exists>u. platform_disp_puttext t x y s = Some u \<and> disp_ok u \<and> same_panel s u"
  using assms by (rule platform_disp_puttext_ok)

theorem puttext_memory_safe_witness:
  "\<exists>u. platform_disp_puttext [72, 10, 0xB0, 0xA1, 105] 3 90 mono_disp = Some u \<and> disp_ok u"
proof -
  have chars: "text_chars [72, 10, 0xB0, 0xA1, 105] = [72, 0xB0A1, 105]"
    by (simp add: next_char_def)
  have "fonts mono_disp = fontInit (init_fonts sample_rom)" by (simp add: mono_disp_def)
  then have "\<forall>ch \<in> set (text_chars [72, 10, 0xB0, 0xA1, 105]). drawable (fonts mono_disp) ch"
    unfolding chars
    by (simp add: drawable_def Let_def fontInit_def init_fonts_def sansFont16_def MAX_FONTS_def
        glyph_bytes_def is_hanzi_def hz_index_def)
  from puttext_memory_safe[OF sample_disp_ok(1) this, of 3 90] show ?thesis by auto
qed

text \<open>
  Clearing paints the whole screen with the background colour: on a monochrome panel all
  bits are set exactly if that is the panel's fill colour.
\<close>

theorem clear_paints_background:
  assumes "disp_ok s"
  shows "\<exists>fb. platform_disp_clear s = Some (s\<lparr>framebuffer := fb\<rparr>) \<and>
    (lcd_bpp s = 1 \<longrightarrow> painted (W s) (H s) (mono_px (W s))
        (\<lambda>i j v. disp_bkcolor s = lcd_hwfillcolor s) (framebuffer s) fb) \<and>
    (lcd_bpp s \<noteq> 1 \<longrightarrow> painted (W s) (H s) (colour_px (W s))
        (\<lambda>i j v. ucast (disp_bkcolor s)) (framebuffer s) fb)"
  using assms platform_disp_clear_mono[of s] platform_disp_clear_colour[of s]
  by (cases "lcd_bpp s = 1") (auto simp: disp_ok_def)

theorem clear_paints_background_witness:
  "\<exists>fb. platform_disp_clear colour_disp = Some (colour_disp\<lparr>framebuffer := fb\<rparr>) \<and> colour_px 4 fb 3 3 = 0xFFFF"
  using clear_paints_background[OF sample_disp_ok(2)]
  by (auto simp: colour_disp_def blank_disp_def painted_def COLOR_WHITE_def)

text \<open>
  On a colour panel, a rectangle inside the screen is drawn exactly: with colour -1 its
  frame, in the foreground colour and the byte order of the bus; with another colour its
  inside, borders included, with the colour's low 16 bits as they are.
\<close>

theorem drawrect_colour_exact:
  assumes "lcd_bpp s = 16" and "disp_ok s" and "x1 < x2" and "y1 < y2" and "x2 < W s" and "y2 < H s"
  shows "\<exists>fb. platform_disp_drawrect (int x1) (int y1) (int x2) (int y2) c s
      = Some (s\<lparr>framebuffer := fb\<rparr>, True) \<and>
    painted (W s) (H s) (colour_px (W s))
      (\<lambda>i j v. if x1 \<le> i \<and> i \<le> x2 \<and> y1 \<le> j \<and> j \<le> y2 \<and>
                  (c = -1 \<longrightarrow> i = x1 \<or> i = x2 \<or> j = y1 \<or> j = y2)
               then (if c = -1 then bus16 s (disp_color s) else ucast c) else v) (framebuffer s) fb"
proof (cases "c = -1")
  case True
  from drawrect_frame_colour[OF assms(1) _ assms(3-6)] assms(1,2) obtain fb where
    fb: "platform_disp_drawrect (int x1) (int y1) (int x2) (int y2) (-1) s = Some (s\<lparr>framebuffer := fb\<rparr>, True)"
      "painted (W s) (H s) (colour_px (W s))
        (\<lambda>i j v. if x1 \<le> i \<and> i \<le> x2 \<and> (j = y1 \<or> j = y2) \<or> y1 \<le> j \<and> j \<le> y2 \<and> (i = x1 \<or> i = x2)
                 then bus16 s (disp_color s) else v) (framebuffer s) fb"
    by (auto simp: disp_ok_def)
  show ?thesis unfolding True
    by (intro exI[of _ fb] conjI fb(1) painted_cong[OF fb(2)]) (use assms in auto)
next
  case False
  with drawrect_fill_colour[OF assms(1) _ False assms(3-6)] assms(1,2) show ?thesis
    by (auto simp: disp_ok_def)
qed

theorem drawrect_colour_exact_witness:
  "\<exists>fb. platform_disp_drawrect 0 0 2 2 (-1) colour_disp = Some (colour_disp\<lparr>framebuffer := fb\<rparr>, True)"
  using drawrect_colour_exact[of colour_disp 0 2 0 2 "-1"] sample_disp_ok(2)
  by (auto simp: colour_disp_def blank_disp_def)

text \<open>
  On a monochrome panel a rectangle is filled without its right and lower border: the
  loops stop before \<^verbatim>\<open>x2\<close> and \<^verbatim>\<open>y2\<close>, unlike the colour loops. A pixel is set
  exactly if the colour is the panel's fill colour.
\<close>

theorem drawrect_mono_exact:
  assumes "lcd_bpp s = 1" and "disp_ok s" and "c = COLOR_BLACK \<or> c = COLOR_WHITE"
    and "x1 < x2" and "y1 < y2" and "x2 < W s" and "y2 < H s"
  shows "\<exists>fb. platform_disp_drawrect (int x1) (int y1) (int x2) (int y2) c s
      = Some (s\<lparr>framebuffer := fb\<rparr>, True) \<and>
    painted (W s) (H s) (mono_px (W s))
      (\<lambda>i j v. if x1 \<le> i \<and> i < x2 \<and> y1 \<le> j \<and> j < y2 then c = lcd_hwfillcolor s else v) (framebuffer s) fb"
proof -
  have "mono_ok (W s) (H s) (framebuffer s)" using assms(1,2) by (simp add: disp_ok_def)
  from drawrect_fill_mono[OF assms(1) this assms(3-7)] show ?thesis by blast
qed

theorem drawrect_mono_exact_witness:
  "\<exists>fb. platform_disp_drawrect 1 1 3 3 COLOR_BLACK mono_disp = Some (mono_disp\<lparr>framebuffer := fb\<rparr>, True) \<and>
     mono_px 16 fb 2 2"
  using drawrect_mono_exact[of mono_disp COLOR_BLACK 1 3 1 3] sample_disp_ok(1)
  by (auto simp: mono_disp_def blank_disp_def painted_def)

text \<open>
  A QR code that fits is drawn to scale: with the biggest whole number of pixels per module
  that fits, each module is a square of its colour, the rest of the screen is unchanged, and
  the result is the number of pixels drawn.
\<close>

theorem qrcode_drawn_to_scale:
  assumes "disp_ok s" and "lcd_bpp s = 1 \<or> lcd_bpp s = 16" and "qr_fits data w disp_w sx sy s"
    and "k = qr_scale s w disp_w sx sy"
  shows "\<exists>fb. platform_disp_qrcode data w disp_w sx sy s =
      Some (s\<lparr>framebuffer := fb\<rparr>, of_nat (unat w * k * (unat w * k))) \<and>
    (lcd_bpp s = 1 \<longrightarrow> painted (W s) (H s) (mono_px (W s))
      (\<lambda>i j v. if in_square sx sy (unat w * k) i j
               then lcd_hwfillcolor s = (if qr_black data w k (i - unat sx) (j - unat sy)
                                         then COLOR_BLACK else COLOR_WHITE)
               else v) (framebuffer s) fb) \<and>
    (lcd_bpp s = 16 \<longrightarrow> painted (W s) (H s) (colour_px (W s))
      (\<lambda>i j v. if in_square sx sy (unat w * k) i j
               then ucast (if qr_black data w k (i - unat sx) (j - unat sy) then COLOR_BLACK else COLOR_WHITE)
               else v) (framebuffer s) fb)"
  using assms(2)
proof
  assume bpp: "lcd_bpp s = 1"
  with assms(1) have "mono_ok (W s) (H s) (framebuffer s)" by (simp add: disp_ok_def)
  from qrcode_mono[OF bpp this assms(3,4)] bpp show ?thesis by auto
next
  assume bpp: "lcd_bpp s = 16"
  with assms(1) have "colour_ok (W s) (H s) (framebuffer s)" by (simp add: disp_ok_def)
  from qrcode_colour[OF bpp this assms(3,4)] bpp show ?thesis by auto
qed

theorem qrcode_drawn_to_scale_witness:
  "\<exists>fb. platform_disp_qrcode [1, 0, 0, 1] 2 9 3 4 mono_disp = Some (mono_disp\<lparr>framebuffer := fb\<rparr>, 64) \<and>
     mono_px 16 fb 3 4 \<and> \<not> mono_px 16 fb 7 4"
proof -
  have k: "qr_scale mono_disp 2 9 3 4 = 4" by (simp add: qr_scale_def mono_disp_def)
  then have "qr_fits [1, 0, 0, 1] 2 9 3 4 mono_disp" by (simp add: qr_fits_def) (simp add: mono_disp_def)
  from qrcode_drawn_to_scale[OF sample_disp_ok(1) _ this k[symmetric]] show ?thesis
    by (auto simp: mono_disp_def blank_disp_def painted_def in_square_def qr_black_def COLOR_WHITE_def COLOR_BLACK_def)
qed

end
