(* ===== verification/Images.thy ===== *)
theory Images
  imports Display
begin

text \<open>
  Pictures on the frame buffer, \<^verbatim>\<open>platform/src/common_disp.c\<close>: BMP files, PNG files
  with transparency, JPEG files, and the choice between them by file name. The decoders
  (libpng, the kernel's JPEG decoder) are not part of the program: what they decode is an
  argument. Positions and crop rectangles come from \<^verbatim>\<open>u16\<close> arguments.
\<close>

section \<open>BMP\<close>

definition le16_at :: "u8 list \<Rightarrow> nat \<Rightarrow> u16 option" where
  "le16_at b i = do { x0 \<leftarrow> ld b i; x1 \<leftarrow> ld b (i + 1); Some (le16 x0 x1) }"

definition le32_at :: "u8 list \<Rightarrow> nat \<Rightarrow> u32 option" where
  "le32_at b i = do {
     lo \<leftarrow> le16_at b i;
     hi \<leftarrow> le16_at b (i + 2);
     Some (push_bit 16 (ucast hi) OR ucast lo)
   }"

text \<open>The fields the code reads of the packed file header (14 bytes) and info header (40 bytes).\<close>

record bmp_header =
  bitmap_offset :: u32
  bmp_width :: u32
  bmp_height :: u32
  number_of_planes :: u16
  bits_per_pixel :: u16

definition bmp_header_of :: "u8 list \<Rightarrow> bmp_header option" where
  "bmp_header_of b = do {
     off \<leftarrow> le32_at b 10;
     w \<leftarrow> le32_at b (14 + 4);
     h \<leftarrow> le32_at b (14 + 8);
     planes \<leftarrow> le16_at b (14 + 12);
     bpp \<leftarrow> le16_at b (14 + 14);
     Some \<lparr>bitmap_offset = off, bmp_width = w, bmp_height = h, number_of_planes = planes, bits_per_pixel = bpp\<rparr>
   }"

definition RGB24ToRGB16 :: "u16 \<Rightarrow> u16 \<Rightarrow> u16 \<Rightarrow> u16" where
  "RGB24ToRGB16 r g b =
     push_bit 8 (r AND 0x00f8) OR push_bit 3 (g AND 0x00fc) OR drop_bit 3 (b AND 0xf8)"

text \<open>
  A load at a computed index; the index is an \<^verbatim>\<open>int\<close> and reads below the array are
  undefined too.
\<close>

definition ld_int :: "u8 list \<Rightarrow> int \<Rightarrow> u8 option" where
  "ld_int b i = (if i < 0 then None else ld b (nat i))"

text \<open>
  \<^verbatim>\<open>for(rowIndex = y, bitmapRowIndex = height - top - 1; rowIndex < height && bitmapRowIndex
  >= height - bottom - 1; rowIndex++, bitmapRowIndex--)\<close>: the second comparison is unsigned,
  because the height in the file is a \<^verbatim>\<open>u32\<close>.
\<close>

function bmp_rows ::
    "(nat \<Rightarrow> u32 \<Rightarrow> u8 list \<Rightarrow> u8 list option) \<Rightarrow> nat \<Rightarrow> u32 \<Rightarrow> nat \<Rightarrow> u32 \<Rightarrow> u8 list \<Rightarrow> u8 list option" where
  "bmp_rows body height lim rowIndex bitmapRowIndex fb =
     (if rowIndex < height \<and> lim \<le> bitmapRowIndex
      then body rowIndex bitmapRowIndex fb \<bind> bmp_rows body height lim (Suc rowIndex) (bitmapRowIndex - 1)
      else Some fb)"
  by pat_completeness auto
termination
  by (relation "measure (\<lambda>(body, height, lim, rowIndex, bri, fb). height - rowIndex)") auto

declare bmp_rows.simps [simp del]

definition bmp_pixel :: "u8 list \<Rightarrow> nat \<Rightarrow> u16 \<Rightarrow> u16 \<Rightarrow> u32 \<Rightarrow> nat \<Rightarrow> u16 option" where
  "bmp_pixel b off rowBytes bpp bitmapRowIndex bmpColIndex = do {
     let data_index = bitmapRowIndex * ucast rowBytes + of_nat (bmpColIndex * unat bpp div 8);
     (if bpp = 24 then do {
        r \<leftarrow> ld b (off + unat (data_index + 2));
        g \<leftarrow> ld b (off + unat (data_index + 1));
        bl \<leftarrow> ld b (off + unat data_index);
        Some (RGB24ToRGB16 (ucast r) (ucast g) (ucast bl))
      } else le16_at b (off + unat data_index))
   }"

definition put_bmp_file_buff ::
    "u8 list \<Rightarrow> nat \<Rightarrow> nat \<Rightarrow> int \<Rightarrow> nat \<Rightarrow> nat \<Rightarrow> nat \<Rightarrow> nat \<Rightarrow> disp_st \<Rightarrow> (disp_st \<times> bool) option" where
  "put_bmp_file_buff buf x y transcolor left tp right bottom s = do {
     hdr \<leftarrow> bmp_header_of buf;
     (if right < left \<or> bottom < tp then Some (s, False)
      else do {
        let whole = (left = 0 \<and> tp = 0 \<and> right = 0 \<and> bottom = 0);
        let width = (if whole then unat (ucast (min (bmp_width hdr + of_nat x) (of_nat (W s))) :: u16)
                     else min (right - left + 1 + x) (W s));
        let height = (if whole then unat (ucast (min (bmp_height hdr + of_nat y) (of_nat (H s))) :: u16)
                      else min (bottom - tp + 1 + y) (H s));
        let bottom = (if whole then bmp_height hdr - 1 else of_nat bottom);
        let off = unat (bitmap_offset hdr);
        let bpp = bits_per_pixel hdr;
        let rowBytes = (ucast (drop_bit 3 ((bmp_width hdr * ucast bpp + 31) AND NOT 31)) :: u16);
        let first = bmp_height hdr - of_nat tp - 1;
        let lim = bmp_height hdr - bottom - 1;
        (if lcd_bpp s = 1 \<and> bpp = 1 then do {
           let lcdfill = (lcd_hwfillcolor s = COLOR_WHITE);
           bmpfill \<leftarrow> (if number_of_planes hdr = 1 then do {
               p0 \<leftarrow> ld buf 58; p1 \<leftarrow> ld buf 59; p2 \<leftarrow> ld buf 60;
               Some (p0 = 0xff \<and> p1 = 0xff \<and> p2 = 0xff)
             } else Some True);
           let fill = (lcdfill = bmpfill);
           fb \<leftarrow> bmp_rows (\<lambda>row bri. for_range x width (\<lambda>col b. do {
               let c = left + (col - x);
               v \<leftarrow> ld_int buf (int off + int (unat rowBytes) * sint bri + int (c div 8));
               (if (v AND drop_bit (c mod 8) 0x80 \<noteq> 0) = fill
                then fb_set (W s) col row b else fb_clr (W s) col row b)
             })) height lim y first (framebuffer s);
           Some (s\<lparr>framebuffer := fb\<rparr>, True)
         }
         else if lcd_bpp s \<noteq> 16 then Some (s, False)
         else if bpp \<noteq> 24 \<and> bpp \<noteq> 16 then Some (s, False)
         else do {
           fb \<leftarrow> bmp_rows (\<lambda>row bri. for_range x width (\<lambda>col b. do {
               rgb16 \<leftarrow> bmp_pixel buf off rowBytes bpp bri (left + (col - x));
               (if transcolor = -1 \<or> uint rgb16 \<noteq> transcolor
                then st16 b (row * W s + col) (bus16 s (ucast rgb16)) else Some b)
             })) height lim y first (framebuffer s);
           Some (s\<lparr>framebuffer := fb\<rparr>, True)
         })
      })
   }"

section \<open>PNG\<close>

text \<open>
  What libpng answers: the image's size, its channels, and the rows, bytes in the order blue,
  green, red, alpha. A file that is missing or damaged is \<open>None\<close>.
\<close>

record png_image =
  png_width :: nat
  png_height :: nat
  png_channels :: nat
  png_rows :: "u8 list list"

text \<open>The components of a 16-bit pixel, and the blend of one component on either panel.\<close>

definition red_of :: "u16 \<Rightarrow> nat" where "red_of t = unat (drop_bit 8 t AND 0xf8)"
definition green_of :: "u16 \<Rightarrow> nat" where "green_of t = unat (drop_bit 3 t AND 0xfc)"
definition blue_of :: "u16 \<Rightarrow> nat" where "blue_of t = unat (push_bit 3 t AND 0xf8)"

definition blend255 :: "nat \<Rightarrow> nat \<Rightarrow> u8 \<Rightarrow> u8" where
  "blend255 f b alpha = of_nat ((f * unat alpha + b * (255 - unat alpha)) div 255)"

definition blend256 :: "u8 \<Rightarrow> u8 \<Rightarrow> u8 \<Rightarrow> u8" where
  "blend256 f b p = word_of_int ((uint f - uint b) * uint p div 256 + uint b)"

text \<open>One pixel of the 16-bit panel: whether it is drawn, whether it is blended, and the blend.\<close>

definition png_draws :: "int \<Rightarrow> int \<Rightarrow> u16 \<Rightarrow> bool" where
  "png_draws transcolor transtype rgb16 \<longleftrightarrow> transcolor = -1 \<or> uint rgb16 \<noteq> transcolor \<or> transtype = 2"

definition png_blends :: "int \<Rightarrow> nat \<Rightarrow> u8 \<Rightarrow> bool" where
  "png_blends transtype channel alpha \<longleftrightarrow>
     channel = 4 \<and> (transtype = 0 \<and> alpha = 0 \<or> transtype = 1 \<or> transtype = 2)"

definition png_blend16 :: "disp_st \<Rightarrow> int \<Rightarrow> int \<Rightarrow> u8 \<Rightarrow> u8 \<Rightarrow> u8 \<Rightarrow> u8 \<Rightarrow> u16 \<Rightarrow> u16" where
  "png_blend16 s transcolor transtype fr fg fb alpha old =
     (let temp = bus16 s (ucast old);
          a = (if transtype = 2 \<and> alpha \<noteq> 0 then word_of_int transcolor else alpha);
          dr = blend255 (unat fr) (red_of temp) a;
          dg = blend255 (unat fg) (green_of temp) a;
          db = blend255 (unat fb) (blue_of temp) a
      in bus16 s (ucast (RGB24ToRGB16 (ucast dr) (ucast dg) (ucast db))))"

text \<open>One pixel of the 24-bit panel, three bytes from index \<open>i\<close>.\<close>

definition put24 :: "u8 list \<Rightarrow> nat \<Rightarrow> u8 \<Rightarrow> u8 \<Rightarrow> u8 \<Rightarrow> u8 list option" where
  "put24 b i r g bl = do { b \<leftarrow> st b (i + 2) r; b \<leftarrow> st b (i + 1) g; st b i bl }"

definition png_pixel24 ::
    "int \<Rightarrow> int \<Rightarrow> nat \<Rightarrow> u8 \<Rightarrow> u8 \<Rightarrow> u8 \<Rightarrow> u8 \<Rightarrow> nat \<Rightarrow> u8 list \<Rightarrow> u8 list option" where
  "png_pixel24 transcolor transtype channel fr fg fb alpha i b =
     (if channel = 4 then
        (if alpha = 0xff then put24 b i fr fg fb
         else if alpha = 0 then Some b
         else do {
           let p = (if transtype = 2 \<and> alpha \<noteq> 0 then word_of_int transcolor else alpha);
           br \<leftarrow> ld b (i + 2);
           bg \<leftarrow> ld b (i + 1);
           bb \<leftarrow> ld b i;
           put24 b i (blend256 fr br p) (blend256 fg bg p) (blend256 fb bb p)
         })
      else put24 b i fr fg fb)"

definition put_png_pixel ::
    "disp_st \<Rightarrow> int \<Rightarrow> int \<Rightarrow> nat \<Rightarrow> u8 list \<Rightarrow> nat \<Rightarrow> nat \<Rightarrow> u8 list \<Rightarrow> u8 list option" where
  "put_png_pixel s transcolor transtype channel row k i b = do {
     alpha \<leftarrow> (if channel = 4 then ld row (k * channel + 3) else Some 0);
     (if lcd_bpp s = 16 then do {
        fr \<leftarrow> ld row (k * channel + 2);
        fg \<leftarrow> ld row (k * channel + 1);
        fb \<leftarrow> ld row (k * channel);
        let rgb16 = RGB24ToRGB16 (ucast fr) (ucast fg) (ucast fb);
        (if \<not> png_draws transcolor transtype rgb16 then Some b
         else if png_blends transtype channel alpha then do {
           old \<leftarrow> ld16 b i;
           st16 b i (png_blend16 s transcolor transtype fr fg fb alpha old)
         }
         else st16 b i (bus16 s (ucast rgb16)))
      }
      else if lcd_bpp s = 24 then do {
        fr \<leftarrow> ld row (k * channel + 2);
        fg \<leftarrow> ld row (k * channel + 1);
        fb \<leftarrow> ld row (k * channel);
        png_pixel24 transcolor transtype channel fr fg fb alpha (i * 3) b
      }
      else Some b)
   }"

text \<open>\<^verbatim>\<open>memcpy\<close> of a row into the buffer.\<close>

definition memcpy_fb :: "nat \<Rightarrow> u8 list \<Rightarrow> u8 list \<Rightarrow> u8 list option" where
  "memcpy_fb i row b = (if i + length row \<le> length b
     then Some (take i b @ row @ drop (i + length row) b) else None)"

definition put_png_file_buff ::
    "png_image option \<Rightarrow> nat \<Rightarrow> nat \<Rightarrow> int \<Rightarrow> nat \<Rightarrow> nat \<Rightarrow> nat \<Rightarrow> nat \<Rightarrow> int \<Rightarrow> disp_st
      \<Rightarrow> (disp_st \<times> bool) option" where
  "put_png_file_buff png x y transcolor left tp right bottom transtype s =
     (if right < left \<or> bottom < tp then Some (s, False)
      else (case png of
          None \<Rightarrow> Some (s, False)
        | Some p \<Rightarrow>
            if png_channels p \<noteq> 3 \<and> png_channels p \<noteq> 4 then Some (s, False)
            else
              (let whole = (left = 0 \<and> tp = 0 \<and> right = 0 \<and> bottom = 0) in
               if whole \<and> lcd_bpp s = 24 \<and> png_channels p = 3
               then do {
                 fb \<leftarrow> for_range 0 (png_height p) (\<lambda>r b. do {
                     row \<leftarrow> ld (png_rows p) r;
                     memcpy_fb ((y * W s + x) * 3 + r * (W s * 3)) row b
                   }) (framebuffer s);
                 Some (s\<lparr>framebuffer := fb\<rparr>, True)
               }
               else do {
                 let right_end = (if whole then png_width p else right + 1);
                 let bottom_end = (if whole then png_height p else bottom + 1);
                 fb \<leftarrow> for_range 0 (min (png_height p) bottom_end) (\<lambda>r b. do {
                     row \<leftarrow> ld (png_rows p) r;
                     (if r < tp then Some b
                      else for_range left right_end (\<lambda>k.
                        put_png_pixel s transcolor transtype (png_channels p) row k
                          (unat (of_nat ((y + r - tp) * W s + (x + k - left)) :: u32))) b)
                   }) (framebuffer s);
                 Some (s\<lparr>framebuffer := fb\<rparr>, True)
               })))"

section \<open>JPEG, and the choice of the decoder\<close>

record jpg_image =
  jpg_width :: nat
  jpg_height :: nat
  jpg_buffer :: "u16 list"

definition put_jpg_file_buff ::
    "jpg_image option \<Rightarrow> nat \<Rightarrow> nat \<Rightarrow> nat \<Rightarrow> nat \<Rightarrow> nat \<Rightarrow> nat \<Rightarrow> disp_st \<Rightarrow> (disp_st \<times> bool) option" where
  "put_jpg_file_buff jpg x y left tp right bottom s =
     (if right < left \<or> bottom < tp then Some (s, False)
      else (case jpg of
          None \<Rightarrow> Some (s, True)
        | Some p \<Rightarrow> do {
            let whole = (left = 0 \<and> tp = 0 \<and> right = 0 \<and> bottom = 0);
            let columns = (if whole then jpg_width p else right - left + 1);
            let bottom_end = (if whole then jpg_height p else bottom + 1);
            fb \<leftarrow> for_range tp bottom_end (\<lambda>i.
              for_range 0 columns (\<lambda>j b. do {
                v \<leftarrow> ld (jpg_buffer p) (tp * jpg_width p + left + (i - tp) * jpg_width p + j);
                st16 b ((y + (i - tp)) * W s + x + j) v
              })) (framebuffer s);
            Some (s\<lparr>framebuffer := fb\<rparr>, True)
          }))"

text \<open>\<^verbatim>\<open>strstr(filename, pat)\<close> as a truth value.\<close>

definition strstr :: "string \<Rightarrow> string \<Rightarrow> bool" where
  "strstr hay pat = list_ex (\<lambda>k. take (length pat) (drop k hay) = pat) [0..<Suc (length hay)]"

text \<open>
  What the file gives: the bytes of a BMP file (\<open>None\<close> if it cannot be opened or there is
  no memory), the decoded PNG or JPEG.
\<close>

record image_file =
  if_bytes :: "u8 list option"
  if_png :: "png_image option"
  if_jpg :: "jpg_image option"

definition platform_disp_putimage ::
    "string \<Rightarrow> image_file \<Rightarrow> u16 \<Rightarrow> u16 \<Rightarrow> int \<Rightarrow> u16 \<Rightarrow> u16 \<Rightarrow> u16 \<Rightarrow> u16 \<Rightarrow> int \<Rightarrow> disp_st
      \<Rightarrow> (disp_st \<times> bool) option" where
  "platform_disp_putimage filename f x y transcolor left tp right bottom transtype s =
     (if strstr filename ''.bmp'' \<or> strstr filename ''.BMP'' then
        (case if_bytes f of
           None \<Rightarrow> Some (s, False)
         | Some buf \<Rightarrow> put_bmp_file_buff buf (unat x) (unat y) transcolor
             (unat left) (unat tp) (unat right) (unat bottom) s)
      else if strstr filename ''.png'' \<or> strstr filename ''.PNG'' then
        put_png_file_buff (if_png f) (unat x) (unat y) transcolor
          (unat left) (unat tp) (unat right) (unat bottom) transtype s
      else if strstr filename ''.jpg'' \<or> strstr filename ''.JPG'' then
        put_jpg_file_buff (if_jpg f) (unat x) (unat y) (unat left) (unat tp) (unat right) (unat bottom) s
      else Some (s, False))"

section \<open>A whole BMP picture\<close>

lemma bmp_rows_for_range:
  "(\<forall>k. y + k < height \<longrightarrow> lim \<le> bri - of_nat k) \<Longrightarrow>
     bmp_rows body height lim y bri fb =
     for_range y height (\<lambda>row. body row (bri - of_nat (row - y))) fb"
proof (induction "height - y" arbitrary: y bri fb)
  case 0
  then show ?case by (simp add: bmp_rows.simps)
next
  case (Suc d)
  then have lt: "y < height" by simp
  have "lim \<le> bri" using Suc.prems[rule_format, of 0] lt by simp
  have d: "d = height - Suc y" using Suc.hyps(2) by simp
  have later: "\<forall>k. Suc y + k < height \<longrightarrow> lim \<le> (bri - 1) - of_nat k"
  proof (intro allI impI)
    fix k assume "Suc y + k < height"
    then have "lim \<le> bri - of_nat (Suc k)" by (intro Suc.prems[rule_format]) simp
    then show "lim \<le> bri - 1 - of_nat k" by (simp add: algebra_simps)
  qed
  have cong: "for_range (Suc y) height (\<lambda>row. body row (bri - 1 - of_nat (row - Suc y))) u =
      for_range (Suc y) height (\<lambda>row. body row (bri - of_nat (row - y))) u" for u
  proof (rule for_range_cong)
    fix i s assume "Suc y \<le> i" "i < height"
    then have e: "bri - 1 - of_nat (i - Suc y) = bri - of_nat (i - y)"
      by (simp add: of_nat_diff)
    show "body i (bri - 1 - of_nat (i - Suc y)) s = body i (bri - of_nat (i - y)) s"
      unfolding e by (rule refl)
  qed
  have rest: "bmp_rows body height lim (Suc y) (bri - 1) =
      for_range (Suc y) height (\<lambda>row. body row (bri - of_nat (row - y)))"
    by (rule ext) (simp only: Suc.hyps(1)[OF d later] cong)
  have "bmp_rows body height lim y bri fb =
      body y bri fb \<bind> bmp_rows body height lim (Suc y) (bri - 1)"
    using lt \<open>lim \<le> bri\<close> by (subst bmp_rows.simps) simp
  also have "\<dots> = body y bri fb \<bind> for_range (Suc y) height (\<lambda>row. body row (bri - of_nat (row - y)))"
    by (simp only: rest)
  also have "\<dots> = for_range y height (\<lambda>row. body row (bri - of_nat (row - y))) fb"
    using lt by (simp add: for_range_step)
  finally show ?case .
qed

text \<open>The bytes of a row, padded to a multiple of four.\<close>

definition bmp_row_bytes :: "bmp_header \<Rightarrow> nat" where
  "bmp_row_bytes hdr = (unat (bmp_width hdr) * unat (bits_per_pixel hdr) + 31) div 32 * 4"

lemma unat_u32_less: "unat (z :: u32) < 4294967296"
  using unsigned_less[of z, where 'a = nat] by simp

lemma row_bytes_word:
  assumes "unat (bmp_width hdr) * unat (bits_per_pixel hdr) + 31 < 524288"
  shows "unat (ucast (drop_bit 3 ((bmp_width hdr * ucast (bits_per_pixel hdr) + 31) AND NOT 31)) :: u16) = bmp_row_bytes hdr"
proof -
  let ?n = "unat (bmp_width hdr) * unat (bits_per_pixel hdr) + 31"
  define z :: u32 where "z = bmp_width hdr * ucast (bits_per_pixel hdr) + 31"
  have zn: "z = of_nat ?n" by (simp add: z_def unsigned_ucast_eq)
  have z: "unat z = ?n" unfolding zn by (rule unat_of_nat_u32) (use assms in simp)
  have "drop_bit 3 (z AND NOT (mask 5)) = push_bit 2 (drop_bit 5 z)"
    by (rule bit_word_eqI) (auto simp: bit_simps dest: bit_imp_le_length)
  moreover have "(31 :: u32) = mask 5" by (simp add: mask_eq_decr_exp)
  ultimately have "drop_bit 3 (z AND NOT 31) = push_bit 2 (drop_bit 5 z)" by metis
  then have "unat (drop_bit 3 (z AND NOT 31)) = unat z div 32 * 4 mod 2 ^ 32"
    using unat_u32_less[of z]
    by (simp only: unsigned_push_bit_eq unsigned_drop_bit_eq)
      (simp add: push_bit_eq_mult drop_bit_eq_div take_bit_eq_mod)
  then have "unat (drop_bit 3 (z AND NOT 31)) = ?n div 32 * 4" using z assms by simp
  moreover have "?n div 32 * 4 < 65536" using assms by simp
  ultimately show ?thesis
    unfolding z_def[symmetric] bmp_row_bytes_def
    by (simp only: unsigned_ucast_eq) (simp add: take_bit_nat_eq_self)
qed

text \<open>The colour of column \<open>c\<close>, row \<open>r\<close> counted from above, of a picture stored bottom up.\<close>

definition bmp_colour :: "u8 list \<Rightarrow> bmp_header \<Rightarrow> nat \<Rightarrow> nat \<Rightarrow> u16" where
  "bmp_colour buf hdr c r =
     (let i = unat (bitmap_offset hdr) + ((unat (bmp_height hdr) - 1 - r) * bmp_row_bytes hdr
              + c * (unat (bits_per_pixel hdr) div 8))
      in if bits_per_pixel hdr = 24
         then RGB24ToRGB16 (ucast (buf ! (i + 2))) (ucast (buf ! (i + 1))) (ucast (buf ! i))
         else le16 (buf ! i) (buf ! (i + 1)))"

text \<open>A header the code can draw: 16 or 24 bits, and as many bytes as it announces.\<close>

definition bmp_sound :: "u8 list \<Rightarrow> bmp_header \<Rightarrow> bool" where
  "bmp_sound buf hdr \<longleftrightarrow> bmp_header_of buf = Some hdr \<and>
     (bits_per_pixel hdr = 16 \<or> bits_per_pixel hdr = 24) \<and>
     unat (bmp_width hdr) * unat (bits_per_pixel hdr) + 31 < 524288 \<and>
     unat (bmp_height hdr) < 65536 \<and> 0 < unat (bmp_height hdr) \<and>
     unat (bitmap_offset hdr) + unat (bmp_height hdr) * bmp_row_bytes hdr \<le> length buf"

lemma bmp_column_in_row:
  assumes "bits_per_pixel hdr = 16 \<or> bits_per_pixel hdr = 24" and "c < unat (bmp_width hdr)"
  shows "c * (unat (bits_per_pixel hdr) div 8) + unat (bits_per_pixel hdr) div 8 \<le> bmp_row_bytes hdr"
  using assms by (auto simp: bmp_row_bytes_def)

lemma bmp_pixel_correct:
  assumes hdr: "bmp_sound buf hdr" and c: "c < unat (bmp_width hdr)" and r: "r < unat (bmp_height hdr)"
    and rb: "unat rb = bmp_row_bytes hdr"
  shows "bmp_pixel buf (unat (bitmap_offset hdr)) rb (bits_per_pixel hdr)
      (bmp_height hdr - 1 - of_nat r) c = Some (bmp_colour buf hdr c r)"
proof -
  let ?bpp = "unat (bits_per_pixel hdr)" and ?h = "unat (bmp_height hdr)" and ?o = "unat (bitmap_offset hdr)"
  let ?row = "?h - 1 - r"
  let ?i = "?row * bmp_row_bytes hdr + c * (?bpp div 8)"
  have bpp: "bits_per_pixel hdr = 16 \<or> bits_per_pixel hdr = 24" using hdr by (simp add: bmp_sound_def)
  have rb16: "bmp_row_bytes hdr < 65536" using rb unat_less_16[of rb] by simp
  have "?row + 1 \<le> ?h" using r by simp
  then have "(?row + 1) * bmp_row_bytes hdr \<le> ?h * bmp_row_bytes hdr" by (rule mult_le_mono1)
  with bmp_column_in_row[OF bpp c] have last: "?i + ?bpp div 8 \<le> ?h * bmp_row_bytes hdr"
    by simp
  have len: "?o + ?h * bmp_row_bytes hdr \<le> length buf" using hdr by (simp add: bmp_sound_def)
  have "?h < 65536" using hdr by (simp add: bmp_sound_def)
  then have "?h * bmp_row_bytes hdr \<le> 65536 * 65535" using rb16 by (intro mult_le_mono) simp_all
  with last have i32: "?i + 2 < 4294967296" using bpp by auto
  have cb: "c * ?bpp div 8 = c * (?bpp div 8)" using bpp by auto
  have "bmp_height hdr - 1 - of_nat r = of_nat ?row"
    using r by (simp add: of_nat_diff)
  then have idx: "(bmp_height hdr - 1 - of_nat r) * ucast rb + of_nat (c * ?bpp div 8) = (of_nat ?i :: u32)"
    unfolding cb by (simp add: unsigned_ucast_eq flip: rb)
  have u: "unat (of_nat n :: u32) = n \<and> unat (of_nat n + 2 :: u32) = n + 2 \<and> unat (of_nat n + 1 :: u32) = n + 1"
    if "n + 2 < 4294967296" for n
    using that unat_of_nat_u32[of n] unat_of_nat_u32[of "n + 2"] unat_of_nat_u32[of "n + 1"]
    by (simp add: add.commute)
  note u = u[OF i32]
  show ?thesis
    unfolding bmp_pixel_def Let_def idx conjunct1[OF u] conjunct1[OF conjunct2[OF u]] conjunct2[OF conjunct2[OF u]]
    using bpp last len
    by (auto simp: bmp_colour_def Let_def ld_in le16_at_def add.assoc)
qed

lemma clip_u32:
  fixes v :: u32
  assumes "n + k < 4294967296" and "unat v = n" and "m < 65536"
  shows "unat (ucast (min (v + of_nat k) (of_nat m)) :: u16) = min (n + k) m"
proof -
  have "v + of_nat k = of_nat (n + k)" using assms(2) by auto
  then have a: "unat (v + of_nat k) = n + k" using unat_of_nat_u32[of "n + k"] assms(1) by (simp only:) simp
  have b: "unat (of_nat m :: u32) = m" using assms(3) by simp
  have "unat (min (v + of_nat k) (of_nat m)) = min (n + k) m"
    by (simp add: min_def word_le_nat_alt a b)
  moreover have "min (n + k) m < 65536" using assms(3) by simp
  ultimately show ?thesis
    by (simp only: unsigned_ucast_eq) (simp add: take_bit_nat_eq_self)
qed

lemma put_bmp_whole:
  assumes bpp: "lcd_bpp s = 16" and ok: "colour_ok (W s) (H s) (framebuffer s)"
    and hdr: "bmp_sound buf hdr" and xy: "x < 65536" "y < 65536"
  shows "\<exists>fb. put_bmp_file_buff buf x y transcolor 0 0 0 0 s = Some (s\<lparr>framebuffer := fb\<rparr>, True) \<and>
    colour_ok (W s) (H s) fb \<and>
    painted (W s) (H s) (colour_px (W s))
      (\<lambda>i j v. if x \<le> i \<and> i < x + unat (bmp_width hdr) \<and> y \<le> j \<and> j < y + unat (bmp_height hdr) \<and>
                  (transcolor = -1 \<or> uint (bmp_colour buf hdr (i - x) (j - y)) \<noteq> transcolor)
               then bus16 s (ucast (bmp_colour buf hdr (i - x) (j - y))) else v) (framebuffer s) fb"
proof -
  let ?w = "unat (bmp_width hdr)" and ?h = "unat (bmp_height hdr)"
  let ?rb = "ucast (drop_bit 3 ((bmp_width hdr * ucast (bits_per_pixel hdr) + 31) AND NOT 31)) :: u16"
  have sound: "bmp_header_of buf = Some hdr" "bits_per_pixel hdr = 16 \<or> bits_per_pixel hdr = 24"
      "?w * unat (bits_per_pixel hdr) + 31 < 524288" "?h < 65536"
    using hdr by (simp_all add: bmp_sound_def)
  have w: "?w < 524288" using sound(2,3) by auto
  have cw: "unat (ucast (min (bmp_width hdr + of_nat x) (of_nat (W s))) :: u16) = min (?w + x) (W s)"
    by (rule clip_u32) (use w xy unat_less_16 in simp_all)
  have ch: "unat (ucast (min (bmp_height hdr + of_nat y) (of_nat (H s))) :: u16) = min (?h + y) (H s)"
    by (rule clip_u32) (use sound(4) xy unat_less_16 in simp_all)
  note rb = row_bytes_word[OF sound(3)]
  let ?p = "\<lambda>i j. bmp_colour buf hdr (i - x) (j - y)"
  let ?draw = "\<lambda>i j. transcolor = -1 \<or> uint (?p i j) \<noteq> transcolor"
  let ?body = "\<lambda>row bri. for_range x (min (?w + x) (W s)) (\<lambda>col b. do {
      rgb16 \<leftarrow> bmp_pixel buf (unat (bitmap_offset hdr)) ?rb (bits_per_pixel hdr) bri (0 + (col - x));
      (if transcolor = -1 \<or> uint rgb16 \<noteq> transcolor
       then st16 b (row * W s + col) (bus16 s (ucast rgb16)) else Some b) })"
  have "\<exists>fb. for_range y (min (?h + y) (H s)) (\<lambda>row. ?body row (bmp_height hdr - 1 - of_nat (row - y))) (framebuffer s)
        = Some fb \<and> colour_ok (W s) (H s) fb \<and>
      painted (W s) (H s) (colour_px (W s)) (\<lambda>i j v. if x \<le> i \<and> i < min (?w + x) (W s) \<and> y \<le> j \<and> j < min (?h + y) (H s)
        then (if ?draw i j then bus16 s (ucast (?p i j)) else v) else v) (framebuffer s) fb"
  proof (rule colour.paint_rows_law[OF ok])
    fix i j c assume ij: "x \<le> i" "i < min (?w + x) (W s)" "y \<le> j" "j < min (?h + y) (H s)"
      and c: "colour_ok (W s) (H s) c"
    have "bmp_pixel buf (unat (bitmap_offset hdr)) ?rb (bits_per_pixel hdr)
        (bmp_height hdr - 1 - of_nat (j - y)) (0 + (i - x)) = Some (?p i j)"
      using bmp_pixel_correct[OF hdr _ _ rb, of "i - x" "j - y"] ij by auto
    then show "\<exists>c'. (bmp_pixel buf (unat (bitmap_offset hdr)) ?rb (bits_per_pixel hdr)
          (bmp_height hdr - 1 - of_nat (j - y)) (0 + (i - x)) \<bind> (\<lambda>rgb16.
          if transcolor = -1 \<or> uint rgb16 \<noteq> transcolor
          then st16 c (j * W s + i) (bus16 s (ucast rgb16)) else Some c)) = Some c' \<and>
        colour_ok (W s) (H s) c' \<and> painted (W s) (H s) (colour_px (W s))
          (\<lambda>k l u. if k = i \<and> l = j then (if ?draw i j then bus16 s (ucast (?p i j)) else u) else u) c c'"
      using colour.put_or_skip[OF c, of i j "?draw i j" "bus16 s (ucast (?p i j))"] ij by simp
  qed simp_all
  then obtain fb where fb: "for_range y (min (?h + y) (H s)) (\<lambda>row. ?body row (bmp_height hdr - 1 - of_nat (row - y))) (framebuffer s)
        = Some fb" "colour_ok (W s) (H s) fb" and
    p: "painted (W s) (H s) (colour_px (W s)) (\<lambda>i j v. if x \<le> i \<and> i < min (?w + x) (W s) \<and> y \<le> j \<and> j < min (?h + y) (H s)
        then (if ?draw i j then bus16 s (ucast (?p i j)) else v) else v) (framebuffer s) fb" by blast
  have rows: "bmp_rows ?body (min (?h + y) (H s)) 0 y (bmp_height hdr - 1) (framebuffer s) = Some fb"
    using fb(1) by (subst bmp_rows_for_range) simp_all
  have "put_bmp_file_buff buf x y transcolor 0 0 0 0 s = Some (s\<lparr>framebuffer := fb\<rparr>, True)"
    using sound(2) rows bpp unfolding put_bmp_file_buff_def Let_def sound(1) cw[symmetric] ch[symmetric]
    by auto
  moreover have "painted (W s) (H s) (colour_px (W s))
      (\<lambda>i j v. if x \<le> i \<and> i < x + ?w \<and> y \<le> j \<and> j < y + ?h \<and> ?draw i j
               then bus16 s (ucast (?p i j)) else v) (framebuffer s) fb"
    by (rule painted_cong[OF p]) auto
  ultimately show ?thesis using fb(2) by blast
qed

section \<open>Blending stays between the two colours\<close>

lemma convex_nat: "f \<le> m \<Longrightarrow> b \<le> m \<Longrightarrow> a \<le> 255 \<Longrightarrow> (f * a + b * (255 - a)) div 255 \<le> (m :: nat)"
proof -
  assume "f \<le> m" "b \<le> m" "a \<le> 255"
  then have "f * a + b * (255 - a) \<le> m * a + m * (255 - a)" by (intro add_mono mult_le_mono1)
  also have "\<dots> = m * 255" using \<open>a \<le> 255\<close> by (simp flip: distrib_left)
  finally have "(f * a + b * (255 - a)) div 255 \<le> m * 255 div 255" by (rule div_le_mono)
  then show ?thesis by simp
qed

lemma convex_nat_low: "m \<le> f \<Longrightarrow> m \<le> b \<Longrightarrow> a \<le> 255 \<Longrightarrow> (m :: nat) \<le> (f * a + b * (255 - a)) div 255"
proof -
  assume "m \<le> f" "m \<le> b" "a \<le> 255"
  have "m * 255 = m * a + m * (255 - a)" using \<open>a \<le> 255\<close> by (simp flip: distrib_left)
  also have "\<dots> \<le> f * a + b * (255 - a)" using \<open>m \<le> f\<close> \<open>m \<le> b\<close> by (intro add_mono mult_le_mono1)
  finally have "m * 255 div 255 \<le> (f * a + b * (255 - a)) div 255" by (rule div_le_mono)
  then show ?thesis by simp
qed

lemma blend255_between:
  assumes "f < 256" and "b < 256"
  shows "min f b \<le> unat (blend255 f b alpha) \<and> unat (blend255 f b alpha) \<le> max f b"
proof -
  let ?v = "(f * unat alpha + b * (255 - unat alpha)) div 255"
  have a: "unat alpha \<le> 255" using unat_u8_less[of alpha] by simp
  have v: "min f b \<le> ?v" "?v \<le> max f b"
    by (rule convex_nat_low[OF _ _ a] convex_nat[OF _ _ a]; simp)+
  then have "?v < 256" using assms by simp
  then have "unat (blend255 f b alpha) = ?v"
    by (simp add: blend255_def unsigned_of_nat take_bit_nat_eq_self)
  with v show ?thesis by simp
qed

lemma blend256_between:
  "min f b \<le> blend256 f b p \<and> blend256 f b p \<le> max f b"
proof -
  let ?F = "uint f" and ?B = "uint b" and ?P = "uint p"
  let ?v = "(?F - ?B) * ?P div 256 + ?B"
  have r: "0 \<le> ?F" "?F < 256" "0 \<le> ?B" "?B < 256" "0 \<le> ?P" "?P < 256"
    using uint_lt2p[of f] uint_lt2p[of b] uint_lt2p[of p] by simp_all
  have v: "min ?F ?B \<le> ?v \<and> ?v \<le> max ?F ?B"
  proof (cases "?B \<le> ?F")
    case True
    have "0 \<le> (?F - ?B) * ?P" using True r by simp
    moreover have "(?F - ?B) * ?P \<le> (?F - ?B) * 256" by (rule mult_left_mono) (use True r in simp_all)
    ultimately have "0 \<le> (?F - ?B) * ?P div 256" "(?F - ?B) * ?P div 256 \<le> (?F - ?B) * 256 div 256"
      by (simp_all add: zdiv_mono1 del: nonzero_mult_div_cancel_right)
    then show ?thesis using True by simp
  next
    case False
    have "(?F - ?B) * 256 \<le> (?F - ?B) * ?P" by (rule mult_left_mono_neg) (use False r in simp_all)
    moreover have "(?F - ?B) * ?P \<le> 0" using False r by (simp add: mult_nonpos_nonneg)
    ultimately have "(?F - ?B) * 256 div 256 \<le> (?F - ?B) * ?P div 256" "(?F - ?B) * ?P div 256 \<le> 0 div 256"
      by (simp_all only: zdiv_mono1 zero_less_numeral)
    then show ?thesis using False by simp
  qed
  then have "0 \<le> ?v" "?v < 256" using r by linarith+
  then have "uint (word_of_int n :: u8) = n" if "n = ?v" for n
    unfolding that by (subst uint_word_of_int_eq) (rule take_bit_int_eq_self; simp)
  then have "uint (blend256 f b p) = ?v" unfolding blend256_def by blast
  with v show ?thesis by (simp add: word_le_def min_def max_def split: if_splits)
qed

section \<open>PNG and JPEG pictures that fit the screen\<close>

definition png_ink :: "disp_st \<Rightarrow> int \<Rightarrow> int \<Rightarrow> nat \<Rightarrow> u8 list \<Rightarrow> nat \<Rightarrow> u16 \<Rightarrow> u16" where
  "png_ink s transcolor transtype ch row k old =
     (let fr = row ! (k * ch + 2); fg = row ! (k * ch + 1); fb = row ! (k * ch);
          alpha = (if ch = 4 then row ! (k * ch + 3) else 0);
          rgb16 = RGB24ToRGB16 (ucast fr) (ucast fg) (ucast fb)
      in if \<not> png_draws transcolor transtype rgb16 then old
         else if png_blends transtype ch alpha then png_blend16 s transcolor transtype fr fg fb alpha old
         else bus16 s (ucast rgb16))"

lemma put_png_pixel_law:
  assumes bpp: "lcd_bpp s = 16" and ok: "colour_ok (W s) (H s) c" and ij: "i < W s" "j < H s"
    and ch: "ch = 3 \<or> ch = 4" and row: "(k + 1) * ch \<le> length row"
  shows "\<exists>c'. put_png_pixel s transcolor transtype ch row k (unat (of_nat (j * W s + i) :: u32)) c = Some c' \<and>
    colour_ok (W s) (H s) c' \<and>
    painted (W s) (H s) (colour_px (W s)) (\<lambda>i' j' v. if i' = i \<and> j' = j
      then png_ink s transcolor transtype ch row k v else v) c c'"
proof -
  have "j * W s + i < W s * H s" by (rule pixel_index_less[OF ij])
  also have "\<dots> \<le> 65536 * 65535" using unat_less_16[of "lcd_width s"] unat_less_16[of "lcd_height s"]
    by (intro mult_le_mono) simp_all
  finally have idx: "unat (of_nat (j * W s + i) :: u32) = j * W s + i" by (intro unat_of_nat_u32) simp
  have lr: "k * ch + 2 < length row" "ch = 4 \<Longrightarrow> k * ch + 3 < length row" using ch row by auto
  have old: "ld16 c (j * W s + i) = Some (colour_px (W s) c i j)"
    using pixel_index_less[OF ij] ok by (simp add: ld16_in colour_px_def colour_ok_def)
  let ?fr = "row ! (k * ch + 2)" and ?fg = "row ! (k * ch + 1)" and ?fb = "row ! (k * ch)"
  let ?al = "if ch = 4 then row ! (k * ch + 3) else 0"
  let ?rgb = "RGB24ToRGB16 (ucast ?fr) (ucast ?fg) (ucast ?fb)"
  let ?v = "if png_blends transtype ch ?al
    then png_blend16 s transcolor transtype ?fr ?fg ?fb ?al (colour_px (W s) c i j) else bus16 s (ucast ?rgb)"
  have "put_png_pixel s transcolor transtype ch row k (j * W s + i) c =
      (if png_draws transcolor transtype ?rgb then st16 c (j * W s + i) ?v else Some c)"
    using lr bpp old by (auto simp: put_png_pixel_def ld_in Let_def)
  moreover from colour.put_or_skip[OF ok ij, of "png_draws transcolor transtype ?rgb" ?v] obtain c' where
    "(if png_draws transcolor transtype ?rgb then st16 c (j * W s + i) ?v else Some c) = Some c'"
    "colour_ok (W s) (H s) c'"
    "painted (W s) (H s) (colour_px (W s)) (\<lambda>i' j' u. if i' = i \<and> j' = j
       then (if png_draws transcolor transtype ?rgb then ?v else u) else u) c c'" by blast
  moreover from this(3) have "painted (W s) (H s) (colour_px (W s)) (\<lambda>i' j' v. if i' = i \<and> j' = j
      then png_ink s transcolor transtype ch row k v else v) c c'"
    using ij by (auto simp: painted_def png_ink_def Let_def)
  ultimately show ?thesis unfolding idx by auto
qed

text \<open>
  The rectangle of the picture that is shown: columns \<open>left ..< right_end\<close>, rows
  \<open>tp ..< bottom_end\<close>.
\<close>

definition crop_right :: "nat \<Rightarrow> nat \<Rightarrow> nat \<Rightarrow> nat \<Rightarrow> nat \<Rightarrow> nat" where
  "crop_right n left tp right bottom =
     (if left = 0 \<and> tp = 0 \<and> right = 0 \<and> bottom = 0 then n else right + 1)"

definition crop_bottom :: "nat \<Rightarrow> nat \<Rightarrow> nat \<Rightarrow> nat \<Rightarrow> nat \<Rightarrow> nat" where
  "crop_bottom n left tp right bottom =
     (if left = 0 \<and> tp = 0 \<and> right = 0 \<and> bottom = 0 then n else bottom + 1)"

lemma copy_region_law:
  assumes ok: "colour_ok (W s) (H s) b" and le: "left \<le> ce" "tp \<le> re"
    and fit: "x + (ce - left) \<le> W s" "y + (re - tp) \<le> H s"
    and body: "\<And>r k c. tp \<le> r \<Longrightarrow> r < re \<Longrightarrow> left \<le> k \<Longrightarrow> k < ce \<Longrightarrow> colour_ok (W s) (H s) c \<Longrightarrow>
      \<exists>c'. body r k c = Some c' \<and> colour_ok (W s) (H s) c' \<and>
        painted (W s) (H s) (colour_px (W s)) (\<lambda>i j v. if i = x + k - left \<and> j = y + r - tp then ink r k v else v) c c'"
  shows "\<exists>b'. for_range tp re (\<lambda>r. for_range left ce (body r)) b = Some b' \<and> colour_ok (W s) (H s) b' \<and>
    painted (W s) (H s) (colour_px (W s))
      (\<lambda>i j v. if x \<le> i \<and> i < x + (ce - left) \<and> y \<le> j \<and> j < y + (re - tp)
               then ink (tp + (j - y)) (left + (i - x)) v else v) b b'"
proof -
  have "for_range left ce (body r) = for_range x (x + (ce - left)) (\<lambda>i. body r (left + (i - x)))" for r
    using for_range_shift[of left "ce - left" "body r" _ x] le(1) by (simp add: fun_eq_iff)
  then have "for_range tp re (\<lambda>r. for_range left ce (body r)) b =
      for_range y (y + (re - tp)) (\<lambda>j. for_range x (x + (ce - left)) (\<lambda>i. body (tp + (j - y)) (left + (i - x)))) b"
    using for_range_shift[of tp "re - tp" "\<lambda>r. for_range left ce (body r)" b y] le(2) by simp
  moreover have "\<exists>b'. for_range y (y + (re - tp)) (\<lambda>j. for_range x (x + (ce - left)) (\<lambda>i. body (tp + (j - y)) (left + (i - x)))) b
      = Some b' \<and> colour_ok (W s) (H s) b' \<and> painted (W s) (H s) (colour_px (W s))
      (\<lambda>i j v. if x \<le> i \<and> i < x + (ce - left) \<and> y \<le> j \<and> j < y + (re - tp)
               then ink (tp + (j - y)) (left + (i - x)) v else v) b b'"
  proof (rule colour.paint_rows_law[OF ok fit])
    fix i j c assume ij: "x \<le> i" "i < x + (ce - left)" "y \<le> j" "j < y + (re - tp)"
      and c: "colour_ok (W s) (H s) c"
    have "x + (left + (i - x)) - left = i" "y + (tp + (j - y)) - tp = j" using ij by simp_all
    with body[of "tp + (j - y)" "left + (i - x)", OF _ _ _ _ c] ij
    show "\<exists>c'. body (tp + (j - y)) (left + (i - x)) c = Some c' \<and> colour_ok (W s) (H s) c' \<and>
        painted (W s) (H s) (colour_px (W s))
          (\<lambda>k l u. if k = i \<and> l = j then ink (tp + (j - y)) (left + (i - x)) u else u) c c'"
      by simp
  qed
  ultimately show ?thesis by simp
qed

definition png_sound :: "png_image \<Rightarrow> bool" where
  "png_sound p \<longleftrightarrow> (png_channels p = 3 \<or> png_channels p = 4) \<and> length (png_rows p) = png_height p \<and>
     (\<forall>row \<in> set (png_rows p). length row = png_width p * png_channels p)"

lemma put_png_region:
  assumes bpp: "lcd_bpp s = 16" and ok: "colour_ok (W s) (H s) (framebuffer s)" and p: "png_sound p"
    and ce: "ce = crop_right (png_width p) left tp right bottom" "ce \<le> png_width p"
    and re: "re = crop_bottom (png_height p) left tp right bottom" "re \<le> png_height p"
    and le: "left \<le> right" "tp \<le> bottom"
    and fit: "x + (ce - left) \<le> W s" "y + (re - tp) \<le> H s"
  shows "\<exists>fb. put_png_file_buff (Some p) x y transcolor left tp right bottom transtype s =
      Some (s\<lparr>framebuffer := fb\<rparr>, True) \<and> colour_ok (W s) (H s) fb \<and>
    painted (W s) (H s) (colour_px (W s))
      (\<lambda>i j v. if x \<le> i \<and> i < x + (ce - left) \<and> y \<le> j \<and> j < y + (re - tp)
               then png_ink s transcolor transtype (png_channels p) (png_rows p ! (tp + (j - y))) (left + (i - x)) v
               else v) (framebuffer s) fb"
proof -
  let ?ch = "png_channels p"
  let ?px = "\<lambda>r k. put_png_pixel s transcolor transtype ?ch (png_rows p ! r) k
      (unat (of_nat ((y + r - tp) * W s + (x + k - left)) :: u32))"
  let ?body = "\<lambda>r b. ld (png_rows p) r \<bind> (\<lambda>row. if r < tp then Some b
      else for_range left ce (\<lambda>k. put_png_pixel s transcolor transtype ?ch row k
        (unat (of_nat ((y + r - tp) * W s + (x + k - left)) :: u32))) b)"
  have ch: "?ch = 3 \<or> ?ch = 4" and rows: "length (png_rows p) = png_height p" using p by (simp_all add: png_sound_def)
  have lce: "left \<le> ce" using le ce by (auto simp: crop_right_def)
  have tre: "tp \<le> re" using le re by (auto simp: crop_bottom_def)
  have len: "length (png_rows p ! r) = png_width p * ?ch" if "r < png_height p" for r
    using p that by (simp add: png_sound_def)
  have "\<exists>fb. for_range tp re (\<lambda>r. for_range left ce (?px r)) (framebuffer s) = Some fb \<and> colour_ok (W s) (H s) fb \<and>
    painted (W s) (H s) (colour_px (W s))
      (\<lambda>i j v. if x \<le> i \<and> i < x + (ce - left) \<and> y \<le> j \<and> j < y + (re - tp)
               then png_ink s transcolor transtype ?ch (png_rows p ! (tp + (j - y))) (left + (i - x)) v
               else v) (framebuffer s) fb"
  proof (rule copy_region_law[OF ok lce tre fit])
    fix r k c assume rk: "tp \<le> r" "r < re" "left \<le> k" "k < ce" and c: "colour_ok (W s) (H s) c"
    have "(k + 1) * ?ch \<le> png_width p * ?ch" using rk(4) ce(2) by (intro mult_le_mono1) simp
    then show "\<exists>c'. ?px r k c = Some c' \<and> colour_ok (W s) (H s) c' \<and> painted (W s) (H s) (colour_px (W s))
        (\<lambda>i j v. if i = x + k - left \<and> j = y + r - tp
                 then png_ink s transcolor transtype ?ch (png_rows p ! r) k v else v) c c'"
      by (intro put_png_pixel_law[OF bpp c _ _ ch]) (use rk fit re(2) len in auto)
  qed
  moreover have "for_range 0 (min (png_height p) re) ?body (framebuffer s) =
      for_range tp re (\<lambda>r. for_range left ce (?px r)) (framebuffer s)"
  proof -
    have "for_range 0 re ?body (framebuffer s) = for_range 0 tp ?body (framebuffer s) \<bind> for_range tp re ?body"
      by (rule for_range_append) (use tre in simp_all)
    also have "for_range 0 tp ?body (framebuffer s) = Some (framebuffer s)"
      by (rule for_range_skip) (use tre re(2) rows in \<open>simp add: ld_in\<close>)
    also have "Some (framebuffer s) \<bind> for_range tp re ?body = for_range tp re ?body (framebuffer s)" by simp
    also have "\<dots> = for_range tp re (\<lambda>r. for_range left ce (?px r)) (framebuffer s)"
      by (rule for_range_cong) (use re(2) rows in \<open>simp add: ld_in\<close>)
    finally show ?thesis using re(2) by (simp add: min_absorb2)
  qed
  moreover have "put_png_file_buff (Some p) x y transcolor left tp right bottom transtype s =
      for_range 0 (min (png_height p) re) ?body (framebuffer s) \<bind> (\<lambda>fb. Some (s\<lparr>framebuffer := fb\<rparr>, True))"
    unfolding put_png_file_buff_def Let_def ce(1) re(1) crop_right_def crop_bottom_def
    using le ch bpp by auto
  ultimately show ?thesis by auto
qed

definition jpg_sound :: "jpg_image \<Rightarrow> bool" where
  "jpg_sound p \<longleftrightarrow> length (jpg_buffer p) = jpg_width p * jpg_height p"

lemma put_jpg_region:
  assumes ok: "colour_ok (W s) (H s) (framebuffer s)" and p: "jpg_sound p"
    and ce: "ce = crop_right (jpg_width p) left tp right bottom" "ce \<le> jpg_width p"
    and re: "re = crop_bottom (jpg_height p) left tp right bottom" "re \<le> jpg_height p"
    and le: "left \<le> right" "tp \<le> bottom"
    and fit: "x + (ce - left) \<le> W s" "y + (re - tp) \<le> H s"
  shows "\<exists>fb. put_jpg_file_buff (Some p) x y left tp right bottom s =
      Some (s\<lparr>framebuffer := fb\<rparr>, True) \<and> colour_ok (W s) (H s) fb \<and>
    painted (W s) (H s) (colour_px (W s))
      (\<lambda>i j v. if x \<le> i \<and> i < x + (ce - left) \<and> y \<le> j \<and> j < y + (re - tp)
               then jpg_buffer p ! ((tp + (j - y)) * jpg_width p + (left + (i - x))) else v) (framebuffer s) fb"
proof -
  let ?px = "\<lambda>i j b. ld (jpg_buffer p) (tp * jpg_width p + left + (i - tp) * jpg_width p + j) \<bind>
      (\<lambda>v. st16 b ((y + (i - tp)) * W s + x + j) v)"
  have lce: "left \<le> ce" using le ce by (auto simp: crop_right_def)
  have tre: "tp \<le> re" using le re by (auto simp: crop_bottom_def)
  have "\<exists>fb. for_range tp re (\<lambda>i. for_range 0 (ce - left) (?px i)) (framebuffer s) = Some fb \<and> colour_ok (W s) (H s) fb \<and>
    painted (W s) (H s) (colour_px (W s))
      (\<lambda>i j v. if x \<le> i \<and> i < x + (ce - left - 0) \<and> y \<le> j \<and> j < y + (re - tp)
               then (\<lambda>r k v. jpg_buffer p ! (r * jpg_width p + left + k)) (tp + (j - y)) (0 + (i - x)) v
               else v) (framebuffer s) fb"
  proof (rule copy_region_law[OF ok le0 tre])
    fix r k c assume rk: "tp \<le> r" "r < re" "0 \<le> k" "k < ce - left" and c: "colour_ok (W s) (H s) c"
    have split: "r * jpg_width p = tp * jpg_width p + (r - tp) * jpg_width p"
      using rk(1) by (simp flip: distrib_right)
    have "left + k < jpg_width p" "r < jpg_height p" using rk ce(2) re(2) by simp_all
    from pixel_index_less[OF this] p have "r * jpg_width p + left + k < length (jpg_buffer p)"
      by (simp add: jpg_sound_def add.assoc)
    then have "?px r k c = st16 c ((y + (r - tp)) * W s + (x + k)) (jpg_buffer p ! (r * jpg_width p + left + k))"
      by (simp add: ld_in split add_ac)
    moreover have "x + k < W s" "y + (r - tp) < H s" using rk fit by simp_all
    ultimately show "\<exists>c'. ?px r k c = Some c' \<and> colour_ok (W s) (H s) c' \<and> painted (W s) (H s) (colour_px (W s))
        (\<lambda>i j v. if i = x + k - 0 \<and> j = y + r - tp then jpg_buffer p ! (r * jpg_width p + left + k) else v) c c'"
      using colour.put_law[OF c, of "x + k" "y + (r - tp)" "jpg_buffer p ! (r * jpg_width p + left + k)"] rk(1)
      by (simp add: Nat.add_diff_assoc)
  qed (use fit in simp_all)
  then obtain fb where fb: "for_range tp re (\<lambda>i. for_range 0 (ce - left) (?px i)) (framebuffer s) = Some fb"
      "colour_ok (W s) (H s) fb"
      "painted (W s) (H s) (colour_px (W s))
        (\<lambda>i j v. if x \<le> i \<and> i < x + (ce - left) \<and> y \<le> j \<and> j < y + (re - tp)
               then jpg_buffer p ! ((tp + (j - y)) * jpg_width p + left + (0 + (i - x))) else v) (framebuffer s) fb"
    unfolding diff_zero by blast
  moreover have "put_jpg_file_buff (Some p) x y left tp right bottom s =
      for_range tp re (\<lambda>i. for_range 0 (ce - left) (?px i)) (framebuffer s) \<bind>
        (\<lambda>fb. Some (s\<lparr>framebuffer := fb\<rparr>, True))"
    unfolding put_jpg_file_buff_def Let_def ce(1) re(1) crop_right_def crop_bottom_def
    using le by (auto simp: Suc_diff_le)
  ultimately have "put_jpg_file_buff (Some p) x y left tp right bottom s = Some (s\<lparr>framebuffer := fb\<rparr>, True)"
    by simp
  with fb(2,3) show ?thesis unfolding add_0 add.assoc by blast
qed

section \<open>The pixels of a PNG picture\<close>

text \<open>
  The colour of a 16-bit panel as a number, from components of 8 bits and back; on the SPI bus its bytes are exchanged in the
  buffer. A mixture of two components with the opacity \<open>a\<close> of the first.
\<close>

definition rgb565 :: "nat \<Rightarrow> nat \<Rightarrow> nat \<Rightarrow> nat" where
  "rgb565 r g b = r div 8 * 2048 + g div 4 * 32 + b div 8"

definition in_buffer :: "disp_st \<Rightarrow> nat \<Rightarrow> nat" where
  "in_buffer s c = (if lcd_bus s = PLATFORM_LCD_BUS_SPI then c mod 256 * 256 + c div 256 else c)"

definition mixed :: "nat \<Rightarrow> nat \<Rightarrow> nat \<Rightarrow> nat" where
  "mixed a f b = (f * a + b * (255 - a)) div 255"

definition mixed565 :: "nat \<Rightarrow> nat \<Rightarrow> nat \<Rightarrow> nat \<Rightarrow> nat \<Rightarrow> nat" where
  "mixed565 a r g b below =
     rgb565 (mixed a r (below div 2048 * 8)) (mixed a g (below div 32 mod 64 * 4)) (mixed a b (below mod 32 * 8))"

text \<open>
  What a pixel of a picture leaves of the number \<open>old\<close> in the buffer. The colour key \<open>transcolor\<close>, if there is one, is not
  drawn, but in mode 2. A pixel without opacity is drawn as it is. In mode 0 only a pixel of opacity 0 is
  transparent, in mode 1 the opacity counts, and in mode 2 a pixel that is not transparent has the opacity \<open>transcolor\<close>.
\<close>

definition png_shown :: "disp_st \<Rightarrow> int \<Rightarrow> int \<Rightarrow> nat \<Rightarrow> u8 list \<Rightarrow> nat \<Rightarrow> nat \<Rightarrow> nat" where
  "png_shown s transcolor transtype ch row k old =
     (let r = unat (row ! (k * ch + 2)); g = unat (row ! (k * ch + 1)); b = unat (row ! (k * ch));
          a = unat (row ! (k * ch + 3)); colour = rgb565 r g b
      in if transcolor \<noteq> -1 \<and> transcolor = int colour \<and> transtype \<noteq> 2 then old
         else if ch = 3 then in_buffer s colour
         else if transtype = 0 then if a = 0 then old else in_buffer s colour
         else if transtype = 1 then in_buffer s (mixed565 a r g b (in_buffer s old))
         else if transtype = 2 then
           if a = 0 then old else in_buffer s (mixed565 (nat (transcolor mod 256)) r g b (in_buffer s old))
         else in_buffer s colour)"

lemma and_window: "y AND push_bit k (mask n) = y div 2 ^ k mod 2 ^ n * (2 :: nat) ^ k"
proof -
  have "y AND push_bit k (mask n) = push_bit k (take_bit n (drop_bit k y))"
    by (rule bit_eqI) (auto simp: bit_simps)
  then show ?thesis by (simp add: push_bit_eq_mult take_bit_eq_mod drop_bit_eq_div)
qed

lemma or_low: "b < 2 ^ k \<Longrightarrow> a * 2 ^ k OR b = a * 2 ^ k + (b :: nat)"
proof -
  assume b: "b < 2 ^ k"
  have "push_bit k a AND take_bit k b = 0" by (rule bit_eqI) (auto simp: bit_simps)
  from disjunctive_add_eq_or [OF this] show ?thesis using b by (simp add: push_bit_eq_mult take_bit_nat_eq_self)
qed

lemma unat_window:
  "unat (x AND 0xF8 :: u16) = unat x div 8 mod 32 * 8" "unat (x AND 0xFC :: u16) = unat x div 4 mod 64 * 4"
  "unat (z AND 0xFF :: u32) = unat z mod 256"
  using and_window [of "unat x" 3 5] and_window [of "unat x" 2 6] and_window [of "unat z" 0 8]
  by (simp_all add: unsigned_and_eq mask_eq_exp_minus_1 push_bit_eq_mult)

lemma unat_shifts:
  "unat (push_bit 8 x :: u16) = unat x * 256 mod 65536" "unat (push_bit 3 x :: u16) = unat x * 8 mod 65536"
  "unat (push_bit 8 z :: u32) = unat z * 256 mod 4294967296"
  by (simp_all add: push_bit_eq_mult unat_word_ariths)

lemma unat_drop: "unat (drop_bit n (w :: 'w::len word)) = unat w div 2 ^ n"
  unfolding unat_drop_bit_eq by (simp add: drop_bit_eq_div)

lemma unat_u16_less: "unat (x :: u16) < 65536"
  using unsigned_less [of x, where 'a = nat] by simp

lemma unat_RGB24ToRGB16: "unat (RGB24ToRGB16 (ucast r) (ucast g) (ucast (b :: u8))) = rgb565 (unat (r :: u8)) (unat (g :: u8)) (unat b)"
proof -
  have up: "unat (ucast x :: u16) = unat x" for x :: u8
    using unat_u8_less [of x] by (simp add: unsigned_ucast_eq take_bit_nat_eq_self)
  have rgb: "unat r < 256" "unat g < 256" "unat b < 256" by (rule unat_u8_less)+
  then have d: "unat r div 8 mod 32 = unat r div 8" "unat g div 4 mod 64 = unat g div 4" "unat b div 8 mod 32 = unat b div 8"
    by (simp_all add: less_mult_imp_div_less)
  have "unat r div 8 < 32" "unat g div 4 < 64" using rgb by (simp_all add: less_mult_imp_div_less)
  then have m: "unat r div 8 * 8 * 256 mod 65536 = unat r div 8 * 2048" "unat g div 4 * 4 * 8 mod 65536 = unat g div 4 * 32" by simp_all
  have "unat (RGB24ToRGB16 (ucast r) (ucast g) (ucast b)) = unat r div 8 * 2048 OR (unat g div 4 * 32 OR unat b div 8 * 8 div 2 ^ 3)"
    by (simp only: RGB24ToRGB16_def unsigned_or_eq or.assoc unat_shifts unat_window unat_drop up d m)
  also have "unat b div 8 * 8 div 2 ^ 3 = unat b div 8" by simp
  also have "unat g div 4 * 32 OR unat b div 8 = unat g div 4 * 32 + unat b div 8"
    using or_low [of "unat b div 8" 5 "unat g div 4"] rgb(3) by (simp add: less_mult_imp_div_less)
  also have "unat r div 8 * 2048 OR \<dots> = unat r div 8 * 2048 + (unat g div 4 * 32 + unat b div 8)"
  proof -
    have "unat g div 4 < 64" "unat b div 8 < 32" using rgb by (simp_all add: less_mult_imp_div_less)
    then have "unat g div 4 * 32 + unat b div 8 < 2048" by simp
    then show ?thesis using or_low [of "unat g div 4 * 32 + unat b div 8" 11 "unat r div 8"] by simp
  qed
  finally show ?thesis by (simp add: rgb565_def)
qed

lemma unat_components:
  "red_of t = unat t div 2048 * 8" "green_of t = unat t div 32 mod 64 * 4" "blue_of t = unat t mod 32 * 8"
proof -
  have t: "unat t < 65536" by (rule unat_u16_less)
  then have "unat t div 2 ^ 8 div 8 mod 32 = unat t div 2048"
    by (simp add: div_mult2_eq [symmetric] less_mult_imp_div_less)
  then show "red_of t = unat t div 2048 * 8" by (simp only: red_of_def unat_window unat_drop)
  have "unat t div 2 ^ 3 div 4 = unat t div 32" by (simp add: div_mult2_eq [symmetric])
  then show "green_of t = unat t div 32 mod 64 * 4" by (simp only: green_of_def unat_window unat_drop)
  have "unat t * 8 mod 65536 = unat t mod 8192 * 8" using mult_mod_right [of 8 "unat t" 8192] by (simp add: mult.commute)
  then have "unat t * 8 mod 65536 div 8 mod 32 = unat t mod 32" by (simp add: mod_mod_cancel)
  then show "blue_of t = unat t mod 32 * 8" by (simp only: blue_of_def unat_window unat_shifts)
qed

lemma unat_bus16: "unat (bus16 s (ucast (x :: u16))) = in_buffer s (unat x)"
proof -
  have x: "unat x < 65536" by (rule unat_u16_less)
  have up: "unat (ucast x :: u32) = unat x" using x by (simp add: unsigned_ucast_eq unsigned_take_bit_eq take_bit_nat_eq_self)
  have lo: "unat x mod 256 < 256" by simp
  then have m: "unat x mod 256 * 256 mod 4294967296 = unat x mod 256 * 256" by simp
  have hi: "unat x div 2 ^ 8 < 256" using x by (simp add: less_mult_imp_div_less)
  have "unat (drop_bit 8 (ucast x :: u32) OR push_bit 8 (ucast x AND 0xFF)) = unat x div 2 ^ 8 OR unat x mod 256 * 256"
    by (simp only: unsigned_or_eq unat_drop unat_shifts unat_window up m)
  also have "\<dots> = unat x mod 256 * 256 + unat x div 256"
    using or_low [of "unat x div 2 ^ 8" 8 "unat x mod 256"] hi by (simp add: or.commute)
  finally have s: "unat (drop_bit 8 (ucast x :: u32) OR push_bit 8 (ucast x AND 0xFF)) = unat x mod 256 * 256 + unat x div 256" .
  have "unat x mod 256 * 256 + unat x div 256 < 65536" using lo hi by simp
  then have "unat (ucast (drop_bit 8 (ucast x :: u32) OR push_bit 8 (ucast x AND 0xFF)) :: u16) = unat x mod 256 * 256 + unat x div 256"
    unfolding unsigned_ucast_eq s by (simp add: take_bit_nat_eq_self)
  moreover have "unat (ucast (ucast x :: u32) :: u16) = unat x" using x by (simp add: unsigned_ucast_eq unsigned_take_bit_eq take_bit_nat_eq_self)
  ultimately show ?thesis unfolding bus16_def in_buffer_def by (cases "lcd_bus s = PLATFORM_LCD_BUS_SPI") simp_all
qed

lemma in_buffer_twice: "c < 65536 \<Longrightarrow> in_buffer s (in_buffer s c) = c"
proof -
  assume "c < 65536"
  then have "c div 256 < 256" by (simp add: less_mult_imp_div_less)
  then show ?thesis by (simp add: in_buffer_def)
qed

lemma blend255_mixed: "f < 256 \<Longrightarrow> b < 256 \<Longrightarrow> unat (blend255 f b a) = mixed (unat a) f b"
proof -
  assume fb: "f < 256" "b < 256"
  have a: "unat a \<le> 255" using unat_u8_less [of a] by simp
  have "mixed (unat a) f b \<le> max f b" unfolding mixed_def by (rule convex_nat [OF _ _ a]) simp_all
  then have "mixed (unat a) f b < 256" using fb by simp
  then show ?thesis by (simp add: blend255_def mixed_def unsigned_of_nat take_bit_nat_eq_self)
qed

lemma png_blend16_mixed:
  "unat (png_blend16 s transcolor transtype fr fg fb alpha old) = in_buffer s (mixed565
     (if transtype = 2 \<and> alpha \<noteq> 0 then nat (transcolor mod 256) else unat alpha) (unat fr) (unat fg) (unat fb) (in_buffer s (unat old)))"
proof -
  let ?a = "if transtype = 2 \<and> alpha \<noteq> 0 then word_of_int transcolor else alpha" and ?t = "bus16 s (ucast old)"
  have a: "unat ?a = (if transtype = 2 \<and> alpha \<noteq> 0 then nat (transcolor mod 256) else unat alpha)"
  proof -
    have "unat (word_of_int transcolor :: u8) = nat (transcolor mod 256)"
      by (simp only: unat_eq_nat_uint uint_word_of_int_eq) (simp add: take_bit_eq_mod)
    then show ?thesis by simp
  qed
  have t: "unat ?t < 65536" by (rule unat_u16_less)
  have "unat ?t div 2048 < 32" using t by (simp add: less_mult_imp_div_less)
  moreover have "unat ?t div 32 mod 64 < 64" "unat ?t mod 32 < 32" by simp_all
  ultimately have "unat ?t div 2048 * 8 < 256" "unat ?t div 32 mod 64 * 4 < 256" "unat ?t mod 32 * 8 < 256" by linarith+
  note b = this [unfolded unat_bus16]
  show ?thesis
    unfolding png_blend16_def Let_def unat_bus16 [of s "RGB24ToRGB16 _ _ _"] unat_RGB24ToRGB16 mixed565_def a [symmetric] unat_components
      blend255_mixed [OF unat_u8_less b(1)] blend255_mixed [OF unat_u8_less b(2)] blend255_mixed [OF unat_u8_less b(3)] unat_bus16 ..
qed

lemma mixed565_0: "c < 65536 \<Longrightarrow> mixed565 0 r g b c = c"
proof -
  assume c: "c < 65536"
  have "mixed 0 x y = y" for x y by (simp add: mixed_def)
  moreover have "c div 2048 * 2048 + c div 32 mod 64 * 32 + c mod 32 = c"
  proof -
    have "c div 2048 = c div 32 div 64" by (simp add: div_mult2_eq [symmetric])
    then show ?thesis using div_mult_mod_eq [of c 32] div_mult_mod_eq [of "c div 32" 64] by linarith
  qed
  ultimately show ?thesis by (simp add: mixed565_def rgb565_def)
qed

lemma png_ink_shown:
  assumes ch: "ch = 3 \<or> ch = 4"
  shows "unat (png_ink s transcolor transtype ch row k old) = png_shown s transcolor transtype ch row k (unat old)"
proof -
  let ?r = "row ! (k * ch + 2)" and ?g = "row ! (k * ch + 1)" and ?b = "row ! (k * ch)" and ?a = "row ! (k * ch + 3)"
  let ?c = "RGB24ToRGB16 (ucast ?r) (ucast ?g) (ucast ?b)"
  have ib: "in_buffer s (unat old) < 65536" using unat_u16_less [of "bus16 s (ucast old)"] by (simp only: unat_bus16)
  have key: "png_draws transcolor transtype ?c \<longleftrightarrow> \<not> (transcolor \<noteq> -1 \<and> transcolor = int (rgb565 (unat ?r) (unat ?g) (unat ?b)) \<and> transtype \<noteq> 2)"
    unfolding png_draws_def unat_RGB24ToRGB16 [symmetric] by auto
  have keep: "in_buffer s (mixed565 0 r g b (in_buffer s (unat old))) = unat old" for r g b
    using ib in_buffer_twice [OF unat_u16_less [of old]] by (simp add: mixed565_0)
  have a0: "unat ?a = 0 \<longleftrightarrow> ?a = 0" by (simp add: unat_eq_0)
  show ?thesis
  proof (cases "png_draws transcolor transtype ?c")
    case True
    note drawn = True [unfolded key]
    from ch show ?thesis
    proof
      assume "ch = 3"
      then show ?thesis unfolding png_ink_def png_shown_def Let_def if_not_P [OF drawn] using True
        by (simp only: png_blends_def unat_bus16 unat_RGB24ToRGB16 if_False if_True simp_thms)
            (simp add: unat_bus16 unat_RGB24ToRGB16)
    next
      assume ch: "ch = 4"
      then have blends: "png_blends transtype ch ?a \<longleftrightarrow> transtype = 0 \<and> ?a = 0 \<or> transtype = 1 \<or> transtype = 2"
        by (simp add: png_blends_def)
      show ?thesis unfolding png_ink_def png_shown_def Let_def if_not_P [OF drawn] using True ch a0 blends keep
        by (cases "transtype = 0"; cases "transtype = 1"; cases "transtype = 2"; cases "?a = 0")
          (simp_all add: png_blend16_mixed unat_bus16 unat_RGB24ToRGB16)
    qed
  next
    case False
    then show ?thesis unfolding png_ink_def png_shown_def Let_def using key by auto
  qed
qed

lemma png_ink_eq: "ch = 3 \<or> ch = 4 \<Longrightarrow> png_ink s transcolor transtype ch row k old = of_nat (png_shown s transcolor transtype ch row k (unat old))"
  unfolding png_ink_shown [symmetric] by simp

section \<open>Properties\<close>

text \<open>
  C17. A whole BMP picture of 16 or 24 bits is drawn exactly: its pixel in column \<open>c\<close> and row
  \<open>r\<close>, stored bottom up in padded rows, appears at \<open>(x + c, y + r)\<close> in the byte order of the
  bus, clipped to the screen, unless it has the transparent colour.
\<close>

theorem bmp_drawn_exactly:
  assumes "lcd_bpp s = 16" and "disp_ok s" and "bmp_sound buf hdr" and "x < 65536" and "y < 65536"
  shows "\<exists>fb. put_bmp_file_buff buf x y transcolor 0 0 0 0 s = Some (s\<lparr>framebuffer := fb\<rparr>, True) \<and>
    painted (W s) (H s) (colour_px (W s))
      (\<lambda>i j v. if x \<le> i \<and> i < x + unat (bmp_width hdr) \<and> y \<le> j \<and> j < y + unat (bmp_height hdr) \<and>
                  (transcolor = -1 \<or> uint (bmp_colour buf hdr (i - x) (j - y)) \<noteq> transcolor)
               then bus16 s (ucast (bmp_colour buf hdr (i - x) (j - y))) else v) (framebuffer s) fb"
proof -
  have "colour_ok (W s) (H s) (framebuffer s)" using assms(1,2) by (simp add: disp_ok_def)
  from put_bmp_whole[OF assms(1) this assms(3-5)] show ?thesis by blast
qed

definition sample_bmp :: "u8 list" where
  "sample_bmp = [0x42, 0x4D, 0, 0, 0, 0, 0, 0, 0, 0, 54, 0, 0, 0, 40, 0, 0, 0, 1, 0, 0, 0, 2, 0, 0, 0, 1, 0, 24, 0,
     0, 0, 0, 0, 0, 0, 0, 0, 0, 0, 0, 0, 0, 0, 0, 0, 0, 0, 0, 0, 0, 0, 0, 0, 0xF8, 0, 0, 0, 0, 0, 0xF8, 0]"

lemma sample_bmp_sound:
  "bmp_sound sample_bmp \<lparr>bitmap_offset = 54, bmp_width = 1, bmp_height = 2, number_of_planes = 1, bits_per_pixel = 24\<rparr>"
  by (simp add: bmp_sound_def bmp_header_of_def sample_bmp_def le32_at_def le16_at_def ld_def le16_def
      bmp_row_bytes_def)

lemma sample_bmp_colours:
  "bmp_colour sample_bmp \<lparr>bitmap_offset = 54, bmp_width = 1, bmp_height = 2, number_of_planes = 1, bits_per_pixel = 24\<rparr> 0 0 = 0xF800"
  "bmp_colour sample_bmp \<lparr>bitmap_offset = 54, bmp_width = 1, bmp_height = 2, number_of_planes = 1, bits_per_pixel = 24\<rparr> 0 (Suc 0) = 0x001F"
  by (simp_all add: bmp_colour_def bmp_row_bytes_def RGB24ToRGB16_def sample_bmp_def)

theorem bmp_drawn_exactly_witness:
  "\<exists>fb. put_bmp_file_buff sample_bmp 1 2 (-1) 0 0 0 0 colour_disp = Some (colour_disp\<lparr>framebuffer := fb\<rparr>, True) \<and>
     colour_px 4 fb 1 2 = 0xF800 \<and> colour_px 4 fb 1 3 = 0x001F"
  using bmp_drawn_exactly[OF _ sample_disp_ok(2) sample_bmp_sound, of 1 2 "-1"]
  by (auto simp: colour_disp_def blank_disp_def painted_def bus16_def sample_bmp_colours)

text \<open>
  C18. A PNG picture, or a crop of it, that fits the screen is drawn exactly on a 16-bit panel:
  each pixel of the crop is skipped, mixed with the pixel under it or copied, as its colour,
  its opacity, the colour key and the mode say (\<open>png_shown\<close>, in numbers), and no other pixel changes.
\<close>

theorem png_drawn_exactly:
  assumes "lcd_bpp s = 16" and "disp_ok s" and "png_sound p"
    and "ce = crop_right (png_width p) left tp right bottom" and "ce \<le> png_width p"
    and "re = crop_bottom (png_height p) left tp right bottom" and "re \<le> png_height p"
    and "left \<le> right" and "tp \<le> bottom" and "x + (ce - left) \<le> W s" and "y + (re - tp) \<le> H s"
  shows "\<exists>fb. put_png_file_buff (Some p) x y transcolor left tp right bottom transtype s =
      Some (s\<lparr>framebuffer := fb\<rparr>, True) \<and>
    painted (W s) (H s) (colour_px (W s))
      (\<lambda>i j v. if x \<le> i \<and> i < x + (ce - left) \<and> y \<le> j \<and> j < y + (re - tp)
               then of_nat (png_shown s transcolor transtype (png_channels p) (png_rows p ! (tp + (j - y))) (left + (i - x)) (unat v))
               else v) (framebuffer s) fb"
proof -
  have "colour_ok (W s) (H s) (framebuffer s)" using assms(1,2) by (simp add: disp_ok_def)
  note region = put_png_region[OF assms(1) this assms(3-11)]
  have "png_channels p = 3 \<or> png_channels p = 4" using assms(3) by (simp add: png_sound_def)
  from region[unfolded png_ink_eq[OF this]] show ?thesis by blast
qed

lemma half_opaque_blue: "png_shown colour_disp (-1) 1 4 [255, 0, 0, 128] 0 0 = 16"
  by (simp add: png_shown_def Let_def rgb565_def mixed565_def mixed_def in_buffer_def colour_disp_def blank_disp_def)

theorem png_drawn_exactly_witness:
  "\<exists>fb. put_png_file_buff (Some \<lparr>png_width = 1, png_height = 1, png_channels = 4, png_rows = [[255, 0, 0, 128]]\<rparr>)
     2 1 (-1) 0 0 0 0 1 colour_disp = Some (colour_disp\<lparr>framebuffer := fb\<rparr>, True) \<and> colour_px 4 fb 2 1 = 0x0010"
proof -
  let ?p = "\<lparr>png_width = 1, png_height = 1, png_channels = 4, png_rows = [[255, 0, 0, 128]]\<rparr>"
  have d: "lcd_bpp colour_disp = 16" "W colour_disp = 4" "H colour_disp = 4" "colour_px 4 (framebuffer colour_disp) 2 1 = 0"
    by (simp_all add: colour_disp_def blank_disp_def colour_px_def)
  obtain fb where fb: "put_png_file_buff (Some ?p) 2 1 (-1) 0 0 0 0 1 colour_disp = Some (colour_disp\<lparr>framebuffer := fb\<rparr>, True)"
      and px: "painted 4 4 (colour_px 4) (\<lambda>i j v. if 2 \<le> i \<and> i < 2 + (1 - 0) \<and> 1 \<le> j \<and> j < 1 + (1 - 0)
        then of_nat (png_shown colour_disp (-1) 1 (png_channels ?p) (png_rows ?p ! (0 + (j - 1))) (0 + (i - 2)) (unat v)) else v)
        (framebuffer colour_disp) fb"
    using png_drawn_exactly[OF d(1) sample_disp_ok(2), of ?p 1 0 0 0 0 1 2 1 "-1" 1]
    unfolding d(2,3) by (auto simp: png_sound_def crop_right_def crop_bottom_def)
  have "colour_px 4 fb 2 1 = 0x0010" using px half_opaque_blue d(4) by (auto simp: painted_def)
  then show ?thesis using fb by blast
qed

text \<open>
  Blending never leaves the interval between the picture's component and the screen's:
  the quotients fit a byte on both panels, without wrap-around.
\<close>

theorem blend_between_colours:
  "min f b \<le> blend256 f b p \<and> blend256 f b p \<le> max f b \<and>
   min (unat f) (unat b) \<le> unat (blend255 (unat f) (unat b) p) \<and>
   unat (blend255 (unat f) (unat b) p) \<le> max (unat f) (unat b)"
  using blend256_between[of f b p] blend255_between[OF unat_u8_less[of f] unat_u8_less[of b], of p] by simp

text \<open>
  A decoded JPEG picture, or a crop of it, that fits the screen is copied exactly.
\<close>

theorem jpg_drawn_exactly:
  assumes "disp_ok s" and "lcd_bpp s \<noteq> 1" and "jpg_sound p"
    and "ce = crop_right (jpg_width p) left tp right bottom" and "ce \<le> jpg_width p"
    and "re = crop_bottom (jpg_height p) left tp right bottom" and "re \<le> jpg_height p"
    and "left \<le> right" and "tp \<le> bottom" and "x + (ce - left) \<le> W s" and "y + (re - tp) \<le> H s"
  shows "\<exists>fb. put_jpg_file_buff (Some p) x y left tp right bottom s = Some (s\<lparr>framebuffer := fb\<rparr>, True) \<and>
    painted (W s) (H s) (colour_px (W s))
      (\<lambda>i j v. if x \<le> i \<and> i < x + (ce - left) \<and> y \<le> j \<and> j < y + (re - tp)
               then jpg_buffer p ! ((tp + (j - y)) * jpg_width p + (left + (i - x))) else v) (framebuffer s) fb"
proof -
  have "colour_ok (W s) (H s) (framebuffer s)" using assms(1,2) by (simp add: disp_ok_def)
  from put_jpg_region[OF this assms(3-11)] show ?thesis by blast
qed

theorem jpg_drawn_exactly_witness:
  "\<exists>fb. put_jpg_file_buff (Some \<lparr>jpg_width = 2, jpg_height = 1, jpg_buffer = [7, 9]\<rparr>) 2 1 0 0 0 0 colour_disp =
     Some (colour_disp\<lparr>framebuffer := fb\<rparr>, True) \<and> colour_px 4 fb 3 1 = 9"
  using jpg_drawn_exactly[of colour_disp "\<lparr>jpg_width = 2, jpg_height = 1, jpg_buffer = [7, 9]\<rparr>"
      2 0 0 0 0 1 2 1] sample_disp_ok(2)
  by (auto simp: colour_disp_def blank_disp_def jpg_sound_def crop_right_def crop_bottom_def painted_def)

end
