(* ===== verification/Pio.thy ===== *)
theory Pio
  imports Openat
begin

text \<open>
  General purpose I/O: the platform layer of \<^verbatim>\<open>platform/coolsand/src/platform.c\<close> (pins,
  their interrupts, the mapping to the chip's GPIO numbers), the pin counts of
  \<^verbatim>\<open>platform/src/common.c\<close> and the Lua module \<^verbatim>\<open>modules/src/pio.c\<close>.
  The GPIO driver is not part of the program: a \<open>gpio_env\<close> says what it answers, given the
  calls made before.
\<close>

section \<open>Pin codes (platform.h)\<close>

definition PLATFORM_IO_ENCODE :: "u32 \<Rightarrow> u32 \<Rightarrow> bool \<Rightarrow> u32" where
  "PLATFORM_IO_ENCODE port pin full = push_bit 5 port OR pin OR (if full then push_bit 14 1 else 0)"

definition PLATFORM_IO_GET_PORT :: "u32 \<Rightarrow> u32" where
  "PLATFORM_IO_GET_PORT code = drop_bit 5 code AND (push_bit 4 1 - 1)"

definition PLATFORM_IO_GET_PIN :: "u32 \<Rightarrow> u32" where
  "PLATFORM_IO_GET_PIN code = code AND (push_bit 5 1 - 1)"

definition PLATFORM_IO_IS_PORT :: "u32 \<Rightarrow> bool" where
  "PLATFORM_IO_IS_PORT code \<longleftrightarrow> code AND push_bit 14 1 \<noteq> 0"

definition PLATFORM_IO_UNKNOWN_PIN :: u32 where "PLATFORM_IO_UNKNOWN_PIN = 0xFFFFFFFE"
definition PLATFORM_IO_ALL_PINS :: u32 where "PLATFORM_IO_ALL_PINS = 0xFFFFFFFF"
definition PLATFORM_IO_PORTS :: nat where "PLATFORM_IO_PORTS = 16"

datatype pio_op =
    PLATFORM_IO_PIN_SET
  | PLATFORM_IO_PIN_CLEAR
  | PLATFORM_IO_PIN_GET
  | PLATFORM_IO_PIN_DIR_INPUT
  | PLATFORM_IO_PIN_DIR_OUTPUT
  | PLATFORM_IO_PIN_DIR_OUTPUT1
  | PLATFORM_IO_PIN_DIR_INT
  | PLATFORM_IO_PIN_PULLUP
  | PLATFORM_IO_PIN_PULLDOWN
  | PLATFORM_IO_PIN_NOPULL
  | PLATFORM_IO_PIN_CLOSE
  | PLATFORM_IO_PORT_SET_VALUE
  | PLATFORM_IO_PORT_GET_VALUE
  | PLATFORM_IO_PORT_DIR_INPUT
  | PLATFORM_IO_PORT_DIR_OUTPUT

section \<open>Ports and GPIO numbers\<close>

definition NUM_PIO :: nat where "NUM_PIO = 2"
definition PIO_PIN_EX :: nat where "PIO_PIN_EX = 5"
definition PIO_PIN_ARRAY :: "nat list" where "PIO_PIN_ARRAY = [32, PIO_PIN_EX]"

definition openatGPIOEx :: "nat list" where "openatGPIOEx = [32, 33, 34, 35, 36]"

definition OPENAT_GPIO_UNKNOWN :: nat where "OPENAT_GPIO_UNKNOWN = 0xFF"

definition platform_pio_has_port :: "nat \<Rightarrow> bool" where
  "platform_pio_has_port port \<longleftrightarrow> port < NUM_PIO"

definition platform_pio_has_pin :: "nat \<Rightarrow> nat \<Rightarrow> bool" where
  "platform_pio_has_pin port pin \<longleftrightarrow> port < NUM_PIO \<and> pin < PIO_PIN_ARRAY ! port"

definition get_real_gpio :: "nat \<Rightarrow> nat \<Rightarrow> nat option" where
  "get_real_gpio port pin =
     (if port = 0 then Some pin
      else if port = 1 then ld openatGPIOEx pin
      else Some OPENAT_GPIO_UNKNOWN)"

text \<open>The search of the extended pins, from index \<open>pin\<close> on.\<close>

function pio_ex_search :: "nat \<Rightarrow> nat \<Rightarrow> u32" where
  "pio_ex_search gpio pin =
     (if pin < PIO_PIN_EX
      then if openatGPIOEx ! pin = gpio then PLATFORM_IO_ENCODE 1 (of_nat pin) False
           else pio_ex_search gpio (Suc pin)
      else PLATFORM_IO_UNKNOWN_PIN)"
  by pat_completeness auto
termination
  by (relation "measure (\<lambda>(gpio, pin). PIO_PIN_EX - pin)") auto

declare pio_ex_search.simps [simp del]

definition platform_get_pio_pin :: "nat \<Rightarrow> u32" where
  "platform_get_pio_pin openat_gpio =
     (if openat_gpio \<le> 31 then PLATFORM_IO_ENCODE 0 (of_nat openat_gpio) False
      else pio_ex_search openat_gpio 0)"

definition platform_pio_get_gpio_port :: "u32 \<Rightarrow> nat option" where
  "platform_pio_get_gpio_port port_pin =
     (if port_pin = PLATFORM_IO_UNKNOWN_PIN then Some OPENAT_GPIO_UNKNOWN
      else get_real_gpio (unat (PLATFORM_IO_GET_PORT port_pin)) (unat (PLATFORM_IO_GET_PIN port_pin)))"

text \<open>The interrupt callback: the message it sends, if any.\<close>

definition GpioIntCallback :: "nat \<Rightarrow> u8 \<Rightarrow> rtos_msg option" where
  "GpioIntCallback gpioNum state =
     (let pio_port_pin = platform_get_pio_pin gpioNum
      in if PLATFORM_IO_UNKNOWN_PIN \<noteq> pio_port_pin
         then Some (RTOS_MSG_INT (if state \<noteq> 0 then INT_GPIO_POSEDGE else INT_GPIO_NEGEDGE) pio_port_pin)
         else None)"

section \<open>The driver\<close>

datatype gpio_cfg =
    OPENAT_GPIO_INPUT_INT nat
  | OPENAT_GPIO_INPUT
  | OPENAT_GPIO_OUTPUT nat

datatype gpio_call =
    Config_gpio nat gpio_cfg
  | Set_gpio nat nat
  | Read_gpio nat
  | Close_gpio nat
  | Os_sleep nat

text \<open>
  What the driver answers after the calls made so far: the truth value of a call, and the
  level it reads (\<open>None\<close> when the read fails). The device drivers above it add their waits
  to the same list, so that a level may depend on them.
\<close>

record gpio_env =
  gpio_ok :: "gpio_call list \<Rightarrow> gpio_call \<Rightarrow> bool"
  gpio_level :: "gpio_call list \<Rightarrow> nat \<Rightarrow> u8 option"

section \<open>Pin operations of the platform\<close>

text \<open>The call of one pin: \<open>None\<close> for the operations that are not supported.\<close>

fun pin_call :: "pio_op \<Rightarrow> nat \<Rightarrow> gpio_call option" where
  "pin_call PLATFORM_IO_PIN_DIR_INT g = Some (Config_gpio g (OPENAT_GPIO_INPUT_INT 20))"
| "pin_call PLATFORM_IO_PIN_DIR_INPUT g = Some (Config_gpio g OPENAT_GPIO_INPUT)"
| "pin_call PLATFORM_IO_PIN_DIR_OUTPUT g = Some (Config_gpio g (OPENAT_GPIO_OUTPUT 0))"
| "pin_call PLATFORM_IO_PIN_DIR_OUTPUT1 g = Some (Config_gpio g (OPENAT_GPIO_OUTPUT 1))"
| "pin_call PLATFORM_IO_PIN_SET g = Some (Set_gpio g 1)"
| "pin_call PLATFORM_IO_PIN_CLEAR g = Some (Set_gpio g 0)"
| "pin_call PLATFORM_IO_PIN_CLOSE g = Some (Close_gpio g)"
| "pin_call _ g = None"

definition pin_step :: "gpio_env \<Rightarrow> pio_op \<Rightarrow> nat \<Rightarrow> gpio_call list \<Rightarrow> u32 \<times> gpio_call list" where
  "pin_step env op g h =
     (case pin_call op g of
        Some c \<Rightarrow> (if gpio_ok env h c then 1 else 0, h @ [c])
      | None \<Rightarrow> (0, h))"

text \<open>
  \<^verbatim>\<open>for(pin_index = 0; pin_index < total_pins; pin_index++)\<close>: reading returns at once, the
  other operations go on unless the mask holds only this pin.
\<close>

function pio_op_loop ::
    "gpio_env \<Rightarrow> nat \<Rightarrow> u32 \<Rightarrow> pio_op \<Rightarrow> nat \<Rightarrow> nat \<Rightarrow> u32 \<Rightarrow> gpio_call list \<Rightarrow> (u32 \<times> gpio_call list) option" where
  "pio_op_loop env port pinmask op total_pins pin_index retval h =
     (if pin_index < total_pins then
        if pinmask AND push_bit pin_index 1 \<noteq> 0 then do {
          realGpio \<leftarrow> get_real_gpio port pin_index;
          (if realGpio = OPENAT_GPIO_UNKNOWN then Some (0, h)
           else if op = PLATFORM_IO_PIN_GET
           then Some (case gpio_level env h realGpio of Some v \<Rightarrow> ucast v | None \<Rightarrow> 0xff, h @ [Read_gpio realGpio])
           else (case pin_step env op realGpio h of (retval, h) \<Rightarrow>
             if pinmask AND NOT (push_bit pin_index 1) = 0 then Some (retval, h)
             else pio_op_loop env port pinmask op total_pins (Suc pin_index) retval h))
        }
        else pio_op_loop env port pinmask op total_pins (Suc pin_index) retval h
      else Some (retval, h))"
  by pat_completeness auto
termination
  by (relation "measure (\<lambda>(env, port, pinmask, op, total_pins, pin_index, retval, h). total_pins - pin_index)") auto

declare pio_op_loop.simps [simp del]

definition platform_pio_op ::
    "gpio_env \<Rightarrow> nat \<Rightarrow> u32 \<Rightarrow> pio_op \<Rightarrow> gpio_call list \<Rightarrow> (u32 \<times> gpio_call list) option" where
  "platform_pio_op env port pinmask op h = do {
     total_pins \<leftarrow> ld PIO_PIN_ARRAY port;
     pio_op_loop env port pinmask op total_pins 0 1 h
   }"

section \<open>The Lua module (modules/src/pio.c)\<close>

record pio_st =
  pio_masks :: "u32 list"
  gpio_calls :: "gpio_call list"

definition pioh_clear_masks :: "pio_st \<Rightarrow> pio_st" where
  "pioh_clear_masks s = s\<lparr>pio_masks := replicate PLATFORM_IO_PORTS 0\<rparr>"

abbreviation port_of :: "u32 \<Rightarrow> nat" where "port_of v \<equiv> unat (PLATFORM_IO_GET_PORT v)"
abbreviation pin_of :: "u32 \<Rightarrow> nat" where "pin_of v \<equiv> unat (PLATFORM_IO_GET_PIN v)"

definition valid_pin :: "u32 \<Rightarrow> bool" where
  "valid_pin v \<longleftrightarrow>
     \<not> (PLATFORM_IO_IS_PORT v \<or> \<not> platform_pio_has_port (port_of v) \<or> \<not> platform_pio_has_pin (port_of v) (pin_of v))"

definition valid_port :: "u32 \<Rightarrow> bool" where
  "valid_port v \<longleftrightarrow> \<not> (\<not> PLATFORM_IO_IS_PORT v \<or> \<not> platform_pio_has_port (port_of v))"

text \<open>The masks of the named pins; \<open>False\<close> at the first one that is not valid.\<close>

fun pioh_pin_masks :: "u32 list \<Rightarrow> u32 list \<Rightarrow> u32 list \<times> bool" where
  "pioh_pin_masks [] masks = (masks, True)"
| "pioh_pin_masks (v # vs) masks =
     (if \<not> valid_pin v then (masks, False)
      else pioh_pin_masks vs (masks[port_of v := masks ! port_of v OR push_bit (pin_of v) 1]))"

fun pioh_port_mask :: "u32 list \<Rightarrow> u32 \<Rightarrow> u32 option" where
  "pioh_port_mask [] m = Some m"
| "pioh_port_mask (v # vs) m =
     (if \<not> valid_port v then None else pioh_port_mask vs (m OR push_bit (port_of v) 1))"

text \<open>The platform operation on every port \<open>i\<close> whose test holds, until one answers zero.\<close>

function pioh_exec ::
    "gpio_env \<Rightarrow> (nat \<Rightarrow> bool) \<Rightarrow> (nat \<Rightarrow> u32) \<Rightarrow> pio_op \<Rightarrow> nat \<Rightarrow> gpio_call list \<Rightarrow> (bool \<times> gpio_call list) option" where
  "pioh_exec env test masks op i h =
     (if i < PLATFORM_IO_PORTS then
        if test i then do {
          (r, h) \<leftarrow> platform_pio_op env i (masks i) op h;
          (if r = 0 then Some (False, h) else pioh_exec env test masks op (Suc i) h)
        }
        else pioh_exec env test masks op (Suc i) h
      else Some (True, h))"
  by pat_completeness auto
termination
  by (relation "measure (\<lambda>(env, test, masks, op, i, h). PLATFORM_IO_PORTS - i)") auto

declare pioh_exec.simps [simp del]

definition pioh_set_pins :: "gpio_env \<Rightarrow> u32 list \<Rightarrow> pio_op \<Rightarrow> pio_st \<Rightarrow> (pio_st \<times> unit lua) option" where
  "pioh_set_pins env args op s =
     (case pioh_pin_masks args (pio_masks (pioh_clear_masks s)) of (masks, ok) \<Rightarrow>
        (let s = s\<lparr>pio_masks := masks\<rparr>
         in if \<not> ok then Some (s, Lua_error ''invalid pin'')
            else do {
              (done, h) \<leftarrow> pioh_exec env (\<lambda>i. masks ! i \<noteq> 0) (\<lambda>i. masks ! i) op 0 (gpio_calls s);
              Some (s\<lparr>gpio_calls := h\<rparr>,
                    if done then Lua_return () else Lua_error ''invalid PIO operation'')
            }))"

definition pioh_set_ports ::
    "gpio_env \<Rightarrow> u32 list \<Rightarrow> pio_op \<Rightarrow> u32 \<Rightarrow> pio_st \<Rightarrow> (pio_st \<times> unit lua) option" where
  "pioh_set_ports env args op pinmask s =
     (case pioh_port_mask args 0 of
        None \<Rightarrow> Some (s, Lua_error ''invalid port'')
      | Some port_mask \<Rightarrow> do {
          (done, h) \<leftarrow> pioh_exec env (\<lambda>i. port_mask AND push_bit i 1 \<noteq> 0) (\<lambda>i. pinmask) op 0 (gpio_calls s);
          Some (s\<lparr>gpio_calls := h\<rparr>,
                if done then Lua_return () else Lua_error ''invalid PIO operation'')
        })"

definition PIO_DIR_OUTPUT :: int where "PIO_DIR_OUTPUT = 0"
definition PIO_DIR_INPUT :: int where "PIO_DIR_INPUT = 1"
definition PIO_DIR_OUTPUT1 :: int where "PIO_DIR_OUTPUT1 = 2"

datatype optype = PIO_PORT_OP | PIO_PIN_OP

text \<open>The Lua constant \<^verbatim>\<open>pio.INT\<close> is the number of the enumerator \<^verbatim>\<open>PLATFORM_IO_PIN_DIR_INT\<close>, 6.\<close>

definition setdir_op :: "optype \<Rightarrow> int \<Rightarrow> pio_op option" where
  "setdir_op ty op =
     (if op = PIO_DIR_INPUT
      then Some (if ty = PIO_PIN_OP then PLATFORM_IO_PIN_DIR_INPUT else PLATFORM_IO_PORT_DIR_INPUT)
      else if op = PIO_DIR_OUTPUT
      then Some (if ty = PIO_PIN_OP then PLATFORM_IO_PIN_DIR_OUTPUT else PLATFORM_IO_PORT_DIR_OUTPUT)
      else if op = PIO_DIR_OUTPUT1
      then Some (if ty = PIO_PIN_OP then PLATFORM_IO_PIN_DIR_OUTPUT1 else PLATFORM_IO_PORT_DIR_OUTPUT)
      else if \<not> (ty = PIO_PIN_OP \<and> op = 6) then None
      else Some PLATFORM_IO_PIN_DIR_INT)"

definition pio_gen_setdir ::
    "gpio_env \<Rightarrow> optype \<Rightarrow> int \<Rightarrow> u32 list \<Rightarrow> pio_st \<Rightarrow> (pio_st \<times> unit lua) option" where
  "pio_gen_setdir env ty op args s =
     (case setdir_op ty op of
        None \<Rightarrow> Some (s, Lua_error ''invalid direction'')
      | Some op \<Rightarrow>
          if ty = PIO_PIN_OP then pioh_set_pins env args op s
          else pioh_set_ports env args op PLATFORM_IO_ALL_PINS s)"

definition setpull_op :: "int \<Rightarrow> pio_op option" where
  "setpull_op op = (if op = 7 then Some PLATFORM_IO_PIN_PULLUP
                    else if op = 8 then Some PLATFORM_IO_PIN_PULLDOWN
                    else if op = 9 then Some PLATFORM_IO_PIN_NOPULL else None)"

definition pio_gen_setpull ::
    "gpio_env \<Rightarrow> optype \<Rightarrow> int \<Rightarrow> u32 list \<Rightarrow> pio_st \<Rightarrow> (pio_st \<times> unit lua) option" where
  "pio_gen_setpull env ty op args s =
     (case setpull_op op of
        None \<Rightarrow> Some (s, Lua_error ''invalid pull type'')
      | Some op \<Rightarrow>
          if ty = PIO_PIN_OP then pioh_set_pins env args op s
          else pioh_set_ports env args op PLATFORM_IO_ALL_PINS s)"

definition pio_gen_setval ::
    "gpio_env \<Rightarrow> optype \<Rightarrow> u32 \<Rightarrow> u32 list \<Rightarrow> pio_st \<Rightarrow> (pio_st \<times> unit lua) option" where
  "pio_gen_setval env ty val args s =
     (if ty = PIO_PIN_OP \<and> val \<noteq> 1 \<and> val \<noteq> 0 then Some (s, Lua_error ''invalid pin value'')
      else if ty = PIO_PIN_OP
      then pioh_set_pins env args (if val = 1 then PLATFORM_IO_PIN_SET else PLATFORM_IO_PIN_CLEAR) s
      else pioh_set_ports env args PLATFORM_IO_PORT_SET_VALUE val s)"

definition pio_pin_setdir :: "gpio_env \<Rightarrow> int \<Rightarrow> u32 list \<Rightarrow> pio_st \<Rightarrow> (pio_st \<times> unit lua) option" where
  "pio_pin_setdir env v args s = pio_gen_setdir env PIO_PIN_OP v args s"

definition pio_pin_setpull :: "gpio_env \<Rightarrow> int \<Rightarrow> u32 list \<Rightarrow> pio_st \<Rightarrow> (pio_st \<times> unit lua) option" where
  "pio_pin_setpull env v args s = pio_gen_setpull env PIO_PIN_OP v args s"

definition pio_pin_setval :: "gpio_env \<Rightarrow> u32 \<Rightarrow> u32 list \<Rightarrow> pio_st \<Rightarrow> (pio_st \<times> unit lua) option" where
  "pio_pin_setval env v args s = pio_gen_setval env PIO_PIN_OP v args s"

definition pio_port_setdir :: "gpio_env \<Rightarrow> int \<Rightarrow> u32 list \<Rightarrow> pio_st \<Rightarrow> (pio_st \<times> unit lua) option" where
  "pio_port_setdir env v args s = pio_gen_setdir env PIO_PORT_OP v args s"

definition pio_port_setpull :: "gpio_env \<Rightarrow> int \<Rightarrow> u32 list \<Rightarrow> pio_st \<Rightarrow> (pio_st \<times> unit lua) option" where
  "pio_port_setpull env v args s = pio_gen_setpull env PIO_PORT_OP v args s"

definition pio_pin_close :: "gpio_env \<Rightarrow> u32 list \<Rightarrow> pio_st \<Rightarrow> (pio_st \<times> unit lua) option" where
  "pio_pin_close env args s = pioh_set_pins env args PLATFORM_IO_PIN_CLOSE s"

definition pio_pin_sethigh :: "gpio_env \<Rightarrow> u32 list \<Rightarrow> pio_st \<Rightarrow> (pio_st \<times> unit lua) option" where
  "pio_pin_sethigh env args s = pio_gen_setval env PIO_PIN_OP 1 args s"

definition pio_pin_setlow :: "gpio_env \<Rightarrow> u32 list \<Rightarrow> pio_st \<Rightarrow> (pio_st \<times> unit lua) option" where
  "pio_pin_setlow env args s = pio_gen_setval env PIO_PIN_OP 0 args s"

definition pio_port_setval :: "gpio_env \<Rightarrow> u32 \<Rightarrow> u32 list \<Rightarrow> pio_st \<Rightarrow> (pio_st \<times> unit lua) option" where
  "pio_port_setval env val args s = pio_gen_setval env PIO_PORT_OP val args s"

definition pio_port_sethigh :: "gpio_env \<Rightarrow> u32 list \<Rightarrow> pio_st \<Rightarrow> (pio_st \<times> unit lua) option" where
  "pio_port_sethigh env args s = pio_gen_setval env PIO_PORT_OP PLATFORM_IO_ALL_PINS args s"

definition pio_port_setlow :: "gpio_env \<Rightarrow> u32 list \<Rightarrow> pio_st \<Rightarrow> (pio_st \<times> unit lua) option" where
  "pio_port_setlow env args s = pio_gen_setval env PIO_PORT_OP 0 args s"

text \<open>The values read so far are \<open>vals\<close>.\<close>

fun pin_getval_loop ::
    "gpio_env \<Rightarrow> u32 list \<Rightarrow> u32 list \<Rightarrow> gpio_call list \<Rightarrow> (gpio_call list \<times> u32 list lua) option" where
  "pin_getval_loop env [] vals h = Some (h, Lua_return vals)"
| "pin_getval_loop env (v # vs) vals h =
     (if \<not> valid_pin v then Some (h, Lua_error ''invalid pin'')
      else do {
        (value, h) \<leftarrow> platform_pio_op env (port_of v) (push_bit (pin_of v) 1) PLATFORM_IO_PIN_GET h;
        (if value = 0xff then Some (h, Lua_error ''pin.getval failed'')
         else pin_getval_loop env vs (vals @ [value]) h)
      })"

definition pio_pin_getval :: "gpio_env \<Rightarrow> u32 list \<Rightarrow> pio_st \<Rightarrow> (pio_st \<times> u32 list lua) option" where
  "pio_pin_getval env args s = do {
     (h, r) \<leftarrow> pin_getval_loop env args [] (gpio_calls s);
     Some (s\<lparr>gpio_calls := h\<rparr>, r)
   }"

fun port_getval_loop ::
    "gpio_env \<Rightarrow> u32 list \<Rightarrow> u32 list \<Rightarrow> gpio_call list \<Rightarrow> (gpio_call list \<times> u32 list lua) option" where
  "port_getval_loop env [] vals h = Some (h, Lua_return vals)"
| "port_getval_loop env (v # vs) vals h =
     (if \<not> valid_port v then Some (h, Lua_error ''invalid port'')
      else do {
        (value, h) \<leftarrow> platform_pio_op env (port_of v) PLATFORM_IO_ALL_PINS PLATFORM_IO_PORT_GET_VALUE h;
        port_getval_loop env vs (vals @ [value]) h
      })"

definition pio_port_getval :: "gpio_env \<Rightarrow> u32 list \<Rightarrow> pio_st \<Rightarrow> (pio_st \<times> u32 list lua) option" where
  "pio_port_getval env args s = do {
     (h, r) \<leftarrow> port_getval_loop env args [] (gpio_calls s);
     Some (s\<lparr>gpio_calls := h\<rparr>, r)
   }"

definition pio_decode :: "u32 \<Rightarrow> u32 \<times> u32" where
  "pio_decode code = (PLATFORM_IO_GET_PORT code, PLATFORM_IO_GET_PIN code)"

section \<open>Pin codes and GPIO numbers\<close>

text \<open>The GPIO of pin \<open>i\<close> of a port.\<close>

definition gpio_of :: "nat \<Rightarrow> nat \<Rightarrow> nat" where "gpio_of port pin = 32 * port + pin"

lemma get_port_take_bit: "PLATFORM_IO_GET_PORT v = take_bit 4 (drop_bit 5 v)"
proof -
  have "push_bit 4 1 - 1 = (mask 4 :: u32)" by (simp add: mask_eq_decr_exp)
  then show ?thesis by (simp add: PLATFORM_IO_GET_PORT_def take_bit_eq_mask)
qed

lemma get_pin_take_bit: "PLATFORM_IO_GET_PIN v = take_bit 5 v"
proof -
  have "push_bit 5 1 - 1 = (mask 5 :: u32)" by (simp add: mask_eq_decr_exp)
  then show ?thesis by (simp add: PLATFORM_IO_GET_PIN_def take_bit_eq_mask)
qed

lemma is_port_bit: "PLATFORM_IO_IS_PORT v = bit v 14"
  by (simp add: PLATFORM_IO_IS_PORT_def bit_iff_and_push_bit_not_eq_0)

lemma port_of_less: "port_of v < 16"
  using unat_take_bit_less[of 4 "drop_bit 5 v"] by (simp add: get_port_take_bit)

lemma pin_of_less: "pin_of v < 32"
  using unat_take_bit_less[of 5 v] by (simp add: get_pin_take_bit)

lemma encode_fields:
  assumes "port < 16" and "pin < 32"
  shows "PLATFORM_IO_GET_PORT (PLATFORM_IO_ENCODE port pin full) = port"
    and "PLATFORM_IO_GET_PIN (PLATFORM_IO_ENCODE port pin full) = pin"
    and "PLATFORM_IO_IS_PORT (PLATFORM_IO_ENCODE port pin full) = full"
proof -
  have port: "\<not> bit port n" if "4 \<le> n" for n using word_less_high_bits[of port 4 n] assms(1) that by simp
  have pin: "\<not> bit pin n" if "5 \<le> n" for n using word_less_high_bits[of pin 5 n] assms(2) that by simp
  define b where "b = (if full then push_bit 14 1 else 0 :: u32)"
  have b: "bit b n = (full \<and> n = 14)" for n
    by (auto simp: b_def bit_push_bit_iff bit_1_iff simp del: push_bit_of_1)
  have e: "PLATFORM_IO_ENCODE port pin full = push_bit 5 port OR pin OR b"
    by (simp only: PLATFORM_IO_ENCODE_def b_def)
  have port_le: "n < 4" if "bit port n" for n using port[of n] that by linarith
  show "PLATFORM_IO_GET_PORT (PLATFORM_IO_ENCODE port pin full) = port"
    unfolding e by (rule bit_word_eqI)
      (use port pin in \<open>auto simp: get_port_take_bit bit_take_bit_iff bit_drop_bit_eq b
        bit_push_bit_iff bit_or_iff not_less dest: port_le\<close>)
  show "PLATFORM_IO_GET_PIN (PLATFORM_IO_ENCODE port pin full) = pin"
    unfolding e by (rule bit_word_eqI)
      (use port pin in \<open>auto simp: get_pin_take_bit bit_take_bit_iff b bit_push_bit_iff bit_or_iff not_less\<close>)
  show "PLATFORM_IO_IS_PORT (PLATFORM_IO_ENCODE port pin full) = full"
    unfolding e using port pin by (auto simp: is_port_bit b bit_push_bit_iff bit_or_iff)
qed

lemma get_real_gpio_valid:
  assumes "port < 2" and "pin < PIO_PIN_ARRAY ! port"
  shows "get_real_gpio port pin = Some (gpio_of port pin)" and "gpio_of port pin < 37"
proof -
  have "port = 0 \<and> pin < 32 \<or> port = 1 \<and> (pin = 0 \<or> pin = 1 \<or> pin = 2 \<or> pin = 3 \<or> pin = 4)"
    using assms by (auto simp: PIO_PIN_ARRAY_def PIO_PIN_EX_def less_2_cases_iff)
  then show "get_real_gpio port pin = Some (gpio_of port pin)" "gpio_of port pin < 37"
    by (auto simp: get_real_gpio_def gpio_of_def openatGPIOEx_def ld_def)
qed

lemma get_pio_pin:
  assumes "g < 37"
  shows "platform_get_pio_pin g = PLATFORM_IO_ENCODE (of_nat (g div 32)) (of_nat (g mod 32)) False"
proof (cases "g \<le> 31")
  case True
  then show ?thesis by (simp add: platform_get_pio_pin_def)
next
  case False
  then have "g = 32 \<or> g = 33 \<or> g = 34 \<or> g = 35 \<or> g = 36" using assms by auto
  then show ?thesis
    by (auto simp: platform_get_pio_pin_def pio_ex_search.simps PIO_PIN_EX_def openatGPIOEx_def)
qed

lemma get_pio_pin_unknown: "37 \<le> g \<Longrightarrow> platform_get_pio_pin g = PLATFORM_IO_UNKNOWN_PIN"
  by (simp add: platform_get_pio_pin_def pio_ex_search.simps PIO_PIN_EX_def openatGPIOEx_def nth_Cons')

section \<open>The pins a mask names\<close>

definition mask_gpios :: "nat \<Rightarrow> u32 \<Rightarrow> nat \<Rightarrow> nat \<Rightarrow> nat list" where
  "mask_gpios port m lo hi = map (gpio_of port) (filter (bit m) [lo..<hi])"

text \<open>What a set, direction or close operation does to the driver: one call per pin, in order.\<close>

fun pin_steps :: "gpio_env \<Rightarrow> pio_op \<Rightarrow> nat list \<Rightarrow> u32 \<Rightarrow> gpio_call list \<Rightarrow> u32 \<times> gpio_call list" where
  "pin_steps env op [] r h = (r, h)"
| "pin_steps env op (g # gs) r h = (case pin_step env op g h of (r, h) \<Rightarrow> pin_steps env op gs r h)"

lemma bit_test: "(m AND 2 ^ i = 0) = (\<not> bit (m :: u32) i)"
  using bit_iff_and_push_bit_not_eq_0[of m i] by simp

lemma no_other_pins:
  assumes "m AND NOT (push_bit i 1) = (0 :: u32)"
  shows "filter (bit m) [Suc i..<n] = []"
proof -
  have "\<not> bit m j" if "i < j" for j
  proof
    assume j: "bit m j"
    then have "j < 32" using bit_imp_le_length by fastforce
    with j that have "bit (m AND NOT (push_bit i 1)) j"
      by (auto simp: bit_and_iff bit_not_iff_eq bit_push_bit_iff bit_1_iff bit_exp_iff)
    with assms show False by simp
  qed
  then show ?thesis by (simp add: filter_empty_conv)
qed

lemma pio_op_loop_steps:
  assumes "port < 2" and "op \<noteq> PLATFORM_IO_PIN_GET" and "n = PIO_PIN_ARRAY ! port"
  shows "pio_op_loop env port m op n i r h = Some (pin_steps env op (mask_gpios port m i n) r h)"
  using assms
proof (induction "n - i" arbitrary: i r h)
  case 0
  then show ?case by (simp add: pio_op_loop.simps mask_gpios_def)
next
  case (Suc d)
  then have i: "i < n" and d: "d = n - Suc i" by simp_all
  have IH: "pio_op_loop env port m op n (Suc i) r h = Some (pin_steps env op (mask_gpios port m (Suc i) n) r h)" for r h
    using Suc.hyps(1)[OF d] Suc.prems by simp
  have gs: "mask_gpios port m i n = (if bit m i then [gpio_of port i] else []) @ mask_gpios port m (Suc i) n"
    using i by (simp add: mask_gpios_def upt_conv_Cons del: upt_Suc)
  have real: "get_real_gpio port i = Some (gpio_of port i)" "gpio_of port i \<noteq> OPENAT_GPIO_UNKNOWN"
    using get_real_gpio_valid[of port i] Suc.prems i by (auto simp: OPENAT_GPIO_UNKNOWN_def)
  have single: "mask_gpios port m (Suc i) n = []" if "m AND NOT (push_bit i 1) = 0"
    using no_other_pins[OF that] by (simp add: mask_gpios_def)
  show ?case
    using i real single Suc.prems(2)
    by (subst pio_op_loop.simps) (auto simp: bit_test gs IH split: prod.split)
qed

lemma pin_steps_ok:
  assumes "\<And>h c. gpio_ok env h c" and "\<And>g. pin_call op g \<noteq> None"
  shows "pin_steps env op gs r h = (if gs = [] then r else 1, h @ map (\<lambda>g. the (pin_call op g)) gs)"
proof (induction gs arbitrary: r h)
  case (Cons g gs)
  obtain c where "pin_call op g = Some c" using assms(2)[of g] by auto
  then show ?case using Cons assms(1) by (simp add: pin_step_def)
qed simp

lemma pin_steps_unsupported:
  assumes "\<And>g. pin_call op g = None"
  shows "pin_steps env op gs r h = (if gs = [] then r else 0, h)"
  by (induction gs arbitrary: r h) (simp_all add: pin_step_def assms)

lemma platform_pio_op_steps:
  assumes "port < 2" and "op \<noteq> PLATFORM_IO_PIN_GET"
  shows "platform_pio_op env port m op h =
    Some (pin_steps env op (mask_gpios port m 0 (PIO_PIN_ARRAY ! port)) 1 h)"
proof -
  have "port < length PIO_PIN_ARRAY" using assms(1) by (simp add: PIO_PIN_ARRAY_def)
  then show ?thesis using pio_op_loop_steps[OF assms refl] by (simp add: platform_pio_op_def ld_in)
qed

text \<open>A loop over the ports that only concerns ports 0 and 1.\<close>

lemma pioh_exec_idle:
  assumes "\<And>j. i \<le> j \<Longrightarrow> j < 16 \<Longrightarrow> \<not> test j"
  shows "pioh_exec env test ms op i h = Some (True, h)"
  using assms
proof (induction "16 - i" arbitrary: i)
  case 0
  then show ?case by (simp add: pioh_exec.simps PLATFORM_IO_PORTS_def)
next
  case (Suc d)
  then have "pioh_exec env test ms op (Suc i) h = Some (True, h)" by simp
  then show ?case using Suc by (subst pioh_exec.simps) simp
qed

lemma pioh_exec_two:
  assumes "\<And>j. 2 \<le> j \<Longrightarrow> j < 16 \<Longrightarrow> \<not> test j"
  shows "pioh_exec env test ms op 0 h =
    (if test 0 then platform_pio_op env 0 (ms 0) op h else Some (1, h)) \<bind> (\<lambda>(r, h).
      if r = 0 then Some (False, h)
      else (if test 1 then platform_pio_op env 1 (ms 1) op h else Some (1, h)) \<bind>
        (\<lambda>(r, h). Some (r \<noteq> 0, h)))"
proof -
  have "pioh_exec env test ms op 2 h = Some (True, h)" for h
    by (rule pioh_exec_idle) (use assms in auto)
  then have one: "pioh_exec env test ms op 1 h =
      (if test 1 then platform_pio_op env 1 (ms 1) op h else Some (1, h)) \<bind> (\<lambda>(r, h). Some (r \<noteq> 0, h))" for h
    by (subst pioh_exec.simps)
      (auto simp: PLATFORM_IO_PORTS_def numeral_2_eq_2 split: prod.split intro!: Option.bind_cong[OF refl])
  show ?thesis
    by (subst pioh_exec.simps) (simp add: PLATFORM_IO_PORTS_def one[unfolded One_nat_def] cong: if_cong)
qed

lemma pin_masks_valid:
  assumes "\<forall>v \<in> set vs. valid_pin v" and "length ms = 16"
  shows "\<exists>ms'. pioh_pin_masks vs ms = (ms', True) \<and> length ms' = 16 \<and>
    (\<forall>p < 16. \<forall>i. bit (ms' ! p) i = (bit (ms ! p) i \<or> (\<exists>v \<in> set vs. port_of v = p \<and> pin_of v = i)))"
  using assms
proof (induction vs arbitrary: ms)
  case (Cons v vs)
  let ?ms = "ms[port_of v := ms ! port_of v OR push_bit (pin_of v) 1]"
  obtain ms' where ms': "pioh_pin_masks vs ?ms = (ms', True)" "length ms' = 16"
      "\<forall>p < 16. \<forall>i. bit (ms' ! p) i = (bit (?ms ! p) i \<or> (\<exists>v \<in> set vs. port_of v = p \<and> pin_of v = i))"
    using Cons.IH[of ?ms] Cons.prems by auto
  have "bit (?ms ! p) i = (bit (ms ! p) i \<or> port_of v = p \<and> pin_of v = i)" if "p < 16" for p i
    using that Cons.prems(2) pin_of_less[of v] port_of_less[of v]
    by (auto simp: nth_list_update bit_or_iff bit_exp_iff)
  with ms' Cons.prems show ?case by auto
qed simp

lemma pin_masks_invalid:
  "\<exists>v \<in> set vs. \<not> valid_pin v \<Longrightarrow> \<not> snd (pioh_pin_masks vs ms)"
  by (induction vs arbitrary: ms) auto

lemma valid_pinD:
  assumes "valid_pin v"
  shows "port_of v < 2" and "pin_of v < PIO_PIN_ARRAY ! port_of v"
    and "platform_pio_get_gpio_port v = Some (gpio_of (port_of v) (pin_of v))"
proof -
  show v: "port_of v < 2" "pin_of v < PIO_PIN_ARRAY ! port_of v"
    using assms by (auto simp: valid_pin_def platform_pio_has_pin_def NUM_PIO_def)
  have "v \<noteq> PLATFORM_IO_UNKNOWN_PIN"
    using assms by (auto simp: valid_pin_def PLATFORM_IO_UNKNOWN_PIN_def PLATFORM_IO_IS_PORT_def)
  then show "platform_pio_get_gpio_port v = Some (gpio_of (port_of v) (pin_of v))"
    using get_real_gpio_valid(1)[OF v] by (simp add: platform_pio_get_gpio_port_def)
qed

definition named_gpios :: "u32 list \<Rightarrow> nat list" where
  "named_gpios pins = filter (\<lambda>g. \<exists>v \<in> set pins. platform_pio_get_gpio_port v = Some g) [0..<37]"

lemma named_gpios_ports:
  assumes "\<forall>v \<in> set pins. valid_pin v"
    and bits: "\<And>p i. p < 16 \<Longrightarrow> bit (ms ! p) i = (\<exists>v \<in> set pins. port_of v = p \<and> pin_of v = i)"
  shows "named_gpios pins = mask_gpios 0 (ms ! 0) 0 32 @ mask_gpios 1 (ms ! 1) 0 5"
proof -
  have named: "(\<exists>v \<in> set pins. platform_pio_get_gpio_port v = Some g) = bit (ms ! (g div 32)) (g mod 32)"
    if "g < 37" for g
  proof -
    have "(gpio_of (port_of v) (pin_of v) = g) = (port_of v = g div 32 \<and> pin_of v = g mod 32)" for v
      using pin_of_less[of v] by (auto simp: gpio_of_def)
    then have "(platform_pio_get_gpio_port v = Some g) = (port_of v = g div 32 \<and> pin_of v = g mod 32)"
      if "v \<in> set pins" for v
      using valid_pinD(3)[of v] assms(1) that by auto
    then show ?thesis using bits[of "g div 32" "g mod 32"] that by auto
  qed
  have split: "[0..<37] = [0..<32] @ map (\<lambda>i. i + 32) [0..<5]"
    using upt_add_eq_append[of 0 32 5] map_add_upt[of 32 5] by simp
  have "named_gpios pins = filter (\<lambda>g. bit (ms ! (g div 32)) (g mod 32)) [0..<37]"
    unfolding named_gpios_def by (rule filter_cong) (use named in auto)
  also have "\<dots> = mask_gpios 0 (ms ! 0) 0 32 @ mask_gpios 1 (ms ! 1) 0 5"
  proof -
    have "filter (\<lambda>g. bit (ms ! (g div 32)) (g mod 32)) [0..<32] = filter (bit (ms ! 0)) [0..<32]"
      by (rule filter_cong) auto
    moreover have "filter (\<lambda>i. bit (ms ! ((i + 32) div 32)) ((i + 32) mod 32)) [0..<5] = filter (bit (ms ! 1)) [0..<5]"
      by (rule filter_cong) (auto simp: div_add_self2)
    moreover have "gpio_of 0 = (\<lambda>i. i)" "gpio_of 1 = (\<lambda>i. i + 32)" by (auto simp: gpio_of_def)
    ultimately show ?thesis unfolding split filter_append mask_gpios_def filter_map o_def by simp
  qed
  finally show ?thesis .
qed

lemma set_pins_drives_named:
  assumes valid: "\<forall>v \<in> set pins. valid_pin v" and ok: "\<And>h c. gpio_ok env h c"
    and op: "\<And>g. pin_call op g \<noteq> None"
  shows "\<exists>s'. pioh_set_pins env pins op s = Some (s', Lua_return ()) \<and>
    gpio_calls s' = gpio_calls s @ map (\<lambda>g. the (pin_call op g)) (named_gpios pins)"
proof -
  have get: "op \<noteq> PLATFORM_IO_PIN_GET" using op[of 0] by auto
  obtain ms where ms: "pioh_pin_masks pins (replicate 16 0) = (ms, True)" "length ms = 16"
      "\<And>p i. p < 16 \<Longrightarrow> bit (ms ! p) i = (\<exists>v \<in> set pins. port_of v = p \<and> pin_of v = i)"
    using pin_masks_valid[OF valid, of "replicate 16 0"] by auto
  have high: "ms ! j = 0" if "2 \<le> j" "j < 16" for j
    by (rule bit_word_eqI) (use ms(3)[of j] that valid valid_pinD(1) in fastforce)
  have port: "(if ms ! p \<noteq> 0 then platform_pio_op env p (ms ! p) op h else Some (1, h)) =
      Some (1, h @ map (\<lambda>g. the (pin_call op g)) (mask_gpios p (ms ! p) 0 (PIO_PIN_ARRAY ! p)))" if "p < 2" for p h
    using that get by (auto simp: platform_pio_op_steps pin_steps_ok[OF ok op] mask_gpios_def)
  have two: "(0 :: nat) < 2" "(1 :: nat) < 2" by simp_all
  note p01 = port[OF two(1)] port[OF two(2)]
  have "pioh_exec env (\<lambda>i. ms ! i \<noteq> 0) (\<lambda>i. ms ! i) op 0 h =
      Some (True, h @ map (\<lambda>g. the (pin_call op g)) (named_gpios pins))" for h
  proof -
    have "pioh_exec env (\<lambda>i. ms ! i \<noteq> 0) (\<lambda>i. ms ! i) op 0 h =
        Some (True, h @ map (\<lambda>g. the (pin_call op g)) (mask_gpios 0 (ms ! 0) 0 (PIO_PIN_ARRAY ! 0)) @
                      map (\<lambda>g. the (pin_call op g)) (mask_gpios 1 (ms ! 1) 0 (PIO_PIN_ARRAY ! 1)))"
      using high by (subst pioh_exec_two) (simp_all only: p01 Option.bind.simps
          prod.case append_assoc one_neq_zero if_False simp_thms)
    then show ?thesis by (simp add: named_gpios_ports[OF valid ms(3)] PIO_PIN_ARRAY_def PIO_PIN_EX_def)
  qed
  then show ?thesis using ms(1)
    by (simp add: pioh_set_pins_def pioh_clear_masks_def PLATFORM_IO_PORTS_def)
qed

lemma set_ports_unsupported:
  assumes valid: "pioh_port_mask ports 0 = Some pm" and op: "\<And>g. pin_call op g = None" "op \<noteq> PLATFORM_IO_PIN_GET"
    and two: "\<And>j. 2 \<le> j \<Longrightarrow> j < 16 \<Longrightarrow> pm AND push_bit j 1 = 0"
  shows "pioh_set_ports env ports op m s = Some (s,
    if (pm AND 1 \<noteq> 0 \<longrightarrow> mask_gpios 0 m 0 32 = []) \<and> (pm AND 2 \<noteq> 0 \<longrightarrow> mask_gpios 1 m 0 5 = [])
    then Lua_return () else Lua_error ''invalid PIO operation'')"
proof -
  have "pioh_exec env (\<lambda>i. pm AND push_bit i 1 \<noteq> 0) (\<lambda>i. m) op 0 h =
      Some ((pm AND 1 \<noteq> 0 \<longrightarrow> mask_gpios 0 m 0 32 = []) \<and> (pm AND 2 \<noteq> 0 \<longrightarrow> mask_gpios 1 m 0 5 = []), h)" for h
    using two op(2) by (subst pioh_exec_two)
      (auto simp: platform_pio_op_steps pin_steps_unsupported[OF op(1)] PIO_PIN_ARRAY_def PIO_PIN_EX_def)
  then show ?thesis using valid by (simp add: pioh_set_ports_def)
qed

lemma port_mask_valid:
  assumes "\<forall>v \<in> set vs. valid_port v"
  shows "\<exists>pm. pioh_port_mask vs m = Some pm \<and> (\<forall>i. bit pm i = (bit m i \<or> (\<exists>v \<in> set vs. port_of v = i)))"
  using assms
proof (induction vs arbitrary: m)
  case (Cons v vs)
  have "bit (m OR push_bit (port_of v) 1) i = (bit m i \<or> port_of v = i)" for i
    using port_of_less[of v] by (auto simp: bit_or_iff bit_exp_iff)
  with Cons show ?case by fastforce
qed simp

section \<open>Properties\<close>

text \<open>
  C22. Setting pins from Lua drives exactly the named GPIOs, each once and in ascending order,
  to the value, and closing pins closes exactly the named ones, when the driver accepts the calls.
\<close>

theorem pins_set_and_closed_exactly:
  assumes "\<forall>v \<in> set pins. valid_pin v" and "\<And>h c. gpio_ok env h c" and "val = 0 \<or> val = 1"
  shows "(\<exists>s'. pio_gen_setval env PIO_PIN_OP val pins s = Some (s', Lua_return ()) \<and>
            gpio_calls s' = gpio_calls s @ map (\<lambda>g. Set_gpio g (unat val)) (named_gpios pins)) \<and>
         (\<exists>s'. pio_pin_close env pins s = Some (s', Lua_return ()) \<and>
            gpio_calls s' = gpio_calls s @ map Close_gpio (named_gpios pins))"
proof -
  let ?op = "if val = 1 then PLATFORM_IO_PIN_SET else PLATFORM_IO_PIN_CLEAR"
  have call: "pin_call ?op g = Some (Set_gpio g (unat val))" for g using assms(3) by auto
  show ?thesis
    using set_pins_drives_named[OF assms(1,2), of ?op s] assms(3)
      set_pins_drives_named[OF assms(1,2), of PLATFORM_IO_PIN_CLOSE s]
    by (auto simp: pio_gen_setval_def pio_pin_close_def call)
qed

definition pins_env :: gpio_env where
  "pins_env = \<lparr>gpio_ok = \<lambda>h c. True, gpio_level = \<lambda>h g. Some 1\<rparr>"

theorem pins_set_and_closed_exactly_witness:
  "\<exists>s'. pio_gen_setval pins_env PIO_PIN_OP 1 [0x21, 3, 0x21] \<lparr>pio_masks = [], gpio_calls = []\<rparr> = Some (s', Lua_return ()) \<and>
     gpio_calls s' = [Set_gpio 3 1, Set_gpio 33 1]"
proof -
  have valid: "\<forall>v \<in> set [0x21, 3, 0x21]. valid_pin v"
    by (simp add: valid_pin_def PLATFORM_IO_IS_PORT_def PLATFORM_IO_GET_PORT_def PLATFORM_IO_GET_PIN_def
        platform_pio_has_port_def platform_pio_has_pin_def NUM_PIO_def PIO_PIN_ARRAY_def PIO_PIN_EX_def)
  have "named_gpios [0x21, 3, 0x21] = [3, 33]"
    by (simp add: named_gpios_def platform_pio_get_gpio_port_def PLATFORM_IO_UNKNOWN_PIN_def get_real_gpio_def
        PLATFORM_IO_GET_PORT_def PLATFORM_IO_GET_PIN_def openatGPIOEx_def ld_def upt_rec)
  then show ?thesis
    using pins_set_and_closed_exactly[of "[0x21, 3, 0x21]" pins_env 1 "\<lparr>pio_masks = [], gpio_calls = []\<rparr>"] valid
    by (simp add: pins_env_def)
qed

text \<open>
  If one of the named pins is not valid, none is touched: the call ends with an error and
  makes no driver call.
\<close>

theorem invalid_pin_touches_nothing:
  assumes "v \<in> set pins" and "\<not> valid_pin v"
  shows "\<exists>s'. pioh_set_pins env pins op s = Some (s', Lua_error ''invalid pin'') \<and> gpio_calls s' = gpio_calls s"
proof -
  have "\<not> snd (pioh_pin_masks pins ms)" for ms using pin_masks_invalid assms by blast
  then show ?thesis
    by (auto simp: pioh_set_pins_def Let_def pioh_clear_masks_def split: prod.split)
      (metis snd_conv)+
qed

theorem invalid_pin_touches_nothing_witness:
  "\<exists>s'. pioh_set_pins pins_env [3, 0x25] PLATFORM_IO_PIN_SET \<lparr>pio_masks = [], gpio_calls = []\<rparr> =
     Some (s', Lua_error ''invalid pin'') \<and> gpio_calls s' = []"
  using invalid_pin_touches_nothing[of "0x25" "[3, 0x25]" pins_env PLATFORM_IO_PIN_SET "\<lparr>pio_masks = [], gpio_calls = []\<rparr>"]
  by (simp add: valid_pin_def PLATFORM_IO_IS_PORT_def PLATFORM_IO_GET_PORT_def PLATFORM_IO_GET_PIN_def
      platform_pio_has_port_def platform_pio_has_pin_def NUM_PIO_def PIO_PIN_ARRAY_def PIO_PIN_EX_def)

text \<open>
  The interrupt of a GPIO reports the pin that drives it: the code in the message is valid
  for the Lua module and leads back to the GPIO; a GPIO without a pin sends no message.
\<close>

theorem interrupt_names_its_pin:
  "(if g < 37
    then \<exists>code. GpioIntCallback g level = Some (RTOS_MSG_INT (if level \<noteq> 0 then INT_GPIO_POSEDGE else INT_GPIO_NEGEDGE) code) \<and>
      valid_pin code \<and> platform_pio_get_gpio_port code = Some g
    else GpioIntCallback g level = None)"
proof (cases "g < 37")
  case True
  let ?p = "of_nat (g div 32) :: u32" and ?i = "of_nat (g mod 32) :: u32"
  let ?code = "PLATFORM_IO_ENCODE ?p ?i False"
  have nat: "unat ?p = g div 32" "unat ?i = g mod 32" using True by (simp_all add: unat_of_nat_u32)
  have tail: "32 \<le> g \<Longrightarrow> g mod 32 < 5" using True by (simp add: le_mod_geq)
  from nat have "?p < 16" "?i < 32" using True by (simp_all add: word_less_nat_alt)
  note f = encode_fields[OF this, of False]
  have valid: "valid_pin ?code"
    using True nat by (auto simp: valid_pin_def f platform_pio_has_port_def platform_pio_has_pin_def NUM_PIO_def
        PIO_PIN_ARRAY_def PIO_PIN_EX_def nth_Cons' div_eq_0_iff intro: tail)
  moreover have "platform_pio_get_gpio_port ?code = Some g"
    using valid_pinD(3)[OF valid] by (simp add: f nat gpio_of_def)
  moreover have "?code \<noteq> PLATFORM_IO_UNKNOWN_PIN"
    using f(3) by (auto simp: PLATFORM_IO_UNKNOWN_PIN_def PLATFORM_IO_IS_PORT_def)
  ultimately show ?thesis using True by (simp add: GpioIntCallback_def get_pio_pin)
next
  case False
  then show ?thesis by (simp add: GpioIntCallback_def get_pio_pin_unknown)
qed

text \<open>
  Port-wide output is not supported by the platform, and only one direction says so: setting
  a valid port high fails with an error, setting it low succeeds without touching any GPIO.
\<close>

theorem port_setlow_does_nothing:
  assumes "valid_port v"
  shows "pio_port_setlow env [v] s = Some (s, Lua_return ()) \<and>
         pio_port_sethigh env [v] s = Some (s, Lua_error ''invalid PIO operation'')"
proof -
  obtain pm where pm: "pioh_port_mask [v] 0 = Some pm" "\<And>i. bit pm i = (port_of v = i)"
    using port_mask_valid[of "[v]" 0] assms by auto
  have two: "port_of v < 2" using assms by (simp add: valid_port_def platform_pio_has_port_def NUM_PIO_def)
  have high: "pm AND push_bit j 1 = 0" if "2 \<le> j" for j
    using pm(2)[of j] two that by (simp add: bit_test)
  have ones: "mask_gpios p PLATFORM_IO_ALL_PINS 0 (Suc n) \<noteq> []" for p n
  proof -
    have "bit PLATFORM_IO_ALL_PINS 0" by (simp add: PLATFORM_IO_ALL_PINS_def)
    then show ?thesis by (simp add: mask_gpios_def upt_conv_Cons del: upt_Suc)
  qed
  have b: "(pm AND 1 = 0) = (port_of v \<noteq> 0)" "(pm AND 2 = 0) = (port_of v \<noteq> 1)"
    using bit_test[of pm 0] bit_test[of pm 1] pm(2) by simp_all
  show ?thesis
    using set_ports_unsupported[OF pm(1) _ _ high, of PLATFORM_IO_PORT_SET_VALUE] two
      ones[of 0 31] ones[of 1 4]
    by (auto simp: pio_port_setlow_def pio_port_sethigh_def pio_gen_setval_def b mask_gpios_def less_2_cases_iff)
qed

theorem port_setlow_does_nothing_witness:
  "pio_port_setlow pins_env [0x4020] \<lparr>pio_masks = [], gpio_calls = []\<rparr> =
     Some (\<lparr>pio_masks = [], gpio_calls = []\<rparr>, Lua_return ())"
  using port_setlow_does_nothing[of "0x4020" pins_env "\<lparr>pio_masks = [], gpio_calls = []\<rparr>"]
  by (simp add: valid_port_def PLATFORM_IO_IS_PORT_def PLATFORM_IO_GET_PORT_def platform_pio_has_port_def NUM_PIO_def)

end
