(* ===== verification/Lua_args.thy ===== *)
theory Lua_args
  imports Openat
begin

text \<open>
  The arguments of a Lua function and the functions of the auxiliary library that check them. Numbers are
  32-bit integers. A string where a number is expected is an error here, also when it spells a number.
\<close>

text \<open>
  Arguments as the modules look at them; an element of a table that is not a number is
  \<open>None\<close>.
\<close>

datatype lua_arg = Lua_number u32 | Lua_string "u8 list" | Lua_table "u32 option list" | Lua_other

definition luaL_checkinteger :: "lua_arg list \<Rightarrow> nat \<Rightarrow> u32 lua" where
  "luaL_checkinteger args k =
     (if k < length args then (case args ! k of Lua_number n \<Rightarrow> Lua_return n | _ \<Rightarrow> Lua_error ''number expected'')
      else Lua_error ''number expected'')"

definition lua_then :: "'a lua \<Rightarrow> ('a \<Rightarrow> 'b lua option) \<Rightarrow> 'b lua option" where
  "lua_then r f = (case r of Lua_error e \<Rightarrow> Some (Lua_error e) | Lua_return x \<Rightarrow> f x)"

definition lua_arg_at :: "lua_arg list \<Rightarrow> nat \<Rightarrow> lua_arg option" where
  "lua_arg_at args k = (if k < length args then Some (args ! k) else None)"

text \<open>\<^verbatim>\<open>luaL_checkstring\<close> turns a number into its decimal digits.\<close>

fun dec_digits :: "nat \<Rightarrow> u8 list" where
  "dec_digits n = (if n < 10 then [0x30 + of_nat n] else dec_digits (n div 10) @ [0x30 + of_nat (n mod 10)])"

definition lua_number2str :: "u32 \<Rightarrow> u8 list" where
  "lua_number2str n = (if sint n < 0 then 0x2D # dec_digits (nat (- sint n)) else dec_digits (nat (sint n)))"

definition luaL_checkstring :: "lua_arg list \<Rightarrow> nat \<Rightarrow> u8 list lua" where
  "luaL_checkstring args k =
     (case lua_arg_at args k of
        Some (Lua_string bs) \<Rightarrow> Lua_return (bs @ [0])
      | Some (Lua_number n) \<Rightarrow> Lua_return (lua_number2str n @ [0])
      | _ \<Rightarrow> Lua_error ''string expected'')"

section \<open>Evaluation\<close>

lemma lua_then_simps [simp]:
  "lua_then (Lua_error e) f = Some (Lua_error e)" "lua_then (Lua_return x) f = f x"
  by (simp_all add: lua_then_def)

lemma check_number [simp]:
  "k < length args \<Longrightarrow> args ! k = Lua_number n \<Longrightarrow> luaL_checkinteger args k = Lua_return n"
  by (simp add: luaL_checkinteger_def)

end
