(* ===== verification/I2c.thy ===== *)
theory I2c
  imports Lua_args
begin

text \<open>
  The I2C layer of the platform (\<^verbatim>\<open>platform/coolsand/src/platform_i2c.c\<close>) and the Lua module
  \<^verbatim>\<open>i2c\<close> on it (\<^verbatim>\<open>modules/src/i2c.c\<close>). The layer keeps one slave address per
  bus; an operation is a function of that table and yields the driver call it makes, and the
  display and sensor drivers record it in their own order of effects. An index outside a table is
  \<open>None\<close>. What the driver answers to a read is an argument.
\<close>

section \<open>The platform layer\<close>

text \<open>Driver calls; the register address is absent when the code passes \<^verbatim>\<open>NULL\<close>.\<close>

datatype i2c_call =
    Open_i2c nat u32
  | Close_i2c nat
  | Write_i2c nat u16 "u8 option" "u8 list"
  | Read_i2c nat u16 "u8 option" u32

definition I2C_NULL_SLAVE_ADDR :: u16 where "I2C_NULL_SLAVE_ADDR = 0xffff"

definition PLATFORM_I2C_SPEED_FAST :: u32 where "PLATFORM_I2C_SPEED_FAST = 400000"

definition i2cIdMap :: "nat list" where "i2cIdMap = [0, 1, 2]"

definition platform_i2c_exists :: "u32 \<Rightarrow> bool" where
  "platform_i2c_exists bus = True"

definition platform_i2c_setup :: "u32 \<Rightarrow> u32 \<Rightarrow> u16 \<Rightarrow> u16 list \<Rightarrow> (i2c_call \<times> u16 list) option" where
  "platform_i2c_setup bus speed slaveAddr addrs = do {
     addrs \<leftarrow> st addrs (unat bus) slaveAddr;
     port \<leftarrow> ld i2cIdMap (unat bus);
     Some (Open_i2c port speed, addrs)
   }"

definition platform_i2c_close :: "u32 \<Rightarrow> i2c_call option" where
  "platform_i2c_close bus = do { port \<leftarrow> ld i2cIdMap (unat bus); Some (Close_i2c port) }"

text \<open>The preset slave address stands in for the null address.\<close>

definition preset_slave :: "u32 \<Rightarrow> u16 \<Rightarrow> u16 list \<Rightarrow> u16 option" where
  "preset_slave bus slave_addr addrs =
     (if slave_addr = I2C_NULL_SLAVE_ADDR then ld addrs (unat bus) else Some slave_addr)"

text \<open>Without a slave address nothing is transferred.\<close>

definition platform_i2c_send_data ::
  "u32 \<Rightarrow> u16 \<Rightarrow> u8 option \<Rightarrow> u8 list \<Rightarrow> u16 list \<Rightarrow> i2c_call list option" where
  "platform_i2c_send_data bus slave_addr reg buf addrs = do {
     slave_addr \<leftarrow> preset_slave bus slave_addr addrs;
     (if slave_addr = I2C_NULL_SLAVE_ADDR then Some []
      else do {
        port \<leftarrow> ld i2cIdMap (unat bus);
        Some [Write_i2c port slave_addr reg buf]
      })
   }"

definition platform_i2c_recv_data ::
  "u32 \<Rightarrow> u16 \<Rightarrow> u8 option \<Rightarrow> u32 \<Rightarrow> u16 list \<Rightarrow> i2c_call list option" where
  "platform_i2c_recv_data bus slave_addr reg n addrs = do {
     slave_addr \<leftarrow> preset_slave bus slave_addr addrs;
     (if slave_addr = I2C_NULL_SLAVE_ADDR then Some []
      else do {
        port \<leftarrow> ld i2cIdMap (unat bus);
        Some [Read_i2c port slave_addr reg n]
      })
   }"

section \<open>The Lua module\<close>

text \<open>
  \<^verbatim>\<open>speed = i2c.setup(id, speed [, slaveaddr])\<close>; \<open>junk\<close> is what the stack holds at the
  parameter that is not set without a third argument, \<open>opened\<close> what the driver answers.
\<close>

definition i2c_setup ::
  "u16 \<Rightarrow> bool \<Rightarrow> lua_arg list \<Rightarrow> u16 list \<Rightarrow> (u32 \<times> i2c_call \<times> u16 list) lua option" where
  "i2c_setup junk opened args addrs =
     lua_then (luaL_checkinteger args 0) (\<lambda>bus.
     lua_then (luaL_checkinteger args 1) (\<lambda>speed.
     lua_then (if length args = 3
               then (case luaL_checkinteger args 2 of
                       Lua_error e \<Rightarrow> Lua_error e
                     | Lua_return n \<Rightarrow> Lua_return (ucast (ucast n :: u8)))
               else Lua_return junk) (\<lambda>slaveAddr.
       if \<not> platform_i2c_exists bus then Some (Lua_error ''does not exist'')
       else do {
         (c, addrs) \<leftarrow> platform_i2c_setup bus speed slaveAddr addrs;
         Some (Lua_return (if opened then speed else 0, c, addrs))
       })))"

definition i2c_close :: "lua_arg list \<Rightarrow> i2c_call lua option" where
  "i2c_close args =
     lua_then (luaL_checkinteger args 0) (\<lambda>bus.
       if \<not> platform_i2c_exists bus then Some (Lua_error ''does not exist'')
       else map_option Lua_return (platform_i2c_close bus))"

text \<open>The bytes of a data argument: one of a number, those of a string, one per table element.\<close>

definition data_bytes :: "lua_arg option \<Rightarrow> u8 list lua" where
  "data_bytes a = (case a of
       Some (Lua_number n) \<Rightarrow> Lua_return [ucast n]
     | Some (Lua_string bs) \<Rightarrow> Lua_return bs
     | Some (Lua_table es) \<Rightarrow>
         (if None \<in> set es then Lua_error ''number expected'' else Lua_return (map (ucast \<circ> the) es))
     | _ \<Rightarrow> Lua_error ''i2c.write: data must be number,string,table'')"

text \<open>
  \<^verbatim>\<open>wrote = i2c.write(id, [reg,] data)\<close>: with two arguments there is no register. \<open>n\<close> is what
  the driver answers; the platform layer answers 0 when it transfers nothing.
\<close>

definition send_answer :: "u32 \<Rightarrow> i2c_call list \<Rightarrow> (u32 \<times> i2c_call list) lua" where
  "send_answer n cs = Lua_return (if cs = [] then 0 else n, cs)"

definition i2c_write :: "u32 \<Rightarrow> lua_arg list \<Rightarrow> u16 list \<Rightarrow> (u32 \<times> i2c_call list) lua option" where
  "i2c_write wrote args addrs =
     lua_then (luaL_checkinteger args 0) (\<lambda>bus.
     lua_then (if length args \<noteq> 2
               then (case luaL_checkinteger args 1 of
                       Lua_error e \<Rightarrow> Lua_error e
                     | Lua_return n \<Rightarrow> Lua_return (Some (ucast n)))
               else Lua_return None) (\<lambda>reg.
       if \<not> platform_i2c_exists bus then Some (Lua_error ''does not exist'')
       else
         lua_then (data_bytes (lua_arg_at args (if length args \<noteq> 2 then 2 else 1))) (\<lambda>bs.
           map_option (send_answer wrote) (platform_i2c_send_data bus I2C_NULL_SLAVE_ADDR reg bs addrs))))"

text \<open>
  \<^verbatim>\<open>read = i2c.read(id, [reg,] size)\<close>: the string of the bytes the driver answers, whose
  number it returns; nothing is returned for size 0 (\<open>None\<close>). \<open>bufsiz\<close> is
  \<^verbatim>\<open>LUAL_BUFFERSIZE\<close>, and an answer longer than the buffer leaves it.
\<close>

definition read_answer :: "nat \<Rightarrow> u8 list \<Rightarrow> i2c_call list \<Rightarrow> (u8 list option \<times> i2c_call list) lua option" where
  "read_answer bufsiz answer cs =
     (if cs = [] then Some (Lua_return (Some [], cs))
      else if length answer \<le> bufsiz then Some (Lua_return (Some answer, cs))
      else None)"

definition i2c_read ::
  "nat \<Rightarrow> u8 list \<Rightarrow> lua_arg list \<Rightarrow> u16 list \<Rightarrow> (u8 list option \<times> i2c_call list) lua option" where
  "i2c_read bufsiz answer args addrs =
     lua_then (luaL_checkinteger args 0) (\<lambda>bus.
     lua_then (if length args \<noteq> 2
               then (case luaL_checkinteger args 1 of
                       Lua_error e \<Rightarrow> Lua_error e
                     | Lua_return n \<Rightarrow> Lua_return (Some (ucast n)))
               else Lua_return None) (\<lambda>reg.
     lua_then (luaL_checkinteger args (if length args \<noteq> 2 then 2 else 1)) (\<lambda>n.
       if \<not> platform_i2c_exists bus then Some (Lua_error ''does not exist'')
       else if n = 0 then Some (Lua_return (None, []))
       else if bufsiz \<le> unat n then Some (Lua_error ''i2c.read: size must < %d'')
       else Option.bind (platform_i2c_recv_data bus I2C_NULL_SLAVE_ADDR reg n addrs) (read_answer bufsiz answer))))"

text \<open>\<^verbatim>\<open>wrote = i2c.send(id, slave, data)\<close> and \<^verbatim>\<open>read = i2c.recv(id, slave, size)\<close>.\<close>

definition i2c_send :: "u32 \<Rightarrow> lua_arg list \<Rightarrow> u16 list \<Rightarrow> (u32 \<times> i2c_call list) lua option" where
  "i2c_send wrote args addrs =
     lua_then (luaL_checkinteger args 0) (\<lambda>bus.
     lua_then (luaL_checkinteger args 1) (\<lambda>slave.
       if \<not> platform_i2c_exists bus then Some (Lua_error ''does not exist'')
       else
         lua_then (data_bytes (lua_arg_at args 2)) (\<lambda>bs.
           map_option (send_answer wrote) (platform_i2c_send_data bus (ucast (ucast slave :: u8)) None bs addrs))))"

definition i2c_recv ::
  "nat \<Rightarrow> u8 list \<Rightarrow> lua_arg list \<Rightarrow> u16 list \<Rightarrow> (u8 list option \<times> i2c_call list) lua option" where
  "i2c_recv bufsiz answer args addrs =
     lua_then (luaL_checkinteger args 0) (\<lambda>bus.
     lua_then (luaL_checkinteger args 1) (\<lambda>slave.
     lua_then (luaL_checkinteger args 2) (\<lambda>n.
       if \<not> platform_i2c_exists bus then Some (Lua_error ''does not exist'')
       else if n = 0 then Some (Lua_return (None, []))
       else if bufsiz \<le> unat n then Some (Lua_error ''i2c.read: size must < %d'')
       else Option.bind (platform_i2c_recv_data bus (ucast slave) None n addrs) (read_answer bufsiz answer))))"

section \<open>Setting up a bus and writing to it\<close>

lemma i2c_port: "unat bus < 3 \<Longrightarrow> ld i2cIdMap (unat bus) = Some (unat bus)"
proof -
  assume "unat bus < 3"
  then have "unat bus = 0 \<or> unat bus = 1 \<or> unat bus = 2" by auto
  then show ?thesis by (auto simp: i2cIdMap_def ld_def)
qed

lemma no_i2c_port: "3 \<le> unat bus \<Longrightarrow> ld i2cIdMap (unat bus) = None"
  by (simp add: i2cIdMap_def ld_def)

lemma byte_slave_not_null: "ucast (a :: u8) \<noteq> I2C_NULL_SLAVE_ADDR"
proof
  assume "ucast a = I2C_NULL_SLAVE_ADDR"
  then have "unat (ucast a :: u16) = 0xffff" by (simp add: I2C_NULL_SLAVE_ADDR_def)
  moreover have "unat (ucast a :: u16) < 256"
    using unsigned_less[of a, where 'a = nat] by (simp add: unsigned_ucast_eq take_bit_nat_eq_self)
  ultimately show False by simp
qed

lemma send_preset:
  assumes "unat bus < 3" "unat bus < length addrs" "addrs ! unat bus = a" "a \<noteq> I2C_NULL_SLAVE_ADDR"
  shows "platform_i2c_send_data bus I2C_NULL_SLAVE_ADDR reg bs addrs = Some [Write_i2c (unat bus) a reg bs]"
    and "platform_i2c_recv_data bus I2C_NULL_SLAVE_ADDR reg n addrs = Some [Read_i2c (unat bus) a reg n]"
  using assms by (simp_all add: platform_i2c_send_data_def platform_i2c_recv_data_def preset_slave_def ld_in i2c_port)

text \<open>
  After \<^verbatim>\<open>i2c.setup(id, speed, slave)\<close> on one of the three buses, \<^verbatim>\<open>i2c.write(id, reg, data)\<close>
  hands the driver one transfer to the low byte of that slave address, at the low byte of the
  register, with the bytes of the data, and returns the driver's answer.
\<close>

theorem i2c_setup_then_write:
  assumes "unat bus < 3" and "length addrs = 3"
    and "data_bytes (Some d) = Lua_return bs"
  shows "\<exists>v c addrs'. i2c_setup junk opened [Lua_number bus, Lua_number speed, Lua_number slave] addrs =
        Some (Lua_return (v, c, addrs')) \<and> v = (if opened then speed else 0) \<and> c = Open_i2c (unat bus) speed \<and>
      i2c_write wrote [Lua_number bus, Lua_number reg, d] addrs' =
        Some (Lua_return (wrote, [Write_i2c (unat bus) (ucast (ucast slave :: u8)) (Some (ucast reg)) bs]))"
  using assms byte_slave_not_null[of "ucast slave"]
  by (simp add: i2c_setup_def i2c_write_def platform_i2c_exists_def platform_i2c_setup_def st_in i2c_port
      lua_arg_at_def send_preset send_answer_def)

lemma i2c_setup_then_write_witness:
  "\<exists>v c addrs'. i2c_setup 0 True [Lua_number 2, Lua_number 400000, Lua_number 0x168] [0, 0, 0] =
        Some (Lua_return (v, c, addrs')) \<and> v = (if True then 400000 else 0) \<and> c = Open_i2c (unat (2 :: u32)) 400000 \<and>
      i2c_write 2 [Lua_number 2, Lua_number 0x6B, Lua_table [Some 1, Some 2]] addrs' =
        Some (Lua_return (2, [Write_i2c (unat (2 :: u32)) (ucast (ucast (0x168 :: u32) :: u8)) (Some (ucast (0x6B :: u32))) [1, 2]]))"
  by (rule i2c_setup_then_write) (simp_all add: data_bytes_def)

text \<open>A bus number the platform does not have passes the check and writes outside the table.\<close>

lemma i2c_setup_unchecked_bus:
  assumes "3 \<le> unat bus" and "length addrs = 3"
  shows "i2c_setup junk opened [Lua_number bus, Lua_number speed, Lua_number slave] addrs = None"
  using assms by (simp add: i2c_setup_def platform_i2c_exists_def platform_i2c_setup_def st_def)

text \<open>Without a third argument the slave address is whatever the stack held.\<close>

lemma i2c_setup_uninitialised_slave:
  assumes "unat bus < 3" and "length addrs = 3"
  shows "i2c_setup junk opened [Lua_number bus, Lua_number speed] addrs =
    Some (Lua_return (if opened then speed else 0, Open_i2c (unat bus) speed, addrs[unat bus := junk]))"
  using assms by (simp add: i2c_setup_def platform_i2c_exists_def platform_i2c_setup_def st_in i2c_port)

end
