(* ===== verification/Lcd.thy ===== *)
theory Lcd
  imports Display Pio I2c
begin

text \<open>
  The LCD driver, \<^verbatim>\<open>platform/coolsand/src/platform_lcd.c\<close>, in the build without layers, and
  the I2C operations it uses (\<^verbatim>\<open>platform_i2c.c\<close>): the four buses, initialisation, command
  tables, power saving and screen updates. The kernel's calls are recorded in the order the code
  makes them. A call through a function pointer that is still \<^verbatim>\<open>NULL\<close>, a failed
  \<^verbatim>\<open>ASSERT\<close> and a read outside a table or buffer are \<open>None\<close>. \<^verbatim>\<open>malloc\<close> is taken to succeed.
\<close>

section \<open>State\<close>

record lcd_rect =
  ltx :: u16
  lty :: u16
  rbx :: u16
  rby :: u16

text \<open>
  The union \<^verbatim>\<open>lcd_itf_t\<close> is its five words; the SPI and the I2C view name them differently.
\<close>

record lcd_itf =
  itf0 :: u32
  itf1 :: u32
  itf2 :: u32
  itf3 :: u32
  itf4 :: u32

abbreviation spi_pin_rs :: "lcd_itf \<Rightarrow> u32" where "spi_pin_rs \<equiv> itf1"
abbreviation spi_freq :: "lcd_itf \<Rightarrow> u32" where "spi_freq \<equiv> itf3"
abbreviation i2c_bus_id :: "lcd_itf \<Rightarrow> u32" where "i2c_bus_id \<equiv> itf0"
abbreviation i2c_freq :: "lcd_itf \<Rightarrow> u32" where "i2c_freq \<equiv> itf1"
abbreviation i2c_slave_addr :: "lcd_itf \<Rightarrow> u32" where "i2c_slave_addr \<equiv> itf2"
abbreviation i2c_cmd_addr :: "lcd_itf \<Rightarrow> u32" where "i2c_cmd_addr \<equiv> itf3"
abbreviation i2c_data_addr :: "lcd_itf \<Rightarrow> u32" where "i2c_data_addr \<equiv> itf4"

record lcd_param =
  par_width :: u16
  par_height :: u16
  par_bpp :: u8
  par_x_offset :: u16
  par_y_offset :: u16
  pLcdCmdTable :: "u32 list"
  tableSize :: u16
  pLcdSleepCmd :: "u32 list"
  sleepCmdSize :: u16
  pLcdWakeCmd :: "u32 list"
  wakeCmdSize :: u16
  pLcdAddressCmd :: "u32 list"
  addressCmdSize :: u16
  par_bus :: lcd_bus_kind
  lcd_itf_of :: lcd_itf
  pin_rst :: u32
  pin_cs :: u32
  pin_rs :: u32

datatype lcd_call =
    Lcd_sleep nat
  | Lcd_send_event u32
  | Init_color_lcd u16 u16 "(u32 \<times> nat \<times> nat) option"
  | Init_color_parallel u16 u16 nat nat
  | Init_mono_lcd u16 u16 u16 u16 u32 nat nat
  | Send_color_lcd_command u16
  | Send_color_lcd_data u16
  | Send_mono_lcd_command u16
  | Send_mono_lcd_data u16
  | Update_color_lcd_screen lcd_rect "u8 list"
  | Update_mono_lcd_screen lcd_rect
  | Lcd_i2c i2c_call
  | Lcd_config_gpio nat gpio_cfg
  | Lcd_set_gpio nat nat
  | Config_spi u32
  | Write_spi "u8 list"

text \<open>The functions the pointers \<^verbatim>\<open>lcd_bus_write_cmd\<close>, \<^verbatim>\<open>_data\<close> and \<^verbatim>\<open>_data_buf\<close> can point to.\<close>

datatype lcd_fns = Color_lcd | Mono_lcd | I2c_lcd | Spi_lcd

datatype update_op = Lcd_bus_color_update | Lcd_spi_color_update | Lcd_bus_mono_update | Lcd_common_mono_update

record lcd_st =
  drv_bpp :: u8
  lcd_x_offset :: u16
  lcd_y_offset :: u16
  lcd_sleep_cmd :: "u32 list option"
  lcd_wake_cmd :: "u32 list option"
  lcd_address_cmd :: "u32 list option"
  lcd_bus_update :: "update_op option"
  lcd_bus_write_cmd :: "lcd_fns option"
  lcd_bus_write_data :: "lcd_fns option"
  lcd_bus_write_data_buf :: "lcd_fns option"
  drv_bus :: lcd_bus_kind
  lcd_bus_itf :: lcd_itf
  lcd_first_update :: bool
  i2cSlaveAddr :: "u16 list"
  lcd_calls :: "lcd_call list"

definition lcd_out :: "lcd_call \<Rightarrow> lcd_st \<Rightarrow> lcd_st" where
  "lcd_out c s = s\<lparr>lcd_calls := lcd_calls s @ [c]\<rparr>"

text \<open>\<^verbatim>\<open>delayMilliseconds(ms)\<close> in kernel ticks.\<close>

definition delayMilliseconds :: "nat \<Rightarrow> lcd_st \<Rightarrow> lcd_st" where
  "delayMilliseconds ms s = lcd_out (Lcd_sleep (ms * 16384 div 1000)) s"

section \<open>I2C (platform\_i2c.c)\<close>

text \<open>The calls of the I2C layer among those of the display driver.\<close>

definition lcd_i2c_setup :: "u32 \<Rightarrow> u32 \<Rightarrow> u16 \<Rightarrow> lcd_st \<Rightarrow> lcd_st option" where
  "lcd_i2c_setup bus speed slaveAddr s = do {
     (c, addrs) \<leftarrow> platform_i2c_setup bus speed slaveAddr (i2cSlaveAddr s);
     Some (lcd_out (Lcd_i2c c) (s\<lparr>i2cSlaveAddr := addrs\<rparr>))
   }"

definition lcd_i2c_send :: "u32 \<Rightarrow> u16 \<Rightarrow> u8 \<Rightarrow> u8 list \<Rightarrow> lcd_st \<Rightarrow> lcd_st option" where
  "lcd_i2c_send bus slave_addr reg buf s = do {
     cs \<leftarrow> platform_i2c_send_data bus slave_addr (Some reg) buf (i2cSlaveAddr s);
     Some (fold (\<lambda>c. lcd_out (Lcd_i2c c)) cs s)
   }"

section \<open>The bus functions\<close>

text \<open>Only the low byte of the 16-bit value goes over I2C and SPI.\<close>

definition lcd_write_cmd :: "u16 \<Rightarrow> lcd_st \<Rightarrow> lcd_st option" where
  "lcd_write_cmd cmd s =
     (case lcd_bus_write_cmd s of
        None \<Rightarrow> None
      | Some Color_lcd \<Rightarrow> Some (lcd_out (Send_color_lcd_command cmd) s)
      | Some Mono_lcd \<Rightarrow> Some (lcd_out (Send_mono_lcd_command cmd) s)
      | Some I2c_lcd \<Rightarrow>
          lcd_i2c_send (i2c_bus_id (lcd_bus_itf s)) (ucast (i2c_slave_addr (lcd_bus_itf s)))
            (ucast (i2c_cmd_addr (lcd_bus_itf s))) [ucast cmd] s
      | Some Spi_lcd \<Rightarrow>
          Some (lcd_out (Write_spi [ucast cmd]) (lcd_out (Lcd_set_gpio (unat (spi_pin_rs (lcd_bus_itf s))) 0) s)))"

definition lcd_write_data :: "u16 \<Rightarrow> lcd_st \<Rightarrow> lcd_st option" where
  "lcd_write_data v s =
     (case lcd_bus_write_data s of
        None \<Rightarrow> None
      | Some Color_lcd \<Rightarrow> Some (lcd_out (Send_color_lcd_data v) s)
      | Some Mono_lcd \<Rightarrow> Some (lcd_out (Send_mono_lcd_data v) s)
      | Some I2c_lcd \<Rightarrow>
          lcd_i2c_send (i2c_bus_id (lcd_bus_itf s)) (ucast (i2c_slave_addr (lcd_bus_itf s)))
            (ucast (i2c_data_addr (lcd_bus_itf s))) [ucast v] s
      | Some Spi_lcd \<Rightarrow>
          Some (lcd_out (Write_spi [ucast v]) (lcd_out (Lcd_set_gpio (unat (spi_pin_rs (lcd_bus_itf s))) 1) s)))"

text \<open>Only the I2C and SPI buses have a function that writes a buffer.\<close>

definition lcd_write_data_buf :: "u8 list \<Rightarrow> lcd_st \<Rightarrow> lcd_st option" where
  "lcd_write_data_buf buf s =
     (case lcd_bus_write_data_buf s of
        Some I2c_lcd \<Rightarrow>
          lcd_i2c_send (i2c_bus_id (lcd_bus_itf s)) (ucast (i2c_slave_addr (lcd_bus_itf s)))
            (ucast (i2c_data_addr (lcd_bus_itf s))) buf s
      | Some Spi_lcd \<Rightarrow>
          Some (lcd_out (Write_spi buf) (lcd_out (Lcd_set_gpio (unat (spi_pin_rs (lcd_bus_itf s))) 1) s))
      | _ \<Rightarrow> None)"

text \<open>\<^verbatim>\<open>len\<close> bytes of the buffer from index \<open>i\<close>.\<close>

definition slice :: "u8 list \<Rightarrow> int \<Rightarrow> int \<Rightarrow> u8 list option" where
  "slice buf i len = (if 0 \<le> i \<and> 0 \<le> len \<and> i + len \<le> int (length buf)
     then Some (take (nat len) (drop (nat i) buf)) else None)"

section \<open>Updates\<close>

definition lcd_write_update_area :: "lcd_rect \<Rightarrow> lcd_st \<Rightarrow> lcd_st option" where
  "lcd_write_update_area r s =
     (let x0 = ltx r + lcd_x_offset s; y0 = lty r + lcd_y_offset s;
          x1 = rbx r + lcd_x_offset s; y1 = rby r + lcd_y_offset s;
          hi = (\<lambda>v. drop_bit 8 v); lo = (\<lambda>v. v AND 0x00ff)
      in case lcd_address_cmd s of
          Some cmds \<Rightarrow> do {
            kind \<leftarrow> ld cmds 0;
            (if kind = 1 then do {
               let data_list = [hi x0, lo x0, hi x1, lo x1, hi y0, lo y0, hi y1, lo y1];
               s \<leftarrow> for_range 0 8 (\<lambda>i s. do {
                 c \<leftarrow> ld cmds (i + 1);
                 s \<leftarrow> lcd_write_cmd (ucast c) s;
                 lcd_write_data (data_list ! i) s
               }) s;
               c \<leftarrow> ld cmds 9;
               lcd_write_cmd (ucast c) s
             } else Some s)
          }
        | None \<Rightarrow> do {
            s \<leftarrow> lcd_write_cmd 0x2A s;
            s \<leftarrow> lcd_write_data (hi x0) s;
            s \<leftarrow> lcd_write_data (lo x0) s;
            s \<leftarrow> lcd_write_data (hi x1) s;
            s \<leftarrow> lcd_write_data (lo x1) s;
            s \<leftarrow> lcd_write_cmd 0x2B s;
            s \<leftarrow> lcd_write_data (hi y0) s;
            s \<leftarrow> lcd_write_data (lo y0) s;
            s \<leftarrow> lcd_write_data (hi y1) s;
            s \<leftarrow> lcd_write_data (lo y1) s;
            lcd_write_cmd 0x2C s
          })"

definition lcd_bus_color_update :: "lcd_rect \<Rightarrow> u8 list \<Rightarrow> lcd_st \<Rightarrow> lcd_st option" where
  "lcd_bus_color_update r buffer s = do {
     s \<leftarrow> lcd_write_update_area r s;
     Some (lcd_out (Update_color_lcd_screen r buffer) s)
   }"

definition lcd_spi_color_update :: "lcd_rect \<Rightarrow> u8 list \<Rightarrow> lcd_st \<Rightarrow> lcd_st option" where
  "lcd_spi_color_update r buffer s = do {
     s \<leftarrow> lcd_write_update_area r s;
     let s = lcd_out (Lcd_send_event 0x1cd1cd1) s;
     bytes \<leftarrow> slice buffer 0 ((uint (rby r) - uint (lty r) + 1) * (uint (rbx r) - uint (ltx r) + 1)
                * (uint (drv_bpp s) div 8));
     s \<leftarrow> lcd_write_data_buf bytes s;
     Some (lcd_out (Lcd_send_event 0x1cd1cde) s)
   }"

definition lcd_bus_mono_update :: "lcd_rect \<Rightarrow> lcd_st \<Rightarrow> lcd_st option" where
  "lcd_bus_mono_update r s = Some (lcd_out (Update_mono_lcd_screen r) s)"

definition lcd_common_mono_update :: "lcd_rect \<Rightarrow> u8 list \<Rightarrow> lcd_st \<Rightarrow> lcd_st option" where
  "lcd_common_mono_update r buffer s =
     (let width = unat (rbx r) + 1 in
      for_range 0 ((unat (rby r) + 1 + 7) div 8) (\<lambda>page s. do {
        s \<leftarrow> lcd_write_cmd (0x00 + lcd_x_offset s mod 16) s;
        s \<leftarrow> lcd_write_cmd (0x10 + lcd_x_offset s div 16) s;
        s \<leftarrow> lcd_write_cmd (0xB0 OR of_nat page) s;
        s \<leftarrow> lcd_write_cmd (0x40 OR lcd_y_offset s) s;
        bytes \<leftarrow> slice buffer (int (page * width)) (int width);
        lcd_write_data_buf bytes s
      }) s)"

definition lcd_update_with :: "update_op \<Rightarrow> lcd_rect \<Rightarrow> u8 list \<Rightarrow> lcd_st \<Rightarrow> lcd_st option" where
  "lcd_update_with u r buffer s =
     (case u of
        Lcd_bus_color_update \<Rightarrow> lcd_bus_color_update r buffer s
      | Lcd_spi_color_update \<Rightarrow> lcd_spi_color_update r buffer s
      | Lcd_bus_mono_update \<Rightarrow> lcd_bus_mono_update r s
      | Lcd_common_mono_update \<Rightarrow> lcd_common_mono_update r buffer s)"

definition platform_lcd_update :: "lcd_rect \<Rightarrow> u8 list \<Rightarrow> lcd_st \<Rightarrow> lcd_st option" where
  "platform_lcd_update r buffer s = do {
     u \<leftarrow> lcd_bus_update s;
     s \<leftarrow> lcd_update_with u r buffer s;
     (if lcd_first_update s then
        (let s = s\<lparr>lcd_first_update := False\<rparr> in if drv_bpp s = 1 then lcd_write_cmd 0xAF s else Some s)
      else Some s)
   }"

text \<open>\<^verbatim>\<open>platform_disp_update\<close> of \<^verbatim>\<open>common_disp.c\<close>: the whole screen.\<close>

definition platform_disp_update :: "disp_st \<Rightarrow> lcd_st \<Rightarrow> lcd_st option" where
  "platform_disp_update d s =
     platform_lcd_update \<lparr>ltx = 0, lty = 0, rbx = lcd_width d - 1, rby = lcd_height d - 1\<rparr> (framebuffer d) s"

section \<open>Command tables and power saving\<close>

text \<open>
  \<^verbatim>\<open>for(index = 0; index < size && table[index] != (UINT32)-1; index++)\<close>: the high half of an
  entry says what its low half is, a delay, a command or data.
\<close>

function write_command_table :: "u32 list \<Rightarrow> nat \<Rightarrow> nat \<Rightarrow> lcd_st \<Rightarrow> lcd_st option" where
  "write_command_table table sz index s =
     (if index < sz then do {
        e \<leftarrow> ld table index;
        (if e = -1 then Some s
         else do {
           let flag = drop_bit 16 e;
           let v = (ucast (e AND 0xffff) :: u16);
           s \<leftarrow> (if flag = 1 then Some (delayMilliseconds (unat v) s)
                 else if flag = 0 \<or> flag = 2 then lcd_write_cmd (v AND 0x00ff) s
                 else if flag = 3 then lcd_write_data (v AND 0x00ff) s
                 else None);
           write_command_table table sz (Suc index) s
         })
      }
      else Some s)"
  by pat_completeness auto
termination
  by (relation "measure (\<lambda>(table, sz, index, s). sz - index)") auto

declare write_command_table.simps [simp del]

definition platform_lcd_powersave :: "int \<Rightarrow> lcd_st \<Rightarrow> lcd_st option" where
  "platform_lcd_powersave sleep_wake s =
     (if sleep_wake \<noteq> 0
      then (case lcd_sleep_cmd s of Some t \<Rightarrow> write_command_table t 65535 0 s | None \<Rightarrow> Some s)
      else (case lcd_wake_cmd s of Some t \<Rightarrow> write_command_table t 65535 0 s | None \<Rightarrow> Some s))"

section \<open>Initialisation\<close>

definition lcd_bus_spi4line_init :: "lcd_param \<Rightarrow> lcd_st \<Rightarrow> lcd_st option" where
  "lcd_bus_spi4line_init p s = do {
     cs \<leftarrow> platform_pio_get_gpio_port (pin_cs p);
     rst \<leftarrow> platform_pio_get_gpio_port (pin_rst p);
     (if drv_bpp s \<noteq> 1
      then Some ((lcd_out (Init_color_lcd (par_width p) (par_height p) (Some (spi_freq (lcd_itf_of p), cs, rst))) s)
             \<lparr>lcd_bus_update := Some Lcd_bus_color_update, lcd_bus_write_cmd := Some Color_lcd,
              lcd_bus_write_data := Some Color_lcd\<rparr>)
      else Some ((lcd_out (Init_mono_lcd (par_width p) (par_height p) (par_x_offset p) (par_y_offset p)
                   (spi_freq (lcd_itf_of p)) cs rst) s)
             \<lparr>lcd_bus_update := Some Lcd_bus_mono_update, lcd_bus_write_cmd := Some Mono_lcd,
              lcd_bus_write_data := Some Mono_lcd\<rparr>))
   }"

definition lcd_bus_parallel_init :: "lcd_param \<Rightarrow> lcd_st \<Rightarrow> lcd_st option" where
  "lcd_bus_parallel_init p s =
     (if drv_bpp s \<noteq> 16 then None
      else do {
        cs \<leftarrow> platform_pio_get_gpio_port (pin_cs p);
        rst \<leftarrow> platform_pio_get_gpio_port (pin_rst p);
        Some ((lcd_out (Init_color_parallel (par_width p) (par_height p) cs rst) s)
          \<lparr>lcd_bus_update := Some Lcd_bus_color_update, lcd_bus_write_cmd := Some Color_lcd,
           lcd_bus_write_data := Some Color_lcd\<rparr>)
      })"

definition lcd_common_reset :: "nat \<Rightarrow> lcd_st \<Rightarrow> lcd_st" where
  "lcd_common_reset rst s =
     (let s = lcd_out (Lcd_config_gpio rst (OPENAT_GPIO_OUTPUT 1)) s;
          s = delayMilliseconds 5 s;
          s = lcd_out (Lcd_set_gpio rst 0) s;
          s = delayMilliseconds 5 s;
          s = lcd_out (Lcd_set_gpio rst 1) s
      in delayMilliseconds 50 s)"

definition lcd_bus_i2c_init :: "lcd_param \<Rightarrow> lcd_st \<Rightarrow> lcd_st option" where
  "lcd_bus_i2c_init p s =
     (if drv_bpp s \<noteq> 1 then None
      else do {
        let s = s\<lparr>lcd_bus_itf := lcd_itf_of p\<rparr>;
        s \<leftarrow> lcd_i2c_setup (i2c_bus_id (lcd_itf_of p)) (i2c_freq (lcd_itf_of p))
               (ucast (i2c_slave_addr (lcd_itf_of p))) s;
        rst \<leftarrow> platform_pio_get_gpio_port (pin_rst p);
        let s = lcd_common_reset rst s;
        Some (s\<lparr>lcd_bus_update := Some Lcd_common_mono_update, lcd_bus_write_cmd := Some I2c_lcd,
                lcd_bus_write_data := Some I2c_lcd, lcd_bus_write_data_buf := Some I2c_lcd\<rparr>)
      })"

definition lcd_bus_spi_init :: "lcd_param \<Rightarrow> lcd_st \<Rightarrow> lcd_st option" where
  "lcd_bus_spi_init p s =
     (if drv_bpp s \<noteq> 1 \<and> drv_bpp s \<noteq> 16 then None
      else do {
        rs \<leftarrow> platform_pio_get_gpio_port (pin_rs p);
        let s = s\<lparr>lcd_bus_itf := (lcd_itf_of p)\<lparr>itf1 := of_nat rs\<rparr>\<rparr>;
        let s = lcd_out (Config_spi (spi_freq (lcd_itf_of p))) s;
        let s = lcd_out (Lcd_config_gpio rs (OPENAT_GPIO_OUTPUT 0)) s;
        rst \<leftarrow> platform_pio_get_gpio_port (pin_rst p);
        let s = lcd_common_reset rst s;
        Some (s\<lparr>lcd_bus_update := Some (if drv_bpp s = 1 then Lcd_common_mono_update else Lcd_spi_color_update),
                lcd_bus_write_cmd := Some Spi_lcd, lcd_bus_write_data := Some Spi_lcd,
                lcd_bus_write_data_buf := Some Spi_lcd\<rparr>)
      })"

text \<open>\<^verbatim>\<open>lcd_init_table\<close>.\<close>

definition lcd_init_table :: "lcd_bus_kind \<Rightarrow> lcd_param \<Rightarrow> lcd_st \<Rightarrow> lcd_st option" where
  "lcd_init_table bus =
     (case bus of
        PLATFORM_LCD_BUS_SPI4LINE \<Rightarrow> lcd_bus_spi4line_init
      | PLATFORM_LCD_BUS_PARALLEL \<Rightarrow> lcd_bus_parallel_init
      | PLATFORM_LCD_BUS_I2C \<Rightarrow> lcd_bus_i2c_init
      | PLATFORM_LCD_BUS_SPI \<Rightarrow> lcd_bus_spi_init)"

text \<open>The copy of a table of \<open>n\<close> entries, ended by an entry with all bits set.\<close>

definition copy_table :: "u32 list \<Rightarrow> u16 \<Rightarrow> u32 list option" where
  "copy_table t n = (if unat n \<le> length t then Some (take (unat n) t @ [-1]) else None)"

text \<open>The first half of \<^verbatim>\<open>platform_lcd_init\<close>: the parameters and the copies of the tables.\<close>

definition lcd_save_param :: "lcd_param \<Rightarrow> lcd_st \<Rightarrow> lcd_st option" where
  "lcd_save_param p s = do {
     let s = s\<lparr>drv_bpp := par_bpp p, lcd_x_offset := par_x_offset p, lcd_y_offset := par_y_offset p\<rparr>;
     let s = lcd_out (Lcd_send_event 0xd1a1daaa) s;
     let s = lcd_out (Lcd_send_event (spi_freq (lcd_itf_of p))) s;
     sl \<leftarrow> copy_table (pLcdSleepCmd p) (sleepCmdSize p);
     wk \<leftarrow> copy_table (pLcdWakeCmd p) (wakeCmdSize p);
     let s = s\<lparr>lcd_sleep_cmd := Some sl, lcd_wake_cmd := Some wk\<rparr>;
     s \<leftarrow> (if addressCmdSize p > 0
           then map_option (\<lambda>a. s\<lparr>lcd_address_cmd := Some a\<rparr>) (copy_table (pLcdAddressCmd p) (addressCmdSize p))
           else Some s);
     Some (s\<lparr>drv_bus := par_bus p\<rparr>)
   }"

definition platform_lcd_init :: "lcd_param \<Rightarrow> lcd_st \<Rightarrow> lcd_st option" where
  "platform_lcd_init p s = do {
     s \<leftarrow> lcd_save_param p s;
     s \<leftarrow> lcd_init_table (drv_bus s) p s;
     (if drv_bpp s = 1 then write_command_table (pLcdCmdTable p) (unat (tableSize p)) 0 s
      else do {
        let s = delayMilliseconds 50 s;
        s \<leftarrow> write_command_table (pLcdCmdTable p) (unat (tableSize p)) 0 s;
        Some (delayMilliseconds 100 s)
      })
   }"

section \<open>What a command or a byte puts on the bus\<close>

definition i2c_out :: "lcd_st \<Rightarrow> u8 \<Rightarrow> u8 list \<Rightarrow> lcd_call list" where
  "i2c_out s reg buf =
     (let bus = unat (i2c_bus_id (lcd_bus_itf s));
          a = (ucast (i2c_slave_addr (lcd_bus_itf s)) :: u16);
          a = (if a = I2C_NULL_SLAVE_ADDR then i2cSlaveAddr s ! bus else a)
      in if a = I2C_NULL_SLAVE_ADDR then [] else [Lcd_i2c (Write_i2c bus a (Some reg) buf)])"

definition spi_out :: "lcd_st \<Rightarrow> nat \<Rightarrow> u8 list \<Rightarrow> lcd_call list" where
  "spi_out s rs buf = [Lcd_set_gpio (unat (spi_pin_rs (lcd_bus_itf s))) rs, Write_spi buf]"

definition cmd_out :: "lcd_st \<Rightarrow> u16 \<Rightarrow> lcd_call list" where
  "cmd_out s v = (case the (lcd_bus_write_cmd s) of
       Color_lcd \<Rightarrow> [Send_color_lcd_command v]
     | Mono_lcd \<Rightarrow> [Send_mono_lcd_command v]
     | I2c_lcd \<Rightarrow> i2c_out s (ucast (i2c_cmd_addr (lcd_bus_itf s))) [ucast v]
     | Spi_lcd \<Rightarrow> spi_out s 0 [ucast v])"

definition data_out :: "lcd_st \<Rightarrow> u16 \<Rightarrow> lcd_call list" where
  "data_out s v = (case the (lcd_bus_write_data s) of
       Color_lcd \<Rightarrow> [Send_color_lcd_data v]
     | Mono_lcd \<Rightarrow> [Send_mono_lcd_data v]
     | I2c_lcd \<Rightarrow> i2c_out s (ucast (i2c_data_addr (lcd_bus_itf s))) [ucast v]
     | Spi_lcd \<Rightarrow> spi_out s 1 [ucast v])"

definition buf_out :: "lcd_st \<Rightarrow> u8 list \<Rightarrow> lcd_call list" where
  "buf_out s buf = (if lcd_bus_write_data_buf s = Some I2c_lcd
     then i2c_out s (ucast (i2c_data_addr (lcd_bus_itf s))) buf else spi_out s 1 buf)"

text \<open>The function pointers are set, and an I2C bus number is one the platform has.\<close>

definition lcd_ready :: "lcd_st \<Rightarrow> bool" where
  "lcd_ready s \<longleftrightarrow> (\<exists>f. lcd_bus_write_cmd s = Some f \<and> lcd_bus_write_data s = Some f \<and>
     (f = I2c_lcd \<longrightarrow> unat (i2c_bus_id (lcd_bus_itf s)) < 3 \<and>
        unat (i2c_bus_id (lcd_bus_itf s)) < length (i2cSlaveAddr s)))"

definition adds :: "lcd_call list \<Rightarrow> lcd_st \<Rightarrow> lcd_st" where
  "adds cs s = s\<lparr>lcd_calls := lcd_calls s @ cs\<rparr>"

lemma adds_simps [simp]:
  "adds ds (adds cs s) = adds (cs @ ds) s" "adds [] s = s"
  "cmd_out (adds cs s) = cmd_out s" "data_out (adds cs s) = data_out s" "buf_out (adds cs s) = buf_out s"
  "lcd_ready (adds cs s) = lcd_ready s" "lcd_out c s = adds [c] s"
  "lcd_x_offset (adds cs s) = lcd_x_offset s" "lcd_y_offset (adds cs s) = lcd_y_offset s"
  "lcd_address_cmd (adds cs s) = lcd_address_cmd s" "drv_bpp (adds cs s) = drv_bpp s"
  "lcd_first_update (adds cs s) = lcd_first_update s" "lcd_calls (adds cs s) = lcd_calls s @ cs"
  "lcd_bus_write_data_buf (adds cs s) = lcd_bus_write_data_buf s"
  "lcd_sleep_cmd (adds cs s) = lcd_sleep_cmd s" "lcd_wake_cmd (adds cs s) = lcd_wake_cmd s"
  "lcd_bus_itf (adds cs s) = lcd_bus_itf s" "i2cSlaveAddr (adds cs s) = i2cSlaveAddr s"
  "lcd_bus_update (adds cs s) = lcd_bus_update s"
  by (simp_all add: adds_def fun_eq_iff cmd_out_def data_out_def buf_out_def i2c_out_def spi_out_def lcd_ready_def
      lcd_out_def Let_def split: lcd_fns.split)

lemma i2c_send:
  assumes "unat (i2c_bus_id (lcd_bus_itf s)) < 3" and "unat (i2c_bus_id (lcd_bus_itf s)) < length (i2cSlaveAddr s)"
  shows "lcd_i2c_send (i2c_bus_id (lcd_bus_itf s)) (ucast (i2c_slave_addr (lcd_bus_itf s))) reg buf s =
    Some (adds (i2c_out s reg buf) s)"
proof -
  let ?n = "unat (i2c_bus_id (lcd_bus_itf s))"
  have "?n = 0 \<or> ?n = 1 \<or> ?n = 2" using assms(1) by auto
  then have "ld i2cIdMap ?n = Some ?n" by (auto simp: i2cIdMap_def ld_def)
  then show ?thesis using assms(2)
    by (simp add: lcd_i2c_send_def platform_i2c_send_data_def preset_slave_def i2c_out_def ld_in Let_def)
qed

lemma write_cmd: "lcd_ready s \<Longrightarrow> lcd_write_cmd v s = Some (adds (cmd_out s v) s)"
  by (auto simp: lcd_ready_def lcd_write_cmd_def cmd_out_def i2c_send spi_out_def split: lcd_fns.split)

lemma write_data: "lcd_ready s \<Longrightarrow> lcd_write_data v s = Some (adds (data_out s v) s)"
  by (auto simp: lcd_ready_def lcd_write_data_def data_out_def i2c_send spi_out_def split: lcd_fns.split)

lemma write_buf:
  assumes "lcd_ready s" and "lcd_bus_write_data_buf s = lcd_bus_write_data s"
    and "lcd_bus_write_data s = Some I2c_lcd \<or> lcd_bus_write_data s = Some Spi_lcd"
  shows "lcd_write_data_buf buf s = Some (adds (buf_out s buf) s)"
  using assms by (auto simp: lcd_ready_def lcd_write_data_buf_def buf_out_def i2c_send spi_out_def)

section \<open>Command tables\<close>

definition entry_ok :: "u32 \<Rightarrow> bool" where
  "entry_ok e \<longleftrightarrow> drop_bit 16 e \<in> {0, 1, 2, 3}"

definition entry_out :: "lcd_st \<Rightarrow> u32 \<Rightarrow> lcd_call list" where
  "entry_out s e =
     (let v = ucast (e AND 0xffff) :: u16
      in if drop_bit 16 e = 1 then [Lcd_sleep (unat v * 16384 div 1000)]
         else if drop_bit 16 e = 3 then data_out s (v AND 0x00ff) else cmd_out s (v AND 0x00ff))"

lemma entry_out_adds [simp]: "entry_out (adds cs s) = entry_out s"
  by (simp add: entry_out_def fun_eq_iff Let_def)

definition table_run :: "u32 list \<Rightarrow> nat \<Rightarrow> nat \<Rightarrow> u32 list" where
  "table_run t sz i = takeWhile (\<lambda>e. e \<noteq> -1) (take (sz - i) (drop i t))"

lemma write_command_table_run:
  assumes "lcd_ready s" and "\<forall>e \<in> set (table_run t sz i). entry_ok e" and "sz \<le> length t \<or> -1 \<in> set (drop i t)"
  shows "write_command_table t sz i s = Some (adds (concat (map (entry_out s) (table_run t sz i))) s)"
  using assms
proof (induction "sz - i" arbitrary: i s)
  case 0
  then show ?case by (simp add: write_command_table.simps table_run_def)
next
  case (Suc d)
  then have lt: "i < sz" by simp
  have i: "i < length t" using Suc.prems(3) lt by (cases "i < length t") auto
  then have drop: "drop i t = t ! i # drop (Suc i) t" by (simp add: Cons_nth_drop_Suc)
  have sz: "sz - i = Suc (sz - Suc i)" using lt by simp
  have run: "table_run t sz i = (if t ! i = -1 then [] else t ! i # table_run t sz (Suc i))"
    unfolding table_run_def drop sz by simp
  show ?case
  proof (cases "t ! i = -1")
    case True
    then show ?thesis using lt i run by (subst write_command_table.simps) (simp add: ld_in)
  next
    case False
    let ?s = "adds (entry_out s (t ! i)) s"
    have ok: "entry_ok (t ! i)" and rest: "\<forall>e \<in> set (table_run t sz (Suc i)). entry_ok e"
      using Suc.prems(2) run False by simp_all
    have stop: "sz \<le> length t \<or> -1 \<in> set (drop (Suc i) t)" using Suc.prems(3) drop False by auto
    have "write_command_table t sz (Suc i) ?s =
        Some (adds (concat (map (entry_out ?s) (table_run t sz (Suc i)))) ?s)"
      using Suc.hyps(2) Suc.prems(1) rest stop by (intro Suc.hyps(1)) simp_all
    then have IH: "write_command_table t sz (Suc i) ?s =
        Some (adds (entry_out s (t ! i) @ concat (map (entry_out s) (table_run t sz (Suc i)))) s)" by simp
    have "write_command_table t sz i s = write_command_table t sz (Suc i) ?s"
      using lt i False ok Suc.prems(1)
      by (subst write_command_table.simps)
        (auto simp: ld_in entry_ok_def entry_out_def Let_def write_cmd write_data delayMilliseconds_def)
    then show ?thesis using IH run False by simp
  qed
qed

lemma write_cmd_frame: "lcd_write_cmd v s = Some s' \<Longrightarrow> \<exists>cs. s' = adds cs s"
  by (auto simp: lcd_write_cmd_def lcd_i2c_send_def platform_i2c_send_data_def preset_slave_def bind_eq_Some_conv
      split: option.splits lcd_fns.splits if_splits intro: exI[of _ "[]"])

lemma write_data_frame: "lcd_write_data v s = Some s' \<Longrightarrow> \<exists>cs. s' = adds cs s"
  by (auto simp: lcd_write_data_def lcd_i2c_send_def platform_i2c_send_data_def preset_slave_def bind_eq_Some_conv
      split: option.splits lcd_fns.splits if_splits intro: exI[of _ "[]"])

lemma command_table_frame: "write_command_table t sz i s = Some s' \<Longrightarrow> \<exists>cs. s' = adds cs s"
proof (induction "sz - i" arbitrary: i s)
  case 0
  then show ?case by (auto simp: write_command_table.simps intro: exI[of _ "[]"])
next
  case (Suc d)
  then have d: "d = sz - Suc i" by simp
  have step: "\<exists>cs. s' = adds cs s" if "write_command_table t sz (Suc i) (adds ds s) = Some s'" for ds
    using Suc.hyps(1)[OF d that] by auto
  have nil: "\<exists>cs. s = adds cs s" for s by (rule exI[of _ "[]"]) simp
  show ?case
    using Suc.prems
    by (subst (asm) write_command_table.simps)
      (auto simp: bind_eq_Some_conv Let_def delayMilliseconds_def
        split: if_splits intro: nil step dest!: write_cmd_frame write_data_frame)
qed

section \<open>Initialisation\<close>

lemma lcd_init_table_sets:
  assumes "lcd_init_table bus p s = Some s'"
  shows "lcd_ready s' \<and> lcd_sleep_cmd s' = lcd_sleep_cmd s \<and> lcd_wake_cmd s' = lcd_wake_cmd s"
proof -
  have i2c: "unat b < 3 \<and> unat b < length (i2cSlaveAddr t) \<and> lcd_sleep_cmd t = lcd_sleep_cmd s \<and>
      lcd_wake_cmd t = lcd_wake_cmd s \<and> lcd_bus_itf t = lcd_bus_itf s"
    if "lcd_i2c_setup b f a s = Some t" for b f a s t
    using that by (auto simp: lcd_i2c_setup_def platform_i2c_setup_def bind_eq_Some_conv i2cIdMap_def lcd_out_def
        dest!: st_SomeD ld_SomeD)
  show ?thesis
    using assms
    by (cases bus) (auto simp: lcd_init_table_def lcd_bus_spi4line_init_def lcd_bus_parallel_init_def
        lcd_bus_i2c_init_def lcd_bus_spi_init_def lcd_ready_def bind_eq_Some_conv Let_def lcd_common_reset_def
        delayMilliseconds_def adds_def simp flip: adds_def split: if_splits dest!: i2c)
qed

lemma lcd_save_param_sets:
  "lcd_save_param p s = Some s' \<Longrightarrow>
     lcd_sleep_cmd s' = copy_table (pLcdSleepCmd p) (sleepCmdSize p) \<and>
     lcd_wake_cmd s' = copy_table (pLcdWakeCmd p) (wakeCmdSize p)"
  by (auto simp: lcd_save_param_def bind_eq_Some_conv Let_def split: if_splits)

lemma platform_lcd_init_sets:
  assumes "platform_lcd_init p s = Some s'"
  shows "lcd_ready s' \<and> lcd_sleep_cmd s' = copy_table (pLcdSleepCmd p) (sleepCmdSize p) \<and>
    lcd_wake_cmd s' = copy_table (pLcdWakeCmd p) (wakeCmdSize p)"
proof -
  obtain s1 s2 where s1: "lcd_save_param p s = Some s1" and s2: "lcd_init_table (drv_bus s1) p s1 = Some s2"
      and s': "(if drv_bpp s2 = 1 then write_command_table (pLcdCmdTable p) (unat (tableSize p)) 0 s2
        else write_command_table (pLcdCmdTable p) (unat (tableSize p)) 0 (delayMilliseconds 50 s2) \<bind>
          (\<lambda>s. Some (delayMilliseconds 100 s))) = Some s'"
    using assms unfolding platform_lcd_init_def Let_def by (elim bind_SomeE) blast
  have "\<exists>cs. s' = adds cs s2"
    using s' by (auto simp: bind_eq_Some_conv delayMilliseconds_def split: if_splits dest!: command_table_frame)
  then show ?thesis
    using lcd_save_param_sets[OF s1] lcd_init_table_sets[OF s2] by auto
qed

lemma copy_table_run:
  assumes "copy_table t n = Some c"
  shows "table_run c 65535 0 = takeWhile (\<lambda>e. e \<noteq> -1) (take (unat n) t)" and "-1 \<in> set c"
proof -
  have c: "c = take (unat n) t @ [-1]" "unat n \<le> length t" using assms by (auto simp: copy_table_def split: if_splits)
  have n: "unat n \<le> 65535" using unsigned_less[of n, where 'a = nat] by simp
  have run: "takeWhile (\<lambda>e. e \<noteq> -1) (take 65535 (xs @ [-1])) = takeWhile (\<lambda>e. e \<noteq> -1) xs"
    if "length xs \<le> 65535" for xs :: "u32 list"
  proof (cases "length xs = 65535")
    case False
    then have "take 65535 (xs @ [-1]) = xs @ [-1]" using that by simp
    then show ?thesis by (auto simp: takeWhile_append intro!: takeWhile_eq_all_conv[THEN iffD2, symmetric])
  qed simp
  then show "table_run c 65535 0 = takeWhile (\<lambda>e. e \<noteq> -1) (take (unat n) t)" "-1 \<in> set c"
    using c n run[of "take (unat n) t"] by (simp_all add: table_run_def min_absorb2)
qed

section \<open>Properties\<close>

text \<open>
  After initialisation, putting the panel to sleep or waking it replays exactly the commands
  given for it, up to the end mark if there is one, and reads nothing beyond them.
\<close>

theorem lcd_powersave_replays_table:
  assumes "platform_lcd_init p s = Some s1"
    and "sl = takeWhile (\<lambda>e. e \<noteq> -1) (take (unat (sleepCmdSize p)) (pLcdSleepCmd p))" and "\<forall>e \<in> set sl. entry_ok e"
    and "wk = takeWhile (\<lambda>e. e \<noteq> -1) (take (unat (wakeCmdSize p)) (pLcdWakeCmd p))" and "\<forall>e \<in> set wk. entry_ok e"
  shows "platform_lcd_powersave 1 s1 = Some (s1\<lparr>lcd_calls := lcd_calls s1 @ concat (map (entry_out s1) sl)\<rparr>) \<and>
         platform_lcd_powersave 0 s1 = Some (s1\<lparr>lcd_calls := lcd_calls s1 @ concat (map (entry_out s1) wk)\<rparr>)"
proof -
  have ready: "lcd_ready s1" using platform_lcd_init_sets[OF assms(1)] by simp
  have run: "write_command_table c 65535 0 s1 = Some (adds (concat (map (entry_out s1) es)) s1)"
    if "copy_table t n = Some c" "es = takeWhile (\<lambda>e. e \<noteq> -1) (take (unat n) t)" "\<forall>e \<in> set es. entry_ok e" for c t n es
    using write_command_table_run[OF ready, of c 65535 0] copy_table_run[OF that(1)] that(2,3) by simp
  have copies: "\<exists>c. copy_table (pLcdSleepCmd p) (sleepCmdSize p) = Some c"
      "\<exists>c. copy_table (pLcdWakeCmd p) (wakeCmdSize p) = Some c"
    using assms(1) by (auto simp: platform_lcd_init_def lcd_save_param_def bind_eq_Some_conv Let_def)
  then obtain c d where cd: "copy_table (pLcdSleepCmd p) (sleepCmdSize p) = Some c"
      "copy_table (pLcdWakeCmd p) (wakeCmdSize p) = Some d" by blast
  have "platform_lcd_powersave 1 s1 = write_command_table c 65535 0 s1"
      "platform_lcd_powersave 0 s1 = write_command_table d 65535 0 s1"
    using platform_lcd_init_sets[OF assms(1)] cd by (simp_all add: platform_lcd_powersave_def)
  then show ?thesis using run[OF cd(1) assms(2,3)] run[OF cd(2) assms(4,5)] by (simp add: adds_def)
qed

definition sample_lcd :: lcd_st where
  "sample_lcd = \<lparr>drv_bpp = 0, lcd_x_offset = 0, lcd_y_offset = 0, lcd_sleep_cmd = None, lcd_wake_cmd = None,
     lcd_address_cmd = None, lcd_bus_update = None, lcd_bus_write_cmd = None, lcd_bus_write_data = None,
     lcd_bus_write_data_buf = None, drv_bus = PLATFORM_LCD_BUS_SPI,
     lcd_bus_itf = \<lparr>itf0 = 0, itf1 = 0, itf2 = 0, itf3 = 0, itf4 = 0\<rparr>, lcd_first_update = True,
     i2cSlaveAddr = [0, 0, 0], lcd_calls = []\<rparr>"

definition sample_lcd_param :: lcd_param where
  "sample_lcd_param = \<lparr>par_width = 4, par_height = 8, par_bpp = 1, par_x_offset = 2, par_y_offset = 0,
     pLcdCmdTable = [0x000000A2], tableSize = 1, pLcdSleepCmd = [0x000000AE, 0x00010064], sleepCmdSize = 2,
     pLcdWakeCmd = [0x000200AF], wakeCmdSize = 1, pLcdAddressCmd = [], addressCmdSize = 0,
     par_bus = PLATFORM_LCD_BUS_SPI,
     lcd_itf_of = \<lparr>itf0 = 1, itf1 = 2, itf2 = 3, itf3 = 4000000, itf4 = 0\<rparr>, pin_rst = 6, pin_cs = 7, pin_rs = 8\<rparr>"

lemma sample_lcd_init: "\<exists>s1. platform_lcd_init sample_lcd_param sample_lcd = Some s1"
  by (simp add: platform_lcd_init_def lcd_save_param_def sample_lcd_param_def sample_lcd_def copy_table_def Let_def
      lcd_init_table_def lcd_bus_spi_init_def platform_pio_get_gpio_port_def PLATFORM_IO_UNKNOWN_PIN_def
      PLATFORM_IO_GET_PORT_def get_real_gpio_def write_command_table.simps ld_def lcd_write_cmd_def
      lcd_common_reset_def delayMilliseconds_def adds_def)

theorem lcd_powersave_replays_table_witness:
  "\<exists>s1. platform_lcd_init sample_lcd_param sample_lcd = Some s1 \<and>
     platform_lcd_powersave 0 s1 = Some (s1\<lparr>lcd_calls := lcd_calls s1 @ cmd_out s1 0xAF\<rparr>)"
proof -
  obtain s1 where s1: "platform_lcd_init sample_lcd_param sample_lcd = Some s1" using sample_lcd_init by blast
  show ?thesis
    using lcd_powersave_replays_table[OF s1 refl _ refl] s1
    by (simp add: sample_lcd_param_def entry_ok_def entry_out_def)
qed

section \<open>Updates of the whole screen\<close>

definition page_out :: "lcd_st \<Rightarrow> nat \<Rightarrow> u8 list \<Rightarrow> nat \<Rightarrow> lcd_call list" where
  "page_out s width fb page =
     cmd_out s (lcd_x_offset s mod 16) @ cmd_out s (0x10 + lcd_x_offset s div 16) @
     cmd_out s (0xB0 OR of_nat page) @ cmd_out s (0x40 OR lcd_y_offset s) @
     buf_out s (take width (drop (page * width) fb))"

lemma mono_pages:
  assumes "lcd_ready s" and "lcd_bus_write_data_buf s = lcd_bus_write_data s"
    and "lcd_bus_write_data s = Some I2c_lcd \<or> lcd_bus_write_data s = Some Spi_lcd"
    and "n * width \<le> length fb" and "k \<le> n"
  shows "for_range 0 k (\<lambda>page s. do {
        s \<leftarrow> lcd_write_cmd (0x00 + lcd_x_offset s mod 16) s;
        s \<leftarrow> lcd_write_cmd (0x10 + lcd_x_offset s div 16) s;
        s \<leftarrow> lcd_write_cmd (0xB0 OR of_nat page) s;
        s \<leftarrow> lcd_write_cmd (0x40 OR lcd_y_offset s) s;
        bytes \<leftarrow> slice fb (int (page * width)) (int width);
        lcd_write_data_buf bytes s
      }) s = Some (adds (concat (map (page_out s width fb) [0..<k])) s)"
  using assms(5)
proof (induction k)
  case (Suc k)
  have wd: "lcd_bus_write_data (adds cs s) = lcd_bus_write_data s" for cs by (simp add: adds_def)
  have "(k + 1) * width \<le> n * width" using Suc.prems by (intro mult_le_mono1) simp
  then have "k * width + width \<le> length fb" using assms(4) by simp
  then have "slice fb (int (k * width)) (int width) = Some (take width (drop (k * width) fb))"
    by (simp add: slice_def nat_mult_distrib flip: of_nat_add of_nat_mult)
  with Suc assms(1-3) show ?case
    by (simp add: for_range_snoc write_cmd write_buf wd page_out_def del: of_nat_mult)
qed simp

lemma pages_cover: "concat (map (\<lambda>page. take w (drop (page * w) xs)) [0..<n]) = take (n * w) xs"
proof (induction n)
  case (Suc n)
  have "Suc n * w = n * w + w" by simp
  with Suc show ?case by (simp only: take_add upt_Suc_append[OF le0] map_append concat_append) simp
qed simp

text \<open>
  C19. Updating a monochrome screen over SPI or I2C sends the frame buffer page by page, each page
  after the commands that select it; the pages together are the whole frame buffer.
\<close>

theorem mono_update_sends_framebuffer:
  assumes "lcd_ready s" and "lcd_bus_update s = Some Lcd_common_mono_update" and "\<not> lcd_first_update s"
    and "lcd_bus_write_data_buf s = lcd_bus_write_data s"
    and "lcd_bus_write_data s = Some I2c_lcd \<or> lcd_bus_write_data s = Some Spi_lcd"
    and "disp_ok d" and "lcd_bpp d = 1" and "0 < W d" and "0 < H d"
  shows "platform_disp_update d s =
      Some (s\<lparr>lcd_calls := lcd_calls s @ concat (map (page_out s (W d) (framebuffer d)) [0..<H d div 8])\<rparr>) \<and>
    concat (map (\<lambda>page. take (W d) (drop (page * W d) (framebuffer d))) [0..<H d div 8]) = framebuffer d"
proof -
  have fb: "8 dvd H d" "length (framebuffer d) = W d * H d div 8"
    using assms(6,7) by (simp_all add: disp_ok_def mono_ok_def)
  then have len: "length (framebuffer d) = (H d div 8) * W d" by (simp add: div_mult_swap mult.commute)
  have last: "unat (lcd_width d - 1) + 1 = W d" "unat (lcd_height d - 1) + 1 = H d"
    using assms(8,9) unat_minus_one[of "lcd_width d"] unat_minus_one[of "lcd_height d"] by (auto simp: unat_gt_0)
  have pages: "(H d + 7) div 8 = H d div 8" using fb(1) by (auto elim!: dvdE)
  have "lcd_common_mono_update \<lparr>ltx = 0, lty = 0, rbx = lcd_width d - 1, rby = lcd_height d - 1\<rparr> (framebuffer d) s =
      Some (adds (concat (map (page_out s (W d) (framebuffer d)) [0..<H d div 8])) s)"
    unfolding lcd_common_mono_update_def Let_def lcd_rect.simps last pages
    by (rule mono_pages[OF assms(1,4,5), of "H d div 8"]) (simp_all add: len)
  then show ?thesis
    using assms(2,3) len
    by (simp add: platform_disp_update_def platform_lcd_update_def lcd_update_with_def pages_cover adds_def)
qed

definition spi_panel :: "update_op \<Rightarrow> u8 \<Rightarrow> lcd_st" where
  "spi_panel u bpp = sample_lcd\<lparr>drv_bpp := bpp, lcd_bus_update := Some u, lcd_bus_write_cmd := Some Spi_lcd,
     lcd_bus_write_data := Some Spi_lcd, lcd_bus_write_data_buf := Some Spi_lcd, lcd_first_update := False\<rparr>"

lemma spi_panel_ready: "lcd_ready (spi_panel u bpp)"
  by (simp add: lcd_ready_def spi_panel_def)

theorem mono_update_sends_framebuffer_witness:
  "\<exists>s'. platform_disp_update mono_disp (spi_panel Lcd_common_mono_update 1) = Some s'"
  using mono_update_sends_framebuffer[OF spi_panel_ready[of Lcd_common_mono_update 1] _ _ _ _ sample_disp_ok(1)]
  by (simp add: spi_panel_def mono_disp_def blank_disp_def)

text \<open>The commands that select the window \<open>(x0, y0)\<close> to \<open>(x1, y1)\<close> for the pixels that follow.\<close>

definition window_out :: "lcd_st \<Rightarrow> u16 \<Rightarrow> u16 \<Rightarrow> u16 \<Rightarrow> u16 \<Rightarrow> lcd_call list" where
  "window_out s x0 y0 x1 y1 =
     cmd_out s 0x2A @ concat (map (\<lambda>v. data_out s (drop_bit 8 v) @ data_out s (v AND 0xff)) [x0, x1]) @
     cmd_out s 0x2B @ concat (map (\<lambda>v. data_out s (drop_bit 8 v) @ data_out s (v AND 0xff)) [y0, y1]) @
     cmd_out s 0x2C"

lemma update_area_window:
  assumes "lcd_ready s" and "lcd_address_cmd s = None"
  shows "lcd_write_update_area r s = Some (adds (window_out s (ltx r + lcd_x_offset s) (lty r + lcd_y_offset s)
    (rbx r + lcd_x_offset s) (rby r + lcd_y_offset s)) s)"
  using assms by (simp add: lcd_write_update_area_def Let_def write_cmd write_data window_out_def)

text \<open>
  C20. Updating a 16-bit colour screen over SPI selects the whole screen, moved by the panel's
  offset, as the window, and sends all of the frame buffer's pixels, between the two trace events.
\<close>

theorem colour_update_sends_framebuffer:
  assumes "lcd_ready s" and "lcd_bus_update s = Some Lcd_spi_color_update" and "\<not> lcd_first_update s"
    and "lcd_bus_write_data s = Some Spi_lcd" and "lcd_bus_write_data_buf s = Some Spi_lcd"
    and "lcd_address_cmd s = None" and "drv_bpp s = 16"
    and "disp_ok d" and "lcd_bpp d = 16" and "0 < W d" and "0 < H d"
  shows "platform_disp_update d s = Some (s\<lparr>lcd_calls := lcd_calls s @
      window_out s (lcd_x_offset s) (lcd_y_offset s) (lcd_width d - 1 + lcd_x_offset s) (lcd_height d - 1 + lcd_y_offset s) @
      [Lcd_send_event 0x1cd1cd1] @ buf_out s (take (2 * (W d * H d)) (framebuffer d)) @ [Lcd_send_event 0x1cd1cde]\<rparr>)"
proof -
  have fb: "2 * (W d * H d) \<le> length (framebuffer d)"
    using assms(8,9) by (simp add: disp_ok_def colour_ok_def)
  have "unat (lcd_width d - 1) + 1 = W d" "unat (lcd_height d - 1) + 1 = H d"
    using assms(10,11) unat_minus_one[of "lcd_width d"] unat_minus_one[of "lcd_height d"] by (auto simp: unat_gt_0)
  from arg_cong[OF this(1), of int] arg_cong[OF this(2), of int]
  have last: "uint (lcd_width d - 1) + 1 = int (W d)" "uint (lcd_height d - 1) + 1 = int (H d)" by simp_all
  have "(uint (lcd_height d - 1) - uint (0 :: u16) + 1) * (uint (lcd_width d - 1) - uint (0 :: u16) + 1) *
      (uint (16 :: u8) div 8) = int (2 * (W d * H d))"
    by (simp add: last del: of_nat_unat)
  then have bytes: "slice (framebuffer d) 0 ((uint (lcd_height d - 1) - uint (0 :: u16) + 1) *
      (uint (lcd_width d - 1) - uint (0 :: u16) + 1) * (uint (16 :: u8) div 8)) = Some (take (2 * (W d * H d)) (framebuffer d))"
    using fb by (simp only: slice_def add_0 of_nat_le_iff nat_int nat_0 drop0 of_nat_0_le_iff order_refl simp_thms if_True)
  have wd: "lcd_bus_write_data (adds cs s) = lcd_bus_write_data s" for cs by (simp add: adds_def)
  have "lcd_spi_color_update \<lparr>ltx = 0, lty = 0, rbx = lcd_width d - 1, rby = lcd_height d - 1\<rparr> (framebuffer d) s =
      Some (adds (window_out s (lcd_x_offset s) (lcd_y_offset s) (lcd_width d - 1 + lcd_x_offset s)
        (lcd_height d - 1 + lcd_y_offset s) @ [Lcd_send_event 0x1cd1cd1] @
        buf_out s (take (2 * (W d * H d)) (framebuffer d)) @ [Lcd_send_event 0x1cd1cde]) s)"
    using assms bytes by (simp add: lcd_spi_color_update_def update_area_window write_buf wd)
  then show ?thesis
    using assms(2,3)
    by (simp add: platform_disp_update_def platform_lcd_update_def lcd_update_with_def adds_def)
qed

theorem colour_update_sends_framebuffer_witness:
  "\<exists>s'. platform_disp_update colour_disp (spi_panel Lcd_spi_color_update 16) = Some s'"
  using colour_update_sends_framebuffer[OF spi_panel_ready[of Lcd_spi_color_update 16] _ _ _ _ _ _ sample_disp_ok(2)]
  by (simp add: spi_panel_def sample_lcd_def colour_disp_def blank_disp_def)

end
