(* ===== verification/Osd.thy ===== *)
theory Osd
  imports Pio
begin

text \<open>
  The driver of the AT7456E on-screen display chip, \<^verbatim>\<open>modules/src/at7456e.c\<close>: an SPI
  bus bit-banged over four GPIOs, the chip's registers and display memory, and the Lua functions.
  The chip is not part of the program. What it puts on its output is the \<open>gpio_level\<close> of the
  environment; what it receives is read off the calls by \<open>spi_frames\<close>, a receiver of SPI mode 0.
  \<^verbatim>\<open>delay_spi\<close> only spends time and has no counterpart.
\<close>

section \<open>Registers (at7456e.h)\<close>

definition VM0 :: u8 where "VM0 = 0x00"
definition DMM :: u8 where "DMM = 0x04"
definition DMAH :: u8 where "DMAH = 0x05"
definition DMAL :: u8 where "DMAL = 0x06"
definition OSDBL :: u8 where "OSDBL = 0x6c"

datatype VER7456 = OLD7456 | NEW7456 | BAD7456

section \<open>Pins\<close>

record osd_pins =
  at7456e_pin_ncs :: u32
  at7456e_pin_sck :: u32
  at7456e_pin_sdi :: u32
  at7456e_pin_sdo :: u32

definition at7456e_set_pinval :: "gpio_env \<Rightarrow> u32 \<Rightarrow> nat \<Rightarrow> gpio_call list \<Rightarrow> gpio_call list option" where
  "at7456e_set_pinval env pin val h = do {
     (r, h) \<leftarrow> platform_pio_op env (port_of pin) (push_bit (pin_of pin) 1)
                 (if val = 1 then PLATFORM_IO_PIN_SET else PLATFORM_IO_PIN_CLEAR) h;
     Some h
   }"

definition at7456e_get_pinval :: "gpio_env \<Rightarrow> u32 \<Rightarrow> gpio_call list \<Rightarrow> (u32 \<times> gpio_call list) option" where
  "at7456e_get_pinval env pin h =
     platform_pio_op env (port_of pin) (push_bit (pin_of pin) 1) PLATFORM_IO_PIN_GET h"

section \<open>Bytes over the wire\<close>

text \<open>\<^verbatim>\<open>for (i=0; i<8; i++)\<close>: put bit 7 on SDI, shift the byte, pulse the clock.\<close>

definition shift_out :: "gpio_env \<Rightarrow> osd_pins \<Rightarrow> u8 \<Rightarrow> gpio_call list \<Rightarrow> gpio_call list option" where
  "shift_out env p dat h = do {
     (dat, h) \<leftarrow> for_range 0 8 (\<lambda>i (dat, h). do {
       h \<leftarrow> at7456e_set_pinval env (at7456e_pin_sdi p) (if dat AND 0x80 = 0 then 0 else 1) h;
       let dat = push_bit 1 dat;
       h \<leftarrow> at7456e_set_pinval env (at7456e_pin_sck p) 1 h;
       h \<leftarrow> at7456e_set_pinval env (at7456e_pin_sck p) 0 h;
       Some (dat, h)
     }) (dat, h);
     Some h
   }"

definition shift_in :: "gpio_env \<Rightarrow> osd_pins \<Rightarrow> gpio_call list \<Rightarrow> (u8 \<times> gpio_call list) option" where
  "shift_in env p h =
     for_range 0 8 (\<lambda>i (r, h). do {
       let r = push_bit 1 r;
       (v, h) \<leftarrow> at7456e_get_pinval env (at7456e_pin_sdo p) h;
       let r = (if v = 1 then r OR 1 else r);
       h \<leftarrow> at7456e_set_pinval env (at7456e_pin_sck p) 1 h;
       h \<leftarrow> at7456e_set_pinval env (at7456e_pin_sck p) 0 h;
       Some (r, h)
     }) (0, h)"

definition spi_begin :: "gpio_env \<Rightarrow> osd_pins \<Rightarrow> gpio_call list \<Rightarrow> gpio_call list option" where
  "spi_begin env p h = do {
     h \<leftarrow> at7456e_set_pinval env (at7456e_pin_sck p) 0 h;
     at7456e_set_pinval env (at7456e_pin_ncs p) 0 h
   }"

definition spi_end :: "gpio_env \<Rightarrow> osd_pins \<Rightarrow> gpio_call list \<Rightarrow> gpio_call list option" where
  "spi_end env p h = do {
     h \<leftarrow> at7456e_set_pinval env (at7456e_pin_ncs p) 1 h;
     h \<leftarrow> at7456e_set_pinval env (at7456e_pin_sck p) 1 h;
     at7456e_set_pinval env (at7456e_pin_sdi p) 1 h
   }"

definition write_at7456_addr_data :: "gpio_env \<Rightarrow> osd_pins \<Rightarrow> u8 \<Rightarrow> u8 \<Rightarrow> gpio_call list \<Rightarrow> gpio_call list option" where
  "write_at7456_addr_data env p addr dat h = do {
     h \<leftarrow> spi_begin env p h;
     h \<leftarrow> shift_out env p addr h;
     h \<leftarrow> shift_out env p dat h;
     spi_end env p h
   }"

definition read_at7456_addr_data :: "gpio_env \<Rightarrow> osd_pins \<Rightarrow> u8 \<Rightarrow> gpio_call list \<Rightarrow> (u8 \<times> gpio_call list) option" where
  "read_at7456_addr_data env p addr h = do {
     h \<leftarrow> spi_begin env p h;
     h \<leftarrow> shift_out env p (addr OR 0x80) h;
     (r, h) \<leftarrow> shift_in env p h;
     h \<leftarrow> spi_end env p h;
     Some (r, h)
   }"

definition write_at7456_data :: "gpio_env \<Rightarrow> osd_pins \<Rightarrow> u8 \<Rightarrow> gpio_call list \<Rightarrow> gpio_call list option" where
  "write_at7456_data env p dat h = do {
     h \<leftarrow> spi_begin env p h;
     h \<leftarrow> shift_out env p dat h;
     spi_end env p h
   }"

definition read_at7456_data :: "gpio_env \<Rightarrow> osd_pins \<Rightarrow> gpio_call list \<Rightarrow> (u8 \<times> gpio_call list) option" where
  "read_at7456_data env p h = do {
     h \<leftarrow> spi_begin env p h;
     (r, h) \<leftarrow> shift_in env p h;
     h \<leftarrow> spi_end env p h;
     Some (r, h)
   }"

definition platform_os_sleep :: "nat \<Rightarrow> gpio_call list \<Rightarrow> gpio_call list" where
  "platform_os_sleep ms h = h @ [Os_sleep ms]"

section \<open>The chip\<close>

definition at7456e_check_chip_version :: "gpio_env \<Rightarrow> osd_pins \<Rightarrow> gpio_call list \<Rightarrow> (VER7456 \<times> gpio_call list) option" where
  "at7456e_check_chip_version env p h = do {
     (r1, h) \<leftarrow> read_at7456_addr_data env p VM0 h;
     h \<leftarrow> write_at7456_addr_data env p VM0 ((r1 AND NOT (push_bit 1 1)) OR 0x88) h;
     (r2, h) \<leftarrow> read_at7456_addr_data env p VM0 (platform_os_sleep 1 h);
     let r2 = r2 AND 0x88;
     h \<leftarrow> write_at7456_addr_data env p VM0 r1 h;
     Some (if r2 = 0x88 then NEW7456 else if r2 = 0x08 then OLD7456 else BAD7456, platform_os_sleep 1 h)
   }"

definition at7456e_reset :: "gpio_env \<Rightarrow> osd_pins \<Rightarrow> gpio_call list \<Rightarrow> gpio_call list option" where
  "at7456e_reset env p h = write_at7456_addr_data env p VM0 2 h"

text \<open>The character's place in the chip's font.\<close>

definition at7456_char :: "u8 \<Rightarrow> u8" where
  "at7456_char c =
     (if 0x30 \<le> c \<and> c \<le> 0x39 then (if c = 0x30 then 10 else c - 0x31 + 1)
      else if 0x41 \<le> c \<and> c \<le> 0x5A then c - 0x41 + 11
      else if 0x61 \<le> c \<and> c \<le> 0x7A then c - 0x61 + 37
      else if c = 0x20 then 0x00
      else if c = 0x28 then 0x3f
      else if c = 0x29 then 0x40
      else if c = 0x2E then 0x41
      else if c = 0x3F then 0x42
      else if c = 0x3B then 0x43
      else if c = 0x3A then 0x44
      else if c = 0x2C then 0x45
      else if c = 0x27 then 0x46
      else if c = 0x2F then 0x47
      else if c = 0x22 then 0x48
      else if c = 0x2D then 0x49
      else if c = 0x3C then 0x4a
      else if c = 0x3E then 0x4b
      else if c = 0x40 then 0x4c
      else c)"

text \<open>\<^verbatim>\<open>c = *s++; while (c != 0) { ...; c = *s++; }\<close>; the end of the memory is an access outside.\<close>

fun display_chars :: "gpio_env \<Rightarrow> osd_pins \<Rightarrow> u8 list \<Rightarrow> gpio_call list \<Rightarrow> gpio_call list option" where
  "display_chars env p [] h = None"
| "display_chars env p (c # s) h =
     (if c = 0 then Some h
      else write_at7456_data env p (at7456_char c) h \<bind> display_chars env p s)"

definition at7456e_display_string ::
    "gpio_env \<Rightarrow> osd_pins \<Rightarrow> u8 \<Rightarrow> u8 \<Rightarrow> u8 list \<Rightarrow> gpio_call list \<Rightarrow> gpio_call list option" where
  "at7456e_display_string env p row col s h = do {
     let kk = unat row * 30 + unat col;
     h \<leftarrow> write_at7456_addr_data env p DMAH (of_nat (kk div 256)) h;
     h \<leftarrow> write_at7456_addr_data env p DMAL (of_nat (kk mod 256)) h;
     h \<leftarrow> write_at7456_addr_data env p DMM 0x01 h;
     h \<leftarrow> display_chars env p s h;
     write_at7456_data env p 0xff h
   }"

definition at7456e_osd :: "gpio_env \<Rightarrow> osd_pins \<Rightarrow> int \<Rightarrow> gpio_call list \<Rightarrow> gpio_call list option" where
  "at7456e_osd env p enable h = do {
     (k, h) \<leftarrow> read_at7456_addr_data env p VM0 h;
     h \<leftarrow> write_at7456_addr_data env p VM0
            (if enable \<noteq> 0 then k OR push_bit 3 1 else k AND NOT (push_bit 3 1)) h;
     Some (platform_os_sleep 1 h)
   }"

definition at7456e_clear_screen :: "gpio_env \<Rightarrow> osd_pins \<Rightarrow> gpio_call list \<Rightarrow> gpio_call list option" where
  "at7456e_clear_screen env p h = do {
     h \<leftarrow> write_at7456_addr_data env p DMAH 0x00 h;
     h \<leftarrow> write_at7456_addr_data env p DMAL 0 h;
     h \<leftarrow> write_at7456_addr_data env p DMM 0x01 h;
     h \<leftarrow> for_range 0 (16 * 30) (\<lambda>i. write_at7456_data env p 0) h;
     write_at7456_data env p 0xff h
   }"

definition at7456e_osd_autoblacklevel :: "gpio_env \<Rightarrow> osd_pins \<Rightarrow> int \<Rightarrow> gpio_call list \<Rightarrow> gpio_call list option" where
  "at7456e_osd_autoblacklevel env p enable h = do {
     (k, h) \<leftarrow> read_at7456_addr_data env p OSDBL h;
     write_at7456_addr_data env p OSDBL
       (if enable \<noteq> 0 then k AND NOT (push_bit 4 1) else k OR push_bit 4 1) h
   }"

section \<open>The Lua functions\<close>

text \<open>Each returns the integer it pushes; the pins are the module's static variables.\<close>

definition lua_at7456e_init ::
    "gpio_env \<Rightarrow> u32 \<Rightarrow> u32 \<Rightarrow> u32 \<Rightarrow> u32 \<Rightarrow> gpio_call list \<Rightarrow> (int \<times> osd_pins \<times> gpio_call list) option" where
  "lua_at7456e_init env ncs sck sdi sdo h = do {
     let p = \<lparr>at7456e_pin_ncs = ncs, at7456e_pin_sck = sck, at7456e_pin_sdi = sdi, at7456e_pin_sdo = sdo\<rparr>;
     (v, h) \<leftarrow> at7456e_check_chip_version env p h;
     Some (if v = NEW7456 then 1 else 0, p, h)
   }"

definition lua_at7456e_reset :: "gpio_env \<Rightarrow> osd_pins \<Rightarrow> gpio_call list \<Rightarrow> (int \<times> gpio_call list) option" where
  "lua_at7456e_reset env p h = map_option (\<lambda>h. (1, h)) (at7456e_reset env p h)"

definition lua_at7456e_osd :: "gpio_env \<Rightarrow> osd_pins \<Rightarrow> int \<Rightarrow> gpio_call list \<Rightarrow> (int \<times> gpio_call list) option" where
  "lua_at7456e_osd env p enable h = map_option (\<lambda>h. (1, h)) (at7456e_osd env p enable h)"

definition lua_at7456e_clear :: "gpio_env \<Rightarrow> osd_pins \<Rightarrow> gpio_call list \<Rightarrow> (int \<times> gpio_call list) option" where
  "lua_at7456e_clear env p h = map_option (\<lambda>h. (1, h)) (at7456e_clear_screen env p h)"

text \<open>The string is copied into a block that ends with a zero byte.\<close>

definition lua_at7456e_puttext ::
    "gpio_env \<Rightarrow> osd_pins \<Rightarrow> int \<Rightarrow> int \<Rightarrow> u8 list \<Rightarrow> gpio_call list \<Rightarrow> (int \<times> gpio_call list) option" where
  "lua_at7456e_puttext env p put_x put_y str h =
     map_option (\<lambda>h. (1, h))
       (at7456e_display_string env p (word_of_int put_y) (word_of_int put_x) (str @ [0]) h)"

section \<open>One call per pin access\<close>

abbreviation gp :: "u32 \<Rightarrow> nat" where "gp pin \<equiv> gpio_of (port_of pin) (pin_of pin)"

lemma filter_eq_upt: "i < n \<Longrightarrow> filter (\<lambda>j. j = i) [0..<n] = [i]"
  by (induction n) (auto simp: less_Suc_eq filter_empty_conv)

lemma bit_single: "i < 32 \<Longrightarrow> bit (push_bit i 1 :: u32) = (\<lambda>j. j = i)"
  by (rule ext) (auto simp: bit_exp_iff)

lemma set_pinval:
  assumes "valid_pin pin"
  shows "at7456e_set_pinval env pin val h = Some (h @ [Set_gpio (gp pin) (if val = 1 then 1 else 0)])"
proof -
  note v = valid_pinD[OF assms]
  have "mask_gpios (port_of pin) (push_bit (pin_of pin) 1) 0 (PIO_PIN_ARRAY ! port_of pin) = [gp pin]"
    unfolding mask_gpios_def bit_single[OF pin_of_less] filter_eq_upt[OF v(2)] by simp
  then show ?thesis using v(1) by (simp add: at7456e_set_pinval_def platform_pio_op_steps pin_step_def)
qed

lemma get_pinval_loop:
  assumes "port < 2" and "n = PIO_PIN_ARRAY ! port" and "i \<le> pin" and "pin < n"
  shows "pio_op_loop env port (push_bit pin 1) PLATFORM_IO_PIN_GET n i r h =
    Some (case gpio_level env h (gpio_of port pin) of Some v \<Rightarrow> ucast v | None \<Rightarrow> 0xff,
          h @ [Read_gpio (gpio_of port pin)])"
  using assms(3)
proof (induction "pin - i" arbitrary: i)
  case 0
  then have "i = pin" by simp
  have "n \<le> 32" using assms(1,2) by (auto simp: PIO_PIN_ARRAY_def PIO_PIN_EX_def less_2_cases_iff)
  then have pin: "pin < 32" using assms(4) by simp
  then have "push_bit pin 1 AND push_bit pin 1 \<noteq> (0 :: u32)"
    using bit_test[of "push_bit pin 1" pin] by (simp add: bit_exp_iff)
  then show ?case
    using \<open>i = pin\<close> assms get_real_gpio_valid[of port pin]
    by (subst pio_op_loop.simps) (auto simp: OPENAT_GPIO_UNKNOWN_def)
next
  case (Suc d)
  have "push_bit pin 1 AND push_bit i 1 = (0 :: u32)"
    using bit_test[of "push_bit pin 1" i] Suc.hyps(2) by (auto simp: bit_exp_iff)
  then show ?case using Suc.hyps(1)[of "Suc i"] Suc.hyps(2) assms(4)
    by (subst pio_op_loop.simps) simp
qed

lemma get_pinval:
  assumes "valid_pin pin"
  shows "at7456e_get_pinval env pin h =
    Some (case gpio_level env h (gp pin) of Some v \<Rightarrow> ucast v | None \<Rightarrow> 0xff, h @ [Read_gpio (gp pin)])"
proof -
  note v = valid_pinD[OF assms]
  have "port_of pin < length PIO_PIN_ARRAY" using v(1) by (simp add: PIO_PIN_ARRAY_def)
  then show ?thesis
    using get_pinval_loop[OF v(1) refl le0 v(2)]
    by (simp add: at7456e_get_pinval_def platform_pio_op_def ld_in del: push_bit_of_1)
qed

section \<open>What the chip receives\<close>

text \<open>
  A receiver of SPI mode 0: while NCS is low it takes the level of SDI at each rising clock
  edge; a frame ends when NCS rises.
\<close>

record spi_rx =
  rx_ncs :: bool
  rx_sck :: bool
  rx_sdi :: bool
  rx_bits :: "bool list"
  rx_frames :: "bool list list"

fun rx_step :: "osd_pins \<Rightarrow> gpio_call \<Rightarrow> spi_rx \<Rightarrow> spi_rx" where
  "rx_step p (Set_gpio g v) r =
     (if g = gp (at7456e_pin_ncs p) then
        (if v = 0 then r\<lparr>rx_ncs := False\<rparr>
         else if rx_ncs r then r
         else r\<lparr>rx_ncs := True, rx_bits := [], rx_frames := rx_frames r @ [rx_bits r]\<rparr>)
      else if g = gp (at7456e_pin_sck p) then
        r\<lparr>rx_sck := (v \<noteq> 0),
          rx_bits := (if v \<noteq> 0 \<and> \<not> rx_sck r \<and> \<not> rx_ncs r then rx_bits r @ [rx_sdi r] else rx_bits r)\<rparr>
      else if g = gp (at7456e_pin_sdi p) then r\<lparr>rx_sdi := (v \<noteq> 0)\<rparr>
      else r)"
| "rx_step p _ r = r"

definition rx_idle :: "bool list list \<Rightarrow> spi_rx" where
  "rx_idle fs = \<lparr>rx_ncs = True, rx_sck = True, rx_sdi = True, rx_bits = [], rx_frames = fs\<rparr>"

definition spi_frames :: "osd_pins \<Rightarrow> gpio_call list \<Rightarrow> bool list list" where
  "spi_frames p cs = rx_frames (fold (rx_step p) cs (rx_idle []))"

definition msb_bits :: "u8 \<Rightarrow> bool list" where
  "msb_bits b = map (\<lambda>i. bit b (7 - i)) [0..<8]"

definition osd_ok :: "osd_pins \<Rightarrow> bool" where
  "osd_ok p \<longleftrightarrow> valid_pin (at7456e_pin_ncs p) \<and> valid_pin (at7456e_pin_sck p) \<and> valid_pin (at7456e_pin_sdi p) \<and>
     valid_pin (at7456e_pin_sdo p) \<and>
     distinct [gp (at7456e_pin_ncs p), gp (at7456e_pin_sck p), gp (at7456e_pin_sdi p)]"

lemma msb_bits_inject: "msb_bits a = msb_bits b \<Longrightarrow> a = b"
proof (rule bit_word_eqI)
  fix n assume eq: "msb_bits a = msb_bits b" and "n < LENGTH(8)"
  then have n: "n < 8" by simp
  from eq have "msb_bits a ! (7 - n) = msb_bits b ! (7 - n)" by simp
  moreover have "7 - n < 8" by simp
  ultimately show "bit a n = bit b n" using n by (simp add: msb_bits_def)
qed

section \<open>Shifting\<close>

lemma bit7_of_shift: "i < 8 \<Longrightarrow> (push_bit i dat AND 0x80 \<noteq> (0 :: u8)) = bit dat (7 - i)"
proof -
  assume i: "i < 8"
  have "(0x80 :: u8) = push_bit 7 1" by simp
  then have "(push_bit i dat AND 0x80 \<noteq> 0) = bit (push_bit i dat) 7"
    using bit_iff_and_push_bit_not_eq_0[of "push_bit i dat" 7] by simp
  also have "\<dots> = bit dat (7 - i)" using i by (simp add: bit_push_bit_iff)
  finally show ?thesis .
qed

definition bit_calls :: "osd_pins \<Rightarrow> bool \<Rightarrow> gpio_call list" where
  "bit_calls p b = [Set_gpio (gp (at7456e_pin_sdi p)) (if b then 1 else 0),
     Set_gpio (gp (at7456e_pin_sck p)) 1, Set_gpio (gp (at7456e_pin_sck p)) 0]"

definition clock_calls :: "osd_pins \<Rightarrow> gpio_call list" where
  "clock_calls p = [Read_gpio (gp (at7456e_pin_sdo p)),
     Set_gpio (gp (at7456e_pin_sck p)) 1, Set_gpio (gp (at7456e_pin_sck p)) 0]"

lemma shift_out_calls:
  assumes "osd_ok p"
  shows "shift_out env p dat h = Some (h @ concat (map (bit_calls p) (msb_bits dat)))"
proof -
  let ?body = "\<lambda>i (dat, h). do {
       h \<leftarrow> at7456e_set_pinval env (at7456e_pin_sdi p) (if dat AND 0x80 = 0 then 0 else 1) h;
       let dat = push_bit 1 dat;
       h \<leftarrow> at7456e_set_pinval env (at7456e_pin_sck p) 1 h;
       h \<leftarrow> at7456e_set_pinval env (at7456e_pin_sck p) 0 h;
       Some (dat, h)
     }"
  have "for_range 0 n ?body (dat, h) =
      Some (push_bit n dat, h @ concat (map (\<lambda>i. bit_calls p (bit dat (7 - i))) [0..<n]))" if "n \<le> 8" for n
    using that
  proof (induction n)
    case (Suc n)
    then have "n < 8" by simp
    from bit7_of_shift[OF this, of dat] Suc assms show ?case
      by (auto simp: for_range_snoc osd_ok_def set_pinval bit_calls_def push_bit_double)
  qed simp
  from this[of 8] show ?thesis by (simp only: shift_out_def msb_bits_def) (simp add: o_def)
qed

text \<open>The byte a list of bits stands for, highest first, as \<^verbatim>\<open>r = r << 1; r |= 1\<close> builds it.\<close>

definition byte_of :: "bool list \<Rightarrow> u8" where
  "byte_of bs = fold (\<lambda>b r. if b then push_bit 1 r OR 1 else push_bit 1 r) bs 0"

definition sampled :: "gpio_env \<Rightarrow> osd_pins \<Rightarrow> gpio_call list \<Rightarrow> bool list" where
  "sampled env p h =
     map (\<lambda>i. gpio_level env (h @ concat (replicate i (clock_calls p))) (gp (at7456e_pin_sdo p)) = Some 1) [0..<8]"

lemma shift_in_calls:
  assumes "osd_ok p"
  shows "shift_in env p h = Some (byte_of (sampled env p h), h @ concat (replicate 8 (clock_calls p)))"
proof -
  let ?s = "\<lambda>i. gpio_level env (h @ concat (replicate i (clock_calls p))) (gp (at7456e_pin_sdo p)) = Some 1"
  let ?body = "\<lambda>i (r, h). do {
       let r = push_bit 1 r;
       (v, h) \<leftarrow> at7456e_get_pinval env (at7456e_pin_sdo p) h;
       let r = (if v = 1 then r OR 1 else r);
       h \<leftarrow> at7456e_set_pinval env (at7456e_pin_sck p) 1 h;
       h \<leftarrow> at7456e_set_pinval env (at7456e_pin_sck p) 0 h;
       Some (r, h)
     }"
  have one: "((ucast (v :: u8) :: u32) = 1) = (v = 1)" for v by transfer simp
  have level: "((case l of Some v \<Rightarrow> ucast (v :: u8) | None \<Rightarrow> 0xff) = (1 :: u32)) = (l = Some 1)" for l
    by (cases l) (simp_all add: one)
  have "for_range 0 n ?body (0, h) =
      Some (byte_of (map ?s [0..<n]), h @ concat (replicate n (clock_calls p)))" for n
  proof (induction n)
    case (Suc n)
    have "concat (replicate (Suc n) c) = concat (replicate n c) @ c" for c :: "gpio_call list"
      by (induction n) simp_all
    with Suc assms show ?case
      by (simp add: for_range_snoc osd_ok_def set_pinval get_pinval level clock_calls_def byte_of_def del: replicate_Suc)
  qed (simp add: byte_of_def)
  from this[of 8] show ?thesis by (simp only: shift_in_def sampled_def)
qed

lemma msb_byte_of:
  assumes "length bs = 8"
  shows "msb_bits (byte_of bs) = bs"
proof -
  have bit: "n \<le> 8 \<Longrightarrow> i < n \<Longrightarrow> n \<le> length bs \<Longrightarrow> bit (byte_of (take n bs)) i = bs ! (n - 1 - i)" for n i
  proof (induction n arbitrary: i)
    case (Suc n)
    then have "byte_of (take (Suc n) bs) =
        (if bs ! n then push_bit 1 (byte_of (take n bs)) OR 1 else push_bit 1 (byte_of (take n bs)))"
      by (simp add: byte_of_def take_Suc_conv_app_nth)
    then show ?case using Suc by (cases i) (auto simp: bit_or_iff bit_push_bit_iff bit_1_iff simp del: push_bit_of_1 push_bit_Suc)
  qed simp
  show ?thesis
    by (rule nth_equalityI) (use assms bit[of 8] in \<open>auto simp: msb_bits_def\<close>)
qed

section \<open>Frames\<close>

lemma rx_bit_calls:
  assumes "osd_ok p" and "\<not> rx_ncs r" and "\<not> rx_sck r"
  shows "fold (rx_step p) (concat (map (bit_calls p) bs)) r =
    r\<lparr>rx_sdi := (if bs = [] then rx_sdi r else last bs), rx_bits := rx_bits r @ bs\<rparr>"
  using assms(2,3)
proof (induction bs arbitrary: r)
  case (Cons b bs)
  have "fold (rx_step p) (bit_calls p b) r = r\<lparr>rx_sdi := b, rx_bits := rx_bits r @ [b]\<rparr>"
    using assms(1) Cons.prems by (auto simp: bit_calls_def osd_ok_def)
  then show ?case using Cons by simp
qed simp

lemma rx_clock_calls:
  assumes "osd_ok p" and "\<not> rx_ncs r" and "\<not> rx_sck r"
  shows "fold (rx_step p) (concat (replicate n (clock_calls p))) r = r\<lparr>rx_bits := rx_bits r @ replicate n (rx_sdi r)\<rparr>"
  using assms(2,3)
proof (induction n arbitrary: r)
  case (Suc n)
  have "fold (rx_step p) (clock_calls p) r = r\<lparr>rx_bits := rx_bits r @ [rx_sdi r]\<rparr>"
    using assms(1) Suc.prems by (auto simp: clock_calls_def osd_ok_def)
  then show ?case using Suc by simp
qed simp

text \<open>An operation \<open>f\<close> sends the frames \<open>fs\<close>, from any idle state of the wire to the idle state.\<close>

definition sends :: "osd_pins \<Rightarrow> gpio_call list \<Rightarrow> bool list list \<Rightarrow> gpio_call list option \<Rightarrow> bool" where
  "sends p h fs res \<longleftrightarrow> (\<exists>cs. res = Some (h @ cs) \<and>
     (\<forall>gs. fold (rx_step p) cs (rx_idle gs) = rx_idle (gs @ fs)))"

lemma sends_bind:
  assumes "sends p h fs m" and "\<And>h. sends p h gs (f h)"
  shows "sends p h (fs @ gs) (m \<bind> f)"
proof -
  obtain cs where cs: "m = Some (h @ cs)" "\<forall>gs. fold (rx_step p) cs (rx_idle gs) = rx_idle (gs @ fs)"
    using assms(1) by (auto simp: sends_def)
  obtain ds where "f (h @ cs) = Some (h @ cs @ ds)" "\<forall>hs. fold (rx_step p) ds (rx_idle hs) = rx_idle (hs @ gs)"
    using assms(2)[of "h @ cs"] by (auto simp: sends_def)
  with cs show ?thesis by (auto simp: sends_def)
qed

lemma sends_done: "sends p h [] (Some h)"
  by (auto simp: sends_def)

text \<open>Between the begin and the end of a frame the wire is selected, its clock low.\<close>

lemma sends_frame:
  assumes p: "osd_ok p"
    and body: "\<And>r. \<not> rx_ncs r \<Longrightarrow> \<not> rx_sck r \<Longrightarrow> rx_bits r = [] \<Longrightarrow>
      \<exists>d. fold (rx_step p) cs r = r\<lparr>rx_sdi := d, rx_bits := bs\<rparr>"
  shows "sends p h [bs] (spi_begin env p h \<bind> (\<lambda>h. spi_end env p (h @ cs)))"
proof -
  let ?b = "[Set_gpio (gp (at7456e_pin_sck p)) 0, Set_gpio (gp (at7456e_pin_ncs p)) 0]"
  let ?e = "[Set_gpio (gp (at7456e_pin_ncs p)) 1, Set_gpio (gp (at7456e_pin_sck p)) 1,
    Set_gpio (gp (at7456e_pin_sdi p)) 1]"
  have "spi_begin env p h \<bind> (\<lambda>h. spi_end env p (h @ cs)) = Some (h @ ?b @ cs @ ?e)"
    using p by (simp add: spi_begin_def spi_end_def set_pinval osd_ok_def)
  moreover have "fold (rx_step p) (?b @ cs @ ?e) (rx_idle gs) = rx_idle (gs @ [bs])" for gs
  proof -
    let ?r = "\<lparr>rx_ncs = False, rx_sck = False, rx_sdi = True, rx_bits = [], rx_frames = gs\<rparr>"
    obtain d where d: "fold (rx_step p) cs ?r = ?r\<lparr>rx_sdi := d, rx_bits := bs\<rparr>" using body[of ?r] by auto
    have "fold (rx_step p) ?b (rx_idle gs) = ?r" using p by (auto simp: rx_idle_def osd_ok_def)
    moreover have "fold (rx_step p) ?e (?r\<lparr>rx_sdi := d, rx_bits := bs\<rparr>) = rx_idle (gs @ [bs])"
      using p by (auto simp: rx_idle_def osd_ok_def)
    ultimately show ?thesis using d by (simp only: fold_append comp_apply)
  qed
  ultimately show ?thesis unfolding sends_def by blast
qed

lemma sends_bits:
  assumes "osd_ok p"
  shows "sends p h [bs] (spi_begin env p h \<bind> (\<lambda>h. spi_end env p (h @ concat (map (bit_calls p) bs))))"
proof (rule sends_frame[OF assms])
  fix r :: spi_rx assume "\<not> rx_ncs r" "\<not> rx_sck r" "rx_bits r = []"
  then have "fold (rx_step p) (concat (map (bit_calls p) bs)) r =
      r\<lparr>rx_sdi := (if bs = [] then rx_sdi r else last bs), rx_bits := bs\<rparr>"
    by (simp add: rx_bit_calls[OF assms])
  then show "\<exists>d. fold (rx_step p) (concat (map (bit_calls p) bs)) r = r\<lparr>rx_sdi := d, rx_bits := bs\<rparr>" by blast
qed

lemma sends_write2:
  assumes "osd_ok p"
  shows "sends p h [msb_bits a @ msb_bits d] (write_at7456_addr_data env p a d h)"
  using sends_bits[OF assms, of h "msb_bits a @ msb_bits d" env]
  by (simp add: write_at7456_addr_data_def shift_out_calls[OF assms])

lemma sends_write1:
  assumes "osd_ok p"
  shows "sends p h [msb_bits d] (write_at7456_data env p d h)"
  using sends_bits[OF assms, of h "msb_bits d" env]
  by (simp add: write_at7456_data_def shift_out_calls[OF assms])

text \<open>Reading a register sends its address with bit 7 set, then eight clocks with the last level of SDI.\<close>

definition read_frame :: "u8 \<Rightarrow> bool list" where
  "read_frame a = msb_bits (a OR 0x80) @ replicate 8 (last (msb_bits (a OR 0x80)))"

definition read_calls :: "osd_pins \<Rightarrow> u8 \<Rightarrow> gpio_call list" where
  "read_calls p a = [Set_gpio (gp (at7456e_pin_sck p)) 0, Set_gpio (gp (at7456e_pin_ncs p)) 0] @
     concat (map (bit_calls p) (msb_bits (a OR 0x80)))"

lemma read_sends:
  assumes "osd_ok p"
  shows "\<exists>h'. read_at7456_addr_data env p a h = Some (byte_of (sampled env p (h @ read_calls p a)), h') \<and>
    sends p h [read_frame a] (Some h')"
proof -
  let ?cs = "concat (map (bit_calls p) (msb_bits (a OR 0x80))) @ concat (replicate 8 (clock_calls p))"
  let ?m = "spi_begin env p h \<bind> (\<lambda>h. spi_end env p (h @ ?cs))"
  have "sends p h [read_frame a] ?m"
  proof (rule sends_frame[OF assms])
    fix r :: spi_rx assume "\<not> rx_ncs r" "\<not> rx_sck r" "rx_bits r = []"
    moreover have "msb_bits (a OR 0x80) \<noteq> []" by (simp add: msb_bits_def)
    ultimately have "fold (rx_step p) ?cs r =
        r\<lparr>rx_sdi := last (msb_bits (a OR 0x80)), rx_bits := read_frame a\<rparr>"
      by (simp only: fold_append comp_apply) (simp add: rx_bit_calls[OF assms] rx_clock_calls[OF assms] read_frame_def
         )
    then show "\<exists>d. fold (rx_step p) ?cs r = r\<lparr>rx_sdi := d, rx_bits := read_frame a\<rparr>" by blast
  qed
  then obtain h' where "?m = Some h'" "sends p h [read_frame a] (Some h')" by (auto simp: sends_def)
  moreover have "read_at7456_addr_data env p a h = ?m \<bind> (\<lambda>h'. Some (byte_of (sampled env p (h @ read_calls p a)), h'))"
    using assms by (simp add: read_at7456_addr_data_def shift_out_calls shift_in_calls spi_begin_def spi_end_def
        set_pinval osd_ok_def read_calls_def)
  ultimately show ?thesis by simp
qed

lemma sends_chars:
  assumes "osd_ok p" and "0 \<notin> set s"
  shows "sends p h (map (\<lambda>c. msb_bits (at7456_char c)) s) (display_chars env p (s @ [0]) h)"
  using assms(2)
proof (induction s arbitrary: h)
  case Nil
  then show ?case by (simp add: sends_done)
next
  case (Cons c s)
  then have c: "c \<noteq> 0" and s: "0 \<notin> set s" by auto
  have "sends p h ([msb_bits (at7456_char c)] @ map (\<lambda>c. msb_bits (at7456_char c)) s)
      (write_at7456_data env p (at7456_char c) h \<bind> display_chars env p (s @ [0]))"
    by (rule sends_bind[OF sends_write1[OF assms(1)] Cons.IH[OF s]])
  with c show ?case by simp
qed

lemma sends_repeat:
  assumes "\<And>i h. sends p h [f] (g i h)"
  shows "sends p h (replicate n f) (for_range 0 n g h)"
proof (induction n)
  case (Suc n)
  have "sends p h (replicate n f @ [f]) (for_range 0 n g h \<bind> g n)"
    by (rule sends_bind[OF Suc assms])
  then show ?case by (simp add: for_range_snoc replicate_append_same)
qed (simp add: sends_done)

section \<open>Properties\<close>

text \<open>
  C21. Printing a text sends the chip the address of its first cell, automatic increment, one
  character after the other and the code that ends it, each as an SPI frame with the highest bit
  first, and leaves the wire idle.
\<close>

theorem osd_puttext_frames:
  assumes "osd_ok p" and "0 \<notin> set text" and "cell = nat (y mod 256) * 30 + nat (x mod 256)"
  shows "\<exists>cs. lua_at7456e_puttext env p x y text h = Some (1, h @ cs) \<and>
    spi_frames p cs =
      [msb_bits DMAH @ msb_bits (of_nat (cell div 256)), msb_bits DMAL @ msb_bits (of_nat (cell mod 256)),
       msb_bits DMM @ msb_bits 1] @ map (\<lambda>c. msb_bits (at7456_char c)) text @ [msb_bits 0xff]"
proof -
  have kk: "unat (word_of_int y :: u8) * 30 + unat (word_of_int x :: u8) = cell"
    using assms(3) by (simp add: unat_eq_nat_uint uint_word_of_int)
  have "sends p h ([msb_bits DMAH @ msb_bits (of_nat (cell div 256))] @ [msb_bits DMAL @ msb_bits (of_nat (cell mod 256))] @
      [msb_bits DMM @ msb_bits 1] @ map (\<lambda>c. msb_bits (at7456_char c)) text @ [msb_bits 0xff])
      (at7456e_display_string env p (word_of_int y) (word_of_int x) (text @ [0]) h)"
    unfolding at7456e_display_string_def Let_def kk
    by (intro sends_bind sends_write1 sends_write2 sends_chars assms(1,2))
  then show ?thesis by (auto simp: sends_def lua_at7456e_puttext_def spi_frames_def rx_idle_def)
qed

definition sample_osd :: osd_pins where
  "sample_osd = \<lparr>at7456e_pin_ncs = 1, at7456e_pin_sck = 2, at7456e_pin_sdi = 3, at7456e_pin_sdo = 0x21\<rparr>"

lemma sample_osd_ok: "osd_ok sample_osd"
  by (simp add: osd_ok_def sample_osd_def valid_pin_def PLATFORM_IO_IS_PORT_def PLATFORM_IO_GET_PORT_def
      PLATFORM_IO_GET_PIN_def platform_pio_has_port_def platform_pio_has_pin_def NUM_PIO_def PIO_PIN_ARRAY_def
      PIO_PIN_EX_def gpio_of_def)

theorem osd_puttext_frames_witness:
  "\<exists>cs. lua_at7456e_puttext pins_env sample_osd 2 9 [0x41] [] = Some (1, cs) \<and>
    spi_frames sample_osd cs = [msb_bits DMAH @ msb_bits 1, msb_bits DMAL @ msb_bits 16, msb_bits DMM @ msb_bits 1,
      msb_bits 11, msb_bits 0xff]"
  using osd_puttext_frames[OF sample_osd_ok, of "[0x41]" 272 9 2 pins_env "[]"] by (simp add: at7456_char_def)

text \<open>
  Reading a register addresses it with the read bit and returns the byte the chip presented,
  one level per clock, highest bit first.
\<close>

theorem osd_read_returns_presented_byte:
  assumes "osd_ok p"
  shows "\<exists>r cs. read_at7456_addr_data env p a h = Some (r, h @ cs) \<and>
    msb_bits r = sampled env p (h @ read_calls p a) \<and> spi_frames p cs = [read_frame a]"
  using read_sends[OF assms, of env a h] msb_byte_of[of "sampled env p (h @ read_calls p a)"]
  by (auto simp: sends_def spi_frames_def rx_idle_def sampled_def)

theorem osd_read_returns_presented_byte_witness:
  "\<exists>r cs. read_at7456_addr_data pins_env sample_osd DMM [] = Some (r, cs) \<and> msb_bits r = replicate 8 True"
  using osd_read_returns_presented_byte[OF sample_osd_ok, of pins_env DMM "[]"]
  by (auto simp: sampled_def pins_env_def map_replicate_const)

lemma sends_sleep: "sends p h [] (Some (platform_os_sleep n h))"
  by (auto simp: sends_def platform_os_sleep_def)

lemma sends_append:
  assumes "sends p h fs (Some h')" and "sends p h' gs (Some h'')"
  shows "sends p h (fs @ gs) (Some h'')"
proof -
  obtain cs ds where "h' = h @ cs" "\<forall>hs. fold (rx_step p) cs (rx_idle hs) = rx_idle (hs @ fs)"
      "h'' = h' @ ds" "\<forall>hs. fold (rx_step p) ds (rx_idle hs) = rx_idle (hs @ gs)"
    using assms unfolding sends_def by auto
  then show ?thesis by (auto simp: sends_def)
qed

text \<open>The value a read of register \<open>a\<close> returns after the calls \<open>h\<close>.\<close>

definition chip_value :: "gpio_env \<Rightarrow> osd_pins \<Rightarrow> u8 \<Rightarrow> gpio_call list \<Rightarrow> u8" where
  "chip_value env p a h = byte_of (sampled env p (h @ read_calls p a))"

lemma write2_some:
  assumes "osd_ok p"
  shows "\<exists>h'. write_at7456_addr_data env p a d h = Some h' \<and> sends p h [msb_bits a @ msb_bits d] (Some h')"
  using sends_write2[OF assms, of h a d env] by (auto simp: sends_def)

text \<open>
  Checking the chip's version changes its video mode register only for the test: what it
  writes last is what it read first, and the answer is the one the chip's bits 7 and 3 stand for.
\<close>

theorem osd_version_check_restores:
  assumes "osd_ok p" and "r1 = chip_value env p VM0 h"
  shows "\<exists>v h2 cs. at7456e_check_chip_version env p h = Some (v, h @ cs) \<and>
    (v = NEW7456) = (chip_value env p VM0 h2 AND 0x88 = 0x88) \<and>
    (v = OLD7456) = (chip_value env p VM0 h2 AND 0x88 = 0x08) \<and>
    spi_frames p cs = [read_frame VM0, msb_bits VM0 @ msb_bits ((r1 AND NOT 2) OR 0x88),
      read_frame VM0, msb_bits VM0 @ msb_bits r1]"
proof -
  obtain h1 where h1: "read_at7456_addr_data env p VM0 h = Some (r1, h1)" "sends p h [read_frame VM0] (Some h1)"
    using read_sends[OF assms(1), of env VM0 h] assms(2) by (auto simp: chip_value_def)
  obtain h2 where h2: "write_at7456_addr_data env p VM0 ((r1 AND NOT 2) OR 0x88) h1 = Some h2"
      "sends p h1 [msb_bits VM0 @ msb_bits ((r1 AND NOT 2) OR 0x88)] (Some h2)"
    using write2_some[OF assms(1)] by blast
  let ?h2 = "platform_os_sleep 1 h2"
  obtain h3 where h3: "read_at7456_addr_data env p VM0 ?h2 = Some (chip_value env p VM0 ?h2, h3)"
      "sends p ?h2 [read_frame VM0] (Some h3)"
    using read_sends[OF assms(1), of env VM0 ?h2] by (auto simp: chip_value_def)
  obtain h4 where h4: "write_at7456_addr_data env p VM0 r1 h3 = Some h4"
      "sends p h3 [msb_bits VM0 @ msb_bits r1] (Some h4)"
    using write2_some[OF assms(1)] by blast
  let ?v = "let r2 = chip_value env p VM0 ?h2 AND 0x88 in
    if r2 = 0x88 then NEW7456 else if r2 = 0x08 then OLD7456 else BAD7456"
  have "at7456e_check_chip_version env p h = Some (?v, platform_os_sleep 1 h4)"
    using h1(1) h2(1) h3(1) h4(1) by (simp add: at7456e_check_chip_version_def Let_def)
  moreover have "sends p h ([read_frame VM0] @ [msb_bits VM0 @ msb_bits ((r1 AND NOT 2) OR 0x88)] @ [] @
      [read_frame VM0] @ [msb_bits VM0 @ msb_bits r1] @ []) (Some (platform_os_sleep 1 h4))"
    by (intro sends_append[OF h1(2)] sends_append[OF h2(2)] sends_append[OF sends_sleep[of p h2 1]]
        sends_append[OF h3(2)] sends_append[OF h4(2)] sends_sleep)
  then obtain cs where "platform_os_sleep 1 h4 = h @ cs" "spi_frames p cs = [read_frame VM0,
      msb_bits VM0 @ msb_bits ((r1 AND NOT 2) OR 0x88), read_frame VM0, msb_bits VM0 @ msb_bits r1]"
    by (auto simp: sends_def spi_frames_def rx_idle_def)
  moreover have "(?v = NEW7456) = (chip_value env p VM0 ?h2 AND 0x88 = 0x88)"
      "(?v = OLD7456) = (chip_value env p VM0 ?h2 AND 0x88 = 0x08)"
    by (simp_all add: Let_def)
  ultimately show ?thesis by metis
qed

theorem osd_version_check_restores_witness:
  "\<exists>v h2 cs. at7456e_check_chip_version pins_env sample_osd [] = Some (v, cs) \<and>
    (v = NEW7456) = (chip_value pins_env sample_osd VM0 h2 AND 0x88 = 0x88)"
  using osd_version_check_restores[OF sample_osd_ok refl, of pins_env "[]"] by auto

lemma clear_screen_frames:
  assumes "osd_ok p"
  shows "sends p h ([msb_bits DMAH @ msb_bits 0] @ [msb_bits DMAL @ msb_bits 0] @ [msb_bits DMM @ msb_bits 1] @
    replicate (16 * 30) (msb_bits 0) @ [msb_bits 0xff]) (at7456e_clear_screen env p h)"
  unfolding at7456e_clear_screen_def
  by (intro sends_bind sends_write1 sends_write2 sends_repeat assms)

text \<open>
  The pins are not checked: initialising the driver with a clock pin of a port the platform
  does not have reads past the table of pin counts.
\<close>

theorem osd_init_unchecked_pin:
  assumes "2 \<le> port_of sck"
  shows "lua_at7456e_init env ncs sck sdi sdo h = None"
  using assms by (simp add: lua_at7456e_init_def at7456e_check_chip_version_def read_at7456_addr_data_def spi_begin_def
      at7456e_set_pinval_def platform_pio_op_def PIO_PIN_ARRAY_def ld_out)

theorem osd_init_unchecked_pin_witness: "lua_at7456e_init pins_env 1 0x40 3 0x21 [] = None"
  by (rule osd_init_unchecked_pin) (simp add: PLATFORM_IO_GET_PORT_def)

end
