(* ===== verification/Bitarray.thy ===== *)
theory Bitarray
  imports Openat
begin

text \<open>
  The Lua module of fixed size bit arrays, \<^verbatim>\<open>modules/src/bitarray.c\<close>: elements of 1, 2, 4, 8,
  16 or 32 bits packed into bytes. An access outside the bytes of the array is \<open>None\<close>, and so
  is the remainder by an element size of zero. The alignment of 16- and 32-bit accesses is not
  modelled.
\<close>

section \<open>Operations\<close>

record bitarray =
  capacity :: u32
  elsize :: u8
  ba_values :: "u8 list"

definition ROUND_SIZE :: "u32 \<Rightarrow> u32" where
  "ROUND_SIZE s = drop_bit 3 s + (if s AND 7 \<noteq> 0 then 1 else 0)"

definition bitarray_index_shift :: "nat list" where "bitarray_index_shift = [0, 3, 2, 0, 1]"
definition bitarray_index_mask :: "u32 list" where "bitarray_index_mask = [0, 0x01, 0x03, 0, 0x0F]"

text \<open>The first Lua argument of \<^verbatim>\<open>bitarray.new\<close>.\<close>

datatype new_arg = New_capacity u32 | New_string "u8 list" | New_table "u32 list" | New_other

text \<open>\<open>blk\<close> is what the allocated bytes hold.\<close>

definition bitarray_make :: "u32 \<Rightarrow> u8 \<Rightarrow> (u8 list \<Rightarrow> u8 list option) \<Rightarrow> u8 list \<Rightarrow> bitarray lua option" where
  "bitarray_make cap el init blk =
     (if el = 0 \<or> el > 32 \<or> el AND (el - 1) \<noteq> 0 then Some (Lua_error ''invalid element size.'')
      else
        (let total = ROUND_SIZE (cap * ucast el)
         in if total = 0 then Some (Lua_error ''invalid arguments.'')
            else map_option (\<lambda>vs. Lua_return \<lparr>capacity = cap, elsize = el, ba_values = vs\<rparr>)
                   (init (take (unat total) blk))))"

definition bitarray_new :: "new_arg \<Rightarrow> u32 option \<Rightarrow> u32 option \<Rightarrow> u8 list \<Rightarrow> bitarray lua option" where
  "bitarray_new arg el fl blk =
     (let elsize = (case el of Some e \<Rightarrow> ucast e | None \<Rightarrow> 8);
          from_bytes = (\<lambda>bytes.
            if elsize = 0 then None
            else
              (let bits = push_bit 3 (of_nat (length bytes)) :: u32
               in if bits mod ucast elsize \<noteq> 0 then Some (Lua_error ''length is not a multiple of element size.'')
                  else bitarray_make (bits div ucast elsize) elsize (\<lambda>b. fill b bytes) blk))
      in case arg of
          New_capacity c \<Rightarrow>
            bitarray_make c elsize (\<lambda>b. Some (map (\<lambda>_. case fl of Some f \<Rightarrow> ucast f | None \<Rightarrow> 0) b)) blk
        | New_string bytes \<Rightarrow> from_bytes bytes
        | New_table xs \<Rightarrow> from_bytes (map ucast xs)
        | New_other \<Rightarrow> Some (Lua_error ''invalid arguments.''))"

text \<open>Two and four bytes at an element index, little end first.\<close>

definition ld_u16 :: "u8 list \<Rightarrow> nat \<Rightarrow> u32 option" where
  "ld_u16 b i = do { x0 \<leftarrow> ld b (2 * i); x1 \<leftarrow> ld b (2 * i + 1); Some (ucast x0 OR push_bit 8 (ucast x1)) }"

definition ld_u32 :: "u8 list \<Rightarrow> nat \<Rightarrow> u32 option" where
  "ld_u32 b i = do {
     lo \<leftarrow> ld_u16 b (2 * i);
     hi \<leftarrow> ld_u16 b (2 * i + 1);
     Some (lo OR push_bit 16 hi)
   }"

definition st_u16 :: "u8 list \<Rightarrow> nat \<Rightarrow> u32 \<Rightarrow> u8 list option" where
  "st_u16 b i v = do { b \<leftarrow> st b (2 * i) (ucast v); st b (2 * i + 1) (ucast (drop_bit 8 v)) }"

definition st_u32 :: "u8 list \<Rightarrow> nat \<Rightarrow> u32 \<Rightarrow> u8 list option" where
  "st_u32 b i v = do { b \<leftarrow> st_u16 b (2 * i) v; st_u16 b (2 * i + 1) (drop_bit 16 v) }"

text \<open>Where a sub-byte element is: the index of its byte and the place of its lowest bit.\<close>

definition sub_byte :: "u8 \<Rightarrow> u32 \<Rightarrow> nat" where
  "sub_byte el idx = unat (drop_bit (bitarray_index_shift ! unat el) idx)"

definition sub_shift :: "u8 \<Rightarrow> u32 \<Rightarrow> nat" where
  "sub_shift el idx =
     (let m = push_bit (bitarray_index_shift ! unat el) 1; rest = idx AND (m - 1)
      in unat (m - 1 - rest) * unat el)"

definition bitarray_getval :: "bitarray \<Rightarrow> u32 \<Rightarrow> u32 option" where
  "bitarray_getval pa idx =
     (let idx = idx - 1; el = elsize pa
      in if el < 8 then do {
           v \<leftarrow> ld (ba_values pa) (sub_byte el idx);
           m \<leftarrow> ld bitarray_index_mask (unat el);
           Some (drop_bit (sub_shift el idx) (ucast v) AND m)
         }
         else if el = 8 then map_option ucast (ld (ba_values pa) (unat idx))
         else if el = 16 then ld_u16 (ba_values pa) (unat idx)
         else if el = 32 then ld_u32 (ba_values pa) (unat idx)
         else Some 0)"

definition bitarray_get :: "bitarray \<Rightarrow> u32 \<Rightarrow> u32 lua option" where
  "bitarray_get pa idx =
     (if idx = 0 \<or> idx > capacity pa then Some (Lua_error ''invalid index.'')
      else map_option Lua_return (bitarray_getval pa idx))"

text \<open>The stored value is the variable \<^verbatim>\<open>val\<close>, which is zero for elements of a byte or more.\<close>

definition bitarray_set :: "bitarray \<Rightarrow> u32 \<Rightarrow> u32 \<Rightarrow> (bitarray \<times> unit lua) option" where
  "bitarray_set pa idx newval =
     (if idx = 0 \<or> idx > capacity pa then Some (pa, Lua_error ''invalid index.'')
      else do {
        let idx = idx - 1;
        let el = elsize pa;
        let val = (0 :: u32);
        vs \<leftarrow> (if el < 8 then do {
            old \<leftarrow> ld (ba_values pa) (sub_byte el idx);
            m \<leftarrow> ld bitarray_index_mask (unat el);
            let val = ucast old AND NOT (push_bit (sub_shift el idx) m);
            let val = val OR push_bit (sub_shift el idx) newval;
            st (ba_values pa) (sub_byte el idx) (ucast val)
          }
          else if el = 8 then st (ba_values pa) (unat idx) (ucast val)
          else if el = 16 then st_u16 (ba_values pa) (unat idx) val
          else if el = 32 then st_u32 (ba_values pa) (unat idx) val
          else Some (ba_values pa));
        Some (pa\<lparr>ba_values := vs\<rparr>, Lua_return ())
      })"

definition bitarray_len :: "bitarray \<Rightarrow> u32" where "bitarray_len pa = capacity pa"

definition bitarray_iter :: "bitarray \<Rightarrow> u32 \<Rightarrow> (u32 \<times> u32) option option" where
  "bitarray_iter pa i =
     (let idx = i + 1 in
      if idx \<le> capacity pa then map_option (\<lambda>v. Some (idx, v)) (bitarray_getval pa idx) else Some None)"

datatype unpack_mode = BITARRAY_UNPACK_RAW | BITARRAY_UNPACK_SEQ

fun unpack_mode_of :: "string option \<Rightarrow> unpack_mode option" where
  "unpack_mode_of None = Some BITARRAY_UNPACK_SEQ"
| "unpack_mode_of (Some t) =
     (if t = ''raw'' then Some BITARRAY_UNPACK_RAW
      else if t = ''seq'' then Some BITARRAY_UNPACK_SEQ else None)"

text \<open>The values of the elements in order: the loop \<^verbatim>\<open>for(idx = 1; idx <= capacity; idx++)\<close>.\<close>

definition bitarray_seq :: "bitarray \<Rightarrow> u32 list option" where
  "bitarray_seq pa = for_range 0 (unat (capacity pa))
     (\<lambda>i acc. map_option (\<lambda>v. acc @ [v]) (bitarray_getval pa (of_nat i + 1))) []"

definition bitarray_raw :: "bitarray \<Rightarrow> u8 list option" where
  "bitarray_raw pa = (let n = unat (ROUND_SIZE (capacity pa * ucast (elsize pa))) in
     if n \<le> length (ba_values pa) then Some (take n (ba_values pa)) else None)"

definition bitarray_tostring :: "bitarray \<Rightarrow> string option \<Rightarrow> u8 list lua option" where
  "bitarray_tostring pa mode =
     (case unpack_mode_of mode of
        None \<Rightarrow> Some (Lua_error ''invalid mode string.'')
      | Some BITARRAY_UNPACK_SEQ \<Rightarrow>
          if elsize pa > 8 then Some (Lua_error ''element size too large.'')
          else map_option (\<lambda>vs. Lua_return (map ucast vs)) (bitarray_seq pa)
      | Some BITARRAY_UNPACK_RAW \<Rightarrow> map_option Lua_return (bitarray_raw pa))"

definition bitarray_totable :: "bitarray \<Rightarrow> string option \<Rightarrow> u32 list lua option" where
  "bitarray_totable pa mode =
     (case unpack_mode_of mode of
        None \<Rightarrow> Some (Lua_error ''invalid mode string.'')
      | Some BITARRAY_UNPACK_SEQ \<Rightarrow>
          if elsize pa > 8 then Some (Lua_error ''element size too large.'')
          else map_option Lua_return (bitarray_seq pa)
      | Some BITARRAY_UNPACK_RAW \<Rightarrow> map_option (\<lambda>vs. Lua_return (map ucast vs)) (bitarray_raw pa))"

section \<open>The layout of sub-byte elements\<close>

definition ba_ok :: "bitarray \<Rightarrow> bool" where
  "ba_ok pa \<longleftrightarrow> elsize pa \<in> {1, 2, 4, 8, 16, 32} \<and>
     unat (capacity pa) * unat (elsize pa) \<le> 8 * length (ba_values pa)"

lemma and_low_mask: "x AND (push_bit k 1 - 1) = take_bit k (x :: u32)"
  by (simp add: take_bit_eq_mask mask_eq_decr_exp)

lemma unat_mask_word:
  assumes "k < 32"
  shows "unat (mask k :: u32) = 2 ^ k - 1"
proof -
  have "unat (mask k :: u32) = mask k"
    by (rule bit_eqI) (use assms in \<open>auto simp: bit_unsigned_iff bit_mask_iff Bit_Operations.bit_mask_iff\<close>)
  then show ?thesis by (simp add: mask_eq_exp_minus_1)
qed

lemma sub_shift_power:
  assumes "bitarray_index_shift ! unat el = k" and "k < 32"
  shows "sub_shift el i = (2 ^ k - 1 - unat i mod 2 ^ k) * unat el"
proof -
  have p: "unat (push_bit k 1 - 1 :: u32) = 2 ^ k - 1"
  proof -
    have "push_bit k 1 - 1 = (mask k :: u32)" by (simp add: mask_eq_decr_exp)
    then show ?thesis using assms(2) using unat_mask_word[OF assms(2)] by simp
  qed
  have t: "unat (take_bit k i) = unat i mod 2 ^ k"
    using unsigned_take_bit_eq[of k i, where 'a = nat] by (simp add: take_bit_eq_mod)
  have "unat i mod 2 ^ k \<le> 2 ^ k - 1" 
    using mod_less_divisor[of "2 ^ k" "unat i"] by (simp add: less_eq_Suc_le flip: Suc_pred)
  then have "take_bit k i \<le> push_bit k 1 - 1" using p t by (simp only: word_le_nat_alt)
  then have "unat (push_bit k 1 - 1 - take_bit k i) = 2 ^ k - 1 - unat i mod 2 ^ k"
    using p t by (simp only: unat_sub)
  then show ?thesis using assms(1) by (simp only: sub_shift_def Let_def and_low_mask)
qed

text \<open>\<open>n\<close> elements per byte, the first in the highest bits.\<close>

lemma sub_layout:
  assumes "el \<in> {1, 2, 4}" and "e = unat el" and "n = 8 div e"
  shows "sub_byte el i = unat i div n" and "sub_shift el i = (n - 1 - unat i mod n) * e"
    and "ld bitarray_index_mask (unat el) = Some (mask e)" and "n * e = 8" and "0 < e" and "0 < n"
proof -
  consider "el = 1" | "el = 2" | "el = 4" using assms(1) by blast
  then have "\<exists>k. bitarray_index_shift ! unat el = k \<and> k < 32 \<and> n = 2 ^ k \<and> n * e = 8 \<and> 0 < e \<and> 0 < n \<and>
      ld bitarray_index_mask (unat el) = Some (mask e)"
    by cases (simp_all add: assms bitarray_index_shift_def bitarray_index_mask_def ld_def mask_eq_decr_exp)
  then obtain k where k: "bitarray_index_shift ! unat el = k" "k < 32" "n = 2 ^ k"
      "n * e = 8" "0 < e" "0 < n" "ld bitarray_index_mask (unat el) = Some (mask e)" by blast
  then show "ld bitarray_index_mask (unat el) = Some (mask e)" "n * e = 8" "0 < e" "0 < n" by simp_all
  show "sub_byte el i = unat i div n" using k(1,3) unat_drop_bit_eq[of k i] drop_bit_eq_div[of k "unat i"] by (simp only: sub_byte_def)
  show "sub_shift el i = (n - 1 - unat i mod n) * e" using sub_shift_power[OF k(1,2)] k(3) assms(2) by simp
qed

text \<open>Reading one field of a byte after writing another.\<close>

definition put_field :: "u8 \<Rightarrow> nat \<Rightarrow> nat \<Rightarrow> u32 \<Rightarrow> u8" where
  "put_field old t e v = ucast (ucast old AND NOT (push_bit t (mask e)) OR push_bit t v :: u32)"

definition field :: "u8 \<Rightarrow> nat \<Rightarrow> nat \<Rightarrow> u32" where
  "field b s e = drop_bit s (ucast b) AND mask e"

lemma bit_field: "bit (field b s e) k = (k < e \<and> k < 32 \<and> bit b (s + k))"
  by (auto simp: field_def bit_and_iff bit_drop_bit_eq bit_mask_iff bit_ucast_iff dest: bit_imp_le_length)

lemma bit_put_field:
  assumes "v < 2 ^ e"
  shows "bit (put_field old t e v) k =
    (k < 8 \<and> (if t \<le> k \<and> k < t + e then bit v (k - t) else bit old k))"
proof -
  have "\<not> bit v (k - t)" if "t + e \<le> k" using word_less_high_bits[OF assms, of "k - t"] that by simp
  then show ?thesis
    by (auto simp: put_field_def bit_ucast_iff bit_or_iff bit_and_iff bit_not_iff_eq bit_push_bit_iff bit_mask_iff
      not_less dest: bit_imp_le_length)
qed

lemma field_put_field:
  assumes "v < 2 ^ e" and "t + e \<le> 8" and "s + e \<le> 8" and "s = t \<or> s + e \<le> t \<or> t + e \<le> s"
  shows "field (put_field old t e v) s e = (if s = t then v else field old s e)"
proof (rule bit_word_eqI)
  fix k assume "k < LENGTH(32)"
  then show "bit (field (put_field old t e v) s e) k = bit (if s = t then v else field old s e) k"
    using assms word_less_high_bits[OF assms(1), of k] by (auto simp: bit_field bit_put_field)
qed

text \<open>Two elements of a byte do not overlap.\<close>

lemma shifts_apart:
  fixes a b n e :: nat
  assumes "a < n" and "b < n" and "a \<noteq> b"
  shows "(n - 1 - a) * e + e \<le> (n - 1 - b) * e \<or> (n - 1 - b) * e + e \<le> (n - 1 - a) * e"
proof -
  have "Suc (n - 1 - a) \<le> n - 1 - b \<or> Suc (n - 1 - b) \<le> n - 1 - a" using assms by auto
  then show ?thesis
    using mult_le_mono1[of "Suc (n - 1 - a)" "n - 1 - b" e] mult_le_mono1[of "Suc (n - 1 - b)" "n - 1 - a" e] by auto
qed

lemma getval_sub:
  assumes "elsize pa \<in> {1, 2, 4}" and "e = unat (elsize pa)" and "n = 8 div e"
    and "unat (idx - 1) div n < length (ba_values pa)"
  shows "bitarray_getval pa idx =
    Some (field (ba_values pa ! (unat (idx - 1) div n)) ((n - 1 - unat (idx - 1) mod n) * e) e)"
proof -
  note l = sub_layout[OF assms(1-3)]
  have "elsize pa < 8" using assms(1) by auto
  then show ?thesis using assms(4) by (simp add: bitarray_getval_def Let_def l ld_in field_def)
qed

lemma index_pred: "0 < idx \<Longrightarrow> unat (idx - 1) = unat (idx :: u32) - 1"
  by (simp add: unat_minus_one)

lemma sub_index_in:
  assumes "ba_ok pa" and "elsize pa \<in> {1, 2, 4}" and "e = unat (elsize pa)" and "n = 8 div e"
    and "0 < idx" and "idx \<le> capacity pa"
  shows "unat (idx - 1) div n < length (ba_values pa)"
proof -
  note l = sub_layout[OF assms(2-4)]
  have "unat (idx - 1) < unat (capacity pa)"
    using assms(5,6) by (simp add: index_pred word_le_nat_alt word_less_nat_alt)
  moreover have "unat (capacity pa) * e \<le> n * e * length (ba_values pa)"
    unfolding l(4) using assms(1,3) by (simp add: ba_ok_def)
  then have "unat (capacity pa) * e \<le> (length (ba_values pa) * n) * e" by (simp only: ac_simps)
  then have "unat (capacity pa) \<le> length (ba_values pa) * n" using l(5) by simp
  ultimately have "unat (idx - 1) < length (ba_values pa) * n" by simp
  then show ?thesis using l(6) by (simp add: less_mult_imp_div_less)
qed

lemma set_sub:
  assumes "ba_ok pa" and "elsize pa \<in> {1, 2, 4}" and "e = unat (elsize pa)" and "n = 8 div e"
    and "0 < idx" and "idx \<le> capacity pa"
  shows "bitarray_set pa idx v = Some (pa\<lparr>ba_values := (ba_values pa)[unat (idx - 1) div n :=
    put_field (ba_values pa ! (unat (idx - 1) div n)) ((n - 1 - unat (idx - 1) mod n) * e) e v]\<rparr>, Lua_return ())"
proof -
  note l = sub_layout[OF assms(2-4)]
  have "elsize pa < 8" using assms(2) by auto
  then show ?thesis using assms(5,6) sub_index_in[OF assms]
    by (simp add: bitarray_set_def Let_def l ld_in st_in put_field_def not_less)
qed

section \<open>Properties\<close>

text \<open>
  Writing an element of 1, 2 or 4 bits with a value that fits it, and then reading any index,
  gives that value at the written index and the old values at all others; nothing outside the
  array is touched.
\<close>

theorem bitarray_set_get:
  assumes "ba_ok pa" and "elsize pa < 8" and "0 < idx" and "idx \<le> capacity pa" and "v < 2 ^ unat (elsize pa)"
  shows "\<exists>pb. bitarray_set pa idx v = Some (pb, Lua_return ()) \<and> ba_ok pb \<and>
    capacity pb = capacity pa \<and> elsize pb = elsize pa \<and>
    (\<forall>j. bitarray_get pb j = (if j = idx then Some (Lua_return v) else bitarray_get pa j))"
proof -
  define e where "e = unat (elsize pa)"
  define n where "n = 8 div e"
  have el: "elsize pa \<in> {1, 2, 4}" using assms(1,2) by (auto simp: ba_ok_def)
  note l = sub_layout[OF el e_def n_def]
  let ?B = "\<lambda>j. unat (j - 1) div n" and ?r = "\<lambda>j. unat (j - 1) mod n"
  let ?pb = "pa\<lparr>ba_values := (ba_values pa)[?B idx := put_field (ba_values pa ! ?B idx) ((n - 1 - ?r idx) * e) e v]\<rparr>"
  have ok: "ba_ok ?pb" using assms(1) by (simp add: ba_ok_def)
  have "bitarray_get ?pb j = (if j = idx then Some (Lua_return v) else bitarray_get pa j)" for j
  proof (cases "0 < j \<and> j \<le> capacity pa")
    case True
    then have j: "0 < j" "j \<le> capacity pa" by simp_all
    note inj = sub_index_in[OF assms(1) el e_def n_def j] and ini = sub_index_in[OF assms(1) el e_def n_def assms(3,4)]
    have r: "?r j < n" "?r idx < n" using l(6) by simp_all
    have fits: "(n - 1 - ?r k) * e + e \<le> 8" for k
    proof -
      have "(n - 1 - ?r k + 1) * e \<le> n * e" using l(6) by (intro mult_le_mono1) simp
      then show ?thesis using l(4) by simp
    qed
    have same: "j = idx" if "?B j = ?B idx" "?r j = ?r idx"
    proof -
      have "unat (j - 1) = unat (idx - 1)" using that div_mult_mod_eq by metis
      then have "j - 1 = idx - 1" by (rule unsigned_word_eqI)
      then show ?thesis by simp
    qed
    have apart: "?r j = ?r idx \<or> (n - 1 - ?r j) * e + e \<le> (n - 1 - ?r idx) * e \<or>
        (n - 1 - ?r idx) * e + e \<le> (n - 1 - ?r j) * e"
      using shifts_apart[OF r] by blast
    have neq: "(n - 1 - ?r j) * e = (n - 1 - ?r idx) * e \<longleftrightarrow> ?r j = ?r idx"
    proof -
      have "(n - 1 - a = n - 1 - b) = (a = b)" if "a < n" "b < n" for a b using that by linarith
      from this[OF r] show ?thesis using l(5) by (metis mult_cancel2 less_numeral_extra(3))
    qed
    have "bitarray_getval ?pb j = (if j = idx then Some v else bitarray_getval pa j)"
    proof (cases "?B j = ?B idx")
      case B: True
      have "field (put_field (ba_values pa ! ?B idx) ((n - 1 - ?r idx) * e) e v) ((n - 1 - ?r j) * e) e =
          (if ?r j = ?r idx then v else field (ba_values pa ! ?B idx) ((n - 1 - ?r j) * e) e)"
        using field_put_field[OF _ fits[of idx] fits[of j], of v] assms(5) apart neq by (auto simp: e_def)
      then show ?thesis
        using getval_sub[of ?pb e n j] getval_sub[of pa e n j] el inj ini B same by (auto simp: e_def n_def)
    next
      case False
      then show ?thesis
        using getval_sub[of ?pb e n j] getval_sub[of pa e n j] el inj ini by (auto simp: e_def n_def)
    qed
    then show ?thesis using True by (auto simp: bitarray_get_def not_less)
  next
    case False
    then show ?thesis using assms(3,4) by (auto simp: bitarray_get_def not_less)
  qed
  with ok show ?thesis using set_sub[OF assms(1) el e_def n_def assms(3,4), of v] by auto
qed

theorem bitarray_set_get_witness:
  "\<exists>pb. bitarray_set \<lparr>capacity = 4, elsize = 2, ba_values = [0x1B]\<rparr> 2 3 = Some (pb, Lua_return ()) \<and>
     bitarray_get pb 2 = Some (Lua_return 3) \<and> bitarray_get pb 4 = Some (Lua_return 3)"
proof -
  have "bitarray_get \<lparr>capacity = 4, elsize = 2, ba_values = [0x1B]\<rparr> 4 = Some (Lua_return 3)"
    by (simp add: bitarray_get_def bitarray_getval_def sub_byte_def sub_shift_def bitarray_index_shift_def
        bitarray_index_mask_def ld_def)
  then show ?thesis
    using bitarray_set_get[of "\<lparr>capacity = 4, elsize = 2, ba_values = [0x1B]\<rparr>" 2 3] by (auto simp: ba_ok_def)
qed

text \<open>
  Writing an element of 8 bits or more stores zero, whatever the value: reading it back
  gives zero.
\<close>

theorem bitarray_set_wide_stores_zero:
  assumes "ba_ok pa" and "8 \<le> elsize pa" and "0 < idx" and "idx \<le> capacity pa"
  shows "\<exists>pb. bitarray_set pa idx v = Some (pb, Lua_return ()) \<and> bitarray_get pb idx = Some (Lua_return 0)"
proof -
  have lt: "unat (idx - 1) < unat (capacity pa)"
    using assms(3,4) by (simp add: index_pred word_le_nat_alt word_less_nat_alt)
  have space: "unat (idx - 1) * unat (elsize pa) + unat (elsize pa) \<le> 8 * length (ba_values pa)"
  proof -
    have "(unat (idx - 1) + 1) * unat (elsize pa) \<le> unat (capacity pa) * unat (elsize pa)"
      using lt by (intro mult_le_mono1) simp
    then show ?thesis using assms(1) by (simp add: ba_ok_def)
  qed
  have "elsize pa = 8 \<or> elsize pa = 16 \<or> elsize pa = 32"
    using assms(1,2) by (auto simp: ba_ok_def word_le_nat_alt)
  then show ?thesis
    using space assms(3,4)
    by (elim disjE) (simp_all add: bitarray_set_def bitarray_get_def bitarray_getval_def not_less Let_def
        st_u16_def st_u32_def ld_u16_def ld_u32_def st_in ld_in nth_list_update)
qed

theorem bitarray_set_wide_stores_zero_witness:
  "\<exists>pb. bitarray_set \<lparr>capacity = 2, elsize = 8, ba_values = [1, 2]\<rparr> 2 0x55 = Some (pb, Lua_return ()) \<and>
     bitarray_get pb 2 = Some (Lua_return 0)"
  by (rule bitarray_set_wide_stores_zero) (simp_all add: ba_ok_def)

end
