(* ===== verification/Utf8.thy ===== *)
theory Utf8
  imports C_Prelude
begin

text \<open>
  The conversions between UTF-8 and UCS-2 of the iconv library,
  \<^verbatim>\<open>lib/iconv/src/utf8_to_ucs2.c\<close>. The input is the list of the \<^verbatim>\<open>*inbytesleft\<close> bytes
  at \<^verbatim>\<open>*_inbuf\<close>; a read past them is \<open>None\<close>. The result is how many bytes were consumed,
  the bytes produced and the error number, if any.
\<close>

section \<open>UTF-8 to UCS-2\<close>

datatype iconv_errno = E2BIG | EINVAL

type_synonym conv = "nat \<times> u8 list \<times> iconv_errno option"

lemma shift_out_less: "c AND 0x80 \<noteq> 0 \<Longrightarrow> unat (push_bit 1 c) < unat (c :: u8)"
proof -
  assume c: "c AND 0x80 \<noteq> 0"
  have "(0x80 :: u8) = push_bit 7 1" by simp
  then have "bit c 7" using c bit_iff_and_push_bit_not_eq_0[of c 7] by simp
  then have "\<not> c < 2 ^ 7" using word_less_high_bits[of c 7 7] by blast
  then have ge: "128 \<le> unat c" by (simp add: word_less_nat_alt)
  have "unat (push_bit 1 c) = (2 * unat c) mod 256" by (simp add: unat_word_ariths mult.commute)
  also have "2 * unat c = 256 + (2 * unat c - 256)" using ge by simp
  also have "\<dots> mod 256 = 2 * unat c - 256" using unat_u8_less[of c] by simp
  finally show ?thesis using ge unat_u8_less[of c] by simp
qed

text \<open>\<^verbatim>\<open>while (c & (1<<7)) { c = c << 1; count++; }\<close>\<close>

function leading_ones :: "u8 \<Rightarrow> nat" where
  "leading_ones c = (if c AND 0x80 \<noteq> 0 then Suc (leading_ones (push_bit 1 c)) else 0)"
  by pat_completeness auto
termination
  by (relation "measure unat") (simp_all add: shift_out_less del: push_bit_of_1 push_bit_Suc One_nat_def)

declare leading_ones.simps [simp del]

definition enc_get_utf8_size :: "u8 \<Rightarrow> nat" where
  "enc_get_utf8_size c = (if leading_ones c = 0 then 1 else leading_ones c)"

text \<open>One character at index \<open>i\<close>: its two bytes, or \<open>None\<close> (inside \<open>Some\<close>) for the answer \<^verbatim>\<open>-1\<close>.\<close>

definition ordered :: "bool \<Rightarrow> u8 \<Rightarrow> u8 \<Rightarrow> u8 list" where
  "ordered endian hi lo = (if endian then [hi, lo] else [lo, hi])"

definition enc_utf8_to_unicode_one :: "u8 list \<Rightarrow> nat \<Rightarrow> bool \<Rightarrow> u8 list option option" where
  "enc_utf8_to_unicode_one src i endian = do {
     b1 \<leftarrow> ld src i;
     let n = enc_get_utf8_size b1;
     (if n = 1 then Some (Some (ordered endian 0 b1))
      else if n = 2 then do {
        b2 \<leftarrow> ld src (i + 1);
        (if b2 AND 0xE0 \<noteq> 0x80 then Some None
         else Some (Some (ordered endian (drop_bit 2 b1 AND 0x07) (push_bit 6 b1 + (b2 AND 0x3F)))))
      }
      else if n = 3 then do {
        b2 \<leftarrow> ld src (i + 1);
        b3 \<leftarrow> ld src (i + 2);
        (if b2 AND 0xC0 \<noteq> 0x80 \<or> b3 AND 0xC0 \<noteq> 0x80 then Some None
         else Some (Some (ordered endian (push_bit 4 b1 + (drop_bit 2 b2 AND 0x0F))
                            (push_bit 6 b2 + (b3 AND 0x3F)))))
      }
      else Some None)
   }"

lemma utf8_size_pos [simp]: "0 < enc_get_utf8_size c"
  by (simp add: enc_get_utf8_size_def)

function utf8_loop :: "u8 list \<Rightarrow> nat \<Rightarrow> bool \<Rightarrow> nat \<Rightarrow> u8 list \<Rightarrow> conv option" where
  "utf8_loop src maxOLen endian iPos out =
     (if iPos < length src then
        if length out + 2 > maxOLen then Some (iPos, out, Some E2BIG)
        else (case enc_utf8_to_unicode_one src iPos endian of
            None \<Rightarrow> None
          | Some None \<Rightarrow> Some (iPos, out, Some EINVAL)
          | Some (Some bs) \<Rightarrow>
              utf8_loop src maxOLen endian (iPos + enc_get_utf8_size (src ! iPos)) (out @ bs))
      else Some (iPos, out, None))"
  by pat_completeness auto
termination
proof (relation "measure (\<lambda>(src, m, e, i, out). length src - i)")
  fix src :: "u8 list" and m :: nat and e i out and bs :: "u8 list option" and x :: "u8 list"
  assume "i < length src"
  then show "((src, m, e, i + enc_get_utf8_size (src ! i), out @ x), (src, m, e, i, out))
      \<in> measure (\<lambda>(src, m, e, i, out). length src - i)"
    using utf8_size_pos[of "src ! i"] by (simp del: utf8_size_pos)
qed simp

declare utf8_loop.simps [simp del]

definition enc_utf8_to_unicode :: "u8 list \<Rightarrow> nat \<Rightarrow> bool \<Rightarrow> conv option" where
  "enc_utf8_to_unicode src outbytesleft endian = utf8_loop src outbytesleft endian 0 []"

definition iconv_utf8_to_ucs2 :: "u8 list \<Rightarrow> nat \<Rightarrow> conv option" where
  "iconv_utf8_to_ucs2 src n = enc_utf8_to_unicode src n False"

definition iconv_utf8_to_ucs2be :: "u8 list \<Rightarrow> nat \<Rightarrow> conv option" where
  "iconv_utf8_to_ucs2be src n = enc_utf8_to_unicode src n True"

section \<open>UCS-2 to UTF-8\<close>

definition utf8_bytes :: "u32 \<Rightarrow> u8 list" where
  "utf8_bytes v =
     (if v \<le> 0x7F then [ucast v]
      else if v \<le> 0x07FF then
        [ucast ((drop_bit 6 v OR 0xE0) AND 0xDF), ucast (((v AND 0xFF) OR 0xC0) AND 0xBF)]
      else
        [ucast (((drop_bit 12 v AND 0xFF) OR 0xF0) AND 0xEF), ucast (((drop_bit 6 v AND 0xFF) OR 0xC0) AND 0xBF),
         ucast (((v AND 0xFF) OR 0xC0) AND 0xBF)])"

function ucs2_loop :: "u8 list \<Rightarrow> nat \<Rightarrow> bool \<Rightarrow> nat \<Rightarrow> u8 list \<Rightarrow> conv option" where
  "ucs2_loop src maxOLen endian iPos out =
     (if iPos + 1 < length src then do {
        x \<leftarrow> ld src iPos;
        y \<leftarrow> ld src (iPos + 1);
        let bs = utf8_bytes (if endian then ucast x * 256 + ucast y else ucast y * 256 + ucast x);
        (if length out + length bs > maxOLen then Some (iPos, out, Some E2BIG)
         else ucs2_loop src maxOLen endian (iPos + 2) (out @ bs))
      }
      else Some (iPos, out, None))"
  by pat_completeness auto
termination
  by (relation "measure (\<lambda>(src, m, e, i, out). length src - i)") auto

declare ucs2_loop.simps [simp del]

definition enc_unicode_to_utf8 :: "u8 list \<Rightarrow> nat \<Rightarrow> bool \<Rightarrow> conv option" where
  "enc_unicode_to_utf8 src outbytesleft endian = ucs2_loop src outbytesleft endian 0 []"

definition iconv_ucs2_to_utf8 :: "u8 list \<Rightarrow> nat \<Rightarrow> conv option" where
  "iconv_ucs2_to_utf8 src n = enc_unicode_to_utf8 src n False"

definition iconv_ucs2be_to_utf8 :: "u8 list \<Rightarrow> nat \<Rightarrow> conv option" where
  "iconv_ucs2be_to_utf8 src n = enc_unicode_to_utf8 src n True"

section \<open>Leading ones of the encoded bytes\<close>

lemma lt8_cases: "n < 8 \<Longrightarrow> n = 0 \<or> n = 1 \<or> n = 2 \<or> n = 3 \<or> n = 4 \<or> n = 5 \<or> n = 6 \<or> n = (7 :: nat)"
  by auto

lemma leading_ones_bits:
  "\<not> bit c 7 \<Longrightarrow> leading_ones c = 0"
  "bit c 7 \<Longrightarrow> bit c 6 \<Longrightarrow> \<not> bit c 5 \<Longrightarrow> leading_ones c = 2"
  "bit c 7 \<Longrightarrow> bit c 6 \<Longrightarrow> bit c 5 \<Longrightarrow> \<not> bit c 4 \<Longrightarrow> leading_ones c = 3"
proof -
  have "(0x80 :: u8) = push_bit 7 1" by simp
  then have top: "(c AND 0x80 \<noteq> 0) = bit c 7" for c :: u8
    using bit_iff_and_push_bit_not_eq_0[of c 7] by simp
  have shift: "bit (push_bit 1 c) n = bit c (n - 1)" if "0 < n" "n < 8" for c :: u8 and n
    using that by (simp add: bit_push_bit_iff del: push_bit_of_1 push_bit_Suc One_nat_def)
  have step: "leading_ones c = (if bit c 7 then Suc (leading_ones (push_bit 1 c)) else 0)" for c
    by (subst leading_ones.simps) (simp only: top)
  have b: "bit (push_bit 1 c) 7 = bit c 6" "bit (push_bit 1 (push_bit 1 c)) 7 = bit c 5"
      "bit (push_bit 1 (push_bit 1 (push_bit 1 c))) 7 = bit c 4"
    by (simp_all add: shift del: push_bit_of_1 push_bit_Suc push_bit_push_bit One_nat_def)
  show "\<not> bit c 7 \<Longrightarrow> leading_ones c = 0" by (simp add: step)
  show "bit c 7 \<Longrightarrow> bit c 6 \<Longrightarrow> \<not> bit c 5 \<Longrightarrow> leading_ones c = 2"
    by (simp only: step[of c] step[of "push_bit 1 c"] step[of "push_bit 1 (push_bit 1 c)"] b if_True if_False numeral_2_eq_2 numeral_3_eq_3)
  show "bit c 7 \<Longrightarrow> bit c 6 \<Longrightarrow> bit c 5 \<Longrightarrow> \<not> bit c 4 \<Longrightarrow> leading_ones c = 3"
    by (simp only: step[of c] step[of "push_bit 1 c"] step[of "push_bit 1 (push_bit 1 c)"]
        step[of "push_bit 1 (push_bit 1 (push_bit 1 c))"] b if_True if_False numeral_2_eq_2 numeral_3_eq_3)
qed

section \<open>Decoding an encoded character\<close>

text \<open>The 16-bit code units whose encoding the decoder accepts.\<close>

definition utf8_ok :: "u32 \<Rightarrow> bool" where
  "utf8_ok v \<longleftrightarrow> \<not> (0x80 \<le> v \<and> v \<le> 0x7FF \<and> bit v 5)"

lemma u8_eqI: "(\<And>n. n < 8 \<Longrightarrow> bit a n = bit b n) \<Longrightarrow> a = (b :: u8)"
  by (rule bit_word_eqI) simp

lemma utf8_size_bits:
  "\<not> bit c 7 \<Longrightarrow> enc_get_utf8_size c = 1"
  "bit c 7 \<Longrightarrow> bit c 6 \<Longrightarrow> \<not> bit c 5 \<Longrightarrow> enc_get_utf8_size c = 2"
  "bit c 7 \<Longrightarrow> bit c 6 \<Longrightarrow> bit c 5 \<Longrightarrow> \<not> bit c 4 \<Longrightarrow> enc_get_utf8_size c = 3"
  by (simp_all add: enc_get_utf8_size_def leading_ones_bits)

lemma bits_of_range:
  "v \<le> 0x7F \<Longrightarrow> 7 \<le> n \<Longrightarrow> \<not> bit (v::u32) n" 
  "v \<le> 0x7FF \<Longrightarrow> 11 \<le> n \<Longrightarrow> \<not> bit (v::u32) n" 
  "v \<le> 0xFFFF \<Longrightarrow> 16 \<le> n \<Longrightarrow> \<not> bit (v::u32) n" 
  by (rule word_less_high_bits[of v 7] word_less_high_bits[of v 11] word_less_high_bits[of v 16];
      simp add: word_le_nat_alt word_less_nat_alt)+

lemma add_low6: "push_bit 6 a + (b AND 0x3F) = push_bit 6 a OR (b AND 0x3F :: u8)"
proof (rule disjunctive_add)
  fix n
  show "\<not> bit (push_bit 6 a) n \<or> \<not> bit (b AND 0x3F) n"
  proof (cases "n < 6")
    case False
    have "\<not> bit (0x3F :: u8) n" by (rule word_less_high_bits[of _ 6]) (use False in simp_all)
    then show ?thesis by (simp add: bit_simps)
  qed (simp add: bit_simps)
qed

lemma add_low4: "push_bit 4 a + (b AND 0x0F) = push_bit 4 a OR (b AND 0x0F :: u8)"
proof (rule disjunctive_add)
  fix n
  show "\<not> bit (push_bit 4 a) n \<or> \<not> bit (b AND 0x0F) n"
  proof (cases "n < 4")
    case False
    have "\<not> bit (0x0F :: u8) n" by (rule word_less_high_bits[of _ 4]) (use False in simp_all)
    then show ?thesis by (simp add: bit_simps)
  qed (simp add: bit_simps)
qed

lemma and_eq_word_bits:
  "(x AND 0xC0 = 0x80) = (bit x 7 \<and> \<not> bit (x :: u8) 6)"
  "(x AND 0xE0 = 0x80) = (bit x 7 \<and> \<not> bit x 6 \<and> \<not> bit x 5)"
proof -
  have e: "(x = y) = (\<forall>n<8. bit x n = bit y n)" for x y :: u8 using u8_eqI by blast
  have a: "(\<forall>n<8. P n) = (P 0 \<and> P 1 \<and> P 2 \<and> P 3 \<and> P 4 \<and> P 5 \<and> P 6 \<and> P (7::nat))" for P
    using lt8_cases by auto
  show "(x AND 0xC0 = 0x80) = (bit x 7 \<and> \<not> bit (x :: u8) 6)"
    "(x AND 0xE0 = 0x80) = (bit x 7 \<and> \<not> bit x 6 \<and> \<not> bit x 5)"
    unfolding e a by (auto simp: bit_simps)
qed

lemma drop_eq_append_nth:
  assumes "drop i src = bs @ rest" and "k < length bs"
  shows "src ! (i + k) = bs ! k \<and> i + k < length src"
proof -
  have "length src - i = length bs + length rest" using arg_cong[OF assms(1), of length] by simp
  then have "i + k < length src" using assms(2) by simp
  moreover from this have "src ! (i + k) = (bs @ rest) ! k" by (simp flip: assms(1))
  ultimately show ?thesis using assms(2) by (simp add: nth_append)
qed

lemma decode_encoded:
  fixes v :: u32
  assumes "v \<le> 0xFFFF" and "drop i src = utf8_bytes v @ rest"
  shows "enc_utf8_to_unicode_one src i e =
      Some (if utf8_ok v then Some (ordered e (ucast (drop_bit 8 v)) (ucast v)) else None)"
    and "i < length src \<and> enc_get_utf8_size (src ! i) = length (utf8_bytes v)"
proof -
  have ne: "utf8_bytes v \<noteq> []" by (simp add: utf8_bytes_def)
  have i: "i < length src" using assms(2) ne by (metis append_is_Nil_conv drop_all leI)
  have n: "src ! (i + k) = (utf8_bytes v) ! k \<and> i + k < length src" if "k < length (utf8_bytes v)" for k
    by (rule drop_eq_append_nth[OF assms(2) that])
  consider "v \<le> 0x7F" | "\<not> v \<le> 0x7F" "v \<le> 0x7FF" | "\<not> v \<le> 0x7FF" "\<not> v \<le> 0x7F"
    by (cases "v \<le> 0x7F"; cases "v \<le> 0x7FF") auto
  then have "enc_utf8_to_unicode_one src i e =
      Some (if utf8_ok v then Some (ordered e (ucast (drop_bit 8 v)) (ucast v)) else None)
    \<and> enc_get_utf8_size (src ! i) = length (utf8_bytes v)"
  proof cases
    case 1
    then have b: "utf8_bytes v = [ucast v]" by (simp add: utf8_bytes_def)
    have s: "src ! i = ucast v" using n[of 0] b by simp
    have z: "(ucast (drop_bit 8 v) :: u8) = 0"
      by (rule u8_eqI) (simp add: bit_simps bits_of_range(1)[OF 1])
    have ok: "utf8_ok v" using 1 by (auto simp: utf8_ok_def word_le_nat_alt)
    have "\<not> bit (src ! i) 7" using s by (simp add: bit_simps bits_of_range(1)[OF 1])
    note sz = utf8_size_bits(1)[OF this]
    show ?thesis using i s z ok b sz by (simp add: enc_utf8_to_unicode_one_def ld_in Let_def)
  next
    case 2
    then have b: "utf8_bytes v = [ucast ((drop_bit 6 v OR 0xE0) AND 0xDF), ucast (((v AND 0xFF) OR 0xC0) AND 0xBF)]"
      by (simp add: utf8_bytes_def)
    have s: "src ! i = ucast ((drop_bit 6 v OR 0xE0) AND 0xDF)" 
      "src ! (i + 1) = ucast (((v AND 0xFF) OR 0xC0) AND 0xBF)" "i + 1 < length src"
      using n[of 0] n[of 1] b by simp_all
    have sz: "enc_get_utf8_size (src ! i) = 2"
      by (rule utf8_size_bits) (simp_all add: s(1) bit_simps)
    have m: "(src ! (i + 1) AND 0xE0 = 0x80) = (\<not> bit v 5)"
      unfolding s and_eq_word_bits by (simp add: bit_simps)
    have ok: "utf8_ok v = (\<not> bit v 5)"
      using 2 by (auto simp: utf8_ok_def word_le_nat_alt)
    have hi: "drop_bit 2 (src ! i) AND 0x07 = (ucast (drop_bit 8 v) :: u8)"
      by (rule u8_eqI, drule lt8_cases, elim disjE) (simp_all add: s bit_simps bits_of_range(2)[OF 2(2)])
    have lo: "push_bit 6 (src ! i) + (src ! (i + 1) AND 0x3F) = (ucast v :: u8)"
      unfolding add_low6
      by (rule u8_eqI, drule lt8_cases, elim disjE) (simp_all add: s s(2)[simplified] bit_simps)
    show ?thesis using i s(3) ok m sz hi lo b by (simp add: enc_utf8_to_unicode_one_def ld_in Let_def)
  next
    case 3
    then have b: "utf8_bytes v = [ucast (((drop_bit 12 v AND 0xFF) OR 0xF0) AND 0xEF), ucast (((drop_bit 6 v AND 0xFF) OR 0xC0) AND 0xBF),
         ucast (((v AND 0xFF) OR 0xC0) AND 0xBF)]"
      by (simp add: utf8_bytes_def)
    have s: "src ! i = ucast (((drop_bit 12 v AND 0xFF) OR 0xF0) AND 0xEF)" 
      "src ! (i + 1) = ucast (((drop_bit 6 v AND 0xFF) OR 0xC0) AND 0xBF)"
      "src ! (i + 2) = ucast (((v AND 0xFF) OR 0xC0) AND 0xBF)" "i + 1 < length src" "i + 2 < length src"
      using n[of 0] n[of 1] n[of 2] b by simp_all
    have sz: "enc_get_utf8_size (src ! i) = 3"
      by (rule utf8_size_bits) (simp_all add: s(1) bit_simps)
    have m: "src ! (i + 1) AND 0xC0 = 0x80" "src ! (i + 2) AND 0xC0 = 0x80"
      unfolding s and_eq_word_bits by (simp_all add: bit_simps)
    have ok: "utf8_ok v"
      using 3 by (auto simp: utf8_ok_def word_le_nat_alt)
    have hi: "push_bit 4 (src ! i) + (drop_bit 2 (src ! (i + 1)) AND 0x0F) = (ucast (drop_bit 8 v) :: u8)"
      unfolding add_low4
      by (rule u8_eqI, drule lt8_cases, elim disjE) (simp_all add: s s(2)[simplified] bit_simps)
    have lo: "push_bit 6 (src ! (i + 1)) + (src ! (i + 2) AND 0x3F) = (ucast v :: u8)"
      unfolding add_low6
      by (rule u8_eqI, drule lt8_cases, elim disjE) (simp_all add: s s(2,3)[simplified] bit_simps)
    show ?thesis using i s(4,5) ok m sz hi lo b by (simp add: enc_utf8_to_unicode_one_def ld_in Let_def)
  qed
  then show "enc_utf8_to_unicode_one src i e =
      Some (if utf8_ok v then Some (ordered e (ucast (drop_bit 8 v)) (ucast v)) else None)"
    and "i < length src \<and> enc_get_utf8_size (src ! i) = length (utf8_bytes v)"
    using i by auto
qed

section \<open>Whole strings\<close>

text \<open>A list of code units in memory, and its encoding.\<close>

definition units_bytes :: "bool \<Rightarrow> u32 list \<Rightarrow> u8 list" where
  "units_bytes e us = concat (map (\<lambda>v. ordered e (ucast (drop_bit 8 v)) (ucast v)) us)"

definition utf8_text :: "u32 list \<Rightarrow> u8 list" where
  "utf8_text us = concat (map utf8_bytes us)"

lemma units_bytes_simps [simp]:
  "units_bytes e [] = []"
  "units_bytes e (v # us) = ordered e (ucast (drop_bit 8 v)) (ucast v) @ units_bytes e us"
  "utf8_text [] = []"
  "utf8_text (v # us) = utf8_bytes v @ utf8_text us"
  by (simp_all add: units_bytes_def utf8_text_def)

lemma length_ordered [simp]: "length (ordered e a b) = 2"
  by (simp add: ordered_def)

lemma length_units_bytes [simp]: "length (units_bytes e us) = 2 * length us"
  by (induction us) simp_all

lemma unit_of_bytes:
  fixes v :: u32
  assumes "v \<le> 0xFFFF"
  shows "ucast (ucast (drop_bit 8 v) :: u8) * 256 + ucast (ucast v :: u8) = v"
proof -
  have "(ucast (ucast (drop_bit 8 v) :: u8) * 256 :: u32) + ucast (ucast v :: u8)
      = push_bit 8 (take_bit 8 (drop_bit 8 v)) + take_bit 8 v"
  proof -
    have "(ucast (ucast x :: u8) :: u32) = take_bit 8 x" for x :: u32
      by (rule bit_word_eqI) (auto simp: bit_simps)
    then show ?thesis by (simp add: push_bit_eq_mult mult.commute)
  qed
  also have "\<dots> = push_bit 8 (take_bit 8 (drop_bit 8 v)) OR take_bit 8 v"
    by (rule disjunctive_add) (simp add: bit_simps)
  also have "\<dots> = v"
    by (rule bit_word_eqI) (auto simp: bit_simps bits_of_range(3)[OF assms] not_le intro: ccontr)
  finally show ?thesis .
qed

lemma encode_loop:
  assumes "\<forall>v\<in>set us. v \<le> 0xFFFF" and "drop i src = units_bytes e us"
    and "length out + length (utf8_text us) \<le> n" and "i \<le> length src"
  shows "ucs2_loop src n e i out = Some (length src, out @ utf8_text us, None)"
  using assms
proof (induction us arbitrary: i out)
  case Nil
  then show ?case by (subst ucs2_loop.simps) simp
next
  case (Cons v us)
  let ?b = "ordered e (ucast (drop_bit 8 v)) (ucast v) :: u8 list"
  have d: "drop i src = ?b @ units_bytes e us" using Cons.prems(2) by simp
  note b = drop_eq_append_nth[OF d]
  have b0: "src ! i = ?b ! 0" "i + 1 < length src" "src ! (i + 1) = ?b ! 1" using b[of 0] b[of 1] by simp_all
  have v: "(if e then ucast (src ! i) * 256 + ucast (src ! (i + 1)) else ucast (src ! (i + 1)) * 256 + ucast (src ! i)) = v"
    using unit_of_bytes[of v] Cons.prems(1) b0 by (simp add: ordered_def)
  have d': "drop (i + 2) src = units_bytes e us"
    using arg_cong[OF d, of "drop 2"] by (simp add: add.commute)
  have "ucs2_loop src n e (i + 2) (out @ utf8_bytes v) = Some (length src, (out @ utf8_bytes v) @ utf8_text us, None)"
    by (rule Cons.IH) (use Cons.prems d' b0 in auto)
  then have r: "ucs2_loop src n e (i + 2) (out @ utf8_bytes v) = Some (length src, out @ utf8_text (v # us), None)" by simp
  have "\<not> n < length out + length (utf8_bytes v)" using Cons.prems(3) by simp
  moreover have "i < length src" using b0(2) by simp
  ultimately show ?case using r b0(2) v
    by (subst ucs2_loop.simps) (simp only: ld_in[of i] ld_in[of "i + 1"] Let_def bind.bind_lunit if_True if_False)
qed

lemma decode_loop:
  assumes "\<forall>v\<in>set us. v \<le> 0xFFFF \<and> utf8_ok v" and "drop i src = utf8_text us @ rest"
    and "length out + 2 * length us \<le> n"
  shows "utf8_loop src n e i out = utf8_loop src n e (i + length (utf8_text us)) (out @ units_bytes e us)"
  using assms
proof (induction us arbitrary: i out)
  case Nil
  then show ?case by simp
next
  case (Cons v us)
  have d: "drop i src = utf8_bytes v @ (utf8_text us @ rest)" using Cons.prems(2) by simp
  have v: "v \<le> 0xFFFF" "utf8_ok v" using Cons.prems by simp_all
  note one = decode_encoded(1)[OF v(1) d, of e] decode_encoded(2)[OF v(1) d]
  have d': "drop (i + length (utf8_bytes v)) src = utf8_text us @ rest"
    using arg_cong[OF d, of "drop (length (utf8_bytes v))"] by (simp add: add.commute)
  have "utf8_loop src n e i out = utf8_loop src n e (i + length (utf8_bytes v))
      (out @ ordered e (ucast (drop_bit 8 v)) (ucast v))"
    using one v Cons.prems(3) by (subst utf8_loop.simps) simp
  also have "\<dots> = utf8_loop src n e (i + length (utf8_bytes v) + length (utf8_text us))
      ((out @ ordered e (ucast (drop_bit 8 v)) (ucast v)) @ units_bytes e us)"
    by (rule Cons.IH) (use Cons.prems d' in auto)
  finally show ?case by (simp add: add.assoc)
qed

text \<open>
  C23. UCS-2 to UTF-8 and back, in either byte order. Every string of 16-bit code units converts to
  UTF-8 whenever the output buffer is large enough. The way back gives the same units, as long as none of them
  lies in U+0080..U+07FF with bit 5 set.
\<close>

theorem utf8_roundtrip:
  assumes "\<forall>v\<in>set us. v \<le> 0xFFFF" and "length (utf8_text us) \<le> n"
  shows "enc_unicode_to_utf8 (units_bytes e us) n e = Some (2 * length us, utf8_text us, None)
    \<and> ((\<forall>v\<in>set us. utf8_ok v) \<and> 2 * length us \<le> k \<longrightarrow>
      enc_utf8_to_unicode (utf8_text us) k e = Some (length (utf8_text us), units_bytes e us, None))"
proof (intro conjI impI)
  show "enc_unicode_to_utf8 (units_bytes e us) n e = Some (2 * length us, utf8_text us, None)"
    unfolding enc_unicode_to_utf8_def
    using encode_loop[of us 0 "units_bytes e us" e "[]" n] assms by simp
next
  assume "(\<forall>v\<in>set us. utf8_ok v) \<and> 2 * length us \<le> k"
  then have "enc_utf8_to_unicode (utf8_text us) k e = utf8_loop (utf8_text us) k e (length (utf8_text us)) (units_bytes e us)"
    using decode_loop[of us 0 "utf8_text us" "[]" "[]" k e] assms(1) by (simp add: enc_utf8_to_unicode_def)
  then show "enc_utf8_to_unicode (utf8_text us) k e = Some (length (utf8_text us), units_bytes e us, None)"
    by (subst (asm) utf8_loop.simps) simp
qed

theorem utf8_roundtrip_witness:
  "enc_utf8_to_unicode [0x41, 0xC3, 0x9F, 0xE4, 0xB8, 0xAD] 6 False
    = Some (6, [0x41, 0, 0xDF, 0, 0x2D, 0x4E], None)"
proof -
  have v: "\<forall>v\<in>set [0x41, 0xDF, 0x4E2D :: u32]. v \<le> 0xFFFF" and
     o: "\<forall>v\<in>set [0x41, 0xDF, 0x4E2D :: u32]. utf8_ok v"
    by code_simp+
  have t: "utf8_text [0x41, 0xDF, 0x4E2D] = [0x41, 0xC3, 0x9F, 0xE4, 0xB8, 0xAD]" 
   "units_bytes False [0x41, 0xDF, 0x4E2D] = [0x41, 0, 0xDF, 0, 0x2D, 0x4E]" by code_simp+
  show ?thesis using utf8_roundtrip[OF v, of 6 False 6, unfolded t] o by simp
qed

text \<open>
  A two-byte sequence whose second byte is 0xA0..0xBF is refused. Of a text that converts to UTF-8
  the way back stops with \<^verbatim>\<open>EINVAL\<close> at the first unit in
  U+0080..U+07FF with bit 5 set (as U+00A9 and U+00E4), although UTF-8 gives it two bytes. The
  units before it are delivered.
\<close>

theorem utf8_two_byte_refused:
  assumes "\<forall>u\<in>set us. u \<le> 0xFFFF \<and> utf8_ok u" and "v \<le> 0xFFFF" and "\<not> utf8_ok v"
    and "2 * length us + 2 \<le> k"
  shows "enc_utf8_to_unicode (utf8_text (us @ v # ws)) k e
    = Some (length (utf8_text us), units_bytes e us, Some EINVAL)"
proof -
  let ?s = "utf8_text (us @ v # ws)"
  have s: "?s = utf8_text us @ utf8_bytes v @ utf8_text ws" by (simp add: utf8_text_def)
  have "enc_utf8_to_unicode ?s k e = utf8_loop ?s k e (length (utf8_text us)) (units_bytes e us)"
    using decode_loop[of us 0 ?s "utf8_bytes v @ utf8_text ws" "[]" k e] assms s
    by (simp add: enc_utf8_to_unicode_def)
  also have "\<dots> = Some (length (utf8_text us), units_bytes e us, Some EINVAL)"
    using decode_encoded(1)[OF assms(2), of "length (utf8_text us)" ?s "utf8_text ws" e]
      decode_encoded(2)[OF assms(2), of "length (utf8_text us)" ?s "utf8_text ws"] assms(3,4) s
    by (subst utf8_loop.simps) simp
  finally show ?thesis .
qed

theorem utf8_two_byte_refused_witness:
  "enc_utf8_to_unicode [0x41, 0xC3, 0xA4, 0x42] 8 True = Some (1, [0, 0x41], Some EINVAL)"
proof -
  have v: "\<forall>u\<in>set [0x41 :: u32]. u \<le> 0xFFFF \<and> utf8_ok u" "(0xE4 :: u32) \<le> 0xFFFF" "\<not> utf8_ok 0xE4"
    by code_simp+
  have t: "utf8_text ([0x41] @ 0xE4 # [0x42]) = [0x41, 0xC3, 0xA4, 0x42]" 
   "units_bytes True [0x41] = [0, 0x41]" "utf8_text [0x41] = [0x41]" by code_simp+
  show ?thesis using utf8_two_byte_refused[OF v, of 8 "[0x42]" True] t by simp
qed

end
