(* ===== verification/Rtos.thy ===== *)
theory Rtos
  imports Openat
begin

text \<open>
  Timers and messages of the Lua shell: \<^verbatim>\<open>platform_rtos.c\<close> and the Lua module
  \<^verbatim>\<open>modules/src/rtos.c\<close>. Handles are 32-bit words, 0 is
  \<^verbatim>\<open>OPENAT_INVALID_HANDLE\<close>. The kernel is not part of the program: calls to it are recorded
  in order, and an \<open>rtos_env\<close> says what it answers, given the calls made before. Memory for a
  message is taken to be available.

  A timer callback runs in another task of the kernel; the semaphore \<^verbatim>\<open>hLuaTimerSem\<close> keeps the
  sections that change the timer table apart. \<open>stop_section\<close>, \<open>start_section\<close> and
  \<open>callback_section\<close> are these sections, \<open>timer_running\<close> is the scan the code makes before it
  takes the semaphore, and the step relation at the end interleaves them.
\<close>

section \<open>Kernel calls and state\<close>

datatype timer_cb = Rtos_timer_callback int | Rtos_timer_high_priority_callback int | Rtos_wait_message_timeout

datatype poweron_cause = OPENAT_PM_POWERON_BY_CHARGER | Poweron_other nat

datatype rtos_call =
    Rt_send rtos_msg
  | Rt_send_high rtos_msg
  | Rt_create_semaphore u32
  | Rt_wait_semaphore u32
  | Rt_release_semaphore u32
  | Rt_create_timer timer_cb u32
  | Rt_start_timer u32 int
  | Rt_stop_timer u32
  | Rt_delete_timer u32
  | Rt_wait_message
  | Rt_free_message
  | Rt_poweron_system
  | Rt_shut_down
  | Rt_poweroff_system
  | Rt_make_dir string
  | Rt_remove_dir string
  | Rt_init_keypad int int
  | Rt_init_alarm
  | Rt_init_touchScreen

record rtos_env =
  create_timer :: "rtos_call list \<Rightarrow> u32"
  start_timer :: "rtos_call list \<Rightarrow> bool"
  create_semaphore :: "rtos_call list \<Rightarrow> u32"
  wait_message :: "rtos_call list \<Rightarrow> bool \<times> rtos_msg option"
  poweron_cause_of :: "rtos_call list \<Rightarrow> poweron_cause"
  dir_answer :: "rtos_call list \<Rightarrow> int"

record lua_timer =
  hOsTimer :: u32
  luaTimerId :: int

record rtos_st =
  luaTimerParam :: "lua_timer list"
  hLuaTimerSem :: u32
  hRTOSWaitMsgTimer :: u32
  poweron_flag :: int
  cust_sys_flag :: bool
  firstRecv :: bool
  rt_calls :: "rtos_call list"

definition MAX_LUA_TIMERS :: nat where "MAX_LUA_TIMERS = 40"

definition init_rtos :: rtos_st where
  "init_rtos = \<lparr>luaTimerParam = replicate MAX_LUA_TIMERS \<lparr>hOsTimer = 0, luaTimerId = 0\<rparr>, hLuaTimerSem = 0,
     hRTOSWaitMsgTimer = 0, poweron_flag = -1, cust_sys_flag = False, firstRecv = True, rt_calls = []\<rparr>"

definition call :: "rtos_call \<Rightarrow> rtos_st \<Rightarrow> rtos_st" where
  "call c s = s\<lparr>rt_calls := rt_calls s @ [c]\<rparr>"

section \<open>Messages\<close>

definition platform_rtos_send :: "rtos_msg \<Rightarrow> rtos_st \<Rightarrow> rtos_st" where
  "platform_rtos_send msg s = call (Rt_send msg) s"

definition platform_rtos_send_high_priority :: "rtos_msg \<Rightarrow> rtos_st \<Rightarrow> rtos_st" where
  "platform_rtos_send_high_priority msg s = call (Rt_send_high msg) s"

definition PLATFORM_RTOS_WAIT_MSG_INFINITE :: u32 where "PLATFORM_RTOS_WAIT_MSG_INFINITE = 0"

definition platform_rtos_receive :: "rtos_env \<Rightarrow> u32 \<Rightarrow> rtos_st \<Rightarrow> rtos_st \<times> int \<times> rtos_msg option" where
  "platform_rtos_receive env timeout s =
     (let s = call (if timeout = PLATFORM_RTOS_WAIT_MSG_INFINITE then Rt_stop_timer (hRTOSWaitMsgTimer s)
                    else Rt_start_timer (hRTOSWaitMsgTimer s) (uint timeout)) s;
          (ok, msg) = wait_message env (rt_calls s)
      in (call Rt_wait_message s, if ok then PLATFORM_OK else PLATFORM_ERR, msg))"

definition platform_keypad_message :: "bool \<Rightarrow> u8 \<Rightarrow> u8 \<Rightarrow> rtos_st \<Rightarrow> rtos_st" where
  "platform_keypad_message pressed r c s = platform_rtos_send (RTOS_MSG_KEYPAD pressed r c) s"

definition platform_alarm_message :: "rtos_st \<Rightarrow> rtos_st" where
  "platform_alarm_message s = platform_rtos_send RTOS_MSG_ALARM s"

definition platform_tp_message :: "u8 \<Rightarrow> u16 \<Rightarrow> u16 \<Rightarrow> rtos_st \<Rightarrow> rtos_st" where
  "platform_tp_message pen x y s = platform_rtos_send (RTOS_MSG_TP pen x y) s"

definition rtos_wait_message_timeout :: "rtos_st \<Rightarrow> rtos_st" where
  "rtos_wait_message_timeout s = platform_rtos_send RTOS_MSG_WAIT_MSG_TIMEOUT s"

definition platform_rtos_init :: "rtos_env \<Rightarrow> rtos_st \<Rightarrow> rtos_st \<times> int" where
  "platform_rtos_init env s =
     (let h = create_timer env (rt_calls s)
      in (call (Rt_create_timer Rtos_wait_message_timeout h) s\<lparr>hRTOSWaitMsgTimer := h\<rparr>, PLATFORM_OK))"

section \<open>Timers\<close>

text \<open>\<^verbatim>\<open>for(index = 0; index < MAX_LUA_TIMERS; index++) if(...) break;\<close> and its last index.\<close>

function timer_search :: "(lua_timer \<Rightarrow> bool) \<Rightarrow> lua_timer list \<Rightarrow> nat \<Rightarrow> nat option" where
  "timer_search P ts i =
     (if i < MAX_LUA_TIMERS then do {
        t \<leftarrow> ld ts i;
        (if P t then Some i else timer_search P ts (i + 1))
      } else Some i)"
  by pat_completeness auto
termination
  by (relation "measure (\<lambda>(P, ts, i). MAX_LUA_TIMERS - i)") auto

declare timer_search.simps [simp del]

definition timer_is :: "int \<Rightarrow> lua_timer \<Rightarrow> bool" where
  "timer_is tid t \<longleftrightarrow> hOsTimer t \<noteq> 0 \<and> luaTimerId t = tid"

definition free_entry :: "nat \<Rightarrow> rtos_st \<Rightarrow> rtos_st option" where
  "free_entry i s = do {
     t \<leftarrow> ld (luaTimerParam s) i;
     ts \<leftarrow> st (luaTimerParam s) i (t\<lparr>hOsTimer := 0\<rparr>);
     Some (s\<lparr>luaTimerParam := ts\<rparr>)
   }"

definition callback_section :: "u32 \<Rightarrow> rtos_st \<Rightarrow> rtos_st option" where
  "callback_section hTimer s = do {
     let s = call (Rt_wait_semaphore (hLuaTimerSem s)) s;
     i \<leftarrow> timer_search (\<lambda>t. hOsTimer t = hTimer) (luaTimerParam s) 0;
     s \<leftarrow> (if i < MAX_LUA_TIMERS then do {
             t \<leftarrow> ld (luaTimerParam s) i;
             free_entry i (call (Rt_delete_timer (hOsTimer t)) s)
           } else Some s);
     Some (call (Rt_release_semaphore (hLuaTimerSem s)) s)
   }"

definition platform_rtos_timer_callback :: "u32 \<Rightarrow> int \<Rightarrow> rtos_st \<Rightarrow> rtos_st option" where
  "platform_rtos_timer_callback hTimer timer_id s =
     callback_section hTimer (platform_rtos_send (RTOS_MSG_TIMER timer_id) s)"

definition platform_rtos_timer_high_priority_callback :: "u32 \<Rightarrow> int \<Rightarrow> rtos_st \<Rightarrow> rtos_st option" where
  "platform_rtos_timer_high_priority_callback hTimer timer_id s =
     callback_section hTimer (platform_rtos_send_high_priority (RTOS_MSG_TIMER timer_id) s)"

definition ensure_semaphore :: "rtos_env \<Rightarrow> rtos_st \<Rightarrow> rtos_st" where
  "ensure_semaphore env s =
     (if hLuaTimerSem s = 0
      then let h = create_semaphore env (rt_calls s) in call (Rt_create_semaphore h) s\<lparr>hLuaTimerSem := h\<rparr>
      else s)"

definition stop_section :: "int \<Rightarrow> rtos_st \<Rightarrow> rtos_st option" where
  "stop_section timer_id s = do {
     let s = call (Rt_wait_semaphore (hLuaTimerSem s)) s;
     i \<leftarrow> timer_search (timer_is timer_id) (luaTimerParam s) 0;
     s \<leftarrow> (if i < MAX_LUA_TIMERS then do {
             t \<leftarrow> ld (luaTimerParam s) i;
             free_entry i (call (Rt_delete_timer (hOsTimer t)) (call (Rt_stop_timer (hOsTimer t)) s))
           } else Some s);
     Some (call (Rt_release_semaphore (hLuaTimerSem s)) s)
   }"

definition platform_rtos_stop_timer :: "rtos_env \<Rightarrow> int \<Rightarrow> rtos_st \<Rightarrow> (rtos_st \<times> int) option" where
  "platform_rtos_stop_timer env timer_id s = do {
     s \<leftarrow> stop_section timer_id (ensure_semaphore env s);
     Some (s, PLATFORM_OK)
   }"

definition timer_running :: "int \<Rightarrow> rtos_st \<Rightarrow> bool option" where
  "timer_running timer_id s = do {
     i \<leftarrow> timer_search (timer_is timer_id) (luaTimerParam s) 0;
     Some (i < MAX_LUA_TIMERS)
   }"

definition timer_cb_of :: "bool \<Rightarrow> int \<Rightarrow> timer_cb" where
  "timer_cb_of high timer_id =
     (if high then Rtos_timer_high_priority_callback timer_id else Rtos_timer_callback timer_id)"

definition start_section :: "rtos_env \<Rightarrow> int \<Rightarrow> int \<Rightarrow> bool \<Rightarrow> rtos_st \<Rightarrow> (rtos_st \<times> int) option" where
  "start_section env timer_id ms high s = do {
     let s = call (Rt_wait_semaphore (hLuaTimerSem s)) s;
     i \<leftarrow> timer_search (\<lambda>t. hOsTimer t = 0) (luaTimerParam s) 0;
     (if i \<ge> MAX_LUA_TIMERS then Some (call (Rt_release_semaphore (hLuaTimerSem s)) s, PLATFORM_ERR)
      else do {
        let h = create_timer env (rt_calls s);
        let s = call (Rt_create_timer (timer_cb_of high timer_id) h) s;
        (if h = 0 then Some (call (Rt_release_semaphore (hLuaTimerSem s)) s, PLATFORM_ERR)
         else do {
           let started = start_timer env (rt_calls s);
           let s = call (Rt_start_timer h ms) s;
           (if \<not> started
            then Some (call (Rt_delete_timer h) (call (Rt_release_semaphore (hLuaTimerSem s)) s), PLATFORM_ERR)
            else do {
              ts \<leftarrow> st (luaTimerParam s) i \<lparr>hOsTimer = h, luaTimerId = timer_id\<rparr>;
              Some (call (Rt_release_semaphore (hLuaTimerSem s)) (s\<lparr>luaTimerParam := ts\<rparr>), PLATFORM_OK)
            })
         })
      })
   }"

definition platform_rtos_start_timer ::
    "rtos_env \<Rightarrow> int \<Rightarrow> int \<Rightarrow> bool \<Rightarrow> rtos_st \<Rightarrow> (rtos_st \<times> int) option" where
  "platform_rtos_start_timer env timer_id ms high s = do {
     let s = ensure_semaphore env s;
     running \<leftarrow> timer_running timer_id s;
     s \<leftarrow> (if running then map_option fst (platform_rtos_stop_timer env timer_id s) else Some s);
     start_section env timer_id ms high s
   }"

section \<open>Power, modules, directories\<close>

definition platform_get_poweron_reason :: "rtos_env \<Rightarrow> rtos_st \<Rightarrow> poweron_cause" where
  "platform_get_poweron_reason env s = poweron_cause_of env (rt_calls s)"

definition platform_rtos_poweron :: "int \<Rightarrow> rtos_st \<Rightarrow> rtos_st \<times> int" where
  "platform_rtos_poweron flag s =
     (let s = s\<lparr>poweron_flag := flag\<rparr>
      in (if flag = 1 then call Rt_poweron_system s\<lparr>cust_sys_flag := True\<rparr> else s, PLATFORM_OK))"

definition platform_poweron_try :: "rtos_st \<Rightarrow> rtos_st" where
  "platform_poweron_try s =
     (if poweron_flag s = -1 then call Rt_poweron_system s\<lparr>cust_sys_flag := True\<rparr> else s)"

definition platform_rtos_poweroff :: "rtos_env \<Rightarrow> rtos_st \<Rightarrow> rtos_st \<times> int" where
  "platform_rtos_poweroff env s =
     (if platform_get_poweron_reason env s = OPENAT_PM_POWERON_BY_CHARGER \<and> \<not> cust_sys_flag s
      then call Rt_shut_down s else call Rt_poweroff_system s, PLATFORM_OK)"

datatype rtos_module = RTOS_MODULE_ID_KEYPAD | RTOS_MODULE_ID_ALARM | RTOS_MODULE_ID_TP | RTOS_MODULE_unknown

definition platform_rtos_init_module :: "rtos_module \<Rightarrow> int \<Rightarrow> int \<Rightarrow> rtos_st \<Rightarrow> rtos_st \<times> int" where
  "platform_rtos_init_module module inMask outMask s =
     (case module of
        RTOS_MODULE_ID_KEYPAD \<Rightarrow> (call (Rt_init_keypad inMask outMask) s, PLATFORM_OK)
      | RTOS_MODULE_ID_ALARM \<Rightarrow> (call Rt_init_alarm s, PLATFORM_OK)
      | RTOS_MODULE_ID_TP \<Rightarrow> (call Rt_init_touchScreen s, PLATFORM_OK)
      | RTOS_MODULE_unknown \<Rightarrow> (s, PLATFORM_ERR))"

text \<open>
  The two directory operations share their checks. The path is the Lua string; one
  \<^verbatim>\<open>/\<close> at its end is overwritten by \<^verbatim>\<open>0\<close>, and the kernel is handed the
  path up to the first such byte.
\<close>

definition sysDir :: "string list" where
  "sysDir = [''/'', ''/lua'', ''/ldata'', ''/luazip'', ''/RecDir'']"

definition trimmed :: "string \<Rightarrow> string" where
  "trimmed p = (if length p > 1 \<and> last p = CHR ''/'' then butlast p else p)"

definition c_path :: "string \<Rightarrow> string" where
  "c_path p = takeWhile (\<lambda>c. c \<noteq> CHR 0x00) (trimmed p)"

definition dir_allowed :: "string \<Rightarrow> bool" where
  "dir_allowed p \<longleftrightarrow> length p \<noteq> 0 \<and>
     \<not> list_ex (\<lambda>d. take (length d) (trimmed p) = d \<and> length d = length (trimmed p)) sysDir"

definition platform_make_dir :: "rtos_env \<Rightarrow> string \<Rightarrow> rtos_st \<Rightarrow> rtos_st \<times> int" where
  "platform_make_dir env p s =
     (if dir_allowed p
      then (call (Rt_make_dir (c_path p)) s, if dir_answer env (rt_calls s) = 0 then 1 else 0)
      else (s, 0))"

definition platform_remove_dir :: "rtos_env \<Rightarrow> string \<Rightarrow> rtos_st \<Rightarrow> rtos_st \<times> int" where
  "platform_remove_dir env p s =
     (if dir_allowed p
      then (call (Rt_remove_dir (c_path p)) s, if dir_answer env (rt_calls s) = 0 then 1 else 0)
      else (s, 0))"

section \<open>The Lua module\<close>

datatype lua_field = Field_int string int | Field_bool string bool

datatype lua_value = Lua_integer int | Lua_table "lua_field list"

text \<open>The identifiers of the messages, in the order of \<^verbatim>\<open>PlatformMsgIdTag\<close>.\<close>

fun msg_id :: "rtos_msg \<Rightarrow> int" where
  "msg_id RTOS_MSG_WAIT_MSG_TIMEOUT = 0"
| "msg_id (RTOS_MSG_TIMER t) = 1"
| "msg_id (RTOS_MSG_UART_RX_DATA u) = 2"
| "msg_id (RTOS_MSG_UART_TX_DONE u) = 3"
| "msg_id (RTOS_MSG_KEYPAD p r c) = 4"
| "msg_id (RTOS_MSG_INT i n) = 5"
| "msg_id (RTOS_MSG_PMD b v l c t) = 6"
| "msg_id (RTOS_MSG_AUDIO e f) = 7"
| "msg_id RTOS_MSG_ALARM = 8"
| "msg_id (RTOS_MSG_TP p x y) = 9"

fun int_id_of :: "elua_int_id \<Rightarrow> int" where
  "int_id_of INT_GPIO_POSEDGE = 1"
| "int_id_of INT_GPIO_NEGEDGE = 2"

fun handle_msg :: "rtos_msg \<Rightarrow> lua_value list" where
  "handle_msg RTOS_MSG_WAIT_MSG_TIMEOUT = [Lua_integer (msg_id RTOS_MSG_WAIT_MSG_TIMEOUT)]"
| "handle_msg (RTOS_MSG_TIMER t) = [Lua_integer (msg_id (RTOS_MSG_TIMER t)), Lua_integer t]"
| "handle_msg (RTOS_MSG_UART_RX_DATA u) = [Lua_integer (msg_id (RTOS_MSG_UART_RX_DATA u)), Lua_integer (int u)]"
| "handle_msg (RTOS_MSG_UART_TX_DONE u) = [Lua_integer (msg_id (RTOS_MSG_UART_TX_DONE u)), Lua_integer (int u)]"
| "handle_msg (RTOS_MSG_KEYPAD p r c) = [Lua_table [Field_int ''id'' (msg_id (RTOS_MSG_KEYPAD p r c)),
     Field_bool ''pressed'' p, Field_int ''key_matrix_row'' (uint r), Field_int ''key_matrix_col'' (uint c)]]"
| "handle_msg (RTOS_MSG_TP p x y) = [Lua_table [Field_int ''id'' (msg_id (RTOS_MSG_TP p x y)),
     Field_int ''pen_state'' (uint p), Field_int ''x'' (uint x), Field_int ''y'' (uint y)]]"
| "handle_msg (RTOS_MSG_INT i n) = [Lua_table [Field_int ''id'' (msg_id (RTOS_MSG_INT i n)),
     Field_int ''int_id'' (int_id_of i), Field_int ''int_resnum'' (uint n)]]"
| "handle_msg (RTOS_MSG_PMD b v l c t) = [Lua_table [Field_int ''id'' (msg_id (RTOS_MSG_PMD b v l c t)),
     Field_bool ''present'' b, Field_int ''voltage'' (uint v), Field_int ''level'' (uint l),
     Field_bool ''charger'' c, Field_int ''state'' (uint t)]]"
| "handle_msg (RTOS_MSG_AUDIO e f) = [Lua_table (Field_int ''id'' (msg_id (RTOS_MSG_AUDIO e f)) #
     (if e then [Field_bool ''play_end_ind'' True]
      else if f then [Field_bool ''play_error_ind'' True] else []))]"
| "handle_msg RTOS_MSG_ALARM = [Lua_integer (msg_id RTOS_MSG_ALARM)]"

definition l_rtos_receive :: "rtos_env \<Rightarrow> u32 \<Rightarrow> rtos_st \<Rightarrow> (rtos_st \<times> lua_value list lua) option" where
  "l_rtos_receive env timeout s =
     (let s = (if firstRecv s then platform_poweron_try (s\<lparr>firstRecv := False\<rparr>) else s);
          (s, r, msg) = platform_rtos_receive env timeout s
      in if r \<noteq> PLATFORM_OK then Some (s, Lua_error ''rtos.receive error!'')
         else case msg of None \<Rightarrow> None
              | Some m \<Rightarrow> Some (call Rt_free_message s, Lua_return (handle_msg m)))"

definition l_rtos_timer_start :: "rtos_env \<Rightarrow> int \<Rightarrow> int \<Rightarrow> rtos_st \<Rightarrow> (rtos_st \<times> int) option" where
  "l_rtos_timer_start env tid ms s = platform_rtos_start_timer env tid ms False s"

definition l_rtos_timer_high_priority_start :: "rtos_env \<Rightarrow> int \<Rightarrow> int \<Rightarrow> rtos_st \<Rightarrow> (rtos_st \<times> int) option" where
  "l_rtos_timer_high_priority_start env tid ms s = platform_rtos_start_timer env tid ms True s"

definition l_rtos_timer_stop :: "rtos_env \<Rightarrow> int \<Rightarrow> rtos_st \<Rightarrow> (rtos_st \<times> int) option" where
  "l_rtos_timer_stop env tid s = platform_rtos_stop_timer env tid s"

definition l_rtos_init_module :: "int \<Rightarrow> int \<Rightarrow> int \<Rightarrow> rtos_st \<Rightarrow> rtos_st \<times> int lua" where
  "l_rtos_init_module module_id inmask outmask s =
     (if module_id = 0 then let (s, r) = platform_rtos_init_module RTOS_MODULE_ID_KEYPAD inmask outmask s in (s, Lua_return r)
      else if module_id = 1 then let (s, r) = platform_rtos_init_module RTOS_MODULE_ID_ALARM 0 0 s in (s, Lua_return r)
      else if module_id = 2 then let (s, r) = platform_rtos_init_module RTOS_MODULE_ID_TP 0 0 s in (s, Lua_return r)
      else (s, Lua_error ''rtos.init_module: module id must < 3''))"

definition l_rtos_poweron :: "int \<Rightarrow> rtos_st \<Rightarrow> rtos_st" where
  "l_rtos_poweron flag s = fst (platform_rtos_poweron flag s)"

definition l_rtos_poweroff :: "rtos_env \<Rightarrow> rtos_st \<Rightarrow> rtos_st" where
  "l_rtos_poweroff env s = fst (platform_rtos_poweroff env s)"

definition l_make_dir :: "rtos_env \<Rightarrow> string \<Rightarrow> rtos_st \<Rightarrow> rtos_st \<times> bool" where
  "l_make_dir env p s = (let (s, r) = platform_make_dir env p s in (s, r \<noteq> 0))"

definition l_remove_dir :: "rtos_env \<Rightarrow> string \<Rightarrow> rtos_st \<Rightarrow> rtos_st \<times> bool" where
  "l_remove_dir env p s = (let (s, r) = platform_remove_dir env p s in (s, r \<noteq> 0))"

section \<open>The timer table as a map\<close>

text \<open>
  What the table means: the kernel timer of each running Lua timer. The kernel side is read off
  the calls: a handle is live from its creation to its deletion.
\<close>

definition timer_of :: "rtos_st \<Rightarrow> int \<Rightarrow> u32 option" where
  "timer_of s tid = map_option hOsTimer (find (timer_is tid) (luaTimerParam s))"

fun live_step :: "u32 set \<Rightarrow> rtos_call \<Rightarrow> u32 set" where
  "live_step L (Rt_create_timer cb h) = (if h = 0 then L else insert h L)"
| "live_step L (Rt_delete_timer h) = L - {h}"
| "live_step L _ = L"

definition live :: "rtos_call list \<Rightarrow> u32 set" where
  "live log = foldl live_step {} log"

definition handles :: "rtos_st \<Rightarrow> u32 set" where
  "handles s = hOsTimer ` set (luaTimerParam s) - {0}"

definition wait_handles :: "rtos_st \<Rightarrow> u32 set" where
  "wait_handles s = {hRTOSWaitMsgTimer s} - {0}"

text \<open>The kernel hands out handles that are not in use.\<close>

definition fresh_handles :: "rtos_env \<Rightarrow> bool" where
  "fresh_handles env \<longleftrightarrow> (\<forall>log. create_timer env log = 0 \<or> create_timer env log \<notin> live log)"

text \<open>The kernel grants a timer while no more than those of one table are in use.\<close>

definition grants_timers :: "rtos_env \<Rightarrow> bool" where
  "grants_timers env \<longleftrightarrow> (\<forall>log. card (live log) \<le> MAX_LUA_TIMERS + 1 \<longrightarrow> create_timer env log \<noteq> 0 \<and> start_timer env log)"

definition one_entry :: "lua_timer list \<Rightarrow> bool" where
  "one_entry ts \<longleftrightarrow> (\<forall>i<length ts. \<forall>j<length ts. hOsTimer (ts ! i) \<noteq> 0 \<longrightarrow> hOsTimer (ts ! j) \<noteq> 0 \<longrightarrow>
     hOsTimer (ts ! i) = hOsTimer (ts ! j) \<or> luaTimerId (ts ! i) = luaTimerId (ts ! j) \<longrightarrow> i = j)"

definition timer_inv :: "rtos_st \<Rightarrow> bool" where
  "timer_inv s \<longleftrightarrow> length (luaTimerParam s) = MAX_LUA_TIMERS \<and> one_entry (luaTimerParam s) \<and>
     handles s \<inter> wait_handles s = {} \<and> live (rt_calls s) = handles s \<union> wait_handles s"

lemma live_simps [simp]:
  "live [] = {}"
  "live (log @ cs) = foldl live_step (live log) cs"
  by (simp_all add: live_def)

lemma call_fields [simp]:
  "luaTimerParam (call c s) = luaTimerParam s" "hLuaTimerSem (call c s) = hLuaTimerSem s"
  "hRTOSWaitMsgTimer (call c s) = hRTOSWaitMsgTimer s" "rt_calls (call c s) = rt_calls s @ [c]"
  "handles (call c s) = handles s" "wait_handles (call c s) = wait_handles s" "timer_of (call c s) = timer_of s"
  by (simp_all add: call_def handles_def wait_handles_def timer_of_def fun_eq_iff)

lemma timer_search_first:
  assumes "length ts = MAX_LUA_TIMERS" and "i \<le> MAX_LUA_TIMERS"
  shows "\<exists>j. timer_search P ts i = Some j \<and> i \<le> j \<and> j \<le> MAX_LUA_TIMERS \<and>
    (j < MAX_LUA_TIMERS \<longrightarrow> P (ts ! j)) \<and> (\<forall>k. i \<le> k \<and> k < j \<longrightarrow> \<not> P (ts ! k))"
  using assms
proof (induction P ts i rule: timer_search.induct)
  case (1 P ts i)
  show ?case
  proof (cases "i < MAX_LUA_TIMERS \<and> \<not> P (ts ! i)")
    case True
    then obtain j where j: "timer_search P ts (i + 1) = Some j" "i + 1 \<le> j" "j \<le> MAX_LUA_TIMERS"
        "j < MAX_LUA_TIMERS \<longrightarrow> P (ts ! j)" "\<forall>k. i + 1 \<le> k \<and> k < j \<longrightarrow> \<not> P (ts ! k)"
      using "1.IH"[of "ts ! i"] "1.prems" by (auto simp: ld_in)
    have "\<forall>k. i \<le> k \<and> k < j \<longrightarrow> \<not> P (ts ! k)"
    proof (intro allI impI)
      fix k assume "i \<le> k \<and> k < j"
      then show "\<not> P (ts ! k)" using j(5) True by (cases "k = i") auto
    qed
    then show ?thesis using True j "1.prems" by (subst timer_search.simps) (auto simp: ld_in)
  next
    case False
    then show ?thesis using "1.prems" by (subst timer_search.simps) (auto simp: ld_in)
  qed
qed

lemma timer_of_Some:
  assumes "one_entry (luaTimerParam s)" and "i < length (luaTimerParam s)" and "timer_is tid (luaTimerParam s ! i)"
  shows "timer_of s tid = Some (hOsTimer (luaTimerParam s ! i))"
proof -
  obtain j where j: "j < length (luaTimerParam s)" "timer_is tid (luaTimerParam s ! j)"
      "find (timer_is tid) (luaTimerParam s) = Some (luaTimerParam s ! j)"
    using assms(2,3) find_None_iff[of "timer_is tid" "luaTimerParam s"]
      find_Some_iff[of "timer_is tid" "luaTimerParam s"] nth_mem by (metis not_None_eq)
  have "i = j" using assms j(1,2) by (auto simp: one_entry_def timer_is_def)
  then show ?thesis using j(3) by (simp add: timer_of_def)
qed

lemma timer_of_None: "(timer_of s tid = None) = (\<forall>i<length (luaTimerParam s). \<not> timer_is tid (luaTimerParam s ! i))"
  by (auto simp: timer_of_def find_None_iff in_set_conv_nth)

lemma timer_of_iff:
  assumes "one_entry (luaTimerParam s)"
  shows "timer_of s tid = Some h \<longleftrightarrow> (\<exists>i<length (luaTimerParam s). timer_is tid (luaTimerParam s ! i) \<and> hOsTimer (luaTimerParam s ! i) = h)"
  using timer_of_Some[OF assms] timer_of_None[of s tid] by (metis option.distinct(1) option.inject)

lemma handles_nth: "handles s = {hOsTimer (luaTimerParam s ! i) |i. i < length (luaTimerParam s) \<and> hOsTimer (luaTimerParam s ! i) \<noteq> 0}"
  unfolding handles_def by (auto simp: in_set_conv_nth) (metis nth_mem image_eqI)

text \<open>Freeing one entry takes its timer out of the map; filling a free entry puts one in.\<close>

lemma free_entry_law:
  assumes "timer_inv s" and "i < MAX_LUA_TIMERS" and "hOsTimer (luaTimerParam s ! i) = h" and "h \<noteq> 0"
  shows "\<exists>s'. free_entry i s = Some s' \<and> rt_calls s' = rt_calls s \<and> hLuaTimerSem s' = hLuaTimerSem s \<and>
    hRTOSWaitMsgTimer s' = hRTOSWaitMsgTimer s \<and>
    length (luaTimerParam s') = MAX_LUA_TIMERS \<and> one_entry (luaTimerParam s') \<and> handles s' = handles s - {h} \<and>
    timer_of s' = (timer_of s)(luaTimerId (luaTimerParam s ! i) := None)"
proof -
  let ?ts = "luaTimerParam s"
  let ?t = "?ts ! i"
  define s' where "s' = s\<lparr>luaTimerParam := ?ts[i := ?t\<lparr>hOsTimer := 0\<rparr>]\<rparr>"
  have len: "length ?ts = MAX_LUA_TIMERS" and one: "one_entry ?ts" using assms(1) by (simp_all add: timer_inv_def)
  have r: "free_entry i s = Some s'" using assms(2) len by (simp add: free_entry_def ld_in st_in s'_def)
  have n: "luaTimerParam s' ! j = (if j = i then ?t\<lparr>hOsTimer := 0\<rparr> else ?ts ! j)" if "j < MAX_LUA_TIMERS" for j
    using that len by (simp add: s'_def)
  have l: "length (luaTimerParam s') = MAX_LUA_TIMERS" using len by (simp add: s'_def)
  have o: "one_entry (luaTimerParam s')"
    using one unfolding one_entry_def l len by (auto simp: n)
  have hs: "handles s' = handles s - {h}"
    unfolding handles_nth l len
  proof (intro set_eqI iffI)
    fix x assume "x \<in> {hOsTimer (luaTimerParam s' ! i) |i. i < MAX_LUA_TIMERS \<and> hOsTimer (luaTimerParam s' ! i) \<noteq> 0}"
    then obtain j where j: "x = hOsTimer (luaTimerParam s' ! j)" "j < MAX_LUA_TIMERS" "x \<noteq> 0" by auto
    then have "j \<noteq> i" using n by (auto split: if_splits)
    then have x: "x = hOsTimer (?ts ! j)" using j n by simp
    have "x \<noteq> h" using one \<open>j \<noteq> i\<close> j x assms(2-4) len unfolding one_entry_def by metis
    then show "x \<in> {hOsTimer (?ts ! i) |i. i < MAX_LUA_TIMERS \<and> hOsTimer (?ts ! i) \<noteq> 0} - {h}" using x j by auto
  next
    fix x assume "x \<in> {hOsTimer (?ts ! i) |i. i < MAX_LUA_TIMERS \<and> hOsTimer (?ts ! i) \<noteq> 0} - {h}"
    then obtain j where "x = hOsTimer (?ts ! j)" "j < MAX_LUA_TIMERS" "x \<noteq> 0" "x \<noteq> h" by auto
    then have "j \<noteq> i" "x = hOsTimer (luaTimerParam s' ! j)" using assms(3) n by auto
    then show "x \<in> {hOsTimer (luaTimerParam s' ! i) |i. i < MAX_LUA_TIMERS \<and> hOsTimer (luaTimerParam s' ! i) \<noteq> 0}"
      using \<open>j < MAX_LUA_TIMERS\<close> \<open>x \<noteq> 0\<close> by auto
  qed
  have "timer_of s' tid = ((timer_of s)(luaTimerId ?t := None)) tid" for tid
  proof (cases "tid = luaTimerId ?t")
    case True
    have "\<not> timer_is tid (luaTimerParam s' ! j)" if "j < MAX_LUA_TIMERS" for j
      using True one that assms(2-4) n[OF that] len unfolding one_entry_def timer_is_def by (metis lua_timer.select_convs(1) lua_timer.surjective lua_timer.update_convs(1))
    then show ?thesis using True by (simp add: timer_of_None l)
  next
    case False
    have "timer_is tid (luaTimerParam s' ! j) = timer_is tid (?ts ! j)" if "j < MAX_LUA_TIMERS" for j
      using False n[OF that] by (auto simp: timer_is_def)
    then have "(timer_of s' tid = Some x) = (timer_of s tid = Some x)" for x
      unfolding timer_of_iff[OF one] timer_of_iff[OF o] l len
      using n by (metis timer_is_def lua_timer.select_convs(1) lua_timer.surjective lua_timer.update_convs(1))
    then have "timer_of s' tid = timer_of s tid" by (metis not_None_eq)
    then show ?thesis using False by simp
  qed
  then show ?thesis using r l o hs by (auto simp: s'_def fun_eq_iff)
qed

lemma fill_entry_law:
  assumes "timer_inv s" and "i < MAX_LUA_TIMERS" and "hOsTimer (luaTimerParam s ! i) = 0" and "h \<noteq> 0"
    and "h \<notin> handles s" and "timer_of s tid = None"
  shows "\<exists>s'. s' = s\<lparr>luaTimerParam := (luaTimerParam s)[i := \<lparr>hOsTimer = h, luaTimerId = tid\<rparr>]\<rparr> \<and>
    length (luaTimerParam s') = MAX_LUA_TIMERS \<and> one_entry (luaTimerParam s') \<and> handles s' = insert h (handles s) \<and>
    timer_of s' = (timer_of s)(tid := Some h)"
proof -
  let ?ts = "luaTimerParam s"
  define s' where "s' = s\<lparr>luaTimerParam := ?ts[i := \<lparr>hOsTimer = h, luaTimerId = tid\<rparr>]\<rparr>"
  have len: "length ?ts = MAX_LUA_TIMERS" and one: "one_entry ?ts" using assms(1) by (simp_all add: timer_inv_def)
  have n: "luaTimerParam s' ! j = (if j = i then \<lparr>hOsTimer = h, luaTimerId = tid\<rparr> else ?ts ! j)" if "j < MAX_LUA_TIMERS" for j
    using that len by (simp add: s'_def)
  have l: "length (luaTimerParam s') = MAX_LUA_TIMERS" using len by (simp add: s'_def)
  have fresh: "hOsTimer (?ts ! j) \<noteq> h" "\<not> timer_is tid (?ts ! j)" if "j < MAX_LUA_TIMERS" for j
    using assms(4-6) that len unfolding handles_nth timer_of_None by auto
  have o: "one_entry (luaTimerParam s')"
    using one fresh unfolding one_entry_def l len timer_is_def by (simp add: n) metis
  have hs: "handles s' = insert h (handles s)"
  proof (rule set_eqI)
    fix x
    have hn: "hOsTimer (luaTimerParam s' ! j) = (if j = i then h else hOsTimer (?ts ! j))" if "j < MAX_LUA_TIMERS" for j
      using n[OF that] by simp
    have "(\<exists>j<MAX_LUA_TIMERS. x = hOsTimer (luaTimerParam s' ! j) \<and> x \<noteq> 0)
        = (x = h \<or> (\<exists>j<MAX_LUA_TIMERS. x = hOsTimer (?ts ! j) \<and> x \<noteq> 0))"
      using hn assms(2-4) by metis
    then show "x \<in> handles s' \<longleftrightarrow> x \<in> insert h (handles s)"
      unfolding handles_nth l len by auto
  qed
  have "timer_of s' x = ((timer_of s)(tid := Some h)) x" for x
  proof (cases "x = tid")
    case True
    then show ?thesis using timer_of_Some[OF o, of i tid] assms(2,4) n[OF assms(2)] l by (simp add: timer_is_def)
  next
    case False
    have i: "\<not> timer_is x (?ts ! i)" "\<not> timer_is x (luaTimerParam s' ! i)"
      using assms(2,3) n False by (auto simp: timer_is_def)
    have "(timer_of s' x = Some y) = (timer_of s x = Some y)" for y
      unfolding timer_of_iff[OF one] timer_of_iff[OF o] l len using n i by metis
    then have "timer_of s' x = timer_of s x" by (metis not_None_eq)
    then show ?thesis using False by simp
  qed
  then show ?thesis using l o hs by (auto simp: s'_def fun_eq_iff)
qed

section \<open>What each section does to the map\<close>

lemma timer_inv_len: "timer_inv s \<Longrightarrow> length (luaTimerParam s) = MAX_LUA_TIMERS"
  by (simp add: timer_inv_def)

lemma timer_inv_call:
  assumes "timer_inv s" and "live_step (live (rt_calls s)) c = live (rt_calls s)"
  shows "timer_inv (call c s)"
  using assms by (simp add: timer_inv_def)

lemma search_inv:
  assumes "timer_inv s"
  obtains j where "timer_search P (luaTimerParam s) 0 = Some j" "j \<le> MAX_LUA_TIMERS"
    "j < MAX_LUA_TIMERS \<Longrightarrow> P (luaTimerParam s ! j)" "\<And>k. k < j \<Longrightarrow> \<not> P (luaTimerParam s ! k)"
  using timer_search_first[OF timer_inv_len[OF assms], of 0 P] by auto

lemma stop_section_law:
  assumes "timer_inv s"
  shows "\<exists>s'. stop_section tid s = Some s' \<and> timer_inv s' \<and> timer_of s' = (timer_of s)(tid := None) \<and>
    hLuaTimerSem s' = hLuaTimerSem s \<and> hRTOSWaitMsgTimer s' = hRTOSWaitMsgTimer s"
proof -
  let ?w = "call (Rt_wait_semaphore (hLuaTimerSem s)) s"
  obtain j where j: "timer_search (timer_is tid) (luaTimerParam s) 0 = Some j" "j \<le> MAX_LUA_TIMERS"
    "j < MAX_LUA_TIMERS \<Longrightarrow> timer_is tid (luaTimerParam s ! j)" "\<And>k. k < j \<Longrightarrow> \<not> timer_is tid (luaTimerParam s ! k)"
    using search_inv[OF assms, of "timer_is tid"] by blast
  note len = timer_inv_len[OF assms]
  show ?thesis
  proof (cases "j < MAX_LUA_TIMERS")
    case True
    define h where "h = hOsTimer (luaTimerParam s ! j)"
    have tj: "h \<noteq> 0" "luaTimerId (luaTimerParam s ! j) = tid" using j(3)[OF True] by (simp_all add: timer_is_def h_def)
    define c where "c = call (Rt_stop_timer h) ?w"
    have ci: "timer_inv c" unfolding c_def by (intro timer_inv_call assms) simp_all
    have cf: "luaTimerParam c = luaTimerParam s" "timer_of c = timer_of s" "handles c = handles s" by (simp_all add: c_def)
    obtain s' where s': "free_entry j c = Some s'" "rt_calls s' = rt_calls c" "hLuaTimerSem s' = hLuaTimerSem c"
        "hRTOSWaitMsgTimer s' = hRTOSWaitMsgTimer c" "length (luaTimerParam s') = MAX_LUA_TIMERS"
        "one_entry (luaTimerParam s')" "handles s' = handles c - {h}"
        "timer_of s' = (timer_of c)(luaTimerId (luaTimerParam c ! j) := None)"
      using free_entry_law[OF ci True, of h] tj(1) by (auto simp: cf h_def)
    let ?d = "call (Rt_delete_timer h) c"
    have fd: "free_entry j ?d = Some (s'\<lparr>rt_calls := rt_calls c @ [Rt_delete_timer h]\<rparr>)"
      using s'(1,2) unfolding free_entry_def call_def by (auto simp: bind_eq_Some_conv)
    have hin: "h \<in> handles s" unfolding handles_nth using True tj(1) len by (auto simp: h_def)
    have r: "stop_section tid s = Some (call (Rt_release_semaphore (hLuaTimerSem s)) (s'\<lparr>rt_calls := rt_calls c @ [Rt_delete_timer h]\<rparr>))"
      using True fd j(1) len s'(3) unfolding stop_section_def c_def by (simp add: ld_in h_def)
    have lv: "live (rt_calls c) = handles s \<union> wait_handles s" "handles s \<inter> wait_handles s = {}"
      using assms by (simp_all add: timer_inv_def c_def)
    show ?thesis unfolding r
      using s' tj cf lv hin
      by (auto simp: timer_inv_def handles_def wait_handles_def timer_of_def c_def fun_eq_iff)
  next
    case False
    then have "timer_of s tid = None" using j(2,4) len by (simp add: timer_of_None)
    then show ?thesis using False j(1) assms
      by (auto simp: stop_section_def fun_eq_iff intro!: timer_inv_call)
  qed
qed

lemma callback_section_law:
  assumes "timer_inv s" and "h \<noteq> 0"
  shows "\<exists>s'. callback_section h s = Some s' \<and> timer_inv s' \<and>
    timer_of s' = (\<lambda>tid. if timer_of s tid = Some h then None else timer_of s tid) \<and>
    hLuaTimerSem s' = hLuaTimerSem s \<and> hRTOSWaitMsgTimer s' = hRTOSWaitMsgTimer s"
proof -
  let ?c = "call (Rt_wait_semaphore (hLuaTimerSem s)) s"
  obtain j where j: "timer_search (\<lambda>t. hOsTimer t = h) (luaTimerParam s) 0 = Some j" "j \<le> MAX_LUA_TIMERS"
    "j < MAX_LUA_TIMERS \<Longrightarrow> hOsTimer (luaTimerParam s ! j) = h" "\<And>k. k < j \<Longrightarrow> hOsTimer (luaTimerParam s ! k) \<noteq> h"
    using search_inv[OF assms(1), of "\<lambda>t. hOsTimer t = h"] by blast
  note len = timer_inv_len[OF assms(1)]
  have one: "one_entry (luaTimerParam s)" using assms(1) by (simp add: timer_inv_def)
  show ?thesis
  proof (cases "j < MAX_LUA_TIMERS")
    case True
    note hj = j(3)[OF True]
    define tid where "tid = luaTimerId (luaTimerParam s ! j)"
    have ci: "timer_inv ?c" by (intro timer_inv_call assms) simp_all
    obtain s' where s': "free_entry j ?c = Some s'" "rt_calls s' = rt_calls ?c" "hLuaTimerSem s' = hLuaTimerSem s"
        "hRTOSWaitMsgTimer s' = hRTOSWaitMsgTimer s" "length (luaTimerParam s') = MAX_LUA_TIMERS"
        "one_entry (luaTimerParam s')" "handles s' = handles s - {h}" "timer_of s' = (timer_of s)(tid := None)"
      using free_entry_law[OF ci True, of h] hj assms(2) by (auto simp: tid_def)
    have fd: "free_entry j (call (Rt_delete_timer h) ?c) = Some (s'\<lparr>rt_calls := rt_calls ?c @ [Rt_delete_timer h]\<rparr>)"
      using s'(1,2) unfolding free_entry_def call_def by (auto simp: bind_eq_Some_conv)
    have r: "callback_section h s = Some (call (Rt_release_semaphore (hLuaTimerSem s)) (s'\<lparr>rt_calls := rt_calls ?c @ [Rt_delete_timer h]\<rparr>))"
      using True fd j(1) len s'(3) hj unfolding callback_section_def by (simp add: ld_in)
    have hin: "h \<in> handles s" unfolding handles_nth using True hj assms(2) len by auto
    have lv: "live (rt_calls s) = handles s \<union> wait_handles s" "handles s \<inter> wait_handles s = {}"
      using assms by (simp_all add: timer_inv_def)
    have own: "timer_of s tid = Some h"
      using timer_of_Some[OF one, of j tid] True len hj assms(2) by (simp add: timer_is_def tid_def)
    have uniq: "x = tid" if x: "timer_of s x = Some h" for x
    proof -
      obtain i where i: "i < MAX_LUA_TIMERS" "timer_is x (luaTimerParam s ! i)" "hOsTimer (luaTimerParam s ! i) = h"
        using x unfolding timer_of_iff[OF one] len by blast
      have "i = j" using one[unfolded one_entry_def, rule_format, of i j] i hj assms(2) True len by simp
      then show ?thesis using i(2) by (simp add: timer_is_def tid_def)
    qed
    have m: "(timer_of s)(tid := None) = (\<lambda>x. if timer_of s x = Some h then None else timer_of s x)"
    proof (rule ext)
      fix x
      show "((timer_of s)(tid := None)) x = (if timer_of s x = Some h then None else timer_of s x)"
        using own uniq[of x] by (cases "x = tid") auto
    qed
    show ?thesis unfolding r m[symmetric]
      using s' lv hin by (auto simp: timer_inv_def handles_def wait_handles_def timer_of_def fun_eq_iff)
  next
    case False
    then have "timer_of s tid \<noteq> Some h" for tid
      using j(2,4) len unfolding timer_of_iff[OF one] by auto
    then show ?thesis using False j(1) assms(1)
      by (auto simp: callback_section_def fun_eq_iff intro!: timer_inv_call)
  qed
qed

lemma card_live:
  assumes "timer_inv s" and "\<exists>t\<in>set (luaTimerParam s). hOsTimer t = 0"
  shows "card (live (rt_calls s)) \<le> MAX_LUA_TIMERS" and "finite (live (rt_calls s))"
proof -
  let ?I = "hOsTimer ` set (luaTimerParam s)"
  have "card ?I \<le> MAX_LUA_TIMERS"
    using card_image_le[of "set (luaTimerParam s)" hOsTimer] card_length[of "luaTimerParam s"] timer_inv_len[OF assms(1)] by simp
  moreover have "0 \<in> ?I" using assms(2) by (auto simp: image_iff)
  ultimately have "card (handles s) < MAX_LUA_TIMERS"
    using card_Diff1_less[of ?I 0] by (simp add: handles_def)
  moreover have "card (wait_handles s) \<le> 1" by (simp add: wait_handles_def card_Diff_subset card_Diff_singleton_if)
  moreover have l: "live (rt_calls s) = handles s \<union> wait_handles s" using assms(1) by (simp add: timer_inv_def)
  ultimately show "card (live (rt_calls s)) \<le> MAX_LUA_TIMERS"
    using card_Un_le[of "handles s" "wait_handles s"] by simp
  show "finite (live (rt_calls s))" unfolding l by (simp add: handles_def wait_handles_def)
qed

text \<open>
  The kernel timer \<open>h\<close> is created with the callback for the Lua timer and started with its time, as the last
  calls of an operation.
\<close>

definition armed :: "rtos_call list \<Rightarrow> rtos_call list \<Rightarrow> int \<Rightarrow> int \<Rightarrow> bool \<Rightarrow> u32 \<Rightarrow> bool" where
  "armed before after tid ms high h \<longleftrightarrow> (\<exists>cs sem. after = before @ cs @
     [Rt_create_timer (if high then Rtos_timer_high_priority_callback tid else Rtos_timer_callback tid) h,
      Rt_start_timer h ms, Rt_release_semaphore sem])"

lemma armed_later: "armed (log @ cs) after tid ms high h \<Longrightarrow> armed log after tid ms high h"
  by (auto simp: armed_def)

lemma start_section_law:
  assumes "timer_inv s" and "fresh_handles env" and "timer_of s tid = None"
  shows "\<exists>s' r. start_section env tid ms high s = Some (s', r) \<and> timer_inv s' \<and>
    hLuaTimerSem s' = hLuaTimerSem s \<and> hRTOSWaitMsgTimer s' = hRTOSWaitMsgTimer s \<and>
    (r = PLATFORM_OK \<and> (\<exists>h. h \<noteq> 0 \<and> timer_of s' = (timer_of s)(tid := Some h) \<and> armed (rt_calls s) (rt_calls s') tid ms high h) \<or>
     r = PLATFORM_ERR \<and> timer_of s' = timer_of s) \<and>
    ((\<exists>t\<in>set (luaTimerParam s). hOsTimer t = 0) \<and> grants_timers env \<longrightarrow> r = PLATFORM_OK)"
proof -
  let ?c = "call (Rt_wait_semaphore (hLuaTimerSem s)) s"
  let ?h = "create_timer env (rt_calls ?c)"
  let ?d = "call (Rt_create_timer (timer_cb_of high tid) ?h) ?c"
  let ?e = "call (Rt_start_timer ?h ms) ?d"
  obtain j where j: "timer_search (\<lambda>t. hOsTimer t = 0) (luaTimerParam s) 0 = Some j" "j \<le> MAX_LUA_TIMERS"
    "j < MAX_LUA_TIMERS \<Longrightarrow> hOsTimer (luaTimerParam s ! j) = 0" "\<And>k. k < j \<Longrightarrow> hOsTimer (luaTimerParam s ! k) \<noteq> 0"
    using search_inv[OF assms(1), of "\<lambda>t. hOsTimer t = 0"] by blast
  note len = timer_inv_len[OF assms(1)]
  have lv: "live (rt_calls s) = handles s \<union> wait_handles s" "handles s \<inter> wait_handles s = {}"
    using assms by (simp_all add: timer_inv_def)
  have "?h = 0 \<or> ?h \<notin> live (rt_calls ?c)"
    using assms(2) unfolding fresh_handles_def by (rule spec)
  then have fresh: "?h = 0 \<or> ?h \<notin> handles s \<union> wait_handles s"
    by (simp add: lv(1))
  have grant: "?h \<noteq> 0 \<and> start_timer env (rt_calls ?d)" if "j < MAX_LUA_TIMERS" "grants_timers env"
  proof -
    have "\<exists>t\<in>set (luaTimerParam s). hOsTimer t = 0" using j(3)[OF that(1)] that(1) len by (metis nth_mem)
    note c = card_live[OF assms(1) this]
    have "card (live (rt_calls ?c)) \<le> MAX_LUA_TIMERS + 1" using c(1) by simp
    moreover have "card (live (rt_calls ?d)) \<le> MAX_LUA_TIMERS + 1"
      using c by (auto simp: card_insert_if)
    ultimately show ?thesis using that(2) unfolding grants_timers_def by blast
  qed
  consider (full) "j = MAX_LUA_TIMERS" | (refused) "j < MAX_LUA_TIMERS" "?h = 0"
    | (idle) "j < MAX_LUA_TIMERS" "?h \<noteq> 0" "\<not> start_timer env (rt_calls ?d)"
    | (ok) "j < MAX_LUA_TIMERS" "?h \<noteq> 0" "start_timer env (rt_calls ?d)"
    using j(2) by linarith
  then show ?thesis
  proof cases
    case full
    have "hOsTimer t \<noteq> 0" if "t \<in> set (luaTimerParam s)" for t
      using that j(4) full len by (auto simp: in_set_conv_nth)
    then show ?thesis using full j(1) assms(1) by (auto simp: start_section_def intro!: timer_inv_call)
  next
    case refused
    then show ?thesis using j(1) assms(1) grant by (auto simp: start_section_def Let_def intro!: timer_inv_call)
  next
    case idle
    have "start_section env tid ms high s = Some (call (Rt_delete_timer ?h) (call (Rt_release_semaphore (hLuaTimerSem s)) ?e), PLATFORM_ERR)"
      using j(1) idle by (simp add: start_section_def Let_def)
    then show ?thesis using idle fresh lv assms(1) grant by (auto simp: timer_inv_def)
  next
    case ok
    have hn: "?h \<notin> handles s" using fresh ok by simp
    obtain s' where s': "s' = s\<lparr>luaTimerParam := (luaTimerParam s)[j := \<lparr>hOsTimer = ?h, luaTimerId = tid\<rparr>]\<rparr>"
        "length (luaTimerParam s') = MAX_LUA_TIMERS" "one_entry (luaTimerParam s')" "handles s' = insert ?h (handles s)"
        "timer_of s' = (timer_of s)(tid := Some ?h)"
      using fill_entry_law[OF assms(1) ok(1) j(3)[OF ok(1)] ok(2) hn assms(3)] by blast
    let ?f = "call (Rt_release_semaphore (hLuaTimerSem s)) (?e\<lparr>luaTimerParam := luaTimerParam s'\<rparr>)"
    have "start_section env tid ms high s = Some (?f, PLATFORM_OK)"
      using j(1) ok len s'(1) by (simp add: start_section_def Let_def st_in)
    moreover have "timer_of ?f = timer_of s'" "handles ?f = handles s'" "wait_handles ?f = wait_handles s"
      by (simp_all add: timer_of_def handles_def wait_handles_def fun_eq_iff)
    moreover have "timer_inv ?f"
      using s' ok fresh lv calculation unfolding timer_inv_def by auto
    moreover have "armed (rt_calls s) (rt_calls ?f) tid ms high ?h"
      unfolding armed_def by (intro exI[of _ "[Rt_wait_semaphore (hLuaTimerSem s)]"]) (simp add: timer_cb_of_def)
    ultimately show ?thesis using ok s'(5) by (intro exI[of _ ?f] exI[of _ PLATFORM_OK]) auto
  qed
qed

lemma ensure_semaphore_fields [simp]:
  "luaTimerParam (ensure_semaphore env s) = luaTimerParam s"
  "hRTOSWaitMsgTimer (ensure_semaphore env s) = hRTOSWaitMsgTimer s"
  "timer_of (ensure_semaphore env s) = timer_of s"
  "handles (ensure_semaphore env s) = handles s" "wait_handles (ensure_semaphore env s) = wait_handles s"
  "live (rt_calls (ensure_semaphore env s)) = live (rt_calls s)"
  by (simp_all add: ensure_semaphore_def Let_def timer_of_def handles_def wait_handles_def fun_eq_iff)

lemma timer_inv_ensure [simp]: "timer_inv (ensure_semaphore env s) = timer_inv s"
  by (simp add: timer_inv_def)

lemma timer_running_iff:
  assumes "timer_inv s"
  shows "timer_running tid s = Some (timer_of s tid \<noteq> None)"
proof -
  obtain j where j: "timer_search (timer_is tid) (luaTimerParam s) 0 = Some j" "j \<le> MAX_LUA_TIMERS"
    "j < MAX_LUA_TIMERS \<Longrightarrow> timer_is tid (luaTimerParam s ! j)" "\<And>k. k < j \<Longrightarrow> \<not> timer_is tid (luaTimerParam s ! k)"
    using search_inv[OF assms, of "timer_is tid"] by blast
  have "(j < MAX_LUA_TIMERS) = (timer_of s tid \<noteq> None)"
    using j(2-4) timer_inv_len[OF assms] by (auto simp: timer_of_None order_le_less)
  then show ?thesis using j(1) by (simp add: timer_running_def)
qed

lemma stop_timer_law:
  assumes "timer_inv s"
  shows "\<exists>s'. platform_rtos_stop_timer env tid s = Some (s', PLATFORM_OK) \<and> timer_inv s' \<and>
    timer_of s' = (timer_of s)(tid := None)"
  using stop_section_law[of "ensure_semaphore env s" tid] assms by (auto simp: platform_rtos_stop_timer_def)

lemma stop_frees_entry:
  assumes "timer_inv s" and "stop_section tid s = Some s'" and "timer_of s tid \<noteq> None"
  shows "\<exists>t\<in>set (luaTimerParam s'). hOsTimer t = 0"
proof -
  obtain j where j: "timer_search (timer_is tid) (luaTimerParam s) 0 = Some j" "j \<le> MAX_LUA_TIMERS"
    "j < MAX_LUA_TIMERS \<Longrightarrow> timer_is tid (luaTimerParam s ! j)" "\<And>k. k < j \<Longrightarrow> \<not> timer_is tid (luaTimerParam s ! k)"
    using search_inv[OF assms(1), of "timer_is tid"] by blast
  have lt: "j < MAX_LUA_TIMERS"
    using j(2-4) timer_inv_len[OF assms(1)] assms(3) by (auto simp: timer_of_None order_le_less)
  then have "luaTimerParam s' = (luaTimerParam s)[j := (luaTimerParam s ! j)\<lparr>hOsTimer := 0\<rparr>]"
    using assms(2) j(1) timer_inv_len[OF assms(1)]
    by (auto simp: stop_section_def free_entry_def ld_in st_in)
  then show ?thesis using lt timer_inv_len[OF assms(1)]
    by (intro bexI[of _ "(luaTimerParam s ! j)\<lparr>hOsTimer := 0\<rparr>"]) (simp_all add: set_update_memI)
qed

lemma stop_section_calls: "stop_section tid s = Some s' \<Longrightarrow> \<exists>cs. rt_calls s' = rt_calls s @ cs"
  by (auto simp: stop_section_def free_entry_def bind_eq_Some_conv Let_def split: if_splits)

lemma ensure_semaphore_calls: "\<exists>cs. rt_calls (ensure_semaphore env s) = rt_calls s @ cs"
  by (simp add: ensure_semaphore_def Let_def)

lemma start_timer_law:
  assumes "timer_inv s" and "fresh_handles env"
  shows "\<exists>s' r. platform_rtos_start_timer env tid ms high s = Some (s', r) \<and> timer_inv s' \<and>
    (r = PLATFORM_OK \<and> (\<exists>h. h \<noteq> 0 \<and> timer_of s' = (timer_of s)(tid := Some h) \<and> armed (rt_calls s) (rt_calls s') tid ms high h) \<or>
     r = PLATFORM_ERR \<and> timer_of s' = (timer_of s)(tid := None)) \<and>
    (((\<exists>t\<in>set (luaTimerParam s). hOsTimer t = 0) \<or> timer_of s tid \<noteq> None) \<and> grants_timers env \<longrightarrow> r = PLATFORM_OK)"
proof -
  let ?e = "ensure_semaphore env s"
  have ei: "timer_inv ?e" using assms(1) by simp
  note run = timer_running_iff[OF ei, of tid]
  have ens: "armed (rt_calls ?e) l tid ms high h \<Longrightarrow> armed (rt_calls s) l tid ms high h" for l h
    using ensure_semaphore_calls[of env s] armed_later by metis
  show ?thesis
  proof (cases "timer_of s tid = None")
    case True
    then have "timer_of ?e tid = None" by simp
    from start_section_law[OF ei assms(2) this, of ms high] True run ens show ?thesis
      by (simp add: platform_rtos_start_timer_def Let_def fun_upd_idem) blast
  next
    case False
    have ee: "ensure_semaphore env ?e = ?e \<or> True" by simp
    obtain u where u: "stop_section tid (ensure_semaphore env ?e) = Some u" "timer_inv u"
        "timer_of u = (timer_of s)(tid := None)"
      using stop_section_law[of "ensure_semaphore env ?e" tid] ei by auto
    have free: "\<exists>t\<in>set (luaTimerParam u). hOsTimer t = 0"
      by (rule stop_frees_entry[OF _ u(1)]) (use ei False in auto)
    have "timer_of u tid = None" by (simp add: u(3))
    note started = start_section_law[OF u(2) assms(2) this, of ms high]
    obtain cs where "rt_calls u = rt_calls s @ cs"
      using stop_section_calls[OF u(1)] ensure_semaphore_calls[of env ?e] ensure_semaphore_calls[of env s] by auto
    then have "armed (rt_calls u) l tid ms high h \<Longrightarrow> armed (rt_calls s) l tid ms high h" for l h
      using armed_later by simp
    then show ?thesis using started run u False free
      by (simp add: platform_rtos_start_timer_def platform_rtos_stop_timer_def Let_def) blast
  qed
qed

section \<open>Tasks interleaved\<close>

text \<open>
  The Lua task runs one operation at a time and the kernel may run timer callbacks between its
  sections: \<open>pc\<close> says what the Lua task does next, \<open>pending\<close> are the handles of the callbacks
  that have sent their message and wait for the semaphore. The kernel may call back with any
  handle but 0.
\<close>

datatype lua_pc = Lua_idle | Lua_stop int | Lua_restart int int bool | Lua_start int int bool

record timer_sys =
  rts :: rtos_st
  pc :: lua_pc
  pending :: "u32 list"

inductive timer_step :: "rtos_env \<Rightarrow> timer_sys \<Rightarrow> timer_sys \<Rightarrow> bool" for env where
  start_call: "timer_running tid (ensure_semaphore env s) = Some run \<Longrightarrow>
    timer_step env \<lparr>rts = s, pc = Lua_idle, pending = p\<rparr>
      \<lparr>rts = ensure_semaphore env s, pc = if run then Lua_restart tid ms high else Lua_start tid ms high, pending = p\<rparr>"
| restart: "stop_section tid (ensure_semaphore env s) = Some s' \<Longrightarrow>
    timer_step env \<lparr>rts = s, pc = Lua_restart tid ms high, pending = p\<rparr> \<lparr>rts = s', pc = Lua_start tid ms high, pending = p\<rparr>"
| start: "start_section env tid ms high s = Some (s', r) \<Longrightarrow>
    timer_step env \<lparr>rts = s, pc = Lua_start tid ms high, pending = p\<rparr> \<lparr>rts = s', pc = Lua_idle, pending = p\<rparr>"
| stop_call: "timer_step env \<lparr>rts = s, pc = Lua_idle, pending = p\<rparr> \<lparr>rts = ensure_semaphore env s, pc = Lua_stop tid, pending = p\<rparr>"
| stop: "stop_section tid s = Some s' \<Longrightarrow>
    timer_step env \<lparr>rts = s, pc = Lua_stop tid, pending = p\<rparr> \<lparr>rts = s', pc = Lua_idle, pending = p\<rparr>"
| receive: "l_rtos_receive env timeout s = Some (s', v) \<Longrightarrow>
    timer_step env \<lparr>rts = s, pc = Lua_idle, pending = p\<rparr> \<lparr>rts = s', pc = Lua_idle, pending = p\<rparr>"
| fires: "h \<noteq> 0 \<Longrightarrow> timer_step env \<lparr>rts = s, pc = c, pending = p\<rparr>
      \<lparr>rts = platform_rtos_send (RTOS_MSG_TIMER tid) s, pc = c, pending = h # p\<rparr>"
| fires_high: "h \<noteq> 0 \<Longrightarrow> timer_step env \<lparr>rts = s, pc = c, pending = p\<rparr>
      \<lparr>rts = platform_rtos_send_high_priority (RTOS_MSG_TIMER tid) s, pc = c, pending = h # p\<rparr>"
| callback: "h \<in> set p \<Longrightarrow> callback_section h s = Some s' \<Longrightarrow>
    timer_step env \<lparr>rts = s, pc = c, pending = p\<rparr> \<lparr>rts = s', pc = c, pending = remove1 h p\<rparr>"

inductive timer_reach :: "rtos_env \<Rightarrow> timer_sys \<Rightarrow> bool" for env where
  init: "timer_reach env \<lparr>rts = fst (platform_rtos_init env init_rtos), pc = Lua_idle, pending = []\<rparr>"
| step: "timer_reach env y \<Longrightarrow> timer_step env y z \<Longrightarrow> timer_reach env z"

definition sys_inv :: "timer_sys \<Rightarrow> bool" where
  "sys_inv y \<longleftrightarrow> timer_inv (rts y) \<and> 0 \<notin> set (pending y) \<and>
     (case pc y of Lua_start tid ms high \<Rightarrow> timer_of (rts y) tid = None | _ \<Rightarrow> True)"

lemma receive_inv:
  assumes "timer_inv s" and "l_rtos_receive env t s = Some (s', v)"
  shows "timer_inv s'"
proof -
  have p: "timer_inv (if firstRecv s then platform_poweron_try (s\<lparr>firstRecv := False\<rparr>) else s)"
    using assms(1) by (auto simp: timer_inv_def platform_poweron_try_def handles_def wait_handles_def)
  show ?thesis using assms(2) p
    by (auto simp: l_rtos_receive_def platform_rtos_receive_def Let_def PLATFORM_OK_def PLATFORM_ERR_def
        split: prod.splits option.splits if_splits intro!: timer_inv_call)
qed

lemma sys_inv_init:
  assumes "fresh_handles env"
  shows "sys_inv \<lparr>rts = fst (platform_rtos_init env init_rtos), pc = Lua_idle, pending = []\<rparr>"
  using assms by (auto simp: sys_inv_def timer_inv_def platform_rtos_init_def init_rtos_def Let_def handles_def
      wait_handles_def one_entry_def live_def)

lemma sys_inv_step:
  assumes "timer_step env y z" and "fresh_handles env" and "sys_inv y"
  shows "sys_inv z"
  using assms(1,3)
proof (induction rule: timer_step.induct)
  case (start_call tid s run p ms high)
  then show ?case using timer_running_iff[of "ensure_semaphore env s" tid] by (auto simp: sys_inv_def)
next
  case (restart tid s s' ms high p)
  then show ?case using stop_section_law[of "ensure_semaphore env s" tid] by (auto simp: sys_inv_def)
next
  case (start tid ms high s s' r p)
  then show ?case using start_section_law[of s env tid ms high] assms(2) by (auto simp: sys_inv_def)
next
  case (stop tid s s' p)
  then show ?case using stop_section_law[of s tid] by (auto simp: sys_inv_def)
next
  case (receive timeout s s' v p)
  then show ?case using receive_inv by (auto simp: sys_inv_def)
next
  case (callback h p s s' c)
  then have "h \<noteq> 0" "timer_inv s" by (auto simp: sys_inv_def)
  moreover have "set (remove1 h p) \<subseteq> set p" by (rule set_remove1_subset)
  ultimately show ?case using callback callback_section_law[of s h] by (auto simp: sys_inv_def split: lua_pc.splits)
qed (auto simp: sys_inv_def platform_rtos_send_def platform_rtos_send_high_priority_def intro!: timer_inv_call split: lua_pc.splits)

lemma sys_reach_inv:
  assumes "timer_reach env y" and "fresh_handles env"
  shows "sys_inv y"
  using assms(1) by (induction rule: timer_reach.induct) (auto intro: sys_inv_init sys_inv_step assms(2))

lemma callback_section_calls:
  assumes "callback_section h s = Some s'"
  shows "\<exists>cs. rt_calls s' = rt_calls s @ cs"
  using assms by (auto simp: callback_section_def free_entry_def bind_eq_Some_conv Let_def split: if_splits)

lemma callback_section_deletes:
  assumes "timer_inv s" and "h \<noteq> 0" and "timer_of s tid = Some h" and "callback_section h s = Some s'"
  shows "rt_calls s' = rt_calls s @ [Rt_wait_semaphore (hLuaTimerSem s), Rt_delete_timer h, Rt_release_semaphore (hLuaTimerSem s)]"
proof -
  obtain j where j: "timer_search (\<lambda>t. hOsTimer t = h) (luaTimerParam s) 0 = Some j" "j \<le> MAX_LUA_TIMERS"
    "j < MAX_LUA_TIMERS \<Longrightarrow> hOsTimer (luaTimerParam s ! j) = h" "\<And>k. k < j \<Longrightarrow> hOsTimer (luaTimerParam s ! k) \<noteq> h"
    using search_inv[OF assms(1), of "\<lambda>t. hOsTimer t = h"] by blast
  obtain t where "t \<in> set (luaTimerParam s)" "hOsTimer t = h"
    using assms(3) by (auto simp: timer_of_def find_Some_iff in_set_conv_nth)
  then have "j < MAX_LUA_TIMERS" using j(2,4) timer_inv_len[OF assms(1)] by (metis in_set_conv_nth le_neq_implies_less)
  then show ?thesis using assms(4) j timer_inv_len[OF assms(1)]
    by (auto simp: callback_section_def free_entry_def ld_in st_in)
qed

text \<open>What the kernel runs when a timer expires: the callback it was created with.\<close>

fun kernel_runs :: "timer_cb \<Rightarrow> u32 \<Rightarrow> rtos_st \<Rightarrow> rtos_st option" where
  "kernel_runs (Rtos_timer_callback tid) h s = platform_rtos_timer_callback h tid s"
| "kernel_runs (Rtos_timer_high_priority_callback tid) h s = platform_rtos_timer_high_priority_callback h tid s"
| "kernel_runs Rtos_wait_message_timeout h s = Some (rtos_wait_message_timeout s)"

lemma timer_of_send [simp]: "timer_of (platform_rtos_send m s) = timer_of s"
  by (simp add: platform_rtos_send_def)

section \<open>Properties\<close>

text \<open>A kernel with two timer handles, for the witnesses.\<close>

definition sample_env :: rtos_env where
  "sample_env = \<lparr>create_timer = (\<lambda>log. case find (\<lambda>h. h \<notin> live log) (map of_nat [1..<60]) of Some h \<Rightarrow> h | None \<Rightarrow> 0),
     start_timer = (\<lambda>log. True), create_semaphore = (\<lambda>log. 9),
     wait_message = (\<lambda>log. (True, Some (RTOS_MSG_TIMER 7))), poweron_cause_of = (\<lambda>log. Poweron_other 0),
     dir_answer = (\<lambda>log. 0)\<rparr>"

lemma sample_handle_nonzero: "h \<in> set (map of_nat [1..<60]) \<Longrightarrow> h \<noteq> (0 :: u32)"
  by (auto simp: word_unat_eq_iff)

lemma sample_env_fresh: "fresh_handles sample_env"
  by (auto simp: fresh_handles_def sample_env_def find_Some_iff split: option.splits)

lemma find_mem: "find P xs = Some x \<Longrightarrow> x \<in> set xs"
  by (induction xs) (auto split: if_splits)

lemma sample_env_grants: "grants_timers sample_env"
  unfolding grants_timers_def
proof (intro allI impI)
  fix log
  assume c: "card (live log) \<le> MAX_LUA_TIMERS + 1"
  let ?hs = "map of_nat [1..<60] :: u32 list"
  have d: "inj_on (of_nat :: nat \<Rightarrow> u32) {1..<60}"
    by (auto simp: inj_on_def word_unat_eq_iff)
  have "card (set ?hs) = 59" using card_image[OF d] by simp
  moreover have "finite (live log)" by simp
  ultimately have "\<not> set ?hs \<subseteq> live log" using card_mono[of "live log" "set ?hs"] c by (auto simp: MAX_LUA_TIMERS_def)
  then obtain h where "find (\<lambda>h. h \<notin> live log) ?hs = Some h"
    by (cases "find (\<lambda>h. h \<notin> live log) ?hs") (auto simp: find_None_iff)
  moreover from this have "h \<in> set ?hs" by (rule find_mem)
  then have "h \<noteq> 0" by (rule sample_handle_nonzero)
  ultimately show "create_timer sample_env log \<noteq> 0 \<and> start_timer sample_env log" by (simp add: sample_env_def)
qed

definition sample_rtos :: rtos_st where
  "sample_rtos = fst (platform_rtos_init sample_env init_rtos)"

lemma sample_reach: "timer_reach sample_env \<lparr>rts = sample_rtos, pc = Lua_idle, pending = []\<rparr>"
  unfolding sample_rtos_def by (rule timer_reach.init)

lemma sample_table: "luaTimerParam sample_rtos = replicate MAX_LUA_TIMERS \<lparr>hOsTimer = 0, luaTimerId = 0\<rparr>"
  by (simp add: sample_rtos_def platform_rtos_init_def init_rtos_def Let_def)

lemma sample_free: "\<exists>t\<in>set (luaTimerParam sample_rtos). hOsTimer t = 0"
  by (simp add: sample_table MAX_LUA_TIMERS_def)

lemma sample_idle: "timer_of sample_rtos tid = None"
  by (simp add: timer_of_None timer_is_def sample_table)

lemma sample_started: "\<exists>y. timer_reach sample_env y \<and> timer_of (rts y) 7 \<noteq> None"
proof -
  let ?e = "ensure_semaphore sample_env sample_rtos"
  have inv: "timer_inv ?e" using sys_reach_inv[OF sample_reach sample_env_fresh] by (simp add: sys_inv_def)
  have run: "timer_running 7 ?e = Some False" using timer_running_iff[OF inv] sample_idle by simp
  have r1: "timer_reach sample_env \<lparr>rts = ?e, pc = Lua_start 7 100 False, pending = []\<rparr>"
    using timer_reach.step[OF sample_reach timer_step.start_call[OF run]] by simp
  have "timer_of ?e 7 = None" by (simp add: sample_idle)
  from start_section_law[OF inv sample_env_fresh this, of 100 False] sample_free sample_env_grants
  obtain s' where s': "start_section sample_env 7 100 False ?e = Some (s', PLATFORM_OK)" "timer_of s' 7 \<noteq> None"
    by (auto simp: PLATFORM_OK_def PLATFORM_ERR_def)
  show ?thesis using timer_reach.step[OF r1 timer_step.start[OF s'(1)]] s'(2) by fastforce
qed

text \<open>
  C25. The timer table is exact. Whatever the Lua task does, and however the kernel runs timer callbacks
  between its sections, the table has its 40 entries, no two running entries share a Lua
  timer number or a kernel handle, and the kernel timers created and not deleted are
  those of the table and the timer of \<^verbatim>\<open>rtos.receive\<close>: no kernel timer is lost.
\<close>

theorem timer_table_exact:
  assumes "fresh_handles env" and "timer_reach env y"
  shows "length (luaTimerParam (rts y)) = MAX_LUA_TIMERS \<and> one_entry (luaTimerParam (rts y)) \<and>
    live (rt_calls (rts y)) = handles (rts y) \<union> wait_handles (rts y) \<and> handles (rts y) \<inter> wait_handles (rts y) = {}"
  using sys_reach_inv[OF assms(2,1)] by (simp add: sys_inv_def timer_inv_def)

theorem timer_table_exact_witness:
  "\<exists>y :: timer_sys. timer_of (rts y) 7 \<noteq> None \<and> live (rt_calls (rts y)) = handles (rts y) \<union> wait_handles (rts y)"
proof -
  obtain y where y: "timer_reach sample_env y" "timer_of (rts y) 7 \<noteq> None" using sample_started by blast
  show ?thesis using timer_table_exact[OF sample_env_fresh y(1)] y(2) by (intro exI[of _ y]) simp
qed

text \<open>
  C26. Between operations of the Lua task the timers are a map from Lua timer numbers to kernel
  timers. Stopping a timer removes its number. Starting one puts a kernel timer under its number, created with the
  callback for this number and started with its time, replacing the one that ran there, and removes the number when it fails. A callback removes
  the timer it is for. No operation fails to return or changes the other timers.
\<close>

theorem timer_operations_refine_map:
  assumes "fresh_handles env" and "timer_reach env \<lparr>rts = s, pc = Lua_idle, pending = p\<rparr>" and "h \<noteq> 0"
  shows "(\<exists>s'. platform_rtos_stop_timer env tid s = Some (s', PLATFORM_OK) \<and> timer_of s' = (timer_of s)(tid := None)) \<and>
    (\<exists>s' r. platform_rtos_start_timer env tid ms high s = Some (s', r) \<and>
      (r = PLATFORM_OK \<and> (\<exists>k. k \<noteq> 0 \<and> timer_of s' = (timer_of s)(tid := Some k) \<and> armed (rt_calls s) (rt_calls s') tid ms high k) \<or>
       r = PLATFORM_ERR \<and> timer_of s' = (timer_of s)(tid := None))) \<and>
    (\<exists>s'. platform_rtos_timer_callback h tid s = Some s' \<and>
      timer_of s' = (\<lambda>x. if timer_of s x = Some h then None else timer_of s x))"
proof (intro conjI)
  have inv: "timer_inv s" using sys_reach_inv[OF assms(2,1)] by (simp add: sys_inv_def)
  show "\<exists>s'. platform_rtos_stop_timer env tid s = Some (s', PLATFORM_OK) \<and> timer_of s' = (timer_of s)(tid := None)"
    using stop_timer_law[OF inv] by blast
  show "\<exists>s' r. platform_rtos_start_timer env tid ms high s = Some (s', r) \<and>
      (r = PLATFORM_OK \<and> (\<exists>k. k \<noteq> 0 \<and> timer_of s' = (timer_of s)(tid := Some k) \<and> armed (rt_calls s) (rt_calls s') tid ms high k) \<or>
       r = PLATFORM_ERR \<and> timer_of s' = (timer_of s)(tid := None))"
    using start_timer_law[OF inv assms(1), of tid ms high] by (elim exE conjE) (intro exI conjI)
  have "timer_inv (platform_rtos_send (RTOS_MSG_TIMER tid) s)"
    by (simp add: platform_rtos_send_def timer_inv_call[OF inv])
  from callback_section_law[OF this assms(3)]
  show "\<exists>s'. platform_rtos_timer_callback h tid s = Some s' \<and>
      timer_of s' = (\<lambda>x. if timer_of s x = Some h then None else timer_of s x)"
    by (auto simp: platform_rtos_timer_callback_def cong: if_cong)
qed

theorem timer_operations_refine_map_witness:
  "\<exists>s'. platform_rtos_stop_timer sample_env 7 sample_rtos = Some (s', PLATFORM_OK) \<and> timer_of s' 7 = None"
  using timer_operations_refine_map[OF sample_env_fresh sample_reach, of 1 7 100 False] by auto

text \<open>
  C27. A timer that is started runs, expires and reaches Lua. If the table has a free entry or
  the timer already runs, and the kernel grants a timer, then starting it succeeds, and its last calls create a
  kernel timer with some callback and start it with the time asked for. When the kernel runs this callback, it sends the
  timer message, with the priority asked for, deletes the kernel timer and frees the entry; and the
  \<^verbatim>\<open>rtos.receive\<close> that gets this message returns \<^verbatim>\<open>MSG_TIMER\<close> and the timer number to Lua.
\<close>

theorem started_timer_reaches_lua:
  assumes "fresh_handles env" and "timer_reach env \<lparr>rts = s, pc = Lua_idle, pending = p\<rparr>"
    and "(\<exists>t\<in>set (luaTimerParam s). hOsTimer t = 0) \<or> timer_of s tid \<noteq> None"
    and "grants_timers env"
  shows "\<exists>s1 cs cb h sem s2. platform_rtos_start_timer env tid ms high s = Some (s1, PLATFORM_OK) \<and>
    rt_calls s1 = rt_calls s @ cs @ [Rt_create_timer cb h, Rt_start_timer h ms, Rt_release_semaphore sem] \<and>
    timer_of s1 tid = Some h \<and> kernel_runs cb h s1 = Some s2 \<and> timer_of s2 tid = None \<and>
    rt_calls s2 = rt_calls s1 @ [if high then Rt_send_high (RTOS_MSG_TIMER tid) else Rt_send (RTOS_MSG_TIMER tid),
      Rt_wait_semaphore (hLuaTimerSem s1), Rt_delete_timer h, Rt_release_semaphore (hLuaTimerSem s1)] \<and>
    ((\<forall>log. wait_message env log = (True, Some (RTOS_MSG_TIMER tid))) \<longrightarrow>
      (\<exists>s3. l_rtos_receive env timeout s2 = Some (s3, Lua_return [Lua_integer 1, Lua_integer tid])))"
proof -
  have inv: "timer_inv s" using sys_reach_inv[OF assms(2,1)] by (simp add: sys_inv_def)
  obtain s1 r where s1: "platform_rtos_start_timer env tid ms high s = Some (s1, r)" "timer_inv s1" "r = PLATFORM_OK"
      and "r = PLATFORM_OK \<and> (\<exists>h. h \<noteq> 0 \<and> timer_of s1 = (timer_of s)(tid := Some h) \<and> armed (rt_calls s) (rt_calls s1) tid ms high h) \<or>
       r = PLATFORM_ERR \<and> timer_of s1 = (timer_of s)(tid := None)"
    using start_timer_law[OF inv assms(1), of tid ms high] assms(3,4) by blast
  then obtain h where h: "h \<noteq> 0" "timer_of s1 tid = Some h" "armed (rt_calls s) (rt_calls s1) tid ms high h"
    by (auto simp: PLATFORM_OK_def PLATFORM_ERR_def)
  let ?m = "if high then Rt_send_high (RTOS_MSG_TIMER tid) else Rt_send (RTOS_MSG_TIMER tid)"
  let ?cb = "if high then Rtos_timer_high_priority_callback tid else Rtos_timer_callback tid"
  have i: "timer_inv (call ?m s1)" by (auto intro: timer_inv_call[OF s1(2)])
  from callback_section_law[OF i h(1)] obtain s2 where s2: "callback_section h (call ?m s1) = Some s2"
      "timer_of s2 = (\<lambda>x. if timer_of s1 x = Some h then None else timer_of s1 x)" by (auto cong: if_cong)
  have log: "rt_calls s2 = rt_calls s1 @ [?m, Rt_wait_semaphore (hLuaTimerSem s1), Rt_delete_timer h, Rt_release_semaphore (hLuaTimerSem s1)]"
    using callback_section_deletes[OF i h(1) _ s2(1), of tid] h(2) by simp
  have run: "kernel_runs ?cb h s1 = Some s2"
    using s2(1) by (simp add: platform_rtos_timer_callback_def platform_rtos_timer_high_priority_callback_def
        platform_rtos_send_def platform_rtos_send_high_priority_def split: if_splits)
  have rcv: "\<exists>s3. l_rtos_receive env timeout s2 = Some (s3, Lua_return [Lua_integer 1, Lua_integer tid])"
    if "\<forall>log. wait_message env log = (True, Some (RTOS_MSG_TIMER tid))"
    using that by (simp add: l_rtos_receive_def platform_rtos_receive_def Let_def)
  obtain cs sem where "rt_calls s1 = rt_calls s @ cs @ [Rt_create_timer ?cb h, Rt_start_timer h ms, Rt_release_semaphore sem]"
    using h(3) by (auto simp: armed_def)
  then show ?thesis using s1(1,3) h(2) s2(2) run log rcv
    by (intro exI[of _ s1] exI[of _ cs] exI[of _ ?cb] exI[of _ h] exI[of _ sem] exI[of _ s2]) simp
qed

theorem started_timer_reaches_lua_witness:
  "\<exists>s1 cs cb h sem s2 s3. platform_rtos_start_timer sample_env 7 100 False sample_rtos = Some (s1, PLATFORM_OK) \<and>
     rt_calls s1 = rt_calls sample_rtos @ cs @ [Rt_create_timer cb h, Rt_start_timer h 100, Rt_release_semaphore sem] \<and>
     kernel_runs cb h s1 = Some s2 \<and> l_rtos_receive sample_env 0 s2 = Some (s3, Lua_return [Lua_integer 1, Lua_integer 7])"
proof -
  have "\<forall>log. wait_message sample_env log = (True, Some (RTOS_MSG_TIMER 7))" by (simp add: sample_env_def)
  then show ?thesis
    using started_timer_reaches_lua[OF sample_env_fresh sample_reach, of 7 100 False 0] sample_free sample_env_grants by blast
qed

text \<open>
  A callback that is still waiting for the semaphore when its timer is stopped frees whatever
  timer has been given the handle since: that timer is taken out of the table, and its own
  callback has not run.
\<close>

theorem stale_callback_frees_new_timer:
  assumes "fresh_handles env" and "timer_reach env \<lparr>rts = s, pc = Lua_idle, pending = h # p\<rparr>"
    and "platform_rtos_start_timer env tid ms high s = Some (s', PLATFORM_OK)" and "timer_of s' tid = Some h"
  shows "\<exists>s''. callback_section h s' = Some s'' \<and> timer_of s'' tid = None"
proof -
  have inv: "timer_inv s" "h \<noteq> 0" using sys_reach_inv[OF assms(2,1)] by (auto simp: sys_inv_def)
  have "timer_inv s'" using start_timer_law[OF inv(1) assms(1), of tid ms high] assms(3) by auto
  from callback_section_law[OF this inv(2)] show ?thesis using assms(4) by auto
qed

lemma dir_allowed_iff: "dir_allowed p \<longleftrightarrow> p \<noteq> [] \<and> trimmed p \<notin> set sysDir"
proof -
  have "(take (length d) q = d \<and> length d = length q) = (d = q)" for d q :: string
    by (metis order_refl take_all)
  then show ?thesis by (simp add: dir_allowed_def list_ex_iff)
qed

text \<open>
  The system directories cannot be created or removed from Lua. A path that is one of them,
  with or without one \<^verbatim>\<open>/\<close> behind it, is refused without a call to the kernel; any other non-empty
  path reaches the kernel, up to its first zero byte and without that \<^verbatim>\<open>/\<close>, and Lua gets whether the kernel answered 0.
\<close>

theorem system_dirs_protected:
  "l_make_dir env p s =
      (if p = [] \<or> trimmed p \<in> set sysDir then (s, False) else (call (Rt_make_dir (c_path p)) s, dir_answer env (rt_calls s) = 0)) \<and>
    l_remove_dir env p s =
      (if p = [] \<or> trimmed p \<in> set sysDir then (s, False) else (call (Rt_remove_dir (c_path p)) s, dir_answer env (rt_calls s) = 0))"
  by (simp_all add: l_make_dir_def l_remove_dir_def platform_make_dir_def platform_remove_dir_def dir_allowed_iff)

text \<open>With two of them the protection fails: the kernel is asked to remove \<^verbatim>\<open>/lua/\<close>.\<close>

theorem system_dir_double_slash:
  "l_remove_dir env ''/lua//'' s = (call (Rt_remove_dir ''/lua/'') s, dir_answer env (rt_calls s) = 0)"
  by (simp add: l_remove_dir_def platform_remove_dir_def dir_allowed_iff trimmed_def sysDir_def c_path_def)

end
