(* ===== verification/Sensor.thy ===== *)
theory Sensor
  imports I2c
begin

text \<open>
  What the two sensor drivers share: a state with the slave addresses of the I2C layer, the calls
  made so far and the number of reads, and the single-register transfers over it. The answer to
  the n-th read is the environment's, a function of the register addressed and the number of bytes asked
  for, as is what a local buffer holds before it is filled.
\<close>

section \<open>State\<close>

datatype sensor_call = Bus i2c_call | Sensor_sleep u32

record sensor_st =
  slave_addrs :: "u16 list"
  sensor_calls :: "sensor_call list"
  reads :: nat

record sensor_env =
  answer :: "nat \<Rightarrow> u8 \<Rightarrow> u32 \<Rightarrow> u8 list"
  stack :: "nat \<Rightarrow> u8"

definition stack_buf :: "sensor_env \<Rightarrow> nat \<Rightarrow> u8 list" where
  "stack_buf e n = map (stack e) [0..<n]"

definition sensor_out :: "sensor_call list \<Rightarrow> 'a sensor_st_scheme \<Rightarrow> 'a sensor_st_scheme" where
  "sensor_out cs s = s\<lparr>sensor_calls := sensor_calls s @ cs\<rparr>"

definition sensor_sleep :: "u32 \<Rightarrow> 'a sensor_st_scheme \<Rightarrow> 'a sensor_st_scheme" where
  "sensor_sleep ms s = sensor_out [Sensor_sleep ms] s"

section \<open>Transfers\<close>

definition sensor_setup :: "u8 \<Rightarrow> u16 \<Rightarrow> 'a sensor_st_scheme \<Rightarrow> 'a sensor_st_scheme option" where
  "sensor_setup bus slave s = do {
     (c, addrs) \<leftarrow> platform_i2c_setup (ucast bus) PLATFORM_I2C_SPEED_FAST slave (slave_addrs s);
     Some (sensor_out [Bus c] (s\<lparr>slave_addrs := addrs\<rparr>))
   }"

definition sensor_close :: "u8 \<Rightarrow> 'a sensor_st_scheme \<Rightarrow> 'a sensor_st_scheme option" where
  "sensor_close bus s = map_option (\<lambda>c. sensor_out [Bus c] s) (platform_i2c_close (ucast bus))"

definition sensor_write :: "u8 \<Rightarrow> u8 \<Rightarrow> u8 \<Rightarrow> 'a sensor_st_scheme \<Rightarrow> 'a sensor_st_scheme option" where
  "sensor_write bus reg dat s = do {
     cs \<leftarrow> platform_i2c_send_data (ucast bus) I2C_NULL_SLAVE_ADDR (Some reg) [dat] (slave_addrs s);
     Some (sensor_out (map Bus cs) s)
   }"

text \<open>The driver stores its answer at the start of the buffer; more bytes than the buffer has leave it.\<close>

definition sensor_read ::
  "sensor_env \<Rightarrow> u8 \<Rightarrow> u8 \<Rightarrow> u32 \<Rightarrow> u8 list \<Rightarrow> 'a sensor_st_scheme \<Rightarrow> (u8 list \<times> 'a sensor_st_scheme) option" where
  "sensor_read e bus reg n buf s = do {
     cs \<leftarrow> platform_i2c_recv_data (ucast bus) I2C_NULL_SLAVE_ADDR (Some reg) n (slave_addrs s);
     (if cs = [] then Some (buf, s)
      else do {
        buf \<leftarrow> fill buf (answer e (reads s) reg n);
        Some (buf, sensor_out (map Bus cs) (s\<lparr>reads := Suc (reads s)\<rparr>))
      })
   }"

definition sensor_read_byte :: "sensor_env \<Rightarrow> u8 \<Rightarrow> u8 \<Rightarrow> 'a sensor_st_scheme \<Rightarrow> (u8 \<times> 'a sensor_st_scheme) option" where
  "sensor_read_byte e bus reg s = do {
     (buf, s) \<leftarrow> sensor_read e bus reg 1 (stack_buf e 1) s;
     b \<leftarrow> ld buf 0;
     Some (b, s)
   }"

section \<open>A bus that has been set up\<close>

text \<open>The bus exists and has a slave address, so every transfer reaches the driver.\<close>

definition bus_ready :: "u8 \<Rightarrow> u16 \<Rightarrow> 'a sensor_st_scheme \<Rightarrow> bool" where
  "bus_ready bus a s \<longleftrightarrow> unat bus < 3 \<and> length (slave_addrs s) = 3 \<and> slave_addrs s ! unat bus = a \<and> a \<noteq> I2C_NULL_SLAVE_ADDR"

lemma sensor_out_simps [simp]:
  "slave_addrs (sensor_out cs s) = slave_addrs s" "reads (sensor_out cs s) = reads s"
  "sensor_calls (sensor_out cs s) = sensor_calls s @ cs"
  "sensor_out ds (sensor_out cs s) = sensor_out (cs @ ds) s" "sensor_out [] s = s"
  "bus_ready bus a (sensor_out cs s) = bus_ready bus a s"
  "bus_ready bus a (s\<lparr>reads := n\<rparr>) = bus_ready bus a s"
  by (simp_all add: sensor_out_def bus_ready_def)

lemma unat_bus [simp]: "unat (ucast (bus :: u8) :: u32) = unat bus"
  by (simp add: unsigned_ucast_eq take_bit_nat_eq_self unsigned_less[THEN less_le_trans])

definition write_frame :: "u8 \<Rightarrow> u16 \<Rightarrow> u8 \<times> u8 \<Rightarrow> sensor_call" where
  "write_frame bus a = (\<lambda>(reg, dat). Bus (Write_i2c (unat bus) a (Some reg) [dat]))"

definition read_frame :: "u8 \<Rightarrow> u16 \<Rightarrow> u8 \<Rightarrow> u32 \<Rightarrow> sensor_call" where
  "read_frame bus a reg n = Bus (Read_i2c (unat bus) a (Some reg) n)"

lemma sensor_write_ready:
  "bus_ready bus a s \<Longrightarrow> sensor_write bus reg dat s = Some (sensor_out [write_frame bus a (reg, dat)] s)"
  unfolding bus_ready_def
  by (simp add: sensor_write_def write_frame_def send_preset)

lemma sensor_read_ready:
  assumes "bus_ready bus a s" and "length (answer e (reads s) reg n) \<le> length buf"
  shows "sensor_read e bus reg n buf s =
    Some (answer e (reads s) reg n @ drop (length (answer e (reads s) reg n)) buf,
      sensor_out [read_frame bus a reg n] (s\<lparr>reads := Suc (reads s)\<rparr>))"
  using assms unfolding bus_ready_def
  by (simp add: sensor_read_def read_frame_def send_preset fill_in)

lemma sensor_setup_ready:
  assumes "unat bus < 3" and "length (slave_addrs s) = 3" and "slave \<noteq> I2C_NULL_SLAVE_ADDR"
  shows "\<exists>t. sensor_setup bus slave s = Some (sensor_out [Bus (Open_i2c (unat bus) PLATFORM_I2C_SPEED_FAST)] t) \<and>
    bus_ready bus slave t \<and> t = s\<lparr>slave_addrs := (slave_addrs s)[unat bus := slave]\<rparr>"
  using assms by (simp add: sensor_setup_def platform_i2c_setup_def st_in i2c_port bus_ready_def)

lemma sensor_close_ready:
  "bus_ready bus a s \<Longrightarrow> sensor_close bus s = Some (sensor_out [Bus (Close_i2c (unat bus))] s)"
  by (simp add: bus_ready_def sensor_close_def platform_i2c_close_def i2c_port)

text \<open>Registers written one after the other.\<close>

fun write_all :: "u8 \<Rightarrow> (u8 \<times> u8) list \<Rightarrow> 'a sensor_st_scheme \<Rightarrow> 'a sensor_st_scheme option" where
  "write_all bus [] s = Some s"
| "write_all bus ((reg, dat) # ws) s = do { s \<leftarrow> sensor_write bus reg dat s; write_all bus ws s }"

lemma write_all_ready:
  "bus_ready bus a s \<Longrightarrow> write_all bus ws s = Some (sensor_out (map (write_frame bus a) ws) s)"
  by (induction bus ws s rule: write_all.induct) (simp_all add: sensor_write_ready)

end
