(* ===== verification/Ieee.thy ===== *)
theory Ieee
  imports C_Prelude Complex_Main
begin

text \<open>
  The C type \<^verbatim>\<open>double\<close> as its 64 bits (IEEE 754 binary64), with the operations of the C
  language that the sensor drivers use: exact arithmetic on the values followed by rounding to
  nearest, ties to even. Where C leaves the payload of a NaN open, the result is the quiet NaN
  \<open>DBL_NAN\<close>.
\<close>

type_synonym double = "64 word"

section \<open>Fields and classes\<close>

definition d_neg :: "double \<Rightarrow> bool" where
  "d_neg x = bit x 63"

definition d_exp :: "double \<Rightarrow> int" where
  "d_exp x = uint (take_bit 11 (drop_bit 52 x))"

definition d_frac :: "double \<Rightarrow> int" where
  "d_frac x = uint (take_bit 52 x)"

definition d_nan :: "double \<Rightarrow> bool" where
  "d_nan x \<longleftrightarrow> d_exp x = 2047 \<and> d_frac x \<noteq> 0"

definition d_inf :: "double \<Rightarrow> bool" where
  "d_inf x \<longleftrightarrow> d_exp x = 2047 \<and> d_frac x = 0"

definition d_finite :: "double \<Rightarrow> bool" where
  "d_finite x \<longleftrightarrow> d_exp x \<noteq> 2047"

definition d_zero :: "double \<Rightarrow> bool" where
  "d_zero x \<longleftrightarrow> d_exp x = 0 \<and> d_frac x = 0"

text \<open>A finite double has the magnitude \<open>d_mant x * 2 ^ d_unit x\<close>.\<close>

definition d_mant :: "double \<Rightarrow> int" where
  "d_mant x = (if d_exp x = 0 then d_frac x else 2 ^ 52 + d_frac x)"

definition d_unit :: "double \<Rightarrow> int" where
  "d_unit x = (if d_exp x = 0 then -1074 else d_exp x - 1075)"

definition d_val :: "double \<Rightarrow> real" where
  "d_val x = (if d_neg x then -1 else 1) * real_of_int (d_mant x) * 2 powr real_of_int (d_unit x)"

definition DBL_NAN :: double where "DBL_NAN = 0x7FF8000000000000"

definition d_signed :: "bool \<Rightarrow> double \<Rightarrow> double" where
  "d_signed neg x = (if neg then x OR 0x8000000000000000 else x)"

definition DBL_INF :: "bool \<Rightarrow> double" where
  "DBL_INF neg = d_signed neg 0x7FF0000000000000"

definition d_uminus :: "double \<Rightarrow> double" where
  "d_uminus x = x XOR 0x8000000000000000"

section \<open>Rounding\<close>

text \<open>The number of binary digits.\<close>

function int_bits :: "int \<Rightarrow> int" where
  "int_bits n = (if n \<le> 0 then 0 else 1 + int_bits (n div 2))"
  by pat_completeness auto
termination
  by (relation "measure nat") auto

declare int_bits.simps [simp del]

definition pow2_up :: "int \<Rightarrow> int" where "pow2_up e = 2 ^ nat e"
definition pow2_down :: "int \<Rightarrow> int" where "pow2_down e = 2 ^ nat (- e)"

text \<open>
  The double nearest to \<open>p / q\<close>: the unit \<open>2 ^ u\<close> is chosen so that the quotient has 53 bits, or
  is the unit of the denormal numbers.
\<close>

definition d_round :: "bool \<Rightarrow> int \<Rightarrow> int \<Rightarrow> double" where
  "d_round neg p q =
     (if p = 0 then d_signed neg 0
      else
        (let k = int_bits p - int_bits q;
             e = (if p * pow2_down k \<ge> q * pow2_up k then k else k - 1);
             u = max (e - 52) (-1074);
             a = p * pow2_down u;
             b = q * pow2_up u;
             n = a div b;
             r = a mod b;
             n = (if 2 * r > b \<or> 2 * r = b \<and> odd n then n + 1 else n);
             bits = (u + 1074) * 2 ^ 52 + n
         in if bits \<ge> 2047 * 2 ^ 52 then DBL_INF neg else d_signed neg (of_int bits)))"

text \<open>The double nearest to \<open>z * 2 ^ e\<close>.\<close>

definition d_scaled :: "bool \<Rightarrow> int \<Rightarrow> int \<Rightarrow> double" where
  "d_scaled neg z e = d_round (if z = 0 then neg else z < 0) (\<bar>z\<bar> * pow2_up e) (pow2_down e)"

section \<open>Arithmetic\<close>

definition d_int :: "double \<Rightarrow> int" where
  "d_int x = (if d_neg x then - d_mant x else d_mant x)"

definition d_add :: "double \<Rightarrow> double \<Rightarrow> double" where
  "d_add x y =
     (if d_nan x \<or> d_nan y then DBL_NAN
      else if d_inf x then (if d_inf y \<and> d_neg x \<noteq> d_neg y then DBL_NAN else x)
      else if d_inf y then y
      else
        (let e = min (d_unit x) (d_unit y)
         in d_scaled (d_neg x \<and> d_neg y)
              (d_int x * 2 ^ nat (d_unit x - e) + d_int y * 2 ^ nat (d_unit y - e)) e))"

definition d_sub :: "double \<Rightarrow> double \<Rightarrow> double" where
  "d_sub x y = d_add x (d_uminus y)"

definition d_mul :: "double \<Rightarrow> double \<Rightarrow> double" where
  "d_mul x y =
     (let neg = (d_neg x \<noteq> d_neg y) in
      if d_nan x \<or> d_nan y \<or> d_inf x \<and> d_zero y \<or> d_zero x \<and> d_inf y then DBL_NAN
      else if d_inf x \<or> d_inf y then DBL_INF neg
      else d_round neg (d_mant x * d_mant y * pow2_up (d_unit x + d_unit y)) (pow2_down (d_unit x + d_unit y)))"

definition d_div :: "double \<Rightarrow> double \<Rightarrow> double" where
  "d_div x y =
     (let neg = (d_neg x \<noteq> d_neg y) in
      if d_nan x \<or> d_nan y \<or> d_inf x \<and> d_inf y \<or> d_zero x \<and> d_zero y then DBL_NAN
      else if d_inf x \<or> d_zero y then DBL_INF neg
      else if d_inf y then d_signed neg 0
      else d_round neg (d_mant x * pow2_up (d_unit x - d_unit y)) (d_mant y * pow2_down (d_unit x - d_unit y)))"

definition d_of_int :: "int \<Rightarrow> double" where
  "d_of_int z = d_round (z < 0) \<bar>z\<bar> 1"

section \<open>Comparisons and conversion to an integer\<close>

definition d_less :: "double \<Rightarrow> double \<Rightarrow> bool" where
  "d_less x y \<longleftrightarrow> \<not> d_nan x \<and> \<not> d_nan y \<and>
     (if d_inf x then d_neg x \<and> \<not> (d_inf y \<and> d_neg y)
      else if d_inf y then \<not> d_neg y
      else let e = min (d_unit x) (d_unit y)
           in d_int x * 2 ^ nat (d_unit x - e) < d_int y * 2 ^ nat (d_unit y - e))"

definition d_eq :: "double \<Rightarrow> double \<Rightarrow> bool" where
  "d_eq x y \<longleftrightarrow> \<not> d_nan x \<and> \<not> d_nan y \<and> (x = y \<or> d_zero x \<and> d_zero y)"

definition d_le :: "double \<Rightarrow> double \<Rightarrow> bool" where
  "d_le x y \<longleftrightarrow> d_less x y \<or> d_eq x y"

text \<open>The value without its fraction; outside the range of \<^verbatim>\<open>int\<close> the conversion is undefined.\<close>

definition d_to_s32 :: "double \<Rightarrow> int option" where
  "d_to_s32 x =
     (if \<not> d_finite x then None
      else
        (let t = (d_mant x * pow2_up (d_unit x)) div pow2_down (d_unit x);
             z = (if d_neg x then - t else t)
         in if - (2 ^ 31) \<le> z \<and> z < 2 ^ 31 then Some z else None))"

section \<open>The two 32-bit halves\<close>

definition high_word :: "double \<Rightarrow> u32" where "high_word d = ucast (drop_bit 32 d)"
definition low_word :: "double \<Rightarrow> u32" where "low_word d = ucast d"

definition insert_words :: "u32 \<Rightarrow> u32 \<Rightarrow> double" where
  "insert_words hi lo = push_bit 32 (ucast hi) OR ucast lo"

section \<open>Evaluating the rounding\<close>

lemma int_bits_eq: "2 ^ n \<le> p \<Longrightarrow> p < 2 ^ Suc n \<Longrightarrow> int_bits p = int n + 1"
proof (induction n arbitrary: p)
  case 0
  then have "p = 1" by simp
  then show ?case by (simp add: int_bits.simps[of 1] int_bits.simps[of 0])
next
  case (Suc n)
  have "2 ^ n \<le> p div 2" "p div 2 < 2 ^ Suc n" using Suc.prems by (auto simp: zdiv_mono1)
  from Suc.IH[OF this] show ?case using Suc.prems one_le_power[of "2::int" "Suc n"] by (subst int_bits.simps) auto
qed

lemma int_bits_pow2: "int_bits (2 ^ n) = int n + 1"
  by (rule int_bits_eq) simp_all

text \<open>The rounded quotient from its parts, so that no large division has to be carried out.\<close>

lemma d_round_eq:
  assumes "p \<noteq> 0" and "k = int_bits p - int_bits q"
    and "e = (if p * pow2_down k \<ge> q * pow2_up k then k else k - 1)" and "u = max (e - 52) (-1074)"
    and "p * pow2_down u = q * pow2_up u * n + r" and "0 \<le> r" and "r < q * pow2_up u"
    and "n' = (if 2 * r > q * pow2_up u \<or> 2 * r = q * pow2_up u \<and> odd n then n + 1 else n)"
    and "(u + 1074) * 2 ^ 52 + n' < 2047 * 2 ^ 52"
  shows "d_round neg p q = d_signed neg (of_int ((u + 1074) * 2 ^ 52 + n'))"
proof -
  have "p * pow2_down u div (q * pow2_up u) = n" using assms(5-7) by (rule int_div_pos_eq)
  moreover have "p * pow2_down u mod (q * pow2_up u) = r" using assms(5-7) by (rule int_mod_pos_eq)
  moreover have "p = 0 \<longleftrightarrow> False" using assms(1) by simp
  moreover have "2047 * 2 ^ 52 \<le> (u + 1074) * 2 ^ 52 + n' \<longleftrightarrow> False" using assms(9) by simp
  ultimately show ?thesis
    by (simp only: d_round_def Let_def assms(2)[symmetric] assms(3)[symmetric] assms(4)[symmetric] assms(8)[symmetric] if_False)
qed

end
