(* ===== verification/Mpu_math.thy ===== *)
theory Mpu_math
  imports Ieee
begin

text \<open>
  The functions \<^verbatim>\<open>lfabs\<close> and \<^verbatim>\<open>lsqrt\<close> of the motion sensor driver
  \<^verbatim>\<open>modules/src/mpu9250.c\<close>, and the proof that the root is correctly rounded. A double is its
  64 bits; 32-bit variables are words, signed ones are compared with \<open><s\<close> and
  shifted arithmetically. A shift by 32 bits, which C leaves undefined, and a loop that does not
  end are \<open>None\<close>.
\<close>

section \<open>Constants\<close>

definition tiny :: double where "tiny = 0x01A56E1FC2F8F359"
definition one :: double where "one = 0x3FF0000000000000"
definition huge :: double where "huge = 0x7E37E43C8800759C"
definition zero :: double where "zero = 0"
definition half :: double where "half = 0x3FE0000000000000"
definition two :: double where "two = 0x4000000000000000"

definition sign :: u32 where "sign = 0x80000000"

section \<open>lfabs\<close>

definition lfabs :: "double \<Rightarrow> double" where
  "lfabs x = insert_words (high_word x AND 0x7FFFFFFF) (low_word x)"

section \<open>lsqrt\<close>

text \<open>\<^verbatim>\<open>while(ix0==0) {m -= 21; ix0 |= (ix1>>11); ix1 <<= 21;}\<close>\<close>

partial_function (option) sqrt_norm :: "int \<Rightarrow> u32 \<Rightarrow> u32 \<Rightarrow> (int \<times> u32 \<times> u32) option" where
  "sqrt_norm m ix0 ix1 =
     (if ix0 = 0 then sqrt_norm (m - 21) (ix0 OR drop_bit 11 ix1) (push_bit 21 ix1) else Some (m, ix0, ix1))"

text \<open>\<^verbatim>\<open>for(i=0;(ix0&0x00100000)==0;i++) ix0<<=1;\<close>\<close>

partial_function (option) sqrt_norm_bit :: "nat \<Rightarrow> u32 \<Rightarrow> (nat \<times> u32) option" where
  "sqrt_norm_bit i ix0 =
     (if ix0 AND 0x00100000 = 0 then sqrt_norm_bit (i + 1) (push_bit 1 ix0) else Some (i, ix0))"

declare sqrt_norm.simps [code] sqrt_norm_bit.simps [code]

definition sqrt_normalize :: "u32 \<Rightarrow> u32 \<Rightarrow> (int \<times> u32 \<times> u32) option" where
  "sqrt_normalize ix0 ix1 =
     (let m = sint (signed_drop_bit 20 ix0) in
      if m = 0 then do {
        (m, ix0, ix1) \<leftarrow> sqrt_norm m ix0 ix1;
        (i, ix0) \<leftarrow> sqrt_norm_bit 0 ix0;
        (if i = 0 \<or> 32 < i then None
         else Some (m - (int i - 1), ix0 OR drop_bit (32 - i) ix1, push_bit i ix1))
      }
      else Some (m, ix0, ix1))"

text \<open>\<^verbatim>\<open>ix0 += ix0 + ((ix1&sign)>>31); ix1 += ix1;\<close>\<close>

definition dbl_hi :: "u32 \<Rightarrow> u32 \<Rightarrow> u32" where
  "dbl_hi ix0 ix1 = ix0 + (ix0 + drop_bit 31 (ix1 AND sign))"

function sqrt_hi :: "u32 \<Rightarrow> u32 \<times> u32 \<times> u32 \<times> u32 \<Rightarrow> u32 \<times> u32 \<times> u32 \<times> u32" where
  "sqrt_hi r (ix0, ix1, s0, q) =
     (if r \<noteq> 0 then
        (let t = s0 + r;
             (s0, ix0, q) = (if t <=s ix0 then (t + r, ix0 - t, q + r) else (s0, ix0, q))
         in sqrt_hi (drop_bit 1 r) (dbl_hi ix0 ix1, ix1 + ix1, s0, q))
      else (ix0, ix1, s0, q))"
  by pat_completeness auto

lemma unat_shift_right_less: "r \<noteq> 0 \<Longrightarrow> unat (drop_bit (Suc 0) r) < unat (r :: u32)"
proof -
  assume "r \<noteq> 0"
  then have "0 < unat r" by (simp add: unat_gt_0)
  moreover have "unat (drop_bit (Suc 0) r) = unat r div 2"
    by (subst unat_drop_bit_eq) (simp add: drop_bit_Suc)
  ultimately show ?thesis by simp
qed

termination sqrt_hi
  by (relation "measure (\<lambda>(r, x). unat r)") (simp_all add: unat_shift_right_less)

function sqrt_lo :: "u32 \<Rightarrow> u32 \<times> u32 \<times> u32 \<times> u32 \<times> u32 \<Rightarrow> u32 \<times> u32 \<times> u32 \<times> u32 \<times> u32" where
  "sqrt_lo r (ix0, ix1, s0, s1, q1) =
     (if r \<noteq> 0 then
        (let t1 = s1 + r;
             t = s0;
             (s0, s1, ix0, ix1, q1) =
               (if t <s ix0 \<or> t = ix0 \<and> t1 \<le> ix1 then
                  (let s1 = t1 + r;
                       s0 = (if t1 AND sign = sign \<and> s1 AND sign = 0 then s0 + 1 else s0);
                       ix0 = ix0 - t;
                       ix0 = (if ix1 < t1 then ix0 - 1 else ix0)
                   in (s0, s1, ix0, ix1 - t1, q1 + r))
                else (s0, s1, ix0, ix1, q1))
         in sqrt_lo (drop_bit 1 r) (dbl_hi ix0 ix1, ix1 + ix1, s0, s1, q1))
      else (ix0, ix1, s0, s1, q1))"
  by pat_completeness auto

termination sqrt_lo
  by (relation "measure (\<lambda>(r, x). unat r)") (simp_all add: unat_shift_right_less)

declare sqrt_hi.simps [simp del] sqrt_lo.simps [simp del]

text \<open>The last bit, from the remainder.\<close>

definition sqrt_round :: "u32 \<Rightarrow> u32 \<Rightarrow> u32 \<Rightarrow> u32 \<Rightarrow> u32 \<times> u32" where
  "sqrt_round ix0 ix1 q q1 =
     (if ix0 OR ix1 \<noteq> 0 then
        (let z = d_sub one tiny in
         if d_le one z then
           (let z = d_add one tiny in
            if q1 = 0xFFFFFFFF then (q + 1, 0)
            else if d_less one z then ((if q1 = 0xFFFFFFFE then q + 1 else q), q1 + 2)
            else (q, q1 + (q1 AND 1)))
         else (q, q1))
      else (q, q1))"

definition lsqrt :: "double \<Rightarrow> double option" where
  "lsqrt x =
     (let ix0 = high_word x; ix1 = low_word x in
      if ix0 AND 0x7FF00000 = 0x7FF00000 then Some (d_add (d_mul x x) x)
      else if ix0 <=s 0 \<and> (ix0 AND NOT sign) OR ix1 = 0 then Some x
      else if ix0 <s 0 then Some (d_div (d_sub x x) (d_sub x x))
      else do {
        (m, ix0, ix1) \<leftarrow> sqrt_normalize ix0 ix1;
        let m = m - 1023;
        let ix0 = (ix0 AND 0x000FFFFF) OR 0x00100000;
        let (ix0, ix1) = (if odd m then (dbl_hi ix0 ix1, ix1 + ix1) else (ix0, ix1));
        let m = m div 2;
        let (ix0, ix1, s0, q) = sqrt_hi 0x00200000 (dbl_hi ix0 ix1, ix1 + ix1, 0, 0);
        let (ix0, ix1, s0, s1, q1) = sqrt_lo sign (ix0, ix1, s0, 0, 0);
        let (q, q1) = sqrt_round ix0 ix1 q q1;
        let ix0 = drop_bit 1 q + 0x3FE00000;
        let ix1 = (if q AND 1 = 1 then drop_bit 1 q1 OR sign else drop_bit 1 q1);
        Some (insert_words (ix0 + of_int (m * 2 ^ 20)) ix1)
      })"

section \<open>The square root bit by bit, on numbers\<close>

text \<open>
  The reference: one bit of weight \<open>R\<close> is tried in the root \<open>Q\<close>, with \<open>S = 2 Q\<close> and the scaled
  remainder \<open>I\<close>. Both word loops compute it, 22 bits in the high words and 32 in the low ones.
\<close>

fun isqrt_step :: "nat \<Rightarrow> nat \<times> nat \<times> nat \<Rightarrow> nat \<times> nat \<times> nat" where
  "isqrt_step R (I, S, Q) = (if S + R \<le> I then (2 * (I - (S + R)), S + 2 * R, Q + R) else (2 * I, S, Q))"

text \<open>With \<open>n\<close> bits to go, \<open>2 A = 2 Q\<^sup>2 + 2\<^sup>n I\<close>.\<close>

fun isqrt_inv :: "nat \<Rightarrow> nat \<Rightarrow> nat \<times> nat \<times> nat \<Rightarrow> bool" where
  "isqrt_inv A n (I, S, Q) \<longleftrightarrow> S = 2 * Q \<and> 2 ^ n dvd Q \<and> 2 * A = 2 * Q\<^sup>2 + 2 ^ n * I \<and>
     I < 4 * Q + 2 * 2 ^ n \<and> Q + 2 ^ n \<le> 2 ^ 54"

lemma isqrt_inv_step:
  assumes "isqrt_inv A (Suc n) (I, S, Q)"
  shows "isqrt_inv A n (isqrt_step (2 ^ n) (I, S, Q))"
proof -
  define R :: nat where "R = 2 ^ n"
  have a: "S = 2 * Q" "2 * R dvd Q" "2 * A = 2 * Q\<^sup>2 + 2 * R * I" "I < 4 * Q + 4 * R" "Q + 2 * R \<le> 2 ^ 54"
    using assms by (simp_all add: R_def)
  have d: "R dvd Q" using a(2) by (meson dvd_mult_right)
  show ?thesis
  proof (cases "S + R \<le> I")
    case True
    then obtain J where J: "I = S + R + J" by (auto simp: le_iff_add)
    have "2 * A = 2 * (Q + R)\<^sup>2 + R * (2 * J)"
      unfolding a(3) J a(1) by (simp add: power2_eq_square algebra_simps)
    moreover have "2 * J < 4 * (Q + R) + 2 * R" using a(4) J a(1) by simp
    ultimately show ?thesis using True a d J by (simp flip: R_def)
  next
    case False
    then show ?thesis using a d by (simp flip: R_def)
  qed
qed

section \<open>Pairs of words as numbers\<close>

definition pair :: "u32 \<Rightarrow> u32 \<Rightarrow> nat" where
  "pair hi lo = unat hi * 2 ^ 32 + unat lo"

lemma unat_less_32: "unat (w :: u32) < 2 ^ 32"
  using unsigned_less[of w, where 'a = nat] by simp

lemma pair_le: "pair a b \<le> pair c d \<longleftrightarrow> unat a < unat c \<or> unat a = unat c \<and> unat b \<le> unat d"
  unfolding pair_def using unat_less_32[of b] unat_less_32[of d] by auto

lemma top_bit_32: "drop_bit 31 (w AND sign) = (if 2 ^ 31 \<le> unat w then 1 else 0)"
proof -
  have "drop_bit 31 (w AND sign) = drop_bit 31 w"
    by (rule bit_word_eqI) (auto simp: bit_simps sign_def dest: bit_imp_le_length)
  moreover have "unat (drop_bit 31 w) = unat w div 2 ^ 31"
    by (subst unat_drop_bit_eq) (rule drop_bit_eq_div)
  moreover have "unat w div 2 ^ 31 = (if 2 ^ 31 \<le> unat w then 1 else 0)"
    using unat_less_32[of w] by auto
  ultimately have "unat (drop_bit 31 (w AND sign)) = unat (if 2 ^ 31 \<le> unat w then 1 else 0 :: u32)" by simp
  then show ?thesis by (rule word_unat_eq_iff[THEN iffD2])
qed

lemma unat_add_32: "unat a + unat b < 2 ^ 32 \<Longrightarrow> unat (a + b :: u32) = unat a + unat b"
  using unat_add_lem[of a b] by simp

lemma unat_double_32: "unat (a + a :: u32) = (if 2 ^ 31 \<le> unat a then 2 * unat a - 2 ^ 32 else 2 * unat a)"
  using unat_less_32[of a] by (simp add: unat_word_ariths mod_if)

lemma pair_double:
  assumes "pair a b < 2 ^ 63"
  shows "pair (dbl_hi a b) (b + b) = 2 * pair a b"
proof -
  have a: "unat a < 2 ^ 31"
    using assms unfolding pair_def by simp
  have "unat (a + drop_bit 31 (b AND sign)) = unat a + (if 2 ^ 31 \<le> unat b then 1 else 0)"
    unfolding top_bit_32 using a by (subst unat_add_32) auto
  then have "unat (dbl_hi a b) = unat a + unat a + (if 2 ^ 31 \<le> unat b then 1 else 0)"
    unfolding dbl_hi_def using a by (subst unat_add_32) auto
  then show ?thesis unfolding pair_def unat_double_32 using unat_less_32[of b] by auto
qed

lemma sint_small: "unat a < 2 ^ 31 \<Longrightarrow> sint (a :: u32) = int (unat a)"
proof -
  assume "unat a < 2 ^ 31"
  then have u: "uint a < 2 ^ 31" by (metis of_nat_less_iff of_nat_numeral of_nat_power of_nat_unat)
  have "sint a = signed_take_bit 31 (uint a)" by (simp add: sint_uint)
  also have "\<dots> = uint a" by (rule signed_take_bit_int_eq_self) (use u order_trans[OF _ unsigned_greater_eq[of a], of "- (2 ^ 31) :: int"] in simp_all)
  finally show ?thesis by simp
qed

lemma sless_32:
  assumes "unat a < 2 ^ 31" and "unat b < 2 ^ 31"
  shows "(a <s b) = (unat a < unat (b :: u32))" and "(a <=s b) = (unat a \<le> unat b)"
  using sint_small[OF assms(1)] sint_small[OF assms(2)] by (simp_all add: word_sless_alt word_sle_eq del: of_nat_unat)

lemma sign_tests:
  "(w AND sign = sign) = (2 ^ 31 \<le> unat w)" "(w AND sign = 0) = (unat w < 2 ^ 31)"
proof -
  have b: "bit sign n = (n = 31)" for n
  proof -
    have e: "sign = 2 ^ 31" by (simp add: sign_def)
    show ?thesis unfolding e bit_exp_iff by auto
  qed
  have "w AND sign = (if bit w 31 then sign else 0)"
    by (rule bit_word_eqI) (auto simp: bit_and_iff b)
  moreover have "bit w 31 = (2 ^ 31 \<le> unat w)"
  proof -
    have "bit w 31 = bit (unat w) 31" by (simp add: bit_unsigned_iff)
    also have "\<dots> = odd (unat w div 2 ^ 31)" by (rule bit_iff_odd)
    finally have "bit w 31 = odd (unat w div 2 ^ 31)" .
    moreover have "unat w div 2 ^ 31 = (if 2 ^ 31 \<le> unat w then 1 else 0)" using unat_less_32[of w] by auto
    ultimately show ?thesis by simp
  qed
  ultimately show "(w AND sign = sign) = (2 ^ 31 \<le> unat w)" "(w AND sign = 0) = (unat w < 2 ^ 31)"
    by (auto simp: sign_def)
qed

lemma pair_sub:
  assumes "pair t t1 \<le> pair a b"
  shows "pair (if b < t1 then a - t - 1 else a - t) (b - t1) = pair a b - pair t t1"
proof -
  have l: "unat t < unat a \<or> unat t = unat a \<and> unat t1 \<le> unat b" using assms by (simp add: pair_le)
  then have at: "unat (a - t) = unat a - unat t" by (auto simp: unat_sub_if')
  show ?thesis
  proof (cases "b < t1")
    case True
    then have lt: "unat b < unat t1" "unat t < unat a" using l by (auto simp: word_less_nat_alt)
    then have "unat (a - t - 1) = unat a - unat t - 1" using at by (simp add: unat_sub_if')
    moreover have "unat (b - t1) = unat b + 2 ^ 32 - unat t1" using lt(1) by (simp add: unat_sub_if')
    ultimately show ?thesis using lt True unat_less_32[of t1] unat_less_32[of b] unfolding pair_def by simp
  next
    case False
    then have "unat t1 \<le> unat b" by (simp add: word_less_nat_alt)
    then show ?thesis using False at l unfolding pair_def by (auto simp: unat_sub_if' diff_mult_distrib)
  qed
qed

lemma hi_parts:
  assumes "pair a b < 4 * 2 ^ 54" shows "unat a < 2 ^ 24"
  using assms unfolding pair_def by simp

lemma unat_half: "unat (drop_bit 1 r) = unat (r :: u32) div 2"
  by (subst unat_drop_bit_eq) (simp add: drop_bit_Suc)

lemma sqrt_hi_correct:
  assumes "n \<le> 22" and "unat r = 2 ^ n div 2" and "isqrt_inv A (n + 32) (pair ix0 ix1, unat s0 * 2 ^ 32, unat q * 2 ^ 32)"
  shows "case sqrt_hi r (ix0, ix1, s0, q) of (a, b, s, q') \<Rightarrow> isqrt_inv A 32 (pair a b, unat s * 2 ^ 32, unat q' * 2 ^ 32)"
  using assms
proof (induction n arbitrary: r ix0 ix1 s0 q)
  case 0
  then have "r = 0" by (simp add: unat_eq_zero)
  then show ?case using "0.prems" by (simp add: sqrt_hi.simps)
next
  case (Suc n)
  have r: "unat r = 2 ^ n" "r \<noteq> 0" using Suc.prems(2) by auto
  have n: "(2 :: nat) ^ n \<le> 2 ^ 21" using Suc.prems(1) by (intro power_increasing) auto
  note inv = Suc.prems(3)[unfolded isqrt_inv.simps]
  have s: "unat s0 = 2 * unat q" using inv by simp
  have q: "unat q * 2 ^ 32 + 2 ^ n * 2 ^ 33 \<le> 2 ^ 54" using inv by (simp add: power_add)
  then have q': "unat q + 2 * 2 ^ n \<le> 2 ^ 22" by simp
  have bound: "pair ix0 ix1 < 4 * 2 ^ 54" using inv by (simp add: power_add)
  note i = hi_parts[OF bound]
  have t: "unat (s0 + r) = unat s0 + 2 ^ n" using s q' r by (subst unat_add_32) auto
  define R :: nat where "R = 2 ^ (n + 32)"
  have R: "R = 2 ^ n * 2 ^ 32" by (simp add: R_def power_add)
  have le: "(s0 + r <=s ix0) = (unat s0 * 2 ^ 32 + R \<le> pair ix0 ix1)"
    using sless_32(2)[of "s0 + r" ix0] t s q' i unat_less_32[of ix1] unfolding pair_def R by auto
  have step: "isqrt_inv A (n + 32) (isqrt_step R (pair ix0 ix1, unat s0 * 2 ^ 32, unat q * 2 ^ 32))"
    unfolding R_def by (rule isqrt_inv_step) (use Suc.prems(3) in simp)
  have half: "unat (drop_bit 1 r) = 2 ^ n div 2" using r(1) by (simp only: unat_half)
  show ?case
  proof (cases "s0 + r <=s ix0")
    case True
    then have c: "unat s0 * 2 ^ 32 + R \<le> pair ix0 ix1" by (simp add: le)
    have le0: "unat (s0 + r) \<le> unat ix0" using True sless_32(2)[of "s0 + r" ix0] t s q' i by auto
    have d: "pair (ix0 - (s0 + r)) ix1 = pair ix0 ix1 - (unat s0 * 2 ^ 32 + R)"
      using le0 t unfolding pair_def R by (simp add: unat_sub_if' diff_mult_distrib add_mult_distrib)
    have dd: "pair (dbl_hi (ix0 - (s0 + r)) ix1) (ix1 + ix1) = 2 * (pair ix0 ix1 - (unat s0 * 2 ^ 32 + R))"
      using pair_double[of "ix0 - (s0 + r)" ix1] d bound by simp
    have s': "unat (s0 + r + r) * 2 ^ 32 = unat s0 * 2 ^ 32 + 2 * R"
      using t s q' r R by (subst unat_add_32) auto
    have qq: "unat (q + r) * 2 ^ 32 = unat q * 2 ^ 32 + R"
      using q' r R by (subst unat_add_32) auto
    have "isqrt_inv A (n + 32) (pair (dbl_hi (ix0 - (s0 + r)) ix1) (ix1 + ix1), unat (s0 + r + r) * 2 ^ 32, unat (q + r) * 2 ^ 32)"
      using step[unfolded isqrt_step.simps if_P[OF c]] unfolding dd s' qq .
    from Suc.IH[OF _ half this] Suc.prems(1) r(2) True show ?thesis
      by (subst sqrt_hi.simps) (simp add: Let_def del: One_nat_def)
  next
    case False
    then have c: "\<not> unat s0 * 2 ^ 32 + R \<le> pair ix0 ix1" by (simp add: le)
    have dd: "pair (dbl_hi ix0 ix1) (ix1 + ix1) = 2 * pair ix0 ix1"
      using pair_double[of ix0 ix1] bound by simp
    have "isqrt_inv A (n + 32) (pair (dbl_hi ix0 ix1) (ix1 + ix1), unat s0 * 2 ^ 32, unat q * 2 ^ 32)"
      using step[unfolded isqrt_step.simps if_not_P[OF c]] unfolding dd .
    from Suc.IH[OF _ half this] Suc.prems(1) r(2) False show ?thesis
      by (subst sqrt_hi.simps) (simp add: Let_def del: One_nat_def)
  qed
qed

lemma mod_room:
  fixes a n k :: nat
  assumes "2 ^ n dvd a" and "n \<le> k"
  shows "a mod 2 ^ k + 2 ^ n \<le> 2 ^ k"
proof -
  have d: "(2 :: nat) ^ n dvd 2 ^ k" using assms(2) by (rule le_imp_power_dvd)
  then have "2 ^ n dvd a mod 2 ^ k" using assms(1) by (simp add: dvd_mod)
  then obtain c where c: "a mod 2 ^ k = 2 ^ n * c" by (rule dvdE)
  have k: "(2 :: nat) ^ k = 2 ^ n * 2 ^ (k - n)" using assms(2) by (simp flip: power_add)
  have "2 ^ n * c < 2 ^ n * 2 ^ (k - n)" unfolding c[symmetric] k[symmetric] by simp
  then have "Suc c \<le> 2 ^ (k - n)" by simp
  then have "2 ^ n * Suc c \<le> 2 ^ n * 2 ^ (k - n)" by (rule mult_le_mono2)
  then have "2 ^ n * c + 2 ^ n \<le> 2 ^ k" unfolding k by simp
  then show ?thesis unfolding c .
qed

lemma sqrt_lo_correct:
  assumes "n \<le> 32" and "unat r = 2 ^ n div 2" and "isqrt_inv A n (pair ix0 ix1, pair s0 s1, pair q q1)"
  shows "case sqrt_lo r (ix0, ix1, s0, s1, q1) of (a, b, s, s', q1') \<Rightarrow> isqrt_inv A 0 (pair a b, pair s s', pair q q1')"
  using assms
proof (induction n arbitrary: r ix0 ix1 s0 s1 q1)
  case 0
  then have "r = 0" by (simp add: unat_eq_zero)
  then show ?case using "0.prems" by (simp add: sqrt_lo.simps)
next
  case (Suc n)
  have r: "unat r = 2 ^ n" "r \<noteq> 0" using Suc.prems(2) by auto
  have n: "n \<le> 31" using Suc.prems(1) by simp
  note inv = Suc.prems(3)[unfolded isqrt_inv.simps]
  have bound: "pair ix0 ix1 < 4 * 2 ^ 54" "pair q q1 + 2 * 2 ^ n \<le> 2 ^ 54" "pair s0 s1 = 2 * pair q q1" using inv by simp_all
  note i = hi_parts[OF bound(1)]
  have s0: "unat s0 < 2 ^ 24" using bound(2,3) by (intro hi_parts[of s0 s1]) simp
  have dq: "2 ^ Suc n dvd pair q q1" and ds: "2 ^ Suc (Suc n) dvd pair s0 s1" using inv by (simp_all add: mult_dvd_mono)
  have qm: "unat q1 = pair q q1 mod 2 ^ 32" and sm: "unat s1 = pair s0 s1 mod 2 ^ 32"
    unfolding pair_def using unat_less_32[of q1] unat_less_32[of s1] by simp_all
  have q1: "unat q1 + 2 * 2 ^ n \<le> 2 ^ 32" using mod_room[OF dq, of 32] n qm by simp
  have s1: "if n = 31 then unat s1 = 0 else unat s1 + 4 * 2 ^ n \<le> 2 ^ 32"
  proof (cases "n = 31")
    case True
    have "(2 :: nat) ^ 32 dvd 2 ^ Suc (Suc n)" by (rule le_imp_power_dvd) (use True in simp)
    then have "2 ^ 32 dvd pair s0 s1" using ds by (rule dvd_trans)
    then show ?thesis using True sm by (simp add: dvd_eq_mod_eq_0)
  next
    case False
    then have "Suc (Suc n) \<le> 32" using n by simp
    from mod_room[OF ds this] show ?thesis using False sm by simp
  qed
  have pn: "(2 :: nat) ^ n \<le> 2 ^ 31" using n by (intro power_increasing) auto
  have "unat s1 + 2 ^ n < 2 ^ 32"
  proof (cases "n = 31")
    case False
    have "0 < (2 :: nat) ^ n" by simp
    then show ?thesis using s1[unfolded if_not_P[OF False]] by linarith
  qed (use s1 in simp)
  then have t1: "unat (s1 + r) = unat s1 + 2 ^ n" using r by (subst unat_add_32) auto
  define T where "T = pair s0 s1 + 2 ^ n"
  have T: "pair s0 (s1 + r) = T" unfolding T_def pair_def t1 by simp
  have le: "(s0 <s ix0 \<or> s0 = ix0 \<and> s1 + r \<le> ix1) = (T \<le> pair ix0 ix1)"
    unfolding T[symmetric] pair_le using sless_32(1)[of s0 ix0] s0 i by (auto simp: word_le_nat_alt word_unat_eq_iff)
  have step: "isqrt_inv A n (isqrt_step (2 ^ n) (pair ix0 ix1, pair s0 s1, pair q q1))"
    by (rule isqrt_inv_step[OF Suc.prems(3)])
  have half: "unat (drop_bit 1 r) = 2 ^ n div 2" using r(1) by (simp only: unat_half)
  show ?case
  proof (cases "T \<le> pair ix0 ix1")
    case True
    define s1' where "s1' = s1 + r + r"
    define s0' where "s0' = (if (s1 + r) AND sign = sign \<and> s1' AND sign = 0 then s0 + 1 else s0)"
    define i0' where "i0' = (if ix1 < s1 + r then ix0 - s0 - 1 else ix0 - s0)"
    have c: "pair s0 s1 + 2 ^ n \<le> pair ix0 ix1" using True by (simp add: T_def)
    have d: "pair i0' (ix1 - (s1 + r)) = pair ix0 ix1 - (pair s0 s1 + 2 ^ n)"
      using pair_sub[of s0 "s1 + r" ix0 ix1] True unfolding T i0'_def by (simp add: T_def)
    have dd: "pair (dbl_hi i0' (ix1 - (s1 + r))) (ix1 - (s1 + r) + (ix1 - (s1 + r))) = 2 * (pair ix0 ix1 - (pair s0 s1 + 2 ^ n))"
      using pair_double[of i0' "ix1 - (s1 + r)"] d bound(1) by simp
    have ss: "pair s0' s1' = pair s0 s1 + 2 * 2 ^ n"
    proof (cases "n = 31")
      case True
      then have u: "unat s1 = 0" "unat (s1 + r) = 2 ^ 31" using s1 t1 by simp_all
      have "unat s1' = 0" unfolding s1'_def using unat_word_ariths(1)[of "s1 + r" r] u(2) r(1) True by simp
      moreover have "s0' = s0 + 1" unfolding s0'_def sign_tests using u(2) calculation by simp
      moreover have "unat (s0 + 1) = unat s0 + 1" using s0 by (subst unat_add_32) auto
      ultimately show ?thesis using u(1) True unfolding pair_def by simp
    next
      case False
      then have u: "unat s1 + 4 * 2 ^ n \<le> 2 ^ 32" using s1 by simp
      have "0 < (2 :: nat) ^ n" by simp
      then have "unat (s1 + r) + unat r < 2 ^ 32" unfolding t1 r(1) using u by linarith
      then have v: "unat s1' = unat s1 + 2 * 2 ^ n" unfolding s1'_def using t1 r(1)
        by (subst unat_add_32) auto
      then have "s0' = s0" unfolding s0'_def sign_tests using t1 by simp
      then show ?thesis using v unfolding pair_def by simp
    qed
    have "0 < (2 :: nat) ^ n" by simp
    then have "unat q1 + unat r < 2 ^ 32" unfolding r(1) using q1 by linarith
    then have qq: "pair q (q1 + r) = pair q q1 + 2 ^ n"
      unfolding pair_def using r(1) by (subst unat_add_32) auto
    have "isqrt_inv A n (pair (dbl_hi i0' (ix1 - (s1 + r))) (ix1 - (s1 + r) + (ix1 - (s1 + r))), pair s0' s1', pair q (q1 + r))"
      using step[unfolded isqrt_step.simps if_P[OF c]] unfolding dd ss qq .
    note ih = Suc.IH[OF _ half this]
    have eq: "sqrt_lo r (ix0, ix1, s0, s1, q1) =
        sqrt_lo (drop_bit 1 r) (dbl_hi i0' (ix1 - (s1 + r)), ix1 - (s1 + r) + (ix1 - (s1 + r)), s0', s1', q1 + r)"
      using r(2) True
      by (subst sqrt_lo.simps) (simp only: Let_def le i0'_def s0'_def s1'_def if_True prod.case not_False_eq_True)
    show ?thesis unfolding eq by (rule ih) (use n in simp)
  next
    case False
    then have c: "\<not> pair s0 s1 + 2 ^ n \<le> pair ix0 ix1" by (simp add: T_def)
    have dd: "pair (dbl_hi ix0 ix1) (ix1 + ix1) = 2 * pair ix0 ix1"
      using pair_double[of ix0 ix1] bound(1) by simp
    have "isqrt_inv A n (pair (dbl_hi ix0 ix1) (ix1 + ix1), pair s0 s1, pair q q1)"
      using step[unfolded isqrt_step.simps if_not_P[OF c]] unfolding dd .
    from Suc.IH[OF _ half this] Suc.prems(1) r(2) False show ?thesis
      by (subst sqrt_lo.simps) (simp add: Let_def le del: One_nat_def)
  qed
qed

lemma isqrt_done:
  assumes "isqrt_inv A 0 (I, S, Q)"
  shows "Q\<^sup>2 \<le> A" "A < (Q + 1)\<^sup>2" "I = 0 \<longleftrightarrow> A = Q\<^sup>2"
proof -
  have a: "2 * A = 2 * Q\<^sup>2 + I" "I < 4 * Q + 2" using assms by simp_all
  show "Q\<^sup>2 \<le> A" "I = 0 \<longleftrightarrow> A = Q\<^sup>2" using a(1) by auto
  have "(Q + 1)\<^sup>2 = Q\<^sup>2 + 2 * Q + 1" by (simp add: power2_eq_square)
  then show "A < (Q + 1)\<^sup>2" using a by linarith
qed

lemma one_fields: "d_exp one = 1023" "d_frac one = 0" "d_neg one = False"
  and tiny_fields: "d_exp tiny = 26" "d_frac tiny = 0x56E1FC2F8F359" "d_neg tiny = False"
    "d_exp (d_uminus tiny) = 26" "d_frac (d_uminus tiny) = 0x56E1FC2F8F359" "d_neg (d_uminus tiny) = True"
  by code_simp+

lemma one_add_tiny: "d_add one tiny = one"
proof -
  have bits: "int_bits (2 ^ 1049 + 0x156E1FC2F8F359) = 1050"
    by (subst int_bits_eq[of 1049]) simp_all
  have "d_add one tiny = d_round False (2 ^ 1049 + 0x156E1FC2F8F359) (2 ^ 1049)"
    unfolding d_add_def d_nan_def d_inf_def d_unit_def d_int_def d_mant_def d_scaled_def pow2_up_def pow2_down_def one_fields tiny_fields Let_def
    by simp
  also have "\<dots> = one"
    unfolding d_round_def pow2_up_def pow2_down_def int_bits_pow2 bits Let_def
    by (simp add: d_signed_def one_def)
  finally show ?thesis .
qed

lemma one_sub_tiny: "d_sub one tiny = one"
proof -
  have bits: "int_bits (2 ^ 1049 - 0x156E1FC2F8F359) = 1049"
    by (subst int_bits_eq[of 1048]) simp_all
  have "d_sub one tiny = d_round False (2 ^ 1049 - 0x156E1FC2F8F359) (2 ^ 1049)"
    unfolding d_sub_def d_add_def d_nan_def d_inf_def d_unit_def d_int_def d_mant_def d_scaled_def pow2_up_def pow2_down_def one_fields tiny_fields Let_def
    by simp
  also have "\<dots> = d_signed False (of_int ((- 53 + 1074) * 2 ^ 52 + 2 ^ 53))"
  proof (rule d_round_eq[where k = "-1" and e = "-1" and n = "2 ^ 53 - 1" and r = "2 ^ 1049 - 0x156E1FC2F8F359 * 2 ^ 53"])
    show "- 1 = int_bits (2 ^ 1049 - 0x156E1FC2F8F359) - int_bits (2 ^ 1049)"
      unfolding int_bits_pow2 bits by simp
  qed (simp_all add: pow2_up_def pow2_down_def)
  also have "\<dots> = one" by (simp add: d_signed_def one_def)
  finally show ?thesis .
qed

lemma one_one: "d_le one one" "\<not> d_less one one"
  by (simp_all add: d_le_def d_less_def d_eq_def d_nan_def d_inf_def one_fields Let_def)

lemma odd_pair: "odd (pair a b) = odd (unat b)"
  by (simp add: pair_def)

lemma and_one_32: "w AND 1 = (if odd (unat w) then 1 else 0 :: u32)"
  by (simp add: and_one_eq mod_2_eq_odd flip: bit_0) (simp add: bit_unsigned_iff)

lemma sqrt_round_correct:
  assumes "pair q q1 < 2 ^ 63"
  shows "case sqrt_round ix0 ix1 q q1 of (q', q1') \<Rightarrow>
    pair q' q1' = pair q q1 + (if pair ix0 ix1 \<noteq> 0 \<and> odd (pair q q1) then 1 else 0)"
proof -
  have z: "(ix0 OR ix1 \<noteq> 0) = (pair ix0 ix1 \<noteq> 0)"
    by (auto simp: pair_def unat_eq_zero or_eq_0_iff)
  have q: "unat q < 2 ^ 31" using assms unfolding pair_def by simp
  show ?thesis
  proof (cases "q1 = 0xFFFFFFFF")
    case True
    then have "unat q1 = 2 ^ 32 - 1" by simp
    moreover have "unat (q + 1) = unat q + 1" using q by (subst unat_add_32) auto
    ultimately show ?thesis using True z
      by (auto simp: sqrt_round_def one_sub_tiny one_add_tiny one_one Let_def odd_pair) (auto simp: pair_def)
  next
    case False
    then have "unat q1 \<noteq> 2 ^ 32 - 1" by (simp add: word_unat_eq_iff)
    then have "unat (q1 + 1) = unat q1 + 1" using unat_less_32[of q1] by (subst unat_add_32) auto
    then show ?thesis using False z
      by (auto simp: sqrt_round_def one_sub_tiny one_add_tiny one_one Let_def odd_pair and_one_32) (auto simp: pair_def)
  qed
qed

section \<open>The fields of a double in its two words\<close>

lemma uint_take_bit: "uint (take_bit n w) = uint (w :: 'w::len word) mod 2 ^ n"
  by (subst unsigned_take_bit_eq) (rule take_bit_eq_mod)

lemma uint_drop_bit: "uint (drop_bit n w) = uint (w :: 'w::len word) div 2 ^ n"
proof -
  have "take_bit LENGTH('w) (uint w) = uint w" by (simp add: take_bit_int_eq_self)
  then show ?thesis by (subst unsigned_drop_bit_eq) (simp only: drop_bit_eq_div)
qed

lemma uint_bounds: "0 \<le> uint (x :: double)" "uint (x :: double) < 2 ^ 64"
  using unsigned_less[of x, where 'a = int] by simp_all

lemma uint_high: "uint (high_word x) = uint x div 2 ^ 32"
proof -
  have "uint x div 2 ^ 32 < 2 ^ 32" using uint_bounds[of x] by simp
  then have "take_bit 32 (uint x div 2 ^ 32) = uint x div 2 ^ 32"
    using uint_bounds[of x] by (intro take_bit_int_eq_self) (simp_all add: pos_imp_zdiv_nonneg_iff)
  then show ?thesis unfolding high_word_def by (subst unsigned_ucast_eq, subst uint_drop_bit) simp
qed

lemma uint_low: "uint (low_word x) = uint x mod 2 ^ 32"
  unfolding low_word_def by (subst unsigned_ucast_eq, subst take_bit_eq_mod) simp

lemma d_exp_uint: "d_exp x = uint x div 2 ^ 52 mod 2 ^ 11"
  unfolding d_exp_def uint_take_bit uint_drop_bit ..

lemma d_frac_uint: "d_frac x = uint x mod 2 ^ 52"
  unfolding d_frac_def uint_take_bit ..

lemma d_exp_range: "0 \<le> d_exp x" "d_exp x < 2048"
  unfolding d_exp_uint by simp_all

lemma d_frac_range: "0 \<le> d_frac x" "d_frac x < 2 ^ 52"
  unfolding d_frac_uint by simp_all

lemma d_exp_high: "d_exp x = uint (high_word x) div 2 ^ 20 mod 2 ^ 11"
  unfolding d_exp_uint uint_high by (simp flip: zdiv_zmult2_eq)

lemma uint_fields:
  "uint x = (if d_neg x then 2 ^ 63 else 0) + d_exp x * 2 ^ 52 + d_frac x"
proof -
  note x = uint_bounds[of x]
  have n: "d_neg x = (2 ^ 63 \<le> uint x)"
  proof -
    have "d_neg x = bit (uint x) 63" by (simp add: d_neg_def bit_uint_iff)
    also have "\<dots> = odd (uint x div 2 ^ 63)" by (rule bit_iff_odd)
    also have "uint x div 2 ^ 63 = (if 2 ^ 63 \<le> uint x then 1 else 0)" using x by auto
    finally show ?thesis by simp
  qed
  have "uint x = uint x div 2 ^ 52 * 2 ^ 52 + d_frac x" unfolding d_frac_uint by simp
  moreover have "uint x div 2 ^ 52 = (if d_neg x then 2 ^ 11 else 0) + d_exp x"
  proof -
    define z where "z = uint x div 2 ^ 52"
    have "0 \<le> z" "z < 4096" "d_neg x = (2048 \<le> z)"
      unfolding n z_def using x by (auto simp: pos_imp_zdiv_nonneg_iff)
    moreover have "2048 \<le> z \<Longrightarrow> z mod 2048 = z - 2048"
      using minus_mod_self2[of z 2048] mod_pos_pos_trivial[of "z - 2048" 2048] \<open>z < 4096\<close> by linarith
    ultimately show ?thesis unfolding d_exp_uint z_def[symmetric] by auto
  qed
  ultimately show ?thesis by (auto simp: algebra_simps)
qed

lemma mantissa_pair:
  assumes "d_exp x \<noteq> 0" and "\<not> d_neg x"
  shows "int (pair ((high_word x AND 0x000FFFFF) OR 0x00100000) (low_word x)) = d_mant x"
proof -
  let ?h = "high_word x AND 0x000FFFFF"
  have m: "?h = take_bit 20 (high_word x)"
    by (simp add: take_bit_eq_mask mask_eq_exp_minus_1)
  have s: "?h OR 0x00100000 = ?h + 0x00100000"
  proof (rule disjunctive_add[symmetric])
    fix n
    have "(0x00100000 :: u32) = 2 ^ 20" by simp
    then have "bit (0x00100000 :: u32) n = (n = 20)" by (simp only: bit_exp_iff) auto
    then show "\<not> bit ?h n \<or> \<not> bit (0x00100000 :: u32) n" unfolding m by (simp add: bit_take_bit_iff)
  qed
  have h: "uint ?h = uint x div 2 ^ 32 mod 2 ^ 20"
    unfolding m uint_take_bit uint_high ..
  have "int (unat (?h OR 0x00100000)) = uint ?h + 2 ^ 20"
    unfolding s using h by (subst unat_add_32) (simp_all add: unat_eq_nat_uint nat_less_iff)
  then have "int (pair (?h OR 0x00100000) (low_word x)) = (uint x div 2 ^ 32 mod 2 ^ 20 + 2 ^ 20) * 2 ^ 32 + uint x mod 2 ^ 32"
    unfolding pair_def by (simp add: h uint_low)
  also have "\<dots> = 2 ^ 52 + uint x mod 2 ^ 52"
  proof -
    have "uint x mod (2 ^ 32 * 2 ^ 20) = 2 ^ 32 * (uint x div 2 ^ 32 mod 2 ^ 20) + uint x mod 2 ^ 32"
      by (rule zmod_zmult2_eq) simp
    then show ?thesis by simp
  qed
  also have "\<dots> = d_mant x" using assms by (simp add: d_mant_def d_frac_uint)
  finally show ?thesis .
qed

lemma uint_of_int_32: "0 \<le> k \<Longrightarrow> k < 2 ^ 32 \<Longrightarrow> uint (of_int k :: u32) = k"
  by (simp add: unsigned_of_int take_bit_int_eq_self)

lemma uint_of_int_64: "0 \<le> k \<Longrightarrow> k < 2 ^ 64 \<Longrightarrow> uint (of_int k :: double) = k"
  by (simp add: unsigned_of_int take_bit_int_eq_self)

lemma uint_insert_words: "uint (insert_words hi lo) = uint hi * 2 ^ 32 + uint lo"
proof -
  have s: "insert_words hi lo = push_bit 32 (ucast hi) + ucast lo"
    unfolding insert_words_def
    by (rule disjunctive_add[symmetric]) (auto simp: bit_simps dest: bit_imp_le_length)
  have h: "0 \<le> uint hi" "uint hi < 2 ^ 32" and l: "0 \<le> uint lo" "uint lo < 2 ^ 32"
    using unsigned_less[of hi, where 'a = int] unsigned_less[of lo, where 'a = int] by simp_all
  have e: "push_bit 32 (ucast hi) + ucast lo = (of_int (uint hi * 2 ^ 32 + uint lo) :: double)"
    by (simp add: push_bit_eq_mult)
  show ?thesis unfolding s e by (rule uint_of_int_64) (use h l in simp_all)
qed

lemma uint_half: "uint (drop_bit 1 q) = uint (q :: u32) div 2"
  using uint_drop_bit[of 1 q] by simp

lemma halved_low:
  "uint (if q AND 1 = 1 then drop_bit 1 q1 OR sign else drop_bit 1 q1) = uint q1 div 2 + uint (q :: u32) mod 2 * 2 ^ 31"
proof -
  have l: "0 \<le> uint q1" "uint q1 < 2 ^ 32" using unsigned_less[of q1, where 'a = int] by simp_all
  have e: "sign = 2 ^ 31" by (simp add: sign_def)
  have b: "bit sign n = (n = 31)" for n unfolding e bit_exp_iff by auto
  have "drop_bit 1 q1 OR sign = drop_bit 1 q1 + sign"
    by (rule disjunctive_add[symmetric]) (auto simp: bit_drop_bit_eq b dest: bit_imp_le_length)
  moreover have "drop_bit 1 q1 + sign = of_int (uint q1 div 2 + 2 ^ 31)"
    by (simp add: sign_def flip: uint_half)
  moreover have "uint (of_int (uint q1 div 2 + 2 ^ 31) :: u32) = uint q1 div 2 + 2 ^ 31"
    by (rule uint_of_int_32) (use l in \<open>simp_all add: pos_imp_zdiv_nonneg_iff\<close>)
  moreover have "q AND 1 = (if odd (unat q) then 1 else 0)" by (rule and_one_32)
  moreover have "odd (unat q) = odd (uint q)" using even_of_nat[of "unat q", where 'a = int] by (simp only: of_nat_unat)
  ultimately show ?thesis using uint_half[of q1] by (auto simp: odd_iff_mod_2_eq_one even_iff_mod_2_eq_zero)
qed

lemma uint_result:
  fixes m :: int
  assumes "pair q q1 div 2 = N" and "N < 2 ^ 53" and "- 1022 \<le> m" and "m < 1000"
  shows "uint (insert_words (drop_bit 1 q + 0x3FE00000 + of_int (m * 2 ^ 20))
      (if q AND 1 = 1 then drop_bit 1 q1 OR sign else drop_bit 1 q1)) = int N + (0x3FE + m) * 2 ^ 52"
proof -
  have l: "0 \<le> uint q1" "uint q1 < 2 ^ 32" using unsigned_less[of q1, where 'a = int] by simp_all
  have N: "int N = uint q div 2 * 2 ^ 32 + uint q mod 2 * 2 ^ 31 + uint q1 div 2"
  proof -
    have "int N = (uint q * 2 ^ 32 + uint q1) div 2" unfolding assms(1)[symmetric] pair_def by (simp add: zdiv_int)
    also have "uint q * 2 ^ 32 + uint q1 = 2 * (uint q * 2 ^ 31) + uint q1" by simp
    also have "\<dots> div 2 = uint q * 2 ^ 31 + uint q1 div 2" by simp
    finally have "int N = uint q * 2 ^ 31 + uint q1 div 2" .
    moreover have "uint q * 2 ^ 31 = uint q div 2 * 2 ^ 32 + uint q mod 2 * 2 ^ 31"
    proof -
      define a b where "a = uint q div 2" and "b = uint q mod 2"
      have "uint q = 2 * a + b" by (simp add: a_def b_def)
      then show ?thesis unfolding a_def[symmetric] b_def[symmetric] by simp
    qed
    ultimately show ?thesis by linarith
  qed
  have q: "0 \<le> uint q div 2" "uint q div 2 < 2 ^ 21"
  proof -
    show "0 \<le> uint q div 2" by (simp add: pos_imp_zdiv_nonneg_iff)
    have "uint q div 2 * 2 ^ 32 \<le> int N" using N l by (simp add: pos_imp_zdiv_nonneg_iff)
    then show "uint q div 2 < 2 ^ 21" using assms(2) by simp
  qed
  have e: "drop_bit 1 q + 0x3FE00000 + of_int (m * 2 ^ 20) = (of_int (uint q div 2 + 0x3FE00000 + m * 2 ^ 20) :: u32)"
    by (simp flip: uint_half)
  have "uint (drop_bit 1 q + 0x3FE00000 + of_int (m * 2 ^ 20)) = uint q div 2 + 0x3FE00000 + m * 2 ^ 20"
    unfolding e by (rule uint_of_int_32) (use q assms(3,4) in \<open>(simp, linarith) | simp\<close>)+
  then show ?thesis unfolding uint_insert_words halved_low N by (simp add: algebra_simps)
qed

lemma normal_of_uint:
  assumes "uint r = n + (e - 1) * 2 ^ 52" and "2 ^ 52 \<le> n" and "n < 2 ^ 53" and "1 \<le> e" and "e < 2047"
  shows "\<not> d_neg r \<and> d_exp r = e \<and> d_mant r = n"
proof -
  define f where "f = n - 2 ^ 52"
  have f: "0 \<le> f" "f < 2 ^ 52" "uint r = f + e * 2 ^ 52" using assms by (simp_all add: f_def algebra_simps)
  have d: "uint r div 2 ^ 52 = e" "uint r mod 2 ^ 52 = f" unfolding f(3) using f(1,2) by simp_all
  have "d_exp r = e" unfolding d_exp_uint d(1) using assms(4,5) by simp
  moreover have "d_frac r = f" unfolding d_frac_uint d(2) ..
  moreover have "\<not> d_neg r"
  proof
    assume "d_neg r"
    then have "2 ^ 63 \<le> uint r" using uint_fields[of r] d_exp_range[of r] d_frac_range[of r] by simp
    then show False using f assms(5) by simp
  qed
  ultimately show ?thesis using assms(4) by (simp add: d_mant_def f_def)
qed

text \<open>The digits of the root and the last one: \<open>2 N\<close> is within one of the root of \<open>X 2\<^sup>5\<^sup>4\<close>.\<close>

definition sqrt_digits :: "u32 \<Rightarrow> u32 \<Rightarrow> u32 \<times> u32" where
  "sqrt_digits ix0 ix1 =
     (let (ix0, ix1, s0, q) = sqrt_hi 0x00200000 (dbl_hi ix0 ix1, ix1 + ix1, 0, 0);
          (ix0, ix1, s0, s1, q1) = sqrt_lo sign (ix0, ix1, s0, 0, 0)
      in sqrt_round ix0 ix1 q q1)"

lemma sqrt_digits_correct:
  assumes "pair ix0 ix1 = X" and "2 ^ 52 \<le> X" and "X \<le> 2 ^ 54 - 2"
  shows "case sqrt_digits ix0 ix1 of (q, q1) \<Rightarrow>
    \<exists>N. pair q q1 = 2 * N \<and> 2 ^ 52 \<le> N \<and> N < 2 ^ 53 \<and> (2 * N - 1)\<^sup>2 < X * 2 ^ 54 \<and> X * 2 ^ 54 < (2 * N + 1)\<^sup>2"
proof -
  define A where "A = X * 2 ^ 54"
  have d: "pair (dbl_hi ix0 ix1) (ix1 + ix1) = 2 * X"
    using pair_double[of ix0 ix1] assms by simp
  have i: "isqrt_inv A (22 + 32) (pair (dbl_hi ix0 ix1) (ix1 + ix1), unat (0 :: u32) * 2 ^ 32, unat (0 :: u32) * 2 ^ 32)"
    unfolding d using assms by (simp add: A_def)
  obtain a b s q where h: "sqrt_hi 0x00200000 (dbl_hi ix0 ix1, ix1 + ix1, 0, 0) = (a, b, s, q)" by (metis prod_cases4)
  have "case sqrt_hi 0x00200000 (dbl_hi ix0 ix1, ix1 + ix1, 0, 0) of (a, b, s, q') \<Rightarrow>
      isqrt_inv A 32 (pair a b, unat s * 2 ^ 32, unat q' * 2 ^ 32)"
    by (rule sqrt_hi_correct[OF _ _ i]) simp_all
  then have "isqrt_inv A 32 (pair a b, unat s * 2 ^ 32, unat q * 2 ^ 32)" unfolding h by simp
  then have i2: "isqrt_inv A 32 (pair a b, pair s 0, pair q 0)" by (simp add: pair_def)
  obtain c e s0 s1 q1 where l: "sqrt_lo sign (a, b, s, 0, 0) = (c, e, s0, s1, q1)" by (metis prod_cases5)
  have "case sqrt_lo sign (a, b, s, 0, 0) of (a, b, s, s', q1') \<Rightarrow> isqrt_inv A 0 (pair a b, pair s s', pair q q1')"
    by (rule sqrt_lo_correct[OF _ _ i2]) (simp_all add: sign_def)
  then have i3: "isqrt_inv A 0 (pair c e, pair s0 s1, pair q q1)" unfolding l by simp
  define Q where "Q = pair q q1"
  note Q = isqrt_done[OF i3, folded Q_def]
  have le: "Q + 1 \<le> 2 ^ 54" using i3 by (simp add: Q_def)
  have ge: "2 ^ 53 \<le> Q"
  proof (rule ccontr)
    assume "\<not> 2 ^ 53 \<le> Q"
    then have "(Q + 1)\<^sup>2 \<le> (2 ^ 53)\<^sup>2" by (intro power_mono) auto
    also have "\<dots> = 2 ^ 52 * 2 ^ 54" by simp
    also have "\<dots> \<le> A" unfolding A_def using assms(2) by (intro mult_right_mono) auto
    finally show False using Q(2) by simp
  qed
  have ne: "Q \<noteq> 2 ^ 54 - 1"
  proof
    assume "Q = 2 ^ 54 - 1"
    then have "(2 ^ 54 - 1)\<^sup>2 \<le> A" using Q(1) by simp
    also have "A \<le> (2 ^ 54 - 2) * 2 ^ 54" unfolding A_def using assms(3) by (intro mult_right_mono) auto
    finally show False by simp
  qed
  obtain q' q1' where r: "sqrt_round c e q q1 = (q', q1')" by (metis surj_pair)
  have P: "pair q' q1' = Q + (if A \<noteq> Q\<^sup>2 \<and> odd Q then 1 else 0)"
    using sqrt_round_correct[of q q1 c e] le Q(3) unfolding r Q_def[symmetric] by simp
  have ev: "even A" by (simp add: A_def)
  then have sq: "odd Q \<Longrightarrow> A \<noteq> Q\<^sup>2" by auto
  then have P': "pair q' q1' = (if odd Q then Q + 1 else Q)" using P by auto
  define N where "N = (Q + 1) div 2"
  have N: "pair q' q1' = 2 * N" "2 ^ 52 \<le> N" "N < 2 ^ 53"
    unfolding P' N_def using ge le ne by (auto elim!: oddE evenE)
  have "(2 * N - 1)\<^sup>2 < A \<and> A < (2 * N + 1)\<^sup>2"
  proof (cases "odd Q")
    case True
    then have n: "2 * N - 1 = Q" "Q + 1 \<le> 2 * N + 1" using N(1) P' by auto
    have "(Q + 1)\<^sup>2 \<le> (2 * N + 1)\<^sup>2" using n(2) by (rule power_mono) simp
    then show ?thesis using Q(1,2) sq[OF True] unfolding n(1) by (auto intro: less_le_trans)
  next
    case False
    then have n: "2 * N = Q" using N(1) P' by auto
    have "(Q - 1)\<^sup>2 < Q\<^sup>2" using ge by (intro power_strict_mono) auto
    then show ?thesis using Q(1,2) unfolding n by simp
  qed
  moreover have "sqrt_digits ix0 ix1 = (q', q1')" unfolding sqrt_digits_def by (simp only: Let_def prod.case h l r)
  ultimately show ?thesis using N by (auto simp: A_def)
qed

lemma root_between:
  fixes n A :: nat
  assumes "(2 * n - 1)\<^sup>2 < A" and "A < (2 * n + 1)\<^sup>2" and "1 \<le> n"
  shows "\<bar>real (2 * n) - sqrt (real A)\<bar> < 1"
proof -
  have "real ((2 * n - 1)\<^sup>2) < real A" "real A < real ((2 * n + 1)\<^sup>2)" using assms(1,2) by (simp_all only: of_nat_less_iff)
  then have s: "(real (2 * n) - 1)\<^sup>2 < real A" "real A < (real (2 * n) + 1)\<^sup>2" using assms(3) by (simp_all add: of_nat_diff add.commute)
  have "real (2 * n) - 1 < sqrt (real A)" using s(1) by (rule real_less_rsqrt)
  moreover have "sqrt (real A) < real (2 * n) + 1" using s(2) by (rule real_less_lsqrt[rotated]) auto
  ultimately show ?thesis by linarith
qed

lemma root_scaled:
  fixes m :: int
  shows "sqrt (real X * 2 powr (2 * real_of_int m - 52)) = sqrt (real (X * 2 ^ 54)) * 2 powr (real_of_int m - 53)"
proof -
  have "(2 :: real) powr (2 * real_of_int m - 52) = 2 ^ 54 * (2 powr (real_of_int m - 53))\<^sup>2"
  proof -
    have "(2 :: real) ^ 54 = 2 powr 54" by simp
    then show ?thesis by (simp only: power2_eq_square powr_add[symmetric]) (simp add: algebra_simps)
  qed
  then have "real X * 2 powr (2 * real_of_int m - 52) = real (X * 2 ^ 54) * (2 powr (real_of_int m - 53))\<^sup>2" by simp
  then show ?thesis by (simp only: real_sqrt_mult real_sqrt_abs abs_of_nonneg powr_ge_zero)
qed
lemma normal_unpacked:
  assumes "\<not> d_neg x" and "1 \<le> d_exp x" and "d_exp x \<le> 2046"
  shows "high_word x AND 0x7FF00000 \<noteq> 0x7FF00000" and "0 <s high_word x"
    and "sint (signed_drop_bit 20 (high_word x)) = d_exp x"
proof -
  have u: "uint (high_word x) = d_exp x * 2 ^ 20 + d_frac x div 2 ^ 32"
    unfolding uint_high uint_fields[of x] using assms(1) by simp
  have f: "0 \<le> d_frac x div 2 ^ 32" "d_frac x div 2 ^ 32 < 2 ^ 20"
    using d_frac_range[of x] by (simp_all add: pos_imp_zdiv_nonneg_iff)
  have b: "2 ^ 20 \<le> uint (high_word x)" "uint (high_word x) < 2 ^ 31" using u f assms(2,3) by simp_all
  have "int (unat (high_word x)) < int (2 ^ 31)" unfolding of_nat_unat using b(2) by simp
  then have "unat (high_word x) < 2 ^ 31" by (rule of_nat_less_iff[THEN iffD1])
  then have s: "sint (high_word x) = uint (high_word x)" using sint_small[of "high_word x"] by simp
  then show "0 <s high_word x" using b by (simp add: word_sless_alt)
  show "sint (signed_drop_bit 20 (high_word x)) = d_exp x"
    unfolding sint_signed_drop_bit_eq s drop_bit_eq_div using u f by simp
  show "high_word x AND 0x7FF00000 \<noteq> 0x7FF00000"
  proof
    assume h: "high_word x AND 0x7FF00000 = 0x7FF00000"
    have k: "(0x7FF00000 :: u32) = push_bit 20 (mask 11)" by (simp add: push_bit_eq_mult mask_eq_exp_minus_1)
    have "take_bit 11 (drop_bit 20 (high_word x)) = mask 11"
    proof (rule bit_word_eqI)
      fix n
      have "bit (high_word x AND 0x7FF00000) (n + 20) = bit (0x7FF00000 :: u32) (n + 20)" unfolding h ..
      then show "bit (take_bit 11 (drop_bit 20 (high_word x))) n = bit (mask 11 :: u32) n"
        unfolding k by (auto simp: bit_simps add.commute)
    qed
    then have "uint (take_bit 11 (drop_bit 20 (high_word x))) = 2047" by (simp add: mask_eq_exp_minus_1)
    then show False using assms(3) unfolding uint_take_bit uint_drop_bit d_exp_high by simp
  qed
qed

lemma lsqrt_normal:
  assumes "\<not> d_neg x" and "1 \<le> d_exp x" and "d_exp x \<le> 2046"
  shows "lsqrt x =
    (let ix0 = (high_word x AND 0x000FFFFF) OR 0x00100000; ix1 = low_word x; m = d_exp x - 1023;
         (ix0, ix1) = (if odd m then (dbl_hi ix0 ix1, ix1 + ix1) else (ix0, ix1));
         (q, q1) = sqrt_digits ix0 ix1
     in Some (insert_words (drop_bit 1 q + 0x3FE00000 + of_int (m div 2 * 2 ^ 20))
          (if q AND 1 = 1 then drop_bit 1 q1 OR sign else drop_bit 1 q1)))"
proof -
  note n = normal_unpacked[OF assms]
  have le: "(high_word x <=s 0) = False" "(high_word x <s 0) = False"
    using n(2) by (simp_all add: word_sless_alt word_sle_eq)
  have norm: "sqrt_normalize (high_word x) (low_word x) = Some (d_exp x, high_word x, low_word x)"
    unfolding sqrt_normalize_def n(3) using assms(2) by (simp add: Let_def)
  have f: "(high_word x AND 0x7FF00000 = 0x7FF00000) = False" using n(1) by simp
  show ?thesis
    unfolding lsqrt_def Let_def f le norm sqrt_digits_def if_False simp_thms Option.bind.simps prod.case
    by (simp only: split_def fst_conv snd_conv)
qed

lemma d_val_nonneg_scaled:
  assumes "\<not> d_neg x" and "1 \<le> d_exp x"
  shows "d_val x = real_of_int (d_mant x) * 2 powr real_of_int (d_exp x - 1075)"
  using assms by (simp add: d_val_def d_unit_def)

text \<open>
  C28. For every positive normal number \<^verbatim>\<open>lsqrt\<close> returns a positive finite number nearer to the
  exact square root than half a unit in its last place: the root is correctly rounded.
\<close>

theorem lsqrt_correctly_rounded:
  assumes "\<not> d_neg x" and "1 \<le> d_exp x" and "d_exp x \<le> 2046"
  shows "\<exists>r. lsqrt x = Some r \<and> \<not> d_neg r \<and> d_finite r \<and>
    \<bar>d_val r - sqrt (d_val x)\<bar> < 2 powr real_of_int (d_unit r) / 2"
proof -
  define m where "m = d_exp x - 1023"
  define k where "k = m div 2"
  define ix0 where "ix0 = (high_word x AND 0x000FFFFF) OR 0x00100000"
  define w where "w = (if odd m then (dbl_hi ix0 (low_word x), low_word x + low_word x) else (ix0, low_word x))"
  define M where "M = nat (d_mant x)"
  define X where "X = (if odd m then 2 * M else M)"
  have M: "int M = d_mant x" "2 ^ 52 \<le> M" "M < 2 ^ 53"
    using assms(2) d_frac_range[of x] by (simp_all add: M_def d_mant_def)
  have p: "pair ix0 (low_word x) = M"
    using mantissa_pair[of x] assms(1,2) M(1) by (simp add: ix0_def)
  have w: "pair (fst w) (snd w) = X"
    using pair_double[of ix0 "low_word x"] p M(3) by (simp add: w_def X_def)
  have X: "2 ^ 52 \<le> X" "X \<le> 2 ^ 54 - 2" using M(2,3) by (auto simp: X_def)
  obtain q q1 where q: "sqrt_digits (fst w) (snd w) = (q, q1)" by (metis surj_pair)
  obtain N where N: "pair q q1 = 2 * N" "2 ^ 52 \<le> N" "N < 2 ^ 53"
      "(2 * N - 1)\<^sup>2 < X * 2 ^ 54" "X * 2 ^ 54 < (2 * N + 1)\<^sup>2"
    using sqrt_digits_correct[OF w X] unfolding q prod.case by (elim exE conjE) (rule that)
  define r where "r = insert_words (drop_bit 1 q + 0x3FE00000 + of_int (k * 2 ^ 20))
      (if q AND 1 = 1 then drop_bit 1 q1 OR sign else drop_bit 1 q1)"
  have lsqrt: "lsqrt x = Some r"
    using q unfolding lsqrt_normal[OF assms] Let_def r_def k_def m_def[symmetric] ix0_def[symmetric] w_def[symmetric]
    by (simp only: split_def fst_conv snd_conv)
  have k: "- 511 \<le> k" "k \<le> 511" using assms(2,3) by (simp_all add: k_def m_def)
  have "uint r = int N + (0x3FE + k) * 2 ^ 52"
    unfolding r_def by (rule uint_result) (use N k in simp_all)
  then have u: "uint r = int N + ((k + 1023) - 1) * 2 ^ 52" by simp
  have n: "\<not> d_neg r \<and> d_exp r = k + 1023 \<and> d_mant r = int N"
    by (rule normal_of_uint[OF u]) (use N(2,3) k in simp_all)
  have vr: "d_val r = real N * 2 powr (real_of_int k - 52)"
    using d_val_nonneg_scaled[of r] n k by simp
  have vx: "d_val x = real X * 2 powr (2 * real_of_int k - 52)"
  proof -
    have "real_of_int (d_mant x) = real M" using M(1) by (metis of_int_of_nat_eq)
    moreover have "m = 2 * k + (if odd m then 1 else 0)" unfolding k_def by auto
    moreover have "(2 :: real) powr (2 * real_of_int k + 1 - 52) = 2 * 2 powr (2 * real_of_int k - 52)"
      using powr_add[of 2 1 "2 * real_of_int k - 52"] by (simp add: algebra_simps)
    ultimately show ?thesis using d_val_nonneg_scaled[OF assms(1,2)] by (auto simp: X_def m_def algebra_simps)
  qed
  have "2 powr (real_of_int k - 52) = 2 * 2 powr (real_of_int k - 53)"
    using powr_add[of 2 1 "real_of_int k - 53"] by simp
  then have h: "d_val r = real (2 * N) * 2 powr (real_of_int k - 53)"
      "2 powr real_of_int (d_unit r) / 2 = 2 powr (real_of_int k - 53)"
    using vr n k by (simp_all add: d_unit_def)
  have "d_val r - sqrt (d_val x) = (real (2 * N) - sqrt (real (X * 2 ^ 54))) * 2 powr (real_of_int k - 53)"
    unfolding h vx root_scaled by (simp only: left_diff_distrib)
  then have "\<bar>d_val r - sqrt (d_val x)\<bar> = \<bar>real (2 * N) - sqrt (real (X * 2 ^ 54))\<bar> * 2 powr (real_of_int k - 53)"
    by (simp only: abs_mult abs_of_nonneg powr_ge_zero)
  also have "\<dots> < 1 * 2 powr (real_of_int k - 53)"
    using root_between[OF N(4,5)] N(2) by (intro mult_strict_right_mono) simp_all
  finally show ?thesis using lsqrt n k h(2) by (simp add: d_finite_def)
qed

lemma lsqrt_correctly_rounded_witness:
  "\<exists>r. lsqrt 0x4000000000000000 = Some r \<and> \<not> d_neg r \<and> d_finite r \<and>
    \<bar>d_val r - sqrt (d_val 0x4000000000000000)\<bar> < 2 powr real_of_int (d_unit r) / 2"
proof (rule lsqrt_correctly_rounded)
  show "\<not> d_neg 0x4000000000000000" by code_simp
  show "1 \<le> d_exp 0x4000000000000000" "d_exp 0x4000000000000000 \<le> 2046" by code_simp+
qed

text \<open>A subnormal number whose low word has its top bit set makes the normalising shift 32 bits wide.\<close>

lemma lsqrt_subnormal_undefined: "lsqrt 0x80000000 = None"
  by code_simp

end
