(* ===== verification/Mpu_trig.thy ===== *)
theory Mpu_trig
  imports Mpu_math
begin

text \<open>
  The inverse trigonometric functions of the motion sensor driver, \<^verbatim>\<open>lasin\<close>,
  \<^verbatim>\<open>latan\<close> and \<^verbatim>\<open>latan2\<close> of \<^verbatim>\<open>modules/src/mpu9250.c\<close>, with the special cases of
  \<^verbatim>\<open>latan2\<close> and the proof that \<^verbatim>\<open>lasin\<close> always returns.
\<close>

section \<open>The inverse trigonometric functions\<close>

definition pi_o_4 :: double where "pi_o_4 = 0x3FE921FB54442D18"
definition pi_o_2 :: double where "pi_o_2 = 0x3FF921FB54442D18"
definition dpi :: double where "dpi = 0x400921FB54442D18"
definition pi_lo :: double where "pi_lo = 0x3CA1A62633145C07"
definition pio2_hi :: double where "pio2_hi = 0x3FF921FB54442D18"
definition pio2_lo :: double where "pio2_lo = 0x3C91A62633145C07"
definition pio4_hi :: double where "pio4_hi = 0x3FE921FB54442D18"

definition pS :: "double list" where
  "pS = [0x3FC5555555555555, 0xBFD4D61203EB6F7D, 0x3FC9C1550E884455,
         0xBFA48228B5688F3B, 0x3F49EFE07501B288, 0x3F023DE10DFDF709]"

definition qS :: "double list" where
  "qS = [one, 0xC0033A271C8A2D4B, 0x40002AE59C598AC8, 0xBFE6066C1B8D0159, 0x3FB3B8C5B12E9282]"

definition atanhi :: "double list" where
  "atanhi = [0x3FDDAC670561BB4F, 0x3FE921FB54442D18, 0x3FEF730BD281F69B, 0x3FF921FB54442D18]"

definition atanlo :: "double list" where
  "atanlo = [0x3C7A2B7F222F65E2, 0x3C81A62633145C07, 0x3C7007887AF0CBBD, 0x3C91A62633145C07]"

definition aT :: "double list" where
  "aT = [0x3FD555555555550D, 0xBFC999999998EBC4, 0x3FC24924920083FF, 0xBFBC71C6FE231671,
         0x3FB745CDC54C206E, 0xBFB3B0F2AF749A6D, 0x3FB10D66A0D03D51, 0xBFADDE2D52DEFD9A,
         0x3FA97B4B24760DEB, 0xBFA2B4442C6A6C2F, 0x3F90AD3AE322DA11]"

text \<open>\<^verbatim>\<open>c0+t*(c1+t*(c2+...))\<close>\<close>

fun horner :: "double \<Rightarrow> double list \<Rightarrow> double" where
  "horner t [] = zero"
| "horner t [c] = c"
| "horner t (c # cs) = d_add c (d_mul t (horner t cs))"

definition lasin_p :: "double \<Rightarrow> double" where "lasin_p t = d_mul t (horner t pS)"
definition lasin_q :: "double \<Rightarrow> double" where "lasin_q t = horner t qS"

definition set_low_word :: "double \<Rightarrow> u32 \<Rightarrow> double" where
  "set_low_word d v = insert_words (high_word d) v"

definition set_high_word :: "double \<Rightarrow> u32 \<Rightarrow> double" where
  "set_high_word d v = insert_words v (low_word d)"

definition lasin :: "double \<Rightarrow> double option" where
  "lasin x =
     (let hx = high_word x; ix = hx AND 0x7FFFFFFF in
      if 0x3FF00000 <=s ix then
        (if (ix - 0x3FF00000) OR low_word x = 0 then Some (d_add (d_mul x pio2_hi) (d_mul x pio2_lo))
         else Some (d_div (d_sub x x) (d_sub x x)))
      else if ix <s 0x3FE00000 \<and> ix <s 0x3E400000 \<and> d_less one (d_add huge x) then Some x
      else if ix <s 0x3FE00000 \<and> \<not> ix <s 0x3E400000 then
        (let t = d_mul x x; w = d_div (lasin_p t) (lasin_q t) in Some (d_add x (d_mul x w)))
      else do {
        let w = d_sub one (lfabs x);
        let t = d_mul w half;
        let p = lasin_p t;
        let q = lasin_q t;
        s \<leftarrow> lsqrt t;
        let t = (if 0x3FEF3333 <=s ix then
                   (let w = d_div p q in
                    d_sub pio2_hi (d_sub (d_mul two (d_add s (d_mul s w))) pio2_lo))
                 else
                   (let w = set_low_word s 0;
                        c = d_div (d_sub t (d_mul w w)) (d_add s w);
                        r = d_div p q;
                        p = d_sub (d_mul (d_mul two s) r) (d_sub pio2_lo (d_mul two c));
                        q = d_sub pio4_hi (d_mul two w)
                    in d_sub pio4_hi (d_sub p q)));
        Some (if 0 <s hx then t else d_uminus t)
      })"

text \<open>The reduced argument of \<^verbatim>\<open>latan\<close> and the index into its tables.\<close>

definition one_half_3 :: double where "one_half_3 = 0x3FF8000000000000"

definition latan_reduce :: "u32 \<Rightarrow> double \<Rightarrow> nat \<times> double" where
  "latan_reduce ix x =
     (if ix <s 0x3FF30000 then
        (if ix <s 0x3FE60000 then (0, d_div (d_sub (d_mul two x) one) (d_add two x))
         else (1, d_div (d_sub x one) (d_add x one)))
      else
        (if ix <s 0x40038000 then (2, d_div (d_sub x one_half_3) (d_add one (d_mul one_half_3 x)))
         else (3, d_div (d_uminus one) x)))"

definition latan_sum :: "double \<Rightarrow> double" where
  "latan_sum x =
     (let z = d_mul x x;
          w = d_mul z z;
          s1 = d_mul z (horner w [aT ! 0, aT ! 2, aT ! 4, aT ! 6, aT ! 8, aT ! 10]);
          s2 = d_mul w (horner w [aT ! 1, aT ! 3, aT ! 5, aT ! 7, aT ! 9])
      in d_mul x (d_add s1 s2))"

definition latan :: "double \<Rightarrow> double" where
  "latan x =
     (let hx = high_word x; ix = hx AND 0x7FFFFFFF in
      if 0x44100000 <=s ix then
        (if 0x7FF00000 <s ix \<or> ix = 0x7FF00000 \<and> low_word x \<noteq> 0 then d_add x x
         else if 0 <s hx then d_add (atanhi ! 3) (atanlo ! 3)
         else d_sub (d_uminus (atanhi ! 3)) (atanlo ! 3))
      else if ix <s 0x3FDC0000 then
        (if ix <s 0x3E200000 \<and> d_less one (d_add huge x) then x else d_sub x (latan_sum x))
      else
        (let (id, x) = latan_reduce ix (lfabs x);
             z = d_sub (atanhi ! id) (d_sub (d_sub (latan_sum x) (atanlo ! id)) x)
         in if hx <s 0 then d_uminus z else z))"

text \<open>\<^verbatim>\<open>(ix|((lx|-lx)>>31))>0x7ff00000\<close>\<close>

definition nan_words :: "u32 \<Rightarrow> u32 \<Rightarrow> bool" where
  "nan_words ix lx \<longleftrightarrow> 0x7FF00000 < (ix OR drop_bit 31 (lx OR (- lx)))"

definition three :: double where "three = 0x4008000000000000"

definition atan2_special :: "u32 \<Rightarrow> double \<Rightarrow> double" where
  "atan2_special m c = (if m = 0 then d_add c tiny else d_sub (d_uminus c) tiny)"

definition latan2_quotient :: "u32 \<Rightarrow> double \<Rightarrow> double \<Rightarrow> double" where
  "latan2_quotient m y x =
     (let hx = high_word x;
          k = signed_drop_bit 20 ((high_word y AND 0x7FFFFFFF) - (hx AND 0x7FFFFFFF));
          z = (if 60 <s k then d_add pi_o_2 (d_mul half pi_lo)
               else if hx <s 0 \<and> k <s - 60 then 0
               else latan (lfabs (d_div y x)))
      in if m = 0 then z
         else if m = 1 then set_high_word z (high_word z XOR 0x80000000)
         else if m = 2 then d_sub dpi (d_sub z pi_lo)
         else d_sub (d_sub z pi_lo) dpi)"

definition latan2 :: "double \<Rightarrow> double \<Rightarrow> double" where
  "latan2 y x =
     (let hx = high_word x; lx = low_word x; ix = hx AND 0x7FFFFFFF;
          hy = high_word y; ly = low_word y; iy = hy AND 0x7FFFFFFF in
      if nan_words ix lx \<or> nan_words iy ly then d_add x y
      else if (hx - 0x3FF00000) OR lx = 0 then latan y
      else
        (let m = ((signed_drop_bit 31 hy) AND 1) OR ((signed_drop_bit 30 hx) AND 2) in
         if iy OR ly = 0 then (if m = 0 \<or> m = 1 then y else atan2_special (m AND 1) dpi)
         else if ix OR lx = 0 then atan2_special (if hy <s 0 then 1 else 0) pi_o_2
         else if ix = 0x7FF00000 then
           (if iy = 0x7FF00000 then
              (if m = 0 then d_add pi_o_4 tiny
               else if m = 1 then d_sub (d_uminus pi_o_4) tiny
               else if m = 2 then d_add (d_mul three pi_o_4) tiny
               else d_sub (d_mul (d_uminus three) pi_o_4) tiny)
            else
              (if m = 0 then zero
               else if m = 1 then d_uminus zero
               else atan2_special (m AND 1) dpi))
         else if iy = 0x7FF00000 then atan2_special (if hy <s 0 then 1 else 0) pi_o_2
         else latan2_quotient m y x))"

section \<open>The special cases of latan2\<close>

lemma abs_high: "uint (high_word x AND 0x7FFFFFFF) = d_exp x * 2 ^ 20 + d_frac x div 2 ^ 32"
proof -
  have "high_word x AND 0x7FFFFFFF = take_bit 31 (high_word x)"
    by (simp add: take_bit_eq_mask mask_eq_exp_minus_1)
  then have u: "uint (high_word x AND 0x7FFFFFFF) = uint x div 2 ^ 32 mod 2 ^ 31"
    by (simp add: uint_take_bit uint_high)
  have h: "uint x div 2 ^ 32 = (if d_neg x then 2 ^ 31 else 0) + (d_exp x * 2 ^ 20 + d_frac x div 2 ^ 32)"
  proof -
    have "uint x = d_frac x + ((if d_neg x then 2 ^ 31 else 0) + d_exp x * 2 ^ 20) * 2 ^ 32"
      unfolding uint_fields[of x] by simp
    then show ?thesis by (simp only: div_mult_self1 power_not_zero) simp
  qed
  have "0 \<le> d_exp x * 2 ^ 20 + d_frac x div 2 ^ 32" "d_exp x * 2 ^ 20 + d_frac x div 2 ^ 32 < 2 ^ 31"
    using d_exp_range[of x] d_frac_range[of x] by (simp_all add: pos_imp_zdiv_nonneg_iff)
  then show ?thesis unfolding u h by (simp add: mod_pos_pos_trivial)
qed

lemma low_frac: "uint (low_word x) = d_frac x mod 2 ^ 32"
  unfolding uint_low d_frac_uint by (simp add: mod_mod_cancel)

lemma frac_zero: "d_frac x = 0 \<longleftrightarrow> d_frac x div 2 ^ 32 = 0 \<and> d_frac x mod 2 ^ 32 = 0"
  by (metis div_0 mod_0 mod_div_trivial mult_div_mod_eq mult_zero_right add_0)

lemma low_zero: "low_word x = 0 \<longleftrightarrow> d_frac x mod 2 ^ 32 = 0"
  unfolding low_frac[symmetric] by (simp add: uint_0_iff)

lemma zero_words: "(high_word x AND 0x7FFFFFFF) OR low_word x = 0 \<longleftrightarrow> d_zero x"
proof -
  have "high_word x AND 0x7FFFFFFF = 0 \<longleftrightarrow> d_exp x = 0 \<and> d_frac x div 2 ^ 32 = 0"
    using abs_high[of x] d_exp_range[of x] d_frac_range[of x]
    by (simp add: pos_imp_zdiv_nonneg_iff flip: uint_0_iff) (smt (verit) pos_imp_zdiv_nonneg_iff)
  then show ?thesis unfolding or_eq_0_iff low_zero d_zero_def using frac_zero[of x] by auto
qed

lemma nonzero_top: "drop_bit 31 (w OR (- w)) = (if w = 0 then 0 else 1 :: u32)"
proof (cases "w = 0")
  case False
  have "bit (w OR (- w)) 31"
  proof -
    have u: "0 < unat w" using False by (simp add: unat_gt_0)
    have "unat (- w) = 2 ^ 32 - unat w" using unat_sub_if'[of 0 w] u by simp
    then have "2 ^ 31 \<le> unat w \<or> 2 ^ 31 \<le> unat (- w)" by auto
    then have "w AND sign = sign \<or> (- w) AND sign = sign" unfolding sign_tests .
    moreover have "bit sign 31" by (simp add: sign_def)
    ultimately show ?thesis by (metis bit_and_iff bit_or_iff)
  qed
  moreover have "drop_bit 31 v = (if bit v 31 then 1 else 0)" for v :: u32
  proof (rule bit_word_eqI)
    fix n
    show "bit (drop_bit 31 v) n = bit (if bit v 31 then 1 else 0 :: u32) n"
      by (cases n) (auto simp: bit_simps bit_1_iff dest: bit_imp_le_length)
  qed
  ultimately show ?thesis using False by (simp only: if_True if_False)
qed simp

lemma nan_words_eq: "nan_words (high_word x AND 0x7FFFFFFF) (low_word x) = d_nan x"
proof -
  define H where "H = high_word x AND 0x7FFFFFFF"
  have H: "uint H = d_exp x * 2 ^ 20 + d_frac x div 2 ^ 32" unfolding H_def by (rule abs_high)
  have f: "0 \<le> d_frac x div 2 ^ 32" "d_frac x div 2 ^ 32 < 2 ^ 20"
    using d_frac_range[of x] by (simp_all add: pos_imp_zdiv_nonneg_iff)
  have lt: "(0x7FF00000 < w) = (2047 * 2 ^ 20 < uint w)" for w :: u32 by (simp add: word_less_def)
  have one: "uint (H OR 1) = (if even (uint H) then uint H + 1 else uint H)"
    unfolding unsigned_or_eq by (simp add: or_one_eq)
  show ?thesis
  proof (cases "low_word x = 0")
    case True
    then have "d_frac x = 0 \<longleftrightarrow> d_frac x div 2 ^ 32 = 0" using frac_zero[of x] low_zero[of x] by simp
    then show ?thesis using True H f d_exp_range[of x]
      unfolding nan_words_def H_def[symmetric] lt nonzero_top d_nan_def by auto
  next
    case False
    then have "d_frac x \<noteq> 0" using frac_zero[of x] low_zero[of x] by simp
    moreover have "2047 * 2 ^ 20 < uint (H OR 1) \<longleftrightarrow> 2047 * 2 ^ 20 \<le> uint H"
    proof (cases "uint H = 2047 * 2 ^ 20")
      case True
      then show ?thesis unfolding one by simp
    qed (unfold one, auto)
    ultimately show ?thesis using False H f d_exp_range[of x]
      unfolding nan_words_def H_def[symmetric] lt nonzero_top d_nan_def by auto
  qed
qed

lemma inf_words: "high_word x AND 0x7FFFFFFF = 0x7FF00000 \<longleftrightarrow> d_exp x = 2047 \<and> d_frac x div 2 ^ 32 = 0"
proof -
  have f: "0 \<le> d_frac x div 2 ^ 32" "d_frac x div 2 ^ 32 < 2 ^ 20"
    using d_frac_range[of x] by (simp_all add: pos_imp_zdiv_nonneg_iff)
  have "high_word x AND 0x7FFFFFFF = 0x7FF00000 \<longleftrightarrow> uint (high_word x AND 0x7FFFFFFF) = 2047 * 2 ^ 20"
    by (simp add: word_uint_eq_iff)
  moreover have "d_exp x \<le> 2046 \<or> d_exp x = 2047" using d_exp_range(2)[of x] by linarith
  ultimately show ?thesis unfolding abs_high using f by auto
qed

lemma inf_words_number: "\<not> d_nan x \<Longrightarrow> high_word x AND 0x7FFFFFFF = 0x7FF00000 \<longleftrightarrow> d_inf x"
  unfolding inf_words d_nan_def d_inf_def by (cases "d_frac x = 0") auto

lemma neg_words: "high_word x <s 0 \<longleftrightarrow> d_neg x"
proof -
  have "bit (high_word x) 31 = d_neg x" by (simp add: d_neg_def high_word_def bit_simps)
  then show ?thesis using bit_last_iff[of "high_word x"] by (simp add: word_sless_alt)
qed

lemma one_words: "(high_word x - 0x3FF00000) OR low_word x = 0 \<longleftrightarrow> x = one"
proof -
  have "x = insert_words (high_word x) (low_word x)"
    by (rule word_uint_eqI) (simp add: uint_insert_words uint_high uint_low)
  then have "x = one" if "high_word x = 0x3FF00000" "low_word x = 0"
    using that by (simp add: insert_words_def one_def push_bit_eq_mult)
  moreover have "high_word one = 0x3FF00000" "low_word one = 0" by code_simp+
  ultimately show ?thesis unfolding or_eq_0_iff by auto
qed

definition atan2_quadrant :: "double \<Rightarrow> double \<Rightarrow> u32" where
  "atan2_quadrant y x = (if d_neg x then 2 else 0) + (if d_neg y then 1 else 0)"

lemma quadrant_words:
  "(signed_drop_bit 31 (high_word y) AND 1) OR (signed_drop_bit 30 (high_word x) AND 2) = atan2_quadrant y x"
proof -
  have a: "signed_drop_bit 31 (high_word y) AND 1 = (if d_neg y then 1 else 0)"
  proof (rule bit_word_eqI)
    fix n
    show "bit (signed_drop_bit 31 (high_word y) AND 1) n = bit (if d_neg y then 1 else 0 :: u32) n"
      by (cases n) (auto simp: bit_simps bit_1_iff d_neg_def high_word_def)
  qed
  have b: "bit (2 :: u32) n = (n = 1)" for n
    using bit_exp_iff[of 1 n, where 'a = u32] by auto
  have c: "signed_drop_bit 30 (high_word x) AND 2 = (if d_neg x then 2 else 0)"
    by (rule bit_word_eqI) (auto simp: bit_simps b d_neg_def high_word_def)
  show ?thesis unfolding a c atan2_quadrant_def by simp
qed

section \<open>Adding a number too small to matter\<close>

lemma pow2_updown: "pow2_up a * pow2_down b * 2 ^ nat (b - a) = pow2_down a * pow2_up b" if "a \<le> b"
  unfolding pow2_up_def pow2_down_def power_add[symmetric]
  by (rule arg_cong[where f = "\<lambda>n. 2 ^ n"]) (use that in linarith)

lemma d_unit_range: "d_exp x \<le> 2046 \<Longrightarrow> - 1074 \<le> d_unit x" "1 \<le> d_exp x \<Longrightarrow> d_unit x = d_exp x - 1075"
  using d_exp_range[of x] by (auto simp: d_unit_def)

lemma d_mant_range: "0 \<le> d_mant x" "d_mant x < 2 ^ 53" "1 \<le> d_exp x \<Longrightarrow> 2 ^ 52 \<le> d_mant x"
  using d_frac_range[of x] by (auto simp: d_mant_def)

lemma d_signed_bits:
  assumes "1 \<le> d_exp x" "d_exp x \<le> 2046"
  shows "d_signed (d_neg x) (of_int ((d_unit x + 1074) * 2 ^ 52 + d_mant x)) = x"
proof -
  have m: "(d_unit x + 1074) * 2 ^ 52 + d_mant x = d_exp x * 2 ^ 52 + d_frac x"
    using assms by (simp add: d_unit_def d_mant_def algebra_simps)
  define k where "k = d_exp x * 2 ^ 52 + d_frac x"
  have k: "0 \<le> k" "k < 2 ^ 63" "uint x = (if d_neg x then 2 ^ 63 else 0) + k"
    using uint_fields[of x] d_frac_range[of x] assms by (simp_all add: k_def)
  have u: "uint (of_int k :: double) = k" using k by (simp add: uint_of_int_64)
  have "bit (of_int k :: double) 63 = bit (uint (of_int k :: double)) 63" by (simp add: bit_uint_iff)
  also have "\<dots> = odd (k div 2 ^ 63)" unfolding u by (rule bit_iff_odd)
  also have "k div 2 ^ 63 = 0" using k by (simp add: div_pos_pos_trivial)
  finally have "\<not> bit (of_int k :: double) 63" by simp
  then have "(of_int k :: double) OR 2 ^ 63 = of_int k + 2 ^ 63"
  proof (intro disjunctive_add[symmetric])
    fix n
    have "bit (2 ^ 63 :: double) n = (n = 63)" unfolding bit_exp_iff by auto
    then show "\<not> bit (of_int k :: double) n \<or> \<not> bit (2 ^ 63 :: double) n"
      using \<open>\<not> bit (of_int k :: double) 63\<close> by metis
  qed
  then have "uint (d_signed (d_neg x) (of_int k)) = uint x"
    using k u uint_of_int_64[of "k + 2 ^ 63"] by (simp add: d_signed_def)
  then show ?thesis unfolding m k_def[symmetric] by (rule word_uint_eqI)
qed

lemma d_add_absorb:
  assumes c: "1 \<le> d_exp c" "d_exp c \<le> 2046" and s: "d_exp s \<le> 2046"
    and far: "d_unit s + 54 \<le> d_unit c" and neg: "d_neg s = d_neg c \<or> d_zero s"
  shows "d_add c s = c"
proof -
  define e u where "e = d_unit s" and "u = d_unit c"
  define D where "D = nat (u - e)"
  have D: "54 \<le> D" using far by (simp add: D_def e_def u_def)
  define n t where "n = d_mant c" and "t = d_mant s"
  have n: "2 ^ 52 \<le> n" "n < 2 ^ 53" "0 \<le> t" "t < 2 ^ 53"
    using d_mant_range[of c] d_mant_range[of s] c by (simp_all add: n_def t_def)
  define z where "z = n * 2 ^ D + t"
  have p53: "(2 :: int) ^ 53 * 2 \<le> 2 ^ D" using power_increasing[OF D, of "2 :: int"] by simp
  have z: "0 < z" "2 ^ (52 + D) \<le> z" "z < 2 ^ Suc (52 + D)"
  proof -
    have "2 ^ 52 * 2 ^ D \<le> n * (2 :: int) ^ D" using n(1) by (intro mult_right_mono) simp_all
    then show "2 ^ (52 + D) \<le> z" using n(3) unfolding z_def power_add by linarith
    then show "0 < z" using zero_less_power[of "2 :: int" "52 + D"] by linarith
    have "(n + 1) * 2 ^ D \<le> 2 ^ 53 * (2 :: int) ^ D" using n(2) by (intro mult_right_mono) simp_all
    moreover have "(2 :: int) ^ Suc (52 + D) = 2 ^ 53 * 2 ^ D" by (simp add: power_add)
    ultimately show "z < 2 ^ Suc (52 + D)" using n(4) p53 zero_less_power[of "2 :: int" 53] unfolding z_def distrib_right by linarith
  qed
  have zero: "d_zero s \<Longrightarrow> t = 0" by (simp add: t_def d_zero_def d_mant_def)
  have sum: "d_int c * 2 ^ nat (u - e) + d_int s * 2 ^ nat (e - e) = (if d_neg c then - z else z)"
    unfolding D_def[symmetric] d_int_def z_def n_def t_def[symmetric] using neg zero by auto
  have fin: "\<not> d_nan c" "\<not> d_nan s" "\<not> d_inf c" "\<not> d_inf s" using c s by (auto simp: d_nan_def d_inf_def)
  have "d_add c s = d_scaled (d_neg c \<and> d_neg s) (if d_neg c then - z else z) e"
  proof -
    have "min (d_unit c) (d_unit s) = e" using far by (simp add: e_def)
    then show ?thesis unfolding d_add_def Let_def sum[symmetric] using fin by (simp add: u_def e_def)
  qed
  also have "\<dots> = d_round (d_neg c) (z * pow2_up e) (pow2_down e)"
    unfolding d_scaled_def using z(1) by auto
  also have "\<dots> = d_signed (d_neg c) (of_int ((u + 1074) * 2 ^ 52 + n))"
  proof (rule d_round_eq)
    define P Q where "P = z * pow2_up e" and "Q = pow2_down e"
    have pos: "0 < pow2_up k" "0 < pow2_down k" for k by (simp_all add: pow2_up_def pow2_down_def)
    show "z * pow2_up e \<noteq> 0" using z(1) pos[of e] by simp
    have bp: "int_bits (z * pow2_up e) = int (52 + D + nat e) + 1"
    proof (rule int_bits_eq)
      show "2 ^ (52 + D + nat e) \<le> z * pow2_up e" unfolding power_add[of _ "52 + D"] pow2_up_def
        by (rule mult_right_mono[OF z(2)]) simp
      have "z * 2 ^ nat e < 2 ^ Suc (52 + D) * 2 ^ nat e" by (rule mult_strict_right_mono[OF z(3)]) simp
      then show "z * pow2_up e < 2 ^ Suc (52 + D + nat e)" by (simp add: pow2_up_def power_add)
    qed
    have bq: "int_bits (pow2_down e) = int (nat (- e)) + 1" unfolding pow2_down_def by (rule int_bits_pow2)
    show k: "52 + u = int_bits (z * pow2_up e) - int_bits (pow2_down e)"
      unfolding bp bq using far by (auto simp: D_def e_def u_def)
    have ue: "e \<le> u" using far by (simp add: e_def u_def)
    have down: "pow2_up e * pow2_down u * 2 ^ D = pow2_down e * pow2_up u"
      unfolding D_def by (rule pow2_updown[OF ue])
    have "pow2_down e * pow2_up (52 + u) \<le> z * pow2_up e * pow2_down (52 + u)"
    proof -
      have "pow2_up e * pow2_down (52 + u) * 2 ^ nat (52 + u - e) = pow2_down e * pow2_up (52 + u)"
        by (rule pow2_updown) (use ue in simp)
      moreover have "nat (52 + u - e) = 52 + D" using ue by (simp add: D_def)
      ultimately have "pow2_down e * pow2_up (52 + u) = 2 ^ (52 + D) * (pow2_up e * pow2_down (52 + u))" by (simp add: mult.commute)
      also have "\<dots> \<le> z * (pow2_up e * pow2_down (52 + u))" using z(2) pos by (intro mult_right_mono) (simp_all add: less_imp_le)
      finally show ?thesis by (simp add: mult.assoc)
    qed
    then show "52 + u = (if pow2_down e * pow2_up (52 + u) \<le> z * pow2_up e * pow2_down (52 + u) then 52 + u else 52 + u - 1)"
      by simp
    show "u = max (52 + u - 52) (- 1074)" using d_unit_range[of c] c by (simp add: u_def)
    define g where "g = pow2_up e * pow2_down u"
    have g: "0 < g" using pos by (simp add: g_def)
    have b: "pow2_down e * pow2_up u = g * 2 ^ D" unfolding g_def down ..
    show "z * pow2_up e * pow2_down u = pow2_down e * pow2_up u * n + t * g"
      unfolding b by (simp add: z_def g_def algebra_simps)
    show "0 \<le> t * g" using n(3) g by simp
    have lt: "2 * (t * g) < g * 2 ^ D"
    proof -
      have "2 * t < 2 ^ D" using n(4) p53 by linarith
      then have "2 * t * g < 2 ^ D * g" using g by (rule mult_strict_right_mono)
      then show ?thesis by (simp add: ac_simps)
    qed
    then show "t * g < pow2_down e * pow2_up u" unfolding b using \<open>0 \<le> t * g\<close> by linarith
    have "\<not> (g * 2 ^ D < 2 * (t * g) \<or> 2 * (t * g) = g * 2 ^ D \<and> odd n)" using lt by linarith
    then show "n = (if pow2_down e * pow2_up u < 2 * (t * g) \<or> 2 * (t * g) = pow2_down e * pow2_up u \<and> odd n then n + 1 else n)"
      unfolding b by (simp only: if_False)
    show "(u + 1074) * 2 ^ 52 + n < 2047 * 2 ^ 52"
    proof -
      have "u + 1074 \<le> 2045" using d_unit_range(2)[of c] c by (simp add: u_def)
      then have "(u + 1074) * 2 ^ 52 \<le> 2045 * 2 ^ 52" by (rule mult_right_mono) simp
      then show ?thesis using n(2) by simp
    qed
  qed
  also have "\<dots> = c" unfolding u_def n_def by (rule d_signed_bits[OF c])
  finally show ?thesis .
qed

lemma atan2_special_eq:
  assumes "1 \<le> d_exp c" "d_exp c \<le> 2046" and "- 995 \<le> d_unit c" and "\<not> d_neg c"
    and n: "1 \<le> d_exp (d_uminus c)" "d_exp (d_uminus c) \<le> 2046" "- 995 \<le> d_unit (d_uminus c)" "d_neg (d_uminus c)"
  shows "d_add c tiny = c" and "d_sub (d_uminus c) tiny = d_uminus c"
proof -
  have t: "d_unit tiny = - 1049" "d_unit (d_uminus tiny) = - 1049"
    unfolding d_unit_def tiny_fields by simp_all
  show "d_add c tiny = c"
    by (rule d_add_absorb) (use assms t in \<open>simp_all add: tiny_fields\<close>)
  show "d_sub (d_uminus c) tiny = d_uminus c" unfolding d_sub_def
    by (rule d_add_absorb) (use assms t in \<open>simp_all add: tiny_fields\<close>)
qed

lemma pi_tiny:
  "d_add dpi tiny = dpi" "d_sub (d_uminus dpi) tiny = d_uminus dpi"
  "d_add pi_o_2 tiny = pi_o_2" "d_sub (d_uminus pi_o_2) tiny = d_uminus pi_o_2"
  "d_add pi_o_4 tiny = pi_o_4" "d_sub (d_uminus pi_o_4) tiny = d_uminus pi_o_4"
  by (rule atan2_special_eq; code_simp)+

definition pi_3_o_4 :: double where "pi_3_o_4 = 0x4002D97C7F3321D2"

lemma pi_3_tiny: "d_add (d_mul three pi_o_4) tiny = pi_3_o_4" "d_sub (d_mul (d_uminus three) pi_o_4) tiny = d_uminus pi_3_o_4"
proof -
  have m: "d_mul three pi_o_4 = pi_3_o_4" "d_mul (d_uminus three) pi_o_4 = d_uminus pi_3_o_4" by code_simp+
  show "d_add (d_mul three pi_o_4) tiny = pi_3_o_4" "d_sub (d_mul (d_uminus three) pi_o_4) tiny = d_uminus pi_3_o_4"
    unfolding m by (rule atan2_special_eq; code_simp)+
qed

lemma d_add_nan: "d_nan x \<or> d_nan y \<Longrightarrow> d_add x y = DBL_NAN"
  by (simp add: d_add_def)

definition d_copysign :: "double \<Rightarrow> double \<Rightarrow> double" where
  "d_copysign c y = (if d_neg y then d_uminus c else c)"

text \<open>
  \<^verbatim>\<open>latan2\<close> sorts its arguments like the C standard's \<^verbatim>\<open>atan2\<close>: a NaN gives a NaN, a zero
  or infinite argument exactly the multiple of a quarter of pi that belongs to it with the sign of
  \<open>y\<close> (the tiny number added to it changes nothing), and only finite non-zero arguments reach the
  quotient.
\<close>

theorem latan2_special_cases:
  "latan2 y x =
     (if d_nan x \<or> d_nan y then DBL_NAN
      else if x = one then latan y
      else if d_zero y then (if d_neg x then d_copysign dpi y else y)
      else if d_zero x then d_copysign pi_o_2 y
      else if d_inf x then
        (if d_inf y then d_copysign (if d_neg x then pi_3_o_4 else pi_o_4) y
         else d_copysign (if d_neg x then dpi else zero) y)
      else if d_inf y then d_copysign pi_o_2 y
      else latan2_quotient (atan2_quadrant y x) y x)"
proof (cases "d_nan x \<or> d_nan y")
  case True
  then show ?thesis unfolding latan2_def Let_def nan_words_eq by (simp add: d_add_nan)
next
  case False
  then have n: "\<not> d_nan x" "\<not> d_nan y" by simp_all
  have q: "(0 :: u32) AND 1 = 0" "(1 :: u32) AND 1 = 1" "(2 :: u32) AND 1 = 0" "(3 :: u32) AND 1 = 1" by simp_all
  show ?thesis
    unfolding latan2_def Let_def nan_words_eq one_words zero_words quadrant_words neg_words
      inf_words_number[OF n(1)] inf_words_number[OF n(2)]
    using n by (simp add: atan2_quadrant_def atan2_special_def pi_tiny pi_3_tiny d_copysign_def)
qed

section \<open>lasin always returns\<close>

lemma int_bits_bounds:
  assumes "0 < p" shows "1 \<le> int_bits p \<and> 2 ^ nat (int_bits p - 1) \<le> p \<and> p < 2 ^ nat (int_bits p)"
  using assms
proof (induction p rule: int_bits.induct)
  case (1 n)
  show ?case
  proof (cases "n = 1")
    case True
    then show ?thesis by (simp add: int_bits.simps[of 1] int_bits.simps[of 0])
  next
    case False
    then have pos: "0 < n div 2" using "1.prems" by (simp add: pos_imp_zdiv_pos_iff)
    then have ih: "1 \<le> int_bits (n div 2)" "2 ^ nat (int_bits (n div 2) - 1) \<le> n div 2" "n div 2 < 2 ^ nat (int_bits (n div 2))"
      using "1.IH" "1.prems" by simp_all
    define m where "m = nat (int_bits (n div 2) - 1)"
    have m: "int_bits (n div 2) = int m + 1" using ih(1) by (simp add: m_def)
    have b: "int_bits n = int m + 2" using "1.prems" m by (subst int_bits.simps) simp
    have "2 ^ m \<le> n div 2" "n div 2 < 2 ^ Suc m" using ih(2,3) unfolding m by (simp_all add: nat_add_distrib)
    then have "2 ^ Suc m \<le> n" "n < 2 ^ Suc (Suc m)" by simp_all
    then show ?thesis unfolding b by (simp add: nat_add_distrib)
  qed
qed

lemma pow2_pos: "0 < pow2_up e" "0 < pow2_down e"
  by (simp_all add: pow2_up_def pow2_down_def)

lemma d_exp_signed: "d_exp (d_signed neg x) = d_exp x"
proof -
  have "bit (0x8000000000000000 :: double) n = (n = 63)" for n
    using bit_exp_iff[of 63 n, where 'a = double] by auto
  then have "take_bit 11 (drop_bit 52 (x OR 0x8000000000000000)) = take_bit 11 (drop_bit 52 x)"
    by (intro bit_word_eqI) (auto simp: bit_simps)
  then show ?thesis by (simp add: d_signed_def d_exp_def)
qed

lemma d_exp_special: "d_exp DBL_NAN = 2047" "d_exp (DBL_INF neg) = 2047"
proof -
  show "d_exp DBL_NAN = 2047" by code_simp
  have "d_exp (0x7FF0000000000000) = 2047" by code_simp
  then show "d_exp (DBL_INF neg) = 2047" by (simp add: DBL_INF_def d_exp_signed)
qed

lemma d_exp_of_bits:
  assumes "0 \<le> b" "b < 2047 * 2 ^ 52"
  shows "d_exp (of_int b) = b div 2 ^ 52"
proof -
  have "uint (of_int b :: double) = b" using assms by (simp add: uint_of_int_64)
  moreover have "0 \<le> b div 2 ^ 52" "b div 2 ^ 52 < 2 ^ 11" using assms by (simp_all add: pos_imp_zdiv_nonneg_iff)
  ultimately show ?thesis unfolding d_exp_uint by (simp only: mod_pos_pos_trivial)
qed

text \<open>A quotient of about \<open>2\<^sup>k\<close> rounds to a number with about that exponent.\<close>

lemma d_round_exp:
  assumes "0 < p" and "0 < q" and k: "k = int_bits p - int_bits q" "- 1000 \<le> k"
  shows "k + 1022 \<le> d_exp (d_round neg p q) \<or> d_exp (d_round neg p q) = 2047"
proof -
  define e where "e = (if p * pow2_down k \<ge> q * pow2_up k then k else k - 1)"
  define u where "u = e - 52"
  define n where "n = p * pow2_down u div (q * pow2_up u)"
  note bp = int_bits_bounds[OF assms(1)] and bq = int_bits_bounds[OF assms(2)]
  have e: "k - 1 \<le> e" "q * pow2_up e \<le> p * pow2_down e"
  proof -
    show "k - 1 \<le> e" by (simp add: e_def)
    have "q * pow2_up (k - 1) \<le> p * pow2_down (k - 1)"
    proof -
      have "(2 :: int) ^ nat (int_bits q) * pow2_up (k - 1) = 2 ^ nat (int_bits p - 1) * pow2_down (k - 1)"
        unfolding pow2_up_def pow2_down_def power_add[symmetric]
        by (rule arg_cong[where f = "\<lambda>n. 2 ^ n"]) (use bp bq k in linarith)
      moreover have "q * pow2_up (k - 1) \<le> 2 ^ nat (int_bits q) * pow2_up (k - 1)"
        using bq pow2_pos[of "k - 1"] by (intro mult_right_mono) simp_all
      moreover have "2 ^ nat (int_bits p - 1) * pow2_down (k - 1) \<le> p * pow2_down (k - 1)"
        using bp pow2_pos[of "k - 1"] by (intro mult_right_mono) simp_all
      ultimately show ?thesis by simp
    qed
    then show "q * pow2_up e \<le> p * pow2_down e" by (simp add: e_def)
  qed
  have nn: "2 ^ 52 \<le> n"
  proof -
    have eq: "pow2_up u * pow2_down e * 2 ^ 52 = pow2_down u * pow2_up e"
      using pow2_updown[of u e] by (simp add: u_def)
    have "2 ^ 52 * (q * pow2_up u) * pow2_down e = q * pow2_up e * pow2_down u"
      using eq by (simp add: ac_simps)
    also have "\<dots> \<le> p * pow2_down e * pow2_down u" using e(2) pow2_pos[of u] by (intro mult_right_mono) simp_all
    finally have "(2 ^ 52 * (q * pow2_up u)) * pow2_down e \<le> (p * pow2_down u) * pow2_down e" by (simp add: ac_simps)
    then have "2 ^ 52 * (q * pow2_up u) \<le> p * pow2_down u" using pow2_pos[of e] by (simp add: mult_le_cancel_right)
    then have "2 ^ 52 * (q * pow2_up u) div (q * pow2_up u) \<le> n"
      unfolding n_def using assms(2) pow2_pos[of u] by (intro zdiv_mono1) simp_all
    moreover have "q * pow2_up u \<noteq> 0" using assms(2) pow2_pos(1)[of u] by simp
    ultimately show ?thesis by simp
  qed
  have um: "max (e - 52) (- 1074) = u" using e(1) k(2) by (simp add: u_def)
  obtain n' where n': "n' = n \<or> n' = n + 1" and r: "d_round neg p q =
      (if (u + 1074) * 2 ^ 52 + n' \<ge> 2047 * 2 ^ 52 then DBL_INF neg else d_signed neg (of_int ((u + 1074) * 2 ^ 52 + n')))"
  proof -
    define n' where "n' = (let r = p * pow2_down u mod (q * pow2_up u); b = q * pow2_up u in
        if 2 * r > b \<or> 2 * r = b \<and> odd n then n + 1 else n)"
    have "n' = n \<or> n' = n + 1" by (simp add: n'_def Let_def)
    moreover have "p = 0 \<longleftrightarrow> False" using assms(1) by simp
    then have "d_round neg p q =
      (if (u + 1074) * 2 ^ 52 + n' \<ge> 2047 * 2 ^ 52 then DBL_INF neg else d_signed neg (of_int ((u + 1074) * 2 ^ 52 + n')))"
      unfolding d_round_def n'_def Let_def k(1)[symmetric] e_def[symmetric] um n_def[symmetric] by (simp only: if_False)
    ultimately show thesis by (rule that)
  qed
  define b where "b = (u + 1074) * 2 ^ 52 + n'"
  have b: "(u + 1075) * 2 ^ 52 \<le> b" using nn n' by (auto simp: b_def algebra_simps)
  have u: "k + 1022 \<le> u + 1075" using e(1) by (simp add: u_def)
  show ?thesis
  proof (cases "2047 * 2 ^ 52 \<le> b")
    case True
    then show ?thesis unfolding r b_def[symmetric] by (simp add: d_exp_special)
  next
    case False
    have "0 \<le> (u + 1075) * 2 ^ 52" using u k(2) by simp
    then have "d_exp (of_int b) = b div 2 ^ 52" using False b by (intro d_exp_of_bits) linarith+
    moreover have "(u + 1075) * 2 ^ 52 div 2 ^ 52 \<le> b div 2 ^ 52" by (rule zdiv_mono1[OF b]) simp
    ultimately have "u + 1075 \<le> d_exp (of_int b)" by simp
    then show ?thesis unfolding r b_def[symmetric] using False u by (simp add: d_exp_signed)
  qed
qed

lemma int_bits_pos: "0 < p \<Longrightarrow> 1 \<le> int_bits p"
  using int_bits_bounds[of p] by simp

lemma int_bits_ge: "2 ^ n \<le> p \<Longrightarrow> int n + 1 \<le> int_bits p"
proof -
  assume p: "2 ^ n \<le> p"
  moreover have "(0 :: int) < 2 ^ n" by simp
  ultimately have "0 < p" by linarith
  note b = int_bits_bounds[OF this]
  have "(2 :: int) ^ n < 2 ^ nat (int_bits p)" using p b by linarith
  then have "n < nat (int_bits p)" by (rule power_less_imp_less_exp[rotated]) simp
  then show ?thesis by linarith
qed

lemma lfabs_fields: "d_exp (lfabs x) = d_exp x" "d_frac (lfabs x) = d_frac x" "\<not> d_neg (lfabs x)"
proof -
  define k where "k = d_exp x * 2 ^ 52 + d_frac x"
  have k: "0 \<le> k" "k < 2 ^ 63" using d_exp_range[of x] d_frac_range[of x] by (simp_all add: k_def)
  have "uint (lfabs x) = (d_exp x * 2 ^ 20 + d_frac x div 2 ^ 32) * 2 ^ 32 + d_frac x mod 2 ^ 32"
    unfolding lfabs_def uint_insert_words abs_high low_frac ..
  also have "\<dots> = d_exp x * 2 ^ 52 + (d_frac x div 2 ^ 32 * 2 ^ 32 + d_frac x mod 2 ^ 32)" by (simp add: algebra_simps)
  finally have u: "uint (lfabs x) = k" unfolding k_def by simp
  have "k div 2 ^ 52 = d_exp x" "k mod 2 ^ 52 = d_frac x" using d_frac_range[of x] by (simp_all add: k_def)
  then show "d_exp (lfabs x) = d_exp x" "d_frac (lfabs x) = d_frac x"
    unfolding d_exp_uint[of "lfabs x"] d_frac_uint[of "lfabs x"] u using d_exp_range[of x] by simp_all
  show "\<not> d_neg (lfabs x)"
    using uint_fields[of "lfabs x"] u k d_exp_range[of "lfabs x"] d_frac_range[of "lfabs x"] by (auto split: if_splits)
qed

lemma d_uminus_fields: "d_exp (d_uminus y) = d_exp y" "d_frac (d_uminus y) = d_frac y" "d_neg (d_uminus y) = (\<not> d_neg y)"
proof -
  have b: "bit (0x8000000000000000 :: double) n = (n = 63)" for n
    using bit_exp_iff[of 63 n, where 'a = double] by auto
  have "take_bit 11 (drop_bit 52 (d_uminus y)) = take_bit 11 (drop_bit 52 y)" "take_bit 52 (d_uminus y) = take_bit 52 y"
    by (intro bit_word_eqI; auto simp: d_uminus_def bit_simps b)+
  then show "d_exp (d_uminus y) = d_exp y" "d_frac (d_uminus y) = d_frac y" by (simp_all add: d_exp_def d_frac_def)
  show "d_neg (d_uminus y) = (\<not> d_neg y)" by (simp add: d_neg_def d_uminus_def bit_simps b)
qed

text \<open>One minus a number in \<open>[0, 1)\<close> is at least \<open>2\<^sup>-\<^sup>5\<^sup>4\<close>.\<close>

lemma one_minus_exp:
  assumes "d_exp y \<le> 1022" and "\<not> d_neg y"
  shows "969 \<le> d_exp (d_sub one y) \<or> d_exp (d_sub one y) = 2047"
proof -
  let ?y = "d_uminus y"
  have f: "d_exp ?y = d_exp y" "d_frac ?y = d_frac y" "d_neg ?y"
    using assms(2) by (simp_all add: d_uminus_fields)
  define e where "e = d_unit y"
  define D where "D = nat (- 52 - e)"
  have e: "- 1074 \<le> e" "e \<le> - 53" using assms(1) d_exp_range[of y] by (auto simp: e_def d_unit_def)
  have D: "1 \<le> D" "- 52 - e = int D" using e by (simp_all add: D_def)
  have M: "0 \<le> d_mant y" "d_mant y < 2 ^ 53" using d_mant_range[of y] by simp_all
  have u: "d_unit ?y = e" "d_mant ?y = d_mant y" "d_int ?y = - d_mant y" "d_unit one = - 52" "d_int one = 2 ^ 52"
    using f by (simp_all add: e_def d_unit_def d_mant_def d_int_def one_fields)
  define z where "z = 2 ^ 52 * 2 ^ D - d_mant y"
  have z: "0 < z" "int_bits z - int (nat (- e) + 1) \<ge> - 53"
  proof -
    have two: "(2 :: int) ^ D = 2 * 2 ^ (D - 1)" using D(1) by (cases D) simp_all
    have p1: "(1 :: int) \<le> 2 ^ (D - 1)" by simp
    have "(2 :: int) ^ 53 * 1 \<le> 2 ^ 53 * 2 ^ (D - 1)" using p1 by (rule mult_left_mono) simp
    moreover have "(2 :: int) ^ 52 * 2 ^ D = 2 ^ 53 * 2 ^ (D - 1)" unfolding two by simp
    ultimately show z: "0 < z" using M unfolding z_def by linarith
    show "int_bits z - int (nat (- e) + 1) \<ge> - 53"
    proof (cases "D = 1")
      case True
      then show ?thesis using int_bits_pos[OF z] D(2) by simp
    next
      case False
      then have "(2 :: int) ^ 1 \<le> 2 ^ (D - 1)" using D(1) by (intro power_increasing) simp_all
      then have "2 ^ (51 + D) \<le> z" using M unfolding z_def power_add two by simp
      from int_bits_ge[OF this] show ?thesis using D(2) by simp
    qed
  qed
  have "d_sub one y = d_round False (z * pow2_up e) (pow2_down e)"
  proof -
    have n: "\<not> d_nan one" "\<not> d_inf one" "\<not> d_nan ?y" "\<not> d_inf ?y"
      using assms(1) f by (simp_all add: d_nan_def d_inf_def one_fields)
    have m: "min (d_unit one) (d_unit ?y) = e" using e unfolding u by simp
    have "nat (- 52 - e) = D" by (simp add: D_def)
    then show ?thesis using z(1) n unfolding d_sub_def d_add_def Let_def m d_scaled_def
      by (simp add: u one_fields z_def)
  qed
  moreover have "pow2_up e = 1" "int_bits (pow2_down e) = int (nat (- e) + 1)"
    using e by (simp_all add: pow2_up_def pow2_down_def int_bits_pow2)
  ultimately show ?thesis
    using d_round_exp[of "z * pow2_up e" "pow2_down e" "int_bits z - int (nat (- e) + 1)" False] z pow2_pos[of e] by auto
qed

lemma half_exp:
  assumes "969 \<le> d_exp w \<or> d_exp w = 2047"
  shows "1 \<le> d_exp (d_mul w half)"
proof (cases "d_exp w = 2047")
  case True
  have "d_nan w \<or> d_inf w" using True by (auto simp: d_nan_def d_inf_def)
  then have "d_mul w half = DBL_NAN \<or> (\<exists>neg. d_mul w half = DBL_INF neg)"
    by (auto simp: d_mul_def Let_def)
  then show ?thesis by (auto simp: d_exp_special)
next
  case False
  have h: "d_exp half = 1022" "d_frac half = 0" by code_simp+
  have w: "969 \<le> d_exp w" "d_exp w < 2047" using assms False d_exp_range[of w] by auto
  define e where "e = d_unit w + d_unit half"
  have e: "e = d_exp w - 1128" using w h by (simp add: e_def d_unit_def)
  have m: "2 ^ 52 \<le> d_mant w" "d_mant half = 2 ^ 52" using d_mant_range(3)[of w] w h by (simp_all add: d_mant_def)
  let ?p = "d_mant w * d_mant half * pow2_up e" and ?q = "pow2_down e"
  have p: "2 ^ (104 + nat e) \<le> ?p"
  proof -
    have "2 ^ 52 * 2 ^ 52 \<le> d_mant w * d_mant half" using m by (intro mult_mono) simp_all
    then have "2 ^ 52 * 2 ^ 52 * 2 ^ nat e \<le> d_mant w * d_mant half * 2 ^ nat e" by (rule mult_right_mono) simp
    then show ?thesis by (simp add: pow2_up_def power_add)
  qed
  have pos: "0 < ?p" using p zero_less_power[of "2 :: int" "104 + nat e"] by linarith
  have "int_bits ?q = int (nat (- e)) + 1" by (simp add: pow2_down_def int_bits_pow2)
  moreover have "int (104 + nat e) + 1 \<le> int_bits ?p" by (rule int_bits_ge[OF p])
  moreover have "int (nat e) - int (nat (- e)) = e" by simp
  ultimately have k: "- 55 \<le> int_bits ?p - int_bits ?q" using e w by linarith
  then have "1 \<le> d_exp (d_round neg ?p ?q)" for neg
    using d_round_exp[OF pos pow2_pos(2)[of e] refl, of neg] by linarith
  moreover have "\<not> d_nan w" "\<not> d_nan half" "\<not> d_inf w" "\<not> d_inf half"
    using w h by (auto simp: d_nan_def d_inf_def)
  ultimately show ?thesis by (simp add: d_mul_def Let_def e_def)
qed

lemma lsqrt_returns:
  assumes "1 \<le> d_exp x"
  shows "\<exists>r. lsqrt x = Some r"
proof (cases "d_neg x")
  case True
  then have "high_word x <s 0" by (simp add: neg_words)
  then show ?thesis by (simp add: lsqrt_def Let_def)
next
  case False
  show ?thesis
  proof (cases "d_exp x \<le> 2046")
    case True
    then show ?thesis using lsqrt_normal[OF False assms] by (simp add: Let_def split_def)
  next
    case inf: False
    have k: "(0x7FF00000 :: u32) = push_bit 20 (mask 11)" by (simp add: push_bit_eq_mult mask_eq_exp_minus_1)
    have "uint (take_bit 11 (drop_bit 20 (high_word x))) = 2047"
      using inf d_exp_range[of x] unfolding uint_take_bit uint_drop_bit d_exp_high by simp
    then have t: "take_bit 11 (drop_bit 20 (high_word x)) = mask 11" by (simp add: mask_eq_exp_minus_1 word_uint_eq_iff)
    have "high_word x AND 0x7FF00000 = push_bit 20 (take_bit 11 (drop_bit 20 (high_word x)))"
      unfolding k by (rule bit_word_eqI) (auto simp: bit_simps)
    then have "high_word x AND 0x7FF00000 = 0x7FF00000" unfolding t k .
    then show ?thesis by (simp add: lsqrt_def Let_def)
  qed
qed

text \<open>For every argument, so the loops of \<^verbatim>\<open>lsqrt\<close> end and no shift is too wide.\<close>

lemma lasin_returns: "\<exists>r. lasin x = Some r"
proof -
  define ix where "ix = high_word x AND 0x7FFFFFFF"
  have u: "uint ix = d_exp x * 2 ^ 20 + d_frac x div 2 ^ 32" unfolding ix_def by (rule abs_high)
  have f: "0 \<le> d_frac x div 2 ^ 32" "d_frac x div 2 ^ 32 < 2 ^ 20"
    using d_frac_range[of x] by (simp_all add: pos_imp_zdiv_nonneg_iff)
  show ?thesis
  proof (cases "0x3FF00000 <=s ix")
    case False
    have "int (unat ix) < int (2 ^ 31)" unfolding of_nat_unat u using f d_exp_range[of x] by simp
    then have "unat ix < 2 ^ 31" by (rule of_nat_less_iff[THEN iffD1])
    from sless_32(2)[OF _ this, of "0x3FF00000"] False have "unat ix < 0x3FF00000" by simp
    then have "int (unat ix) < 0x3FF00000" by linarith
    then have "d_exp x \<le> 1022" unfolding of_nat_unat u using f by simp
    then have "969 \<le> d_exp (d_sub one (lfabs x)) \<or> d_exp (d_sub one (lfabs x)) = 2047"
      by (intro one_minus_exp) (simp_all add: lfabs_fields)
    from lsqrt_returns[OF half_exp[OF this]] obtain s where "lsqrt (d_mul (d_sub one (lfabs x)) half) = Some s" ..
    then show ?thesis unfolding lasin_def Let_def ix_def[symmetric] by simp
  qed (simp add: lasin_def Let_def flip: ix_def)
qed

text \<open>Above one the arc sine is not a number.\<close>

lemma lasin_out_of_range:
  assumes "1024 \<le> d_exp x" and "d_exp x < 2047"
  shows "lasin x = Some DBL_NAN"
proof -
  define ix where "ix = high_word x AND 0x7FFFFFFF"
  have u: "uint ix = d_exp x * 2 ^ 20 + d_frac x div 2 ^ 32" unfolding ix_def by (rule abs_high)
  have f: "0 \<le> d_frac x div 2 ^ 32" "d_frac x div 2 ^ 32 < 2 ^ 20"
    using d_frac_range[of x] by (simp_all add: pos_imp_zdiv_nonneg_iff)
  have "int (unat ix) < int (2 ^ 31)" unfolding of_nat_unat u using f d_exp_range[of x] by simp
  then have l: "unat ix < 2 ^ 31" by (rule of_nat_less_iff[THEN iffD1])
  have g: "0x3FF00000 < int (unat ix)" unfolding of_nat_unat u using f assms(1) by simp
  then have "0x3FF00000 \<le> unat ix" by linarith
  then have "0x3FF00000 <=s ix" using sless_32(2)[OF _ l, of "0x3FF00000"] by simp
  moreover have "ix - 0x3FF00000 \<noteq> 0"
  proof
    assume "ix - 0x3FF00000 = 0"
    then have "ix = 0x3FF00000" by simp
    then show False using g by simp
  qed
  moreover have "d_sub x x = 0"
  proof -
    have "\<not> d_nan x" "\<not> d_inf x" "\<not> d_nan (d_uminus x)" "\<not> d_inf (d_uminus x)"
      using assms(2) by (simp_all add: d_nan_def d_inf_def d_uminus_fields)
    moreover have "d_unit (d_uminus x) = d_unit x" "d_int (d_uminus x) = - d_int x"
      by (simp_all add: d_unit_def d_int_def d_mant_def d_uminus_fields)
    ultimately show ?thesis by (simp add: d_sub_def d_add_def d_scaled_def d_round_def d_signed_def d_uminus_fields)
  qed
  moreover have "d_div 0 0 = DBL_NAN" by code_simp
  ultimately show ?thesis by (simp add: lasin_def Let_def or_eq_0_iff flip: ix_def)
qed

end
