(* ===== verification/Mpu9250.thy ===== *)
theory Mpu9250
  imports Mpu_trig Sensor
begin

text \<open>
  The MPU-9250 motion sensor driver \<^verbatim>\<open>modules/src/mpu9250.c\<close>: loading the firmware of the
  motion processor, the wait for a packet, attitude from the quaternion of the packet, the compass,
  and the Lua functions. The firmware and configuration tables are those of the source.
\<close>

section \<open>Tables\<close>

definition dmp_bank_0 :: "u8 list" where
  "dmp_bank_0 =
    [0xFB, 0x00, 0x00, 0x3E, 0x00, 0x0B, 0x00, 0x36, 0x00, 0x01, 0x00, 0x02, 0x00, 0x03, 0x00, 0x00, 0x00, 0x65, 0x00, 0x54,
     0xFF, 0xEF, 0x00, 0x00, 0xFA, 0x80, 0x00, 0x0B, 0x12, 0x82, 0x00, 0x01, 0x00, 0x02, 0x00, 0x00, 0x00, 0x00, 0x00, 0x00,
     0x00, 0x00, 0x00, 0x00, 0x00, 0x00, 0x00, 0x00, 0x00, 0x28, 0x00, 0x00, 0xFF, 0xFF, 0x45, 0x81, 0xFF, 0xFF, 0xFA, 0x72,
     0x00, 0x00, 0x00, 0x00, 0x00, 0x00, 0x03, 0xE8, 0x00, 0x00, 0x00, 0x01, 0x00, 0x01, 0x7F, 0xFF, 0xFF, 0xFE, 0x80, 0x01,
     0x00, 0x1B, 0x00, 0x00, 0x00, 0x00, 0x00, 0x00, 0x00, 0x00, 0x00, 0x00, 0x00, 0x00, 0x00, 0x00, 0x00, 0x3E, 0x03, 0x30,
     0x40, 0x00, 0x00, 0x00, 0x02, 0xCA, 0xE3, 0x09, 0x3E, 0x80, 0x00, 0x00, 0x20, 0x00, 0x00, 0x00, 0x00, 0x00, 0x00, 0x00,
     0x40, 0x00, 0x00, 0x00, 0x60, 0x00, 0x00, 0x00, 0x41, 0xFF, 0x00, 0x00, 0x00, 0x00, 0x0B, 0x2A, 0x00, 0x00, 0x16, 0x55,
     0x00, 0x00, 0x21, 0x82, 0xFD, 0x87, 0x26, 0x50, 0xFD, 0x80, 0x00, 0x00, 0x00, 0x1F, 0x00, 0x00, 0x00, 0x05, 0x80, 0x00,
     0x00, 0x00, 0x00, 0x00, 0x00, 0x01, 0x00, 0x00, 0x00, 0x02, 0x00, 0x00, 0x00, 0x03, 0x00, 0x00, 0x40, 0x00, 0x00, 0x00,
     0x00, 0x00, 0x04, 0x6F, 0x00, 0x02, 0x65, 0x32, 0x00, 0x00, 0x5E, 0xC0, 0x40, 0x00, 0x00, 0x00, 0x00, 0x00, 0x00, 0x00,
     0x00, 0x00, 0x00, 0x00, 0x00, 0x00, 0x00, 0x00, 0xFB, 0x8C, 0x6F, 0x5D, 0xFD, 0x5D, 0x08, 0xD9, 0x00, 0x7C, 0x73, 0x3B,
     0x00, 0x6C, 0x12, 0xCC, 0x32, 0x00, 0x13, 0x9D, 0x32, 0x00, 0xD0, 0xD6, 0x32, 0x00, 0x08, 0x00, 0x40, 0x00, 0x01, 0xF4,
     0xFF, 0xE6, 0x80, 0x79, 0x02, 0x00, 0x00, 0x00, 0x00, 0x00, 0xD0, 0xD6, 0x00, 0x00, 0x27, 0x10]"

definition dmp_bank_1 :: "u8 list" where
  "dmp_bank_1 =
    [0xFB, 0x00, 0x00, 0x00, 0x40, 0x00, 0x00, 0x00, 0x00, 0x00, 0x00, 0x00, 0x00, 0x00, 0x00, 0x00, 0x00, 0x00, 0x00, 0x01,
     0x00, 0x00, 0x00, 0x00, 0x00, 0x00, 0x01, 0x00, 0x01, 0x00, 0x00, 0x00, 0x00, 0x00, 0xFA, 0x36, 0xFF, 0xBC, 0x30, 0x8E,
     0x00, 0x05, 0xFB, 0xF0, 0xFF, 0xD9, 0x5B, 0xC8, 0xFF, 0xD0, 0x9A, 0xBE, 0x00, 0x00, 0x10, 0xA9, 0xFF, 0xF4, 0x1E, 0xB2,
     0x00, 0xCE, 0xBB, 0xF7, 0x00, 0x00, 0x00, 0x01, 0x00, 0x00, 0x00, 0x04, 0x00, 0x02, 0x00, 0x02, 0x02, 0x00, 0x00, 0x0C,
     0xFF, 0xC2, 0x80, 0x00, 0x00, 0x01, 0x80, 0x00, 0x00, 0xCF, 0x80, 0x00, 0x40, 0x00, 0x00, 0x00, 0x00, 0x00, 0x00, 0x01,
     0x00, 0x00, 0x00, 0x00, 0x00, 0x00, 0x06, 0x00, 0x00, 0x00, 0x00, 0x14, 0x00, 0x00, 0x00, 0x00, 0x00, 0x00, 0x00, 0x00,
     0x00, 0x00, 0x00, 0x00, 0x00, 0x00, 0x00, 0x00, 0x00, 0x00, 0x00, 0x00, 0x00, 0x00, 0x00, 0x00, 0x00, 0x00, 0x00, 0x00,
     0x00, 0x00, 0x00, 0x00, 0x00, 0x00, 0x00, 0x00, 0x00, 0x00, 0x00, 0x00, 0x00, 0x00, 0x00, 0x00, 0x00, 0x00, 0x00, 0x00,
     0x00, 0x00, 0x00, 0x00, 0x03, 0x3F, 0x68, 0xB6, 0x79, 0x35, 0x28, 0xBC, 0xC6, 0x7E, 0xD1, 0x6C, 0x80, 0x00, 0x00, 0x00,
     0x40, 0x00, 0x00, 0x00, 0x00, 0x00, 0xB2, 0x6A, 0x00, 0x00, 0x00, 0x00, 0x00, 0x00, 0x00, 0x00, 0x00, 0x00, 0x00, 0x00,
     0x00, 0x00, 0x3F, 0xF0, 0x00, 0x00, 0x00, 0x30, 0x00, 0x00, 0x00, 0x00, 0x00, 0x00, 0x00, 0x00, 0x00, 0x00, 0x00, 0x00,
     0x00, 0x00, 0x00, 0x00, 0x00, 0x00, 0x00, 0x00, 0x00, 0x00, 0x00, 0x00, 0x00, 0x00, 0x00, 0x00, 0x00, 0x00, 0x00, 0x00,
     0x00, 0x00, 0x25, 0x4D, 0x00, 0x2F, 0x70, 0x6D, 0x00, 0x00, 0x05, 0xAE, 0x00, 0x0C, 0x02, 0xD0]"

definition dmp_bank_2 :: "u8 list" where
  "dmp_bank_2 =
    [0x00, 0x00, 0x00, 0x00, 0x00, 0x65, 0x00, 0x54, 0xFF, 0xEF, 0x00, 0x00, 0x00, 0x00, 0x00, 0x00, 0x00, 0x00, 0x01, 0x00,
     0x00, 0x44, 0x00, 0x00, 0x00, 0x00, 0x0C, 0x00, 0x00, 0x00, 0x01, 0x00, 0x00, 0x00, 0x00, 0x00, 0x00, 0x65, 0x00, 0x00,
     0x00, 0x54, 0x00, 0x00, 0xFF, 0xEF, 0x00, 0x00, 0x00, 0x00, 0x00, 0x00, 0x00, 0x00, 0x00, 0x00, 0x00, 0x00, 0x00, 0x00,
     0x00, 0x00, 0x00, 0x00, 0x40, 0x00, 0x00, 0x00, 0x00, 0x00, 0x00, 0x00, 0x00, 0x00, 0x00, 0x00, 0x00, 0x00, 0x00, 0x00,
     0x40, 0x00, 0x00, 0x00, 0x00, 0x00, 0x00, 0x00, 0x00, 0x00, 0x00, 0x00, 0x00, 0x00, 0x00, 0x00, 0x00, 0x00, 0x00, 0x01,
     0x00, 0x00, 0x00, 0x02, 0x00, 0x00, 0x00, 0x00, 0x00, 0x00, 0x00, 0x00, 0x00, 0x00, 0x00, 0x00, 0x00, 0x00, 0x00, 0x00,
     0x00, 0x00, 0x00, 0x00, 0x00, 0x00, 0x00, 0x00, 0x00, 0x00, 0x00, 0x00, 0x00, 0x00, 0x00, 0x00, 0x00, 0x00, 0x00, 0x00,
     0x00, 0x00, 0x00, 0x00, 0x00, 0x1B, 0x00, 0x00, 0x00, 0x00, 0x00, 0x00, 0x00, 0x00, 0x00, 0x00, 0x00, 0x00, 0x00, 0x00,
     0x00, 0x00, 0x00, 0x00, 0x00, 0x00, 0x00, 0x00, 0x00, 0x00, 0x00, 0x00, 0x00, 0x00, 0x00, 0x00, 0x00, 0x00, 0x00, 0x00,
     0x00, 0x00, 0x00, 0x00, 0x00, 0x00, 0x00, 0x00, 0x40, 0x00, 0x00, 0x00, 0x00, 0x1B, 0x00, 0x00, 0x00, 0x00, 0x00, 0x00,
     0x00, 0x00, 0x00, 0x00, 0x00, 0x00, 0x00, 0x00, 0x00, 0x00, 0x00, 0x00, 0x00, 0x00, 0x00, 0x00, 0x00, 0x00, 0x00, 0x00,
     0x00, 0x00, 0x00, 0x00, 0x00, 0x00, 0x00, 0x00, 0x00, 0x00, 0x00, 0x00, 0x00, 0x00, 0x00, 0x00, 0x00, 0x00, 0x00, 0x00,
     0x00, 0x00, 0x00, 0x00, 0x00, 0x00, 0x00, 0x00, 0x00, 0x00, 0x00, 0x00, 0x00, 0x00, 0x00, 0x00]"

definition dmp_bank_3 :: "u8 list" where
  "dmp_bank_3 =
    [0xD8, 0xDC, 0xBA, 0xA2, 0xF1, 0xDE, 0xB2, 0xB8, 0xB4, 0xA8, 0x81, 0x91, 0xF7, 0x4A, 0x90, 0x7F, 0x91, 0x6A, 0xF3, 0xF9,
     0xDB, 0xA8, 0xF9, 0xB0, 0xBA, 0xA0, 0x80, 0xF2, 0xCE, 0x81, 0xF3, 0xC2, 0xF1, 0xC1, 0xF2, 0xC3, 0xF3, 0xCC, 0xA2, 0xB2,
     0x80, 0xF1, 0xC6, 0xD8, 0x80, 0xBA, 0xA7, 0xDF, 0xDF, 0xDF, 0xF2, 0xA7, 0xC3, 0xCB, 0xC5, 0xB6, 0xF0, 0x87, 0xA2, 0x94,
     0x24, 0x48, 0x70, 0x3C, 0x95, 0x40, 0x68, 0x34, 0x58, 0x9B, 0x78, 0xA2, 0xF1, 0x83, 0x92, 0x2D, 0x55, 0x7D, 0xD8, 0xB1,
     0xB4, 0xB8, 0xA1, 0xD0, 0x91, 0x80, 0xF2, 0x70, 0xF3, 0x70, 0xF2, 0x7C, 0x80, 0xA8, 0xF1, 0x01, 0xB0, 0x98, 0x87, 0xD9,
     0x43, 0xD8, 0x86, 0xC9, 0x88, 0xBA, 0xA1, 0xF2, 0x0E, 0xB8, 0x97, 0x80, 0xF1, 0xA9, 0xDF, 0xDF, 0xDF, 0xAA, 0xDF, 0xDF,
     0xDF, 0xF2, 0xAA, 0xC5, 0xCD, 0xC7, 0xA9, 0x0C, 0xC9, 0x2C, 0x97, 0x97, 0x97, 0x97, 0xF1, 0xA9, 0x89, 0x26, 0x46, 0x66,
     0xB0, 0xB4, 0xBA, 0x80, 0xAC, 0xDE, 0xF2, 0xCA, 0xF1, 0xB2, 0x8C, 0x02, 0xA9, 0xB6, 0x98, 0x00, 0x89, 0x0E, 0x16, 0x1E,
     0xB8, 0xA9, 0xB4, 0x99, 0x2C, 0x54, 0x7C, 0xB0, 0x8A, 0xA8, 0x96, 0x36, 0x56, 0x76, 0xF1, 0xB9, 0xAF, 0xB4, 0xB0, 0x83,
     0xC0, 0xB8, 0xA8, 0x97, 0x11, 0xB1, 0x8F, 0x98, 0xB9, 0xAF, 0xF0, 0x24, 0x08, 0x44, 0x10, 0x64, 0x18, 0xF1, 0xA3, 0x29,
     0x55, 0x7D, 0xAF, 0x83, 0xB5, 0x93, 0xAF, 0xF0, 0x00, 0x28, 0x50, 0xF1, 0xA3, 0x86, 0x9F, 0x61, 0xA6, 0xDA, 0xDE, 0xDF,
     0xD9, 0xFA, 0xA3, 0x86, 0x96, 0xDB, 0x31, 0xA6, 0xD9, 0xF8, 0xDF, 0xBA, 0xA6, 0x8F, 0xC2, 0xC5, 0xC7, 0xB2, 0x8C, 0xC1,
     0xB8, 0xA2, 0xDF, 0xDF, 0xDF, 0xA3, 0xDF, 0xDF, 0xDF, 0xD8, 0xD8, 0xF1, 0xB8, 0xA8, 0xB2, 0x86]"

definition dmp_bank_4 :: "u8 list" where
  "dmp_bank_4 =
    [0xB4, 0x98, 0x0D, 0x35, 0x5D, 0xB8, 0xAA, 0x98, 0xB0, 0x87, 0x2D, 0x35, 0x3D, 0xB2, 0xB6, 0xBA, 0xAF, 0x8C, 0x96, 0x19,
     0x8F, 0x9F, 0xA7, 0x0E, 0x16, 0x1E, 0xB4, 0x9A, 0xB8, 0xAA, 0x87, 0x2C, 0x54, 0x7C, 0xB9, 0xA3, 0xDE, 0xDF, 0xDF, 0xA3,
     0xB1, 0x80, 0xF2, 0xC4, 0xCD, 0xC9, 0xF1, 0xB8, 0xA9, 0xB4, 0x99, 0x83, 0x0D, 0x35, 0x5D, 0x89, 0xB9, 0xA3, 0x2D, 0x55,
     0x7D, 0xB5, 0x93, 0xA3, 0x0E, 0x16, 0x1E, 0xA9, 0x2C, 0x54, 0x7C, 0xB8, 0xB4, 0xB0, 0xF1, 0x97, 0x83, 0xA8, 0x11, 0x84,
     0xA5, 0x09, 0x98, 0xA3, 0x83, 0xF0, 0xDA, 0x24, 0x08, 0x44, 0x10, 0x64, 0x18, 0xD8, 0xF1, 0xA5, 0x29, 0x55, 0x7D, 0xA5,
     0x85, 0x95, 0x02, 0x1A, 0x2E, 0x3A, 0x56, 0x5A, 0x40, 0x48, 0xF9, 0xF3, 0xA3, 0xD9, 0xF8, 0xF0, 0x98, 0x83, 0x24, 0x08,
     0x44, 0x10, 0x64, 0x18, 0x97, 0x82, 0xA8, 0xF1, 0x11, 0xF0, 0x98, 0xA2, 0x24, 0x08, 0x44, 0x10, 0x64, 0x18, 0xDA, 0xF3,
     0xDE, 0xD8, 0x83, 0xA5, 0x94, 0x01, 0xD9, 0xA3, 0x02, 0xF1, 0xA2, 0xC3, 0xC5, 0xC7, 0xD8, 0xF1, 0x84, 0x92, 0xA2, 0x4D,
     0xDA, 0x2A, 0xD8, 0x48, 0x69, 0xD9, 0x2A, 0xD8, 0x68, 0x55, 0xDA, 0x32, 0xD8, 0x50, 0x71, 0xD9, 0x32, 0xD8, 0x70, 0x5D,
     0xDA, 0x3A, 0xD8, 0x58, 0x79, 0xD9, 0x3A, 0xD8, 0x78, 0x93, 0xA3, 0x4D, 0xDA, 0x2A, 0xD8, 0x48, 0x69, 0xD9, 0x2A, 0xD8,
     0x68, 0x55, 0xDA, 0x32, 0xD8, 0x50, 0x71, 0xD9, 0x32, 0xD8, 0x70, 0x5D, 0xDA, 0x3A, 0xD8, 0x58, 0x79, 0xD9, 0x3A, 0xD8,
     0x78, 0xA8, 0x8A, 0x9A, 0xF0, 0x28, 0x50, 0x78, 0x9E, 0xF3, 0x88, 0x18, 0xF1, 0x9F, 0x1D, 0x98, 0xA8, 0xD9, 0x08, 0xD8,
     0xC8, 0x9F, 0x12, 0x9E, 0xF3, 0x15, 0xA8, 0xDA, 0x12, 0x10, 0xD8, 0xF1, 0xAF, 0xC8, 0x97, 0x87]"

definition dmp_bank_5 :: "u8 list" where
  "dmp_bank_5 =
    [0x34, 0xB5, 0xB9, 0x94, 0xA4, 0x21, 0xF3, 0xD9, 0x22, 0xD8, 0xF2, 0x2D, 0xF3, 0xD9, 0x2A, 0xD8, 0xF2, 0x35, 0xF3, 0xD9,
     0x32, 0xD8, 0x81, 0xA4, 0x60, 0x60, 0x61, 0xD9, 0x61, 0xD8, 0x6C, 0x68, 0x69, 0xD9, 0x69, 0xD8, 0x74, 0x70, 0x71, 0xD9,
     0x71, 0xD8, 0xB1, 0xA3, 0x84, 0x19, 0x3D, 0x5D, 0xA3, 0x83, 0x1A, 0x3E, 0x5E, 0x93, 0x10, 0x30, 0x81, 0x10, 0x11, 0xB8,
     0xB0, 0xAF, 0x8F, 0x94, 0xF2, 0xDA, 0x3E, 0xD8, 0xB4, 0x9A, 0xA8, 0x87, 0x29, 0xDA, 0xF8, 0xD8, 0x87, 0x9A, 0x35, 0xDA,
     0xF8, 0xD8, 0x87, 0x9A, 0x3D, 0xDA, 0xF8, 0xD8, 0xB1, 0xB9, 0xA4, 0x98, 0x85, 0x02, 0x2E, 0x56, 0xA5, 0x81, 0x00, 0x0C,
     0x14, 0xA3, 0x97, 0xB0, 0x8A, 0xF1, 0x2D, 0xD9, 0x28, 0xD8, 0x4D, 0xD9, 0x48, 0xD8, 0x6D, 0xD9, 0x68, 0xD8, 0xB1, 0x84,
     0x0D, 0xDA, 0x0E, 0xD8, 0xA3, 0x29, 0x83, 0xDA, 0x2C, 0x0E, 0xD8, 0xA3, 0x84, 0x49, 0x83, 0xDA, 0x2C, 0x4C, 0x0E, 0xD8,
     0xB8, 0xB0, 0xA8, 0x8A, 0x9A, 0xF5, 0x20, 0xAA, 0xDA, 0xDF, 0xD8, 0xA8, 0x40, 0xAA, 0xD0, 0xDA, 0xDE, 0xD8, 0xA8, 0x60,
     0xAA, 0xDA, 0xD0, 0xDF, 0xD8, 0xF1, 0x97, 0x86, 0xA8, 0x31, 0x9B, 0x06, 0x99, 0x07, 0xAB, 0x97, 0x28, 0x88, 0x9B, 0xF0,
     0x0C, 0x20, 0x14, 0x40, 0xB8, 0xB0, 0xB4, 0xA8, 0x8C, 0x9C, 0xF0, 0x04, 0x28, 0x51, 0x79, 0x1D, 0x30, 0x14, 0x38, 0xB2,
     0x82, 0xAB, 0xD0, 0x98, 0x2C, 0x50, 0x50, 0x78, 0x78, 0x9B, 0xF1, 0x1A, 0xB0, 0xF0, 0x8A, 0x9C, 0xA8, 0x29, 0x51, 0x79,
     0x8B, 0x29, 0x51, 0x79, 0x8A, 0x24, 0x70, 0x59, 0x8B, 0x20, 0x58, 0x71, 0x8A, 0x44, 0x69, 0x38, 0x8B, 0x39, 0x40, 0x68,
     0x8A, 0x64, 0x48, 0x31, 0x8B, 0x30, 0x49, 0x60, 0xA5, 0x88, 0x20, 0x09, 0x71, 0x58, 0x44, 0x68]"

definition dmp_bank_6 :: "u8 list" where
  "dmp_bank_6 =
    [0x11, 0x39, 0x64, 0x49, 0x30, 0x19, 0xF1, 0xAC, 0x00, 0x2C, 0x54, 0x7C, 0xF0, 0x8C, 0xA8, 0x04, 0x28, 0x50, 0x78, 0xF1,
     0x88, 0x97, 0x26, 0xA8, 0x59, 0x98, 0xAC, 0x8C, 0x02, 0x26, 0x46, 0x66, 0xF0, 0x89, 0x9C, 0xA8, 0x29, 0x51, 0x79, 0x24,
     0x70, 0x59, 0x44, 0x69, 0x38, 0x64, 0x48, 0x31, 0xA9, 0x88, 0x09, 0x20, 0x59, 0x70, 0xAB, 0x11, 0x38, 0x40, 0x69, 0xA8,
     0x19, 0x31, 0x48, 0x60, 0x8C, 0xA8, 0x3C, 0x41, 0x5C, 0x20, 0x7C, 0x00, 0xF1, 0x87, 0x98, 0x19, 0x86, 0xA8, 0x6E, 0x76,
     0x7E, 0xA9, 0x99, 0x88, 0x2D, 0x55, 0x7D, 0x9E, 0xB9, 0xA3, 0x8A, 0x22, 0x8A, 0x6E, 0x8A, 0x56, 0x8A, 0x5E, 0x9F, 0xB1,
     0x83, 0x06, 0x26, 0x46, 0x66, 0x0E, 0x2E, 0x4E, 0x6E, 0x9D, 0xB8, 0xAD, 0x00, 0x2C, 0x54, 0x7C, 0xF2, 0xB1, 0x8C, 0xB4,
     0x99, 0xB9, 0xA3, 0x2D, 0x55, 0x7D, 0x81, 0x91, 0xAC, 0x38, 0xAD, 0x3A, 0xB5, 0x83, 0x91, 0xAC, 0x2D, 0xD9, 0x28, 0xD8,
     0x4D, 0xD9, 0x48, 0xD8, 0x6D, 0xD9, 0x68, 0xD8, 0x8C, 0x9D, 0xAE, 0x29, 0xD9, 0x04, 0xAE, 0xD8, 0x51, 0xD9, 0x04, 0xAE,
     0xD8, 0x79, 0xD9, 0x04, 0xD8, 0x81, 0xF3, 0x9D, 0xAD, 0x00, 0x8D, 0xAE, 0x19, 0x81, 0xAD, 0xD9, 0x01, 0xD8, 0xF2, 0xAE,
     0xDA, 0x26, 0xD8, 0x8E, 0x91, 0x29, 0x83, 0xA7, 0xD9, 0xAD, 0xAD, 0xAD, 0xAD, 0xF3, 0x2A, 0xD8, 0xD8, 0xF1, 0xB0, 0xAC,
     0x89, 0x91, 0x3E, 0x5E, 0x76, 0xF3, 0xAC, 0x2E, 0x2E, 0xF1, 0xB1, 0x8C, 0x5A, 0x9C, 0xAC, 0x2C, 0x28, 0x28, 0x28, 0x9C,
     0xAC, 0x30, 0x18, 0xA8, 0x98, 0x81, 0x28, 0x34, 0x3C, 0x97, 0x24, 0xA7, 0x28, 0x34, 0x3C, 0x9C, 0x24, 0xF2, 0xB0, 0x89,
     0xAC, 0x91, 0x2C, 0x4C, 0x6C, 0x8A, 0x9B, 0x2D, 0xD9, 0xD8, 0xD8, 0x51, 0xD9, 0xD8, 0xD8, 0x79]"

definition dmp_bank_7 :: "u8 list" where
  "dmp_bank_7 =
    [0xD9, 0xD8, 0xD8, 0xF1, 0x9E, 0x88, 0xA3, 0x31, 0xDA, 0xD8, 0xD8, 0x91, 0x2D, 0xD9, 0x28, 0xD8, 0x4D, 0xD9, 0x48, 0xD8,
     0x6D, 0xD9, 0x68, 0xD8, 0xB1, 0x83, 0x93, 0x35, 0x3D, 0x80, 0x25, 0xDA, 0xD8, 0xD8, 0x85, 0x69, 0xDA, 0xD8, 0xD8, 0xB4,
     0x93, 0x81, 0xA3, 0x28, 0x34, 0x3C, 0xF3, 0xAB, 0x8B, 0xF8, 0xA3, 0x91, 0xB6, 0x09, 0xB4, 0xD9, 0xAB, 0xDE, 0xFA, 0xB0,
     0x87, 0x9C, 0xB9, 0xA3, 0xDD, 0xF1, 0xA3, 0xA3, 0xA3, 0xA3, 0x95, 0xF1, 0xA3, 0xA3, 0xA3, 0x9D, 0xF1, 0xA3, 0xA3, 0xA3,
     0xA3, 0xF2, 0xA3, 0xB4, 0x90, 0x80, 0xF2, 0xA3, 0xA3, 0xA3, 0xA3, 0xA3, 0xA3, 0xA3, 0xA3, 0xA3, 0xA3, 0xB2, 0xA3, 0xA3,
     0xA3, 0xA3, 0xA3, 0xA3, 0xB0, 0x87, 0xB5, 0x99, 0xF1, 0xA3, 0xA3, 0xA3, 0x98, 0xF1, 0xA3, 0xA3, 0xA3, 0xA3, 0x97, 0xA3,
     0xA3, 0xA3, 0xA3, 0xF3, 0x9B, 0xA3, 0xA3, 0xDC, 0xB9, 0xA7, 0xF1, 0x26, 0x26, 0x26, 0xD8, 0xD8, 0xFF]"

definition dmpmemorydata :: "u8 list" where
  "dmpmemorydata = concat [dmp_bank_0, dmp_bank_1, dmp_bank_2, dmp_bank_3, dmp_bank_4, dmp_bank_5, dmp_bank_6, dmp_bank_7]"

definition dmpcfgupddata :: "u8 list" where
  "dmpcfgupddata =
    [0x03, 0x7B, 0x03, 0x4C, 0xCD, 0x6C, 0x03, 0xAB, 0x03, 0x36, 0x56, 0x76, 0x00, 0x68, 0x04, 0x02, 0xCB, 0x47, 0xA2, 0x02,
     0x18, 0x04, 0x00, 0x05, 0x8B, 0xC1, 0x01, 0x0C, 0x04, 0x00, 0x00, 0x00, 0x00, 0x03, 0x7F, 0x06, 0x0C, 0xC9, 0x2C, 0x97,
     0x97, 0x97, 0x03, 0x89, 0x03, 0x26, 0x46, 0x66, 0x00, 0x6C, 0x02, 0x20, 0x00, 0x02, 0x40, 0x04, 0x00, 0x00, 0x00, 0x00,
     0x02, 0x44, 0x04, 0x00, 0x00, 0x00, 0x00, 0x02, 0x48, 0x04, 0x00, 0x00, 0x00, 0x00, 0x02, 0x4C, 0x04, 0x00, 0x00, 0x00,
     0x00, 0x02, 0x50, 0x04, 0x00, 0x00, 0x00, 0x00, 0x02, 0x54, 0x04, 0x00, 0x00, 0x00, 0x00, 0x02, 0x58, 0x04, 0x00, 0x00,
     0x00, 0x00, 0x02, 0x5C, 0x04, 0x00, 0x00, 0x00, 0x00, 0x02, 0xBC, 0x04, 0x00, 0x00, 0x00, 0x00, 0x01, 0xEC, 0x04, 0x00,
     0x00, 0x40, 0x00, 0x03, 0x7F, 0x06, 0x0C, 0xC9, 0x2C, 0x97, 0x97, 0x97, 0x04, 0x02, 0x03, 0x0D, 0x35, 0x5D, 0x04, 0x09,
     0x04, 0x87, 0x2D, 0x35, 0x3D, 0x00, 0xA3, 0x01, 0x00, 0x00, 0x00, 0x01, 0x01, 0x07, 0x86, 0x01, 0xFE, 0x07, 0x41, 0x05,
     0xF1, 0x20, 0x28, 0x30, 0x38, 0x07, 0x7E, 0x01, 0x30, 0x07, 0x46, 0x01, 0x9A, 0x07, 0x47, 0x04, 0xF1, 0x28, 0x30, 0x38,
     0x07, 0x6C, 0x04, 0xF1, 0x28, 0x30, 0x38, 0x02, 0x16, 0x02, 0x00, 0x00, 0x01, 0xB2, 0x02, 0xFF, 0xFF, 0x01, 0x90, 0x04,
     0x09, 0x23, 0xA1, 0x35, 0x01, 0x6A, 0x02, 0x06, 0x00, 0x01, 0x60, 0x08, 0x00, 0x00, 0x00, 0x00, 0x00, 0x00, 0x00, 0x00,
     0x00, 0x60, 0x04, 0x40, 0x00, 0x00, 0x00, 0x01, 0x62, 0x02, 0x00, 0x00, 0x00, 0x60, 0x04, 0x00, 0x40, 0x00, 0x00]"

section \<open>State and register access\<close>

record mpu_st = sensor_st +
  mpu9250_i2c_id :: u8

definition MPU9250_RA_ACCEL_XOUT_H :: u8 where "MPU9250_RA_ACCEL_XOUT_H = 0x3B"
definition MPU9250_RA_USER_CTRL :: u8 where "MPU9250_RA_USER_CTRL = 0x6A"
definition MPU9250_RA_PWR_MGMT_1 :: u8 where "MPU9250_RA_PWR_MGMT_1 = 0x6B"
definition MPU9250_RA_FIFO_COUNTH :: u8 where "MPU9250_RA_FIFO_COUNTH = 0x72"
definition MPU9250_RA_MAG_XOUT_L :: u8 where "MPU9250_RA_MAG_XOUT_L = 0x03"

definition MPU9250_I2C_GYROACC_ADDR :: u8 where "MPU9250_I2C_GYROACC_ADDR = 0x68"
definition MPU9250_I2C_MAG_ADDR :: u8 where "MPU9250_I2C_MAG_ADDR = 0x0c"

definition Delayms :: "u32 \<Rightarrow> mpu_st \<Rightarrow> mpu_st" where
  "Delayms m s = sensor_sleep m s"

text \<open>The device address argument of the source is not used: the preset slave address is.\<close>

definition IICwriteByte :: "u8 \<Rightarrow> u8 \<Rightarrow> mpu_st \<Rightarrow> mpu_st option" where
  "IICwriteByte reg_addr dat s = sensor_write (mpu9250_i2c_id s) reg_addr dat s"

definition IICreadBytes :: "sensor_env \<Rightarrow> u8 \<Rightarrow> u32 \<Rightarrow> u8 list \<Rightarrow> mpu_st \<Rightarrow> (u8 list \<times> mpu_st) option" where
  "IICreadBytes e reg_addr n dat s = sensor_read e (mpu9250_i2c_id s) reg_addr n dat s"

definition IIC_ReadOneByte :: "sensor_env \<Rightarrow> u8 \<Rightarrow> mpu_st \<Rightarrow> (u8 \<times> mpu_st) option" where
  "IIC_ReadOneByte e reg_addr s = do {
     (buf, s) \<leftarrow> IICreadBytes e reg_addr 1 (stack_buf e 1) s;
     b \<leftarrow> ld buf 0;
     Some (b, s)
   }"

definition mpu9250_setup_i2c :: "u8 \<Rightarrow> mpu_st \<Rightarrow> mpu_st option" where
  "mpu9250_setup_i2c slave_addr s = sensor_setup (mpu9250_i2c_id s) (ucast slave_addr) s"

definition mpu9250_close_i2c :: "mpu_st \<Rightarrow> mpu_st option" where
  "mpu9250_close_i2c s = sensor_close (mpu9250_i2c_id s) s"

section \<open>Loading the motion processor\<close>

text \<open>The loop state is the previous bank and the driver state.\<close>

definition loadfirmware_body :: "nat \<Rightarrow> u32 \<times> mpu_st \<Rightarrow> (u32 \<times> mpu_st) option" where
  "loadfirmware_body datanum = (\<lambda>(lastbank, s). do {
     let bank = (of_nat (datanum div 256) :: u8);
     s \<leftarrow> (if lastbank \<noteq> ucast bank
           then do { s \<leftarrow> IICwriteByte 0x6d bank s; IICwriteByte 0x6e 0 s }
           else Some s);
     b \<leftarrow> ld dmpmemorydata datanum;
     s \<leftarrow> IICwriteByte 0x6f b s;
     Some (ucast bank, s)
   })"

definition loadfirmware :: "mpu_st \<Rightarrow> mpu_st option" where
  "loadfirmware s = map_option snd (for_range 0 1929 loadfirmware_body (1, s))"

text \<open>\<open>datacounts\<close> is an 8-bit index into the configuration table.\<close>

definition cfgupd_byte :: "nat \<Rightarrow> u8 \<times> mpu_st \<Rightarrow> (u8 \<times> mpu_st) option" where
  "cfgupd_byte k = (\<lambda>(datacounts, s). do {
     let datacounts = datacounts + 1;
     b \<leftarrow> ld dmpcfgupddata (unat datacounts);
     s \<leftarrow> IICwriteByte 0x6f b s;
     Some (datacounts, s)
   })"

definition cfgupd_line :: "nat \<Rightarrow> u8 \<times> mpu_st \<Rightarrow> (u8 \<times> mpu_st) option" where
  "cfgupd_line line = (\<lambda>(datacounts, s). do {
     bank \<leftarrow> ld dmpcfgupddata (unat datacounts);
     let datacounts = datacounts + 1;
     offset \<leftarrow> ld dmpcfgupddata (unat datacounts);
     let datacounts = datacounts + 1;
     bytes2write \<leftarrow> ld dmpcfgupddata (unat datacounts);
     s \<leftarrow> IICwriteByte 0x6d bank s;
     s \<leftarrow> IICwriteByte 0x6e offset s;
     (datacounts, s) \<leftarrow> for_range 0 (unat bytes2write) cfgupd_byte (datacounts, s);
     Some (datacounts + 1, s)
   })"

definition loadcfgupd :: "mpu_st \<Rightarrow> mpu_st option" where
  "loadcfgupd s = map_option snd (for_range 0 37 cfgupd_line (0, s))"

definition mpu9250_sleep :: "mpu_st \<Rightarrow> mpu_st option" where
  "mpu9250_sleep s = IICwriteByte MPU9250_RA_PWR_MGMT_1 0x40 s"

definition mpu9250_wakeup :: "mpu_st \<Rightarrow> mpu_st option" where
  "mpu9250_wakeup s = IICwriteByte MPU9250_RA_PWR_MGMT_1 0x00 s"

definition mpu9250_reset_fifo :: "sensor_env \<Rightarrow> mpu_st \<Rightarrow> mpu_st option" where
  "mpu9250_reset_fifo e s = do {
     (tmp, s) \<leftarrow> IIC_ReadOneByte e MPU9250_RA_USER_CTRL s;
     IICwriteByte MPU9250_RA_USER_CTRL (tmp OR 4) s
   }"

definition mpu9250_get_fifo_count :: "sensor_env \<Rightarrow> mpu_st \<Rightarrow> (u16 \<times> mpu_st) option" where
  "mpu9250_get_fifo_count e s = do {
     (buffer, s) \<leftarrow> IICreadBytes e MPU9250_RA_FIFO_COUNTH 2 [0, 0] s;
     h \<leftarrow> ld buffer 0;
     l \<leftarrow> ld buffer 1;
     Some (push_bit 8 (ucast h) OR ucast l, s)
   }"

definition dmp_registers :: "(u8 \<times> u8) list" where
  "dmp_registers = [(0x6B, 0x00), (0x6C, 0x00), (0x19, 0x04), (0x1A, 0x06), (0x1B, 0x18), (0x1C, 0x10), (0x37, 0x02)]"

definition mpu9250_init_with_dmp :: "mpu_st \<Rightarrow> mpu_st option" where
  "mpu9250_init_with_dmp s = do {
     s \<leftarrow> IICwriteByte MPU9250_RA_PWR_MGMT_1 0x80 s;
     let s = Delayms 100 s;
     s \<leftarrow> write_all (mpu9250_i2c_id s) dmp_registers s;
     let s = Delayms 30 s;
     s \<leftarrow> loadfirmware s;
     s \<leftarrow> loadcfgupd s;
     let s = Delayms 30 s;
     s \<leftarrow> IICwriteByte 0x70 0x03 s;
     s \<leftarrow> IICwriteByte 0x71 0x00 s;
     IICwriteByte MPU9250_RA_USER_CTRL 0xcc s
   }"

section \<open>A packet and the attitude in it\<close>

definition mpu9250_read_dmp :: "sensor_env \<Rightarrow> u8 list \<Rightarrow> mpu_st \<Rightarrow> (u8 list \<times> mpu_st) option" where
  "mpu9250_read_dmp e data s = do {
     (data, s) \<leftarrow> IICreadBytes e 0x74 42 data s;
     s \<leftarrow> IICwriteByte MPU9250_RA_USER_CTRL 0xcc s;
     Some (data, s)
   }"

text \<open>A \<^verbatim>\<open>long\<close> has 32 bits; the shifts wrap.\<close>

definition getdmplong :: "u8 list \<Rightarrow> nat \<Rightarrow> u32 option" where
  "getdmplong d address = do {
     b0 \<leftarrow> ld d address;
     b1 \<leftarrow> ld d (address + 1);
     b2 \<leftarrow> ld d (address + 2);
     b3 \<leftarrow> ld d (address + 3);
     Some (push_bit 8 (push_bit 8 (push_bit 8 (ucast b0) OR ucast b1) OR ucast b2) OR ucast b3)
   }"

record quaternion =
  q_a :: double
  q_x :: double
  q_y :: double
  q_z :: double

definition q_component :: "u8 list \<Rightarrow> nat \<Rightarrow> double option" where
  "q_component d address =
     map_option (\<lambda>w. d_div (d_of_int (sint w)) (d_of_int 1073741824)) (getdmplong d address)"

definition mpu9250_get_quaternion :: "u8 list \<Rightarrow> quaternion option" where
  "mpu9250_get_quaternion d = do {
     a \<leftarrow> q_component d 0;
     x \<leftarrow> q_component d 4;
     y \<leftarrow> q_component d 8;
     z \<leftarrow> q_component d 12;
     Some \<lparr>q_a = a, q_x = x, q_y = y, q_z = z\<rparr>
   }"

definition deg :: double where "deg = 0x404CA66666666666"

record ypr_angles =
  yaw :: double
  pitch :: double
  roll :: double

definition mpu9250_get_yawpitchroll :: "quaternion \<Rightarrow> ypr_angles option" where
  "mpu9250_get_yawpitchroll q = do {
     let y = d_mul (d_uminus (latan2
               (d_mul two (d_add (d_mul (q_a q) (q_z q)) (d_mul (q_x q) (q_y q))))
               (d_sub one (d_mul two (d_add (d_mul (q_y q) (q_y q)) (d_mul (q_z q) (q_z q))))))) deg;
     p \<leftarrow> lasin (d_mul two (d_sub (d_mul (q_a q) (q_y q)) (d_mul (q_z q) (q_x q))));
     let r = d_mul (latan2
               (d_mul two (d_add (d_mul (q_a q) (q_x q)) (d_mul (q_y q) (q_z q))))
               (d_sub one (d_mul two (d_add (d_mul (q_x q) (q_x q)) (d_mul (q_y q) (q_y q)))))) deg;
     Some \<lparr>yaw = y, pitch = d_mul (d_uminus p) deg, roll = r\<rparr>
   }"

text \<open>Two bytes, low byte first, as a signed 16-bit number over a scale.\<close>

definition le_component :: "u8 list \<Rightarrow> nat \<Rightarrow> int \<Rightarrow> double option" where
  "le_component buf k scale = do {
     lo \<leftarrow> ld buf k;
     hi \<leftarrow> ld buf (k + 1);
     Some (d_div (d_of_int (sint (push_bit 8 (ucast hi) OR ucast lo :: u16))) (d_of_int scale))
   }"

definition mpu9250_get_acc :: "sensor_env \<Rightarrow> mpu_st \<Rightarrow> ((double \<times> double \<times> double) \<times> mpu_st) option" where
  "mpu9250_get_acc e s = do {
     (buf, s) \<leftarrow> IICreadBytes e MPU9250_RA_ACCEL_XOUT_H 14 (stack_buf e 16) s;
     x \<leftarrow> le_component buf 0 16384;
     y \<leftarrow> le_component buf 2 16384;
     z \<leftarrow> le_component buf 4 16384;
     Some ((x, y, z), s)
   }"

definition mpu9250_get_gyro :: "sensor_env \<Rightarrow> mpu_st \<Rightarrow> ((double \<times> double \<times> double) \<times> mpu_st) option" where
  "mpu9250_get_gyro e s = do {
     (buf, s) \<leftarrow> IICreadBytes e MPU9250_RA_ACCEL_XOUT_H 14 (stack_buf e 16) s;
     x \<leftarrow> le_component buf 6 8192;
     y \<leftarrow> le_component buf 8 8192;
     z \<leftarrow> le_component buf 10 8192;
     Some ((x, y, z), s)
   }"

section \<open>The compass\<close>

definition mag_scale :: double where "mag_scale = 0x3FC3333333333333"

definition mag_component :: "u8 list \<Rightarrow> nat \<Rightarrow> double option" where
  "mag_component buf k = do {
     lo \<leftarrow> ld buf k;
     hi \<leftarrow> ld buf (k + 1);
     Some (d_mul (d_of_int (sint (push_bit 8 (ucast hi) :: u16) OR uint lo)) mag_scale)
   }"

text \<open>On an overflow the record keeps what it held.\<close>

definition mpu9250_get_mag ::
  "sensor_env \<Rightarrow> double \<times> double \<times> double \<Rightarrow> mpu_st \<Rightarrow> ((double \<times> double \<times> double) \<times> mpu_st) option" where
  "mpu9250_get_mag e mag s = do {
     (st2, s) \<leftarrow> IIC_ReadOneByte e 0x09 s;
     (if st2 AND 0x08 \<noteq> 0 then do {
        (_, s) \<leftarrow> IIC_ReadOneByte e MPU9250_RA_MAG_XOUT_L s;
        Some (mag, s)
      }
      else do {
        (buf, s) \<leftarrow> IICreadBytes e MPU9250_RA_MAG_XOUT_L 6 (stack_buf e 10) s;
        x \<leftarrow> mag_component buf 0;
        y \<leftarrow> mag_component buf 2;
        z \<leftarrow> mag_component buf 4;
        Some ((x, y, z), s)
      })
   }"

section \<open>The Lua functions\<close>

text \<open>
  Every function opens the bus before \<^verbatim>\<open>MOD_CHECK_ID\<close>. \<^verbatim>\<open>lua_mpu9250_init\<close> has no
  return statement, so only its effects are given.
\<close>

definition mod_check_id :: "mpu_st \<Rightarrow> (mpu_st \<Rightarrow> 'b lua option) \<Rightarrow> 'b lua option" where
  "mod_check_id s k =
     (if platform_i2c_exists (ucast (mpu9250_i2c_id s)) then k s else Some (Lua_error ''i2c does not exist''))"

definition lua_mpu9250_init :: "u32 \<Rightarrow> mpu_st \<Rightarrow> mpu_st lua option" where
  "lua_mpu9250_init n s = do {
     s \<leftarrow> mpu9250_setup_i2c MPU9250_I2C_GYROACC_ADDR (s\<lparr>mpu9250_i2c_id := ucast n\<rparr>);
     mod_check_id s (\<lambda>s. do {
       s \<leftarrow> mpu9250_init_with_dmp s;
       s \<leftarrow> mpu9250_close_i2c s;
       Some (Lua_return s)
     })
   }"

text \<open>The wait of \<^verbatim>\<open>lua_mpu9250_ypr\<close>, which ends with a packet of at least 42 bytes.\<close>

partial_function (option) ypr_wait :: "sensor_env \<Rightarrow> mpu_st \<Rightarrow> (ypr_angles \<times> mpu_st) option" where
  "ypr_wait e s = do {
     (cnt, s) \<leftarrow> mpu9250_get_fifo_count e s;
     (if 0x200 \<le> cnt then do {
        s \<leftarrow> mpu9250_reset_fifo e s;
        ypr_wait e s
      }
      else if 0x2a \<le> cnt then do {
        (dmp_raw, s) \<leftarrow> mpu9250_read_dmp e (stack_buf e 42) s;
        s \<leftarrow> mpu9250_reset_fifo e s;
        quaternion \<leftarrow> mpu9250_get_quaternion dmp_raw;
        ypr \<leftarrow> mpu9250_get_yawpitchroll quaternion;
        Some (ypr, s)
      }
      else ypr_wait e s)
   }"

declare ypr_wait.simps [code]

definition lua_mpu9250_ypr :: "sensor_env \<Rightarrow> mpu_st \<Rightarrow> ((int \<times> int \<times> int) \<times> mpu_st) lua option" where
  "lua_mpu9250_ypr e s = do {
     s \<leftarrow> mpu9250_setup_i2c MPU9250_I2C_GYROACC_ADDR s;
     mod_check_id s (\<lambda>s. do {
       (ypr, s) \<leftarrow> ypr_wait e s;
       s \<leftarrow> mpu9250_close_i2c s;
       y \<leftarrow> d_to_s32 (yaw ypr);
       p \<leftarrow> d_to_s32 (pitch ypr);
       r \<leftarrow> d_to_s32 (roll ypr);
       Some (Lua_return ((y, p, r), s))
     })
   }"

definition lua_mpu9250_sleep :: "mpu_st \<Rightarrow> mpu_st lua option" where
  "lua_mpu9250_sleep s = do {
     s \<leftarrow> mpu9250_setup_i2c MPU9250_I2C_GYROACC_ADDR s;
     mod_check_id s (\<lambda>s. do { s \<leftarrow> mpu9250_sleep s; s \<leftarrow> mpu9250_close_i2c s; Some (Lua_return s) })
   }"

definition lua_mpu9250_wakeup :: "mpu_st \<Rightarrow> mpu_st lua option" where
  "lua_mpu9250_wakeup s = do {
     s \<leftarrow> mpu9250_setup_i2c MPU9250_I2C_GYROACC_ADDR s;
     mod_check_id s (\<lambda>s. do { s \<leftarrow> mpu9250_wakeup s; s \<leftarrow> mpu9250_close_i2c s; Some (Lua_return s) })
   }"

definition compass_degrees :: "double \<Rightarrow> double \<Rightarrow> double" where
  "compass_degrees y x =
     (let az = d_add (d_mul (latan2 y x) deg) (d_of_int 180)
      in if d_less (d_of_int 359) az then d_of_int 359 else az)"

definition lua_mpu9250_az :: "sensor_env \<Rightarrow> double \<times> double \<times> double \<Rightarrow> mpu_st \<Rightarrow> (int \<times> mpu_st) lua option" where
  "lua_mpu9250_az e mag_data s = do {
     s \<leftarrow> mpu9250_setup_i2c MPU9250_I2C_MAG_ADDR s;
     mod_check_id s (\<lambda>s. do {
       ((x, y, z), s) \<leftarrow> mpu9250_get_mag e mag_data s;
       s \<leftarrow> mpu9250_close_i2c s;
       az \<leftarrow> d_to_s32 (compass_degrees y x);
       Some (Lua_return (az, s))
     })
   }"

section \<open>What is written to the chip\<close>

text \<open>A bank of the processor's memory: select it, set the address, then its bytes.\<close>

definition mem_writes :: "u8 \<Rightarrow> u8 \<Rightarrow> u8 list \<Rightarrow> (u8 \<times> u8) list" where
  "mem_writes bank offset ds = (0x6d, bank) # (0x6e, offset) # map (Pair 0x6f) ds"

definition bank_slice :: "u8 list \<Rightarrow> nat \<Rightarrow> u8 list" where
  "bank_slice d b = take 256 (drop (256 * b) d)"

definition firmware_writes :: "(u8 \<times> u8) list" where
  "firmware_writes = concat (map (\<lambda>b. mem_writes (of_nat b) 0 (bank_slice dmpmemorydata b)) [0..<8])"

abbreviation mpu_ready :: "u16 \<Rightarrow> mpu_st \<Rightarrow> bool" where
  "mpu_ready a s \<equiv> bus_ready (mpu9250_i2c_id s) a s"

definition mpu_out :: "u16 \<Rightarrow> (u8 \<times> u8) list \<Rightarrow> mpu_st \<Rightarrow> mpu_st" where
  "mpu_out a ws s = sensor_out (map (write_frame (mpu9250_i2c_id s) a) ws) s"

lemma mpu_id_out [simp]:
  "mpu9250_i2c_id (sensor_out cs s) = mpu9250_i2c_id s" "mpu9250_i2c_id (mpu_out a ws s) = mpu9250_i2c_id s"
  by (simp_all add: sensor_out_def mpu_out_def)

lemma mpu_out_simps [simp]:
  "mpu_out a vs (mpu_out a ws s) = mpu_out a (ws @ vs) s" "mpu_out a [] s = s"
  "bus_ready bus b (mpu_out a ws s) = bus_ready bus b s" "reads (mpu_out a ws s) = reads s"
  "sensor_calls (mpu_out a ws s) = sensor_calls s @ map (write_frame (mpu9250_i2c_id s) a) ws"
  "slave_addrs (mpu_out a ws s) = slave_addrs s"
  by (simp_all add: mpu_out_def)

lemma IICwriteByte_ready: "mpu_ready a s \<Longrightarrow> IICwriteByte reg dat s = Some (mpu_out a [(reg, dat)] s)"
  by (simp add: IICwriteByte_def sensor_write_ready mpu_out_def)

definition fw_step :: "nat \<Rightarrow> (u8 \<times> u8) list" where
  "fw_step i = (if i mod 256 = 0 then [(0x6d, of_nat (i div 256)), (0x6e, 0)] else []) @ [(0x6f, dmpmemorydata ! i)]"

lemma length_dmpmemorydata: "length dmpmemorydata = 1929"
  unfolding dmpmemorydata_def by (simp add: dmp_bank_0_def dmp_bank_1_def dmp_bank_2_def dmp_bank_3_def
      dmp_bank_4_def dmp_bank_5_def dmp_bank_6_def dmp_bank_7_def)

lemma new_bank:
  assumes "i < 2048"
  shows "((if i = 0 then 1 else of_nat ((i - 1) div 256) :: u32) \<noteq> ucast (of_nat (i div 256) :: u8)) = (i mod 256 = 0)"
proof -
  have u: "ucast (of_nat n :: u8) = (of_nat n :: u32)" if "n < 256" for n
    by (rule word_unat_eq_iff[THEN iffD2]) (use that in \<open>simp add: unsigned_ucast_eq unsigned_of_nat take_bit_nat_eq_self\<close>)
  have e: "(of_nat m = (of_nat n :: u32)) = (m = n)" if "m < 256" "n < 256" for m n
    using that by (simp add: word_unat_eq_iff unsigned_of_nat take_bit_nat_eq_self)
  show ?thesis
  proof (cases i)
    case (Suc j)
    have "(j div 256 = Suc j div 256) = (Suc j mod 256 \<noteq> 0)" by (simp add: div_Suc)
    then show ?thesis using Suc assms by (simp add: u e)
  qed simp
qed

lemma loadfirmware_steps:
  assumes "mpu_ready a s"
  shows "loadfirmware s = Some (mpu_out a (concat (map fw_step [0..<1929])) s)"
proof -
  have "\<exists>t. for_range 0 1929 loadfirmware_body (1, s) = Some t \<and>
      t = (if (1929 :: nat) = 0 then 1 else of_nat ((1929 - 1) div 256), mpu_out a (concat (map fw_step [0..<1929])) s)"
  proof (rule for_range_rule[where P = "\<lambda>i t. t = (if i = 0 then 1 else of_nat ((i - 1) div 256), mpu_out a (concat (map fw_step [0..<i])) s)"])
    fix i t
    assume i: "i < (1929 :: nat)" and t: "t = (if i = 0 then 1 else of_nat ((i - 1) div 256) :: u32, mpu_out a (concat (map fw_step [0..<i])) s)"
    have lb: "(if i = 0 then 1 else of_nat ((i - 1) div 256) :: u32) \<noteq> ucast (of_nat (i div 256) :: u8) \<longleftrightarrow> i mod 256 = 0"
      by (rule new_bank) (use i in simp)
    have n: "ucast (of_nat (i div 256) :: u8) = (of_nat (i div 256) :: u32)"
      by (rule word_unat_eq_iff[THEN iffD2]) (use i in \<open>simp add: unsigned_ucast_eq unsigned_of_nat take_bit_nat_eq_self\<close>)
    have d: "ld dmpmemorydata i = Some (dmpmemorydata ! i)" using i by (simp add: ld_in length_dmpmemorydata)
    show "\<exists>u. loadfirmware_body i t = Some u \<and>
        u = (if Suc i = 0 then 1 else of_nat ((Suc i - 1) div 256), mpu_out a (concat (map fw_step [0..<Suc i])) s)"
      unfolding t loadfirmware_body_def prod.case Let_def d lb
      using assms by (simp add: IICwriteByte_ready fw_step_def n)
  qed simp_all
  then show ?thesis by (simp add: loadfirmware_def)
qed

lemma fw_steps_bank:
  assumes "0 < m" "m \<le> 256" "256 * b + m \<le> length dmpmemorydata"
  shows "concat (map fw_step [256 * b..<256 * b + m]) = mem_writes (of_nat b) 0 (take m (drop (256 * b) dmpmemorydata))"
  using assms
proof (induction m)
  case (Suc m)
  have x: "take (Suc m) (drop (256 * b) dmpmemorydata) = take m (drop (256 * b) dmpmemorydata) @ [dmpmemorydata ! (256 * b + m)]"
    using Suc.prems by (simp add: take_Suc_conv_app_nth)
  show ?case
  proof (cases "m = 0")
    case True
    then show ?thesis unfolding x by (simp add: fw_step_def mem_writes_def)
  next
    case False
    have "(256 * b + m) mod 256 = m" using Suc.prems by simp
    then have "fw_step (256 * b + m) = [(0x6f, dmpmemorydata ! (256 * b + m))]" using False by (simp add: fw_step_def)
    moreover have "concat (map fw_step [256 * b..<256 * b + m]) = mem_writes (of_nat b) 0 (take m (drop (256 * b) dmpmemorydata))"
      using False Suc by simp
    ultimately show ?thesis unfolding x by (simp add: mem_writes_def)
  qed
qed simp

lemma fw_steps_banks:
  assumes "256 * n \<le> length dmpmemorydata"
  shows "concat (map fw_step [0..<256 * n]) = concat (map (\<lambda>b. mem_writes (of_nat b) 0 (bank_slice dmpmemorydata b)) [0..<n])"
  using assms
proof (induction n)
  case (Suc n)
  have "[0..<256 * Suc n] = [0..<256 * n] @ [256 * n..<256 * n + 256]"
    using upt_add_eq_append[of 0 "256 * n" 256] by (simp add: add.commute)
  then show ?case using Suc fw_steps_bank[of 256 n] by (simp add: bank_slice_def)
qed simp

lemma loadfirmware_ready:
  assumes "mpu_ready a s"
  shows "loadfirmware s = Some (mpu_out a firmware_writes s)"
proof -
  have "[0..<1929] = [0..<256 * 7] @ [256 * 7..<256 * 7 + 137]"
    using upt_add_eq_append[of 0 "256 * 7" 137] by simp
  moreover have "take 256 (drop (256 * 7) dmpmemorydata) = take 137 (drop (256 * 7) dmpmemorydata)"
    by (simp add: length_dmpmemorydata)
  moreover have "[0..<8] = [0..<7] @ [7]" by (simp add: upt_rec)
  ultimately have "concat (map fw_step [0..<1929]) = firmware_writes"
    using fw_steps_banks[of 7] fw_steps_bank[of 137 7]
    by (simp add: firmware_writes_def bank_slice_def length_dmpmemorydata del: upt_Suc)
  then show ?thesis using loadfirmware_steps[OF assms] by simp
qed

text \<open>The configuration table as records: bank, offset, number of bytes, the bytes.\<close>

fun cfg_parse :: "nat \<Rightarrow> u8 list \<Rightarrow> ((u8 \<times> u8 \<times> u8 list) list \<times> u8 list) option" where
  "cfg_parse 0 xs = Some ([], xs)"
| "cfg_parse (Suc k) (bank # offset # n # xs) =
     (if unat n \<le> length xs then
        map_option (\<lambda>(rs, rest). ((bank, offset, take (unat n) xs) # rs, rest)) (cfg_parse k (drop (unat n) xs))
      else None)"
| "cfg_parse (Suc k) xs = None"

definition cfg_writes :: "(u8 \<times> u8 \<times> u8 list) list \<Rightarrow> (u8 \<times> u8) list" where
  "cfg_writes rs = concat (map (\<lambda>(bank, offset, ds). mem_writes bank offset ds) rs)"

lemma length_dmpcfgupddata: "length dmpcfgupddata = 239"
  by (simp add: dmpcfgupddata_def)

lemma cfgupd_bytes:
  assumes "mpu_ready a s" and "unat c + n < length dmpcfgupddata"
  shows "for_range 0 n cfgupd_byte (c, s) =
    Some (c + of_nat n, mpu_out a (map (Pair 0x6f) (take n (drop (Suc (unat c)) dmpcfgupddata))) s)"
  using assms
proof (induction n)
  case (Suc n)
  have l: "unat c + n < 255" using Suc.prems(2) by (simp add: length_dmpcfgupddata)
  then have u: "unat (c + of_nat n) = unat c + n" "unat (c + of_nat n + 1) = Suc (unat c + n)"
    by (simp_all add: unat_word_ariths unsigned_of_nat take_bit_nat_eq_self)
  have d: "ld dmpcfgupddata (unat (c + of_nat n + 1)) = Some (dmpcfgupddata ! Suc (unat c + n))"
    unfolding u using Suc.prems(2) by (simp add: ld_in)
  have t: "take (Suc n) (drop (Suc (unat c)) dmpcfgupddata) =
      take n (drop (Suc (unat c)) dmpcfgupddata) @ [dmpcfgupddata ! Suc (unat c + n)]"
    using Suc.prems(2) by (simp add: take_Suc_conv_app_nth)
  have ih: "for_range 0 n cfgupd_byte (c, s) =
      Some (c + of_nat n, mpu_out a (map (Pair 0x6f) (take n (drop (Suc (unat c)) dmpcfgupddata))) s)"
    using Suc by simp
  have b: "cfgupd_byte n (c + of_nat n, v) = Some (c + of_nat n + 1, mpu_out a [(0x6f, dmpcfgupddata ! Suc (unat c + n))] v)"
    if "mpu_ready a v" for v
    unfolding cfgupd_byte_def Let_def prod.case d using that by (simp add: IICwriteByte_ready)
  show ?case using Suc.prems(1) by (simp add: for_range_snoc ih b t add.assoc)
qed simp

lemma cfgupd_line_ready:
  assumes "mpu_ready a s" and "drop (unat c) dmpcfgupddata = bank # offset # n # xs" and "unat n \<le> length xs"
  shows "\<exists>c'. cfgupd_line k (c, s) = Some (c', mpu_out a (mem_writes bank offset (take (unat n) xs)) s) \<and>
    drop (unat c') dmpcfgupddata = drop (unat n) xs"
proof -
  have len: "length dmpcfgupddata = unat c + 3 + length xs"
    using arg_cong[OF assms(2), of length] by simp
  then have u: "unat (c + 1) = unat c + 1" "unat (c + 1 + 1) = unat c + 2"
    by (simp_all add: unat_word_ariths length_dmpcfgupddata)
  have at: "dmpcfgupddata ! (unat c + i) = (bank # offset # n # xs) ! i" if "i < 3 + length xs" for i
    using that nth_drop[of "unat c" dmpcfgupddata i] len unfolding assms(2) by simp
  have ld: "ld dmpcfgupddata (unat c) = Some bank" "ld dmpcfgupddata (unat (c + 1)) = Some offset"
      "ld dmpcfgupddata (unat (c + 1 + 1)) = Some n"
    using at[of 0] at[of 1] at[of 2] len unfolding u by (simp_all add: ld_in)
  have xs: "drop (Suc (unat (c + 1 + 1))) dmpcfgupddata = xs"
  proof -
    have "drop 3 (drop (unat c) dmpcfgupddata) = xs" unfolding assms(2) by simp
    then show ?thesis unfolding u by (simp add: numeral_3_eq_3)
  qed
  have bytes: "for_range 0 (unat n) cfgupd_byte (c + 1 + 1, v) =
      Some (c + 1 + 1 + of_nat (unat n), mpu_out a (map (Pair 0x6f) (take (unat n) xs)) v)" if "mpu_ready a v" for v
    using cfgupd_bytes[where a = a and s = v and c = "c + 1 + 1" and n = "unat n"] that len assms(3) xs u by simp
  have w: "unat (c + 1 + 1 + of_nat (unat n) + 1) = unat c + 3 + unat n"
  proof -
    have "unat c + 3 + unat n < 256" using len assms(3) by (simp add: length_dmpcfgupddata)
    then show ?thesis by (simp add: unat_word_ariths)
  qed
  have "cfgupd_line k (c, s) = Some (c + 1 + 1 + of_nat (unat n) + 1, mpu_out a (mem_writes bank offset (take (unat n) xs)) s)"
    unfolding cfgupd_line_def prod.case Let_def ld using assms(1)
    by (simp add: IICwriteByte_ready bytes[simplified] mem_writes_def)
  moreover have "drop (unat c + 3 + unat n) dmpcfgupddata = drop (unat n) xs"
  proof -
    have "drop (unat c + 3 + unat n) dmpcfgupddata = drop (3 + unat n) (drop (unat c) dmpcfgupddata)" by (simp add: ac_simps)
    then show ?thesis unfolding assms(2) by (simp add: numeral_3_eq_3)
  qed
  ultimately show ?thesis unfolding w[symmetric] by blast
qed

lemma cfgupd_lines:
  assumes "mpu_ready a s" and "cfg_parse k (drop (unat c) dmpcfgupddata) = Some (rs, rest)"
  shows "\<exists>c'. for_range i (i + k) cfgupd_line (c, s) = Some (c', mpu_out a (cfg_writes rs) s) \<and> drop (unat c') dmpcfgupddata = rest"
  using assms
proof (induction k arbitrary: i c s rs)
  case 0
  then show ?case by (simp add: cfg_writes_def)
next
  case (Suc k)
  obtain bank offset n xs where d: "drop (unat c) dmpcfgupddata = bank # offset # n # xs"
    using Suc.prems(2) by (cases "(Suc k, drop (unat c) dmpcfgupddata)" rule: cfg_parse.cases) auto
  obtain rs' where n: "unat n \<le> length xs" and p: "cfg_parse k (drop (unat n) xs) = Some (rs', rest)"
      and rs: "rs = (bank, offset, take (unat n) xs) # rs'"
    using Suc.prems(2) unfolding d by (auto split: if_splits)
  obtain c' where l: "cfgupd_line i (c, s) = Some (c', mpu_out a (mem_writes bank offset (take (unat n) xs)) s)"
      and c': "drop (unat c') dmpcfgupddata = drop (unat n) xs"
    using cfgupd_line_ready[OF Suc.prems(1) d n] by blast
  have "mpu_ready a (mpu_out a (mem_writes bank offset (take (unat n) xs)) s)" using Suc.prems(1) by simp
  from Suc.IH[OF this p[folded c'], of "Suc i"]
  show ?case unfolding rs by (simp add: for_range_step l cfg_writes_def)
qed

definition cfg_table :: "(u8 \<times> u8 \<times> u8 list) list" where
  "cfg_table = (case cfg_parse 37 dmpcfgupddata of Some (rs, rest) \<Rightarrow> rs | None \<Rightarrow> [])"

lemma cfg_table_whole: "cfg_parse 37 dmpcfgupddata = Some (cfg_table, [])"
  by code_simp

lemma loadcfgupd_ready:
  assumes "mpu_ready a s"
  shows "loadcfgupd s = Some (mpu_out a (cfg_writes cfg_table) s)"
  using cfgupd_lines[OF assms, of 37 0 cfg_table "[]" 0] cfg_table_whole by (auto simp: loadcfgupd_def)

definition init_calls :: "u8 \<Rightarrow> u16 \<Rightarrow> sensor_call list" where
  "init_calls bus a =
     (let w = map (write_frame bus a)
      in w [(0x6B, 0x80)] @ [Sensor_sleep 100] @ w dmp_registers @ [Sensor_sleep 30] @
         w firmware_writes @ w (cfg_writes cfg_table) @ [Sensor_sleep 30] @ w [(0x70, 0x03), (0x71, 0x00), (0x6A, 0xCC)])"

lemma init_with_dmp_ready:
  assumes "mpu_ready a s"
  shows "mpu9250_init_with_dmp s = Some (sensor_out (init_calls (mpu9250_i2c_id s) a) s)"
  using assms
  by (simp add: mpu9250_init_with_dmp_def IICwriteByte_ready Delayms_def sensor_sleep_def write_all_ready
      loadfirmware_ready loadcfgupd_ready Let_def init_calls_def MPU9250_RA_PWR_MGMT_1_def MPU9250_RA_USER_CTRL_def mpu_out_def)

lemma gyroacc_not_null: "(ucast MPU9250_I2C_GYROACC_ADDR :: u16) \<noteq> I2C_NULL_SLAVE_ADDR"
  by (rule byte_slave_not_null)

text \<open>
  C31. \<^verbatim>\<open>mpu9250.init(id)\<close> on an existing bus opens it, resets and configures the chip,
  writes the firmware bank by bank into the processor's memory, then the 37 records of the
  configuration table, which use its 239 bytes exactly, starts the processor and closes the bus.
\<close>

theorem mpu9250_init_programs_chip:
  assumes "unat (ucast n :: u8) < 3" and "length (slave_addrs s) = 3"
  shows "\<exists>t. lua_mpu9250_init n s = Some (Lua_return t) \<and> cfg_parse 37 dmpcfgupddata = Some (cfg_table, []) \<and>
    sensor_calls t = sensor_calls s @ [Bus (Open_i2c (unat (ucast n :: u8)) 400000)] @
      init_calls (ucast n) 0x68 @ [Bus (Close_i2c (unat (ucast n :: u8)))]"
proof -
  let ?s = "s\<lparr>mpu9250_i2c_id := ucast n\<rparr>"
  have l: "length (slave_addrs ?s) = 3" using assms(2) by simp
  obtain t where t: "sensor_setup (ucast n) (ucast MPU9250_I2C_GYROACC_ADDR) ?s =
        Some (sensor_out [Bus (Open_i2c (unat (ucast n :: u8)) PLATFORM_I2C_SPEED_FAST)] t)"
      and r: "bus_ready (ucast n) (ucast MPU9250_I2C_GYROACC_ADDR) t"
      and s: "t = ?s\<lparr>slave_addrs := (slave_addrs ?s)[unat (ucast n :: u8) := ucast MPU9250_I2C_GYROACC_ADDR]\<rparr>"
    using sensor_setup_ready[OF assms(1) l gyroacc_not_null] by blast
  have i: "mpu9250_i2c_id t = ucast n" "sensor_calls t = sensor_calls s" unfolding s by simp_all
  have a: "(ucast MPU9250_I2C_GYROACC_ADDR :: u16) = 0x68" by (simp add: MPU9250_I2C_GYROACC_ADDR_def)
  show ?thesis
    using r i unfolding lua_mpu9250_init_def mpu9250_setup_i2c_def a
    by (simp add: t[unfolded a] mod_check_id_def platform_i2c_exists_def init_with_dmp_ready mpu9250_close_i2c_def
        sensor_close_ready PLATFORM_I2C_SPEED_FAST_def cfg_table_whole)
qed

lemma mpu9250_init_programs_chip_witness:
  "\<exists>t. lua_mpu9250_init 2 \<lparr>slave_addrs = [0, 0, 0], sensor_calls = [], reads = 0, mpu9250_i2c_id = 2\<rparr> = Some (Lua_return t) \<and>
    cfg_parse 37 dmpcfgupddata = Some (cfg_table, []) \<and>
    sensor_calls t = sensor_calls \<lparr>slave_addrs = [0, 0, 0], sensor_calls = [], reads = 0, mpu9250_i2c_id = 2\<rparr> @
      [Bus (Open_i2c (unat (ucast (2 :: u32) :: u8)) 400000)] @
      init_calls (ucast (2 :: u32)) 0x68 @ [Bus (Close_i2c (unat (ucast (2 :: u32) :: u8)))]"
  by (rule mpu9250_init_programs_chip) simp_all

text \<open>A bus number above 2 is taken as an index into the slave address table.\<close>

lemma mpu9250_init_unchecked_bus:
  assumes "3 \<le> unat (ucast n :: u8)" and "length (slave_addrs s) = 3"
  shows "lua_mpu9250_init n s = None"
  using assms by (simp add: lua_mpu9250_init_def mpu9250_setup_i2c_def sensor_setup_def platform_i2c_setup_def st_def)

section \<open>Waiting for a packet\<close>

definition fifo_cnt :: "sensor_env \<Rightarrow> nat \<Rightarrow> u16" where
  "fifo_cnt e p =
     (let bs = answer e p 0x72 2 @ drop (length (answer e p 0x72 2)) [0, 0]
      in push_bit 8 (ucast (bs ! 0)) OR ucast (bs ! 1))"

definition overflowing :: "sensor_env \<Rightarrow> nat \<Rightarrow> bool" where
  "overflowing e p \<longleftrightarrow> 0x200 \<le> fifo_cnt e p"

definition has_packet :: "sensor_env \<Rightarrow> nat \<Rightarrow> bool" where
  "has_packet e p \<longleftrightarrow> 0x2a \<le> fifo_cnt e p \<and> fifo_cnt e p < 0x200"

text \<open>The read that starts the k-th round; a reset makes one more read.\<close>

fun round_pos :: "sensor_env \<Rightarrow> nat \<Rightarrow> nat \<Rightarrow> nat" where
  "round_pos e p 0 = p"
| "round_pos e p (Suc k) = round_pos e (if overflowing e p then p + 2 else p + 1) k"

text \<open>The driver stores no more bytes than it was asked for.\<close>

definition fifo_answers :: "sensor_env \<Rightarrow> nat \<Rightarrow> bool" where
  "fifo_answers e p \<longleftrightarrow> length (answer e p 0x72 2) \<le> 2 \<and> (overflowing e p \<longrightarrow> length (answer e (p + 1) 0x6A 1) \<le> 1) \<and>
     (has_packet e p \<longrightarrow> length (answer e (p + 1) 0x74 42) \<le> 42 \<and> length (answer e (p + 2) 0x6A 1) \<le> 1)"

definition packet_at :: "sensor_env \<Rightarrow> nat \<Rightarrow> u8 list" where
  "packet_at e p = answer e (p + 1) 0x74 42 @ drop (length (answer e (p + 1) 0x74 42)) (stack_buf e 42)"

definition attitude :: "u8 list \<Rightarrow> ypr_angles option" where
  "attitude d = Option.bind (mpu9250_get_quaternion d) mpu9250_get_yawpitchroll"

definition mpu_read :: "u16 \<Rightarrow> u8 \<Rightarrow> u32 \<Rightarrow> mpu_st \<Rightarrow> mpu_st" where
  "mpu_read a reg n s = sensor_out [read_frame (mpu9250_i2c_id s) a reg n] (s\<lparr>reads := Suc (reads s)\<rparr>)"

lemma mpu_read_simps [simp]:
  "reads (mpu_read a reg n s) = Suc (reads s)" "mpu9250_i2c_id (mpu_read a reg n s) = mpu9250_i2c_id s"
  "bus_ready bus b (mpu_read a reg n s) = bus_ready bus b s"
  by (simp_all add: mpu_read_def)

lemma IICreadBytes_ready:
  assumes "mpu_ready a s" and "length (answer e (reads s) reg n) \<le> length buf"
  shows "IICreadBytes e reg n buf s =
    Some (answer e (reads s) reg n @ drop (length (answer e (reads s) reg n)) buf, mpu_read a reg n s)"
  using sensor_read_ready[OF assms] by (simp add: IICreadBytes_def mpu_read_def)

lemma stack_buf_1: "stack_buf e (Suc 0) = [stack e 0]"
  by (simp add: stack_buf_def)

lemma IIC_ReadOneByte_ready:
  assumes "mpu_ready a s" and "length (answer e (reads s) reg 1) \<le> 1"
  shows "\<exists>b. IIC_ReadOneByte e reg s = Some (b, mpu_read a reg 1 s)"
  using assms by (cases "answer e (reads s) reg 1") (auto simp: IIC_ReadOneByte_def stack_buf_1 IICreadBytes_ready ld_def)

lemma fifo_count_ready:
  assumes "mpu_ready a s" and "length (answer e (reads s) 0x72 2) \<le> 2"
  shows "mpu9250_get_fifo_count e s = Some (fifo_cnt e (reads s), mpu_read a 0x72 2 s)"
proof -
  have len: "length (answer e (reads s) 0x72 2 @ drop (length (answer e (reads s) 0x72 2)) [0, 0]) = 2" using assms(2) by simp
  show ?thesis using assms len
    by (simp add: mpu9250_get_fifo_count_def IICreadBytes_ready MPU9250_RA_FIFO_COUNTH_def ld_in fifo_cnt_def Let_def)
qed

lemma reset_fifo_ready:
  assumes "mpu_ready a s" and "length (answer e (reads s) 0x6A 1) \<le> 1"
  shows "\<exists>b. mpu9250_reset_fifo e s = Some (mpu_out a [(0x6A, b)] (mpu_read a 0x6A 1 s))"
  using IIC_ReadOneByte_ready[OF assms] assms(1)
  by (auto simp: mpu9250_reset_fifo_def MPU9250_RA_USER_CTRL_def IICwriteByte_ready)

lemma round_pos_shift: "round_pos e p (Suc k) = round_pos e (round_pos e p 1) k"
  by simp

text \<open>A round without a packet ends in a state from which the wait goes on.\<close>

lemma ypr_round:
  assumes "mpu_ready a s" and "fifo_answers e (reads s)" and "\<not> has_packet e (reads s)"
  shows "\<exists>u t. mpu9250_get_fifo_count e s = Some (fifo_cnt e (reads s), u) \<and> mpu_ready a t \<and> reads t = round_pos e (reads s) 1 \<and>
    (if 0x200 \<le> fifo_cnt e (reads s) then mpu9250_reset_fifo e u = Some t
     else u = t \<and> \<not> 0x2a \<le> fifo_cnt e (reads s))"
proof -
  let ?s = "mpu_read a 0x72 2 s"
  have c: "mpu9250_get_fifo_count e s = Some (fifo_cnt e (reads s), ?s)"
    using assms(1,2) by (simp add: fifo_count_ready fifo_answers_def)
  show ?thesis
  proof (cases "overflowing e (reads s)")
    case True
    then have "length (answer e (reads ?s) 0x6A 1) \<le> 1" using assms(2) by (simp add: fifo_answers_def)
    from reset_fifo_ready[OF _ this] assms(1) obtain b where
      r: "mpu9250_reset_fifo e ?s = Some (mpu_out a [(0x6A, b)] (mpu_read a 0x6A 1 ?s))" by auto
    show ?thesis using True assms(1)
      by (intro exI[of _ ?s] exI[of _ "mpu_out a [(0x6A, b)] (mpu_read a 0x6A 1 ?s)"]) (simp add: c r overflowing_def)
  next
    case False
    then show ?thesis using assms(1,3)
      by (intro exI[of _ ?s]) (auto simp: c overflowing_def has_packet_def not_le)
  qed
qed

lemma ypr_wait_round:
  assumes "mpu_ready a s" and "fifo_answers e (reads s)" and "\<not> has_packet e (reads s)"
  shows "\<exists>t. ypr_wait e s = ypr_wait e t \<and> mpu_ready a t \<and> reads t = round_pos e (reads s) 1"
proof -
  obtain u t where r: "mpu9250_get_fifo_count e s = Some (fifo_cnt e (reads s), u)"
      "mpu_ready a t" "reads t = round_pos e (reads s) 1"
      "if 0x200 \<le> fifo_cnt e (reads s) then mpu9250_reset_fifo e u = Some t else u = t \<and> \<not> 0x2a \<le> fifo_cnt e (reads s)"
    using ypr_round[OF assms] by (elim exE conjE) (rule that)
  have "ypr_wait e s = ypr_wait e t"
    using r(4) by (subst ypr_wait.simps) (simp add: r(1) split: if_splits)
  then show ?thesis using r(2,3) by blast
qed

lemma ypr_wait_packet:
  assumes "mpu_ready a s" and "fifo_answers e (reads s)" and "has_packet e (reads s)"
  shows "map_option fst (ypr_wait e s) = attitude (packet_at e (reads s))"
proof -
  let ?s = "mpu_read a 0x72 2 s"
  have c: "mpu9250_get_fifo_count e s = Some (fifo_cnt e (reads s), ?s)"
    using assms(1,2) by (simp add: fifo_count_ready fifo_answers_def)
  have l: "length (answer e (reads ?s) 0x74 42) \<le> length (stack_buf e 42)" "length (answer e (Suc (reads ?s)) 0x6A 1) \<le> 1"
    using assms(2,3) by (simp_all add: fifo_answers_def stack_buf_def)
  let ?t = "mpu_out a [(0x6A, 0xcc)] (mpu_read a 0x74 42 ?s)"
  have d: "mpu9250_read_dmp e (stack_buf e 42) ?s = Some (packet_at e (reads s), ?t)"
    using assms(1) l(1) by (simp add: mpu9250_read_dmp_def IICreadBytes_ready IICwriteByte_ready packet_at_def MPU9250_RA_USER_CTRL_def)
  obtain b where r: "mpu9250_reset_fifo e ?t = Some (mpu_out a [(0x6A, b)] (mpu_read a 0x6A 1 ?t))"
    using reset_fifo_ready[where a = a and s = ?t and e = e] assms(1) l(2) by auto
  have "\<not> 0x200 \<le> fifo_cnt e (reads s)" "0x2a \<le> fifo_cnt e (reads s)" using assms(3) by (auto simp: has_packet_def)
  then show ?thesis
    by (subst ypr_wait.simps) (simp add: c d r attitude_def split: option.split bind_split)
qed

definition ypr_rounds :: "sensor_env \<Rightarrow> mpu_st \<Rightarrow> nat \<Rightarrow> nat" where
  "ypr_rounds e s k = round_pos e (reads s) k"

lemma ypr_wait_first_packet:
  assumes "mpu_ready a s" and "\<And>j. fifo_answers e (round_pos e (reads s) j)"
    and "has_packet e (round_pos e (reads s) k)" and "\<And>j. j < k \<Longrightarrow> \<not> has_packet e (round_pos e (reads s) j)"
  shows "map_option fst (ypr_wait e s) = attitude (packet_at e (round_pos e (reads s) k))"
  using assms
proof (induction k arbitrary: s)
  case 0
  then show ?case using ypr_wait_packet[where a = a and s = s and e = e] by (metis round_pos.simps(1))
next
  case (Suc k)
  have "fifo_answers e (reads s)" "\<not> has_packet e (reads s)"
    using Suc.prems(2)[of 0] Suc.prems(4)[of 0] by simp_all
  from ypr_wait_round[OF Suc.prems(1) this] obtain t where
    t: "ypr_wait e s = ypr_wait e t" "mpu_ready a t" "reads t = round_pos e (reads s) 1" by blast
  have p: "round_pos e (reads t) j = round_pos e (reads s) (Suc j)" for j
    unfolding t(3) by (rule round_pos_shift[symmetric])
  show ?case unfolding t(1) p[symmetric]
    by (rule Suc.IH[OF t(2)]) (simp only: p Suc.prems(2), simp only: p Suc.prems(3), simp only: p, rule Suc.prems(4), simp)
qed

lemma ypr_wait_returned:
  assumes "ypr_wait e s = Some r" and "mpu_ready a s" and "\<forall>j. fifo_answers e (round_pos e (reads s) j)"
  shows "\<exists>k. has_packet e (round_pos e (reads s) k)"
proof -
  have "mpu_ready a s \<longrightarrow> (\<forall>j. fifo_answers e (round_pos e (reads s) j)) \<longrightarrow> (\<exists>k. has_packet e (round_pos e (reads s) k))"
  proof (rule ypr_wait.raw_induct[OF _ assms(1)], intro impI)
    fix f e s y
    assume ih: "\<And>e s y. f e s = Some y \<Longrightarrow> mpu_ready a s \<longrightarrow> (\<forall>j. fifo_answers e (round_pos e (reads s) j)) \<longrightarrow>
          (\<exists>k. has_packet e (round_pos e (reads s) k))"
      and ready: "mpu_ready a s" and ans: "\<forall>j. fifo_answers e (round_pos e (reads s) j)"
      and body: "mpu9250_get_fifo_count e s \<bind> (\<lambda>(cnt, s).
          if 0x200 \<le> cnt then mpu9250_reset_fifo e s \<bind> (\<lambda>s. f e s)
          else if 0x2a \<le> cnt then mpu9250_read_dmp e (stack_buf e 42) s \<bind> (\<lambda>(dmp_raw, s).
            mpu9250_reset_fifo e s \<bind> (\<lambda>s. mpu9250_get_quaternion dmp_raw \<bind> (\<lambda>quaternion.
            mpu9250_get_yawpitchroll quaternion \<bind> (\<lambda>ypr. Some (ypr, s)))))
          else f e s) = Some y"
    show "\<exists>k. has_packet e (round_pos e (reads s) k)"
    proof (cases "has_packet e (reads s)")
      case True
      then show ?thesis by (intro exI[of _ 0]) simp
    next
      case False
      have "fifo_answers e (reads s)" using spec[OF ans, of 0] by simp
      from ypr_round[OF ready this False] obtain u t where
        r: "mpu9250_get_fifo_count e s = Some (fifo_cnt e (reads s), u)" "mpu_ready a t" "reads t = round_pos e (reads s) 1"
          "if 0x200 \<le> fifo_cnt e (reads s) then mpu9250_reset_fifo e u = Some t else u = t \<and> \<not> 0x2a \<le> fifo_cnt e (reads s)"
        by (elim exE conjE) (rule that)
      have "f e t = Some y" using body r(4) by (auto simp: r(1) split: if_splits)
      moreover have p: "round_pos e (reads t) j = round_pos e (reads s) (Suc j)" for j
        unfolding r(3) by (rule round_pos_shift[symmetric])
      ultimately obtain k where "has_packet e (round_pos e (reads t) k)" using ih[of e t y] r(2) ans by metis
      then show ?thesis unfolding p by blast
    qed
  qed
  then show ?thesis using assms(2,3) by blast
qed

lemma attitude_returns: "length d = 42 \<Longrightarrow> \<exists>y. attitude d = Some y"
  using lasin_returns
  by (simp add: attitude_def mpu9250_get_quaternion_def q_component_def getdmplong_def ld_in mpu9250_get_yawpitchroll_def Let_def)
    (metis (no_types, lifting) bind.bind_lunit)

text \<open>
  C32. The wait of \<^verbatim>\<open>mpu9250.ypr()\<close> returns exactly if some round finds a packet, between
  42 and 511 bytes, in the FIFO, by the count it reads from the registers 0x72 and 0x73; it then returns the attitude of the first packet, read from the register 0x74. A chip that never
  reports one, such as one that does not answer, keeps the caller waiting for ever.
\<close>

theorem ypr_wait_ends:
  assumes "bus_ready (mpu9250_i2c_id s) a s" and "\<forall>j. fifo_answers e (round_pos e (reads s) j)"
  shows "(ypr_wait e s \<noteq> None \<longleftrightarrow> (\<exists>k. has_packet e (round_pos e (reads s) k))) \<and>
    (\<forall>k. has_packet e (round_pos e (reads s) k) \<and> (\<forall>j < k. \<not> has_packet e (round_pos e (reads s) j)) \<longrightarrow>
       map_option fst (ypr_wait e s) = attitude (packet_at e (round_pos e (reads s) k)))"
proof (intro conjI allI impI iffI)
  assume "ypr_wait e s \<noteq> None"
  then show "\<exists>k. has_packet e (round_pos e (reads s) k)" using ypr_wait_returned[OF _ assms] by blast
next
  let ?P = "\<lambda>k. has_packet e (round_pos e (reads s) k)"
  assume "\<exists>k. ?P k"
  then have first: "?P (LEAST k. ?P k)" "\<And>j. j < (LEAST k. ?P k) \<Longrightarrow> \<not> ?P j" by (auto intro: LeastI dest: not_less_Least)
  let ?p = "round_pos e (reads s) (LEAST k. ?P k)"
  have "length (packet_at e ?p) = 42"
    using first(1) spec[OF assms(2), of "LEAST k. ?P k"] by (simp add: packet_at_def fifo_answers_def stack_buf_def)
  then show "ypr_wait e s \<noteq> None"
    using ypr_wait_first_packet[OF assms(1) _ first] assms(2) attitude_returns[of "packet_at e ?p"] by auto
next
  fix k
  assume "has_packet e (round_pos e (reads s) k) \<and> (\<forall>j < k. \<not> has_packet e (round_pos e (reads s) j))"
  then show "map_option fst (ypr_wait e s) = attitude (packet_at e (round_pos e (reads s) k))"
    using assms(2) by (intro ypr_wait_first_packet[OF assms(1)]) simp_all
qed

definition quiet_env :: sensor_env where
  "quiet_env = \<lparr>answer = (\<lambda>n reg m. if reg = 0x72 then if n = 1 then [0, 42] else if n = 0 then [0, 41] else [] else []), stack = (\<lambda>n. 0)\<rparr>"

definition ready_mpu :: mpu_st where
  "ready_mpu = \<lparr>slave_addrs = [0, 0, 0x68], sensor_calls = [], reads = 0, mpu9250_i2c_id = 2\<rparr>"

lemma quiet_fifo: "fifo_cnt quiet_env n = (if n = 1 then 42 else if n = 0 then 41 else 0)"
  by (auto simp: fifo_cnt_def quiet_env_def)

lemma ypr_wait_ends_witness:
  "ypr_wait quiet_env ready_mpu \<noteq> None \<and> map_option fst (ypr_wait quiet_env ready_mpu) = attitude (map (\<lambda>_. 0) [0..<42])"
proof -
  have "bus_ready (mpu9250_i2c_id ready_mpu) 0x68 ready_mpu"
    by (simp add: bus_ready_def ready_mpu_def I2C_NULL_SLAVE_ADDR_def)
  moreover have "\<forall>j. fifo_answers quiet_env (round_pos quiet_env (reads ready_mpu) j)"
    by (auto simp: fifo_answers_def overflowing_def has_packet_def quiet_fifo) (auto simp: quiet_env_def)
  moreover have pos: "round_pos quiet_env (reads ready_mpu) 0 = 0" "round_pos quiet_env (reads ready_mpu) (Suc 0) = 1"
    by (simp_all add: ready_mpu_def overflowing_def quiet_fifo)
  moreover have "packet_at quiet_env 1 = map (\<lambda>_. 0) [0..<42]"
    by (simp add: packet_at_def quiet_env_def stack_buf_def)
  moreover have "has_packet quiet_env 1" "\<not> has_packet quiet_env 0"
    by (simp_all add: has_packet_def quiet_fifo)
  ultimately show ?thesis
    using ypr_wait_ends[where s = ready_mpu and e = quiet_env and a = "0x68"] by (metis less_Suc0)
qed

section \<open>Answers the driver does not check\<close>

text \<open>On a magnetic overflow the compass is computed from a record that was never filled.\<close>

lemma compass_overflow_keeps_record:
  assumes "mpu_ready a s" and "answer e (reads s) 0x09 1 = [b]" and "b AND 0x08 \<noteq> 0"
    and "length (answer e (Suc (reads s)) MPU9250_RA_MAG_XOUT_L 1) \<le> 1"
  shows "map_option fst (mpu9250_get_mag e mag s) = Some mag"
proof -
  have "IIC_ReadOneByte e 0x09 s = Some (b, mpu_read a 0x09 1 s)"
    using assms(1,2) by (simp add: IIC_ReadOneByte_def stack_buf_1 IICreadBytes_ready ld_def)
  moreover obtain c where "IIC_ReadOneByte e MPU9250_RA_MAG_XOUT_L (mpu_read a 0x09 1 s) =
      Some (c, mpu_read a MPU9250_RA_MAG_XOUT_L 1 (mpu_read a 0x09 1 s))"
    using IIC_ReadOneByte_ready[where a = a and s = "mpu_read a 0x09 1 s" and e = e] assms(1,4) by auto
  ultimately show ?thesis using assms(3) by (simp add: mpu9250_get_mag_def)
qed

text \<open>
  A packet whose pitch is the arc sine of two or more makes \<^verbatim>\<open>mpu9250.ypr()\<close> convert a NaN
  to an integer, which C leaves undefined.
\<close>

lemma pitch_out_of_range:
  assumes "attitude d = Some y" and "mpu9250_get_quaternion d = Some q"
    and x: "x = d_mul two (d_sub (d_mul (q_a q) (q_y q)) (d_mul (q_z q) (q_x q)))" "1024 \<le> d_exp x" "d_exp x < 2047"
  shows "d_to_s32 (pitch y) = None"
proof -
  have "pitch y = d_mul (d_uminus DBL_NAN) deg"
    using assms(1,2) lasin_out_of_range[OF x(2,3)] x(1) by (auto simp: attitude_def mpu9250_get_yawpitchroll_def Let_def)
  also have "\<dots> = DBL_NAN" by code_simp
  finally show ?thesis by (simp add: d_to_s32_def d_finite_def d_exp_special)
qed

end
