(* ===== verification/Bmp280.thy ===== *)
theory Bmp280
  imports Ieee Sensor
begin

text \<open>
  The BMP280 pressure sensor driver \<^verbatim>\<open>modules/src/bmp280.c\<close>: calibration data, the
  compensation formulas in double precision, and the Lua functions. C leaves open which operand of
  \<^verbatim>\<open>|\<close> is read first; the model reads from left to right.
\<close>

section \<open>State and register access\<close>

record bmp_st = sensor_st +
  bmp280_i2c_addr :: u8
  bmp280_i2c_id :: u8
  bmp280_tdata :: "u16 list"
  bmp280_pdata :: "u16 list"

definition bmp280_i2c_setup :: "u8 \<Rightarrow> bmp_st \<Rightarrow> bmp_st option" where
  "bmp280_i2c_setup slave_addr s = sensor_setup (bmp280_i2c_id s) (ucast slave_addr) s"

definition bmp280_i2c_close :: "bmp_st \<Rightarrow> bmp_st option" where
  "bmp280_i2c_close s = sensor_close (bmp280_i2c_id s) s"

definition bmp280_i2c_write_byte :: "u8 \<Rightarrow> u8 \<Rightarrow> bmp_st \<Rightarrow> bmp_st option" where
  "bmp280_i2c_write_byte reg_addr dat s = sensor_write (bmp280_i2c_id s) reg_addr dat s"

definition bmp280_i2c_read_bytes :: "sensor_env \<Rightarrow> u8 \<Rightarrow> u32 \<Rightarrow> u8 list \<Rightarrow> bmp_st \<Rightarrow> (u8 list \<times> bmp_st) option" where
  "bmp280_i2c_read_bytes e reg_addr n dat s = sensor_read e (bmp280_i2c_id s) reg_addr n dat s"

definition bmp280_i2c_read_byte :: "sensor_env \<Rightarrow> u8 \<Rightarrow> bmp_st \<Rightarrow> (u8 \<times> bmp_st) option" where
  "bmp280_i2c_read_byte e reg_addr s = do {
     (buf, s) \<leftarrow> bmp280_i2c_read_bytes e reg_addr 1 (stack_buf e 1) s;
     b \<leftarrow> ld buf 0;
     Some (b, s)
   }"

section \<open>Calibration\<close>

text \<open>\<^verbatim>\<open>(read_byte(hi) << 8) | read_byte(hi - 1)\<close>\<close>

definition read_calib :: "sensor_env \<Rightarrow> u8 \<Rightarrow> bmp_st \<Rightarrow> (u16 \<times> bmp_st) option" where
  "read_calib e hi s = do {
     (h, s) \<leftarrow> bmp280_i2c_read_byte e hi s;
     (l, s) \<leftarrow> bmp280_i2c_read_byte e (hi - 1) s;
     Some (push_bit 8 (ucast h) OR ucast l, s)
   }"

fun read_calibs :: "sensor_env \<Rightarrow> u8 list \<Rightarrow> bmp_st \<Rightarrow> (u16 list \<times> bmp_st) option" where
  "read_calibs e [] s = Some ([], s)"
| "read_calibs e (hi # his) s = do {
     (c, s) \<leftarrow> read_calib e hi s;
     (cs, s) \<leftarrow> read_calibs e his s;
     Some (c # cs, s)
   }"

definition bmp280_init :: "sensor_env \<Rightarrow> bmp_st \<Rightarrow> bmp_st option" where
  "bmp280_init e s = do {
     s \<leftarrow> bmp280_i2c_write_byte 0xf4 0x33 s;
     s \<leftarrow> bmp280_i2c_write_byte 0xf5 0x44 s;
     (td, s) \<leftarrow> read_calibs e [0x89, 0x8b, 0x8d] s;
     (pd, s) \<leftarrow> read_calibs e [0x8f, 0x91, 0x93, 0x95, 0x97, 0x99, 0x9b, 0x9d, 0x9f] s;
     Some (s\<lparr>bmp280_tdata := td, bmp280_pdata := pd\<rparr>)
   }"

definition bmp280_reset :: "bmp_st \<Rightarrow> bmp_st option" where
  "bmp280_reset s = do {
     s \<leftarrow> bmp280_i2c_write_byte 0xe0 0x86 s;
     Some (sensor_sleep 50 s)
   }"

section \<open>Measurement\<close>

text \<open>\<^verbatim>\<open>(read_byte(r)<<12)|(read_byte(r+1)<<4)|(read_byte(r+2)>>4)\<close>\<close>

definition read_adc :: "sensor_env \<Rightarrow> u8 \<Rightarrow> bmp_st \<Rightarrow> (int \<times> bmp_st) option" where
  "read_adc e r s = do {
     (a, s) \<leftarrow> bmp280_i2c_read_byte e r s;
     (b, s) \<leftarrow> bmp280_i2c_read_byte e (r + 1) s;
     (c, s) \<leftarrow> bmp280_i2c_read_byte e (r + 2) s;
     Some (push_bit 12 (uint a) OR push_bit 4 (uint b) OR drop_bit 4 (uint c), s)
   }"

abbreviation cal :: "u16 list \<Rightarrow> nat \<Rightarrow> double" where
  "cal xs k \<equiv> d_of_int (uint (xs ! k))"

definition temperature_of :: "u16 list \<Rightarrow> int \<Rightarrow> double" where
  "temperature_of t adc_t =
     (let a = d_of_int adc_t;
          var1 = d_mul (d_sub (d_div a (d_of_int 16384)) (d_div (cal t 0) (d_of_int 1024))) (cal t 1);
          d = d_sub (d_div a (d_of_int 131072)) (d_div (cal t 0) (d_of_int 8192));
          var2 = d_mul (d_mul d d) (cal t 2)
      in d_div (d_add var1 var2) (d_of_int 5120))"

definition bmp280_temperature :: "sensor_env \<Rightarrow> bmp_st \<Rightarrow> (double \<times> bmp_st) option" where
  "bmp280_temperature e s = do {
     (adc_t, s) \<leftarrow> read_adc e 0xfa s;
     Some (temperature_of (bmp280_tdata s) adc_t, s)
   }"

definition pressure_of :: "u16 list \<Rightarrow> double \<Rightarrow> int \<Rightarrow> double" where
  "pressure_of p temperature adc_p =
     (let t_fine = d_mul temperature (d_of_int 5120);
          var1 = d_sub (d_div t_fine (d_of_int 2)) (d_of_int 64000);
          var2 = d_div (d_mul (d_mul var1 var1) (cal p 5)) (d_of_int 32768);
          var2 = d_add var2 (d_mul (d_mul var1 (cal p 4)) (d_of_int 2));
          var2 = d_add (d_div var2 (d_of_int 4)) (d_mul (cal p 3) (d_of_int 65536));
          var1 = d_div (d_add (d_div (d_mul (d_mul (cal p 2) var1) var1) (d_of_int 524288)) (d_mul (cal p 1) var1))
                   (d_of_int 524288);
          var1 = d_mul (d_add (d_of_int 1) (d_div var1 (d_of_int 32768))) (cal p 0)
      in if d_eq var1 0 then 0
         else
           (let pressure = d_sub (d_of_int 1048576) (d_of_int adc_p);
                pressure = d_div (d_mul (d_sub pressure (d_div var2 (d_of_int 4096))) (d_of_int 6250)) var1;
                var1 = d_div (d_mul (d_mul (cal p 8) pressure) pressure) (d_of_int 2147483648);
                var2 = d_div (d_mul pressure (cal p 7)) (d_of_int 32768)
            in d_add pressure (d_div (d_add (d_add var1 var2) (cal p 6)) (d_of_int 16))))"

definition bmp280_pressure :: "sensor_env \<Rightarrow> double \<Rightarrow> bmp_st \<Rightarrow> (double \<times> bmp_st) option" where
  "bmp280_pressure e temperature s = do {
     (adc_p, s) \<leftarrow> read_adc e 0xf7 s;
     Some (pressure_of (bmp280_pdata s) temperature adc_p, s)
   }"

section \<open>The Lua functions\<close>

definition bmp_check_id :: "bmp_st \<Rightarrow> (bmp_st \<Rightarrow> 'b lua option) \<Rightarrow> 'b lua option" where
  "bmp_check_id s k =
     (if platform_i2c_exists (ucast (bmp280_i2c_id s)) then k s else Some (Lua_error ''i2c does not exist''))"

definition lua_bmp280_init :: "sensor_env \<Rightarrow> u32 \<Rightarrow> u32 \<Rightarrow> bmp_st \<Rightarrow> bmp_st lua option" where
  "lua_bmp280_init e n addr s = do {
     let s = s\<lparr>bmp280_i2c_id := ucast n, bmp280_i2c_addr := ucast addr\<rparr>;
     s \<leftarrow> bmp280_i2c_setup (bmp280_i2c_addr s) s;
     bmp_check_id s (\<lambda>s. do {
       s \<leftarrow> bmp280_init e s;
       s \<leftarrow> bmp280_i2c_close s;
       Some (Lua_return s)
     })
   }"

definition lua_bmp280_reset :: "bmp_st \<Rightarrow> bmp_st lua option" where
  "lua_bmp280_reset s = do {
     s \<leftarrow> bmp280_i2c_setup (bmp280_i2c_addr s) s;
     bmp_check_id s (\<lambda>s. do {
       s \<leftarrow> bmp280_reset s;
       s \<leftarrow> bmp280_i2c_close s;
       Some (Lua_return s)
     })
   }"

text \<open>The local \<^verbatim>\<open>int temperature\<close> drops the fraction before the pressure is computed.\<close>

definition lua_bmp280_pressure :: "sensor_env \<Rightarrow> bmp_st \<Rightarrow> (int \<times> bmp_st) lua option" where
  "lua_bmp280_pressure e s = do {
     s \<leftarrow> bmp280_i2c_setup (bmp280_i2c_addr s) s;
     bmp_check_id s (\<lambda>s. do {
       (t, s) \<leftarrow> bmp280_temperature e s;
       temperature \<leftarrow> d_to_s32 t;
       (p, s) \<leftarrow> bmp280_pressure e (d_of_int temperature) s;
       pressure \<leftarrow> d_to_s32 p;
       s \<leftarrow> bmp280_i2c_close s;
       Some (Lua_return (pressure, s))
     })
   }"

definition lua_bmp280_temperature :: "sensor_env \<Rightarrow> bmp_st \<Rightarrow> (int \<times> bmp_st) lua option" where
  "lua_bmp280_temperature e s = do {
     s \<leftarrow> bmp280_i2c_setup (bmp280_i2c_addr s) s;
     bmp_check_id s (\<lambda>s. do {
       (t, s) \<leftarrow> bmp280_temperature e s;
       temperature \<leftarrow> d_to_s32 t;
       s \<leftarrow> bmp280_i2c_close s;
       Some (Lua_return (temperature, s))
     })
   }"

section \<open>A chip that answers\<close>

text \<open>Reads of registers one after the other, each answered with one byte.\<close>

abbreviation bmp_ready :: "u16 \<Rightarrow> bmp_st \<Rightarrow> bool" where
  "bmp_ready a s \<equiv> bus_ready (bmp280_i2c_id s) a s"

definition bmp_reads :: "u16 \<Rightarrow> u8 list \<Rightarrow> bmp_st \<Rightarrow> bmp_st" where
  "bmp_reads a regs s =
     sensor_out (map (\<lambda>r. read_frame (bmp280_i2c_id s) a r 1) regs) (s\<lparr>reads := reads s + length regs\<rparr>)"

text \<open>
  The chip as a bank of registers: a read of \<open>n\<close> bytes answers the registers from the one
  addressed onwards.
\<close>

definition chip_holds :: "sensor_env \<Rightarrow> (u8 \<Rightarrow> u8) \<Rightarrow> bool" where
  "chip_holds e regs \<longleftrightarrow> (\<forall>k reg n. answer e k reg n = map (\<lambda>i. regs (reg + of_nat i)) [0..<unat n])"

lemma bmp_reads_simps [simp]:
  "bmp_reads a ys (bmp_reads a xs s) = bmp_reads a (xs @ ys) s"
  "bus_ready bus b (bmp_reads a xs s) = bus_ready bus b s" "bmp280_i2c_id (bmp_reads a xs s) = bmp280_i2c_id s"
  "reads (bmp_reads a xs s) = reads s + length xs" "bmp280_tdata (bmp_reads a xs s) = bmp280_tdata s"
  "bmp280_pdata (bmp_reads a xs s) = bmp280_pdata s" "slave_addrs (bmp_reads a xs s) = slave_addrs s"
  by (simp_all add: bmp_reads_def sensor_out_def bus_ready_def add.assoc)

lemma bmp_read_byte_ready:
  assumes "bmp_ready a s" and "chip_holds e regs"
  shows "bmp280_i2c_read_byte e reg s = Some (regs reg, bmp_reads a [reg] s)"
proof -
  have "answer e (reads s) reg 1 = [regs reg]" using assms(2) by (simp add: chip_holds_def)
  then show ?thesis
    using sensor_read_ready[OF assms(1), of e reg 1 "[stack e 0]"]
    by (simp add: bmp280_i2c_read_byte_def bmp280_i2c_read_bytes_def stack_buf_def bmp_reads_def ld_def)
qed

text \<open>
  The numbers of the data sheet: a calibration word is two registers, low byte first, and a measurement
  has 20 bits in three registers, high byte first.
\<close>

definition calib_word :: "(u8 \<Rightarrow> u8) \<Rightarrow> u8 \<Rightarrow> u16" where
  "calib_word regs r = of_int (uint (regs (r + 1)) * 256 + uint (regs r))"

definition measured :: "(u8 \<Rightarrow> u8) \<Rightarrow> u8 \<Rightarrow> int" where
  "measured regs r = uint (regs r) * 4096 + uint (regs (r + 1)) * 16 + uint (regs (r + 2)) div 16"

lemma calib_word_bits: "push_bit 8 (ucast (regs (r + 1))) OR ucast (regs r) = calib_word regs r"
proof -
  have "(push_bit 8 (ucast (regs (r + 1))) :: u16) OR ucast (regs r) = push_bit 8 (ucast (regs (r + 1))) + ucast (regs r)"
    by (rule disjunctive_add[symmetric]) (auto simp: bit_simps dest: bit_imp_le_length)
  also have "\<dots> = calib_word regs r"
    by (simp add: calib_word_def push_bit_eq_mult ac_simps)
  finally show ?thesis .
qed

lemma measured_bits:
  "push_bit 12 (uint (x :: u8)) OR push_bit 4 (uint (y :: u8)) OR drop_bit 4 (uint (z :: u8)) = uint x * 4096 + uint y * 16 + uint z div 16"
proof -
  have z: "\<not> bit (drop_bit 4 (uint z)) n" if "4 \<le> n" for n
    using that by (auto simp: bit_simps dest: bit_imp_le_length)
  have lo: "push_bit 4 (uint y) OR drop_bit 4 (uint z) = push_bit 4 (uint y) + drop_bit 4 (uint z)"
    by (rule disjunctive_add[symmetric]) (use z in \<open>auto simp: bit_push_bit_iff\<close>)
  have "push_bit 12 (uint x) OR (push_bit 4 (uint y) OR drop_bit 4 (uint z)) =
      push_bit 12 (uint x) + (push_bit 4 (uint y) OR drop_bit 4 (uint z))"
    by (rule disjunctive_add[symmetric]) (auto simp: bit_simps dest: bit_imp_le_length)
  then show ?thesis unfolding lo by (simp add: or.assoc push_bit_eq_mult drop_bit_eq_div)
qed

lemma read_adc_ready:
  assumes "bmp_ready a s" and "chip_holds e regs"
  shows "read_adc e r s = Some (measured regs r, bmp_reads a [r, r + 1, r + 2] s)"
  using assms by (simp add: read_adc_def bmp_read_byte_ready[where regs = regs] measured_bits measured_def)

definition calib_regs :: "u8 list \<Rightarrow> u8 list" where
  "calib_regs his = concat (map (\<lambda>hi. [hi, hi - 1]) his)"

lemma read_calibs_ready:
  assumes "bmp_ready a s" and "chip_holds e regs"
  shows "read_calibs e his s = Some (map (\<lambda>hi. calib_word regs (hi - 1)) his, bmp_reads a (calib_regs his) s)"
  using assms
proof (induction his arbitrary: s)
  case Nil
  then show ?case by (simp add: bmp_reads_def calib_regs_def)
next
  case (Cons hi his)
  let ?t = "bmp_reads a [hi, hi - 1] s"
  have c: "read_calib e hi s = Some (calib_word regs (hi - 1), ?t)"
    using Cons.prems calib_word_bits[of regs "hi - 1"] by (simp add: read_calib_def bmp_read_byte_ready[where regs = regs])
  have "read_calibs e his ?t = Some (map (\<lambda>hi. calib_word regs (hi - 1)) his, bmp_reads a (calib_regs his) ?t)"
    by (rule Cons.IH) (use Cons.prems in simp_all)
  then show ?case by (simp add: c calib_regs_def)
qed

lemma bmp_write_ready:
  "bmp_ready a s \<Longrightarrow> bmp280_i2c_write_byte reg dat s = Some (sensor_out [write_frame (bmp280_i2c_id s) a (reg, dat)] s)"
  by (simp add: bmp280_i2c_write_byte_def sensor_write_ready)

lemma bmp_out_simps [simp]:
  "bmp280_i2c_id (sensor_out cs s) = bmp280_i2c_id s" "bmp280_tdata (sensor_out cs s) = bmp280_tdata s"
  "bmp280_pdata (sensor_out cs s) = bmp280_pdata s" "bmp280_i2c_addr (sensor_out cs s) = bmp280_i2c_addr s"
  by (simp_all add: sensor_out_def)

text \<open>Where the data sheet has the calibration words: \<open>dig_T1\<close> to \<open>dig_T3\<close>, and \<open>dig_P1\<close> to \<open>dig_P9\<close>.\<close>

definition temperature_words :: "u8 list" where
  "temperature_words = [0x88, 0x8a, 0x8c]"

definition pressure_words :: "u8 list" where
  "pressure_words = [0x8e, 0x90, 0x92, 0x94, 0x96, 0x98, 0x9a, 0x9c, 0x9e]"

text \<open>The transfers of the initialisation: two registers written, and each word read, high byte first.\<close>

definition init_transfers :: "u8 \<Rightarrow> u16 \<Rightarrow> sensor_call list" where
  "init_transfers b a = [write_frame b a (0xf4, 0x33), write_frame b a (0xf5, 0x44)] @
     map (\<lambda>r. read_frame b a r 1) (concat (map (\<lambda>r. [r + 1, r]) (temperature_words @ pressure_words)))"

lemma bmp280_init_ready:
  assumes "bmp_ready a s" and "chip_holds e regs"
  shows "\<exists>t. bmp280_init e s = Some t \<and> bmp280_tdata t = map (calib_word regs) temperature_words \<and>
    bmp280_pdata t = map (calib_word regs) pressure_words \<and>
    bmp_ready a t \<and> slave_addrs t = slave_addrs s \<and> bmp280_i2c_id t = bmp280_i2c_id s \<and>
    bmp280_i2c_addr t = bmp280_i2c_addr s \<and> sensor_calls t = sensor_calls s @ init_transfers (bmp280_i2c_id s) a"
proof -
  let ?b = "bmp280_i2c_id s"
  let ?s = "sensor_out [write_frame ?b a (0xf4, 0x33), write_frame ?b a (0xf5, 0x44)] s"
  let ?td = "map (calib_word regs) temperature_words" and ?pd = "map (calib_word regs) pressure_words"
  let ?t = "bmp_reads a (calib_regs [0x89, 0x8b, 0x8d]) ?s"
  have td: "read_calibs e [0x89, 0x8b, 0x8d] ?s = Some (?td, ?t)"
    using read_calibs_ready[of ?s a e regs "[0x89, 0x8b, 0x8d]"] assms by (simp add: temperature_words_def del: read_calibs.simps)
  let ?his = "[0x8f, 0x91, 0x93, 0x95, 0x97, 0x99, 0x9b, 0x9d, 0x9f]"
  let ?u = "bmp_reads a (calib_regs ?his) ?t"
  have pd: "read_calibs e ?his ?t = Some (?pd, ?u)"
    using read_calibs_ready[of ?t a e regs ?his] assms by (simp add: pressure_words_def del: read_calibs.simps)
  have "bmp280_init e s = Some (?u\<lparr>bmp280_tdata := ?td, bmp280_pdata := ?pd\<rparr>)"
    using assms(1) by (simp add: bmp280_init_def td pd bmp_write_ready del: read_calibs.simps)
  moreover have "bmp280_i2c_addr ?u = bmp280_i2c_addr s" by (simp add: bmp_reads_def)
  moreover have "slave_addrs ?u = slave_addrs s" by simp
  moreover have "sensor_calls ?u = sensor_calls s @ init_transfers ?b a"
    by (simp add: bmp_reads_def init_transfers_def calib_regs_def temperature_words_def pressure_words_def)
  ultimately show ?thesis using assms(1) by (simp add: bus_ready_def)
qed

text \<open>
  The compensation formula of the data sheet in double precision, on the three words and the measurement:
  \<^verbatim>\<open>(var1 + var2) / 5120\<close> with \<^verbatim>\<open>var1 = (adc / 16384 - T1 / 1024) * T2\<close> and
  \<^verbatim>\<open>var2 = (adc / 131072 - T1 / 8192)^2 * T3\<close>.
\<close>

fun datasheet_temperature :: "double \<Rightarrow> double list \<Rightarrow> double" where
  "datasheet_temperature adc [t1, t2, t3] =
     d_div
       (d_add
         (d_mul (d_sub (d_div adc (d_of_int 16384)) (d_div t1 (d_of_int 1024))) t2)
         (d_mul (d_mul (d_sub (d_div adc (d_of_int 131072)) (d_div t1 (d_of_int 8192)))
                       (d_sub (d_div adc (d_of_int 131072)) (d_div t1 (d_of_int 8192)))) t3))
       (d_of_int 5120)"
| "datasheet_temperature adc _ = 0"

definition chip_temperature :: "(u8 \<Rightarrow> u8) \<Rightarrow> double" where
  "chip_temperature regs =
     datasheet_temperature (d_of_int (measured regs 0xfa)) (map (\<lambda>r. d_of_int (uint (calib_word regs r))) temperature_words)"

lemma temperature_of_chip: "temperature_of (map (calib_word regs) temperature_words) (measured regs 0xfa) = chip_temperature regs"
  by (simp add: temperature_of_def chip_temperature_def temperature_words_def Let_def)

text \<open>
  C33. \<^verbatim>\<open>bmp280.init\<close> followed by \<^verbatim>\<open>bmp280.temperature\<close> on an existing bus, with a chip
  whose registers hold \<open>regs\<close>: the three temperature and nine pressure calibration words are
  those of the data sheet's registers, the temperature is the compensation formula on those words and
  the 20-bit measurement of the registers from 0xfa, without its fraction, and the transfers on the bus,
  all to the address of the call, are the ones that read them. The words are all taken as unsigned.
\<close>

theorem bmp280_temperature_of_chip:
  assumes "unat (ucast n :: u8) < 3" and "length (slave_addrs s) = 3" and "chip_holds e regs"
    and "d_to_s32 (chip_temperature regs) = Some v"
  shows "\<exists>t u. lua_bmp280_init e n addr s = Some (Lua_return t) \<and>
    bmp280_tdata t = map (calib_word regs) temperature_words \<and> bmp280_pdata t = map (calib_word regs) pressure_words \<and>
    lua_bmp280_temperature e t = Some (Lua_return (v, u)) \<and>
    (let b = ucast n; a = ucast (ucast addr :: u8); opened = Bus (Open_i2c (unat b) PLATFORM_I2C_SPEED_FAST); closed = Bus (Close_i2c (unat b))
     in sensor_calls u = sensor_calls s @ [opened] @ init_transfers b a @ [closed, opened] @
          map (\<lambda>r. read_frame b a r 1) [0xfa, 0xfb, 0xfc] @ [closed])"
proof -
  let ?s = "s\<lparr>bmp280_i2c_id := ucast n, bmp280_i2c_addr := ucast addr\<rparr>"
  let ?a = "ucast (ucast addr :: u8) :: u16"
  have ex: "platform_i2c_exists b" for b by (simp add: platform_i2c_exists_def)
  have null: "?a \<noteq> I2C_NULL_SLAVE_ADDR" by (rule byte_slave_not_null)
  have "length (slave_addrs ?s) = 3" using assms(2) by simp
  from sensor_setup_ready[OF assms(1) this null] obtain t where
    t: "sensor_setup (ucast n) ?a ?s = Some (sensor_out [Bus (Open_i2c (unat (ucast n :: u8)) PLATFORM_I2C_SPEED_FAST)] t)"
      "bus_ready (ucast n) ?a t" "t = ?s\<lparr>slave_addrs := (slave_addrs ?s)[unat (ucast n :: u8) := ?a]\<rparr>" by blast
  let ?t = "sensor_out [Bus (Open_i2c (unat (ucast n :: u8)) PLATFORM_I2C_SPEED_FAST)] t"
  have id: "bmp280_i2c_id t = ucast n" "bmp280_i2c_addr t = ucast addr" "sensor_calls t = sensor_calls s" using t(3) by simp_all
  have "bmp_ready ?a ?t" using t(2) id by simp
  from bmp280_init_ready[OF this assms(3)] obtain u where u: "bmp280_init e ?t = Some u"
      "bmp280_tdata u = map (calib_word regs) temperature_words" "bmp280_pdata u = map (calib_word regs) pressure_words"
      "bmp_ready ?a u" "slave_addrs u = slave_addrs ?t" "bmp280_i2c_id u = bmp280_i2c_id ?t" "bmp280_i2c_addr u = bmp280_i2c_addr ?t"
      "sensor_calls u = sensor_calls ?t @ init_transfers (bmp280_i2c_id ?t) ?a"
    by blast
  let ?u = "sensor_out [Bus (Close_i2c (unat (ucast n :: u8)))] u"
  have init: "lua_bmp280_init e n addr s = Some (Lua_return ?u)"
    using t(1) u(1,4,6) id by (simp add: lua_bmp280_init_def Let_def bmp280_i2c_setup_def bmp_check_id_def ex
        bmp280_i2c_close_def sensor_close_ready)
  have "unat (bmp280_i2c_id u) < 3" "length (slave_addrs ?u) = 3" using u(4) by (simp_all add: bus_ready_def)
  from sensor_setup_ready[OF this null] obtain w where
    w: "sensor_setup (bmp280_i2c_id u) ?a ?u = Some (sensor_out [Bus (Open_i2c (unat (bmp280_i2c_id u)) PLATFORM_I2C_SPEED_FAST)] w)"
      "bus_ready (bmp280_i2c_id u) ?a w" "w = ?u\<lparr>slave_addrs := (slave_addrs ?u)[unat (bmp280_i2c_id u) := ?a]\<rparr>" by blast
  let ?w = "sensor_out [Bus (Open_i2c (unat (bmp280_i2c_id u)) PLATFORM_I2C_SPEED_FAST)] w"
  have wi: "bmp280_i2c_id w = bmp280_i2c_id u" "bmp280_tdata w = map (calib_word regs) temperature_words"
      "sensor_calls w = sensor_calls ?u" unfolding w(3) using u id by simp_all
  have ready: "bmp_ready ?a ?w" using w(2) wi by simp
  let ?x = "bmp_reads ?a [0xfa, 0xfb, 0xfc] ?w"
  have adc: "read_adc e 0xfa ?w = Some (measured regs 0xfa, ?x)"
    using read_adc_ready[OF ready assms(3), of "0xfa"] by simp
  have "bmp_ready ?a ?x" using ready by simp
  from sensor_close_ready[OF this]
  have temp: "lua_bmp280_temperature e ?u = Some (Lua_return (v, sensor_out [Bus (Close_i2c (unat (ucast n :: u8)))] ?x))"
    using w(1) u(6,7) id wi assms(4) adc
    by (simp add: lua_bmp280_temperature_def bmp280_i2c_setup_def bmp_check_id_def ex bmp280_temperature_def bmp280_i2c_close_def temperature_of_chip)
  have calls: "sensor_calls ?x = sensor_calls ?w @ map (\<lambda>r. read_frame (bmp280_i2c_id ?w) ?a r 1) [0xfa, 0xfb, 0xfc]"
    by (simp add: bmp_reads_def)
  show ?thesis
    by (intro exI[of _ ?u] exI[of _ "sensor_out [Bus (Close_i2c (unat (ucast n :: u8)))] ?x"])
      (use init temp calls u wi id in \<open>simp add: Let_def\<close>)
qed

text \<open>
  The example of the chip's data sheet, whose third calibration word is -1000 and whose temperature is
  25.08 degrees: the word is kept unsigned, and the driver reports 29.
\<close>

definition datasheet_regs :: "u8 \<Rightarrow> u8" where
  "datasheet_regs r =
     (case map_of [(0x88, 0x70), (0x89, 0x6b), (0x8a, 0x43), (0x8b, 0x67), (0x8c, 0x18), (0x8d, 0xfc),
        (0xf7, 101), (0xf8, 90), (0xf9, 192), (0xfa, 126), (0xfb, 237), (0xfc, 0)] r of None \<Rightarrow> 0 | Some b \<Rightarrow> b)"

definition datasheet_env :: sensor_env where
  "datasheet_env = \<lparr>answer = (\<lambda>k reg n. map (\<lambda>i. datasheet_regs (reg + of_nat i)) [0..<unat n]), stack = (\<lambda>n. 0)\<rparr>"

lemma datasheet_example: "d_to_s32 (chip_temperature datasheet_regs) = Some 29"
  by code_simp

definition bmp_start :: bmp_st where
  "bmp_start = \<lparr>slave_addrs = [0, 0, 0], sensor_calls = [], reads = 0, bmp280_i2c_addr = 0x76, bmp280_i2c_id = 2,
     bmp280_tdata = [0, 0, 0], bmp280_pdata = [0, 0, 0, 0, 0, 0, 0, 0, 0]\<rparr>"

lemma bmp280_temperature_of_chip_witness:
  "\<exists>t u. lua_bmp280_init datasheet_env 2 0x76 bmp_start = Some (Lua_return t) \<and> bmp280_tdata t = [27504, 26435, 0xfc18] \<and>
    lua_bmp280_temperature datasheet_env t = Some (Lua_return (29, u))"
proof -
  have "chip_holds datasheet_env datasheet_regs" by (simp add: chip_holds_def datasheet_env_def)
  moreover have "map (calib_word datasheet_regs) temperature_words = [27504, 26435, 0xfc18]" by code_simp
  ultimately show ?thesis
    using bmp280_temperature_of_chip[of 2 bmp_start datasheet_env datasheet_regs 29 "0x76"] datasheet_example
    by (auto simp: bmp_start_def)
qed

end
