(* ===== verification/Digest.thy ===== *)
theory Digest
  imports C_Prelude
begin

text \<open>
  The message digests of \<^verbatim>\<open>lib/crypto\<close>: MD5 (\<^verbatim>\<open>aliyun_iot_common_md5.c\<close>), SHA-1
  (\<^verbatim>\<open>aliyun_iot_common_sha1.c\<close>) and the keyed digests over them
  (\<^verbatim>\<open>aliyun_iot_common_hmac.c\<close>). The unrolled macro calls of the block functions are lists, one
  entry per call: the registers by number, the message word, and what else the call names. The two
  context types are one record; their buffering is the same code twice.
\<close>

section \<open>Contexts\<close>

record hash_ctx =
  total0 :: u32
  total1 :: u32
  hstate :: "u32 list"
  hbuffer :: "u8 list"

definition rol32 :: "u32 \<Rightarrow> nat \<Rightarrow> u32" where
  "rol32 x n = push_bit n x OR drop_bit (32 - n) x"

definition get_uint32_le :: "u8 list \<Rightarrow> nat \<Rightarrow> u32" where
  "get_uint32_le b i = ucast (b ! i) OR push_bit 8 (ucast (b ! (i + 1))) OR push_bit 16 (ucast (b ! (i + 2))) OR
     push_bit 24 (ucast (b ! (i + 3)))"

definition get_uint32_be :: "u8 list \<Rightarrow> nat \<Rightarrow> u32" where
  "get_uint32_be b i = push_bit 24 (ucast (b ! i)) OR push_bit 16 (ucast (b ! (i + 1))) OR push_bit 8 (ucast (b ! (i + 2))) OR
     ucast (b ! (i + 3))"

definition put_uint32_le :: "u32 \<Rightarrow> u8 list" where
  "put_uint32_le n = [ucast n, ucast (drop_bit 8 n), ucast (drop_bit 16 n), ucast (drop_bit 24 n)]"

definition put_uint32_be :: "u32 \<Rightarrow> u8 list" where
  "put_uint32_be n = [ucast (drop_bit 24 n), ucast (drop_bit 16 n), ucast (drop_bit 8 n), ucast n]"

section \<open>The MD5 block function\<close>

text \<open>\<^verbatim>\<open>P(a, b, c, d, k, s, t)\<close>\<close>

type_synonym md5_call = "nat \<times> nat \<times> nat \<times> nat \<times> nat \<times> nat \<times> u32"

definition md5_F1 :: "u32 \<Rightarrow> u32 \<Rightarrow> u32 \<Rightarrow> u32" where "md5_F1 x y z = z XOR (x AND (y XOR z))"
definition md5_F2 :: "u32 \<Rightarrow> u32 \<Rightarrow> u32 \<Rightarrow> u32" where "md5_F2 x y z = y XOR (z AND (x XOR y))"
definition md5_F3 :: "u32 \<Rightarrow> u32 \<Rightarrow> u32 \<Rightarrow> u32" where "md5_F3 x y z = x XOR y XOR z"
definition md5_F4 :: "u32 \<Rightarrow> u32 \<Rightarrow> u32 \<Rightarrow> u32" where "md5_F4 x y z = y XOR (x OR NOT z)"

definition md5_P :: "(u32 \<Rightarrow> u32 \<Rightarrow> u32 \<Rightarrow> u32) \<Rightarrow> u32 list \<Rightarrow> md5_call \<Rightarrow> u32 list \<Rightarrow> u32 list" where
  "md5_P F X = (\<lambda>(a, b, c, d, k, s, t) r.
     r[a := rol32 (r ! a + (F (r ! b) (r ! c) (r ! d) + X ! k + t)) s + r ! b])"

definition md5_calls_1 :: "md5_call list" where
  "md5_calls_1 =
    [(0, 1, 2, 3, 0, 7, 0xD76AA478), (3, 0, 1, 2, 1, 12, 0xE8C7B756),
     (2, 3, 0, 1, 2, 17, 0x242070DB), (1, 2, 3, 0, 3, 22, 0xC1BDCEEE),
     (0, 1, 2, 3, 4, 7, 0xF57C0FAF), (3, 0, 1, 2, 5, 12, 0x4787C62A),
     (2, 3, 0, 1, 6, 17, 0xA8304613), (1, 2, 3, 0, 7, 22, 0xFD469501),
     (0, 1, 2, 3, 8, 7, 0x698098D8), (3, 0, 1, 2, 9, 12, 0x8B44F7AF),
     (2, 3, 0, 1, 10, 17, 0xFFFF5BB1), (1, 2, 3, 0, 11, 22, 0x895CD7BE),
     (0, 1, 2, 3, 12, 7, 0x6B901122), (3, 0, 1, 2, 13, 12, 0xFD987193),
     (2, 3, 0, 1, 14, 17, 0xA679438E), (1, 2, 3, 0, 15, 22, 0x49B40821)]"

definition md5_calls_2 :: "md5_call list" where
  "md5_calls_2 =
    [(0, 1, 2, 3, 1, 5, 0xF61E2562), (3, 0, 1, 2, 6, 9, 0xC040B340),
     (2, 3, 0, 1, 11, 14, 0x265E5A51), (1, 2, 3, 0, 0, 20, 0xE9B6C7AA),
     (0, 1, 2, 3, 5, 5, 0xD62F105D), (3, 0, 1, 2, 10, 9, 0x02441453),
     (2, 3, 0, 1, 15, 14, 0xD8A1E681), (1, 2, 3, 0, 4, 20, 0xE7D3FBC8),
     (0, 1, 2, 3, 9, 5, 0x21E1CDE6), (3, 0, 1, 2, 14, 9, 0xC33707D6),
     (2, 3, 0, 1, 3, 14, 0xF4D50D87), (1, 2, 3, 0, 8, 20, 0x455A14ED),
     (0, 1, 2, 3, 13, 5, 0xA9E3E905), (3, 0, 1, 2, 2, 9, 0xFCEFA3F8),
     (2, 3, 0, 1, 7, 14, 0x676F02D9), (1, 2, 3, 0, 12, 20, 0x8D2A4C8A)]"

definition md5_calls_3 :: "md5_call list" where
  "md5_calls_3 =
    [(0, 1, 2, 3, 5, 4, 0xFFFA3942), (3, 0, 1, 2, 8, 11, 0x8771F681),
     (2, 3, 0, 1, 11, 16, 0x6D9D6122), (1, 2, 3, 0, 14, 23, 0xFDE5380C),
     (0, 1, 2, 3, 1, 4, 0xA4BEEA44), (3, 0, 1, 2, 4, 11, 0x4BDECFA9),
     (2, 3, 0, 1, 7, 16, 0xF6BB4B60), (1, 2, 3, 0, 10, 23, 0xBEBFBC70),
     (0, 1, 2, 3, 13, 4, 0x289B7EC6), (3, 0, 1, 2, 0, 11, 0xEAA127FA),
     (2, 3, 0, 1, 3, 16, 0xD4EF3085), (1, 2, 3, 0, 6, 23, 0x04881D05),
     (0, 1, 2, 3, 9, 4, 0xD9D4D039), (3, 0, 1, 2, 12, 11, 0xE6DB99E5),
     (2, 3, 0, 1, 15, 16, 0x1FA27CF8), (1, 2, 3, 0, 2, 23, 0xC4AC5665)]"

definition md5_calls_4 :: "md5_call list" where
  "md5_calls_4 =
    [(0, 1, 2, 3, 0, 6, 0xF4292244), (3, 0, 1, 2, 7, 10, 0x432AFF97),
     (2, 3, 0, 1, 14, 15, 0xAB9423A7), (1, 2, 3, 0, 5, 21, 0xFC93A039),
     (0, 1, 2, 3, 12, 6, 0x655B59C3), (3, 0, 1, 2, 3, 10, 0x8F0CCC92),
     (2, 3, 0, 1, 10, 15, 0xFFEFF47D), (1, 2, 3, 0, 1, 21, 0x85845DD1),
     (0, 1, 2, 3, 8, 6, 0x6FA87E4F), (3, 0, 1, 2, 15, 10, 0xFE2CE6E0),
     (2, 3, 0, 1, 6, 15, 0xA3014314), (1, 2, 3, 0, 13, 21, 0x4E0811A1),
     (0, 1, 2, 3, 4, 6, 0xF7537E82), (3, 0, 1, 2, 11, 10, 0xBD3AF235),
     (2, 3, 0, 1, 2, 15, 0x2AD7D2BB), (1, 2, 3, 0, 9, 21, 0xEB86D391)]"

definition md5_process :: "u32 list \<Rightarrow> u8 list \<Rightarrow> u32 list" where
  "md5_process state data =
     (let X = map (\<lambda>i. get_uint32_le data (4 * i)) [0..<16];
          r = fold (md5_P md5_F1 X) md5_calls_1 state;
          r = fold (md5_P md5_F2 X) md5_calls_2 r;
          r = fold (md5_P md5_F3 X) md5_calls_3 r;
          r = fold (md5_P md5_F4 X) md5_calls_4 r
      in map2 (+) state r)"

section \<open>The SHA-1 block function\<close>

text \<open>\<^verbatim>\<open>P(a, b, c, d, e, W[t])\<close> or \<^verbatim>\<open>P(a, b, c, d, e, R(t))\<close>\<close>

datatype sha1_word = W nat | R nat

type_synonym sha1_call = "nat \<times> nat \<times> nat \<times> nat \<times> nat \<times> sha1_word"

fun sha1_R :: "sha1_word \<Rightarrow> u32 list \<Rightarrow> u32 \<times> u32 list" where
  "sha1_R (W t) ws = (ws ! t, ws)"
| "sha1_R (R t) ws =
     (let temp = ws ! ((t - 3) mod 16) XOR ws ! ((t - 8) mod 16) XOR ws ! ((t - 14) mod 16) XOR ws ! (t mod 16);
          x = rol32 temp 1
      in (x, ws[t mod 16 := x]))"

definition sha1_F1 :: "u32 \<Rightarrow> u32 \<Rightarrow> u32 \<Rightarrow> u32" where "sha1_F1 x y z = z XOR (x AND (y XOR z))"
definition sha1_F2 :: "u32 \<Rightarrow> u32 \<Rightarrow> u32 \<Rightarrow> u32" where "sha1_F2 x y z = x XOR y XOR z"
definition sha1_F3 :: "u32 \<Rightarrow> u32 \<Rightarrow> u32 \<Rightarrow> u32" where "sha1_F3 x y z = (x AND y) OR (z AND (x OR y))"

definition sha1_P :: "(u32 \<Rightarrow> u32 \<Rightarrow> u32 \<Rightarrow> u32) \<Rightarrow> u32 \<Rightarrow> sha1_call \<Rightarrow> u32 list \<times> u32 list \<Rightarrow> u32 list \<times> u32 list" where
  "sha1_P F K = (\<lambda>(a, b, c, d, e, x) (r, ws).
     let (x, ws) = sha1_R x ws;
         r = r[e := r ! e + (rol32 (r ! a) 5 + F (r ! b) (r ! c) (r ! d) + K + x)];
         r = r[b := rol32 (r ! b) 30]
     in (r, ws))"

definition sha1_calls_1 :: "sha1_call list" where
  "sha1_calls_1 =
    [(0, 1, 2, 3, 4, W 0), (4, 0, 1, 2, 3, W 1), (3, 4, 0, 1, 2, W 2), (2, 3, 4, 0, 1, W 3), (1, 2, 3, 4, 0, W 4),
     (0, 1, 2, 3, 4, W 5), (4, 0, 1, 2, 3, W 6), (3, 4, 0, 1, 2, W 7), (2, 3, 4, 0, 1, W 8), (1, 2, 3, 4, 0, W 9),
     (0, 1, 2, 3, 4, W 10), (4, 0, 1, 2, 3, W 11), (3, 4, 0, 1, 2, W 12), (2, 3, 4, 0, 1, W 13), (1, 2, 3, 4, 0, W 14),
     (0, 1, 2, 3, 4, W 15), (4, 0, 1, 2, 3, R 16), (3, 4, 0, 1, 2, R 17), (2, 3, 4, 0, 1, R 18), (1, 2, 3, 4, 0, R 19)]"

definition sha1_calls_2 :: "sha1_call list" where
  "sha1_calls_2 =
    [(0, 1, 2, 3, 4, R 20), (4, 0, 1, 2, 3, R 21), (3, 4, 0, 1, 2, R 22), (2, 3, 4, 0, 1, R 23), (1, 2, 3, 4, 0, R 24),
     (0, 1, 2, 3, 4, R 25), (4, 0, 1, 2, 3, R 26), (3, 4, 0, 1, 2, R 27), (2, 3, 4, 0, 1, R 28), (1, 2, 3, 4, 0, R 29),
     (0, 1, 2, 3, 4, R 30), (4, 0, 1, 2, 3, R 31), (3, 4, 0, 1, 2, R 32), (2, 3, 4, 0, 1, R 33), (1, 2, 3, 4, 0, R 34),
     (0, 1, 2, 3, 4, R 35), (4, 0, 1, 2, 3, R 36), (3, 4, 0, 1, 2, R 37), (2, 3, 4, 0, 1, R 38), (1, 2, 3, 4, 0, R 39)]"

definition sha1_calls_3 :: "sha1_call list" where
  "sha1_calls_3 =
    [(0, 1, 2, 3, 4, R 40), (4, 0, 1, 2, 3, R 41), (3, 4, 0, 1, 2, R 42), (2, 3, 4, 0, 1, R 43), (1, 2, 3, 4, 0, R 44),
     (0, 1, 2, 3, 4, R 45), (4, 0, 1, 2, 3, R 46), (3, 4, 0, 1, 2, R 47), (2, 3, 4, 0, 1, R 48), (1, 2, 3, 4, 0, R 49),
     (0, 1, 2, 3, 4, R 50), (4, 0, 1, 2, 3, R 51), (3, 4, 0, 1, 2, R 52), (2, 3, 4, 0, 1, R 53), (1, 2, 3, 4, 0, R 54),
     (0, 1, 2, 3, 4, R 55), (4, 0, 1, 2, 3, R 56), (3, 4, 0, 1, 2, R 57), (2, 3, 4, 0, 1, R 58), (1, 2, 3, 4, 0, R 59)]"

definition sha1_calls_4 :: "sha1_call list" where
  "sha1_calls_4 =
    [(0, 1, 2, 3, 4, R 60), (4, 0, 1, 2, 3, R 61), (3, 4, 0, 1, 2, R 62), (2, 3, 4, 0, 1, R 63), (1, 2, 3, 4, 0, R 64),
     (0, 1, 2, 3, 4, R 65), (4, 0, 1, 2, 3, R 66), (3, 4, 0, 1, 2, R 67), (2, 3, 4, 0, 1, R 68), (1, 2, 3, 4, 0, R 69),
     (0, 1, 2, 3, 4, R 70), (4, 0, 1, 2, 3, R 71), (3, 4, 0, 1, 2, R 72), (2, 3, 4, 0, 1, R 73), (1, 2, 3, 4, 0, R 74),
     (0, 1, 2, 3, 4, R 75), (4, 0, 1, 2, 3, R 76), (3, 4, 0, 1, 2, R 77), (2, 3, 4, 0, 1, R 78), (1, 2, 3, 4, 0, R 79)]"

definition sha1_process :: "u32 list \<Rightarrow> u8 list \<Rightarrow> u32 list" where
  "sha1_process state data =
     (let ws = map (\<lambda>i. get_uint32_be data (4 * i)) [0..<16];
          rw = fold (sha1_P sha1_F1 0x5A827999) sha1_calls_1 (state, ws);
          rw = fold (sha1_P sha1_F2 0x6ED9EBA1) sha1_calls_2 rw;
          rw = fold (sha1_P sha1_F3 0x8F1BBCDC) sha1_calls_3 rw;
          rw = fold (sha1_P sha1_F2 0xCA62C1D6) sha1_calls_4 rw
      in map2 (+) state (fst rw))"

section \<open>Buffering\<close>

definition memcpy_at :: "u8 list \<Rightarrow> nat \<Rightarrow> u8 list \<Rightarrow> u8 list" where
  "memcpy_at buf off xs = take off buf @ xs @ drop (off + length xs) buf"

text \<open>\<^verbatim>\<open>while( ilen >= 64 )\<close>: the state after the whole blocks and the rest of the input.\<close>

function whole_blocks :: "(u32 list \<Rightarrow> u8 list \<Rightarrow> u32 list) \<Rightarrow> u32 list \<Rightarrow> u8 list \<Rightarrow> u32 list \<times> u8 list" where
  "whole_blocks process state input =
     (if 64 \<le> length input then whole_blocks process (process state (take 64 input)) (drop 64 input)
      else (state, input))"
  by pat_completeness auto
termination
  by (relation "measure (\<lambda>(process, state, input). length input)") auto

declare whole_blocks.simps [simp del]

definition hash_update :: "(u32 list \<Rightarrow> u8 list \<Rightarrow> u32 list) \<Rightarrow> hash_ctx \<Rightarrow> u8 list \<Rightarrow> hash_ctx" where
  "hash_update process ctx input =
     (if input = [] then ctx
      else
        (let ilen = length input;
             left = unat (total0 ctx AND 0x3F);
             fill = 64 - left;
             ctx = ctx\<lparr>total0 := total0 ctx + of_nat ilen\<rparr>;
             ctx = (if total0 ctx < of_nat ilen then ctx\<lparr>total1 := total1 ctx + 1\<rparr> else ctx);
             (ctx, input, left) =
               (if left \<noteq> 0 \<and> fill \<le> ilen then
                  (let buf = memcpy_at (hbuffer ctx) left (take fill input)
                   in (ctx\<lparr>hbuffer := buf, hstate := process (hstate ctx) buf\<rparr>, drop fill input, 0))
                else (ctx, input, left));
             (state, rest) = whole_blocks process (hstate ctx) input;
             ctx = ctx\<lparr>hstate := state\<rparr>
         in if rest \<noteq> [] then ctx\<lparr>hbuffer := memcpy_at (hbuffer ctx) left rest\<rparr> else ctx))"

definition padding64 :: "u8 list" where
  "padding64 = 0x80 # replicate 63 0"

text \<open>The high and low word of the number of bits, then padding and length.\<close>

definition hash_finish ::
  "(u32 list \<Rightarrow> u8 list \<Rightarrow> u32 list) \<Rightarrow> (u32 \<Rightarrow> u32 \<Rightarrow> u8 list) \<Rightarrow> hash_ctx \<Rightarrow> hash_ctx" where
  "hash_finish process msglen ctx =
     (let high = drop_bit 29 (total0 ctx) OR push_bit 3 (total1 ctx);
          low = push_bit 3 (total0 ctx);
          last = unat (total0 ctx AND 0x3F);
          padn = (if last < 56 then 56 - last else 120 - last);
          ctx = hash_update process ctx (take padn padding64)
      in hash_update process ctx (msglen high low))"

section \<open>The two digests\<close>

definition hash_zero :: "nat \<Rightarrow> hash_ctx" where
  "hash_zero n = \<lparr>total0 = 0, total1 = 0, hstate = replicate n 0, hbuffer = replicate 64 0\<rparr>"

definition md5_start :: "u32 list" where "md5_start = [0x67452301, 0xEFCDAB89, 0x98BADCFE, 0x10325476]"
definition sha1_start :: "u32 list" where "sha1_start = [0x67452301, 0xEFCDAB89, 0x98BADCFE, 0x10325476, 0xC3D2E1F0]"

definition md5_starts :: "hash_ctx \<Rightarrow> hash_ctx" where
  "md5_starts ctx = ctx\<lparr>total0 := 0, total1 := 0, hstate := md5_start\<rparr>"

definition sha1_starts :: "hash_ctx \<Rightarrow> hash_ctx" where
  "sha1_starts ctx = ctx\<lparr>total0 := 0, total1 := 0, hstate := sha1_start\<rparr>"

definition md5_update :: "hash_ctx \<Rightarrow> u8 list \<Rightarrow> hash_ctx" where
  "md5_update = hash_update md5_process"

definition sha1_update :: "hash_ctx \<Rightarrow> u8 list \<Rightarrow> hash_ctx" where
  "sha1_update = hash_update sha1_process"

definition md5_msglen :: "u32 \<Rightarrow> u32 \<Rightarrow> u8 list" where
  "md5_msglen high low = put_uint32_le low @ put_uint32_le high"

definition sha1_msglen :: "u32 \<Rightarrow> u32 \<Rightarrow> u8 list" where
  "sha1_msglen high low = put_uint32_be high @ put_uint32_be low"

definition md5_finish :: "hash_ctx \<Rightarrow> u8 list" where
  "md5_finish ctx = concat (map put_uint32_le (hstate (hash_finish md5_process md5_msglen ctx)))"

definition sha1_finish :: "hash_ctx \<Rightarrow> u8 list" where
  "sha1_finish ctx = concat (map put_uint32_be (hstate (hash_finish sha1_process sha1_msglen ctx)))"

definition aliyun_iot_md5 :: "u8 list \<Rightarrow> u8 list" where
  "aliyun_iot_md5 input = md5_finish (md5_update (md5_starts (hash_zero 4)) input)"

definition aliyun_iot_sha1 :: "u8 list \<Rightarrow> u8 list" where
  "aliyun_iot_sha1 input = sha1_finish (sha1_update (sha1_starts (hash_zero 5)) input)"

section \<open>Hexadecimal results\<close>

definition aliyun_iot_common_hb2hex :: "u8 \<Rightarrow> u8" where
  "aliyun_iot_common_hb2hex hb = (let hb = hb AND 0xF in if hb < 10 then 0x30 + hb else hb - 10 + 0x41)"

definition hex_digits :: "u8 list \<Rightarrow> u8 list" where
  "hex_digits out = concat (map (\<lambda>b. [aliyun_iot_common_hb2hex (drop_bit 4 b), aliyun_iot_common_hb2hex b]) out)"

text \<open>
  \<open>n\<close> bytes at a pointer to \<open>mem\<close>; a negative length is a huge \<^verbatim>\<open>size_t\<close>, and reading
  past the memory is \<open>None\<close>.
\<close>

definition mem_bytes :: "u8 list \<Rightarrow> int \<Rightarrow> u8 list option" where
  "mem_bytes mem n = (if 0 \<le> n \<and> nat n \<le> length mem then Some (take (nat n) mem) else None)"

definition aliyun_iot_common_md5 :: "u8 list \<Rightarrow> int \<Rightarrow> u8 list option" where
  "aliyun_iot_common_md5 dat datlen = map_option (hex_digits \<circ> aliyun_iot_md5) (mem_bytes dat datlen)"

definition aliyun_iot_common_sha1 :: "u8 list \<Rightarrow> int \<Rightarrow> u8 list option" where
  "aliyun_iot_common_sha1 dat datlen = map_option (hex_digits \<circ> aliyun_iot_sha1) (mem_bytes dat datlen)"

section \<open>Keyed digests\<close>

text \<open>The key is copied into an array of 64 bytes whatever its length.\<close>

definition key_pad :: "u8 list \<Rightarrow> int \<Rightarrow> u8 \<Rightarrow> u8 list option" where
  "key_pad key key_len x = do {
     k \<leftarrow> mem_bytes key key_len;
     (if length k \<le> 64 then Some (map (\<lambda>b. b XOR x) (memcpy_at (replicate 64 0) 0 k)) else None)
   }"

definition aliyun_iot_common_hmac_md5 :: "u8 list \<Rightarrow> int \<Rightarrow> u8 list \<Rightarrow> int \<Rightarrow> u8 list option" where
  "aliyun_iot_common_hmac_md5 msg msg_len key key_len = do {
     k_ipad \<leftarrow> key_pad key key_len 0x36;
     k_opad \<leftarrow> key_pad key key_len 0x5c;
     m \<leftarrow> mem_bytes msg msg_len;
     let out = md5_finish (md5_update (md5_update (md5_starts (hash_zero 4)) k_ipad) m);
     let out = md5_finish (md5_update (md5_update (md5_starts (hash_zero 4)) k_opad) out);
     Some (hex_digits out)
   }"

definition aliyun_iot_common_hmac_sha1 :: "u8 list \<Rightarrow> int \<Rightarrow> u8 list \<Rightarrow> int \<Rightarrow> u8 list option" where
  "aliyun_iot_common_hmac_sha1 msg msg_len key key_len = do {
     k_ipad \<leftarrow> key_pad key key_len 0x36;
     k_opad \<leftarrow> key_pad key key_len 0x5c;
     m \<leftarrow> mem_bytes msg msg_len;
     let out = sha1_finish (sha1_update (sha1_update (sha1_starts (hash_zero 5)) k_ipad) m);
     let out = sha1_finish (sha1_update (sha1_update (sha1_starts (hash_zero 5)) k_opad) out);
     Some (hex_digits out)
   }"

section \<open>Blocks of a message\<close>

definition blocks64 :: "'a list \<Rightarrow> 'a list list" where
  "blocks64 xs = map (\<lambda>i. take 64 (drop (64 * i) xs)) [0..<length xs div 64]"

definition tail64 :: "'a list \<Rightarrow> 'a list" where
  "tail64 xs = drop (64 * (length xs div 64)) xs"

lemma blocks64_short [simp]: "length xs < 64 \<Longrightarrow> blocks64 xs = []" "length xs < 64 \<Longrightarrow> tail64 xs = xs"
  by (simp_all add: blocks64_def tail64_def)

lemma length_tail64: "length (tail64 xs) = length xs mod 64"
  by (simp add: tail64_def minus_mult_div_eq_mod)

lemma blocks64_step:
  assumes "64 \<le> length xs"
  shows "blocks64 xs = take 64 xs # blocks64 (drop 64 xs)" and "tail64 xs = tail64 (drop 64 xs)"
proof -
  have l: "length xs div 64 = Suc ((length xs - 64) div 64)" using assms by (simp add: le_div_geq)
  show "blocks64 xs = take 64 xs # blocks64 (drop 64 xs)"
    unfolding blocks64_def l by (simp add: upt_conv_Cons map_Suc_upt[symmetric] add.commute del: upt_Suc)
  show "tail64 xs = tail64 (drop 64 xs)" unfolding tail64_def l by (simp add: add.commute)
qed

lemma blocks64_append:
  assumes "64 dvd length xs"
  shows "blocks64 (xs @ ys) = blocks64 xs @ blocks64 ys" and "tail64 (xs @ ys) = tail64 ys"
proof -
  obtain n where "length xs = 64 * n" using assms by (rule dvdE)
  then have "blocks64 (xs @ ys) = blocks64 xs @ blocks64 ys \<and> tail64 (xs @ ys) = tail64 ys"
  proof (induction n arbitrary: xs)
    case (Suc n)
    have l: "64 \<le> length xs" "64 \<le> length (xs @ ys)" using Suc.prems by simp_all
    have d: "length (drop 64 xs) = 64 * n" using Suc.prems by simp
    show ?case using Suc.IH[OF d] blocks64_step[OF l(1)] blocks64_step[OF l(2)] l(1) by simp
  qed simp
  then show "blocks64 (xs @ ys) = blocks64 xs @ blocks64 ys" "tail64 (xs @ ys) = tail64 ys" by auto
qed

text \<open>Whole blocks first, then the tail and what follows it.\<close>

lemma blocks64_tail:
  "blocks64 (m @ xs) = blocks64 m @ blocks64 (tail64 m @ xs)" "tail64 (m @ xs) = tail64 (tail64 m @ xs)"
proof -
  define w where "w = take (64 * (length m div 64)) m"
  have m: "m = w @ tail64 m" by (simp add: w_def tail64_def)
  have "length w = 64 * (length m div 64)" unfolding w_def length_take by (rule min_absorb2) simp
  then have d: "64 dvd length w" by simp
  have "length (tail64 m) < 64" by (simp add: length_tail64)
  moreover have e: "m @ xs = w @ tail64 m @ xs" using m by (metis append_assoc)
  ultimately have "blocks64 m = blocks64 w" using blocks64_append(1)[OF d, of "tail64 m"] m by simp
  then show "blocks64 (m @ xs) = blocks64 m @ blocks64 (tail64 m @ xs)" "tail64 (m @ xs) = tail64 (tail64 m @ xs)"
    unfolding e using blocks64_append[OF d, of "tail64 m @ xs"] by simp_all
qed

lemma whole_blocks_eq: "whole_blocks p h xs = (foldl p h (blocks64 xs), tail64 xs)"
proof (induction p h xs rule: whole_blocks.induct)
  case (1 p h xs)
  show ?case
  proof (cases "64 \<le> length xs")
    case True
    then show ?thesis using "1.IH"[OF True] blocks64_step[OF True] by (subst whole_blocks.simps) simp
  qed (subst whole_blocks.simps, simp)
qed

section \<open>Buffering is transparent\<close>

locale block_hash =
  fixes process :: "u32 list \<Rightarrow> u8 list \<Rightarrow> u32 list" and start :: "u32 list" and msglen :: "u32 \<Rightarrow> u32 \<Rightarrow> u8 list"
  assumes length_msglen: "length (msglen high low) = 8"
begin

text \<open>The context after the message \<open>m\<close>.\<close>

definition holds :: "hash_ctx \<Rightarrow> u8 list \<Rightarrow> bool" where
  "holds ctx m \<longleftrightarrow> length (hbuffer ctx) = 64 \<and> total0 ctx = of_nat (length m) \<and>
     total1 ctx = of_nat (length m div 2 ^ 32) \<and> hstate ctx = foldl process start (blocks64 m) \<and>
     take (length m mod 64) (hbuffer ctx) = tail64 m"

lemma left_bytes: "unat ((of_nat n :: u32) AND 0x3F) = n mod 64"
proof -
  have e: "(of_nat n :: u32) AND 0x3F = take_bit 6 (of_nat n)" by (simp add: take_bit_eq_mask mask_eq_exp_minus_1)
  have "unat ((of_nat n :: u32) AND 0x3F) = n mod 2 ^ 32 mod 2 ^ 6"
    unfolding e by (subst unsigned_take_bit_eq) (simp only: unsigned_of_nat take_bit_eq_mod, simp)
  then show ?thesis by (simp add: mod_mod_cancel)
qed

lemma carry:
  assumes "n < 2 ^ 32"
  shows "(of_nat l + of_nat n < (of_nat n :: u32)) = ((l + n) div 2 ^ 32 \<noteq> l div 2 ^ 32)"
    and "(l + n) div 2 ^ 32 \<noteq> l div 2 ^ 32 \<Longrightarrow> (l + n) div 2 ^ 32 = l div 2 ^ 32 + 1"
proof -
  define q r where "q = l div 2 ^ 32" and "r = l mod 2 ^ 32"
  have l: "l = q * 2 ^ 32 + r" "r < 2 ^ 32" by (simp_all add: q_def r_def)
  have d: "(l + n) div 2 ^ 32 = q + (r + n) div 2 ^ 32" unfolding l(1) by (simp add: add.assoc)
  have c: "(r + n) div 2 ^ 32 = (if r + n < 2 ^ 32 then 0 else 1)" using l(2) assms by auto
  have m: "(r + n) mod 2 ^ 32 = (if r + n < 2 ^ 32 then r + n else r + n - 2 ^ 32)"
    using l(2) assms mod_less[of "r + n - 2 ^ 32" "2 ^ 32"] le_mod_geq[of "2 ^ 32" "r + n"] by auto
  have "(of_nat l + of_nat n < (of_nat n :: u32)) = ((l + n) mod 2 ^ 32 < n)"
    using assms by (simp add: word_less_nat_alt unsigned_of_nat take_bit_eq_mod flip: of_nat_add)
  also have "(l + n) mod 2 ^ 32 = (r + n) mod 2 ^ 32" unfolding l(1) by (simp add: add.assoc)
  finally show "(of_nat l + of_nat n < (of_nat n :: u32)) = ((l + n) div 2 ^ 32 \<noteq> l div 2 ^ 32)"
    unfolding d m c q_def[symmetric] using l(2) by auto
  show "(l + n) div 2 ^ 32 \<noteq> l div 2 ^ 32 \<Longrightarrow> (l + n) div 2 ^ 32 = l div 2 ^ 32 + 1"
    unfolding d c q_def[symmetric] by auto
qed

lemma update_holds:
  assumes h: "holds ctx m" and "length xs < 2 ^ 32"
  shows "holds (hash_update process ctx xs) (m @ xs)"
proof (cases "xs = []")
  case True
  then show ?thesis using h by (simp add: hash_update_def)
next
  case False
  let ?l = "length m mod 64"
  let ?n = "length xs"
  have buf: "length (hbuffer ctx) = 64" "take ?l (hbuffer ctx) = tail64 m" and t: "total0 ctx = of_nat (length m)"
      "total1 ctx = of_nat (length m div 2 ^ 32)" "hstate ctx = foldl process start (blocks64 m)"
    using h by (simp_all add: holds_def)
  define c1 where "c1 = ctx\<lparr>total0 := of_nat (length (m @ xs)), total1 := of_nat (length (m @ xs) div 2 ^ 32)\<rparr>"
  have upd: "(let c = ctx\<lparr>total0 := total0 ctx + of_nat ?n\<rparr>
      in if total0 c < of_nat ?n then c\<lparr>total1 := total1 c + 1\<rparr> else c) = c1"
    using carry[OF assms(2), of "length m"] by (auto simp: c1_def t Let_def)
  have c1: "hbuffer c1 = hbuffer ctx" "hstate c1 = hstate ctx" by (simp_all add: c1_def)
  define z where "z = tail64 m @ xs"
  have left: "unat (total0 ctx AND 0x3F) = ?l" unfolding t by (rule left_bytes)
  have mz: "blocks64 (m @ xs) = blocks64 m @ blocks64 z" "tail64 (m @ xs) = tail64 z"
    unfolding z_def by (rule blocks64_tail)+
  have lt: "length (tail64 m) = ?l" "?l < 64" by (simp_all add: length_tail64)
  define c2 i2 l2 where "c2 = fst (if ?l \<noteq> 0 \<and> 64 - ?l \<le> ?n then
        (let b = memcpy_at (hbuffer c1) ?l (take (64 - ?l) xs)
         in (c1\<lparr>hbuffer := b, hstate := process (hstate c1) b\<rparr>, drop (64 - ?l) xs, 0)) else (c1, xs, ?l))"
    and "i2 = (if ?l \<noteq> 0 \<and> 64 - ?l \<le> ?n then drop (64 - ?l) xs else xs)"
    and "l2 = (if ?l \<noteq> 0 \<and> 64 - ?l \<le> ?n then 0 else ?l)"
  have c2: "length (hbuffer c2) = 64" "total0 c2 = total0 c1" "total1 c2 = total1 c1"
    using buf(1) lt(2) by (simp_all add: c2_def c1 memcpy_at_def Let_def)
  have st: "foldl process (hstate c2) (blocks64 i2) = foldl process (hstate ctx) (blocks64 z)" and tl: "tail64 i2 = drop l2 (tail64 z)"
      and pre: "take l2 (hbuffer c2) = take l2 (tail64 z)"
  proof -
    have "foldl process (hstate c2) (blocks64 i2) = foldl process (hstate ctx) (blocks64 z) \<and> tail64 i2 = drop l2 (tail64 z) \<and>
      take l2 (hbuffer c2) = take l2 (tail64 z)"
    proof (cases "?l \<noteq> 0 \<and> 64 - ?l \<le> ?n")
      case True
      then have z64: "64 \<le> length z" using lt unfolding z_def length_append by linarith
      have tk: "length (take (64 - ?l) xs) = 64 - ?l" using True by simp
      have "memcpy_at (hbuffer c1) ?l (take (64 - ?l) xs) = take 64 z"
        using lt buf unfolding memcpy_at_def tk c1 by (simp add: z_def)
      moreover have "drop 64 z = drop (64 - ?l) xs" using lt by (simp add: z_def)
      ultimately show ?thesis using True blocks64_step[OF z64] by (simp add: c2_def i2_def l2_def Let_def c1)
    next
      case F: False
      show ?thesis
      proof (cases "?l = 0")
        case 1: True
        then have "z = xs" using lt(1) by (simp add: z_def)
        then show ?thesis using 1 by (simp add: c2_def i2_def l2_def c1)
      next
        case 2: False
        then have n: "?n < 64 - ?l" using F by linarith
        then have "length z < 64" unfolding z_def length_append lt(1) by linarith
        moreover have "length xs < 64" using n by linarith
        ultimately show ?thesis using 2 F buf lt by (simp add: c2_def i2_def l2_def c1 z_def)
      qed
    qed
    then show "foldl process (hstate c2) (blocks64 i2) = foldl process (hstate ctx) (blocks64 z)"
      "tail64 i2 = drop l2 (tail64 z)" "take l2 (hbuffer c2) = take l2 (tail64 z)" by auto
  qed
  define c3 where "c3 = c2\<lparr>hstate := foldl process (hstate ctx) (blocks64 z)\<rparr>"
  have "hash_update process ctx xs = (if tail64 i2 \<noteq> [] then c3\<lparr>hbuffer := memcpy_at (hbuffer c3) l2 (tail64 i2)\<rparr> else c3)"
    using False upd unfolding hash_update_def left Let_def c3_def st[symmetric] i2_def l2_def c2_def
    by (simp add: whole_blocks_eq Let_def split del: if_split) (simp split: if_splits)
  moreover have "hbuffer c3 = hbuffer c2" by (simp add: c3_def)
  ultimately have u: "hash_update process ctx xs =
      (if tail64 i2 \<noteq> [] then c3\<lparr>hbuffer := memcpy_at (hbuffer c2) l2 (tail64 i2)\<rparr> else c3)" by simp
  have lz: "length (m @ xs) mod 64 = length (tail64 z)"
    using lt(1) by (simp add: z_def length_tail64 mod_add_left_eq)
  have c3: "total0 c3 = of_nat (length (m @ xs))" "total1 c3 = of_nat (length (m @ xs) div 2 ^ 32)"
      "hstate c3 = foldl process start (blocks64 (m @ xs))" "hbuffer c3 = hbuffer c2"
    using c2(2,3) t(3) mz(1) by (simp_all add: c3_def c1_def)
  have z: "take l2 (hbuffer c2) @ tail64 i2 = tail64 z" unfolding tl pre by simp
  have bz: "length (tail64 z) < 64" by (simp add: length_tail64)
  show ?thesis
  proof (cases "tail64 i2 = []")
    case True
    have "take (length (tail64 z)) (hbuffer c2) = tail64 z"
    proof -
      have p: "take l2 (hbuffer c2) = tail64 z" using z True by simp
      then have "length (tail64 z) = min l2 64" using c2(1) by (metis length_take min.commute)
      then show ?thesis using p bz c2(1) by (simp add: min_def split: if_splits)
    qed
    then show ?thesis using True c3 c2(1) lz mz(2) u by (simp add: holds_def del: length_append)
  next
    case False
    have b: "memcpy_at (hbuffer c2) l2 (tail64 i2) = tail64 z @ drop (l2 + length (tail64 i2)) (hbuffer c2)"
      unfolding memcpy_at_def z[symmetric] by simp
    have "length (tail64 z) = l2 + length (tail64 i2)"
    proof -
      have "l2 \<le> length (hbuffer c2)" using c2(1) lt(2) by (simp add: l2_def)
      then show ?thesis unfolding z[symmetric] by simp
    qed
    then have "length (memcpy_at (hbuffer c2) l2 (tail64 i2)) = 64" unfolding b using bz c2(1) by simp
    then show ?thesis using False b c3 lz mz(2) u by (simp add: holds_def del: length_append)
  qed
qed

lemma updates_hold:
  assumes "holds ctx m" and "\<forall>xs \<in> set xss. length xs < 2 ^ 32"
  shows "holds (foldl (hash_update process) ctx xss) (m @ concat xss)"
  using assms
proof (induction xss arbitrary: ctx m)
  case (Cons xs xss)
  have "holds (hash_update process ctx xs) (m @ xs)" using Cons.prems by (intro update_holds) simp_all
  from Cons.IH[OF this] Cons.prems(2) show ?case by simp
qed simp

text \<open>The padded message: one bit, zeros up to 56 modulo 64, and the number of bits in 64 bits.\<close>

definition padded :: "u8 list \<Rightarrow> u8 list" where
  "padded m = m @ 0x80 # replicate ((119 - length m mod 64) mod 64) 0 @
     msglen (of_nat (8 * length m div 2 ^ 32)) (of_nat (8 * length m))"

definition digest :: "u8 list \<Rightarrow> u32 list" where
  "digest m = foldl process start (blocks64 (padded m))"

lemma high_low:
  "drop_bit 29 (of_nat l) OR push_bit 3 (of_nat (l div 2 ^ 32)) = (of_nat (8 * l div 2 ^ 32) :: u32)"
  "push_bit 3 (of_nat l :: u32) = of_nat (8 * l)"
proof -
  show "push_bit 3 (of_nat l :: u32) = of_nat (8 * l)" by (simp add: push_bit_eq_mult)
  have "drop_bit 29 (of_nat l) OR push_bit 3 (of_nat (l div 2 ^ 32)) =
      drop_bit 29 (of_nat l) + push_bit 3 (of_nat (l div 2 ^ 32) :: u32)"
    by (rule disjunctive_add[symmetric]) (auto simp: bit_simps)
  also have "\<dots> = of_nat ((l mod 2 ^ 32) div 2 ^ 29 + 8 * (l div 2 ^ 32))"
  proof -
    have "drop_bit 29 (of_nat l :: u32) = of_nat ((l mod 2 ^ 32) div 2 ^ 29)"
      by (rule word_unat_eq_iff[THEN iffD2], subst unat_drop_bit_eq)
        (simp add: unsigned_of_nat take_bit_eq_mod drop_bit_eq_div less_mult_imp_div_less)
    then show ?thesis by (simp add: push_bit_eq_mult)
  qed
  also have "(l mod 2 ^ 32) div 2 ^ 29 + 8 * (l div 2 ^ 32) = 8 * l div 2 ^ 32"
  proof -
    have "8 * l div 2 ^ 32 = l div 2 ^ 29" using div_mult_mult1[of 8 l "2 ^ 29"] by simp
    moreover define a b where "a = l mod 2 ^ 32" and "b = l div 2 ^ 32"
    moreover have "l = a + 8 * b * 2 ^ 29" by (simp add: a_def b_def)
    moreover have "(a + 8 * b * 2 ^ 29) div 2 ^ 29 = a div 2 ^ 29 + 8 * b" by simp
    ultimately show ?thesis by metis
  qed
  finally show "drop_bit 29 (of_nat l) OR push_bit 3 (of_nat (l div 2 ^ 32)) = (of_nat (8 * l div 2 ^ 32) :: u32)" .
qed

lemma finish_digest:
  assumes "holds ctx m"
  shows "hstate (hash_finish process msglen ctx) = digest m"
proof -
  let ?l = "length m mod 64"
  have t: "total0 ctx = of_nat (length m)" "total1 ctx = of_nat (length m div 2 ^ 32)" using assms by (simp_all add: holds_def)
  define n where "n = (if ?l < 56 then 56 - ?l else 120 - ?l)"
  have n: "1 \<le> n" "n \<le> 64" "n - 1 = (119 - ?l) mod 64"
  proof -
    define k where "k = ?l"
    have "?l < 64" by simp
    then have k: "k < 64" by (simp add: k_def)
    show "1 \<le> n" "n \<le> 64" unfolding n_def k_def[symmetric] using k by auto
    show "n - 1 = (119 - ?l) mod 64"
    proof (cases "?l < 56")
      case True
      then have "119 - ?l = 64 + (55 - ?l)" by simp
      then have "(119 - ?l) mod 64 = (55 - ?l) mod 64" by (simp only: mod_add_self1)
      then show ?thesis using True by (simp add: n_def)
    next
      case False
      then show ?thesis using \<open>?l < 64\<close> by (simp add: n_def)
    qed
  qed
  have p: "take n padding64 = 0x80 # replicate ((119 - ?l) mod 64) 0"
    using n by (cases n) (simp_all add: padding64_def)
  have "holds (hash_update process ctx (take n padding64)) (m @ take n padding64)"
    using assms n by (intro update_holds) (simp_all add: padding64_def)
  then have "holds (hash_update process (hash_update process ctx (take n padding64))
      (msglen (of_nat (8 * length m div 2 ^ 32)) (of_nat (8 * length m))))
      ((m @ take n padding64) @ msglen (of_nat (8 * length m div 2 ^ 32)) (of_nat (8 * length m)))"
    by (rule update_holds) (simp add: length_msglen)
  moreover have "hash_finish process msglen ctx = hash_update process (hash_update process ctx (take n padding64))
      (msglen (of_nat (8 * length m div 2 ^ 32)) (of_nat (8 * length m)))"
    unfolding hash_finish_def Let_def t left_bytes high_low(1) n_def[symmetric] unfolding high_low(2) ..
  ultimately show ?thesis unfolding p holds_def digest_def padded_def by simp
qed
end

end
