(* ===== verification/Digest_spec.thy ===== *)
theory Digest_spec
  imports Digest
begin

text \<open>
  What MD5 and SHA-1 are: the block functions of RFC 1321 and FIPS 180 in their textual form, the
  padding, and the keyed digest of RFC 2104; and the proofs that the code computes them.
\<close>

section \<open>SHA-1 (FIPS 180)\<close>

text \<open>The message schedule.\<close>

fun sched :: "u8 list \<Rightarrow> nat \<Rightarrow> u32" where
  "sched data t =
     (if t < 16 then get_uint32_be data (4 * t)
      else rol32 (sched data (t - 3) XOR sched data (t - 8) XOR sched data (t - 14) XOR sched data (t - 16)) 1)"

declare sched.simps [simp del]

definition sha1_ft :: "nat \<Rightarrow> u32 \<Rightarrow> u32 \<Rightarrow> u32 \<Rightarrow> u32" where
  "sha1_ft t x y z =
     (if t < 20 then (x AND y) XOR (NOT x AND z)
      else if 40 \<le> t \<and> t < 60 then (x AND y) XOR (x AND z) XOR (y AND z)
      else x XOR y XOR z)"

definition sha1_Kt :: "nat \<Rightarrow> u32" where
  "sha1_Kt t = (if t < 20 then 0x5A827999 else if t < 40 then 0x6ED9EBA1 else if t < 60 then 0x8F1BBCDC else 0xCA62C1D6)"

type_synonym regs5 = "u32 \<times> u32 \<times> u32 \<times> u32 \<times> u32"

definition sha1_round :: "u8 list \<Rightarrow> nat \<Rightarrow> regs5 \<Rightarrow> regs5" where
  "sha1_round data t = (\<lambda>(a, b, c, d, e).
     (rol32 a 5 + sha1_ft t b c d + e + sha1_Kt t + sched data t, a, rol32 b 30, c, d))"

definition sha1_block :: "u32 list \<Rightarrow> u8 list \<Rightarrow> u32 list" where
  "sha1_block h data =
     (let (a, b, c, d, e) = fold (sha1_round data) [0..<80] (h ! 0, h ! 1, h ! 2, h ! 3, h ! 4)
      in [h ! 0 + a, h ! 1 + b, h ! 2 + c, h ! 3 + d, h ! 4 + e])"

section \<open>The code's registers rotate\<close>

text \<open>Which C variable holds the first of the five registers after \<open>t\<close> rounds.\<close>

fun rot5 :: "nat \<Rightarrow> regs5 \<Rightarrow> u32 list" where
  "rot5 t (a, b, c, d, e) =
     (let r = t mod 5 in
      if r = 0 then [a, b, c, d, e] else if r = 1 then [b, c, d, e, a] else if r = 2 then [c, d, e, a, b]
      else if r = 3 then [d, e, a, b, c] else [e, a, b, c, d])"

text \<open>The message words are the last 16 of the schedule, in a ring.\<close>

definition ring_ok :: "u8 list \<Rightarrow> nat \<Rightarrow> u32 list \<Rightarrow> bool" where
  "ring_ok data t ws \<longleftrightarrow> length ws = 16 \<and> (\<forall>j. t \<le> j + 16 \<and> j < max t 16 \<longrightarrow> ws ! (j mod 16) = sched data j)"

definition sha1_call_at :: "nat \<Rightarrow> sha1_call" where
  "sha1_call_at t = ((4 * t) mod 5, (4 * t + 1) mod 5, (4 * t + 2) mod 5, (4 * t + 3) mod 5, (4 * t + 4) mod 5,
     if t < 16 then W t else R t)"

lemma sha1_calls_at:
  "sha1_calls_1 = map sha1_call_at [0..<20]" "sha1_calls_2 = map sha1_call_at [20..<40]"
  "sha1_calls_3 = map sha1_call_at [40..<60]" "sha1_calls_4 = map sha1_call_at [60..<80]"
  by code_simp+

lemma ring_start: "ring_ok data 0 (map (\<lambda>i. get_uint32_be data (4 * i)) [0..<16])"
  by (simp add: ring_ok_def sched.simps)

lemma ring_word:
  assumes "ring_ok data t ws"
  shows "\<exists>ws'. sha1_R (if t < 16 then W t else R t) ws = (sched data t, ws') \<and> ring_ok data (Suc t) ws'"
proof (cases "t < 16")
  case True
  then have "ws ! (t mod 16) = sched data t" using assms by (simp add: ring_ok_def)
  then show ?thesis using True assms by (intro exI[of _ ws]) (auto simp: ring_ok_def max_def)
next
  case False
  have at: "ws ! (j mod 16) = sched data j" if "t \<le> j + 16" "j < t" for j
    using assms that by (simp add: ring_ok_def max_def)
  have "t mod 16 = (t - 16) mod 16" using False by (simp add: le_mod_geq)
  then have x: "rol32 (ws ! ((t - 3) mod 16) XOR ws ! ((t - 8) mod 16) XOR ws ! ((t - 14) mod 16) XOR ws ! (t mod 16)) 1 = sched data t"
    using False at[of "t - 3"] at[of "t - 8"] at[of "t - 14"] at[of "t - 16"] sched.simps[of data t] by simp
  have "ring_ok data (Suc t) (ws[t mod 16 := sched data t])"
    unfolding ring_ok_def
  proof (intro conjI allI impI)
    show "length (ws[t mod 16 := sched data t]) = 16" using assms by (simp add: ring_ok_def)
    then have l: "length ws = 16" by simp
    fix j assume j: "Suc t \<le> j + 16 \<and> j < max (Suc t) 16"
    show "ws[t mod 16 := sched data t] ! (j mod 16) = sched data j"
    proof (cases "j = t")
      case True
      then show ?thesis using l by simp
    next
      case ne: False
      then have jt: "j < t" "t - j < 16" using j False by auto
      have "j mod 16 \<noteq> t mod 16"
      proof
        assume "j mod 16 = t mod 16"
        then have "16 dvd t - j" using jt(1) by (metis less_imp_le_nat mod_eq_dvd_iff_nat)
        then show False using jt by (auto dest: dvd_imp_le)
      qed
      then show ?thesis using at[of j] jt j by simp
    qed
  qed
  then show ?thesis using False x by (simp add: Let_def)
qed

lemma sha1_F:
  "sha1_F1 x y z = (x AND y) XOR (NOT x AND z)" "sha1_F2 x y z = x XOR y XOR z"
  "sha1_F3 x y z = (x AND y) XOR (x AND z) XOR (y AND z)"
  unfolding sha1_F1_def sha1_F2_def sha1_F3_def
  by (rule bit_word_eqI; auto simp: bit_simps)+

definition sha1_code_F :: "nat \<Rightarrow> u32 \<Rightarrow> u32 \<Rightarrow> u32 \<Rightarrow> u32" where
  "sha1_code_F t = (if t < 20 then sha1_F1 else if 40 \<le> t \<and> t < 60 then sha1_F3 else sha1_F2)"

lemma sha1_code_F: "sha1_code_F t x y z = sha1_ft t x y z"
  by (simp add: sha1_code_F_def sha1_ft_def sha1_F)

lemma sha1_call_mod:
  "sha1_call_at t = ((4 * (t mod 5)) mod 5, (4 * (t mod 5) + 1) mod 5, (4 * (t mod 5) + 2) mod 5, (4 * (t mod 5) + 3) mod 5,
     (4 * (t mod 5) + 4) mod 5, if t < 16 then W t else R t)"
  unfolding sha1_call_at_def by (simp only: mod_mult_right_eq mod_add_left_eq[of "4 * (t mod 5)", symmetric] mod_add_left_eq[of "4 * t", symmetric])

lemma sha1_call:
  assumes "ring_ok data t ws"
  shows "\<exists>ws'. sha1_P (sha1_code_F t) (sha1_Kt t) (sha1_call_at t) (rot5 t r, ws) = (rot5 (Suc t) (sha1_round data t r), ws') \<and>
    ring_ok data (Suc t) ws'"
proof -
  obtain ws' where w: "sha1_R (if t < 16 then W t else R t) ws = (sched data t, ws')" "ring_ok data (Suc t) ws'"
    using ring_word[OF assms] by blast
  obtain a b c d e where r: "r = (a, b, c, d, e)" by (cases r)
  have "t mod 5 = 0 \<and> Suc t mod 5 = 1 \<or> t mod 5 = 1 \<and> Suc t mod 5 = 2 \<or> t mod 5 = 2 \<and> Suc t mod 5 = 3 \<or>
      t mod 5 = 3 \<and> Suc t mod 5 = 4 \<or> t mod 5 = 4 \<and> Suc t mod 5 = 0" by presburger
  then have "sha1_P (sha1_code_F t) (sha1_Kt t) (sha1_call_at t) (rot5 t r, ws) = (rot5 (Suc t) (sha1_round data t r), ws')"
    by (elim disjE conjE)
      (simp_all add: r sha1_P_def sha1_call_mod w(1) sha1_round_def sha1_code_F Let_def ac_simps)
  then show ?thesis using w(2) by blast
qed

lemma sha1_calls:
  "\<exists>ws. fold (\<lambda>t. sha1_P (sha1_code_F t) (sha1_Kt t) (sha1_call_at t)) [0..<n]
      (rot5 0 r, map (\<lambda>i. get_uint32_be data (4 * i)) [0..<16]) = (rot5 n (fold (sha1_round data) [0..<n] r), ws) \<and>
    ring_ok data n ws"
proof (induction n)
  case 0
  then show ?case using ring_start[of data] by auto
next
  case (Suc n)
  then show ?case using sha1_call by fastforce
qed

lemma sha1_process_folds:
  "sha1_process h data = map2 (+) h (fst (fold (\<lambda>t. sha1_P (sha1_code_F t) (sha1_Kt t) (sha1_call_at t)) [0..<80]
      (h, map (\<lambda>i. get_uint32_be data (4 * i)) [0..<16])))"
proof -
  have split: "[0..<80] = [0..<20] @ [20..<40] @ [40..<60] @ [60..<80]" by (simp add: upt_rec)
  have part: "fold (\<lambda>t. sha1_P (sha1_code_F t) (sha1_Kt t) (sha1_call_at t)) [i..<j] = fold (sha1_P F K) (map sha1_call_at [i..<j])"
    if "\<And>t. i \<le> t \<Longrightarrow> t < j \<Longrightarrow> sha1_code_F t = F \<and> sha1_Kt t = K" for i j F K
    unfolding fold_map by (intro ext fold_cong) (use that in auto)
  show ?thesis
    unfolding sha1_process_def Let_def sha1_calls_at split fold_append comp_def
    by (subst part[of 0 20 sha1_F1 "0x5A827999"], simp add: sha1_code_F_def sha1_Kt_def,
        subst part[of 20 40 sha1_F2 "0x6ED9EBA1"], simp add: sha1_code_F_def sha1_Kt_def,
        subst part[of 40 60 sha1_F3 "0x8F1BBCDC"], simp add: sha1_code_F_def sha1_Kt_def,
        subst part[of 60 80 sha1_F2 "0xCA62C1D6"], simp add: sha1_code_F_def sha1_Kt_def, rule refl)
qed

lemma five_words: "length h = 5 \<Longrightarrow> \<exists>a b c d e. h = [a, b, c, d, e]"
  by (auto simp: numeral_eq_Suc length_Suc_conv)

lemma sha1_process_block:
  assumes "length h = 5"
  shows "sha1_process h data = sha1_block h data"
proof -
  obtain a0 b0 c0 d0 e0 where h: "h = [a0, b0, c0, d0, e0]" using five_words[OF assms] by blast
  obtain a b c d e where r: "fold (sha1_round data) [0..<80] (a0, b0, c0, d0, e0) = (a, b, c, d, e)"
    by (metis prod_cases5)
  have rot: "rot5 80 (a, b, c, d, e) = [a, b, c, d, e]" "rot5 0 (a0, b0, c0, d0, e0) = h" by (simp_all add: h)
  obtain ws where w: "fold (\<lambda>t. sha1_P (sha1_code_F t) (sha1_Kt t) (sha1_call_at t)) [0..<80]
      (h, map (\<lambda>i. get_uint32_be data (4 * i)) [0..<16]) = ([a, b, c, d, e], ws)"
    using sha1_calls[of 80 "(a0, b0, c0, d0, e0)" data] unfolding r rot by (elim exE conjE) (rule that)
  have n: "h ! 0 = a0" "h ! 1 = b0" "h ! 2 = c0" "h ! 3 = d0" "h ! 4 = e0" by (simp_all add: h)
  show ?thesis
    unfolding sha1_process_folds w fst_conv sha1_block_def n r Let_def prod.case by (simp add: h)
qed

section \<open>MD5 (RFC 1321)\<close>

text \<open>The constants, \<open>\<lfloor>2\<^sup>3\<^sup>2 \<bar>sin (t + 1)\<bar>\<rfloor>\<close>.\<close>

definition md5_T :: "u32 list" where
  "md5_T =
    [0xD76AA478, 0xE8C7B756, 0x242070DB, 0xC1BDCEEE, 0xF57C0FAF, 0x4787C62A, 0xA8304613, 0xFD469501,
     0x698098D8, 0x8B44F7AF, 0xFFFF5BB1, 0x895CD7BE, 0x6B901122, 0xFD987193, 0xA679438E, 0x49B40821,
     0xF61E2562, 0xC040B340, 0x265E5A51, 0xE9B6C7AA, 0xD62F105D, 0x02441453, 0xD8A1E681, 0xE7D3FBC8,
     0x21E1CDE6, 0xC33707D6, 0xF4D50D87, 0x455A14ED, 0xA9E3E905, 0xFCEFA3F8, 0x676F02D9, 0x8D2A4C8A,
     0xFFFA3942, 0x8771F681, 0x6D9D6122, 0xFDE5380C, 0xA4BEEA44, 0x4BDECFA9, 0xF6BB4B60, 0xBEBFBC70,
     0x289B7EC6, 0xEAA127FA, 0xD4EF3085, 0x04881D05, 0xD9D4D039, 0xE6DB99E5, 0x1FA27CF8, 0xC4AC5665,
     0xF4292244, 0x432AFF97, 0xAB9423A7, 0xFC93A039, 0x655B59C3, 0x8F0CCC92, 0xFFEFF47D, 0x85845DD1,
     0x6FA87E4F, 0xFE2CE6E0, 0xA3014314, 0x4E0811A1, 0xF7537E82, 0xBD3AF235, 0x2AD7D2BB, 0xEB86D391]"

definition md5_ft :: "nat \<Rightarrow> u32 \<Rightarrow> u32 \<Rightarrow> u32 \<Rightarrow> u32" where
  "md5_ft t x y z =
     (if t < 16 then (x AND y) OR (NOT x AND z)
      else if t < 32 then (x AND z) OR (y AND NOT z)
      else if t < 48 then x XOR y XOR z
      else y XOR (x OR NOT z))"

definition md5_gt :: "nat \<Rightarrow> nat" where
  "md5_gt t = (if t < 16 then t else if t < 32 then (5 * t + 1) mod 16 else if t < 48 then (3 * t + 5) mod 16 else (7 * t) mod 16)"

definition md5_st :: "nat \<Rightarrow> nat" where
  "md5_st t = (if t < 16 then [7, 12, 17, 22] else if t < 32 then [5, 9, 14, 20] else if t < 48 then [4, 11, 16, 23]
     else [6, 10, 15, 21]) ! (t mod 4)"

type_synonym regs4 = "u32 \<times> u32 \<times> u32 \<times> u32"

definition md5_round :: "u8 list \<Rightarrow> nat \<Rightarrow> regs4 \<Rightarrow> regs4" where
  "md5_round data t = (\<lambda>(a, b, c, d).
     (d, b + rol32 (a + md5_ft t b c d + get_uint32_le data (4 * md5_gt t) + md5_T ! t) (md5_st t), b, c))"

definition md5_block :: "u32 list \<Rightarrow> u8 list \<Rightarrow> u32 list" where
  "md5_block h data =
     (let (a, b, c, d) = fold (md5_round data) [0..<64] (h ! 0, h ! 1, h ! 2, h ! 3)
      in [h ! 0 + a, h ! 1 + b, h ! 2 + c, h ! 3 + d])"

fun rot4 :: "nat \<Rightarrow> regs4 \<Rightarrow> u32 list" where
  "rot4 t (a, b, c, d) =
     (let r = t mod 4 in
      if r = 0 then [a, b, c, d] else if r = 1 then [b, c, d, a] else if r = 2 then [c, d, a, b] else [d, a, b, c])"

definition md5_call_at :: "nat \<Rightarrow> md5_call" where
  "md5_call_at t = ((3 * t) mod 4, (3 * t + 1) mod 4, (3 * t + 2) mod 4, (3 * t + 3) mod 4, md5_gt t, md5_st t, md5_T ! t)"

lemma md5_calls_at:
  "md5_calls_1 = map md5_call_at [0..<16]" "md5_calls_2 = map md5_call_at [16..<32]"
  "md5_calls_3 = map md5_call_at [32..<48]" "md5_calls_4 = map md5_call_at [48..<64]"
  by code_simp+

definition md5_code_F :: "nat \<Rightarrow> u32 \<Rightarrow> u32 \<Rightarrow> u32 \<Rightarrow> u32" where
  "md5_code_F t = (if t < 16 then md5_F1 else if t < 32 then md5_F2 else if t < 48 then md5_F3 else md5_F4)"

lemma md5_F: "md5_F1 x y z = (x AND y) OR (NOT x AND z)" "md5_F2 x y z = (x AND z) OR (y AND NOT z)"
  unfolding md5_F1_def md5_F2_def by (rule bit_word_eqI; auto simp: bit_simps)+

lemma md5_code_F: "md5_code_F t x y z = md5_ft t x y z"
  by (simp add: md5_code_F_def md5_ft_def md5_F md5_F3_def md5_F4_def)

lemma md5_call_mod:
  "md5_call_at t = ((3 * (t mod 4)) mod 4, (3 * (t mod 4) + 1) mod 4, (3 * (t mod 4) + 2) mod 4, (3 * (t mod 4) + 3) mod 4,
     md5_gt t, md5_st t, md5_T ! t)"
  unfolding md5_call_at_def by (simp only: mod_mult_right_eq mod_add_left_eq[of "3 * (t mod 4)", symmetric] mod_add_left_eq[of "3 * t", symmetric])

lemma md5_call:
  assumes "X ! md5_gt t = get_uint32_le data (4 * md5_gt t)"
  shows "md5_P (md5_code_F t) X (md5_call_at t) (rot4 t r) = rot4 (Suc t) (md5_round data t r)"
proof -
  obtain a b c d where r: "r = (a, b, c, d)" by (cases r)
  have "t mod 4 = 0 \<and> Suc t mod 4 = 1 \<or> t mod 4 = 1 \<and> Suc t mod 4 = 2 \<or> t mod 4 = 2 \<and> Suc t mod 4 = 3 \<or>
      t mod 4 = 3 \<and> Suc t mod 4 = 0" by presburger
  then show ?thesis
    by (elim disjE conjE) (simp_all add: r md5_P_def md5_call_mod assms md5_round_def md5_code_F Let_def ac_simps)
qed

lemma md5_calls:
  assumes "\<And>i. i < 16 \<Longrightarrow> X ! i = get_uint32_le data (4 * i)"
  shows "fold (\<lambda>t. md5_P (md5_code_F t) X (md5_call_at t)) [0..<n] (rot4 0 r) = rot4 n (fold (md5_round data) [0..<n] r)"
proof (induction n)
  case (Suc n)
  have "md5_gt n < 16" by (simp add: md5_gt_def)
  then show ?case using Suc md5_call[OF assms] by (simp del: rot4.simps)
qed simp

lemma md5_process_folds:
  "md5_process h data = map2 (+) h (fold (\<lambda>t. md5_P (md5_code_F t) (map (\<lambda>i. get_uint32_le data (4 * i)) [0..<16]) (md5_call_at t)) [0..<64] h)"
proof -
  have split: "[0..<64] = [0..<16] @ [16..<32] @ [32..<48] @ [48..<64]" by (simp add: upt_rec)
  have part: "fold (\<lambda>t. md5_P (md5_code_F t) X (md5_call_at t)) [i..<j] = fold (md5_P F X) (map md5_call_at [i..<j])"
    if "\<And>t. i \<le> t \<Longrightarrow> t < j \<Longrightarrow> md5_code_F t = F" for i j F X
    unfolding fold_map by (intro ext fold_cong) (use that in auto)
  show ?thesis
    unfolding md5_process_def Let_def md5_calls_at split fold_append comp_def
    by (subst part[of 0 16 md5_F1], simp add: md5_code_F_def, subst part[of 16 32 md5_F2], simp add: md5_code_F_def,
        subst part[of 32 48 md5_F3], simp add: md5_code_F_def, subst part[of 48 64 md5_F4], simp add: md5_code_F_def, rule refl)
qed

lemma four_words: "length h = 4 \<Longrightarrow> \<exists>a b c d. h = [a, b, c, d]"
  by (auto simp: numeral_eq_Suc length_Suc_conv)

lemma md5_process_block:
  assumes "length h = 4"
  shows "md5_process h data = md5_block h data"
proof -
  obtain a0 b0 c0 d0 where h: "h = [a0, b0, c0, d0]" using four_words[OF assms] by blast
  obtain a b c d where r: "fold (md5_round data) [0..<64] (a0, b0, c0, d0) = (a, b, c, d)"
    by (metis prod_cases4)
  have rot: "rot4 64 (a, b, c, d) = [a, b, c, d]" "rot4 0 (a0, b0, c0, d0) = h" by (simp_all add: h)
  have w: "fold (\<lambda>t. md5_P (md5_code_F t) (map (\<lambda>i. get_uint32_le data (4 * i)) [0..<16]) (md5_call_at t)) [0..<64] h = [a, b, c, d]"
    unfolding rot(2)[symmetric] rot(1)[symmetric] r[symmetric] by (rule md5_calls) simp
  have n: "h ! 0 = a0" "h ! 1 = b0" "h ! 2 = c0" "h ! 3 = d0" by (simp_all add: h)
  show ?thesis
    unfolding md5_process_folds w md5_block_def n r Let_def prod.case by (simp add: h)
qed

section \<open>The digests\<close>

definition le64 :: "nat \<Rightarrow> u8 list" where
  "le64 n = map (\<lambda>i. of_nat (n div 256 ^ i)) [0..<8]"

text \<open>One bit, zeros up to 56 modulo 64, and the number of bits, low or high byte first.\<close>

definition padded_with :: "(nat \<Rightarrow> u8 list) \<Rightarrow> u8 list \<Rightarrow> u8 list" where
  "padded_with enc m = m @ 0x80 # replicate ((119 - length m mod 64) mod 64) 0 @ enc (8 * length m)"

definition md5_digest :: "u8 list \<Rightarrow> u8 list" where
  "md5_digest m = concat (map put_uint32_le (foldl md5_block md5_start (blocks64 (padded_with le64 m))))"

definition sha1_digest :: "u8 list \<Rightarrow> u8 list" where
  "sha1_digest m = concat (map put_uint32_be (foldl sha1_block sha1_start (blocks64 (padded_with (\<lambda>n. rev (le64 n)) m))))"

lemma byte_of_word:
  assumes "k < 4"
  shows "ucast (drop_bit (8 * k) (of_nat n :: u32)) = (of_nat (n div 256 ^ k) :: u8)"
proof -
  have e: "(2 :: nat) ^ (8 * k) = 256 ^ k" by (simp add: power_mult)
  have p: "(2 :: nat) ^ 32 = 256 ^ k * 256 ^ (4 - k)"
    using assms by (simp flip: power_add)
  have "unat (drop_bit (8 * k) (of_nat n :: u32)) = n mod 2 ^ 32 div 256 ^ k"
    by (subst unat_drop_bit_eq) (simp add: unsigned_of_nat take_bit_eq_mod drop_bit_eq_div e)
  also have "\<dots> = n div 256 ^ k mod 256 ^ (4 - k)" unfolding p by (simp add: mod_mult2_eq)
  finally have u: "unat (drop_bit (8 * k) (of_nat n :: u32)) = n div 256 ^ k mod 256 ^ (4 - k)" .
  have d: "256 dvd (256 :: nat) ^ (4 - k)" using assms by (intro dvd_power) simp
  have "unat (ucast (drop_bit (8 * k) (of_nat n :: u32)) :: u8) = n div 256 ^ k mod 256 ^ (4 - k) mod 256"
    by (subst unsigned_ucast_eq) (simp add: u take_bit_eq_mod)
  also have "\<dots> = unat (of_nat (n div 256 ^ k) :: u8)"
    using d by (simp add: mod_mod_cancel unsigned_of_nat take_bit_eq_mod)
  finally show ?thesis by (rule word_unat_eq_iff[THEN iffD2])
qed

lemma length_bytes:
  "md5_msglen (of_nat (n div 2 ^ 32)) (of_nat n) = le64 n"
  "sha1_msglen (of_nat (n div 2 ^ 32)) (of_nat n) = rev (le64 n)"
proof -
  have lo: "ucast (of_nat x :: u32) = (of_nat x :: u8)" "ucast (drop_bit 8 (of_nat x :: u32)) = (of_nat (x div 256) :: u8)"
      "ucast (drop_bit 16 (of_nat x :: u32)) = (of_nat (x div 256 ^ 2) :: u8)"
      "ucast (drop_bit 24 (of_nat x :: u32)) = (of_nat (x div 256 ^ 3) :: u8)" for x
    using byte_of_word[of 0 x] byte_of_word[of 1 x] byte_of_word[of 2 x] byte_of_word[of 3 x] by simp_all
  have l: "le64 n = [of_nat n, of_nat (n div 256), of_nat (n div 256 ^ 2), of_nat (n div 256 ^ 3), of_nat (n div 256 ^ 4),
      of_nat (n div 256 ^ 5), of_nat (n div 256 ^ 6), of_nat (n div 256 ^ 7)]"
    by (simp add: le64_def upt_rec)
  show "md5_msglen (of_nat (n div 2 ^ 32)) (of_nat n) = le64 n" "sha1_msglen (of_nat (n div 2 ^ 32)) (of_nat n) = rev (le64 n)"
    unfolding md5_msglen_def sha1_msglen_def put_uint32_le_def put_uint32_be_def lo l by (simp_all flip: div_mult2_eq)
qed

interpretation md5: block_hash md5_process md5_start md5_msglen
  by unfold_locales (simp add: md5_msglen_def put_uint32_le_def)

interpretation sha1: block_hash sha1_process sha1_start sha1_msglen
  by unfold_locales (simp add: sha1_msglen_def put_uint32_be_def)

lemma md5_blocks: "length h = 4 \<Longrightarrow> foldl md5_process h bs = foldl md5_block h bs \<and> length (foldl md5_block h bs) = 4"
proof (induction bs arbitrary: h)
  case (Cons b bs)
  moreover have "length (md5_block h b) = 4" by (simp add: md5_block_def split: prod.split)
  ultimately show ?case by (simp add: md5_process_block)
qed simp

lemma sha1_blocks: "length h = 5 \<Longrightarrow> foldl sha1_process h bs = foldl sha1_block h bs \<and> length (foldl sha1_block h bs) = 5"
proof (induction bs arbitrary: h)
  case (Cons b bs)
  moreover have "length (sha1_block h b) = 5" by (simp add: sha1_block_def split: prod.split)
  ultimately show ?case by (simp add: sha1_process_block)
qed simp

lemma code_digests:
  "md5.digest m = foldl md5_block md5_start (blocks64 (padded_with le64 m))"
  "sha1.digest m = foldl sha1_block sha1_start (blocks64 (padded_with (\<lambda>n. rev (le64 n)) m))"
proof -
  have l: "length md5_start = 4" "length sha1_start = 5" by (simp_all add: md5_start_def sha1_start_def)
  show "md5.digest m = foldl md5_block md5_start (blocks64 (padded_with le64 m))"
    "sha1.digest m = foldl sha1_block sha1_start (blocks64 (padded_with (\<lambda>n. rev (le64 n)) m))"
    unfolding md5.digest_def sha1.digest_def md5.padded_def sha1.padded_def padded_with_def length_bytes
    using md5_blocks[OF l(1)] sha1_blocks[OF l(2)] by simp_all
qed

lemma md5_of_updates:
  assumes "length (hbuffer ctx) = 64" and "\<forall>xs \<in> set xss. length xs < 2 ^ 32"
  shows "md5_finish (foldl md5_update (md5_starts ctx) xss) = md5_digest (concat xss)"
proof -
  have "md5.holds (md5_starts ctx) []" using assms(1) by (simp add: md5.holds_def md5_starts_def)
  from md5.finish_digest[OF md5.updates_hold[OF this assms(2)]] show ?thesis
    by (simp add: md5_finish_def md5_update_def md5_digest_def code_digests)
qed

lemma sha1_of_updates:
  assumes "length (hbuffer ctx) = 64" and "\<forall>xs \<in> set xss. length xs < 2 ^ 32"
  shows "sha1_finish (foldl sha1_update (sha1_starts ctx) xss) = sha1_digest (concat xss)"
proof -
  have "sha1.holds (sha1_starts ctx) []" using assms(1) by (simp add: sha1.holds_def sha1_starts_def)
  from sha1.finish_digest[OF sha1.updates_hold[OF this assms(2)]] show ?thesis
    by (simp add: sha1_finish_def sha1_update_def sha1_digest_def code_digests)
qed

text \<open>
  C29. MD5 and SHA-1. Whatever the context held before and however a message is cut into pieces of less
  than 4 GiB, starting, updating with the pieces and finishing gives the digest of RFC 1321 and
  FIPS 180 of the whole message.
\<close>

theorem digests_of_pieces:
  assumes "length (hbuffer ctx) = 64" and "\<forall>xs \<in> set xss. length xs < 2 ^ 32"
  shows "md5_finish (foldl md5_update (md5_starts ctx) xss) = md5_digest (concat xss) \<and>
    sha1_finish (foldl sha1_update (sha1_starts ctx) xss) = sha1_digest (concat xss)"
  using md5_of_updates[OF assms] sha1_of_updates[OF assms] by simp

lemma digests_of_pieces_witness:
  "md5_finish (foldl md5_update (md5_starts (hash_zero 4)) [[0x61], [0x62, 0x63]]) = md5_digest (concat [[0x61], [0x62, 0x63]]) \<and>
    sha1_finish (foldl sha1_update (sha1_starts (hash_zero 4)) [[0x61], [0x62, 0x63]]) = sha1_digest (concat [[0x61], [0x62, 0x63]])"
  by (rule digests_of_pieces) (simp_all add: hash_zero_def)

section \<open>Keyed digests (RFC 2104)\<close>

definition hmac :: "(u8 list \<Rightarrow> u8 list) \<Rightarrow> u8 list \<Rightarrow> u8 list \<Rightarrow> u8 list" where
  "hmac H key m =
     (let k = key @ replicate (64 - length key) 0
      in H (map (\<lambda>b. b XOR 0x5c) k @ H (map (\<lambda>b. b XOR 0x36) k @ m)))"

lemma mem_bytes_length: "mem_bytes mem n = Some bs \<Longrightarrow> int (length bs) = n"
  by (auto simp: mem_bytes_def split: if_splits)

lemma key_pad_eq:
  "mem_bytes key n = Some k \<Longrightarrow>
    key_pad key n x = (if length k \<le> 64 then Some (map (\<lambda>b. b XOR x) (k @ replicate (64 - length k) 0)) else None)"
  by (simp add: key_pad_def memcpy_at_def)

lemma length_digests: "length (md5_digest m) < 2 ^ 32" "length (sha1_digest m) < 2 ^ 32"
proof -
  have le: "length (concat (map put_uint32_le ws)) = 4 * length ws" "length (concat (map put_uint32_be ws)) = 4 * length ws" for ws
    by (induction ws) (simp_all add: put_uint32_le_def put_uint32_be_def)
  show "length (md5_digest m) < 2 ^ 32" "length (sha1_digest m) < 2 ^ 32"
    unfolding md5_digest_def sha1_digest_def le using md5_blocks[of md5_start] sha1_blocks[of sha1_start]
    by (simp_all add: md5_start_def sha1_start_def)
qed

lemma length_zero_buffer: "length (hbuffer (hash_zero n)) = 64"
  by (simp add: hash_zero_def)

lemma two_updates:
  assumes "length a < 2 ^ 32" and "length b < 2 ^ 32"
  shows "md5_finish (md5_update (md5_update (md5_starts (hash_zero n)) a) b) = md5_digest (a @ b)"
    and "sha1_finish (sha1_update (sha1_update (sha1_starts (hash_zero n)) a) b) = sha1_digest (a @ b)"
  using md5_of_updates[OF length_zero_buffer, of "[a, b]" n] sha1_of_updates[OF length_zero_buffer, of "[a, b]" n] assms by simp_all

text \<open>
  C30. The keyed digests are those of RFC 2104, in upper-case hexadecimal digits, for keys of up to 64
  bytes; a longer key, which the RFC hashes first, is copied past the end of the two arrays on the
  stack.
\<close>

theorem keyed_digests_rfc2104:
  assumes "mem_bytes msg msg_len = Some m" and "mem_bytes key key_len = Some k" and "msg_len < 2 ^ 31"
  shows "aliyun_iot_common_hmac_md5 msg msg_len key key_len =
      (if length k \<le> 64 then Some (hex_digits (hmac md5_digest k m)) else None) \<and>
    aliyun_iot_common_hmac_sha1 msg msg_len key key_len =
      (if length k \<le> 64 then Some (hex_digits (hmac sha1_digest k m)) else None)"
proof -
  have m: "length m < 2 ^ 32" using mem_bytes_length[OF assms(1)] assms(3) by simp
  show ?thesis
  proof (cases "length k \<le> 64")
    case True
    have p: "length (map (\<lambda>b. b XOR x) (k @ replicate (64 - length k) 0)) < 2 ^ 32" for x :: u8 using True by simp
    show ?thesis
      unfolding aliyun_iot_common_hmac_md5_def aliyun_iot_common_hmac_sha1_def key_pad_eq[OF assms(2)] assms(1) if_P[OF True] hmac_def Let_def
        bind.bind_lunit two_updates[OF p m] two_updates[OF p length_digests(1)] two_updates[OF p length_digests(2)]
      by simp
  next
    case False
    then show ?thesis
      by (simp add: aliyun_iot_common_hmac_md5_def aliyun_iot_common_hmac_sha1_def key_pad_eq[OF assms(2)])
  qed
qed

lemma keyed_digests_rfc2104_witness:
  "aliyun_iot_common_hmac_md5 [0x61, 0] 1 [0x6B, 0x65, 0x79, 0] 3 =
      (if length [0x6B, 0x65, 0x79 :: u8] \<le> 64 then Some (hex_digits (hmac md5_digest [0x6B, 0x65, 0x79] [0x61])) else None) \<and>
    aliyun_iot_common_hmac_sha1 [0x61, 0] 1 [0x6B, 0x65, 0x79, 0] 3 =
      (if length [0x6B, 0x65, 0x79 :: u8] \<le> 64 then Some (hex_digits (hmac sha1_digest [0x6B, 0x65, 0x79] [0x61])) else None)"
  by (rule keyed_digests_rfc2104) (simp_all add: mem_bytes_def)

end
