(* ===== verification/Aes.thy ===== *)
theory Aes
  imports C_Prelude
begin

text \<open>
  AES-128 in electronic codebook mode, \<^verbatim>\<open>lib/crypto/src/aes.c\<close>. The 4 x 4 state is the list
  of its 16 bytes, \<^verbatim>\<open>state[i][j]\<close> at \<open>4 i + j\<close>; the round keys are the list the code
  fills from the front. The chaining functions of the file have no caller (their Lua entries are
  commented out) and are not modelled.
\<close>

section \<open>Tables\<close>

definition sbox :: "u8 list" where
  "sbox =
    [0x63, 0x7c, 0x77, 0x7b, 0xf2, 0x6b, 0x6f, 0xc5, 0x30, 0x01, 0x67, 0x2b, 0xfe, 0xd7, 0xab, 0x76,
     0xca, 0x82, 0xc9, 0x7d, 0xfa, 0x59, 0x47, 0xf0, 0xad, 0xd4, 0xa2, 0xaf, 0x9c, 0xa4, 0x72, 0xc0,
     0xb7, 0xfd, 0x93, 0x26, 0x36, 0x3f, 0xf7, 0xcc, 0x34, 0xa5, 0xe5, 0xf1, 0x71, 0xd8, 0x31, 0x15,
     0x04, 0xc7, 0x23, 0xc3, 0x18, 0x96, 0x05, 0x9a, 0x07, 0x12, 0x80, 0xe2, 0xeb, 0x27, 0xb2, 0x75,
     0x09, 0x83, 0x2c, 0x1a, 0x1b, 0x6e, 0x5a, 0xa0, 0x52, 0x3b, 0xd6, 0xb3, 0x29, 0xe3, 0x2f, 0x84,
     0x53, 0xd1, 0x00, 0xed, 0x20, 0xfc, 0xb1, 0x5b, 0x6a, 0xcb, 0xbe, 0x39, 0x4a, 0x4c, 0x58, 0xcf,
     0xd0, 0xef, 0xaa, 0xfb, 0x43, 0x4d, 0x33, 0x85, 0x45, 0xf9, 0x02, 0x7f, 0x50, 0x3c, 0x9f, 0xa8,
     0x51, 0xa3, 0x40, 0x8f, 0x92, 0x9d, 0x38, 0xf5, 0xbc, 0xb6, 0xda, 0x21, 0x10, 0xff, 0xf3, 0xd2,
     0xcd, 0x0c, 0x13, 0xec, 0x5f, 0x97, 0x44, 0x17, 0xc4, 0xa7, 0x7e, 0x3d, 0x64, 0x5d, 0x19, 0x73,
     0x60, 0x81, 0x4f, 0xdc, 0x22, 0x2a, 0x90, 0x88, 0x46, 0xee, 0xb8, 0x14, 0xde, 0x5e, 0x0b, 0xdb,
     0xe0, 0x32, 0x3a, 0x0a, 0x49, 0x06, 0x24, 0x5c, 0xc2, 0xd3, 0xac, 0x62, 0x91, 0x95, 0xe4, 0x79,
     0xe7, 0xc8, 0x37, 0x6d, 0x8d, 0xd5, 0x4e, 0xa9, 0x6c, 0x56, 0xf4, 0xea, 0x65, 0x7a, 0xae, 0x08,
     0xba, 0x78, 0x25, 0x2e, 0x1c, 0xa6, 0xb4, 0xc6, 0xe8, 0xdd, 0x74, 0x1f, 0x4b, 0xbd, 0x8b, 0x8a,
     0x70, 0x3e, 0xb5, 0x66, 0x48, 0x03, 0xf6, 0x0e, 0x61, 0x35, 0x57, 0xb9, 0x86, 0xc1, 0x1d, 0x9e,
     0xe1, 0xf8, 0x98, 0x11, 0x69, 0xd9, 0x8e, 0x94, 0x9b, 0x1e, 0x87, 0xe9, 0xce, 0x55, 0x28, 0xdf,
     0x8c, 0xa1, 0x89, 0x0d, 0xbf, 0xe6, 0x42, 0x68, 0x41, 0x99, 0x2d, 0x0f, 0xb0, 0x54, 0xbb, 0x16]"

definition rsbox :: "u8 list" where
  "rsbox =
    [0x52, 0x09, 0x6a, 0xd5, 0x30, 0x36, 0xa5, 0x38, 0xbf, 0x40, 0xa3, 0x9e, 0x81, 0xf3, 0xd7, 0xfb,
     0x7c, 0xe3, 0x39, 0x82, 0x9b, 0x2f, 0xff, 0x87, 0x34, 0x8e, 0x43, 0x44, 0xc4, 0xde, 0xe9, 0xcb,
     0x54, 0x7b, 0x94, 0x32, 0xa6, 0xc2, 0x23, 0x3d, 0xee, 0x4c, 0x95, 0x0b, 0x42, 0xfa, 0xc3, 0x4e,
     0x08, 0x2e, 0xa1, 0x66, 0x28, 0xd9, 0x24, 0xb2, 0x76, 0x5b, 0xa2, 0x49, 0x6d, 0x8b, 0xd1, 0x25,
     0x72, 0xf8, 0xf6, 0x64, 0x86, 0x68, 0x98, 0x16, 0xd4, 0xa4, 0x5c, 0xcc, 0x5d, 0x65, 0xb6, 0x92,
     0x6c, 0x70, 0x48, 0x50, 0xfd, 0xed, 0xb9, 0xda, 0x5e, 0x15, 0x46, 0x57, 0xa7, 0x8d, 0x9d, 0x84,
     0x90, 0xd8, 0xab, 0x00, 0x8c, 0xbc, 0xd3, 0x0a, 0xf7, 0xe4, 0x58, 0x05, 0xb8, 0xb3, 0x45, 0x06,
     0xd0, 0x2c, 0x1e, 0x8f, 0xca, 0x3f, 0x0f, 0x02, 0xc1, 0xaf, 0xbd, 0x03, 0x01, 0x13, 0x8a, 0x6b,
     0x3a, 0x91, 0x11, 0x41, 0x4f, 0x67, 0xdc, 0xea, 0x97, 0xf2, 0xcf, 0xce, 0xf0, 0xb4, 0xe6, 0x73,
     0x96, 0xac, 0x74, 0x22, 0xe7, 0xad, 0x35, 0x85, 0xe2, 0xf9, 0x37, 0xe8, 0x1c, 0x75, 0xdf, 0x6e,
     0x47, 0xf1, 0x1a, 0x71, 0x1d, 0x29, 0xc5, 0x89, 0x6f, 0xb7, 0x62, 0x0e, 0xaa, 0x18, 0xbe, 0x1b,
     0xfc, 0x56, 0x3e, 0x4b, 0xc6, 0xd2, 0x79, 0x20, 0x9a, 0xdb, 0xc0, 0xfe, 0x78, 0xcd, 0x5a, 0xf4,
     0x1f, 0xdd, 0xa8, 0x33, 0x88, 0x07, 0xc7, 0x31, 0xb1, 0x12, 0x10, 0x59, 0x27, 0x80, 0xec, 0x5f,
     0x60, 0x51, 0x7f, 0xa9, 0x19, 0xb5, 0x4a, 0x0d, 0x2d, 0xe5, 0x7a, 0x9f, 0x93, 0xc9, 0x9c, 0xef,
     0xa0, 0xe0, 0x3b, 0x4d, 0xae, 0x2a, 0xf5, 0xb0, 0xc8, 0xeb, 0xbb, 0x3c, 0x83, 0x53, 0x99, 0x61,
     0x17, 0x2b, 0x04, 0x7e, 0xba, 0x77, 0xd6, 0x26, 0xe1, 0x69, 0x14, 0x63, 0x55, 0x21, 0x0c, 0x7d]"

definition Rcon :: "u8 list" where
  "Rcon =
    [0x8d, 0x01, 0x02, 0x04, 0x08, 0x10, 0x20, 0x40, 0x80, 0x1b, 0x36, 0x6c, 0xd8, 0xab, 0x4d, 0x9a,
     0x2f, 0x5e, 0xbc, 0x63, 0xc6, 0x97, 0x35, 0x6a, 0xd4, 0xb3, 0x7d, 0xfa, 0xef, 0xc5, 0x91, 0x39,
     0x72, 0xe4, 0xd3, 0xbd, 0x61, 0xc2, 0x9f, 0x25, 0x4a, 0x94, 0x33, 0x66, 0xcc, 0x83, 0x1d, 0x3a,
     0x74, 0xe8, 0xcb, 0x8d, 0x01, 0x02, 0x04, 0x08, 0x10, 0x20, 0x40, 0x80, 0x1b, 0x36, 0x6c, 0xd8,
     0xab, 0x4d, 0x9a, 0x2f, 0x5e, 0xbc, 0x63, 0xc6, 0x97, 0x35, 0x6a, 0xd4, 0xb3, 0x7d, 0xfa, 0xef,
     0xc5, 0x91, 0x39, 0x72, 0xe4, 0xd3, 0xbd, 0x61, 0xc2, 0x9f, 0x25, 0x4a, 0x94, 0x33, 0x66, 0xcc,
     0x83, 0x1d, 0x3a, 0x74, 0xe8, 0xcb, 0x8d, 0x01, 0x02, 0x04, 0x08, 0x10, 0x20, 0x40, 0x80, 0x1b,
     0x36, 0x6c, 0xd8, 0xab, 0x4d, 0x9a, 0x2f, 0x5e, 0xbc, 0x63, 0xc6, 0x97, 0x35, 0x6a, 0xd4, 0xb3,
     0x7d, 0xfa, 0xef, 0xc5, 0x91, 0x39, 0x72, 0xe4, 0xd3, 0xbd, 0x61, 0xc2, 0x9f, 0x25, 0x4a, 0x94,
     0x33, 0x66, 0xcc, 0x83, 0x1d, 0x3a, 0x74, 0xe8, 0xcb, 0x8d, 0x01, 0x02, 0x04, 0x08, 0x10, 0x20,
     0x40, 0x80, 0x1b, 0x36, 0x6c, 0xd8, 0xab, 0x4d, 0x9a, 0x2f, 0x5e, 0xbc, 0x63, 0xc6, 0x97, 0x35,
     0x6a, 0xd4, 0xb3, 0x7d, 0xfa, 0xef, 0xc5, 0x91, 0x39, 0x72, 0xe4, 0xd3, 0xbd, 0x61, 0xc2, 0x9f,
     0x25, 0x4a, 0x94, 0x33, 0x66, 0xcc, 0x83, 0x1d, 0x3a, 0x74, 0xe8, 0xcb, 0x8d, 0x01, 0x02, 0x04,
     0x08, 0x10, 0x20, 0x40, 0x80, 0x1b, 0x36, 0x6c, 0xd8, 0xab, 0x4d, 0x9a, 0x2f, 0x5e, 0xbc, 0x63,
     0xc6, 0x97, 0x35, 0x6a, 0xd4, 0xb3, 0x7d, 0xfa, 0xef, 0xc5, 0x91, 0x39, 0x72, 0xe4, 0xd3, 0xbd,
     0x61, 0xc2, 0x9f, 0x25, 0x4a, 0x94, 0x33, 0x66, 0xcc, 0x83, 0x1d, 0x3a, 0x74, 0xe8, 0xcb]"

section \<open>The cipher\<close>

definition getSBoxValue :: "u8 \<Rightarrow> u8" where "getSBoxValue num = sbox ! unat num"
definition getSBoxInvert :: "u8 \<Rightarrow> u8" where "getSBoxInvert num = rsbox ! unat num"

text \<open>The i-th word of the round keys from the words before it; \<^verbatim>\<open>Nk\<close> is 4.\<close>

definition key_word :: "nat \<Rightarrow> u8 list \<Rightarrow> u8 list" where
  "key_word i rk =
     (let tempa = map (\<lambda>j. rk ! ((i - 1) * 4 + j)) [0..<4];
          tempa = (if i mod 4 = 0 then
                     (let tempa = [tempa ! 1, tempa ! 2, tempa ! 3, tempa ! 0];
                          tempa = map getSBoxValue tempa
                      in tempa[0 := tempa ! 0 XOR Rcon ! (i div 4)])
                   else tempa)
      in map (\<lambda>j. rk ! ((i - 4) * 4 + j) XOR tempa ! j) [0..<4])"

definition KeyExpansion :: "u8 list \<Rightarrow> u8 list" where
  "KeyExpansion key = fold (\<lambda>i rk. rk @ key_word i rk) [4..<44] (take 16 key)"

definition AddRoundKey :: "u8 list \<Rightarrow> nat \<Rightarrow> u8 list \<Rightarrow> u8 list" where
  "AddRoundKey rk round s = map (\<lambda>k. s ! k XOR rk ! (round * 16 + k)) [0..<16]"

definition SubBytes :: "u8 list \<Rightarrow> u8 list" where
  "SubBytes s = map getSBoxValue s"

definition InvSubBytes :: "u8 list \<Rightarrow> u8 list" where
  "InvSubBytes s = map getSBoxInvert s"

definition ShiftRows :: "u8 list \<Rightarrow> u8 list" where
  "ShiftRows s =
     (let temp = s ! 1; s = s[1 := s ! 5]; s = s[5 := s ! 9]; s = s[9 := s ! 13]; s = s[13 := temp];
          temp = s ! 2; s = s[2 := s ! 10]; s = s[10 := temp];
          temp = s ! 6; s = s[6 := s ! 14]; s = s[14 := temp];
          temp = s ! 3; s = s[3 := s ! 15]; s = s[15 := s ! 11]; s = s[11 := s ! 7]
      in s[7 := temp])"

definition InvShiftRows :: "u8 list \<Rightarrow> u8 list" where
  "InvShiftRows s =
     (let temp = s ! 13; s = s[13 := s ! 9]; s = s[9 := s ! 5]; s = s[5 := s ! 1]; s = s[1 := temp];
          temp = s ! 2; s = s[2 := s ! 10]; s = s[10 := temp];
          temp = s ! 6; s = s[6 := s ! 14]; s = s[14 := temp];
          temp = s ! 3; s = s[3 := s ! 7]; s = s[7 := s ! 11]; s = s[11 := s ! 15]
      in s[15 := temp])"

definition xtime :: "u8 \<Rightarrow> u8" where
  "xtime x = push_bit 1 x XOR ((drop_bit 7 x AND 1) * 0x1b)"

text \<open>One column of four bytes.\<close>

definition mix_column :: "u8 \<times> u8 \<times> u8 \<times> u8 \<Rightarrow> u8 list" where
  "mix_column = (\<lambda>(s0, s1, s2, s3).
     let t = s0;
         Tmp = s0 XOR s1 XOR s2 XOR s3;
         r0 = s0 XOR (xtime (s0 XOR s1) XOR Tmp);
         r1 = s1 XOR (xtime (s1 XOR s2) XOR Tmp);
         r2 = s2 XOR (xtime (s2 XOR s3) XOR Tmp);
         r3 = s3 XOR (xtime (s3 XOR t) XOR Tmp)
     in [r0, r1, r2, r3])"

definition Multiply :: "u8 \<Rightarrow> u8 \<Rightarrow> u8" where
  "Multiply x y =
     ((y AND 1) * x) XOR
     ((drop_bit 1 y AND 1) * xtime x) XOR
     ((drop_bit 2 y AND 1) * xtime (xtime x)) XOR
     ((drop_bit 3 y AND 1) * xtime (xtime (xtime x))) XOR
     ((drop_bit 4 y AND 1) * xtime (xtime (xtime (xtime x))))"

definition inv_mix_column :: "u8 \<times> u8 \<times> u8 \<times> u8 \<Rightarrow> u8 list" where
  "inv_mix_column = (\<lambda>(a, b, c, d).
     [Multiply a 0x0e XOR Multiply b 0x0b XOR Multiply c 0x0d XOR Multiply d 0x09,
      Multiply a 0x09 XOR Multiply b 0x0e XOR Multiply c 0x0b XOR Multiply d 0x0d,
      Multiply a 0x0d XOR Multiply b 0x09 XOR Multiply c 0x0e XOR Multiply d 0x0b,
      Multiply a 0x0b XOR Multiply b 0x0d XOR Multiply c 0x09 XOR Multiply d 0x0e])"

definition columns :: "(u8 \<times> u8 \<times> u8 \<times> u8 \<Rightarrow> u8 list) \<Rightarrow> u8 list \<Rightarrow> u8 list" where
  "columns f s = concat (map (\<lambda>i. f (s ! (4 * i), s ! (4 * i + 1), s ! (4 * i + 2), s ! (4 * i + 3))) [0..<4])"

definition MixColumns :: "u8 list \<Rightarrow> u8 list" where
  "MixColumns s = columns mix_column s"

definition InvMixColumns :: "u8 list \<Rightarrow> u8 list" where
  "InvMixColumns s = columns inv_mix_column s"

definition Cipher :: "u8 list \<Rightarrow> u8 list \<Rightarrow> u8 list" where
  "Cipher rk s =
     (let s = AddRoundKey rk 0 s;
          s = fold (\<lambda>round s. AddRoundKey rk round (MixColumns (ShiftRows (SubBytes s)))) [1..<10] s
      in AddRoundKey rk 10 (ShiftRows (SubBytes s)))"

definition InvCipher :: "u8 list \<Rightarrow> u8 list \<Rightarrow> u8 list" where
  "InvCipher rk s =
     (let s = AddRoundKey rk 10 s;
          s = fold (\<lambda>round s. InvMixColumns (AddRoundKey rk round (InvSubBytes (InvShiftRows s)))) (rev [1..<10]) s
      in AddRoundKey rk 0 (InvSubBytes (InvShiftRows s)))"

text \<open>Sixteen bytes are read from the input and from the key.\<close>

definition AES128_ECB_encrypt :: "u8 list \<Rightarrow> u8 list \<Rightarrow> u8 list option" where
  "AES128_ECB_encrypt input key =
     (if 16 \<le> length input \<and> 16 \<le> length key then Some (Cipher (KeyExpansion key) (take 16 input)) else None)"

definition AES128_ECB_decrypt :: "u8 list \<Rightarrow> u8 list \<Rightarrow> u8 list option" where
  "AES128_ECB_decrypt input key =
     (if 16 \<le> length input \<and> 16 \<le> length key then Some (InvCipher (KeyExpansion key) (take 16 input)) else None)"

section \<open>Each step of a round can be undone\<close>

lemma xtime_xor: "xtime (a XOR b) = xtime a XOR xtime b"
proof -
  have b: "(drop_bit 7 x AND 1) * 0x1b = (if bit x 7 then 0x1b else 0)" for x :: u8
    by (simp add: and_one_eq mod_2_eq_odd flip: bit_iff_odd_drop_bit)
  have p: "push_bit 1 (a XOR b) = push_bit 1 a XOR push_bit 1 b"
    by (rule push_bit_xor)
  show ?thesis unfolding xtime_def b p
    by (cases "bit a 7"; cases "bit b 7")
       (simp_all only: bit_xor_iff simp_thms if_True if_False xor.assoc xor.left_commute xor_self_eq
          xor.right_neutral xor.commute xor.left_neutral)
qed

lemma multiply:
  "Multiply x 0x0e = xtime x XOR xtime (xtime x) XOR xtime (xtime (xtime x))"
  "Multiply x 0x0b = x XOR xtime x XOR xtime (xtime (xtime x))"
  "Multiply x 0x0d = x XOR xtime (xtime x) XOR xtime (xtime (xtime x))"
  "Multiply x 0x09 = x XOR xtime (xtime (xtime x))"
  by (simp_all add: Multiply_def)

text \<open>The matrix of the inverse column operation is the inverse matrix, over any additive \<open>xtime\<close>.\<close>

lemma inv_mix_mix:
  assumes "mix_column (a, b, c, d) = [w, x, y, z]"
  shows "inv_mix_column (w, x, y, z) = [a, b, c, d]"
  using assms[symmetric]
  by (simp add: mix_column_def inv_mix_column_def multiply xtime_xor Let_def xor.assoc xor.left_commute xor.commute)

lemma sbox_inverse: "\<forall>i \<in> set [0..<256]. rsbox ! unat (sbox ! i) = of_nat i"
  by code_simp

lemma inv_sub: "getSBoxInvert (getSBoxValue b) = b"
  using sbox_inverse unat_u8_less[of b] by (simp add: getSBoxInvert_def getSBoxValue_def)

lemma inv_sub_bytes: "InvSubBytes (SubBytes s) = s"
  by (simp add: InvSubBytes_def SubBytes_def inv_sub map_idI)

lemma block_16:
  assumes "length s = (16 :: nat)"
  obtains a b c d e f g h i j k l m n p q where "s = [a, b, c, d, e, f, g, h, i, j, k, l, m, n, p, q]"
proof -
  have "\<exists>a b c d e f g h i j k l m n p q. s = [a, b, c, d, e, f, g, h, i, j, k, l, m, n, p, q]"
    using assms by (auto simp: numeral_eq_Suc length_Suc_conv)
  then show ?thesis using that by blast
qed

lemma upt_4: "[0..<4] = [0, 1, 2, 3 :: nat]" by (simp add: upt_rec)

lemma inv_shift_rows: "length s = 16 \<Longrightarrow> InvShiftRows (ShiftRows s) = s"
  by (erule block_16) (simp add: InvShiftRows_def ShiftRows_def Let_def)

lemma inv_mix_columns: "length s = 16 \<Longrightarrow> InvMixColumns (MixColumns s) = s"
proof (erule block_16)
  fix a b c d e f g h i j k l m n p q
  assume s: "s = [a, b, c, d, e, f, g, h, i, j, k, l, m, n, p, q]"
  have mix: "\<exists>w x y z. mix_column t = [w, x, y, z]" for t
    by (cases t) (simp add: mix_column_def Let_def)
  obtain w x y z w' x' y' z' w'' x'' y'' z'' w''' x''' y''' z''' where
    m: "mix_column (a, b, c, d) = [w, x, y, z]" "mix_column (e, f, g, h) = [w', x', y', z']"
       "mix_column (i, j, k, l) = [w'', x'', y'', z'']" "mix_column (m, n, p, q) = [w''', x''', y''', z''']"
    using mix by metis
  show ?thesis using m[THEN inv_mix_mix] m
    by (simp add: s InvMixColumns_def MixColumns_def columns_def upt_4)
qed

lemma add_round_key_twice: "length s = 16 \<Longrightarrow> AddRoundKey rk r (AddRoundKey rk r s) = s"
  by (rule nth_equalityI) (simp_all add: AddRoundKey_def xor.assoc)

lemma length_round [simp]:
  "length (AddRoundKey rk r s) = 16" "length (SubBytes s) = length s" "length (ShiftRows s) = length s"
  by (simp_all add: AddRoundKey_def SubBytes_def ShiftRows_def Let_def)

lemma length_mix_columns [simp]: "length (MixColumns s) = 16"
  by (simp add: MixColumns_def columns_def upt_4 mix_column_def Let_def)

lemma length_cipher: "length (Cipher rk s) = 16"
  by (simp add: Cipher_def Let_def)

lemma fold_undo:
  assumes "\<And>r s. P s \<Longrightarrow> g r (f r s) = s" and "\<And>r s. P s \<Longrightarrow> P (f r s)" and "P s"
  shows "fold g (rev rs) (fold f rs s) = s"
  using assms(3) by (induction rs arbitrary: s) (simp_all add: assms(1,2))

text \<open>
  The rounds of the inverse cipher are cut differently: each undoes the second half of a round
  and the first half of the one after.
\<close>

lemma inv_cipher:
  assumes "length s = 16"
  shows "InvCipher rk (Cipher rk s) = s"
proof -
  let ?f = "\<lambda>r s. AddRoundKey rk r (MixColumns (ShiftRows (SubBytes s)))"
  let ?g = "\<lambda>r s. InvMixColumns (AddRoundKey rk r (InvSubBytes (InvShiftRows s)))"
  let ?h = "\<lambda>s. ShiftRows (SubBytes s)"
  let ?t = "fold ?f [1..<10] (AddRoundKey rk 0 s)"
  have len: "length (fold ?f rs s') = 16" if "length s' = 16" for rs s'
    using that by (induction rs arbitrary: s') simp_all
  have shift: "?h (fold ?f rs s') = fold (\<lambda>r s. ?h (AddRoundKey rk r (MixColumns s))) rs (?h s')" for rs s'
    by (induction rs arbitrary: s') simp_all
  have inv: "InvSubBytes (InvShiftRows (?h s')) = s'" if "length s' = 16" for s'
    using that by (simp add: inv_shift_rows inv_sub_bytes)
  have "fold ?g (rev [1..<10]) (?h ?t) = ?h (AddRoundKey rk 0 s)"
    unfolding shift
    by (rule fold_undo[where P = "\<lambda>s. length s = 16"])
       (simp_all add: inv add_round_key_twice inv_mix_columns)
  then show ?thesis
    by (simp add: InvCipher_def Cipher_def add_round_key_twice inv len assms)
qed

end
