(* ===== verification/Base64.thy ===== *)
theory Base64
  imports C_Prelude
begin

text \<open>
  Base64 encoding and decoding, \<^verbatim>\<open>lib/crypto/src/aliyun_iot_common_base64.c\<close>. Input and output
  are memory objects: an index outside them is undefined behaviour, \<open>None\<close>. The counters
  \<^verbatim>\<open>i\<close> and \<^verbatim>\<open>j\<close> index an object and are natural numbers; the lengths are words and wrap.
\<close>

section \<open>Tables\<close>

definition g_encodingTable :: "u8 list" where
  "g_encodingTable =
    [0x41, 0x42, 0x43, 0x44, 0x45, 0x46, 0x47, 0x48,
     0x49, 0x4A, 0x4B, 0x4C, 0x4D, 0x4E, 0x4F, 0x50,
     0x51, 0x52, 0x53, 0x54, 0x55, 0x56, 0x57, 0x58,
     0x59, 0x5A, 0x61, 0x62, 0x63, 0x64, 0x65, 0x66,
     0x67, 0x68, 0x69, 0x6A, 0x6B, 0x6C, 0x6D, 0x6E,
     0x6F, 0x70, 0x71, 0x72, 0x73, 0x74, 0x75, 0x76,
     0x77, 0x78, 0x79, 0x7A, 0x30, 0x31, 0x32, 0x33,
     0x34, 0x35, 0x36, 0x37, 0x38, 0x39, 0x2B, 0x2F]"

definition g_modTable :: "nat list" where
  "g_modTable = [0, 2, 1]"

text \<open>The table of a decoder that has run once; a character outside the alphabet decodes as 0.\<close>

definition g_decodingTable :: "u8 list" where
  "g_decodingTable = fold (\<lambda>i t. t[unat (g_encodingTable ! i) := of_nat i]) [0..<64] (replicate 256 0)"

datatype iot_return = SUCCESS_RETURN | FAIL_RETURN

section \<open>Encoding\<close>

definition octet :: "u8 list \<Rightarrow> nat \<Rightarrow> nat \<Rightarrow> (u32 \<times> nat) option" where
  "octet data n i = (if i < n then map_option (\<lambda>b. (ucast b, i + 1)) (ld data i) else Some (0, i))"

definition encode_turn :: "u8 list \<Rightarrow> nat \<Rightarrow> nat \<times> nat \<times> u8 list \<Rightarrow> (nat \<times> nat \<times> u8 list) option" where
  "encode_turn data n = (\<lambda>(i, j, out). do {
     (octet_a, i) \<leftarrow> octet data n i;
     (octet_b, i) \<leftarrow> octet data n i;
     (octet_c, i) \<leftarrow> octet data n i;
     let triple = push_bit 0x10 octet_a + push_bit 0x08 octet_b + octet_c;
     out \<leftarrow> st out j (g_encodingTable ! unat (drop_bit 18 triple AND 0x3F));
     out \<leftarrow> st out (j + 1) (g_encodingTable ! unat (drop_bit 12 triple AND 0x3F));
     out \<leftarrow> st out (j + 2) (g_encodingTable ! unat (drop_bit 6 triple AND 0x3F));
     out \<leftarrow> st out (j + 3) (g_encodingTable ! unat (triple AND 0x3F));
     Some (i, j + 4, out)
   })"

function encode_loop :: "u8 list \<Rightarrow> nat \<Rightarrow> nat \<times> nat \<times> u8 list \<Rightarrow> u8 list option" where
  "encode_loop data n s =
     (if fst s < n then encode_turn data n s \<bind> encode_loop data n else Some (snd (snd s)))"
  by pat_completeness auto
termination
proof (relation "measure (\<lambda>(data, n, s). n - fst s)", simp)
  fix data n s t
  assume "fst s < n" and "encode_turn data n s = Some t"
  then have "fst s < fst t"
    by (auto simp: encode_turn_def octet_def Let_def split: prod.splits if_splits bind_splits option.splits)
  then show "((data, n, t), (data, n, s)) \<in> measure (\<lambda>(data, n, s). n - fst s)"
    using \<open>fst s < n\<close> by simp
qed

declare encode_loop.simps [simp del]

definition base64_length :: "u32 \<Rightarrow> u32" where
  "base64_length inputLength = 4 * ((inputLength + 2) div 3)"

definition aliyun_iot_common_base64encode ::
  "u8 list \<Rightarrow> u32 \<Rightarrow> u32 \<Rightarrow> u8 list \<Rightarrow> (iot_return \<times> u32 \<times> u8 list) option" where
  "aliyun_iot_common_base64encode data inputLength outputLenMax encodedData =
     (let outputLength = base64_length inputLength in
      if outputLenMax < outputLength then Some (FAIL_RETURN, outputLength, encodedData)
      else do {
        out \<leftarrow> encode_loop data (unat inputLength) (0, 0, encodedData);
        out \<leftarrow> for_range 0 (g_modTable ! unat (inputLength mod 3))
                 (\<lambda>i out. st out (unat (outputLength - 1 - of_nat i)) 0x3D) out;
        Some (SUCCESS_RETURN, outputLength, out)
      })"

section \<open>Decoding\<close>

definition sextet :: "u8 list \<Rightarrow> nat \<Rightarrow> u32 option" where
  "sextet data i = map_option (\<lambda>b. if b = 0x3D then 0 else ucast (g_decodingTable ! unat b)) (ld data i)"

definition put_octet :: "u32 \<Rightarrow> u32 \<Rightarrow> nat \<times> u8 list \<Rightarrow> (nat \<times> u8 list) option" where
  "put_octet outputLength v = (\<lambda>(j, out).
     if j < unat outputLength then map_option (\<lambda>out. (j + 1, out)) (st out j (ucast (v AND 0xFF))) else Some (j, out))"

definition decode_turn :: "u8 list \<Rightarrow> u32 \<Rightarrow> nat \<Rightarrow> nat \<times> u8 list \<Rightarrow> (nat \<times> u8 list) option" where
  "decode_turn data outputLength i s = do {
     sextet_a \<leftarrow> sextet data i;
     sextet_b \<leftarrow> sextet data (i + 1);
     sextet_c \<leftarrow> sextet data (i + 2);
     sextet_d \<leftarrow> sextet data (i + 3);
     let triple = push_bit 18 sextet_a + push_bit 12 sextet_b + push_bit 6 sextet_c + sextet_d;
     s \<leftarrow> put_octet outputLength (drop_bit 16 triple) s;
     s \<leftarrow> put_octet outputLength (drop_bit 8 triple) s;
     put_octet outputLength triple s
   }"

function decode_loop :: "u8 list \<Rightarrow> nat \<Rightarrow> u32 \<Rightarrow> nat \<Rightarrow> nat \<times> u8 list \<Rightarrow> (nat \<times> u8 list) option" where
  "decode_loop data n outputLength i s =
     (if i < n then decode_turn data outputLength i s \<bind> decode_loop data n outputLength (i + 4) else Some s)"
  by pat_completeness auto
termination by (relation "measure (\<lambda>(data, n, outputLength, i, s). n - i)") simp_all

declare decode_loop.simps [simp del]

text \<open>\<open>outputLength\<close> is what the caller's variable holds: it is set only when the length is a multiple of 4.\<close>

definition aliyun_iot_common_base64decode ::
  "u8 list \<Rightarrow> u32 \<Rightarrow> u32 \<Rightarrow> u8 list \<Rightarrow> u32 \<Rightarrow> (iot_return \<times> u32 \<times> u8 list) option" where
  "aliyun_iot_common_base64decode data inputLength outputLenMax decodedData outputLength =
     (if inputLength mod 4 \<noteq> 0 then Some (FAIL_RETURN, outputLength, decodedData)
      else do {
        let outputLength = inputLength div 4 * 3;
        b \<leftarrow> ld data (unat (inputLength - 1));
        let outputLength = (if b = 0x3D then outputLength - 1 else outputLength);
        b \<leftarrow> ld data (unat (inputLength - 2));
        let outputLength = (if b = 0x3D then outputLength - 1 else outputLength);
        if outputLenMax < outputLength then Some (FAIL_RETURN, outputLength, decodedData)
        else do {
          (j, out) \<leftarrow> decode_loop data (unat inputLength) outputLength 0 (0, decodedData);
          Some (SUCCESS_RETURN, outputLength, out)
        }
      })"

section \<open>The code of RFC 4648\<close>

text \<open>
  The reference: 24 bits as four numbers of 6 bits, most significant first, each a character of
  the alphabet; a last group of one or two bytes ends in pad characters.
\<close>

definition b64_char :: "nat \<Rightarrow> u8" where
  "b64_char v = g_encodingTable ! v"

definition b64_quad :: "nat \<Rightarrow> u8 list" where
  "b64_quad t = [b64_char (t div 262144 mod 64), b64_char (t div 4096 mod 64), b64_char (t div 64 mod 64), b64_char (t mod 64)]"

definition triple24 :: "u8 \<Rightarrow> u8 \<Rightarrow> u8 \<Rightarrow> nat" where
  "triple24 a b c = unat a * 65536 + unat b * 256 + unat c"

fun base64 :: "u8 list \<Rightarrow> u8 list" where
  "base64 [] = []"
| "base64 [a] = take 2 (b64_quad (triple24 a 0 0)) @ [0x3D, 0x3D]"
| "base64 [a, b] = take 3 (b64_quad (triple24 a b 0)) @ [0x3D]"
| "base64 (a # b # c # xs) = b64_quad (triple24 a b c) @ base64 xs"

text \<open>What the loop writes before the pad characters.\<close>

fun raw64 :: "u8 list \<Rightarrow> u8 list" where
  "raw64 [] = []"
| "raw64 [a] = b64_quad (triple24 a 0 0)"
| "raw64 [a, b] = b64_quad (triple24 a b 0)"
| "raw64 (a # b # c # xs) = b64_quad (triple24 a b c) @ raw64 xs"

definition pads :: "nat \<Rightarrow> nat" where
  "pads n = g_modTable ! (n mod 3)"

lemma length_b64_quad [simp]: "length (b64_quad t) = 4"
  by (simp add: b64_quad_def)

lemma length_raw64: "length (raw64 xs) = 4 * ((length xs + 2) div 3)"
proof (induction xs rule: raw64.induct)
  case (4 a b c xs)
  have "(length (a # b # c # xs) + 2) div 3 = Suc ((length xs + 2) div 3)" by simp
  with 4 show ?case by simp
qed simp_all

lemma length_base64: "length (base64 xs) = 4 * ((length xs + 2) div 3)"
proof (induction xs rule: base64.induct)
  case (4 a b c xs)
  have "(length (a # b # c # xs) + 2) div 3 = Suc ((length xs + 2) div 3)" by simp
  with 4 show ?case by simp
qed simp_all

lemma pads_simps [simp]: "pads 0 = 0" "pads (Suc 0) = 2" "pads (Suc (Suc 0)) = 1" "pads (Suc (Suc (Suc n))) = pads n"
proof -
  have "Suc (Suc (Suc n)) mod 3 = n mod 3" by presburger
  then show "pads (Suc (Suc (Suc n))) = pads n" by (simp add: pads_def)
qed (simp_all add: pads_def g_modTable_def)

lemma pads_le: "pads (length xs) \<le> length (raw64 xs)"
proof (cases "xs = []")
  case False
  have "\<forall>k < 3. g_modTable ! k \<le> 2" by (simp add: g_modTable_def numeral_3_eq_3 All_less_Suc)
  then have "pads (length xs) \<le> 2" by (simp add: pads_def)
  moreover have "1 \<le> (length xs + 2) div 3" using False by (cases xs) simp_all
  ultimately show ?thesis by (simp add: length_raw64)
qed simp

lemma base64_raw64: "base64 xs = take (length (raw64 xs) - pads (length xs)) (raw64 xs) @ replicate (pads (length xs)) 0x3D"
proof (induction xs rule: base64.induct)
  case (4 a b c xs)
  with pads_le[of xs] show ?case by (simp add: Nat.add_diff_assoc)
qed (simp_all add: numeral_2_eq_2)

section \<open>Writing a buffer from its start\<close>

definition buf_with :: "'a list \<Rightarrow> 'a list \<Rightarrow> 'a list" where
  "buf_with buf w = w @ drop (length w) buf"

lemma st_buf_with:
  "length w < length buf \<Longrightarrow> st (buf_with buf w) (length w) v = Some (buf_with buf (w @ [v]))"
  by (simp add: buf_with_def st_def list_update_append drop_update_swap flip: Cons_nth_drop_Suc)

lemma st_buf_with4:
  assumes "length w + 4 \<le> length buf"
  shows "do {
      out \<leftarrow> st (buf_with buf w) (length w) p;
      out \<leftarrow> st out (length w + 1) q;
      out \<leftarrow> st out (length w + 2) r;
      out \<leftarrow> st out (length w + 3) s;
      f out } = f (buf_with buf (w @ [p, q, r, s]))"
  using assms st_buf_with[of w buf p] st_buf_with[of "w @ [p]" buf q] st_buf_with[of "w @ [p, q]" buf r]
    st_buf_with[of "w @ [p, q, r]" buf s]
  by (simp add: numeral_eq_Suc)

lemma unat_triple:
  fixes a b c :: u32
  assumes "unat a < 256" "unat b < 256" "unat c < 256"
  shows "unat (push_bit 0x10 a + push_bit 0x08 b + c) = unat a * 65536 + unat b * 256 + unat c"
  using assms by (simp add: push_bit_eq_mult unat_word_ariths)

lemma unat_sextet: "unat (drop_bit k t AND 0x3F :: u32) = unat t div 2 ^ k mod 64"
proof -
  have "drop_bit k t AND 0x3F = take_bit 6 (drop_bit k t)"
    by (simp add: take_bit_eq_mask mask_eq_decr_exp)
  moreover have "unat (take_bit 6 (drop_bit k t)) = take_bit 6 (drop_bit k (unat t))"
    using unsigned_less[of t, where 'a = nat]
    by (simp only: unsigned_take_bit_eq unsigned_drop_bit_eq take_bit_nat_eq_self)
  ultimately show ?thesis by (simp add: take_bit_eq_mod[where 'a = nat] drop_bit_eq_div[where 'a = nat])
qed

lemma octet_split:
  "octet (pre @ xs @ post) (length pre + length xs) (length pre) =
   Some (case xs of [] \<Rightarrow> (0, length pre) | x # xs \<Rightarrow> (ucast x, length pre + 1))"
  by (simp add: octet_def ld_def nth_append split: list.splits)

lemma unat_ucast_u8 [simp]: "unat (ucast (a :: u8) :: u32) = unat a"
  using unat_u8_less[of a] by (simp add: unsigned_ucast_eq take_bit_nat_eq_self)

lemma encode_turn_quad:
  assumes "octet data n i = Some (ucast a, i1)" "octet data n i1 = Some (ucast b, i2)"
    and "octet data n i2 = Some (ucast c, i3)" and "length w + 4 \<le> length buf"
  shows "encode_turn data n (i, length w, buf_with buf w) =
         Some (i3, length w + 4, buf_with buf (w @ b64_quad (triple24 a b c)))"
proof -
  let ?t = "push_bit 0x10 (ucast a) + push_bit 0x08 (ucast b) + ucast c :: u32"
  have t: "unat ?t = triple24 a b c"
    by (subst unat_triple) (simp_all add: triple24_def unat_u8_less)
  have "?t AND 0x3F = drop_bit 0 ?t AND 0x3F" by simp
  then have last: "unat (?t AND 0x3F) = triple24 a b c mod 64"
    by (simp only: unat_sextet t) simp
  show ?thesis
    by (simp only: encode_turn_def assms Let_def split bind.bind_lunit st_buf_with4 unat_sextet t last)
       (simp add: b64_quad_def b64_char_def)
qed

lemma encode_loop_raw64:
  assumes "length w + length (raw64 xs) \<le> length buf"
  shows "encode_loop (pre @ xs @ post) (length pre + length xs) (length pre, length w, buf_with buf w) =
         Some (buf_with buf (w @ raw64 xs))"
  using assms
proof (induction xs arbitrary: pre w rule: raw64.induct)
  case 1
  then show ?case by (simp add: encode_loop.simps)
next
  case (2 a)
  show ?case using 2 octet_split[of pre "[a]" post] octet_split[of "pre @ [a]" "[]" post]
    by (subst encode_loop.simps) (simp add: encode_turn_quad[where a = a and b = 0 and c = 0] encode_loop.simps)
next
  case (3 a b)
  show ?case using 3 octet_split[of pre "[a, b]" post] octet_split[of "pre @ [a]" "[b]" post] octet_split[of "pre @ [a, b]" "[]" post]
    by (subst encode_loop.simps) (simp add: encode_turn_quad[where a = a and b = b and c = 0] encode_loop.simps)
next
  case (4 a b c xs)
  show ?case
    using 4(2) 4(1)[of "w @ b64_quad (triple24 a b c)" "pre @ [a, b, c]"] octet_split[of pre "a # b # c # xs" post] octet_split[of "pre @ [a]" "b # c # xs" post] octet_split[of "pre @ [a, b]" "c # xs" post]
    by (subst encode_loop.simps) (simp add: encode_turn_quad[where a = a and b = b and c = c])
qed

lemma unat_base64_length:
  assumes "n < 2 ^ 31"
  shows "unat (base64_length (of_nat n)) = 4 * ((n + 2) div 3)"
  using assms by (simp add: base64_length_def unat_word_ariths unat_div_distrib)

lemma pads_cases: "pads n = 0 \<or> pads n = 1 \<or> pads n = 2"
proof -
  have "\<forall>k < 3. g_modTable ! k = 0 \<or> g_modTable ! k = 1 \<or> g_modTable ! k = 2"
    by (simp add: g_modTable_def numeral_3_eq_3 All_less_Suc)
  then show ?thesis by (simp add: pads_def)
qed

lemma encoded:
  assumes "length xs < 2 ^ 31" and "length (base64 xs) \<le> unat outputLenMax" and "length (base64 xs) \<le> length buf"
  shows "aliyun_iot_common_base64encode (xs @ post) (of_nat (length xs)) outputLenMax buf =
         Some (SUCCESS_RETURN, of_nat (length (base64 xs)), buf_with buf (base64 xs))"
proof -
  let ?L = "base64_length (of_nat (length xs))"
  let ?m = "length (raw64 xs)"
  have L: "unat ?L = ?m" using unat_base64_length[OF assms(1)] by (simp add: length_raw64)
  have len: "length (base64 xs) = ?m" by (simp add: length_raw64 length_base64)
  have "?L = of_nat (unat ?L)" by simp
  then have L': "?L = of_nat (length (base64 xs))" by (simp only: L len)
  have loop: "encode_loop (xs @ post) (length xs) (0, 0, buf) = Some (buf_with buf (raw64 xs))"
    using encode_loop_raw64[of "[]" xs buf "[]" post] assms(3) len by (simp add: buf_with_def)
  have n: "unat (of_nat (length xs) :: u32) = length xs" using assms(1) by simp
  have "unat (of_nat (length xs) mod 3 :: u32) = length xs mod 3"
    using n by (simp add: unat_mod_distrib)
  then have pad: "g_modTable ! unat (of_nat (length xs) mod 3 :: u32) = pads (length xs)"
    by (simp add: pads_def)
  have at: "unat (?L - 1 - of_nat i) = ?m - 1 - i" if "i < ?m" for i
  proof -
    have "?L - 1 - of_nat i = of_nat (?m - 1 - i)" using that L' len by (simp add: of_nat_diff)
    moreover have "?m - 1 - i < 2 ^ 32" using L unsigned_less[of ?L, where 'a = nat] by simp
    ultimately show ?thesis by simp
  qed
  have st: "st (buf_with buf ys) i v = Some (buf_with buf (ys[i := v]))" if "i < length ys" "length ys \<le> length buf" for ys i v
    using that by (simp add: buf_with_def st_def list_update_append)
  have "for_range 0 (pads (length xs)) (\<lambda>i out. st out (unat (?L - 1 - of_nat i)) 0x3D) (buf_with buf (raw64 xs)) =
        Some (buf_with buf (base64 xs))"
  proof -
    consider "pads (length xs) = 0" | "pads (length xs) = 1" "1 < ?m" | "pads (length xs) = 2" "1 < ?m"
      using pads_cases[of "length xs"] by (cases "xs = []") (auto simp: length_raw64 neq_Nil_conv)
    then show ?thesis
    proof cases
      case 2
      then show ?thesis using at[of 0] assms(3) len base64_raw64[of xs]
        by (cases "raw64 xs" rule: rev_cases) (simp_all add: st list_update_append)
    next
      case 3
      then obtain ys p q where "raw64 xs = ys @ [p, q]"
        by (cases "raw64 xs" rule: rev_cases; simp; case_tac ys rule: rev_cases; simp)
      with 3 show ?thesis using at[of 0] at[of 1] assms(3) len base64_raw64[of xs]
        by (simp add: for_range_step numeral_2_eq_2 st list_update_append)
    qed (simp add: base64_raw64)
  qed
  moreover have "\<not> outputLenMax < ?L" using assms(2) L len by (simp add: word_less_nat_alt)
  ultimately show ?thesis
    by (simp only: aliyun_iot_common_base64encode_def Let_def if_False n loop pad bind.bind_lunit L')
qed

section \<open>Decoding what was encoded\<close>

text \<open>The alphabet has no pad character, and the decoding table inverts it.\<close>

lemma fold_updates:
  assumes "distinct (map f is)" and "i \<in> set is" and "\<forall>k \<in> set is. f k < length t"
  shows "fold (\<lambda>k t. t[f k := g k]) is t ! f i = g i"
proof -
  have keep: "fold (\<lambda>k t. t[f k := g k]) ks t ! n = t ! n" if "n \<notin> f ` set ks" for ks n and t :: "'b list"
    using that by (induction ks arbitrary: t) auto
  show ?thesis using assms
  proof (induction "is" arbitrary: t)
    case (Cons k ks)
    then show ?case by (cases "i = k") (auto simp: keep)
  qed simp
qed

lemma alphabet:
  assumes "v < 64"
  shows "b64_char v \<noteq> 0x3D \<and> g_decodingTable ! unat (b64_char v) = of_nat v"
proof -
  have "distinct (map unat g_encodingTable)" by code_simp
  moreover have "length g_encodingTable = 64" by (simp add: g_encodingTable_def)
  ultimately have "distinct (map (\<lambda>i. unat (g_encodingTable ! i)) [0..<64])"
    using map_nth[of g_encodingTable] by (metis (no_types) list.map_comp comp_apply map_eq_conv)
  then have "g_decodingTable ! unat (b64_char v) = of_nat v"
    unfolding g_decodingTable_def b64_char_def
    by (rule fold_updates) (use assms unat_u8_less in auto)
  moreover have "0x3D \<notin> set g_encodingTable" by (simp add: g_encodingTable_def)
  moreover have "b64_char v \<in> set g_encodingTable"
    using assms \<open>length g_encodingTable = 64\<close> by (simp add: b64_char_def)
  ultimately show ?thesis by auto
qed

lemma sextet_char: "ld data i = Some (b64_char v) \<Longrightarrow> v < 64 \<Longrightarrow> sextet data i = Some (of_nat v)"
  using alphabet[of v] by (simp add: sextet_def unsigned_of_nat take_bit_nat_eq_self)

lemma sextet_pad: "ld data i = Some 0x3D \<Longrightarrow> sextet data i = Some (of_nat 0)"
  by (simp add: sextet_def)

lemma ld_four:
  assumes "drop i data = p # q # r # s # ys"
  shows "ld data i = Some p" "ld data (i + 1) = Some q" "ld data (i + 2) = Some r" "ld data (i + 3) = Some s"
  using ld_drop[of i data 0] ld_drop[of i data 1] ld_drop[of i data 2] ld_drop[of i data 3] by (simp_all add: assms ld_def)

text \<open>The decoder's state when it has produced \<open>w\<close>: bytes beyond the announced length are dropped.\<close>

definition decoded_st :: "u32 \<Rightarrow> u8 list \<Rightarrow> u8 list \<Rightarrow> nat \<times> u8 list" where
  "decoded_st n buf w = (min (unat n) (length w), buf_with buf (take (unat n) w))"

lemma put_octet_decoded:
  assumes "unat n \<le> length buf"
  shows "put_octet n v (decoded_st n buf w) = Some (decoded_st n buf (w @ [ucast (v AND 0xFF)]))"
proof (cases "length w < unat n")
  case True
  then show ?thesis using assms by (simp add: put_octet_def decoded_st_def st_buf_with)
qed (simp add: put_octet_def decoded_st_def)

lemma triple_sextets:
  assumes "t < 16777216"
  shows "push_bit 18 (of_nat (t div 262144 mod 64)) + push_bit 12 (of_nat (t div 4096 mod 64)) +
    push_bit 6 (of_nat (t div 64 mod 64)) + of_nat (t mod 64) = (of_nat t :: u32)"
proof -
  have "t div 262144 mod 64 * 262144 + t div 4096 mod 64 * 4096 + t div 64 mod 64 * 64 + t mod 64 = t"
  proof -
    have d: "t div 4096 = t div 64 div 64" "t div 262144 = t div 64 div 64 div 64" by (simp_all flip: div_mult2_eq)
    have "t div 64 div 64 div 64 < 64" using assms unfolding d(2)[symmetric] by (simp add: div_less_iff_less_mult)
    then have "t div 64 div 64 div 64 mod 64 = t div 64 div 64 div 64" by (rule mod_less)
    then show ?thesis
      using mult_div_mod_eq[of 64 t] mult_div_mod_eq[of 64 "t div 64"] mult_div_mod_eq[of 64 "t div 64 div 64"]
      unfolding d by linarith
  qed
  then have "(of_nat (t div 262144 mod 64 * 262144 + t div 4096 mod 64 * 4096 + t div 64 mod 64 * 64 + t mod 64) :: u32) = of_nat t"
    by (rule arg_cong)
  moreover have "push_bit 18 x = x * 262144" "push_bit 12 x = x * 4096" "push_bit 6 x = x * 64" for x :: u32
    by (simp_all add: push_bit_eq_mult)
  ultimately show ?thesis by (simp only: of_nat_add of_nat_mult of_nat_numeral)
qed

lemma octets_of_triple:
  "ucast (drop_bit 16 (of_nat (triple24 a b c) :: u32) AND 0xFF) = a"
  "ucast (drop_bit 8 (of_nat (triple24 a b c) :: u32) AND 0xFF) = b"
  "ucast ((of_nat (triple24 a b c) :: u32) AND 0xFF) = c"
proof -
  have small: "triple24 a b c < 2 ^ 32"
    using unat_u8_less[of a] unat_u8_less[of b] unat_u8_less[of c] by (simp add: triple24_def)
  have u: "unat (ucast (x AND 0xFF) :: u8) = unat x mod 256" for x :: u32
    by (subst and_mask_8, subst unsigned_ucast_eq, subst unsigned_take_bit_eq) (simp add: take_bit_eq_mod)
  have d: "unat (drop_bit k (of_nat (triple24 a b c) :: u32)) = triple24 a b c div 2 ^ k" for k
    using small
    by (subst unsigned_drop_bit_eq, subst unsigned_of_nat) (simp add: drop_bit_eq_div take_bit_nat_eq_self)
  have d8: "unat (drop_bit 8 (of_nat (triple24 a b c) :: u32)) = triple24 a b c div 256"
    and d16: "unat (drop_bit 16 (of_nat (triple24 a b c) :: u32)) = triple24 a b c div 65536"
    by (simp_all add: d)
  have parts: "triple24 a b c div 65536 mod 256 = unat a" "triple24 a b c div 256 mod 256 = unat b" "triple24 a b c mod 256 = unat c"
  proof -
    have c: "(l + k * 256) div 256 = k \<and> (l + k * 256) mod 256 = l" if "l < 256" for k l :: nat
      using that by simp
    have t: "triple24 a b c = unat c + (unat b + unat a * 256) * 256" by (simp add: triple24_def)
    have "triple24 a b c div 65536 = triple24 a b c div 256 div 256" by (simp flip: div_mult2_eq)
    then show "triple24 a b c div 65536 mod 256 = unat a" "triple24 a b c div 256 mod 256 = unat b" "triple24 a b c mod 256 = unat c"
      using c[OF unat_u8_less[of c]] c[OF unat_u8_less[of b]] unat_u8_less[of a] by (simp_all only: t mod_less)
  qed
  show "ucast (drop_bit 16 (of_nat (triple24 a b c) :: u32) AND 0xFF) = a"
    "ucast (drop_bit 8 (of_nat (triple24 a b c) :: u32) AND 0xFF) = b"
    "ucast ((of_nat (triple24 a b c) :: u32) AND 0xFF) = c"
    using parts small
    by (auto intro!: unsigned_word_eqI[where 'a = nat] simp only: u d8 d16 unat_of_nat_u32)
qed

lemma decode_turn_quad:
  assumes "sextet data i = Some (of_nat (triple24 a b c div 262144 mod 64))"
    and "sextet data (i + 1) = Some (of_nat (triple24 a b c div 4096 mod 64))"
    and "sextet data (i + 2) = Some (of_nat (triple24 a b c div 64 mod 64))"
    and "sextet data (i + 3) = Some (of_nat (triple24 a b c mod 64))"
    and "unat n \<le> length buf"
  shows "decode_turn data n i (decoded_st n buf w) = Some (decoded_st n buf (w @ [a, b, c]))"
proof -
  have "triple24 a b c < 16777216"
    using unat_u8_less[of a] unat_u8_less[of b] unat_u8_less[of c] by (simp add: triple24_def)
  from triple_sextets[OF this] show ?thesis
    by (simp only: decode_turn_def assms(1-4) bind.bind_lunit Let_def put_octet_decoded[OF assms(5)] octets_of_triple append.assoc append.simps)
qed


lemma base64_quads:
  "base64 [a] = [b64_char (triple24 a 0 0 div 262144 mod 64), b64_char (triple24 a 0 0 div 4096 mod 64), 0x3D, 0x3D]"
  "base64 [a, b] = [b64_char (triple24 a b 0 div 262144 mod 64), b64_char (triple24 a b 0 div 4096 mod 64),
     b64_char (triple24 a b 0 div 64 mod 64), 0x3D]"
  by (simp_all add: b64_quad_def)

lemma padded_triples:
  "triple24 a 0 0 div 64 mod 64 = 0" "triple24 a 0 0 mod 64 = 0" "triple24 a b 0 mod 64 = 0"
proof -
  have "triple24 a 0 0 = unat a * 1024 * 64" "triple24 a b 0 = (unat a * 1024 + unat b * 4) * 64"
    by (simp_all add: triple24_def)
  moreover have "unat a * 1024 = unat a * 16 * 64" by simp
  ultimately show "triple24 a 0 0 div 64 mod 64 = 0" "triple24 a 0 0 mod 64 = 0" "triple24 a b 0 mod 64 = 0"
    by (simp_all only: nonzero_mult_div_cancel_right mod_mult_self2_is_0)
qed

lemma decode_loop_base64:
  assumes "drop i data = base64 xs @ post" and "unat n \<le> length buf"
  shows "decode_loop data (i + length (base64 xs)) n i (decoded_st n buf w) =
         Some (decoded_st n buf (w @ xs @ replicate (pads (length xs)) 0))"
  using assms(1)
proof (induction xs arbitrary: i w rule: base64.induct)
  case 1
  then show ?case by (simp add: decode_loop.simps)
next
  case (2 a)
  note ld = ld_four[OF 2[unfolded base64_quads append.simps]]
  have "decode_turn data n i (decoded_st n buf w) = Some (decoded_st n buf (w @ [a, 0, 0]))"
    by (rule decode_turn_quad) (simp_all add: ld ld[simplified] sextet_char sextet_pad padded_triples assms(2))
  then show ?case by (subst decode_loop.simps) (simp add: base64_quads decode_loop.simps numeral_2_eq_2)
next
  case (3 a b)
  note ld = ld_four[OF 3[unfolded base64_quads append.simps]]
  have "decode_turn data n i (decoded_st n buf w) = Some (decoded_st n buf (w @ [a, b, 0]))"
    by (rule decode_turn_quad) (simp_all add: ld ld[simplified] sextet_char sextet_pad padded_triples assms(2))
  then show ?case by (subst decode_loop.simps) (simp add: base64_quads decode_loop.simps)
next
  case (4 a b c xs)
  note ld = ld_four[OF 4(2)[unfolded base64.simps b64_quad_def append.simps]]
  have "decode_turn data n i (decoded_st n buf w) = Some (decoded_st n buf (w @ [a, b, c]))"
    by (rule decode_turn_quad) (simp_all add: ld ld[simplified] sextet_char assms(2))
  moreover have "drop (i + 4) data = drop 4 (drop i data)" by (simp add: add.commute)
  then have "drop (i + 4) data = base64 xs @ post" by (simp add: 4(2) b64_quad_def)
  from 4(1)[OF this, of "w @ [a, b, c]"]
  have "decode_loop data (i + length (base64 (a # b # c # xs))) n (i + 4) (decoded_st n buf (w @ [a, b, c])) =
    Some (decoded_st n buf (w @ (a # b # c # xs) @ replicate (pads (length (a # b # c # xs))) 0))"
    by (simp add: add.assoc)
  ultimately show ?case by (subst decode_loop.simps) simp
qed


lemma decoded_zero: "buf_with buf [] = buf" "decoded_st n buf [] = (0, buf)"
  by (simp_all add: buf_with_def decoded_st_def)

text \<open>
  Reading the last characters: as many are pad characters as the last group lacks bytes.
\<close>

lemma alphabet_not_pad: "b64_char (v mod 64) \<noteq> 0x3D"
  using alphabet[of "v mod 64"] by simp

lemma last_characters:
  assumes "xs \<noteq> []"
  shows "2 \<le> length (base64 xs)"
    "(base64 xs ! (length (base64 xs) - 1) = 0x3D) = (pads (length xs) \<noteq> 0)"
    "(base64 xs ! (length (base64 xs) - 2) = 0x3D) = (pads (length xs) = 2)"
  using assms
proof (induction xs rule: base64.induct)
  case (4 a b c xs)
  {
    case 1 then show ?case by simp
  next
    case 2
    show ?case
    proof (cases "xs = []")
      case True
      then show ?thesis using alphabet_not_pad by (simp add: b64_quad_def)
    next
      case False
      then have "base64 xs \<noteq> []" using 4(1) by auto
      with False 4 show ?thesis by (simp add: nth_append)
    qed
  next
    case 3
    show ?case
    proof (cases "xs = []")
      case True
      then show ?thesis using alphabet_not_pad by (simp add: b64_quad_def)
    next
      case False
      then have "base64 xs \<noteq> []" using 4(1) by auto
      with False 4 show ?thesis by (simp add: nth_append)
    qed
  }
qed (use alphabet_not_pad in \<open>simp_all add: b64_quad_def numeral_2_eq_2\<close>)

lemma length_pads: "length (xs :: u8 list) + pads (length xs) = 3 * ((length xs + 2) div 3)"
proof (induction xs rule: base64.induct)
  case (4 a b c xs)
  have "(length (a # b # c # xs) + 2) div 3 = Suc ((length xs + 2) div 3)" by simp
  with 4 show ?case by simp
qed simp_all

lemma decoded:
  assumes "xs \<noteq> []" and "length xs < 2 ^ 31" and "length xs \<le> unat outputLenMax" and "length xs \<le> length buf"
  shows "aliyun_iot_common_base64decode (base64 xs @ post) (of_nat (length (base64 xs))) outputLenMax buf old =
         Some (SUCCESS_RETURN, of_nat (length xs), buf_with buf xs)"
proof -
  let ?n = "length (base64 xs)" and ?p = "pads (length xs)" and ?q = "(length xs + 2) div 3"
  let ?w = "of_nat ?n :: u32"
  have n: "?n = 4 * ?q" "?q < 2 ^ 30" using assms(2) by (simp_all add: length_base64)
  have two: "2 \<le> ?n" by (rule last_characters(1)[OF assms(1)])
  then have less: "?n - Suc 0 < ?n" "?n - 2 < ?n" by linarith+
  have last: "2 \<le> ?n" "ld (base64 xs @ post) (?n - 1) = Some (base64 xs ! (?n - 1))"
    "ld (base64 xs @ post) (?n - 2) = Some (base64 xs ! (?n - 2))"
    using two less by (simp_all add: ld_def nth_append)
  have "?n < 2 ^ 32" using n by simp
  then have w: "unat ?w = ?n" by (rule unat_of_nat_u32)
  have "unat (?w mod 4) = 0" using w n(1) by (simp add: unat_mod_distrib)
  then have mod: "?w mod 4 = 0" by (simp add: unat_eq_0)
  have "unat (?w div 4) = ?q" using w n(1) by (simp add: unat_div_distrib)
  then have div: "?w div 4 = of_nat ?q" 
    using unat_of_nat_u32[of ?q] n(2) by (intro unsigned_word_eqI[where 'a = nat]) simp
  have at: "unat (?w - 1) = ?n - 1" "unat (?w - 2) = ?n - 2"
  proof -
    have "?w - 1 = of_nat (?n - 1)" "?w - 2 = of_nat (?n - 2)" using last(1) by (simp_all add: of_nat_diff)
    then show "unat (?w - 1) = ?n - 1" "unat (?w - 2) = ?n - 2" using n by (simp_all only:) simp_all
  qed
  define L :: u32 where "L = of_nat ?q * 3"
  have div3: "?w div 4 * 3 = L" by (simp only: div L_def)
  have L: "(let l = if base64 xs ! (?n - 1) = 0x3D then L - 1 else L in
      if base64 xs ! (?n - 2) = 0x3D then l - 1 else l) = of_nat (length xs)"
  proof -
    have "L = of_nat (length xs + ?p)" unfolding length_pads L_def by simp
    then have "L - of_nat ?p = of_nat (length xs)" by simp
    moreover have "?p = 0 \<or> ?p = 1 \<or> ?p = 2" by (rule pads_cases)
    ultimately show ?thesis using last_characters(2,3)[OF assms(1)] by (auto simp: Let_def)
  qed
  have len: "unat (of_nat (length xs) :: u32) = length xs" using assms(2) by simp
  have "decode_loop (base64 xs @ post) ?n (of_nat (length xs)) 0 (0, buf) =
      Some (decoded_st (of_nat (length xs)) buf (xs @ replicate ?p 0))"
    using decode_loop_base64[of 0 "base64 xs @ post" xs post "of_nat (length xs)" buf "[]"] assms(4) len by (simp add: decoded_zero)
  then have loop: "decode_loop (base64 xs @ post) ?n (of_nat (length xs)) 0 (0, buf) = Some (length xs, buf_with buf xs)"
    using len by (simp add: decoded_st_def)
  have max: "\<not> outputLenMax < of_nat (length xs)" using assms(3) len by (simp add: word_less_nat_alt)
  show ?thesis
    using L loop max
    by (auto simp: aliyun_iot_common_base64decode_def mod div3 at[unfolded One_nat_def] last[unfolded One_nat_def] w Let_def)
qed

end
