(* ===== verification/Crypto.thy ===== *)
theory Crypto
  imports I2c Crc Digest_spec Aes Base64 "HOL-Library.Signed_Division"
begin

text \<open>
  The Lua module \<^verbatim>\<open>crypto\<close>, \<^verbatim>\<open>lib/crypto/src/crypto.c\<close>. Every function takes its data as a string
  and, as a number of its own, how many bytes of it to use; the number is not compared with the
  string. A string argument is the memory of its bytes and the zero byte Lua keeps behind them;
  reading past that is undefined and \<open>None\<close>. \<open>stk\<close> is what the Lua buffer on the C stack
  held, \<^verbatim>\<open>LUAL_BUFFERSIZE\<close> bytes. Memory requests are granted.
\<close>

section \<open>Base64\<close>

text \<open>
  The result of a conversion is taken from an allocated buffer when it may not fit the buffer on
  the stack; the limit handed to the conversion differs accordingly.
\<close>

definition conv_result :: "(iot_return \<times> u32 \<times> u8 list) option \<Rightarrow> u8 list lua option" where
  "conv_result r = do {
     (code, n, out) \<leftarrow> r;
     map_option Lua_return (mem_bytes out (uint n))
   }"


definition l_crypto_base64_decode :: "u8 list \<Rightarrow> lua_arg list \<Rightarrow> u8 list lua option" where
  "l_crypto_base64_decode stk args =
     lua_then (luaL_checkstring args 0) (\<lambda>inputData.
     lua_then (luaL_checkinteger args 1) (\<lambda>inputLen.
       let outputLenMax = (word_of_int (sint (inputLen * 3) sdiv 4 + 1) :: u32) in
       if length stk < unat outputLenMax
       then conv_result (aliyun_iot_common_base64decode inputData inputLen outputLenMax (replicate (unat outputLenMax + 1) 0) 0)
       else conv_result (aliyun_iot_common_base64decode inputData inputLen (of_nat (length stk)) stk 0)))"

section \<open>Digests\<close>

text \<open>The digits are written into the cleared buffer and counted by \<^verbatim>\<open>strlen\<close>.\<close>

definition digest_result :: "u8 list \<Rightarrow> u8 list option \<Rightarrow> u8 list lua option" where
  "digest_result stk r = do {
     ds \<leftarrow> r;
     (if length ds < length stk
      then Some (Lua_return (takeWhile (\<lambda>c. c \<noteq> 0) (memcpy_at (replicate (length stk) 0) 0 ds)))
      else None)
   }"

definition l_crypto_md5 :: "u8 list \<Rightarrow> lua_arg list \<Rightarrow> u8 list lua option" where
  "l_crypto_md5 stk args =
     lua_then (luaL_checkstring args 0) (\<lambda>inputData.
     lua_then (luaL_checkinteger args 1) (\<lambda>inputLen.
       digest_result stk (aliyun_iot_common_md5 inputData (sint inputLen))))"

definition l_crypto_sha1 :: "u8 list \<Rightarrow> lua_arg list \<Rightarrow> u8 list lua option" where
  "l_crypto_sha1 stk args =
     lua_then (luaL_checkstring args 0) (\<lambda>inputData.
     lua_then (luaL_checkinteger args 1) (\<lambda>inputLen.
       digest_result stk (aliyun_iot_common_sha1 inputData (sint inputLen))))"

definition l_crypto_hmac_md5 :: "u8 list \<Rightarrow> lua_arg list \<Rightarrow> u8 list lua option" where
  "l_crypto_hmac_md5 stk args =
     lua_then (luaL_checkstring args 0) (\<lambda>inputData.
     lua_then (luaL_checkinteger args 1) (\<lambda>inputLen.
     lua_then (luaL_checkstring args 2) (\<lambda>signKey.
     lua_then (luaL_checkinteger args 3) (\<lambda>signKeyLen.
       digest_result stk (aliyun_iot_common_hmac_md5 inputData (sint inputLen) signKey (sint signKeyLen))))))"

definition l_crypto_hmac_sha1 :: "u8 list \<Rightarrow> lua_arg list \<Rightarrow> u8 list lua option" where
  "l_crypto_hmac_sha1 stk args =
     lua_then (luaL_checkstring args 0) (\<lambda>inputData.
     lua_then (luaL_checkinteger args 1) (\<lambda>inputLen.
     lua_then (luaL_checkstring args 2) (\<lambda>signKey.
     lua_then (luaL_checkinteger args 3) (\<lambda>signKeyLen.
       digest_result stk (aliyun_iot_common_hmac_sha1 inputData (sint inputLen) signKey (sint signKeyLen))))))"

section \<open>Checksums\<close>

definition l_crypto_crc16_modbus :: "lua_arg list \<Rightarrow> u32 lua option" where
  "l_crypto_crc16_modbus args =
     lua_then (luaL_checkstring args 0) (\<lambda>inputData.
     lua_then (luaL_checkinteger args 1) (\<lambda>inputLen.
       map_option (\<lambda>c. Lua_return (ucast c)) (calcCRC16 inputData inputLen)))"

definition l_crypto_crc32 :: "lua_arg list \<Rightarrow> u32 lua option" where
  "l_crypto_crc32 args =
     lua_then (luaL_checkstring args 0) (\<lambda>inputData.
     lua_then (luaL_checkinteger args 1) (\<lambda>inputLen.
       map_option Lua_return (calcCRC32 inputData inputLen)))"

definition l_crypto_crc8 :: "lua_arg list \<Rightarrow> u32 lua option" where
  "l_crypto_crc8 args =
     lua_then (luaL_checkstring args 0) (\<lambda>inputData.
     lua_then (luaL_checkinteger args 1) (\<lambda>inputLen.
       map_option (\<lambda>c. Lua_return (ucast c)) (calcCRC8 inputData inputLen)))"

section \<open>AES\<close>

text \<open>
  The loop over blocks of 16 bytes; the last one is filled up with zero bytes. \<open>rmnLen\<close> is
  unsigned. The result is added to the Lua buffer block by block.
\<close>

definition item :: "u8 list \<Rightarrow> u8 list" where
  "item bs = bs @ replicate (17 - length bs) 0"

function ecb_blocks ::
  "(u8 list \<Rightarrow> u8 list \<Rightarrow> u8 list option) \<Rightarrow> u8 list \<Rightarrow> u8 list \<Rightarrow> nat \<Rightarrow> u8 list option" where
  "ecb_blocks f key inputData rmnLen =
     (if 16 < rmnLen then do {
        b \<leftarrow> mem_bytes inputData 16;
        c \<leftarrow> f (item b) key;
        cs \<leftarrow> ecb_blocks f key (drop 16 inputData) (rmnLen - 16);
        Some (c @ cs)
      }
      else if rmnLen \<noteq> 0 then do {
        b \<leftarrow> mem_bytes inputData (int rmnLen);
        f (item b) key
      }
      else Some [])"
  by pat_completeness auto
termination by (relation "measure (\<lambda>(f, key, inputData, rmnLen). rmnLen)") simp_all

declare ecb_blocks.simps [simp del]

definition l_crypto_aes128_ecb_encrypt :: "lua_arg list \<Rightarrow> u8 list lua option" where
  "l_crypto_aes128_ecb_encrypt args =
     lua_then (luaL_checkstring args 0) (\<lambda>inputData.
     lua_then (luaL_checkinteger args 1) (\<lambda>inputLen.
     lua_then (luaL_checkstring args 2) (\<lambda>key.
     lua_then (luaL_checkinteger args 3) (\<lambda>keyLen.
       map_option Lua_return (ecb_blocks AES128_ECB_encrypt key inputData (unat inputLen))))))"

definition l_crypto_aes128_ecb_decrypt :: "lua_arg list \<Rightarrow> u8 list lua option" where
  "l_crypto_aes128_ecb_decrypt args =
     lua_then (luaL_checkstring args 0) (\<lambda>inputData.
     lua_then (luaL_checkinteger args 1) (\<lambda>inputLen.
     lua_then (luaL_checkstring args 2) (\<lambda>key.
     lua_then (luaL_checkinteger args 3) (\<lambda>keyLen.
       map_option Lua_return (ecb_blocks AES128_ECB_decrypt key inputData (unat inputLen))))))"

section \<open>Round trips through Lua\<close>

lemma ecb_block:
  assumes "length b \<le> 16" and "16 \<le> length key"
  shows "AES128_ECB_encrypt (item b) key = Some (Cipher (KeyExpansion key) (b @ replicate (16 - length b) 0))"
    "length b = 16 \<Longrightarrow> AES128_ECB_decrypt (item b) key = Some (InvCipher (KeyExpansion key) b)"
  using assms by (simp_all add: AES128_ECB_encrypt_def AES128_ECB_decrypt_def item_def)

lemma mem_bytes_prefix: "mem_bytes (xs @ ys) (int (length xs)) = Some xs"
  by (simp add: mem_bytes_def)

lemma mem_bytes_16: "length b = 16 \<Longrightarrow> mem_bytes (b @ ys) 16 = Some b"
  by (simp add: mem_bytes_def)

lemma ecb_blocks_undone:
  assumes "16 \<le> length key"
  shows "\<exists>c. ecb_blocks AES128_ECB_encrypt key (data @ post) (length data) = Some c \<and>
    length c = 16 * ((length data + 15) div 16) \<and>
    (\<forall>post'. ecb_blocks AES128_ECB_decrypt key (c @ post') (length c) =
       Some (data @ replicate (length c - length data) 0))"
proof (induction "length data" arbitrary: data rule: less_induct)
  case less
  consider "data = []" | "data \<noteq> []" "length data \<le> 16" | "16 < length data" by fastforce
  then show ?case
  proof cases
    case 1
    then show ?thesis by (simp add: ecb_blocks.simps)
  next
    case 2
    let ?c = "Cipher (KeyExpansion key) (data @ replicate (16 - length data) 0)"
    have "(length data + 15) div 16 = 1" using 2 by (cases data) (simp_all add: div_nat_eqI)
    moreover have "length ?c = 16" by (rule length_cipher)
    ultimately show ?thesis using 2 assms
      by (intro exI[of _ ?c])
         (simp add: ecb_blocks.simps[of _ key] mem_bytes_prefix mem_bytes_16 ecb_block inv_cipher)
  next
    case 3
    define b d where "b = take 16 data" and "d = drop 16 data"
    have data: "data = b @ d" "length b = 16" "d \<noteq> []" using 3 by (simp_all add: b_def d_def)
    have "length d < length data" using data by simp
    from less[OF this] obtain cs where cs:
      "ecb_blocks AES128_ECB_encrypt key (d @ post) (length d) = Some cs"
      "length cs = 16 * ((length d + 15) div 16)"
      "\<forall>post'. ecb_blocks AES128_ECB_decrypt key (cs @ post') (length cs) = Some (d @ replicate (length cs - length d) 0)"
      by blast
    let ?c = "Cipher (KeyExpansion key) b"
    have len: "length ?c = 16" by (rule length_cipher)
    have "(16 + length d + 15) div 16 = Suc ((length d + 15) div 16)"
      using div_add_self1[of 16 "length d + 15"] by (simp add: add.commute add.left_commute)
    moreover have "1 \<le> (length d + 15) div 16" using data(3) by (cases d) simp_all
    ultimately show ?thesis using cs len data(2,3) assms
      by (intro exI[of _ "?c @ cs"])
         (simp add: data(1) ecb_blocks.simps[of _ key] mem_bytes_16 ecb_block inv_cipher)
  qed
qed

text \<open>
  C34. AES through Lua: what \<^verbatim>\<open>aes128_ecb_encrypt\<close> returns for a string and its length,
  \<^verbatim>\<open>aes128_ecb_decrypt\<close> with the same key turns back into the string, filled up with zero bytes to
  whole blocks; the key has at least the 15 bytes that its memory of 16 needs.
\<close>

theorem aes_ecb_roundtrip:
  assumes "15 \<le> length key" and "length data < 2 ^ 31"
  shows "\<exists>c. l_crypto_aes128_ecb_encrypt [Lua_string data, Lua_number (of_nat (length data)), Lua_string key, Lua_number m] =
        Some (Lua_return c) \<and> length c = 16 * ((length data + 15) div 16) \<and>
      l_crypto_aes128_ecb_decrypt [Lua_string c, Lua_number (of_nat (length c)), Lua_string key, Lua_number n] =
        Some (Lua_return (data @ replicate (length c - length data) 0))"
proof -
  have "16 \<le> length (key @ [0])" using assms(1) by simp
  from ecb_blocks_undone[OF this, of data "[0]"] obtain c where c:
    "ecb_blocks AES128_ECB_encrypt (key @ [0]) (data @ [0]) (length data) = Some c"
    "length c = 16 * ((length data + 15) div 16)"
    "ecb_blocks AES128_ECB_decrypt (key @ [0]) (c @ [0]) (length c) = Some (data @ replicate (length c - length data) 0)"
    by blast
  have "length c < 2 ^ 32" using c(2) assms(2) by (simp add: less_mult_imp_div_less)
  then have "unat (of_nat (length c) :: u32) = length c" by (rule unat_of_nat_u32)
  with c(1,3) assms(2) show ?thesis
    by (intro exI[of _ c] conjI[OF _ conjI[OF c(2)]])
       (simp_all add: l_crypto_aes128_ecb_encrypt_def l_crypto_aes128_ecb_decrypt_def luaL_checkstring_def lua_arg_at_def
         luaL_checkinteger_def)
qed

theorem aes_ecb_roundtrip_witness:
  "\<exists>c. l_crypto_aes128_ecb_encrypt [Lua_string [1, 2, 3], Lua_number 3, Lua_string (replicate 16 7), Lua_number 16] =
      Some (Lua_return c) \<and>
    l_crypto_aes128_ecb_decrypt [Lua_string c, Lua_number (of_nat (length c)), Lua_string (replicate 16 7), Lua_number 16] =
      Some (Lua_return ([1, 2, 3] @ replicate 13 0))"
  using aes_ecb_roundtrip[of "replicate 16 7" "[1, 2, 3]" 16 16] by auto





section \<open>Lengths that are not checked\<close>

text \<open>Decoding an empty text looks at the byte before it.\<close>

lemma base64_decode_empty: "l_crypto_base64_decode stk [Lua_string [], Lua_number 0] = None"
  by (simp add: l_crypto_base64_decode_def lua_arg_at_def luaL_checkstring_def luaL_checkinteger_def
      aliyun_iot_common_base64decode_def ld_def conv_result_def)

text \<open>A length beyond the zero byte of the string reads what lies behind it.\<close>

lemma crypto_length_unchecked:
  assumes "length xs + 1 < n" and "n < 2 ^ 31"
  shows "l_crypto_md5 stk [Lua_string xs, Lua_number (of_nat n)] = None"
    "l_crypto_sha1 stk [Lua_string xs, Lua_number (of_nat n)] = None"
  using assms sint_of_nat[OF assms(2)]
  by (simp_all add: l_crypto_md5_def l_crypto_sha1_def lua_arg_at_def luaL_checkstring_def luaL_checkinteger_def
      aliyun_iot_common_md5_def aliyun_iot_common_sha1_def mem_bytes_def digest_result_def)

text \<open>With a length that is right they return the digits of the digest.\<close>

lemma hex_digits_nonzero: "0 \<notin> set (hex_digits out)"
proof -
  have "\<forall>k \<in> set [0..<16]. aliyun_iot_common_hb2hex (of_nat k) \<noteq> 0"
    by code_simp
  moreover have "aliyun_iot_common_hb2hex h = aliyun_iot_common_hb2hex (of_nat (unat (h AND 0xF)))" for h
    by (simp add: aliyun_iot_common_hb2hex_def)
  moreover have "unat (h AND 0xF) < 16" for h :: u8
  proof -
    have "h AND 0xF = take_bit 4 h" by (simp add: take_bit_eq_mask mask_eq_decr_exp)
    then show ?thesis using unat_take_bit_less[of 4 h] by simp
  qed
  ultimately have "aliyun_iot_common_hb2hex h \<noteq> 0" for h by (metis atLeastLessThan_iff le0 set_upt)
  then show ?thesis by (auto simp: hex_digits_def)
qed

lemma digest_result_digits:
  assumes "length (hex_digits out) < length stk"
  shows "digest_result stk (Some (hex_digits out)) = Some (Lua_return (hex_digits out))"
proof -
  have "takeWhile (\<lambda>c. c \<noteq> 0) (hex_digits out @ 0 # ys) = hex_digits out" for ys
    using hex_digits_nonzero[of out] by (subst takeWhile_append2) auto
  moreover have "drop (length (hex_digits out)) (replicate (length stk) (0 :: u8)) =
      0 # replicate (length stk - length (hex_digits out) - 1) 0"
    using assms by (simp flip: replicate_Suc)
  ultimately show ?thesis using assms by (simp add: digest_result_def memcpy_at_def)
qed

lemma l_crypto_digests:
  assumes "length xs < 2 ^ 31" and "40 < length stk"
  shows "l_crypto_md5 stk [Lua_string xs, Lua_number (of_nat (length xs))] = Some (Lua_return (hex_digits (md5_digest xs)))"
    "l_crypto_sha1 stk [Lua_string xs, Lua_number (of_nat (length xs))] = Some (Lua_return (hex_digits (sha1_digest xs)))"
proof -
  have "length (concat (map put_uint32_le ws)) = 4 * length ws" "length (concat (map put_uint32_be ws)) = 4 * length ws" for ws
    by (induction ws) (simp_all add: put_uint32_le_def put_uint32_be_def)
  then have "length (md5_digest xs) = 16" "length (sha1_digest xs) = 20"
    using md5_blocks[of md5_start] sha1_blocks[of sha1_start]
    by (simp_all add: md5_digest_def sha1_digest_def md5_start_def sha1_start_def)
  moreover have "length (hex_digits out) = 2 * length out" for out
    by (induction out) (simp_all add: hex_digits_def)
  moreover have "aliyun_iot_md5 xs = md5_digest xs" "aliyun_iot_sha1 xs = sha1_digest xs"
    using md5_of_updates[of "hash_zero 4" "[xs]"] sha1_of_updates[of "hash_zero 5" "[xs]"] assms(1)
    by (simp_all add: aliyun_iot_md5_def aliyun_iot_sha1_def hash_zero_def)
  ultimately show
    "l_crypto_md5 stk [Lua_string xs, Lua_number (of_nat (length xs))] = Some (Lua_return (hex_digits (md5_digest xs)))"
    "l_crypto_sha1 stk [Lua_string xs, Lua_number (of_nat (length xs))] = Some (Lua_return (hex_digits (sha1_digest xs)))"
    using assms sint_of_nat[OF assms(1)] digest_result_digits[of "md5_digest xs" stk] digest_result_digits[of "sha1_digest xs" stk]
    by (simp_all add: l_crypto_md5_def l_crypto_sha1_def lua_arg_at_def luaL_checkstring_def luaL_checkinteger_def
        aliyun_iot_common_md5_def aliyun_iot_common_sha1_def mem_bytes_def)
qed

end
