(* ===== verification/Lua_time.thy ===== *)
theory Lua_time
  imports C_Prelude "HOL-Library.Signed_Division"
begin

text \<open>
  Calendar time of the C library, \<^verbatim>\<open>newlib/libc/src/time.c\<close> with \<^verbatim>\<open>ctime.h\<close>. \<^verbatim>\<open>int\<close>, \<^verbatim>\<open>long\<close> and \<^verbatim>\<open>time_t\<close> have 32
  bits; sums and products that the code checks for overflow afterwards wrap. A null pointer is \<open>None\<close>;
  the outer option is undefined behaviour, as everywhere. The structure handed to \<^verbatim>\<open>mktime\<close> is not the
  static one that \<^verbatim>\<open>gmtime\<close> fills.
\<close>

section \<open>Constants and tables\<close>

definition DAY_SEC :: int where "DAY_SEC = 24 * 60 * 60"
definition YEAR_SEC :: int where "YEAR_SEC = 365 * DAY_SEC"
definition FOUR_YEAR_SEC :: int where "FOUR_YEAR_SEC = 1461 * DAY_SEC"
definition BASE_YEAR :: int where "BASE_YEAR = 70"
definition BASE_DOW :: int where "BASE_DOW = 4"
definition LEAP_YEAR_ADJUST :: int where "LEAP_YEAR_ADJUST = 17"
definition MAX_YEAR :: int where "MAX_YEAR = 138"
definition LONG_MAX :: int where "LONG_MAX = 2147483647"

definition lpdays :: "int list" where
  "lpdays = [-1, 30, 59, 90, 120, 151, 181, 212, 243, 273, 304, 334, 365]"

definition days_table :: "int list" where
  "days_table = [-1, 30, 58, 89, 119, 150, 180, 211, 242, 272, 303, 333, 364]"

definition timezone :: int where "timezone = - 8 * 3600"
definition daylight :: int where "daylight = 0"
definition dstbias :: int where "dstbias = -3600"

record tm =
  tm_sec :: int
  tm_min :: int
  tm_hour :: int
  tm_mday :: int
  tm_mon :: int
  tm_year :: int
  tm_wday :: int
  tm_yday :: int
  tm_isdst :: int

definition s32 :: "int \<Rightarrow> int" where
  "s32 x = signed_take_bit 31 x"

definition ChkAdd :: "int \<Rightarrow> int \<Rightarrow> int \<Rightarrow> bool" where
  "ChkAdd dest src1 src2 \<longleftrightarrow> (src1 \<ge> 0 \<and> src2 \<ge> 0 \<and> dest < 0) \<or> (src1 < 0 \<and> src2 < 0 \<and> dest \<ge> 0)"

definition ChkMul :: "int \<Rightarrow> int \<Rightarrow> int \<Rightarrow> bool" where
  "ChkMul dest src1 src2 \<longleftrightarrow> src1 \<noteq> 0 \<and> dest sdiv src1 \<noteq> src2"

section \<open>Seconds to a date\<close>

text \<open>\<^verbatim>\<open>for(tmptim = 1; mdays[tmptim] < tm_yday; tmptim++);\<close>\<close>

function month_search :: "int list \<Rightarrow> int \<Rightarrow> nat \<Rightarrow> nat option" where
  "month_search mdays yday k =
     (if k < length mdays then (if mdays ! k < yday then month_search mdays yday (k + 1) else Some k) else None)"
  by pat_completeness auto
termination by (relation "measure (\<lambda>(mdays, yday, k). length mdays - k)") auto

declare month_search.simps [simp del]

text \<open>The year of a four-year interval and the seconds in it, and whether it is the leap year.\<close>

definition split_years :: "int \<Rightarrow> int \<times> int \<times> bool" where
  "split_years t =
     (let tmptim = t sdiv FOUR_YEAR_SEC;
          caltim = t - tmptim * FOUR_YEAR_SEC;
          tmptim = tmptim * 4 + 70
      in if caltim \<ge> YEAR_SEC then
           (let tmptim = tmptim + 1; caltim = caltim - YEAR_SEC
            in if caltim \<ge> YEAR_SEC then
                 (let tmptim = tmptim + 1; caltim = caltim - YEAR_SEC
                  in if caltim \<ge> YEAR_SEC + DAY_SEC then (tmptim + 1, caltim - (YEAR_SEC + DAY_SEC), False)
                     else (tmptim, caltim, True))
               else (tmptim, caltim, False))
         else (tmptim, caltim, False))"

definition lualibc_gmtime :: "int \<Rightarrow> tm option option" where
  "lualibc_gmtime timp =
     (if timp < 0 then Some None
      else do {
        let (year, caltim, islpyr) = split_years timp;
        let yday = caltim sdiv DAY_SEC;
        let caltim = caltim - yday * DAY_SEC;
        let mdays = (if islpyr then lpdays else days_table);
        k \<leftarrow> month_search mdays yday 1;
        let mon = k - 1;
        d \<leftarrow> ld mdays mon;
        let hour = caltim sdiv 3600;
        let caltim = caltim - hour * 3600;
        let min = caltim sdiv 60;
        Some (Some \<lparr>tm_sec = caltim - min * 60, tm_min = min, tm_hour = hour, tm_mday = yday - d, tm_mon = int mon,
          tm_year = year, tm_wday = (timp sdiv DAY_SEC + BASE_DOW) smod 7, tm_yday = yday, tm_isdst = 0\<rparr>)
      })"

definition isindst :: "tm \<Rightarrow> int" where
  "isindst t = 0"

text \<open>The adjustment of the fields near the ends of the range.\<close>

definition carry_fields :: "tm \<Rightarrow> tm" where
  "carry_fields t =
     (let ltime = (if isindst t \<noteq> 0 then tm_sec t - (timezone + dstbias) else tm_sec t - timezone);
          sec = ltime smod 60;
          (sec, ltime) = (if sec < 0 then (sec + 60, ltime - 60) else (sec, ltime));
          ltime = tm_min t + ltime sdiv 60;
          min = ltime smod 60;
          (min, ltime) = (if min < 0 then (min + 60, ltime - 60) else (min, ltime));
          ltime = tm_hour t + ltime sdiv 60;
          hour = ltime smod 24;
          (hour, ltime) = (if hour < 0 then (hour + 24, ltime - 24) else (hour, ltime));
          ltime = ltime sdiv 24;
          t = t\<lparr>tm_sec := sec, tm_min := min, tm_hour := hour\<rparr>
      in if ltime > 0 then
           t\<lparr>tm_wday := (tm_wday t + ltime) smod 7, tm_mday := tm_mday t + ltime, tm_yday := tm_yday t + ltime\<rparr>
         else if ltime < 0 then
           (let t = t\<lparr>tm_wday := (tm_wday t + 7 + ltime) smod 7, tm_mday := tm_mday t + ltime\<rparr>
            in if tm_mday t \<le> 0
               then t\<lparr>tm_mday := tm_mday t + 31, tm_yday := 364, tm_mon := 11, tm_year := tm_year t - 1\<rparr>
               else t\<lparr>tm_yday := tm_yday t + ltime\<rparr>)
         else t)"

definition lualibc_localtime :: "int \<Rightarrow> tm option option" where
  "lualibc_localtime ptime =
     (if ptime < 0 then Some None
      else if ptime > 3 * DAY_SEC \<and> ptime < LONG_MAX - 3 * DAY_SEC then do {
        let ltime = ptime - timezone;
        p \<leftarrow> lualibc_gmtime ltime;
        t \<leftarrow> p;
        (if daylight \<noteq> 0 \<and> isindst t \<noteq> 0 then do {
           p \<leftarrow> lualibc_gmtime (ltime - dstbias);
           t \<leftarrow> p;
           Some (Some (t\<lparr>tm_isdst := 1\<rparr>))
         }
         else Some p)
      }
      else do {
        p \<leftarrow> lualibc_gmtime ptime;
        t \<leftarrow> p;
        Some (Some (carry_fields t))
      })"

section \<open>A date to seconds\<close>

text \<open>Each step is a sum or product that is checked; a failed check leaves the function.\<close>

definition checked_add :: "int \<Rightarrow> int \<Rightarrow> int option" where
  "checked_add a b = (if ChkAdd (s32 (a + b)) a b then None else Some (s32 (a + b)))"

definition checked_mul :: "int \<Rightarrow> int \<Rightarrow> int option" where
  "checked_mul a b = (if ChkMul (s32 (a * b)) a b then None else Some (s32 (a * b)))"

definition elapsed_seconds :: "int \<Rightarrow> tm \<Rightarrow> int option" where
  "elapsed_seconds tmptm3 t = do {
     dd \<leftarrow> checked_add tmptm3 (tm_mday t);
     h \<leftarrow> checked_mul dd 24;
     h \<leftarrow> checked_add h (tm_hour t);
     m \<leftarrow> checked_mul h 60;
     m \<leftarrow> checked_add m (tm_min t);
     s \<leftarrow> checked_mul m 60;
     checked_add s (tm_sec t)
   }"

text \<open>The year and month with the month in 0 to 11.\<close>

definition year_bad :: "int \<Rightarrow> bool" where
  "year_bad y \<longleftrightarrow> y < BASE_YEAR - 1 \<or> y > MAX_YEAR + 1"

definition carry_month :: "int \<Rightarrow> int \<Rightarrow> int \<times> int" where
  "carry_month y mon =
     (if mon < 0 \<or> mon > 11 then
        (let y = y + mon sdiv 12; mon = mon smod 12
         in if mon < 0 then (y - 1, mon + 12) else (y, mon))
      else (y, mon))"

text \<open>The result and the updated structure: the conversion of the seconds, then the whole function.\<close>

definition finish_time :: "int \<Rightarrow> tm \<Rightarrow> bool \<Rightarrow> (int \<times> tm) option" where
  "finish_time secs t ultflag =
     (if ultflag then do {
        let secs = s32 (secs + timezone);
        p \<leftarrow> lualibc_localtime secs;
        (case p of
           None \<Rightarrow> Some (-1, t)
         | Some tb \<Rightarrow>
             if tm_isdst t > 0 \<or> (tm_isdst t < 0 \<and> tm_isdst tb > 0) then do {
               let secs = s32 (secs + dstbias);
               p \<leftarrow> lualibc_localtime secs;
               tb \<leftarrow> p;
               Some (secs, tb)
             }
             else Some (secs, tb))
      }
      else do {
        p \<leftarrow> lualibc_gmtime secs;
        (case p of None \<Rightarrow> Some (-1, t) | Some tb \<Rightarrow> Some (secs, tb))
      })"

definition make_time_t :: "tm \<Rightarrow> bool \<Rightarrow> (int \<times> tm) option" where
  "make_time_t t ultflag =
     (if year_bad (tm_year t) then Some (-1, t)
      else do {
        let (year, mon) = carry_month (tm_year t) (tm_mon t);
        let t = t\<lparr>tm_mon := mon\<rparr>;
        (if year_bad year then Some (-1, t)
         else do {
           tmptm2 \<leftarrow> ld days_table (nat mon);
           let tmptm2 = (if year AND 3 = 0 \<and> mon > 1 then tmptm2 + 1 else tmptm2);
           let tmptm3 = (year - BASE_YEAR) * 365 + drop_bit 2 (year - 1) - LEAP_YEAR_ADJUST + tmptm2;
           (case elapsed_seconds tmptm3 t of
              None \<Rightarrow> Some (-1, t)
            | Some secs \<Rightarrow> finish_time secs t ultflag)
         })
      })"

definition mkgmtime :: "tm \<Rightarrow> (int \<times> tm) option" where
  "mkgmtime t = make_time_t t False"

definition lualibc_mktime :: "tm \<Rightarrow> (int \<times> tm) option" where
  "lualibc_mktime t = make_time_t t True"

definition lualibc_difftime :: "int \<Rightarrow> int \<Rightarrow> int" where
  "lualibc_difftime time2 time1 = s32 (time2 - time1)"

definition gmtotime_t :: "int \<Rightarrow> int \<Rightarrow> int \<Rightarrow> int \<Rightarrow> int \<Rightarrow> int \<Rightarrow> int option" where
  "gmtotime_t yr mo dy hr mn sc =
     (let yr = yr - 1900 in
      if yr < BASE_YEAR \<or> yr > MAX_YEAR then Some (-1)
      else do {
        d \<leftarrow> (if 1 \<le> mo then ld days_table (nat (mo - 1)) else None);
        let tmpdays = s32 (dy + d);
        let tmpdays = (if yr AND 3 = 0 \<and> mo > 2 then s32 (tmpdays + 1) else tmpdays);
        let tmptim = s32 ((((yr - BASE_YEAR) * 365 + drop_bit 2 (yr - 1) - LEAP_YEAR_ADJUST + tmpdays) * 24 + hr) * 60 + mn);
        let tmptim = s32 (tmptim * 60 + sc);
        let tmptim = s32 (tmptim + timezone);
        Some (if tmptim \<ge> 0 then tmptim else -1)
      })"

section \<open>The Gregorian calendar\<close>

text \<open>The reference: lengths of years and months, and the seconds since the beginning of 1970.\<close>

definition leap_year :: "int \<Rightarrow> bool" where
  "leap_year y \<longleftrightarrow> y mod 4 = 0 \<and> (y mod 100 \<noteq> 0 \<or> y mod 400 = 0)"

definition year_length :: "int \<Rightarrow> int" where
  "year_length y = (if leap_year y then 366 else 365)"

definition month_length :: "int \<Rightarrow> nat \<Rightarrow> int" where
  "month_length y m = (if m = 1 then (if leap_year y then 29 else 28) else [31, 28, 31, 30, 31, 30, 31, 31, 30, 31, 30, 31] ! m)"

definition year_start :: "int \<Rightarrow> int" where
  "year_start y = (\<Sum>i \<in> {1970..<y}. year_length i) - (\<Sum>i \<in> {y..<1970}. year_length i)"

definition month_start :: "int \<Rightarrow> nat \<Rightarrow> int" where
  "month_start y m = (\<Sum>i<m. month_length y i)"

definition civil_seconds :: "tm \<Rightarrow> int" where
  "civil_seconds t =
     (let y = 1900 + tm_year t
      in (((year_start y + month_start y (nat (tm_mon t)) + tm_mday t - 1) * 24 + tm_hour t) * 60 + tm_min t) * 60 + tm_sec t)"

definition valid_date :: "tm \<Rightarrow> bool" where
  "valid_date t \<longleftrightarrow> 0 \<le> tm_sec t \<and> tm_sec t < 60 \<and> 0 \<le> tm_min t \<and> tm_min t < 60 \<and> 0 \<le> tm_hour t \<and> tm_hour t < 24 \<and>
     0 \<le> tm_mon t \<and> tm_mon t < 12 \<and> 1 \<le> tm_mday t \<and> tm_mday t \<le> month_length (1900 + tm_year t) (nat (tm_mon t))"

definition day_fields :: "tm \<Rightarrow> bool" where
  "day_fields t \<longleftrightarrow>
     tm_yday t = month_start (1900 + tm_year t) (nat (tm_mon t)) + tm_mday t - 1 \<and>
     tm_wday t = (4 + civil_seconds t div 86400) mod 7"

lemmas time_consts = DAY_SEC_def YEAR_SEC_def FOUR_YEAR_SEC_def BASE_YEAR_def BASE_DOW_def LEAP_YEAR_ADJUST_def
  MAX_YEAR_def LONG_MAX_def timezone_def daylight_def dstbias_def

lemma leap_year_2000s: "1970 \<le> y \<Longrightarrow> y < 2100 \<Longrightarrow> leap_year y \<longleftrightarrow> y mod 4 = 0"
proof -
  assume y: "1970 \<le> y" "y < 2100"
  have "y mod 100 = 0 \<Longrightarrow> y = 2000"
    using y by presburger
  then show ?thesis by (auto simp: leap_year_def)
qed

lemma year_start_Suc: "1970 \<le> y \<Longrightarrow> year_start (y + 1) = year_start y + year_length y"
proof -
  assume y: "1970 \<le> y"
  then have "{1970..<y + 1} = insert y {1970..<y}" by auto
  then show ?thesis using y by (simp add: year_start_def)
qed

lemma year_start_closed: "1970 \<le> y \<Longrightarrow> y \<le> 2100 \<Longrightarrow> year_start y = 365 * (y - 1970) + (y - 1969) div 4"
proof (induction y rule: int_ge_induct)
  case base
  then show ?case by (simp add: year_start_def)
next
  case (step i)
  have "(i + 1 - 1969) div 4 = (i - 1969) div 4 + (if i mod 4 = 0 then 1 else 0)"
    by presburger
  then show ?case using step leap_year_2000s [of i] by (simp add: year_start_Suc year_length_def)
qed

lemma year_start_1969: "year_start 1969 = - 365"
proof -
  have "{1969..<1970} = {1969 :: int}" by auto
  then show ?thesis by (simp add: year_start_def year_length_def leap_year_def)
qed

lemma month_cases:
  fixes m :: nat
  assumes "m < 13"
  shows "m = 0 \<or> m = 1 \<or> m = 2 \<or> m = 3 \<or> m = 4 \<or> m = 5 \<or> m = 6 \<or> m = 7 \<or> m = 8 \<or> m = 9 \<or> m = 10 \<or> m = 11 \<or> m = 12"
  using assms by (simp only: numeral_eq_Suc less_Suc_eq pred_numeral_simps One_nat_def BitM.simps) auto

lemma table_month_start:
  assumes "m < 13"
  shows "(if leap_year y then lpdays else days_table) ! m = month_start y m - 1"
proof (cases "leap_year y")
  case True
  then show ?thesis using month_cases [OF assms]
    by (elim disjE) (simp_all add: lpdays_def month_start_def month_length_def eval_nat_numeral)
next
  case False
  then show ?thesis using month_cases [OF assms]
    by (elim disjE) (simp_all add: days_table_def month_start_def month_length_def eval_nat_numeral)
qed

lemma month_start_Suc: "month_start y (Suc m) = month_start y m + month_length y m"
  by (simp add: month_start_def)

lemma month_search_finds:
  "month_search mdays yday k = Some j \<Longrightarrow> 0 < k \<Longrightarrow> mdays ! (k - 1) < yday \<Longrightarrow>
    k \<le> j \<and> j < length mdays \<and> mdays ! (j - 1) < yday \<and> yday \<le> mdays ! j"
proof (induction mdays yday k rule: month_search.induct)
  case (1 mdays yday k)
  show ?case
  proof (cases "k < length mdays \<and> mdays ! k < yday")
    case True
    then show ?thesis using 1 by (simp add: month_search.simps [of mdays yday k])
  next
    case False
    then show ?thesis using 1 by (auto simp: month_search.simps [of mdays yday k] split: if_splits)
  qed
qed

lemma month_search_ends:
  "yday \<le> mdays ! (length mdays - 1) \<Longrightarrow> k < length mdays \<Longrightarrow> \<exists>j. month_search mdays yday k = Some j"
proof (induction mdays yday k rule: month_search.induct)
  case (1 mdays yday k)
  show ?case
  proof (cases "mdays ! k < yday")
    case True
    then have "k + 1 < length mdays" using 1 by (cases "Suc k = length mdays") (auto dest: sym)
    then show ?thesis using 1 True by (simp add: month_search.simps [of mdays yday k])
  next
    case False
    then show ?thesis using 1 by (simp add: month_search.simps [of mdays yday k])
  qed
qed

lemma month_of_yday:
  assumes "0 \<le> yday" and "yday < year_length y"
  shows "\<exists>m. m < 12 \<and> month_search (if leap_year y then lpdays else days_table) yday 1 = Some (Suc m) \<and>
    month_start y m \<le> yday \<and> yday < month_start y (Suc m)"
proof -
  let ?t = "if leap_year y then lpdays else days_table"
  have len: "length ?t = 13" by (simp add: lpdays_def days_table_def)
  have last: "yday \<le> ?t ! (length ?t - 1)" using assms(2)
    by (simp add: lpdays_def days_table_def year_length_def split: if_splits)
  have "?t ! 0 = -1" by (simp add: lpdays_def days_table_def)
  then have first: "?t ! (1 - 1) < yday" using assms(1) by simp
  obtain j where j: "month_search ?t yday 1 = Some j"
    using month_search_ends [OF last, of 1] len by auto
  from month_search_finds [OF j _ first]
  have f: "1 \<le> j" "j < 13" "?t ! (j - 1) < yday" "yday \<le> ?t ! j" using len by auto
  obtain m where m: "j = Suc m" using f(1) by (cases j) auto
  have "m < 12" using f(2) m by simp
  moreover have "?t ! m = month_start y m - 1" using table_month_start [of m y] f(2) m by simp
  moreover have "?t ! Suc m = month_start y (Suc m) - 1" using table_month_start [of "Suc m" y] f(2) m by simp
  ultimately have "m < 12 \<and> month_search ?t yday 1 = Some (Suc m) \<and> month_start y m \<le> yday \<and> yday < month_start y (Suc m)"
    using j m f by simp
  then show ?thesis by blast
qed

lemma split_years_correct:
  assumes "0 \<le> t" and "t < 2147483648"
  shows "\<exists>y c. split_years t = (y, c, leap_year (1900 + y)) \<and> 70 \<le> y \<and> y \<le> 138 \<and> 0 \<le> c \<and>
    c < 86400 * year_length (1900 + y) \<and> t = 86400 * year_start (1900 + y) + c"
proof -
  define q where "q = t div 126230400"
  define r where "r = t mod 126230400"
  have t: "t = q * 126230400 + r" by (simp add: q_def r_def)
  have r: "0 \<le> r" "r < 126230400" by (simp_all add: r_def)
  have q: "0 \<le> q" "q \<le> 17" using assms by (simp_all add: q_def)
  have "t sdiv 126230400 = q" using assms by (simp add: signed_divide_int_def q_def sgn_if)
  then have sd: "(q * 126230400 + r) sdiv 126230400 = q" by (simp only: t)
  define i where "i = (if r < 31536000 then 0 else if r < 63072000 then 1 else if r < 94694400 then 2 else (3 :: int))"
  define c where "c = r - (if i = 0 then 0 else if i = 1 then 31536000 else if i = 2 then 63072000 else (94694400 :: int))"
  have i: "0 \<le> i" "i \<le> 3" by (simp_all add: i_def)
  have yl: "year_length (1900 + (q * 4 + 70 + i)) = (if i = 2 then 366 else 365)"
    and ly: "leap_year (1900 + (q * 4 + 70 + i)) = (i = 2)"
  proof -
    have "(1900 + (q * 4 + 70 + i)) mod 4 = (i + 2) mod 4" by presburger
    moreover have "(i + 2) mod 4 = 0 \<longleftrightarrow> i = 2" using i by presburger
    moreover have "1900 + (q * 4 + 70 + i) < 2100" using q i by linarith
    ultimately show "leap_year (1900 + (q * 4 + 70 + i)) = (i = 2)"
      using leap_year_2000s [of "1900 + (q * 4 + 70 + i)"] q i by simp
    then show "year_length (1900 + (q * 4 + 70 + i)) = (if i = 2 then 366 else 365)" by (simp add: year_length_def)
  qed
  have ys: "year_start (1900 + (q * 4 + 70 + i)) = 365 * (q * 4 + i) + (q * 4 + i + 1) div 4"
    using year_start_closed [of "1900 + (q * 4 + 70 + i)"] q i by (simp add: algebra_simps)
  have dv: "(q * 4 + i + 1) div 4 = q + (if i = 3 then 1 else 0)" using i by presburger
  have "split_years t = (q * 4 + 70 + i, c, i = 2)"
    using r by (auto simp: split_years_def time_consts sd Let_def t i_def c_def)
  moreover have "0 \<le> c" "c < 86400 * (if i = 2 then 366 else 365)" using r by (auto simp: c_def i_def)
  moreover have "t = 86400 * (365 * (q * 4 + i) + (q + (if i = 3 then 1 else 0))) + c"
    by (auto simp: t c_def i_def)
  moreover have "t \<ge> 86400 * (365 * (q * 4 + i) + (q + (if i = 3 then 1 else 0)))"
    using calculation by linarith
  moreover have "q * 4 + i \<le> 68"
  proof (rule ccontr)
    assume "\<not> q * 4 + i \<le> 68"
    then have "q = 17 \<and> 1 \<le> i" using q i by presburger
    then have "86400 * (365 * 69 + 17) \<le> 86400 * (365 * (q * 4 + i) + q)" using i by simp
    then show False using calculation(5) assms(2) by (auto split: if_splits)
  qed
  ultimately show ?thesis using q i
    by (intro exI [of _ "q * 4 + 70 + i"] exI [of _ c]) (simp only: yl ly ys dv, simp)
qed

lemma sdiv_pos: "0 \<le> a \<Longrightarrow> 0 < b \<Longrightarrow> a sdiv b = a div (b :: int)"
  by (simp add: signed_divide_int_def sgn_if)

lemma smod_pos: "0 \<le> a \<Longrightarrow> 0 < b \<Longrightarrow> a smod b = a mod (b :: int)"
  by (simp add: signed_modulo_int_def sgn_if)

lemma div_less_bound: "x < b * n \<Longrightarrow> 0 < b \<Longrightarrow> x div b < (n :: int)"
  using pos_mod_sign [of b x] mult_less_cancel_left_pos [of b "x div b" n] mult_div_mod_eq [of b x] by linarith

lemma div_days:
  fixes c s :: int
  assumes "0 \<le> c" and "c < 86400"
  shows "(86400 * s + c) div 86400 = s" and "(86400 * s + c) mod 86400 = c"
  using assms by simp_all

lemma gmtime_fields:
  assumes t: "0 \<le> t" "t < 2147483648"
  shows "\<exists>tb. lualibc_gmtime t = Some (Some tb) \<and> valid_date tb \<and> civil_seconds tb = t \<and> day_fields tb \<and>
    tm_isdst tb = 0 \<and> 70 \<le> tm_year tb \<and> tm_year tb \<le> 138"
proof -
  obtain y c where y: "split_years t = (y, c, leap_year (1900 + y))" "70 \<le> y" "y \<le> 138" "0 \<le> c"
      "c < 86400 * year_length (1900 + y)" "t = 86400 * year_start (1900 + y) + c"
    using split_years_correct [OF t] by blast
  define d where "d = c div 86400"
  define s where "s = c mod 86400"
  have c: "c = 86400 * d + s" "0 \<le> s" "s < 86400" by (simp_all add: d_def s_def)
  have d: "0 \<le> d" "d < year_length (1900 + y)" using y(4,5) by (auto simp: d_def)
  obtain m where m: "m < 12" "month_search (if leap_year (1900 + y) then lpdays else days_table) d 1 = Some (Suc m)"
      "month_start (1900 + y) m \<le> d" "d < month_start (1900 + y) (Suc m)"
    using month_of_yday [OF d] by blast
  have len: "length (if leap_year (1900 + y) then lpdays else days_table) = 13" by (simp add: lpdays_def days_table_def)
  have ld: "ld (if leap_year (1900 + y) then lpdays else days_table) m = Some (month_start (1900 + y) m - 1)"
    using table_month_start [of m "1900 + y"] m(1) len by (simp add: ld_def)
  have sd: "c sdiv 86400 = d" "s sdiv 3600 = s div 3600" "s mod 3600 sdiv 60 = s mod 3600 div 60"
    using y(4) c(2) by (simp_all add: sdiv_pos d_def minus_div_mult_eq_mod)
  have wday: "(t sdiv 86400 + 4) smod 7 = (4 + t div 86400) mod 7"
    using t by (simp add: sdiv_pos smod_pos pos_imp_zdiv_nonneg_iff add.commute [of _ 4])
  define tb where "tb = \<lparr>tm_sec = s mod 3600 mod 60, tm_min = s mod 3600 div 60, tm_hour = s div 3600,
    tm_mday = d - (month_start (1900 + y) m - 1), tm_mon = int m,
    tm_year = y, tm_wday = (t sdiv 86400 + 4) smod 7, tm_yday = d, tm_isdst = 0\<rparr>"
  have res: "lualibc_gmtime t = Some (Some tb)"
    using t m(2) ld by (simp add: lualibc_gmtime_def y(1) time_consts tb_def sd c(1) [symmetric] minus_div_mult_eq_mod)
      (simp add: Let_def sd c(1) minus_div_mult_eq_mod)
  have "0 \<le> s mod 3600 div 60 \<and> s mod 3600 div 60 < 60"
    using div_less_bound [of "s mod 3600" 60 60] by (simp add: pos_imp_zdiv_nonneg_iff)
  moreover have "0 \<le> s div 3600 \<and> s div 3600 < 24"
    using c(2,3) div_less_bound [of s 3600 24] by (simp add: pos_imp_zdiv_nonneg_iff)
  ultimately have "valid_date tb"
    using m by (simp add: valid_date_def tb_def month_start_Suc)
  moreover have cs: "civil_seconds tb = t"
    by (simp add: civil_seconds_def tb_def y(6) c(1))
  moreover have "day_fields tb"
    unfolding day_fields_def cs by (simp add: tb_def wday)
  moreover have "tm_isdst tb = 0" "tm_year tb = y" by (simp_all add: tb_def)
  ultimately show ?thesis using res y(2,3) by (intro exI [of _ tb]) simp
qed

lemma month_length_bounds: "m < 12 \<Longrightarrow> 28 \<le> month_length y m"
proof -
  assume "m < 12"
  have "m < 13" using \<open>m < 12\<close> by simp
  from month_cases [OF this] show ?thesis using \<open>m < 12\<close> by (elim disjE) (auto simp: month_length_def)
qed

lemma month_start_mono: "m \<le> n \<Longrightarrow> n \<le> 12 \<Longrightarrow> month_start y m \<le> month_start y n"
proof (induction n rule: dec_induct)
  case base
  then show ?case by simp
next
  case (step n)
  then show ?case using month_length_bounds [of n y] by (simp add: month_start_Suc)
qed

lemma month_start_0: "month_start y 0 = 0"
  by (simp add: month_start_def)

lemma month_start_12: "month_start y 12 = year_length y"
  by (simp add: month_start_def month_length_def year_length_def eval_nat_numeral)

lemma yday_bounds:
  assumes "valid_date t"
  shows "0 \<le> month_start (1900 + tm_year t) (nat (tm_mon t))"
    and "month_start (1900 + tm_year t) (nat (tm_mon t)) + tm_mday t \<le> year_length (1900 + tm_year t)"
proof -
  let ?y = "1900 + tm_year t" and ?m = "nat (tm_mon t)"
  have m: "?m < 12" "tm_mday t \<le> month_length ?y ?m" using assms by (auto simp: valid_date_def)
  show "0 \<le> month_start ?y ?m" using month_start_mono [of 0 ?m ?y] m by (simp add: month_start_0)
  have "month_start ?y (Suc ?m) \<le> month_start ?y 12" using m by (intro month_start_mono) auto
  then show "month_start ?y ?m + tm_mday t \<le> year_length ?y"
    using m by (simp add: month_start_Suc month_start_12)
qed

lemma civil_day:
  assumes "valid_date t"
  shows "civil_seconds t div 86400 = year_start (1900 + tm_year t) + month_start (1900 + tm_year t) (nat (tm_mon t)) + tm_mday t - 1"
    and "civil_seconds t mod 86400 = (tm_hour t * 60 + tm_min t) * 60 + tm_sec t"
proof -
  define d where "d = year_start (1900 + tm_year t) + month_start (1900 + tm_year t) (nat (tm_mon t)) + tm_mday t - 1"
  define s where "s = (tm_hour t * 60 + tm_min t) * 60 + tm_sec t"
  have "civil_seconds t = 86400 * d + s"
    by (simp add: civil_seconds_def Let_def d_def s_def)
  moreover have "0 \<le> s" "s < 86400"
    using assms by (auto simp: valid_date_def s_def)
  ultimately have "civil_seconds t div 86400 = d" "civil_seconds t mod 86400 = s"
    using div_days [of s d] by simp_all
  then show "civil_seconds t div 86400 = year_start (1900 + tm_year t) + month_start (1900 + tm_year t) (nat (tm_mon t)) + tm_mday t - 1"
    "civil_seconds t mod 86400 = (tm_hour t * 60 + tm_min t) * 60 + tm_sec t"
    by (simp_all only: d_def s_def)
qed

lemma carry_fields_adds:
  assumes v: "valid_date t" "day_fields t" "tm_mday t < 28"
  shows "valid_date (carry_fields t) \<and> civil_seconds (carry_fields t) = civil_seconds t + 28800 \<and> day_fields (carry_fields t) \<and>
    tm_isdst (carry_fields t) = tm_isdst t \<and> tm_year (carry_fields t) = tm_year t"
proof -
  let ?h = "tm_hour t + 8"
  have b: "0 \<le> tm_sec t" "tm_sec t < 60" "0 \<le> tm_min t" "tm_min t < 60" "0 \<le> tm_hour t" "tm_hour t < 24"
    "nat (tm_mon t) < 12" using v(1) by (auto simp: valid_date_def)
  have ml: "28 \<le> month_length (1900 + tm_year t) (nat (tm_mon t))" using b(7) by (rule month_length_bounds)
  have a: "(tm_sec t + 28800) smod 60 = tm_sec t" "(tm_sec t + 28800) sdiv 60 = 480"
    "(tm_min t + 480) smod 60 = tm_min t" "(tm_min t + 480) sdiv 60 = 8"
    using b mod_mult_self1 [of "tm_sec t" 480 60] mod_mult_self1 [of "tm_min t" 8 60]
    by (simp_all add: sdiv_pos smod_pos)
  have w: "tm_wday t = (4 + civil_seconds t div 86400) mod 7" using v(2) by (simp add: day_fields_def)
  then have w0: "0 \<le> tm_wday t" by simp
  show ?thesis
  proof (cases "?h < 24")
    case True
    have h: "?h smod 24 = ?h" "?h sdiv 24 = 0" using b True by (simp_all add: sdiv_pos smod_pos)
    have eq: "carry_fields t = t\<lparr>tm_hour := ?h\<rparr>"
      using b by (simp add: carry_fields_def isindst_def timezone_def a h Let_def)
    have vd: "valid_date (t\<lparr>tm_hour := ?h\<rparr>)" using v(1) True by (simp add: valid_date_def)
    moreover have cs: "civil_seconds (t\<lparr>tm_hour := ?h\<rparr>) = civil_seconds t + 28800" by (simp add: civil_seconds_def Let_def)
    moreover have "day_fields (t\<lparr>tm_hour := ?h\<rparr>)"
      using v(2) civil_day(1) [OF vd] civil_day(1) [OF v(1)] by (simp add: day_fields_def)
    ultimately show ?thesis by (simp add: eq)
  next
    case False
    have h: "?h smod 24 = ?h - 24" "?h sdiv 24 = 1" using b False
      by (simp_all add: sdiv_pos smod_pos mod_pos_geq div_pos_geq)
    let ?t = "t\<lparr>tm_hour := ?h - 24, tm_wday := (tm_wday t + 1) smod 7, tm_mday := tm_mday t + 1, tm_yday := tm_yday t + 1\<rparr>"
    have eq: "carry_fields t = ?t"
      using b False by (simp add: carry_fields_def isindst_def timezone_def a h Let_def)
    have vd: "valid_date ?t" using v(1,3) False ml by (simp add: valid_date_def)
    moreover have cs: "civil_seconds ?t = civil_seconds t + 28800" by (simp add: civil_seconds_def Let_def)
    moreover have "day_fields ?t"
      using v(2) civil_day(1) [OF vd] civil_day(1) [OF v(1)] w0
      by (simp add: day_fields_def smod_pos mod_simps)
    ultimately show ?thesis by (simp add: eq)
  qed
qed

lemma localtime_fields:
  assumes t: "0 \<le> t" "t < 2147483648"
  shows "\<exists>tb. lualibc_localtime t = Some (Some tb) \<and> valid_date tb \<and> civil_seconds tb = t + 28800 \<and> day_fields tb \<and>
    tm_isdst tb = 0 \<and> 70 \<le> tm_year tb \<and> tm_year tb \<le> 138"
proof (cases "t > 3 * DAY_SEC \<and> t < LONG_MAX - 3 * DAY_SEC")
  case True
  then have m: "0 \<le> t + 28800" "t + 28800 < 2147483648" by (simp_all add: time_consts)
  have "lualibc_localtime t = lualibc_gmtime (t + 28800)"
    using gmtime_fields [OF m] t(1) True by (auto simp: lualibc_localtime_def daylight_def timezone_def)
  then show ?thesis using gmtime_fields [OF m] by simp
next
  case False
  obtain tb where tb: "lualibc_gmtime t = Some (Some tb)" "valid_date tb" "civil_seconds tb = t" "day_fields tb"
      "tm_isdst tb = 0" "70 \<le> tm_year tb" "tm_year tb \<le> 138"
    using gmtime_fields [OF t] by blast
  have ys: "year_start (1900 + tm_year tb) = 365 * (tm_year tb - 70) + (tm_year tb - 69) div 4"
    using year_start_closed [of "1900 + tm_year tb"] tb(6,7) by simp
  note dy = civil_day(1) [OF tb(2), unfolded tb(3) ys] and yb = yday_bounds [OF tb(2)]
  have "tm_mday tb < 28"
  proof (cases "t > 3 * DAY_SEC")
    case False
    then have "t div 86400 \<le> 3" by (simp add: time_consts)
    moreover have "0 \<le> 365 * (tm_year tb - 70) + (tm_year tb - 69) div 4"
      using tb(6) by (simp add: pos_imp_zdiv_nonneg_iff)
    ultimately show ?thesis using dy yb(1) by linarith
  next
    case True
    then have top: "24852 \<le> t div 86400" "t div 86400 \<le> 24855" using \<open>\<not> _\<close> t(2) by (auto simp: time_consts)
    have "tm_year tb = 138"
    proof (rule ccontr)
      assume "tm_year tb \<noteq> 138"
      then have le: "tm_year tb \<le> 137" using tb(7) by simp
      have "year_start (1900 + tm_year tb + 1) = 365 * (tm_year tb - 69) + (tm_year tb - 68) div 4"
        using year_start_closed [of "1900 + tm_year tb + 1"] tb(6) le by simp
      moreover have "(tm_year tb - 68) div 4 \<le> 17" using le by simp
      ultimately have "year_start (1900 + tm_year tb + 1) \<le> 24837" using le by simp
      then have "year_start (1900 + tm_year tb) + year_length (1900 + tm_year tb) \<le> 24837"
        using year_start_Suc [of "1900 + tm_year tb"] tb(6) by simp
      then show False using dy yb(2) ys top(1) by linarith
    qed
    then show ?thesis using dy yb(1) top(2) by simp
  qed
  moreover have "lualibc_localtime t = Some (Some (carry_fields tb))"
    using t(1) False tb(1) unfolding lualibc_localtime_def if_not_P [OF False] by simp
  ultimately show ?thesis using carry_fields_adds [OF tb(2,4)] tb(3,5,6,7) by simp
qed

section \<open>Sums that are checked\<close>

definition fits_int :: "int \<Rightarrow> bool" where
  "fits_int x \<longleftrightarrow> - 2147483648 \<le> x \<and> x < 2147483648"

lemma s32_fits: "fits_int x \<Longrightarrow> s32 x = x"
  by (simp add: fits_int_def s32_def signed_take_bit_int_eq_self)

lemma s32_wraps: "\<exists>k. s32 x = x - k * 4294967296 \<and> fits_int (s32 x)"
proof -
  have "s32 x = (x + 2147483648) mod 4294967296 - 2147483648"
    by (simp add: s32_def signed_take_bit_eq_take_bit_shift take_bit_eq_mod)
  moreover have "(x + 2147483648) mod 4294967296 = x + 2147483648 - (x + 2147483648) div 4294967296 * 4294967296"
    by (simp add: minus_div_mult_eq_mod)
  ultimately have e: "s32 x = x - (x + 2147483648) div 4294967296 * 4294967296" by linarith
  moreover have "fits_int (s32 x)"
    using pos_mod_sign [of 4294967296 "x + 2147483648"] pos_mod_bound [of 4294967296 "x + 2147483648"]
      \<open>s32 x = (x + 2147483648) mod 4294967296 - 2147483648\<close> by (simp add: fits_int_def)
  ultimately show ?thesis by blast
qed

lemma checked_add_exact:
  assumes "fits_int a" and "fits_int b"
  shows "checked_add a b = (if fits_int (a + b) then Some (a + b) else None)"
proof (cases "fits_int (a + b)")
  case True
  then show ?thesis using s32_fits [OF True] by (auto simp: checked_add_def ChkAdd_def)
next
  case False
  obtain k where k: "s32 (a + b) = a + b - k * 4294967296" "fits_int (s32 (a + b))" using s32_wraps by blast
  have "ChkAdd (s32 (a + b)) a b"
  proof (cases "a + b < 0")
    case True
    then have "a + b < - 2147483648" using False by (simp add: fits_int_def)
    then have "a < 0" "b < 0" "k < 0" using assms k by (auto simp: fits_int_def)
    then show ?thesis using k assms by (auto simp: ChkAdd_def fits_int_def)
  next
    case F: False
    then have "a + b \<ge> 2147483648" using False by (simp add: fits_int_def)
    then have "a \<ge> 0" "b \<ge> 0" "k > 0" using assms k by (auto simp: fits_int_def)
    then show ?thesis using k assms by (auto simp: ChkAdd_def fits_int_def)
  qed
  then show ?thesis using False by (simp add: checked_add_def)
qed

lemma checked_mul_exact:
  assumes "fits_int a" and "0 < b" and "b < 4294967296"
  shows "checked_mul a b = (if fits_int (a * b) then Some (a * b) else None)"
proof (cases "fits_int (a * b)")
  case True
  have "a \<noteq> 0 \<Longrightarrow> (a * b) sdiv a = b"
    using assms(2) by (auto simp: signed_divide_int_def abs_mult sgn_if zero_less_mult_iff)
  then show ?thesis using s32_fits [OF True] True by (auto simp: checked_mul_def ChkMul_def)
next
  case False
  obtain k where k: "s32 (a * b) = a * b - k * 4294967296" "fits_int (s32 (a * b))" using s32_wraps by blast
  have a: "a \<noteq> 0" and k0: "k \<noteq> 0" using False k by (auto simp: fits_int_def)
  have "s32 (a * b) sdiv a \<noteq> b"
  proof
    assume "s32 (a * b) sdiv a = b"
    then have "s32 (a * b) = b * a + s32 (a * b) smod a"
      using sdiv_mult_smod_eq [of "s32 (a * b)" a] by simp
    then have "k * 4294967296 = - (s32 (a * b) smod a)" using k(1) by (simp add: mult.commute)
    moreover have "\<bar>s32 (a * b) smod a\<bar> < \<bar>a\<bar>"
      using a by (simp add: signed_modulo_int_def abs_mult sgn_if)
    moreover have "\<bar>a\<bar> \<le> 2147483648" using assms(1) by (auto simp: fits_int_def)
    ultimately have "\<bar>k * 4294967296\<bar> < 2147483648" by linarith
    then show False using k0 by (simp add: abs_mult)
  qed
  then show ?thesis using False a by (simp add: checked_mul_def ChkMul_def)
qed


text \<open>The day number, less one, that the code computes for a year and a month, and the sums it checks.\<close>

definition sums_fit :: "int \<Rightarrow> tm \<Rightarrow> bool" where
  "sums_fit d t \<longleftrightarrow> fits_int d \<and> fits_int (d * 24) \<and> fits_int (d * 24 + tm_hour t) \<and>
     fits_int ((d * 24 + tm_hour t) * 60) \<and> fits_int ((d * 24 + tm_hour t) * 60 + tm_min t) \<and>
     fits_int (((d * 24 + tm_hour t) * 60 + tm_min t) * 60) \<and>
     fits_int (((d * 24 + tm_hour t) * 60 + tm_min t) * 60 + tm_sec t)"

definition fields_fit :: "tm \<Rightarrow> bool" where
  "fields_fit t \<longleftrightarrow> fits_int (tm_sec t) \<and> fits_int (tm_min t) \<and> fits_int (tm_hour t) \<and> fits_int (tm_mday t)"

lemma elapsed_exact:
  assumes "fields_fit t" and "fits_int d"
  shows "elapsed_seconds d t =
    (if sums_fit (d + tm_mday t) t then Some ((((d + tm_mday t) * 24 + tm_hour t) * 60 + tm_min t) * 60 + tm_sec t) else None)"
  using assms by (simp add: elapsed_seconds_def fields_fit_def sums_fit_def checked_add_exact checked_mul_exact)

lemma and_3: "(y :: int) AND 3 = y mod 4"
  using take_bit_eq_mask [of 2 y] by (simp add: take_bit_eq_mod mask_numeral)

text \<open>The month of a year after the carry, by floor division.\<close>

lemma carry_month_floor: "carry_month y m = (y + m div 12, m mod 12)"
proof (cases "m < 0")
  case True
  have "m sdiv 12 = - ((- m) div 12)" "m smod 12 = - ((- m) mod 12)"
    using True by (simp_all add: signed_divide_int_def signed_modulo_int_def)
  moreover have "0 \<le> (- m) mod 12" by simp
  ultimately show ?thesis using True zdiv_zminus1_eq_if [of 12 "- m"] zmod_zminus1_eq_if [of "- m" 12]
    by (auto simp: carry_month_def Let_def)
next
  case False
  then show ?thesis by (auto simp: carry_month_def Let_def sdiv_pos smod_pos)
qed

definition norm_year :: "tm \<Rightarrow> int" where
  "norm_year t = 1900 + tm_year t + tm_mon t div 12"

definition norm_month :: "tm \<Rightarrow> nat" where
  "norm_month t = nat (tm_mon t mod 12)"

definition norm_day :: "tm \<Rightarrow> int" where
  "norm_day t = year_start (norm_year t) + month_start (norm_year t) (norm_month t) + tm_mday t - 1"

definition norm_seconds :: "tm \<Rightarrow> int" where
  "norm_seconds t = ((norm_day t * 24 + tm_hour t) * 60 + tm_min t) * 60 + tm_sec t"

lemma year_start_shift:
  assumes "69 \<le> y" and "y \<le> 139"
  shows "(y - BASE_YEAR) * 365 + drop_bit 2 (y - 1) - LEAP_YEAR_ADJUST = year_start (1900 + y)"
proof -
  have "(y - 1) div 4 - 17 = (y - 69) div 4" by presburger
  moreover have "year_start (1900 + y) = 365 * (y - 70) + (y - 69) div 4"
    using year_start_closed [of "1900 + y"] year_start_1969 assms by (cases "y = 69") auto
  ultimately show ?thesis by (simp add: time_consts drop_bit_eq_div)
qed

lemma days_month_start:
  assumes "69 \<le> y" and "y \<le> 139" and "m < 12"
  shows "(if y AND 3 = 0 \<and> 1 < m then days_table ! m + 1 else days_table ! m) = month_start (1900 + y) m - 1"
proof -
  have "(1900 + y) mod 4 = y mod 4" by presburger
  then have "leap_year (1900 + y) \<longleftrightarrow> y AND 3 = 0"
    using leap_year_2000s [of "1900 + y"] assms by (cases "y = 69") (auto simp: and_3 leap_year_def)
  moreover have "(if 1 < m then days_table ! m + 1 else days_table ! m) = lpdays ! m"
  proof -
    have "m < 13" using assms(3) by simp
    from month_cases [OF this] show ?thesis using assms(3) by (elim disjE) (auto simp: days_table_def lpdays_def)
  qed
  ultimately show ?thesis using table_month_start [of m "1900 + y"] assms(3) by (auto split: if_splits)
qed

lemma days_fit:
  assumes "69 \<le> y" and "y \<le> 139" and "m < 12"
  shows "fits_int (year_start (1900 + y) + (month_start (1900 + y) m - 1))"
proof -
  have "- 365 \<le> year_start (1900 + y) \<and> year_start (1900 + y) \<le> 30000"
    using year_start_closed [of "1900 + y"] year_start_1969 assms by (cases "y = 69") (auto simp: pos_imp_zdiv_nonneg_iff)
  moreover have "0 \<le> month_start (1900 + y) m \<and> month_start (1900 + y) m \<le> 366"
    using month_start_mono [of 0 m "1900 + y"] month_start_mono [of m 12 "1900 + y"] assms(3)
    by (simp add: month_start_0 month_start_12 year_length_def split: if_splits)
  ultimately show ?thesis by (simp add: fits_int_def)
qed

definition date_in_range :: "tm \<Rightarrow> bool" where
  "date_in_range t \<longleftrightarrow> \<not> year_bad (tm_year t) \<and> \<not> year_bad (norm_year t - 1900)"

lemma make_time_exact:
  assumes r: "date_in_range t" and f: "fields_fit t"
  shows "make_time_t t ult =
    (let t' = t\<lparr>tm_mon := int (norm_month t)\<rparr>
     in if sums_fit (norm_day t) t then finish_time (norm_seconds t) t' ult else Some (-1, t'))"
proof -
  define y where "y = norm_year t - 1900"
  define m where "m = norm_month t"
  define t' where "t' = t\<lparr>tm_mon := int m\<rparr>"
  have y: "69 \<le> y" "y \<le> 139" using r by (auto simp: date_in_range_def year_bad_def time_consts y_def)
  have m: "m < 12" by (simp add: m_def norm_month_def nat_less_iff)
  have cm: "carry_month (tm_year t) (tm_mon t) = (y, int m)"
    by (simp add: carry_month_floor y_def m_def norm_year_def norm_month_def)
  have ld: "ld days_table m = Some (days_table ! m)"
    using m by (simp add: ld_def days_table_def)
  have yb: "\<not> year_bad (tm_year t)" "\<not> year_bad y" using r by (auto simp: date_in_range_def y_def)
  have dm: "(if y AND 3 = 0 \<and> 1 < int m then days_table ! m + 1 else days_table ! m) = month_start (1900 + y) m - 1"
    using days_month_start [OF y m] by simp
  have day: "norm_day t = year_start (1900 + y) + (month_start (1900 + y) m - 1) + tm_mday t"
    by (simp add: norm_day_def y_def m_def)
  have es: "elapsed_seconds (year_start (1900 + y) + (month_start (1900 + y) m - 1)) t' =
      (if sums_fit (norm_day t) t then Some (norm_seconds t) else None)"
    using elapsed_exact [of t' "year_start (1900 + y) + (month_start (1900 + y) m - 1)"] days_fit [OF y m] f
    by (simp add: fields_fit_def t'_def day sums_fit_def norm_seconds_def)
  have "make_time_t t ult = (case (if sums_fit (norm_day t) t then Some (norm_seconds t) else None) of
      None \<Rightarrow> Some (-1, t') | Some secs \<Rightarrow> finish_time secs t' ult)"
    unfolding make_time_t_def if_not_P [OF yb(1)] cm Let_def prod.case if_not_P [OF yb(2)] nat_int ld bind.bind_lunit
      dm year_start_shift [OF y] t'_def [symmetric]
    by (simp only: es)
  then show ?thesis by (simp add: t'_def m_def Let_def)
qed


text \<open>A filled-in structure that stands for a number of civil seconds.\<close>

definition civil :: "tm \<Rightarrow> int \<Rightarrow> bool" where
  "civil tb s \<longleftrightarrow> valid_date tb \<and> civil_seconds tb = s \<and> day_fields tb"

lemma mktime_ok:
  assumes "date_in_range t" and "fields_fit t" and "tm_isdst t \<le> 0" and "sums_fit (norm_day t) t" and "28800 \<le> norm_seconds t"
  shows "\<exists>tb. lualibc_mktime t = Some (norm_seconds t - 28800, tb) \<and> lualibc_localtime (norm_seconds t - 28800) = Some (Some tb) \<and>
    civil tb (norm_seconds t)"
proof -
  let ?s = "norm_seconds t"
  have f: "fits_int ?s" using assms(4) by (simp add: sums_fit_def norm_seconds_def)
  then have b: "0 \<le> ?s - 28800" "?s - 28800 < 2147483648" using assms(5) by (simp_all add: fits_int_def)
  then have s: "s32 (?s + timezone) = ?s - 28800" using s32_fits [of "?s - 28800"] by (simp add: timezone_def fits_int_def)
  obtain tb where tb: "lualibc_localtime (?s - 28800) = Some (Some tb)" "valid_date tb" "civil_seconds tb = ?s" "day_fields tb"
      "tm_isdst tb = 0"
    using localtime_fields [OF b] by auto
  have "lualibc_mktime t = Some (?s - 28800, tb)"
    unfolding lualibc_mktime_def make_time_exact [OF assms(1,2)]
    using assms(3,4) tb by (simp add: finish_time_def s Let_def)
  then show ?thesis using tb by (auto simp: civil_def)
qed

lemma mktime_overflow:
  assumes "date_in_range t" and "fields_fit t" and "\<not> sums_fit (norm_day t) t"
  shows "map_option fst (lualibc_mktime t) = Some (-1)"
  unfolding lualibc_mktime_def make_time_exact [OF assms(1,2)] using assms(3) by (simp add: Let_def)


lemma mktime_before_1970:
  assumes "date_in_range t" and "fields_fit t" and "- 2147454848 \<le> norm_seconds t" and "norm_seconds t < 28800"
  shows "map_option fst (lualibc_mktime t) = Some (-1)"
proof -
  have "s32 (norm_seconds t + timezone) = norm_seconds t - 28800"
    using s32_fits [of "norm_seconds t - 28800"] assms(3,4) by (simp add: timezone_def fits_int_def)
  then have "lualibc_localtime (s32 (norm_seconds t + timezone)) = Some None"
    using assms(4) by (simp add: lualibc_localtime_def)
  then show ?thesis
    unfolding lualibc_mktime_def make_time_exact [OF assms(1,2)] by (simp add: Let_def finish_time_def)
qed

lemma civil_sums:
  assumes "civil tb s" and "0 \<le> s" and "s < 2147483648" and "70 \<le> tm_year tb" and "tm_year tb \<le> 138"
  shows "norm_seconds tb = s" and "sums_fit (norm_day tb) tb" and "date_in_range tb" and "fields_fit tb"
proof -
  have v: "valid_date tb" "civil_seconds tb = s" using assms(1) by (simp_all add: civil_def)
  have n: "norm_year tb = 1900 + tm_year tb" "norm_month tb = nat (tm_mon tb)"
    using v(1) by (simp_all add: norm_year_def norm_month_def valid_date_def)
  then have day: "norm_day tb = s div 86400"
    using civil_day(1) [OF v(1)] by (simp add: norm_day_def v(2))
  show s: "norm_seconds tb = s"
    using v(2) n by (simp add: norm_seconds_def norm_day_def civil_seconds_def Let_def)
  have b: "0 \<le> norm_day tb" "0 \<le> tm_sec tb" "tm_sec tb < 60" "0 \<le> tm_min tb" "tm_min tb < 60" "0 \<le> tm_hour tb"
    "tm_hour tb < 24" "1 \<le> tm_mday tb" using assms(2) v(1) by (auto simp: day valid_date_def pos_imp_zdiv_nonneg_iff)
  have "((norm_day tb * 24 + tm_hour tb) * 60 + tm_min tb) * 60 + tm_sec tb < 2147483648"
    using s assms(3) by (simp only: norm_seconds_def)
  then show "sums_fit (norm_day tb) tb"
    using b by (simp add: sums_fit_def fits_int_def)
  have "tm_mday tb \<le> 366"
    using yday_bounds [OF v(1)] by (simp add: year_length_def split: if_splits)
  then show "fields_fit tb" using b by (simp add: fields_fit_def fits_int_def)
  show "date_in_range tb" using assms(4,5) n by (simp add: date_in_range_def year_bad_def time_consts)
qed

lemma day_of_month_sum:
  assumes "69 \<le> y" and "y \<le> 139" and "m < 12" and "1 \<le> d" and "d \<le> 366"
  shows "(if y AND 3 = 0 \<and> 2 < int m + 1 then s32 (s32 (d + days_table ! m) + 1) else s32 (d + days_table ! m)) =
    d + (month_start (1900 + y) m - 1)"
proof -
  have "m < 13" using assms(3) by simp
  from month_cases [OF this] have tab: "- 1 \<le> days_table ! m \<and> days_table ! m \<le> 366"
    by (elim disjE) (simp_all add: days_table_def)
  have "s32 (d + days_table ! m) = d + days_table ! m" "s32 (d + days_table ! m + 1) = d + days_table ! m + 1"
    using tab assms(4,5) by (auto intro!: s32_fits simp: fits_int_def)
  then show ?thesis using days_month_start [OF assms(1-3)] by (auto split: if_splits)
qed

lemma gmtotime_civil:
  assumes "civil tb s" and "0 \<le> s" and "s < 2147483648" and "70 \<le> tm_year tb" and "tm_year tb \<le> 138"
  shows "gmtotime_t (1900 + tm_year tb) (tm_mon tb + 1) (tm_mday tb) (tm_hour tb) (tm_min tb) (tm_sec tb) =
    Some (if 28800 \<le> s then s - 28800 else - 1)"
proof -
  note cs = civil_sums [OF assms]
  let ?y = "tm_year tb"
  have v: "valid_date tb" using assms(1) by (simp add: civil_def)
  obtain m where m: "tm_mon tb = int m" "m < 12" using v by (auto simp: valid_date_def intro: that [of "nat (tm_mon tb)"])
  have ny: "norm_year tb = 1900 + ?y" "norm_month tb = m"
    using m by (simp_all add: norm_year_def norm_month_def)
  have ld: "ld days_table m = Some (days_table ! m)" using m by (simp add: ld_def days_table_def)
  have md: "1 \<le> tm_mday tb" "tm_mday tb \<le> 366"
    using v yday_bounds [OF v] by (auto simp: valid_date_def year_length_def split: if_splits)
  have yr: "69 \<le> ?y" "?y \<le> 139" using assms(4,5) by simp_all
  have day: "(?y - BASE_YEAR) * 365 + drop_bit 2 (?y - 1) - LEAP_YEAR_ADJUST + (tm_mday tb + (month_start (1900 + ?y) m - 1)) = norm_day tb"
    using year_start_shift [OF yr] by (simp add: norm_day_def ny)
  have s1: "s32 ((norm_day tb * 24 + tm_hour tb) * 60 + tm_min tb) = (norm_day tb * 24 + tm_hour tb) * 60 + tm_min tb"
    using cs(2) by (intro s32_fits) (simp add: sums_fit_def)
  have s2: "s32 (((norm_day tb * 24 + tm_hour tb) * 60 + tm_min tb) * 60 + tm_sec tb) = s"
    using cs(1,2) s32_fits [of s] assms(2,3) by (simp add: norm_seconds_def fits_int_def)
  have s3: "s32 (s + timezone) = s - 28800"
    using s32_fits [of "s - 28800"] assms(2,3) by (simp add: timezone_def fits_int_def)
  have yb: "\<not> (?y < BASE_YEAR \<or> ?y > MAX_YEAR)" using assms(4,5) by (simp add: time_consts)
  have mo: "1 \<le> int m + 1" "nat (int m + 1 - 1) = m" "1900 + ?y - 1900 = ?y" by simp_all
  show ?thesis
    unfolding gmtotime_t_def Let_def mo(3) if_not_P [OF yb] m(1) if_P [OF mo(1)] mo(2) ld bind.bind_lunit
      day_of_month_sum [OF yr m(2) md] day s1 s2 s3 by simp
qed

section \<open>Properties\<close>

text \<open>
  C36. Every \<^verbatim>\<open>time_t\<close> from 0 to the largest has a broken-down time: \<^verbatim>\<open>gmtime\<close> gives the Gregorian date whose distance
  from the beginning of 1970 is the argument, with the day of the year and of the week that belong to it, and
  \<^verbatim>\<open>localtime\<close> the date eight hours later, also in the three days at each end that it computes by carrying.
\<close>

theorem broken_down_time:
  assumes "0 \<le> t" and "t < 2147483648"
  shows "\<exists>g l. lualibc_gmtime t = Some (Some g) \<and> civil g t \<and> lualibc_localtime t = Some (Some l) \<and> civil l (t + 28800)"
  using gmtime_fields [OF assms] localtime_fields [OF assms] by (auto simp: civil_def)

theorem broken_down_time_witness:
  "\<exists>g l. lualibc_gmtime 2147483647 = Some (Some g) \<and> civil g 2147483647 \<and>
    lualibc_localtime 2147483647 = Some (Some l) \<and> civil l 2147512447"
  using broken_down_time [of 2147483647] by simp

text \<open>
  C37. \<^verbatim>\<open>mktime\<close> is exact for fields outside their ranges, too: months carry into years by floor division, and the result is
  the number of seconds the fields stand for less eight hours, with the structure filled in again; it is \<^verbatim>\<open>-1\<close> when some partial sum
  leaves 32 bits or when the time is before 1970 and at least -2147454848. The year must lie between 1969 and 2039, as given and with
  the months carried into it, and daylight saving must not be asked for. (Below -2147454848 seconds the time zone wraps: \<open>mktime_zone_wraps\<close>.)
\<close>

theorem mktime_exact:
  assumes "date_in_range t" and "fields_fit t" and "tm_isdst t \<le> 0"
    and "\<not> sums_fit (norm_day t) t \<or> - 2147454848 \<le> norm_seconds t"
  shows "if sums_fit (norm_day t) t \<and> 28800 \<le> norm_seconds t
    then \<exists>tb. lualibc_mktime t = Some (norm_seconds t - 28800, tb) \<and> civil tb (norm_seconds t)
    else map_option fst (lualibc_mktime t) = Some (-1)"
  using assms mktime_ok [of t] mktime_overflow [of t] mktime_before_1970 [of t] by auto

text \<open>
  C38. \<^verbatim>\<open>mktime\<close> inverts \<^verbatim>\<open>localtime\<close>: applied to the local date of \<^verbatim>\<open>t\<close> it returns \<^verbatim>\<open>t\<close> and leaves the structure as it is,
  for every \<^verbatim>\<open>t\<close> whose local seconds still have 32 bits; and so does \<^verbatim>\<open>_mkgmtime\<close> with \<^verbatim>\<open>gmtime\<close>.
\<close>

theorem mktime_localtime:
  assumes "0 \<le> t" and "t < 2147454848"
  shows "\<exists>l g. lualibc_localtime t = Some (Some l) \<and> lualibc_mktime l = Some (t, l) \<and>
    lualibc_gmtime t = Some (Some g) \<and> mkgmtime g = Some (t, g)"
proof -
  have b: "0 \<le> t" "t < 2147483648" using assms by simp_all
  obtain l where l: "lualibc_localtime t = Some (Some l)" "civil l (t + 28800)" "tm_isdst l = 0" "70 \<le> tm_year l" "tm_year l \<le> 138"
    using localtime_fields [OF b] by (auto simp: civil_def)
  obtain g where g: "lualibc_gmtime t = Some (Some g)" "civil g t" "70 \<le> tm_year g" "tm_year g \<le> 138"
    using gmtime_fields [OF b] by (auto simp: civil_def)
  have cl: "norm_seconds l = t + 28800" "sums_fit (norm_day l) l" "date_in_range l" "fields_fit l"
    using civil_sums [OF l(2) _ _ l(4,5)] assms by simp_all
  have "lualibc_mktime l = Some (t, l)"
    using mktime_ok [OF cl(3,4) _ cl(2)] l(1,3) assms(1) by (simp add: cl(1))
  moreover have "mkgmtime g = Some (t, g)"
    using make_time_exact [of g False] civil_sums [OF g(2) b g(3,4)] g(1)
    by (simp add: mkgmtime_def Let_def finish_time_def)
  ultimately show ?thesis using l(1) g(1) by blast
qed

theorem mktime_localtime_witness:
  "\<exists>l g. lualibc_localtime 1600000000 = Some (Some l) \<and> lualibc_mktime l = Some (1600000000, l) \<and>
    lualibc_gmtime 1600000000 = Some (Some g) \<and> mkgmtime g = Some (1600000000, g)"
  using mktime_localtime [of 1600000000] by simp

theorem mktime_exact_witness:
  "\<exists>tb. lualibc_mktime \<lparr>tm_sec = -10, tm_min = 70, tm_hour = -5, tm_mday = 40, tm_mon = -3, tm_year = 121,
      tm_wday = 0, tm_yday = 0, tm_isdst = 0\<rparr> = Some (1604837390, tb) \<and> civil tb 1604866190"
proof -
  define t where "t = \<lparr>tm_sec = -10, tm_min = 70, tm_hour = -5, tm_mday = 40, tm_mon = -3, tm_year = 121,
      tm_wday = 0, tm_yday = 0, tm_isdst = (0 :: int)\<rparr>"
  have n: "norm_year t = 2020" "norm_month t = 9" by (simp_all add: t_def norm_year_def norm_month_def)
  have "month_start 2020 9 = 274" by (simp add: month_start_def month_length_def leap_year_def eval_nat_numeral)
  then have d: "norm_day t = 18575" using year_start_closed [of 2020] by (simp add: norm_day_def n) (simp add: t_def)
  then have s: "norm_seconds t = 1604866190" by (simp add: norm_seconds_def) (simp add: t_def)
  have "sums_fit (norm_day t) t" unfolding d by (simp add: sums_fit_def fits_int_def t_def)
  moreover have "date_in_range t" unfolding date_in_range_def n by (simp add: t_def year_bad_def time_consts)
  moreover have "fields_fit t" by (simp add: fields_fit_def fits_int_def t_def)
  moreover have "tm_isdst t \<le> 0" by (simp add: t_def)
  ultimately have "\<exists>tb. lualibc_mktime t = Some (norm_seconds t - 28800, tb) \<and> civil tb (norm_seconds t)"
    using mktime_exact [of t] by (simp add: s)
  then show ?thesis by (simp add: s) (simp add: t_def)
qed

text \<open>
  With daylight saving asked for, half past eight local time on the first day passes the first conversion and makes
  the second one return a null pointer, which the function reads.
\<close>

lemma mktime_dst_null:
  "lualibc_mktime \<lparr>tm_sec = 0, tm_min = 30, tm_hour = 8, tm_mday = 1, tm_mon = 0, tm_year = 70, tm_wday = 0, tm_yday = 0, tm_isdst = 1\<rparr> = None"
  by code_simp

text \<open>Fields that stand for a time long before 1970 give a time in 2038: the sum with the time zone wraps.\<close>

lemma mktime_zone_wraps:
  "map_option fst (lualibc_mktime \<lparr>tm_sec = -8, tm_min = -14, tm_hour = -3, tm_mday = -24854, tm_mon = 0, tm_year = 70,
    tm_wday = 0, tm_yday = 0, tm_isdst = 0\<rparr>) = Some 2147454848"
  by code_simp

end
