(* ===== verification/Lua_pack.thy ===== *)
theory Lua_pack
  imports Lua_args
begin

text \<open>
  The Lua module \<^verbatim>\<open>pack\<close>, \<^verbatim>\<open>modules/src/lpack.c\<close>: conversion between Lua values and packed bytes under a
  format string. Lua numbers are integers of 32 bits in this build, so the codes for floating point are
  compiled out. The machine is little-endian and \<^verbatim>\<open>char\<close> is signed. A string is its bytes with the zero
  byte that Lua keeps behind them; a read outside it is \<open>None\<close>. The Lua stack is taken to have room.
\<close>

section \<open>Format codes\<close>

definition OP_ZSTRING :: u8 where "OP_ZSTRING = 0x7A"
definition OP_BSTRING :: u8 where "OP_BSTRING = 0x70"
definition OP_WSTRING :: u8 where "OP_WSTRING = 0x50"
definition OP_SSTRING :: u8 where "OP_SSTRING = 0x61"
definition OP_STRING :: u8 where "OP_STRING = 0x41"
definition OP_NUMBER :: u8 where "OP_NUMBER = 0x6E"
definition OP_CHAR :: u8 where "OP_CHAR = 0x63"
definition OP_BYTE :: u8 where "OP_BYTE = 0x62"
definition OP_SHORT :: u8 where "OP_SHORT = 0x68"
definition OP_USHORT :: u8 where "OP_USHORT = 0x48"
definition OP_INT :: u8 where "OP_INT = 0x69"
definition OP_UINT :: u8 where "OP_UINT = 0x49"
definition OP_LONG :: u8 where "OP_LONG = 0x6C"
definition OP_ULONG :: u8 where "OP_ULONG = 0x4C"
definition OP_LITTLEENDIAN :: u8 where "OP_LITTLEENDIAN = 0x3C"
definition OP_BIGENDIAN :: u8 where "OP_BIGENDIAN = 0x3E"
definition OP_NATIVE :: u8 where "OP_NATIVE = 0x3D"

lemmas op_codes = OP_ZSTRING_def OP_BSTRING_def OP_WSTRING_def OP_SSTRING_def OP_STRING_def OP_NUMBER_def OP_CHAR_def
  OP_BYTE_def OP_SHORT_def OP_USHORT_def OP_INT_def OP_UINT_def OP_LONG_def OP_ULONG_def OP_LITTLEENDIAN_def
  OP_BIGENDIAN_def OP_NATIVE_def

text \<open>Size and signedness of the type behind a number code, size of the length behind a string code.\<close>

definition number_type :: "u8 \<Rightarrow> (nat \<times> bool) option" where
  "number_type c =
     (if c = OP_NUMBER then Some (4, True)
      else if c = OP_CHAR then Some (1, True)
      else if c = OP_BYTE then Some (1, False)
      else if c = OP_SHORT then Some (2, True)
      else if c = OP_USHORT then Some (2, False)
      else if c = OP_INT then Some (4, True)
      else if c = OP_UINT then Some (4, False)
      else if c = OP_LONG then Some (4, True)
      else if c = OP_ULONG then Some (4, False)
      else None)"

definition string_type :: "u8 \<Rightarrow> nat option" where
  "string_type c =
     (if c = OP_BSTRING then Some 1 else if c = OP_WSTRING then Some 2 else if c = OP_SSTRING then Some 4 else None)"

definition doendian :: "u8 \<Rightarrow> bool" where
  "doendian c = (if c = OP_LITTLEENDIAN then False else if c = OP_BIGENDIAN then True else False)"

definition is_endian :: "u8 \<Rightarrow> bool" where
  "is_endian c \<longleftrightarrow> c = OP_LITTLEENDIAN \<or> c = OP_BIGENDIAN \<or> c = OP_NATIVE"

definition badcode :: "'a lua option" where
  "badcode = Some (Lua_error ''bad code'')"

section \<open>Objects in memory\<close>

text \<open>The bytes of an object of \<open>m\<close> bytes, and its value from them as a Lua number.\<close>

definition store_bytes :: "nat \<Rightarrow> u32 \<Rightarrow> u8 list" where
  "store_bytes m a = map (\<lambda>k. ucast (drop_bit (8 * k) a)) [0..<m]"

definition load_bytes :: "u8 list \<Rightarrow> u32" where
  "load_bytes bs = foldr (\<lambda>b a. ucast b OR push_bit 8 a) bs 0"

definition load_number :: "bool \<Rightarrow> u8 list \<Rightarrow> u32" where
  "load_number sg bs = (if sg then signed_take_bit (8 * length bs - 1) (load_bytes bs) else load_bytes bs)"

definition doswap :: "bool \<Rightarrow> u8 list \<Rightarrow> u8 list option" where
  "doswap swap p =
     (if swap then
        for_range 0 (length p div 2) (\<lambda>i a. do {
          t \<leftarrow> ld a i;
          u \<leftarrow> ld a (length p - 1 - i);
          a \<leftarrow> st a i u;
          st a (length p - 1 - i) t
        }) p
      else Some p)"

definition read_mem :: "u8 list \<Rightarrow> int \<Rightarrow> nat \<Rightarrow> u8 list option" where
  "read_mem s i m = (if 0 \<le> i \<and> nat i + m \<le> length s + 1 then Some (take m (drop (nat i) (s @ [0]))) else None)"

section \<open>The loop over the format\<close>

text \<open>
  Both functions read a code, a count and execute the code that often. A code may clear the rest of
  the count (\<open>Skip\<close>) or leave the loop (\<open>Done\<close>). It sees the count still to come. A count that
  does not fit an \<^verbatim>\<open>int\<close> is undefined.
\<close>

datatype 's outcome = Go 's | Skip 's | Done 's

definition lua_bind :: "'a lua option \<Rightarrow> ('a \<Rightarrow> 'b lua option) \<Rightarrow> 'b lua option" where
  "lua_bind m f = m \<bind> (\<lambda>r. lua_then r f)"

definition isdigit :: "u8 \<Rightarrow> bool" where
  "isdigit c \<longleftrightarrow> 0x30 \<le> c \<and> c \<le> 0x39"

fun count_digits :: "u8 list \<Rightarrow> nat \<Rightarrow> (nat \<times> u8 list) option" where
  "count_digits [] N = Some (N, [])"
| "count_digits (d # f) N =
     (if isdigit d
      then (if 10 * N + unat (d - 0x30) < 2147483648 then count_digits f (10 * N + unat (d - 0x30)) else None)
      else Some (N, d # f))"

definition directive_count :: "u8 list \<Rightarrow> (nat \<times> u8 list) option" where
  "directive_count f = (case f of d # _ \<Rightarrow> if isdigit d then count_digits f 0 else Some (1, f) | [] \<Rightarrow> Some (1, f))"

fun repeat_op :: "(nat \<Rightarrow> 's \<Rightarrow> 's outcome lua option) \<Rightarrow> nat \<Rightarrow> 's \<Rightarrow> 's outcome lua option" where
  "repeat_op op 0 s = Some (Lua_return (Go s))"
| "repeat_op op (Suc N) s = lua_bind (op N s) (\<lambda>r.
     case r of Go s \<Rightarrow> repeat_op op N s | Skip s \<Rightarrow> Some (Lua_return (Go s)) | Done s \<Rightarrow> Some (Lua_return (Done s)))"

lemma count_digits_length: "count_digits f N = Some (M, g) \<Longrightarrow> length g \<le> length f"
  by (induction f N rule: count_digits.induct) (auto split: if_splits)

lemma directive_count_length: "directive_count f = Some (M, g) \<Longrightarrow> length g \<le> length f"
  by (auto simp: directive_count_def dest: count_digits_length split: list.splits if_splits)

text \<open>\<open>zero\<close> is what a count of zero does before the loop.\<close>

function format_loop ::
  "(u8 \<Rightarrow> 's \<Rightarrow> 's) \<Rightarrow> (u8 \<Rightarrow> nat \<Rightarrow> 's \<Rightarrow> 's outcome lua option) \<Rightarrow> u8 list \<Rightarrow> 's \<Rightarrow> 's lua option" where
  "format_loop zero op f s =
     (case f of
        [] \<Rightarrow> Some (Lua_return s)
      | c # f \<Rightarrow> do {
          (N, f) \<leftarrow> directive_count f;
          lua_bind (repeat_op (op c) N (if N = 0 then zero c s else s)) (\<lambda>r.
            case r of Done s \<Rightarrow> Some (Lua_return s) | Skip s \<Rightarrow> format_loop zero op f s | Go s \<Rightarrow> format_loop zero op f s)
        })"
  by pat_completeness auto
termination
  by (relation "measure (\<lambda>(zero, op, f, s). length f)") (auto dest!: directive_count_length)

declare format_loop.simps [simp del]

section \<open>Packing\<close>

record pack_state =
  pk_i :: nat
  pk_swap :: bool
  pk_b :: "u8 list"

definition luaL_addlstring :: "u8 list \<Rightarrow> pack_state \<Rightarrow> pack_state" where
  "luaL_addlstring bs s = s\<lparr>pk_b := pk_b s @ bs\<rparr>"

definition pack_op :: "lua_arg list \<Rightarrow> u8 \<Rightarrow> nat \<Rightarrow> pack_state \<Rightarrow> pack_state outcome lua option" where
  "pack_op args c N s =
     (if is_endian c then Some (Lua_return (Skip (s\<lparr>pk_swap := doendian c\<rparr>)))
      else if c = OP_STRING \<or> c = OP_ZSTRING then
        lua_then (luaL_checkstring args (pk_i s)) (\<lambda>a.
          let s = s\<lparr>pk_i := pk_i s + 1\<rparr>; l = length a - 1
          in Some (Lua_return (Go (luaL_addlstring (take (if c = OP_ZSTRING then l + 1 else l) a) s))))
      else (case string_type c of
        Some m \<Rightarrow>
          lua_then (luaL_checkstring args (pk_i s)) (\<lambda>a. do {
            let s = s\<lparr>pk_i := pk_i s + 1\<rparr>;
            let l = length a - 1;
            ll \<leftarrow> doswap (pk_swap s) (store_bytes m (of_nat l));
            Some (Lua_return (Go (luaL_addlstring (take l a) (luaL_addlstring ll s))))
          })
      | None \<Rightarrow> (case number_type c of
          Some (m, _) \<Rightarrow>
            lua_then (luaL_checkinteger args (pk_i s)) (\<lambda>n. do {
              let s = s\<lparr>pk_i := pk_i s + 1\<rparr>;
              a \<leftarrow> doswap (pk_swap s) (store_bytes m n);
              Some (Lua_return (Go (luaL_addlstring a s)))
            })
        | None \<Rightarrow> if c = 0x20 \<or> c = 0x2C then Some (Lua_return (Go s)) else badcode)))"

definition c_string :: "u8 list \<Rightarrow> u8 list" where
  "c_string bs = takeWhile (\<lambda>c. c \<noteq> 0) bs"

definition l_pack :: "lua_arg list \<Rightarrow> u8 list lua option" where
  "l_pack args =
     lua_then (luaL_checkstring args 0) (\<lambda>f.
       lua_bind (format_loop (\<lambda>c s. s) (pack_op args) (c_string f) \<lparr>pk_i = 1, pk_swap = False, pk_b = []\<rparr>)
         (\<lambda>s. Some (Lua_return (pk_b s))))"

section \<open>Unpacking\<close>

record unpack_state =
  up_i :: int
  up_swap :: bool
  up_vals :: "lua_arg list"

definition push :: "lua_arg \<Rightarrow> unpack_state \<Rightarrow> unpack_state" where
  "push v s = s\<lparr>up_vals := up_vals s @ [v]\<rparr>"

text \<open>\<^verbatim>\<open>x > len\<close> where \<^verbatim>\<open>len\<close> is a \<^verbatim>\<open>size_t\<close>: \<^verbatim>\<open>x\<close> is converted to 32 bits without sign.\<close>

definition beyond :: "int \<Rightarrow> u8 list \<Rightarrow> bool" where
  "beyond x s \<longleftrightarrow> int (length s) < x mod 4294967296"

definition unpack_op :: "u8 list \<Rightarrow> u8 \<Rightarrow> nat \<Rightarrow> unpack_state \<Rightarrow> unpack_state outcome lua option" where
  "unpack_op str c N s =
     (let i = up_i s in
      if is_endian c then Some (Lua_return (Skip (s\<lparr>up_swap := doendian c\<rparr>)))
      else if c = OP_STRING then
        (let N = N + 1 in
         if beyond (i + int N) str then Some (Lua_return (Done s))
         else do {
           bs \<leftarrow> read_mem str i N;
           Some (Lua_return (Skip (push (Lua_string bs) (s\<lparr>up_i := i + int N\<rparr>))))
         })
      else if c = OP_ZSTRING then
        (if int (length str) \<le> i mod 4294967296 then Some (Lua_return (Done s))
         else if i < 0 then None
         else (let bs = c_string (drop (nat i) str)
               in Some (Lua_return (Go (push (Lua_string bs) (s\<lparr>up_i := i + int (length bs) + 1\<rparr>))))))
      else (case string_type c of
        Some m \<Rightarrow>
          (if beyond (i + int m) str then Some (Lua_return (Done s))
           else do {
             ls \<leftarrow> read_mem str i m;
             ls \<leftarrow> doswap (up_swap s) ls;
             let l = unat (load_bytes ls);
             (if beyond (i + int m + int l) str then Some (Lua_return (Done s))
              else do {
                bs \<leftarrow> read_mem str (i + int m) l;
                Some (Lua_return (Go (push (Lua_string bs) (s\<lparr>up_i := i + int m + int l\<rparr>))))
              })
           })
      | None \<Rightarrow> (case number_type c of
          Some (m, sg) \<Rightarrow>
            (if beyond (i + int m) str then Some (Lua_return (Done s))
             else do {
               a \<leftarrow> read_mem str i m;
               a \<leftarrow> doswap (up_swap s) a;
               Some (Lua_return (Go (push (Lua_number (load_number sg a)) (s\<lparr>up_i := i + int m\<rparr>))))
             })
        | None \<Rightarrow> if c = 0x20 \<or> c = 0x2C then Some (Lua_return (Go s)) else badcode)))"

text \<open>A count of zero pushes an empty string for the code \<open>A\<close>.\<close>

definition zero_count :: "u8 \<Rightarrow> unpack_state \<Rightarrow> unpack_state" where
  "zero_count c s = (if c = OP_STRING then push (Lua_string []) s else s)"

definition luaL_optnumber :: "lua_arg list \<Rightarrow> nat \<Rightarrow> u32 \<Rightarrow> u32 lua" where
  "luaL_optnumber args k d = (if k < length args then luaL_checkinteger args k else Lua_return d)"

definition l_unpack :: "lua_arg list \<Rightarrow> lua_arg list lua option" where
  "l_unpack args =
     lua_then (luaL_checkstring args 0) (\<lambda>s.
     lua_then (luaL_checkstring args 1) (\<lambda>f.
     lua_then (luaL_optnumber args 2 1) (\<lambda>init.
       lua_bind (format_loop zero_count
           (unpack_op (butlast s)) (c_string f) \<lparr>up_i = sint (init - 1), up_swap = False, up_vals = []\<rparr>)
         (\<lambda>st. Some (Lua_return (Lua_number (word_of_int (up_i st) + 1) # up_vals st))))))"

section \<open>The bytes of an object\<close>

lemma doswap_rev: "doswap swap p = Some (if swap then rev p else p)"
proof (cases swap)
  case True
  let ?n = "length p"
  let ?body = "\<lambda>i a. do { t \<leftarrow> ld a i; u \<leftarrow> ld a (?n - 1 - i); a \<leftarrow> st a i u; st a (?n - 1 - i) t }"
  let ?P = "\<lambda>i a. length a = ?n \<and> (\<forall>j < ?n. a ! j = (if j < i \<or> ?n - i \<le> j then p ! (?n - 1 - j) else p ! j))"
  have step: "\<exists>b. ?body i a = Some b \<and> ?P (Suc i) b" if i: "i < ?n div 2" and P: "?P i a" for i a
  proof -
    have len: "length a = ?n" and n: "i < ?n" "?n - 1 - i < ?n" "i \<noteq> ?n - 1 - i" using P i by auto
    have "?body i a = Some (a[i := a ! (?n - 1 - i), ?n - 1 - i := a ! i])"
      using n len by (simp add: ld_def st_def)
    moreover have "a ! i = p ! i" "a ! (?n - 1 - i) = p ! (?n - 1 - i)" using P i n by auto
    moreover have "?P (Suc i) (a[i := p ! (?n - 1 - i), ?n - 1 - i := p ! i])"
      using P n i by (auto simp: nth_list_update)
    ultimately show ?thesis by auto
  qed
  obtain b where b: "for_range 0 (?n div 2) ?body p = Some b" "?P (?n div 2) b"
    using for_range_rule [of 0 "?n div 2" ?P p ?body] step by auto
  have "b = rev p"
  proof (rule nth_equalityI)
    show "length b = length (rev p)" using b(2) by simp
    fix j assume "j < length b"
    then have j: "j < ?n" using b(2) by simp
    show "b ! j = rev p ! j"
    proof (cases "j < ?n div 2 \<or> ?n - ?n div 2 \<le> j")
      case True
      then show ?thesis using b(2) j by (simp add: rev_nth)
    next
      case False
      then have "?n - 1 - j = j" using j by linarith
      then show ?thesis using b(2) j False by (simp add: rev_nth)
    qed
  qed
  then show ?thesis using b(1) True by (simp add: doswap_def)
qed (simp add: doswap_def)

lemma store_bytes_Suc: "store_bytes (Suc m) a = ucast a # store_bytes m (drop_bit 8 a)"
  by (simp add: store_bytes_def upt_conv_Cons map_Suc_upt [symmetric] add.commute del: upt_Suc map_Suc_upt)

lemma load_store: "load_bytes (store_bytes m a) = take_bit (8 * m) a"
proof (induction m arbitrary: a)
  case 0
  then show ?case by (simp add: store_bytes_def load_bytes_def)
next
  case (Suc m)
  have "load_bytes (store_bytes (Suc m) a) = ucast (ucast a :: u8) OR push_bit 8 (take_bit (8 * m) (drop_bit 8 a))"
    using Suc by (simp add: store_bytes_Suc load_bytes_def)
  also have "\<dots> = take_bit (8 * Suc m) a"
    by (rule bit_word_eqI) (auto simp: bit_simps)
  finally show ?case .
qed

lemma length_store_bytes [simp]: "length (store_bytes m a) = m"
  by (simp add: store_bytes_def)

lemma load_bytes_fits: "take_bit (8 * length bs) (load_bytes bs) = load_bytes bs"
proof (induction bs)
  case Nil
  then show ?case by (simp add: load_bytes_def)
next
  case (Cons b bs)
  have e: "load_bytes (b # bs) = ucast b OR push_bit 8 (load_bytes bs)" by (simp add: load_bytes_def)
  have h: "bit (load_bytes bs) n \<Longrightarrow> n < 8 * length bs" for n
    using arg_cong [OF Cons, of "\<lambda>w. bit w n"] by (simp add: bit_simps)
  have "bit b n \<Longrightarrow> n < 8" for n using bit_imp_le_length [of b n] by simp
  then have "bit (load_bytes (b # bs)) n \<Longrightarrow> n < 8 * length (b # bs)" for n
    using h [of "n - 8"] unfolding e by (auto simp: bit_simps) (metis add_lessD1 add.commute less_diff_conv trans_less_add1)+
  then show ?case by (intro bit_word_eqI) (auto simp: bit_simps)
qed

lemma load_bytes_less: "unat (load_bytes bs) < 2 ^ (8 * length bs)"
  using unat_take_bit_less [of "8 * length bs" "load_bytes bs"] by (simp add: load_bytes_fits)

section \<open>The format as a list of codes\<close>

text \<open>A count repeats its code; the byte order is only set once.\<close>

function expand :: "u8 list \<Rightarrow> u8 list option" where
  "expand f =
     (case f of
        [] \<Rightarrow> Some []
      | c # f \<Rightarrow> do {
          (N, f) \<leftarrow> directive_count f;
          cs \<leftarrow> expand f;
          Some (replicate (if is_endian c then min N 1 else N) c @ cs)
        })"
  by pat_completeness auto
termination
  by (relation "measure length") (auto dest!: directive_count_length)

declare expand.simps [simp del]

fun run_codes :: "(u8 \<Rightarrow> nat \<Rightarrow> 's \<Rightarrow> 's outcome lua option) \<Rightarrow> u8 list \<Rightarrow> 's \<Rightarrow> 's outcome lua option" where
  "run_codes op [] s = Some (Lua_return (Go s))"
| "run_codes op (c # cs) s = lua_bind (op c 0 s) (\<lambda>r.
     case r of Go s \<Rightarrow> run_codes op cs s | Skip s \<Rightarrow> run_codes op cs s | Done s \<Rightarrow> Some (Lua_return (Done s)))"

fun final :: "'s outcome \<Rightarrow> 's" where
  "final (Go s) = s" | "final (Skip s) = s" | "final (Done s) = s"

lemma lua_bind_simps [simp]:
  "lua_bind None f = None" "lua_bind (Some (Lua_error e)) f = Some (Lua_error e)" "lua_bind (Some (Lua_return x)) f = f x"
  by (simp_all add: lua_bind_def)

lemma lua_bind_assoc: "lua_bind (lua_bind m f) g = lua_bind m (\<lambda>x. lua_bind (f x) g)"
  by (cases m) (auto simp: lua_bind_def lua_then_def split: lua.splits)

lemma lua_option_cases [case_names undefined error go skip leave]:
  assumes "m = None \<Longrightarrow> P" and "\<And>e. m = Some (Lua_error e) \<Longrightarrow> P" and "\<And>s. m = Some (Lua_return (Go s)) \<Longrightarrow> P"
    and "\<And>s. m = Some (Lua_return (Skip s)) \<Longrightarrow> P" and "\<And>s. m = Some (Lua_return (Done s)) \<Longrightarrow> P"
  shows P
  using assms by (cases m) (simp, metis lua.exhaust outcome.exhaust)

lemma run_codes_append:
  "run_codes op (cs @ ds) s = lua_bind (run_codes op cs s) (\<lambda>r.
     case r of Go s \<Rightarrow> run_codes op ds s | Skip s \<Rightarrow> run_codes op ds s | Done s \<Rightarrow> Some (Lua_return (Done s)))"
proof (induction cs arbitrary: s)
  case (Cons c cs)
  show ?case by (cases "op c 0 s" rule: lua_option_cases) (simp_all add: Cons)
qed simp

lemma count_digits_set: "count_digits f N = Some (M, g) \<Longrightarrow> set g \<subseteq> set f"
  by (induction f N rule: count_digits.induct) (auto split: if_splits)

lemma directive_count_set: "directive_count f = Some (M, g) \<Longrightarrow> set g \<subseteq> set f"
  by (auto simp: directive_count_def dest: count_digits_set split: list.splits if_splits)

lemma expand_set: "expand f = Some cs \<Longrightarrow> set cs \<subseteq> set f"
proof (induction f arbitrary: cs rule: expand.induct)
  case (1 f)
  show ?case
  proof (cases f)
    case Nil
    then show ?thesis using 1(2) by (simp add: expand.simps [of "[]"])
  next
    case (Cons c g)
    then obtain N h ds where h: "directive_count g = Some (N, h)" "expand h = Some ds"
        "cs = replicate (if is_endian c then min N 1 else N) c @ ds"
      using 1(2) by (auto simp: expand.simps [of "c # g"] elim!: bind_SomeE)
    then show ?thesis using 1(1) [OF Cons h(1) refl h(2)] directive_count_set [OF h(1)] Cons by auto
  qed
qed

text \<open>What the two functions promise of their operations, so that the counts can be unrolled.\<close>

locale format_op =
  fixes zero :: "u8 \<Rightarrow> 's \<Rightarrow> 's"
    and op :: "u8 \<Rightarrow> nat \<Rightarrow> 's \<Rightarrow> 's outcome lua option"
  assumes zero: "c \<noteq> OP_STRING \<Longrightarrow> zero c s = s"
    and count: "c \<noteq> OP_STRING \<Longrightarrow> op c N s = op c 0 s"
    and skip: "is_endian c \<Longrightarrow> \<exists>t. op c N s = Some (Lua_return (Skip t))"
    and no_skip: "c \<noteq> OP_STRING \<Longrightarrow> \<not> is_endian c \<Longrightarrow> op c N s \<noteq> Some (Lua_return (Skip t))"
begin

lemma repeat_codes:
  assumes "c \<noteq> OP_STRING"
  shows "repeat_op (op c) N s = run_codes op (replicate (if is_endian c then min N 1 else N) c) s"
proof (cases "is_endian c")
  case True
  then show ?thesis
  proof (cases N)
    case (Suc n)
    obtain t where t: "op c n s = Some (Lua_return (Skip t))" using skip [OF True] by blast
    moreover have "op c 0 s = Some (Lua_return (Skip t))" using t count [OF assms] by metis
    ultimately show ?thesis using True Suc by simp
  qed simp
next
  case False
  show ?thesis
  proof (induction N arbitrary: s)
    case (Suc N)
    have "op c N s = op c 0 s" using count [OF assms] .
    moreover have "\<And>t. op c 0 s \<noteq> Some (Lua_return (Skip t))" using no_skip [OF assms False] .
    ultimately show ?case using Suc False
      by (cases "op c 0 s") (auto simp: lua_bind_def lua_then_def split: lua.splits outcome.splits)
  qed simp
qed

lemma format_loop_codes:
  "OP_STRING \<notin> set f \<Longrightarrow> expand f = Some cs \<Longrightarrow>
    format_loop zero op f s = lua_bind (run_codes op cs s) (\<lambda>r. Some (Lua_return (final r)))"
proof (induction f arbitrary: cs s rule: expand.induct)
  case (1 f)
  show ?case
  proof (cases f)
    case Nil
    then show ?thesis using 1(3) by (simp add: expand.simps [of "[]"] format_loop.simps [of _ _ "[]"])
  next
    case (Cons c g)
    obtain N h ds where h: "directive_count g = Some (N, h)" "expand h = Some ds"
        "cs = replicate (if is_endian c then min N 1 else N) c @ ds"
      using 1(3) Cons by (auto simp: expand.simps [of "c # g"] elim!: bind_SomeE)
    have c: "c \<noteq> OP_STRING" using 1(2) Cons by auto
    have "OP_STRING \<notin> set h" using directive_count_set [OF h(1)] 1(2) Cons by auto
    note IH = 1(1) [OF Cons h(1) refl this h(2)]
    let ?r = "run_codes op (replicate (if is_endian c then min N 1 else N) c) s"
    have "format_loop zero op f s = lua_bind ?r (\<lambda>r.
        case r of Done s \<Rightarrow> Some (Lua_return s) | Skip s \<Rightarrow> format_loop zero op h s | Go s \<Rightarrow> format_loop zero op h s)"
      by (simp only: Cons format_loop.simps [of _ _ "c # g"] h(1) list.case bind.bind_lunit prod.case zero [OF c] if_cancel repeat_codes [OF c])
    also have "\<dots> = lua_bind (run_codes op cs s) (\<lambda>r. Some (Lua_return (final r)))"
      unfolding h(3) run_codes_append by (cases ?r rule: lua_option_cases) (simp_all only: lua_bind_simps outcome.case IH final.simps)
    finally show ?thesis .
  qed
qed

end

lemma code_kinds:
  "string_type c = Some m \<Longrightarrow> \<not> is_endian c \<and> c \<noteq> OP_STRING \<and> c \<noteq> OP_ZSTRING \<and> number_type c = None \<and> m \<in> {1, 2, 4}"
  "number_type c = Some p \<Longrightarrow> \<not> is_endian c \<and> c \<noteq> OP_STRING \<and> c \<noteq> OP_ZSTRING \<and> string_type c = None \<and> fst p \<in> {1, 2, 4}"
  "\<not> is_endian OP_ZSTRING" "OP_ZSTRING \<noteq> OP_STRING" "\<not> is_endian OP_STRING"
  by (auto simp: string_type_def number_type_def is_endian_def op_codes split: if_splits)

interpretation pk: format_op "\<lambda>c s. s" "pack_op args" for args
proof
  fix c :: u8 and N :: nat and s t :: pack_state
  show "c \<noteq> OP_STRING \<Longrightarrow> pack_op args c N s = pack_op args c 0 s" by (simp add: pack_op_def)
  show "is_endian c \<Longrightarrow> \<exists>t. pack_op args c N s = Some (Lua_return (Skip t))" by (simp add: pack_op_def)
  assume "c \<noteq> OP_STRING" "\<not> is_endian c"
  then show "pack_op args c N s \<noteq> Some (Lua_return (Skip t))"
    by (auto simp: pack_op_def lua_then_def badcode_def Let_def doswap_rev split: lua.splits option.splits)
qed simp

definition never_skips :: "'s outcome lua option \<Rightarrow> bool" where
  "never_skips r \<longleftrightarrow> (\<forall>t. r \<noteq> Some (Lua_return (Skip t)))"

lemma never_skips_simps [simp]:
  "never_skips None" "never_skips (Some (Lua_return (Go s)))" "never_skips (Some (Lua_return (Done s)))" "never_skips badcode"
  by (simp_all add: never_skips_def badcode_def)

lemma never_skips_intros:
  "(\<And>x. never_skips (f x)) \<Longrightarrow> never_skips (m \<bind> f)"
  "never_skips a \<Longrightarrow> never_skips b \<Longrightarrow> never_skips (if p then a else b)"
  "never_skips a \<Longrightarrow> (\<And>x. never_skips (f x)) \<Longrightarrow> never_skips (case_option a f m)"
  "(\<And>x y. never_skips (g x y)) \<Longrightarrow> never_skips (case_prod g q)"
  by (cases m; simp)+ (cases q, simp)

lemma unpack_never_skips:
  assumes "c \<noteq> OP_STRING" and "\<not> is_endian c"
  shows "never_skips (unpack_op str c N s)"
  using assms unfolding unpack_op_def Let_def
  by (simp only: if_False) (intro never_skips_intros never_skips_simps)

interpretation upk: format_op zero_count "unpack_op str" for str
proof
  fix c :: u8 and N :: nat and s t :: unpack_state
  show "c \<noteq> OP_STRING \<Longrightarrow> unpack_op str c N s = unpack_op str c 0 s" by (simp add: unpack_op_def Let_def)
  show "c \<noteq> OP_STRING \<Longrightarrow> zero_count c s = s" by (simp add: zero_count_def)
  show "is_endian c \<Longrightarrow> \<exists>t. unpack_op str c N s = Some (Lua_return (Skip t))" by (simp add: unpack_op_def Let_def)
  show "c \<noteq> OP_STRING \<Longrightarrow> \<not> is_endian c \<Longrightarrow> unpack_op str c N s \<noteq> Some (Lua_return (Skip t))"
    using unpack_never_skips [of c str N s] by (simp add: never_skips_def)
qed

section \<open>What is packed\<close>

text \<open>The values a code can represent, and the bytes that represent them.\<close>

definition is_blank :: "u8 \<Rightarrow> bool" where
  "is_blank c \<longleftrightarrow> c = 0x20 \<or> c = 0x2C"

definition item_ok :: "u8 \<Rightarrow> lua_arg \<Rightarrow> bool" where
  "item_ok c v = (case v of
     Lua_string bs \<Rightarrow> (case string_type c of Some m \<Rightarrow> length bs < 2 ^ (8 * m) | None \<Rightarrow> c = OP_ZSTRING \<and> 0 \<notin> set bs)
   | Lua_number n \<Rightarrow> (case number_type c of
       Some (m, sg) \<Rightarrow> (if sg then signed_take_bit (8 * m - 1) n = n else take_bit (8 * m) n = n)
     | None \<Rightarrow> False)
   | _ \<Rightarrow> False)"

definition item_bytes :: "bool \<Rightarrow> u8 \<Rightarrow> lua_arg \<Rightarrow> u8 list" where
  "item_bytes swap c v = (case v of
     Lua_string bs \<Rightarrow> (case string_type c of
         Some m \<Rightarrow> (if swap then rev else id) (store_bytes m (of_nat (length bs))) @ bs
       | None \<Rightarrow> bs @ [0])
   | Lua_number n \<Rightarrow> (case number_type c of Some (m, _) \<Rightarrow> (if swap then rev else id) (store_bytes m n) | None \<Rightarrow> [])
   | _ \<Rightarrow> [])"

fun codes_ok :: "u8 list \<Rightarrow> lua_arg list \<Rightarrow> bool" where
  "codes_ok [] vs \<longleftrightarrow> vs = []"
| "codes_ok (c # cs) vs \<longleftrightarrow>
     (if is_endian c \<or> is_blank c then codes_ok cs vs
      else (case vs of [] \<Rightarrow> False | v # vs \<Rightarrow> item_ok c v \<and> codes_ok cs vs))"

fun packed :: "bool \<Rightarrow> u8 list \<Rightarrow> lua_arg list \<Rightarrow> u8 list" where
  "packed swap [] vs = []"
| "packed swap (c # cs) vs =
     (if is_endian c then packed (doendian c) cs vs
      else if is_blank c then packed swap cs vs
      else (case vs of [] \<Rightarrow> [] | v # vs \<Rightarrow> item_bytes swap c v @ packed swap cs vs))"

lemma item_code: "item_ok c v \<Longrightarrow> \<not> is_endian c \<and> \<not> is_blank c \<and> c \<noteq> OP_STRING"
  by (auto simp: item_ok_def is_blank_def string_type_def number_type_def is_endian_def op_codes
      split: lua_arg.splits option.splits if_splits)

lemma pack_item:
  assumes ok: "item_ok c v" and k: "pk_i s < length args" "args ! pk_i s = v"
  shows "pack_op args c N s =
    Some (Lua_return (Go (s\<lparr>pk_i := pk_i s + 1, pk_b := pk_b s @ item_bytes (pk_swap s) c v\<rparr>)))"
proof (cases v)
  case (Lua_number n)
  then obtain m sg where "number_type c = Some (m, sg)" using ok by (auto simp: item_ok_def split: option.splits)
  then show ?thesis using code_kinds(2) [of c "(m, sg)"] k Lua_number
    by (simp add: pack_op_def doswap_rev luaL_addlstring_def item_bytes_def Let_def)
next
  case (Lua_string bs)
  have ck: "luaL_checkstring args (pk_i s) = Lua_return (bs @ [0])"
    using k Lua_string by (simp add: luaL_checkstring_def lua_arg_at_def)
  show ?thesis
  proof (cases "string_type c")
    case None
    then have "c = OP_ZSTRING" using ok Lua_string by (simp add: item_ok_def)
    then show ?thesis using None ck Lua_string
      by (simp add: pack_op_def luaL_addlstring_def item_bytes_def Let_def code_kinds(3))
  next
    case (Some m)
    then show ?thesis using code_kinds(1) [OF Some] ck Lua_string
      by (simp add: pack_op_def doswap_rev luaL_addlstring_def item_bytes_def Let_def)
  qed
qed (use ok in \<open>simp_all add: item_ok_def\<close>)

lemma read_mem_at:
  "str = pre @ bs @ post \<Longrightarrow> i = int (length pre) \<Longrightarrow> read_mem str i (length bs) = Some bs"
  by (simp add: read_mem_def)

lemma not_beyond: "0 \<le> x \<Longrightarrow> x \<le> int (length str) \<Longrightarrow> length str < 2147483648 \<Longrightarrow> \<not> beyond x str"
  by (simp add: beyond_def)

lemma load_item:
  assumes "item_ok c (Lua_number n)" and "number_type c = Some (m, sg)"
  shows "load_number sg (store_bytes m n) = n"
proof (cases sg)
  case True
  have "signed_take_bit (8 * m - 1) (take_bit (8 * m) n) = signed_take_bit (8 * m - 1) n"
    using code_kinds(2) [OF assms(2)] by (intro signed_take_bit_eq_iff_take_bit_eq [THEN iffD2]) auto
  then show ?thesis using assms True by (simp add: load_number_def load_store item_ok_def)
qed (use assms in \<open>simp add: load_number_def load_store item_ok_def\<close>)

lemma c_string_at: "0 \<notin> set bs \<Longrightarrow> c_string (bs @ 0 # cs) = bs"
  by (induction bs) (simp_all add: c_string_def)

lemma unpack_number:
  assumes ok: "item_ok c v" and str: "str = pre @ item_bytes (up_swap s) c v @ post" "length str < 2147483648"
    and i: "up_i s = int (length pre)" and Lua_number: "v = Lua_number n"
  shows "unpack_op str c N s = Some (Lua_return (Go (s\<lparr>up_i := int (length pre + length (item_bytes (up_swap s) c v)),
    up_vals := up_vals s @ [v]\<rparr>)))"
proof -
  obtain m sg where t: "number_type c = Some (m, sg)" using ok Lua_number by (auto simp: item_ok_def split: option.splits)
  let ?b = "(if up_swap s then rev else id) (store_bytes m n)"
  have b: "item_bytes (up_swap s) c v = ?b" "length ?b = m" using Lua_number t by (simp_all add: item_bytes_def)
  have "read_mem str (up_i s) m = Some ?b" using read_mem_at [of str pre ?b post "up_i s"] str(1) i b by simp
  moreover have "doswap (up_swap s) ?b = Some (store_bytes m n)" by (simp add: doswap_rev)
  moreover have "\<not> beyond (up_i s + int m) str" using str b i by (intro not_beyond) auto
  moreover have "load_number sg (store_bytes m n) = n" using ok t Lua_number by (intro load_item) auto
  ultimately show ?thesis using code_kinds(2) [OF t] t Lua_number i b
    by (simp add: unpack_op_def Let_def push_def)
qed

lemma unpack_zstring:
  assumes ok: "item_ok c v" and str: "str = pre @ item_bytes (up_swap s) c v @ post" "length str < 2147483648"
    and i: "up_i s = int (length pre)" and Lua_string: "v = Lua_string bs" and None: "string_type c = None"
  shows "unpack_op str c N s = Some (Lua_return (Go (s\<lparr>up_i := int (length pre + length (item_bytes (up_swap s) c v)),
    up_vals := up_vals s @ [v]\<rparr>)))"
proof -
  have z: "c = OP_ZSTRING" "0 \<notin> set bs" using ok Lua_string None by (simp_all add: item_ok_def)
  have b: "item_bytes (up_swap s) c v = bs @ [0]" using None Lua_string by (simp add: item_bytes_def)
  have "c_string (drop (length pre) str) = bs"
    using c_string_at [OF z(2)] by (simp add: str(1) b)
  moreover have "\<not> int (length str) \<le> up_i s mod 4294967296" using str i by (simp add: b)
  ultimately show ?thesis using z None Lua_string i b
    by (simp add: unpack_op_def Let_def push_def code_kinds(3,4))
qed

lemma unpack_lstring:
  assumes ok: "item_ok c v" and str: "str = pre @ item_bytes (up_swap s) c v @ post" "length str < 2147483648"
    and i: "up_i s = int (length pre)" and Lua_string: "v = Lua_string bs" and Some: "string_type c = Some m"
  shows "unpack_op str c N s = Some (Lua_return (Go (s\<lparr>up_i := int (length pre + length (item_bytes (up_swap s) c v)),
    up_vals := up_vals s @ [v]\<rparr>)))"
proof -
  let ?l = "(if up_swap s then rev else id) (store_bytes m (of_nat (length bs)))"
  have b: "item_bytes (up_swap s) c v = ?l @ bs" "length ?l = m" using Some Lua_string by (simp_all add: item_bytes_def)
  have L: "length pre + m + length bs \<le> length str" using b str(1) by simp
  have len: "length bs < 2 ^ (8 * m)" using ok Some Lua_string by (simp add: item_ok_def)
  have "read_mem str (up_i s) m = Some ?l" using read_mem_at [of str pre ?l "bs @ post" "up_i s"] str(1) i b by simp
  moreover have "doswap (up_swap s) ?l = Some (store_bytes m (of_nat (length bs)))" by (simp add: doswap_rev)
  moreover have u: "unat (load_bytes (store_bytes m (of_nat (length bs)))) = length bs"
    using len str b by (simp add: load_store unsigned_take_bit_eq take_bit_nat_eq_self)
  moreover have "uint (load_bytes (store_bytes m (of_nat (length bs)))) = int (length bs)"
    using u uint_nat [of "load_bytes (store_bytes m (of_nat (length bs)))"] by metis
  moreover have "\<not> beyond (up_i s + int m) str" "\<not> beyond (up_i s + int m + int (length bs)) str"
    using not_beyond [of "up_i s + int m" str] not_beyond [of "up_i s + int m + int (length bs)" str] L str(2) i
    by simp_all
  moreover have "read_mem str (up_i s + int m) (length bs) = Some bs"
    using read_mem_at [of str "pre @ ?l" bs post "up_i s + int m"] str(1) i b by simp
  ultimately show ?thesis using code_kinds(1) [OF Some] Some Lua_string i b
    by (simp add: unpack_op_def Let_def push_def)
qed

lemma unpack_item:
  assumes ok: "item_ok c v" and str: "str = pre @ item_bytes (up_swap s) c v @ post" "length str < 2147483648"
    and i: "up_i s = int (length pre)"
  shows "unpack_op str c N s = Some (Lua_return (Go (s\<lparr>up_i := int (length pre + length (item_bytes (up_swap s) c v)),
    up_vals := up_vals s @ [v]\<rparr>)))"
proof (cases v)
  case (Lua_string bs)
  then show ?thesis using unpack_zstring [OF assms Lua_string] unpack_lstring [OF assms Lua_string] by (cases "string_type c") auto
qed (use ok unpack_number [OF assms] in \<open>simp_all add: item_ok_def\<close>)

lemma blank_op:
  assumes "is_blank c" and "\<not> is_endian c"
  shows "pack_op args c N s = Some (Lua_return (Go s))" and "unpack_op str c N t = Some (Lua_return (Go t))"
proof -
  have "string_type c = None" "number_type c = None" "c \<noteq> OP_STRING" "c \<noteq> OP_ZSTRING"
    using assms(1) by (auto simp: is_blank_def string_type_def number_type_def op_codes)
  then show "pack_op args c N s = Some (Lua_return (Go s))" "unpack_op str c N t = Some (Lua_return (Go t))"
    using assms by (simp_all add: is_blank_def pack_op_def unpack_op_def Let_def)
qed

lemma pack_run:
  "codes_ok cs vs \<Longrightarrow> drop (pk_i s) args = vs \<Longrightarrow>
    \<exists>t. run_codes (pack_op args) cs s = Some (Lua_return (Go t)) \<and> pk_b t = pk_b s @ packed (pk_swap s) cs vs"
proof (induction cs vs arbitrary: s rule: codes_ok.induct)
  case (1 vs)
  then show ?case by simp
next
  case (2 c cs vs)
  consider (endian) "is_endian c" | (blank) "\<not> is_endian c" "is_blank c" | (item) "\<not> is_endian c" "\<not> is_blank c" by blast
  then show ?case
  proof cases
    case endian
    then have "pack_op args c 0 s = Some (Lua_return (Skip (s\<lparr>pk_swap := doendian c\<rparr>)))" by (simp add: pack_op_def)
    then show ?thesis using 2(1) [of "s\<lparr>pk_swap := doendian c\<rparr>"] 2(3,4) endian by simp
  next
    case blank
    then show ?thesis using 2(1) [of s] 2(3,4) by (simp add: blank_op)
  next
    case item
    then obtain v ws where v: "vs = v # ws" "item_ok c v" "codes_ok cs ws" using 2(3) by (auto split: list.splits)
    have k1: "pk_i s < length args" using 2(4) v(1) by (cases "pk_i s < length args") auto
    then have k: "args ! pk_i s = v" "drop (Suc (pk_i s)) args = ws"
      using 2(4) v(1) Cons_nth_drop_Suc [OF k1] by simp_all
    let ?s = "s\<lparr>pk_i := pk_i s + 1, pk_b := pk_b s @ item_bytes (pk_swap s) c v\<rparr>"
    have "run_codes (pack_op args) (c # cs) s = run_codes (pack_op args) cs ?s"
      by (simp add: pack_item [OF v(2) k1 k(1)])
    then show ?thesis using 2(2) [of v ws ?s] item v k by simp
  qed
qed

lemma unpack_run:
  "codes_ok cs vs \<Longrightarrow> str = pre @ packed (up_swap s) cs vs @ post \<Longrightarrow> length str < 2147483648 \<Longrightarrow> up_i s = int (length pre) \<Longrightarrow>
    \<exists>t. run_codes (unpack_op str) cs s = Some (Lua_return (Go t)) \<and>
      up_i t = int (length pre + length (packed (up_swap s) cs vs)) \<and> up_vals t = up_vals s @ vs"
proof (induction cs vs arbitrary: s pre rule: codes_ok.induct)
  case (1 vs)
  then show ?case by simp
next
  case (2 c cs vs)
  consider (endian) "is_endian c" | (blank) "\<not> is_endian c" "is_blank c" | (item) "\<not> is_endian c" "\<not> is_blank c" by blast
  then show ?case
  proof cases
    case endian
    then have "unpack_op str c 0 s = Some (Lua_return (Skip (s\<lparr>up_swap := doendian c\<rparr>)))" by (simp add: unpack_op_def Let_def)
    then show ?thesis using 2(1) [of pre "s\<lparr>up_swap := doendian c\<rparr>"] 2(3-) endian by simp
  next
    case blank
    then show ?thesis using 2(1) [of pre s] 2(3-) by (simp add: blank_op)
  next
    case item
    then obtain v ws where v: "vs = v # ws" "item_ok c v" "codes_ok cs ws" using 2(3) by (auto split: list.splits)
    let ?b = "item_bytes (up_swap s) c v"
    have str: "str = pre @ ?b @ packed (up_swap s) cs ws @ post" using 2(4) item v(1) by simp
    let ?s = "s\<lparr>up_i := int (length pre + length ?b), up_vals := up_vals s @ [v]\<rparr>"
    obtain t where "run_codes (unpack_op str) cs ?s = Some (Lua_return (Go t))"
        "up_i t = int (length (pre @ ?b) + length (packed (up_swap s) cs ws))" "up_vals t = (up_vals s @ [v]) @ ws"
      using 2(2) [of v ws "pre @ ?b" ?s] item v str 2(5) by auto
    moreover have "run_codes (unpack_op str) (c # cs) s = run_codes (unpack_op str) cs ?s"
      by (simp only: run_codes.simps unpack_item [OF v(2) str 2(5,6)] lua_bind_simps outcome.case)
    ultimately show ?thesis using item v(1) by simp
  qed
qed

section \<open>What is unpacked\<close>

text \<open>Values that belong to the codes, as far as they go.\<close>

fun typed_prefix :: "u8 list \<Rightarrow> lua_arg list \<Rightarrow> bool" where
  "typed_prefix [] vs \<longleftrightarrow> vs = []"
| "typed_prefix (c # cs) vs \<longleftrightarrow>
     vs = [] \<or> (if is_endian c \<or> is_blank c then typed_prefix cs vs else item_ok c (hd vs) \<and> typed_prefix cs (tl vs))"

lemma typed_prefix_Nil: "typed_prefix cs []"
  by (cases cs) simp_all

lemma read_mem_length: "read_mem str i m = Some b \<Longrightarrow> length b = m"
  by (auto simp: read_mem_def split: if_splits)

lemma signed_take_bit_twice: "signed_take_bit n (signed_take_bit n (x :: u32)) = signed_take_bit n x"
  by (rule bit_word_eqI) (auto simp: bit_simps)

lemma load_number_typed:
  assumes "number_type c = Some (length b, sg)"
  shows "item_ok c (Lua_number (load_number sg b))"
proof -
  show ?thesis using assms load_bytes_fits [of b] by (simp add: item_ok_def load_number_def signed_take_bit_twice)
qed

text \<open>A code that is not blank and not a byte order pushes one value of its type or leaves the loop.\<close>

definition pushes_typed :: "u8 \<Rightarrow> unpack_state \<Rightarrow> unpack_state outcome lua option \<Rightarrow> bool" where
  "pushes_typed c s r \<longleftrightarrow>
     (case r of Some (Lua_return (Go t)) \<Rightarrow> \<exists>v. up_vals t = up_vals s @ [v] \<and> item_ok c v
      | Some (Lua_return (Done t)) \<Rightarrow> up_vals t = up_vals s | Some (Lua_return (Skip t)) \<Rightarrow> False | _ \<Rightarrow> True)"

lemma pushes_typed_simps [simp]:
  "pushes_typed c s None" "pushes_typed c s badcode" "pushes_typed c s (Some (Lua_return (Done s)))"
  "pushes_typed c s (Some (Lua_return (Go (push v (s\<lparr>up_i := j\<rparr>))))) \<longleftrightarrow> item_ok c v"
  by (auto simp: pushes_typed_def badcode_def push_def)

lemma pushes_typed_bind:
  "(\<And>x. m = Some x \<Longrightarrow> pushes_typed c s (f x)) \<Longrightarrow> pushes_typed c s (m \<bind> f)"
  by (cases m) simp_all

lemma unpack_typed:
  assumes "c \<noteq> OP_STRING" and "\<not> is_endian c" and "\<not> is_blank c"
  shows "pushes_typed c s (unpack_op str c N s)"
proof (cases "c = OP_ZSTRING")
  case True
  then have "string_type c = None" by (simp add: string_type_def op_codes)
  then have "item_ok c (Lua_string (c_string bs))" for bs
    using True by (auto simp: item_ok_def c_string_def dest: set_takeWhileD)
  then show ?thesis using assms True by (simp add: unpack_op_def Let_def)
next
  case z: False
  show ?thesis
  proof (cases "string_type c")
    case (Some m)
    have "item_ok c (Lua_string bs)" if "read_mem str i m = Some ls" "doswap w ls = Some ls'"
        "read_mem str j (unat (load_bytes ls')) = Some bs" for i j w ls ls' bs
      using load_bytes_less [of ls'] read_mem_length [OF that(1)] read_mem_length [OF that(3)] that(2) Some
      by (auto simp: item_ok_def doswap_rev split: if_splits)
    then show ?thesis using assms z Some by (auto simp: unpack_op_def Let_def intro!: pushes_typed_bind)
  next
    case None
    show ?thesis
    proof (cases "number_type c")
      case (Some p)
      obtain m sg where p: "p = (m, sg)" by fastforce
      have "item_ok c (Lua_number (load_number sg b'))" if "read_mem str i m = Some b" "doswap w b = Some b'" for i w b b'
        using load_number_typed [of c b' sg] read_mem_length [OF that(1)] that(2) Some p by (auto simp: doswap_rev split: if_splits)
      then show ?thesis using assms z None Some p by (auto simp: unpack_op_def Let_def intro!: pushes_typed_bind)
    next
      case None': None
      then show ?thesis using assms z None by (simp add: unpack_op_def Let_def is_blank_def)
    qed
  qed
qed

lemma unpack_run_typed:
  "OP_STRING \<notin> set cs \<Longrightarrow> run_codes (unpack_op str) cs s = Some (Lua_return r) \<Longrightarrow>
    \<exists>vs. up_vals (final r) = up_vals s @ vs \<and> typed_prefix cs vs"
proof (induction cs arbitrary: s)
  case Nil
  then show ?case by auto
next
  case (Cons c cs)
  have c: "c \<noteq> OP_STRING" using Cons(2) by auto
  consider (endian) "is_endian c" | (blank) "\<not> is_endian c" "is_blank c" | (item) "\<not> is_endian c" "\<not> is_blank c" by blast
  then show ?case
  proof cases
    case endian
    then have "unpack_op str c 0 s = Some (Lua_return (Skip (s\<lparr>up_swap := doendian c\<rparr>)))" by (simp add: unpack_op_def Let_def)
    then show ?thesis using Cons(1) [of "s\<lparr>up_swap := doendian c\<rparr>"] Cons(2,3) endian by auto
  next
    case blank
    then show ?thesis using Cons(1) [of s] Cons(2,3) by (auto simp: blank_op)
  next
    case item
    note pt = unpack_typed [OF c item, of s str 0]
    show ?thesis
    proof (cases "unpack_op str c 0 s" rule: lua_option_cases)
      case (go t)
      then obtain v where v: "up_vals t = up_vals s @ [v]" "item_ok c v" using pt by (auto simp: pushes_typed_def)
      obtain vs where "up_vals (final r) = up_vals t @ vs" "typed_prefix cs vs"
        using Cons(1) [of t] Cons(2,3) go by auto
      then show ?thesis using v item by (intro exI [of _ "v # vs"]) simp
    next
      case (leave t)
      then show ?thesis using pt Cons(3) by (auto simp: pushes_typed_def typed_prefix_Nil)
    qed (use pt Cons(3) in \<open>auto simp: pushes_typed_def\<close>)
  qed
qed

section \<open>What the codes mean\<close>

text \<open>
  The codes as the manual of \<^verbatim>\<open>lpack\<close> has them, apart from the tables of the code: the numbers with the size of
  their C type on this machine and its smallest and largest value, the strings with the size of their length.
\<close>

definition number_fields :: "(u8 \<times> nat \<times> int \<times> int) list" where
  "number_fields =
     [(of_char CHR ''c'', 1, -128, 127), (of_char CHR ''b'', 1, 0, 255),
      (of_char CHR ''h'', 2, -32768, 32767), (of_char CHR ''H'', 2, 0, 65535),
      (of_char CHR ''i'', 4, -2147483648, 2147483647), (of_char CHR ''I'', 4, 0, 4294967295),
      (of_char CHR ''l'', 4, -2147483648, 2147483647), (of_char CHR ''L'', 4, 0, 4294967295),
      (of_char CHR ''n'', 4, -2147483648, 2147483647)]"

definition length_fields :: "(u8 \<times> nat) list" where
  "length_fields = [(of_char CHR ''p'', 1), (of_char CHR ''P'', 2), (of_char CHR ''a'', 4)]"

definition byte_orders :: "(u8 \<times> bool) list" where
  "byte_orders = [(of_char CHR ''<'', False), (of_char CHR ''>'', True), (of_char CHR ''='', False)]"

definition blanks :: "u8 list" where
  "blanks = [of_char CHR '' '', of_char CHR '','']"

definition whole_string :: u8 where
  "whole_string = of_char CHR ''A''"

text \<open>A Lua number stands for a value of an unsigned type modulo \<open>2 ^ 32\<close>.\<close>

definition value_fits :: "u8 \<Rightarrow> lua_arg \<Rightarrow> bool" where
  "value_fits c v = (case v of
     Lua_number n \<Rightarrow> (case map_of number_fields c of
       Some (m, lo, hi) \<Rightarrow> (let k = if lo < 0 then sint n else uint n in lo \<le> k \<and> k \<le> hi)
     | None \<Rightarrow> False)
   | Lua_string bs \<Rightarrow> (case map_of length_fields c of
       Some m \<Rightarrow> length bs < 256 ^ m
     | None \<Rightarrow> c = of_char CHR ''z'' \<and> 0 \<notin> set bs)
   | _ \<Rightarrow> False)"

text \<open>The digits of a number in base 256, the most significant one first if \<open>big\<close>.\<close>

definition field :: "bool \<Rightarrow> nat \<Rightarrow> int \<Rightarrow> u8 list" where
  "field big m k = (if big then rev else id) (map (\<lambda>i. word_of_int (k div 256 ^ i)) [0..<m])"

definition value_bytes :: "bool \<Rightarrow> u8 \<Rightarrow> lua_arg \<Rightarrow> u8 list" where
  "value_bytes big c v = (case v of
     Lua_number n \<Rightarrow> (case map_of number_fields c of Some (m, _, _) \<Rightarrow> field big m (uint n) | None \<Rightarrow> [])
   | Lua_string bs \<Rightarrow> (case map_of length_fields c of Some m \<Rightarrow> field big m (int (length bs)) @ bs | None \<Rightarrow> bs @ [0])
   | _ \<Rightarrow> [])"

text \<open>The bytes of values under codes, if every value fits its code and the codes are as many as the values.\<close>

fun packing :: "bool \<Rightarrow> u8 list \<Rightarrow> lua_arg list \<Rightarrow> u8 list option" where
  "packing big [] vs = (if vs = [] then Some [] else None)"
| "packing big (c # cs) vs =
     (case map_of byte_orders c of
        Some b \<Rightarrow> packing b cs vs
      | None \<Rightarrow>
          if c \<in> set blanks then packing big cs vs
          else (case vs of
              [] \<Rightarrow> None
            | v # vs \<Rightarrow> if value_fits c v then map_option ((@) (value_bytes big c v)) (packing big cs vs) else None))"

text \<open>Values that belong to the codes in order, as far as they go.\<close>

fun belong :: "u8 list \<Rightarrow> lua_arg list \<Rightarrow> bool" where
  "belong [] vs \<longleftrightarrow> vs = []"
| "belong (c # cs) vs \<longleftrightarrow>
     vs = [] \<or> (if c \<in> set blanks \<or> c \<in> fst ` set byte_orders then belong cs vs else value_fits c (hd vs) \<and> belong cs (tl vs))"

text \<open>
  The codes of a format: a code followed by a decimal number below \<open>2 ^ 31\<close> stands for that many of it,
  except that a byte order is set at most once.
\<close>

definition decimal_digit :: "u8 \<Rightarrow> bool" where
  "decimal_digit d \<longleftrightarrow> d \<in> set (map of_char ''0123456789'')"

definition decimal :: "u8 list \<Rightarrow> nat" where
  "decimal ds = foldl (\<lambda>n d. 10 * n + (unat d - 48)) 0 ds"

function unrolled :: "u8 list \<Rightarrow> u8 list option" where
  "unrolled f =
     (case f of
        [] \<Rightarrow> Some []
      | c # f \<Rightarrow>
          (let ds = takeWhile decimal_digit f; n = if ds = [] then 1 else decimal ds
           in if n < 2 ^ 31
              then map_option ((@) (replicate (if c \<in> fst ` set byte_orders then min n 1 else n) c)) (unrolled (drop (length ds) f))
              else None))"
  by pat_completeness auto
termination
  by (relation "measure length") auto

declare unrolled.simps [simp del]

lemmas code_tables = number_fields_def length_fields_def byte_orders_def blanks_def whole_string_def

lemma sint_signed_take_bit: "k < 32 \<Longrightarrow> sint (signed_take_bit k (n :: u32)) = signed_take_bit k (sint n)"
  by (rule bit_eqI, cases "k = 31") (auto simp: bit_simps min_def)

lemma signed_fits: "k < 32 \<Longrightarrow> signed_take_bit k (n :: u32) = n \<longleftrightarrow> - (2 ^ k) \<le> sint n \<and> sint n < 2 ^ k"
  by (metis signed_take_bit_int_eq_self_iff sint_signed_take_bit signed_word_eqI)

lemma unsigned_fits: "take_bit k (n :: u32) = n \<longleftrightarrow> uint n < 2 ^ k"
proof -
  have "take_bit k n = n \<longleftrightarrow> take_bit k (uint n) = uint n"
    by (simp add: unsigned_take_bit_eq [symmetric] word_eq_iff_unsigned [where 'a = int])
  then show ?thesis by (simp add: take_bit_int_eq_self_iff)
qed

lemma field_number: "field big m (uint (n :: u32)) = (if big then rev else id) (store_bytes m n)"
proof -
  have "(word_of_int (uint n div 256 ^ k) :: u8) = ucast (drop_bit (8 * k) n)" for k
  proof -
    have "uint n div 256 ^ k = uint (drop_bit (8 * k) n)"
      by (simp only: unsigned_drop_bit_eq) (simp add: drop_bit_eq_div power_mult take_bit_int_eq_self unsigned_less[THEN less_le_trans])
    then show ?thesis by simp
  qed
  then show ?thesis by (simp add: field_def store_bytes_def)
qed

lemma field_length: "field big m (int n) = (if big then rev else id) (store_bytes m (of_nat n))"
  if "n < 2 ^ 32"
proof -
  have "uint (of_nat n :: u32) = int n" using that by (simp add: unsigned_of_nat take_bit_nat_eq_self)
  then show ?thesis using field_number[of big m "of_nat n"] by simp
qed

lemma fields_of_type:
  "map_of number_fields c = map_option (\<lambda>(m, sg). (m, if sg then - (2 ^ (8 * m - 1)) else 0, if sg then 2 ^ (8 * m - 1) - 1 else 2 ^ (8 * m) - 1)) (number_type c)"
  "map_of length_fields c = string_type c"
  by (auto simp: number_type_def string_type_def code_tables op_codes)

lemma value_fits_item: "value_fits c v \<longleftrightarrow> item_ok c v"
proof (cases v)
  case (Lua_number n)
  show ?thesis
  proof (cases "number_type c")
    case (Some p)
    then obtain m sg where p: "number_type c = Some (m, sg)" "m \<in> {1, 2, 4}" using code_kinds(2)[of c p] by (cases p) auto
    then show ?thesis using signed_fits[of "8 * m - 1" n] unsigned_fits[of "8 * m" n] Lua_number
      by (auto simp: value_fits_def item_ok_def fields_of_type Let_def)
  qed (simp add: value_fits_def item_ok_def fields_of_type Lua_number)
qed (simp_all add: value_fits_def item_ok_def fields_of_type op_codes power_mult split: option.split)

lemma value_bytes_item:
  assumes "value_fits c v"
  shows "value_bytes big c v = item_bytes big c v"
proof (cases v)
  case (Lua_string bs)
  show ?thesis
  proof (cases "string_type c")
    case (Some m)
    then have "m \<in> {1, 2, 4}" "length bs < 256 ^ m"
      using code_kinds(1)[of c m] assms Lua_string by (simp_all add: value_fits_def fields_of_type)
    then have "length bs < 2 ^ 32" by auto
    then show ?thesis using Some Lua_string by (simp add: value_bytes_def item_bytes_def fields_of_type field_length)
  qed (simp add: value_bytes_def item_bytes_def fields_of_type Lua_string)
qed (auto simp: value_bytes_def item_bytes_def fields_of_type field_number split: option.split)

lemma order_codes:
  "map_of byte_orders c = (if is_endian c then Some (doendian c) else None)" "c \<in> set blanks \<longleftrightarrow> is_blank c"
  "c \<in> fst ` set byte_orders \<longleftrightarrow> is_endian c" "whole_string = OP_STRING"
  by (auto simp: code_tables is_endian_def doendian_def is_blank_def op_codes)

lemma packing_ok: "packing big cs vs = Some b \<Longrightarrow> codes_ok cs vs \<and> packed big cs vs = b"
  by (induction big cs vs arbitrary: b rule: packing.induct)
    (auto simp: order_codes value_fits_item[symmetric] value_bytes_item split: if_splits list.splits)

lemma belong_typed: "typed_prefix cs vs \<longleftrightarrow> belong cs vs"
  by (induction cs vs rule: belong.induct) (simp_all add: order_codes value_fits_item)

lemma isdigit_decimal: "isdigit d \<longleftrightarrow> decimal_digit d"
proof -
  have "isdigit d \<longleftrightarrow> unat d \<in> {48..57}" by (simp add: isdigit_def word_le_nat_alt)
  moreover have "decimal_digit d \<longleftrightarrow> unat d \<in> {48..57}"
    unfolding decimal_digit_def by (subst atLeastAtMost_upt) (simp add: upt_rec word_unat_eq_iff)
  ultimately show ?thesis by simp
qed

lemma count_digits_decimal:
  assumes "foldl (\<lambda>n d. 10 * n + (unat d - 48)) N (takeWhile decimal_digit f) < 2147483648"
  shows "count_digits f N = Some (foldl (\<lambda>n d. 10 * n + (unat d - 48)) N (takeWhile decimal_digit f), dropWhile decimal_digit f)"
  using assms
proof (induction f N rule: count_digits.induct)
  case (2 d f N)
  have mono: "n \<le> foldl (\<lambda>n d. 10 * n + (unat d - 48)) n ds" for n and ds :: "u8 list"
    
  proof (induction ds arbitrary: n)
    case (Cons d ds)
    show ?case using Cons[of "10 * n + (unat d - 48)"] by simp
  qed simp
  show ?case
  proof (cases "isdigit d")
    case True
    then have d: "unat (d - 0x30) = unat d - 48" by (simp add: isdigit_def unat_sub)
    have "10 * N + (unat d - 48) < 2147483648"
      using 2(2) True mono[of "10 * N + (unat d - 48)" "takeWhile decimal_digit f"] by (simp add: isdigit_decimal)
    then show ?thesis using 2 True d by (simp add: isdigit_decimal)
  qed (simp add: isdigit_decimal)
qed simp

lemma directive_count_decimal:
  assumes "ds = takeWhile decimal_digit f" and "n = (if ds = [] then 1 else decimal ds)" and "n < 2 ^ 31"
  shows "directive_count f = Some (n, drop (length ds) f)"
proof (cases f)
  case (Cons d g)
  then show ?thesis using assms count_digits_decimal[of 0 f]
    by (auto simp: directive_count_def isdigit_decimal decimal_def dropWhile_eq_drop simp del: count_digits.simps)
qed (use assms in \<open>simp add: directive_count_def\<close>)

lemma unrolled_expand: "unrolled f = Some cs \<Longrightarrow> expand f = Some cs"
proof (induction f arbitrary: cs rule: unrolled.induct)
  case (1 f)
  show ?case
  proof (cases f)
    case Nil
    then show ?thesis using 1(2) by (simp add: unrolled.simps expand.simps)
  next
    case (Cons c g)
    let ?ds = "takeWhile decimal_digit g"
    let ?n = "if ?ds = [] then 1 else decimal ?ds"
    obtain es where es: "?n < 2 ^ 31" "unrolled (drop (length ?ds) g) = Some es"
        "cs = replicate (if is_endian c then min ?n 1 else ?n) c @ es"
      using 1(2) unfolding Cons by (subst (asm) unrolled.simps) (auto simp: Let_def order_codes simp del: dropWhile_eq_drop split: if_splits)
    have "expand (drop (length ?ds) g) = Some es" by (rule 1(1)[OF Cons refl refl es(1,2)])
    then show ?thesis unfolding Cons
      by (subst expand.simps) (simp only: list.case directive_count_decimal[OF refl refl es(1)] es(3) bind.bind_lunit prod.case)
  qed
qed

section \<open>Properties\<close>

lemma format_loop_Nil: "format_loop zero op [] s = Some (Lua_return s)"
  by (simp add: format_loop.simps)

lemma format_loop_Cons: "format_loop zero op (c # f) s = do {
    (N, f) \<leftarrow> directive_count f;
    lua_bind (repeat_op (op c) N (if N = 0 then zero c s else s)) (\<lambda>r.
      case r of Done s \<Rightarrow> Some (Lua_return s) | Skip s \<Rightarrow> format_loop zero op f s | Go s \<Rightarrow> format_loop zero op f s) }"
  by (subst format_loop.simps) simp

lemma expand_Nil: "expand [] = Some []"
  by (simp add: expand.simps)

lemma expand_Cons: "expand (c # f) = do {
    (N, f) \<leftarrow> directive_count f;
    cs \<leftarrow> expand f;
    Some (replicate (if is_endian c then min N 1 else N) c @ cs) }"
  by (subst expand.simps) simp

lemmas expand_simps = expand_Nil expand_Cons directive_count_def isdigit_def is_endian_def op_codes

lemma c_string_id: "set (c_string f) \<subseteq> set f" "c_string (f @ [0]) = c_string f"
  by (auto simp: c_string_def dest: set_takeWhileD) (induction f, auto)

lemma check_string: "k < length args \<Longrightarrow> args ! k = Lua_string bs \<Longrightarrow> luaL_checkstring args k = Lua_return (bs @ [0])"
  by (simp add: luaL_checkstring_def lua_arg_at_def)

text \<open>
  C39. What \<^verbatim>\<open>pack\<close> packs, \<^verbatim>\<open>unpack\<close> gives back, for every format without the code \<^verbatim>\<open>A\<close> whose codes (counts unrolled) are as
  many as the values: numbers within the range of their C type, strings no longer than their length field can say and
  zero-terminated strings without a zero, in any mixture of byte orders. \<^verbatim>\<open>pack\<close> returns the digits of the numbers and lengths in
  the byte order set and the bytes of the strings, in order; \<^verbatim>\<open>unpack\<close> of these with the same format returns the position behind
  them and the values. (\<^verbatim>\<open>A\<close> counts strings in one direction and bytes in the other; a value beyond its field is cut.)
\<close>

theorem pack_unpack:
  assumes "whole_string \<notin> set f" and "unrolled (c_string f) = Some cs" and "packing False cs vs = Some b"
    and "length b < 2147483648"
  shows "l_pack (Lua_string f # vs) = Some (Lua_return b) \<and>
    l_unpack [Lua_string b, Lua_string f] = Some (Lua_return (Lua_number (of_nat (length b) + 1) # vs))"
proof
  have ok: "codes_ok cs vs" and b: "packed False cs vs = b" using packing_ok [OF assms(3)] by simp_all
  have A: "OP_STRING \<notin> set (c_string f)" using assms(1) c_string_id(1) by (auto simp: order_codes)
  note codes = unrolled_expand [OF assms(2)]
  obtain t where "run_codes (pack_op (Lua_string f # vs)) cs \<lparr>pk_i = 1, pk_swap = False, pk_b = []\<rparr> = Some (Lua_return (Go t))"
      "pk_b t = b"
    using pack_run [OF ok, of "\<lparr>pk_i = 1, pk_swap = False, pk_b = []\<rparr>" "Lua_string f # vs"] b by auto
  then show "l_pack (Lua_string f # vs) = Some (Lua_return b)"
    by (simp add: l_pack_def check_string c_string_id(2) pk.format_loop_codes [OF A codes])
  obtain t where t: "run_codes (unpack_op b) cs \<lparr>up_i = 0, up_swap = False, up_vals = []\<rparr> = Some (Lua_return (Go t))"
      "up_i t = int (length b)" "up_vals t = vs"
    using unpack_run [OF ok, of b "[]" "\<lparr>up_i = 0, up_swap = False, up_vals = []\<rparr>" "[]"] assms(4) b by auto
  then show "l_unpack [Lua_string b, Lua_string f] = Some (Lua_return (Lua_number (of_nat (length b) + 1) # vs))"
    by (simp add: l_unpack_def luaL_optnumber_def check_string c_string_id(2) upk.format_loop_codes [OF A codes])
qed

lemma replicate_2: "replicate 2 x = [x, x]"
  by (simp add: numeral_2_eq_2)

lemma unrolled_Nil: "unrolled [] = Some []"
  by (simp add: unrolled.simps)

theorem pack_unpack_witness:
  "l_pack [Lua_string [0x3E, 0x68, 0x32, 0x7A, 0x48], Lua_number 0xFFFFFFFE, Lua_number 513, Lua_string [0x41], Lua_number 0xFFFE] =
      Some (Lua_return [0xFF, 0xFE, 2, 1, 0x41, 0, 0xFF, 0xFE]) \<and>
    l_unpack [Lua_string [0xFF, 0xFE, 2, 1, 0x41, 0, 0xFF, 0xFE], Lua_string [0x3E, 0x68, 0x32, 0x7A, 0x48]] =
      Some (Lua_return [Lua_number 9, Lua_number 0xFFFFFFFE, Lua_number 513, Lua_string [0x41], Lua_number 0xFFFE])"
proof -
  let ?f = "[0x3E, 0x68, 0x32, 0x7A, 0x48] :: u8 list" and ?cs = "[0x3E, 0x68, 0x68, 0x7A, 0x48] :: u8 list"
  let ?vs = "[Lua_number 0xFFFFFFFE, Lua_number 513, Lua_string [0x41], Lua_number 0xFFFE]"
  have "unrolled (c_string ?f) = Some ?cs"
    by (simp add: c_string_def unrolled.simps [of "_ # _"] unrolled_Nil decimal_digit_def decimal_def code_tables replicate_2)
  moreover have "packing False ?cs ?vs = Some [0xFF, 0xFE, 2, 1, 0x41, 0, 0xFF, 0xFE]" by code_simp
  moreover have "whole_string \<notin> set ?f" by (simp add: whole_string_def)
  ultimately show ?thesis using pack_unpack [of ?f ?cs ?vs] by simp
qed

text \<open>
  C40. \<^verbatim>\<open>unpack\<close> of any bytes from any position with a format without \<^verbatim>\<open>A\<close>: when it returns, the values after the position belong to
  the codes of the format in order, as far as the string reaches: numbers in the range of their C type, strings no longer than
  their length field can say, zero-terminated strings without a zero.
\<close>

theorem unpacked_values_typed:
  assumes "whole_string \<notin> set f" and "unrolled (c_string f) = Some cs"
    and "l_unpack (Lua_string s # Lua_string f # rest) = Some (Lua_return (p # vs))"
  shows "belong cs vs"
proof -
  have A: "OP_STRING \<notin> set (c_string f)" using assms(1) c_string_id(1) by (auto simp: order_codes)
  note codes = unrolled_expand [OF assms(2)]
  have C: "OP_STRING \<notin> set cs" using expand_set [OF codes] A by blast
  obtain init where init: "luaL_optnumber (Lua_string s # Lua_string f # rest) 2 1 = Lua_return init"
    using assms(3) by (cases "luaL_optnumber (Lua_string s # Lua_string f # rest) 2 1") (auto simp: l_unpack_def check_string)
  let ?s = "\<lparr>up_i = sint (init - 1), up_swap = False, up_vals = []\<rparr>"
  have "lua_bind (run_codes (unpack_op s) cs ?s) (\<lambda>r. Some (Lua_return (Lua_number (word_of_int (up_i (final r)) + 1) # up_vals (final r))))
      = Some (Lua_return (p # vs))"
    using assms(3) by (simp add: l_unpack_def check_string init c_string_id(2) upk.format_loop_codes [OF A codes] lua_bind_assoc)
  then obtain r where "run_codes (unpack_op s) cs ?s = Some (Lua_return r)" "vs = up_vals (final r)"
    by (cases "run_codes (unpack_op s) cs ?s") (auto simp: lua_bind_def lua_then_def split: lua.splits)
  then show ?thesis using unpack_run_typed [OF C] by (fastforce simp: belong_typed)
qed

theorem unpacked_values_typed_witness:
  "belong [OP_BYTE, OP_BYTE] [Lua_number 255]"
proof (rule unpacked_values_typed [of "[OP_BYTE, OP_BYTE]"])
  show "unrolled (c_string [OP_BYTE, OP_BYTE]) = Some [OP_BYTE, OP_BYTE]"
    by (simp add: c_string_def unrolled.simps [of "_ # _"] unrolled_Nil decimal_digit_def decimal_def code_tables op_codes)
  show "l_unpack [Lua_string [0xFF], Lua_string [OP_BYTE, OP_BYTE]] = Some (Lua_return [Lua_number 2, Lua_number 255])"
    by (simp add: l_unpack_def check_string luaL_optnumber_def format_loop_Cons format_loop_Nil c_string_def expand_simps op_codes unpack_op_def
        is_endian_def string_type_def number_type_def beyond_def read_mem_def doswap_def load_bytes_def load_number_def push_def)
qed (simp add: op_codes whole_string_def)

section \<open>Out of the string\<close>

text \<open>A start position below 1 passes the check of the end and reads before the string.\<close>

lemma unpack_before_string: "l_unpack [Lua_string [1, 2], Lua_string [OP_BYTE], Lua_number 0] = None"
  by (simp add: l_unpack_def check_string luaL_optnumber_def format_loop_Cons c_string_def expand_simps op_codes unpack_op_def
      is_endian_def string_type_def number_type_def beyond_def read_mem_def)

text \<open>A length near the largest \<^verbatim>\<open>size_t\<close> wraps in the check and the string is taken far behind its end.\<close>

lemma unpack_length_wraps: "l_unpack [Lua_string [0xFF, 0xFF, 0xFF, 0xFF], Lua_string [OP_SSTRING]] = None"
proof -
  have "unpack_op [0xFF, 0xFF, 0xFF, 0xFF] OP_SSTRING 0 \<lparr>up_i = 0, up_swap = False, up_vals = []\<rparr> = None"
    by (simp add: unpack_op_def is_endian_def string_type_def op_codes beyond_def read_mem_def doswap_def load_bytes_def)
  then show ?thesis
    by (simp add: l_unpack_def check_string luaL_optnumber_def format_loop_Cons directive_count_def c_string_def) (simp add: op_codes)
qed

text \<open>A string of 256 bytes is packed under a length byte of 0.\<close>

lemma pack_length_truncated:
  assumes "length bs = 256"
  shows "l_pack [Lua_string [OP_BSTRING], Lua_string bs] = Some (Lua_return (0 # bs))"
proof -
  have "store_bytes 1 256 = [0]" by (simp add: store_bytes_def)
  then have "pack_op [Lua_string [OP_BSTRING], Lua_string bs] OP_BSTRING 0 \<lparr>pk_i = 1, pk_swap = False, pk_b = []\<rparr> =
      Some (Lua_return (Go \<lparr>pk_i = 2, pk_swap = False, pk_b = 0 # bs\<rparr>))"
    using assms by (simp add: pack_op_def is_endian_def string_type_def op_codes check_string doswap_def luaL_addlstring_def Let_def)
  then show ?thesis
    by (simp add: l_pack_def check_string format_loop_Cons format_loop_Nil directive_count_def c_string_def op_codes)
qed

end
