(* ===== verification/Lua_bit.thy ===== *)
theory Lua_bit
  imports Lua_args
begin

text \<open>
  The Lua module \<^verbatim>\<open>bit\<close>, \<^verbatim>\<open>modules/src/bit.c\<close>, on Lua integers of 32 bits. A shift by 32 or more, or by a
  negative number, is undefined in C and \<open>None\<close>; a left shift of a signed value drops the bits above,
  as the compiler in use defines it.
\<close>

section \<open>Operations\<close>

definition bit_bnot :: "lua_arg list \<Rightarrow> u32 lua option" where
  "bit_bnot args = lua_then (luaL_checkinteger args 0) (\<lambda>w. Some (Lua_return (NOT w)))"

text \<open>The arguments from the second on are taken in order.\<close>

fun variadic :: "(u32 \<Rightarrow> u32 \<Rightarrow> u32) \<Rightarrow> lua_arg list \<Rightarrow> u32 \<Rightarrow> u32 lua option" where
  "variadic f [] w = Some (Lua_return w)"
| "variadic f (a # as) w = lua_then (luaL_checkinteger [a] 0) (\<lambda>x. variadic f as (f w x))"

definition bit_variadic :: "(u32 \<Rightarrow> u32 \<Rightarrow> u32) \<Rightarrow> lua_arg list \<Rightarrow> u32 lua option" where
  "bit_variadic f args = lua_then (luaL_checkinteger args 0) (\<lambda>w. variadic f (tl args) w)"

definition bit_band :: "lua_arg list \<Rightarrow> u32 lua option" where "bit_band = bit_variadic (AND)"
definition bit_bor :: "lua_arg list \<Rightarrow> u32 lua option" where "bit_bor = bit_variadic (OR)"
definition bit_bxor :: "lua_arg list \<Rightarrow> u32 lua option" where "bit_bxor = bit_variadic (XOR)"

definition shift_by :: "(nat \<Rightarrow> u32 \<Rightarrow> u32) \<Rightarrow> u32 \<Rightarrow> u32 \<Rightarrow> u32 option" where
  "shift_by f w n = (if unat n < 32 then Some (f (unat n) w) else None)"

definition bit_shift :: "(nat \<Rightarrow> u32 \<Rightarrow> u32) \<Rightarrow> lua_arg list \<Rightarrow> u32 lua option" where
  "bit_shift f args =
     lua_then (luaL_checkinteger args 0) (\<lambda>w.
     lua_then (luaL_checkinteger args 1) (\<lambda>n. map_option Lua_return (shift_by f w n)))"

definition bit_lshift :: "lua_arg list \<Rightarrow> u32 lua option" where "bit_lshift = bit_shift push_bit"
definition bit_rshift :: "lua_arg list \<Rightarrow> u32 lua option" where "bit_rshift = bit_shift drop_bit"
definition bit_arshift :: "lua_arg list \<Rightarrow> u32 lua option" where "bit_arshift = bit_shift signed_drop_bit"

definition bit_bit :: "lua_arg list \<Rightarrow> u32 lua option" where
  "bit_bit args = lua_then (luaL_checkinteger args 0) (\<lambda>n. map_option Lua_return (shift_by push_bit 1 n))"

definition bit_isset :: "lua_arg list \<Rightarrow> bool lua option" where
  "bit_isset args =
     lua_then (luaL_checkinteger args 0) (\<lambda>val.
     lua_then (luaL_checkinteger args 1) (\<lambda>pos.
       map_option (\<lambda>m. Lua_return (val AND m \<noteq> 0)) (shift_by push_bit 1 pos)))"

definition bit_isclear :: "lua_arg list \<Rightarrow> bool lua option" where
  "bit_isclear args =
     lua_then (luaL_checkinteger args 0) (\<lambda>val.
     lua_then (luaL_checkinteger args 1) (\<lambda>pos.
       map_option (\<lambda>m. Lua_return (val AND m = 0)) (shift_by push_bit 1 pos)))"

fun positions :: "(u32 \<Rightarrow> u32 \<Rightarrow> u32) \<Rightarrow> lua_arg list \<Rightarrow> u32 \<Rightarrow> u32 lua option" where
  "positions f [] val = Some (Lua_return val)"
| "positions f (a # as) val =
     lua_then (luaL_checkinteger [a] 0) (\<lambda>pos. shift_by push_bit 1 pos \<bind> (\<lambda>m. positions f as (f val m)))"

definition bit_set :: "lua_arg list \<Rightarrow> u32 lua option" where
  "bit_set args = lua_then (luaL_checkinteger args 0) (positions (OR) (tl args))"

definition bit_clear :: "lua_arg list \<Rightarrow> u32 lua option" where
  "bit_clear args = lua_then (luaL_checkinteger args 0) (positions (\<lambda>v m. v AND NOT m) (tl args))"

section \<open>What the operations do to single bits\<close>

lemma check_one: "luaL_checkinteger [Lua_number n] 0 = Lua_return n"
  by (simp add: luaL_checkinteger_def)

lemma check_head: "luaL_checkinteger (Lua_number n # as) 0 = Lua_return n"
  by (simp add: luaL_checkinteger_def)

lemma variadic_fold: "variadic f (map Lua_number xs) w = Some (Lua_return (foldl f w xs))"
  by (induction xs arbitrary: w) (simp_all add: check_one)

text \<open>A bit of the result of \<^verbatim>\<open>band\<close>, \<^verbatim>\<open>bor\<close> and \<^verbatim>\<open>bxor\<close> is the conjunction, disjunction or parity over the arguments.\<close>

lemma band_bits:
  "\<exists>r. bit_band (map Lua_number (w # xs)) = Some (Lua_return r) \<and> (\<forall>n < 32. bit r n \<longleftrightarrow> (\<forall>x \<in> set (w # xs). bit x n))"
proof -
  have "bit (foldl (AND) w xs) n \<longleftrightarrow> (\<forall>x \<in> set (w # xs). bit x n)" for n
    by (induction xs arbitrary: w) (auto simp: bit_simps)
  then show ?thesis by (auto simp: bit_band_def bit_variadic_def check_head variadic_fold)
qed

lemma bor_bits:
  "\<exists>r. bit_bor (map Lua_number (w # xs)) = Some (Lua_return r) \<and> (\<forall>n < 32. bit r n \<longleftrightarrow> (\<exists>x \<in> set (w # xs). bit x n))"
proof -
  have "bit (foldl (OR) w xs) n \<longleftrightarrow> (\<exists>x \<in> set (w # xs). bit x n)" for n
    by (induction xs arbitrary: w) (auto simp: bit_simps)
  then show ?thesis by (auto simp: bit_bor_def bit_variadic_def check_head variadic_fold)
qed

lemma bxor_bits:
  "\<exists>r. bit_bxor (map Lua_number (w # xs)) = Some (Lua_return r) \<and>
    (\<forall>n < 32. bit r n \<longleftrightarrow> odd (length (filter (\<lambda>x. bit x n) (w # xs))))"
proof -
  have "bit (foldl (XOR) w xs) n \<longleftrightarrow> odd (length (filter (\<lambda>x. bit x n) (w # xs)))" for n
    by (induction xs arbitrary: w) (auto simp: bit_simps)
  then show ?thesis by (auto simp: bit_bxor_def bit_variadic_def check_head variadic_fold)
qed

text \<open>\<^verbatim>\<open>set\<close> and \<^verbatim>\<open>clear\<close> change exactly the positions they are given.\<close>

lemma set_bits:
  assumes "\<And>p. p \<in> set ps \<Longrightarrow> p < 32"
  shows "\<exists>r. bit_set (map Lua_number (val # ps)) = Some (Lua_return r) \<and>
    (\<forall>n < 32. bit r n \<longleftrightarrow> bit val n \<or> n \<in> unat ` set ps)"
proof -
  have "\<exists>r. positions (OR) (map Lua_number ps) v = Some (Lua_return r) \<and>
      (\<forall>n < 32. bit r n \<longleftrightarrow> bit v n \<or> n \<in> unat ` set ps)" for v
    using assms
  proof (induction ps arbitrary: v)
    case (Cons p ps)
    have p: "unat p < 32" using Cons(2) [of p] by (simp add: word_less_nat_alt)
    obtain r where r: "positions (OR) (map Lua_number ps) (v OR push_bit (unat p) 1) = Some (Lua_return r)"
        "\<forall>n < 32. bit r n \<longleftrightarrow> bit (v OR push_bit (unat p) 1) n \<or> n \<in> unat ` set ps"
      using Cons(1) [of "v OR push_bit (unat p) 1"] Cons(2) by auto
    then show ?case using p by (intro exI [of _ r]) (auto simp: check_one shift_by_def bit_simps)
  qed simp
  then show ?thesis by (simp add: bit_set_def check_head)
qed

lemma clear_bits:
  assumes "\<And>p. p \<in> set ps \<Longrightarrow> p < 32"
  shows "\<exists>r. bit_clear (map Lua_number (val # ps)) = Some (Lua_return r) \<and>
    (\<forall>n < 32. bit r n \<longleftrightarrow> bit val n \<and> n \<notin> unat ` set ps)"
proof -
  have "\<exists>r. positions (\<lambda>v m. v AND NOT m) (map Lua_number ps) v = Some (Lua_return r) \<and>
      (\<forall>n < 32. bit r n \<longleftrightarrow> bit v n \<and> n \<notin> unat ` set ps)" for v
    using assms
  proof (induction ps arbitrary: v)
    case (Cons p ps)
    have p: "unat p < 32" using Cons(2) [of p] by (simp add: word_less_nat_alt)
    let ?v = "v AND NOT (push_bit (unat p) 1)"
    obtain r where r: "positions (\<lambda>v m. v AND NOT m) (map Lua_number ps) ?v = Some (Lua_return r)"
        "\<forall>n < 32. bit r n \<longleftrightarrow> bit ?v n \<and> n \<notin> unat ` set ps"
      using Cons(1) [of ?v] Cons(2) by auto
    then show ?case using p by (intro exI [of _ r]) (auto simp: check_one shift_by_def bit_simps)
  qed simp
  then show ?thesis by (simp add: bit_clear_def check_head)
qed

text \<open>\<^verbatim>\<open>isset\<close> reads the bit, \<^verbatim>\<open>isclear\<close> is its negation.\<close>

lemma isset_bit:
  assumes "unat p < 32"
  shows "bit_isset [Lua_number val, Lua_number p] = Some (Lua_return (bit val (unat p)))"
    and "bit_isclear [Lua_number val, Lua_number p] = Some (Lua_return (\<not> bit val (unat p)))"
proof -
  have "val AND push_bit (unat p) 1 = 0 \<longleftrightarrow> \<not> bit val (unat p)"
  proof
    assume "val AND push_bit (unat p) 1 = 0"
    then have "\<not> bit (val AND push_bit (unat p) 1) (unat p)" by simp
    then show "\<not> bit val (unat p)" using assms by (simp add: bit_simps)
  next
    assume "\<not> bit val (unat p)"
    then show "val AND push_bit (unat p) 1 = 0" by (intro bit_word_eqI) (auto simp: bit_simps)
  qed
  then show "bit_isset [Lua_number val, Lua_number p] = Some (Lua_return (bit val (unat p)))"
    "bit_isclear [Lua_number val, Lua_number p] = Some (Lua_return (\<not> bit val (unat p)))"
    using assms by (simp_all add: bit_isset_def bit_isclear_def check_head luaL_checkinteger_def shift_by_def)
qed

text \<open>The position of \<^verbatim>\<open>bit.bit\<close> is not checked.\<close>

lemma bit_position_unchecked: "bit_bit [Lua_number 32] = None"
  by (simp add: bit_bit_def check_head shift_by_def)

end
