(* ===== verification/Luadb.thy ===== *)
theory Luadb
  imports C_Prelude
begin

text \<open>
  The image of preloaded files and its installation at boot: \<^verbatim>\<open>platform/src/preload.c\<close> (the parser and the table of
  files that stay in flash) and \<^verbatim>\<open>load_luadb\<close> of \<^verbatim>\<open>shell/src/shell.c\<close>. An image is an array of bytes, a read
  outside it is \<open>None\<close>. What the parser does to the file system is the list of its calls; what the
  file system answers is an environment, a function of the calls made so far. Memory requests
  are granted, except the table of files, whose failure the code handles.
\<close>

section \<open>Constants\<close>

definition LUADB_ERR_NONE :: int where "LUADB_ERR_NONE = 0"
definition LUADB_ERR_TLV_LEN :: int where "LUADB_ERR_TLV_LEN = -1"
definition LUADB_ERR_CHECK_FAIL :: int where "LUADB_ERR_CHECK_FAIL = -2"
definition LUADB_ERR_FILE_COUNT :: int where "LUADB_ERR_FILE_COUNT = -4"
definition LUADB_ERR_MAGIC :: int where "LUADB_ERR_MAGIC = -5"
definition LUADB_ERR_OUT_OF_RANGE :: int where "LUADB_ERR_OUT_OF_RANGE = -6"
definition LUADB_ERR_UNKNOWN_TYPE :: int where "LUADB_ERR_UNKNOWN_TYPE = -7"
definition LUADB_ERR_UNZIP_FILE :: int where "LUADB_ERR_UNZIP_FILE = -8"
definition LUADB_ERR_WRITE_FILE :: int where "LUADB_ERR_WRITE_FILE = -9"
definition LUADB_ERR_ADD_TABLE_ITEM :: int where "LUADB_ERR_ADD_TABLE_ITEM = -10"
definition LUADB_ERR_NOT_DBDATA :: int where "LUADB_ERR_NOT_DBDATA = -100"

lemmas luadb_errors = LUADB_ERR_NONE_def LUADB_ERR_TLV_LEN_def LUADB_ERR_CHECK_FAIL_def LUADB_ERR_FILE_COUNT_def
  LUADB_ERR_MAGIC_def LUADB_ERR_OUT_OF_RANGE_def LUADB_ERR_UNKNOWN_TYPE_def LUADB_ERR_UNZIP_FILE_def
  LUADB_ERR_WRITE_FILE_def LUADB_ERR_ADD_TABLE_ITEM_def LUADB_ERR_NOT_DBDATA_def

datatype table_section = LUA_SCRIPT_TABLE_UPDATE_SECTION | LUA_SCRIPT_TABLE_FLASH_SECTION

definition LUA_DIR :: "u8 list" where "LUA_DIR = ascii ''/lua''"
definition LUA_DATA_DIR :: "u8 list" where "LUA_DATA_DIR = ascii ''/ldata''"
definition LUA_UPDATE_FILE :: "u8 list" where "LUA_UPDATE_FILE = ascii ''/luazip/update.bin''"

section \<open>Reading an image\<close>

definition DBMAKEU16 :: "u8 list \<Rightarrow> nat \<Rightarrow> u16 option" where
  "DBMAKEU16 d p = do { a \<leftarrow> ld d p; b \<leftarrow> ld d (p + 1); Some (ucast a OR push_bit 8 (ucast b)) }"

definition DBMAKEU32 :: "u8 list \<Rightarrow> nat \<Rightarrow> u32 option" where
  "DBMAKEU32 d p = do { a \<leftarrow> DBMAKEU16 d p; b \<leftarrow> DBMAKEU16 d (p + 2); Some (ucast a OR push_bit 16 (ucast b)) }"

definition ASSERT_LEN :: "u8 \<Rightarrow> u8 \<Rightarrow> int" where
  "ASSERT_LEN len defLen = (if len = defLen then 0 else LUADB_ERR_TLV_LEN)"

definition sub_bytes :: "u8 list \<Rightarrow> nat \<Rightarrow> nat \<Rightarrow> u8 list option" where
  "sub_bytes d p n = (if p + n \<le> length d then Some (take n (drop p d)) else None)"

text \<open>The loop counts down; the sum of the bytes is cut to 16 bits.\<close>

fun checksum_loop :: "u8 list \<Rightarrow> nat \<Rightarrow> u32 \<Rightarrow> u32 option" where
  "checksum_loop d 0 s = Some s"
| "checksum_loop d (Suc n) s = do { b \<leftarrow> ld d n; checksum_loop d n (s + ucast b) }"

definition calcCheckCode :: "u8 list \<Rightarrow> nat \<Rightarrow> u16 option" where
  "calcCheckCode d n = map_option ucast (checksum_loop d n 0)"

text \<open>
  Both headers are sequences of items: a type, a length and that many bytes. The loop ends at an error or
  at the check code; it yields the position behind the last item.
\<close>

function tlv_loop ::
  "(u8 list \<Rightarrow> u8 \<Rightarrow> u8 \<Rightarrow> nat \<Rightarrow> 's \<Rightarrow> ('s \<times> int \<times> bool) option) \<Rightarrow> u8 list \<Rightarrow> nat \<Rightarrow> 's \<Rightarrow> ('s \<times> int \<times> nat) option" where
  "tlv_loop item d pos s =
     (case ld d pos of
        None \<Rightarrow> None
      | Some type \<Rightarrow> do {
          len \<leftarrow> ld d (pos + 1);
          (s, err, loop) \<leftarrow> item d type len (pos + 2) s;
          (if loop \<and> err = 0 then tlv_loop item d (pos + 2 + unat len) s else Some (s, err, pos + 2 + unat len))
        })"
  by pat_completeness auto
termination
  by (relation "measure (\<lambda>(item, d, pos, s). length d - pos)") (auto dest!: ld_SomeD)

declare tlv_loop.simps [simp del]

record file_info =
  fi_name :: "u8 list option"
  fi_nameLen :: u8
  fi_length :: u32
  fi_data :: nat
  fi_offset :: u32

definition no_info :: file_info where
  "no_info = \<lparr>fi_name = None, fi_nameLen = 0, fi_length = 0, fi_data = 0, fi_offset = 0\<rparr>"

record head_info =
  verNum :: u16
  filecount :: u16
  hi_length :: u32

text \<open>Besides the record, the loop keeps the magic number and the check code.\<close>

definition file_item :: "u8 list \<Rightarrow> u8 \<Rightarrow> u8 \<Rightarrow> nat \<Rightarrow> file_info \<times> u32 \<times> u16 \<Rightarrow> ((file_info \<times> u32 \<times> u16) \<times> int \<times> bool) option" where
  "file_item d type len pos = (\<lambda>(fi, magic, checkCode).
     if type = 0 \<or> type = 0xFF then Some ((fi, magic, checkCode), ASSERT_LEN len 0, True)
     else if type = 1 then do { m \<leftarrow> DBMAKEU32 d pos; Some ((fi, m, checkCode), ASSERT_LEN len 4, True) }
     else if type = 2 then do {
       bs \<leftarrow> sub_bytes d pos (unat len);
       Some ((fi\<lparr>fi_name := Some (bs @ [0]), fi_nameLen := len\<rparr>, magic, checkCode), 0, True)
     }
     else if type = 3 then do { l \<leftarrow> DBMAKEU32 d pos; Some ((fi\<lparr>fi_length := l\<rparr>, magic, checkCode), ASSERT_LEN len 4, True) }
     else if type = 0xFE then do { c \<leftarrow> DBMAKEU16 d pos; Some ((fi, magic, c), ASSERT_LEN len 2, False) }
     else Some ((fi, magic, checkCode), LUADB_ERR_UNKNOWN_TYPE, True))"

definition decodeFile :: "u8 list \<Rightarrow> u32 \<Rightarrow> (int \<times> file_info \<times> u32) option" where
  "decodeFile data offset = do {
     let d = drop (unat offset) data;
     ((fi, magic, checkCode), err, pos) \<leftarrow> tlv_loop file_item d 0 (no_info, 0, 0);
     (if err \<noteq> 0 then Some (err, fi, offset)
      else if magic \<noteq> 0xA55AA55A then Some (LUADB_ERR_MAGIC, fi, offset)
      else do {
        c \<leftarrow> calcCheckCode d (pos - 2);
        (if c \<noteq> checkCode then Some (LUADB_ERR_CHECK_FAIL, fi, offset)
         else Some (0, fi\<lparr>fi_data := unat offset + pos, fi_offset := offset + of_nat pos\<rparr>, offset + (of_nat pos + fi_length fi)))
      })
   }"

definition head_item :: "u8 list \<Rightarrow> u8 \<Rightarrow> u8 \<Rightarrow> nat \<Rightarrow> head_info \<times> u32 \<times> u16 \<Rightarrow> ((head_info \<times> u32 \<times> u16) \<times> int \<times> bool) option" where
  "head_item d type len pos = (\<lambda>(hi, magic, checkCode).
     if type = 1 then do { m \<leftarrow> DBMAKEU32 d pos; Some ((hi, m, checkCode), ASSERT_LEN len 4, True) }
     else if type = 2 then do { v \<leftarrow> DBMAKEU16 d pos; Some ((hi\<lparr>verNum := v\<rparr>, magic, checkCode), ASSERT_LEN len 2, True) }
     else if type = 3 then do { l \<leftarrow> DBMAKEU32 d pos; Some ((hi\<lparr>hi_length := l\<rparr>, magic, checkCode), ASSERT_LEN len 4, True) }
     else if type = 4 then
       (if verNum hi = 0
        then do { b \<leftarrow> ld d pos; Some ((hi\<lparr>filecount := ucast b\<rparr>, magic, checkCode), ASSERT_LEN len 1, True) }
        else do { n \<leftarrow> DBMAKEU16 d pos; Some ((hi\<lparr>filecount := n\<rparr>, magic, checkCode), ASSERT_LEN len 2, True) })
     else if type = 0 \<or> type = 0xFF then Some ((hi, magic, checkCode), ASSERT_LEN len 0, True)
     else if type = 0xFE then do { c \<leftarrow> DBMAKEU16 d pos; Some ((hi, magic, c), ASSERT_LEN len 2, False) }
     else Some ((hi, magic, checkCode), LUADB_ERR_UNKNOWN_TYPE, True))"

definition decodeHeadInfo :: "u8 list \<Rightarrow> u32 \<Rightarrow> (int \<times> head_info \<times> u32) option" where
  "decodeHeadInfo data offset = do {
     ((hi, magic, checkCode), err, pos) \<leftarrow> tlv_loop head_item data 0 (\<lparr>verNum = 0, filecount = 0, hi_length = 0\<rparr>, 0, 0);
     (if err \<noteq> 0 then Some (err, hi, offset)
      else if magic \<noteq> 0xA55AA55A then Some (LUADB_ERR_MAGIC, hi, offset)
      else do {
        c \<leftarrow> calcCheckCode data (pos - 2);
        (if c \<noteq> checkCode then Some (LUADB_ERR_CHECK_FAIL, hi, offset)
         else Some (0, hi, offset + hi_length hi))
      })
   }"

text \<open>All file headers, as long as there are files and the offset is inside.\<close>

fun decode_files :: "u8 list \<Rightarrow> u32 \<Rightarrow> nat \<Rightarrow> u32 \<Rightarrow> file_info list \<Rightarrow> (int \<times> file_info list \<times> u32) option" where
  "decode_files data len 0 offset infos = Some (0, infos, offset)"
| "decode_files data len (Suc n) offset infos =
     (if offset < len then do {
        (err, fi, offset) \<leftarrow> decodeFile data offset;
        (if err \<noteq> LUADB_ERR_NONE then Some (err, infos, offset) else decode_files data len n offset (infos @ [fi]))
      }
      else Some (0, infos, offset))"

text \<open>The first half of \<^verbatim>\<open>parse_luadb_data\<close>. \<open>table\<close> says whether the table of files can be allocated; without it
  the rest is left out and the error code is still that of success.\<close>

definition read_image :: "bool \<Rightarrow> u8 list \<Rightarrow> u32 \<Rightarrow> (int \<times> file_info list) option" where
  "read_image table data len = do {
     b0 \<leftarrow> ld data 0;
     known \<leftarrow> (if b0 = 1 then Some True else map_option (\<lambda>b1. b1 = 4) (ld data 1));
     (if \<not> known then Some (LUADB_ERR_NOT_DBDATA, [])
      else do {
        (err, hi, offset) \<leftarrow> decodeHeadInfo data 0;
        (if err \<noteq> 0 \<or> \<not> table then Some (err, [])
         else do {
           (err, infos, offset) \<leftarrow> decode_files data len (unat (filecount hi)) offset [];
           (if err \<noteq> 0 then Some (err, [])
            else if len < offset then Some (LUADB_ERR_OUT_OF_RANGE, [])
            else if length infos \<noteq> unat (filecount hi) then Some (LUADB_ERR_FILE_COUNT, [])
            else Some (0, infos))
         })
      })
   }"

section \<open>Installing the files\<close>

record table_item =
  ti_file :: "u8 list"
  ti_offset :: u32
  ti_len :: u32

datatype fs_call =
    Write_file "u8 list" "u8 list"
  | Remove_file "u8 list"
  | Unzip "u8 list" "u8 list"
  | Unzip_file "u8 list" "u8 list"
  | Remove_dir "u8 list"
  | Restart

text \<open>
  Whether a file can be opened for reading and for writing, what the kernel answers to a write, what
  the decompression of data to a file answers, after the calls made so far.
\<close>

record fs_env =
  env_exists :: "fs_call list \<Rightarrow> u8 list \<Rightarrow> bool"
  env_create :: "fs_call list \<Rightarrow> u8 list \<Rightarrow> bool"
  env_write :: "fs_call list \<Rightarrow> u8 list \<Rightarrow> u8 list \<Rightarrow> int"
  env_unzip :: "fs_call list \<Rightarrow> u8 list \<Rightarrow> u8 list \<Rightarrow> int"

record ldb_state =
  pUpdateFileTable :: "table_item list"
  pFlashFileTable :: "table_item list"
  calls :: "fs_call list"

definition fs_do :: "fs_call \<Rightarrow> ldb_state \<Rightarrow> ldb_state" where
  "fs_do c s = s\<lparr>calls := calls s @ [c]\<rparr>"

definition AddUncompressFileItem :: "table_section \<Rightarrow> u8 list \<Rightarrow> u32 \<Rightarrow> u32 \<Rightarrow> ldb_state \<Rightarrow> ldb_state option" where
  "AddUncompressFileItem sec file off len s =
     (if file = [] then None
      else (let item = \<lparr>ti_file = file, ti_offset = off, ti_len = len\<rparr> in
        Some (case sec of
          LUA_SCRIPT_TABLE_UPDATE_SECTION \<Rightarrow> s\<lparr>pUpdateFileTable := item # pUpdateFileTable s\<rparr>
        | LUA_SCRIPT_TABLE_FLASH_SECTION \<Rightarrow> s\<lparr>pFlashFileTable := item # pFlashFileTable s\<rparr>)))"

definition FindUncompressFileItem :: "u8 list \<Rightarrow> ldb_state \<Rightarrow> (table_section \<times> table_item) option" where
  "FindUncompressFileItem file s =
     (if file = [] then None
      else (case find (\<lambda>i. ti_file i = file) (pUpdateFileTable s) of
        Some i \<Rightarrow> Some (LUA_SCRIPT_TABLE_UPDATE_SECTION, i)
      | None \<Rightarrow> (case find (\<lambda>i. ti_file i = file) (pFlashFileTable s) of
          Some i \<Rightarrow> Some (LUA_SCRIPT_TABLE_FLASH_SECTION, i)
        | None \<Rightarrow> None)))"

definition in_update_table :: "u8 list \<Rightarrow> ldb_state \<Rightarrow> bool" where
  "in_update_table file s \<longleftrightarrow> (case FindUncompressFileItem file s of Some (LUA_SCRIPT_TABLE_UPDATE_SECTION, _) \<Rightarrow> True | _ \<Rightarrow> False)"

text \<open>A file in one of the tables opens for reading without the file system.\<close>

definition file_exist :: "fs_env \<Rightarrow> u8 list \<Rightarrow> ldb_state \<Rightarrow> bool" where
  "file_exist env file s \<longleftrightarrow> FindUncompressFileItem file s \<noteq> None \<or> env_exists env (calls s) file"

text \<open>\<^verbatim>\<open>strncmp(&mem[i], lit, strlen(lit)) == 0\<close>, and \<^verbatim>\<open>strcmp\<close> when \<open>lit\<close> ends in a zero byte.\<close>

fun mem_prefix :: "u8 list \<Rightarrow> int \<Rightarrow> u8 list \<Rightarrow> bool option" where
  "mem_prefix mem i [] = Some True"
| "mem_prefix mem i (c # cs) =
     (if i < 0 then None else do { b \<leftarrow> ld mem (nat i); if b = c then mem_prefix mem (i + 1) cs else Some False })"

fun mem_any :: "u8 list \<Rightarrow> int \<Rightarrow> u8 list list \<Rightarrow> bool option" where
  "mem_any mem i [] = Some False"
| "mem_any mem i (l # ls) = mem_prefix mem i l \<bind> (\<lambda>b. if b then Some True else mem_any mem i ls)"

text \<open>\<^verbatim>\<open>strcpy\<close>, \<^verbatim>\<open>strcat\<close> and \<^verbatim>\<open>strncat\<close> into the array of 256 bytes.\<close>

definition make_filename :: "u8 list \<Rightarrow> u8 list \<Rightarrow> nat \<Rightarrow> u8 list option" where
  "make_filename dir name n =
     (let f = dir @ ascii ''/'' @ takeWhile (\<lambda>c. c \<noteq> 0) (take n name)
      in if length f < 256 then Some f else None)"

definition table_types :: "u8 list list" where
  "table_types = map ascii [''.lua'', ''.bmp'', ''.BMP'', ''.png'', ''.PNG'', ''.amr'', ''.AMR'', ''.MP3'', ''.mp3'']"

text \<open>Whether a file is written: it is not there yet, neither in the update table, or it is to be overwritten.\<close>

definition must_write :: "fs_env \<Rightarrow> bool \<Rightarrow> u8 list \<Rightarrow> ldb_state \<Rightarrow> bool" where
  "must_write env override file s \<longleftrightarrow> (\<not> file_exist env file s \<and> \<not> in_update_table file s) \<or> override"

text \<open>
  \<^verbatim>\<open>fopen\<close> for writing hands out the read-only file of the update table if it holds the name, and that of the flash table
  if the kernel refuses; \<^verbatim>\<open>fwrite\<close> answers \<open>-1\<close> then, and when the kernel answers that nothing was written.
\<close>

definition write_data :: "fs_env \<Rightarrow> u8 list \<Rightarrow> u8 list \<Rightarrow> ldb_state \<Rightarrow> int \<times> ldb_state" where
  "write_data env file bs s =
     (if in_update_table file s \<or> (\<not> env_create env (calls s) file \<and> FindUncompressFileItem file s \<noteq> None)
      then (LUADB_ERR_WRITE_FILE, fs_do (Remove_file file) s)
      else if \<not> env_create env (calls s) file then (LUADB_ERR_WRITE_FILE, s)
      else (let w = env_write env (calls s) file bs;
                s = fs_do (Write_file file bs) s;
                n = (if w \<le> 0 then -1 else w)
            in if n mod 4294967296 \<noteq> int (length bs) then (LUADB_ERR_WRITE_FILE, fs_do (Remove_file file) s) else (0, s)))"

text \<open>The flags \<^verbatim>\<open>delupdpack\<close> and \<^verbatim>\<open>wrFile\<close>.\<close>

record install =
  delupdpack :: bool
  wrFile :: bool

definition install_zip ::
  "fs_env \<Rightarrow> bool \<Rightarrow> u8 list \<Rightarrow> file_info \<Rightarrow> u8 list \<Rightarrow> install \<times> ldb_state \<Rightarrow> (int \<times> install \<times> ldb_state) option" where
  "install_zip env override data fi name = (\<lambda>(f, s). do {
     let withoutZipLen = fi_nameLen fi - 4;
     let withoutLuaLen = withoutZipLen - 4;
     lua \<leftarrow> mem_prefix name (uint withoutLuaLen) (ascii ''.lua'');
     lua \<leftarrow> (if lua then Some True else mem_prefix name (uint withoutLuaLen - 1) (ascii ''.luae''));
     filename \<leftarrow> make_filename (if lua then LUA_DIR else LUA_DATA_DIR) name (unat withoutZipLen);
     (if must_write env override filename s then do {
        bs \<leftarrow> sub_bytes data (fi_data fi) (unat (fi_length fi));
        let r = env_unzip env (calls s) filename bs;
        let s = fs_do (Unzip filename bs) s;
        (if r \<noteq> 0 then Some (LUADB_ERR_UNZIP_FILE, f, s) else Some (0, f\<lparr>wrFile := True\<rparr>, s))
      }
      else Some (0, f, s))
   })"

definition install_plain ::
  "fs_env \<Rightarrow> bool \<Rightarrow> table_section \<Rightarrow> u8 list \<Rightarrow> file_info \<Rightarrow> u8 list \<Rightarrow> install \<times> ldb_state \<Rightarrow> (int \<times> install \<times> ldb_state) option" where
  "install_plain env override sec data fi name = (\<lambda>(f, s). do {
     let f = f\<lparr>delupdpack := False\<rparr>;
     let p = uint (fi_nameLen fi) - 4;
     let luep = uint (fi_nameLen fi) - 5;
     lua \<leftarrow> mem_prefix name p (ascii ''.lua'');
     lua \<leftarrow> (if lua then Some True else mem_prefix name luep (ascii ''.luae''));
     filename \<leftarrow> make_filename (if lua then LUA_DIR else LUA_DATA_DIR) name (unat (fi_nameLen fi));
     inTable \<leftarrow> mem_any name p table_types;
     inTable \<leftarrow> (if inTable then Some True else mem_prefix name luep (ascii ''.luae''));
     (if inTable then
        (case AddUncompressFileItem sec filename (fi_offset fi) (fi_length fi) s of
           None \<Rightarrow> Some (LUADB_ERR_ADD_TABLE_ITEM, f, s)
         | Some s \<Rightarrow> Some (0, f, s))
      else if must_write env override filename s then do {
        bs \<leftarrow> sub_bytes data (fi_data fi) (unat (fi_length fi));
        let (err, s) = write_data env filename bs s;
        (if err \<noteq> 0 then Some (err, f, s) else Some (0, f\<lparr>wrFile := True\<rparr>, s))
      }
      else Some (0, f, s))
   })"

definition install_file ::
  "fs_env \<Rightarrow> bool \<Rightarrow> table_section \<Rightarrow> u8 list \<Rightarrow> file_info \<Rightarrow> install \<times> ldb_state \<Rightarrow> (int \<times> install \<times> ldb_state) option" where
  "install_file env override sec data fi fs =
     (if unat (fi_nameLen fi) \<le> 4 then Some (0, fs)
      else do {
        name \<leftarrow> fi_name fi;
        zip \<leftarrow> mem_prefix name (uint (fi_nameLen fi - 4)) (ascii ''.zip'' @ [0]);
        (if zip then install_zip env override data fi name fs else install_plain env override sec data fi name fs)
      })"

fun install_files ::
  "fs_env \<Rightarrow> bool \<Rightarrow> table_section \<Rightarrow> u8 list \<Rightarrow> file_info list \<Rightarrow> install \<times> ldb_state \<Rightarrow> (int \<times> install \<times> ldb_state) option" where
  "install_files env override sec data [] fs = Some (0, fs)"
| "install_files env override sec data (fi # infos) fs = do {
     (err, fs) \<leftarrow> install_file env override sec data fi fs;
     (if err \<noteq> 0 then Some (err, fs) else install_files env override sec data infos fs)
   }"

text \<open>The result, whether a restart is asked for, and the state.\<close>

definition parse_luadb_data ::
  "bool \<Rightarrow> fs_env \<Rightarrow> u8 list \<Rightarrow> u32 \<Rightarrow> bool \<Rightarrow> table_section \<Rightarrow> ldb_state \<Rightarrow> (int \<times> bool \<times> ldb_state) option" where
  "parse_luadb_data table env data len override sec s = do {
     (err, infos) \<leftarrow> read_image table data len;
     (if err = LUADB_ERR_NOT_DBDATA then Some (err, False, s)
      else do {
        (err, f, s) \<leftarrow>
          (if err \<noteq> 0 then Some (err, \<lparr>delupdpack = True, wrFile = False\<rparr>, s)
           else install_files env override sec data infos (\<lparr>delupdpack = True, wrFile = False\<rparr>, s));
        let update = (err = LUADB_ERR_NONE \<and> sec = LUA_SCRIPT_TABLE_UPDATE_SECTION);
        let s = (if delupdpack f \<and> update then fs_do (Remove_file LUA_UPDATE_FILE) s else s);
        Some (err, update \<and> (delupdpack f \<or> wrFile f), s)
      })
   }"

section \<open>Boot\<close>

definition LUA_CHECK_INTEGRITY_FILE :: "u8 list" where "LUA_CHECK_INTEGRITY_FILE = ascii ''/integrity.bin''"
definition LUA_ENTRY_FILE :: "u8 list" where "LUA_ENTRY_FILE = ascii ''/lua/main.lua''"
definition LUA_ENTRY_ENC_FILE :: "u8 list" where "LUA_ENTRY_ENC_FILE = ascii ''/lua/main.luae''"
definition LUA_ENTRY_FILE_ZIP :: "u8 list" where "LUA_ENTRY_FILE_ZIP = ascii ''/luazip/main.lua.zip''"
definition LUA_ENTRY_ENC_FILE_ZIP :: "u8 list" where "LUA_ENTRY_ENC_FILE_ZIP = ascii ''/luazip/main.luae.zip''"

definition LUA_INTEGRITY_FLAG :: u32 where "LUA_INTEGRITY_FLAG = 0xABCD8765"

definition LuaDeleteMainFile :: "ldb_state \<Rightarrow> ldb_state" where
  "LuaDeleteMainFile s = fs_do (Remove_file LUA_ENTRY_ENC_FILE) (fs_do (Remove_file LUA_ENTRY_FILE) s)"

definition removeLuaDir :: "ldb_state \<Rightarrow> ldb_state" where
  "removeLuaDir s = fs_do (Remove_dir (ascii ''/luazip'')) (fs_do (Remove_dir LUA_DATA_DIR) (fs_do (Remove_dir LUA_DIR) (LuaDeleteMainFile s)))"

text \<open>
  What the file system holds at boot: the update file and the integrity file, if they can be opened; \<open>rom\<close>
  is the section of flash with the preloaded image, \<open>junk\<close> what the stack holds where a short integrity file is
  read to. \<open>boot_table\<close> says whether the two tables of files can be allocated.
\<close>

record boot_env = fs_env +
  boot_update :: "u8 list option"
  boot_integrity :: "fs_call list \<Rightarrow> u8 list option"
  boot_junk :: u32
  boot_table :: "bool \<times> bool"
  boot_unzip_file :: "fs_call list \<Rightarrow> u8 list \<Rightarrow> u8 list \<Rightarrow> int"

definition integrity_ok :: "boot_env \<Rightarrow> ldb_state \<Rightarrow> bool" where
  "integrity_ok env s =
     (case boot_integrity env (calls s) of
        None \<Rightarrow> False
      | Some bs \<Rightarrow> (case DBMAKEU32 bs 0 of Some w \<Rightarrow> w | None \<Rightarrow> boot_junk env) = LUA_INTEGRITY_FLAG)"

definition load_luadb :: "boot_env \<Rightarrow> u8 list \<Rightarrow> ldb_state \<Rightarrow> (int \<times> ldb_state) option" where
  "load_luadb env rom s = do {
     (restart1, file_override, s) \<leftarrow>
       (case boot_update env of
          None \<Rightarrow> Some (False, \<not> integrity_ok env s, s)
        | Some buff \<Rightarrow> do {
            (err, restart1, s) \<leftarrow> parse_luadb_data (fst (boot_table env)) (fs_env.truncate env) buff (of_nat (length buff)) True
              LUA_SCRIPT_TABLE_UPDATE_SECTION s;
            Some (if err \<noteq> LUADB_ERR_NONE then (True, True, removeLuaDir s) else (restart1, \<not> integrity_ok env s, s))
          });
     (result, restart2, s) \<leftarrow> parse_luadb_data (snd (boot_table env)) (fs_env.truncate env) rom (of_nat (length rom)) file_override
       LUA_SCRIPT_TABLE_FLASH_SECTION s;
     let s = (if file_override \<and> env_create env (calls s) LUA_CHECK_INTEGRITY_FILE
              then fs_do (Write_file LUA_CHECK_INTEGRITY_FILE [0x65, 0x87, 0xCD, 0xAB]) s else s);
     Some (result, if restart1 \<or> restart2 then fs_do Restart s else s)
   }"

text \<open>What \<^verbatim>\<open>LuaAppTask\<close> runs after loading: nothing, the script in flash, or an entry file.\<close>

datatype lua_argv = Argv_null | Argv_script_const | Argv_script_file | Argv_enc_script_file

definition LuaAppTask :: "boot_env \<Rightarrow> u8 list \<Rightarrow> ldb_state \<Rightarrow> (lua_argv \<times> ldb_state) option" where
  "LuaAppTask env rom s = do {
     b \<leftarrow> ld rom 0;
     let existScript = \<not> (b = 0xFF \<or> b = 0);
     (dbret, s) \<leftarrow> load_luadb env rom s;
     let existLuaDB = (dbret \<noteq> LUADB_ERR_NOT_DBDATA);
     let fe = fs_env.truncate env;
     (if existScript \<or> existLuaDB then
        (let zip = (if file_exist fe LUA_ENTRY_FILE_ZIP s then Some (LUA_ENTRY_FILE_ZIP, LUA_ENTRY_FILE)
                    else if file_exist fe LUA_ENTRY_ENC_FILE_ZIP s then Some (LUA_ENTRY_ENC_FILE_ZIP, LUA_ENTRY_ENC_FILE)
                    else None);
             s = (case zip of
                    None \<Rightarrow> s
                  | Some (z, f) \<Rightarrow>
                      (let r = boot_unzip_file env (calls s) z f; s = fs_do (Unzip_file z f) s
                       in if r = 0 then fs_do Restart (fs_do (Remove_file z) s) else s))
         in Some (if file_exist fe LUA_ENTRY_FILE s then Argv_script_file
                  else if file_exist fe LUA_ENTRY_ENC_FILE s then Argv_enc_script_file
                  else if existLuaDB then Argv_null
                  else Argv_script_const, s))
      else Some (Argv_null, s))
   }"

end
