(* ===== verification/Luadb_image.thy ===== *)
theory Luadb_image
  imports Luadb "HOL-Library.Sublist"
begin

text \<open>
  Images as the packing tool writes them, and what the parser of \<^verbatim>\<open>Luadb\<close> and the boot make of them: every file is found where it
  lies, installed under its path, and an update that cannot be read is undone.
\<close>

section \<open>Packing an image\<close>

text \<open>The format as the packing tool writes it, version 1.\<close>

definition le16_bytes :: "u16 \<Rightarrow> u8 list" where
  "le16_bytes w = [ucast w, ucast (drop_bit 8 w)]"

definition le32_bytes :: "u32 \<Rightarrow> u8 list" where
  "le32_bytes w = le16_bytes (ucast w) @ le16_bytes (ucast (drop_bit 16 w))"

definition tlv :: "u8 \<Rightarrow> u8 list \<Rightarrow> u8 list" where
  "tlv t bs = t # of_nat (length bs) # bs"

definition byte_sum :: "u8 list \<Rightarrow> u32" where
  "byte_sum bs = sum_list (map ucast bs)"

definition with_check :: "u8 list \<Rightarrow> u8 list" where
  "with_check bs = bs @ tlv 0xFE (le16_bytes (ucast (byte_sum (bs @ [0xFE, 2]))))"

definition magic :: "u8 list" where "magic = [0x5A, 0xA5, 0x5A, 0xA5]"

definition file_header :: "u8 list \<Rightarrow> u32 \<Rightarrow> u8 list" where
  "file_header name n = with_check (tlv 1 magic @ tlv 2 name @ tlv 3 (le32_bytes n))"

definition image_head :: "nat \<Rightarrow> u8 list" where
  "image_head n = with_check (tlv 1 magic @ tlv 2 (le16_bytes 1) @ tlv 3 (le32_bytes 24) @ tlv 4 (le16_bytes (of_nat n)))"

fun pack_files :: "(u8 list \<times> u8 list) list \<Rightarrow> u8 list" where
  "pack_files [] = []"
| "pack_files ((name, bs) # fs) = file_header name (of_nat (length bs)) @ bs @ pack_files fs"

definition db_image :: "(u8 list \<times> u8 list) list \<Rightarrow> u8 list" where
  "db_image fs = image_head (length fs) @ pack_files fs"

section \<open>Reading what was packed\<close>

lemma ld_at: "ld (pre @ x # post) (length pre) = Some x"
  by (simp add: ld_def)

lemma DBMAKEU16_at: "d = pre @ le16_bytes w @ post \<Longrightarrow> p = length pre \<Longrightarrow> DBMAKEU16 d p = Some w"
proof -
  assume d: "d = pre @ le16_bytes w @ post" and p: "p = length pre"
  have "ucast (ucast w :: u8) OR push_bit 8 (ucast (ucast (drop_bit 8 w) :: u8)) = w"
    by (rule bit_word_eqI) (auto simp: bit_simps)
  then show ?thesis
    by (simp add: DBMAKEU16_def d p le16_bytes_def ld_def nth_append)
qed

lemma DBMAKEU32_at: "d = pre @ le32_bytes w @ post \<Longrightarrow> p = length pre \<Longrightarrow> DBMAKEU32 d p = Some w"
proof -
  assume d: "d = pre @ le32_bytes w @ post" and p: "p = length pre"
  have "DBMAKEU16 d p = Some (ucast w)"
    by (rule DBMAKEU16_at) (auto simp: d p le32_bytes_def)
  moreover have "DBMAKEU16 d (p + 2) = Some (ucast (drop_bit 16 w))"
    by (rule DBMAKEU16_at [of _ "pre @ le16_bytes (ucast w)" _ post]) (auto simp: d p le32_bytes_def le16_bytes_def)
  moreover have "ucast (ucast w :: u16) OR push_bit 16 (ucast (ucast (drop_bit 16 w) :: u16)) = w"
    by (rule bit_word_eqI) (auto simp: bit_simps)
  ultimately show ?thesis by (simp add: DBMAKEU32_def)
qed

lemma sub_bytes_at: "d = pre @ bs @ post \<Longrightarrow> p = length pre \<Longrightarrow> n = length bs \<Longrightarrow> sub_bytes d p n = Some bs"
  by (simp add: sub_bytes_def)

lemma checksum_loop_sum: "n \<le> length d \<Longrightarrow> checksum_loop d n s = Some (s + byte_sum (take n d))"
proof (induction n arbitrary: s)
  case (Suc n)
  have "take (Suc n) d = take n d @ [d ! n]" using Suc.prems by (simp add: take_Suc_conv_app_nth)
  then show ?case using Suc by (simp add: ld_def byte_sum_def add.commute add.left_commute)
qed (simp add: byte_sum_def)

lemma unat_of_nat_u8: "k < 256 \<Longrightarrow> unat (of_nat k :: u8) = k"
  by (simp add: unsigned_of_nat take_bit_nat_eq_self)

lemma tlv_at:
  assumes "d = pre @ tlv t bs @ post" and "pos = length pre" and "length bs < 256"
  shows "tlv_loop item d pos s = do {
    (s, err, loop) \<leftarrow> item d t (of_nat (length bs)) (pos + 2) s;
    (if loop \<and> err = 0 then tlv_loop item d (pos + 2 + length bs) s else Some (s, err, pos + 2 + length bs)) }"
proof -
  have "ld d pos = Some t" "ld d (pos + 1) = Some (of_nat (length bs))"
    using assms(1,2) by (simp_all add: tlv_def ld_def nth_append)
  then show ?thesis
    unfolding tlv_loop.simps [of item d pos s] by (simp only: option.case bind.bind_lunit unat_of_nat_u8 [OF assms(3)])
qed

lemma check_code:
  assumes "d = with_check bs @ post" and "n = length bs + 2"
  shows "calcCheckCode d n = Some (ucast (byte_sum (bs @ [0xFE, 2])))"
proof -
  have "n \<le> length d" and t: "take n d = bs @ [0xFE, 2]"
    using assms by (simp_all add: with_check_def tlv_def le16_bytes_def)
  then show ?thesis using checksum_loop_sum [of n d 0] by (simp only: calcCheckCode_def t) simp
qed

lemmas byte_lengths = tlv_def magic_def le16_bytes_def le32_bytes_def with_check_def

lemma length_file_header: "length (file_header name n) = 18 + length name"
  by (simp add: file_header_def byte_lengths)

lemma length_image_head: "length (image_head n) = 24"
  by (simp add: image_head_def byte_lengths)

lemma magic_value: "le32_bytes 0xA55AA55A = magic"
  by (simp add: le32_bytes_def le16_bytes_def magic_def)

lemma decode_header:
  assumes "length name < 256" and "data = pre @ file_header name n @ rest" and "length pre < 2 ^ 32"
  shows "decodeFile data (of_nat (length pre)) =
    Some (0, \<lparr>fi_name = Some (name @ [0]), fi_nameLen = of_nat (length name), fi_length = n,
        fi_data = length pre + (18 + length name), fi_offset = of_nat (length pre) + of_nat (18 + length name)\<rparr>,
      of_nat (length pre) + (of_nat (18 + length name) + n))"
proof -
  define d where "d = drop (length pre) data"
  define bs where "bs = tlv 1 magic @ tlv 2 name @ tlv 3 (le32_bytes n)"
  define c where "c = (ucast (byte_sum (bs @ [0xFE, 2])) :: u16)"
  have d: "d = with_check bs @ rest" using assms(2) by (simp add: d_def file_header_def bs_def)
  have d1: "d = [] @ tlv 1 magic @ (tlv 2 name @ tlv 3 (le32_bytes n) @ tlv 0xFE (le16_bytes c) @ rest)"
    by (simp add: d with_check_def bs_def c_def)
  have d2: "d = tlv 1 magic @ tlv 2 name @ (tlv 3 (le32_bytes n) @ tlv 0xFE (le16_bytes c) @ rest)" by (simp add: d1)
  have d3: "d = (tlv 1 magic @ tlv 2 name) @ tlv 3 (le32_bytes n) @ (tlv 0xFE (le16_bytes c) @ rest)" by (simp add: d1)
  have d4: "d = (tlv 1 magic @ tlv 2 name @ tlv 3 (le32_bytes n)) @ tlv 0xFE (le16_bytes c) @ rest" by (simp add: d1)
  have m: "DBMAKEU32 d 2 = Some 0xA55AA55A"
    by (rule DBMAKEU32_at [of _ "[1, 4]"]) (auto simp: d1 tlv_def magic_value, simp add: magic_def)
  have nm: "sub_bytes d 8 (length name) = Some name"
    by (rule sub_bytes_at [of _ "tlv 1 magic @ [2, of_nat (length name)]"]) (auto simp: d1 tlv_def magic_def)
  have ln: "DBMAKEU32 d (10 + length name) = Some n"
    by (rule DBMAKEU32_at [of _ "tlv 1 magic @ tlv 2 name @ [3, 4]"]) (auto simp: d1 tlv_def magic_def le32_bytes_def le16_bytes_def)
  have ck: "DBMAKEU16 d (16 + length name) = Some c"
    by (rule DBMAKEU16_at [of _ "tlv 1 magic @ tlv 2 name @ tlv 3 (le32_bytes n) @ [0xFE, 2]"])
      (auto simp: d1 tlv_def magic_def le32_bytes_def le16_bytes_def)
  let ?fi = "no_info\<lparr>fi_name := Some (name @ [0]), fi_nameLen := of_nat (length name), fi_length := n\<rparr>"
  have len: "length magic = 4" "length (le32_bytes n) = 4" "length (le16_bytes c) = 2" for n c
    by (simp_all add: magic_def le32_bytes_def le16_bytes_def)
  let ?f2 = "no_info\<lparr>fi_name := Some (name @ [0]), fi_nameLen := of_nat (length name)\<rparr>"
  have "tlv_loop file_item d 0 (no_info, 0, 0) = tlv_loop file_item d 6 (no_info, 0xA55AA55A, 0)"
    using m [unfolded numeral_2_eq_2] by (simp add: tlv_at [OF d1] len file_item_def ASSERT_LEN_def)
  also have "\<dots> = tlv_loop file_item d (8 + length name) (?f2, 0xA55AA55A, 0)"
    using nm assms(1) by (simp add: tlv_at [OF d2] tlv_def len file_item_def unat_of_nat_u8)
  also have "\<dots> = tlv_loop file_item d (14 + length name) (?fi, 0xA55AA55A, 0)"
    using ln by (simp add: tlv_at [OF d3] tlv_def len file_item_def ASSERT_LEN_def)
  also have "\<dots> = Some ((?fi, 0xA55AA55A, c), 0, 18 + length name)"
    using ck by (simp add: tlv_at [OF d4] tlv_def len file_item_def ASSERT_LEN_def)
  finally have "tlv_loop file_item d 0 (no_info, 0, 0) = Some ((?fi, 0xA55AA55A, c), 0, 18 + length name)" .
  moreover have "calcCheckCode d (16 + length name) = Some c"
    using check_code [OF d, of "16 + length name"] by (simp add: bs_def byte_lengths c_def)
  moreover have "unat (of_nat (length pre) :: u32) = length pre" using assms(3) by simp
  ultimately show ?thesis by (simp add: decodeFile_def d_def no_info_def)
qed

lemma decode_image_head:
  assumes "data = image_head n @ rest"
  shows "decodeHeadInfo data 0 = Some (0, \<lparr>verNum = 1, filecount = of_nat n, hi_length = 24\<rparr>, 24)"
proof -
  define bs where "bs = tlv 1 magic @ tlv 2 (le16_bytes 1) @ tlv 3 (le32_bytes 24) @ tlv 4 (le16_bytes (of_nat n))"
  define c where "c = (ucast (byte_sum (bs @ [0xFE, 2])) :: u16)"
  define tl where "tl = tlv 0xFE (le16_bytes c) @ rest"
  have d: "data = with_check bs @ rest" using assms by (simp add: image_head_def bs_def)
  have d1: "data = [] @ tlv 1 magic @ (tlv 2 (le16_bytes 1) @ tlv 3 (le32_bytes 24) @ tlv 4 (le16_bytes (of_nat n)) @ tl)"
    by (simp add: d with_check_def bs_def c_def tl_def)
  have d2: "data = tlv 1 magic @ tlv 2 (le16_bytes 1) @ (tlv 3 (le32_bytes 24) @ tlv 4 (le16_bytes (of_nat n)) @ tl)" by (simp add: d1)
  have d3: "data = (tlv 1 magic @ tlv 2 (le16_bytes 1)) @ tlv 3 (le32_bytes 24) @ (tlv 4 (le16_bytes (of_nat n)) @ tl)" by (simp add: d1)
  have d4: "data = (tlv 1 magic @ tlv 2 (le16_bytes 1) @ tlv 3 (le32_bytes 24)) @ tlv 4 (le16_bytes (of_nat n)) @ tl" by (simp add: d1)
  have d5: "data = (tlv 1 magic @ tlv 2 (le16_bytes 1) @ tlv 3 (le32_bytes 24) @ tlv 4 (le16_bytes (of_nat n))) @ tlv 0xFE (le16_bytes c) @ rest"
    by (simp add: d1 tl_def)
  have len: "length magic = 4" "length (le32_bytes k) = 4" "length (le16_bytes w) = 2" for k w
    by (simp_all add: magic_def le32_bytes_def le16_bytes_def)
  have m: "DBMAKEU32 data (Suc (Suc 0)) = Some 0xA55AA55A"
    by (rule DBMAKEU32_at [of _ "[1, 4]"]) (auto simp: d1 tlv_def magic_value, simp add: magic_def)
  have v: "DBMAKEU16 data 8 = Some 1"
    by (rule DBMAKEU16_at [of _ "tlv 1 magic @ [2, 2]"]) (auto simp: d2 tlv_def len)
  have l: "DBMAKEU32 data 12 = Some 24"
    by (rule DBMAKEU32_at [of _ "tlv 1 magic @ tlv 2 (le16_bytes 1) @ [3, 4]"]) (auto simp: d3 tlv_def len)
  have f: "DBMAKEU16 data 18 = Some (of_nat n)"
    by (rule DBMAKEU16_at [of _ "tlv 1 magic @ tlv 2 (le16_bytes 1) @ tlv 3 (le32_bytes 24) @ [4, 2]"]) (auto simp: d4 tlv_def len)
  have ck: "DBMAKEU16 data 22 = Some c"
    by (rule DBMAKEU16_at [of _ "tlv 1 magic @ tlv 2 (le16_bytes 1) @ tlv 3 (le32_bytes 24) @ tlv 4 (le16_bytes (of_nat n)) @ [0xFE, 2]"])
      (auto simp: d5 tlv_def len)
  let ?h = "\<lparr>verNum = 1, filecount = of_nat n, hi_length = 24\<rparr>"
  have "tlv_loop head_item data 0 (\<lparr>verNum = 0, filecount = 0, hi_length = 0\<rparr>, 0, 0) =
      tlv_loop head_item data 6 (\<lparr>verNum = 0, filecount = 0, hi_length = 0\<rparr>, 0xA55AA55A, 0)"
    using m by (simp add: tlv_at [OF d1] len head_item_def ASSERT_LEN_def)
  also have "\<dots> = tlv_loop head_item data 10 (\<lparr>verNum = 1, filecount = 0, hi_length = 0\<rparr>, 0xA55AA55A, 0)"
    using v by (simp add: tlv_at [OF d2] tlv_def len head_item_def ASSERT_LEN_def)
  also have "\<dots> = tlv_loop head_item data 16 (\<lparr>verNum = 1, filecount = 0, hi_length = 24\<rparr>, 0xA55AA55A, 0)"
    using l by (simp add: tlv_at [OF d3] tlv_def len head_item_def ASSERT_LEN_def)
  also have "\<dots> = tlv_loop head_item data 20 (?h, 0xA55AA55A, 0)"
    using f by (simp add: tlv_at [OF d4] tlv_def len head_item_def ASSERT_LEN_def)
  also have "\<dots> = Some ((?h, 0xA55AA55A, c), 0, 24)"
    using ck by (simp add: tlv_at [OF d5] tlv_def len head_item_def ASSERT_LEN_def)
  finally have "tlv_loop head_item data 0 (\<lparr>verNum = 0, filecount = 0, hi_length = 0\<rparr>, 0, 0) = Some ((?h, 0xA55AA55A, c), 0, 24)" .
  moreover have "calcCheckCode data 22 = Some c"
    using check_code [OF d, of 22] by (simp add: bs_def byte_lengths c_def)
  ultimately show ?thesis by (simp add: decodeHeadInfo_def)
qed

text \<open>The records the parser makes of the files, from the position of the first header on.\<close>

fun infos_at :: "nat \<Rightarrow> (u8 list \<times> u8 list) list \<Rightarrow> file_info list" where
  "infos_at pos [] = []"
| "infos_at pos ((name, bs) # fs) =
     \<lparr>fi_name = Some (name @ [0]), fi_nameLen = of_nat (length name), fi_length = of_nat (length bs),
      fi_data = pos + (18 + length name), fi_offset = of_nat (pos + (18 + length name))\<rparr>
     # infos_at (pos + (18 + length name) + length bs) fs"

lemma length_infos_at: "length (infos_at pos fs) = length fs"
  by (induction pos fs rule: infos_at.induct) simp_all

lemma decode_packed:
  assumes "data = pre @ pack_files fs @ rest" and "length pre + length (pack_files fs) \<le> unat len"
    and "\<forall>(name, bs) \<in> set fs. length name < 256"
  shows "decode_files data len (length fs) (of_nat (length pre)) acc =
    Some (0, acc @ infos_at (length pre) fs, of_nat (length pre + length (pack_files fs)))"
  using assms
proof (induction fs arbitrary: pre acc)
  case (Cons f fs)
  obtain name bs where f: "f = (name, bs)" by fastforce
  have nl: "length name < 256" using Cons.prems(3) f by auto
  have d: "data = pre @ file_header name (of_nat (length bs)) @ (bs @ pack_files fs @ rest)" using Cons.prems(1) f by simp
  have L: "length pre + (18 + length name + (length bs + length (pack_files fs))) \<le> unat len"
    using Cons.prems(2) f by (simp add: length_file_header)
  have ul: "unat len < 2 ^ 32" using unsigned_less [of len] by simp
  have p: "length pre < 2 ^ 32" using L ul by linarith
  have lt: "of_nat (length pre) < len" using L p by (simp add: word_less_nat_alt)
  let ?pre = "pre @ file_header name (of_nat (length bs)) @ bs"
  have IH: "decode_files data len (length fs) (of_nat (length ?pre)) acc' =
      Some (0, acc' @ infos_at (length ?pre) fs, of_nat (length ?pre + length (pack_files fs)))" for acc'
    using Cons.prems L f by (intro Cons.IH) (auto simp: length_file_header)
  have lp: "length ?pre = length pre + (18 + length name) + length bs" by (simp add: length_file_header)
  show ?case using lt IH decode_header [OF nl d p]
    by (simp add: LUADB_ERR_NONE_def f lp) (simp add: length_file_header add.assoc)
qed simp

lemma image_first: "ld (db_image fs @ rest) 0 = Some 1"
  by (simp add: db_image_def image_head_def with_check_def tlv_def ld_def)

text \<open>Every file of a packed image is found, with its name and the place of its bytes.\<close>

lemma read_packed_image:
  assumes "data = db_image fs @ rest" and "length (db_image fs) \<le> unat len" and "length fs < 65536"
    and "\<forall>(name, bs) \<in> set fs. length name < 256"
  shows "read_image True data len = Some (0, infos_at 24 fs)"
proof -
  have h: "decodeHeadInfo data 0 = Some (0, \<lparr>verNum = 1, filecount = of_nat (length fs), hi_length = 24\<rparr>, 24)"
    using assms(1) by (intro decode_image_head) (simp add: db_image_def)
  have n: "unat (of_nat (length fs) :: u16) = length fs" using assms(3) by (simp add: unsigned_of_nat take_bit_nat_eq_self)
  have L: "24 + length (pack_files fs) \<le> unat len" using assms(2) by (simp add: db_image_def length_image_head)
  have "decode_files data len (length fs) (of_nat (length (image_head (length fs)))) [] =
      Some (0, [] @ infos_at (length (image_head (length fs))) fs, of_nat (length (image_head (length fs)) + length (pack_files fs)))"
    using assms L by (intro decode_packed [of _ _ _ rest]) (auto simp: db_image_def length_image_head)
  then have "decode_files data len (length fs) 24 [] = Some (0, infos_at 24 fs, of_nat (24 + length (pack_files fs)))"
    by (simp add: length_image_head)
  moreover have "\<not> len < of_nat (24 + length (pack_files fs))"
  proof -
    have "unat (of_nat (24 + length (pack_files fs)) :: u32) = 24 + length (pack_files fs)"
      using L unsigned_less [of len, where ?'a = nat] by (intro unat_of_nat_u32) simp
    then show ?thesis using L by (simp only: word_less_nat_alt)
  qed
  ultimately show ?thesis
    using image_first [of fs rest] by (simp add: read_image_def assms(1) [symmetric] h n length_infos_at luadb_errors)
qed

section \<open>Where the files go\<close>

text \<open>
  The directory depends on the extension; scripts, pictures and sounds stay in the image and get an entry in the
  table; compressed files are unpacked under their name without \<^verbatim>\<open>.zip\<close>; other files are written.
\<close>

definition target :: "u8 list \<Rightarrow> u8 list" where
  "target name = (if suffix (ascii ''.lua'') name \<or> suffix (ascii ''.luae'') name then LUA_DIR else LUA_DATA_DIR) @ ascii ''/'' @ name"

definition stays :: "u8 list \<Rightarrow> bool" where
  "stays name \<longleftrightarrow> (\<exists>l \<in> set table_types. suffix l name) \<or> suffix (ascii ''.luae'') name"

fun file_calls :: "u8 list \<times> u8 list \<Rightarrow> fs_call list" where
  "file_calls (name, bs) =
     (if length name \<le> 4 then []
      else if suffix (ascii ''.zip'') name then [Unzip (target (take (length name - 4) name)) bs]
      else if stays name then []
      else [Write_file (target name) bs])"

fun table_entries :: "nat \<Rightarrow> (u8 list \<times> u8 list) list \<Rightarrow> table_item list" where
  "table_entries pos [] = []"
| "table_entries pos ((name, bs) # fs) =
     (let p = pos + (18 + length name)
      in (if 4 < length name \<and> \<not> suffix (ascii ''.zip'') name \<and> stays name
          then [\<lparr>ti_file = target name, ti_offset = of_nat p, ti_len = of_nat (length bs)\<rparr>] else [])
         @ table_entries (p + length bs) fs)"

definition add_entries :: "table_section \<Rightarrow> table_item list \<Rightarrow> ldb_state \<Rightarrow> ldb_state" where
  "add_entries sec es s = (case sec of
     LUA_SCRIPT_TABLE_UPDATE_SECTION \<Rightarrow> s\<lparr>pUpdateFileTable := rev es @ pUpdateFileTable s\<rparr>
   | LUA_SCRIPT_TABLE_FLASH_SECTION \<Rightarrow> s\<lparr>pFlashFileTable := rev es @ pFlashFileTable s\<rparr>)"

text \<open>Names the parser can place, data it can write, a file system that obeys, an update table of files that stay.\<close>

definition packable :: "u8 list \<times> u8 list \<Rightarrow> bool" where
  "packable = (\<lambda>(name, bs). 0 \<notin> set name \<and> length name \<le> 248 \<and>
     (if suffix (ascii ''.zip'') name then 9 \<le> length name else stays name \<or> length name \<le> 4 \<or> bs \<noteq> []))"

definition obeys :: "fs_env \<Rightarrow> bool" where
  "obeys env \<longleftrightarrow> (\<forall>c f. env_create env c f) \<and> (\<forall>c f bs. env_write env c f bs = int (length bs)) \<and> (\<forall>c f bs. env_unzip env c f bs = 0)"

definition table_ok :: "table_item list \<Rightarrow> bool" where
  "table_ok T \<longleftrightarrow> (\<forall>i \<in> set T. \<exists>name. ti_file i = target name \<and> stays name \<and> 4 < length name)"

lemma suffix_iff_drop: "length l \<le> length xs \<Longrightarrow> suffix l xs \<longleftrightarrow> drop (length xs - length l) xs = l"
  by (auto simp: suffix_def) (metis append_take_drop_id)

lemma mem_prefix_name:
  "0 \<notin> set lit \<Longrightarrow> i \<le> length name \<Longrightarrow> mem_prefix (name @ [0]) (int i) lit = Some (take (length lit) (drop i name) = lit)"
proof (induction lit arbitrary: i)
  case (Cons c cs)
  show ?case
  proof (cases "i < length name")
    case True
    then have "drop i name = name ! i # drop (Suc i) name" by (simp add: Cons_nth_drop_Suc)
    moreover have "mem_prefix (name @ [0]) (int (Suc i)) cs = Some (take (length cs) (drop (Suc i) name) = cs)"
      using Cons True by (intro Cons.IH) auto
    ultimately show ?thesis using True by (simp add: ld_def nth_append add.commute)
  next
    case False
    then show ?thesis using Cons.prems by (auto simp: ld_def)
  qed
qed simp

lemma mem_prefix_end:
  "0 \<notin> set name \<Longrightarrow> 0 \<notin> set lit \<Longrightarrow> i \<le> length name \<Longrightarrow> mem_prefix (name @ [0]) (int i) (lit @ [0]) = Some (drop i name = lit)"
proof (induction lit arbitrary: i)
  case Nil
  then show ?case by (cases "i = length name") (auto simp: ld_def nth_append, metis nth_mem le_neq_implies_less)
next
  case (Cons c cs)
  show ?case
  proof (cases "i < length name")
    case True
    then have "drop i name = name ! i # drop (Suc i) name" by (simp add: Cons_nth_drop_Suc)
    moreover have "mem_prefix (name @ [0]) (int (Suc i)) (cs @ [0]) = Some (drop (Suc i) name = cs)"
      using Cons True by (intro Cons.IH) auto
    ultimately show ?thesis using True by (simp add: ld_def nth_append add.commute)
  next
    case False
    then show ?thesis using Cons.prems by (auto simp: ld_def)
  qed
qed

lemma mem_prefix_suffix:
  assumes "0 \<notin> set lit" and "length lit \<le> length name"
  shows "mem_prefix (name @ [0]) (int (length name) - int (length lit)) lit = Some (suffix lit name)"
  using mem_prefix_name [OF assms(1), of "length name - length lit" name] suffix_iff_drop [OF assms(2)] assms(2)
  by (simp add: of_nat_diff)

lemma mem_prefix_base:
  assumes "0 \<notin> set lit" and "length lit \<le> length b"
  shows "mem_prefix (b @ z @ [0]) (int (length b) - int (length lit)) lit = Some (suffix lit b)"
  using mem_prefix_name [OF assms(1), of "length b - length lit" "b @ z"] suffix_iff_drop [OF assms(2)] assms(2)
  by (simp add: of_nat_diff)

lemma mem_any_suffix:
  "\<forall>l \<in> set ls. 0 \<notin> set l \<and> length l = k \<Longrightarrow> k \<le> length name \<Longrightarrow>
    mem_any (name @ [0]) (int (length name) - int k) ls = Some (\<exists>l \<in> set ls. suffix l name)"
  by (induction ls) (use mem_prefix_suffix in auto)

lemma name_index: "k \<le> n \<Longrightarrow> n < 256 \<Longrightarrow> uint (of_nat n - of_nat k :: u8) = int n - int k"
  by (simp add: uint_sub_lem [THEN iffD1] unsigned_of_nat take_bit_nat_eq_self uint_nat unat_sub word_le_nat_alt)

lemma name_index_nat: "k \<le> n \<Longrightarrow> n < 256 \<Longrightarrow> unat (of_nat n - of_nat k :: u8) = n - k"
  by (simp add: unat_sub word_le_nat_alt unsigned_of_nat take_bit_nat_eq_self)

lemma ascii_simps:
  "ascii ''.lua'' = [0x2E, 0x6C, 0x75, 0x61]" "ascii ''.luae'' = [0x2E, 0x6C, 0x75, 0x61, 0x65]"
  "ascii ''.zip'' = [0x2E, 0x7A, 0x69, 0x70]" "ascii ''/'' = [0x2F]" "LUA_DIR = [0x2F, 0x6C, 0x75, 0x61]"
  "LUA_DATA_DIR = [0x2F, 0x6C, 0x64, 0x61, 0x74, 0x61]"
  by (simp_all add: ascii_def LUA_DIR_def LUA_DATA_DIR_def)

lemma length_exts:
  "length (ascii ''.lua'') = 4" "length (ascii ''.luae'') = 5" "0 \<notin> set (ascii ''.lua'')" "0 \<notin> set (ascii ''.luae'')"
  "length (ascii ''.zip'') = 4" "0 \<notin> set (ascii ''.zip'')"
  by (simp_all add: ascii_simps)

lemma table_types_length: "\<forall>l \<in> set table_types. 0 \<notin> set l \<and> length l = 4"
  by (simp add: table_types_def ascii_def)

lemma stays_types: "stays name \<longleftrightarrow> (\<exists>l \<in> set table_types. suffix l name) \<or> suffix [0x2E, 0x6C, 0x75, 0x61, 0x65] name"
  by (simp add: stays_def ascii_simps)

lemma make_target:
  assumes "0 \<notin> set name" and "length name \<le> 248" and "n = length name"
  shows "make_filename (if suffix (ascii ''.lua'') name \<or> suffix (ascii ''.luae'') name then LUA_DIR else LUA_DATA_DIR) (name @ rest) n
    = Some (target name)"
proof -
  have "takeWhile (\<lambda>c. c \<noteq> 0) name = name" using assms(1) by (auto simp: takeWhile_eq_all_conv)
  note tw = this
  show ?thesis using assms(2,3) by (auto simp: make_filename_def target_def ascii_simps tw)
qed

text \<open>The end of a path is the end of its name.\<close>

lemma suffix_long: "length l \<le> length ys \<Longrightarrow> suffix l (xs @ ys) \<longleftrightarrow> suffix l ys"
  by (simp add: suffix_iff_drop)

lemma stays_target: "4 < length name \<Longrightarrow> stays (target name) \<longleftrightarrow> stays name"
  using table_types_length by (auto simp: stays_types target_def suffix_long)

lemma not_in_table: "table_ok T \<Longrightarrow> 4 < length name \<Longrightarrow> \<not> stays name \<Longrightarrow> find (\<lambda>i. ti_file i = target name) T = None"
  unfolding find_None_iff table_ok_def using stays_target by metis

lemma not_in_update_table:
  assumes "table_ok (pUpdateFileTable s)" and "4 < length name" and "\<not> stays name"
  shows "\<not> in_update_table (target name) s"
  using not_in_table [OF assms] by (auto simp: in_update_table_def FindUncompressFileItem_def split: option.splits)

lemma install_packed_zip:
  assumes ok: "packable (name, bs)" "suffix (ascii ''.zip'') name" and env: "obeys env"
    and fi: "fi_nameLen fi = of_nat (length name)" "sub_bytes data (fi_data fi) (unat (fi_length fi)) = Some bs"
  shows "install_zip env True data fi (name @ [0]) (f, s) =
    Some (0, f\<lparr>wrFile := True\<rparr>, s\<lparr>calls := calls s @ file_calls (name, bs)\<rparr>)"
proof -
  let ?base = "take (length name - 4) name"
  have n: "9 \<le> length name" "length name \<le> 248" "0 \<notin> set name" using ok by (auto simp: packable_def)
  obtain b where b: "name = b @ [0x2E, 0x7A, 0x69, 0x70]" using ok(2) by (auto simp: suffix_def ascii_simps)
  then have base: "?base = b" "length b = length name - 4" by simp_all
  have i8: "uint (fi_nameLen fi - 8) = int (length name) - 8"
    using name_index [of 8 "length name"] n by (simp add: fi(1))
  have i4: "unat (fi_nameLen fi - 4) = length name - 4"
    using name_index_nat [of 4 "length name"] n by (simp add: fi(1))
  have l1: "mem_prefix (name @ [0]) (int (length name) - 8) (ascii ''.lua'') = Some (suffix (ascii ''.lua'') b)"
    using mem_prefix_base [of "ascii ''.lua''" b "[0x2E, 0x7A, 0x69, 0x70]"] n b by (simp add: length_exts)
  have l2: "mem_prefix (name @ [0]) (int (length name) - 9) (ascii ''.luae'') = Some (suffix (ascii ''.luae'') b)"
    using mem_prefix_base [of "ascii ''.luae''" b "[0x2E, 0x7A, 0x69, 0x70]"] n b by (simp add: length_exts)
  have mk: "make_filename (if suffix (ascii ''.lua'') b \<or> suffix (ascii ''.luae'') b then LUA_DIR else LUA_DATA_DIR) (name @ [0]) (length name - 4)
      = Some (target b)"
    using make_target [of b "length b" "[0x2E, 0x7A, 0x69, 0x70, 0]"] n b by simp
  have "file_calls (name, bs) = [Unzip (target b) bs]" using ok(2) n base by simp
  then show ?thesis using l1 l2 mk env fi(2)
    by (auto simp: install_zip_def i8 i4 must_write_def obeys_def fs_do_def Let_def)
qed

lemma install_packed_plain:
  assumes ok: "packable (name, bs)" "\<not> suffix (ascii ''.zip'') name" "4 < length name" and env: "obeys env"
    and fi: "fi_nameLen fi = of_nat (length name)" "sub_bytes data (fi_data fi) (unat (fi_length fi)) = Some bs"
    and T: "table_ok (pUpdateFileTable s)"
  shows "install_plain env True sec data fi (name @ [0]) (f, s) =
    Some (0, f\<lparr>delupdpack := False, wrFile := wrFile f \<or> \<not> stays name\<rparr>,
      (add_entries sec (if stays name then [\<lparr>ti_file = target name, ti_offset = fi_offset fi, ti_len = fi_length fi\<rparr>] else []) s)
        \<lparr>calls := calls s @ file_calls (name, bs)\<rparr>)"
proof -
  have n: "length name \<le> 248" "0 \<notin> set name" "stays name \<or> bs \<noteq> []" using ok by (auto simp: packable_def)
  have ni: "uint (fi_nameLen fi) = int (length name)" "unat (fi_nameLen fi) = length name"
    using name_index [of 0 "length name"] name_index_nat [of 0 "length name"] n(1) by (simp_all add: fi(1))
  have l1: "mem_prefix (name @ [0]) (int (length name) - 4) (ascii ''.lua'') = Some (suffix (ascii ''.lua'') name)"
    using mem_prefix_suffix [of "ascii ''.lua''" name] ok(3) by (simp add: length_exts)
  have l2: "mem_prefix (name @ [0]) (int (length name) - 5) (ascii ''.luae'') = Some (suffix (ascii ''.luae'') name)"
    using mem_prefix_suffix [of "ascii ''.luae''" name] ok(3) by (simp add: length_exts)
  have an: "mem_any (name @ [0]) (int (length name) - 4) table_types = Some (\<exists>l \<in> set table_types. suffix l name)"
    using mem_any_suffix [of table_types 4 name] table_types_length ok(3) by simp
  have mk: "make_filename (if suffix (ascii ''.lua'') name \<or> suffix (ascii ''.luae'') name then LUA_DIR else LUA_DATA_DIR) (name @ [0]) (length name)
      = Some (target name)"
    using make_target [OF n(2,1) refl, of "[0]"] .
  have t0: "target name \<noteq> []" by (simp add: target_def ascii_simps)
  have head: "install_plain env True sec data fi (name @ [0]) (f, s) =
      (let f = f\<lparr>delupdpack := False\<rparr> in
       if stays name then (case AddUncompressFileItem sec (target name) (fi_offset fi) (fi_length fi) s of
           None \<Rightarrow> Some (LUADB_ERR_ADD_TABLE_ITEM, f, s) | Some s \<Rightarrow> Some (0, f, s))
       else (let (err, s) = write_data env (target name) bs s in
             if err \<noteq> 0 then Some (err, f, s) else Some (0, f\<lparr>wrFile := True\<rparr>, s)))"
    using l1 l2 an mk fi(2) by (auto simp: install_plain_def ni must_write_def stays_def Let_def)
  show ?thesis
  proof (cases "stays name")
    case True
    then show ?thesis using ok(2,3) t0 unfolding head
      by (cases sec) (simp_all add: AddUncompressFileItem_def add_entries_def)
  next
    case False
    have "\<not> in_update_table (target name) s" using not_in_update_table [OF T ok(3) False] .
    moreover have "length bs < 4294967296" using fi(2) unsigned_less [of "fi_length fi", where ?'a = nat]
      by (auto simp: sub_bytes_def split: if_splits)
    ultimately have "write_data env (target name) bs s = (0, fs_do (Write_file (target name) bs) s)"
      using env n(3) False by (simp add: write_data_def obeys_def Let_def)
    then show ?thesis using False ok(2,3) unfolding head
      by (cases sec) (simp_all add: add_entries_def fs_do_def)
  qed
qed

text \<open>The flags, the table entries and the calls of a list of files.\<close>

definition flags_after :: "(u8 list \<times> u8 list) list \<Rightarrow> install \<Rightarrow> install" where
  "flags_after fs f = \<lparr>delupdpack = delupdpack f \<and> (\<forall>(name, bs) \<in> set fs. length name \<le> 4 \<or> suffix (ascii ''.zip'') name),
     wrFile = wrFile f \<or> concat (map file_calls fs) \<noteq> []\<rparr>"

definition installed :: "table_section \<Rightarrow> nat \<Rightarrow> (u8 list \<times> u8 list) list \<Rightarrow> ldb_state \<Rightarrow> ldb_state" where
  "installed sec pos fs s = (add_entries sec (table_entries pos fs) s)\<lparr>calls := calls s @ concat (map file_calls fs)\<rparr>"

lemma installed_Nil: "installed sec pos [] s = s"
  by (cases sec) (simp_all add: installed_def add_entries_def)

lemma installed_Cons:
  "installed sec pos ((name, bs) # fs) s = installed sec (pos + (18 + length name) + length bs) fs (installed sec pos [(name, bs)] s)"
  by (cases sec) (simp_all add: installed_def add_entries_def Let_def)

lemma table_ok_installed: "table_ok (pUpdateFileTable s) \<Longrightarrow> table_ok (pUpdateFileTable (installed sec pos [(name, bs)] s))"
  by (cases sec) (auto simp: installed_def add_entries_def table_ok_def Let_def)

lemma install_one:
  assumes ok: "packable (name, bs)" and env: "obeys env" and T: "table_ok (pUpdateFileTable s)"
    and fi: "infos_at pos [(name, bs)] = [fi]" "sub_bytes data (fi_data fi) (unat (fi_length fi)) = Some bs"
  shows "install_file env True sec data fi (f, s) = Some (0, flags_after [(name, bs)] f, installed sec pos [(name, bs)] s)"
proof -
  have i: "fi_name fi = Some (name @ [0])" "fi_nameLen fi = of_nat (length name)" "fi_length fi = of_nat (length bs)"
      "fi_offset fi = of_nat (pos + (18 + length name))" using fi(1) by auto
  have n: "length name \<le> 248" "0 \<notin> set name" using ok by (auto simp: packable_def)
  have nl: "unat (fi_nameLen fi) = length name" using name_index_nat [of 0 "length name"] n(1) by (simp add: i(2))
  show ?thesis
  proof (cases "length name \<le> 4")
    case True
    then show ?thesis
      by (cases sec) (simp_all add: install_file_def nl flags_after_def installed_def add_entries_def Let_def)
  next
    case False
    have u: "uint (fi_nameLen fi - 4) = int (length name) - 4"
      using name_index [of 4 "length name"] False n(1) by (simp add: i(2))
    have z: "mem_prefix (name @ [0]) (int (length name) - 4) (ascii ''.zip'' @ [0]) = Some (suffix (ascii ''.zip'') name)"
      using mem_prefix_end [OF n(2), of "ascii ''.zip''" "length name - 4"] suffix_iff_drop [of "ascii ''.zip''" name] False
      by (simp add: length_exts of_nat_diff)
    have fl: "flags_after [(name, bs)] f = (if suffix (ascii ''.zip'') name then f\<lparr>wrFile := True\<rparr>
        else f\<lparr>delupdpack := False, wrFile := wrFile f \<or> \<not> stays name\<rparr>)"
      using False by (simp add: flags_after_def)
    have st: "installed sec pos [(name, bs)] s = (add_entries sec
        (if \<not> suffix (ascii ''.zip'') name \<and> stays name then [\<lparr>ti_file = target name, ti_offset = fi_offset fi, ti_len = fi_length fi\<rparr>] else []) s)
        \<lparr>calls := calls s @ file_calls (name, bs)\<rparr>"
      using False by (simp add: installed_def i(3,4) Let_def)
    have nil: "add_entries sec [] s = s" by (cases sec) (simp_all add: add_entries_def)
    show ?thesis
    proof (cases "suffix (ascii ''.zip'') name")
      case True
      show ?thesis using install_packed_zip [OF ok True env i(2) fi(2)] False True
        by (simp only: install_file_def nl i(1) u z fl st nil if_False if_True bind.bind_lunit simp_thms)
    next
      case nz: False
      have c: "4 < length name" using False by simp
      show ?thesis using install_packed_plain [OF ok nz c env i(2) fi(2) T] False nz
        by (simp only: install_file_def nl i(1) u z fl st nil if_False if_True bind.bind_lunit simp_thms)
    qed
  qed
qed

lemma install_packed:
  assumes "data = pre @ pack_files fs @ rest" and "length data < 2 ^ 32" and "\<forall>f \<in> set fs. packable f"
    and "obeys env" and "table_ok (pUpdateFileTable s)"
  shows "install_files env True sec data (infos_at (length pre) fs) (f, s) = Some (0, flags_after fs f, installed sec (length pre) fs s)"
  using assms
proof (induction fs arbitrary: pre f s)
  case Nil
  then show ?case by (simp add: installed_Nil flags_after_def)
next
  case (Cons x fs)
  obtain name bs where x: "x = (name, bs)" by fastforce
  let ?h = "file_header name (of_nat (length bs))"
  let ?pre = "pre @ ?h @ bs"
  let ?s = "installed sec (length pre) [(name, bs)] s" and ?f = "flags_after [(name, bs)] f"
  obtain fi where fi: "infos_at (length pre) [(name, bs)] = [fi]" by simp
  have d: "data = (pre @ ?h) @ bs @ (pack_files fs @ rest)" using Cons.prems(1) x by simp
  have lp: "length ?pre = length pre + (18 + length name) + length bs" by (simp add: length_file_header)
  have lb: "unat (fi_length fi) = length bs"
    using fi Cons.prems(2) d by (auto simp: unsigned_of_nat take_bit_nat_eq_self)
  have sb: "sub_bytes data (fi_data fi) (unat (fi_length fi)) = Some bs"
    using fi lb by (intro sub_bytes_at [OF d]) (auto simp: length_file_header)
  have one: "install_file env True sec data fi (f, s) = Some (0, ?f, ?s)"
    using install_one [OF _ Cons.prems(4,5) fi sb] Cons.prems(3) x by simp
  have "install_files env True sec data (infos_at (length ?pre) fs) (?f, ?s) = Some (0, flags_after fs ?f, installed sec (length ?pre) fs ?s)"
    using Cons.prems table_ok_installed x by (intro Cons.IH) auto
  moreover have "infos_at (length pre) (x # fs) = fi # infos_at (length ?pre) fs" using fi by (simp add: x length_file_header add.assoc)
  moreover have "flags_after fs ?f = flags_after (x # fs) f" by (auto simp: flags_after_def x)
  moreover have "installed sec (length ?pre) fs ?s = installed sec (length pre) (x # fs) s"
    unfolding x lp by (rule installed_Cons [symmetric])
  ultimately show ?case using one by (simp only: install_files.simps bind.bind_lunit prod.case simp_thms if_False)
qed

text \<open>An entry of the table leads to the bytes of its file.\<close>

lemma table_entries_data:
  "data = pre @ pack_files fs @ rest \<Longrightarrow> length data < 2 ^ 32 \<Longrightarrow> e \<in> set (table_entries (length pre) fs) \<Longrightarrow>
    \<exists>(name, bs) \<in> set fs. ti_file e = target name \<and> sub_bytes data (unat (ti_offset e)) (unat (ti_len e)) = Some bs"
proof (induction fs arbitrary: pre)
  case (Cons x fs)
  obtain name bs where x: "x = (name, bs)" by fastforce
  let ?h = "file_header name (of_nat (length bs))"
  have d: "data = (pre @ ?h) @ bs @ (pack_files fs @ rest)" using Cons.prems(1) x by simp
  have L: "length pre + (18 + length name) + length bs < 2 ^ 32" using Cons.prems(2) by (simp add: d length_file_header)
  have lp: "length (pre @ ?h @ bs) = length pre + (18 + length name) + length bs" by (simp add: length_file_header)
  consider (first) "e = \<lparr>ti_file = target name, ti_offset = of_nat (length pre + (18 + length name)), ti_len = of_nat (length bs)\<rparr>"
    | (later) "e \<in> set (table_entries (length (pre @ ?h @ bs)) fs)"
    using Cons.prems(3) unfolding x lp by (auto simp: Let_def split: if_splits)
  then show ?case
  proof cases
    case first
    have "unat (of_nat (length pre + (18 + length name)) :: u32) = length (pre @ ?h)" "unat (of_nat (length bs) :: u32) = length bs"
      using L by (simp_all only: length_file_header length_append, (subst unat_of_nat_u32, simp, simp)+)
    then have "sub_bytes data (unat (ti_offset e)) (unat (ti_len e)) = Some bs"
      unfolding first table_item.simps by (intro sub_bytes_at [OF d]) simp_all
    then show ?thesis by (intro bexI [of _ x]) (simp_all add: x first)
  next
    case later
    then show ?thesis using Cons.IH [of "pre @ ?h @ bs"] Cons.prems(1,2) x by auto
  qed
qed simp

lemma find_in: "find P xs = Some x \<Longrightarrow> x \<in> set xs \<and> P x"
  by (induction xs) (auto split: if_splits)

lemma find_hit: "x \<in> set xs \<Longrightarrow> P x \<Longrightarrow> \<exists>y. find P xs = Some y"
  by (induction xs) auto

lemma target_inj: "target a = target b \<Longrightarrow> a = b"
  by (simp add: target_def ascii_simps split: if_splits)

lemma table_entries_file:
  "(name, bs) \<in> set fs \<Longrightarrow> 4 < length name \<Longrightarrow> \<not> suffix (ascii ''.zip'') name \<Longrightarrow> stays name \<Longrightarrow>
    \<exists>e \<in> set (table_entries pos fs). ti_file e = target name"
  by (induction pos fs rule: table_entries.induct) (auto simp: Let_def)

lemma table_entries_own_data:
  assumes "data = pre @ pack_files fs @ rest" and "length data < 2 ^ 32" and "distinct (map fst fs)" and "(name, bs) \<in> set fs"
    and "e \<in> set (table_entries (length pre) fs)" and "ti_file e = target name"
  shows "sub_bytes data (unat (ti_offset e)) (unat (ti_len e)) = Some bs"
proof -
  obtain n' b' where e: "(n', b') \<in> set fs" "ti_file e = target n'" "sub_bytes data (unat (ti_offset e)) (unat (ti_len e)) = Some b'"
    using table_entries_data [OF assms(1,2,5)] by blast
  moreover have "n' = name" using e(2) assms(6) target_inj by simp
  ultimately show ?thesis using assms(3,4) by (metis eq_key_imp_eq_value)
qed

text \<open>The parser on a packed image.\<close>

lemma parse_packed:
  assumes "data = db_image fs @ rest" and "length data < 2 ^ 32" and "length (db_image fs) \<le> unat len" and "length fs < 65536"
    and "\<forall>f \<in> set fs. packable f" and "obeys env" and "table_ok (pUpdateFileTable s)"
  shows "parse_luadb_data True env data len True sec s =
    (let update = (sec = LUA_SCRIPT_TABLE_UPDATE_SECTION);
         zipped = (\<forall>(name, bs) \<in> set fs. length name \<le> 4 \<or> suffix (ascii ''.zip'') name);
         s = installed sec 24 fs s
     in Some (0, update \<and> (zipped \<or> concat (map file_calls fs) \<noteq> []),
          if update \<and> zipped then fs_do (Remove_file LUA_UPDATE_FILE) s else s))"
proof -
  have d: "data = image_head (length fs) @ pack_files fs @ rest" using assms(1) by (simp add: db_image_def)
  have "\<forall>(name, bs) \<in> set fs. length name < 256" using assms(5) by (auto simp: packable_def split: if_splits)
  then have r: "read_image True data len = Some (0, infos_at 24 fs)" by (rule read_packed_image [OF assms(1,3,4)])
  have "install_files env True sec data (infos_at 24 fs) (f, s) = Some (0, flags_after fs f, installed sec 24 fs s)" for f
    using install_packed [OF d assms(2,5,6,7)] by (simp only: length_image_head)
  then show ?thesis by (simp add: parse_luadb_data_def r luadb_errors flags_after_def Let_def)
qed

text \<open>A file system that obeys, two files, the state at boot.\<close>

definition plain_env :: boot_env where
  "plain_env = \<lparr>env_exists = (\<lambda>_ _. False), env_create = (\<lambda>_ _. True), env_write = (\<lambda>_ _ bs. int (length bs)), env_unzip = (\<lambda>_ _ _. 0),
     boot_update = Some ((db_image [])[18 := 1]), boot_integrity = (\<lambda>_. None), boot_junk = 0, boot_table = (True, True),
     boot_unzip_file = (\<lambda>_ _ _. 0)\<rparr>"

definition two_files :: "(u8 list \<times> u8 list) list" where
  "two_files = [(ascii ''main.lua'', [1, 2, 3]), (ascii ''readme.txt'', [4])]"

definition ldb_start :: ldb_state where
  "ldb_start = \<lparr>pUpdateFileTable = [], pFlashFileTable = [], calls = []\<rparr>"

text \<open>
  C6. A well-formed image is installed as it was packed, whatever bytes follow it in flash: each compressed file is unpacked under
  its name, each ordinary file is written, each script, picture and sound gets an entry in the table of the
  image's section, nothing else is touched, and an update image that only held compressed files is removed. A restart is asked
  for exactly when an update changed something.
\<close>

theorem image_installed:
  assumes "data = db_image fs @ rest" and "length data < 2 ^ 32" and "length (db_image fs) \<le> unat len" and "length fs < 65536"
    and "\<forall>f \<in> set fs. packable f" and "obeys env" and "table_ok (pUpdateFileTable s)"
  shows "parse_luadb_data True env data len True sec s =
    (let update = (sec = LUA_SCRIPT_TABLE_UPDATE_SECTION);
         zipped = (\<forall>(name, bs) \<in> set fs. length name \<le> 4 \<or> suffix (ascii ''.zip'') name);
         s = installed sec 24 fs s
     in Some (0, update \<and> (zipped \<or> concat (map file_calls fs) \<noteq> []),
          if update \<and> zipped then fs_do (Remove_file LUA_UPDATE_FILE) s else s))"
  by (rule parse_packed [OF assms])

text \<open>
  After the installation every script, picture or sound of the image is found under its path, and the entry leads to exactly
  the bytes that were packed, for an update image and, unless an update holds the same name, for the image in flash.
\<close>

lemma installed_file_found:
  assumes "data = db_image fs @ rest" and "length data < 2 ^ 32" and "distinct (map fst fs)" and "(name, bs) \<in> set fs"
    and "4 < length name" and "\<not> suffix (ascii ''.zip'') name" and "stays name"
    and "sec = LUA_SCRIPT_TABLE_UPDATE_SECTION \<or> find (\<lambda>i. ti_file i = target name) (pUpdateFileTable s) = None"
  shows "\<exists>e. FindUncompressFileItem (target name) (installed sec 24 fs s) = Some (sec, e) \<and>
    sub_bytes data (unat (ti_offset e)) (unat (ti_len e)) = Some bs"
proof -
  have d: "data = image_head (length fs) @ pack_files fs @ rest" using assms(1) by (simp add: db_image_def)
  let ?es = "rev (table_entries 24 fs)"
  obtain e where e: "find (\<lambda>i. ti_file i = target name) ?es = Some e"
    using table_entries_file [OF assms(4-7), of 24] find_hit [of _ ?es "\<lambda>i. ti_file i = target name"] by auto
  then have in_es: "e \<in> set (table_entries (length (image_head (length fs))) fs)" and ti: "ti_file e = target name"
    using find_in [OF e] by (simp_all add: length_image_head)
  have "find P (xs @ ys) = (case find P xs of None \<Rightarrow> find P ys | Some x \<Rightarrow> Some x)" for P and xs ys :: "table_item list"
    by (induction xs) auto
  moreover have "target name \<noteq> []" by (simp add: target_def ascii_simps)
  ultimately have "FindUncompressFileItem (target name) (installed sec 24 fs s) = Some (sec, e)"
    using e assms(8) by (cases sec) (auto simp: FindUncompressFileItem_def installed_def add_entries_def)
  then show ?thesis using table_entries_own_data [OF d assms(2-4) in_es ti] by blast
qed

text \<open>
  C8. An update image that cannot be read to its end is not installed at all: the directories are emptied, which removes the
  update too, the image in flash is installed over whatever is there, the integrity mark is written, and the device restarts.
\<close>

theorem failed_update_recovers:
  assumes "boot_update env = Some upd" and "read_image (fst (boot_table env)) upd (of_nat (length upd)) = Some (e, infos)" and "e \<noteq> 0"
    and "rom = db_image fs @ rest" and "length rom < 2 ^ 32" and "length fs < 65536" and "\<forall>f \<in> set fs. packable f"
    and "obeys (fs_env.truncate env)" and "snd (boot_table env)" and "table_ok (pUpdateFileTable s)"
  shows "load_luadb env rom s =
    Some (0, fs_do Restart (fs_do (Write_file LUA_CHECK_INTEGRITY_FILE [0x65, 0x87, 0xCD, 0xAB])
      (installed LUA_SCRIPT_TABLE_FLASH_SECTION 24 fs (removeLuaDir s))))"
proof -
  have bad: "parse_luadb_data (fst (boot_table env)) (fs_env.truncate env) upd (of_nat (length upd)) True LUA_SCRIPT_TABLE_UPDATE_SECTION s
      = Some (e, False, s)"
    using assms(2,3) by (simp add: parse_luadb_data_def luadb_errors)
  have ul: "unat (of_nat (length rom) :: u32) = length rom" using assms(5) by (simp add: unat_of_nat_u32)
  have "table_ok (pUpdateFileTable (removeLuaDir s))"
    using assms(10) by (simp add: removeLuaDir_def LuaDeleteMainFile_def fs_do_def)
  moreover have "env_create env = env_create (fs_env.truncate env)" by (simp add: fs_env.truncate_def)
  ultimately show ?thesis
    using assms(1,3,8,9) bad parse_packed [OF assms(4,5) _ assms(6,7,8), of "of_nat (length rom)" "removeLuaDir s" LUA_SCRIPT_TABLE_FLASH_SECTION] ul assms(4)
    by (simp add: load_luadb_def obeys_def luadb_errors Let_def)
qed

lemma plain_env_obeys: "obeys (fs_env.truncate plain_env)"
  by (simp add: obeys_def plain_env_def fs_env.truncate_def)

lemma two_files_simps:
  "\<forall>f \<in> set two_files. packable f" "length two_files = 2" "distinct (map fst two_files)"
  "length (db_image two_files) = 82"
  by (simp_all add: two_files_def packable_def ascii_def suffix_def stays_def table_types_def db_image_def length_image_head length_file_header)

lemma two_files_installed:
  "table_entries 24 two_files = [\<lparr>ti_file = ascii ''/lua/main.lua'', ti_offset = 50, ti_len = 3\<rparr>]"
  "map file_calls two_files = [[], [Write_file (ascii ''/ldata/readme.txt'') [4]]]"
  "\<not> suffix (ascii ''.zip'') (ascii ''readme.txt'')" "\<not> suffix (ascii ''.zip'') (ascii ''main.lua'')" "stays (ascii ''main.lua'')"
  by (simp_all add: two_files_def suffix_to_prefix stays_def table_types_def target_def LUA_DIR_def LUA_DATA_DIR_def ascii_def)

lemma two_files_zipped: "(\<forall>(name, bs) \<in> set two_files. length name \<le> 4 \<or> suffix (ascii ''.zip'') name) = False"
  using two_files_installed(3) by (simp add: two_files_def ascii_def)

theorem image_installed_witness:
  "parse_luadb_data True (fs_env.truncate plain_env) (db_image two_files @ [0xFF]) 100 True LUA_SCRIPT_TABLE_UPDATE_SECTION ldb_start =
    Some (0, True, ldb_start\<lparr>pUpdateFileTable := [\<lparr>ti_file = ascii ''/lua/main.lua'', ti_offset = 50, ti_len = 3\<rparr>],
      calls := [Write_file (ascii ''/ldata/readme.txt'') [4]]\<rparr>)"
  using image_installed [of "db_image two_files @ [0xFF]" two_files "[0xFF]" 100 "fs_env.truncate plain_env" ldb_start LUA_SCRIPT_TABLE_UPDATE_SECTION]
  by (simp add: two_files_simps plain_env_obeys table_ok_def ldb_start_def Let_def installed_def add_entries_def two_files_installed two_files_zipped)

lemma bad_update_read: "read_image True ((db_image [])[18 := 1]) 24 = Some (LUADB_ERR_CHECK_FAIL, [])"
  by (simp add: db_image_def image_head_def with_check_def tlv_def magic_def le32_bytes_def le16_bytes_def byte_sum_def
    read_image_def ld_def decodeHeadInfo_def tlv_loop.simps head_item_def DBMAKEU16_def DBMAKEU32_def ASSERT_LEN_def
    calcCheckCode_def checksum_loop_sum luadb_errors)

theorem failed_update_recovers_witness:
  "load_luadb plain_env (db_image two_files @ [0xFF]) ldb_start =
    Some (0, fs_do Restart (fs_do (Write_file LUA_CHECK_INTEGRITY_FILE [0x65, 0x87, 0xCD, 0xAB])
      (installed LUA_SCRIPT_TABLE_FLASH_SECTION 24 two_files (removeLuaDir ldb_start))))"
proof (rule failed_update_recovers)
  show "boot_update plain_env = Some ((db_image [])[18 := 1])" by (simp add: plain_env_def)
  show "read_image (fst (boot_table plain_env)) ((db_image [])[18 := 1]) (of_nat (length ((db_image [])[18 := 1]))) = Some (LUADB_ERR_CHECK_FAIL, [])"
    using bad_update_read by (simp add: plain_env_def db_image_def length_image_head)
  show "obeys (fs_env.truncate plain_env)" by (rule plain_env_obeys)
qed (simp_all add: two_files_simps luadb_errors, simp_all add: plain_env_def ldb_start_def table_ok_def)

section \<open>What goes wrong\<close>

text \<open>An image that cannot be read leaves everything alone.\<close>

lemma unreadable_image_ignored:
  "read_image table data len = Some (e, infos) \<Longrightarrow> e \<noteq> 0 \<Longrightarrow> parse_luadb_data table env data len override sec s = Some (e, False, s)"
  by (simp add: parse_luadb_data_def luadb_errors)

text \<open>Without memory for the table of files a good update is dropped: nothing is installed, yet the update is removed as if it were.\<close>

lemma table_failure_drops_update:
  assumes "data = db_image fs @ rest"
  shows "parse_luadb_data False env data len override LUA_SCRIPT_TABLE_UPDATE_SECTION s = Some (0, True, fs_do (Remove_file LUA_UPDATE_FILE) s)"
proof -
  have "decodeHeadInfo data 0 = Some (0, \<lparr>verNum = 1, filecount = of_nat (length fs), hi_length = 24\<rparr>, 24)"
    using assms by (intro decode_image_head) (simp add: db_image_def)
  then have "read_image False data len = Some (0, [])"
    using image_first [of fs rest] by (simp add: read_image_def assms luadb_errors)
  then show ?thesis by (simp add: parse_luadb_data_def luadb_errors Let_def)
qed

text \<open>An update with an ordinary file asks for a restart and stays in place, so that every boot installs it and restarts again.\<close>

lemma ordinary_file_restarts_every_boot:
  assumes "data = db_image fs @ rest" and "length data < 2 ^ 32" and "length (db_image fs) \<le> unat len" and "length fs < 65536"
    and "\<forall>f \<in> set fs. packable f" and "obeys env" and "table_ok (pUpdateFileTable s)"
    and "(name, bs) \<in> set fs" and "4 < length name" and "\<not> suffix (ascii ''.zip'') name" and "\<not> stays name"
  shows "parse_luadb_data True env data len True LUA_SCRIPT_TABLE_UPDATE_SECTION s =
    Some (0, True, installed LUA_SCRIPT_TABLE_UPDATE_SECTION 24 fs s)"
proof -
  have "\<not> (\<forall>(name, bs) \<in> set fs. length name \<le> 4 \<or> suffix (ascii ''.zip'') name)" using assms(8-10) by force
  moreover have "concat (map file_calls fs) \<noteq> []" using assms(8-11) by force
  ultimately show ?thesis using parse_packed [OF assms(1-7)] by (simp only: Let_def simp_thms if_False)
qed

text \<open>An empty file counts as a failed write, and is removed again.\<close>

lemma empty_file_is_a_failure:
  "env_create env (calls s) file \<Longrightarrow> \<not> in_update_table file s \<Longrightarrow> env_write env (calls s) file [] = 0 \<Longrightarrow>
    write_data env file [] s = (LUADB_ERR_WRITE_FILE, fs_do (Remove_file file) (fs_do (Write_file file []) s))"
  by (simp add: write_data_def Let_def)

text \<open>A compressed file with a base name of two or three letters is looked at behind its end.\<close>

lemma short_zip_name_outside:
  assumes "length name = 6 \<or> length name = 7" and "fi_nameLen fi = of_nat (length name)"
  shows "install_zip env override data fi (name @ [0]) fs = None"
proof -
  have "7 < uint (fi_nameLen fi - 4 - 4)" using assms by (auto simp: uint_word_ariths)
  moreover have "7 < i \<Longrightarrow> mem_prefix (name @ [0]) i (ascii ''.lua'') = None" for i
    using assms(1) by (auto simp: ascii_def ld_def nat_less_iff)
  ultimately have "mem_prefix (name @ [0]) (uint (fi_nameLen fi - 4 - 4)) (ascii ''.lua'') = None" by blast
  then show ?thesis by (cases fs) (simp add: install_zip_def)
qed

text \<open>The length of a file is not checked against the image: a length close to the range wraps the offset back to the header.\<close>

lemma file_length_wraps:
  assumes "length name < 256" and "data = pre @ file_header name (- of_nat (18 + length name)) @ rest" and "length pre < 2 ^ 32"
  shows "\<exists>fi. decodeFile data (of_nat (length pre)) = Some (0, fi, of_nat (length pre)) \<and> fi_length fi = - of_nat (18 + length name)"
  by (simp add: decode_header [OF assms])

end
