(* ===== verification/C_string.thy ===== *)
theory C_string
  imports C_Prelude
begin

text \<open>
  Strings of the C library: \<^verbatim>\<open>newlib/libc/src/string.c\<close>. A string is a memory that holds a zero byte; reading behind the
  memory is \<open>None\<close>. The comparisons without regard to case are those of the texts with their capitals lowered.
\<close>

section \<open>The functions\<close>

definition charmap :: "u8 list" where
  "charmap = [
    0, 1, 2, 3, 4, 5, 6, 7, 8, 9, 10, 11, 12, 13, 14, 15,
    16, 17, 18, 19, 20, 21, 22, 23, 24, 25, 26, 27, 28, 29, 30, 31,
    32, 33, 34, 35, 36, 37, 38, 39, 40, 41, 42, 43, 44, 45, 46, 47,
    48, 49, 50, 51, 52, 53, 54, 55, 56, 57, 58, 59, 60, 61, 62, 63,
    64, 97, 98, 99, 100, 101, 102, 103, 104, 105, 106, 107, 108, 109, 110, 111,
    112, 113, 114, 115, 116, 117, 118, 119, 120, 121, 122, 91, 92, 93, 94, 95,
    96, 97, 98, 99, 100, 101, 102, 103, 104, 105, 106, 107, 108, 109, 110, 111,
    112, 113, 114, 115, 116, 117, 118, 119, 120, 121, 122, 123, 124, 125, 126, 127,
    128, 129, 130, 131, 132, 133, 134, 135, 136, 137, 138, 139, 140, 141, 142, 143,
    144, 145, 146, 147, 148, 149, 150, 151, 152, 153, 154, 155, 156, 157, 158, 159,
    160, 161, 162, 163, 164, 165, 166, 167, 168, 169, 170, 171, 172, 173, 174, 175,
    176, 177, 178, 179, 180, 181, 182, 183, 184, 185, 186, 187, 188, 189, 190, 191,
    192, 193, 194, 195, 196, 197, 198, 199, 200, 201, 202, 203, 204, 205, 206, 207,
    208, 209, 210, 211, 212, 213, 214, 215, 216, 217, 218, 219, 220, 221, 222, 223,
    224, 225, 226, 227, 228, 229, 230, 231, 232, 233, 234, 235, 236, 237, 238, 239,
    240, 241, 242, 243, 244, 245, 246, 247, 248, 249, 250, 251, 252, 253, 254, 255]"

function strcasecmp_from :: "u8 list \<Rightarrow> u8 list \<Rightarrow> nat \<Rightarrow> int option" where
  "strcasecmp_from s1 s2 i =
     (case ld s1 i of
        None \<Rightarrow> None
      | Some a \<Rightarrow> do {
          b \<leftarrow> ld s2 i;
          x \<leftarrow> ld charmap (unat a);
          y \<leftarrow> ld charmap (unat b);
          (if x \<noteq> y then Some (uint x - uint y) else if a = 0 then Some 0 else strcasecmp_from s1 s2 (Suc i))
        })"
  by pat_completeness auto
termination
  by (relation "measure (\<lambda>(s1, s2, i). length s1 - i)") (auto dest!: ld_SomeD)

declare strcasecmp_from.simps [simp del]

definition strcasecmp :: "u8 list \<Rightarrow> u8 list \<Rightarrow> int option" where
  "strcasecmp s1 s2 = strcasecmp_from s1 s2 0"

fun strncasecmp_from :: "u8 list \<Rightarrow> u8 list \<Rightarrow> nat \<Rightarrow> nat \<Rightarrow> int option" where
  "strncasecmp_from s1 s2 i 0 = Some 0"
| "strncasecmp_from s1 s2 i (Suc n) = do {
     a \<leftarrow> ld s1 i;
     b \<leftarrow> ld s2 i;
     x \<leftarrow> ld charmap (unat a);
     y \<leftarrow> ld charmap (unat b);
     (if x \<noteq> y then Some (uint x - uint y) else if a = 0 then Some 0 else strncasecmp_from s1 s2 (Suc i) n)
   }"

definition strncasecmp :: "u8 list \<Rightarrow> u8 list \<Rightarrow> u32 \<Rightarrow> int option" where
  "strncasecmp s1 s2 n = strncasecmp_from s1 s2 0 (unat n)"

text \<open>Whether the inner loop of \<^verbatim>\<open>strpbrk\<close> finds the character.\<close>

function strpbrk_scan :: "u8 list \<Rightarrow> nat \<Rightarrow> u8 \<Rightarrow> bool option" where
  "strpbrk_scan s2 j c =
     (case ld s2 j of
        None \<Rightarrow> None
      | Some sc \<Rightarrow> if sc = 0 then Some False else if sc = c then Some True else strpbrk_scan s2 (Suc j) c)"
  by pat_completeness auto
termination
  by (relation "measure (\<lambda>(s2, j, c). length s2 - j)") (auto dest!: ld_SomeD)

function strpbrk_from :: "u8 list \<Rightarrow> nat \<Rightarrow> u8 list \<Rightarrow> nat option option" where
  "strpbrk_from s1 i s2 =
     (case ld s1 i of
        None \<Rightarrow> None
      | Some c \<Rightarrow> if c = 0 then Some None else do {
          found \<leftarrow> strpbrk_scan s2 0 c;
          (if found then Some (Some i) else strpbrk_from s1 (Suc i) s2)
        })"
  by pat_completeness auto
termination
  by (relation "measure (\<lambda>(s1, i, s2). length s1 - i)") (auto dest!: ld_SomeD)

declare strpbrk_scan.simps [simp del] strpbrk_from.simps [simp del]

definition lualibc_strpbrk :: "u8 list \<Rightarrow> u8 list \<Rightarrow> nat option option" where
  "lualibc_strpbrk s1 s2 = strpbrk_from s1 0 s2"

section \<open>What they compute\<close>

definition cstr :: "u8 list \<Rightarrow> u8 list" where
  "cstr mem = takeWhile (\<lambda>c. c \<noteq> 0) mem"

definition lower :: "u8 \<Rightarrow> u8" where
  "lower c = (if 65 \<le> c \<and> c \<le> 90 then c + 32 else c)"

lemma length_charmap: "length charmap = 256"
  by (simp add: charmap_def)

lemma charmap_list: "charmap = map (\<lambda>i. lower (of_nat i)) [0..<256]"
  by (simp add: charmap_def lower_def upt_rec) (simp add: word_le_nat_alt)

lemma charmap_lower: "ld charmap (unat c) = Some (lower c)"
proof -
  have "unat c < 256" using unsigned_less [of c, where ?'a = nat] by simp
  then show ?thesis by (simp add: ld_def length_charmap) (simp add: charmap_list)
qed

lemma lower_zero: "lower c = 0 \<longleftrightarrow> c = 0"
proof -
  have "c + 32 = 0 \<Longrightarrow> \<not> c \<le> 90" by (simp add: eq_neg_iff_add_eq_0 [symmetric] word_le_nat_alt)
  then show ?thesis by (auto simp: lower_def)
qed

lemma cstr_Cons: "cstr (c # mem) = (if c = 0 then [] else c # cstr mem)"
  by (simp add: cstr_def)

lemma cstr_drop:
  "0 \<in> set (drop i mem) \<Longrightarrow> ld mem i = Some c \<Longrightarrow> cstr (drop i mem) = (if c = 0 then [] else c # cstr (drop (Suc i) mem)) \<and> (c \<noteq> 0 \<longrightarrow> 0 \<in> set (drop (Suc i) mem))"
  by (auto simp: Cons_nth_drop_Suc [symmetric] cstr_Cons dest!: ld_SomeD)

lemma ld_in_string: "0 \<in> set (drop i mem) \<Longrightarrow> \<exists>c. ld mem i = Some c"
  by (cases "i < length mem") (auto simp: ld_def)

lemma strcasecmp_from_lower:
  "0 \<in> set (drop i s1) \<Longrightarrow> 0 \<in> set (drop i s2) \<Longrightarrow>
    \<exists>r. strcasecmp_from s1 s2 i = Some r \<and> (r = 0 \<longleftrightarrow> map lower (cstr (drop i s1)) = map lower (cstr (drop i s2)))"
proof (induction s1 s2 i rule: strcasecmp_from.induct)
  case (1 s1 s2 i)
  obtain a b where a: "ld s1 i = Some a" and b: "ld s2 i = Some b" using ld_in_string "1.prems" by blast
  note A = cstr_drop [OF "1.prems"(1) a] and B = cstr_drop [OF "1.prems"(2) b]
  show ?case
  proof (cases "lower a = lower b \<and> a \<noteq> 0")
    case True
    then have "b \<noteq> 0" using lower_zero by metis
    then show ?thesis using "1.IH" [OF a b, of "lower a" "lower b"] True A B
      by (simp add: strcasecmp_from.simps [of s1 s2 i] a b charmap_lower)
  next
    case False
    then show ?thesis using A B lower_zero [of a] lower_zero [of b]
      by (auto simp: strcasecmp_from.simps [of s1 s2 i] a b charmap_lower word_uint_eq_iff [symmetric] unsigned_eq_0_iff)
  qed
qed

text \<open>Two strings compare equal exactly if they differ at most in the case of their letters; the comparison stays inside them.\<close>

lemma strcasecmp_lower:
  "0 \<in> set s1 \<Longrightarrow> 0 \<in> set s2 \<Longrightarrow> \<exists>r. strcasecmp s1 s2 = Some r \<and> (r = 0 \<longleftrightarrow> map lower (cstr s1) = map lower (cstr s2))"
  using strcasecmp_from_lower [of 0 s1 s2] by (simp add: strcasecmp_def)

lemma strncasecmp_from_lower:
  "0 \<in> set (drop i s1) \<Longrightarrow> 0 \<in> set (drop i s2) \<Longrightarrow>
    \<exists>r. strncasecmp_from s1 s2 i n = Some r \<and> (r = 0 \<longleftrightarrow> map lower (take n (cstr (drop i s1))) = map lower (take n (cstr (drop i s2))))"
proof (induction s1 s2 i n rule: strncasecmp_from.induct)
  case (2 s1 s2 i n)
  obtain a b where a: "ld s1 i = Some a" and b: "ld s2 i = Some b" using ld_in_string "2.prems" by blast
  note A = cstr_drop [OF "2.prems"(1) a] and B = cstr_drop [OF "2.prems"(2) b]
  show ?case
  proof (cases "lower a = lower b \<and> a \<noteq> 0")
    case True
    then have "b \<noteq> 0" using lower_zero by metis
    then show ?thesis using "2.IH" [OF a b, of "lower a" "lower b"] True A B
      by (simp add: a b charmap_lower)
  next
    case False
    then show ?thesis using A B lower_zero [of a] lower_zero [of b]
      by (auto simp: a b charmap_lower word_uint_eq_iff [symmetric] unsigned_eq_0_iff)
  qed
qed simp

lemma strncasecmp_lower:
  "0 \<in> set s1 \<Longrightarrow> 0 \<in> set s2 \<Longrightarrow>
    \<exists>r. strncasecmp s1 s2 n = Some r \<and> (r = 0 \<longleftrightarrow> map lower (take (unat n) (cstr s1)) = map lower (take (unat n) (cstr s2)))"
  using strncasecmp_from_lower [of 0 s1 s2] by (simp add: strncasecmp_def)

lemma strpbrk_scan_set: "0 \<in> set (drop j s2) \<Longrightarrow> strpbrk_scan s2 j c = Some (c \<in> set (cstr (drop j s2)))"
proof (induction s2 j c rule: strpbrk_scan.induct)
  case (1 s2 j c)
  obtain sc where sc: "ld s2 j = Some sc" using ld_in_string "1.prems" by blast
  show ?case using "1.IH" [OF sc] cstr_drop [OF "1.prems" sc] by (auto simp: strpbrk_scan.simps [of s2 j c] sc)
qed

lemma strpbrk_from_first:
  "0 \<in> set (drop i s1) \<Longrightarrow> 0 \<in> set s2 \<Longrightarrow>
    strpbrk_from s1 i s2 = Some (let skipped = takeWhile (\<lambda>c. c \<notin> set (cstr s2)) (cstr (drop i s1))
      in if skipped = cstr (drop i s1) then None else Some (i + length skipped))"
proof (induction s1 i s2 rule: strpbrk_from.induct)
  case (1 s1 i s2)
  obtain c where c: "ld s1 i = Some c" using ld_in_string "1.prems" by blast
  show ?case using "1.IH" [OF c] cstr_drop [OF "1.prems"(1) c] strpbrk_scan_set [of 0 s2 c] "1.prems"
    by (auto simp: strpbrk_from.simps [of s1 i s2] c Let_def)
qed

text \<open>\<^verbatim>\<open>strpbrk\<close> finds the first character of the first string that occurs in the second.\<close>

lemma strpbrk_first:
  "0 \<in> set s1 \<Longrightarrow> 0 \<in> set s2 \<Longrightarrow>
    lualibc_strpbrk s1 s2 = Some (let skipped = takeWhile (\<lambda>c. c \<notin> set (cstr s2)) (cstr s1)
      in if skipped = cstr s1 then None else Some (length skipped))"
  using strpbrk_from_first [of 0 s1 s2] by (simp add: lualibc_strpbrk_def)

end
