(* ===== verification/Devman.thy ===== *)
theory Devman
  imports C_string
begin

text \<open>
  The devices behind the file descriptors of the C library: the table of devices (\<^verbatim>\<open>newlib/src/devman.c\<close>), the way of a path and
  of a descriptor to its device (\<^verbatim>\<open>newlib/src/stubs.c\<close>), the console (\<^verbatim>\<open>newlib/src/genstd.c\<close>) and the file system
  (\<^verbatim>\<open>platform_fs.c\<close>). The files themselves belong to the kernel: its services are a record of functions on
  its own state, which the world of the model carries along. The console answers a request for a character with the next
  of a list of answers, where \<open>-1\<close> stands for a timeout.
\<close>

section \<open>The world\<close>

record 'k world =
  con_in :: "int list"
  con_out :: "(int \<times> u8) list"
  std_prev_char :: int
  errno :: int
  kern :: 'k

text \<open>The device functions of \<^verbatim>\<open>DM_DEVICE\<close>; a missing one is \<open>None\<close>. A read gets the buffer and returns it filled.\<close>

record 'k dm_device =
  dev_name :: "u8 list"
  p_open_r :: "(u8 list \<Rightarrow> int \<Rightarrow> int \<Rightarrow> 'k world \<Rightarrow> int \<times> 'k world) option"
  p_close_r :: "(int \<Rightarrow> 'k world \<Rightarrow> int \<times> 'k world) option"
  p_write_r :: "(int \<Rightarrow> u8 list \<Rightarrow> 'k world \<Rightarrow> (int \<times> 'k world) option) option"
  p_read_r :: "(int \<Rightarrow> u8 list \<Rightarrow> nat \<Rightarrow> 'k world \<Rightarrow> ((int \<times> u8 list) \<times> 'k world) option) option"
  p_lseek_r :: "(int \<Rightarrow> int \<Rightarrow> int \<Rightarrow> 'k world \<Rightarrow> int \<times> 'k world) option"

text \<open>The array of pointers and the number of devices.\<close>

record 'k dm =
  dm_list :: "'k dm_device option list"
  dm_num_devs :: nat

definition DM_MAX_DEVICES :: nat where "DM_MAX_DEVICES = 16"
definition DM_MAX_DEV_NAME :: nat where "DM_MAX_DEV_NAME = 12"
definition DM_ERR_ALREADY_REGISTERED :: int where "DM_ERR_ALREADY_REGISTERED = -1"
definition DM_ERR_NOT_REGISTERED :: int where "DM_ERR_NOT_REGISTERED = -2"
definition DM_ERR_NO_SPACE :: int where "DM_ERR_NO_SPACE = -3"
definition DM_ERR_INVALID_NAME :: int where "DM_ERR_INVALID_NAME = -4"
definition DM_STDIN_NUM :: int where "DM_STDIN_NUM = 0"
definition DM_STDOUT_NUM :: int where "DM_STDOUT_NUM = 1"
definition DM_STDERR_NUM :: int where "DM_STDERR_NUM = 2"
definition STD_CTRLZ_CODE :: int where "STD_CTRLZ_CODE = 26"

lemmas dm_constants = DM_MAX_DEVICES_def DM_MAX_DEV_NAME_def DM_ERR_ALREADY_REGISTERED_def DM_ERR_NOT_REGISTERED_def
  DM_ERR_NO_SPACE_def DM_ERR_INVALID_NAME_def DM_STDIN_NUM_def DM_STDOUT_NUM_def DM_STDERR_NUM_def STD_CTRLZ_CODE_def

text \<open>Error numbers of the C library, left open, and the values they have.\<close>

record errnos =
  EBADF :: int
  EINVAL :: int
  ENODEV :: int
  ENOSYS :: int
  ESPIPE :: int
  ENOTSUP :: int

definition newlib_errnos :: errnos where
  "newlib_errnos = \<lparr>EBADF = 9, EINVAL = 22, ENODEV = 19, ENOSYS = 88, ESPIPE = 29, ENOTSUP = 134\<rparr>"

section \<open>The table of devices\<close>

text \<open>The index of the first device of that name, or the number of devices.\<close>

fun dm_search :: "u8 list \<Rightarrow> 'k dm_device option list \<Rightarrow> nat \<Rightarrow> nat \<Rightarrow> nat option" where
  "dm_search name ds i 0 = Some i"
| "dm_search name ds i (Suc n) = do {
     d \<leftarrow> ld ds i;
     d \<leftarrow> d;
     r \<leftarrow> strcasecmp name (dev_name d @ [0]);
     (if r = 0 then Some i else dm_search name ds (Suc i) n)
   }"

definition dm_register :: "'k dm_device \<Rightarrow> 'k dm \<Rightarrow> (int \<times> 'k dm) option" where
  "dm_register d s =
     (if take 1 (dev_name d) \<noteq> ascii ''/'' \<or> DM_MAX_DEV_NAME < length (dev_name d) then Some (DM_ERR_INVALID_NAME, s)
      else do {
        i \<leftarrow> dm_search (dev_name d @ [0]) (dm_list s) 0 (dm_num_devs s);
        (if i \<noteq> dm_num_devs s then Some (DM_ERR_ALREADY_REGISTERED, s)
         else if dm_num_devs s = DM_MAX_DEVICES then Some (DM_ERR_NO_SPACE, s)
         else do {
           ds \<leftarrow> st (dm_list s) (dm_num_devs s) (Some d);
           Some (int (dm_num_devs s), s\<lparr>dm_list := ds, dm_num_devs := dm_num_devs s + 1\<rparr>)
         })
      })"

text \<open>\<^verbatim>\<open>memmove\<close> moves one pointer, whatever the position.\<close>

definition dm_unregister :: "u8 list \<Rightarrow> 'k dm \<Rightarrow> (int \<times> 'k dm) option" where
  "dm_unregister name s =
     (if take 1 name \<noteq> ascii ''/'' \<or> DM_MAX_DEV_NAME < length name then Some (DM_ERR_INVALID_NAME, s)
      else do {
        i \<leftarrow> dm_search (name @ [0]) (dm_list s) 0 (dm_num_devs s);
        (if i = dm_num_devs s then Some (DM_ERR_NOT_REGISTERED, s)
         else do {
           ds \<leftarrow> (if i + 1 \<noteq> dm_num_devs s then do { d \<leftarrow> ld (dm_list s) (i + 1); st (dm_list s) i d } else Some (dm_list s));
           Some (0, s\<lparr>dm_list := ds, dm_num_devs := dm_num_devs s - 1\<rparr>)
         })
      })"

definition dm_get_device_at :: "int \<Rightarrow> 'k dm \<Rightarrow> 'k dm_device option option" where
  "dm_get_device_at idx s = (if idx < 0 \<or> int (dm_num_devs s) \<le> idx then Some None else ld (dm_list s) (nat idx))"

section \<open>From a path to a device\<close>

text \<open>The loop also notes a device of the name \<^verbatim>\<open>/\<close>.\<close>

fun dm_entry_loop :: "u8 list \<Rightarrow> 'k dm_device option list \<Rightarrow> nat \<Rightarrow> nat \<Rightarrow> nat option \<Rightarrow> (nat \<times> nat option) option" where
  "dm_entry_loop tempname ds i 0 root = Some (i, root)"
| "dm_entry_loop tempname ds i (Suc n) root = do {
     d \<leftarrow> ld ds i;
     d \<leftarrow> d;
     r \<leftarrow> strcasecmp (tempname @ [0]) (dev_name d @ [0]);
     (if r = 0 then Some (i, root) else dm_entry_loop tempname ds (Suc i) n (if dev_name d = ascii ''/'' then Some i else root))
   }"

text \<open>The device and the rest of the path. A slash is looked for behind the first one.\<close>

definition find_dm_entry :: "u8 list \<Rightarrow> 'k dm \<Rightarrow> (nat \<times> u8 list) option option" where
  "find_dm_entry name s =
     (if take 1 name \<noteq> ascii ''/'' then Some None
      else (let pos = 1 + length (takeWhile (\<lambda>c. c \<noteq> 0x2F) (drop 1 name)) in
        if pos < length name \<and> (DM_MAX_DEV_NAME < pos \<or> pos = 1) then Some None
        else (let (tempname, preal) = (if pos < length name then (take pos name, drop pos name) else (ascii ''/'', name)) in do {
          (i, root) \<leftarrow> dm_entry_loop tempname (dm_list s) 0 (dm_num_devs s) None;
          (case (if i = dm_num_devs s then map_option (\<lambda>r. (r, name)) root else Some (i, preal)) of
             None \<Rightarrow> Some None
           | Some (i, preal) \<Rightarrow> Some (if drop 1 preal = [] then None else Some (i, drop 1 preal)))
        })))"

section \<open>From a descriptor to a device\<close>

definition DM_MAKE_DESC :: "nat \<Rightarrow> int \<Rightarrow> int" where "DM_MAKE_DESC devid fd = push_bit 11 (int devid) OR fd"
definition DM_GET_DEVID :: "int \<Rightarrow> int" where "DM_GET_DEVID desc = drop_bit 11 desc"
definition DM_GET_FD :: "int \<Rightarrow> int" where "DM_GET_FD desc = desc AND 2047"

definition open_r :: "errnos \<Rightarrow> 'k dm \<Rightarrow> u8 list \<Rightarrow> int \<Rightarrow> int \<Rightarrow> 'k world \<Rightarrow> (int \<times> 'k world) option" where
  "open_r e s name flags mode w = do {
     entry \<leftarrow> find_dm_entry name s;
     (case entry of
        None \<Rightarrow> Some (-1, w\<lparr>errno := ENODEV e\<rparr>)
      | Some (devid, actname) \<Rightarrow> do {
          d \<leftarrow> dm_get_device_at (int devid) s;
          d \<leftarrow> d;
          Some (case p_open_r d of
             None \<Rightarrow> (-1, w\<lparr>errno := ENOSYS e\<rparr>)
           | Some f \<Rightarrow> (let (res, w) = f actname flags mode w in
               if res < 0 then (res, w\<lparr>errno := res\<rparr>) else (DM_MAKE_DESC devid res, w)))
        })
   }"

definition close_r :: "errnos \<Rightarrow> 'k dm \<Rightarrow> int \<Rightarrow> 'k world \<Rightarrow> (int \<times> 'k world) option" where
  "close_r e s file w = do {
     d \<leftarrow> dm_get_device_at (DM_GET_DEVID file) s;
     d \<leftarrow> d;
     Some (case p_close_r d of None \<Rightarrow> (-1, w\<lparr>errno := ENOSYS e\<rparr>) | Some f \<Rightarrow> f (DM_GET_FD file) w)
   }"

definition lseek_r :: "errnos \<Rightarrow> 'k dm \<Rightarrow> int \<Rightarrow> int \<Rightarrow> int \<Rightarrow> 'k world \<Rightarrow> (int \<times> 'k world) option" where
  "lseek_r e s file off whence w = do {
     d \<leftarrow> dm_get_device_at (DM_GET_DEVID file) s;
     d \<leftarrow> d;
     Some (case p_lseek_r d of None \<Rightarrow> (-1, w\<lparr>errno := ENOSYS e\<rparr>) | Some f \<Rightarrow> f (DM_GET_FD file) off whence w)
   }"

definition read_r :: "errnos \<Rightarrow> 'k dm \<Rightarrow> int \<Rightarrow> u8 list \<Rightarrow> nat \<Rightarrow> 'k world \<Rightarrow> ((int \<times> u8 list) \<times> 'k world) option" where
  "read_r e s file buf len w = do {
     d \<leftarrow> dm_get_device_at (DM_GET_DEVID file) s;
     d \<leftarrow> d;
     (case p_read_r d of None \<Rightarrow> Some ((-1, buf), w\<lparr>errno := ENOSYS e\<rparr>) | Some f \<Rightarrow> f (DM_GET_FD file) buf len w)
   }"

definition write_r :: "errnos \<Rightarrow> 'k dm \<Rightarrow> int \<Rightarrow> u8 list \<Rightarrow> 'k world \<Rightarrow> (int \<times> 'k world) option" where
  "write_r e s file bs w = do {
     d \<leftarrow> dm_get_device_at (DM_GET_DEVID file) s;
     d \<leftarrow> d;
     (case p_write_r d of None \<Rightarrow> Some (-1, w\<lparr>errno := ENOSYS e\<rparr>) | Some f \<Rightarrow> f (DM_GET_FD file) bs w)
   }"

section \<open>The console\<close>

definition std_send :: "int \<Rightarrow> u8 \<Rightarrow> 'k world \<Rightarrow> 'k world" where
  "std_send fd c w = w\<lparr>con_out := con_out w @ [(fd, c)]\<rparr>"

definition std_get :: "'k world \<Rightarrow> int \<times> 'k world" where
  "std_get w = (case con_in w of [] \<Rightarrow> (-1, w) | c # cs \<Rightarrow> (c, w\<lparr>con_in := cs\<rparr>))"

definition isprint :: "int \<Rightarrow> bool" where
  "isprint c \<longleftrightarrow> 32 \<le> c \<and> c \<le> 126"

text \<open>The end of a line: the other character of a pair is dropped, any other one is kept for the next read.\<close>

definition end_of_line :: "int \<Rightarrow> 'k world \<Rightarrow> 'k world" where
  "end_of_line c w =
     (let (p, w) = std_get w
      in std_send DM_STDOUT_NUM (of_int (13 + 10 - c)) (w\<lparr>std_prev_char := (if p + c = 13 + 10 then -1 else p)\<rparr>))"

function std_read_loop :: "nat \<Rightarrow> u8 list \<Rightarrow> nat \<Rightarrow> 'k world \<Rightarrow> ((int \<times> u8 list) \<times> 'k world) option" where
  "std_read_loop i buf len w =
     (if \<not> i < len then Some ((int i, buf), w)
      else if std_prev_char w \<noteq> -1 then do {
        buf \<leftarrow> st buf i (of_int (std_prev_char w));
        std_read_loop (i + 1) buf len (w\<lparr>std_prev_char := -1\<rparr>)
      }
      else (case con_in w of
        [] \<Rightarrow> Some ((int i, buf), w)
      | c # cs \<Rightarrow>
          if c = -1 then Some ((int i, buf), w\<lparr>con_in := cs\<rparr>)
          else if c = 8 \<or> c = 0x7F then
            (if i > 0 then std_read_loop (i - 1) buf len
                (std_send DM_STDOUT_NUM 8 (std_send DM_STDOUT_NUM 32 (std_send DM_STDOUT_NUM 8 (w\<lparr>con_in := cs\<rparr>))))
             else std_read_loop i buf len (w\<lparr>con_in := cs\<rparr>))
          else if \<not> isprint c \<and> c \<noteq> 10 \<and> c \<noteq> 13 \<and> c \<noteq> STD_CTRLZ_CODE then std_read_loop i buf len (w\<lparr>con_in := cs\<rparr>)
          else if c = STD_CTRLZ_CODE then Some ((0, buf), w\<lparr>con_in := cs\<rparr>)
          else if c = 13 \<or> c = 10 then do {
            buf \<leftarrow> st buf i 10;
            Some ((int i + 1, buf), end_of_line c (std_send DM_STDOUT_NUM (of_int c) (w\<lparr>con_in := cs\<rparr>)))
          }
          else do {
            buf \<leftarrow> st buf i (of_int c);
            std_read_loop (i + 1) buf len (std_send DM_STDOUT_NUM (of_int c) (w\<lparr>con_in := cs\<rparr>))
          }))"
  by pat_completeness auto
termination
  by (relation "measure (\<lambda>(i, buf, len, w). 2 * length (con_in w) + (if std_prev_char w \<noteq> -1 then 1 else 0))")
    (auto simp: std_send_def)

declare std_read_loop.simps [simp del]

definition std_read :: "errnos \<Rightarrow> bool \<Rightarrow> int \<Rightarrow> u8 list \<Rightarrow> nat \<Rightarrow> 'k world \<Rightarrow> ((int \<times> u8 list) \<times> 'k world) option" where
  "std_read e ready fd buf len w =
     (if \<not> ready then Some ((-1, buf), w\<lparr>errno := EBADF e\<rparr>)
      else if fd < DM_STDIN_NUM \<or> DM_STDERR_NUM < fd then Some ((-1, buf), w\<lparr>errno := EBADF e\<rparr>)
      else if fd \<noteq> DM_STDIN_NUM then Some ((-1, buf), w\<lparr>errno := EINVAL e\<rparr>)
      else std_read_loop 0 buf len w)"

fun std_write_loop :: "int \<Rightarrow> u8 list \<Rightarrow> 'k world \<Rightarrow> 'k world" where
  "std_write_loop fd [] w = w"
| "std_write_loop fd (c # cs) w = std_write_loop fd cs (std_send fd c (if c = 10 then std_send fd 13 w else w))"

definition std_write :: "errnos \<Rightarrow> bool \<Rightarrow> int \<Rightarrow> u8 list \<Rightarrow> 'k world \<Rightarrow> (int \<times> 'k world) option" where
  "std_write e ready fd bs w = Some
     (if \<not> ready then (-1, w\<lparr>errno := EBADF e\<rparr>)
      else if fd < DM_STDIN_NUM \<or> DM_STDERR_NUM < fd then (-1, w\<lparr>errno := EBADF e\<rparr>)
      else if fd \<noteq> DM_STDOUT_NUM \<and> fd \<noteq> DM_STDERR_NUM then (-1, w\<lparr>errno := EINVAL e\<rparr>)
      else (int (length bs), std_write_loop fd bs w))"

text \<open>\<open>ready\<close> says whether the send and receive functions are set.\<close>

definition std_device :: "errnos \<Rightarrow> bool \<Rightarrow> 'k dm_device" where
  "std_device e ready = \<lparr>dev_name = ascii ''/std'', p_open_r = None, p_close_r = None, p_write_r = Some (std_write e ready),
     p_read_r = Some (std_read e ready), p_lseek_r = None\<rparr>"

definition dm_init :: "errnos \<Rightarrow> bool \<Rightarrow> 'k dm \<Rightarrow> (int \<times> 'k dm) option" where
  "dm_init e ready s = do { (_, s) \<leftarrow> dm_register (std_device e ready) s; Some (0, s) }"

section \<open>The file system\<close>

text \<open>The services of the kernel. A read answers the number of bytes and the bytes.\<close>

record 'k file_service =
  open_file :: "u8 list \<Rightarrow> int \<Rightarrow> int \<Rightarrow> 'k \<Rightarrow> int \<times> 'k"
  close_file :: "int \<Rightarrow> 'k \<Rightarrow> int \<times> 'k"
  write_file :: "int \<Rightarrow> u8 list \<Rightarrow> 'k \<Rightarrow> int \<times> 'k"
  read_file :: "int \<Rightarrow> nat \<Rightarrow> 'k \<Rightarrow> (int \<times> u8 list) \<times> 'k"
  seek_file :: "int \<Rightarrow> int \<Rightarrow> int \<Rightarrow> 'k \<Rightarrow> int \<times> 'k"
  delete_file :: "u8 list \<Rightarrow> 'k \<Rightarrow> int \<times> 'k"
  rename_file :: "u8 list \<Rightarrow> u8 list \<Rightarrow> 'k \<Rightarrow> int \<times> 'k"

definition in_kern :: "('k \<Rightarrow> 'a \<times> 'k) \<Rightarrow> 'k world \<Rightarrow> 'a \<times> 'k world" where
  "in_kern f w = (let (r, k) = f (kern w) in (r, w\<lparr>kern := k\<rparr>))"

definition platformfs_open_r :: "'k file_service \<Rightarrow> u8 list \<Rightarrow> int \<Rightarrow> int \<Rightarrow> 'k world \<Rightarrow> int \<times> 'k world" where
  "platformfs_open_r fs path flags mode = in_kern (open_file fs path flags mode)"

definition platformfs_close_r :: "'k file_service \<Rightarrow> int \<Rightarrow> 'k world \<Rightarrow> int \<times> 'k world" where
  "platformfs_close_r fs fd = in_kern (close_file fs fd)"

definition platformfs_write_r :: "'k file_service \<Rightarrow> int \<Rightarrow> u8 list \<Rightarrow> 'k world \<Rightarrow> (int \<times> 'k world) option" where
  "platformfs_write_r fs fd bs w = (let (ret, w) = in_kern (write_file fs fd bs) w in Some (if ret < 0 then 0 else ret, w))"

text \<open>The kernel fills the buffer with what it read; more than the buffer holds would be written behind it.\<close>

definition platformfs_read_r :: "'k file_service \<Rightarrow> int \<Rightarrow> u8 list \<Rightarrow> nat \<Rightarrow> 'k world \<Rightarrow> ((int \<times> u8 list) \<times> 'k world) option" where
  "platformfs_read_r fs fd buf len w =
     (let ((ret, bs), w) = in_kern (read_file fs fd len) w
      in if length buf < length bs then None else Some ((if ret < 0 then 0 else ret, bs @ drop (length bs) buf), w))"

definition platformfs_lseek_r :: "'k file_service \<Rightarrow> int \<Rightarrow> int \<Rightarrow> int \<Rightarrow> 'k world \<Rightarrow> int \<times> 'k world" where
  "platformfs_lseek_r fs fd off whence w =
     (let (ret, w) = in_kern (seek_file fs fd off whence) w in (if ret < 0 then -1 else ret, w))"

definition platform_fs_device :: "'k file_service \<Rightarrow> 'k dm_device" where
  "platform_fs_device fs = \<lparr>dev_name = ascii ''/'', p_open_r = Some (platformfs_open_r fs), p_close_r = Some (platformfs_close_r fs),
     p_write_r = Some (platformfs_write_r fs), p_read_r = Some (platformfs_read_r fs), p_lseek_r = Some (platformfs_lseek_r fs)\<rparr>"

text \<open>The start of \<^verbatim>\<open>LuaAppTask\<close>: the console, then the file system.\<close>

definition dm_boot :: "errnos \<Rightarrow> bool \<Rightarrow> 'k file_service \<Rightarrow> 'k dm option" where
  "dm_boot e ready fs = do {
     (_, s) \<leftarrow> dm_init e ready \<lparr>dm_list = replicate DM_MAX_DEVICES None, dm_num_devs = 0\<rparr>;
     (_, s) \<leftarrow> dm_register (platform_fs_device fs) s;
     Some s
   }"

section \<open>Lines of the console\<close>

lemma std_read_bounds:
  "i \<le> len \<Longrightarrow> len \<le> length buf \<Longrightarrow>
    \<exists>r buf' w'. std_read_loop i buf len w = Some ((r, buf'), w') \<and> 0 \<le> r \<and> r \<le> int len \<and>
      length buf' = length buf \<and> drop len buf' = drop len buf"
proof (induction i buf len w rule: std_read_loop.induct)
  case (1 i buf len w)
  show ?case
  proof (cases "i < len")
    case False
    then show ?thesis using "1.prems" unfolding std_read_loop.simps [of i buf len w] by simp
  next
    case True
    have st: "st buf i v = Some (buf[i := v])" for v using True "1.prems" by (simp add: st_in)
    show ?thesis
    proof (cases "std_prev_char w = -1")
      case False
      then show ?thesis using "1.IH"(1) [of "buf[i := of_int (std_prev_char w)]"] True "1.prems" st
        by (simp add: std_read_loop.simps [of i buf len w])
    next
      case prev: True
      show ?thesis
      proof (cases "con_in w")
        case Nil
        then show ?thesis using True prev "1.prems" by (simp add: std_read_loop.simps [of i buf len w])
      next
        case (Cons c cs)
        note IH = "1.IH"(2-5) [OF _ _ Cons]
        show ?thesis using IH True prev "1.prems" st Cons
          by (auto simp: std_read_loop.simps [of i buf len w] Let_def)
      qed
    qed
  qed
qed

text \<open>What a key does to the line, and what is echoed.\<close>

definition is_backspace :: "int \<Rightarrow> bool" where
  "is_backspace c \<longleftrightarrow> c = 8 \<or> c = 0x7F"

definition key :: "u8 list \<Rightarrow> int \<Rightarrow> u8 list" where
  "key line c = (if is_backspace c then butlast line else if isprint c then line @ [of_int c] else line)"

definition key_echo :: "u8 list \<Rightarrow> int \<Rightarrow> u8 list" where
  "key_echo line c = (if is_backspace c then (if line = [] then [] else [8, 32, 8]) else if isprint c then [of_int c] else [])"

fun typed :: "u8 list \<Rightarrow> int list \<Rightarrow> u8 list" where
  "typed line [] = line"
| "typed line (c # cs) = typed (key line c) cs"

fun echoed :: "u8 list \<Rightarrow> int list \<Rightarrow> u8 list" where
  "echoed line [] = []"
| "echoed line (c # cs) = key_echo line c @ echoed (key line c) cs"

text \<open>The line never fills the buffer.\<close>

fun fits :: "nat \<Rightarrow> u8 list \<Rightarrow> int list \<Rightarrow> bool" where
  "fits len line [] \<longleftrightarrow> length line < len"
| "fits len line (c # cs) \<longleftrightarrow> length line < len \<and> fits len (key line c) cs"

definition in_line :: "int \<Rightarrow> bool" where
  "in_line c \<longleftrightarrow> c \<notin> {-1, 10, 13, 26}"

text \<open>One key in the loop: the buffer holds the line up to the index.\<close>

lemma std_read_key:
  assumes "take i buf = line" and "i = length line" and "i < len" and "len \<le> length buf" and "std_prev_char w = -1"
    and "con_in w = c # cs" and "in_line c"
  shows "\<exists>buf' i'. std_read_loop i buf len w =
      std_read_loop i' buf' len (w\<lparr>con_in := cs, con_out := con_out w @ map (Pair DM_STDOUT_NUM) (key_echo line c)\<rparr>) \<and>
    take i' buf' = key line c \<and> i' = length (key line c) \<and> length buf' = length buf \<and> drop len buf' = drop len buf"
proof -
  have c: "c \<noteq> -1" "c \<noteq> 10" "c \<noteq> 13" "c \<noteq> STD_CTRLZ_CODE" using assms(7) by (auto simp: in_line_def STD_CTRLZ_CODE_def)
  note step = std_send_def key_def key_echo_def is_backspace_def
  show ?thesis
  proof (cases "is_backspace c")
    case True
    show ?thesis
    proof (cases "line = []")
      case True
      then show ?thesis using assms c \<open>is_backspace c\<close>
        unfolding std_read_loop.simps [of i buf len w] by (intro exI [of _ buf] exI [of _ i]) (auto simp: step)
    next
      case False
      have "take (i - 1) buf = butlast line" using butlast_take [of i buf] assms(1,3,4) by simp
      then show ?thesis using assms c \<open>is_backspace c\<close> False
        unfolding std_read_loop.simps [of i buf len w] by (intro exI [of _ buf] exI [of _ "i - 1"]) (auto simp: step)
    qed
  next
    case nb: False
    show ?thesis
    proof (cases "isprint c")
      case False
      then show ?thesis using assms c nb
        unfolding std_read_loop.simps [of i buf len w] by (intro exI [of _ buf] exI [of _ i]) (auto simp: step)
    next
      case True
      have "take (i + 1) (buf[i := of_int c]) = line @ [of_int c]" using assms(1,2,3,4)
        by (simp add: take_Suc_conv_app_nth)
      then show ?thesis using assms c nb True
        unfolding std_read_loop.simps [of i buf len w]
        by (intro exI [of _ "buf[i := of_int c]"] exI [of _ "i + 1"]) (auto simp: step st_in)
    qed
  qed
qed

lemma std_read_line:
  "take i buf = line \<Longrightarrow> i = length line \<Longrightarrow> len \<le> length buf \<Longrightarrow> std_prev_char w = -1 \<Longrightarrow>
    con_in w = cs @ nl # rest \<Longrightarrow> nl = 10 \<or> nl = 13 \<Longrightarrow> \<forall>c \<in> set cs. in_line c \<Longrightarrow> fits len line cs \<Longrightarrow>
    \<exists>buf'. std_read_loop i buf len w = Some ((int (length (typed line cs)) + 1, buf'),
        end_of_line nl (w\<lparr>con_in := rest, con_out := con_out w @ map (Pair DM_STDOUT_NUM) (echoed line cs @ [of_int nl])\<rparr>)) \<and>
      take (length (typed line cs) + 1) buf' = typed line cs @ [10] \<and> drop len buf' = drop len buf"
proof (induction cs arbitrary: i buf line w)
  case Nil
  then have "i < len" by simp
  moreover have "take (i + 1) (buf[i := 10]) = line @ [10]" using Nil.prems \<open>i < len\<close> by (simp add: take_Suc_conv_app_nth)
  ultimately show ?case using Nil.prems
    unfolding std_read_loop.simps [of i buf len w]
    by (intro exI [of _ "buf[i := 10]"]) (auto simp: st_def std_send_def STD_CTRLZ_CODE_def isprint_def)
next
  case (Cons c cs)
  have il: "i < len" and fit: "fits len (key line c) cs" using Cons.prems by auto
  let ?w = "w\<lparr>con_in := cs @ nl # rest, con_out := con_out w @ map (Pair DM_STDOUT_NUM) (key_echo line c)\<rparr>"
  obtain buf' i' where k: "std_read_loop i buf len w = std_read_loop i' buf' len ?w" "take i' buf' = key line c"
      "i' = length (key line c)" "length buf' = length buf" "drop len buf' = drop len buf"
    using std_read_key [OF Cons.prems(1,2) il Cons.prems(3,4), of c "cs @ nl # rest"] Cons.prems by auto
  show ?case using Cons.IH [OF k(2,3), of ?w] Cons.prems fit k(1,4,5) by simp
qed

text \<open>
  C11. A line typed on the console arrives as it stands on the screen: backspaces take back the last character, unprintable
  characters are dropped, the end of the line becomes a newline whichever way it is typed, a pair of both characters
  counts once, and nothing is written behind the buffer. Everything is echoed as it is typed.
\<close>

theorem console_line:
  assumes "len \<le> length buf" and "std_prev_char w = -1" and "con_in w = cs @ nl # rest" and "nl = 10 \<or> nl = 13"
    and "\<forall>c \<in> set cs. in_line c" and "fits len [] cs"
  shows "\<exists>buf' w'. std_read e True DM_STDIN_NUM buf len w = Some ((int (length (typed [] cs)) + 1, buf'), w') \<and>
    take (length (typed [] cs) + 1) buf' = typed [] cs @ [10] \<and> drop len buf' = drop len buf \<and>
    con_out w' = con_out w @ map (Pair DM_STDOUT_NUM) (echoed [] cs @ [of_int nl, of_int (23 - nl)]) \<and>
    con_in w' = tl rest \<and> std_prev_char w' = (if rest = [] \<or> hd rest = 23 - nl then -1 else hd rest)"
proof -
  obtain buf' where "std_read_loop 0 buf len w = Some ((int (length (typed [] cs)) + 1, buf'),
        end_of_line nl (w\<lparr>con_in := rest, con_out := con_out w @ map (Pair DM_STDOUT_NUM) (echoed [] cs @ [of_int nl])\<rparr>))"
      and "take (length (typed [] cs) + 1) buf' = typed [] cs @ [10]" and "drop len buf' = drop len buf"
    using std_read_line [of 0 buf "[]" len w cs nl rest] assms by auto
  then show ?thesis using assms(4)
    by (cases rest) (auto simp: std_read_def dm_constants end_of_line_def std_get_def std_send_def)
qed

theorem console_line_witness:
  "\<exists>buf' w'. std_read newlib_errnos True DM_STDIN_NUM (replicate 8 0) 8
      \<lparr>con_in = [104, 120, 8, 105, 13, 10, 113], con_out = [], std_prev_char = -1, errno = 0, kern = ()\<rparr> = Some ((3, buf'), w') \<and>
    take 3 buf' = [104, 105, 10] \<and> con_in w' = [113]"
proof -
  let ?w = "\<lparr>con_in = [104, 120, 8, 105, 13, 10, 113], con_out = [], std_prev_char = -1, errno = 0, kern = ()\<rparr>"
  have "con_in ?w = [104, 120, 8, 105] @ 13 # [10, 113]" by simp
  moreover have "typed [] [104, 120, 8, 105] = [104, 105]" "fits 8 [] [104, 120, 8, 105]"
    by (simp_all add: key_def is_backspace_def isprint_def)
  moreover have "\<forall>c \<in> set [104, 120, 8, 105]. in_line c" by (simp add: in_line_def)
  ultimately show ?thesis
    using console_line [of 8 "replicate 8 0" ?w "[104, 120, 8, 105]" 13 "[10, 113]" "newlib_errnos"]
    by (auto simp: numeral_3_eq_3)
qed

text \<open>What is written appears with a carriage return before every newline.\<close>

lemma std_write_loop_out:
  "std_write_loop fd bs w = w\<lparr>con_out := con_out w @ map (Pair fd) (concat (map (\<lambda>c. if c = 10 then [13, 10] else [c]) bs))\<rparr>"
  by (induction fd bs w rule: std_write_loop.induct) (auto simp: std_send_def)

section \<open>The table of devices\<close>

lemma cstr_text: "0 \<notin> set x \<Longrightarrow> cstr (x @ [0]) = x"
  by (induction x) (auto simp: cstr_def)

lemma strcasecmp_text:
  "0 \<notin> set x \<Longrightarrow> 0 \<notin> set y \<Longrightarrow> \<exists>r. strcasecmp (x @ [0]) (y @ [0]) = Some r \<and> (r = 0 \<longleftrightarrow> map lower x = map lower y)"
  using strcasecmp_lower [of "x @ [0]" "y @ [0]"] by (simp add: cstr_text)

text \<open>The devices that are registered, and what holds of the table.\<close>

definition devices :: "'k dm \<Rightarrow> 'k dm_device option list" where
  "devices s = take (dm_num_devs s) (dm_list s)"

definition dm_wf :: "'k dm \<Rightarrow> bool" where
  "dm_wf s \<longleftrightarrow> dm_num_devs s \<le> DM_MAX_DEVICES \<and> length (dm_list s) = DM_MAX_DEVICES \<and> None \<notin> set (devices s) \<and>
     (\<forall>d. Some d \<in> set (devices s) \<longrightarrow> take 1 (dev_name d) = ascii ''/'' \<and> length (dev_name d) \<le> DM_MAX_DEV_NAME \<and> 0 \<notin> set (dev_name d)) \<and>
     distinct (map (map_option (map lower \<circ> dev_name)) (devices s))"

lemma dm_search_found:
  "i + n \<le> length ds \<Longrightarrow> 0 \<notin> set name \<Longrightarrow> \<forall>d \<in> set (take n (drop i ds)). \<exists>x. d = Some x \<and> 0 \<notin> set (dev_name x) \<Longrightarrow>
    \<exists>j. dm_search (name @ [0]) ds i n = Some j \<and> i \<le> j \<and> j \<le> i + n \<and>
      (\<forall>k. i \<le> k \<longrightarrow> k < j \<longrightarrow> map_option (map lower \<circ> dev_name) (ds ! k) \<noteq> Some (map lower name)) \<and>
      (j < i + n \<longrightarrow> map_option (map lower \<circ> dev_name) (ds ! j) = Some (map lower name))"
proof (induction n arbitrary: i)
  case (Suc n)
  have i: "i < length ds" using Suc.prems by simp
  then have tk: "take (Suc n) (drop i ds) = ds ! i # take n (drop (Suc i) ds)" by (simp add: Cons_nth_drop_Suc [symmetric])
  obtain x where x: "ds ! i = Some x" "0 \<notin> set (dev_name x)" using Suc.prems(3) tk by auto
  obtain r where r: "strcasecmp (name @ [0]) (dev_name x @ [0]) = Some r" "r = 0 \<longleftrightarrow> map lower name = map lower (dev_name x)"
    using strcasecmp_text [OF Suc.prems(2) x(2)] by blast
  show ?case
  proof (cases "r = 0")
    case True
    then show ?thesis using r x i by (intro exI [of _ i]) (simp add: ld_in)
  next
    case False
    obtain j where j: "dm_search (name @ [0]) ds (Suc i) n = Some j" "Suc i \<le> j" "j \<le> Suc i + n"
      "\<forall>k. Suc i \<le> k \<longrightarrow> k < j \<longrightarrow> map_option (map lower \<circ> dev_name) (ds ! k) \<noteq> Some (map lower name)"
      "j < Suc i + n \<longrightarrow> map_option (map lower \<circ> dev_name) (ds ! j) = Some (map lower name)"
      using Suc.IH [of "Suc i"] Suc.prems tk by auto
    have "map_option (map lower \<circ> dev_name) (ds ! k) \<noteq> Some (map lower name)" if "i \<le> k" "k < j" for k
    proof (cases "k = i")
      case True
      then show ?thesis using r(2) False x(1) by auto
    next
      case nk: False
      then have "Suc i \<le> k" using that by simp
      then show ?thesis using j(4) that by blast
    qed
    then show ?thesis using j r x i False by (intro exI [of _ j]) (auto simp: ld_in)
  qed
qed simp

lemma dm_search_wf:
  assumes "dm_wf s" and "0 \<notin> set name"
  shows "\<exists>j. dm_search (name @ [0]) (dm_list s) 0 (dm_num_devs s) = Some j \<and> j \<le> dm_num_devs s \<and>
    (j = dm_num_devs s \<longleftrightarrow> Some (map lower name) \<notin> set (map (map_option (map lower \<circ> dev_name)) (devices s)))"
proof -
  have len: "length (devices s) = dm_num_devs s" using assms(1) by (simp add: dm_wf_def devices_def)
  have "\<forall>d \<in> set (take (dm_num_devs s) (drop 0 (dm_list s))). \<exists>x. d = Some x \<and> 0 \<notin> set (dev_name x)"
    using assms(1) by (auto simp: dm_wf_def devices_def) (metis not_Some_eq)
  then obtain j where j: "dm_search (name @ [0]) (dm_list s) 0 (dm_num_devs s) = Some j" "j \<le> dm_num_devs s"
      "\<forall>k < j. map_option (map lower \<circ> dev_name) (dm_list s ! k) \<noteq> Some (map lower name)"
      "j < dm_num_devs s \<longrightarrow> map_option (map lower \<circ> dev_name) (dm_list s ! j) = Some (map lower name)"
    using dm_search_found [of 0 "dm_num_devs s" "dm_list s" name] assms by (auto simp: dm_wf_def)
  let ?n = "map (map_option (map lower \<circ> dev_name)) (devices s)"
  have n: "?n ! k = map_option (map lower \<circ> dev_name) (dm_list s ! k)" if "k < dm_num_devs s" for k
    using that len by (simp add: devices_def)
  have "Some (map lower name) \<in> set ?n" if "j < dm_num_devs s"
    using j(4) that n [of j] len by (metis length_map nth_mem)
  moreover have "Some (map lower name) \<notin> set ?n" if "j = dm_num_devs s"
    using j(3) that n len by (metis in_set_conv_nth length_map)
  ultimately have "j = dm_num_devs s \<longleftrightarrow> Some (map lower name) \<notin> set ?n" using j(2) by (metis le_neq_implies_less)
  then show ?thesis using j by blast
qed

text \<open>
  Registering keeps the table well formed: at most 16 devices, no name twice whatever its case. A new device
  gets the next number; a bad name, a name that is taken and a full table are refused with their errors.
\<close>

lemma register_keeps_table:
  assumes "dm_wf s" and "0 \<notin> set (dev_name d)"
  shows "\<exists>r s'. dm_register d s = Some (r, s') \<and> dm_wf s' \<and>
    (r = int (dm_num_devs s) \<and> devices s' = devices s @ [Some d] \<or> r \<in> {DM_ERR_INVALID_NAME, DM_ERR_ALREADY_REGISTERED, DM_ERR_NO_SPACE} \<and> s' = s)"
proof (cases "take 1 (dev_name d) \<noteq> ascii ''/'' \<or> DM_MAX_DEV_NAME < length (dev_name d)")
  case False
  obtain j where j: "dm_search (dev_name d @ [0]) (dm_list s) 0 (dm_num_devs s) = Some j" "j \<le> dm_num_devs s"
      "j = dm_num_devs s \<longleftrightarrow> Some (map lower (dev_name d)) \<notin> set (map (map_option (map lower \<circ> dev_name)) (devices s))"
    using dm_search_wf [OF assms] by blast
  show ?thesis
  proof (cases "j = dm_num_devs s \<and> dm_num_devs s < DM_MAX_DEVICES")
    case True
    let ?s = "s\<lparr>dm_list := (dm_list s)[dm_num_devs s := Some d], dm_num_devs := dm_num_devs s + 1\<rparr>"
    have dv: "devices ?s = devices s @ [Some d]" using assms(1) True by (simp add: devices_def dm_wf_def take_Suc_conv_app_nth)
    have "dm_register d s = Some (int (dm_num_devs s), ?s)"
      using False j True assms(1) by (simp add: dm_register_def st_in dm_wf_def)
    moreover have "dm_wf ?s" using assms True False j dv unfolding dm_wf_def by auto
    ultimately show ?thesis using dv by blast
  next
    case nf: False
    then have "dm_register d s = Some (DM_ERR_ALREADY_REGISTERED, s) \<or> dm_register d s = Some (DM_ERR_NO_SPACE, s)"
      using False j assms(1) by (auto simp: dm_register_def dm_wf_def)
    then show ?thesis using assms(1) by blast
  qed
qed (use assms(1) in \<open>auto simp: dm_register_def\<close>)


text \<open>Unregistering a device that is not one of the last two loses another one: the first of three, and the third is gone.\<close>

lemma unregister_loses_device:
  assumes "dm_list s = [Some a, Some b, Some c] @ free" and "dm_num_devs s = 3" and "0 \<notin> set (dev_name a)"
    and "take 1 (dev_name a) = ascii ''/''" and "length (dev_name a) \<le> DM_MAX_DEV_NAME"
  shows "\<exists>s'. dm_unregister (dev_name a) s = Some (0, s') \<and> devices s' = [Some b, Some b]"
  using strcasecmp_text [OF assms(3,3)] assms
  by (auto simp: dm_unregister_def numeral_3_eq_3 ld_def st_def devices_def)

section \<open>Paths and descriptors\<close>

lemma ascii_names: "ascii ''/'' = [47]" "ascii ''/std'' = [47, 115, 116, 100]"
  by (simp_all add: ascii_def)

lemma boot_table:
  "\<exists>s. dm_boot e ready fs = Some s \<and> devices s = [Some (std_device e ready), Some (platform_fs_device fs)] \<and> dm_wf s \<and>
    dm_list s = [Some (std_device e ready), Some (platform_fs_device fs)] @ replicate 14 None \<and> dm_num_devs s = 2"
proof -
  obtain r where r: "strcasecmp (ascii ''/'' @ [0]) (ascii ''/std'' @ [0]) = Some r" "r \<noteq> 0"
    using strcasecmp_text [of "ascii ''/''" "ascii ''/std''"] by (auto simp: ascii_names)
  let ?L = "[Some (std_device e ready), Some (platform_fs_device fs)] @ replicate 14 None"
  have "replicate 16 (None :: 'a dm_device option) = None # None # replicate 14 None" by (simp add: numeral_eq_Suc)
  then have "dm_boot e ready fs = Some \<lparr>dm_list = ?L, dm_num_devs = 2\<rparr>"
    using r by (simp add: dm_boot_def dm_init_def dm_register_def std_device_def platform_fs_device_def dm_constants ld_def st_def ascii_names)
  moreover have "dm_wf \<lparr>dm_list = ?L, dm_num_devs = 2\<rparr>"
    by (auto simp: dm_wf_def devices_def dm_constants std_device_def platform_fs_device_def ascii_names lower_def)
  ultimately show ?thesis by (auto simp: devices_def)
qed

lemma descriptor_roundtrip:
  assumes "devid < 16" and "0 \<le> fd" and "fd < 2048"
  shows "DM_GET_DEVID (DM_MAKE_DESC devid fd) = int devid" and "DM_GET_FD (DM_MAKE_DESC devid fd) = fd"
    and "0 \<le> DM_MAKE_DESC devid fd" and "DM_MAKE_DESC devid fd < 2 ^ 15"
proof -
  have fd: "fd = take_bit 11 fd" using assms(2,3) by (simp add: take_bit_int_eq_self)
  have sum: "push_bit 11 (int devid) OR fd = int devid * 2048 + fd"
  proof -
    have "push_bit 11 (int devid) OR fd = push_bit 11 (int devid) + fd"
      by (rule disjunctive_add [symmetric]) (subst fd, auto simp: bit_simps)
    then show ?thesis by (simp add: push_bit_eq_mult)
  qed
  show "DM_GET_DEVID (DM_MAKE_DESC devid fd) = int devid"
    using assms by (simp add: DM_GET_DEVID_def DM_MAKE_DESC_def sum drop_bit_eq_div)
  have m: "(2047 :: int) = mask 11" by (simp add: mask_eq_exp_minus_1)
  show "DM_GET_FD (DM_MAKE_DESC devid fd) = fd"
    using assms by (simp add: DM_GET_FD_def DM_MAKE_DESC_def sum m take_bit_eq_mask [symmetric] take_bit_eq_mod)
  show "0 \<le> DM_MAKE_DESC devid fd" "DM_MAKE_DESC devid fd < 2 ^ 15" using assms by (simp_all add: DM_MAKE_DESC_def sum)
qed

text \<open>With the devices of the boot, the first directory of a path decides; a path without one belongs to the file system.\<close>

lemma find_entry_boot:
  assumes "dm_boot e ready fs = Some s" and "0 \<notin> set name"
  shows "find_dm_entry name s = Some
    (let pos = 1 + length (takeWhile (\<lambda>c. c \<noteq> 0x2F) (drop 1 name))
     in if take 1 name \<noteq> ascii ''/'' \<or> drop 1 name = [] \<or> (pos < length name \<and> (12 < pos \<or> pos = 1)) then None
        else if pos < length name \<and> map lower (take pos name) = ascii ''/std'' then (if drop (pos + 1) name = [] then None else Some (0, drop (pos + 1) name))
        else Some (1, drop 1 name))"
proof -
  obtain s' where "dm_boot e ready fs = Some s'"
      "dm_list s' = [Some (std_device e ready), Some (platform_fs_device fs)] @ replicate 14 None" "dm_num_devs s' = 2"
    using boot_table by blast
  then have s: "dm_list s = [Some (std_device e ready), Some (platform_fs_device fs)] @ replicate 14 None" "dm_num_devs s = 2"
    using assms(1) by auto
  have n0: "0 \<notin> set (take n name)" for n using assms(2) in_set_takeD by metis
  have cmp: "\<exists>r. strcasecmp (x @ [0]) (ascii ''/std'' @ [0]) = Some r \<and> (r = 0 \<longleftrightarrow> map lower x = ascii ''/std'')"
     "\<exists>r. strcasecmp (x @ [0]) (ascii ''/'' @ [0]) = Some r \<and> (r = 0 \<longleftrightarrow> map lower x = ascii ''/'')" if "0 \<notin> set x" for x
    using strcasecmp_text [OF that, of "ascii ''/std''"] strcasecmp_text [OF that, of "ascii ''/''"] by (simp_all add: ascii_def lower_def)
  have loop: "dm_entry_loop x (dm_list s) 0 (dm_num_devs s) None =
      Some (if map lower x = ascii ''/std'' then (0, None) else if map lower x = ascii ''/'' then (1, None) else (2, Some 1))"
    if "0 \<notin> set x" for x
    using cmp [OF that] by (auto simp: s numeral_2_eq_2 ld_def std_device_def platform_fs_device_def)
  show ?thesis
  proof (cases "take 1 name = ascii ''/'' \<and> drop 1 name \<noteq> []")
    case True
    then obtain t where t: "name = 47 # t" "t \<noteq> []" by (cases name) (auto simp: ascii_names)
    let ?pos = "1 + length (takeWhile (\<lambda>c. c \<noteq> 0x2F) t)"
    show ?thesis
    proof (cases "?pos < length name")
      case True
      have "map lower (take ?pos name) \<noteq> ascii ''/''" if "?pos \<noteq> 1"
        using that t by (cases t) (auto simp: ascii_names)
      then show ?thesis using True loop [OF n0, of ?pos] t by (auto simp: find_dm_entry_def Let_def ascii_names dm_constants s(2))
    next
      case False
      then show ?thesis using loop [of "ascii ''/''"] t by (auto simp: find_dm_entry_def Let_def ascii_names s(2) lower_def)
    qed
  next
    case False
    then have "take 1 name \<noteq> ascii ''/'' \<or> name = ascii ''/''" by (cases name) (auto simp: ascii_names)
    then show ?thesis using loop [of "ascii ''/''"] by (auto simp: find_dm_entry_def Let_def ascii_names s(2) lower_def)
  qed
qed

text \<open>
  With the devices that the boot registers, opening a path hands it to the kernel without its leading slash, and the
  descriptor leads back to the file system with the kernel's number, unless the first directory of the path is longer than 11
  letters or empty, or is that of the console.
\<close>

theorem open_reaches_kernel:
  assumes "dm_boot e ready fs = Some s" and "0 \<notin> set dir" and "0 \<notin> set file" and "0x2F \<notin> set dir" and "dir \<noteq> []"
    and "map lower dir \<noteq> ascii ''std''" and "length dir \<le> 11" and "open_file fs (dir @ 0x2F # file) flags mode (kern w) = (fd, k)"
    and "0 \<le> fd" and "fd < 2048"
  shows "\<exists>desc. open_r e s (0x2F # dir @ 0x2F # file) flags mode w = Some (desc, w\<lparr>kern := k\<rparr>) \<and> 0 \<le> desc \<and> desc < 2 ^ 15 \<and>
    DM_GET_FD desc = fd \<and> dm_get_device_at (DM_GET_DEVID desc) s = Some (Some (platform_fs_device fs))"
proof -
  let ?n = "0x2F # dir @ 0x2F # file"
  obtain s' where s': "dm_boot e ready fs = Some s'"
      "dm_list s' = [Some (std_device e ready), Some (platform_fs_device fs)] @ replicate 14 None" "dm_num_devs s' = 2"
    using boot_table by blast
  have dev: "dm_get_device_at 1 s = Some (Some (platform_fs_device fs))"
    using assms(1) s' by (simp add: dm_get_device_at_def ld_def)
  have tw: "takeWhile (\<lambda>c. c \<noteq> 0x2F) (drop 1 ?n) = dir" using assms(4) by (simp add: takeWhile_tail) (metis takeWhile_eq_all_conv)
  have std: "map lower (take (1 + length dir) ?n) \<noteq> ascii ''/std''"
    using assms(6) by (auto simp: ascii_def lower_def)
  have "find_dm_entry ?n s = Some (Some (1, dir @ 0x2F # file))"
    using find_entry_boot [OF assms(1), of ?n] assms(2,3,5,7) tw std by (simp add: ascii_names Let_def)
  then have "open_r e s ?n flags mode w = Some (DM_MAKE_DESC 1 fd, w\<lparr>kern := k\<rparr>)"
    using dev assms(8,9) by (simp add: open_r_def platform_fs_device_def platformfs_open_r_def in_kern_def)
  then show ?thesis using descriptor_roundtrip [of 1 fd] assms(9,10) dev by simp
qed

definition last_opened :: "u8 list file_service" where
  "last_opened = \<lparr>open_file = (\<lambda>path _ _ _. (5, path)), close_file = (\<lambda>_ k. (0, k)), write_file = (\<lambda>_ _ k. (0, k)),
     read_file = (\<lambda>_ _ k. ((0, []), k)), seek_file = (\<lambda>_ _ _ k. (0, k)), delete_file = (\<lambda>_ k. (0, k)), rename_file = (\<lambda>_ _ k. (0, k))\<rparr>"

theorem open_reaches_kernel_witness:
  "\<exists>s desc. dm_boot newlib_errnos True last_opened = Some s \<and>
    open_r newlib_errnos s (ascii ''/lua/a'') 8 0
        \<lparr>con_in = [], con_out = [], std_prev_char = -1, errno = 0, kern = []\<rparr>
      = Some (desc, \<lparr>con_in = [], con_out = [], std_prev_char = -1, errno = 0, kern = ascii ''lua/a''\<rparr>) \<and> DM_GET_FD desc = 5"
proof -
  let ?e = "newlib_errnos"
  obtain s where s: "dm_boot ?e True last_opened = Some s" using boot_table by blast
  show ?thesis
    using s open_reaches_kernel [OF s, of "ascii ''lua''" "ascii ''a''" 8 0
      "\<lparr>con_in = [], con_out = [], std_prev_char = -1, errno = 0, kern = []\<rparr>" 5 "ascii ''lua/a''"]
    by (simp add: ascii_def last_opened_def lower_def) blast
qed

text \<open>A directory of twelve letters cannot be opened from, although the kernel is never asked.\<close>

lemma long_directory_refused:
  assumes "dm_boot e ready fs = Some s" and "0 \<notin> set dir" and "0 \<notin> set file" and "0x2F \<notin> set dir" and "12 \<le> length dir"
  shows "open_r e s (0x2F # dir @ 0x2F # file) flags mode w = Some (-1, w\<lparr>errno := ENODEV e\<rparr>)"
proof -
  let ?n = "0x2F # dir @ 0x2F # file"
  have tw: "takeWhile (\<lambda>c. c \<noteq> 0x2F) (drop 1 ?n) = dir" using assms(4) by (simp add: takeWhile_tail) (metis takeWhile_eq_all_conv)
  have "find_dm_entry ?n s = Some None"
    using find_entry_boot [OF assms(1), of ?n] assms(2,3,5) tw by (simp add: ascii_names Let_def)
  then show ?thesis by (simp add: open_r_def)
qed

end
