(* ===== verification/Stdio.thy ===== *)
theory Stdio
  imports Devman Luadb
begin

text \<open>
  Files of the C library: \<^verbatim>\<open>newlib/libc/src/stdio.c\<close> and \<^verbatim>\<open>findfp.c\<close>, and the files that stay in the image of preloaded files
  (the second part of \<^verbatim>\<open>preload.c\<close>). A file is unbuffered; what it keeps is the offset, as long as it is known. Encrypted files
  are read in blocks of 512 bytes that the kernel decodes. Offsets are below the range of \<^verbatim>\<open>off_t\<close>; \<^verbatim>\<open>char\<close> is signed;
  memory requests are granted.
\<close>

section \<open>Files\<close>

definition SRD :: u16 where "SRD = 0x0004"
definition SWR :: u16 where "SWR = 0x0008"
definition SRW :: u16 where "SRW = 0x0010"
definition SEOF :: u16 where "SEOF = 0x0020"
definition SERR :: u16 where "SERR = 0x0040"
definition SNBF :: u16 where "SNBF = 0x0002"
definition SOFF :: u16 where "SOFF = 0x1000"

definition O_RDONLY :: int where "O_RDONLY = 8"
definition O_WRONLY :: int where "O_WRONLY = 16"
definition O_RDWR :: int where "O_RDWR = 24"
definition O_CREAT :: int where "O_CREAT = 4"
definition O_TRUNC :: int where "O_TRUNC = 2"
definition O_APPEND :: int where "O_APPEND = 1"

definition COMMON_FILE :: u8 where "COMMON_FILE = 0"
definition ENC_FILE :: u8 where "ENC_FILE = 1"
definition LUA_UNCOMPRESS_FILE :: u8 where "LUA_UNCOMPRESS_FILE = 2"
definition LUA_UNCOMPRESS_ENC_FILE :: u8 where "LUA_UNCOMPRESS_ENC_FILE = 3"

definition SEEK_SET :: int where "SEEK_SET = 0"
definition SEEK_CUR :: int where "SEEK_CUR = 1"
definition SEEK_END :: int where "SEEK_END = 2"
definition EOF :: int where "EOF = -1"

lemmas stdio_flags = SRD_def SWR_def SRW_def SEOF_def SERR_def SNBF_def SOFF_def
lemmas stdio_constants = COMMON_FILE_def ENC_FILE_def LUA_UNCOMPRESS_FILE_def LUA_UNCOMPRESS_ENC_FILE_def SEEK_SET_def SEEK_CUR_def
  SEEK_END_def EOF_def O_RDONLY_def O_WRONLY_def O_RDWR_def O_CREAT_def O_TRUNC_def O_APPEND_def

text \<open>
  \<^verbatim>\<open>struct __sFILE\<close>. \<open>f_ops\<close> says whether the four function pointers are set; they are set together and always to
  the same functions. The cookie of a file in the image is its entry in the table. The descriptor is a \<^verbatim>\<open>short\<close>.
\<close>

record libc_file =
  f_flags :: u16
  f_file :: int
  f_cookie :: "table_item option"
  f_ops :: bool
  f_offset :: int
  f_type :: u8

text \<open>
  What the functions depend on: error numbers, the devices, the services of the kernel, among them its decoding of a
  number of words, the image in flash, and the tables of files.
\<close>

record 'k libc =
  lc_err :: errnos
  lc_dm :: "'k dm"
  lc_fs :: "'k file_service"
  lc_decode :: "u8 list \<Rightarrow> u8 list"
  lc_rom :: "u8 list"
  lc_tables :: ldb_state

section \<open>Small functions\<close>

definition sread :: "'k libc \<Rightarrow> u8 list \<Rightarrow> nat \<Rightarrow> libc_file \<Rightarrow> 'k world \<Rightarrow> (((int \<times> u8 list) \<times> libc_file) \<times> 'k world) option" where
  "sread c buf n f w = do {
     ((ret, buf), w) \<leftarrow> read_r (lc_err c) (lc_dm c) (f_file f) buf n w;
     Some (((ret, buf), if 0 \<le> ret then f\<lparr>f_offset := f_offset f + ret\<rparr> else f\<lparr>f_flags := f_flags f AND NOT SOFF\<rparr>), w)
   }"

definition swrite :: "'k libc \<Rightarrow> u8 list \<Rightarrow> libc_file \<Rightarrow> 'k world \<Rightarrow> ((int \<times> libc_file) \<times> 'k world) option" where
  "swrite c bs f w = do {
     (_, w) \<leftarrow> (if f_flags f AND of_int O_APPEND \<noteq> 0 then lseek_r (lc_err c) (lc_dm c) (f_file f) 0 SEEK_END w else Some (0, w));
     (ret, w) \<leftarrow> write_r (lc_err c) (lc_dm c) (f_file f) bs w;
     Some ((ret, f\<lparr>f_flags := f_flags f AND NOT SOFF\<rparr>), w)
   }"

definition sseek :: "'k libc \<Rightarrow> int \<Rightarrow> int \<Rightarrow> libc_file \<Rightarrow> 'k world \<Rightarrow> ((int \<times> libc_file) \<times> 'k world) option" where
  "sseek c off whence f w = do {
     (ret, w) \<leftarrow> lseek_r (lc_err c) (lc_dm c) (f_file f) off whence w;
     Some ((ret, if ret = -1 then f\<lparr>f_flags := f_flags f AND NOT SOFF\<rparr> else f\<lparr>f_flags := f_flags f OR SOFF, f_offset := ret\<rparr>), w)
   }"

definition sclose :: "'k libc \<Rightarrow> libc_file \<Rightarrow> 'k world \<Rightarrow> (int \<times> 'k world) option" where
  "sclose c f w = close_r (lc_err c) (lc_dm c) (f_file f) w"

section \<open>Position, reading and writing of files of the file system\<close>

definition ftell_fs :: "'k libc \<Rightarrow> libc_file \<Rightarrow> 'k world \<Rightarrow> ((int \<times> libc_file) \<times> 'k world) option" where
  "ftell_fs c f w =
     (if \<not> f_ops f then Some ((-1, f), w\<lparr>errno := ESPIPE (lc_err c)\<rparr>)
      else if f_flags f AND SOFF \<noteq> 0 then Some ((f_offset f, f), w)
      else sseek c 0 SEEK_CUR f w)"

definition fseek_fs :: "'k libc \<Rightarrow> int \<Rightarrow> int \<Rightarrow> libc_file \<Rightarrow> 'k world \<Rightarrow> ((int \<times> libc_file) \<times> 'k world) option" where
  "fseek_fs c off whence f w =
     (if \<not> f_ops f then Some ((EOF, f), w\<lparr>errno := ESPIPE (lc_err c)\<rparr>)
      else do {
        ((ret, f), w) \<leftarrow> sseek c off whence f w;
        (if ret = -1 then Some ((EOF, f\<lparr>f_flags := f_flags f AND NOT SEOF\<rparr>), w) else Some ((0, f), w))
      })"

text \<open>The kernel decodes words in place.\<close>

definition decode_at :: "'k libc \<Rightarrow> u8 list \<Rightarrow> nat \<Rightarrow> nat \<Rightarrow> u8 list option" where
  "decode_at c mem p words =
     (if p + 4 * words \<le> length mem
      then Some (take p mem @ lc_decode c (take (4 * words) (drop p mem)) @ drop (p + 4 * words) mem) else None)"

text \<open>Whole blocks, then the words of the rest.\<close>

definition decode_blocks :: "'k libc \<Rightarrow> u8 list \<Rightarrow> u8 list option" where
  "decode_blocks c mem = do {
     let decCount = length mem div 512;
     mem' \<leftarrow> for_range 0 decCount (\<lambda>i mem. decode_at c mem (512 * i) 128) mem;
     decode_at c mem' (512 * decCount) (length mem mod 512 div 4)
   }"

text \<open>
  An encrypted file: the blocks that cover the request are read and decoded. What the kernel did not fill is never read:
  only the \<open>len\<close> bytes it read are kept.
\<close>

definition fread_enc :: "'k libc \<Rightarrow> u8 list \<Rightarrow> u32 \<Rightarrow> u32 \<Rightarrow> u32 \<Rightarrow> libc_file \<Rightarrow> 'k world \<Rightarrow> (((u32 \<times> u8 list) \<times> libc_file) \<times> 'k world) option" where
  "fread_enc c buf offset resid sz f w = do {
     let low = offset AND 0xFFFFFE00;
     let up = (offset + resid + 512 - 1) AND 0xFFFFFE00;
     let read_count = up - low;
     ((_, f), w) \<leftarrow> fseek_fs c (uint low) SEEK_SET f w;
     (if f_ops f then Some () else None);
     (((len, temp), f), w) \<leftarrow> sread c (replicate (unat read_count) 0) (unat read_count) f w;
     (if len \<le> 0 then Some (((0, buf), f\<lparr>f_flags := f_flags f OR (if len = 0 then SEOF else SERR)\<rparr>), w)
      else do {
        ((act_count, f), w) \<leftarrow>
          (if len < uint read_count then do {
             ((_, f), w) \<leftarrow> fseek_fs c 0 SEEK_END f w;
             ((real_size, f), w) \<leftarrow> ftell_fs c f w;
             Some ((if of_int real_size - offset < resid then of_int real_size - offset else resid, f), w)
           }
           else Some ((resid, f), w));
        ((_, f), w) \<leftarrow> fseek_fs c (uint (offset + act_count)) SEEK_SET f w;
        mem \<leftarrow> decode_blocks c (take (nat len) temp);
        bs \<leftarrow> sub_bytes mem (unat (offset - low)) (unat act_count);
        (if length buf < length bs then None else Some (((act_count div sz, bs @ drop (length bs) buf), f), w))
      })
   }"

definition fread_fs :: "'k libc \<Rightarrow> u8 list \<Rightarrow> u32 \<Rightarrow> u32 \<Rightarrow> libc_file \<Rightarrow> 'k world \<Rightarrow> (((u32 \<times> u8 list) \<times> libc_file) \<times> 'k world) option" where
  "fread_fs c buf sz count f w = do {
     ((pos, f), w) \<leftarrow> ftell_fs c f w;
     let resid = count * sz;
     (if resid = 0 then Some (((0, buf), f), w)
      else if f_type f = ENC_FILE then fread_enc c buf (of_int pos) resid sz f w
      else do {
        (if f_ops f then Some () else None);
        (((len, buf), f), w) \<leftarrow> sread c buf (unat resid) f w;
        Some (if len \<le> 0 then (((0, buf), f\<lparr>f_flags := f_flags f OR (if len = 0 then SEOF else SERR)\<rparr>), w)
              else (((of_int len div sz, buf), f), w))
      })
   }"

definition lualibc_fwrite :: "'k libc \<Rightarrow> u8 list \<Rightarrow> u32 \<Rightarrow> u32 \<Rightarrow> libc_file \<Rightarrow> 'k world \<Rightarrow> ((u32 \<times> libc_file) \<times> 'k world) option" where
  "lualibc_fwrite c buf sz count f w =
     (if f_flags f AND (SWR OR SRW) = 0 then Some ((of_int EOF, f), w\<lparr>errno := EBADF (lc_err c)\<rparr>)
      else do {
        bs \<leftarrow> sub_bytes buf 0 (unat (sz * count));
        (if f_ops f then Some () else None);
        ((n, f), w) \<leftarrow> swrite c bs f w;
        (if n \<le> 0 then Some ((of_int EOF, f\<lparr>f_flags := f_flags f OR SERR\<rparr>), w)
         else if sz = 0 then None
         else Some ((of_int n div sz, f), w))
      })"

section \<open>Opening and closing\<close>

text \<open>The flags of the file and those for \<^verbatim>\<open>open\<close>; 0 for an unknown mode. The mode ends in a zero byte.\<close>

definition sflags :: "u8 list \<Rightarrow> (u16 \<times> int) option" where
  "sflags mode = do {
     c0 \<leftarrow> ld mode 0;
     (if c0 \<notin> {0x72, 0x77, 0x61} then Some (0, 0)
      else do {
        c1 \<leftarrow> ld mode 1;
        plus \<leftarrow> (if c1 = 0x2B then Some True else if c1 = 0x62 then map_option (\<lambda>c2. c2 = 0x2B) (ld mode 2) else Some False);
        let (ret, m, o') = (if c0 = 0x72 then (SRD, O_RDONLY, 0)
          else if c0 = 0x77 then (SWR, O_WRONLY, O_CREAT OR O_TRUNC) else (SWR, O_WRONLY, O_CREAT OR O_APPEND));
        Some (if plus then (SRW, O_RDWR OR o') else (ret, m OR o'))
      })
   }"

text \<open>The slots: the three standard streams and 17 others. A free one has no flags; it is reserved by the caller.\<close>

fun sfp_from :: "nat \<Rightarrow> libc_file list \<Rightarrow> nat option" where
  "sfp_from i [] = None"
| "sfp_from i (f # fs) = (if f_flags f = 0 then Some i else sfp_from (Suc i) fs)"

definition sfp :: "libc_file list \<Rightarrow> nat option \<times> libc_file list" where
  "sfp pool = (case sfp_from 0 pool of None \<Rightarrow> (None, pool) | Some i \<Rightarrow> (Some i, pool[i := (pool ! i)\<lparr>f_flags := 1\<rparr>]))"

datatype file_ptr = No_file | Slot nat | In_image libc_file

definition section_flags :: "table_section \<Rightarrow> u16" where
  "section_flags sec = (case sec of LUA_SCRIPT_TABLE_UPDATE_SECTION \<Rightarrow> 0 | LUA_SCRIPT_TABLE_FLASH_SECTION \<Rightarrow> 1)"

text \<open>The end of the name is looked at five bytes before its end, however short it is.\<close>

definition fopen_ext :: "'k libc \<Rightarrow> u8 list \<Rightarrow> libc_file option option" where
  "fopen_ext c file =
     (case FindUncompressFileItem file (lc_tables c) of
        None \<Rightarrow> Some None
      | Some (sec, item) \<Rightarrow> do {
          luae \<leftarrow> mem_prefix (file @ [0]) (int (length file) - 5) (ascii ''.luae'');
          Some (Some \<lparr>f_flags = section_flags sec, f_file = 0, f_cookie = Some item, f_ops = False, f_offset = 0,
            f_type = (if luae then LUA_UNCOMPRESS_FILE OR ENC_FILE else LUA_UNCOMPRESS_FILE)\<rparr>)
        })"

definition fopen_fs ::
  "'k libc \<Rightarrow> u8 list \<Rightarrow> u8 list \<Rightarrow> file_ptr \<Rightarrow> libc_file list \<Rightarrow> 'k world \<Rightarrow> (file_ptr \<times> libc_file list \<times> 'k world) option" where
  "fopen_fs c file mode pFile pool w = do {
     (flags, oflags) \<leftarrow> sflags mode;
     (if flags = 0 then Some (No_file, pool, w\<lparr>errno := EINVAL (lc_err c)\<rparr>)
      else (case sfp pool of
         (None, pool) \<Rightarrow> Some (No_file, pool, w)
       | (Some i, pool) \<Rightarrow> do {
           (fd, w) \<leftarrow> open_r (lc_err c) (lc_dm c) file oflags 0 w;
           (if fd < 0 then Some (pFile, pool[i := (pool ! i)\<lparr>f_flags := 0\<rparr>], w)
            else do {
              luae \<leftarrow> mem_prefix (file @ [0]) (int (length file) - 5) (ascii ''.luae'');
              Some (Slot i, pool[i := (pool ! i)\<lparr>f_flags := flags, f_file := signed_take_bit 15 fd, f_cookie := None, f_ops := True,
                f_type := (if luae then ENC_FILE else COMMON_FILE)\<rparr>], w)
            })
         }))
   }"

definition lualibc_fopen ::
  "'k libc \<Rightarrow> u8 list \<Rightarrow> u8 list \<Rightarrow> libc_file list \<Rightarrow> 'k world \<Rightarrow> (file_ptr \<times> libc_file list \<times> 'k world) option" where
  "lualibc_fopen c file mode pool w = do {
     pFile \<leftarrow> fopen_ext c file;
     (case pFile of
        Some f \<Rightarrow> (if f_flags f = 0 then Some (In_image f, pool, w) else fopen_fs c file mode (In_image f) pool w)
      | None \<Rightarrow> fopen_fs c file mode No_file pool w)
   }"

text \<open>A file of the image is only freed.\<close>

definition lualibc_fclose :: "'k libc \<Rightarrow> file_ptr \<Rightarrow> libc_file list \<Rightarrow> 'k world \<Rightarrow> (int \<times> libc_file list \<times> 'k world) option" where
  "lualibc_fclose c p pool w =
     (case p of
        No_file \<Rightarrow> None
      | In_image f \<Rightarrow> Some (0, pool, w)
      | Slot i \<Rightarrow> do {
          f \<leftarrow> ld pool i;
          (if f_flags f = 0 then Some (EOF, pool, w\<lparr>errno := EBADF (lc_err c)\<rparr>)
           else do {
             (r, w) \<leftarrow> (if f_ops f then sclose c f w else Some (0, w));
             Some (if r \<noteq> 0 then EOF else 0, pool[i := f\<lparr>f_flags := 0\<rparr>], w)
           })
        })"

section \<open>Files in the image\<close>

definition fseek_ext :: "int \<Rightarrow> int \<Rightarrow> libc_file \<Rightarrow> (int \<times> libc_file) option" where
  "fseek_ext off whence f = do {
     item \<leftarrow> f_cookie f;
     let nLen = sint (ti_len item);
     Some (if whence = SEEK_SET then (if nLen < off \<or> off < 0 then (-1, f) else (0, f\<lparr>f_offset := off\<rparr>))
       else if whence = SEEK_CUR then
         (if nLen < f_offset f + off \<or> f_offset f + off < 0 then (-1, f) else (0, f\<lparr>f_offset := f_offset f + off\<rparr>))
       else if whence = SEEK_END then (if off < - nLen \<or> 0 < off then (-1, f) else (0, f\<lparr>f_offset := nLen - off\<rparr>))
       else (-1, f))
   }"

definition ftell_ext :: "libc_file \<Rightarrow> int" where
  "ftell_ext f = f_offset f"

definition feof_ext :: "libc_file \<Rightarrow> bool option" where
  "feof_ext f = map_option (\<lambda>item. sint (ti_len item) \<le> f_offset f) (f_cookie f)"

text \<open>The length that is left is computed and compared without a sign.\<close>

definition ext_left :: "table_item \<Rightarrow> u32 \<Rightarrow> u32 \<Rightarrow> u32" where
  "ext_left item offset n = (if n \<le> ti_len item - offset then n else ti_len item - offset)"

definition decode_file :: "'k libc \<Rightarrow> u8 list \<Rightarrow> u32 \<Rightarrow> u32 \<Rightarrow> libc_file \<Rightarrow> ((u32 \<times> u8 list) \<times> libc_file) option" where
  "decode_file c buf sz count f = do {
     item \<leftarrow> f_cookie f;
     let offset = of_int (ftell_ext f);
     let resid = count * sz;
     let low = offset AND 0xFFFFFE00;
     let up = (offset + resid + 512 - 1) AND 0xFFFFFE00;
     let read_count = up - low;
     (_, f) \<leftarrow> fseek_ext (sint low) SEEK_SET f;
     let len = ext_left item offset read_count;
     temp \<leftarrow> sub_bytes (lc_rom c) (unat (ti_offset item + offset)) (unat len);
     let act_count = (if len < read_count \<and> ti_len item - offset < resid then ti_len item - offset else resid);
     (_, f) \<leftarrow> fseek_ext (sint (offset + act_count)) SEEK_SET f;
     mem \<leftarrow> decode_blocks c temp;
     bs \<leftarrow> sub_bytes mem (unat (offset - low)) (unat act_count);
     (if length buf < length bs then None else Some ((act_count div sz, bs @ drop (length bs) buf), f))
   }"

text \<open>A file of an update is read through the update file, which is opened for each read; it is never itself a file of the image.\<close>

definition read_update ::
  "'k libc \<Rightarrow> u8 list \<Rightarrow> int \<Rightarrow> u32 \<Rightarrow> libc_file list \<Rightarrow> 'k world \<Rightarrow> (u8 list option \<times> libc_file list \<times> 'k world) option" where
  "read_update c buf off len pool w = do {
     (p, pool, w) \<leftarrow> lualibc_fopen c LUA_UPDATE_FILE (ascii ''rb'' @ [0]) pool w;
     (case p of
        No_file \<Rightarrow> Some (None, pool, w)
      | In_image f \<Rightarrow> None
      | Slot i \<Rightarrow> do {
          f \<leftarrow> ld pool i;
          ((_, f), w) \<leftarrow> fseek_fs c off SEEK_CUR f w;
          (((_, buf), f), w) \<leftarrow> fread_fs c buf 1 len f w;
          (_, pool, w) \<leftarrow> lualibc_fclose c (Slot i) (pool[i := f]) w;
          Some (Some buf, pool, w)
        })
   }"

definition fread_ext ::
  "'k libc \<Rightarrow> u8 list \<Rightarrow> u32 \<Rightarrow> u32 \<Rightarrow> libc_file \<Rightarrow> libc_file list \<Rightarrow> 'k world \<Rightarrow> ((u32 \<times> u8 list) \<times> libc_file \<times> libc_file list \<times> 'k world) option" where
  "fread_ext c buf sz count f pool w =
     (let resid = count * sz in
      if resid = 0 then Some ((0, buf), f, pool, w)
      else do {
        item \<leftarrow> f_cookie f;
        let len = ext_left item (of_int (f_offset f)) resid;
        (if sint len \<le> 0 then Some ((0, buf), f, pool, w)
         else if f_flags f = section_flags LUA_SCRIPT_TABLE_UPDATE_SECTION then do {
           (r, pool, w) \<leftarrow> read_update c buf (sint (ti_offset item) + f_offset f) len pool w;
           Some (case r of
               None \<Rightarrow> ((0, buf), f, pool, w)
             | Some buf \<Rightarrow> ((len div sz, buf), f\<lparr>f_offset := f_offset f + sint len\<rparr>, pool, w))
         }
         else if f_flags f = section_flags LUA_SCRIPT_TABLE_FLASH_SECTION then
           (if f_type f = LUA_UNCOMPRESS_ENC_FILE then do { (r, f) \<leftarrow> decode_file c buf sz count f; Some (r, f, pool, w) }
            else do {
              bs \<leftarrow> sub_bytes (lc_rom c) (unat (ti_offset item + of_int (f_offset f))) (unat len);
              (if length buf < length bs then None
               else Some ((len div sz, bs @ drop (length bs) buf), f\<lparr>f_offset := f_offset f + sint len\<rparr>, pool, w))
            })
         else Some ((0, buf), f, pool, w))
      })"

section \<open>The interface\<close>

text \<open>Each operation goes to the image or to the slot; \<open>in_slot\<close> stores the file back.\<close>

definition in_slot ::
  "nat \<Rightarrow> (libc_file \<Rightarrow> 'k world \<Rightarrow> (('r \<times> libc_file) \<times> 'k world) option) \<Rightarrow> libc_file list \<Rightarrow> 'k world \<Rightarrow> ('r \<times> file_ptr \<times> libc_file list \<times> 'k world) option" where
  "in_slot i g pool w = do { f \<leftarrow> ld pool i; ((r, f), w) \<leftarrow> g f w; Some (r, Slot i, pool[i := f], w) }"

definition lualibc_fread ::
  "'k libc \<Rightarrow> u8 list \<Rightarrow> u32 \<Rightarrow> u32 \<Rightarrow> file_ptr \<Rightarrow> libc_file list \<Rightarrow> 'k world \<Rightarrow> ((u32 \<times> u8 list) \<times> file_ptr \<times> libc_file list \<times> 'k world) option" where
  "lualibc_fread c buf sz count p pool w =
     (case p of
        No_file \<Rightarrow> None
      | In_image f \<Rightarrow> do { (r, f, pool, w) \<leftarrow> fread_ext c buf sz count f pool w; Some (r, In_image f, pool, w) }
      | Slot i \<Rightarrow> in_slot i (fread_fs c buf sz count) pool w)"

definition lualibc_fseek :: "'k libc \<Rightarrow> int \<Rightarrow> int \<Rightarrow> file_ptr \<Rightarrow> libc_file list \<Rightarrow> 'k world \<Rightarrow> (int \<times> file_ptr \<times> libc_file list \<times> 'k world) option" where
  "lualibc_fseek c off whence p pool w =
     (case p of
        No_file \<Rightarrow> None
      | In_image f \<Rightarrow> do { (r, f) \<leftarrow> fseek_ext off whence f; Some (r, In_image f, pool, w) }
      | Slot i \<Rightarrow> in_slot i (fseek_fs c off whence) pool w)"

definition lualibc_ftell :: "'k libc \<Rightarrow> file_ptr \<Rightarrow> libc_file list \<Rightarrow> 'k world \<Rightarrow> (int \<times> file_ptr \<times> libc_file list \<times> 'k world) option" where
  "lualibc_ftell c p pool w =
     (case p of
        No_file \<Rightarrow> None
      | In_image f \<Rightarrow> Some (ftell_ext f, In_image f, pool, w)
      | Slot i \<Rightarrow> in_slot i (ftell_fs c) pool w)"

definition lualibc_getc :: "'k libc \<Rightarrow> file_ptr \<Rightarrow> libc_file list \<Rightarrow> 'k world \<Rightarrow> (int \<times> file_ptr \<times> libc_file list \<times> 'k world) option" where
  "lualibc_getc c p pool w = do {
     ((n, buf), p, pool, w) \<leftarrow> lualibc_fread c [0] 1 1 p pool w;
     Some (if n \<noteq> 1 then EOF else sint (hd buf), p, pool, w)
   }"

definition lualibc_ungetc :: "'k libc \<Rightarrow> file_ptr \<Rightarrow> libc_file list \<Rightarrow> 'k world \<Rightarrow> (int \<times> file_ptr \<times> libc_file list \<times> 'k world) option" where
  "lualibc_ungetc c p pool w = (if p = Slot 0 then None else do { (_, p, pool, w) \<leftarrow> lualibc_fseek c (-1) SEEK_CUR p pool w; Some (0, p, pool, w) })"

text \<open>\<open>ch\<close> is the character just read, \<open>idx\<close> the place of the next one.\<close>

function fgets_loop ::
  "'k libc \<Rightarrow> nat \<Rightarrow> int \<Rightarrow> u8 list \<Rightarrow> nat \<Rightarrow> file_ptr \<Rightarrow> libc_file list \<Rightarrow> 'k world \<Rightarrow> (u8 list \<times> file_ptr \<times> libc_file list \<times> 'k world) option" where
  "fgets_loop c n ch buf idx p pool w =
     (if ch = EOF then do { buf \<leftarrow> st buf idx 0; Some (buf, p, pool, w) }
      else if n - 1 \<le> idx then Some (buf, p, pool, w)
      else do {
        buf \<leftarrow> st buf idx (of_int ch);
        (if ch = 0x0A then do { buf \<leftarrow> st buf (idx + 1) 0; Some (buf, p, pool, w) }
         else do {
           (ch, p, pool, w) \<leftarrow> lualibc_getc c p pool w;
           fgets_loop c n ch buf (idx + 1) p pool w
         })
      })"
  by pat_completeness auto
termination
  by (relation "measure (\<lambda>(c, n, ch, buf, idx, p, pool, w). n - idx)") auto

declare fgets_loop.simps [simp del]

definition lualibc_fgets ::
  "'k libc \<Rightarrow> u8 list \<Rightarrow> int \<Rightarrow> file_ptr \<Rightarrow> libc_file list \<Rightarrow> 'k world \<Rightarrow> (u8 list option \<times> u8 list \<times> file_ptr \<times> libc_file list \<times> 'k world) option" where
  "lualibc_fgets c buf n p pool w =
     (if n \<le> 1 \<or> p = No_file then Some (None, buf, p, pool, w)
      else do {
        (ch, p, pool, w) \<leftarrow> lualibc_getc c p pool w;
        (if ch = EOF then Some (None, buf, p, pool, w)
         else do {
           (buf, p, pool, w) \<leftarrow> fgets_loop c (nat n) ch buf 0 p pool w;
           buf \<leftarrow> st buf (nat n - 1) 0;
           Some (Some buf, buf, p, pool, w)
         })
      })"

definition feof :: "file_ptr \<Rightarrow> libc_file list \<Rightarrow> bool option" where
  "feof p pool =
     (case p of
        No_file \<Rightarrow> None
      | In_image f \<Rightarrow> feof_ext f
      | Slot i \<Rightarrow> map_option (\<lambda>f. f_type f = COMMON_FILE \<and> f_flags f AND SEOF \<noteq> 0) (ld pool i))"

definition lualibc_fputs :: "'k libc \<Rightarrow> u8 list \<Rightarrow> libc_file \<Rightarrow> 'k world \<Rightarrow> ((int \<times> libc_file) \<times> 'k world) option" where
  "lualibc_fputs c s f w = (if f_ops f then swrite c (cstr s) f w else None)"

definition lualibc_putc :: "'k libc \<Rightarrow> int \<Rightarrow> libc_file \<Rightarrow> 'k world \<Rightarrow> ((int \<times> libc_file) \<times> 'k world) option" where
  "lualibc_putc c ch f w = (if f_ops f then swrite c [of_int ch] f w else None)"

definition lualibc_remove :: "'k libc \<Rightarrow> u8 list \<Rightarrow> 'k world \<Rightarrow> int \<times> 'k world" where
  "lualibc_remove c path w = (let (r, w) = in_kern (delete_file (lc_fs c) path) w in (if r = -1 then -1 else 0, w))"

definition lualibc_rename :: "'k libc \<Rightarrow> u8 list \<Rightarrow> u8 list \<Rightarrow> 'k world \<Rightarrow> int \<times> 'k world" where
  "lualibc_rename c old new w = (let (r, w) = in_kern (rename_file (lc_fs c) old new) w in (if r < 0 then -1 else 0, w))"

definition lualibc_setvbuf :: "'k libc \<Rightarrow> 'k world \<Rightarrow> int \<times> 'k world" where
  "lualibc_setvbuf c w = (-1, w\<lparr>errno := ENOTSUP (lc_err c)\<rparr>)"

definition lualibc_fscanf :: "'k libc \<Rightarrow> 'k world \<Rightarrow> int \<times> 'k world" where
  "lualibc_fscanf c w = (-1, w\<lparr>errno := ENOTSUP (lc_err c)\<rparr>)"

definition lualibc_tmpfile :: "'k libc \<Rightarrow> 'k world \<Rightarrow> file_ptr \<times> 'k world" where
  "lualibc_tmpfile c w = (No_file, w\<lparr>errno := ENOTSUP (lc_err c)\<rparr>)"

definition lualibc_freopen :: "'k libc \<Rightarrow> 'k world \<Rightarrow> file_ptr \<times> 'k world" where
  "lualibc_freopen c w = (No_file, w\<lparr>errno := ENOTSUP (lc_err c)\<rparr>)"

definition lualibc_tmpnam :: "'k libc \<Rightarrow> 'k world \<Rightarrow> u8 list option \<times> 'k world" where
  "lualibc_tmpnam c w = (None, w\<lparr>errno := ENOSYS (lc_err c)\<rparr>)"

end
