(* ===== verification/Stdio_spec.thy ===== *)
theory Stdio_spec
  imports Stdio Luadb_image
begin

text \<open>
  Files of the C library against what a file is: its contents and a position. The kernel's file service is assumed to do what
  a file service does; an encrypted file then has the decoded contents, in whatever pieces it is read.
\<close>


section \<open>Encrypted contents\<close>

text \<open>What an encrypted file says: each block of 512 bytes decoded for itself, of the last one the whole words.\<close>

function plain :: "'k libc \<Rightarrow> u8 list \<Rightarrow> u8 list" where
  "plain c bs =
     (if length bs < 512 then lc_decode c (take (4 * (length bs div 4)) bs) @ drop (4 * (length bs div 4)) bs
      else lc_decode c (take 512 bs) @ plain c (drop 512 bs))"
  by pat_completeness auto
termination
  by (relation "measure (\<lambda>(c, bs). length bs)") auto

declare plain.simps [simp del]

definition decodes_in_place :: "'k libc \<Rightarrow> bool" where
  "decodes_in_place c \<longleftrightarrow> (\<forall>bs. length (lc_decode c bs) = length bs)"

lemma length_plain: "decodes_in_place c \<Longrightarrow> length (plain c bs) = length bs"
proof (induction c bs rule: plain.induct)
  case (1 c bs)
  show ?case
  proof (cases "length bs < 512")
    case True
    then show ?thesis using "1.prems" unfolding plain.simps [of c bs] by (simp add: decodes_in_place_def)
  next
    case False
    then show ?thesis using "1.IH" "1.prems" unfolding plain.simps [of c bs] by (simp add: decodes_in_place_def)
  qed
qed

lemma decode_blocks_from:
  "decodes_in_place c \<Longrightarrow> length pre = 512 * k \<Longrightarrow>
    for_range k (k + length bs div 512) (\<lambda>i mem. decode_at c mem (512 * i) 128) (pre @ bs)
      \<bind> (\<lambda>mem. decode_at c mem (512 * (k + length bs div 512)) (length bs mod 512 div 4)) = Some (pre @ plain c bs)"
proof (induction c bs arbitrary: pre k rule: plain.induct)
  case (1 c bs)
  show ?case
  proof (cases "length bs < 512")
    case True
    have "4 * (length bs div 4) \<le> length bs" by simp
    then show ?thesis using True "1.prems" unfolding plain.simps [of c bs] by (simp add: decode_at_def)
  next
    case False
    let ?n = "(length bs - 512) div 512"
    have n: "length bs div 512 = Suc ?n" and md: "length bs mod 512 = (length bs - 512) mod 512" using False by (simp_all add: le_div_geq le_mod_geq)
    let ?pre = "pre @ lc_decode c (take 512 bs)"
    have step: "decode_at c (pre @ bs) (512 * k) 128 = Some (?pre @ drop 512 bs)"
      using False "1.prems" by (simp add: decode_at_def)
    have "length ?pre = 512 * Suc k" using "1.prems" False by (simp add: decodes_in_place_def)
    then show ?thesis using "1.IH" [OF False "1.prems"(1), of ?pre "Suc k"] False step
      unfolding plain.simps [of c bs] by (simp add: n md for_range_step)
  qed
qed

lemma decode_blocks_plain: "decodes_in_place c \<Longrightarrow> decode_blocks c bs = Some (plain c bs)"
  using decode_blocks_from [of c "[]" 0 bs] by (simp add: decode_blocks_def Let_def)

text \<open>Blocks are independent: a part that begins at a block, and ends at one or at the end, is decoded by itself.\<close>

lemma plain_drop: "decodes_in_place c \<Longrightarrow> 512 * i \<le> length bs \<Longrightarrow> plain c (drop (512 * i) bs) = drop (512 * i) (plain c bs)"
proof (induction i arbitrary: bs)
  case (Suc i)
  then have "\<not> length bs < 512" by simp
  then show ?case using Suc.IH [of "drop 512 bs"] Suc.prems
    unfolding plain.simps [of c bs] by (simp add: decodes_in_place_def add.commute)
qed simp

lemma plain_take: "decodes_in_place c \<Longrightarrow> 512 * j \<le> length bs \<Longrightarrow> plain c (take (512 * j) bs) = take (512 * j) (plain c bs)"
proof (induction j arbitrary: bs)
  case 0
  have "lc_decode c [] = []" using 0(1) by (metis decodes_in_place_def length_0_conv list.size(3))
  then show ?case by (simp add: plain.simps)
next
  case (Suc j)
  then have l: "\<not> length bs < 512" "\<not> length (take (512 * Suc j) bs) < 512" by simp_all
  have "drop 512 (take (512 * Suc j) bs) = take (512 * j) (drop 512 bs)" by (simp add: drop_take)
  then show ?case using Suc.IH [of "drop 512 bs"] Suc.prems l
    unfolding plain.simps [of c bs] plain.simps [of c "take (512 * Suc j) bs"] by (simp add: decodes_in_place_def min_def)
qed

lemma plain_slice:
  assumes "decodes_in_place c" and "512 * i \<le> length bs"
  shows "plain c (take (512 * j) (drop (512 * i) bs)) = take (512 * j) (drop (512 * i) (plain c bs))"
proof (cases "512 * j \<le> length bs - 512 * i")
  case True
  then show ?thesis using assms by (simp add: plain_take plain_drop)
next
  case False
  then show ?thesis using assms by (simp add: plain_drop length_plain)
qed

lemma round_down: "unat (x AND 0xFFFFFE00 :: u32) = 512 * (unat x div 512)"
proof -
  have "(0xFFFFFE00 :: u32) = NOT (mask 9)" by (simp add: mask_eq_exp_minus_1)
  moreover have "x AND NOT (mask 9) = push_bit 9 (drop_bit 9 x)"
    by (rule bit_word_eqI) (auto simp: bit_simps)
  ultimately have "x AND 0xFFFFFE00 = push_bit 9 (drop_bit 9 x)" by simp
  moreover have "unat (x div 512 * 512) = unat x div 512 * 512"
    using unsigned_less [of x, where ?'a = nat] by (simp add: unat_word_ariths unat_div take_bit_nat_eq_self)
  ultimately show ?thesis by (simp add: push_bit_eq_mult drop_bit_eq_div mult.commute)
qed


section \<open>A file service\<close>

definition seek_target :: "int \<Rightarrow> int \<Rightarrow> nat \<Rightarrow> nat \<Rightarrow> int" where
  "seek_target whence off p len = (if whence = SEEK_SET then off else if whence = SEEK_CUR then int p + off else int len + off)"

text \<open>
  \<open>V\<close> shows contents and position of the open files in the kernel's state. Reading gives what is left, up to the length asked for;
  seeking goes anywhere in the file; writing replaces and extends. No other file is touched.
\<close>

definition kernel_files :: "'k file_service \<Rightarrow> ('k \<Rightarrow> int \<Rightarrow> (u8 list \<times> nat) option) \<Rightarrow> bool" where
  "kernel_files fs V \<longleftrightarrow> (\<forall>k fd C p. V k fd = Some (C, p) \<longrightarrow>
     (\<forall>n. \<exists>k'. read_file fs fd n k = ((int (min n (length C - p)), take n (drop p C)), k') \<and> V k' = (V k)(fd := Some (C, p + min n (length C - p)))) \<and>
     (\<forall>off whence t. whence \<in> {SEEK_SET, SEEK_CUR, SEEK_END} \<longrightarrow> seek_target whence off p (length C) = int t \<longrightarrow> t \<le> length C \<longrightarrow>
        (\<exists>k'. seek_file fs fd off whence k = (int t, k') \<and> V k' = (V k)(fd := Some (C, t)))) \<and>
     (\<forall>bs. \<exists>k'. write_file fs fd bs k = (int (length bs), k') \<and>
        V k' = (V k)(fd := Some (take p C @ bs @ drop (p + length bs) C, p + length bs))))"

text \<open>A file that is open on the file system with contents \<open>C\<close> and position \<open>p\<close>; a known offset is right.\<close>

definition attached :: "'k libc \<Rightarrow> ('k \<Rightarrow> int \<Rightarrow> (u8 list \<times> nat) option) \<Rightarrow> libc_file \<Rightarrow> 'k world \<Rightarrow> u8 list \<Rightarrow> nat \<Rightarrow> bool" where
  "attached c V f w C p \<longleftrightarrow> f_ops f \<and> dm_get_device_at (DM_GET_DEVID (f_file f)) (lc_dm c) = Some (Some (platform_fs_device (lc_fs c))) \<and>
     V (kern w) (DM_GET_FD (f_file f)) = Some (C, p) \<and> p \<le> length C \<and> (f_flags f AND SOFF \<noteq> 0 \<longrightarrow> f_offset f = int p)"

text \<open>From one state to another of the same file, with nothing else changed.\<close>

definition moves ::
  "'k libc \<Rightarrow> ('k \<Rightarrow> int \<Rightarrow> (u8 list \<times> nat) option) \<Rightarrow> libc_file \<Rightarrow> 'k world \<Rightarrow> libc_file \<Rightarrow> 'k world \<Rightarrow> u8 list \<Rightarrow> nat \<Rightarrow> bool" where
  "moves c V f w f' w' C p \<longleftrightarrow> attached c V f' w' C p \<and> f_type f' = f_type f \<and> f_file f' = f_file f \<and>
     V (kern w') = (V (kern w))(DM_GET_FD (f_file f) := Some (C, p)) \<and> w' = w\<lparr>kern := kern w'\<rparr>"

lemma moves_refl: "attached c V f w C p \<Longrightarrow> moves c V f w f w C p"
  by (auto simp: moves_def attached_def fun_eq_iff)

lemma moves_trans: "moves c V f w f' w' C p \<Longrightarrow> moves c V f' w' f'' w'' D q \<Longrightarrow> moves c V f w f'' w'' D q"
  unfolding moves_def by (metis fun_upd_upd world.surjective world.update_convs(5))

lemma moves_attached: "moves c V f w f' w' C p \<Longrightarrow> attached c V f' w' C p"
  by (simp add: moves_def)

lemma moves_flags: "moves c V f w f' w' C p \<Longrightarrow> b AND SOFF = 0 \<Longrightarrow> moves c V f w (f'\<lparr>f_flags := f_flags f' OR b\<rparr>) w' C p"
proof -
  assume m: "moves c V f w f' w' C p" and b: "b AND SOFF = 0"
  have "(f_flags f' OR b) AND SOFF = f_flags f' AND SOFF" using b by (simp add: bit.conj_disj_distrib2)
  moreover have "attached c V f' w' C p" "f_type f' = f_type f" "f_file f' = f_file f" "w' = w\<lparr>kern := kern w'\<rparr>"
      "V (kern w') = (V (kern w))(DM_GET_FD (f_file f) := Some (C, p))" using m unfolding moves_def by blast+
  ultimately show ?thesis unfolding moves_def attached_def by simp
qed

lemmas file_layers = platform_fs_device_def platformfs_read_r_def platformfs_write_r_def platformfs_lseek_r_def in_kern_def

lemma SOFF_clear: "(x AND NOT SOFF) AND SOFF = 0"
  by (simp add: and.assoc)

lemma SOFF_set: "(x OR SOFF) AND SOFF \<noteq> 0"
proof -
  have "bit ((x OR SOFF) AND SOFF) 12" by (simp add: SOFF_def bit_simps)
  then show ?thesis by (metis bit_0_eq bot_apply bot_bool_def)
qed

lemma sread_moves:
  assumes V: "kernel_files (lc_fs c) V" and a: "attached c V f w C p" and n: "n \<le> length buf"
  shows "\<exists>f' w'. sread c buf n f w = Some (((int (min n (length C - p)), take n (drop p C) @ drop (min n (length C - p)) buf), f'), w') \<and>
    moves c V f w f' w' C (p + min n (length C - p))"
proof -
  obtain k' where k: "read_file (lc_fs c) (DM_GET_FD (f_file f)) n (kern w) = ((int (min n (length C - p)), take n (drop p C)), k')"
      "V k' = (V (kern w))(DM_GET_FD (f_file f) := Some (C, p + min n (length C - p)))"
    using V a unfolding kernel_files_def attached_def by blast
  have "length (take n (drop p C)) = min n (length C - p)" by simp
  then have "sread c buf n f w = Some (((int (min n (length C - p)), take n (drop p C) @ drop (min n (length C - p)) buf),
      f\<lparr>f_offset := f_offset f + int (min n (length C - p))\<rparr>), w\<lparr>kern := k'\<rparr>)"
    using k(1) a n by (simp add: sread_def read_r_def attached_def file_layers)
  moreover have "moves c V f w (f\<lparr>f_offset := f_offset f + int (min n (length C - p))\<rparr>) (w\<lparr>kern := k'\<rparr>) C (p + min n (length C - p))"
    using a k(2) by (auto simp: moves_def attached_def)
  ultimately show ?thesis by blast
qed

lemma sseek_moves:
  assumes V: "kernel_files (lc_fs c) V" and a: "attached c V f w C p" and t: "whence \<in> {SEEK_SET, SEEK_CUR, SEEK_END}"
    "seek_target whence off p (length C) = int t" "t \<le> length C"
  shows "\<exists>f' w'. sseek c off whence f w = Some ((int t, f'), w') \<and> moves c V f w f' w' C t"
proof -
  obtain k' where k: "seek_file (lc_fs c) (DM_GET_FD (f_file f)) off whence (kern w) = (int t, k')"
      "V k' = (V (kern w))(DM_GET_FD (f_file f) := Some (C, t))"
    using V a t unfolding kernel_files_def attached_def by blast
  then show ?thesis using a t(3)
    by (auto simp: sseek_def lseek_r_def attached_def moves_def file_layers)
qed

lemma ftell_moves:
  assumes "kernel_files (lc_fs c) V" and "attached c V f w C p"
  shows "\<exists>f' w'. ftell_fs c f w = Some ((int p, f'), w') \<and> moves c V f w f' w' C p"
proof (cases "f_flags f AND SOFF = 0")
  case True
  then show ?thesis using sseek_moves [OF assms, of SEEK_CUR 0 p] assms(2)
    by (auto simp: ftell_fs_def attached_def seek_target_def SEEK_SET_def SEEK_CUR_def)
next
  case False
  then show ?thesis using assms(2) moves_refl [OF assms(2)] by (auto simp: ftell_fs_def attached_def)
qed

lemma fseek_moves:
  assumes "kernel_files (lc_fs c) V" and "attached c V f w C p" and "whence \<in> {SEEK_SET, SEEK_CUR, SEEK_END}"
    and "seek_target whence off p (length C) = int t" and "t \<le> length C"
  shows "\<exists>f' w'. fseek_fs c off whence f w = Some ((0, f'), w') \<and> moves c V f w f' w' C t"
  using sseek_moves [OF assms] assms(2) by (auto simp: fseek_fs_def attached_def)


section \<open>Reading\<close>

text \<open>What the program sees of a file.\<close>

definition contents :: "'k libc \<Rightarrow> libc_file \<Rightarrow> u8 list \<Rightarrow> u8 list" where
  "contents c f C = (if f_type f = ENC_FILE then plain c C else C)"

text \<open>The window of whole blocks around a request.\<close>

lemma block_window:
  fixes offset resid :: u32
  assumes "unat offset + unat resid + 511 < 2 ^ 32" and "0 < unat resid"
  shows "\<exists>i n. unat (offset AND 0xFFFFFE00) = 512 * i \<and> 512 * i \<le> unat offset \<and> unat offset < 512 * i + 512 \<and>
    unat (((offset + resid + 512 - 1) AND 0xFFFFFE00) - (offset AND 0xFFFFFE00)) = 512 * n \<and>
    unat offset + unat resid \<le> 512 * i + 512 * n"
proof -
  let ?i = "unat offset div 512" and ?j = "(unat offset + unat resid + 511) div 512"
  have low: "unat (offset AND 0xFFFFFE00) = 512 * ?i" by (rule round_down)
  have "offset + resid + 512 - 1 = of_nat (unat offset + unat resid + 511)" by simp
  then have "unat (offset + resid + 512 - 1) = unat offset + unat resid + 511"
    using assms(1) by (simp only: unat_of_nat_u32)
  then have up: "unat ((offset + resid + 512 - 1) AND 0xFFFFFE00) = 512 * ?j" by (simp only: round_down)
  have ij: "?i \<le> ?j" by (simp add: div_le_mono)
  then have "offset AND 0xFFFFFE00 \<le> (offset + resid + 512 - 1) AND 0xFFFFFE00" by (simp only: word_le_nat_alt low up mult_le_mono2)
  then have "unat (((offset + resid + 512 - 1) AND 0xFFFFFE00) - (offset AND 0xFFFFFE00)) = 512 * (?j - ?i)"
    by (simp only: unat_sub low up right_diff_distrib')
  moreover have "512 * ?i \<le> unat offset" "unat offset < 512 * ?i + 512" by simp_all
  moreover have "unat offset + unat resid \<le> 512 * ?i + 512 * (?j - ?i)"
  proof -
    have "512 * ?i + 512 * (?j - ?i) = 512 * ?j" using ij by simp
    moreover have "x \<le> 512 * ((x + 511) div 512)" for x :: nat
      using mult_div_mod_eq [of 512 "x + 511"] mod_less_divisor [of 512 "x + 511"] by linarith
    ultimately show ?thesis by metis
  qed
  ultimately show ?thesis using low by blast
qed

text \<open>How many bytes an encrypted read yields, found out at the end of the file if need be.\<close>

lemma enc_act_count:
  assumes V: "kernel_files (lc_fs c) V" and a: "attached c V f w C q" and "p \<le> length C" and "length C < 2 ^ 31"
    and "m < rc \<or> r \<le> length C - p" and "r < 2 ^ 32" and "unat (resid :: u32) = r" and "m \<le> rc"
  shows "\<exists>f' w' q'. (if int m < int rc then do {
      ((_, f), w) \<leftarrow> fseek_fs c 0 SEEK_END f w;
      ((real_size, f), w) \<leftarrow> ftell_fs c f w;
      Some ((if of_int real_size - of_nat p < resid then of_int real_size - of_nat p else resid, f), w)
    } else Some ((resid, f), w)) = Some ((of_nat (min r (length C - p)), f'), w') \<and> moves c V f w f' w' C q'"
proof -
  have resid: "resid = of_nat r" by (simp add: assms(7) [symmetric])
  show ?thesis
  proof (cases "m < rc")
    case False
    then have "min r (length C - p) = r" using assms(5) by simp
    then show ?thesis using False resid moves_refl [OF a] by auto
  next
    case True
    obtain f1 w1 where s: "fseek_fs c 0 SEEK_END f w = Some ((0, f1), w1)" "moves c V f w f1 w1 C (length C)"
      using fseek_moves [OF V a, of SEEK_END 0 "length C"] by (auto simp: seek_target_def SEEK_SET_def SEEK_CUR_def SEEK_END_def)
    obtain f2 w2 where t: "ftell_fs c f1 w1 = Some ((int (length C), f2), w2)" "moves c V f1 w1 f2 w2 C (length C)"
      using ftell_moves [OF V moves_attached [OF s(2)]] by blast
    have d: "(of_int (int (length C)) - of_nat p :: u32) = of_nat (length C - p)" using assms(3) by (simp add: of_nat_diff)
    have u: "unat (of_nat (length C - p) :: u32) = length C - p" using assms(4) by (intro unat_of_nat_u32) simp
    have "(if of_nat (length C - p) < resid then of_nat (length C - p) else resid) = of_nat (min r (length C - p))"
      using u assms(7) resid by (simp add: word_less_nat_alt min_def)
    then show ?thesis using True d moves_trans [OF s(2) t(2)] by (simp only: s(1) t(1) bind.bind_lunit prod.case of_nat_less_iff if_True d) blast
  qed
qed


lemma fread_enc_moves:
  assumes V: "kernel_files (lc_fs c) V" and a: "attached c V f w C p" and enc: "decodes_in_place c" and L: "length C < 2 ^ 31"
    and r: "unat resid = r" "0 < r" "p + r + 511 < 2 ^ 32" "r \<le> length buf"
  shows "\<exists>f' w'. fread_enc c buf (of_nat p) resid sz f w = Some (((of_nat (min r (length C - p)) div sz,
        take r (drop p (plain c C)) @ drop (min r (length C - p)) buf), f'), w') \<and> moves c V f w f' w' C (p + min r (length C - p))"
proof -
  let ?off = "of_nat p :: u32" and ?act = "min r (length C - p)"
  have p: "p \<le> length C" "unat ?off = p" using a L by (simp_all add: attached_def unat_of_nat_u32)
  obtain i n where w: "unat (?off AND 0xFFFFFE00) = 512 * i" "512 * i \<le> p" "p < 512 * i + 512"
      "unat (((?off + resid + 512 - 1) AND 0xFFFFFE00) - (?off AND 0xFFFFFE00)) = 512 * n" "p + r \<le> 512 * i + 512 * n"
    using block_window [of ?off resid] p r by auto
  define low up where "low = ?off AND 0xFFFFFE00" and "up = (?off + resid + 512 - 1) AND 0xFFFFFE00"
  have ul: "uint low = int (512 * i)" "unat low = 512 * i" and urc: "unat (up - low) = 512 * n" "uint (up - low) = int (512 * n)"
    using w(1,4) by (simp_all add: low_def up_def uint_nat [symmetric] flip: uint_nat) (simp_all add: uint_nat)
  obtain f1 w1 where s1: "fseek_fs c (uint low) SEEK_SET f w = Some ((0, f1), w1)" "moves c V f w f1 w1 C (512 * i)"
    using fseek_moves [OF V a, of SEEK_SET "uint low" "512 * i"] w(2) p(1) ul by (auto simp: seek_target_def)
  let ?m = "min (512 * n) (length C - 512 * i)"
  obtain f2 w2 where s2: "sread c (replicate (512 * n) 0) (512 * n) f1 w1 =
      Some (((int ?m, take (512 * n) (drop (512 * i) C) @ drop ?m (replicate (512 * n) 0)), f2), w2)" "moves c V f1 w1 f2 w2 C (512 * i + ?m)"
    using sread_moves [OF V moves_attached [OF s1(2)], of "512 * n" "replicate (512 * n) 0"] by auto
  have ops: "f_ops f1" using moves_attached [OF s1(2)] by (simp add: attached_def)
  show ?thesis
  proof (cases "?m = 0")
    case True
    then have pe: "p = length C" "512 * i = p" using w p r(2) by auto
    then have "fread_enc c buf ?off resid sz f w = Some (((0, buf), f2\<lparr>f_flags := f_flags f2 OR SEOF\<rparr>), w2)"
      using s1 s2 ops urc True by (simp add: fread_enc_def Let_def low_def up_def)
    moreover have "moves c V f w (f2\<lparr>f_flags := f_flags f2 OR SEOF\<rparr>) w2 C p"
      using moves_flags [OF moves_trans [OF s1(2) s2(2)], of SEOF] pe True by (simp add: SEOF_def SOFF_def)
    ultimately show ?thesis using pe by (simp add: length_plain [OF enc])
  next
    case False
    have "?m < 512 * n \<or> r \<le> length C - p" using w(2,5) p(1) by (auto simp: min_def)
    then obtain f3 w3 q3 where s3: "(if int ?m < int (512 * n) then do {
        ((_, f), w) \<leftarrow> fseek_fs c 0 SEEK_END f2 w2;
        ((real_size, f), w) \<leftarrow> ftell_fs c f w;
        Some ((if of_int real_size - ?off < resid then of_int real_size - ?off else resid, f), w)
      } else Some ((resid, f2), w2)) = Some ((of_nat ?act, f3), w3)" "moves c V f2 w2 f3 w3 C q3"
      using enc_act_count [OF V moves_attached [OF s2(2)] p(1) L, of ?m "512 * n" r resid] r by auto
    have "?off + of_nat ?act = of_nat (p + ?act)" by simp
    then have ua: "uint (?off + of_nat ?act) = int (p + ?act)"
      using r(3) by (simp only: uint_nat) (subst unat_of_nat_u32, simp_all)
    have "p + ?act \<le> length C" using p(1) by linarith
    then obtain f4 w4 where s4: "fseek_fs c (uint (?off + of_nat ?act)) SEEK_SET f3 w3 = Some ((0, f4), w4)" "moves c V f3 w3 f4 w4 C (p + ?act)"
      using fseek_moves [OF V moves_attached [OF s3(2)], of SEEK_SET "uint (?off + of_nat ?act)" "p + ?act"] p(1) ua
      by (auto simp: seek_target_def)
    have tm: "take (nat (int ?m)) (take (512 * n) (drop (512 * i) C) @ drop ?m (replicate (512 * n) 0)) = take (512 * n) (drop (512 * i) C)"
      unfolding nat_int by (cases "512 * n \<le> length C - 512 * i") simp_all
    have dec: "decode_blocks c (take (512 * n) (drop (512 * i) C)) = Some (take (512 * n) (drop (512 * i) (plain c C)))"
      using decode_blocks_plain [OF enc] plain_slice [OF enc, of i C n] w(2) p(1) by simp
    have ud: "unat (?off - low) = p - 512 * i" using w(2) p(2) ul(2) by (simp add: unat_sub word_le_nat_alt)
    have uact: "unat (of_nat ?act :: u32) = ?act" using r(3) by (intro unat_of_nat_u32) simp
    have bs: "sub_bytes (take (512 * n) (drop (512 * i) (plain c C))) (p - 512 * i) ?act = Some (take r (drop p (plain c C)))"
      using w(2,5) p(1) by (auto simp: sub_bytes_def length_plain [OF enc] min_def drop_take)
    have lb: "\<not> length buf < ?act" "length (take r (drop p (plain c C))) = ?act"
      using r(4) by (simp_all add: length_plain [OF enc] min_def)
    have "fread_enc c buf ?off resid sz f w =
        Some (((of_nat ?act div sz, take r (drop p (plain c C)) @ drop ?act buf), f4), w4)"
      using False ops
      unfolding fread_enc_def Let_def low_def [symmetric] up_def [symmetric]
      by (simp only: s1(1) s2(1) s3(1) s4(1) tm dec ud uact bs lb urc bind.bind_lunit prod.case if_True if_False simp_thms of_nat_le_0_iff)
    then show ?thesis using moves_trans [OF moves_trans [OF moves_trans [OF s1(2) s2(2)] s3(2)] s4(2)] by blast
  qed
qed

text \<open>A read of any file yields the next bytes of its contents.\<close>

lemma fread_fs_moves:
  assumes V: "kernel_files (lc_fs c) V" and a: "attached c V f w C p" and enc: "decodes_in_place c" and L: "length C < 2 ^ 31"
    and r: "r = unat count * unat sz" "p + r + 511 < 2 ^ 32" "r \<le> length buf"
  shows "\<exists>f' w'. fread_fs c buf sz count f w = Some (((of_nat (min r (length C - p)) div sz,
        take r (drop p (contents c f C)) @ drop (min r (length C - p)) buf), f'), w') \<and> moves c V f w f' w' C (p + min r (length C - p))"
proof -
  obtain f1 w1 where t: "ftell_fs c f w = Some ((int p, f1), w1)" "moves c V f w f1 w1 C p" using ftell_moves [OF V a] by blast
  have resid: "unat (count * sz) = r" using r by (simp add: unat_mult_lem [THEN iffD1])
  have ty: "f_type f1 = f_type f" and ops: "f_ops f1" using t(2) by (simp_all add: moves_def attached_def)
  show ?thesis
  proof (cases "r = 0")
    case True
    then have "count * sz = 0" using resid by (simp add: unat_eq_0)
    then show ?thesis using t True by (auto simp: fread_fs_def)
  next
    case pos: False
    then have nz: "count * sz \<noteq> 0" using resid by auto
    show ?thesis
    proof (cases "f_type f = ENC_FILE")
      case True
      then show ?thesis using fread_enc_moves [OF V moves_attached [OF t(2)] enc L resid, of buf sz] pos r t nz ty moves_trans [OF t(2)]
        by (auto simp: fread_fs_def contents_def)
    next
      case False
      obtain f2 w2 where s: "sread c buf r f1 w1 = Some (((int (min r (length C - p)), take r (drop p C) @ drop (min r (length C - p)) buf), f2), w2)"
          "moves c V f1 w1 f2 w2 C (p + min r (length C - p))"
        using sread_moves [OF V moves_attached [OF t(2)] r(3)] by blast
      have m: "moves c V f w f2 w2 C (p + min r (length C - p))" by (rule moves_trans [OF t(2) s(2)])
      show ?thesis
      proof (cases "min r (length C - p) = 0")
        case True
        then have "moves c V f w (f2\<lparr>f_flags := f_flags f2 OR SEOF\<rparr>) w2 C p" using moves_flags [OF m, of SEOF] by (simp add: SEOF_def SOFF_def)
        moreover have "drop p C = []" using True pos by simp
        ultimately show ?thesis using t(1) s(1) nz ty ops False resid True by (simp add: fread_fs_def contents_def)
      next
        case False
        then show ?thesis using t(1) s(1) nz ty ops \<open>f_type f \<noteq> ENC_FILE\<close> resid m by (auto simp: fread_fs_def contents_def min_def split: if_splits)
      qed
    qed
  qed
qed

section \<open>A file as its contents and a position\<close>

datatype file_op = Read u32 u32 | Seek int int | Tell

datatype file_result = Bytes "u8 list" | Code int

definition do_op :: "'k libc \<Rightarrow> file_op \<Rightarrow> libc_file \<Rightarrow> 'k world \<Rightarrow> ((file_result \<times> libc_file) \<times> 'k world) option" where
  "do_op c op f w = (case op of
     Read sz count \<Rightarrow> do {
       (((n, buf), f), w) \<leftarrow> fread_fs c (replicate (unat count * unat sz) 0) sz count f w;
       Some ((Bytes (take (unat n * unat sz) buf), f), w)
     }
   | Seek off whence \<Rightarrow> do { ((r, f), w) \<leftarrow> fseek_fs c off whence f w; Some ((Code r, f), w) }
   | Tell \<Rightarrow> do { ((r, f), w) \<leftarrow> ftell_fs c f w; Some ((Code r, f), w) })"

fun do_ops :: "'k libc \<Rightarrow> file_op list \<Rightarrow> libc_file \<Rightarrow> 'k world \<Rightarrow> ((file_result list \<times> libc_file) \<times> 'k world) option" where
  "do_ops c [] f w = Some (([], f), w)"
| "do_ops c (op # ops) f w = do { ((r, f), w) \<leftarrow> do_op c op f w; ((rs, f), w) \<leftarrow> do_ops c ops f w; Some ((r # rs, f), w) }"

text \<open>The same on a text and a position: a read yields whole elements but moves behind all that is left.\<close>

fun spec_op :: "u8 list \<Rightarrow> file_op \<Rightarrow> nat \<Rightarrow> file_result \<times> nat" where
  "spec_op D (Read sz count) p =
     (let m = min (unat count * unat sz) (length D - p) in (Bytes (take (m div unat sz * unat sz) (drop p D)), p + m))"
| "spec_op D (Seek off whence) p = (Code 0, nat (seek_target whence off p (length D)))"
| "spec_op D Tell p = (Code (int p), p)"

fun spec_ops :: "u8 list \<Rightarrow> file_op list \<Rightarrow> nat \<Rightarrow> file_result list \<times> nat" where
  "spec_ops D [] p = ([], p)"
| "spec_ops D (op # ops) p = (let (r, p) = spec_op D op p; (rs, p) = spec_ops D ops p in (r # rs, p))"

fun op_ok :: "u8 list \<Rightarrow> file_op \<Rightarrow> nat \<Rightarrow> bool" where
  "op_ok D (Read sz count) p \<longleftrightarrow> p + unat count * unat sz + 511 < 2 ^ 32"
| "op_ok D (Seek off whence) p \<longleftrightarrow> whence \<in> {SEEK_SET, SEEK_CUR, SEEK_END} \<and>
     0 \<le> seek_target whence off p (length D) \<and> seek_target whence off p (length D) \<le> int (length D)"
| "op_ok D Tell p \<longleftrightarrow> True"

fun ops_ok :: "u8 list \<Rightarrow> file_op list \<Rightarrow> nat \<Rightarrow> bool" where
  "ops_ok D [] p \<longleftrightarrow> True"
| "ops_ok D (op # ops) p \<longleftrightarrow> op_ok D op p \<and> ops_ok D ops (snd (spec_op D op p))"

lemma length_contents: "decodes_in_place c \<Longrightarrow> length (contents c f C) = length C"
  by (simp add: contents_def length_plain)

lemma do_op_refines:
  assumes V: "kernel_files (lc_fs c) V" and a: "attached c V f w C p" and enc: "decodes_in_place c" and L: "length C < 2 ^ 31"
    and ok: "op_ok (contents c f C) op p"
  shows "\<exists>f' w'. do_op c op f w = Some ((fst (spec_op (contents c f C) op p), f'), w') \<and>
    moves c V f w f' w' C (snd (spec_op (contents c f C) op p))"
proof (cases op)
  case (Read sz count)
  let ?r = "unat count * unat sz" and ?D = "contents c f C"
  let ?m = "min ?r (length C - p)"
  obtain f' w' where r: "fread_fs c (replicate ?r 0) sz count f w = Some (((of_nat ?m div sz, take ?r (drop p ?D) @ drop ?m (replicate ?r 0)), f'), w')"
      "moves c V f w f' w' C (p + ?m)"
    using fread_fs_moves [OF V a enc L refl, of count sz "replicate ?r 0"] ok Read by auto
  have "unat (of_nat ?m :: u32) = ?m" using L by (intro unat_of_nat_u32) simp
  then have n: "unat (of_nat ?m div sz) = ?m div unat sz" by (simp only: unat_div)
  have lm: "?m div unat sz * unat sz \<le> ?m" by (rule div_times_less_eq_dividend)
  then have "?m div unat sz * unat sz \<le> ?r" by linarith
  moreover have "length (take ?r (drop p ?D)) = ?m" by (simp add: length_contents [OF enc])
  ultimately have "take (?m div unat sz * unat sz) (take ?r (drop p ?D) @ drop ?m (replicate ?r 0)) = take (?m div unat sz * unat sz) (drop p ?D)"
    using lm by (simp only: take_append take_take min.absorb1 diff_is_0_eq' take_0 append_Nil2)
  then show ?thesis using r Read by (simp add: do_op_def n length_contents [OF enc] Let_def)
next
  case (Seek off whence)
  then obtain t where t: "seek_target whence off p (length C) = int t" "t \<le> length C"
    using ok by (metis length_contents [OF enc] nonneg_int_cases of_nat_le_iff op_ok.simps(2))
  then show ?thesis using fseek_moves [OF V a _ t] ok Seek by (auto simp: do_op_def length_contents [OF enc])
next
  case Tell
  then show ?thesis using ftell_moves [OF V a] by (auto simp: do_op_def)
qed

lemma contents_moves: "moves c V f w f' w' C p \<Longrightarrow> contents c f' C = contents c f C"
  by (simp add: moves_def contents_def)

lemma do_ops_refine:
  assumes V: "kernel_files (lc_fs c) V" and enc: "decodes_in_place c" and L: "length C < 2 ^ 31"
  shows "attached c V f w C p \<Longrightarrow> ops_ok (contents c f C) ops p \<Longrightarrow>
    \<exists>f' w'. do_ops c ops f w = Some ((fst (spec_ops (contents c f C) ops p), f'), w') \<and>
      moves c V f w f' w' C (snd (spec_ops (contents c f C) ops p))"
proof (induction ops arbitrary: f w p)
  case Nil
  then show ?case using moves_refl by auto
next
  case (Cons op ops)
  let ?D = "contents c f C"
  obtain r p1 where s: "spec_op ?D op p = (r, p1)" by fastforce
  obtain f1 w1 where o1: "do_op c op f w = Some ((r, f1), w1)" "moves c V f w f1 w1 C p1"
    using do_op_refines [OF V Cons.prems(1) enc L, of op] Cons.prems(2) s by auto
  obtain f2 w2 where o2: "do_ops c ops f1 w1 = Some ((fst (spec_ops ?D ops p1), f2), w2)" "moves c V f1 w1 f2 w2 C (snd (spec_ops ?D ops p1))"
    using Cons.IH [OF moves_attached [OF o1(2)]] Cons.prems(2) s contents_moves [OF o1(2)] by auto
  show ?case using o1(1) o2(1) s moves_trans [OF o1(2) o2(2)] by (simp add: split_beta)
qed

text \<open>
  C9. Whatever is read, sought and asked of an open file, in any order and any pieces, gives what its contents and its position
  give; the contents of an encrypted file are its blocks, decoded. The kernel's file ends at the same position, and no other
  file is touched.
\<close>

theorem file_refines_contents:
  assumes "kernel_files (lc_fs c) V" and "decodes_in_place c" and "attached c V f w C p" and "length C < 2 ^ 31"
    and "ops_ok (contents c f C) ops p"
  shows "\<exists>f' w'. do_ops c ops f w = Some ((fst (spec_ops (contents c f C) ops p), f'), w') \<and>
    V (kern w') = (V (kern w))(DM_GET_FD (f_file f) := Some (C, snd (spec_ops (contents c f C) ops p)))"
  using do_ops_refine [OF assms(1,2,4,3,5)] by (auto simp: moves_def)

text \<open>A kernel with one file, the encryption that flips bits, and a file of four bytes.\<close>

definition one_file :: "(u8 list \<times> nat) file_service" where
  "one_file = \<lparr>open_file = (\<lambda>_ _ _ k. (5, k)), close_file = (\<lambda>_ k. (0, k)),
     write_file = (\<lambda>_ bs (C, p). (int (length bs), take p C @ bs @ drop (p + length bs) C, p + length bs)),
     read_file = (\<lambda>_ n (C, p). ((int (min n (length C - p)), take n (drop p C)), C, p + min n (length C - p))),
     seek_file = (\<lambda>_ off whence (C, p). let t = seek_target whence off p (length C) in if 0 \<le> t then (t, C, nat t) else (-1, C, p)),
     delete_file = (\<lambda>_ k. (0, k)), rename_file = (\<lambda>_ _ k. (0, k))\<rparr>"

definition one_file_view :: "u8 list \<times> nat \<Rightarrow> int \<Rightarrow> (u8 list \<times> nat) option" where
  "one_file_view k fd = (if fd = 5 then Some k else None)"

definition one_libc :: "(u8 list \<times> nat) libc" where
  "one_libc = \<lparr>lc_err = newlib_errnos,
     lc_dm = \<lparr>dm_list = [Some (std_device newlib_errnos True), Some (platform_fs_device one_file)] @ replicate 14 None, dm_num_devs = 2\<rparr>,
     lc_fs = one_file, lc_decode = map NOT, lc_rom = [], lc_tables = \<lparr>pUpdateFileTable = [], pFlashFileTable = [], calls = []\<rparr>\<rparr>"

definition enc_example :: libc_file where
  "enc_example = \<lparr>f_flags = SRD, f_file = DM_MAKE_DESC 1 5, f_cookie = None, f_ops = True, f_offset = 0, f_type = ENC_FILE\<rparr>"

definition example_world :: "'k \<Rightarrow> 'k world" where
  "example_world k = \<lparr>con_in = [], con_out = [], std_prev_char = -1, errno = 0, kern = k\<rparr>"

lemma one_file_kernel: "kernel_files one_file one_file_view"
  by (auto simp: kernel_files_def one_file_def one_file_view_def fun_eq_iff split: if_splits)

lemma one_libc_attached:
  "f_file f = DM_MAKE_DESC 1 5 \<Longrightarrow> f_ops f \<Longrightarrow> f_flags f AND SOFF = 0 \<Longrightarrow> p \<le> length C \<Longrightarrow>
    attached one_libc one_file_view f (example_world (C, p)) C p"
  by (simp add: attached_def one_libc_def descriptor_roundtrip [of 1 5, simplified] dm_get_device_at_def ld_def example_world_def one_file_view_def)

theorem file_refines_contents_witness:
  "\<exists>f' w'. do_ops one_libc [Read 1 2, Seek 0 SEEK_SET, Tell] enc_example (example_world ([1, 2, 3, 4], 0)) =
      Some (([Bytes [0xFE, 0xFD], Code 0, Code 0], f'), w') \<and> kern w' = ([1, 2, 3, 4], 0)"
proof -
  have d: "decodes_in_place one_libc" by (simp add: decodes_in_place_def one_libc_def)
  have p: "contents one_libc enc_example [1, 2, 3, 4] = [0xFE, 0xFD, 0xFC, 0xFB]"
    by (simp add: contents_def enc_example_def plain.simps one_libc_def)
  have a: "attached one_libc one_file_view enc_example (example_world ([1, 2, 3, 4], 0)) [1, 2, 3, 4] 0"
    by (rule one_libc_attached) (simp_all add: enc_example_def SRD_def SOFF_def)
  have k: "kernel_files (lc_fs one_libc) one_file_view" using one_file_kernel by (simp add: one_libc_def)
  have ok: "ops_ok [0xFE, 0xFD, 0xFC, 0xFB] [Read 1 2, Seek 0 SEEK_SET, Tell] 0" by (simp add: seek_target_def)
  have spec: "spec_ops [0xFE, 0xFD, 0xFC, 0xFB] [Read 1 2, Seek 0 SEEK_SET, Tell] 0 = ([Bytes [0xFE, 0xFD], Code 0, Code 0], 0)"
    by (simp add: seek_target_def)
  obtain f' w' where "do_ops one_libc [Read 1 2, Seek 0 SEEK_SET, Tell] enc_example (example_world ([1, 2, 3, 4], 0)) =
      Some (([Bytes [0xFE, 0xFD], Code 0, Code 0], f'), w')"
      and v: "one_file_view (kern w') = (one_file_view (kern (example_world ([1, 2, 3, 4], 0))))(DM_GET_FD (f_file enc_example) := Some ([1, 2, 3, 4], 0))"
    using file_refines_contents [OF k d a, of "[Read 1 2, Seek 0 SEEK_SET, Tell]"] ok unfolding p spec by auto
  moreover have "one_file_view (kern w') 5 = Some ([1, 2, 3, 4], 0)"
    unfolding v by (simp add: enc_example_def descriptor_roundtrip [of 1 5, simplified])
  then have "kern w' = ([1, 2, 3, 4], 0)" by (simp add: one_file_view_def)
  ultimately show ?thesis by blast
qed

section \<open>Lines\<close>

text \<open>
  What \<^verbatim>\<open>fgets\<close> takes from a text with room for \<open>m\<close> characters, and how far it moves. When there is no room left the character
  already read is gone; the byte 255 counts as the end of the file.
\<close>

fun line_of :: "nat \<Rightarrow> u8 list \<Rightarrow> u8 list \<times> nat" where
  "line_of m [] = ([], 0)"
| "line_of m (x # xs) = (if x = 0xFF then ([], 1) else case m of 0 \<Rightarrow> ([], 1)
     | Suc m \<Rightarrow> if x = 10 then ([10], 1) else (let (l, k) = line_of m xs in (x # l, Suc k)))"

definition char_of_text :: "u8 list \<Rightarrow> int" where
  "char_of_text xs = (case xs of [] \<Rightarrow> EOF | x # _ \<Rightarrow> sint x)"

lemma sint_EOF: "sint (x :: u8) = EOF \<longleftrightarrow> x = 0xFF"
proof
  assume "sint x = EOF"
  moreover have "x = of_int (sint x)" by simp
  ultimately have "x = of_int (-1)" by (simp only: EOF_def)
  then show "x = 0xFF" by simp
qed (simp add: EOF_def)

lemma getc_moves:
  assumes V: "kernel_files (lc_fs c) V" and enc: "decodes_in_place c" and L: "length C < 2 ^ 31"
    and i: "i < length pool" and a: "attached c V (pool ! i) w C p"
  shows "\<exists>f' w'. lualibc_getc c (Slot i) pool w = Some (char_of_text (drop p (contents c (pool ! i) C)), Slot i, pool[i := f'], w') \<and>
    moves c V (pool ! i) w f' w' C (min (p + 1) (length C))"
proof -
  let ?D = "contents c (pool ! i) C"
  obtain f' w' where r: "fread_fs c [0] 1 1 (pool ! i) w = Some (((of_nat (min 1 (length C - p)) div 1,
        take 1 (drop p ?D) @ drop (min 1 (length C - p)) [0]), f'), w')" "moves c V (pool ! i) w f' w' C (p + min 1 (length C - p))"
    using fread_fs_moves [OF V a enc L, of 1 1 1 "[0]"] L a by (auto simp: attached_def)
  have m: "p + min 1 (length C - p) = min (p + 1) (length C)" using a by (auto simp: attached_def min_def)
  show ?thesis
  proof (cases "p < length C")
    case True
    then have "drop p ?D = ?D ! p # drop (Suc p) ?D" by (simp add: Cons_nth_drop_Suc length_contents [OF enc])
    moreover have "min 1 (length C - p) = 1" using True by simp
    ultimately show ?thesis using r i unfolding m [symmetric]
      by (auto simp: lualibc_getc_def lualibc_fread_def in_slot_def ld_def char_of_text_def)
  next
    case False
    then show ?thesis using r i unfolding m
      by (auto simp: lualibc_getc_def lualibc_fread_def in_slot_def ld_def char_of_text_def length_contents [OF enc])
  qed
qed


text \<open>Where the loop ends: \<open>l\<close> was stored from \<open>idx\<close> on, and the text is at position \<open>q\<close>.\<close>

definition fgets_end ::
  "'k libc \<Rightarrow> ('k \<Rightarrow> int \<Rightarrow> (u8 list \<times> nat) option) \<Rightarrow> nat \<Rightarrow> u8 list \<Rightarrow> nat \<Rightarrow> nat \<Rightarrow> libc_file list \<Rightarrow> 'k world \<Rightarrow> u8 list \<Rightarrow> u8 list \<Rightarrow> nat \<Rightarrow>
    (u8 list \<times> file_ptr \<times> libc_file list \<times> 'k world) option \<Rightarrow> bool" where
  "fgets_end c V n buf idx i pool w C l q r \<longleftrightarrow> (\<exists>buf' f' w'. r = Some (buf', Slot i, pool[i := f'], w') \<and> moves c V (pool ! i) w f' w' C q \<and>
     length buf' = length buf \<and> take (idx + length l) buf' = take idx buf @ l \<and> idx + length l \<le> n - 1 \<and>
     (idx + length l < n - 1 \<longrightarrow> buf' ! (idx + length l) = 0))"

lemma fgets_loop_stop:
  assumes "attached c V (pool ! i) w C q" and "i < length pool" and "idx < length buf" and "idx \<le> n - 1"
    and "ch = EOF \<or> n - 1 \<le> idx"
  shows "fgets_end c V n buf idx i pool w C [] q (fgets_loop c n ch buf idx (Slot i) pool w)"
proof -
  have m: "moves c V (pool ! i) w (pool ! i) w C q" by (rule moves_refl [OF assms(1)])
  have "fgets_loop c n ch buf idx (Slot i) pool w = Some (if ch = EOF then buf[idx := 0] else buf, Slot i, pool[i := pool ! i], w)"
    using assms(3,5) by (auto simp: fgets_loop.simps [of c n ch buf idx] st_in)
  then show ?thesis using m assms(3-5) unfolding fgets_end_def
    by (intro exI [of _ "if ch = EOF then buf[idx := 0] else buf"] exI [of _ "pool ! i"] exI [of _ w]) auto
qed

lemma fgets_loop_line:
  assumes V: "kernel_files (lc_fs c) V" and enc: "decodes_in_place c" and L: "length C < 2 ^ 31"
  shows "i < length pool \<Longrightarrow> contents c (pool ! i) C = D \<Longrightarrow> attached c V (pool ! i) w C (min (p + 1) (length C)) \<Longrightarrow> p \<le> length C \<Longrightarrow>
    idx \<le> n - 1 \<Longrightarrow> 2 \<le> n \<Longrightarrow> n \<le> length buf \<Longrightarrow> m = n - 1 - idx \<Longrightarrow> line_of m (drop p D) = (l, k) \<Longrightarrow>
    fgets_end c V n buf idx i pool w C l (p + k) (fgets_loop c n (char_of_text (drop p D)) buf idx (Slot i) pool w)"
proof (induction m arbitrary: idx p w pool buf l k)
  case 0
  have lD: "length D = length C" using 0(2) length_contents [OF enc] by metis
  have "drop p D \<noteq> [] \<Longrightarrow> min (p + 1) (length C) = p + 1" using lD by simp
  then have "l = [] \<and> p + k = min (p + 1) (length C)" using 0(4,9) lD by (cases "drop p D") (auto split: if_splits)
  moreover have "idx < length buf" "n - 1 \<le> idx" using 0(5-8) by auto
  ultimately show ?case using fgets_loop_stop [OF 0(3,1) _ 0(5) disjI2] by metis
next
  case (Suc m)
  have lD: "length D = length C" using Suc.prems(2) length_contents [OF enc] by metis
  show ?case
  proof (cases "char_of_text (drop p D) = EOF")
    case True
    moreover have "drop p D \<noteq> [] \<Longrightarrow> min (p + 1) (length C) = p + 1" using lD by simp
    ultimately have "l = [] \<and> p + k = min (p + 1) (length C)" using Suc.prems(4,9) lD
      by (cases "drop p D") (auto simp: char_of_text_def sint_EOF)
    then show ?thesis using fgets_loop_stop [OF Suc.prems(3,1), of idx buf n] Suc.prems True by simp
  next
    case nE: False
    then obtain x where d: "drop p D = x # drop (Suc p) D" "p < length D"
      by (metis Cons_nth_drop_Suc char_of_text_def drop_eq_Nil leI list.case(1))
    have x: "x \<noteq> 0xFF" "char_of_text (drop p D) = sint x" using nE d by (auto simp: char_of_text_def sint_EOF)
    have at: "attached c V (pool ! i) w C (p + 1)" using Suc.prems(3) d lD by (simp add: min_def split: if_splits)
    have ix: "idx < n - 1" "idx < length buf" "Suc idx < length buf" using Suc.prems by auto
    have sx: "of_int (sint x) = x" by simp
    show ?thesis
    proof (cases "x = 10")
      case True
      then have "l = [10]" "k = 1" using Suc.prems(9) d x by auto
      moreover have "fgets_loop c n (char_of_text (drop p D)) buf idx (Slot i) pool w = Some (buf[idx := 10, Suc idx := 0], Slot i, pool[i := pool ! i], w)"
        using True ix x(2) nE unfolding fgets_loop.simps [of c n "char_of_text (drop p D)" buf idx] by (simp add: st_in)
      moreover have "take (Suc idx) (buf[idx := 10, Suc idx := 0]) = take idx buf @ [10]" using ix by (simp add: take_Suc_conv_app_nth)
      ultimately show ?thesis using moves_refl [OF at] ix unfolding fgets_end_def
        by (intro exI [of _ "buf[idx := 10, Suc idx := 0]"] exI [of _ "pool ! i"] exI [of _ w]) auto
    next
      case False
      obtain l' k' where lk: "line_of m (drop (Suc p) D) = (l', k')" by fastforce
      then have lk': "l = x # l'" "k = Suc k'" using Suc.prems(9) d False x by auto
      obtain f1 w1 where g: "lualibc_getc c (Slot i) pool w = Some (char_of_text (drop (p + 1) D), Slot i, pool[i := f1], w1)"
          "moves c V (pool ! i) w f1 w1 C (min (p + 1 + 1) (length C))"
        using getc_moves [OF V enc L Suc.prems(1) at] Suc.prems(2) by auto
      have "fgets_end c V n (buf[idx := x]) (idx + 1) i (pool[i := f1]) w1 C l' (p + 1 + k')
          (fgets_loop c n (char_of_text (drop (p + 1) D)) (buf[idx := x]) (idx + 1) (Slot i) (pool[i := f1]) w1)"
        using Suc.prems lk ix g(2) contents_moves [OF g(2)] moves_attached [OF g(2)] d lD
        by (intro Suc.IH) auto
      moreover have "fgets_loop c n (char_of_text (drop p D)) buf idx (Slot i) pool w =
          fgets_loop c n (char_of_text (drop (p + 1) D)) (buf[idx := x]) (idx + 1) (Slot i) (pool[i := f1]) w1"
      proof -
        have "sint x \<noteq> 10" using False by (metis of_int_numeral sx)
        then show ?thesis using ix x(2) nE g(1) unfolding fgets_loop.simps [of c n "char_of_text (drop p D)" buf idx]
          by (simp add: st_in)
      qed
      moreover have "take (Suc idx) (buf[idx := x]) = take idx buf @ [x]" using ix by (simp add: take_Suc_conv_app_nth)
      ultimately show ?thesis using Suc.prems(1) moves_trans [OF g(2)] unfolding lk' fgets_end_def by fastforce
    qed
  qed
qed


text \<open>The same for the whole call.\<close>

lemma fgets_line_of:
  assumes "kernel_files (lc_fs c) V" and "decodes_in_place c" and "length C < 2 ^ 31" and "i < length pool"
    and "attached c V (pool ! i) w C p" and "2 \<le> n" and "n \<le> length buf"
    and "line_of (n - 1) (drop p (contents c (pool ! i) C)) = (l, k)"
  shows "\<exists>r buf' f' w'. lualibc_fgets c buf (int n) (Slot i) pool w = Some (r, buf', Slot i, pool[i := f'], w') \<and>
    attached c V f' w' C (p + k) \<and> length buf' = length buf \<and>
    (if l = [] then r = None \<and> buf' = buf else r = Some buf' \<and> take (length l + 1) buf' = l @ [0] \<and> length l < n)"
proof -
  let ?D = "contents c (pool ! i) C"
  have p: "p \<le> length C" "length ?D = length C" using assms(5) length_contents [OF assms(2)] by (auto simp: attached_def)
  obtain f1 w1 where g: "lualibc_getc c (Slot i) pool w = Some (char_of_text (drop p ?D), Slot i, pool[i := f1], w1)"
      "moves c V (pool ! i) w f1 w1 C (min (p + 1) (length C))"
    using getc_moves [OF assms(1-5)] by blast
  have nl: "drop p ?D \<noteq> [] \<Longrightarrow> min (p + 1) (length C) = p + 1" using p by simp
  have ln: "l = [] \<longleftrightarrow> char_of_text (drop p ?D) = EOF" and k: "l = [] \<Longrightarrow> p + k = min (p + 1) (length C)"
    using assms(6,8) nl p by (cases "drop p ?D"; auto simp: char_of_text_def sint_EOF Let_def split: nat.splits if_splits prod.splits)+
  show ?thesis
  proof (cases "l = []")
    case True
    then show ?thesis using g ln k moves_attached [OF g(2)] assms(6) by (auto simp: lualibc_fgets_def)
  next
    case False
    have c1: "contents c f1 C = ?D" by (rule contents_moves [OF g(2)])
    have "fgets_end c V n buf 0 i (pool[i := f1]) w1 C l (p + k) (fgets_loop c n (char_of_text (drop p ?D)) buf 0 (Slot i) (pool[i := f1]) w1)"
      using assms g(2) c1 p moves_attached [OF g(2)] by (intro fgets_loop_line [OF assms(1-3)]) auto
    then obtain buf' f' w' where r: "fgets_loop c n (char_of_text (drop p ?D)) buf 0 (Slot i) (pool[i := f1]) w1 = Some (buf', Slot i, pool[i := f'], w')"
        "moves c V (pool[i := f1] ! i) w1 f' w' C (p + k)" "length buf' = length buf" "take (length l) buf' = l" "length l \<le> n - 1"
        "length l < n - 1 \<longrightarrow> buf' ! length l = 0"
      unfolding fgets_end_def list_update_overwrite add_0 take_0 append_Nil by blast
    note at = moves_attached [OF r(2)]
    have "lualibc_fgets c buf (int n) (Slot i) pool w = Some (Some (buf'[n - 1 := 0]), buf'[n - 1 := 0], Slot i, pool[i := f'], w')"
      using g(1) r(1,3) ln False assms(6,7) by (simp add: lualibc_fgets_def st_in)
    moreover have "take (length l + 1) (buf'[n - 1 := 0]) = l @ [0]"
      using r(3-6) assms(6,7) by (auto simp: take_Suc_conv_app_nth nth_list_update take_update_cancel)
    ultimately show ?thesis using at r(3,5) False assms(6) by auto
  qed
qed

text \<open>The next line of a text, with its end unless the text ends first.\<close>

definition text_line :: "u8 list \<Rightarrow> u8 list" where
  "text_line xs = takeWhile (\<lambda>x. x \<noteq> 10) xs @ (if 10 \<in> set xs then [10] else [])"

lemma text_line_simps [simp]: "text_line [] = []" "text_line (x # xs) = x # (if x = 10 then [] else text_line xs)"
  by (simp_all add: text_line_def)

lemma line_of_text_line:
  "0xFF \<notin> set (take (Suc m) (text_line xs)) \<Longrightarrow> line_of m xs = (take m (text_line xs), min (Suc m) (length (text_line xs)))"
proof (induction m xs rule: line_of.induct)
  case (2 m x xs)
  show ?case
  proof (cases m)
    case (Suc k)
    then show ?thesis using 2 by (auto split: if_splits)
  qed (use 2(2) in auto)
qed simp

text \<open>
  C10. \<^verbatim>\<open>fgets\<close> on an open file, at a line without the byte 255 in the part that is read: at the end of the file it returns
  nothing and leaves the buffer. Otherwise the buffer holds the first \<open>n - 1\<close> characters of the next line, all of a
  line that fits, with its end, followed by a zero byte. The file stands behind the line if it fits; if it does not, it has moved
  by \<open>n\<close>, one character further than was returned.
\<close>

theorem fgets_reads_line:
  assumes "kernel_files (lc_fs c) V" and "decodes_in_place c" and "length C < 2 ^ 31" and "i < length pool"
    and "attached c V (pool ! i) w C p" and "2 \<le> n" and "n \<le> length buf"
    and "text_line (drop p (contents c (pool ! i) C)) = line" and "0xFF \<notin> set (take n line)"
  shows "\<exists>r buf' f' w'. lualibc_fgets c buf (int n) (Slot i) pool w = Some (r, buf', Slot i, pool[i := f'], w') \<and>
    length buf' = length buf \<and>
    (if line = [] then r = None \<and> buf' = buf
     else r = Some buf' \<and> take (min (n - 1) (length line) + 1) buf' = take (n - 1) line @ [0]) \<and>
    attached c V f' w' C (p + min n (length line))"
proof -
  have n: "Suc (n - 1) = n" using assms(6) by simp
  then have "line_of (n - 1) (drop p (contents c (pool ! i) C)) = (take (n - 1) line, min n (length line))"
    using line_of_text_line [of "n - 1"] assms(8,9) by simp
  from fgets_line_of [OF assms(1-7) this] obtain r buf' f' w' where
    r: "lualibc_fgets c buf (int n) (Slot i) pool w = Some (r, buf', Slot i, pool[i := f'], w')"
      "attached c V f' w' C (p + min n (length line))" "length buf' = length buf"
      "if take (n - 1) line = [] then r = None \<and> buf' = buf
       else r = Some buf' \<and> take (length (take (n - 1) line) + 1) buf' = take (n - 1) line @ [0] \<and> length (take (n - 1) line) < n"
    by blast
  have "take (n - 1) line = [] \<longleftrightarrow> line = []" using assms(6) by simp
  then show ?thesis using r by (intro exI [of _ r] exI [of _ buf'] exI [of _ f'] exI [of _ w']) (simp add: min.commute split: if_splits)
qed

theorem fgets_reads_line_witness:
  "\<exists>r buf' f' w'. lualibc_fgets one_libc (replicate 5 7) (int 5) (Slot 0) [enc_example\<lparr>f_type := COMMON_FILE\<rparr>] (example_world ([104, 105, 10, 120], 0)) =
      Some (r, buf', Slot 0, [f'], w') \<and> take 4 buf' = [104, 105, 10, 0] \<and> r = Some buf'"
proof -
  let ?f = "enc_example\<lparr>f_type := COMMON_FILE\<rparr>"
  have d: "decodes_in_place one_libc" by (simp add: decodes_in_place_def one_libc_def)
  have a: "attached one_libc one_file_view ([?f] ! 0) (example_world ([104, 105, 10, 120], 0)) [104, 105, 10, 120] 0"
    unfolding nth_Cons_0 by (rule one_libc_attached) (simp_all add: enc_example_def SRD_def SOFF_def)
  have k: "kernel_files (lc_fs one_libc) one_file_view" using one_file_kernel by (simp add: one_libc_def)
  have l: "text_line (drop 0 (contents one_libc ([?f] ! 0) [104, 105, 10, 120])) = [104, 105, 10]"
    by (simp add: contents_def enc_example_def stdio_constants)
  obtain r buf' f' w' where "lualibc_fgets one_libc (replicate 5 7) (int 5) (Slot 0) [?f] (example_world ([104, 105, 10, 120], 0)) =
        Some (r, buf', Slot 0, [?f][0 := f'], w')"
      "if [104, 105, 10 :: u8] = [] then r = None \<and> buf' = replicate 5 7
       else r = Some buf' \<and> take (min (5 - 1) (length [104, 105, 10 :: u8]) + 1) buf' = take (5 - 1) [104, 105, 10] @ [0]"
    using fgets_reads_line [OF k d _ _ a _ _ l, where buf = "replicate 5 7" and n = 5] by auto
  moreover from this(2) have "r = Some buf'" "take 4 buf' = [104, 105, 10, 0]" by (auto simp: eval_nat_numeral)
  ultimately show ?thesis by (intro exI [of _ r] exI [of _ buf'] exI [of _ f'] exI [of _ w']) simp
qed

text \<open>A line longer than the buffer loses a character at each call: the one that is read when there is no room left.\<close>

lemma fgets_loses_character:
  "m < length xs \<Longrightarrow> 10 \<notin> set (take (m + 1) xs) \<Longrightarrow> 0xFF \<notin> set (take (m + 1) xs) \<Longrightarrow> line_of m xs = (take m xs, m + 1)"
proof (induction m arbitrary: xs)
  case 0
  then show ?case by (cases xs) auto
next
  case (Suc m)
  then show ?case by (cases xs) auto
qed

text \<open>A byte 255 ends a line, and a file of text that holds one is cut there.\<close>

lemma fgets_stops_at_255: "line_of m (0xFF # xs) = ([], 1)"
  by simp

section \<open>Writing\<close>

lemma swrite_moves:
  assumes V: "kernel_files (lc_fs c) V" and a: "attached c V f w C p" and "f_flags f AND of_int O_APPEND = 0"
  shows "\<exists>f' w'. swrite c bs f w = Some ((int (length bs), f'), w') \<and> moves c V f w f' w' (take p C @ bs @ drop (p + length bs) C) (p + length bs)"
proof -
  obtain k' where k: "write_file (lc_fs c) (DM_GET_FD (f_file f)) bs (kern w) = (int (length bs), k')"
      "V k' = (V (kern w))(DM_GET_FD (f_file f) := Some (take p C @ bs @ drop (p + length bs) C, p + length bs))"
    using V a unfolding kernel_files_def attached_def by blast
  have "swrite c bs f w = Some ((int (length bs), f\<lparr>f_flags := f_flags f AND NOT SOFF\<rparr>), w\<lparr>kern := k'\<rparr>)"
    using k(1) a assms(3) by (simp add: swrite_def write_r_def attached_def file_layers)
  moreover have "moves c V f w (f\<lparr>f_flags := f_flags f AND NOT SOFF\<rparr>) (w\<lparr>kern := k'\<rparr>) (take p C @ bs @ drop (p + length bs) C) (p + length bs)"
    using a k(2) SOFF_clear [of "f_flags f"] by (auto simp: moves_def attached_def)
  ultimately show ?thesis by blast
qed

lemma fwrite_moves:
  assumes V: "kernel_files (lc_fs c) V" and a: "attached c V f w C p" and "f_flags f AND of_int O_APPEND = 0"
    and "f_flags f AND (SWR OR SRW) \<noteq> 0" and "n = unat count" and "n \<le> length buf" and "0 < n"
  shows "\<exists>f' w'. lualibc_fwrite c buf 1 count f w = Some ((count, f'), w') \<and> moves c V f w f' w' (take p C @ take n buf @ drop (p + n) C) (p + n)"
proof -
  have bs: "sub_bytes buf 0 (unat (1 * count)) = Some (take n buf)" "length (take n buf) = n" using assms(5,6) by (simp_all add: sub_bytes_def)
  have "of_int (int n) = count" "f_ops f" using assms(2,5) by (simp_all add: attached_def)
  moreover have "\<not> int n \<le> 0" using assms(7) by simp
  ultimately show ?thesis using swrite_moves [OF assms(1-3), of "take n buf"] assms(4) bs by (auto simp: lualibc_fwrite_def)
qed

section \<open>Files in the image\<close>

lemma of_nat_unat_u32: "of_nat (unat x) = (x :: u32)"
  by simp

lemma unat_eq_of_nat_u32: "unat x = n \<Longrightarrow> of_nat n = (x :: u32)"
  by auto

lemma fread_flash:
  assumes "f_cookie f = Some item" and "f_flags f = 1" and "f_type f = LUA_UNCOMPRESS_FILE" and "f_offset f = int p"
    and "sub_bytes (lc_rom c) (unat (ti_offset item)) (unat (ti_len item)) = Some bs" and "length bs < 2 ^ 31" and "p \<le> length bs"
    and "unat (ti_offset item) + length bs < 2 ^ 32" and "n = unat count" and "n \<le> length buf"
  shows "fread_ext c buf 1 count f pool w = Some ((of_nat (min n (length bs - p)), take n (drop p bs) @ drop (min n (length bs - p)) buf),
    f\<lparr>f_offset := int (p + min n (length bs - p))\<rparr>, pool, w)"
proof -
  let ?m = "min n (length bs - p)"
  have rom: "unat (ti_offset item) + length bs \<le> length (lc_rom c)" "bs = take (length bs) (drop (unat (ti_offset item)) (lc_rom c))"
      "unat (ti_len item) = length bs"
    using assms(5) by (auto simp: sub_bytes_def split: if_splits)
  have up: "unat (of_nat p :: u32) = p" using assms(6,7) by (intro unat_of_nat_u32) simp
  have "unat (ti_len item - of_nat p) = length bs - p" using assms(7) rom(3) up by (simp add: unat_sub word_le_nat_alt)
  then have left: "ext_left item (of_nat p) count = of_nat ?m"
    using assms(9) by (auto simp: ext_left_def word_le_nat_alt min_def unat_eq_of_nat_u32)
  have um: "unat (of_nat ?m :: u32) = ?m" using assms(6) by (intro unat_of_nat_u32) simp
  have sm: "sint (of_nat ?m :: u32) = int ?m" using assms(6) by (intro sint_of_nat) simp
  have "of_nat (unat (ti_offset item)) + (of_nat p :: u32) = of_nat (unat (ti_offset item) + p)" by simp
  then have uo: "unat (ti_offset item + of_nat p) = unat (ti_offset item) + p"
    using assms(7,8) by (simp only: of_nat_unat_u32) (subst unat_of_nat_u32, simp_all)
  have sb: "sub_bytes (lc_rom c) (unat (ti_offset item) + p) ?m = Some (take n (drop p bs))"
  proof -
    have "drop p bs = take (length bs - p) (drop (unat (ti_offset item) + p) (lc_rom c))"
      by (subst rom(2)) (simp add: drop_take add.commute)
    then have "take n (drop p bs) = take ?m (drop (unat (ti_offset item) + p) (lc_rom c))" by simp
    moreover have "unat (ti_offset item) + p + ?m \<le> length (lc_rom c)" using rom(1) assms(7) by linarith
    ultimately show ?thesis by (simp add: sub_bytes_def)
  qed
  have lt: "length (take n (drop p bs)) = ?m" "\<not> length buf < ?m" using assms(10) by simp_all
  show ?thesis
  proof (cases "?m = 0")
    case True
    then show ?thesis using assms(1,4,9) left sm by (auto simp: fread_ext_def Let_def)
  next
    case False
    then have "count * 1 \<noteq> 0" "\<not> sint (of_nat ?m :: u32) \<le> 0" using assms(9) sm by auto
    moreover have "f_type f \<noteq> LUA_UNCOMPRESS_ENC_FILE" using assms(3) by (simp add: stdio_constants)
    ultimately show ?thesis using assms(1,2,4) left sm sb lt uo um
      by (simp add: fread_ext_def Let_def section_flags_def)
  qed
qed

end
