(* ===== verification/Image_files.thy ===== *)
theory Image_files
  imports Stdio_spec
begin


text \<open>
  Files that stay in the image of preloaded files, from the image to the program that reads them: opening, seeking and reading through
  the C library (\<^verbatim>\<open>preload.c\<close>, \<^verbatim>\<open>stdio.c\<close>) after the installation at boot. The data of an entry is decoded if the name ends in
  \<^verbatim>\<open>.luae\<close>; a read in the middle of a block goes wrong.
\<close>

lemma word_min: "unat a = x \<Longrightarrow> unat b = y \<Longrightarrow> unat (if a \<le> b then a else b :: u32) = min x y"
  by (auto simp: word_le_nat_alt)

lemma ext_left_min: "p \<le> length bs \<Longrightarrow> length bs < 2 ^ 31 \<Longrightarrow> unat (ti_len item) = length bs \<Longrightarrow>
    unat (ext_left item (of_nat p) n) = min (unat n) (length bs - p) \<and> unat (ti_len item - of_nat p) = length bs - p"
proof -
  assume a: "p \<le> length bs" "length bs < 2 ^ 31" "unat (ti_len item) = length bs"
  have "unat (of_nat p :: u32) = p" using a by (intro unat_of_nat_u32) simp
  then have "unat (ti_len item - of_nat p) = length bs - p" using a by (simp add: unat_sub word_le_nat_alt)
  then show ?thesis using word_min [of n "unat n" "ti_len item - of_nat p" "length bs - p"] by (simp add: ext_left_def)
qed

lemma fseek_ext_set:
  "f_cookie f = Some item \<Longrightarrow> unat (ti_len item) < 2 ^ 31 \<Longrightarrow> q \<le> unat (ti_len item) \<Longrightarrow>
    fseek_ext (int q) SEEK_SET f = Some (0, f\<lparr>f_offset := int q\<rparr>)"
proof -
  assume a: "f_cookie f = Some item" "unat (ti_len item) < 2 ^ 31" "q \<le> unat (ti_len item)"
  have "sint (ti_len item) = int (unat (ti_len item))" using sint_of_nat [of "unat (ti_len item)"] a(2) by simp
  then have "int q \<le> sint (ti_len item)" using a(3) by (simp only: of_nat_le_iff)
  then show ?thesis by (simp add: fseek_ext_def a(1))
qed

lemma sub_bytes_part:
  assumes "sub_bytes d o' n = Some bs" and "p + m \<le> length bs"
  shows "sub_bytes d (o' + p) m = Some (take m (drop p bs))"
proof -
  have "o' + n \<le> length d" "bs = take n (drop o' d)" using assms(1) by (auto simp: sub_bytes_def split: if_splits)
  then show ?thesis using assms(2) by (auto simp: sub_bytes_def drop_take add.commute)
qed

lemma length_slice: "length xs = m \<Longrightarrow> k + a \<le> m \<Longrightarrow> length (take a (drop k xs)) = a"
  by simp

text \<open>What an encrypted file of the image gives at position \<open>p\<close>: the blocks are taken from \<open>p\<close> on instead of from the start of the block.\<close>

lemma decode_file_result:
  assumes f: "f_cookie f = Some item" "f_offset f = int p" and enc: "decodes_in_place c"
    and bs: "sub_bytes (lc_rom c) (unat (ti_offset item)) (unat (ti_len item)) = Some bs" "length bs < 2 ^ 31" "p \<le> length bs"
      "unat (ti_offset item) + length bs < 2 ^ 32"
    and r: "r = unat count * unat sz" "0 < r" "p + r + 511 < 2 ^ 32" "r \<le> length buf"
  shows "\<exists>n. p mod 512 + r \<le> 512 * n \<and> decode_file c buf sz count f =
    (if p mod 512 + min r (length bs - p) \<le> min (512 * n) (length bs - p)
     then Some ((of_nat (min r (length bs - p)) div sz,
       take (min r (length bs - p)) (drop (p mod 512) (plain c (take (512 * n) (drop p bs)))) @ drop (min r (length bs - p)) buf),
       f\<lparr>f_offset := int (p + min r (length bs - p))\<rparr>)
     else None)"
proof -
  let ?act = "min r (length bs - p)" and ?off = "of_nat p :: u32"
  have tl: "unat (ti_len item) = length bs" using bs(1) by (auto simp: sub_bytes_def split: if_splits)
  have resid: "unat (count * sz) = r" using r by (simp add: unat_mult_lem [THEN iffD1])
  have up: "unat ?off = p" using bs(2,3) by (intro unat_of_nat_u32) simp
  obtain i n where w: "unat (?off AND 0xFFFFFE00) = 512 * i" "512 * i \<le> p" "p < 512 * i + 512"
      "unat (((?off + count * sz + 512 - 1) AND 0xFFFFFE00) - (?off AND 0xFFFFFE00)) = 512 * n" "p + r \<le> 512 * i + 512 * n"
    using block_window [of ?off "count * sz"] up resid r(2,3) by auto
  define low up' where "low = ?off AND 0xFFFFFE00" and "up' = (?off + count * sz + 512 - 1) AND 0xFFFFFE00"
  have i: "p mod 512 = p - 512 * i" using w(2,3) by (metis add_diff_cancel_left' le_add_diff_inverse less_diff_conv2 mod_less mod_mult_self2 nat_less_le add.commute)
  let ?m = "min (512 * n) (length bs - p)"
  have left: "unat (ext_left item ?off (up' - low)) = ?m" "unat (ti_len item - ?off) = length bs - p"
    using ext_left_min [OF bs(3,2) tl, of "up' - low"] w(4) by (simp_all add: low_def up'_def)
  have act: "(if ext_left item ?off (up' - low) < up' - low \<and> ti_len item - ?off < count * sz then ti_len item - ?off else count * sz) = of_nat ?act"
  proof -
    have "r \<le> 512 * n" using w(2,5) by simp
    then show ?thesis using left resid w(4)
      by (auto simp: word_less_nat_alt min_def low_def up'_def intro!: unat_eq_of_nat_u32 [symmetric])
  qed
  define f1 where "f1 = f\<lparr>f_offset := int (512 * i)\<rparr>"
  have seek1: "fseek_ext (sint low) SEEK_SET f = Some (0, f1)"
  proof -
    have "low = of_nat (512 * i)" using w(1) unfolding low_def by (metis of_nat_unat_u32)
    then have "sint low = int (512 * i)" using w(2) bs(2,3) by (simp only: sint_of_nat)
    then show ?thesis using fseek_ext_set [OF f(1), of "512 * i"] w(2) tl bs(2,3) by (simp add: f1_def)
  qed
  have seek2: "fseek_ext (sint (?off + of_nat ?act)) SEEK_SET f1 = Some (0, f\<lparr>f_offset := int (p + ?act)\<rparr>)"
  proof -
    have "p + ?act < 2 ^ 31" using bs(2,3) by simp
    then have "sint (of_nat (p + ?act) :: u32) = int (p + ?act)" by (rule sint_of_nat)
    then have "sint (?off + of_nat ?act) = int (p + ?act)" by (simp only: of_nat_add)
    then show ?thesis using fseek_ext_set [of f1 item "p + ?act"] f(1) tl bs(2,3) by (simp add: f1_def)
  qed
  have rom: "sub_bytes (lc_rom c) (unat (ti_offset item + ?off)) ?m = Some (take ?m (drop p bs))"
  proof -
    have "unat (ti_offset item + ?off) = unat (ti_offset item) + p" using up bs(3,4) by (simp add: unat_add_lem [THEN iffD1])
    then show ?thesis using sub_bytes_part [OF bs(1), of p ?m] bs(3) by simp
  qed
  have inner: "unat (?off - low) = p mod 512" using w(1,2) up i by (simp add: unat_sub word_le_nat_alt low_def)
  have act': "unat (of_nat ?act :: u32) = ?act" using bs(2) by (intro unat_of_nat_u32) simp
  have m: "take ?m (drop p bs) = take (512 * n) (drop p bs)" by (simp add: min_def)
  have len: "length (plain c (take (512 * n) (drop p bs))) = ?m" by (simp add: length_plain [OF enc])
  have cut: "sub_bytes (plain c (take (512 * n) (drop p bs))) (p mod 512) ?act =
      (if p mod 512 + ?act \<le> ?m then Some (take ?act (drop (p mod 512) (plain c (take (512 * n) (drop p bs))))) else None)"
    unfolding sub_bytes_def len ..
  have off: "of_int (ftell_ext f) = ?off" by (simp add: ftell_ext_def f(2))
  have "decode_file c buf sz count f = do {
      bs \<leftarrow> sub_bytes (plain c (take (512 * n) (drop p bs))) (p mod 512) ?act;
      (if length buf < length bs then None else Some ((of_nat ?act div sz, bs @ drop (length bs) buf), f\<lparr>f_offset := int (p + ?act)\<rparr>)) }"
    unfolding decode_file_def f(1) off Let_def Option.bind.simps
    unfolding low_def [symmetric] up'_def [symmetric] seek1 Option.bind.simps prod.case left rom act seek2 inner act' m decode_blocks_plain [OF enc] ..
  moreover have "length (take ?act (drop (p mod 512) (plain c (take (512 * n) (drop p bs))))) = ?act" if "p mod 512 + ?act \<le> ?m"
    using that by (rule length_slice [OF len])
  moreover have "\<not> length buf < ?act" using r(4) by (simp add: not_less min.coboundedI1)
  ultimately have "decode_file c buf sz count f = (if p mod 512 + ?act \<le> ?m
     then Some ((of_nat ?act div sz, take ?act (drop (p mod 512) (plain c (take (512 * n) (drop p bs)))) @ drop ?act buf), f\<lparr>f_offset := int (p + ?act)\<rparr>)
     else None)"
    unfolding cut by (cases "p mod 512 + ?act \<le> ?m") (simp_all only: if_True if_False simp_thms Option.bind.simps)
  moreover have "p mod 512 + r \<le> 512 * n" using w(2,5) unfolding i by linarith
  ultimately show ?thesis by (intro exI [of _ n] conjI)
qed

lemma decode_file_aligned:
  assumes "f_cookie f = Some item" "f_offset f = int p" "decodes_in_place c"
    and "sub_bytes (lc_rom c) (unat (ti_offset item)) (unat (ti_len item)) = Some bs" "length bs < 2 ^ 31" "p \<le> length bs"
      "unat (ti_offset item) + length bs < 2 ^ 32"
    and "r = unat count * unat sz" "0 < r" "p + r + 511 < 2 ^ 32" "r \<le> length buf" and "p mod 512 = 0"
  shows "decode_file c buf sz count f = Some ((of_nat (min r (length bs - p)) div sz,
    take r (drop p (plain c bs)) @ drop (min r (length bs - p)) buf), f\<lparr>f_offset := int (p + min r (length bs - p))\<rparr>)"
proof -
  let ?m = "min r (length bs - p)"
  obtain n where n: "p mod 512 + r \<le> 512 * n" "decode_file c buf sz count f =
      (if p mod 512 + ?m \<le> min (512 * n) (length bs - p)
       then Some ((of_nat ?m div sz, take ?m (drop (p mod 512) (plain c (take (512 * n) (drop p bs)))) @ drop ?m buf), f\<lparr>f_offset := int (p + ?m)\<rparr>)
       else None)"
    using decode_file_result [OF assms(1-11)] by blast
  obtain i where i: "p = 512 * i" using assms(12) by (auto elim: dvdE dest: mod_0_imp_dvd)
  have "plain c (take (512 * n) (drop p bs)) = take (512 * n) (drop p (plain c bs))"
    using plain_slice [OF assms(3), of i bs n] assms(6) i by simp
  then have "take ?m (drop 0 (plain c (take (512 * n) (drop p bs)))) = take r (drop p (plain c bs))"
    using n(1) length_plain [OF assms(3), of bs] by (auto simp: min_def)
  moreover have "0 + ?m \<le> min (512 * n) (length bs - p)" using n(1) by simp
  ultimately show ?thesis unfolding n(2) assms(12) by (simp only: if_True)
qed

text \<open>
  A read in the middle of a block gets bytes from further on: even where decoding changes nothing, a read at \<open>p\<close> returns
  those at \<open>p + p mod 512\<close>.
\<close>

lemma unaligned_read_skips:
  assumes "f_cookie f = Some item" "f_offset f = int p" "lc_decode c = (\<lambda>bs. bs)"
    and "sub_bytes (lc_rom c) (unat (ti_offset item)) (unat (ti_len item)) = Some bs" "length bs < 2 ^ 31"
      "unat (ti_offset item) + length bs < 2 ^ 32"
    and "r = unat count * unat sz" "0 < r" "p + r + 511 < 2 ^ 32" "r \<le> length buf" and "p + p mod 512 + r \<le> length bs"
  shows "decode_file c buf sz count f =
    Some ((of_nat r div sz, take r (drop (p + p mod 512) bs) @ drop r buf), f\<lparr>f_offset := int (p + r)\<rparr>)"
proof -
  have "lc_decode c = (\<lambda>bs. bs) \<Longrightarrow> plain c bs = bs" for c :: "'a libc" and bs
    by (induction c bs rule: plain.induct) (subst plain.simps, simp)
  then have "plain c bs = bs" for bs using assms(3) by simp
  moreover have "decodes_in_place c" using assms(3) by (simp add: decodes_in_place_def)
  moreover have "p \<le> length bs" "min r (length bs - p) = r" using assms(11) by simp_all
  ultimately obtain n where n: "p mod 512 + r \<le> 512 * n" "decode_file c buf sz count f =
      (if p mod 512 + r \<le> min (512 * n) (length bs - p)
       then Some ((of_nat r div sz, take r (drop (p mod 512) (take (512 * n) (drop p bs))) @ drop r buf), f\<lparr>f_offset := int (p + r)\<rparr>)
       else None)"
    using decode_file_result [OF assms(1,2) _ assms(4,5) _ assms(6-10)] by auto
  moreover have "take r (drop (p mod 512) (take (512 * n) (drop p bs))) = take r (drop (p + p mod 512) bs)"
    using n(1) by (simp add: drop_take add.commute)
  moreover have "p mod 512 + r \<le> min (512 * n) (length bs - p)" using n(1) assms(11) by simp
  ultimately show ?thesis by (simp only: if_True)
qed

section \<open>A file of the image is what was packed\<close>

text \<open>What a program reads: the bytes that were packed, decoded if the name says so.\<close>

definition packed_contents :: "'k libc \<Rightarrow> u8 list \<Rightarrow> u8 list \<Rightarrow> u8 list" where
  "packed_contents c name bs = (if suffix (ascii ''.luae'') name then plain c bs else bs)"

lemma fread_flash_enc:
  assumes "f_cookie f = Some item" and "f_flags f = 1" and "f_type f = LUA_UNCOMPRESS_ENC_FILE" and "f_offset f = int p"
    and "sub_bytes (lc_rom c) (unat (ti_offset item)) (unat (ti_len item)) = Some bs" and "length bs < 2 ^ 31" and "p \<le> length bs"
    and "unat (ti_offset item) + length bs < 2 ^ 32" and "n = unat count" and "n \<le> length buf"
    and "decodes_in_place c" and "p mod 512 = 0" and "p + n + 511 < 2 ^ 32"
  shows "fread_ext c buf 1 count f pool w = Some ((of_nat (min n (length bs - p)), take n (drop p (plain c bs)) @ drop (min n (length bs - p)) buf),
    f\<lparr>f_offset := int (p + min n (length bs - p))\<rparr>, pool, w)"
proof -
  have tl: "unat (ti_len item) = length bs" using assms(5) by (auto simp: sub_bytes_def split: if_splits)
  have "unat (ext_left item (of_nat p) count) = min n (length bs - p)" using ext_left_min [OF assms(7,6) tl] assms(9) by simp
  then have "ext_left item (of_nat p) count = of_nat (min n (length bs - p))" by (rule unat_eq_of_nat_u32 [symmetric])
  moreover have "sint (of_nat (min n (length bs - p)) :: u32) = int (min n (length bs - p))" using assms(6) by (intro sint_of_nat) simp
  ultimately have left: "sint (ext_left item (of_nat p) count) = int (min n (length bs - p))" by simp
  show ?thesis
  proof (cases "min n (length bs - p) = 0")
    case True
    then have "sint (ext_left item (of_nat p) count) = 0 \<or> count * 1 = 0" using left by auto
    moreover have "take n (drop p (plain c bs)) = []" using True assms(7) length_plain [OF assms(11), of bs] by (auto simp: min_def split: if_splits)
    moreover have "f\<lparr>f_offset := int p\<rparr> = f" using assms(4) by (metis libc_file.surjective libc_file.update_convs(5))
    ultimately show ?thesis using True assms(1,4) by (auto simp: fread_ext_def Let_def)
  next
    case False
    then have "\<not> sint (ext_left item (of_nat p) count) \<le> 0" "count * 1 \<noteq> 0" using False assms(9) left by auto
    then have "fread_ext c buf 1 count f pool w = do { (r, f) \<leftarrow> decode_file c buf 1 count f; Some (r, f, pool, w) }"
      using assms(1-4) by (simp add: fread_ext_def Let_def section_flags_def)
    moreover have "decode_file c buf 1 count f = Some ((of_nat (min n (length bs - p)) div 1,
        take n (drop p (plain c bs)) @ drop (min n (length bs - p)) buf), f\<lparr>f_offset := int (p + min n (length bs - p))\<rparr>)"
      using False by (intro decode_file_aligned [OF assms(1,4,11,5-8)] assms(9,10,12,13)) (simp_all add: assms(9))
    ultimately show ?thesis by simp
  qed
qed

lemma sfp_from_free: "sfp_from k pool = Some i \<Longrightarrow> \<exists>j. i = k + j \<and> j < length pool \<and> f_flags (pool ! j) = 0"
proof (induction k pool rule: sfp_from.induct)
  case (2 k f fs)
  then show ?case by (cases "f_flags f = 0") force+
qed simp

lemma sfp_from_found: "\<exists>f \<in> set pool. f_flags f = 0 \<Longrightarrow> \<exists>i. sfp_from k pool = Some i"
  by (induction k pool rule: sfp_from.induct) auto

text \<open>What opening a name that only the image has gives; the slot that was reserved is free again.\<close>

lemma open_image_file:
  assumes "FindUncompressFileItem file (lc_tables c) = Some (LUA_SCRIPT_TABLE_FLASH_SECTION, item)" and "5 \<le> length file"
    and "sfp_from 0 pool = Some i" and "open_r (lc_err c) (lc_dm c) file O_RDONLY 0 w = Some (r, w')" and "r < 0"
  shows "lualibc_fopen c file (ascii ''rb'' @ [0]) pool w =
    Some (In_image \<lparr>f_flags = 1, f_file = 0, f_cookie = Some item, f_ops = False, f_offset = 0,
      f_type = (if suffix (ascii ''.luae'') file then LUA_UNCOMPRESS_ENC_FILE else LUA_UNCOMPRESS_FILE)\<rparr>, pool, w')"
proof -
  have luae: "mem_prefix (file @ [0]) (int (length file) - 5) (ascii ''.luae'') = Some (suffix (ascii ''.luae'') file)"
    using mem_prefix_suffix [of "ascii ''.luae''" "file"] assms(2) by (simp add: ascii_def)
  have "sflags (ascii ''rb'' @ [0]) = Some (SRD, O_RDONLY)" by (simp add: sflags_def ld_def ascii_def stdio_constants)
  moreover have "pool[i := (pool ! i)\<lparr>f_flags := 0\<rparr>] = pool"
    using sfp_from_free [OF assms(3)] by (auto intro!: nth_equalityI simp: nth_list_update)
  moreover have "i < length pool" using sfp_from_free [OF assms(3)] by auto
  ultimately show ?thesis using assms(1,3-5) luae
    by (simp add: lualibc_fopen_def fopen_ext_def fopen_fs_def section_flags_def sfp_def stdio_flags stdio_constants)
qed

lemma takeWhile_dir: "x \<notin> set d \<Longrightarrow> takeWhile (\<lambda>c. c \<noteq> x) (d @ x # r) = d"
  by (induction d) auto

lemma open_target_refused:
  assumes "dm_boot e ready fs = Some d" and "0 \<notin> set name" and "open_file fs (tl (target name)) flags mode (kern w) = (r, k)" and "r < 0"
  shows "open_r e d (target name) flags mode w = Some (r, w\<lparr>kern := k, errno := r\<rparr>)"
proof -
  obtain s' where s': "dm_boot e ready fs = Some s'"
      "dm_list s' = [Some (std_device e ready), Some (platform_fs_device fs)] @ replicate 14 None" "dm_num_devs s' = 2"
    using boot_table by blast
  have dev: "dm_get_device_at 1 d = Some (Some (platform_fs_device fs))"
    using assms(1) s' by (simp add: dm_get_device_at_def ld_def)
  obtain dir where dir: "target name = 0x2F # dir @ 0x2F # name" "0x2F \<notin> set dir" "0 \<notin> set dir" "dir \<noteq> []" "length dir \<le> 5" "map lower dir \<noteq> ascii ''std''"
    by (cases "suffix (ascii ''.lua'') name \<or> suffix (ascii ''.luae'') name")
      (auto simp: target_def LUA_DIR_def LUA_DATA_DIR_def ascii_def lower_def)
  have "find_dm_entry (target name) d = Some (Some (1, tl (target name)))"
    using find_entry_boot [OF assms(1), of "target name"] assms(2) dir takeWhile_dir [OF dir(2), of name]
    by (simp add: ascii_def Let_def)
  then show ?thesis
    using dev assms(3,4) by (simp add: open_r_def platform_fs_device_def platformfs_open_r_def in_kern_def)
qed

text \<open>
  C7. From the image to the program: after the image in flash was installed and the devices were registered, a script, picture or sound
  that the file system does not have is opened under its path, and a read gives the bytes that were packed, decoded if the
  name says so, and moves the position by what it read: at any position if the name is not one of an encrypted file, and at the
  start of a block of 512 bytes if it is.
\<close>

theorem preloaded_file_reads_back:
  assumes "lc_rom c = db_image fs @ rest" and "length (lc_rom c) < 2 ^ 31" and "distinct (map fst fs)" and "(name, bs) \<in> set fs"
    and "4 < length name" and "\<not> suffix (ascii ''.zip'') name" and "stays name"
    and "lc_tables c = installed LUA_SCRIPT_TABLE_FLASH_SECTION 24 fs s" and "find (\<lambda>i. ti_file i = target name) (pUpdateFileTable s) = None"
    and "decodes_in_place c" and "dm_boot (lc_err c) ready (lc_fs c) = Some (lc_dm c)" and "0 \<notin> set name"
    and "open_file (lc_fs c) (tl (target name)) O_RDONLY 0 (kern w) = (r, k)" and "r < 0"
    and "\<exists>f \<in> set pool. f_flags f = 0" and "p \<le> length bs" and "suffix (ascii ''.luae'') name \<Longrightarrow> p mod 512 = 0"
    and "n = unat count" and "n \<le> length buf" and "n < 2 ^ 30"
    and "w' = w\<lparr>kern := k, errno := r\<rparr>"
  shows "\<exists>f f'. lualibc_fopen c (target name) (ascii ''rb'' @ [0]) pool w = Some (In_image f, pool, w') \<and>
    lualibc_fseek c (int p) SEEK_SET (In_image f) pool w' = Some (0, In_image (f\<lparr>f_offset := int p\<rparr>), pool, w') \<and>
    lualibc_fread c buf 1 count (In_image (f\<lparr>f_offset := int p\<rparr>)) pool w' =
      Some ((of_nat (min n (length bs - p)), take n (drop p (packed_contents c name bs)) @ drop (min n (length bs - p)) buf), In_image f', pool, w') \<and>
    f_offset f' = int (p + min n (length bs - p))"
proof -
  obtain item where item: "FindUncompressFileItem (target name) (lc_tables c) = Some (LUA_SCRIPT_TABLE_FLASH_SECTION, item)"
      "sub_bytes (lc_rom c) (unat (ti_offset item)) (unat (ti_len item)) = Some bs"
    using installed_file_found [OF assms(1) _ assms(3-7), of LUA_SCRIPT_TABLE_FLASH_SECTION s] assms(2,8,9) by auto
  have bounds: "unat (ti_offset item) + length bs \<le> length (lc_rom c)" "unat (ti_len item) = length bs"
    using item(2) by (auto simp: sub_bytes_def split: if_splits)
  obtain i where i: "sfp_from 0 pool = Some i" using sfp_from_found assms(15) by blast
  have luae: "suffix (ascii ''.luae'') (target name) = suffix (ascii ''.luae'') name"
    unfolding target_def append_assoc [symmetric] using assms(5) by (intro suffix_long) (simp add: ascii_def)
  define f where "f = \<lparr>f_flags = 1, f_file = 0, f_cookie = Some item, f_ops = False, f_offset = 0,
    f_type = (if suffix (ascii ''.luae'') name then LUA_UNCOMPRESS_ENC_FILE else LUA_UNCOMPRESS_FILE)\<rparr>"
  have opened: "lualibc_fopen c (target name) (ascii ''rb'' @ [0]) pool w = Some (In_image f, pool, w')"
    using open_image_file [OF item(1) _ i open_target_refused [OF assms(11-14)] assms(14)] assms(5,21) luae by (simp add: f_def target_def)
  have seek: "fseek_ext (int p) SEEK_SET f = Some (0, f\<lparr>f_offset := int p\<rparr>)"
    using fseek_ext_set [of f item p] bounds assms(2,16) by (simp add: f_def)
  have read: "fread_ext c buf 1 count (f\<lparr>f_offset := int p\<rparr>) pool w' =
      Some ((of_nat (min n (length bs - p)), take n (drop p (packed_contents c name bs)) @ drop (min n (length bs - p)) buf),
        f\<lparr>f_offset := int (p + min n (length bs - p))\<rparr>, pool, w')"
  proof (cases "suffix (ascii ''.luae'') name")
    case True
    moreover have "p + n + 511 < 2 ^ 32" using assms(2,16,20) bounds by simp
    ultimately show ?thesis
      using fread_flash_enc [OF _ _ _ _ item(2), of "f\<lparr>f_offset := int p\<rparr>" p n count buf pool w'] assms(2,10,16-20) bounds
      by (simp add: f_def packed_contents_def)
  next
    case False
    then show ?thesis
      using fread_flash [OF _ _ _ _ item(2), of "f\<lparr>f_offset := int p\<rparr>" p n count buf pool w'] assms(2,16,18,19) bounds
      by (simp add: f_def packed_contents_def)
  qed
  show ?thesis
    using opened seek read by (intro exI [of _ f] exI [of _ "f\<lparr>f_offset := int (p + min n (length bs - p))\<rparr>"])
      (simp add: lualibc_fseek_def lualibc_fread_def)
qed

text \<open>A kernel that has no file: the two files of the image, opened while every slot but the last is taken.\<close>

definition no_files :: "unit file_service" where
  "no_files = \<lparr>open_file = (\<lambda>_ _ _ k. (-1, k)), close_file = (\<lambda>_ k. (0, k)), write_file = (\<lambda>_ _ k. (-1, k)),
     read_file = (\<lambda>_ _ k. ((-1, []), k)), seek_file = (\<lambda>_ _ _ k. (-1, k)), delete_file = (\<lambda>_ k. (-1, k)), rename_file = (\<lambda>_ _ k. (-1, k))\<rparr>"

definition image_libc :: "unit libc" where
  "image_libc = \<lparr>lc_err = newlib_errnos,
     lc_dm = \<lparr>dm_list = [Some (std_device newlib_errnos True), Some (platform_fs_device no_files)] @ replicate 14 None, dm_num_devs = 2\<rparr>,
     lc_fs = no_files, lc_decode = map NOT, lc_rom = db_image two_files, lc_tables = installed LUA_SCRIPT_TABLE_FLASH_SECTION 24 two_files ldb_start\<rparr>"

theorem preloaded_file_reads_back_witness:
  "\<exists>c f f'. dm_boot newlib_errnos True no_files = Some (lc_dm c) \<and>
    lualibc_fopen c (ascii ''/lua/main.lua'') (ascii ''rb'' @ [0]) [enc_example, enc_example\<lparr>f_flags := 0\<rparr>] (example_world ()) =
      Some (In_image f, [enc_example, enc_example\<lparr>f_flags := 0\<rparr>], (example_world ())\<lparr>errno := -1\<rparr>) \<and>
    lualibc_fread c [9, 9, 9, 9] 1 3 (In_image (f\<lparr>f_offset := 1\<rparr>)) [enc_example, enc_example\<lparr>f_flags := 0\<rparr>] ((example_world ())\<lparr>errno := -1\<rparr>) =
      Some ((2, [2, 3, 9, 9]), In_image f', [enc_example, enc_example\<lparr>f_flags := 0\<rparr>], (example_world ())\<lparr>errno := -1\<rparr>)"
proof -
  obtain d where d: "dm_boot newlib_errnos True no_files = Some d" using boot_table by blast
  define c where "c = image_libc\<lparr>lc_dm := d\<rparr>"
  have name: "target (ascii ''main.lua'') = ascii ''/lua/main.lua''"
    by (simp add: target_def suffix_to_prefix LUA_DIR_def ascii_def)
  have plain: "packed_contents c (ascii ''main.lua'') [1, 2, 3] = [1, 2, 3]" by (simp add: packed_contents_def suffix_to_prefix ascii_def)
  have luae: "\<not> suffix (ascii ''.luae'') (ascii ''main.lua'')" by (simp add: suffix_to_prefix ascii_def)
  have r: "open_file no_files x y 0 k = (-1, k)" for x y k by (simp add: no_files_def)
  have sel: "lc_rom c = db_image two_files" "lc_tables c = installed LUA_SCRIPT_TABLE_FLASH_SECTION 24 two_files ldb_start"
      "lc_fs c = no_files" "lc_dm c = d" "lc_err c = newlib_errnos" "decodes_in_place c"
    by (simp_all add: c_def image_libc_def decodes_in_place_def)
  have in_image: "(ascii ''main.lua'', [1, 2, 3]) \<in> set two_files" "4 < length (ascii ''main.lua'')" "0 \<notin> set (ascii ''main.lua'')"
      "pUpdateFileTable ldb_start = []"
    by (simp_all add: two_files_def ascii_def ldb_start_def)
  have "\<exists>f f'. lualibc_fopen c (ascii ''/lua/main.lua'') (ascii ''rb'' @ [0]) [enc_example, enc_example\<lparr>f_flags := 0\<rparr>] (example_world ()) =
      Some (In_image f, [enc_example, enc_example\<lparr>f_flags := 0\<rparr>], (example_world ())\<lparr>errno := -1\<rparr>) \<and>
    lualibc_fread c [9, 9, 9, 9] 1 3 (In_image (f\<lparr>f_offset := 1\<rparr>)) [enc_example, enc_example\<lparr>f_flags := 0\<rparr>] ((example_world ())\<lparr>errno := -1\<rparr>) =
      Some ((2, [2, 3, 9, 9]), In_image f', [enc_example, enc_example\<lparr>f_flags := 0\<rparr>], (example_world ())\<lparr>errno := -1\<rparr>)"
    using preloaded_file_reads_back [of c two_files "[]" "ascii ''main.lua''" "[1, 2, 3]" ldb_start True "example_world ()" "-1" "()"
        "[enc_example, enc_example\<lparr>f_flags := 0\<rparr>]" 1 3 3 "[9, 9, 9, 9]" "(example_world ())\<lparr>errno := -1\<rparr>"] d luae
    unfolding name plain sel by (auto simp: r in_image two_files_simps two_files_installed sel)
  then show ?thesis using sel(4) d by blast
qed

end
