(* ===== verification/Gb2312.thy ===== *)
theory Gb2312
  imports Gb2312_tables Utf8
begin

text \<open>
  The conversions between GB2312 and UCS-2 of the iconv library (\<^verbatim>\<open>lib/iconv/src/gb2312_to_ucs2.c\<close>, \<^verbatim>\<open>ucs2_to_gb2312.c\<close>).
  The input is the list of the \<^verbatim>\<open>*inbytesleft\<close> bytes at \<^verbatim>\<open>*_inbuf\<close>; a read behind it or outside a table is \<open>None\<close>. The
  machine is little-endian and \<^verbatim>\<open>char\<close> is signed.
\<close>

text \<open>
  What a conversion leaves behind: by how many bytes \<^verbatim>\<open>*_inbuf\<close> was moved, the new \<^verbatim>\<open>*inbytesleft\<close>, the bytes it
  wrote, and the error number if it returned \<^verbatim>\<open>-1\<close>.
\<close>

type_synonym moved = "nat \<times> nat \<times> u8 list \<times> iconv_errno option"

section \<open>GB2312 to UCS-2\<close>

definition gb2312_to_ucs2_table :: "u16 list" where
  "gb2312_to_ucs2_table = concat gb2312_rows"

definition gb_offset :: "u16 \<Rightarrow> u16" where
  "gb_offset g = (drop_bit 8 g - 0xA0) * 94 + ((g AND 0xFF) - 0xA1)"

definition swap16 :: "u16 \<Rightarrow> u16" where
  "swap16 x = push_bit 8 x OR drop_bit 8 x"

definition le_bytes :: "u16 \<Rightarrow> u8 list" where
  "le_bytes x = [ucast x, ucast (drop_bit 8 x)]"

function gb2312_loop :: "u8 list \<Rightarrow> nat \<Rightarrow> bool \<Rightarrow> nat \<Rightarrow> nat \<Rightarrow> u8 list \<Rightarrow> moved option" where
  "gb2312_loop src outlen endian pos inlen out =
     (if \<not> 0 < inlen then Some (pos, inlen, out, None)
      else if outlen < length out + 2 then Some (pos, inlen, out, Some E2BIG)
      else do {
        c \<leftarrow> ld src pos;
        let gb2312 = (scast c :: u16);
        (if gb2312 < 0x80 then gb2312_loop src outlen endian (pos + 1) (inlen - 1) (out @ le_bytes (if endian then swap16 gb2312 else gb2312))
         else if 2 \<le> inlen then do {
           d \<leftarrow> ld src (pos + 1);
           let gb2312 = push_bit 8 gb2312 + (scast d AND 0xFF);
           ucs2 \<leftarrow> ld gb2312_to_ucs2_table (unat (gb_offset gb2312));
           gb2312_loop src outlen endian (pos + 2) (inlen - 2) (out @ le_bytes (if endian then swap16 ucs2 else ucs2))
         }
         else Some (pos + 1, inlen, out, Some EINVAL))
      })"
  by pat_completeness auto
termination
  by (relation "measure (\<lambda>(src, outlen, endian, pos, inlen, out). inlen)") auto

declare gb2312_loop.simps [simp del]

definition iconv_gb2312_to_ucs2_endian :: "u8 list \<Rightarrow> nat \<Rightarrow> bool \<Rightarrow> moved option" where
  "iconv_gb2312_to_ucs2_endian src outbytesleft endian = gb2312_loop src outbytesleft endian 0 (length src) []"

definition iconv_gb2312_to_ucs2 :: "u8 list \<Rightarrow> nat \<Rightarrow> moved option" where
  "iconv_gb2312_to_ucs2 src n = iconv_gb2312_to_ucs2_endian src n False"

definition iconv_gb2312_to_ucs2be :: "u8 list \<Rightarrow> nat \<Rightarrow> moved option" where
  "iconv_gb2312_to_ucs2be src n = iconv_gb2312_to_ucs2_endian src n True"

section \<open>UCS-2 to GB2312\<close>

definition ucs2_to_gb2312_table :: "u16 list" where
  "ucs2_to_gb2312_table = concat gb2312_codes"

definition number_of_bit_1 :: "u8 list" where
  "number_of_bit_1 = [
    0, 1, 1, 2, 1, 2, 2, 3, 1, 2, 2, 3, 2, 3, 3, 4, 1, 2, 2, 3, 2, 3, 3, 4, 2, 3, 3, 4, 3, 4, 4, 5,
    1, 2, 2, 3, 2, 3, 3, 4, 2, 3, 3, 4, 3, 4, 4, 5, 2, 3, 3, 4, 3, 4, 4, 5, 3, 4, 4, 5, 4, 5, 5, 6,
    1, 2, 2, 3, 2, 3, 3, 4, 2, 3, 3, 4, 3, 4, 4, 5, 2, 3, 3, 4, 3, 4, 4, 5, 3, 4, 4, 5, 4, 5, 5, 6,
    2, 3, 3, 4, 3, 4, 4, 5, 3, 4, 4, 5, 4, 5, 5, 6, 3, 4, 4, 5, 4, 5, 5, 6, 4, 5, 5, 6, 5, 6, 6, 7,
    1, 2, 2, 3, 2, 3, 3, 4, 2, 3, 3, 4, 3, 4, 4, 5, 2, 3, 3, 4, 3, 4, 4, 5, 3, 4, 4, 5, 4, 5, 5, 6,
    2, 3, 3, 4, 3, 4, 4, 5, 3, 4, 4, 5, 4, 5, 5, 6, 3, 4, 4, 5, 4, 5, 5, 6, 4, 5, 5, 6, 5, 6, 6, 7,
    2, 3, 3, 4, 3, 4, 4, 5, 3, 4, 4, 5, 4, 5, 5, 6, 3, 4, 4, 5, 4, 5, 5, 6, 4, 5, 5, 6, 5, 6, 6, 7,
    3, 4, 4, 5, 4, 5, 5, 6, 4, 5, 5, 6, 5, 6, 6, 7, 4, 5, 5, 6, 5, 6, 6, 7, 5, 6, 6, 7, 6, 7, 7, 8]"

text \<open>The bytes of the page before the one with the character: their ones are added up.\<close>

function skip_bytes :: "u8 list \<Rightarrow> nat \<Rightarrow> nat \<Rightarrow> u16 \<Rightarrow> (nat \<times> nat \<times> u16) option" where
  "skip_bytes mirror ptr tmp offset =
     (if 8 \<le> tmp then do {
        b \<leftarrow> ld mirror ptr;
        n \<leftarrow> ld number_of_bit_1 (unat b);
        skip_bytes mirror (ptr + 1) (tmp - 8) (offset + ucast n)
      }
      else Some (ptr, tmp, offset))"
  by pat_completeness auto
termination
  by (relation "measure (\<lambda>(mirror, ptr, tmp, offset). tmp)") auto

declare skip_bytes.simps [simp del]

text \<open>Within the byte.\<close>

primrec skip_bits :: "nat \<Rightarrow> u8 \<Rightarrow> u16 \<Rightarrow> u16" where
  "skip_bits 0 ch offset = offset"
| "skip_bits (Suc tmp) ch offset = skip_bits tmp (drop_bit 1 ch) (if ch AND 1 \<noteq> 0 then offset + 1 else offset)"

definition get_ucs2_offset :: "u16 \<Rightarrow> u16 option" where
  "get_ucs2_offset ucs2 = do {
     let page = unat (drop_bit 8 ucs2 - 0x4E);
     let lo = ucs2 AND 0xFF;
     let tmp = unat (drop_bit 6 lo);
     row \<leftarrow> ld ucs2_index_table_4E00_9FFF page;
     offset \<leftarrow> ld row tmp;
     mirror \<leftarrow> ld ucs2_mirror_4E00_9FFF page;
     (ptr, tmp, offset) \<leftarrow> skip_bytes mirror (8 * tmp) (unat (lo AND 0x3F)) offset;
     ch \<leftarrow> ld mirror ptr;
     Some (if ch AND push_bit tmp 1 \<noteq> 0 then skip_bits tmp ch offset else 0xFFFF)
   }"

text \<open>A character outside the range of the ideographs is looked up in a list; the last entry counts.\<close>

definition symbol_code :: "u16 \<Rightarrow> u16" where
  "symbol_code ucs2 = fold (\<lambda>(u, g) gb2312. if ucs2 = u then g else gb2312) tab_UCS2_to_GBK 0xA1A1"

definition gb2312_of :: "u16 \<Rightarrow> u8 list option" where
  "gb2312_of ucs2 =
     (if ucs2 < 0x80 then Some [ucast ucs2]
      else do {
        gb2312 \<leftarrow>
          (if 0x4E00 \<le> ucs2 \<and> ucs2 < 0xA000 then do {
             offset \<leftarrow> get_ucs2_offset ucs2;
             (if offset \<noteq> 0xFFFF then ld ucs2_to_gb2312_table (unat offset) else Some 0xA1A1)
           }
           else Some (symbol_code ucs2));
        Some [ucast (drop_bit 8 gb2312), ucast gb2312]
      })"

text \<open>The input pointer is not moved, and what is left is counted in characters.\<close>

function ucs2_gb_loop :: "u8 list \<Rightarrow> nat \<Rightarrow> bool \<Rightarrow> nat \<Rightarrow> nat \<Rightarrow> u8 list \<Rightarrow> moved option" where
  "ucs2_gb_loop src outlen endian pos inlen out =
     (if \<not> 0 < inlen then Some (0, inlen, out, None)
      else if outlen < length out + 2 then Some (0, inlen, out, Some E2BIG)
      else do {
        lo \<leftarrow> ld src pos;
        hi \<leftarrow> ld src (pos + 1);
        let ucs2 = ucast lo + push_bit 8 (ucast hi);
        bs \<leftarrow> gb2312_of (if endian then swap16 ucs2 else ucs2);
        ucs2_gb_loop src outlen endian (pos + 2) (inlen - 1) (out @ bs)
      })"
  by pat_completeness auto
termination
  by (relation "measure (\<lambda>(src, outlen, endian, pos, inlen, out). inlen)") auto

declare ucs2_gb_loop.simps [simp del]

definition iconv_ucs2_to_gb2312_endian :: "u8 list \<Rightarrow> nat \<Rightarrow> bool \<Rightarrow> moved option" where
  "iconv_ucs2_to_gb2312_endian src outbytesleft endian = ucs2_gb_loop src outbytesleft endian 0 (length src div 2) []"

definition iconv_ucs2_to_gb2312 :: "u8 list \<Rightarrow> nat \<Rightarrow> moved option" where
  "iconv_ucs2_to_gb2312 src n = iconv_ucs2_to_gb2312_endian src n False"

definition iconv_ucs2be_to_gb2312 :: "u8 list \<Rightarrow> nat \<Rightarrow> moved option" where
  "iconv_ucs2be_to_gb2312 src n = iconv_ucs2_to_gb2312_endian src n True"

end
