(* ===== verification/Gb2312_rank.thy ===== *)
theory Gb2312_rank
  imports Gb2312
begin

text \<open>
  What the search for an ideograph computes, for any tables: the ones of the mirror bytes before the character are added
  to the count at the start of its block.
\<close>

section \<open>Small facts\<close>

lemma length_Cons_numeral: "(length (x # xs) = numeral k) = (length xs = pred_numeral k)"
  by (simp add: numeral_eq_Suc)

lemma length_Cons_one: "(length (x # xs) = Suc 0) = (length xs = 0)"
  by simp

lemma length_gb_rows: "\<forall>xs \<in> set gb2312_rows. length xs = 94"
  unfolding gb2312_rows_def list.set ball_simps
  by (simp only: gb_row_defs length_Cons_numeral length_Cons_one pred_numeral_simps BitM.simps list.size simp_thms ball_simps insert_iff Num.numeral_One One_nat_def)

definition gb_at :: "u16 \<Rightarrow> u16" where
  "gb_at g = gb2312_to_ucs2_table ! unat (gb_offset g)"

text \<open>The ideographs of GB2312: rows 16 to 87, without the last five places of row 55.\<close>

definition hanzi :: "u16 \<Rightarrow> bool" where
  "hanzi g \<longleftrightarrow> (let hi = drop_bit 8 g; lo = g AND 0xFF in
     0xB0 \<le> hi \<and> hi \<le> 0xF7 \<and> 0xA1 \<le> lo \<and> lo \<le> 0xFE \<and> \<not> (hi = 0xD7 \<and> 0xFA \<le> lo))"

definition hanzi_at :: "u16 \<Rightarrow> u16" where
  "hanzi_at g = (if hanzi g then gb_at g else 0)"

definition hanzi_code :: "nat \<Rightarrow> nat \<Rightarrow> u16" where
  "hanzi_code r j = of_nat (256 * (160 + r) + (161 + j))"

lemma unat_of_nat_u16: "n < 2 ^ 16 \<Longrightarrow> unat (of_nat n :: u16) = n"
  by (subst unat_of_nat) simp

lemma unat_hanzi_code: "r < 88 \<Longrightarrow> j < 94 \<Longrightarrow> unat (hanzi_code r j) = 256 * (160 + r) + (161 + j)"
  unfolding hanzi_code_def by (rule unat_of_nat_u16) simp

lemma unat_and_FF: "unat (x AND 0xFF :: u16) = unat x mod 256"
proof -
  have "(0xFF :: u16) = mask 8" by (simp add: mask_eq_exp_minus_1)
  then have "unat (x AND 0xFF) = unat (take_bit 8 x)" by (simp only: take_bit_eq_mask)
  also have "\<dots> = take_bit 8 (unat x)" by (rule unsigned_take_bit_eq)
  finally show ?thesis by (simp add: take_bit_eq_mod)
qed

lemma hanzi_parts:
  assumes "r < 88" and "j < 94"
  shows "drop_bit 8 (hanzi_code r j) = of_nat (160 + r)" and "hanzi_code r j AND 0xFF = of_nat (161 + j)"
proof -
  have "161 + j < 256" using assms(2) by simp
  then have "(256 * (160 + r) + (161 + j)) div 256 = 160 + r" "(256 * (160 + r) + (161 + j)) mod 256 = 161 + j"
    by (metis div_less div_mult_self4 add.right_neutral zero_neq_numeral add.commute, metis mod_less mod_mult_self4)
  moreover have "unat (drop_bit 8 (hanzi_code r j)) = (256 * (160 + r) + (161 + j)) div 256"
    unfolding unat_drop_bit_eq unat_hanzi_code [OF assms] by (simp add: drop_bit_eq_div)
  moreover have "unat (hanzi_code r j AND 0xFF) = (256 * (160 + r) + (161 + j)) mod 256"
    unfolding unat_and_FF unat_hanzi_code [OF assms] ..
  ultimately have "unat (drop_bit 8 (hanzi_code r j)) = 160 + r" "unat (hanzi_code r j AND 0xFF) = 161 + j" by simp_all
  moreover have "unat (of_nat (160 + r) :: u16) = 160 + r" "unat (of_nat (161 + j) :: u16) = 161 + j"
    using assms by (intro unat_of_nat_u16, simp)+
  ultimately show "drop_bit 8 (hanzi_code r j) = of_nat (160 + r)" and "hanzi_code r j AND 0xFF = of_nat (161 + j)"
    by (simp_all only: word_unat_eq_iff)
qed

lemma gb_offset_hanzi: "r < 88 \<Longrightarrow> j < 94 \<Longrightarrow> unat (gb_offset (hanzi_code r j)) = 94 * r + j"
proof -
  assume a: "r < 88" "j < 94"
  then have "gb_offset (hanzi_code r j) = of_nat (94 * r + j)"
    unfolding gb_offset_def by (simp only: hanzi_parts) (simp add: mult.commute)
  then show ?thesis using a by (simp only:) (rule unat_of_nat_u16, simp)
qed

lemma nth_concat_rows:
  "\<forall>xs \<in> set xss. length xs = n \<Longrightarrow> i < length xss \<Longrightarrow> j < n \<Longrightarrow> concat xss ! (n * i + j) = xss ! i ! j"
proof (induction xss arbitrary: i)
  case (Cons xs xss)
  then show ?case by (cases i) (auto simp: nth_append)
qed simp

primrec codes_from :: "u16 \<Rightarrow> nat \<Rightarrow> u16 list" where
  "codes_from g 0 = []"
| "codes_from g (Suc n) = g # codes_from (g + 1) n"

lemma codes_from_numeral: "codes_from g (numeral k) = g # codes_from (g + 1) (pred_numeral k)"
  by (simp add: numeral_eq_Suc)

lemma codes_from_map: "codes_from (of_nat a) n = map (\<lambda>j. of_nat (a + j)) [0..<n]"
proof (induction n arbitrary: a)
  case (Suc n)
  have "codes_from (of_nat (Suc a)) n = map (\<lambda>j. of_nat (a + Suc j)) [0..<n]" using Suc [of "Suc a"] by simp
  then show ?case by (simp add: upt_conv_Cons map_Suc_upt [symmetric] add.commute del: upt_Suc)
qed simp

lemma length_gb2312_rows: "length gb2312_rows = 88"
  by (simp add: gb2312_rows_def)

lemma gb_at_code: "r < 88 \<Longrightarrow> j < 94 \<Longrightarrow> gb_at (hanzi_code r j) = gb2312_rows ! r ! j"
  unfolding gb_at_def gb2312_to_ucs2_table_def using length_gb_rows length_gb2312_rows
  by (simp add: gb_offset_hanzi nth_concat_rows)

lemma hanzi_code_hanzi:
  assumes "r < 88" and "j < 94"
  shows "hanzi (hanzi_code r j) \<longleftrightarrow> 16 \<le> r \<and> \<not> (r = 55 \<and> 89 \<le> j)"
proof -
  have u: "unat (of_nat (160 + r) :: u16) = 160 + r" "unat (of_nat (161 + j) :: u16) = 161 + j"
    using assms by (intro unat_of_nat_u16, simp)+
  show ?thesis
    unfolding hanzi_def Let_def hanzi_parts [OF assms] word_le_nat_alt word_unat_eq_iff u using assms by auto
qed

lemma gb_row_at:
  assumes "16 \<le> r" and "r < 88"
  shows "map hanzi_at (codes_from (of_nat (256 * (160 + r) + 161)) 94) = gb2312_rows ! r"
proof (rule nth_equalityI)
  let ?cs = "codes_from (of_nat (256 * (160 + r) + 161)) 94"
  have "length (gb2312_rows ! r) = 94" using length_gb_rows assms length_gb2312_rows by simp
  then show "length (map hanzi_at ?cs) = length (gb2312_rows ! r)" unfolding codes_from_map by simp
  fix j assume "j < length (map hanzi_at ?cs)"
  then have j: "j < 94" unfolding codes_from_map by simp
  then have "map hanzi_at ?cs ! j = hanzi_at (hanzi_code r j)"
    unfolding codes_from_map by (simp add: hanzi_code_def add.assoc)
  also have "\<dots> = gb2312_rows ! r ! j"
  proof (cases "r = 55 \<and> 89 \<le> j")
    case True
    moreover have "length gb_row_D7 = 94" using length_gb_rows by (simp add: gb2312_rows_def)
    ultimately have "gb2312_rows ! r ! j = drop 89 gb_row_D7 ! (j - 89)" by (simp add: gb2312_rows_def)
    also have "drop 89 gb_row_D7 = [0, 0, 0, 0, 0]" by (simp add: gb_row_D7_def)
    also have "[0, 0, 0, 0, 0] ! (j - 89) = (0 :: u16)" using True j by (auto simp: nth_Cons split: nat.splits)
    finally show ?thesis using True assms j by (simp add: hanzi_at_def hanzi_code_hanzi)
  next
    case False
    then show ?thesis using assms j by (simp add: hanzi_at_def hanzi_code_hanzi gb_at_code)
  qed
  finally show "map hanzi_at ?cs ! j = gb2312_rows ! r ! j" .
qed

section \<open>The ideographs in the order of UCS-2\<close>

text \<open>The characters of a page that the bytes of its mirror name.\<close>

definition byte_codes :: "nat \<Rightarrow> u16 \<Rightarrow> u8 \<Rightarrow> u16 list" where
  "byte_codes n u b = map (\<lambda>j. u + of_nat j) (filter (bit b) [0..<n])"

primrec page_codes :: "u16 \<Rightarrow> u8 list \<Rightarrow> u16 list" where
  "page_codes u [] = []"
| "page_codes u (b # bs) = byte_codes 8 u b @ page_codes (u + 8) bs"

lemma byte_codes_step:
  "byte_codes (Suc n) u b = (if odd b then [u] else []) @ byte_codes n (u + 1) (drop_bit 1 b)"
proof -
  have "filter (bit b) [0..<Suc n] = (if odd b then [0] else []) @ map Suc (filter (bit (drop_bit 1 b)) [0..<n])"
    by (simp add: upt_conv_Cons map_Suc_upt [symmetric] filter_map comp_def bit_drop_bit_eq bit_0 del: upt_Suc)
  then show ?thesis by (simp add: byte_codes_def comp_def add.assoc)
qed

lemma byte_codes_cong: "(\<And>j. j < n \<Longrightarrow> bit b j = bit c j) \<Longrightarrow> byte_codes n u b = byte_codes n u c"
  unfolding byte_codes_def by (intro arg_cong [of _ _ "map _"] filter_cong) simp_all

lemma bit_half:
  "j < 7 \<Longrightarrow> bit (drop_bit 1 (numeral (num.Bit0 k) :: u8)) j = bit (numeral k :: u8) j"
  "j < 7 \<Longrightarrow> bit (drop_bit 1 (numeral (num.Bit1 k) :: u8)) j = bit (numeral k :: u8) j"
  by (simp_all only: bit_drop_bit_eq comp_def bit_numeral_word_iff plus_1_eq_Suc bit_numeral_Bit0_Suc_iff bit_numeral_Bit1_Suc_iff) simp_all

lemma byte_codes_numeral:
  assumes n: "numeral n \<le> (8 :: nat)"
  shows "byte_codes (numeral n) u (numeral (num.Bit0 k)) = byte_codes (pred_numeral n) (u + 1) (numeral k)"
    "byte_codes (numeral n) u (numeral (num.Bit1 k)) = u # byte_codes (pred_numeral n) (u + 1) (numeral k)"
proof -
  have p: "pred_numeral n \<le> 7" using n by (simp add: numeral_eq_Suc)
  have half: "byte_codes (pred_numeral n) (u + 1) (drop_bit 1 (numeral (num.Bit0 k))) = byte_codes (pred_numeral n) (u + 1) (numeral k)"
    "byte_codes (pred_numeral n) (u + 1) (drop_bit 1 (numeral (num.Bit1 k))) = byte_codes (pred_numeral n) (u + 1) (numeral k)"
    using p by (intro byte_codes_cong bit_half, simp)+
  show "byte_codes (numeral n) u (numeral (num.Bit0 k)) = byte_codes (pred_numeral n) (u + 1) (numeral k)"
    "byte_codes (numeral n) u (numeral (num.Bit1 k)) = u # byte_codes (pred_numeral n) (u + 1) (numeral k)"
    unfolding numeral_eq_Suc [of n] byte_codes_step half by simp_all
qed

lemma byte_codes_end: "byte_codes n u 0 = []" "byte_codes (numeral k) u 1 = [u]" "byte_codes 0 u b = []" "byte_codes 1 u 1 = [u]"
  by (simp_all add: byte_codes_def numeral_eq_Suc upt_conv_Cons bit_1_iff filter_False del: upt_Suc)

lemmas num_compute = pred_numeral_simps BitM.simps numeral_plus_one numeral_plus_numeral Num.add_num_simps Num.numeral_One

text \<open>How many ideographs there are before each block of 64 characters.\<close>

definition ones :: "u8 list \<Rightarrow> nat" where
  "ones m = length (page_codes 0 m)"

lemma length_byte_codes: "length (byte_codes n u b) = length (byte_codes n 0 b)"
  by (simp add: byte_codes_def)

lemma length_page_codes: "length (page_codes u m) = ones m"
proof -
  have "length (page_codes u m) = sum_list (map (\<lambda>b. length (byte_codes 8 0 b)) m)" for u
  proof (induction m arbitrary: u)
    case (Cons b m)
    then show ?case using length_byte_codes [of 8 u b] by simp
  qed simp
  then show ?thesis by (simp add: ones_def)
qed

lemma ones_simps: "ones [] = 0" "ones (b # bs) = length (byte_codes 8 0 b) + ones bs"
  using length_page_codes [of 8 bs] by (simp_all add: ones_def)

primrec starts :: "nat \<Rightarrow> u16 \<Rightarrow> u8 list \<Rightarrow> u16 list" where
  "starts 0 c m = []"
| "starts (Suc n) c m = c # starts n (c + of_nat (ones (take 8 m))) (drop 8 m)"

primrec bytes_from :: "u8 \<Rightarrow> nat \<Rightarrow> u8 list" where
  "bytes_from b 0 = []"
| "bytes_from b (Suc n) = b # bytes_from (b + 1) n"

lemma bytes_from_numeral: "bytes_from b (numeral k) = b # bytes_from (b + 1) (pred_numeral k)" "bytes_from b 1 = [b]"
  by (simp_all add: numeral_eq_Suc)

text \<open>The table of counts of the code; with it the counts of the bytes are known.\<close>

lemma count_of_byte:
  "numeral n \<le> (8 :: nat) \<Longrightarrow> length (byte_codes (numeral n) u (numeral (num.Bit0 k))) = length (byte_codes (pred_numeral n) u (numeral k))"
  "numeral n \<le> (8 :: nat) \<Longrightarrow> length (byte_codes (numeral n) u (numeral (num.Bit1 k))) = Suc (length (byte_codes (pred_numeral n) u (numeral k)))"
  "length (byte_codes m u 0) = 0" "length (byte_codes (numeral n) u 1) = 1" "length (byte_codes 1 u 1) = 1"
  by (simp_all add: byte_codes_numeral byte_codes_end byte_codes_step length_byte_codes [of _ "u + 1"] length_byte_codes [of _ u])

lemmas count_compute = count_of_byte Suc_numeral Suc_1 numeral_le_iff le_num_simps less_num_simps simp_thms num_compute

lemma number_of_bit_1_counts: "map (\<lambda>b. of_nat (length (byte_codes 8 0 b))) (bytes_from 0 256) = number_of_bit_1"
  by (simp only: number_of_bit_1_def bytes_from_numeral bytes_from.simps list.map count_compute of_nat_numeral semiring_1_class.of_nat_simps(1) of_nat_1 add_0_left one_add_one)

lemma starts_numeral:
  "starts (numeral k) c (b1 # b2 # b3 # b4 # b5 # b6 # b7 # b8 # m) =
     c # starts (pred_numeral k) (c + of_nat (ones [b1, b2, b3, b4, b5, b6, b7, b8])) m"
  "starts 1 c [] = [c]"
  by (simp_all add: numeral_eq_Suc)

section \<open>The search\<close>

lemma ones_append: "ones (a @ b) = ones a + ones b"
  by (induction a) (simp_all add: ones_simps)

lemma bytes_from_map: "bytes_from (of_nat a) n = map (\<lambda>i. of_nat (a + i)) [0..<n]"
proof (induction n arbitrary: a)
  case (Suc n)
  have "bytes_from (of_nat (Suc a)) n = map (\<lambda>i. of_nat (a + Suc i)) [0..<n]" using Suc [of "Suc a"] by simp
  then show ?case by (simp add: upt_conv_Cons map_Suc_upt [symmetric] add.commute del: upt_Suc)
qed simp

lemma ld_number_of_bit_1: "ld number_of_bit_1 (unat b) = Some (of_nat (ones [b]))"
proof -
  have eq: "number_of_bit_1 = map (\<lambda>i. of_nat (ones [of_nat i])) [0..<256]"
    using bytes_from_map [of 0 256] number_of_bit_1_counts by (simp add: comp_def ones_simps)
  show ?thesis unfolding ld_def eq using unat_u8_less [of b] by simp
qed

lemma ones_less: "ones [b] \<le> 8"
  using length_filter_le [of "bit b" "[0..<8]"] by (simp add: ones_simps byte_codes_def)

lemma skip_bytes_sum:
  "8 * ptr + tmp < 8 * length m + 8 \<Longrightarrow> skip_bytes m ptr tmp off =
    Some (ptr + tmp div 8, tmp mod 8, off + of_nat (ones (take (tmp div 8) (drop ptr m))))"
proof (induction m ptr tmp off rule: skip_bytes.induct)
  case (1 m ptr tmp off)
  show ?case
  proof (cases "8 \<le> tmp")
    case True
    then have p: "ptr < length m" using 1(2) by simp
    have d: "tmp div 8 = Suc ((tmp - 8) div 8)" "tmp mod 8 = (tmp - 8) mod 8" using True by (simp_all add: le_div_geq le_mod_geq)
    have dr: "drop ptr m = m ! ptr # drop (ptr + 1) m" using p by (simp add: Cons_nth_drop_Suc)
    have o: "ones (take (tmp div 8) (drop ptr m)) = ones [m ! ptr] + ones (take ((tmp - 8) div 8) (drop (ptr + 1) m))"
      unfolding d(1) dr take_Suc_Cons by (simp add: ones_simps)
    have u: "ucast (of_nat (ones [m ! ptr]) :: u8) = (of_nat (ones [m ! ptr]) :: u16)"
      using ones_less [of "m ! ptr"] by (simp add: unsigned_of_nat take_bit_eq_mod)
    have step: "skip_bytes m ptr tmp off = skip_bytes m (ptr + 1) (tmp - 8) (off + of_nat (ones [m ! ptr]))"
      using True p by (subst skip_bytes.simps) (simp only: if_True ld_def [of m] ld_number_of_bit_1 Option.bind.simps u)
    have "8 * (ptr + 1) + (tmp - 8) < 8 * length m + 8" using 1(2) True by simp
    then have "skip_bytes m (ptr + 1) (tmp - 8) (off + of_nat (ones [m ! ptr])) =
        Some (ptr + 1 + (tmp - 8) div 8, (tmp - 8) mod 8, off + of_nat (ones [m ! ptr]) + of_nat (ones (take ((tmp - 8) div 8) (drop (ptr + 1) m))))"
      using 1(1) [OF True _ ld_number_of_bit_1, of "m ! ptr"] p unfolding u by (simp add: ld_def [of m])
    then show ?thesis unfolding step o unfolding d by (simp add: add.assoc)
  next
    case False
    then show ?thesis by (simp add: skip_bytes.simps [of m ptr tmp off] ones_simps)
  qed
qed

lemma skip_bits_sum: "skip_bits n ch off = off + of_nat (length (byte_codes n 0 ch))"
proof (induction n arbitrary: ch off)
  case (Suc n)
  have "ch AND 1 \<noteq> 0 \<longleftrightarrow> odd ch" by (simp add: and_one_eq odd_iff_mod_2_eq_one)
  then show ?case using Suc length_byte_codes [of n 1 "drop_bit 1 ch"] by (simp add: byte_codes_step)
qed (simp add: byte_codes_end)

text \<open>How many characters of a page come before the one at \<open>j\<close>.\<close>

definition before :: "u8 list \<Rightarrow> nat \<Rightarrow> nat" where
  "before m j = ones (take (j div 8) m) + length (byte_codes (j mod 8) 0 (m ! (j div 8)))"

definition named :: "u8 list \<Rightarrow> nat \<Rightarrow> bool" where
  "named m j \<longleftrightarrow> j < 8 * length m \<and> bit (m ! (j div 8)) (j mod 8)"

lemma starts_nth: "k < n \<Longrightarrow> starts n c m ! k = c + of_nat (ones (take (8 * k) m))"
proof (induction n arbitrary: c m k)
  case (Suc n)
  show ?case
  proof (cases k)
    case (Suc k')
    have "take (8 * k) m = take 8 m @ take (8 * k') (drop 8 m)" by (simp add: Suc take_add)
    then show ?thesis using Suc.IH [of k' "c + of_nat (ones (take 8 m))" "drop 8 m"] Suc.prems Suc by (simp add: ones_append add.assoc)
  qed (simp add: ones_simps)
qed simp

lemma length_starts: "length (starts n c m) = n"
  by (induction n arbitrary: c m) simp_all


text \<open>The characters that are named, by position.\<close>

lemma byte_codes_nth:
  "j < n \<Longrightarrow> bit b j \<Longrightarrow> length (byte_codes j u b) < length (byte_codes n u b) \<and> byte_codes n u b ! length (byte_codes j u b) = u + of_nat j"
proof -
  assume a: "j < n" "bit b j"
  have "[0..<n] = [0..<j] @ j # [Suc j..<n]" using a(1) using upt_add_eq_append [of 0 j "n - j"] upt_conv_Cons [of j n] by simp
  then have "byte_codes n u b = byte_codes j u b @ (u + of_nat j) # map (\<lambda>i. u + of_nat i) (filter (bit b) [Suc j..<n])"
    using a(2) by (simp add: byte_codes_def)
  then show ?thesis by simp
qed

lemma page_codes_append: "page_codes u (a @ b) = page_codes u a @ page_codes (u + of_nat (8 * length a)) b"
  by (induction a arbitrary: u) (simp_all add: add.assoc add.commute)

lemma page_codes_named:
  assumes "named m j"
  shows "before m j < ones m" and "page_codes u m ! before m j = u + of_nat j"
proof -
  let ?i = "j div 8" and ?k = "j mod 8"
  have i: "?i < length m" "bit (m ! ?i) ?k" using assms by (auto simp: named_def less_mult_imp_div_less)
  have j: "8 * ?i + ?k = j" by simp
  let ?u = "u + of_nat (8 * ?i)"
  have m: "m = take ?i m @ m ! ?i # drop (Suc ?i) m" using i(1) by (rule id_take_nth_drop)
  have l: "length (take ?i m) = ?i" using i(1) by simp
  have pc: "page_codes u m = page_codes u (take ?i m) @ byte_codes 8 ?u (m ! ?i) @ page_codes (?u + 8) (drop (Suc ?i) m)"
    by (subst m) (simp only: page_codes_append l page_codes.simps)
  note nth = byte_codes_nth [OF _ i(2), of 8 ?u]
  have b: "before m j = length (page_codes u (take ?i m)) + length (byte_codes ?k ?u (m ! ?i))"
    unfolding before_def length_page_codes using length_byte_codes [of ?k ?u "m ! ?i"] by simp
  have "before m j < length (page_codes u m)" unfolding pc b using nth by simp
  then show "before m j < ones m" by (simp only: length_page_codes)
  have "page_codes u m ! before m j = byte_codes 8 ?u (m ! ?i) ! length (byte_codes ?k ?u (m ! ?i))"
    unfolding pc b using nth by (simp add: nth_append)
  also have "\<dots> = ?u + of_nat ?k" using nth by simp
  also have "\<dots> = u + of_nat (8 * ?i + ?k)" by (simp only: of_nat_add add.assoc)
  finally show "page_codes u m ! before m j = u + of_nat j" by (simp only: j)
qed

lemma filter_position: "k < length (filter P [0..<n]) \<Longrightarrow> \<exists>j < n. P j \<and> length (filter P [0..<j]) = k"
proof (induction n)
  case (Suc n)
  show ?case
  proof (cases "k < length (filter P [0..<n])")
    case True
    then show ?thesis using Suc.IH by (meson less_SucI)
  next
    case False
    then have "P n" "length (filter P [0..<n]) = k" using Suc.prems by (auto split: if_splits)
    then show ?thesis by blast
  qed
qed simp

lemma page_codes_position: "k < ones m \<Longrightarrow> \<exists>j. named m j \<and> before m j = k"
proof (induction m rule: rev_induct)
  case (snoc b m)
  show ?case
  proof (cases "k < ones m")
    case True
    then obtain j where j: "named m j" "before m j = k" using snoc.IH by blast
    then have "j div 8 < length m" by (simp add: named_def less_mult_imp_div_less)
    then have "named (m @ [b]) j" "before (m @ [b]) j = k" using j by (simp_all add: named_def before_def nth_append)
    then show ?thesis by blast
  next
    case False
    then have "k - ones m < length (filter (bit b) [0..<8])"
      using snoc.prems by (simp add: ones_append ones_simps byte_codes_def)
    then obtain j where j: "j < 8" "bit b j" "length (filter (bit b) [0..<j]) = k - ones m" using filter_position by blast
    have "(8 * length m + j) div 8 = length m" "(8 * length m + j) mod 8 = j" using j(1) by simp_all
    then have "named (m @ [b]) (8 * length m + j)" "before (m @ [b]) (8 * length m + j) = k"
      using j False by (simp_all add: named_def before_def byte_codes_def)
    then show ?thesis by blast
  qed
qed (simp add: ones_simps)

text \<open>Pages in their order.\<close>

fun codes_ok :: "u16 \<Rightarrow> u8 list list \<Rightarrow> u16 list list \<Rightarrow> bool" where
  "codes_ok u (m # ms) (cs # css) \<longleftrightarrow> page_codes u m = map hanzi_at cs \<and> codes_ok (u + 256) ms css"
| "codes_ok u [] [] \<longleftrightarrow> True"
| "codes_ok u ms css \<longleftrightarrow> False"

fun index_ok :: "u16 \<Rightarrow> u8 list list \<Rightarrow> u16 list list \<Rightarrow> bool" where
  "index_ok c (m # ms) (row # rows) \<longleftrightarrow> take 4 (starts 5 c m) = row \<and> index_ok (starts 5 c m ! 4) ms rows"
| "index_ok c [] [] \<longleftrightarrow> c = number_of_ucs2_4E00_9FFF"
| "index_ok c ms rows \<longleftrightarrow> False"

lemma codes_ok_nth:
  "codes_ok u ms css \<Longrightarrow> length css = length ms \<and> (\<forall>p < length ms. page_codes (u + of_nat (256 * p)) (ms ! p) = map hanzi_at (css ! p))"
proof (induction u ms css rule: codes_ok.induct)
  case (1 u m ms cs css)
  then have "length css = length ms" "\<And>p. p < length ms \<Longrightarrow> page_codes (u + 256 + of_nat (256 * p)) (ms ! p) = map hanzi_at (css ! p)"
    by auto
  moreover have "u + 256 + of_nat (256 * p) = u + of_nat (256 * Suc p)" for p by simp
  ultimately show ?case using 1(2) by (auto simp: less_Suc_eq_0_disj simp del: of_nat_mult)
qed auto

lemma ones_concat_take: "p < length ms \<Longrightarrow> ones (concat (take (Suc p) ms)) = ones (concat (take p ms)) + ones (ms ! p)"
  by (simp add: take_Suc_conv_app_nth ones_append)

lemma index_ok_nth:
  "index_ok c ms rows \<Longrightarrow> \<forall>m \<in> set ms. length m = 32 \<Longrightarrow> length rows = length ms \<and>
    (\<forall>p < length ms. length (rows ! p) = 4 \<and>
      (\<forall>q < 4. rows ! p ! q = c + of_nat (ones (concat (take p ms)) + ones (take (8 * q) (ms ! p)))))"
proof (induction c ms rows rule: index_ok.induct)
  case (1 c m ms row rows)
  have n: "starts 5 c m ! 4 = c + of_nat (ones m)" using starts_nth [of 4 5 c m] 1(3) by simp
  have row: "row = take 4 (starts 5 c m)" using 1(2) by auto
  have "length row = 4 \<and> (\<forall>q < 4. row ! q = c + of_nat (ones (take (8 * q) m)))"
    unfolding row by (auto simp: length_starts starts_nth)
  moreover have "length rows = length ms \<and> (\<forall>p < length ms. length (rows ! p) = 4 \<and>
      (\<forall>q < 4. rows ! p ! q = c + of_nat (ones m) + of_nat (ones (concat (take p ms)) + ones (take (8 * q) (ms ! p)))))"
    using 1(1) [unfolded n] 1(2) 1(3) n by auto
  ultimately show ?case
    by (auto simp: less_Suc_eq_0_disj ones_append ones_simps(1) add.assoc)
qed auto

lemma unat_ucs2: "p < 82 \<Longrightarrow> j < 256 \<Longrightarrow> unat (of_nat (0x4E00 + 256 * p + j) :: u16) = 0x4E00 + 256 * p + j"
  by (rule unat_of_nat_u16) simp

lemma ucs2_parts:
  assumes "p < 82" and "j < 256"
  defines "u \<equiv> of_nat (0x4E00 + 256 * p + j) :: u16"
  shows "unat (drop_bit 8 u - 0x4E) = p" "unat (drop_bit 6 (u AND 0xFF)) = j div 64" "unat ((u AND 0xFF) AND 0x3F) = j mod 64"
    "\<not> u < 0x80" "0x4E00 \<le> u" "u < 0xA000"
proof -
  have u: "unat u = 0x4E00 + 256 * p + j" unfolding u_def by (rule unat_ucs2 [OF assms(1,2)])
  have "(0x4E00 + 256 * p + j) div 256 = 0x4E + p" using assms(2) by (simp add: div_add1_eq)
  then have "unat (drop_bit 8 u) = 0x4E + p" unfolding unat_drop_bit_eq u by (simp add: drop_bit_eq_div)
  then show "unat (drop_bit 8 u - 0x4E) = p" by (simp add: unat_sub word_le_nat_alt)
  have lo: "unat (u AND 0xFF) = j" unfolding unat_and_FF u using assms(2) by (simp add: mod_add_eq [symmetric])
  then show "unat (drop_bit 6 (u AND 0xFF)) = j div 64" unfolding unat_drop_bit_eq by (simp add: drop_bit_eq_div)
  have "(0x3F :: u16) = mask 6" by (simp add: mask_eq_exp_minus_1)
  then have "unat ((u AND 0xFF) AND 0x3F) = unat (take_bit 6 (u AND 0xFF))" by (simp only: take_bit_eq_mask)
  also have "\<dots> = take_bit 6 j" unfolding unsigned_take_bit_eq lo ..
  finally show "unat ((u AND 0xFF) AND 0x3F) = j mod 64" by (simp add: take_bit_eq_mod)
  show "\<not> u < 0x80" "0x4E00 \<le> u" "u < 0xA000" using assms(1,2) u by (simp_all add: word_less_nat_alt word_le_nat_alt)
qed

lemma get_ucs2_offset_rank:
  assumes ok: "index_ok 0 ucs2_mirror_4E00_9FFF ucs2_index_table_4E00_9FFF" "\<forall>m \<in> set ucs2_mirror_4E00_9FFF. length m = 32"
      "length ucs2_mirror_4E00_9FFF = 82" and p: "p < 82" and j: "j < 256"
  shows "get_ucs2_offset (of_nat (0x4E00 + 256 * p + j)) = Some (if named (ucs2_mirror_4E00_9FFF ! p) j
    then of_nat (ones (concat (take p ucs2_mirror_4E00_9FFF)) + before (ucs2_mirror_4E00_9FFF ! p) j) else 0xFFFF)"
proof -
  let ?m = "ucs2_mirror_4E00_9FFF ! p" and ?c = "ones (concat (take p ucs2_mirror_4E00_9FFF))"
  note idx = index_ok_nth [OF ok(1,2), unfolded ok(3)]
  have m: "ld ucs2_mirror_4E00_9FFF p = Some ?m" "length ?m = 32" using ok p by (simp_all add: ld_def)
  have row: "ld ucs2_index_table_4E00_9FFF p = Some (ucs2_index_table_4E00_9FFF ! p)"
      "ld (ucs2_index_table_4E00_9FFF ! p) (j div 64) = Some (of_nat (?c + ones (take (8 * (j div 64)) ?m)))"
    using idx p j by (simp_all add: ld_def)
  have "(64 * q + r) div 8 = 8 * q + r div 8" for q r :: nat by presburger
  from this [of "j div 64" "j mod 64"] have j8: "8 * (j div 64) + j mod 64 div 8 = j div 8" "j mod 64 mod 8 = j mod 8"
    by (simp_all add: mod_mod_cancel)
  have "64 * (j div 64) + j mod 64 = j" by (rule mult_div_mod_eq)
  then have "8 * (8 * (j div 64)) + j mod 64 < 8 * length ?m + 8" using j m(2) by linarith
  then have skip: "skip_bytes ?m (8 * (j div 64)) (j mod 64) (of_nat (?c + ones (take (8 * (j div 64)) ?m))) =
      Some (j div 8, j mod 8, of_nat (?c + ones (take (j div 8) ?m)))"
    unfolding j8(1) [symmetric] by (simp add: skip_bytes_sum j8(2) take_add ones_append add.assoc)
  have ch: "ld ?m (j div 8) = Some (?m ! (j div 8))" using j m(2) by (simp add: ld_def)
  have "?m ! (j div 8) AND push_bit (j mod 8) 1 \<noteq> 0 \<longleftrightarrow> named ?m j"
    using bit_iff_and_push_bit_not_eq_0 [of "?m ! (j div 8)" "j mod 8"] j m(2) by (simp add: named_def)
  then show ?thesis
    unfolding get_ucs2_offset_def Let_def ucs2_parts [OF p j] row m(1) Option.bind.simps skip prod.case ch skip_bits_sum
    by (simp add: before_def add.assoc)
qed

lemma ones_bound: "ones m \<le> 8 * length m"
proof (induction m)
  case (Cons b m)
  then show ?case using ones_less [of b] by (simp add: ones_simps)
qed (simp add: ones_simps)

lemma index_ok_total: "index_ok c ms rows \<Longrightarrow> \<forall>m \<in> set ms. length m = 32 \<Longrightarrow> c + of_nat (ones (concat ms)) = number_of_ucs2_4E00_9FFF"
proof (induction c ms rows rule: index_ok.induct)
  case (1 c m ms row rows)
  have "starts 5 c m ! 4 = c + of_nat (ones m)" using starts_nth [of 4 5 c m] 1(3) by simp
  then show ?case using 1 by (simp add: ones_append add.assoc)
qed (auto simp: ones_simps)

lemma before_inj:
  assumes "length m \<le> 32" and "named m i" and "named m j" and "before m i = before m j"
  shows "i = j"
proof -
  have "of_nat i = (of_nat j :: u16)"
    using page_codes_named(2) [OF assms(2), of 0] page_codes_named(2) [OF assms(3), of 0] assms(4) by simp
  moreover have "i < 2 ^ 16" "j < 2 ^ 16" using assms(1-3) by (auto simp: named_def)
  ultimately show ?thesis by (metis unat_of_nat_u16)
qed

lemma card_named:
  assumes "length m \<le> 32"
  shows "card {j. named m j} = ones m" and "finite {j. named m j}"
proof -
  have "before m ` {j. named m j} = {..<ones m}"
    using page_codes_named(1) page_codes_position by (auto simp: image_iff) metis
  moreover have "inj_on (before m) {j. named m j}" using before_inj [OF assms] by (auto simp: inj_on_def)
  ultimately show "card {j. named m j} = ones m" by (metis card_image card_lessThan)
  show "finite {j. named m j}" by (rule finite_subset [of _ "{..<8 * length m}"]) (auto simp: named_def)
qed

text \<open>There are at most 6763 ideographs.\<close>

lemma of_nat_unat_u16: "of_nat (unat g) = (g :: u16)"
  by simp

lemma hanzi_is_code:
  assumes "hanzi g"
  shows "\<exists>r j. g = hanzi_code r j \<and> 16 \<le> r \<and> r < 88 \<and> j < 94 \<and> \<not> (r = 55 \<and> 89 \<le> j)"
proof -
  have "unat g div 256 < 256" using unsigned_less [of g, where 'a = nat] by (simp add: less_mult_imp_div_less)
  have hi: "unat (drop_bit 8 g) = unat g div 256" unfolding unat_drop_bit_eq by (simp add: drop_bit_eq_div)
  have lo: "unat (g AND 0xFF) = unat g mod 256" by (rule unat_and_FF)
  have b: "0xB0 \<le> unat g div 256" "unat g div 256 \<le> 0xF7" "0xA1 \<le> unat g mod 256" "unat g mod 256 \<le> 0xFE"
      "\<not> (unat g div 256 = 0xD7 \<and> 0xFA \<le> unat g mod 256)"
    using assms hi lo by (auto simp: hanzi_def Let_def word_le_nat_alt word_unat_eq_iff)
  let ?r = "unat g div 256 - 160" and ?j = "unat g mod 256 - 161"
  have "256 * (160 + ?r) + (161 + ?j) = unat g" using b by (simp add: mult_div_mod_eq)
  then have "g = hanzi_code ?r ?j" unfolding hanzi_code_def by (metis of_nat_unat_u16)
  moreover have "16 \<le> ?r" "?r < 88" "?j < 94" "\<not> (?r = 55 \<and> 89 \<le> ?j)" using b by auto
  ultimately show ?thesis by blast
qed

lemma card_hanzi: "card {g. hanzi g} \<le> 6763"
proof -
  let ?D = "Sigma {16..<88 :: nat} (\<lambda>r. {..<if r = 55 then 89 else 94 :: nat})"
  have "{g. hanzi g} \<subseteq> (\<lambda>(r, j). hanzi_code r j) ` ?D"
    using hanzi_is_code by (fastforce simp: image_iff)
  then have "card {g. hanzi g} \<le> card ((\<lambda>(r, j). hanzi_code r j) ` ?D)" by (intro card_mono) auto
  also have "\<dots> \<le> card ?D" by (rule card_image_le) auto
  also have "card ?D = (\<Sum>r\<in>{16..<88 :: nat}. if r = 55 then 89 else 94 :: nat)" by (subst card_SigmaI) (simp_all only: card_lessThan finite_atLeastLessThan finite_lessThan Ball_def simp_thms)
  also have "\<dots> = (\<Sum>r\<in>{16..<88 :: nat}. 94) - 5"
    by (simp add: sum.remove [of _ 55])
  finally show ?thesis by simp
qed

lemma concat_nth: "p < length xss \<Longrightarrow> k < length (xss ! p) \<Longrightarrow>
    length (concat (take p xss)) + k < length (concat xss) \<and> concat xss ! (length (concat (take p xss)) + k) = xss ! p ! k"
proof (induction xss arbitrary: p)
  case (Cons xs xss)
  show ?case
  proof (cases p)
    case (Suc q)
    then show ?thesis using Cons.IH [of q] Cons.prems by (simp add: add.assoc nth_append)
  qed (use Cons.prems in \<open>simp add: nth_append\<close>)
qed simp


section \<open>Every ideograph is found\<close>

locale gb_tables =
  fixes mirrors :: "u8 list list" and rows :: "u16 list list" and codes :: "u16 list list"
  assumes codes_ok: "codes_ok 0x4E00 mirrors codes" and index_ok: "index_ok 0 mirrors rows"
    and lengths: "\<forall>m \<in> set mirrors. length m = 32" "length mirrors = 82"
begin

definition ucs2_at :: "nat \<times> nat \<Rightarrow> u16" where
  "ucs2_at = (\<lambda>(p, j). of_nat (0x4E00 + 256 * p + j))"

definition code_at :: "nat \<times> nat \<Rightarrow> u16" where
  "code_at = (\<lambda>(p, j). codes ! p ! before (mirrors ! p) j)"

definition places :: "(nat \<times> nat) set" where
  "places = Sigma {..<82} (\<lambda>p. {j. named (mirrors ! p) j})"

lemma length_mirror: "p < 82 \<Longrightarrow> length (mirrors ! p) = 32"
  using lengths by simp

lemma place_less: "p < 82 \<Longrightarrow> named (mirrors ! p) j \<Longrightarrow> j < 256"
  using length_mirror by (auto simp: named_def)

lemma length_codes: "p < 82 \<Longrightarrow> length (codes ! p) = ones (mirrors ! p)" "length codes = 82"
proof -
  show "length codes = 82" using codes_ok_nth [OF codes_ok] lengths by simp
  assume "p < 82"
  then have "length (page_codes (0x4E00 + of_nat (256 * p)) (mirrors ! p)) = length (codes ! p)"
    using codes_ok_nth [OF codes_ok] lengths by simp
  then show "length (codes ! p) = ones (mirrors ! p)" by (simp only: length_page_codes)
qed

lemma code_at_place:
  assumes "(p, j) \<in> places"
  shows "hanzi (code_at (p, j))" and "gb_at (code_at (p, j)) = ucs2_at (p, j)"
proof -
  have p: "p < 82" "named (mirrors ! p) j" and j: "j < 256" using assms place_less by (auto simp: places_def)
  let ?k = "before (mirrors ! p) j"
  have "page_codes (0x4E00 + of_nat (256 * p)) (mirrors ! p) = map hanzi_at (codes ! p)"
    using codes_ok_nth [OF codes_ok] lengths p(1) by simp
  moreover have "?k < ones (mirrors ! p)" by (rule page_codes_named(1) [OF p(2)])
  ultimately have "hanzi_at (code_at (p, j)) = ucs2_at (p, j)"
    using page_codes_named(2) [OF p(2), of "0x4E00 + of_nat (256 * p)"] length_codes(1) [OF p(1)] by (simp add: code_at_def ucs2_at_def)
  moreover have "ucs2_at (p, j) \<noteq> 0"
    using unat_ucs2 [OF p(1) j] by (auto simp: ucs2_at_def word_unat_eq_iff simp del: of_nat_add of_nat_mult)
  ultimately show "hanzi (code_at (p, j))" and "gb_at (code_at (p, j)) = ucs2_at (p, j)"
    by (auto simp: hanzi_at_def split: if_splits)
qed

lemma ucs2_at_inj: "inj_on ucs2_at places"
proof (rule inj_onI, clarify)
  fix p j q i assume a: "(p, j) \<in> places" "(q, i) \<in> places" "ucs2_at (p, j) = ucs2_at (q, i)"
  have b: "p < 82" "j < 256" "q < 82" "i < 256" using a place_less by (auto simp: places_def)
  have "0x4E00 + 256 * p + j = 0x4E00 + 256 * q + i"
    using arg_cong [OF a(3), of unat] unfolding ucs2_at_def prod.case unat_ucs2 [OF b(1,2)] unat_ucs2 [OF b(3,4)] .
  then have "256 * p + j = 256 * q + i" by simp
  then have "(256 * p + j) div 256 = (256 * q + i) div 256" "(256 * p + j) mod 256 = (256 * q + i) mod 256" by simp_all
  then show "p = q \<and> j = i" using b(2,4) by simp
qed

lemma card_places: "card places = ones (concat mirrors)"
proof -
  have "ones (concat ms) = (\<Sum>p < length ms. ones (ms ! p))" for ms
    by (induction ms) (simp_all add: ones_simps(1) ones_append sum.lessThan_Suc_shift del: sum.lessThan_Suc)
  moreover have "card places = (\<Sum>p < 82. ones (mirrors ! p))"
    unfolding places_def using length_mirror by (subst card_SigmaI) (simp_all add: card_named)
  ultimately show ?thesis using lengths by simp
qed

lemma codes_before: "p \<le> 82 \<Longrightarrow> length (concat (take p codes)) = ones (concat (take p mirrors))"
proof (induction p)
  case (Suc p)
  then have "p < length codes" "p < length mirrors" using length_codes(2) lengths(2) by simp_all
  then show ?case using Suc length_codes(1) [of p] by (simp add: take_Suc_conv_app_nth ones_append)
qed (simp add: ones_simps)

lemma all_places: "ones (concat mirrors) = 6763"
proof -
  have "map length mirrors = map (\<lambda>_. 32) mirrors" using lengths by simp
  then have "length (concat mirrors) = 82 * 32" unfolding length_concat by (simp only: sum_list_triv lengths(2) of_nat_id)
  then have "ones (concat mirrors) < 2 ^ 16" using ones_bound [of "concat mirrors"] by simp
  then have "unat (of_nat (ones (concat mirrors)) :: u16) = ones (concat mirrors)" by (rule unat_of_nat_u16)
  moreover have "of_nat (ones (concat mirrors)) = (0x1A6B :: u16)"
    using index_ok_total [OF index_ok lengths(1)] by (simp add: number_of_ucs2_4E00_9FFF_def)
  ultimately show ?thesis by simp
qed

lemma code_in_table:
  assumes "(p, j) \<in> places"
  defines "i \<equiv> ones (concat (take p mirrors)) + before (mirrors ! p) j"
  shows "i < 6763" and "ld (concat codes) i = Some (code_at (p, j))"
proof -
  have p: "p < 82" "named (mirrors ! p) j" using assms(1) by (auto simp: places_def)
  have "before (mirrors ! p) j < length (codes ! p)" using page_codes_named(1) [OF p(2)] length_codes(1) [OF p(1)] by simp
  then have i: "i < length (concat codes) \<and> concat codes ! i = codes ! p ! before (mirrors ! p) j"
    using concat_nth [of p codes] p(1) length_codes(2) codes_before [of p] unfolding i_def by simp
  then show "ld (concat codes) i = Some (code_at (p, j))" by (simp add: ld_def code_at_def)
  show "i < 6763" using i codes_before [of 82] length_codes(2) lengths(2) all_places by simp
qed

lemma hanzi_has_place:
  assumes "hanzi g"
  obtains p j where "(p, j) \<in> places" "g = code_at (p, j)"
proof -
  have "inj_on code_at places"
    using ucs2_at_inj code_at_place(2) unfolding inj_on_def by (metis surj_pair)
  then have "card (code_at ` places) = 6763" using card_places all_places by (simp add: card_image)
  moreover have "code_at ` places \<subseteq> {g. hanzi g}" using code_at_place(1) by auto
  ultimately have "code_at ` places = {g. hanzi g}" using card_hanzi by (intro card_seteq) auto
  then have "g \<in> code_at ` places" using assms by simp
  then show thesis using that by auto
qed

end

end
