(* ===== verification/Gb2312_text.thy ===== *)
theory Gb2312_text
  imports Gb2312_rank
begin

text \<open>
  The characters of GB2312 and their texts: what the loops of the two conversions do with a whole text, once every
  character of it is found.
\<close>

section \<open>Symbols\<close>

text \<open>The symbols of GB2312 that the way back knows: 40 of them.\<close>

definition gb_symbols :: "u16 list" where
  "gb_symbols = [0xA1A2, 0xA1A3, 0xA1A4, 0xA1AA, 0xA1AB, 0xA1AC, 0xA1AD, 0xA1AE, 0xA1AF, 0xA1B0, 0xA1B1, 0xA1B2, 0xA1B3, 0xA1B6, 0xA1B7, 0xA1B8, 0xA1B9, 0xA1BA, 0xA1BB, 0xA1BC, 0xA1BD, 0xA1BE, 0xA1BF, 0xA1E2, 0xA1E7, 0xA1EA, 0xA3A1, 0xA3A3, 0xA3A4, 0xA3A5, 0xA3A6, 0xA3A8, 0xA3A9, 0xA3AA, 0xA3AC, 0xA3BA, 0xA3BB, 0xA3BF, 0xA3FB, 0xA3FD]"

lemma gb_row_symbols:
  "r < 88 \<Longrightarrow> map gb_at (codes_from (of_nat (256 * (160 + r) + 161)) 94) = gb2312_rows ! r"
proof (rule nth_equalityI)
  assume r: "r < 88"
  let ?cs = "codes_from (of_nat (256 * (160 + r) + 161)) 94"
  have "length (gb2312_rows ! r) = 94" using length_gb_rows r length_gb2312_rows by simp
  then show "length (map gb_at ?cs) = length (gb2312_rows ! r)" unfolding codes_from_map by simp
  fix j assume "j < length (map gb_at ?cs)"
  then have j: "j < 94" unfolding codes_from_map by simp
  then have "map gb_at ?cs ! j = gb_at (hanzi_code r j)" unfolding codes_from_map by (simp add: hanzi_code_def add.assoc)
  then show "map gb_at ?cs ! j = gb2312_rows ! r ! j" using gb_at_code [OF r j] by simp
qed

lemma gb_symbol_rows: "map gb_at (codes_from 0xA1A1 94) = gb_row_A1" "map gb_at (codes_from 0xA3A1 94) = gb_row_A3"
  using gb_row_symbols [of 1] gb_row_symbols [of 3] by (simp_all add: gb2312_rows_def)

lemmas gb_symbol_at = gb_symbol_rows [simplified gb_row_defs codes_from_numeral codes_from.simps list.map list.inject pred_numeral_simps BitM.simps
  numeral_plus_one Num.add_num_simps Num.numeral_One One_nat_def simp_thms]

lemma symbols_back: "map (symbol_code o gb_at) gb_symbols = gb_symbols"
  by (simp only: gb_symbols_def list.map gb_symbol_at comp_def symbol_code_def tab_UCS2_to_GBK_def fold_simps id_apply comp_apply prod.case word_eq_numeral_iff_iszero)
    simp


lemma symbols_range: "\<forall>u \<in> set (map gb_at gb_symbols). 0x80 \<le> u \<and> \<not> (0x4E00 \<le> u \<and> u < 0xA000)"
  by (simp add: gb_symbols_def gb_symbol_at)

lemma symbols_codes: "\<forall>g \<in> set gb_symbols. unat (gb_offset g) < 8272 \<and> 0x80 \<le> drop_bit 8 g"
  by (simp add: gb_symbols_def gb_offset_def)

section \<open>Characters\<close>

text \<open>A character is its code: below 0x80, or two bytes.\<close>

definition gb_char :: "u16 \<Rightarrow> bool" where
  "gb_char c \<longleftrightarrow> c < 0x80 \<or> hanzi c \<or> c \<in> set gb_symbols"

definition gb_bytes :: "u16 \<Rightarrow> u8 list" where
  "gb_bytes c = (if c < 0x80 then [ucast c] else [ucast (drop_bit 8 c), ucast c])"

definition ucs2_of :: "u16 \<Rightarrow> u16" where
  "ucs2_of c = (if c < 0x80 then c else gb_at c)"

lemma length_gb_table: "length gb2312_to_ucs2_table = 8272"
proof -
  have "map length gb2312_rows = map (\<lambda>_. 94) gb2312_rows" using length_gb_rows by simp
  then show ?thesis unfolding gb2312_to_ucs2_table_def length_concat by (simp only: sum_list_triv length_gb2312_rows of_nat_id)
qed

lemma symbol_of: "g \<in> set gb_symbols \<Longrightarrow> gb2312_of (gb_at g) = Some [ucast (drop_bit 8 g), ucast g] \<and> 0x80 \<le> gb_at g"
proof -
  assume g: "g \<in> set gb_symbols"
  have "map (symbol_code o gb_at) gb_symbols = map (\<lambda>g. g) gb_symbols" using symbols_back by simp
  then have "symbol_code (gb_at g) = g" using g by (simp only: map_eq_conv) simp
  moreover have r: "0x80 \<le> gb_at g" "\<not> (0x4E00 \<le> gb_at g \<and> gb_at g < 0xA000)" using symbols_range g by auto
  moreover have "\<not> gb_at g < 0x80" using r(1) by simp
  ultimately show ?thesis unfolding gb2312_of_def by (simp only: if_False Option.bind.simps simp_thms)
qed

lemma scast_high: "0x80 \<le> drop_bit 8 c \<Longrightarrow> \<not> (scast (ucast (drop_bit 8 c :: u16) :: u8) :: u16) < 0x80"
proof -
  have low: "bit x n = odd (unat x div 2 ^ n)" for x :: "'b::len word" and n
  proof -
    have "bit x n = bit (unat x) n" by (simp add: bit_unsigned_iff)
    then show ?thesis by (simp only: bit_iff_odd [of "unat x"])
  qed
  assume "0x80 \<le> drop_bit 8 c"
  moreover have "unat (drop_bit 8 c) < 256"
    using unsigned_less [of c, where 'a = nat] unfolding unat_drop_bit_eq by (simp add: drop_bit_eq_div less_mult_imp_div_less)
  ultimately have "128 \<le> unat (drop_bit 8 c)" "unat (drop_bit 8 c) < 256" by (simp_all add: word_le_nat_alt)
  then have "unat (drop_bit 8 c) div 128 = 1" by simp
  then have "bit (drop_bit 8 c) 7" using low [of "drop_bit 8 c" 7] by simp
  then have "bit (scast (ucast (drop_bit 8 c :: u16) :: u8) :: u16) 7" by (simp add: bit_simps)
  then have "odd (unat (scast (ucast (drop_bit 8 c :: u16) :: u8) :: u16) div 2 ^ 7)" unfolding low .
  then have "0 < unat (scast (ucast (drop_bit 8 c :: u16) :: u8) :: u16) div 2 ^ 7" by (rule odd_pos)
  then show ?thesis by (simp add: word_less_nat_alt div_greater_zero_iff)
qed

lemma rejoin: "push_bit 8 (scast (ucast (drop_bit 8 c) :: u8)) + (scast (ucast c :: u8) AND 0xFF) = (c :: u16)"
proof -
  have ff: "(0xFF :: u16) = mask 8" by (simp add: mask_eq_exp_minus_1)
  have "push_bit 8 (scast (ucast (drop_bit 8 c) :: u8)) AND (scast (ucast c :: u8) AND 0xFF) = (0 :: u16)"
    unfolding ff by (rule bit_eqI) (auto simp: bit_simps)
  then have "push_bit 8 (scast (ucast (drop_bit 8 c) :: u8)) + (scast (ucast c :: u8) AND 0xFF) =
      (push_bit 8 (scast (ucast (drop_bit 8 c) :: u8)) OR (scast (ucast c :: u8) AND 0xFF) :: u16)"
    by (rule disjunctive_add_eq_or)
  also have "\<dots> = c"
  proof (rule bit_eqI)
    fix n assume n: "possible_bit TYPE(16 word) n"
    show "bit (push_bit 8 (scast (ucast (drop_bit 8 c) :: u8)) OR (scast (ucast c :: u8) AND 0xFF) :: u16) n = bit c n"
    proof (cases "n < 8")
      case True
      then have "min 7 n = n" by simp
      then show ?thesis using True unfolding ff by (simp add: bit_simps)
    next
      case False
      then have "8 + (n - 8) = n" "min 7 (n - 8) = n - 8" using n by simp_all
      then show ?thesis using False n unfolding ff by (auto simp: bit_simps)
    qed
  qed
  finally show ?thesis .
qed


section \<open>Texts\<close>

definition gb_text :: "u16 list \<Rightarrow> u8 list" where
  "gb_text cs = concat (map gb_bytes cs)"

definition ucs2_text :: "bool \<Rightarrow> u16 list \<Rightarrow> u8 list" where
  "ucs2_text e cs = concat (map (\<lambda>c. le_bytes (if e then swap16 (ucs2_of c) else ucs2_of c)) cs)"

lemma text_simps [simp]:
  "gb_text [] = []" "gb_text (c # cs) = gb_bytes c @ gb_text cs" "ucs2_text e [] = []"
  "ucs2_text e (c # cs) = le_bytes (if e then swap16 (ucs2_of c) else ucs2_of c) @ ucs2_text e cs"
  by (simp_all add: gb_text_def ucs2_text_def)

lemma length_le_bytes [simp]: "length (le_bytes x) = 2"
  by (simp add: le_bytes_def)

lemma length_ucs2_text [simp]: "length (ucs2_text e cs) = 2 * length cs"
  by (induction cs) simp_all

lemma length_gb_bytes: "0 < length (gb_bytes c) \<and> length (gb_bytes c) \<le> 2"
  by (simp add: gb_bytes_def)

lemma length_gb_text: "length cs \<le> length (gb_text cs) \<and> length (gb_text cs) \<le> 2 * length cs"
proof (induction cs)
  case (Cons c cs)
  then show ?case using length_gb_bytes [of c] unfolding text_simps length_append list.size by arith
qed simp

lemma scast_low: "c < 0x80 \<Longrightarrow> (scast (ucast c :: u8) :: u16) = c"
proof (rule bit_eqI)
  fix n assume c: "c < 0x80" and n: "possible_bit TYPE(16 word) n"
  have hi: "\<not> bit c m" if "7 \<le> m" for m
  proof -
    have "unat c < 2 ^ m" using c power_increasing [OF that, of "2 :: nat"] by (simp add: word_less_nat_alt)
    then have "\<not> bit (unat c) m" by (simp add: bit_iff_odd)
    then show ?thesis by (simp add: bit_unsigned_iff)
  qed
  show "bit (scast (ucast c :: u8) :: u16) n = bit c n"
    using hi [of n] hi [of 7] n by (cases "n < 7") (auto simp: bit_simps)
qed

text \<open>One character at a time.\<close>

definition gb_good :: "u16 \<Rightarrow> bool" where
  "gb_good c \<longleftrightarrow> c < 0x80 \<or> (unat (gb_offset c) < 8272 \<and> 0x80 \<le> drop_bit 8 c)"

lemma gb2312_loop_char:
  assumes "drop pos src = gb_bytes c @ rest" and "gb_good c" and "inlen = length (gb_bytes c) + left"
  shows "gb2312_loop src outlen e pos inlen out =
    (if outlen < length out + 2 then Some (pos, inlen, out, Some E2BIG)
     else gb2312_loop src outlen e (pos + length (gb_bytes c)) left (out @ le_bytes (if e then swap16 (ucs2_of c) else ucs2_of c)))"
proof (cases "c < 0x80")
  case True
  then have "ld src pos = Some (ucast c)" using assms(1) ld_drop [of pos src 0] by (simp add: gb_bytes_def ld_def)
  then show ?thesis
    using assms(3) True unfolding gb2312_loop.simps [of src outlen e pos inlen out] by (simp add: gb_bytes_def scast_low ucs2_of_def)
next
  case False
  then have ld: "ld src pos = Some (ucast (drop_bit 8 c))" "ld src (pos + 1) = Some (ucast c)"
    using assms(1) ld_drop [of pos src 0] ld_drop [of pos src 1] by (simp_all add: gb_bytes_def ld_def)
  have tab: "ld gb2312_to_ucs2_table (unat (gb_offset c)) = Some (gb_at c)"
    using assms(2) False by (simp add: gb_good_def ld_def length_gb_table gb_at_def)
  have "\<not> (scast (ucast (drop_bit 8 c) :: u8) :: u16) < 0x80" using scast_high assms(2) False by (simp add: gb_good_def)
  then show ?thesis
    using assms(3) False unfolding gb2312_loop.simps [of src outlen e pos inlen out]
    by (simp add: gb_bytes_def ld [simplified] rejoin tab ucs2_of_def)
qed


lemma gb2312_loop_text:
  "\<forall>c \<in> set cs. gb_good c \<Longrightarrow> drop pos src = gb_text cs \<Longrightarrow> k = min (length cs) ((n - length out) div 2) \<Longrightarrow>
    gb2312_loop src n e pos (length (gb_text cs)) out =
      Some (pos + length (gb_text (take k cs)), length (gb_text (drop k cs)), out @ ucs2_text e (take k cs),
        if k < length cs then Some E2BIG else None)"
proof (induction cs arbitrary: pos out k)
  case Nil
  then show ?case by (simp add: gb2312_loop.simps [of src n e pos 0])
next
  case (Cons c cs)
  have "drop pos src = gb_bytes c @ gb_text cs" "gb_good c" "length (gb_text (c # cs)) = length (gb_bytes c) + length (gb_text cs)"
    using Cons.prems(1,2) by simp_all
  note step = gb2312_loop_char [OF this, of n e out]
  show ?case
  proof (cases "n < length out + 2")
    case True
    then show ?thesis unfolding step using Cons.prems(3) by simp
  next
    case False
    define j where "j = min (length cs) ((n - length (out @ le_bytes (if e then swap16 (ucs2_of c) else ucs2_of c))) div 2)"
    have "(n - length out) div 2 = Suc ((n - (length out + 2)) div 2)" using False by arith
    then have k: "k = Suc j" using Cons.prems(3) by (simp add: j_def)
    have "drop (pos + length (gb_bytes c)) src = drop (length (gb_bytes c)) (drop pos src)" by (simp add: add.commute)
    then have "drop (pos + length (gb_bytes c)) src = gb_text cs" using Cons.prems(2) by simp
    moreover have "\<forall>c \<in> set cs. gb_good c" using Cons.prems(1) by simp
    ultimately show ?thesis
      unfolding step unfolding k take_Suc_Cons drop_Suc_Cons text_simps length_append length_Cons Suc_less_eq add.assoc [symmetric] append_assoc [symmetric]
      using Cons.IH [OF _ _ j_def] False by (simp only: if_False)
  qed
qed

text \<open>The way back.\<close>

definition gb_back :: "u16 \<Rightarrow> bool" where
  "gb_back c \<longleftrightarrow> gb2312_of (ucs2_of c) = Some (gb_bytes c)"

lemma swap16_swap16: "swap16 (swap16 x) = x"
proof (rule bit_eqI)
  fix n assume "possible_bit TYPE(16 word) n"
  then have "n < 16" by simp
  then have "n < 8 \<or> (\<exists>m. n = 8 + m \<and> m < 8)" by presburger
  then show "bit (swap16 (swap16 x)) n = bit x n" by (auto simp: swap16_def bit_simps)
qed

lemma rejoin_le: "(ucast (ucast x :: u8) + push_bit 8 (ucast (ucast (drop_bit 8 x) :: u8)) :: u16) = x"
proof -
  have "ucast (ucast x :: u8) AND push_bit 8 (ucast (ucast (drop_bit 8 x) :: u8)) = (0 :: u16)"
    by (rule bit_eqI) (auto simp: bit_simps)
  then have "ucast (ucast x :: u8) + push_bit 8 (ucast (ucast (drop_bit 8 x) :: u8)) =
      (ucast (ucast x :: u8) OR push_bit 8 (ucast (ucast (drop_bit 8 x) :: u8)) :: u16)"
    by (rule disjunctive_add_eq_or)
  also have "\<dots> = x"
  proof (rule bit_eqI)
    fix n assume "possible_bit TYPE(16 word) n"
    then have "n < 16" by simp
    then have "n < 8 \<or> (\<exists>m. n = 8 + m \<and> m < 8)" by presburger
    then show "bit (ucast (ucast x :: u8) OR push_bit 8 (ucast (ucast (drop_bit 8 x) :: u8)) :: u16) n = bit x n"
      by (auto simp: bit_simps)
  qed
  finally show ?thesis .
qed

lemma ucs2_gb_loop_text:
  "\<forall>c \<in> set cs. gb_back c \<Longrightarrow> drop pos src = ucs2_text e cs \<Longrightarrow> length out + 2 * length cs \<le> n \<Longrightarrow>
    ucs2_gb_loop src n e pos (length cs) out = Some (0, 0, out @ gb_text cs, None)"
proof (induction cs arbitrary: pos out)
  case Nil
  then show ?case by (simp add: ucs2_gb_loop.simps [of src n e pos 0])
next
  case (Cons c cs)
  let ?x = "if e then swap16 (ucs2_of c) else ucs2_of c"
  have "drop pos src = le_bytes ?x @ ucs2_text e cs" using Cons.prems(2) by simp
  then have ld: "ld src pos = Some (ucast ?x)" "ld src (pos + 1) = Some (ucast (drop_bit 8 ?x))"
    using ld_drop [of pos src 0] ld_drop [of pos src 1] by (simp_all add: le_bytes_def ld_def)
  have "drop (pos + 2) src = drop 2 (drop pos src)" by (simp add: add.commute)
  then have rest: "drop (pos + 2) src = ucs2_text e cs" using Cons.prems(2) by simp
  have x: "(if e then swap16 ?x else ?x) = ucs2_of c" by (simp add: swap16_swap16)
  have "ucs2_gb_loop src n e pos (length (c # cs)) out = ucs2_gb_loop src n e (pos + 2) (length cs) (out @ gb_bytes c)"
    using Cons.prems(1,3) unfolding ucs2_gb_loop.simps [of src n e pos "length (c # cs)"] ld Option.bind.simps Let_def rejoin_le x
    by (simp add: gb_back_def)
  also have "\<dots> = Some (0, 0, (out @ gb_bytes c) @ gb_text cs, None)"
    using Cons.prems(1,3) length_gb_bytes [of c] by (intro Cons.IH rest) simp_all
  finally show ?case by simp
qed


text \<open>
  Greek, Cyrillic and kana become the placeholder on the way back, the euro sign becomes two bytes outside GB2312. Bytes
  that are no GB2312 are looked up outside the table. The way back leaves its input pointer where it is.
\<close>

lemma symbols_lost:
  "gb2312_of 0x03B1 = Some [0xA1, 0xA1]" "gb2312_of 0x0416 = Some [0xA1, 0xA1]" "gb2312_of 0x3042 = Some [0xA1, 0xA1]"
  "gb2312_of 0x20AC = Some [0x80, 0x20]"
  by (simp_all add: gb2312_of_def symbol_code_def tab_UCS2_to_GBK_def)

lemma malformed_outside_table: "iconv_gb2312_to_ucs2 [0x80, 0x40] 2 = None"
proof -
  have "ld gb2312_to_ucs2_table 62431 = None" unfolding ld_def length_gb_table by simp
  then show ?thesis
    by (simp add: iconv_gb2312_to_ucs2_def iconv_gb2312_to_ucs2_endian_def gb2312_loop.simps [of "[0x80, 0x40]"] ld_def [of "[_, _]"] gb_offset_def)
qed

lemma back_not_moved: "iconv_ucs2_to_gb2312 [0x41, 0, 0x42, 0] 2 = Some (0, 1, [0x41], Some E2BIG)"
  by (simp add: iconv_ucs2_to_gb2312_def iconv_ucs2_to_gb2312_endian_def ucs2_gb_loop.simps ld_def gb2312_of_def)

end
