(* ===== verification/Iconv.thy ===== *)
theory Iconv
  imports Gb2312_text
begin

text \<open>
  The conversions by name (\<^verbatim>\<open>lib/iconv/src/iconv.c\<close>) and the iconv module of Lua (\<^verbatim>\<open>modules/src/luaiconv.c\<close>), which
  converts a string in pieces of the size of its buffer. A read outside the input or a table is \<open>None\<close>, and so is a
  loop that does not end.
\<close>

section \<open>The table of conversions\<close>

type_synonym iconv_fct = "u8 list \<Rightarrow> nat \<Rightarrow> moved option"

record builtin_iconv_map =
  from_name :: string
  to_name :: string
  fct :: iconv_fct

text \<open>The conversions of UTF-8 move the input by what they took of it.\<close>

definition taken :: "(u8 list \<Rightarrow> nat \<Rightarrow> conv option) \<Rightarrow> iconv_fct" where
  "taken f src n = map_option (\<lambda>(i, out, err). (i, length src - i, out, err)) (f src n)"

definition iconv_map :: "builtin_iconv_map list" where
  "iconv_map = [
    \<lparr>from_name = ''ucs2'', to_name = ''gb2312'', fct = iconv_ucs2_to_gb2312\<rparr>,
    \<lparr>from_name = ''ucs2be'', to_name = ''gb2312'', fct = iconv_ucs2be_to_gb2312\<rparr>,
    \<lparr>from_name = ''gb2312'', to_name = ''ucs2'', fct = iconv_gb2312_to_ucs2\<rparr>,
    \<lparr>from_name = ''gb2312'', to_name = ''ucs2be'', fct = iconv_gb2312_to_ucs2be\<rparr>,
    \<lparr>from_name = ''utf8'', to_name = ''ucs2'', fct = taken iconv_utf8_to_ucs2\<rparr>,
    \<lparr>from_name = ''utf8'', to_name = ''ucs2be'', fct = taken iconv_utf8_to_ucs2be\<rparr>,
    \<lparr>from_name = ''ucs2'', to_name = ''utf8'', fct = taken iconv_ucs2_to_utf8\<rparr>,
    \<lparr>from_name = ''ucs2be'', to_name = ''utf8'', fct = taken iconv_ucs2be_to_utf8\<rparr>]"

text \<open>The answer \<^verbatim>\<open>-1\<close> is \<open>None\<close>.\<close>

definition iconv_open :: "string \<Rightarrow> string \<Rightarrow> builtin_iconv_map option" where
  "iconv_open tocode fromcode = find (\<lambda>m. from_name m = fromcode \<and> to_name m = tocode) iconv_map"

text \<open>The pointers are not null here, and the test of the descriptor, with \<^verbatim>\<open>&&\<close>, never refuses one.\<close>

definition iconv :: "builtin_iconv_map \<Rightarrow> u8 list \<Rightarrow> nat \<Rightarrow> moved option" where
  "iconv cd inbuf outbytesleft = fct cd inbuf outbytesleft"

section \<open>The module of Lua\<close>

text \<open>The names end at the first zero; the answer is a descriptor or nil.\<close>

definition c_name :: "string \<Rightarrow> string" where
  "c_name s = takeWhile (\<lambda>c. c \<noteq> CHR 0x00) s"

definition Liconv_open :: "string \<Rightarrow> string \<Rightarrow> builtin_iconv_map option" where
  "Liconv_open tocode fromcode = iconv_open (c_name tocode) (c_name fromcode)"

definition ERROR_NO_MEMORY :: nat where "ERROR_NO_MEMORY = 1"
definition ERROR_INCOMPLETE :: nat where "ERROR_INCOMPLETE = 3"

text \<open>
  Every round fills the buffer from its start. The conversions set no other error number than these two, so the answers
  for the others are not reached.
\<close>

partial_function (option) Liconv_loop :: "builtin_iconv_map \<Rightarrow> nat \<Rightarrow> u8 list \<Rightarrow> u8 list \<Rightarrow> (u8 list \<times> nat option) option" where
  "Liconv_loop cd obsize src pushed = do {
     (adv, ibleft, out, err) \<leftarrow> iconv cd src obsize;
     (if err = None then Some (pushed @ out, None)
      else if err = Some EINVAL then Some (pushed @ out, Some ERROR_INCOMPLETE)
      else Liconv_loop cd obsize (take ibleft (drop adv src)) (pushed @ out))
   }"

text \<open>The first argument says whether there is memory for the buffer.\<close>

definition Liconv :: "bool \<Rightarrow> builtin_iconv_map \<Rightarrow> u8 list \<Rightarrow> (u8 list \<times> nat option) option" where
  "Liconv memory cd s =
     (let obsize = (if length s > 256 then length s else 256) in
      if \<not> memory then Some ([], Some ERROR_NO_MEMORY) else Liconv_loop cd obsize s [])"

section \<open>Conversions in pieces\<close>

text \<open>
  A conversion of texts, lists of characters with their bytes on either side: a call takes some characters of the text, at
  least one, and all of them unless it says that the buffer is full.
\<close>

locale piecewise =
  fixes cd :: builtin_iconv_map and inb outb :: "'c list \<Rightarrow> u8 list" and ok :: "'c \<Rightarrow> bool"
  assumes piece: "\<forall>c \<in> set cs. ok c \<Longrightarrow> 256 \<le> n \<Longrightarrow>
      \<exists>k \<le> length cs. (cs \<noteq> [] \<longrightarrow> 0 < k) \<and> fct cd (inb cs) n =
        Some (length (inb (take k cs)), length (inb (drop k cs)), outb (take k cs), if k < length cs then Some E2BIG else None)"
    and in_append: "inb (as @ bs) = inb as @ inb bs" and out_append: "outb (as @ bs) = outb as @ outb bs"
begin

lemma loop_whole: "\<forall>c \<in> set cs. ok c \<Longrightarrow> 256 \<le> n \<Longrightarrow> Liconv_loop cd n (inb cs) pushed = Some (pushed @ outb cs, None)"
proof (induction "length cs" arbitrary: cs pushed rule: less_induct)
  case less
  obtain k where k: "k \<le> length cs" "cs \<noteq> [] \<longrightarrow> 0 < k" and call: "iconv cd (inb cs) n =
      Some (length (inb (take k cs)), length (inb (drop k cs)), outb (take k cs), if k < length cs then Some E2BIG else None)"
    using piece [OF less.prems] unfolding iconv_def by blast
  show ?case
  proof (cases "k < length cs")
    case True
    have "drop (length (inb (take k cs))) (inb cs) = inb (drop k cs)"
      using in_append [of "take k cs" "drop k cs"] by simp
    then have "Liconv_loop cd n (inb cs) pushed = Liconv_loop cd n (inb (drop k cs)) (pushed @ outb (take k cs))"
      unfolding Liconv_loop.simps [of cd n "inb cs"] call using True by simp
    also have "\<dots> = Some ((pushed @ outb (take k cs)) @ outb (drop k cs), None)"
      using True k less.prems by (intro less.hyps) (auto dest: in_set_dropD)
    finally show ?thesis using out_append [of "take k cs" "drop k cs"] by simp
  next
    case False
    then show ?thesis using k unfolding Liconv_loop.simps [of cd n "inb cs"] call by simp
  qed
qed

lemma whole: "\<forall>c \<in> set cs. ok c \<Longrightarrow> Liconv True cd (inb cs) = Some (outb cs, None)"
  using loop_whole [of cs "if length (inb cs) > 256 then length (inb cs) else 256" "[]"] by (simp add: Liconv_def Let_def)

end

end
