(* ===== verification/Iconv_utf8.thy ===== *)
theory Iconv_utf8
  imports Iconv
begin

text \<open>The conversions between UTF-8 and UCS-2 work in pieces: what does not fit the buffer is converted by further calls.\<close>

lemma utf8_loop_stop: "n < length out + 2 \<Longrightarrow> i < length src \<Longrightarrow> utf8_loop src n e i out = Some (i, out, Some E2BIG)"
  by (subst utf8_loop.simps) simp

lemma utf8_text_append: "utf8_text (us @ vs) = utf8_text us @ utf8_text vs"
  by (simp add: utf8_text_def)

lemma units_bytes_append: "units_bytes e (us @ vs) = units_bytes e us @ units_bytes e vs"
  by (simp add: units_bytes_def)

lemma utf8_text_pos: "us \<noteq> [] \<Longrightarrow> 0 < length (utf8_text us)"
  by (cases us) (simp_all add: utf8_bytes_def)

lemma split_length: "(\<And>as bs. f (as @ bs) = f as @ f bs) \<Longrightarrow> length (f xs) - length (f (take k xs)) = length (f (drop k xs))"
  by (metis add_diff_cancel_left' append_take_drop_id length_append)

lemma utf8_to_ucs2_text:
  assumes ok: "\<forall>v \<in> set us. v \<le> 0xFFFF \<and> utf8_ok v" and k: "k = min (length us) (n div 2)"
  shows "enc_utf8_to_unicode (utf8_text us) n e =
    Some (length (utf8_text (take k us)), units_bytes e (take k us), if k < length us then Some E2BIG else None)"
proof -
  let ?s = "utf8_text us" and ?i = "length (utf8_text (take k us))"
  have s: "?s = utf8_text (take k us) @ utf8_text (drop k us)" unfolding utf8_text_append [symmetric] by simp
  have kl: "length (take k us) = k" "2 * k \<le> n" using k by simp_all
  have okk: "\<forall>v \<in> set (take k us). v \<le> 0xFFFF \<and> utf8_ok v" using ok by (auto dest: in_set_takeD)
  have d: "drop 0 ?s = utf8_text (take k us) @ utf8_text (drop k us)" using s by (simp only: drop_0)
  have "enc_utf8_to_unicode ?s n e = utf8_loop ?s n e ?i (units_bytes e (take k us))"
    using decode_loop [OF okk d, of "[]" n e] kl by (simp add: enc_utf8_to_unicode_def)
  also have "\<dots> = Some (?i, units_bytes e (take k us), if k < length us then Some E2BIG else None)"
  proof (cases "k < length us")
    case True
    then have "?i < length ?s" using utf8_text_pos [of "drop k us"] unfolding s by simp
    moreover have "n < length (units_bytes e (take k us)) + 2" using True k kl by simp
    ultimately show ?thesis using True by (simp add: utf8_loop_stop)
  next
    case False
    then show ?thesis by (subst utf8_loop.simps) simp
  qed
  finally show ?thesis .
qed

lemma utf8_piecewise:
  assumes "fct cd = taken (\<lambda>src n. enc_utf8_to_unicode src n e)"
  shows "piecewise cd utf8_text (units_bytes e) (\<lambda>v. v \<le> 0xFFFF \<and> utf8_ok v)"
proof
  fix us :: "u32 list" and n :: nat assume ok: "\<forall>v \<in> set us. v \<le> 0xFFFF \<and> utf8_ok v" and "256 \<le> n"
  then have "us \<noteq> [] \<longrightarrow> 0 < min (length us) (n div 2)" by simp
  then show "\<exists>k \<le> length us. (us \<noteq> [] \<longrightarrow> 0 < k) \<and> fct cd (utf8_text us) n =
      Some (length (utf8_text (take k us)), length (utf8_text (drop k us)), units_bytes e (take k us), if k < length us then Some E2BIG else None)"
    using utf8_to_ucs2_text [OF ok refl, of n e] split_length [of utf8_text, OF utf8_text_append]
    unfolding assms taken_def by (intro exI [of _ "min (length us) (n div 2)"]) simp
qed (simp_all add: utf8_text_append units_bytes_append)

lemma length_utf8_bytes: "length (utf8_bytes v) \<le> 3"
  by (simp add: utf8_bytes_def)

lemma ucs2_loop_unit:
  assumes "v \<le> 0xFFFF" and "drop i src = ordered e (ucast (drop_bit 8 v)) (ucast v) @ rest"
  shows "ucs2_loop src n e i out =
    (if length out + length (utf8_bytes v) > n then Some (i, out, Some E2BIG) else ucs2_loop src n e (i + 2) (out @ utf8_bytes v))"
proof -
  let ?b = "ordered e (ucast (drop_bit 8 v)) (ucast v) :: u8 list"
  note b = drop_eq_append_nth [OF assms(2)]
  have b0: "src ! i = ?b ! 0" "i + 1 < length src" "src ! (i + 1) = ?b ! 1" using b [of 0] b [of 1] by simp_all
  have v: "(if e then ucast (src ! i) * 256 + ucast (src ! (i + 1)) else ucast (src ! (i + 1)) * 256 + ucast (src ! i)) = v"
    using unit_of_bytes [OF assms(1)] b0 by (simp add: ordered_def)
  have "i < length src" using b0(2) by simp
  then show ?thesis using b0(2) v
    by (subst ucs2_loop.simps) (simp only: ld_in [of i] ld_in [of "i + 1"] Let_def bind.bind_lunit if_True)
qed

lemma ucs2_loop_text:
  "\<forall>v \<in> set us. v \<le> 0xFFFF \<Longrightarrow> drop i src = units_bytes e us \<Longrightarrow>
    \<exists>k \<le> length us. (us \<noteq> [] \<and> length out + 3 \<le> n \<longrightarrow> 0 < k) \<and> ucs2_loop src n e i out =
      Some (i + 2 * k, out @ utf8_text (take k us), if k < length us then Some E2BIG else None)"
proof (induction us arbitrary: i out)
  case Nil
  then have "\<not> i + 1 < length src" by simp
  then show ?case by (subst ucs2_loop.simps) simp
next
  case (Cons v us)
  have v: "v \<le> 0xFFFF" and d: "drop i src = ordered e (ucast (drop_bit 8 v)) (ucast v) @ units_bytes e us" using Cons.prems by simp_all
  note step = ucs2_loop_unit [OF v d, of n out]
  show ?case
  proof (cases "length out + length (utf8_bytes v) > n")
    case True
    then show ?thesis using length_utf8_bytes [of v] step by (intro exI [of _ 0]) simp
  next
    case False
    have "drop (i + 2) src = drop 2 (drop i src)" by (simp add: add.commute)
    then have "drop (i + 2) src = units_bytes e us" using d by simp
    then obtain k where "k \<le> length us" "ucs2_loop src n e (i + 2) (out @ utf8_bytes v) =
        Some (i + 2 + 2 * k, (out @ utf8_bytes v) @ utf8_text (take k us), if k < length us then Some E2BIG else None)"
      using Cons.IH [of "i + 2" "out @ utf8_bytes v"] Cons.prems(1) by auto
    then show ?thesis using False step by (intro exI [of _ "Suc k"]) simp
  qed
qed

lemma ucs2_piecewise:
  assumes "fct cd = taken (\<lambda>src n. enc_unicode_to_utf8 src n e)"
  shows "piecewise cd (units_bytes e) utf8_text (\<lambda>v. v \<le> 0xFFFF)"
proof
  fix us :: "u32 list" and n :: nat assume ok: "\<forall>v \<in> set us. v \<le> 0xFFFF" and n: "256 \<le> n"
  obtain k where k: "k \<le> length us" "us \<noteq> [] \<longrightarrow> 0 < k" and call: "ucs2_loop (units_bytes e us) n e 0 [] =
      Some (2 * k, utf8_text (take k us), if k < length us then Some E2BIG else None)"
    using ucs2_loop_text [OF ok, of 0 "units_bytes e us" e "[]" n] n by auto
  then show "\<exists>k \<le> length us. (us \<noteq> [] \<longrightarrow> 0 < k) \<and> fct cd (units_bytes e us) n =
      Some (length (units_bytes e (take k us)), length (units_bytes e (drop k us)), utf8_text (take k us), if k < length us then Some E2BIG else None)"
    unfolding assms taken_def enc_unicode_to_utf8_def call by (intro exI [of _ k]) (simp add: right_diff_distrib')
qed (simp_all add: utf8_text_append units_bytes_append)

end
