(* ===== verification/Gb2312_check.thy ===== *)
theory Gb2312_check
  imports Gb2312_rank
begin

text \<open>
  The tables of the conversions between GB2312 and UCS-2, computed: which characters the mirror bytes of a page of UCS-2 name,
  that the codes of the page lead back to exactly these characters, in their order, and how many there are before each block.
\<close>

lemma gb_hanzi_rows:
  "map hanzi_at (codes_from 0xB0A1 94) = gb_row_B0"
  "map hanzi_at (codes_from 0xB1A1 94) = gb_row_B1"
  "map hanzi_at (codes_from 0xB2A1 94) = gb_row_B2"
  "map hanzi_at (codes_from 0xB3A1 94) = gb_row_B3"
  "map hanzi_at (codes_from 0xB4A1 94) = gb_row_B4"
  "map hanzi_at (codes_from 0xB5A1 94) = gb_row_B5"
  "map hanzi_at (codes_from 0xB6A1 94) = gb_row_B6"
  "map hanzi_at (codes_from 0xB7A1 94) = gb_row_B7"
  "map hanzi_at (codes_from 0xB8A1 94) = gb_row_B8"
  "map hanzi_at (codes_from 0xB9A1 94) = gb_row_B9"
  "map hanzi_at (codes_from 0xBAA1 94) = gb_row_BA"
  "map hanzi_at (codes_from 0xBBA1 94) = gb_row_BB"
  "map hanzi_at (codes_from 0xBCA1 94) = gb_row_BC"
  "map hanzi_at (codes_from 0xBDA1 94) = gb_row_BD"
  "map hanzi_at (codes_from 0xBEA1 94) = gb_row_BE"
  "map hanzi_at (codes_from 0xBFA1 94) = gb_row_BF"
  "map hanzi_at (codes_from 0xC0A1 94) = gb_row_C0"
  "map hanzi_at (codes_from 0xC1A1 94) = gb_row_C1"
  "map hanzi_at (codes_from 0xC2A1 94) = gb_row_C2"
  "map hanzi_at (codes_from 0xC3A1 94) = gb_row_C3"
  "map hanzi_at (codes_from 0xC4A1 94) = gb_row_C4"
  "map hanzi_at (codes_from 0xC5A1 94) = gb_row_C5"
  "map hanzi_at (codes_from 0xC6A1 94) = gb_row_C6"
  "map hanzi_at (codes_from 0xC7A1 94) = gb_row_C7"
  "map hanzi_at (codes_from 0xC8A1 94) = gb_row_C8"
  "map hanzi_at (codes_from 0xC9A1 94) = gb_row_C9"
  "map hanzi_at (codes_from 0xCAA1 94) = gb_row_CA"
  "map hanzi_at (codes_from 0xCBA1 94) = gb_row_CB"
  "map hanzi_at (codes_from 0xCCA1 94) = gb_row_CC"
  "map hanzi_at (codes_from 0xCDA1 94) = gb_row_CD"
  "map hanzi_at (codes_from 0xCEA1 94) = gb_row_CE"
  "map hanzi_at (codes_from 0xCFA1 94) = gb_row_CF"
  "map hanzi_at (codes_from 0xD0A1 94) = gb_row_D0"
  "map hanzi_at (codes_from 0xD1A1 94) = gb_row_D1"
  "map hanzi_at (codes_from 0xD2A1 94) = gb_row_D2"
  "map hanzi_at (codes_from 0xD3A1 94) = gb_row_D3"
  "map hanzi_at (codes_from 0xD4A1 94) = gb_row_D4"
  "map hanzi_at (codes_from 0xD5A1 94) = gb_row_D5"
  "map hanzi_at (codes_from 0xD6A1 94) = gb_row_D6"
  "map hanzi_at (codes_from 0xD7A1 94) = gb_row_D7"
  "map hanzi_at (codes_from 0xD8A1 94) = gb_row_D8"
  "map hanzi_at (codes_from 0xD9A1 94) = gb_row_D9"
  "map hanzi_at (codes_from 0xDAA1 94) = gb_row_DA"
  "map hanzi_at (codes_from 0xDBA1 94) = gb_row_DB"
  "map hanzi_at (codes_from 0xDCA1 94) = gb_row_DC"
  "map hanzi_at (codes_from 0xDDA1 94) = gb_row_DD"
  "map hanzi_at (codes_from 0xDEA1 94) = gb_row_DE"
  "map hanzi_at (codes_from 0xDFA1 94) = gb_row_DF"
  "map hanzi_at (codes_from 0xE0A1 94) = gb_row_E0"
  "map hanzi_at (codes_from 0xE1A1 94) = gb_row_E1"
  "map hanzi_at (codes_from 0xE2A1 94) = gb_row_E2"
  "map hanzi_at (codes_from 0xE3A1 94) = gb_row_E3"
  "map hanzi_at (codes_from 0xE4A1 94) = gb_row_E4"
  "map hanzi_at (codes_from 0xE5A1 94) = gb_row_E5"
  "map hanzi_at (codes_from 0xE6A1 94) = gb_row_E6"
  "map hanzi_at (codes_from 0xE7A1 94) = gb_row_E7"
  "map hanzi_at (codes_from 0xE8A1 94) = gb_row_E8"
  "map hanzi_at (codes_from 0xE9A1 94) = gb_row_E9"
  "map hanzi_at (codes_from 0xEAA1 94) = gb_row_EA"
  "map hanzi_at (codes_from 0xEBA1 94) = gb_row_EB"
  "map hanzi_at (codes_from 0xECA1 94) = gb_row_EC"
  "map hanzi_at (codes_from 0xEDA1 94) = gb_row_ED"
  "map hanzi_at (codes_from 0xEEA1 94) = gb_row_EE"
  "map hanzi_at (codes_from 0xEFA1 94) = gb_row_EF"
  "map hanzi_at (codes_from 0xF0A1 94) = gb_row_F0"
  "map hanzi_at (codes_from 0xF1A1 94) = gb_row_F1"
  "map hanzi_at (codes_from 0xF2A1 94) = gb_row_F2"
  "map hanzi_at (codes_from 0xF3A1 94) = gb_row_F3"
  "map hanzi_at (codes_from 0xF4A1 94) = gb_row_F4"
  "map hanzi_at (codes_from 0xF5A1 94) = gb_row_F5"
  "map hanzi_at (codes_from 0xF6A1 94) = gb_row_F6"
  "map hanzi_at (codes_from 0xF7A1 94) = gb_row_F7"
  using gb_row_at [of 16] gb_row_at [of 17] gb_row_at [of 18] gb_row_at [of 19] gb_row_at [of 20] gb_row_at [of 21] gb_row_at [of 22] gb_row_at [of 23]
    gb_row_at [of 24] gb_row_at [of 25] gb_row_at [of 26] gb_row_at [of 27] gb_row_at [of 28] gb_row_at [of 29] gb_row_at [of 30] gb_row_at [of 31]
    gb_row_at [of 32] gb_row_at [of 33] gb_row_at [of 34] gb_row_at [of 35] gb_row_at [of 36] gb_row_at [of 37] gb_row_at [of 38] gb_row_at [of 39]
    gb_row_at [of 40] gb_row_at [of 41] gb_row_at [of 42] gb_row_at [of 43] gb_row_at [of 44] gb_row_at [of 45] gb_row_at [of 46] gb_row_at [of 47]
    gb_row_at [of 48] gb_row_at [of 49] gb_row_at [of 50] gb_row_at [of 51] gb_row_at [of 52] gb_row_at [of 53] gb_row_at [of 54] gb_row_at [of 55]
    gb_row_at [of 56] gb_row_at [of 57] gb_row_at [of 58] gb_row_at [of 59] gb_row_at [of 60] gb_row_at [of 61] gb_row_at [of 62] gb_row_at [of 63]
    gb_row_at [of 64] gb_row_at [of 65] gb_row_at [of 66] gb_row_at [of 67] gb_row_at [of 68] gb_row_at [of 69] gb_row_at [of 70] gb_row_at [of 71]
    gb_row_at [of 72] gb_row_at [of 73] gb_row_at [of 74] gb_row_at [of 75] gb_row_at [of 76] gb_row_at [of 77] gb_row_at [of 78] gb_row_at [of 79]
    gb_row_at [of 80] gb_row_at [of 81] gb_row_at [of 82] gb_row_at [of 83] gb_row_at [of 84] gb_row_at [of 85] gb_row_at [of 86] gb_row_at [of 87]
  by (simp_all add: gb2312_rows_def)

lemmas gb_hanzi_at = gb_hanzi_rows [simplified gb_row_defs codes_from_numeral codes_from.simps list.map list.inject pred_numeral_simps BitM.simps
  numeral_plus_one Num.add_num_simps Num.numeral_One One_nat_def simp_thms]


lemma gb_pages:
  "page_codes 0x4E00 ucs2_mirror_4E = map hanzi_at gb_codes_4E"
  "page_codes 0x4F00 ucs2_mirror_4F = map hanzi_at gb_codes_4F"
  "page_codes 0x5000 ucs2_mirror_50 = map hanzi_at gb_codes_50"
  "page_codes 0x5100 ucs2_mirror_51 = map hanzi_at gb_codes_51"
  "page_codes 0x5200 ucs2_mirror_52 = map hanzi_at gb_codes_52"
  "page_codes 0x5300 ucs2_mirror_53 = map hanzi_at gb_codes_53"
  "page_codes 0x5400 ucs2_mirror_54 = map hanzi_at gb_codes_54"
  "page_codes 0x5500 ucs2_mirror_55 = map hanzi_at gb_codes_55"
  "page_codes 0x5600 ucs2_mirror_56 = map hanzi_at gb_codes_56"
  "page_codes 0x5700 ucs2_mirror_57 = map hanzi_at gb_codes_57"
  "page_codes 0x5800 ucs2_mirror_58 = map hanzi_at gb_codes_58"
  "page_codes 0x5900 ucs2_mirror_59 = map hanzi_at gb_codes_59"
  "page_codes 0x5A00 ucs2_mirror_5A = map hanzi_at gb_codes_5A"
  "page_codes 0x5B00 ucs2_mirror_5B = map hanzi_at gb_codes_5B"
  "page_codes 0x5C00 ucs2_mirror_5C = map hanzi_at gb_codes_5C"
  "page_codes 0x5D00 ucs2_mirror_5D = map hanzi_at gb_codes_5D"
  "page_codes 0x5E00 ucs2_mirror_5E = map hanzi_at gb_codes_5E"
  "page_codes 0x5F00 ucs2_mirror_5F = map hanzi_at gb_codes_5F"
  "page_codes 0x6000 ucs2_mirror_60 = map hanzi_at gb_codes_60"
  "page_codes 0x6100 ucs2_mirror_61 = map hanzi_at gb_codes_61"
  "page_codes 0x6200 ucs2_mirror_62 = map hanzi_at gb_codes_62"
  "page_codes 0x6300 ucs2_mirror_63 = map hanzi_at gb_codes_63"
  "page_codes 0x6400 ucs2_mirror_64 = map hanzi_at gb_codes_64"
  "page_codes 0x6500 ucs2_mirror_65 = map hanzi_at gb_codes_65"
  "page_codes 0x6600 ucs2_mirror_66 = map hanzi_at gb_codes_66"
  "page_codes 0x6700 ucs2_mirror_67 = map hanzi_at gb_codes_67"
  "page_codes 0x6800 ucs2_mirror_68 = map hanzi_at gb_codes_68"
  "page_codes 0x6900 ucs2_mirror_69 = map hanzi_at gb_codes_69"
  "page_codes 0x6A00 ucs2_mirror_6A = map hanzi_at gb_codes_6A"
  "page_codes 0x6B00 ucs2_mirror_6B = map hanzi_at gb_codes_6B"
  "page_codes 0x6C00 ucs2_mirror_6C = map hanzi_at gb_codes_6C"
  "page_codes 0x6D00 ucs2_mirror_6D = map hanzi_at gb_codes_6D"
  "page_codes 0x6E00 ucs2_mirror_6E = map hanzi_at gb_codes_6E"
  "page_codes 0x6F00 ucs2_mirror_6F = map hanzi_at gb_codes_6F"
  "page_codes 0x7000 ucs2_mirror_70 = map hanzi_at gb_codes_70"
  "page_codes 0x7100 ucs2_mirror_71 = map hanzi_at gb_codes_71"
  "page_codes 0x7200 ucs2_mirror_72 = map hanzi_at gb_codes_72"
  "page_codes 0x7300 ucs2_mirror_73 = map hanzi_at gb_codes_73"
  "page_codes 0x7400 ucs2_mirror_74 = map hanzi_at gb_codes_74"
  "page_codes 0x7500 ucs2_mirror_75 = map hanzi_at gb_codes_75"
  "page_codes 0x7600 ucs2_mirror_76 = map hanzi_at gb_codes_76"
  "page_codes 0x7700 ucs2_mirror_77 = map hanzi_at gb_codes_77"
  "page_codes 0x7800 ucs2_mirror_78 = map hanzi_at gb_codes_78"
  "page_codes 0x7900 ucs2_mirror_79 = map hanzi_at gb_codes_79"
  "page_codes 0x7A00 ucs2_mirror_7A = map hanzi_at gb_codes_7A"
  "page_codes 0x7B00 ucs2_mirror_7B = map hanzi_at gb_codes_7B"
  "page_codes 0x7C00 ucs2_mirror_7C = map hanzi_at gb_codes_7C"
  "page_codes 0x7D00 ucs2_mirror_7D = map hanzi_at gb_codes_7D"
  "page_codes 0x7E00 ucs2_mirror_7E = map hanzi_at gb_codes_7E"
  "page_codes 0x7F00 ucs2_mirror_7F = map hanzi_at gb_codes_7F"
  "page_codes 0x8000 ucs2_mirror_80 = map hanzi_at gb_codes_80"
  "page_codes 0x8100 ucs2_mirror_81 = map hanzi_at gb_codes_81"
  "page_codes 0x8200 ucs2_mirror_82 = map hanzi_at gb_codes_82"
  "page_codes 0x8300 ucs2_mirror_83 = map hanzi_at gb_codes_83"
  "page_codes 0x8400 ucs2_mirror_84 = map hanzi_at gb_codes_84"
  "page_codes 0x8500 ucs2_mirror_85 = map hanzi_at gb_codes_85"
  "page_codes 0x8600 ucs2_mirror_86 = map hanzi_at gb_codes_86"
  "page_codes 0x8700 ucs2_mirror_87 = map hanzi_at gb_codes_87"
  "page_codes 0x8800 ucs2_mirror_88 = map hanzi_at gb_codes_88"
  "page_codes 0x8900 ucs2_mirror_89 = map hanzi_at gb_codes_89"
  "page_codes 0x8A00 ucs2_mirror_8A = map hanzi_at gb_codes_8A"
  "page_codes 0x8B00 ucs2_mirror_8B = map hanzi_at gb_codes_8B"
  "page_codes 0x8C00 ucs2_mirror_8C = map hanzi_at gb_codes_8C"
  "page_codes 0x8D00 ucs2_mirror_8D = map hanzi_at gb_codes_8D"
  "page_codes 0x8E00 ucs2_mirror_8E = map hanzi_at gb_codes_8E"
  "page_codes 0x8F00 ucs2_mirror_8F = map hanzi_at gb_codes_8F"
  "page_codes 0x9000 ucs2_mirror_90 = map hanzi_at gb_codes_90"
  "page_codes 0x9100 ucs2_mirror_91 = map hanzi_at gb_codes_91"
  "page_codes 0x9200 ucs2_mirror_92 = map hanzi_at gb_codes_92"
  "page_codes 0x9300 ucs2_mirror_93 = map hanzi_at gb_codes_93"
  "page_codes 0x9400 ucs2_mirror_94 = map hanzi_at gb_codes_94"
  "page_codes 0x9500 ucs2_mirror_95 = map hanzi_at gb_codes_95"
  "page_codes 0x9600 ucs2_mirror_96 = map hanzi_at gb_codes_96"
  "page_codes 0x9700 ucs2_mirror_97 = map hanzi_at gb_codes_97"
  "page_codes 0x9800 ucs2_mirror_98 = map hanzi_at gb_codes_98"
  "page_codes 0x9900 ucs2_mirror_99 = map hanzi_at gb_codes_99"
  "page_codes 0x9A00 ucs2_mirror_9A = map hanzi_at gb_codes_9A"
  "page_codes 0x9B00 ucs2_mirror_9B = map hanzi_at gb_codes_9B"
  "page_codes 0x9C00 ucs2_mirror_9C = map hanzi_at gb_codes_9C"
  "page_codes 0x9D00 ucs2_mirror_9D = map hanzi_at []"
  "page_codes 0x9E00 ucs2_mirror_9E = map hanzi_at gb_codes_9E"
  "page_codes 0x9F00 ucs2_mirror_9F = map hanzi_at gb_codes_9F"
  by (simp_all only: gb_codes_defs ucs2_mirror_defs gb_hanzi_at page_codes.simps byte_codes_numeral byte_codes_end num_compute
    list.map append.simps numeral_le_iff le_num_simps less_num_simps simp_thms)


lemma index_pages:
  "starts 5 0 ucs2_mirror_4E = [0, 0x002C, 0x0049, 0x006D, 0x0096]"
  "starts 5 0x0096 ucs2_mirror_4F = [0x0096, 0x00B6, 0x00D8, 0x00F1, 0x010E]"
  "starts 5 0x010E ucs2_mirror_50 = [0x010E, 0x0124, 0x0134, 0x0141, 0x014C]"
  "starts 5 0x014C ucs2_mirror_51 = [0x014C, 0x0152, 0x0175, 0x0195, 0x01B1]"
  "starts 5 0x01B1 ucs2_mirror_52 = [0x01B1, 0x01D5, 0x01EB, 0x0203, 0x0212]"
  "starts 5 0x0212 ucs2_mirror_53 = [0x0212, 0x022A, 0x0251, 0x0268, 0x0291]"
  "starts 5 0x0291 ucs2_mirror_54 = [0x0291, 0x02BC, 0x02DB, 0x02FE, 0x0325]"
  "starts 5 0x0325 ucs2_mirror_55 = [0x0325, 0x033E, 0x0358, 0x0373, 0x0390]"
  "starts 5 0x0390 ucs2_mirror_56 = [0x0390, 0x03A7, 0x03BA, 0x03C3, 0x03DA]"
  "starts 5 0x03DA ucs2_mirror_57 = [0x03DA, 0x03F0, 0x0410, 0x0428, 0x043E]"
  "starts 5 0x043E ucs2_mirror_58 = [0x043E, 0x044E, 0x0459, 0x0467, 0x0473]"
  "starts 5 0x0473 ucs2_mirror_59 = [0x0473, 0x048F, 0x04A8, 0x04C4, 0x04D8]"
  "starts 5 0x04D8 ucs2_mirror_5A = [0x04D8, 0x04EF, 0x04FE, 0x0507, 0x0517]"
  "starts 5 0x0517 ucs2_mirror_5B = [0x0517, 0x051D, 0x0539, 0x0561, 0x0579]"
  "starts 5 0x0579 ucs2_mirror_5C = [0x0579, 0x0596, 0x05B0, 0x05CC, 0x05DA]"
  "starts 5 0x05DA ucs2_mirror_5D = [0x05DA, 0x05EC, 0x05F8, 0x05FC, 0x0612]"
  "starts 5 0x0612 ucs2_mirror_5E = [0x0612, 0x062F, 0x0643, 0x0662, 0x0671]"
  "starts 5 0x0671 ucs2_mirror_5F = [0x0671, 0x068D, 0x06A5, 0x06C0, 0x06DF]"
  "starts 5 0x06DF ucs2_mirror_60 = [0x06DF, 0x0700, 0x0720, 0x073A, 0x0755]"
  "starts 5 0x0755 ucs2_mirror_61 = [0x0755, 0x0767, 0x0774, 0x077E, 0x0788]"
  "starts 5 0x0788 ucs2_mirror_62 = [0x0788, 0x07A7, 0x07C8, 0x07E5, 0x0810]"
  "starts 5 0x0810 ucs2_mirror_63 = [0x0810, 0x082B, 0x0845, 0x0865, 0x087B]"
  "starts 5 0x087B ucs2_mirror_64 = [0x087B, 0x0892, 0x08A3, 0x08B8, 0x08C5]"
  "starts 5 0x08C5 ucs2_mirror_65 = [0x08C5, 0x08D5, 0x08EA, 0x0901, 0x091D]"
  "starts 5 0x091D ucs2_mirror_66 = [0x091D, 0x0937, 0x0950, 0x095E, 0x096D]"
  "starts 5 0x096D ucs2_mirror_67 = [0x096D, 0x0986, 0x09A6, 0x09C2, 0x09DD]"
  "starts 5 0x09DD ucs2_mirror_68 = [0x09DD, 0x09F7, 0x0A16, 0x0A26, 0x0A38]"
  "starts 5 0x0A38 ucs2_mirror_69 = [0x0A38, 0x0A48, 0x0A58, 0x0A6D, 0x0A7A]"
  "starts 5 0x0A7A ucs2_mirror_6A = [0x0A7A, 0x0A86, 0x0A91, 0x0A9B, 0x0A9B]"
  "starts 5 0x0A9B ucs2_mirror_6B = [0x0A9B, 0x0AA6, 0x0AB6, 0x0ACC, 0x0AE2]"
  "starts 5 0x0AE2 ucs2_mirror_6C = [0x0AE2, 0x0B02, 0x0B1F, 0x0B43, 0x0B66]"
  "starts 5 0x0B66 ucs2_mirror_6D = [0x0B66, 0x0B80, 0x0B9E, 0x0BBC, 0x0BD6]"
  "starts 5 0x0BD6 ucs2_mirror_6E = [0x0BD6, 0x0BEF, 0x0BFD, 0x0C13, 0x0C2A]"
  "starts 5 0x0C2A ucs2_mirror_6F = [0x0C2A, 0x0C3C, 0x0C4C, 0x0C58, 0x0C62]"
  "starts 5 0x0C62 ucs2_mirror_70 = [0x0C62, 0x0C68, 0x0C76, 0x0C8F, 0x0CA5]"
  "starts 5 0x0CA5 ucs2_mirror_71 = [0x0CA5, 0x0CB3, 0x0CC3, 0x0CD0, 0x0CD9]"
  "starts 5 0x0CD9 ucs2_mirror_72 = [0x0CD9, 0x0CE8, 0x0CFF, 0x0D11, 0x0D2F]"
  "starts 5 0x0D2F ucs2_mirror_73 = [0x0D2F, 0x0D4A, 0x0D53, 0x0D67, 0x0D78]"
  "starts 5 0x0D78 ucs2_mirror_74 = [0x0D78, 0x0D8E, 0x0D9C, 0x0DA9, 0x0DB7]"
  "starts 5 0x0DB7 ucs2_mirror_75 = [0x0DB7, 0x0DD2, 0x0DE6, 0x0E07, 0x0E25]"
  "starts 5 0x0E25 ucs2_mirror_76 = [0x0E25, 0x0E43, 0x0E52, 0x0E63, 0x0E7E]"
  "starts 5 0x0E7E ucs2_mirror_77 = [0x0E7E, 0x0E95, 0x0EA9, 0x0EBF, 0x0ED2]"
  "starts 5 0x0ED2 ucs2_mirror_78 = [0x0ED2, 0x0EF2, 0x0F04, 0x0F1C, 0x0F2B]"
  "starts 5 0x0F2B ucs2_mirror_79 = [0x0F2B, 0x0F35, 0x0F4D, 0x0F5B, 0x0F73]"
  "starts 5 0x0F73 ucs2_mirror_7A = [0x0F73, 0x0F87, 0x0F92, 0x0FAA, 0x0FB9]"
  "starts 5 0x0FB9 ucs2_mirror_7B = [0x0FB9, 0x0FD5, 0x0FEE, 0x1004, 0x1016]"
  "starts 5 0x1016 ucs2_mirror_7C = [0x1016, 0x1021, 0x1029, 0x103F, 0x1051]"
  "starts 5 0x1051 ucs2_mirror_7D = [0x1051, 0x1057, 0x1059, 0x105B, 0x105B]"
  "starts 5 0x105B ucs2_mirror_7E = [0x105B, 0x105C, 0x105E, 0x107D, 0x10B9]"
  "starts 5 0x10B9 ucs2_mirror_7F = [0x10B9, 0x10EF, 0x1105, 0x1119, 0x112D]"
  "starts 5 0x112D ucs2_mirror_80 = [0x112D, 0x1150, 0x115F, 0x1183, 0x11A9]"
  "starts 5 0x11A9 ucs2_mirror_81 = [0x11A9, 0x11C0, 0x11DC, 0x11ED, 0x11FE]"
  "starts 5 0x11FE ucs2_mirror_82 = [0x11FE, 0x1221, 0x1235, 0x125A, 0x127C]"
  "starts 5 0x127C ucs2_mirror_83 = [0x127C, 0x129E, 0x12C1, 0x12DC, 0x12F4]"
  "starts 5 0x12F4 ucs2_mirror_84 = [0x12F4, 0x130A, 0x131D, 0x1330, 0x1343]"
  "starts 5 0x1343 ucs2_mirror_85 = [0x1343, 0x1353, 0x1362, 0x1370, 0x137B]"
  "starts 5 0x137B ucs2_mirror_86 = [0x137B, 0x1382, 0x1396, 0x13AF, 0x13CC]"
  "starts 5 0x13CC ucs2_mirror_87 = [0x13CC, 0x13E8, 0x13FC, 0x140E, 0x141C]"
  "starts 5 0x141C ucs2_mirror_88 = [0x141C, 0x1427, 0x143F, 0x1450, 0x1469]"
  "starts 5 0x1469 ucs2_mirror_89 = [0x1469, 0x1478, 0x147F, 0x1482, 0x149C]"
  "starts 5 0x149C ucs2_mirror_8A = [0x149C, 0x149F, 0x14A1, 0x14A4, 0x14A4]"
  "starts 5 0x14A4 ucs2_mirror_8B = [0x14A4, 0x14A6, 0x14A8, 0x14C5, 0x1502]"
  "starts 5 0x1502 ucs2_mirror_8C = [0x1502, 0x1538, 0x1547, 0x154E, 0x154E]"
  "starts 5 0x154E ucs2_mirror_8D = [0x154E, 0x1570, 0x159B, 0x15AD, 0x15CB]"
  "starts 5 0x15CB ucs2_mirror_8E = [0x15CB, 0x15E0, 0x15F7, 0x1604, 0x1605]"
  "starts 5 0x1605 ucs2_mirror_8F = [0x1605, 0x1605, 0x161E, 0x1644, 0x1667]"
  "starts 5 0x1667 ucs2_mirror_90 = [0x1667, 0x168B, 0x16A2, 0x16C1, 0x16DB]"
  "starts 5 0x16DB ucs2_mirror_91 = [0x16DB, 0x16E4, 0x1709, 0x171D, 0x1726]"
  "starts 5 0x1726 ucs2_mirror_92 = [0x1726, 0x1726, 0x1727, 0x1729, 0x172A]"
  "starts 5 0x172A ucs2_mirror_93 = [0x172A, 0x172B, 0x172C, 0x172D, 0x172F]"
  "starts 5 0x172F ucs2_mirror_94 = [0x172F, 0x1730, 0x1731, 0x1769, 0x17A2]"
  "starts 5 0x17A2 ucs2_mirror_95 = [0x17A2, 0x17DD, 0x180C, 0x180C, 0x1822]"
  "starts 5 0x1822 ucs2_mirror_96 = [0x1822, 0x184B, 0x1868, 0x187C, 0x1893]"
  "starts 5 0x1893 ucs2_mirror_97 = [0x1893, 0x18A8, 0x18B7, 0x18C5, 0x18CF]"
  "starts 5 0x18CF ucs2_mirror_98 = [0x18CF, 0x18CF, 0x18DA, 0x18FC, 0x1908]"
  "starts 5 0x1908 ucs2_mirror_99 = [0x1908, 0x190B, 0x1923, 0x193A, 0x193A]"
  "starts 5 0x193A ucs2_mirror_9A = [0x193A, 0x193A, 0x194D, 0x1975, 0x1986]"
  "starts 5 0x1986 ucs2_mirror_9B = [0x1986, 0x1990, 0x199C, 0x199C, 0x199C]"
  "starts 5 0x199C ucs2_mirror_9C = [0x199C, 0x199C, 0x199E, 0x19CB, 0x19E3]"
  "starts 5 0x19E3 ucs2_mirror_9D = [0x19E3, 0x19E3, 0x19E3, 0x19E3, 0x19E3]"
  "starts 5 0x19E3 ucs2_mirror_9E = [0x19E3, 0x19FD, 0x1A22, 0x1A30, 0x1A47]"
  "starts 5 0x1A47 ucs2_mirror_9F = [0x1A47, 0x1A57, 0x1A5B, 0x1A6B, 0x1A6B]"
  by (simp_all only: ucs2_mirror_defs starts_numeral ones_simps count_compute of_nat_numeral semiring_1_class.of_nat_simps(1) of_nat_1 add_0_left add_0_right one_plus_numeral one_add_one)

text \<open>All pages together.\<close>

lemma five_elements: "take 4 [a, b, c, d, e] = [a, b, c, d]" "[a, b, c, d, e] ! 4 = e"
  by simp_all

lemma codes_ok_table: "codes_ok 0x4E00 ucs2_mirror_4E00_9FFF gb2312_codes"
  by (simp only: ucs2_mirror_4E00_9FFF_def gb2312_codes_def codes_ok.simps gb_pages num_compute simp_thms)

lemma index_ok_table: "index_ok 0 ucs2_mirror_4E00_9FFF ucs2_index_table_4E00_9FFF"
  by (simp only: ucs2_mirror_4E00_9FFF_def ucs2_index_table_4E00_9FFF_def index_ok.simps index_pages five_elements
    number_of_ucs2_4E00_9FFF_def simp_thms)

lemma length_mirrors: "\<forall>m \<in> set ucs2_mirror_4E00_9FFF. length m = 32"
  unfolding ucs2_mirror_4E00_9FFF_def list.set ball_simps
  by (simp only: ucs2_mirror_defs length_Cons_numeral length_Cons_one pred_numeral_simps BitM.simps list.size simp_thms ball_simps insert_iff Num.numeral_One One_nat_def)

end
