(* ===== verification/Gb2312_spec.thy ===== *)
theory Gb2312_spec
  imports Gb2312_check Gb2312_text
begin

text \<open>
  GB2312 to UCS-2 and back: with the tables checked, every ideograph is found again, and whole texts are.
\<close>

interpretation gb: gb_tables ucs2_mirror_4E00_9FFF ucs2_index_table_4E00_9FFF gb2312_codes
proof unfold_locales
  show "codes_ok 0x4E00 ucs2_mirror_4E00_9FFF gb2312_codes" by (rule codes_ok_table)
  show "index_ok 0 ucs2_mirror_4E00_9FFF ucs2_index_table_4E00_9FFF" by (rule index_ok_table)
  show "\<forall>m \<in> set ucs2_mirror_4E00_9FFF. length m = 32" by (rule length_mirrors)
  show "length ucs2_mirror_4E00_9FFF = 82" unfolding ucs2_mirror_4E00_9FFF_def by simp
qed

lemma gb2312_of_hanzi:
  assumes "hanzi g"
  shows "gb2312_of (gb_at g) = Some [ucast (drop_bit 8 g), ucast g]"
proof -
  obtain p j where pj: "(p, j) \<in> gb.places" and g: "g = gb.code_at (p, j)" using gb.hanzi_has_place [OF assms] .
  have p: "p < 82" "named (ucs2_mirror_4E00_9FFF ! p) j" using pj by (auto simp: gb.places_def)
  have j: "j < 256" by (rule gb.place_less [OF p])
  let ?i = "ones (concat (take p ucs2_mirror_4E00_9FFF)) + before (ucs2_mirror_4E00_9FFF ! p) j"
  have i: "?i < 6763" "ld ucs2_to_gb2312_table ?i = Some g"
    using gb.code_in_table [OF pj] unfolding g ucs2_to_gb2312_table_def by blast+
  have u: "unat (of_nat ?i :: u16) = ?i" using i(1) by (intro unat_of_nat_u16) simp
  then have ne: "(of_nat ?i :: u16) \<noteq> 0xFFFF" using i(1) by (auto simp: word_unat_eq_iff)
  have at: "gb_at g = of_nat (0x4E00 + 256 * p + j)" using gb.code_at_place(2) [OF pj] unfolding g gb.ucs2_at_def prod.case .
  have off: "get_ucs2_offset (gb_at g) = Some (of_nat ?i)"
    unfolding at by (subst get_ucs2_offset_rank [OF index_ok_table length_mirrors gb.lengths(2) p(1) j]) (simp only: p(2) if_True)
  show ?thesis
    unfolding gb2312_of_def off unfolding at
    by (simp only: ucs2_parts(4-6) [OF p(1) j] if_False if_True simp_thms Option.bind.simps ne not_False_eq_True u i(2))
qed

lemma hanzi_good: "hanzi g \<Longrightarrow> gb_good g \<and> \<not> g < 0x80"
proof -
  assume "hanzi g"
  then obtain r j where g: "g = hanzi_code r j" "16 \<le> r" "r < 88" "j < 94" using hanzi_is_code by blast
  have "94 * r + j < 8272" using g(3,4) by simp
  moreover have "0xB0 \<le> drop_bit 8 g" using \<open>hanzi g\<close> by (simp add: hanzi_def Let_def)
  then have "0x80 \<le> drop_bit 8 g" by (simp add: word_le_nat_alt)
  moreover have "\<not> g < 0x80" unfolding g(1) word_less_nat_alt unat_hanzi_code [OF g(3,4)] by simp
  ultimately show ?thesis unfolding gb_good_def by (simp add: g(1) gb_offset_hanzi [OF g(3,4)])
qed

lemma gb_char_good: "gb_char c \<Longrightarrow> gb_good c \<and> gb_back c"
proof -
  assume "gb_char c"
  then consider "c < 0x80" | "hanzi c" "\<not> c < 0x80" | "c \<in> set gb_symbols" "\<not> c < 0x80" by (auto simp: gb_char_def)
  then show ?thesis
  proof cases
    case 1
    then show ?thesis by (simp add: gb_good_def gb_back_def gb2312_of_def ucs2_of_def gb_bytes_def)
  next
    case 2
    then show ?thesis using hanzi_good [of c] gb2312_of_hanzi [of c] by (simp add: gb_back_def ucs2_of_def gb_bytes_def)
  next
    case 3
    then show ?thesis using symbols_codes symbol_of [of c] by (simp add: gb_good_def gb_back_def ucs2_of_def gb_bytes_def)
  qed
qed

text \<open>Both ways for a whole text; what does not fit is left for another call.\<close>

lemma gb2312_to_ucs2_text:
  assumes "\<forall>c \<in> set cs. gb_char c" and "k = min (length cs) (n div 2)"
  shows "iconv_gb2312_to_ucs2_endian (gb_text cs) n e =
    Some (length (gb_text (take k cs)), length (gb_text (drop k cs)), ucs2_text e (take k cs), if k < length cs then Some E2BIG else None)"
  using gb2312_loop_text [of cs 0 "gb_text cs" k n "[]" e] assms gb_char_good by (simp add: iconv_gb2312_to_ucs2_endian_def)

lemma ucs2_to_gb2312_text:
  assumes "\<forall>c \<in> set cs. gb_char c" and "2 * length cs \<le> n"
  shows "iconv_ucs2_to_gb2312_endian (ucs2_text e cs) n e = Some (0, 0, gb_text cs, None)"
  using ucs2_gb_loop_text [of cs 0 "ucs2_text e cs" e "[]" n] assms gb_char_good by (simp add: iconv_ucs2_to_gb2312_endian_def)

end
