(* ===== verification/Iconv_spec.thy ===== *)
theory Iconv_spec
  imports Iconv_utf8 Gb2312_spec
begin

text \<open>
  The conversions of the iconv module work in pieces of any size, so that a string of any length is converted whole.
\<close>

section \<open>The conversions\<close>

lemma gb2312_piecewise:
  assumes "fct cd = (\<lambda>src n. iconv_gb2312_to_ucs2_endian src n e)"
  shows "piecewise cd gb_text (ucs2_text e) gb_char"
proof
  fix cs :: "u16 list" and n :: nat assume ok: "\<forall>c \<in> set cs. gb_char c" and "256 \<le> n"
  then have "cs \<noteq> [] \<longrightarrow> 0 < min (length cs) (n div 2)" by simp
  then show "\<exists>k \<le> length cs. (cs \<noteq> [] \<longrightarrow> 0 < k) \<and> fct cd (gb_text cs) n =
      Some (length (gb_text (take k cs)), length (gb_text (drop k cs)), ucs2_text e (take k cs), if k < length cs then Some E2BIG else None)"
    using gb2312_to_ucs2_text [OF ok refl, of n e] unfolding assms by (intro exI [of _ "min (length cs) (n div 2)"]) simp
qed (simp_all add: gb_text_def ucs2_text_def)

interpretation from_gb2312: piecewise "iconv_map ! 2" gb_text "ucs2_text False" gb_char
  by (rule gb2312_piecewise) (simp add: iconv_map_def iconv_gb2312_to_ucs2_def fun_eq_iff)

interpretation from_gb2312be: piecewise "iconv_map ! 3" gb_text "ucs2_text True" gb_char
  by (rule gb2312_piecewise) (simp add: iconv_map_def iconv_gb2312_to_ucs2be_def fun_eq_iff)

interpretation from_utf8: piecewise "iconv_map ! 4" utf8_text "units_bytes False" "\<lambda>v. v \<le> 0xFFFF \<and> utf8_ok v"
  by (rule utf8_piecewise) (simp add: iconv_map_def iconv_utf8_to_ucs2_def taken_def fun_eq_iff)

interpretation from_utf8be: piecewise "iconv_map ! 5" utf8_text "units_bytes True" "\<lambda>v. v \<le> 0xFFFF \<and> utf8_ok v"
  by (rule utf8_piecewise) (simp add: iconv_map_def iconv_utf8_to_ucs2be_def taken_def fun_eq_iff)

interpretation to_utf8: piecewise "iconv_map ! 6" "units_bytes False" utf8_text "\<lambda>v. v \<le> 0xFFFF"
  by (rule ucs2_piecewise) (simp add: iconv_map_def iconv_ucs2_to_utf8_def taken_def fun_eq_iff)

interpretation to_utf8be: piecewise "iconv_map ! 7" "units_bytes True" utf8_text "\<lambda>v. v \<le> 0xFFFF"
  by (rule ucs2_piecewise) (simp add: iconv_map_def iconv_ucs2be_to_utf8_def taken_def fun_eq_iff)

section \<open>From Lua\<close>

definition ucs2_name :: "bool \<Rightarrow> string" where
  "ucs2_name e = (if e then ''ucs2be'' else ''ucs2'')"

lemma opened:
  "Liconv_open (ucs2_name e) ''gb2312'' = Some (iconv_map ! (if e then 3 else 2))"
  "Liconv_open ''gb2312'' (ucs2_name e) = Some (iconv_map ! (if e then 1 else 0))"
  "Liconv_open (ucs2_name e) ''utf8'' = Some (iconv_map ! (if e then 5 else 4))"
  "Liconv_open ''utf8'' (ucs2_name e) = Some (iconv_map ! (if e then 7 else 6))"
  by (simp_all add: Liconv_open_def iconv_open_def ucs2_name_def c_name_def iconv_map_def)

text \<open>The way back to GB2312 does not move its input; but the buffer is never too small for it.\<close>

lemma Liconv_to_gb2312:
  assumes "\<forall>c \<in> set cs. gb_char c"
  shows "Liconv True (iconv_map ! (if e then 1 else 0)) (ucs2_text e cs) = Some (gb_text cs, None)"
proof -
  let ?n = "if length (ucs2_text e cs) > 256 then length (ucs2_text e cs) else 256"
  have "2 * length cs \<le> ?n" by simp
  moreover have "fct (iconv_map ! (if e then 1 else 0)) = (\<lambda>src n. iconv_ucs2_to_gb2312_endian src n e)"
    by (cases e) (simp_all add: iconv_map_def iconv_ucs2_to_gb2312_def iconv_ucs2be_to_gb2312_def fun_eq_iff)
  ultimately have "iconv (iconv_map ! (if e then 1 else 0)) (ucs2_text e cs) ?n = Some (0, 0, gb_text cs, None)"
    using ucs2_to_gb2312_text [OF assms, of ?n e] by (simp only: iconv_def)
  then show ?thesis
    unfolding Liconv_def Let_def by (subst Liconv_loop.simps) (simp del: length_ucs2_text)
qed

lemma Liconv_from_gb2312:
  "\<forall>c \<in> set cs. gb_char c \<Longrightarrow> Liconv True (iconv_map ! (if e then 3 else 2)) (gb_text cs) = Some (ucs2_text e cs, None)"
  using from_gb2312.whole from_gb2312be.whole by (cases e) auto

lemma ucs2_text_units: "ucs2_text e cs = units_bytes e (map (\<lambda>c. ucast (ucs2_of c)) cs)"
proof -
  have "le_bytes (if e then swap16 x else x) = ordered e (ucast (drop_bit 8 (ucast x :: u32))) (ucast (ucast x :: u32))" for x
  proof -
    have b: "(ucast (swap16 x) :: u8) = ucast (drop_bit 8 (ucast x :: u32))" "(ucast (drop_bit 8 (swap16 x)) :: u8) = ucast (ucast x :: u32)"
        "(ucast x :: u8) = ucast (ucast x :: u32)" "(ucast (drop_bit 8 x) :: u8) = ucast (drop_bit 8 (ucast x :: u32))"
      by (rule u8_eqI, auto simp: swap16_def bit_simps)+
    show ?thesis unfolding le_bytes_def ordered_def using b by (cases e) simp_all
  qed
  then show ?thesis by (simp add: ucs2_text_def units_bytes_def comp_def)
qed

text \<open>
  C12. From Lua, a string of ASCII characters, of any of the 6763 ideographs of GB2312 and of the 40 symbols that the
  table for the way back holds is converted to UCS-2, in either byte order, and back to the same bytes. The string may be
  of any length: the conversion takes as many rounds with its buffer as it needs, ends, and reports no error.
\<close>

theorem lua_gb2312_roundtrip:
  assumes "\<forall>c \<in> set cs. gb_char c"
  shows "\<exists>to back. Liconv_open (ucs2_name e) ''gb2312'' = Some to \<and> Liconv_open ''gb2312'' (ucs2_name e) = Some back
    \<and> Liconv True to (gb_text cs) = Some (ucs2_text e cs, None) \<and> Liconv True back (ucs2_text e cs) = Some (gb_text cs, None)"
  unfolding opened option.inject using Liconv_from_gb2312 [OF assms, of e] Liconv_to_gb2312 [OF assms, of e] by blast

lemma sample_text:
  "\<forall>c \<in> set [0x41, 0xB0A1, 0xF7FE, 0xA1A3]. gb_char c"
  "gb_text [0x41, 0xB0A1, 0xF7FE, 0xA1A3] = [0x41, 0xB0, 0xA1, 0xF7, 0xFE, 0xA1, 0xA3]"
  "ucs2_text True [0x41, 0xB0A1, 0xF7FE, 0xA1A3] = [0, 0x41, 0x55, 0x4A, 0x9F, 0x44, 0x30, 0x02]"
proof -
  have h: "hanzi 0xB0A1" "hanzi 0xF7FE" by (simp_all add: hanzi_def Let_def)
  have "hanzi_at 0xB0A1 = 0x554A" "hanzi_at 0xF7FE = 0x9F44" by (simp_all only: gb_hanzi_at)
  then have at: "gb_at 0xB0A1 = 0x554A" "gb_at 0xF7FE = 0x9F44" using h by (simp_all add: hanzi_at_def)
  have symbol: "gb_at 0xA1A3 = 0x3002" by (simp only: gb_symbol_at)
  show "\<forall>c \<in> set [0x41, 0xB0A1, 0xF7FE, 0xA1A3]. gb_char c" using h by (simp add: gb_char_def gb_symbols_def)
  show "gb_text [0x41, 0xB0A1, 0xF7FE, 0xA1A3] = [0x41, 0xB0, 0xA1, 0xF7, 0xFE, 0xA1, 0xA3]"
    by (simp add: gb_bytes_def)
  show "ucs2_text True [0x41, 0xB0A1, 0xF7FE, 0xA1A3] = [0, 0x41, 0x55, 0x4A, 0x9F, 0x44, 0x30, 0x02]"
    by (simp add: ucs2_of_def at symbol le_bytes_def swap16_def)
qed

theorem lua_gb2312_roundtrip_witness:
  "\<exists>to back. Liconv_open ''ucs2be'' ''gb2312'' = Some to \<and> Liconv_open ''gb2312'' ''ucs2be'' = Some back
    \<and> Liconv True to [0x41, 0xB0, 0xA1, 0xF7, 0xFE, 0xA1, 0xA3] = Some ([0, 0x41, 0x55, 0x4A, 0x9F, 0x44, 0x30, 0x02], None)
    \<and> Liconv True back [0, 0x41, 0x55, 0x4A, 0x9F, 0x44, 0x30, 0x02] = Some ([0x41, 0xB0, 0xA1, 0xF7, 0xFE, 0xA1, 0xA3], None)"
  using lua_gb2312_roundtrip [OF sample_text(1), of True] unfolding sample_text by (simp only: ucs2_name_def if_True)

text \<open>
  C13. From Lua, GB2312 becomes UTF-8 by way of UCS-2: of a string as above, of any length and in either byte order, each
  character comes out as the UTF-8 bytes of its code point, and the two conversions end without an error.
\<close>

theorem lua_gb2312_to_utf8:
  assumes "\<forall>c \<in> set cs. gb_char c"
  shows "\<exists>to utf8 u. Liconv_open (ucs2_name e) ''gb2312'' = Some to \<and> Liconv_open ''utf8'' (ucs2_name e) = Some utf8
    \<and> Liconv True to (gb_text cs) = Some (u, None)
    \<and> Liconv True utf8 u = Some (utf8_text (map (\<lambda>c. ucast (ucs2_of c)) cs), None)"
proof -
  let ?us = "map (\<lambda>c. ucast (ucs2_of c) :: u32) cs"
  have "unat (ucast x :: u32) \<le> 0xFFFF" for x :: u16
  proof -
    have "unat (ucast x :: u32) \<le> unat x" by (simp add: unsigned_ucast_eq)
    moreover have "unat x < 2 ^ 16" using unsigned_less [of x, where 'a = nat] by simp
    ultimately show ?thesis by simp
  qed
  then have "\<forall>v \<in> set ?us. v \<le> 0xFFFF" by (simp add: word_le_nat_alt)
  then have "Liconv True (iconv_map ! (if e then 7 else 6)) (units_bytes e ?us) = Some (utf8_text ?us, None)"
    using to_utf8.whole [of ?us] to_utf8be.whole [of ?us] by (cases e) simp_all
  then show ?thesis
    unfolding opened option.inject using Liconv_from_gb2312 [OF assms, of e] ucs2_text_units [of e cs] by auto
qed

theorem lua_gb2312_to_utf8_witness:
  "\<exists>to utf8 u. Liconv_open ''ucs2'' ''gb2312'' = Some to \<and> Liconv_open ''utf8'' ''ucs2'' = Some utf8
    \<and> Liconv True to [0x41, 0x42] = Some (u, None) \<and> Liconv True utf8 u = Some ([0x41, 0x42], None)"
proof -
  have "\<forall>c \<in> set [0x41, 0x42]. gb_char c" by (simp add: gb_char_def)
  moreover have "gb_text [0x41, 0x42] = [0x41, 0x42]" "utf8_text (map (\<lambda>c. ucast (ucs2_of c)) [0x41, 0x42]) = [0x41, 0x42]"
    by (simp_all add: gb_bytes_def ucs2_of_def utf8_bytes_def)
  ultimately show ?thesis using lua_gb2312_to_utf8 [of "[0x41, 0x42]" False] unfolding ucs2_name_def by simp
qed

end
