(* ===== verification/Spec2Isabelle.thy ===== *)
theory Spec2Isabelle
  imports Cycle_Queue Uart Crc Fonts Display Images Lcd Pio Osd Bitarray Utf8 Rtos I2c Sensor Mpu9250 Bmp280
    Digest Digest_spec Aes Base64 Crypto Lua_time
    Lua_pack Lua_bit Luadb_image
    C_string Devman Stdio Stdio_spec Image_files Iconv_spec
begin

text \<open>
  The firmware of a GSM module with an embedded Lua: its platform layer and its own Lua modules.

  \<^bold>\<open>The program.\<close> A Lua interpreter runs the application. Its modules (\<^verbatim>\<open>cust_src/elua/modules\<close>,
  \<^verbatim>\<open>cust_src/elua/lib\<close>) check their arguments and call the platform layer
  (\<^verbatim>\<open>cust_src/elua/platform\<close>), which keeps the state of the devices and calls the kernel through a
  table of functions. The kernel calls back from interrupts and timers; these callbacks queue data and
  send messages to the task that runs Lua, which fetches them with \<^verbatim>\<open>rtos.receive\<close>.

  \<^bold>\<open>How it is modelled.\<close> C data are records and words of their width. The kernel is not part of the
  repository: a call to it is a value that is appended to a list in the state, what it answers comes from
  an argument (an environment record or a function of the calls made so far). Undefined behaviour (an
  access outside an object, a conversion out of range, a shift by the width) is the value \<open>None\<close> of the
  option monad, so that a theorem with \<open>Some\<close> is a memory safety theorem too. Lua errors are the
  constructor \<open>Lua_error\<close>. Counted loops are \<open>for_range\<close>; loops without a bound in the code are
  functions with a measure or, where they may not end, \<open>partial_function (option)\<close>.

  \<^bold>\<open>The theories.\<close>
  \<^item> \<open>C_Prelude\<close>: words, bounded loads and stores, counted loops and their invariant rule, lists.
    \<open>Openat\<close>: messages and answers of the kernel, results of a Lua function.
  \<^item> \<open>Cycle_Queue\<close>, \<open>Uart\<close> (\<^verbatim>\<open>cycle_queue.c\<close>, \<^verbatim>\<open>platform_uart.c\<close>): the ring buffer refines a queue of the newest
    bytes (a locale, interpreted on the code's operations); the UART layer, as a state machine over
    its entry points and interrupts, keeps its buffers well formed, stays in bounds and delivers bytes in
    order; the virtual AT channel and the debug port.
  \<^item> \<open>Crc\<close> (\<^verbatim>\<open>crc.c\<close>): the table-driven checksums are division by their polynomials; no error in one byte escapes.
  \<^item> \<open>Fonts\<close>, \<open>Raster\<close>, \<open>Display\<close>, \<open>Images\<close> (\<^verbatim>\<open>common_disp.c\<close>): fonts built in and loaded, text, bitmaps, rectangles,
    clearing, QR codes, BMP, PNG and JPEG pictures: each drawing operation paints exactly its pixels.
  \<^item> \<open>Lcd\<close> (\<^verbatim>\<open>platform_lcd.c\<close>): initialisation, power saving, and the transfer of the frame buffer.
  \<^item> \<open>Pio\<close> (\<^verbatim>\<open>pio.c\<close>, \<^verbatim>\<open>platform.c\<close>, \<^verbatim>\<open>common.c\<close>): the operations on pins and ports drive exactly the pins named.
    \<open>Osd\<close> (\<^verbatim>\<open>at7456e.c\<close>): the display chip behind four pins; what is sent is described as SPI frames.
  \<^item> \<open>Bitarray\<close> (\<^verbatim>\<open>bitarray.c\<close>), \<open>Utf8\<close> (\<^verbatim>\<open>utf8_to_ucs2.c\<close>): packed elements; conversion of text and its round trip.
  \<^item> \<open>Rtos\<close> (\<^verbatim>\<open>platform_rtos.c\<close>, \<^verbatim>\<open>rtos.c\<close>): the table of Lua timers under interleaving with timer callbacks, the
    way of a message to Lua, directories.
  \<^item> \<open>I2c\<close> (\<^verbatim>\<open>platform_i2c.c\<close>, \<^verbatim>\<open>i2c.c\<close>) and \<open>Sensor\<close>, what the two sensor drivers share;
    what a chip answers to a read depends on the register addressed.
  \<^item> \<open>Ieee\<close>, \<open>Mpu_math\<close>, \<open>Mpu_trig\<close>, \<open>Mpu9250\<close> (\<^verbatim>\<open>mpu9250.c\<close>): double-precision arithmetic on bits; the square root is
    correctly rounded; arcsine and arctangent; the firmware load, the wait for a packet, the attitude.
    \<open>Bmp280\<close> (\<^verbatim>\<open>bmp280.c\<close>): calibration, temperature and pressure, on a chip given by
    the contents of its registers.
  \<^item> \<open>Digest\<close>, \<open>Digest_spec\<close> (\<^verbatim>\<open>aliyun_iot_common_md5.c\<close>, \<^verbatim>\<open>_sha1.c\<close>, \<^verbatim>\<open>_hmac.c\<close>): the buffered block functions against the
    standards; a locale for a block hash, interpreted twice. \<open>Aes\<close> (\<^verbatim>\<open>aes.c\<close>), \<open>Base64\<close>
    (\<^verbatim>\<open>aliyun_iot_common_base64.c\<close>), \<open>Crypto\<close> (\<^verbatim>\<open>crypto.c\<close>): the cipher, the encoding and the Lua module over them.
  \<^item> \<open>Lua_time\<close> (\<^verbatim>\<open>time.c\<close> of the C library): dates against the Gregorian calendar, local time and its inverse.
    \<open>Lua_args\<close>: arguments of Lua functions. \<open>Lua_pack\<close> (\<^verbatim>\<open>lpack.c\<close>), \<open>Lua_bit\<close> (\<^verbatim>\<open>bit.c\<close>): the loop over a format is unrolled
    in a locale that both directions interpret; what is packed is unpacked again, and what is unpacked is
    well typed, by tables of the formats that are apart from those of the code.
  \<^item> \<open>Luadb\<close>, \<open>Luadb_image\<close> (\<^verbatim>\<open>preload.c\<close>, \<^verbatim>\<open>shell.c\<close>): the image of preloaded files, its parser, the table of files that stay in flash,
    and the boot: an image is installed as it was packed, and an update that cannot be read is undone.
  \<^item> \<open>C_string\<close> (\<^verbatim>\<open>string.c\<close>), \<open>Devman\<close> (\<^verbatim>\<open>devman.c\<close>, \<^verbatim>\<open>stubs.c\<close>, \<^verbatim>\<open>genstd.c\<close>, \<^verbatim>\<open>platform_fs.c\<close>): the table of devices, how a path and a
    descriptor reach the file system of the kernel, and the console. \<open>Stdio\<close>, \<open>Stdio_spec\<close> (\<^verbatim>\<open>stdio.c\<close>, \<^verbatim>\<open>findfp.c\<close>): files refine
    their contents with a position, encrypted ones too. \<open>Image_files\<close> (\<^verbatim>\<open>preload.c\<close>): from the packed image to the program that reads a file of it.
  \<^item> \<open>Gb2312_tables\<close>, \<open>Gb2312\<close> (\<^verbatim>\<open>gb2312_to_ucs2.c\<close>, \<^verbatim>\<open>ucs2_to_gb2312.c\<close> with their tables): all tables as they stand, a row or a page of
    characters per definition, and the two conversions. \<open>Gb2312_rank\<close>: the search for an ideograph counts the ones of a bit map
    (a locale over the tables); \<open>Gb2312_check\<close>: the tables agree with each other, computed; \<open>Gb2312_text\<close>, \<open>Gb2312_spec\<close>: whole texts.
    \<open>Iconv\<close>, \<open>Iconv_utf8\<close>, \<open>Iconv_spec\<close> (\<^verbatim>\<open>iconv.c\<close>, \<^verbatim>\<open>luaiconv.c\<close>): conversions by name and the Lua module; a locale for
    conversions that can be continued after a full buffer, interpreted on six of the eight: texts of any length are converted whole.

  \<^bold>\<open>Bounds.\<close> The search loops of the timer and pin tables end at the constants of the code. Two loops may not
  end and are partial functions: the wait for a sensor packet, which returns exactly if a packet comes, and the rounds of an
  iconv conversion, which end because every round takes a character.
  Lengths are limited in the theorems only where the code's integers wrap.

  \<^bold>\<open>Not modelled.\<close> Third-party code (the Lua interpreter, zlib, LZMA, libpng, libqrencode, lua-cjson, the allocator): where
  the code uses its results (decoded pictures, QR modules), they are arguments. The bytes of the built-in fonts
  are an argument with their length, the kernel's decoding is a function that keeps the length. Left out are functions that only pass a call on to the kernel, debug traces,
  code that is compiled out, the chaining mode of AES, which has no caller, the Windows simulator and the host tools.
  Memory requests of the modelled operations are granted unless the operation handles the failure.
\<close>

end
